(* ===== verification/Js_Prelude.thy ===== *)
theory Js_Prelude
  imports Main
begin

text \<open>
  What every theory of the development shares: the JavaScript values that the panels put into
  strings, number formatting, the array and string functions of the language that the sources
  call (\<open>join\<close>, \<open>split\<close>, \<open>slice\<close>, \<open>encodeURIComponent\<close>), and the reader of a
  form-encoded query, which is the abstract specification the panels' query strings are checked
  against.

  Strings are lists of bytes: the UTF-8 encoding of the JavaScript string. So
  \<open>encodeURIComponent\<close>, which escapes the UTF-8 bytes of each code point, is byte by byte.
\<close>

named_theorems js_simps \<open>evaluation of the JavaScript helpers\<close>
named_theorems panel_defs \<open>definitions of the handlers of a panel\<close>

section \<open>Values and their string form\<close>

datatype jsval = JUndef | JNull | JBool bool | JNaN | JNum int | JStr string

fun truthy :: "jsval \<Rightarrow> bool" where
  "truthy JUndef = False"
| "truthy JNull = False"
| "truthy (JBool b) = b"
| "truthy JNaN = False"
| "truthy (JNum n) = (n \<noteq> 0)"
| "truthy (JStr s) = (s \<noteq> '''')"

definition digit_char :: "nat \<Rightarrow> char" where
  "digit_char d = char_of (48 + d)"

fun nat_digits :: "nat \<Rightarrow> string" where
  "nat_digits n = (if n < 10 then [digit_char n] else nat_digits (n div 10) @ [digit_char (n mod 10)])"

declare nat_digits.simps [simp del]

definition int_digits :: "int \<Rightarrow> string" where
  "int_digits i = (if i < 0 then ''-'' @ nat_digits (nat (- i)) else nat_digits (nat i))"

text \<open>The conversion that \<open>+\<close> applies to the operand that is not a string.\<close>

fun to_str :: "jsval \<Rightarrow> string" where
  "to_str JUndef = ''undefined''"
| "to_str JNull = ''null''"
| "to_str (JBool b) = (if b then ''true'' else ''false'')"
| "to_str JNaN = ''NaN''"
| "to_str (JNum n) = int_digits n"
| "to_str (JStr s) = s"

text \<open>A number of the state of a component, \<open>None\<close> for \<open>NaN\<close>.\<close>

definition num_val :: "int option \<Rightarrow> jsval" where
  "num_val n = (case n of Some i \<Rightarrow> JNum i | None \<Rightarrow> JNaN)"

definition digit_value :: "char \<Rightarrow> nat option" where
  "digit_value c = (let n = of_char c in if 48 \<le> n \<and> n \<le> (57::nat) then Some (n - 48) else None)"

abbreviation is_digit :: "char \<Rightarrow> bool" where
  "is_digit c \<equiv> digit_value c \<noteq> None"

fun digits_value :: "nat \<Rightarrow> string \<Rightarrow> nat" where
  "digits_value acc [] = acc"
| "digits_value acc (c # cs) =
     (case digit_value c of Some d \<Rightarrow> digits_value (10 * acc + d) cs | None \<Rightarrow> acc)"

lemma digit_value_digit_char [simp]: "d < 10 \<Longrightarrow> digit_value (digit_char d) = Some d"
  by (simp add: digit_value_def digit_char_def)

lemma digit_value_bound: "digit_value c = Some d \<Longrightarrow> d < 10"
  by (auto simp: digit_value_def Let_def split: if_splits)

lemma digits_value_append:
  "\<forall>c\<in>set xs. is_digit c \<Longrightarrow> digits_value acc (xs @ ys) = digits_value (digits_value acc xs) ys"
  by (induction xs arbitrary: acc) auto

lemma nat_digits_nonempty [simp]: "nat_digits n \<noteq> []"
  by (subst nat_digits.simps) simp

lemma nat_digits_all: "c \<in> set (nat_digits n) \<Longrightarrow> is_digit c"
proof (induction n rule: nat_digits.induct)
  case (1 n)
  show ?case
  proof (cases "n < 10")
    case True
    with "1.prems" show ?thesis by (simp add: nat_digits.simps [of n])
  next
    case False
    with 1 show ?thesis by (auto simp: nat_digits.simps [of n])
  qed
qed

lemma digits_value_nat_digits [simp]: "digits_value 0 (nat_digits n) = n"
proof (induction n rule: nat_digits.induct)
  case (1 n)
  show ?case
  proof (cases "n < 10")
    case True
    then show ?thesis by (simp add: nat_digits.simps [of n])
  next
    case False
    with "1.IH" show ?thesis
      by (simp add: nat_digits.simps [of n] digits_value_append nat_digits_all)
  qed
qed

lemma nat_digits_inject [simp]: "nat_digits m = nat_digits n \<longleftrightarrow> m = n"
  by (metis digits_value_nat_digits)

section \<open>Arrays and strings\<close>

text \<open>\<open>Array.prototype.join\<close> on an array of strings.\<close>

fun join :: "string \<Rightarrow> string list \<Rightarrow> string" where
  "join sep [] = ''''"
| "join sep [x] = x"
| "join sep (x # y # ys) = x @ sep @ join sep (y # ys)"

text \<open>The spaces of \<open>\\s\<close> in regular expressions.\<close>

definition is_space :: "char \<Rightarrow> bool" where
  "is_space c = (let n = (of_char c :: nat) in n = 32 \<or> (9 \<le> n \<and> n \<le> 13))"

text \<open>\<open>String.prototype.split\<close> with a one-character separator.\<close>

fun split_on :: "char \<Rightarrow> string \<Rightarrow> string list" where
  "split_on c [] = [[]]"
| "split_on c (x # xs) =
     (if x = c then [] # split_on c xs
      else (case split_on c xs of [] \<Rightarrow> [[x]] | w # ws \<Rightarrow> (x # w) # ws))"

lemma split_on_nonempty [simp]: "split_on c s \<noteq> []"
  by (induction s) (auto split: list.splits)

lemma split_on_none: "c \<notin> set s \<Longrightarrow> split_on c s = [s]"
  by (induction s) auto

lemma split_on_append:
  "c \<notin> set s \<Longrightarrow> split_on c (s @ c # t) = s # split_on c t"
  by (induction s) auto

lemma split_on_join:
  "ws \<noteq> [] \<Longrightarrow> \<forall>w\<in>set ws. c \<notin> set w \<Longrightarrow> split_on c (join [c] ws) = ws"
proof (induction "[c]" ws rule: join.induct)
  case (3 x y ys)
  then show ?case by (simp add: split_on_append)
qed (auto simp: split_on_none)

lemma join_split_on: "join [c] (split_on c s) = s"
proof (induction s)
  case (Cons x xs)
  obtain w ws where s: "split_on c xs = w # ws"
    by (cases "split_on c xs") auto
  with Cons show ?case by (cases ws) auto
qed simp

text \<open>\<open>s.slice(-n)\<close>: the last \<open>n\<close> characters.\<close>

definition slice_last :: "nat \<Rightarrow> string \<Rightarrow> string" where
  "slice_last n s = drop (length s - n) s"

section \<open>Percent encoding\<close>

text \<open>The characters \<open>encodeURIComponent\<close> leaves alone.\<close>

definition unreserved :: "char \<Rightarrow> bool" where
  "unreserved c = (let n = (of_char c :: nat) in
     (65 \<le> n \<and> n \<le> 90) \<or> (97 \<le> n \<and> n \<le> 122) \<or> (48 \<le> n \<and> n \<le> 57)
     \<or> n \<in> {45, 95, 46, 33, 126, 42, 39, 40, 41})"

definition hex_char :: "nat \<Rightarrow> char" where
  "hex_char d = (if d < 10 then char_of (48 + d) else char_of (55 + d))"

definition hex_value :: "char \<Rightarrow> nat option" where
  "hex_value c = (let n = of_char c in
     if 48 \<le> n \<and> n \<le> (57::nat) then Some (n - 48)
     else if 65 \<le> n \<and> n \<le> 70 then Some (n - 55)
     else if 97 \<le> n \<and> n \<le> 102 then Some (n - 87) else None)"

definition encode_char :: "char \<Rightarrow> string" where
  "encode_char c = (if unreserved c then [c]
     else [CHR ''%'', hex_char (of_char c div 16), hex_char (of_char c mod 16)])"

definition encodeURIComponent :: "string \<Rightarrow> string" where
  "encodeURIComponent s = concat (map encode_char s)"

lemma encodeURIComponent_Nil [simp]: "encodeURIComponent [] = []"
  by (simp add: encodeURIComponent_def)

lemma encodeURIComponent_Cons [simp]:
  "encodeURIComponent (c # s) = encode_char c @ encodeURIComponent s"
  by (simp add: encodeURIComponent_def)

text \<open>
  The reader of a form-encoded value: \<open>+\<close> is a space, \<open>%XY\<close> the byte with that code.
  \<open>None\<close> when an escape is malformed.
\<close>

fun form_decode :: "string \<Rightarrow> string option" where
  "form_decode [] = Some []"
| "form_decode (c # s) =
     (if c = CHR ''%'' then
        (case s of a # b # t \<Rightarrow>
           (case (hex_value a, hex_value b) of
              (Some x, Some y) \<Rightarrow> map_option ((#) (char_of (16 * x + y))) (form_decode t)
            | _ \<Rightarrow> None)
         | _ \<Rightarrow> None)
      else map_option ((#) (if c = CHR ''+'' then CHR '' '' else c)) (form_decode s))"

lemma hex_value_hex_char [simp]: "d < 16 \<Longrightarrow> hex_value (hex_char d) = Some d"
  by (auto simp: hex_value_def hex_char_def)

lemma of_char_less [simp]: "(of_char c :: nat) < 256"
proof -
  have "(of_char c :: nat) = of_char c mod 256" by simp
  then show ?thesis by (metis mod_less_divisor zero_less_numeral)
qed

lemma hex_char_plain:
  "d < 16 \<Longrightarrow> hex_char d \<noteq> CHR ''&'' \<and> hex_char d \<noteq> CHR ''='' \<and> hex_char d \<noteq> CHR ''+''
     \<and> hex_char d \<noteq> CHR '';''"
proof -
  assume "d < 16"
  then have "(of_char (hex_char d) :: nat) \<ge> 48 \<and> (of_char (hex_char d) :: nat) \<notin> {59, 61}"
    by (auto simp: hex_char_def)
  then show ?thesis by auto
qed

lemma form_decode_encode_char [simp]:
  "form_decode (encode_char c @ s) = map_option ((#) c) (form_decode s)"
proof (cases "unreserved c")
  case True
  then have "c \<noteq> CHR ''%'' \<and> c \<noteq> CHR ''+''" by (auto simp: unreserved_def)
  with True show ?thesis by (simp add: encode_char_def)
next
  case False
  have "(of_char c :: nat) div 16 < 16"
    using of_char_less [of c] by (simp add: less_mult_imp_div_less)
  with False show ?thesis by (simp add: encode_char_def)
qed

lemma form_decode_encode [simp]: "form_decode (encodeURIComponent s) = Some s"
  by (induction s) auto

lemma unreserved_separators [simp]:
  "\<not> unreserved (CHR ''&'')" "\<not> unreserved (CHR ''='')" "\<not> unreserved (CHR ''+'')"
  "\<not> unreserved (CHR '';'')" "\<not> unreserved (CHR ''%'')"
  by (simp_all add: unreserved_def)

lemma encode_char_plain:
  assumes "x \<in> set (encode_char c)"
  shows "x \<noteq> CHR ''&'' \<and> x \<noteq> CHR ''='' \<and> x \<noteq> CHR ''+'' \<and> x \<noteq> CHR '';''"
proof (cases "unreserved c")
  case True
  with assms have "unreserved x" by (simp add: encode_char_def)
  then show ?thesis using unreserved_separators by metis
next
  case False
  have d: "(of_char c :: nat) div 16 < 16"
    using of_char_less [of c] by (simp add: less_mult_imp_div_less)
  have m: "(of_char c :: nat) mod 16 < 16" by simp
  from False assms consider "x = CHR ''%''" | "x = hex_char (of_char c div 16)"
    | "x = hex_char (of_char c mod 16)"
    by (auto simp: encode_char_def)
  then show ?thesis
  proof cases
    case 1
    then show ?thesis by simp
  next
    case 2
    then show ?thesis using hex_char_plain [OF d] by metis
  next
    case 3
    then show ?thesis using hex_char_plain [OF m] by metis
  qed
qed

lemma encodeURIComponent_plain:
  "x \<in> set (encodeURIComponent s) \<Longrightarrow>
     x \<noteq> CHR ''&'' \<and> x \<noteq> CHR ''='' \<and> x \<noteq> CHR ''+'' \<and> x \<noteq> CHR '';''"
  by (induction s) (auto dest: encode_char_plain)

section \<open>Reading a query string\<close>

text \<open>
  The specification of the query strings: what a server reads from them. A field is
  \<open>key=value\<close>, fields are separated by \<open>&\<close>, and the value is form-decoded. Keys are kept as
  they are written. A part with no \<open>=\<close> has no value.
\<close>

fun split_eq :: "string \<Rightarrow> string \<times> string option" where
  "split_eq [] = ([], None)"
| "split_eq (c # s) =
     (if c = CHR ''='' then ([], Some s) else (case split_eq s of (k, v) \<Rightarrow> (c # k, v)))"

definition read_field :: "string \<Rightarrow> string \<times> string option" where
  "read_field s = (case split_eq s of (k, v) \<Rightarrow> (k, Option.bind v form_decode))"

definition read_query :: "string \<Rightarrow> (string \<times> string option) list" where
  "read_query q = map read_field (filter (\<lambda>w. w \<noteq> '''') (split_on (CHR ''&'') q))"

definition field :: "string \<Rightarrow> string \<Rightarrow> string" where
  "field k v = k @ ''='' @ v"

text \<open>A key as the sources write them: no separator in it.\<close>

definition plain_key :: "string \<Rightarrow> bool" where
  "plain_key k = (CHR ''&'' \<notin> set k \<and> CHR ''='' \<notin> set k)"

text \<open>A value that needs no escaping: none of the characters a query reader treats specially.\<close>

definition plain_value :: "string \<Rightarrow> bool" where
  "plain_value v = (CHR ''&'' \<notin> set v \<and> CHR ''%'' \<notin> set v \<and> CHR ''+'' \<notin> set v)"

lemma split_eq_field: "CHR ''='' \<notin> set k \<Longrightarrow> split_eq (k @ CHR ''='' # v) = (k, Some v)"
  by (induction k) auto

lemma form_decode_plain: "plain_value v \<Longrightarrow> form_decode v = Some v"
  by (induction v) (auto simp: plain_value_def)

lemma read_field_encoded [js_simps]:
  "plain_key k \<Longrightarrow> read_field (field k (encodeURIComponent v)) = (k, Some v)"
  by (simp add: read_field_def field_def plain_key_def split_eq_field)

lemma read_field_plain [js_simps]:
  "plain_key k \<Longrightarrow> plain_value v \<Longrightarrow> read_field (field k v) = (k, Some v)"
  by (simp add: read_field_def field_def plain_key_def split_eq_field form_decode_plain)

lemma field_nonempty [simp]: "field k v \<noteq> []"
  by (simp add: field_def)

lemma amp_notin_encoded [js_simps]:
  "plain_key k \<Longrightarrow> CHR ''&'' \<notin> set (field k (encodeURIComponent v))"
  using encodeURIComponent_plain [of "CHR ''&''" v] by (auto simp: field_def plain_key_def)

lemma amp_notin_plain [js_simps]:
  "plain_key k \<Longrightarrow> plain_value v \<Longrightarrow> CHR ''&'' \<notin> set (field k v)"
  by (auto simp: field_def plain_key_def plain_value_def)

text \<open>A query that is the join of fields, none with an \<open>&\<close> inside, is read field by field.\<close>

lemma read_query_join:
  assumes "\<forall>w\<in>set ws. CHR ''&'' \<notin> set w"
  shows "read_query (join ''&'' ws) = map read_field (filter (\<lambda>w. w \<noteq> '''') ws)"
proof (cases "ws = []")
  case True
  then show ?thesis by (simp add: read_query_def)
next
  case False
  with assms show ?thesis by (simp add: read_query_def split_on_join)
qed

lemma split_on_append_amp:
  "split_on c (s @ c # t) = split_on c s @ split_on c t"
proof (induction s)
  case (Cons x xs)
  obtain w ws where "split_on c xs = w # ws" by (cases "split_on c xs") auto
  with Cons show ?case by auto
qed simp

lemma read_query_append:
  "read_query (s @ ''&'' @ t) = read_query s @ read_query t"
  by (simp add: read_query_def split_on_append_amp)

lemma read_query_field [js_simps]:
  "CHR ''&'' \<notin> set (field k v) \<Longrightarrow> read_query (field k v) = [read_field (field k v)]"
  by (simp add: read_query_def split_on_none)

lemma read_query_Nil [simp]: "read_query '''' = []"
  by (simp add: read_query_def)

section \<open>Association lists as objects, and lists\<close>

text \<open>
  A JavaScript object used as a dictionary keeps its keys in insertion order: an association
  list. Setting a key that exists keeps its place, \<open>delete\<close> removes the pair.
\<close>

fun obj_set :: "'k \<Rightarrow> 'v \<Rightarrow> ('k \<times> 'v) list \<Rightarrow> ('k \<times> 'v) list" where
  "obj_set k v [] = [(k, v)]"
| "obj_set k v ((k', v') # xs) = (if k = k' then (k, v) # xs else (k', v') # obj_set k v xs)"

definition obj_delete :: "'k \<Rightarrow> ('k \<times> 'v) list \<Rightarrow> ('k \<times> 'v) list" where
  "obj_delete k xs = filter (\<lambda>p. fst p \<noteq> k) xs"

lemma map_of_obj_set [simp]: "map_of (obj_set k v xs) = (map_of xs)(k \<mapsto> v)"
  by (induction k v xs rule: obj_set.induct) auto

lemma map_of_obj_delete [simp]: "map_of (obj_delete k xs) = (map_of xs)(k := None)"
  by (induction xs) (auto simp: obj_delete_def)

lemma keys_obj_set: "set (map fst (obj_set k v xs)) = insert k (set (map fst xs))"
  by (induction k v xs rule: obj_set.induct) auto

lemma keys_obj_delete: "set (map fst (obj_delete k xs)) = set (map fst xs) - {k}"
  by (auto simp: obj_delete_def)

lemma distinct_obj_set: "distinct (map fst xs) \<Longrightarrow> distinct (map fst (obj_set k v xs))"
proof (induction k v xs rule: obj_set.induct)
  case (2 k v k' v' xs)
  then show ?case using keys_obj_set [of k v xs] by auto
qed auto

lemma distinct_obj_delete: "distinct (map fst xs) \<Longrightarrow> distinct (map fst (obj_delete k xs))"
  by (simp add: obj_delete_def distinct_map_filter)

text \<open>Reading an array: \<open>None\<close> is the \<open>undefined\<close> of an index out of range.\<close>

definition nth_opt :: "'a list \<Rightarrow> nat \<Rightarrow> 'a option" where
  "nth_opt xs i = (if i < length xs then Some (xs ! i) else None)"

lemma nth_opt_append_length [simp]: "nth_opt (xs @ y # ys) (length xs) = Some y"
  by (simp add: nth_opt_def)

lemma nth_opt_append_Suc [simp]: "nth_opt (xs @ y # ys) (Suc (length xs)) = nth_opt ys 0"
  by (auto simp: nth_opt_def nth_append)

lemma nth_opt_0 [simp]: "nth_opt [] 0 = None" "nth_opt (x # xs) 0 = Some x"
  by (simp_all add: nth_opt_def)

section \<open>Machines driven by events\<close>

text \<open>
  The interface of a component that reacts to events: where it starts, which events can happen
  in a state, what a handler does, and an invariant that the handlers keep. The states that the
  page can get into are \<open>reachable\<close>.
\<close>

inductive reachable :: "('s \<Rightarrow> bool) \<Rightarrow> ('e \<Rightarrow> 's \<Rightarrow> bool) \<Rightarrow> ('e \<Rightarrow> 's \<Rightarrow> 's) \<Rightarrow> 's \<Rightarrow> bool"
  for init enabled step
where
  reach_init: "init s \<Longrightarrow> reachable init enabled step s"
| reach_step: "reachable init enabled step s \<Longrightarrow> enabled e s \<Longrightarrow> reachable init enabled step (step e s)"

fun all_enabled :: "('e \<Rightarrow> 's \<Rightarrow> bool) \<Rightarrow> ('e \<Rightarrow> 's \<Rightarrow> 's) \<Rightarrow> 'e list \<Rightarrow> 's \<Rightarrow> bool" where
  "all_enabled enabled step [] s = True"
| "all_enabled enabled step (e # es) s = (enabled e s \<and> all_enabled enabled step es (step e s))"

locale machine =
  fixes init :: "'s \<Rightarrow> bool"
    and enabled :: "'e \<Rightarrow> 's \<Rightarrow> bool"
    and step :: "'e \<Rightarrow> 's \<Rightarrow> 's"
    and inv :: "'s \<Rightarrow> bool"
  assumes inv_init: "init s \<Longrightarrow> inv s"
    and inv_step: "inv s \<Longrightarrow> enabled e s \<Longrightarrow> inv (step e s)"
begin

lemma reachable_inv: "reachable init enabled step s \<Longrightarrow> inv s"
  by (induction rule: reachable.induct) (auto intro: inv_init inv_step)

lemma run_reachable:
  "reachable init enabled step s \<Longrightarrow> all_enabled enabled step es s \<Longrightarrow>
     reachable init enabled step (fold step es s)"
  by (induction es arbitrary: s) (auto intro: reach_step)

lemma run_inv: "init s \<Longrightarrow> all_enabled enabled step es s \<Longrightarrow> inv (fold step es s)"
  by (rule reachable_inv, rule run_reachable) (auto intro: reach_init)

end

end
