(* ===== verification/Js_Number.thy ===== *)
theory Js_Number
  imports Js_Prelude Complex_Main
begin

text \<open>
  The functions of the language on texts that depend on characters rather than bytes, \<open>trim\<close> and
  \<open>length\<close>, and the conversion of a text to a number.
\<close>

section \<open>Characters\<close>

text \<open>
  \<open>String.prototype.trim\<close>: the white space and the line ends of the language, as the bytes of their UTF-8
  encoding: the blanks of ASCII, U+00A0, U+1680, U+2000 to U+200A, U+2028, U+2029, U+202F, U+205F, U+3000
  and U+FEFF. Each begins with a byte that no character has inside, so a text begins (ends) with one of
  these characters when its bytes begin (end) with the bytes of the character.
\<close>

definition blanks :: "string list" where
  "blanks = [[CHR 0x20], [CHR 0x09], [CHR 0x0A], [CHR 0x0B], [CHR 0x0C], [CHR 0x0D], [CHR 0xC2, CHR 0xA0], [CHR 0xE1, CHR 0x9A, CHR 0x80]]
     @ map (\<lambda>c. [CHR 0xE2, CHR 0x80, c]) [CHR 0x80, CHR 0x81, CHR 0x82, CHR 0x83, CHR 0x84, CHR 0x85, CHR 0x86, CHR 0x87,
         CHR 0x88, CHR 0x89, CHR 0x8A, CHR 0xA8, CHR 0xA9, CHR 0xAF]
     @ [[CHR 0xE2, CHR 0x81, CHR 0x9F], [CHR 0xE3, CHR 0x80, CHR 0x80], [CHR 0xEF, CHR 0xBB, CHR 0xBF]]"

fun starts_with :: "string \<Rightarrow> string \<Rightarrow> bool" where
  "starts_with [] s = True"
| "starts_with (b # bs) [] = False"
| "starts_with (b # bs) (c # s) = (b = c \<and> starts_with bs s)"

lemma starts_with_drop: "starts_with b s \<Longrightarrow> s = b @ drop (length b) s"
  by (induction b s rule: starts_with.induct) simp_all

lemma starts_with_append: "starts_with b p \<Longrightarrow> starts_with b (p @ r)"
  by (induction b p rule: starts_with.induct) simp_all

definition begins_with :: "string list \<Rightarrow> string \<Rightarrow> string option" where
  "begins_with bs s = List.find (\<lambda>b. b \<noteq> [] \<and> starts_with b s) bs"

lemma begins_with_Some: "begins_with bs s = Some b \<Longrightarrow> b \<in> set bs \<and> b \<noteq> [] \<and> s = b @ drop (length b) s"
  unfolding begins_with_def by (metis (mono_tags, lifting) starts_with_drop find_Some_iff nth_mem)

function strip :: "string list \<Rightarrow> string \<Rightarrow> string" where
  "strip bs s = (case begins_with bs s of Some b \<Rightarrow> strip bs (drop (length b) s) | None \<Rightarrow> s)"
  by pat_completeness auto
termination
proof (relation "measure (\<lambda>(bs, s). length s)")
  fix bs s b
  assume "begins_with bs s = Some b"
  then have "b \<noteq> []" "s = b @ drop (length b) s" using begins_with_Some by blast+
  then have "length s = length b + length (drop (length b) s)" "0 < length b" by (metis length_append, simp)
  then have "length (drop (length b) s) < length s" by linarith
  then show "((bs, drop (length b) s), bs, s) \<in> measure (\<lambda>(bs, s). length s)" by simp
qed simp

declare strip.simps [simp del]

definition js_trim :: "string \<Rightarrow> string" where
  "js_trim s = rev (strip (map rev blanks) (rev (strip blanks s)))"

text \<open>
  \<open>length\<close> of a text: its UTF-16 units. A byte that continues a character counts nothing, and a character
  of four bytes is a pair of units.
\<close>

definition js_length :: "string \<Rightarrow> nat" where
  "js_length s = sum_list (map (\<lambda>c. let n = (of_char c :: nat) in
     if 0x80 \<le> n \<and> n < 0xC0 then 0 else if 0xF0 \<le> n then 2 else 1) s)"

lemma strip_none: "begins_with bs (strip bs s) = None"
proof (induction bs s rule: strip.induct)
  case (1 bs s)
  then show ?case by (cases "begins_with bs s") (simp_all add: strip.simps [of bs s])
qed

lemma strip_id: "begins_with bs s = None \<Longrightarrow> strip bs s = s"
  by (subst strip.simps) simp

lemma strip_end: "\<exists>p. s = p @ strip bs s \<and> set p \<subseteq> \<Union> (set ` set bs)"
proof (induction bs s rule: strip.induct)
  case (1 bs s)
  show ?case
  proof (cases "begins_with bs s")
    case None
    then show ?thesis by (simp add: strip_id)
  next
    case (Some b)
    then obtain p where p: "drop (length b) s = p @ strip bs (drop (length b) s)" "set p \<subseteq> \<Union> (set ` set bs)"
      using "1.IH" by blast
    have b: "b \<in> set bs" "s = b @ drop (length b) s" using begins_with_Some [OF Some] by blast+
    have "s = (b @ p) @ strip bs s" using b(2) p(1) Some by (simp add: strip.simps [of bs s])
    moreover have "set (b @ p) \<subseteq> \<Union> (set ` set bs)" using b(1) p(2) by auto
    ultimately show ?thesis by blast
  qed
qed

lemma begins_with_prefix: "begins_with bs (p @ r) = None \<Longrightarrow> begins_with bs p = None"
  using starts_with_append by (fastforce simp: begins_with_def find_None_iff)

text \<open>Trimming twice is trimming once.\<close>

lemma js_trim_idem [simp]: "js_trim (js_trim s) = js_trim s"
proof -
  define w u where "w = strip blanks s" and "u = strip (map rev blanks) (rev w)"
  obtain p where p: "rev w = p @ u" using strip_end unfolding u_def by blast
  have "w = rev (rev w)" by simp
  also have "\<dots> = rev u @ rev p" unfolding p by simp
  finally have w: "w = rev u @ rev p" .
  have "begins_with blanks w = None" unfolding w_def by (rule strip_none)
  then have "begins_with blanks (rev u) = None" unfolding w by (rule begins_with_prefix)
  then have "strip blanks (rev u) = rev u" by (rule strip_id)
  moreover have "strip (map rev blanks) u = u" unfolding u_def by (rule strip_id [OF strip_none])
  moreover have "js_trim s = rev u" by (simp only: js_trim_def u_def w_def)
  moreover have "js_trim (rev u) = rev (strip (map rev blanks) (rev (strip blanks (rev u))))" by (rule js_trim_def)
  ultimately show ?thesis by (simp only: rev_rev_ident)
qed

definition blank_byte :: "char \<Rightarrow> bool" where
  "blank_byte c = list_ex (\<lambda>b. c \<in> set b) blanks"

lemma trim_blank_bytes: "js_trim s = [] \<Longrightarrow> list_all blank_byte s"
proof -
  assume e: "js_trim s = []"
  obtain p where p: "s = p @ strip blanks s" "set p \<subseteq> \<Union> (set ` set blanks)" using strip_end by blast
  obtain q where q: "rev (strip blanks s) = q @ rev (js_trim s)" "set q \<subseteq> \<Union> (set ` set (map rev blanks))"
    using strip_end [of "rev (strip blanks s)" "map rev blanks"] by (auto simp: js_trim_def)
  have "set (strip blanks s) = set q" using q(1) e by (metis append_Nil2 rev.simps(1) set_rev)
  moreover have "\<Union> (set ` set (map rev blanks)) = \<Union> (set ` set blanks)" by simp
  moreover have "set s = set p \<union> set (strip blanks s)" using p(1) by (metis set_append)
  ultimately have "set s \<subseteq> \<Union> (set ` set blanks)" using p(2) q(2) by auto
  then show ?thesis by (auto simp: list_all_iff blank_byte_def list_ex_iff)
qed

lemma js_trim_id: "v = [] \<or> (\<not> blank_byte (hd v) \<and> \<not> blank_byte (last v)) \<Longrightarrow> js_trim v = v"
proof -
  assume v: "v = [] \<or> (\<not> blank_byte (hd v) \<and> \<not> blank_byte (last v))"
  have f: "begins_with bs s = None" if "\<And>b c. b \<in> set bs \<Longrightarrow> c \<in> set b \<Longrightarrow> blank_byte c" "s = [] \<or> \<not> blank_byte (hd s)" for bs s
  proof (cases "begins_with bs s")
    case (Some b)
    from begins_with_Some [OF this] have b: "b \<in> set bs" "b \<noteq> []" "s = b @ drop (length b) s" by blast+
    then have "hd s = hd b" "s \<noteq> []" by (metis hd_append, metis append_is_Nil_conv)
    then show ?thesis using that b(1,2) hd_in_set [of b] by auto
  qed
  have "strip blanks v = v"
    by (rule strip_id, rule f) (use v in \<open>auto simp: blank_byte_def list_ex_iff\<close>)
  moreover have "strip (map rev blanks) (rev v) = rev v"
    by (rule strip_id, rule f) (use v in \<open>auto simp: blank_byte_def list_ex_iff hd_rev\<close>)
  ultimately show ?thesis by (simp add: js_trim_def)
qed

lemma js_trim_Nil [simp]: "js_trim [] = []"
  by (simp add: js_trim_id)

lemma js_length_Nil [simp]: "js_length [] = 0"
  by (simp add: js_length_def)

text \<open>A text of ASCII characters has as many units as bytes.\<close>

lemma js_length_ascii: "list_all (\<lambda>c. of_char c < (0x80::nat)) s \<Longrightarrow> js_length s = length s"
  by (induction s) (simp_all add: js_length_def Let_def)

text \<open>Three ideographic characters between two ideographic spaces.\<close>

lemma trim_ideographic:
  "let c = map char_of [0xE6, 0xBC, (0xA2::nat)]; b = map char_of [0xE3, 0x80, (0x80::nat)] in
   js_trim (b @ c @ c @ c @ b) = c @ c @ c \<and> js_length (c @ c @ c) = 3"
  by code_simp

section \<open>Numbers\<close>

text \<open>
  \<open>Number\<close> of a text: blanks around it are ignored, the empty text is zero; decimal
  literals with a fraction and an exponent, hexadecimal ones, and \<open>Infinity\<close> (the grammar of ECMAScript 5). The
  value is kept exactly, where JavaScript rounds it to 53 bits.
\<close>

datatype jnum = Fin rat | Infinite bool | Not_a_number

definition digits_rat :: "string \<Rightarrow> rat" where
  "digits_rat s = of_int (int (digits_value 0 s))"

definition mantissa :: "string \<Rightarrow> rat option" where
  "mantissa s =
     (case split_on (CHR ''.'') s of
        [w] \<Rightarrow> if w \<noteq> [] \<and> list_all is_digit w then Some (digits_rat w) else None
      | [w, f] \<Rightarrow> if (w \<noteq> [] \<or> f \<noteq> []) \<and> list_all is_digit (w @ f)
                  then Some (digits_rat w + digits_rat f / 10 ^ length f) else None
      | _ \<Rightarrow> None)"

definition exponent :: "string \<Rightarrow> int option" where
  "exponent s =
     (case s of
        c # t \<Rightarrow> (let u = (if c = CHR ''-'' \<or> c = CHR ''+'' then t else s)
                 in if u \<noteq> [] \<and> list_all is_digit u
                    then Some ((if c = CHR ''-'' then -1 else 1) * int (digits_value 0 u)) else None)
      | [] \<Rightarrow> None)"

definition decimal :: "string \<Rightarrow> rat option" where
  "decimal s =
     (let m = takeWhile (\<lambda>c. c \<noteq> CHR ''e'' \<and> c \<noteq> CHR ''E'') s; r = dropWhile (\<lambda>c. c \<noteq> CHR ''e'' \<and> c \<noteq> CHR ''E'') s
      in case r of
           [] \<Rightarrow> mantissa m
         | c # e \<Rightarrow> (case (mantissa m, exponent e) of
                      (Some x, Some k) \<Rightarrow> Some (if k \<ge> 0 then x * 10 ^ nat k else x / 10 ^ nat (- k))
                    | _ \<Rightarrow> None))"

definition hex_number :: "string \<Rightarrow> rat option" where
  "hex_number s =
     (case s of
        a # b # t \<Rightarrow> if a = CHR ''0'' \<and> (b = CHR ''x'' \<or> b = CHR ''X'') \<and> t \<noteq> [] \<and> list_all (\<lambda>c. hex_value c \<noteq> None) t
                    then Some (of_int (int (foldl (\<lambda>n c. 16 * n + the (hex_value c)) 0 t))) else None
      | _ \<Rightarrow> None)"

definition to_number :: "string \<Rightarrow> jnum" where
  "to_number s =
     (let t = js_trim s;
          signed = (case t of c # u \<Rightarrow> if c = CHR ''-'' \<or> c = CHR ''+'' then u else t | [] \<Rightarrow> []);
          minus = (take 1 t = ''-'')
      in if t = [] then Fin 0
         else if signed = ''Infinity'' then Infinite (\<not> minus)
         else case hex_number t of
                Some x \<Rightarrow> Fin x
              | None \<Rightarrow> (case decimal signed of Some x \<Rightarrow> Fin (if minus then - x else x) | None \<Rightarrow> Not_a_number))"

text \<open>Comparison: with \<open>NaN\<close> it fails.\<close>

fun num_le :: "jnum \<Rightarrow> jnum \<Rightarrow> bool" where
  "num_le (Fin x) (Fin y) = (x \<le> y)"
| "num_le (Fin x) (Infinite p) = p"
| "num_le (Infinite p) (Fin y) = (\<not> p)"
| "num_le (Infinite p) (Infinite q) = (\<not> p \<or> q)"
| "num_le _ _ = False"

text \<open>The number itself, where it is finite.\<close>

definition finite_num :: "jnum \<Rightarrow> rat option" where
  "finite_num n = (case n of Fin x \<Rightarrow> Some x | _ \<Rightarrow> None)"

text \<open>What a number is converted to where an integer is needed: the part before the point.\<close>

definition trunc :: "rat \<Rightarrow> int" where
  "trunc x = (if x < 0 then \<lceil>x\<rceil> else \<lfloor>x\<rfloor>)"

lemma finite_num_simps [simp]:
  "finite_num (Fin x) = Some x" "finite_num (Infinite p) = None" "finite_num Not_a_number = None"
  by (simp_all add: finite_num_def)

lemma trunc_int [simp]:
  "trunc (of_int n) = n" "trunc (of_int m + of_int n) = m + n" "trunc (of_int m - of_int n) = m - n"
  "trunc (of_nat k) = int k" "trunc (of_nat k - 1) = int k - 1"
proof -
  have i: "trunc (of_int n) = n" for n by (simp add: trunc_def)
  show "trunc (of_int n) = n" by (rule i)
  show "trunc (of_int m + of_int n) = m + n" unfolding of_int_add [symmetric] by (rule i)
  show "trunc (of_int m - of_int n) = m - n" unfolding of_int_diff [symmetric] by (rule i)
  show "trunc (of_nat k) = int k" using i [of "int k"] by simp
  have "of_nat k - 1 = (of_int (int k - 1) :: rat)" by simp
  then show "trunc (of_nat k - 1) = int k - 1" by (simp only: i)
qed

text \<open>A text of digits is its number.\<close>

lemma digits_not_blank: "is_digit c \<Longrightarrow> \<not> blank_byte c"
proof -
  assume "is_digit c"
  then have "48 \<le> (of_char c :: nat) \<and> (of_char c :: nat) \<le> 57" by (auto simp: digit_value_def Let_def split: if_splits)
  moreover have "\<not> (48 \<le> (of_char b :: nat) \<and> (of_char b :: nat) \<le> 57)" if "blank_byte b" for b
    using that by (auto simp: blank_byte_def blanks_def)
  ultimately show ?thesis by auto
qed

lemma takeWhile_all: "list_all P s \<Longrightarrow> takeWhile P s = s \<and> dropWhile P s = []"
  by (auto simp: list_all_iff)

lemma decimal_plain:
  assumes "list_all (\<lambda>c. c \<noteq> CHR ''e'' \<and> c \<noteq> CHR ''E'') s"
  shows "decimal s = mantissa s"
  unfolding decimal_def Let_def takeWhile_all [OF assms, THEN conjunct1] takeWhile_all [OF assms, THEN conjunct2] by simp

lemma to_number_digits:
  assumes "s \<noteq> ''''" "\<And>c. c \<in> set s \<Longrightarrow> is_digit c"
  shows "to_number s = Fin (of_nat (digits_value 0 s))"
proof -
  have p: "c \<noteq> CHR ''-'' \<and> c \<noteq> CHR ''+'' \<and> c \<noteq> CHR ''e'' \<and> c \<noteq> CHR ''E'' \<and> c \<noteq> CHR ''.'' \<and> c \<noteq> CHR ''x'' \<and> c \<noteq> CHR ''X'' \<and> c \<noteq> CHR ''I''"
    if "c \<in> set s" for c
    using assms(2) [OF that] by (auto simp: digit_value_def Let_def split: if_splits)
  obtain c r where s: "s = c # r" using assms(1) by (cases s) auto
  have t: "js_trim s = s"
    by (rule js_trim_id) (use assms digits_not_blank hd_in_set [of s] last_in_set [of s] in blast)
  have d: "decimal s = Some (of_nat (digits_value 0 s))"
  proof -
    have "decimal s = mantissa s" by (rule decimal_plain) (use p in \<open>auto simp: list_all_iff\<close>)
    moreover have "split_on (CHR ''.'') s = [s]" by (rule split_on_none) (use p in blast)
    ultimately show ?thesis using assms by (simp add: mantissa_def digits_rat_def list_all_iff)
  qed
  have h: "hex_number s = None"
  proof (cases r)
    case Nil
    then show ?thesis using s by (simp add: hex_number_def)
  next
    case (Cons b u)
    then have "b \<noteq> CHR ''x''" "b \<noteq> CHR ''X''" using p [of b] s by simp_all
    then show ?thesis using s Cons by (simp add: hex_number_def)
  qed
  have c: "c \<noteq> CHR ''-''" "c \<noteq> CHR ''+''" "s \<noteq> ''Infinity''" using p [of c] s by auto
  have g: "(case s of c # u \<Rightarrow> if c = CHR ''-'' \<or> c = CHR ''+'' then u else s | [] \<Rightarrow> []) = s" "take 1 s \<noteq> ''-''"
    using c s by simp_all
  show ?thesis using assms(1) by (simp only: to_number_def Let_def t g c(3) h d if_False option.case)
qed

end
