(* ===== verification/Core_Converter.thy ===== *)
theory Core_Converter
  imports Js_Number
begin

text \<open>
  The value conversions of \<open>core.js\<close>: \<open>DcmgrGUI.Converter\<close> (disk sizes, units),
  \<open>DcmgrGUI.date\<close> (ISO 8601 dates) and the pure functions of \<open>DcmgrGUI.Util\<close>.
\<close>

section \<open>Disk sizes\<close>

text \<open>
  The multiplications and divisions are by powers of two, which a double does exactly: numbers
  are rationals here. The literal gives the key \<open>EB\<close> twice: the object keeps its first place
  and its last value. A result is a number followed by a unit, printed one after the other.
\<close>

datatype quantity = Q_Undef | Q_Empty | Q_Num rat

datatype display = D_Empty | D_NaN | D_Size rat string

definition byte_units :: "(string \<times> rat) list" where
  "byte_units = fold (\<lambda>(k, v). obj_set k v)
     [(''B'', 1), (''KB'', 1024), (''MB'', 1024 ^ 2), (''GB'', 1024 ^ 3), (''TB'', 1024 ^ 4),
      (''PB'', 1024 ^ 5), (''EB'', 1024 ^ 6), (''EB'', 1024 ^ 7), (''ZB'', 1024 ^ 8), (''YB'', 1024 ^ 9)] []"

definition to_upper :: "string \<Rightarrow> string" where
  "to_upper s = map (\<lambda>c. let n = (of_char c :: nat) in if 97 \<le> n \<and> n \<le> 122 then char_of (n - 32) else c) s"

definition unit_bytes :: "string \<Rightarrow> rat option" where
  "unit_bytes u = map_of byte_units u"

definition toDisplayDiskSize :: "quantity \<Rightarrow> string option \<Rightarrow> display" where
  "toDisplayDiskSize qty in_unit =
     (case qty of
        Q_Undef \<Rightarrow> D_Empty
      | Q_Empty \<Rightarrow> D_Empty
      | Q_Num n \<Rightarrow>
          if n = 0 then D_Empty
          else (let u0 = (case in_unit of None \<Rightarrow> ''B'' | Some u \<Rightarrow> u) in
            case unit_bytes (to_upper u0) of
              None \<Rightarrow> D_NaN
            | Some m \<Rightarrow>
                let b = n * m in
                if b < 1024 ^ 3 then D_Size (b / 1024 ^ 2) ''MB''
                else (case List.find (\<lambda>(k, v). b < v) byte_units of
                        None \<Rightarrow> D_NaN
                      | Some (k, v) \<Rightarrow> D_Size (b / v) k)))"

lemma byte_units_eq:
  "byte_units = [(''B'', 1), (''KB'', 1024), (''MB'', 1024 ^ 2), (''GB'', 1024 ^ 3), (''TB'', 1024 ^ 4),
      (''PB'', 1024 ^ 5), (''EB'', 1024 ^ 7), (''ZB'', 1024 ^ 8), (''YB'', 1024 ^ 9)]"
  by (simp add: byte_units_def)

lemma byte_units_pos: "(k, v) \<in> set byte_units \<Longrightarrow> 0 < v"
  by (auto simp: byte_units_eq)

lemma byte_units_map_of: "(k, v) \<in> set byte_units \<Longrightarrow> unit_bytes k = Some v"
  by (auto simp: byte_units_eq unit_bytes_def)

lemma find_unit:
  assumes "List.find (\<lambda>(k, v). (b :: rat) < v) byte_units = Some (k, v)"
  shows "unit_bytes k = Some v \<and> b < v \<and> 0 < v"
proof -
  from assms obtain i where i: "i < length byte_units" "byte_units ! i = (k, v)" and "b < v"
    by (auto simp: find_Some_iff)
  have "(k, v) \<in> set byte_units" using i nth_mem by metis
  with \<open>b < v\<close> show ?thesis using byte_units_map_of byte_units_pos by blast
qed

text \<open>
  what is printed is exact: the number times the bytes of the printed unit is the quantity
  times the bytes of the unit it was given in.
\<close>

theorem display_size_exact:
  assumes "toDisplayDiskSize (Q_Num n) (Some u) = D_Size x k"
  shows "\<exists>m v. unit_bytes (to_upper u) = Some m \<and> unit_bytes k = Some v \<and> x * v = n * m"
proof -
  have mb: "unit_bytes ''MB'' = Some (1024 ^ 2)" by (simp add: unit_bytes_def byte_units_eq)
  from assms obtain m where m: "unit_bytes (to_upper u) = Some m"
    by (auto simp: toDisplayDiskSize_def split: if_splits option.splits)
  show ?thesis
  proof (cases "n * m < 1024 ^ 3")
    case True
    with assms m have "k = ''MB''" "x = n * m / 1024 ^ 2"
      by (auto simp: toDisplayDiskSize_def Let_def split: if_splits)
    with m mb show ?thesis by (intro exI [of _ m] exI [of _ "1024 ^ 2"]) simp
  next
    case False
    with assms m obtain v where "List.find (\<lambda>(k, v). n * m < v) byte_units = Some (k, v)" "x = n * m / v"
      by (auto simp: toDisplayDiskSize_def Let_def split: if_splits option.splits)
    with find_unit have "unit_bytes k = Some v" "0 < v" by blast+
    with m \<open>x = n * m / v\<close> show ?thesis by (intro exI [of _ m] exI [of _ v]) simp
  qed
qed

lemma display_size_exact_witness:
  "\<exists>m v. unit_bytes (to_upper ''mb'') = Some m \<and> unit_bytes ''TB'' = Some v \<and> (5 / 512) * v = 10240 * m"
proof -
  have "to_upper ''mb'' = ''MB''" by code_simp
  then have "toDisplayDiskSize (Q_Num 10240) (Some ''mb'') = D_Size (5 / 512) ''TB''"
    by (simp add: toDisplayDiskSize_def unit_bytes_def byte_units_eq)
  then show ?thesis by (rule display_size_exact)
qed

text \<open>
  a size of a gigabyte or more is never printed as a number of its own unit: the unit is the
  first one that is larger, so the number is a fraction below one (ten gigabytes are
  \<open>0.009765625TB\<close>), and from \<open>1024 ^ 9\<close> bytes on nothing is larger and the text is not a size.
\<close>

theorem display_size_below_one:
  assumes "unit_bytes (to_upper u) = Some m" and "1024 ^ 3 \<le> n * m"
  shows "if n * m < 1024 ^ 9
     then (\<exists>x k. toDisplayDiskSize (Q_Num n) (Some u) = D_Size x k \<and> 0 < x \<and> x < 1)
     else toDisplayDiskSize (Q_Num n) (Some u) = D_NaN"
proof -
  have n: "n \<noteq> 0" using assms(2) by auto
  show ?thesis
  proof (cases "List.find (\<lambda>(k, v). n * m < v) byte_units")
    case None
    have "(''YB'', 1024 ^ 9) \<in> set byte_units" by (simp add: byte_units_eq)
    moreover from None have "\<forall>p\<in>set byte_units. \<not> (case p of (k, v) \<Rightarrow> n * m < v)"
      by (auto simp: find_None_iff)
    ultimately have "\<not> n * m < 1024 ^ 9" by fastforce
    with None n assms show ?thesis by (simp add: toDisplayDiskSize_def)
  next
    case (Some p)
    obtain k v where p: "p = (k, v)" by fastforce
    from Some p obtain i where "i < length byte_units" "byte_units ! i = (k, v)"
      by (auto simp: find_Some_iff)
    then have mem: "(k, v) \<in> set byte_units" using nth_mem by metis
    from Some p find_unit have v: "n * m < v" "0 < v" by blast+
    moreover have "v \<le> 1024 ^ 9" using mem by (auto simp: byte_units_eq)
    moreover have "0 < n * m" using assms(2) by (auto intro: less_le_trans [rotated])
    ultimately show ?thesis using Some p n assms by (simp add: toDisplayDiskSize_def)
  qed
qed

lemma display_size_below_one_witness:
  "\<exists>x k. toDisplayDiskSize (Q_Num 10) (Some ''GB'') = D_Size x k \<and> 0 < x \<and> x < 1"
proof -
  have u: "unit_bytes (to_upper ''GB'') = Some (1024 ^ 3)"
    by (simp add: to_upper_def unit_bytes_def byte_units_eq)
  show ?thesis using display_size_below_one [OF u, of 10] by simp
qed

definition converter_unit :: "jsval \<Rightarrow> string \<Rightarrow> string" where
  "converter_unit data unit_type =
     to_str data @ (if unit_type = ''megabyte'' then ''MB'' else if unit_type = ''gigabyte'' then ''GB'' else '''')"

section \<open>Dates\<close>

text \<open>
  A date is seen through its reading in UTC, kept normalised: the year, the month from \<open>0\<close>, the
  day from \<open>1\<close>, and the milliseconds of the day. The setters are those of \<open>timezoneJS.Date\<close>: each
  replaces one component of that reading and normalises, so a day that the month does not have
  runs over into the next month, and each throws when its number is \<open>NaN\<close>. How the class keeps
  a date, and that these setters are what it does, is shown with its model.
\<close>

record date =
  year :: int
  month :: int
  day :: int
  ms :: int

definition leap :: "int \<Rightarrow> bool" where
  "leap y = ((y mod 4 = 0 \<and> y mod 100 \<noteq> 0) \<or> y mod 400 = 0)"

definition days_in_month :: "int \<Rightarrow> int \<Rightarrow> int" where
  "days_in_month y m =
     (if m = 1 then (if leap y then 29 else 28) else if m \<in> {3, 5, 8, 10} then 30 else 31)"

definition norm_month :: "int \<Rightarrow> int \<Rightarrow> int \<times> int" where
  "norm_month y m = (y + m div 12, m mod 12)"

lemma days_in_month_bounds: "28 \<le> days_in_month y m" "days_in_month y m \<le> 31"
  by (auto simp: days_in_month_def)

function norm_day :: "int \<Rightarrow> int \<Rightarrow> int \<Rightarrow> int \<times> int \<times> int" where
  "norm_day y m d =
     (if days_in_month y m < d then
        (case norm_month y (m + 1) of (y', m') \<Rightarrow> norm_day y' m' (d - days_in_month y m))
      else if d < 1 then
        (case norm_month y (m - 1) of (y', m') \<Rightarrow> norm_day y' m' (d + days_in_month y' m'))
      else (y, m, d))"
  by pat_completeness auto
termination
proof (relation "measure (\<lambda>(y, m, d). if d < 1 then nat (1 - d) + 31 else nat d)")
  fix y m d x y' m' :: int
  assume "\<not> days_in_month y m < d" "d < 1"
  then show "((y', m', d + days_in_month y' m'), y, m, d)
      \<in> measure (\<lambda>(y, m, d). if d < 1 then nat (1 - d) + 31 else nat d)"
    using days_in_month_bounds [of y' m'] by auto
next
  fix y m d x y' m' :: int
  assume "days_in_month y m < d"
  then show "((y', m', d - days_in_month y m), y, m, d)
      \<in> measure (\<lambda>(y, m, d). if d < 1 then nat (1 - d) + 31 else nat d)"
    using days_in_month_bounds [of y m] by auto
qed simp

declare norm_day.simps [simp del]

text \<open>Month, day and time out of range carry into the larger unit.\<close>

definition make_date :: "int \<Rightarrow> int \<Rightarrow> int \<Rightarrow> int \<Rightarrow> date" where
  "make_date y m d t =
     (case norm_month y m of (y', m') \<Rightarrow>
        (case norm_day y' m' (d + t div 86400000) of (y'', m'', d'') \<Rightarrow>
           \<lparr>year = y'', month = m'', day = d'', ms = t mod 86400000\<rparr>))"

definition hours_of :: "date \<Rightarrow> int" where "hours_of dt = ms dt div 3600000"
definition minutes_of :: "date \<Rightarrow> int" where "minutes_of dt = ms dt div 60000 mod 60"
definition seconds_of :: "date \<Rightarrow> int" where "seconds_of dt = ms dt div 1000 mod 60"
definition millis_of :: "date \<Rightarrow> int" where "millis_of dt = ms dt mod 1000"

definition time_ms :: "int \<Rightarrow> int \<Rightarrow> int \<Rightarrow> int \<Rightarrow> int" where
  "time_ms h mi s u = h * 3600000 + mi * 60000 + s * 1000 + u"

text \<open>
  A setter takes the part of its number before the point. \<open>None\<close> as a number is \<open>NaN\<close>; \<open>None\<close> as a date is the
  exception that ended the calls. An infinite number, or one so large that the date leaves the range of
  \<open>Date\<close>, makes the date invalid in JavaScript: the model has no invalid dates, and the theorems on the class
  in \<open>Tz_Display\<close> have the numbers in range.
\<close>

definition setUTCFullYear :: "rat option \<Rightarrow> date option \<Rightarrow> date option" where
  "setUTCFullYear n dt = (case (n, dt) of
     (Some y, Some d) \<Rightarrow> Some (make_date (trunc y) (month d) (day d) (ms d)) | _ \<Rightarrow> None)"

definition setUTCMonth :: "rat option \<Rightarrow> date option \<Rightarrow> date option" where
  "setUTCMonth n dt = (case (n, dt) of
     (Some m, Some d) \<Rightarrow> Some (make_date (year d) (trunc m) (day d) (ms d)) | _ \<Rightarrow> None)"

definition setUTCDate :: "rat option \<Rightarrow> date option \<Rightarrow> date option" where
  "setUTCDate n dt = (case (n, dt) of
     (Some x, Some d) \<Rightarrow> Some (make_date (year d) (month d) (trunc x) (ms d)) | _ \<Rightarrow> None)"

definition setUTCTime :: "(date \<Rightarrow> int \<Rightarrow> int) \<Rightarrow> rat option \<Rightarrow> date option \<Rightarrow> date option" where
  "setUTCTime f n dt = (case (n, dt) of
     (Some x, Some d) \<Rightarrow> Some (make_date (year d) (month d) (day d) (f d (trunc x))) | _ \<Rightarrow> None)"

definition setUTCHours :: "rat option \<Rightarrow> date option \<Rightarrow> date option" where
  "setUTCHours = setUTCTime (\<lambda>d h. time_ms h (minutes_of d) (seconds_of d) (millis_of d))"

definition setUTCMinutes :: "rat option \<Rightarrow> date option \<Rightarrow> date option" where
  "setUTCMinutes = setUTCTime (\<lambda>d m. time_ms (hours_of d) m (seconds_of d) (millis_of d))"

definition setUTCSeconds :: "rat option \<Rightarrow> date option \<Rightarrow> date option" where
  "setUTCSeconds = setUTCTime (\<lambda>d s. time_ms (hours_of d) (minutes_of d) s (millis_of d))"

definition setUTCMilliseconds :: "rat option \<Rightarrow> date option \<Rightarrow> date option" where
  "setUTCMilliseconds = setUTCTime (\<lambda>d u. time_ms (hours_of d) (minutes_of d) (seconds_of d) u)"

text \<open>
  \<open>parseISO8601\<close>: an index past the end of a split is \<open>undefined\<close>, on which \<open>split\<close> throws
  (\<open>None\<close> here) and \<open>Number\<close> is \<open>NaN\<close>. The new date starts as the present, \<open>now\<close>.
\<close>

definition number_at :: "string list \<Rightarrow> nat \<Rightarrow> jnum" where
  "number_at xs i = (case nth_opt xs i of Some s \<Rightarrow> to_number s | None \<Rightarrow> Not_a_number)"

definition minus_one :: "jnum \<Rightarrow> jnum" where
  "minus_one n = (case n of Fin x \<Rightarrow> Fin (x - 1) | _ \<Rightarrow> n)"

definition parseISO8601 :: "date \<Rightarrow> string \<Rightarrow> date option" where
  "parseISO8601 now str =
     (let parts = split_on (CHR ''T'') str in
      case nth_opt parts 1 of
        None \<Rightarrow> None
      | Some p1 \<Rightarrow>
          let dateParts = split_on (CHR ''-'') (parts ! 0);
              timeParts = split_on (CHR ''Z'') p1;
              timeSubParts = split_on (CHR '':'') (timeParts ! 0)
          in case nth_opt timeSubParts 2 of
               None \<Rightarrow> None
             | Some sec \<Rightarrow>
                 let timeSecParts = split_on (CHR ''.'') sec;
                     d1 = setUTCFullYear (finite_num (number_at dateParts 0)) (Some now);
                     d2 = setUTCMonth (finite_num (minus_one (number_at dateParts 1))) d1;
                     d3 = setUTCDate (finite_num (number_at dateParts 2)) d2;
                     d4 = setUTCHours (finite_num (number_at timeSubParts 0)) d3;
                     d5 = setUTCMinutes (finite_num (number_at timeSubParts 1)) d4;
                     d6 = setUTCSeconds (finite_num (number_at timeSecParts 0)) d5
                 in (case nth_opt timeSecParts 1 of
                      Some u \<Rightarrow> if u \<noteq> '''' then setUTCMilliseconds (finite_num (to_number u)) d6 else d6
                    | None \<Rightarrow> d6))"

definition setTimezoneOffset :: "rat option \<Rightarrow> date \<Rightarrow> date option" where
  "setTimezoneOffset utc_offset dt = setUTCSeconds utc_offset (Some dt)"

definition convert2 :: "int \<Rightarrow> string" where
  "convert2 v = slice_last 2 (''0'' @ int_digits v)"

text \<open>
  \<open>getI18n\<close> gives six texts to the message \<open>display_date\<close>; \<open>prop\<close> stands for the
  catalogue. A date has two readings after \<open>setTimezone\<close>: the year is read in UTC
  (\<open>utc\<close>), the other five components in the configured zone (\<open>loc\<close>).
\<close>

definition getI18n :: "(string \<Rightarrow> string list \<Rightarrow> string) \<Rightarrow> date \<Rightarrow> date \<Rightarrow> string" where
  "getI18n prop utc loc =
     prop ''display_date''
       [int_digits (year utc), convert2 (month loc + 1), convert2 (day loc),
        convert2 (hours_of loc), convert2 (minutes_of loc), convert2 (seconds_of loc)]"

text \<open>
  \<open>zone\<close> is what \<open>setTimezone\<close> does with the configured zone: the reading of the date in it, or
  the exception of a zone that cannot be loaded. \<open>utcToLocal\<close> catches every exception and gives
  the text back.
\<close>

definition utcToLocal ::
  "(string \<Rightarrow> string list \<Rightarrow> string) \<Rightarrow> (date \<Rightarrow> date option) \<Rightarrow> date \<Rightarrow> string \<Rightarrow> string" where
  "utcToLocal prop zone now str =
     (case parseISO8601 now str of
        Some dt \<Rightarrow> (case zone dt of Some loc \<Rightarrow> getI18n prop dt loc | None \<Rightarrow> str)
      | None \<Rightarrow> str)"

subsection \<open>Reading back a date that the server printed\<close>

definition date_ok :: "date \<Rightarrow> bool" where
  "date_ok d = (0 \<le> month d \<and> month d < 12 \<and> 1 \<le> day d \<and> day d \<le> days_in_month (year d) (month d)
     \<and> 0 \<le> ms d \<and> ms d < 86400000)"

definition pad2 :: "nat \<Rightarrow> string" where
  "pad2 n = (if n < 10 then ''0'' else '''') @ nat_digits n"

definition iso8601 :: "nat \<Rightarrow> nat \<Rightarrow> nat \<Rightarrow> nat \<Rightarrow> nat \<Rightarrow> nat \<Rightarrow> string" where
  "iso8601 y mo d h mi s =
     nat_digits y @ ''-'' @ pad2 mo @ ''-'' @ pad2 d @ ''T'' @ pad2 h @ '':'' @ pad2 mi @ '':'' @ pad2 s @ ''Z''"

definition fields_ok :: "nat \<Rightarrow> nat \<Rightarrow> nat \<Rightarrow> nat \<Rightarrow> nat \<Rightarrow> nat \<Rightarrow> bool" where
  "fields_ok y mo d h mi s = (1000 \<le> y \<and> y \<le> 9999 \<and> 1 \<le> mo \<and> mo \<le> 12 \<and> 1 \<le> d \<and> int d \<le> days_in_month (int y) (int mo - 1)
     \<and> h < 24 \<and> mi < 60 \<and> s < 60)"

lemma is_digit_plain:
  "is_digit c \<Longrightarrow> c \<noteq> CHR ''-'' \<and> c \<noteq> CHR ''T'' \<and> c \<noteq> CHR '':'' \<and> c \<noteq> CHR ''Z'' \<and> c \<noteq> CHR ''.''
     \<and> c \<noteq> CHR ''+''"
  by (auto simp: digit_value_def Let_def split: if_splits)

lemma pad2_digits: "c \<in> set (pad2 n) \<Longrightarrow> is_digit c"
  using nat_digits_all by (auto simp: pad2_def digit_value_def split: if_splits)

lemma digits_notin:
  assumes "\<And>c. c \<in> set s \<Longrightarrow> is_digit c"
  shows "CHR ''-'' \<notin> set s" "CHR ''T'' \<notin> set s" "CHR '':'' \<notin> set s" "CHR ''Z'' \<notin> set s" "CHR ''.'' \<notin> set s"
  using assms is_digit_plain by blast+

lemmas pad2_notin [simp] = digits_notin [OF pad2_digits]
lemmas nat_digits_notin [simp] = digits_notin [OF nat_digits_all]

lemma pad2_nonempty [simp]: "pad2 n \<noteq> []"
  by (simp add: pad2_def)

lemma digits_value_pad2 [simp]: "digits_value 0 (pad2 n) = n"
  by (simp add: pad2_def digit_value_def)

lemma to_number_pad2 [simp]: "to_number (pad2 n) = Fin (of_nat n)"
  by (simp add: to_number_digits pad2_digits)

lemma to_number_nat_digits [simp]: "to_number (nat_digits n) = Fin (of_nat n)"
  by (simp add: to_number_digits nat_digits_all)

lemma norm_day_ok: "1 \<le> d \<Longrightarrow> d \<le> days_in_month y m \<Longrightarrow> norm_day y m d = (y, m, d)"
  by (subst norm_day.simps) simp

text \<open>A day that the month lacks by at most three is the same number of days into the next month.\<close>

lemma norm_day_over:
  assumes "days_in_month y m < d" "d \<le> 31" "0 \<le> m" "m < 11"
  shows "norm_day y m d = (y, m + 1, d - days_in_month y m)"
proof -
  have "norm_month y (m + 1) = (y, m + 1)" using assms by (simp add: norm_month_def)
  moreover have "norm_day y (m + 1) (d - days_in_month y m) = (y, m + 1, d - days_in_month y m)"
    using assms days_in_month_bounds [of y m] days_in_month_bounds [of y "m + 1"]
    by (intro norm_day_ok) linarith+
  ultimately show ?thesis using assms by (subst norm_day.simps) simp
qed

lemma norm_month_ok: "0 \<le> m \<Longrightarrow> m < 12 \<Longrightarrow> norm_month y m = (y, m)"
  by (simp add: norm_month_def)

lemma make_date_ok:
  assumes "0 \<le> m" "m < 12" "1 \<le> d" "d \<le> days_in_month y m" "0 \<le> t" "t < 86400000"
  shows "make_date y m d t = \<lparr>year = y, month = m, day = d, ms = t\<rparr>"
  using assms by (simp add: make_date_def norm_month_ok norm_day_ok)

lemma make_date_over:
  assumes "0 \<le> m" "m < 11" "days_in_month y m < d" "d \<le> 31" "0 \<le> t" "t < 86400000"
  shows "make_date y m d t = \<lparr>year = y, month = m + 1, day = d - days_in_month y m, ms = t\<rparr>"
  using assms by (simp add: make_date_def norm_month_ok norm_day_over)

lemma time_ms_parts:
  assumes "0 \<le> mi" "mi < 60" "0 \<le> s" "s < 60" "0 \<le> u" "u < 1000"
  shows "time_ms h mi s u div 3600000 = h" "time_ms h mi s u div 60000 mod 60 = mi"
    "time_ms h mi s u div 1000 mod 60 = s" "time_ms h mi s u mod 1000 = u"
    "0 \<le> h \<Longrightarrow> h < 24 \<Longrightarrow> 0 \<le> time_ms h mi s u \<and> time_ms h mi s u < 86400000"
proof -
  show "time_ms h mi s u div 3600000 = h" using assms unfolding time_ms_def
    by (intro int_div_pos_eq [where r = "mi * 60000 + s * 1000 + u"]) simp_all
  have "time_ms h mi s u div 60000 = mi + 60 * h" using assms unfolding time_ms_def
    by (intro int_div_pos_eq [where r = "s * 1000 + u"]) simp_all
  then show "time_ms h mi s u div 60000 mod 60 = mi" using assms by simp
  have 1: "time_ms h mi s u div 1000 = s + 60 * (60 * h + mi)" using assms unfolding time_ms_def
    by (intro int_div_pos_eq [where r = u]) simp_all
  have "(s + 60 * (60 * h + mi)) mod 60 = s" using assms by (simp only: mod_mult_self2) simp
  with 1 show "time_ms h mi s u div 1000 mod 60 = s" by simp
  have "time_ms h mi s u = u + 1000 * (60 * (60 * h + mi) + s)" by (simp add: time_ms_def)
  then show "time_ms h mi s u mod 1000 = u" using assms by (simp only: mod_mult_self2) simp
  show "0 \<le> h \<Longrightarrow> h < 24 \<Longrightarrow> 0 \<le> time_ms h mi s u \<and> time_ms h mi s u < 86400000"
    using assms by (simp add: time_ms_def)
qed

text \<open>The hours, minutes and seconds set one after the other replace the time of day.\<close>

lemma set_time:
  assumes "0 \<le> m" "m < 12" "1 \<le> d" "d \<le> days_in_month y m"
    and "0 \<le> h" "h < 24" "0 \<le> mi" "mi < 60" "0 \<le> s" "s < 60"
  shows "setUTCSeconds (Some (of_int s)) (setUTCMinutes (Some (of_int mi)) (setUTCHours (Some (of_int h))
           (Some \<lparr>year = y, month = m, day = d, ms = t\<rparr>)))
         = Some \<lparr>year = y, month = m, day = d, ms = time_ms h mi s (t mod 1000)\<rparr>"
proof -
  have mk: "make_date y m d (time_ms h i j k) = \<lparr>year = y, month = m, day = d, ms = time_ms h i j k\<rparr>"
    if "0 \<le> i" "i < 60" "0 \<le> j" "j < 60" "0 \<le> k" "k < 1000" for i j k
    using that assms by (simp add: make_date_ok time_ms_parts)
  have 1: "setUTCHours (Some (of_int h)) (Some \<lparr>year = y, month = m, day = d, ms = t\<rparr>)
      = Some \<lparr>year = y, month = m, day = d, ms = time_ms h (t div 60000 mod 60) (t div 1000 mod 60) (t mod 1000)\<rparr>"
    by (simp add: setUTCHours_def setUTCTime_def minutes_of_def seconds_of_def millis_of_def mk)
  have 2: "setUTCMinutes (Some (of_int mi)) (Some \<lparr>year = y, month = m, day = d, ms = time_ms h i j k\<rparr>)
      = Some \<lparr>year = y, month = m, day = d, ms = time_ms h mi j k\<rparr>"
    if "0 \<le> i" "i < 60" "0 \<le> j" "j < 60" "0 \<le> k" "k < 1000" for i j k
    using that assms
    by (simp add: setUTCMinutes_def setUTCTime_def hours_of_def seconds_of_def millis_of_def mk time_ms_parts)
  have 3: "setUTCSeconds (Some (of_int s)) (Some \<lparr>year = y, month = m, day = d, ms = time_ms h mi j k\<rparr>)
      = Some \<lparr>year = y, month = m, day = d, ms = time_ms h mi s k\<rparr>"
    if "0 \<le> j" "j < 60" "0 \<le> k" "k < 1000" for j k
    using that assms
    by (simp add: setUTCSeconds_def setUTCTime_def hours_of_def minutes_of_def millis_of_def mk time_ms_parts)
  show ?thesis using assms by (simp add: 1 2 3)
qed

text \<open>The splits of a printed date.\<close>

lemma split_iso8601:
  "split_on (CHR ''T'') (iso8601 y mo d h mi s)
     = [nat_digits y @ ''-'' @ pad2 mo @ ''-'' @ pad2 d, pad2 h @ '':'' @ pad2 mi @ '':'' @ pad2 s @ ''Z'']"
  using split_on_append [of "CHR ''T''" "nat_digits y @ ''-'' @ pad2 mo @ ''-'' @ pad2 d"
      "pad2 h @ '':'' @ pad2 mi @ '':'' @ pad2 s @ ''Z''"]
  by (simp add: iso8601_def split_on_none)

lemma split_iso8601_date:
  "split_on (CHR ''-'') (nat_digits y @ ''-'' @ pad2 mo @ ''-'' @ pad2 d) = [nat_digits y, pad2 mo, pad2 d]"
  by (simp add: split_on_append split_on_none)

lemma split_iso8601_time:
  "split_on (CHR ''Z'') (pad2 h @ '':'' @ pad2 mi @ '':'' @ pad2 s @ ''Z'')
     = [pad2 h @ '':'' @ pad2 mi @ '':'' @ pad2 s, '''']"
  "split_on (CHR '':'') (pad2 h @ '':'' @ pad2 mi @ '':'' @ pad2 s) = [pad2 h, pad2 mi, pad2 s]"
  using split_on_append [of "CHR ''Z''" "pad2 h @ '':'' @ pad2 mi @ '':'' @ pad2 s" "''''"]
  by (simp_all add: split_on_append split_on_none)

lemma parse_iso8601:
  "parseISO8601 now (iso8601 y mo d h mi s)
     = setUTCSeconds (Some (of_nat s)) (setUTCMinutes (Some (of_nat mi)) (setUTCHours (Some (of_nat h))
         (setUTCDate (Some (of_nat d)) (setUTCMonth (Some (of_nat mo - 1)) (setUTCFullYear (Some (of_nat y)) (Some now))))))"
proof -
  have two: "nth_opt [a, b] (Suc 0) = Some b" for a b :: string by (simp add: nth_opt_def)
  have three: "nth_opt [a, b, c] (Suc 0) = Some b" "nth_opt [a, b, c] 2 = Some c"
    "nth_opt [a, b, c] 0 = Some a" for a b c :: string by (simp_all add: nth_opt_def)
  have sec: "split_on (CHR ''.'') (pad2 s) = [pad2 s]" by (simp add: split_on_none)
  have one: "nth_opt [a] (Suc 0) = None" for a :: string by (simp add: nth_opt_def)
  show ?thesis
    unfolding parseISO8601_def split_iso8601
    by (simp add: two three one sec Let_def number_at_def minus_one_def split_iso8601_date split_iso8601_time del: append.simps)
qed


text \<open>
  The witness: on the 31st of January, a date in February is read as one in March; on the 29th of
  February 2012, with the year 2013, it is read as it is.
\<close>

definition jan31 :: date where
  "jan31 = \<lparr>year = 2013, month = 0, day = 31, ms = 0\<rparr>"

definition feb29 :: date where
  "feb29 = \<lparr>year = 2012, month = 1, day = 29, ms = 0\<rparr>"


section \<open>The text of a date\<close>

lemma nat_digits_two: "n < 100 \<Longrightarrow> 10 \<le> n \<Longrightarrow> length (nat_digits n) = 2"
  by (simp add: nat_digits.simps [of n] nat_digits.simps [of "n div 10"])

lemma convert2_pad2: "n < 100 \<Longrightarrow> convert2 (int n) = pad2 n"
proof (cases "n < 10")
  case True
  then show ?thesis
    by (simp add: convert2_def slice_last_def pad2_def int_digits_def nat_digits.simps [of n])
next
  case False
  assume "n < 100"
  with False show ?thesis
    by (simp add: convert2_def slice_last_def pad2_def int_digits_def nat_digits_two)
qed

text \<open>The same instant, read in a zone that is \<open>off\<close> milliseconds ahead of UTC.\<close>

definition shift :: "int \<Rightarrow> date \<Rightarrow> date" where
  "shift off d = make_date (year d) (month d) (day d) (ms d + off)"

text \<open>
  the text of a date in a zone ahead of UTC. While the shifted time stays within the day,
  all six texts are those of the local reading. On the evening of the 31st of December the local
  reading is the first of January and five of the texts say so, but the year is still the year
  in UTC.
\<close>

theorem display_date_in_zone:
  assumes "date_ok d" and "0 \<le> year d" and "0 \<le> off" and "off < 86400000"
  shows "getI18n prop d (shift off d) =
    (let t = (ms d + off) mod 86400000;
         time = [pad2 (nat (t div 3600000)), pad2 (nat (t div 60000 mod 60)), pad2 (nat (t div 1000 mod 60))] in
     if ms d + off < 86400000
     then prop ''display_date''
            ([nat_digits (nat (year d)), pad2 (nat (month d + 1)), pad2 (nat (day d))] @ time)
     else if day d < days_in_month (year d) (month d)
     then prop ''display_date''
            ([nat_digits (nat (year d)), pad2 (nat (month d + 1)), pad2 (nat (day d + 1))] @ time)
     else if month d < 11
     then prop ''display_date'' ([nat_digits (nat (year d)), pad2 (nat (month d + 2)), ''01''] @ time)
     else prop ''display_date'' ([nat_digits (nat (year d)), ''01'', ''01''] @ time))"
proof -
  have d: "0 \<le> month d" "month d < 12" "1 \<le> day d" "day d \<le> days_in_month (year d) (month d)" "day d \<le> 31"
    "0 \<le> ms d" "ms d < 86400000"
    using assms(1) days_in_month_bounds [of "year d" "month d"] by (auto simp: date_ok_def)
  have c: "convert2 i = pad2 (nat i)" if "0 \<le> i" "i < 100" for i
    using that convert2_pad2 [of "nat i"] by simp
  have y: "int_digits (year d) = nat_digits (nat (year d))" using assms(2) by (simp add: int_digits_def)
  define t where "t = (ms d + off) mod 86400000"
  have t: "0 \<le> t" "t < 86400000" by (simp_all add: t_def)
  have h: "0 \<le> t div 3600000" "t div 3600000 < 100" using t by auto
  have p1: "pad2 (Suc 0) = ''01''" by code_simp
  have carry: "(ms d + off) div 86400000 = (if ms d + off < 86400000 then 0 else 1)"
    using d assms(3,4) by (auto intro: int_div_pos_eq [where r = "ms d + off - 86400000"])
  have time: "convert2 (t div 3600000) = pad2 (nat (t div 3600000))"
    "convert2 (t div 60000 mod 60) = pad2 (nat (t div 60000 mod 60))"
    "convert2 (t div 1000 mod 60) = pad2 (nat (t div 1000 mod 60))"
    using h by (auto intro: c)
  have g: "getI18n prop d \<lparr>year = y', month = m', day = d', ms = t\<rparr>
      = prop ''display_date'' ([nat_digits (nat (year d)), pad2 (nat (m' + 1)), pad2 (nat d')]
          @ [pad2 (nat (t div 3600000)), pad2 (nat (t div 60000 mod 60)), pad2 (nat (t div 1000 mod 60))])"
    if "0 \<le> m'" "m' < 12" "0 \<le> d'" "d' \<le> 31" for y' m' d'
    using that by (simp add: getI18n_def y c hours_of_def minutes_of_def seconds_of_def time)
  consider (same) "ms d + off < 86400000"
    | (day) "\<not> ms d + off < 86400000" "day d < days_in_month (year d) (month d)"
    | (month) "\<not> ms d + off < 86400000" "\<not> day d < days_in_month (year d) (month d)" "month d < 11"
    | (year) "\<not> ms d + off < 86400000" "\<not> day d < days_in_month (year d) (month d)" "\<not> month d < 11"
    by blast
  then show ?thesis
  proof cases
    case same
    with d carry have "shift off d = \<lparr>year = year d, month = month d, day = day d, ms = t\<rparr>"
      by (simp add: shift_def make_date_def norm_month_ok norm_day_ok t_def)
    then show ?thesis unfolding Let_def t_def [symmetric] using same d by (simp add: g)
  next
    case day
    with d carry have "shift off d = \<lparr>year = year d, month = month d, day = day d + 1, ms = t\<rparr>"
      by (simp add: shift_def make_date_def norm_month_ok norm_day_ok t_def)
    moreover have "day d + 1 \<le> 31" using day days_in_month_bounds [of "year d" "month d"] by linarith
    ultimately show ?thesis unfolding Let_def t_def [symmetric] using day d by (simp add: g)
  next
    case month
    then have e: "norm_day (year d) (month d) (day d + 1) = (year d, month d + 1, 1)"
      using d days_in_month_bounds [of "year d" "month d + 1"] norm_month_ok [of "month d + 1" "year d"]
      by (subst norm_day.simps) (simp add: norm_day_ok)
    with month d carry have "shift off d = \<lparr>year = year d, month = month d + 1, day = 1, ms = t\<rparr>"
      by (simp add: shift_def make_date_def norm_month_ok t_def)
    then show ?thesis unfolding Let_def t_def [symmetric] using month d by (simp add: g p1 add.commute)
  next
    case year
    then have m: "month d = 11" using d by simp
    then have "day d = 31" "days_in_month (year d) 11 = 31" using year d by (simp_all add: days_in_month_def)
    then have "norm_day (year d) 11 (day d + 1) = (year d + 1, 0, 1)"
      using days_in_month_bounds [of "year d + 1" 0]
      by (subst norm_day.simps) (simp add: norm_day_ok norm_month_def)
    with year d m carry have "shift off d = \<lparr>year = year d + 1, month = 0, day = 1, ms = t\<rparr>"
      by (simp add: shift_def make_date_def norm_month_ok t_def)
    then show ?thesis unfolding Let_def t_def [symmetric] using year m by (simp add: g p1)
  qed
qed

text \<open>The witness: half past eight on New Year's morning in Japan, printed as a day of 2012.\<close>

definition dec31 :: date where
  "dec31 = \<lparr>year = 2012, month = 11, day = 31, ms = 84600000\<rparr>"

lemma display_date_in_zone_witness:
  "getI18n (\<lambda>_. join ''/'') dec31 (shift 32400000 dec31) = ''2012/01/01/08/30/00''"
proof -
  have ok: "date_ok dec31" "0 \<le> year dec31" by (simp_all add: date_ok_def dec31_def days_in_month_def)
  have p: "pad2 8 = ''08''" "pad2 30 = ''30''" "pad2 0 = ''00''" "nat_digits 2012 = ''2012''" by code_simp+
  show ?thesis
    using display_date_in_zone [OF ok, of 32400000 "\<lambda>_. join ''/''"]
    by (simp add: dec31_def days_in_month_def p)
qed

lemma utcToLocal_not_a_date: "CHR ''T'' \<notin> set str \<Longrightarrow> utcToLocal prop zone now str = str"
  by (simp add: utcToLocal_def parseISO8601_def split_on_none nth_opt_def)

end
