(* ===== verification/Core_Events.thy ===== *)
theory Core_Events
  imports Js_Prelude
begin

text \<open>
  The event plumbing of \<open>core.js\<close>: the filter chain (\<open>DcmgrGUI.Filter\<close>), named events
  (\<open>DcmgrGUI.Event\<close>), the topic bus (\<open>DcmgrGUI.Notification\<close>), the log
  (\<open>DcmgrGUI.Logger\<close>), the Ajax wrapper (\<open>DcmgrGUI.Request\<close>) with the configuration it
  writes, and the page's Ajax error handler of \<open>application.js\<close>.
\<close>

section \<open>Filter chains\<close>

text \<open>
  An entry is a function, modelled by what it does to the data object it is given, or a value
  that is not a function, of which only the truth value matters.
\<close>

datatype 'd filter_item = Fn "'d \<Rightarrow> 'd" | NotFn bool

fun item_truthy :: "'d filter_item \<Rightarrow> bool" where
  "item_truthy (Fn f) = True"
| "item_truthy (NotFn b) = b"

definition filter_add :: "'d filter_item \<Rightarrow> 'd filter_item list \<Rightarrow> 'd filter_item list" where
  "filter_add f fs = fs @ [f]"

function filter_apply :: "'d filter_item list \<Rightarrow> nat \<Rightarrow> 'd \<Rightarrow> 'd" where
  "filter_apply fs i d =
     (case nth_opt fs i of
        Some (Fn f) \<Rightarrow>
          (case nth_opt fs (Suc i) of
             Some g \<Rightarrow> if item_truthy g then filter_apply fs (Suc i) (f d) else f d
           | None \<Rightarrow> f d)
      | _ \<Rightarrow> d)"
  by pat_completeness auto
termination
  by (relation "measure (\<lambda>(fs, i, d). length fs - i)") (auto simp: nth_opt_def split: if_splits)

declare filter_apply.simps [simp del]

definition filter_execute :: "'d filter_item list \<Rightarrow> 'd \<Rightarrow> 'd" where
  "filter_execute fs d = filter_apply fs 0 d"

text \<open>The specification: run the leading functions, left to right.\<close>

fun run_leading :: "'d filter_item list \<Rightarrow> 'd \<Rightarrow> 'd" where
  "run_leading (Fn f # fs) d = run_leading fs (f d)"
| "run_leading _ d = d"

lemma filter_apply_run_leading: "filter_apply (pre @ fs) (length pre) d = run_leading fs d"
proof (induction fs arbitrary: pre d)
  case Nil
  then show ?case by (simp add: filter_apply.simps nth_opt_def)
next
  case (Cons g fs)
  show ?case
  proof (cases g)
    case (Fn f)
    show ?thesis
    proof (cases fs)
      case Nil
      with Fn show ?thesis by (simp add: filter_apply.simps)
    next
      case (Cons h hs)
      have "filter_apply (pre @ g # fs) (Suc (length pre)) (f d) = run_leading fs (f d)"
        using Cons.IH [of "pre @ [g]" "f d"] by simp
      with Fn Cons show ?thesis
        by (cases h) (auto simp: filter_apply.simps [of "pre @ _" "length pre"])
    qed
  next
    case (NotFn b)
    then show ?thesis by (simp add: filter_apply.simps)
  qed
qed

lemma run_leading_append:
  "\<forall>g\<in>set fs. \<exists>f. g = Fn f \<Longrightarrow> run_leading (fs @ gs) d = run_leading gs (run_leading fs d)"
  by (induction fs arbitrary: d) auto

text \<open>
  executing a filter chain applies the functions in the order they were added, up to the
  first entry that is not a function, each to the data left by the one before.
\<close>

theorem filter_execute_in_order:
  "filter_execute fs d = run_leading fs d"
  using filter_apply_run_leading [of "[]" fs d] by (simp add: filter_execute_def)

section \<open>Named events\<close>

text \<open>
  At most one function per name. The functions act on the rest of the page, a state of type
  \<open>'s\<close>; an argument that is not a function is \<open>None\<close>.
\<close>

type_synonym 's events = "string \<rightharpoonup> ('s \<Rightarrow> 's)"

definition event_attach :: "string \<Rightarrow> ('s \<Rightarrow> 's) option \<Rightarrow> 's events \<Rightarrow> 's events" where
  "event_attach name func ev =
     (case func of Some f \<Rightarrow> if ev name = None then ev(name \<mapsto> f) else ev | None \<Rightarrow> ev)"

definition event_detach :: "string \<Rightarrow> 's events \<Rightarrow> 's events" where
  "event_detach name ev = (if ev name \<noteq> None then ev(name := None) else ev)"

definition event_fire :: "string \<Rightarrow> 's events \<Rightarrow> 's \<Rightarrow> 's" where
  "event_fire name ev s = (case ev name of Some f \<Rightarrow> f s | None \<Rightarrow> s)"

lemma event_attach_first_wins:
  "event_fire n (event_attach n (Some g) (event_attach n (Some f) (event_detach n ev))) s = f s"
  by (simp add: event_attach_def event_fire_def event_detach_def)

section \<open>The topic bus\<close>

text \<open>
  A subscription holds the target object and the method name to call on it. \<open>evaluation_list\<close>
  gives a subscription a guard; an entry that is not a function is stored as \<open>None\<close>.
\<close>

record ('t, 'o) subscription =
  target :: 't
  method_name :: string
  options :: 'o
  sub_id :: nat

record ('t, 'o, 's) notification =
  topics :: "string \<rightharpoonup> ('t, 'o) subscription list"
  evaluation_list :: "nat \<rightharpoonup> ('s \<Rightarrow> bool) option"
  subscription_id :: nat

definition notification_init :: "('t, 'o, 's) notification" where
  "notification_init = \<lparr>topics = Map.empty, evaluation_list = Map.empty, subscription_id = 1\<rparr>"

definition create_topic :: "string \<Rightarrow> ('t, 'o, 's) notification \<Rightarrow> ('t, 'o, 's) notification" where
  "create_topic topic n = (if topics n topic = None then n\<lparr>topics := (topics n)(topic \<mapsto> [])\<rparr> else n)"

definition subscribe ::
  "string \<Rightarrow> 't \<Rightarrow> string \<Rightarrow> 'o \<Rightarrow> ('t, 'o, 's) notification \<Rightarrow> nat option \<times> ('t, 'o, 's) notification"
where
  "subscribe topic tgt meth opts n =
     (case topics n topic of
        None \<Rightarrow> (None, n)
      | Some subs \<Rightarrow>
          (Some (subscription_id n),
           n\<lparr>topics := (topics n)(topic \<mapsto> subs @ [\<lparr>target = tgt, method_name = meth, options = opts,
                sub_id = subscription_id n\<rparr>]),
             subscription_id := subscription_id n + 1\<rparr>))"

definition add_evaluation ::
  "nat \<Rightarrow> ('s \<Rightarrow> bool) option \<Rightarrow> ('t, 'o, 's) notification \<Rightarrow> ('t, 'o, 's) notification" where
  "add_evaluation sid logic n = n\<lparr>evaluation_list := (evaluation_list n)(sid \<mapsto> logic)\<rparr>"

definition evaluate :: "nat \<Rightarrow> ('t, 'o, 's) notification \<Rightarrow> 's \<Rightarrow> bool" where
  "evaluate sid n s = (case evaluation_list n sid of Some (Some f) \<Rightarrow> f s | _ \<Rightarrow> True)"

text \<open>What the operations on the bus do to its three parts.\<close>

lemma create_topic_topics:
  "topics (create_topic t n) u = (if u = t \<and> topics n t = None then Some [] else topics n u)"
  "evaluation_list (create_topic t n) = evaluation_list n"
  "subscription_id (create_topic t n) = subscription_id n"
  by (auto simp: create_topic_def)

lemma subscribe_topics:
  "topics (snd (subscribe t tgt m p n)) u =
     (if u = t then map_option (\<lambda>subs. subs @ [\<lparr>target = tgt, method_name = m, options = p,
          sub_id = subscription_id n\<rparr>]) (topics n t) else topics n u)"
  "evaluation_list (snd (subscribe t tgt m p n)) = evaluation_list n"
  "subscription_id (snd (subscribe t tgt m p n)) =
     (if topics n t = None then subscription_id n else Suc (subscription_id n))"
  by (auto simp: subscribe_def split: option.splits)

lemma notification_init_topics:
  "topics notification_init t = None" "evaluation_list notification_init = Map.empty"
  "subscription_id notification_init = 1"
  by (simp_all add: notification_init_def)

lemmas bus_simps = create_topic_topics subscribe_topics notification_init_topics

text \<open>
  \<open>publish\<close> calls the subscribers of a topic one after the other. Its loop counter \<open>i\<close> is not
  declared in the function, so it is one global variable, shared with every \<open>publish\<close> that a
  called method makes itself: it is part of the state here. \<open>call\<close> stands for the methods of
  the targets: it gives the page after the method ran and the topics the method published, in
  order. A publish may not return; \<open>fuel\<close> bounds the depth of the calls, and \<open>None\<close> is out
  of fuel.
\<close>

type_synonym ('t, 'o, 's) calls = "'t \<Rightarrow> string \<Rightarrow> 'o \<Rightarrow> 's \<Rightarrow> 's \<times> string list"

datatype ('t, 'o) job =
    Publish string
  | Publish_Loop "('t, 'o) subscription list"
  | Publish_Nested "string list"

primrec run_job ::
  "nat \<Rightarrow> ('t, 'o, 's) calls \<Rightarrow> ('t, 'o, 's) notification \<Rightarrow> ('t, 'o) job
     \<Rightarrow> nat \<times> 's \<Rightarrow> (nat \<times> 's) option"
where
  "run_job 0 call n job st = None"
| "run_job (Suc fuel) call n job st =
     (case job of
        Publish topic \<Rightarrow>
          (case topics n topic of
             None \<Rightarrow> Some st
           | Some subs \<Rightarrow> run_job fuel call n (Publish_Loop subs) (0, snd st))
      | Publish_Loop subs \<Rightarrow>
          (case st of (i, s) \<Rightarrow>
             if i < length subs then
               (let sub = subs ! i in
                if evaluate (sub_id sub) n s then
                  (case call (target sub) (method_name sub) (options sub) s of
                     (s', published) \<Rightarrow>
                       (case run_job fuel call n (Publish_Nested published) (i, s') of
                          None \<Rightarrow> None
                        | Some (i', s'') \<Rightarrow> run_job fuel call n (Publish_Loop subs) (i' + 1, s'')))
                else run_job fuel call n (Publish_Loop subs) (i + 1, s))
             else Some (i, s))
      | Publish_Nested ts \<Rightarrow>
          (case ts of
             [] \<Rightarrow> Some st
           | t # ts' \<Rightarrow>
               (case run_job fuel call n (Publish t) st of
                  None \<Rightarrow> None
                | Some st' \<Rightarrow> run_job fuel call n (Publish_Nested ts') st')))"

lemma run_topic:
  "topics n t = Some subs \<Longrightarrow>
     run_job (Suc fuel) call n (Publish t) st = run_job fuel call n (Publish_Loop subs) (0, snd st)"
  by simp

lemma run_loop_end:
  "\<not> i < length subs \<Longrightarrow> run_job (Suc fuel) call n (Publish_Loop subs) (i, s) = Some (i, s)"
  by simp

lemma run_loop_skip:
  "i < length subs \<Longrightarrow> \<not> evaluate (sub_id (subs ! i)) n s \<Longrightarrow>
     run_job (Suc fuel) call n (Publish_Loop subs) (i, s) = run_job fuel call n (Publish_Loop subs) (Suc i, s)"
  by simp

lemma run_loop_call:
  "i < length subs \<Longrightarrow> evaluate (sub_id (subs ! i)) n s \<Longrightarrow>
   call (target (subs ! i)) (method_name (subs ! i)) (options (subs ! i)) s = (s', ps) \<Longrightarrow>
     run_job (Suc fuel) call n (Publish_Loop subs) (i, s)
       = (case run_job fuel call n (Publish_Nested ps) (i, s') of
            None \<Rightarrow> None
          | Some (i', s'') \<Rightarrow> run_job fuel call n (Publish_Loop subs) (Suc i', s''))"
  by (simp split: option.splits)

lemma run_nested_Nil: "run_job (Suc fuel) call n (Publish_Nested []) st = Some st"
  by simp

lemma run_nested_Cons:
  "run_job (Suc fuel) call n (Publish_Nested (t # ts)) st
     = (case run_job fuel call n (Publish t) st of
          None \<Rightarrow> None
        | Some st' \<Rightarrow> run_job fuel call n (Publish_Nested ts) st')"
  by simp

declare run_job.simps(2) [simp del]

lemmas run_job_steps = run_topic run_loop_end run_loop_skip run_loop_call run_nested_Nil run_nested_Cons

definition publish ::
  "nat \<Rightarrow> ('t, 'o, 's) calls \<Rightarrow> ('t, 'o, 's) notification \<Rightarrow> string \<Rightarrow> nat \<times> 's \<Rightarrow> (nat \<times> 's) option" where
  "publish fuel call n topic st = run_job fuel call n (Publish topic) st"

text \<open>The specification for methods that publish nothing: each subscriber once, in order.\<close>

definition deliver ::
  "('t, 'o, 's) calls \<Rightarrow> ('t, 'o, 's) notification \<Rightarrow> ('t, 'o) subscription \<Rightarrow> 's \<Rightarrow> 's" where
  "deliver call n sub s =
     (if evaluate (sub_id sub) n s then fst (call (target sub) (method_name sub) (options sub) s) else s)"

definition quiet :: "('t, 'o, 's) calls \<Rightarrow> bool" where
  "quiet call = (\<forall>t m p s. snd (call t m p s) = [])"

lemma publish_loop_quiet:
  assumes "quiet call" and "i \<le> length subs" and "length subs - i < fuel"
  shows "run_job fuel call n (Publish_Loop subs) (i, s)
           = Some (length subs, fold (deliver call n) (drop i subs) s)"
  using assms(2,3)
proof (induction fuel arbitrary: i s)
  case 0
  then show ?case by simp
next
  case (Suc fuel)
  show ?case
  proof (cases "i < length subs")
    case False
    with Suc.prems show ?thesis by (simp add: run_loop_end)
  next
    case True
    obtain s' ps where c: "call (target (subs ! i)) (method_name (subs ! i)) (options (subs ! i)) s = (s', ps)"
      by (cases "call (target (subs ! i)) (method_name (subs ! i)) (options (subs ! i)) s") auto
    with assms(1) have "ps = []" by (metis quiet_def snd_conv)
    moreover have "drop i subs = subs ! i # drop (Suc i) subs" using True by (simp add: Cons_nth_drop_Suc)
    moreover have "run_job fuel call n (Publish_Nested []) (i, s') = Some (i, s')"
      using Suc.prems True by (cases fuel) (auto simp: run_nested_Nil)
    moreover have "run_job fuel call n (Publish_Loop subs) (Suc i, t)
        = Some (length subs, fold (deliver call n) (drop (Suc i) subs) t)" for t
      using Suc.prems True by (intro Suc.IH) auto
    moreover have "deliver call n (subs ! i) s = (if evaluate (sub_id (subs ! i)) n s then s' else s)"
      using c by (simp add: deliver_def)
    ultimately show ?thesis using True c
      by (cases "evaluate (sub_id (subs ! i)) n s")
         (simp_all add: run_loop_skip run_loop_call)
  qed
qed

lemma publish_quiet:
  assumes "quiet call" and "topics n topic = Some subs" and "length subs + 2 \<le> fuel"
  shows "publish fuel call n topic (i, s) = Some (length subs, fold (deliver call n) subs s)"
proof -
  from assms(3) obtain f where "fuel = Suc f" and "length subs < f" by (cases fuel) auto
  with assms(1,2) show ?thesis by (simp add: publish_def run_topic publish_loop_quiet)
qed

text \<open>
  C35: when no subscribed method publishes, publishing a topic returns, and it has called every
  subscriber of the topic exactly once, in the order of subscription, skipping those whose
  guard refuses; the fuel needed is the number of subscribers plus two.
\<close>

theorem publish_delivers_in_order:
  assumes "quiet call" and "topics n topic = Some subs" and "length subs + 2 \<le> fuel"
  shows "publish fuel call n topic (i, s) = Some (length subs, fold (deliver call n) subs s)"
  using assms by (rule publish_quiet)

text \<open>The witness bus: two subscribers of one topic, the second of which publishes another topic.\<close>

definition demo_bus :: "(nat, unit, nat list) notification" where
  "demo_bus = snd (subscribe ''checked_box'' 7 ''changeButtonState'' ()
     (snd (subscribe ''checked_box'' 3 ''changeButtonState'' ()
       (create_topic ''close_dialog'' (create_topic ''checked_box'' notification_init)))))"

definition quiet_call :: "(nat, unit, nat list) calls" where
  "quiet_call t m p s = (s @ [t], [])"

definition noisy_call :: "(nat, unit, nat list) calls" where
  "noisy_call t m p s = (s @ [t], if t = 7 then [''close_dialog''] else [])"

lemma demo_bus_topics:
  "topics demo_bus ''checked_box'' =
     Some [\<lparr>target = 3, method_name = ''changeButtonState'', options = (), sub_id = 1\<rparr>,
           \<lparr>target = 7, method_name = ''changeButtonState'', options = (), sub_id = 2\<rparr>]"
  "topics demo_bus ''close_dialog'' = Some []"
  "evaluation_list demo_bus = Map.empty"
  by (simp_all add: demo_bus_def notification_init_def create_topic_def subscribe_def)

lemma publish_delivers_in_order_witness:
  "publish 4 quiet_call demo_bus ''checked_box'' (5, []) = Some (2, [3, 7])"
proof -
  have q: "quiet quiet_call" by (simp add: quiet_def quiet_call_def)
  show ?thesis
    using publish_delivers_in_order [OF q demo_bus_topics(1), of 4 5 "[]"]
    by (simp add: deliver_def evaluate_def demo_bus_topics quiet_call_def)
qed

text \<open>
  A method that publishes moves the shared counter. After it has published a topic with no
  subscriber the counter is \<open>0\<close>, so the outer loop goes on at \<open>1\<close>.
\<close>

definition publishes_at ::
  "('t, 'o, 's) calls \<Rightarrow> ('t, 'o) subscription list \<Rightarrow> nat \<Rightarrow> string \<Rightarrow> bool" where
  "publishes_at call subs k topic =
     (\<forall>i<length subs. \<forall>s. snd (call (target (subs ! i)) (method_name (subs ! i)) (options (subs ! i)) s)
        = (if i = k then [topic] else []))"

lemma publish_nested_empty:
  assumes "topics n b = Some []" and "run_job fuel call n (Publish_Nested [b]) (i, s) = Some r"
  shows "r = (0, s)"
proof (cases fuel)
  case 0
  with assms(2) show ?thesis by simp
next
  case (Suc g)
  with assms(2) obtain r' where r': "run_job g call n (Publish b) (i, s) = Some r'"
      and r: "run_job g call n (Publish_Nested []) r' = Some r"
    by (auto simp: run_nested_Cons split: option.splits)
  show ?thesis
  proof (cases g)
    case 0
    with r' show ?thesis by simp
  next
    case (Suc h)
    with r' r assms(1) show ?thesis by (cases h) (simp_all add: run_topic run_loop_end run_nested_Nil)
  qed
qed

lemma publish_loop_restarts:
  assumes "publishes_at call subs k b" and "1 \<le> k" and "k < length subs"
    and "topics n b = Some []" and "\<forall>s sid. evaluate sid n s"
  shows "i \<le> k \<Longrightarrow> run_job fuel call n (Publish_Loop subs) (i, s) = None"
proof (induction fuel arbitrary: i s rule: less_induct)
  case (less fuel)
  show ?case
  proof (cases fuel)
    case 0
    then show ?thesis by simp
  next
    case (Suc f)
    let ?sub = "subs ! i"
    obtain s' ps where c: "call (target ?sub) (method_name ?sub) (options ?sub) s = (s', ps)"
      by (cases "call (target ?sub) (method_name ?sub) (options ?sub) s") auto
    from less.prems assms(3) have "i < length subs" by simp
    with assms(1) have "snd (call (target ?sub) (method_name ?sub) (options ?sub) s)
        = (if i = k then [b] else [])" by (simp add: publishes_at_def)
    with c have ps: "ps = (if i = k then [b] else [])" by simp
    have IH: "\<And>j t. j \<le> k \<Longrightarrow> run_job f call n (Publish_Loop subs) (j, t) = None"
      using less.IH Suc by blast
    show ?thesis
    proof (cases "i = k")
      case False
      with ps less.prems IH [of "i + 1" s'] show ?thesis
        using Suc c assms(3,5) by (cases f) (simp_all add: run_loop_call run_nested_Nil)
    next
      case True
      with ps have ps': "ps = [b]" by simp
      from True assms(3) have il: "i < length subs" by simp
      show ?thesis
      proof (cases "run_job f call n (Publish_Nested [b]) (i, s')")
        case None
        with Suc c ps' il assms(5) show ?thesis by (simp add: run_loop_call)
      next
        case (Some r)
        then have r: "r = (0, s')" by (rule publish_nested_empty [OF assms(4)])
        have "run_job f call n (Publish_Loop subs) (1, s') = None" using IH [of 1 s'] assms(2) by simp
        with Some r Suc c ps' il assms(5) show ?thesis by (simp add: run_loop_call)
      qed
    qed
  qed
qed

text \<open>
  a publish inside a subscribed method can make the outer publish run forever. If the
  subscriber at position \<open>k > 0\<close> of a topic publishes a topic that nobody subscribes to, the
  shared counter restarts the outer loop at \<open>1\<close> each time, and no amount of fuel suffices.
\<close>

theorem publish_nested_never_returns:
  assumes "topics n topic = Some subs" and "publishes_at call subs k b"
    and "1 \<le> k" and "k < length subs" and "topics n b = Some []"
    and "\<forall>s sid. evaluate sid n s"
  shows "publish fuel call n topic (i, s) = None"
  using assms by (cases fuel) (simp_all add: publish_def run_topic publish_loop_restarts)

lemma publish_nested_never_returns_witness:
  "publish 1000 noisy_call demo_bus ''checked_box'' (0, []) = None"
proof (rule publish_nested_never_returns [OF demo_bus_topics(1), where k = 1 and b = "''close_dialog''"])
  show "publishes_at noisy_call
     [\<lparr>target = 3, method_name = ''changeButtonState'', options = (), sub_id = 1\<rparr>,
      \<lparr>target = 7, method_name = ''changeButtonState'', options = (), sub_id = 2\<rparr>] 1 ''close_dialog''"
    by (auto simp: publishes_at_def noisy_call_def less_Suc_eq)
qed (simp_all add: demo_bus_topics evaluate_def)

text \<open>Subscription ids: every id handed out is new, so a guard is for one subscription only.\<close>

definition bus_wf :: "('t, 'o, 's) notification \<Rightarrow> bool" where
  "bus_wf n = (\<forall>t subs. topics n t = Some subs \<longrightarrow>
     distinct (map sub_id subs) \<and> (\<forall>x\<in>set subs. sub_id x < subscription_id n))"

lemma bus_wf_init: "bus_wf notification_init"
  by (simp add: bus_wf_def notification_init_def)

lemma bus_wf_create_topic: "bus_wf n \<Longrightarrow> bus_wf (create_topic t n)"
  by (auto simp: bus_wf_def create_topic_def)

lemma bus_wf_subscribe:
  assumes "bus_wf n"
  shows "bus_wf (snd (subscribe t tgt m p n))"
proof (cases "topics n t")
  case None
  with assms show ?thesis by (simp add: subscribe_def)
next
  case (Some subs)
  with assms have "distinct (map sub_id subs)" and *: "\<forall>x\<in>set subs. sub_id x < subscription_id n"
    by (auto simp: bus_wf_def)
  moreover from * have "subscription_id n \<notin> sub_id ` set subs" by auto
  ultimately show ?thesis
    using assms Some by (auto simp: subscribe_def bus_wf_def less_SucI)
qed

lemma bus_wf_add_evaluation: "bus_wf n \<Longrightarrow> bus_wf (add_evaluation sid l n)"
  by (simp add: bus_wf_def add_evaluation_def)

lemmas bus_wf_intros = bus_wf_init bus_wf_create_topic bus_wf_subscribe bus_wf_add_evaluation

section \<open>The log\<close>

record 'i log_entry =
  log_type :: jsval
  log_item :: 'i

definition logger_push :: "jsval \<Rightarrow> 'i \<Rightarrow> 'i log_entry list \<Rightarrow> 'i log_entry list" where
  "logger_push ty item stack = stack @ [\<lparr>log_type = ty, log_item = item\<rparr>]"

text \<open>
  The loop of \<open>getLog\<close>, with its \<open>break\<close>. The \<open>type\<close> argument is overwritten with
  \<open>'ajaxError'\<close> before it is read; a \<open>limit\<close> that is missing or zero becomes the length of
  the stack.
\<close>

fun get_log_loop :: "int \<Rightarrow> string \<Rightarrow> int \<Rightarrow> 'i log_entry list \<Rightarrow> 'i log_entry list" where
  "get_log_loop limit ty count [] = []"
| "get_log_loop limit ty count (x # xs) =
     (if log_type x = JStr ty then
        (if count < limit then x # get_log_loop limit ty (count + 1) xs else [])
      else get_log_loop limit ty count xs)"

definition get_log :: "int option \<Rightarrow> string option \<Rightarrow> 'i log_entry list \<Rightarrow> 'i log_entry list" where
  "get_log limit ty stack =
     (let limit' = (case limit of Some l \<Rightarrow> if l \<noteq> 0 then l else int (length stack)
                    | None \<Rightarrow> int (length stack));
          ty' = ''ajaxError''
      in get_log_loop limit' ty' 0 stack)"

lemma get_log_loop_take:
  "get_log_loop limit ty count stack
     = take (nat (limit - count)) (filter (\<lambda>x. log_type x = JStr ty) stack)"
proof (induction limit ty count stack rule: get_log_loop.induct)
  case (2 limit ty count x xs)
  show ?case
  proof (cases "log_type x = JStr ty \<and> count < limit")
    case True
    then have "nat (limit - count) = Suc (nat (limit - (count + 1)))" by linarith
    with True 2 show ?thesis by simp
  next
    case False
    with 2 show ?thesis by auto
  qed
qed simp

text \<open>
  the log reader gives the first \<open>limit\<close> entries of type \<open>ajaxError\<close>, all of them when no
  limit is given, whatever type it is asked for.
\<close>

theorem get_log_spec:
  "get_log limit ty stack =
     (let errs = filter (\<lambda>x. log_type x = JStr ''ajaxError'') stack in
      case limit of Some l \<Rightarrow> if l \<noteq> 0 then take (nat l) errs else errs | None \<Rightarrow> errs)"
proof -
  have "length (filter (\<lambda>x. log_type x = JStr ''ajaxError'') stack) \<le> length stack" by simp
  then show ?thesis
    by (auto simp: get_log_def get_log_loop_take Let_def split: option.splits)
qed

end
