(* ===== verification/Core_Request.thy ===== *)
theory Core_Request
  imports Core_Events
begin

text \<open>
  The Ajax wrapper \<open>DcmgrGUI.Request\<close> of \<open>core.js\<close>, the global configuration it writes
  (\<open>DcmgrGUI.prototype\<close>), and the \<open>ajaxError\<close> handler of \<open>application.js\<close>, which decides
  by that configuration whether an error is shown.
\<close>

section \<open>Configuration and requests\<close>

record ajax_params =
  p_url :: string
  p_data :: jsval
  p_async :: jsval

record ajax_settings =
  a_type :: string
  a_url :: string
  a_data :: jsval
  a_async :: jsval
  a_dataType :: string
  a_cache :: bool

record xhr =
  xhr_status :: int
  xhr_request_id :: jsval
  xhr_responseText :: string
  xhr_statusText :: string

record gui =
  config :: "string \<rightharpoonup> jsval"
  logger :: "xhr log_entry list"
  popups :: "string list"

definition gui_initialize :: gui where
  "gui_initialize =
     \<lparr>config = [''error_popup'' \<mapsto> JBool True, ''error_popup_once'' \<mapsto> JBool True],
      logger = [], popups = []\<rparr>"

definition getConfig :: "string \<Rightarrow> gui \<Rightarrow> jsval" where
  "getConfig key g = (case config g key of Some v \<Rightarrow> v | None \<Rightarrow> JUndef)"

definition setConfig :: "string \<Rightarrow> jsval \<Rightarrow> gui \<Rightarrow> gui" where
  "setConfig key v g = g\<lparr>config := (config g)(key \<mapsto> v)\<rparr>"

definition request_new :: "gui \<Rightarrow> gui" where
  "request_new g = setConfig ''error_popup'' (JBool True) g"

text \<open>The settings handed to \<open>$.ajax\<close>; \<open>== undefined\<close> also holds of \<open>null\<close>.\<close>

definition request_send :: "string \<Rightarrow> ajax_params \<Rightarrow> ajax_settings" where
  "request_send ty p =
     \<lparr>a_type = ty, a_url = p_url p, a_data = p_data p,
      a_async = (if p_async p = JUndef \<or> p_async p = JNull then JBool True else p_async p),
      a_dataType = ''json'', a_cache = False\<rparr>"

definition request_get :: "ajax_params \<Rightarrow> ajax_settings" where
  "request_get p = request_send ''GET'' p"

definition request_put :: "ajax_params \<Rightarrow> ajax_settings" where
  "request_put p = request_send ''PUT'' p"

definition request_post :: "ajax_params \<Rightarrow> ajax_settings" where
  "request_post p = request_send ''POST'' p"

definition request_del :: "ajax_params \<Rightarrow> ajax_settings" where
  "request_del p = request_send ''DELETE'' p"

lemmas request_defs = request_get_def request_put_def request_post_def request_del_def request_send_def

section \<open>The error handler of the page\<close>

text \<open>
  The handler compares its first argument, the event object, with \<open>'parsererror'\<close> and
  \<open>'timeout'\<close>. An object compares with a string by its string form.
\<close>

definition event_object_string :: string where
  "event_object_string = ''[object Object]''"

text \<open>
  \<open>render\<close> stands for parsing the body and formatting its message with \<open>sprintf\<close> (\<open>None\<close> when
  that throws), \<open>i18n\<close> for the message catalogue. In the \<open>catch\<close> block \<open>e\<close> is the
  exception, which has no \<open>type\<close>.
\<close>

definition is_dcmgr :: "xhr \<Rightarrow> bool" where
  "is_dcmgr x = truthy (xhr_request_id x)"

definition error_body :: "(string \<Rightarrow> string option) \<Rightarrow> xhr \<Rightarrow> gui \<Rightarrow> string \<times> gui" where
  "error_body render x g =
     (if is_dcmgr x then
        (case render (xhr_responseText x) of
           Some body \<Rightarrow> (body, g)
         | None \<Rightarrow> (''Request faild.'', g\<lparr>logger := logger_push JUndef x (logger g)\<rparr>))
      else (xhr_statusText x, g))"

definition error_message ::
  "(string \<Rightarrow> string) \<Rightarrow> (string \<Rightarrow> string option) \<Rightarrow> xhr \<Rightarrow> gui \<Rightarrow> string \<times> gui" where
  "error_message i18n render x g =
     (if xhr_status x = 0 then (''Please Check Your Network.'', g)
      else if event_object_string = ''parsererror'' then (''Parsing JSON Request failed.'', g)
      else if event_object_string = ''timeout'' then (''Request Time out.'', g)
      else (case error_body render x g of (body, g') \<Rightarrow>
        (''<div id='' @ [CHR 0x27] @ ''error_box'' @ [CHR 0x27] @ ''>''
         @ ''<div class='' @ [CHR 0x27] @ ''error_code'' @ [CHR 0x27] @ ''>'' @ i18n ''code_error_box''
         @ '': '' @ int_digits (xhr_status x) @ ''</div>''
         @ ''<div class='' @ [CHR 0x27] @ ''error_body'' @ [CHR 0x27] @ ''>'' @ body @ ''</div>''
         @ ''</div>'', g')))"

definition ajax_error ::
  "(string \<Rightarrow> string) \<Rightarrow> (string \<Rightarrow> string option) \<Rightarrow> xhr \<Rightarrow> gui \<Rightarrow> gui" where
  "ajax_error i18n render x g =
     (case error_message i18n render x g of (message, g1) \<Rightarrow>
        (let g2 = g1\<lparr>logger := logger_push (JStr ''ajaxError'') x (logger g1)\<rparr> in
         if truthy (getConfig ''error_popup'' g2) then
           (let g3 = g2\<lparr>popups := popups g2 @ [message]\<rparr> in
            if truthy (getConfig ''error_popup_once'' g3)
            then setConfig ''error_popup'' (JBool False) g3 else g3)
         else g2))"

datatype page_event = NewRequest | AjaxError xhr

fun page_step ::
  "(string \<Rightarrow> string) \<Rightarrow> (string \<Rightarrow> string option) \<Rightarrow> page_event \<Rightarrow> gui \<Rightarrow> gui" where
  "page_step i18n render NewRequest g = request_new g"
| "page_step i18n render (AjaxError x) g = ajax_error i18n render x g"

definition once :: "gui \<Rightarrow> bool" where
  "once g = truthy (getConfig ''error_popup_once'' g)"

definition armed :: "gui \<Rightarrow> bool" where
  "armed g = truthy (getConfig ''error_popup'' g)"

lemma error_message_config [simp]:
  "config (snd (error_message i18n render x g)) = config g"
  "popups (snd (error_message i18n render x g)) = popups g"
  by (auto simp: error_message_def error_body_def split: prod.splits option.splits)

lemma error_message_logger:
  "\<exists>pre. logger (snd (error_message i18n render x g)) = logger g @ pre
     \<and> filter (\<lambda>e. log_type e = JStr ''ajaxError'') pre = []"
  by (auto simp: error_message_def error_body_def logger_push_def split: prod.splits option.splits)

text \<open>What one error does to the popups, the log and the switch.\<close>

lemma ajax_error_popups:
  "popups (ajax_error i18n render x g)
     = popups g @ (if armed g then [fst (error_message i18n render x g)] else [])"
proof -
  obtain m g1 where e: "error_message i18n render x g = (m, g1)" by fastforce
  with error_message_config [of i18n render x g] have "config g1 = config g" "popups g1 = popups g"
    by simp_all
  with e show ?thesis
    by (simp add: ajax_error_def armed_def getConfig_def setConfig_def Let_def)
qed

lemma ajax_error_switches:
  "once (ajax_error i18n render x g) = once g"
  "once g \<Longrightarrow> \<not> armed (ajax_error i18n render x g)"
proof -
  obtain m g1 where e: "error_message i18n render x g = (m, g1)" by fastforce
  with error_message_config [of i18n render x g] have c: "config g1 = config g" by simp
  show "once (ajax_error i18n render x g) = once g"
    using e c by (simp add: ajax_error_def once_def getConfig_def setConfig_def Let_def)
  show "once g \<Longrightarrow> \<not> armed (ajax_error i18n render x g)"
    using e c by (simp add: ajax_error_def once_def armed_def getConfig_def setConfig_def Let_def)
qed

lemma ajax_error_logged:
  "get_log None None (logger (ajax_error i18n render x g))
     = get_log None None (logger g) @ [\<lparr>log_type = JStr ''ajaxError'', log_item = x\<rparr>]"
proof -
  obtain m g1 where e: "error_message i18n render x g = (m, g1)" by fastforce
  obtain pre where pre: "logger g1 = logger g @ pre"
      "filter (\<lambda>e. log_type e = JStr ''ajaxError'') pre = []"
    using error_message_logger [of i18n render x g] e by auto
  have all: "get_log None None st = filter (\<lambda>e. log_type e = JStr ''ajaxError'') st"
    for st :: "xhr log_entry list"
    by (simp add: get_log_def get_log_loop_take Let_def)
  from e pre show ?thesis
    by (simp add: ajax_error_def all logger_push_def setConfig_def Let_def)
qed

lemma request_new_switches:
  "armed (request_new g)" "once (request_new g) = once g" "popups (request_new g) = popups g"
  by (simp_all add: request_new_def armed_def once_def getConfig_def setConfig_def)

lemma errors_unarmed:
  "once g \<Longrightarrow> \<not> armed g \<Longrightarrow>
     popups (fold (page_step i18n render) (map AjaxError xs) g) = popups g"
proof (induction xs arbitrary: g)
  case (Cons x xs)
  have "once (ajax_error i18n render x g)" "\<not> armed (ajax_error i18n render x g)"
    using Cons.prems ajax_error_switches by blast+
  then have "popups (fold (page_step i18n render) (map AjaxError xs) (ajax_error i18n render x g))
      = popups (ajax_error i18n render x g)"
    by (rule Cons.IH)
  with Cons.prems show ?case by (simp add: ajax_error_popups)
qed simp

text \<open>
  with \<open>error_popup_once\<close> set, a burst of failed requests after a new request object shows
  one popup, that of the first failure, and no more until another request object is made.
\<close>

theorem one_popup_per_request:
  assumes "once g"
  shows "popups (fold (page_step i18n render) (NewRequest # map AjaxError (x # xs)) g)
           = popups g @ [fst (error_message i18n render x (request_new g))]"
proof -
  let ?g = "ajax_error i18n render x (request_new g)"
  have "once (request_new g)" using assms by (simp add: request_new_switches)
  then have "once ?g" "\<not> armed ?g" by (simp_all add: ajax_error_switches)
  then have "popups (fold (page_step i18n render) (map AjaxError xs) ?g) = popups ?g"
    by (rule errors_unarmed)
  then show ?thesis by (simp add: ajax_error_popups request_new_switches)
qed

definition demo_xhr :: "int \<Rightarrow> xhr" where
  "demo_xhr st = \<lparr>xhr_status = st, xhr_request_id = JNull, xhr_responseText = '''', xhr_statusText = ''Gone''\<rparr>"

lemma one_popup_per_request_witness:
  "popups (fold (page_step (\<lambda>k. k) (\<lambda>_. None))
     (NewRequest # map AjaxError [demo_xhr 0, demo_xhr 500]) gui_initialize)
     = [''Please Check Your Network.'']"
proof -
  have "once gui_initialize" by (simp add: once_def getConfig_def gui_initialize_def)
  from one_popup_per_request [OF this, of "\<lambda>k. k" "\<lambda>_. None" "demo_xhr 0" "[demo_xhr 500]"]
  show ?thesis
    by (simp only: list.map)
       (simp add: error_message_def demo_xhr_def gui_initialize_def request_new_def setConfig_def)
qed

text \<open>
  the two branches for a parser error and a time out are never taken: whatever went wrong,
  the message is the network one for status \<open>0\<close> and the error box otherwise.
\<close>

theorem error_message_branches:
  "fst (error_message i18n render x g) \<noteq> ''Parsing JSON Request failed.''
   \<and> fst (error_message i18n render x g) \<noteq> ''Request Time out.''"
  by (simp add: error_message_def event_object_string_def split: prod.splits)

end
