(* ===== verification/Core_Pagenate.thy ===== *)
theory Core_Pagenate
  imports Js_Prelude
begin

text \<open>
  The pager \<open>DcmgrGUI.Pagenate\<close> of \<open>core.js\<close>: which page of a list is shown, the two arrow
  buttons and the page number field.
\<close>

section \<open>State\<close>

text \<open>
  \<open>None\<close> is \<open>NaN\<close>, which the number field gives for a text that is no number. \<open>shown\<close> is
  whether \<open>#viewPagenate\<close> has any content; \<open>updates\<close> counts the \<open>updatePagenate\<close> triggers,
  each of which is followed by one \<open>change_pagenate\<close> publication.
\<close>

record pagenate =
  total :: int
  row :: int
  page_count :: int
  current_page :: "int option"
  start :: "int option"
  offset :: "int option"
  prev_disabled :: bool
  next_disabled :: bool
  shown :: bool
  updates :: nat

section \<open>Operations\<close>

text \<open>\<open>Math.ceil(total / row)\<close>, for a positive \<open>row\<close>.\<close>

definition getPageCount :: "int \<Rightarrow> int \<Rightarrow> int" where
  "getPageCount tot r = - ((- tot) div r)"

text \<open>A comparison with \<open>NaN\<close> is false, so the product is returned.\<close>

definition getOffsetCount :: "pagenate \<Rightarrow> int option" where
  "getOffsetCount p =
     (case current_page p of
        None \<Rightarrow> None
      | Some c \<Rightarrow> let count = c * row p in if total p < count then Some (total p) else Some count)"

definition getStartCount :: "pagenate \<Rightarrow> int option" where
  "getStartCount p =
     (if current_page p = Some 1 then Some 1
      else map_option (\<lambda>c. (c - 1) * row p + 1) (current_page p))"

definition renderPagenate :: "pagenate \<Rightarrow> pagenate" where
  "renderPagenate p =
     (let p1 = p\<lparr>start := getStartCount p\<rparr>;
          p2 = p1\<lparr>offset := getOffsetCount p1\<rparr>
      in p2\<lparr>shown := (start p2 \<noteq> Some 0 \<and> offset p2 \<noteq> Some 0)\<rparr>)"

definition pagenate_initialize :: "int \<Rightarrow> int \<Rightarrow> pagenate" where
  "pagenate_initialize tot r =
     (let p0 = \<lparr>total = tot, row = r, page_count = getPageCount tot r, current_page = Some 1,
                start = None, offset = None, prev_disabled = True, next_disabled = True,
                shown = False, updates = 0\<rparr>;
          p1 = p0\<lparr>start := getStartCount p0\<rparr>;
          p2 = p1\<lparr>offset := getOffsetCount p1\<rparr>
      in renderPagenate p2)"

definition changeArrowButton :: "pagenate \<Rightarrow> pagenate" where
  "changeArrowButton p =
     (if current_page p = Some 1 then p\<lparr>prev_disabled := True, next_disabled := False\<rparr>
      else if current_page p = Some (page_count p) then p\<lparr>prev_disabled := False, next_disabled := True\<rparr>
      else p\<lparr>prev_disabled := False, next_disabled := False\<rparr>)"

definition changeTotal :: "int \<Rightarrow> pagenate \<Rightarrow> pagenate" where
  "changeTotal tot p =
     (let p1 = p\<lparr>total := tot\<rparr>;
          more = (case current_page p1 of None \<Rightarrow> False | Some c \<Rightarrow> total p1 > c * row p1);
          p2 = (if more then p1\<lparr>next_disabled := False\<rparr> else p1\<lparr>next_disabled := True\<rparr>);
          p3 = p2\<lparr>page_count := getPageCount (total p2) (row p2)\<rparr>
      in renderPagenate p3)"

text \<open>The name is the first class of the element clicked; the number field has none.\<close>

datatype clicked = By_next | By_prev | By_field

definition updatePage :: "clicked \<Rightarrow> pagenate \<Rightarrow> pagenate" where
  "updatePage name p =
     (let p1 = (case current_page p of
                  None \<Rightarrow> p
                | Some c \<Rightarrow>
                    if c \<ge> 1 \<and> c < page_count p
                    then (if name = By_next then p\<lparr>current_page := Some (c + 1)\<rparr> else p)
                    else p);
          p2 = (case current_page p1 of
                  None \<Rightarrow> p1
                | Some c \<Rightarrow>
                    if c > 1 \<and> c \<le> page_count p1
                    then (if name = By_prev then p1\<lparr>current_page := Some (c - 1)\<rparr> else p1)
                    else p1);
          p3 = renderPagenate p2
      in p3\<lparr>updates := Suc (updates p3)\<rparr>)"

definition click_prev :: "pagenate \<Rightarrow> pagenate" where
  "click_prev p = (if prev_disabled p then p else changeArrowButton (updatePage By_prev p))"

definition click_next :: "pagenate \<Rightarrow> pagenate" where
  "click_next p = (if next_disabled p then p else changeArrowButton (updatePage By_next p))"

text \<open>The Enter key in the number field; \<open>page\<close> is what \<open>parseInt\<close> made of its text.\<close>

definition enter_page :: "int option \<Rightarrow> pagenate \<Rightarrow> pagenate" where
  "enter_page page p = changeArrowButton (updatePage By_field (p\<lparr>current_page := page\<rparr>))"

lemmas pagenate_defs = click_prev_def click_next_def enter_page_def updatePage_def
  changeArrowButton_def changeTotal_def renderPagenate_def getStartCount_def getOffsetCount_def Let_def

section \<open>The pages of a list\<close>

lemma getPageCount_bounds:
  assumes "0 < r"
  shows "t \<le> getPageCount t r * r" "(getPageCount t r - 1) * r < t"
proof -
  define q m where "q = (- t) div r" and "m = (- t) mod r"
  have "- t = q * r + m" by (simp only: q_def m_def div_mult_mod_eq)
  moreover have "0 \<le> m" "m < r" using assms by (simp_all add: m_def)
  ultimately show "t \<le> getPageCount t r * r" "(getPageCount t r - 1) * r < t"
    by (simp_all add: getPageCount_def q_def [symmetric] algebra_simps)
qed

lemma page_count_le_iff:
  assumes "0 < r"
  shows "getPageCount t r \<le> c \<longleftrightarrow> t \<le> c * r"
proof
  assume "getPageCount t r \<le> c"
  then have "getPageCount t r * r \<le> c * r" using assms by (simp add: mult_right_mono)
  then show "t \<le> c * r" using getPageCount_bounds(1) [OF assms, of t] by linarith
next
  assume "t \<le> c * r"
  then have "(getPageCount t r - 1) * r < c * r" using getPageCount_bounds(2) [OF assms, of t] by linarith
  then show "getPageCount t r \<le> c" using assms by simp
qed

text \<open>The rows shown on page \<open>c\<close>: from \<open>start\<close> to \<open>offset\<close>.\<close>

definition page_rows :: "int \<Rightarrow> int \<Rightarrow> int \<Rightarrow> int set" where
  "page_rows tot r c = (let p = (pagenate_initialize tot r)\<lparr>current_page := Some c\<rparr> in
     {the (getStartCount p) .. the (getOffsetCount p)})"

lemma page_rows_eq: "page_rows tot r c = {(c - 1) * r + 1 .. min tot (c * r)}"
  by (auto simp: page_rows_def pagenate_initialize_def pagenate_defs)

lemma div_page:
  assumes "0 < (r :: int)"
  shows "(c - 1) * r + 1 \<le> k \<and> k \<le> c * r \<longleftrightarrow> c = (k - 1) div r + 1"
proof
  assume *: "(c - 1) * r + 1 \<le> k \<and> k \<le> c * r"
  have "(k - 1) div r = c - 1"
    by (rule int_div_pos_eq [where r = "k - 1 - r * (c - 1)"]) (use * in \<open>auto simp: algebra_simps\<close>)
  then show "c = (k - 1) div r + 1" by simp
next
  assume c: "c = (k - 1) div r + 1"
  define q m where "q = (k - 1) div r" and "m = (k - 1) mod r"
  have "k - 1 = q * r + m" by (simp only: q_def m_def div_mult_mod_eq)
  moreover have "0 \<le> m" "m < r" using assms by (simp_all add: m_def)
  ultimately show "(c - 1) * r + 1 \<le> k \<and> k \<le> c * r"
    by (simp add: c q_def [symmetric] algebra_simps)
qed

text \<open>the pages partition the list: each of its rows is on exactly one of the pages.\<close>

theorem pages_partition:
  assumes "0 < r" and "1 \<le> k" and "k \<le> tot"
  shows "\<exists>!c. 1 \<le> c \<and> c \<le> getPageCount tot r \<and> k \<in> page_rows tot r c"
proof
  let ?c = "(k - 1) div r + 1"
  have 1: "(?c - 1) * r + 1 \<le> k \<and> k \<le> ?c * r" using div_page [OF assms(1)] by blast
  have "\<not> getPageCount tot r \<le> ?c - 1" using 1 assms page_count_le_iff by auto
  moreover have "0 \<le> (k - 1) div r" using assms by (simp add: pos_imp_zdiv_nonneg_iff)
  ultimately show "1 \<le> ?c \<and> ?c \<le> getPageCount tot r \<and> k \<in> page_rows tot r ?c"
    using 1 assms by (auto simp: page_rows_eq)
next
  fix c assume "1 \<le> c \<and> c \<le> getPageCount tot r \<and> k \<in> page_rows tot r c"
  then have "(c - 1) * r + 1 \<le> k \<and> k \<le> c * r" by (auto simp: page_rows_eq)
  then show "c = (k - 1) div r + 1" using div_page [OF assms(1)] by blast
qed

lemma pages_partition_witness:
  "\<exists>!c. 1 \<le> c \<and> c \<le> getPageCount 23 10 \<and> 21 \<in> page_rows 23 10 c"
  by (rule pages_partition) simp_all

section \<open>The pager as a machine\<close>

text \<open>The arrows, the Enter key in the field with any number or none, and the total of an answer.\<close>

datatype pager_event = Prev | Next | Enter "int option" | Total int

fun pager_step :: "pager_event \<Rightarrow> pagenate \<Rightarrow> pagenate" where
  "pager_step Prev p = click_prev p"
| "pager_step Next p = click_next p"
| "pager_step (Enter page) p = enter_page page p"
| "pager_step (Total t) p = changeTotal t p"

text \<open>A total is a number of rows; the field is there when anything is shown.\<close>

fun pager_enabled :: "pager_event \<Rightarrow> pagenate \<Rightarrow> bool" where
  "pager_enabled (Total t) p = (0 \<le> t)"
| "pager_enabled (Enter page) p = shown p"
| "pager_enabled _ p = True"

text \<open>Every panel makes its pager with a total of 0, before the first answer.\<close>

definition pager_init :: "pagenate \<Rightarrow> bool" where
  "pager_init p = (\<exists>r. 0 < r \<and> p = pagenate_initialize 0 r)"

text \<open>
  The page may be any number or none. What holds in all states: the rows shown are those of the page,
  the left arrow is off on the first page only, and the right arrow is on where a page follows.
\<close>

definition pager_inv :: "pagenate \<Rightarrow> bool" where
  "pager_inv p =
     (0 < row p \<and> 0 \<le> total p \<and> page_count p = getPageCount (total p) (row p)
      \<and> start p = map_option (\<lambda>c. (c - 1) * row p + 1) (current_page p)
      \<and> offset p = map_option (\<lambda>c. min (total p) (c * row p)) (current_page p)
      \<and> (prev_disabled p \<longleftrightarrow> current_page p = Some 1)
      \<and> (\<forall>c. current_page p = Some c \<longrightarrow> 1 \<le> c \<longrightarrow> c < page_count p \<longrightarrow> \<not> next_disabled p))"

lemma renderPagenate_frame [simp]:
  "total (renderPagenate p) = total p" "row (renderPagenate p) = row p"
  "page_count (renderPagenate p) = page_count p" "current_page (renderPagenate p) = current_page p"
  "prev_disabled (renderPagenate p) = prev_disabled p" "next_disabled (renderPagenate p) = next_disabled p"
  "updates (renderPagenate p) = updates p"
  by (simp_all add: renderPagenate_def Let_def)

lemma renderPagenate_rows [simp]:
  "start (renderPagenate p) = map_option (\<lambda>c. (c - 1) * row p + 1) (current_page p)"
  "offset (renderPagenate p) = map_option (\<lambda>c. min (total p) (c * row p)) (current_page p)"
  by (auto simp: renderPagenate_def getStartCount_def getOffsetCount_def Let_def split: option.splits)

lemma changeArrowButton_frame [simp]:
  "total (changeArrowButton p) = total p" "row (changeArrowButton p) = row p"
  "page_count (changeArrowButton p) = page_count p" "current_page (changeArrowButton p) = current_page p"
  "start (changeArrowButton p) = start p" "offset (changeArrowButton p) = offset p"
  "prev_disabled (changeArrowButton p) \<longleftrightarrow> current_page p = Some 1"
  "next_disabled (changeArrowButton p) \<longleftrightarrow> current_page p \<noteq> Some 1 \<and> current_page p = Some (page_count p)"
  by (auto simp: changeArrowButton_def)

text \<open>What \<open>updatePage\<close> does to the page; the handlers of a page change run on its result.\<close>

definition moved :: "clicked \<Rightarrow> pagenate \<Rightarrow> int option" where
  "moved name p = map_option (\<lambda>c.
     if name = By_next \<and> 1 \<le> c \<and> c < page_count p then c + 1
     else if name = By_prev \<and> 1 < c \<and> c \<le> page_count p then c - 1 else c) (current_page p)"

lemma updatePage_frame [simp]:
  "total (updatePage name p) = total p" "row (updatePage name p) = row p"
  "page_count (updatePage name p) = page_count p" "current_page (updatePage name p) = moved name p"
  "start (updatePage name p) = map_option (\<lambda>c. (c - 1) * row p + 1) (moved name p)"
  "offset (updatePage name p) = map_option (\<lambda>c. min (total p) (c * row p)) (moved name p)"
  by (cases "current_page p"; cases name; simp add: updatePage_def moved_def Let_def)+

lemma changeTotal_frame [simp]:
  "total (changeTotal t p) = t" "row (changeTotal t p) = row p"
  "page_count (changeTotal t p) = getPageCount t (row p)" "current_page (changeTotal t p) = current_page p"
  "start (changeTotal t p) = map_option (\<lambda>c. (c - 1) * row p + 1) (current_page p)"
  "offset (changeTotal t p) = map_option (\<lambda>c. min t (c * row p)) (current_page p)"
  "prev_disabled (changeTotal t p) = prev_disabled p"
  by (simp_all add: changeTotal_def Let_def)

lemma changeTotal_next:
  "0 < row p \<Longrightarrow> next_disabled (changeTotal t p)
     \<longleftrightarrow> (case current_page p of None \<Rightarrow> True | Some c \<Rightarrow> getPageCount t (row p) \<le> c)"
  using page_count_le_iff [of "row p" t] by (auto simp: changeTotal_def Let_def not_less split: option.splits)

lemma pager_inv_update:
  "0 < row p \<Longrightarrow> 0 \<le> total p \<Longrightarrow> page_count p = getPageCount (total p) (row p) \<Longrightarrow>
     pager_inv (changeArrowButton (updatePage name p))"
  by (auto simp: pager_inv_def)

lemma pager_inv_init: "pager_init p \<Longrightarrow> pager_inv p"
  by (auto simp: pager_init_def pager_inv_def pagenate_initialize_def getPageCount_def Let_def)

interpretation pager: machine pager_init pager_enabled pager_step pager_inv
proof unfold_locales
  fix p show "pager_init p \<Longrightarrow> pager_inv p" by (rule pager_inv_init)
next
  fix p e assume inv: "pager_inv p" and en: "pager_enabled e p"
  have r: "0 < row p" "0 \<le> total p" "page_count p = getPageCount (total p) (row p)"
    using inv by (simp_all add: pager_inv_def)
  show "pager_inv (pager_step e p)"
  proof (cases e)
    case Prev
    then show ?thesis using inv pager_inv_update [OF r] by (simp add: click_prev_def)
  next
    case Next
    then show ?thesis using inv pager_inv_update [OF r] by (simp add: click_next_def)
  next
    case (Enter page)
    then show ?thesis using pager_inv_update [of "p\<lparr>current_page := page\<rparr>"] r by (simp add: enter_page_def)
  next
    case (Total t)
    then show ?thesis using inv en by (auto simp: pager_inv_def changeTotal_next)
  qed
qed

text \<open>What a click does to the page number.\<close>

lemma click_next_page: "pager_inv p \<Longrightarrow> current_page (click_next p) = moved By_next p"
  by (cases "current_page p") (auto simp: pager_inv_def click_next_def moved_def)

lemma click_prev_page: "pager_inv p \<Longrightarrow> current_page (click_prev p) = moved By_prev p"
  by (cases "current_page p") (auto simp: pager_inv_def click_prev_def moved_def)

lemma click_page_count [simp]:
  "page_count (click_next p) = page_count p" "page_count (click_prev p) = page_count p"
  by (auto simp: click_next_def click_prev_def)

text \<open>
  C13: in every state that clicks on the arrows, numbers typed into the field and totals of answers
  lead to, whether its page exists or not: the left arrow is off exactly on the first page; a click
  on the right arrow goes to the next page exactly when the page exists and one follows, a click on the
  left arrow to the one before exactly when the page exists and is not the first, and neither changes
  the page otherwise; forth and back returns to the page; and when the total of an answer comes in,
  the right arrow is off exactly when the page is no number or no page follows it.
\<close>

theorem pager_arrows:
  assumes "reachable pager_init pager_enabled pager_step p"
  shows "(prev_disabled p \<longleftrightarrow> current_page p = Some 1)
    \<and> current_page (click_next p) = map_option (\<lambda>c. if 1 \<le> c \<and> c < page_count p then c + 1 else c) (current_page p)
    \<and> current_page (click_prev p) = map_option (\<lambda>c. if 1 < c \<and> c \<le> page_count p then c - 1 else c) (current_page p)
    \<and> (\<forall>c. current_page p = Some c \<and> 1 \<le> c \<and> c < page_count p \<longrightarrow> current_page (click_prev (click_next p)) = Some c)
    \<and> (next_disabled (changeTotal t p)
        \<longleftrightarrow> (case current_page p of None \<Rightarrow> True | Some c \<Rightarrow> page_count (changeTotal t p) \<le> c))"
proof -
  have inv: "pager_inv p" using assms by (rule pager.reachable_inv)
  have "pager_inv (click_next p)" by (rule pager.reachable_inv) (use reach_step [OF assms, of Next] in simp)
  note prev = click_prev_page [OF this]
  show ?thesis using inv prev click_next_page [OF inv] click_prev_page [OF inv]
    by (cases "current_page p") (auto simp: moved_def changeTotal_next pager_inv_def)
qed

definition demo_pager :: pagenate where
  "demo_pager = pager_step Next (pager_step (Total 23) (pagenate_initialize 0 10))"

lemma demo_pager_reachable: "reachable pager_init pager_enabled pager_step demo_pager"
  unfolding demo_pager_def by (intro reach_step reach_init) (auto simp: pager_init_def intro!: exI [of _ 10])

text \<open>The witness: page 2 of 3, and page 0 typed there.\<close>

lemma pager_arrows_witness:
  "current_page (click_next demo_pager) = Some 3
   \<and> current_page (click_prev (pager_step (Enter (Some 0)) demo_pager)) = Some 0"
proof -
  have c: "current_page demo_pager = Some 2" "page_count demo_pager = 3" "shown demo_pager" by code_simp+
  have "reachable pager_init pager_enabled pager_step (pager_step (Enter (Some 0)) demo_pager)"
    by (rule reach_step [OF demo_pager_reachable]) (simp add: c)
  from pager_arrows [OF demo_pager_reachable] pager_arrows [OF this] show ?thesis
    by (simp add: c enter_page_def moved_def)
qed

section \<open>A page that is out of range\<close>

text \<open>
  when the total shrinks so far that the page shown no longer exists, or a page out of range
  is typed into the field, no sequence of clicks on the arrows ever leaves that page: both
  branches of \<open>updatePage\<close> ask for a page within range.
\<close>

theorem pager_out_of_range_stuck:
  assumes "\<forall>c. current_page p = Some c \<longrightarrow> c < 1 \<or> page_count p < c"
    and "set es \<subseteq> {Prev, Next}"
  shows "current_page (fold pager_step es p) = current_page p"
proof -
  have step: "current_page (pager_step e q) = current_page q \<and> page_count (pager_step e q) = page_count q"
    if "\<forall>c. current_page q = Some c \<longrightarrow> c < 1 \<or> page_count q < c" "e \<in> {Prev, Next}" for e q
    using that by (cases "current_page q") (auto simp: click_next_def click_prev_def moved_def)
  have "current_page (fold pager_step es q) = current_page q"
    if "\<forall>c. current_page q = Some c \<longrightarrow> c < 1 \<or> page_count q < c" "set es \<subseteq> {Prev, Next}" for q
    using that
  proof (induction es arbitrary: q)
    case (Cons e es)
    then have "current_page (pager_step e q) = current_page q \<and> page_count (pager_step e q) = page_count q"
      using step by simp
    with Cons show ?case by simp
  qed simp
  with assms show ?thesis by blast
qed

text \<open>The witness: page 3 of 23 rows, of which 12 are left after a deletion; four clicks later it is still page 3.\<close>

lemma pager_out_of_range_stuck_witness:
  "current_page (fold pager_step [Prev, Prev, Next, Prev] (changeTotal 12 (click_next demo_pager))) = Some 3"
proof -
  have p: "current_page (changeTotal 12 (click_next demo_pager)) = Some 3"
    "page_count (changeTotal 12 (click_next demo_pager)) = 2"
    by code_simp+
  show ?thesis
    using pager_out_of_range_stuck [of "changeTotal 12 (click_next demo_pager)" "[Prev, Prev, Next, Prev]"] p
    by simp
qed

text \<open>The page number typed into the field is taken as it is.\<close>

lemma enter_page_unchecked: "current_page (enter_page page p) = page"
  by (cases page) (simp_all add: enter_page_def moved_def)

end
