(* ===== verification/Core_Selector.thy ===== *)
theory Core_Selector
  imports Js_Prelude
begin

text \<open>
  The two-column chooser \<open>DcmgrGUI.ItemSelector\<close> of \<open>core.js\<close>, with which the dialogs choose
  security groups and ssh keys.
\<close>

section \<open>State and operations\<close>

record item =
  item_id :: string
  item_name :: string
  item_value :: string
  item_selected :: bool

text \<open>An \<open>option\<close> element: its \<open>id\<close> is the index of the item.\<close>

record option_elem =
  opt_id :: nat
  opt_value :: string
  opt_text :: string

text \<open>The two arrays, \<open>None\<close> for \<open>null\<close>, and the options in the two \<open>select\<close> elements.\<close>

record selector =
  leftSelectionsArray :: "option_elem option list"
  rightSelectionsArray :: "option_elem option list"
  left_select :: "option_elem list"
  right_select :: "option_elem list"

definition option_html :: "nat \<Rightarrow> item \<Rightarrow> option_elem" where
  "option_html i d = \<lparr>opt_id = i, opt_value = item_value d,
     opt_text = item_name d @ '' ('' @ item_id d @ '')''\<rparr>"

text \<open>The loop of \<open>refreshOptions\<close> appends the entries that are not null.\<close>

fun refreshOptions :: "option_elem option list \<Rightarrow> option_elem list" where
  "refreshOptions [] = []"
| "refreshOptions (None # xs) = refreshOptions xs"
| "refreshOptions (Some x # xs) = x # refreshOptions xs"

definition emptyArray :: "nat \<Rightarrow> option_elem option list" where
  "emptyArray n = replicate n None"

text \<open>One of the two loops of \<open>initialize\<close>: it fills the slots of the items on its side.\<close>

definition fill_side :: "bool \<Rightarrow> item list \<Rightarrow> option_elem option list \<Rightarrow> option_elem option list" where
  "fill_side sel data arr =
     fold (\<lambda>i a. if item_selected (data ! i) = sel then a[i := Some (option_html i (data ! i))] else a)
       [0..<length data] arr"

definition selector_initialize :: "item list \<Rightarrow> selector" where
  "selector_initialize data =
     (let l = fill_side False data (emptyArray (length data));
          r = fill_side True data (emptyArray (length data))
      in \<lparr>leftSelectionsArray = l, rightSelectionsArray = r,
          left_select = refreshOptions l, right_select = refreshOptions r\<rparr>)"

text \<open>
  The two moves: each option selected in one column, in document order, leaves it and its slot,
  and takes its slot on the other side; only the other column is drawn again. \<open>chosen\<close> is the
  selection of the user.
\<close>

definition move_left_to_right :: "option_elem \<Rightarrow> selector \<Rightarrow> selector" where
  "move_left_to_right opt s =
     s\<lparr>leftSelectionsArray := (leftSelectionsArray s)[opt_id opt := None],
       rightSelectionsArray := (rightSelectionsArray s)[opt_id opt := Some opt],
       left_select := remove1 opt (left_select s)\<rparr>"

definition leftToRight :: "(option_elem \<Rightarrow> bool) \<Rightarrow> selector \<Rightarrow> selector" where
  "leftToRight chosen s =
     (let s' = fold move_left_to_right (filter chosen (left_select s)) s
      in s'\<lparr>right_select := refreshOptions (rightSelectionsArray s')\<rparr>)"

definition move_right_to_left :: "option_elem \<Rightarrow> selector \<Rightarrow> selector" where
  "move_right_to_left opt s =
     s\<lparr>leftSelectionsArray := (leftSelectionsArray s)[opt_id opt := Some opt],
       rightSelectionsArray := (rightSelectionsArray s)[opt_id opt := None],
       right_select := remove1 opt (right_select s)\<rparr>"

definition rightToLeft :: "(option_elem \<Rightarrow> bool) \<Rightarrow> selector \<Rightarrow> selector" where
  "rightToLeft chosen s =
     (let s' = fold move_right_to_left (filter chosen (right_select s)) s
      in s'\<lparr>left_select := refreshOptions (leftSelectionsArray s')\<rparr>)"

fun count_right :: "option_elem option list \<Rightarrow> nat \<Rightarrow> nat" where
  "count_right [] count = count"
| "count_right (v # vs) count = count_right vs (if v \<noteq> None then count + 1 else count)"

definition getRightSelectionCount :: "selector \<Rightarrow> nat" where
  "getRightSelectionCount s = count_right (rightSelectionsArray s) 0"

section \<open>The two columns as a set of chosen items\<close>

text \<open>
  The specification: a chooser is the set \<open>R\<close> of the indices on the right. Both arrays and both
  columns are functions of it.
\<close>

definition slots :: "(nat \<Rightarrow> bool) \<Rightarrow> item list \<Rightarrow> option_elem option list" where
  "slots P data = map (\<lambda>i. if P i then Some (option_html i (data ! i)) else None) [0..<length data]"

definition column :: "(nat \<Rightarrow> bool) \<Rightarrow> item list \<Rightarrow> option_elem list" where
  "column P data = map (\<lambda>i. option_html i (data ! i)) (filter P [0..<length data])"

definition chooser :: "item list \<Rightarrow> nat set \<Rightarrow> selector" where
  "chooser data R =
     \<lparr>leftSelectionsArray = slots (\<lambda>i. i \<notin> R) data, rightSelectionsArray = slots (\<lambda>i. i \<in> R) data,
      left_select = column (\<lambda>i. i \<notin> R) data, right_select = column (\<lambda>i. i \<in> R) data\<rparr>"

lemma slots_length [simp]: "length (slots P data) = length data"
  by (simp add: slots_def)

lemma refreshOptions_map:
  "refreshOptions (map (\<lambda>i. if P i then Some (f i) else None) is) = map f (filter P is)"
  by (induction "is") auto

lemma refreshOptions_slots [simp]: "refreshOptions (slots P data) = column P data"
  by (simp add: slots_def column_def refreshOptions_map)

lemma slots_update_Some:
  "i < length data \<Longrightarrow> (slots P data)[i := Some (option_html i (data ! i))] = slots (\<lambda>j. P j \<or> j = i) data"
  by (rule nth_equalityI) (auto simp: slots_def nth_list_update)

lemma slots_update_None: "(slots P data)[i := None] = slots (\<lambda>j. P j \<and> j \<noteq> i) data"
proof (rule nth_equalityI)
  fix j assume "j < length ((slots P data)[i := None])"
  then have "j < length data" by simp
  then show "(slots P data)[i := None] ! j = slots (\<lambda>j. P j \<and> j \<noteq> i) data ! j"
    by (cases "j = i") (auto simp: slots_def nth_list_update)
qed simp

lemma fill_side_slots: "fill_side sel data (emptyArray (length data)) = slots (\<lambda>i. item_selected (data ! i) = sel) data"
proof -
  let ?f = "\<lambda>i a. if item_selected (data ! i) = sel then a[i := Some (option_html i (data ! i))] else a"
  have "n \<le> length data \<Longrightarrow>
      fold ?f [0..<n] (emptyArray (length data)) = slots (\<lambda>i. item_selected (data ! i) = sel \<and> i < n) data" for n
  proof (induction n)
    case 0
    then show ?case by (auto simp: emptyArray_def slots_def intro!: nth_equalityI)
  next
    case (Suc n)
    have "slots (\<lambda>i. (item_selected (data ! i) = sel \<and> i < n) \<or> i = n) data
        = slots (\<lambda>i. item_selected (data ! i) = sel \<and> i < Suc n) data" if "item_selected (data ! n) = sel"
      using that by (auto simp: slots_def less_Suc_eq)
    moreover have "slots (\<lambda>i. item_selected (data ! i) = sel \<and> i < n) data
        = slots (\<lambda>i. item_selected (data ! i) = sel \<and> i < Suc n) data" if "item_selected (data ! n) \<noteq> sel"
      using that by (auto simp: slots_def less_Suc_eq)
    ultimately show ?case using Suc by (simp add: slots_update_Some)
  qed
  from this [of "length data"] show ?thesis
    unfolding fill_side_def by (simp add: slots_def)
qed

lemma selector_initialize_chooser:
  "selector_initialize data = chooser data {i. item_selected (data ! i)}"
  by (simp add: selector_initialize_def chooser_def fill_side_slots Let_def)

lemma option_html_inj: "option_html i d = option_html j e \<Longrightarrow> i = j"
  by (simp add: option_html_def)

lemma remove1_column:
  "remove1 (option_html i (data ! i)) (column P data) = column (\<lambda>j. P j \<and> j \<noteq> i) data"
proof -
  have d: "distinct (column P data)"
    by (auto simp: column_def distinct_map inj_on_def dest: option_html_inj)
  then have "remove1 (option_html i (data ! i)) (column P data)
      = filter (\<lambda>x. x \<noteq> option_html i (data ! i)) (column P data)"
    by (simp add: distinct_remove1_removeAll removeAll_filter_not_eq eq_commute)
  also have "\<dots> = column (\<lambda>j. P j \<and> j \<noteq> i) data"
    by (auto simp: column_def filter_map comp_def intro!: arg_cong [where f = "map _"] filter_cong
        dest: option_html_inj)
  finally show ?thesis .
qed

lemma move_left_to_right_chooser:
  assumes "i < length data"
  shows "\<exists>r. move_left_to_right (option_html i (data ! i)) ((chooser data R)\<lparr>right_select := q\<rparr>)
     = (chooser data (insert i R))\<lparr>right_select := r\<rparr>"
proof -
  have "opt_id (option_html i (data ! i)) = i" by (simp add: option_html_def)
  moreover have "(\<lambda>j. j \<in> R \<or> j = i) = (\<lambda>j. j \<in> insert i R)"
    "(\<lambda>j. j \<notin> R \<and> j \<noteq> i) = (\<lambda>j. j \<notin> insert i R)" by auto
  ultimately show ?thesis using assms
    by (simp add: move_left_to_right_def chooser_def slots_update_None slots_update_Some remove1_column)
qed

lemma move_right_to_left_chooser:
  assumes "i < length data"
  shows "\<exists>r. move_right_to_left (option_html i (data ! i)) ((chooser data R)\<lparr>left_select := q\<rparr>)
     = (chooser data (R - {i}))\<lparr>left_select := r\<rparr>"
proof -
  have "opt_id (option_html i (data ! i)) = i" by (simp add: option_html_def)
  moreover have "(\<lambda>j. j \<notin> R \<or> j = i) = (\<lambda>j. j \<notin> R - {i})"
    "(\<lambda>j. j \<in> R \<and> j \<noteq> i) = (\<lambda>j. j \<in> R - {i})" by auto
  ultimately show ?thesis using assms
    by (simp add: move_right_to_left_def chooser_def slots_update_None slots_update_Some remove1_column)
qed

text \<open>The indices that a move takes.\<close>

definition chosen_in :: "(option_elem \<Rightarrow> bool) \<Rightarrow> item list \<Rightarrow> nat set" where
  "chosen_in ch data = {i. i < length data \<and> ch (option_html i (data ! i))}"

lemma fold_move_left_to_right:
  "set is \<subseteq> {..<length data} \<Longrightarrow>
   \<exists>r. fold move_left_to_right (map (\<lambda>i. option_html i (data ! i)) is) ((chooser data R)\<lparr>right_select := q\<rparr>)
     = (chooser data (R \<union> set is))\<lparr>right_select := r\<rparr>"
proof (induction "is" arbitrary: R q)
  case Nil
  then show ?case by auto
next
  case (Cons i js)
  then obtain r where r: "move_left_to_right (option_html i (data ! i)) ((chooser data R)\<lparr>right_select := q\<rparr>)
      = (chooser data (insert i R))\<lparr>right_select := r\<rparr>"
    using move_left_to_right_chooser by (metis insert_subset lessThan_iff list.simps(15))
  show ?case using Cons.IH [where R = "insert i R" and q = r] Cons.prems r by simp
qed

lemma fold_move_right_to_left:
  "set is \<subseteq> {..<length data} \<Longrightarrow>
   \<exists>r. fold move_right_to_left (map (\<lambda>i. option_html i (data ! i)) is) ((chooser data R)\<lparr>left_select := q\<rparr>)
     = (chooser data (R - set is))\<lparr>left_select := r\<rparr>"
proof (induction "is" arbitrary: R q)
  case Nil
  then show ?case by auto
next
  case (Cons i js)
  then obtain r where r: "move_right_to_left (option_html i (data ! i)) ((chooser data R)\<lparr>left_select := q\<rparr>)
      = (chooser data (R - {i}))\<lparr>left_select := r\<rparr>"
    using move_right_to_left_chooser by (metis insert_subset lessThan_iff list.simps(15))
  have "R - set (i # js) = R - {i} - set js" by auto
  then show ?case using Cons.IH [where R = "R - {i}" and q = r] Cons.prems r by simp
qed

lemma filter_column:
  "filter ch (column P data)
     = map (\<lambda>i. option_html i (data ! i)) (filter (\<lambda>i. P i \<and> i \<in> chosen_in ch data) [0..<length data])"
  by (auto simp: column_def filter_map comp_def chosen_in_def intro!: arg_cong [where f = "map _"] filter_cong)

lemma chooser_cong:
  assumes "R \<inter> {..<length data} = S \<inter> {..<length data}"
  shows "chooser data R = chooser data S"
proof -
  have e: "i \<in> R \<longleftrightarrow> i \<in> S" if "i \<in> set [0..<length data]" for i using assms that by auto
  have "slots (\<lambda>i. i \<in> R) data = slots (\<lambda>i. i \<in> S) data" "slots (\<lambda>i. i \<notin> R) data = slots (\<lambda>i. i \<notin> S) data"
    unfolding slots_def using e by (simp_all cong: map_cong)
  moreover have "column (\<lambda>i. i \<in> R) data = column (\<lambda>i. i \<in> S) data"
    "column (\<lambda>i. i \<notin> R) data = column (\<lambda>i. i \<notin> S) data"
    unfolding column_def using e by (auto intro!: arg_cong [where f = "map _"] filter_cong)
  ultimately show ?thesis by (simp add: chooser_def)
qed

lemma leftToRight_chooser: "leftToRight ch (chooser data R) = chooser data (R \<union> chosen_in ch data)"
proof -
  let ?is = "filter (\<lambda>i. i \<notin> R \<and> i \<in> chosen_in ch data) [0..<length data]"
  have q: "(chooser data R)\<lparr>right_select := right_select (chooser data R)\<rparr> = chooser data R" by simp
  have f: "filter ch (left_select (chooser data R)) = map (\<lambda>i. option_html i (data ! i)) ?is"
    by (simp add: chooser_def filter_column)
  have "set ?is \<subseteq> {..<length data}" by auto
  from fold_move_left_to_right [OF this, where R = R and q = "right_select (chooser data R)"]
  obtain r where "fold move_left_to_right (filter ch (left_select (chooser data R))) (chooser data R)
      = (chooser data (R \<union> set ?is))\<lparr>right_select := r\<rparr>"
    unfolding f q by blast
  moreover have "chooser data (R \<union> set ?is) = chooser data (R \<union> chosen_in ch data)"
    by (rule chooser_cong) (auto simp: chosen_in_def)
  ultimately show ?thesis by (simp add: leftToRight_def Let_def) (simp add: chooser_def)
qed

lemma rightToLeft_chooser: "rightToLeft ch (chooser data R) = chooser data (R - chosen_in ch data)"
proof -
  let ?is = "filter (\<lambda>i. i \<in> R \<and> i \<in> chosen_in ch data) [0..<length data]"
  have q: "(chooser data R)\<lparr>left_select := left_select (chooser data R)\<rparr> = chooser data R" by simp
  have f: "filter ch (right_select (chooser data R)) = map (\<lambda>i. option_html i (data ! i)) ?is"
    by (simp add: chooser_def filter_column)
  have "set ?is \<subseteq> {..<length data}" by auto
  from fold_move_right_to_left [OF this, where R = R and q = "left_select (chooser data R)"]
  obtain r where "fold move_right_to_left (filter ch (right_select (chooser data R))) (chooser data R)
      = (chooser data (R - set ?is))\<lparr>left_select := r\<rparr>"
    unfolding f q by blast
  moreover have "chooser data (R - set ?is) = chooser data (R - chosen_in ch data)"
    by (rule chooser_cong) (auto simp: chosen_in_def)
  ultimately show ?thesis by (simp add: rightToLeft_def Let_def) (simp add: chooser_def)
qed

text \<open>
  C17: the chooser refines a set of chosen items: whatever is selected and moved, both arrays and
  both columns are those of the set, which the move to the right unites with the selection and
  the move to the left diminishes by it. So every item is in exactly one column, in the order of
  the data, and nothing is lost or doubled.
\<close>

theorem selector_refines_set:
  "selector_initialize data = chooser data {i. item_selected (data ! i)}
   \<and> leftToRight ch (chooser data R) = chooser data (R \<union> chosen_in ch data)
   \<and> rightToLeft ch (chooser data R) = chooser data (R - chosen_in ch data)"
  by (simp add: selector_initialize_chooser leftToRight_chooser rightToLeft_chooser)

text \<open>The number of chosen items that the dialogs ask for is the length of the right column.\<close>

lemma count_right_refresh: "count_right arr n = n + length (refreshOptions arr)"
  by (induction arr arbitrary: n rule: refreshOptions.induct) auto

lemma getRightSelectionCount_chooser:
  "getRightSelectionCount (chooser data R) = card (R \<inter> {..<length data})"
proof -
  have "length (column (\<lambda>i. i \<in> R) data) = card (set (filter (\<lambda>i. i \<in> R) [0..<length data]))"
    by (simp add: column_def distinct_card [symmetric] del: set_filter)
  moreover have "set (filter (\<lambda>i. i \<in> R) [0..<length data]) = R \<inter> {..<length data}" by auto
  ultimately show ?thesis
    by (simp add: getRightSelectionCount_def count_right_refresh chooser_def)
qed

section \<open>The chooser as a machine\<close>

datatype selector_event = To_right "option_elem \<Rightarrow> bool" | To_left "option_elem \<Rightarrow> bool"

fun selector_step :: "selector_event \<Rightarrow> selector \<Rightarrow> selector" where
  "selector_step (To_right ch) s = leftToRight ch s"
| "selector_step (To_left ch) s = rightToLeft ch s"

interpretation chooser_machine:
  machine "\<lambda>s. s = selector_initialize data" "\<lambda>_ _. True" selector_step "\<lambda>s. \<exists>R. s = chooser data R"
  for data
proof unfold_locales
  fix s show "s = selector_initialize data \<Longrightarrow> \<exists>R. s = chooser data R"
    using selector_initialize_chooser by blast
next
  fix s e assume "\<exists>R. s = chooser data R"
  then show "\<exists>R. selector_step e s = chooser data R"
    using leftToRight_chooser rightToLeft_chooser by (cases e) (simp, blast)+
qed

end
