(* ===== verification/Core_Util.thy ===== *)
theory Core_Util
  imports Js_Prelude
begin

text \<open>
  The pure functions of \<open>DcmgrGUI.Util\<close> in \<open>core.js\<close>: paths and queries of a page, the rows
  that fill a short page, line breaks.
\<close>

section \<open>Paths and queries\<close>

definition getPagePath :: "string \<Rightarrow> string \<Rightarrow> jsval \<Rightarrow> string" where
  "getPagePath path page format =
     path @ page @ ''.'' @ (if truthy format then to_str format else ''json'')"

definition getPagenateData :: "jsval \<Rightarrow> jsval \<Rightarrow> string" where
  "getPagenateData start limit = ''start='' @ to_str start @ ''&'' @ ''limit='' @ to_str limit"

definition getLoadingImage :: "string \<Rightarrow> string" where
  "getLoadingImage type =
     (let image = (if type = ''ball'' then ''loader_ball.gif''
                   else if type = ''boxes'' then ''loader_boxes.gif'' else ''loader_ball.gif'')
      in ''<img src='' @ [CHR 0x22] @ ''images/'' @ image @ [CHR 0x22] @ '' />'')"

definition slice_text :: "nat \<Rightarrow> string \<Rightarrow> string" where
  "slice_text len value = take len value @ ''...''"

lemma int_digits_plain_value [simp]: "plain_value (int_digits i)"
proof -
  have "\<not> is_digit (CHR ''&'')" "\<not> is_digit (CHR ''%'')" "\<not> is_digit (CHR ''+'')"
    by (simp_all add: digit_value_def)
  then have "CHR ''&'' \<notin> set (nat_digits n)" "CHR ''%'' \<notin> set (nat_digits n)"
    "CHR ''+'' \<notin> set (nat_digits n)" for n
    using nat_digits_all by blast+
  then show ?thesis by (simp add: plain_value_def int_digits_def)
qed

lemma plain_keys [simp]: "plain_key ''start''" "plain_key ''limit''"
  by (simp_all add: plain_key_def)

text \<open>The page request reads back as the two numbers.\<close>

lemma read_getPagenateData [js_simps]:
  "read_query (getPagenateData (JNum start) (JNum limit))
     = [(''start'', Some (int_digits start)), (''limit'', Some (int_digits limit))]"
proof -
  have "getPagenateData (JNum start) (JNum limit)
      = field ''start'' (int_digits start) @ ''&'' @ field ''limit'' (int_digits limit)"
    by (simp add: getPagenateData_def field_def)
  then show ?thesis by (simp only: read_query_append) (simp add: js_simps)
qed

lemma read_getPagenateData_NaN [js_simps]:
  "read_query (getPagenateData JNaN (JNum limit)) = [(''start'', Some ''NaN''), (''limit'', Some (int_digits limit))]"
proof -
  have "getPagenateData JNaN (JNum limit) = field ''start'' ''NaN'' @ ''&'' @ field ''limit'' (int_digits limit)"
    by (simp add: getPagenateData_def field_def)
  moreover have "read_query (field ''start'' ''NaN'') = [(''start'', Some ''NaN'')]" by code_simp
  ultimately show ?thesis by (simp only: read_query_append) (simp add: js_simps)
qed

lemma int_digits_inject: "int_digits i = int_digits j \<longleftrightarrow> i = j"
proof -
  have "hd (nat_digits n) \<noteq> CHR ''-''" for n
    using nat_digits_all [of "hd (nat_digits n)" n] by (auto simp: digit_value_def)
  then have "nat_digits n \<noteq> CHR ''-'' # s" for n s by (metis list.sel(1))
  then show ?thesis by (auto simp: int_digits_def dest: sym)
qed

section \<open>Filling a page with empty rows\<close>

text \<open>
  The filler is one array object, pushed as often as needed; it gets a property \<open>key\<close> when the
  first row has any property at all, which \<open>has_keys\<close> stands for.
\<close>

datatype 'a filled = Row 'a | Filler bool

definition setfillData :: "('a \<Rightarrow> bool) \<Rightarrow> int \<Rightarrow> 'a list \<Rightarrow> 'a filled list" where
  "setfillData has_keys maxrows json =
     (let fillCount = maxrows - int (length json);
          emptyObj = Filler (json \<noteq> [] \<and> has_keys (hd json))
      in map Row json @ replicate (nat fillCount) emptyObj)"

fun filled_rows :: "'a filled list \<Rightarrow> 'a list" where
  "filled_rows [] = []"
| "filled_rows (Row x # xs) = x # filled_rows xs"
| "filled_rows (Filler b # xs) = filled_rows xs"

lemma filled_rows_append [simp]: "filled_rows (xs @ ys) = filled_rows xs @ filled_rows ys"
  by (induction xs rule: filled_rows.induct) auto

lemma filled_rows_map [simp]: "filled_rows (map Row xs) = xs"
  by (induction xs) auto

lemma filled_rows_replicate [simp]: "filled_rows (replicate n (Filler b)) = []"
  by (induction n) auto

text \<open>The table keeps every row in order and has at least \<open>maxrows\<close> lines.\<close>

lemma setfillData_rows: "filled_rows (setfillData hk n xs) = xs"
  by (simp add: setfillData_def Let_def)

lemma setfillData_length: "int (length (setfillData hk n xs)) = max n (int (length xs))"
  by (simp add: setfillData_def Let_def)

section \<open>Line breaks\<close>

text \<open>The alternatives of the regular expression, tried in its order at each place.\<close>

fun nl2br :: "string \<Rightarrow> string" where
  "nl2br [] = []"
| "nl2br (c # s) =
     (if c = CHR 0x0D then
        (case s of d # t \<Rightarrow> if d = CHR 0x0A then ''<br />'' @ nl2br t else ''<br />'' @ nl2br s
         | [] \<Rightarrow> ''<br />'')
      else if c = CHR 0x0A then
        (case s of d # t \<Rightarrow> if d = CHR 0x0D then ''<br />'' @ nl2br t else ''<br />'' @ nl2br s
         | [] \<Rightarrow> ''<br />'')
      else c # nl2br s)"

definition one_line :: "string \<Rightarrow> bool" where
  "one_line s = (CHR 0x0D \<notin> set s \<and> CHR 0x0A \<notin> set s)"

lemma one_line_Nil [simp]: "one_line []"
  by (simp add: one_line_def)

lemma one_line_Cons [simp]: "one_line (c # s) \<longleftrightarrow> c \<noteq> CHR 0x0D \<and> c \<noteq> CHR 0x0A \<and> one_line s"
  by (auto simp: one_line_def)

definition line_ends :: "string list" where
  "line_ends = [[CHR 0x0D, CHR 0x0A], [CHR 0x0A], [CHR 0x0D]]"

lemma nl2br_line_append: "one_line l \<Longrightarrow> nl2br (l @ s) = l @ nl2br s"
  by (induction l) auto

lemma nl2br_line: "one_line l \<Longrightarrow> nl2br l = l"
  using nl2br_line_append [of l "[]"] by simp

text \<open>What comes after a line end never starts with the other half of a pair.\<close>

lemma hd_join_line_ends:
  assumes "sep \<in> set line_ends" and "\<forall>l\<in>set ls. one_line l"
  shows "nl2br (sep @ join sep ls) = ''<br />'' @ nl2br (join sep ls)"
proof -
  have h: "join sep ls = [] \<or> hd (join sep ls) = hd sep \<or> (hd (join sep ls) \<noteq> CHR 0x0D \<and> hd (join sep ls) \<noteq> CHR 0x0A)"
  proof (cases ls)
    case (Cons l ls')
    have l: "l = [] \<or> hd l \<noteq> CHR 0x0D \<and> hd l \<noteq> CHR 0x0A"
      using assms(2) Cons by (cases l) auto
    have "sep \<noteq> []" using assms(1) by (auto simp: line_ends_def)
    with l Cons show ?thesis by (cases ls'; cases l) simp_all
  qed simp
  show ?thesis
  proof (cases "join sep ls")
    case Nil
    with assms(1) show ?thesis by (auto simp: line_ends_def)
  next
    case (Cons c t)
    with h have "c = hd sep \<or> (c \<noteq> CHR 0x0D \<and> c \<noteq> CHR 0x0A)" by simp
    with assms(1) Cons show ?thesis by (auto simp: line_ends_def)
  qed
qed

lemma nl2br_Cons_cases:
  "nl2br (c # t) = ''<br />'' @ nl2br t \<or> nl2br (c # t) = ''<br />'' @ nl2br (tl t)
   \<or> (c \<noteq> CHR 0x0D \<and> c \<noteq> CHR 0x0A \<and> nl2br (c # t) = c # nl2br t)"
proof (cases t)
  case (Cons d u)
  show ?thesis unfolding Cons nl2br.simps(2) [of c] by (simp del: nl2br.simps)
qed auto

lemma nl2br_one_line: "one_line (nl2br s)"
proof (induction s rule: length_induct)
  case (1 s)
  show ?case
  proof (cases s)
    case (Cons c t)
    have t: "one_line (nl2br t)" using 1 Cons by simp
    have u: "one_line (nl2br (tl t))" using 1 Cons by (cases t) simp_all
    show ?thesis using Cons t u nl2br_Cons_cases [of c t] by (auto simp del: nl2br.simps)
  qed simp
qed

text \<open>
  a text of lines, each ended by CRLF, LF or CR, becomes the lines separated by
  \<open><br />\<close>, empty lines included, and no line end is left.
\<close>

theorem nl2br_lines:
  assumes "sep \<in> set line_ends" and "\<forall>l\<in>set ls. one_line l"
  shows "nl2br (join sep ls) = join ''<br />'' ls \<and> one_line (nl2br (join sep ls))"
proof -
  have "nl2br (join sep ls) = join ''<br />'' ls"
    using assms(2)
  proof (induction ls rule: induct_list012)
    case (3 x y ys)
    then show ?case
      using hd_join_line_ends [OF assms(1), of "y # ys"] by (simp add: nl2br_line_append)
  qed (auto simp: nl2br_line)
  then show ?thesis using nl2br_one_line [of "join sep ls"] by simp
qed

lemma nl2br_lines_witness:
  "nl2br (''a'' @ [CHR 0x0D, CHR 0x0A] @ [CHR 0x0D, CHR 0x0A] @ ''b'') = ''a<br /><br />b''"
  using nl2br_lines [of "[CHR 0x0D, CHR 0x0A]" "[''a'', '''', ''b'']"]
  by (simp add: line_ends_def one_line_def)

end
