(* ===== verification/Core_List.thy ===== *)
theory Core_List
  imports Core_Util
begin

text \<open>
  The list of a panel: \<open>DcmgrGUI.ContentBase\<close>, \<open>DcmgrGUI.List\<close> and \<open>DcmgrGUI.Detail\<close> of
  \<open>core.js\<close>: where a list keeps its fields, which rows are checked, which details are shown
  and which detail requests are on their way.
\<close>

section \<open>Objects with prototypes\<close>

text \<open>
  An object has its own properties and a prototype. \<open>Class.create\<close> gives a class a prototype
  object, which holds the methods; a subclass's prototype has the parent's as its prototype.
  Addresses are numbers; \<open>0\<close> is no object.
\<close>

record 'v obj =
  own :: "string \<rightharpoonup> 'v"
  proto :: nat

type_synonym 'v heap = "nat \<Rightarrow> 'v obj"

definition put_prop :: "nat \<Rightarrow> string \<Rightarrow> 'v \<Rightarrow> 'v heap \<Rightarrow> 'v heap" where
  "put_prop a k v h = h(a := (h a)\<lparr>own := (own (h a))(k \<mapsto> v)\<rparr>)"

text \<open>The lookup along the chain, which is as long as the class hierarchy: at most three objects.\<close>

fun get_prop :: "nat \<Rightarrow> nat \<Rightarrow> string \<Rightarrow> 'v heap \<Rightarrow> 'v option" where
  "get_prop 0 a k h = None"
| "get_prop (Suc n) a k h =
     (if a = 0 then None
      else case own (h a) k of Some v \<Rightarrow> Some v | None \<Rightarrow> get_prop n (proto (h a)) k h)"

text \<open>The prototype objects of \<open>ContentBase\<close> and \<open>List\<close>.\<close>

definition content_base_proto :: nat where "content_base_proto = 1"
definition list_proto :: nat where "list_proto = 2"

definition class_heap :: "'v heap" where
  "class_heap a = (if a = list_proto then \<lparr>own = Map.empty, proto = content_base_proto\<rparr>
                   else \<lparr>own = Map.empty, proto = 0\<rparr>)"

text \<open>\<open>new\<close> makes an object whose prototype is the class's, then calls \<open>initialize\<close> on it.\<close>

definition new_object :: "nat \<Rightarrow> nat \<Rightarrow> 'v heap \<Rightarrow> 'v heap" where
  "new_object a p h = h(a := \<lparr>own = Map.empty, proto = p\<rparr>)"

datatype prop_value = Elem string | Tmpl string | Num int | Fresh nat

text \<open>\<open>filter\<close> and \<open>detail_filter\<close> are new objects; \<open>fr\<close> numbers them.\<close>

definition content_initialize :: "nat \<Rightarrow> string \<Rightarrow> string \<Rightarrow> nat \<Rightarrow> prop_value heap \<Rightarrow> prop_value heap" where
  "content_initialize self element_id template_id fr h =
     put_prop self ''filter'' (Fresh fr)
      (put_prop self ''template'' (Tmpl template_id)
        (put_prop self ''element'' (Elem (if element_id \<noteq> '''' then element_id else ''<div></div>'')) h))"

text \<open>
  \<open>List.initialize\<close> calls \<open>DcmgrGUI.ContentBase.prototype.initialize(params)\<close>: the receiver of
  that call is the prototype object, not the list.
\<close>

definition list_initialize :: "nat \<Rightarrow> string \<Rightarrow> string \<Rightarrow> int \<Rightarrow> int \<Rightarrow> nat \<Rightarrow> prop_value heap \<Rightarrow> prop_value heap" where
  "list_initialize self element_id template_id maxrow page fr h =
     (let h1 = content_initialize content_base_proto element_id template_id fr h;
          h2 = put_prop self ''maxrow'' (Num maxrow) h1;
          h3 = put_prop self ''page'' (Num page) h2
      in put_prop self ''detail_filter'' (Fresh (Suc fr)) h3)"

definition new_list :: "nat \<Rightarrow> string \<Rightarrow> string \<Rightarrow> int \<Rightarrow> int \<Rightarrow> nat \<Rightarrow> prop_value heap \<Rightarrow> prop_value heap" where
  "new_list a element_id template_id maxrow page fr h =
     list_initialize a element_id template_id maxrow page fr (new_object a list_proto h)"

definition list_prop :: "nat \<Rightarrow> string \<Rightarrow> prop_value heap \<Rightarrow> prop_value option" where
  "list_prop a k h = get_prop 3 a k h"

lemmas heap_defs = new_list_def list_initialize_def content_initialize_def put_prop_def new_object_def
  class_heap_def list_prop_def content_base_proto_def list_proto_def Let_def

text \<open>
  two lists made one after the other. Each has its own row count and page, but the element,
  the template and the filter chain of both are those of the list made last: they are kept on
  the prototype that all lists share.
\<close>

theorem lists_share_element:
  assumes "a > 2" and "b > 2" and "a \<noteq> b"
  shows "let h = new_list b e2 t2 m2 p2 f2 (new_list a e1 t1 m1 p1 f1 class_heap) in
      list_prop a ''maxrow'' h = Some (Num m1) \<and> list_prop b ''maxrow'' h = Some (Num m2)
      \<and> list_prop a ''page'' h = Some (Num p1) \<and> list_prop b ''page'' h = Some (Num p2)
      \<and> list_prop a ''element'' h = list_prop b ''element'' h
      \<and> list_prop a ''template'' h = Some (Tmpl t2) \<and> list_prop b ''template'' h = Some (Tmpl t2)
      \<and> list_prop a ''filter'' h = Some (Fresh f2)"
  using assms by (simp add: heap_defs numeral_3_eq_3 numeral_2_eq_2)

lemma lists_share_element_witness:
  "list_prop 3 ''template''
     (new_list 4 ''#display_volumes'' ''#volumesListTemplate'' 10 1 20
       (new_list 3 ''#display_images'' ''#imagesListTemplate'' 10 1 10 class_heap))
   = Some (Tmpl ''#volumesListTemplate'')"
  using lists_share_element [of 3 4 "''#display_volumes''" "''#volumesListTemplate''" 10 1 20
      "''#display_images''" "''#imagesListTemplate''" 10 1 10]
  by (simp add: Let_def)

section \<open>The load mask\<close>

text \<open>
  \<open>ContentBase.update\<close> masks the list and sends a request; whatever happens to the request, its
  \<open>complete\<close> handler unmasks. \<open>on_success\<close> is what the success handler does to the rest of
  the page: the filter chain, then \<open>contentChange\<close>, then \<open>afterUpdate\<close>.
\<close>

record 's content_state =
  masked :: bool
  in_flight :: nat
  view :: 's

definition content_update :: "'s content_state \<Rightarrow> 's content_state" where
  "content_update c = c\<lparr>masked := True, in_flight := Suc (in_flight c)\<rparr>"

definition content_complete :: "('s \<Rightarrow> 's) option \<Rightarrow> 's content_state \<Rightarrow> 's content_state" where
  "content_complete on_success c =
     c\<lparr>view := (case on_success of Some f \<Rightarrow> f (view c) | None \<Rightarrow> view c),
       masked := False, in_flight := in_flight c - 1\<rparr>"

definition success_handlers :: "('s \<Rightarrow> 's) \<Rightarrow> ('s \<Rightarrow> 's) \<Rightarrow> ('s \<Rightarrow> 's) \<Rightarrow> 's \<Rightarrow> 's" where
  "success_handlers filters contentChange afterUpdate = afterUpdate \<circ> contentChange \<circ> filters"

datatype 's content_event = Update | Complete "('s \<Rightarrow> 's) option"

fun content_step :: "'s content_event \<Rightarrow> 's content_state \<Rightarrow> 's content_state" where
  "content_step Update c = content_update c"
| "content_step (Complete f) c = content_complete f c"

fun content_enabled :: "'s content_event \<Rightarrow> 's content_state \<Rightarrow> bool" where
  "content_enabled Update c = True"
| "content_enabled (Complete f) c = (0 < in_flight c)"

text \<open>The mask never stays behind: it is off when no request is on its way.\<close>

interpretation mask:
  machine "\<lambda>c. \<not> masked c \<and> in_flight c = 0" content_enabled content_step
    "\<lambda>c. in_flight c = 0 \<longrightarrow> \<not> masked c"
proof unfold_locales
  fix c :: "'s content_state" and e :: "'s content_event"
  assume "in_flight c = 0 \<longrightarrow> \<not> masked c" "content_enabled e c"
  then show "in_flight (content_step e c) = 0 \<longrightarrow> \<not> masked (content_step e c)"
    by (cases e) (auto simp: content_update_def content_complete_def)
qed simp

section \<open>Checked rows and shown details\<close>

text \<open>
  \<open>checked_list\<close> holds the ids that \<open>this.checked_list\<close> has as keys, in insertion order;
  \<open>boxes\<close> the check boxes of the table with their state; \<open>details\<close> the children of \<open>#detail\<close>
  by their id; \<open>pending\<close> the detail requests sent and not yet answered.
\<close>

record clist =
  checked_list :: "string list"
  boxes :: "(string \<times> bool) list"
  details :: "string list"
  pending :: "string list"

definition getCheckedInstanceIds :: "clist \<Rightarrow> string list" where
  "getCheckedInstanceIds s = checked_list s"

definition currentMultiChecked :: "clist \<Rightarrow> string list" where
  "currentMultiChecked s = map fst (filter snd (boxes s))"

definition clearCheckedList :: "clist \<Rightarrow> clist" where
  "clearCheckedList s = s\<lparr>checked_list := []\<rparr>"

definition set_box :: "string \<Rightarrow> bool \<Rightarrow> clist \<Rightarrow> clist" where
  "set_box i b s = s\<lparr>boxes := map (\<lambda>(j, c). if j = i then (j, b) else (j, c)) (boxes s)\<rparr>"

text \<open>
  A click on the box of row \<open>i\<close>, whose state has just changed to \<open>b\<close>; the topics published
  on the way are \<open>checked_box\<close> and \<open>unchecked_box\<close>. Assigning to a key that is there keeps
  its place.
\<close>

definition click_box :: "string \<Rightarrow> bool \<Rightarrow> clist \<Rightarrow> clist \<times> string" where
  "click_box i b s0 =
     (let s = set_box i b s0 in
      if b then
        (s\<lparr>checked_list := (if i \<in> set (checked_list s) then checked_list s else checked_list s @ [i]),
           pending := pending s @ [i]\<rparr>, ''checked_box'')
      else
        (if i \<in> set (checked_list s)
         then s\<lparr>details := filter (\<lambda>d. d \<noteq> i) (details s),
                checked_list := filter (\<lambda>d. d \<noteq> i) (checked_list s)\<rparr>
         else s, ''unchecked_box''))"

text \<open>The answer of a detail request: the detail is appended if its row is still checked.\<close>

definition detail_response :: "string \<Rightarrow> clist \<Rightarrow> clist" where
  "detail_response i s =
     (let s' = s\<lparr>pending := remove1 i (pending s)\<rparr> in
      if i \<in> set (checked_list s') then s'\<lparr>details := details s' @ [i]\<rparr> else s')"

text \<open>
  A detail request that fails, or whose answer has a date that cannot be read: the answer's handler
  does not get to the list.
\<close>

definition detail_failure :: "string \<Rightarrow> clist \<Rightarrow> clist" where
  "detail_failure i s = s\<lparr>pending := remove1 i (pending s)\<rparr>"

text \<open>
  The refresh of a panel, for each checked row: its detail is removed and asked for again. The
  list itself is asked for too; \<open>list_content\<close> is its answer, which draws new rows and, in
  \<open>afterUpdate\<close>, checks the boxes of the ids that are in the checked list.
\<close>

definition refresh_details :: "clist \<Rightarrow> clist" where
  "refresh_details s =
     fold (\<lambda>i s. s\<lparr>details := filter (\<lambda>d. d \<noteq> i) (details s), pending := pending s @ [i]\<rparr>)
       (checked_list s) s"

definition list_content :: "string list \<Rightarrow> clist \<Rightarrow> clist" where
  "list_content ids s = s\<lparr>boxes := map (\<lambda>i. (i, i \<in> set (checked_list s))) ids\<rparr>"

text \<open>The page change of a panel: nothing is checked any more and the details are gone.\<close>

definition change_page :: "clist \<Rightarrow> clist" where
  "change_page s = (clearCheckedList s)\<lparr>details := []\<rparr>"

datatype list_event = Click_box string bool | Response string | Failure string | Refresh | Content "string list" | Change_page

fun list_step :: "list_event \<Rightarrow> clist \<Rightarrow> clist" where
  "list_step (Click_box i b) s = fst (click_box i b s)"
| "list_step (Response i) s = detail_response i s"
| "list_step (Failure i) s = detail_failure i s"
| "list_step Refresh s = refresh_details s"
| "list_step (Content ids) s = list_content ids s"
| "list_step Change_page s = change_page s"

text \<open>
  A click changes the state of a box that is there; a request is answered once; a page change is
  followed by the refresh with new content, so between the two the old boxes are not clicked.
\<close>

fun list_enabled :: "list_event \<Rightarrow> clist \<Rightarrow> bool" where
  "list_enabled (Click_box i b) s = ((i, \<not> b) \<in> set (boxes s))"
| "list_enabled (Response i) s = (i \<in> set (pending s))"
| "list_enabled (Failure i) s = (i \<in> set (pending s))"
| "list_enabled (Content ids) s = distinct ids"
| "list_enabled _ s = True"

definition list_init :: "clist \<Rightarrow> bool" where
  "list_init s = (checked_list s = [] \<and> boxes s = [] \<and> details s = [] \<and> pending s = [])"

definition list_inv :: "clist \<Rightarrow> bool" where
  "list_inv s = (distinct (checked_list s) \<and> set (details s) \<subseteq> set (checked_list s))"

text \<open>Each checked row has its detail, or waits for it, or is one of those whose requests failed.\<close>

definition accounted :: "string set \<Rightarrow> clist \<Rightarrow> bool" where
  "accounted failed s = (\<forall>i\<in>set (checked_list s). i \<in> set (details s) \<or> i \<in> set (pending s) \<or> i \<in> failed)"

lemma refresh_details_eq:
  "refresh_details s = s\<lparr>details := filter (\<lambda>d. d \<notin> set (checked_list s)) (details s),
                        pending := pending s @ checked_list s\<rparr>"
proof -
  have "fold (\<lambda>i s. s\<lparr>details := filter (\<lambda>d. d \<noteq> i) (details s), pending := pending s @ [i]\<rparr>) is t
      = t\<lparr>details := filter (\<lambda>d. d \<notin> set is) (details t), pending := pending t @ is\<rparr>" for "is" t
  proof (induction "is" arbitrary: t)
    case (Cons i js)
    then show ?case by (simp add: conj_commute)
  qed simp
  then show ?thesis by (simp add: refresh_details_def)
qed

lemma list_inv_step: "list_inv s \<Longrightarrow> list_enabled e s \<Longrightarrow> list_inv (list_step e s)"
  by (cases e) (auto simp: list_inv_def detail_response_def detail_failure_def click_box_def set_box_def
      refresh_details_eq list_content_def change_page_def clearCheckedList_def Let_def)

interpretation selection: machine list_init list_enabled list_step list_inv
  by unfold_locales (simp add: list_init_def list_inv_def, rule list_inv_step)

definition failures :: "list_event list \<Rightarrow> string set" where
  "failures es = {i. Failure i \<in> set es}"

lemma accounted_answer:
  "accounted failed s \<Longrightarrow> i \<in> failed' \<or> (i \<in> set (checked_list s) \<longrightarrow> i \<in> set ds) \<Longrightarrow> set (details s) \<subseteq> set ds \<Longrightarrow>
     failed \<subseteq> failed' \<Longrightarrow> accounted failed' (s\<lparr>pending := remove1 i (pending s), details := ds\<rparr>)"
  unfolding accounted_def by (auto simp: in_set_remove1) (metis in_set_remove1 subsetD)+

lemma accounted_step: "accounted failed s \<Longrightarrow> accounted (failed \<union> failures [e]) (list_step e s)"
proof (cases e)
  case (Response i)
  assume "accounted failed s"
  from accounted_answer [OF this, of i "failed \<union> failures [e]" "if i \<in> set (checked_list s) then details s @ [i] else details s"]
  show ?thesis unfolding Response by (auto simp: detail_response_def Let_def subset_insertI)
next
  case (Failure i)
  assume "accounted failed s"
  from accounted_answer [OF this, of i "failed \<union> failures [e]" "details s"]
  show ?thesis unfolding Failure by (auto simp: detail_failure_def failures_def)
next
  case (Click_box i b)
  assume "accounted failed s"
  then show ?thesis unfolding Click_box by (auto simp: accounted_def click_box_def set_box_def Let_def)
qed (auto simp: accounted_def refresh_details_eq list_content_def change_page_def clearCheckedList_def)

lemma accounted_run: "accounted failed s \<Longrightarrow> accounted (failed \<union> failures es) (fold list_step es s)"
proof (induction es arbitrary: failed s)
  case (Cons e es)
  have "failed \<union> failures [e] \<union> failures es = failed \<union> failures (e # es)" by (auto simp: failures_def)
  then show ?case using Cons.IH [OF accounted_step [OF Cons.prems, of e]] by simp
qed (simp add: failures_def)

text \<open>
  C21: in every order of clicks, answers, failed requests, refreshes and page changes, the details on
  the page are those of checked rows only, a late answer for a row that has been unchecked in the
  meantime leaves no trace; and when every request has been answered, a checked row has its detail
  unless one of the requests for it has failed.
\<close>

theorem details_follow_selection:
  assumes "list_init s0" and "all_enabled list_enabled list_step es s0" and "s = fold list_step es s0"
  shows "set (details s) \<subseteq> set (getCheckedInstanceIds s)
     \<and> (pending s = [] \<longrightarrow> set (getCheckedInstanceIds s) \<subseteq> set (details s) \<union> {i. Failure i \<in> set es})"
proof -
  have "accounted {} s0" using assms(1) by (simp add: list_init_def accounted_def)
  from accounted_run [OF this, of es] show ?thesis
    using selection.run_inv [OF assms(1,2)] assms(3)
    by (auto simp: list_inv_def accounted_def failures_def getCheckedInstanceIds_def)
qed

definition list_empty :: clist where
  "list_empty = \<lparr>checked_list = [], boxes = [], details = [], pending = []\<rparr>"

definition demo_run :: "list_event list" where
  "demo_run = [Content [''vol-a'', ''vol-b''], Click_box ''vol-a'' True, Click_box ''vol-b'' True,
     Response ''vol-b'', Click_box ''vol-a'' False, Response ''vol-a'']"

lemma details_follow_selection_witness:
  "set (details (fold list_step demo_run list_empty)) = {''vol-b''}"
proof -
  have "list_init list_empty" by (simp add: list_init_def list_empty_def)
  moreover have "all_enabled list_enabled list_step demo_run list_empty" by code_simp
  moreover have "pending (fold list_step demo_run list_empty) = []" by code_simp
  moreover have "getCheckedInstanceIds (fold list_step demo_run list_empty) = [''vol-b'']" by code_simp
  moreover have "{i. Failure i \<in> set demo_run} = {}" by (simp add: demo_run_def)
  ultimately show ?thesis using details_follow_selection [of list_empty demo_run] by auto
qed

text \<open>A request that fails leaves its row checked without a detail.\<close>

lemma failed_detail_missing:
  "let s = fold list_step [Content [''vol-a''], Click_box ''vol-a'' True, Failure ''vol-a''] list_empty in
     getCheckedInstanceIds s = [''vol-a''] \<and> details s = [] \<and> pending s = []"
  by code_simp

text \<open>
  Nothing tells a second answer for the same row from the first: an earlier request is not
  forgotten when the row is asked for again.
\<close>

lemma responses_append:
  "set is \<subseteq> set (checked_list s) \<Longrightarrow> pending s = is @ ps \<Longrightarrow>
     fold list_step (map Response is) s = s\<lparr>details := details s @ is, pending := ps\<rparr>"
  by (induction "is" arbitrary: s) (simp_all add: detail_response_def Let_def)

text \<open>
  two refreshes before the first is answered show every detail twice: after all answers the
  details are those of the checked rows, in their order, two times over.
\<close>

theorem double_refresh_doubles_details:
  assumes "list_inv s" and "pending s = []"
  shows "details (fold list_step ([Refresh, Refresh] @ map Response (checked_list s @ checked_list s)) s)
           = checked_list s @ checked_list s"
proof -
  let ?t = "refresh_details (refresh_details s)"
  have e: "filter (\<lambda>d. d \<notin> set (checked_list s)) (details s) = []"
    using assms(1) by (auto simp: list_inv_def filter_empty_conv)
  have t: "checked_list ?t = checked_list s" "details ?t = []" "pending ?t = (checked_list s @ checked_list s) @ []"
    using assms(2) e by (simp_all add: refresh_details_eq)
  have "fold list_step (map Response (checked_list s @ checked_list s)) ?t
      = ?t\<lparr>details := details ?t @ (checked_list s @ checked_list s), pending := []\<rparr>"
    using t by (intro responses_append) simp_all
  with t show ?thesis by simp
qed

lemma double_refresh_doubles_details_witness:
  "details (fold list_step ([Refresh, Refresh] @ map Response ([''vol-b''] @ [''vol-b'']))
      (fold list_step demo_run list_empty)) = [''vol-b'', ''vol-b'']"
proof -
  have s: "fold list_step demo_run list_empty
      = \<lparr>checked_list = [''vol-b''], boxes = [(''vol-a'', False), (''vol-b'', True)],
         details = [''vol-b''], pending = []\<rparr>"
    by code_simp
  have "list_inv (fold list_step demo_run list_empty)" "pending (fold list_step demo_run list_empty) = []"
    unfolding s by (simp_all add: list_inv_def)
  from double_refresh_doubles_details [OF this] show ?thesis unfolding s by simp
qed

text \<open>
  The two readings of the selection, \<open>getCheckedInstanceIds\<close> for the dialogs and
  \<open>currentMultiChecked\<close> for the buttons, agree on the rows of the table; a checked row that a
  refresh no longer lists stays in the first.
\<close>

lemma currentMultiChecked_content:
  "currentMultiChecked (list_content ids s) = filter (\<lambda>i. i \<in> set (checked_list s)) ids"
  by (induction ids) (auto simp: currentMultiChecked_def list_content_def)

lemma stale_selection:
  "i \<in> set (checked_list s) \<Longrightarrow> i \<notin> set ids \<Longrightarrow>
     i \<in> set (getCheckedInstanceIds (list_content ids s)) \<and> i \<notin> set (currentMultiChecked (list_content ids s))"
  unfolding currentMultiChecked_content by (simp add: getCheckedInstanceIds_def list_content_def)

section \<open>Radio buttons\<close>

text \<open>
  \<open>singleCheckList\<close>: a click on a radio button asks for one detail, and its answer replaces
  whatever is shown. \<open>currentChecked\<close> reads the button that is on.
\<close>

record rlist =
  radio :: "string option"
  shown_detail :: "string option"
  r_pending :: "string list"

definition currentChecked :: "rlist \<Rightarrow> string option" where
  "currentChecked s = (case radio s of Some i \<Rightarrow> if i \<noteq> '''' then Some i else None | None \<Rightarrow> None)"

definition click_radio :: "string \<Rightarrow> rlist \<Rightarrow> rlist \<times> string" where
  "click_radio i s = (s\<lparr>radio := Some i, r_pending := r_pending s @ [i]\<rparr>, ''checked_radio'')"

definition radio_response :: "string \<Rightarrow> rlist \<Rightarrow> rlist" where
  "radio_response i s = s\<lparr>shown_detail := Some i, r_pending := remove1 i (r_pending s)\<rparr>"

lemma radio_last_answer_wins:
  "shown_detail (fold radio_response is s) = (if is = [] then shown_detail s else Some (last is))"
  by (induction "is" arbitrary: s) (auto simp: radio_response_def)

text \<open>
  with answers in the order of the clicks, the detail shown is that of the button that is
  on; with the last two answers exchanged, it is that of the button clicked before, and stays so.
\<close>

theorem radio_detail_is_last_answer:
  "let s1 = fst (click_radio j (fst (click_radio i s))) in
      radio (fold radio_response [i, j] s1) = Some j \<and> shown_detail (fold radio_response [i, j] s1) = Some j
      \<and> radio (fold radio_response [j, i] s1) = Some j \<and> shown_detail (fold radio_response [j, i] s1) = Some i"
  by (simp add: click_radio_def radio_response_def Let_def)

section \<open>The rows of the table\<close>

text \<open>\<open>setData\<close>: the given rows or the panel's empty ones, filled up to the row count (10 by default).\<close>

definition setData :: "('a \<Rightarrow> bool) \<Rightarrow> 'a list \<Rightarrow> int \<Rightarrow> 'a list option \<Rightarrow> 'a filled list" where
  "setData has_keys emptyData maxrow json =
     (let rows = (case json of None \<Rightarrow> emptyData | Some js \<Rightarrow> js);
          n = (if maxrow \<noteq> 0 then maxrow else 10)
      in setfillData has_keys n rows)"

lemma setData_rows: "filled_rows (setData hk e n (Some js)) = js"
  by (simp add: setData_def setfillData_rows Let_def)

end
