(* ===== verification/Core_Form.thy ===== *)
theory Core_Form
  imports Js_Prelude
begin

text \<open>
  The input checking of the dialogs: \<open>Util.checkTextField\<close> and \<open>Util.availableTextField\<close> of
  \<open>core.js\<close>, bound to the text fields of a dialog, and the gate that a dialog builds from them:
  its submit button is enabled when the required fields have text.
\<close>

section \<open>Fields, flags and timers\<close>

datatype input_kind = Keyup | Paste_input | Cut_input | Change_input

text \<open>
  A handler is bound with its data: the flag that \<open>checkTextField\<close> keeps, or none for
  \<open>availableTextField\<close>, which drives the button itself. A timer remembers its field.
\<close>

datatype handler = CheckText string | AvailText

type_synonym bindings = "(string \<times> input_kind \<times> handler) list"

record form =
  vals :: "string \<Rightarrow> string"
  is_ready :: "string \<Rightarrow> bool"
  submit_disabled :: bool
  timers :: "(string \<times> handler) list"

type_synonym ready = "form \<Rightarrow> form"

definition disable_submit :: "bool \<Rightarrow> form \<Rightarrow> form" where
  "disable_submit b f = f\<lparr>submit_disabled := b\<rparr>"

definition set_ready :: "string \<Rightarrow> bool \<Rightarrow> form \<Rightarrow> form" where
  "set_ready name b f = f\<lparr>is_ready := (is_ready f)(name := b)\<rparr>"

text \<open>The part of the two functions that reads the text, at once or when the timer fires.\<close>

fun read_field_text :: "ready \<Rightarrow> string \<Rightarrow> handler \<Rightarrow> form \<Rightarrow> form" where
  "read_field_text ready sel (CheckText name) f =
     (let text = vals f sel in
      if text \<noteq> '''' then ready (set_ready name True f) else ready (set_ready name False f))"
| "read_field_text ready sel AvailText f =
     (let text = vals f sel in
      if text \<noteq> '''' then disable_submit False f else disable_submit True f)"

definition checkTextField :: "ready \<Rightarrow> string \<Rightarrow> string \<Rightarrow> input_kind \<Rightarrow> form \<Rightarrow> form" where
  "checkTextField ready sel name ty f =
     (if ty \<in> {Paste_input, Cut_input} then f\<lparr>timers := timers f @ [(sel, CheckText name)]\<rparr>
      else read_field_text ready sel (CheckText name) f)"

definition availableTextField :: "ready \<Rightarrow> string \<Rightarrow> input_kind \<Rightarrow> form \<Rightarrow> form" where
  "availableTextField ready sel ty f =
     (if ty \<in> {Paste_input, Cut_input} then f\<lparr>timers := timers f @ [(sel, AvailText)]\<rparr>
      else read_field_text ready sel AvailText f)"

fun handle :: "ready \<Rightarrow> string \<Rightarrow> input_kind \<Rightarrow> handler \<Rightarrow> form \<Rightarrow> form" where
  "handle ready sel ty (CheckText name) f = checkTextField ready sel name ty f"
| "handle ready sel ty AvailText f = availableTextField ready sel ty f"

text \<open>An event on a field runs the handlers bound to it, in the order they were bound.\<close>

definition fire :: "bindings \<Rightarrow> ready \<Rightarrow> string \<Rightarrow> input_kind \<Rightarrow> form \<Rightarrow> form" where
  "fire binds ready sel ty f =
     fold (\<lambda>(s, k, h). if s = sel \<and> k = ty then handle ready sel ty h else id) binds f"

text \<open>
  What the user does. Typing changes the text before the \<open>keyup\<close>; a paste or a cut with the
  mouse raises its event before the text changes. All delays are equal, so the timers fire in
  the order they were set.
\<close>

datatype form_event = Type string string | Paste string string | Cut string string | Timer

fun form_step :: "bindings \<Rightarrow> ready \<Rightarrow> form_event \<Rightarrow> form \<Rightarrow> form" where
  "form_step binds ready (Type sel text) f =
     fire binds ready sel Keyup (f\<lparr>vals := (vals f)(sel := text)\<rparr>)"
| "form_step binds ready (Paste sel text) f =
     (let f' = fire binds ready sel Paste_input f in f'\<lparr>vals := (vals f')(sel := text)\<rparr>)"
| "form_step binds ready (Cut sel text) f =
     (let f' = fire binds ready sel Cut_input f in f'\<lparr>vals := (vals f')(sel := text)\<rparr>)"
| "form_step binds ready Timer f =
     (case timers f of [] \<Rightarrow> f | (sel, h) # ts \<Rightarrow> read_field_text ready sel h (f\<lparr>timers := ts\<rparr>))"

section \<open>The gate of a dialog\<close>

text \<open>
  The interface of a dialog with required fields: \<open>required\<close> pairs each required flag with its
  field, all three kinds of input are bound to \<open>checkTextField\<close>, and \<open>ready\<close> enables the
  submit button exactly when all flags are set.
\<close>

definition text_binds :: "(string \<times> string) list \<Rightarrow> bindings" where
  "text_binds required = concat (map (\<lambda>(name, sel).
     [(sel, Keyup, CheckText name), (sel, Paste_input, CheckText name), (sel, Cut_input, CheckText name)]) required)"

definition all_filled :: "(string \<times> string) list \<Rightarrow> form \<Rightarrow> bool" where
  "all_filled required f = (\<forall>p\<in>set required. vals f (snd p) \<noteq> '''')"

text \<open>An event on a watched field runs its \<open>checkTextField\<close>; on any other element nothing.\<close>

lemma fire_other:
  "sel \<notin> snd ` set fs \<Longrightarrow> fire (text_binds fs) ready sel ty f = f"
  by (induction fs arbitrary: f) (auto simp: fire_def text_binds_def)

lemma fire_field:
  assumes "p \<in> set fs" "distinct (map snd fs)" "ty \<noteq> Change_input"
  shows "fire (text_binds fs) ready (snd p) ty f = checkTextField ready (snd p) (fst p) ty f"
  using assms(1,2)
proof (induction fs arbitrary: f)
  case (Cons q fs)
  have e: "fire (text_binds (q # fs)) ready s ty f = fire (text_binds fs) ready s ty
      (if s = snd q then checkTextField ready s (fst q) ty f else f)" for s
    using assms(3) by (cases q; cases ty) (auto simp: fire_def text_binds_def)
  show ?case
  proof (cases "q = p")
    case True
    with Cons.prems have "snd p \<notin> snd ` set fs" by auto
    with True e [of "snd p"] show ?thesis by (simp add: fire_other)
  next
    case False
    with Cons.prems have "p \<in> set fs" "snd p \<noteq> snd q" "distinct (map snd fs)" by (auto intro: rev_image_eqI)
    with Cons.IH show ?thesis by (simp add: e)
  qed
qed simp

locale form_gate =
  fixes required :: "(string \<times> string) list"
    and ready :: ready
  assumes ready_button: "ready f = f\<lparr>submit_disabled := \<not> (\<forall>p\<in>set required. is_ready f (fst p))\<rparr>"
    and required_sel: "distinct (map snd required)"
    and required_name: "distinct (map fst required)"
begin

text \<open>A flag is right unless a timer is pending for it; the button is right about the flags.\<close>

definition gate_inv :: "form \<Rightarrow> bool" where
  "gate_inv f =
     ((\<forall>p\<in>set required. (snd p, CheckText (fst p)) \<in> set (timers f)
          \<or> (is_ready f (fst p) \<longleftrightarrow> vals f (snd p) \<noteq> ''''))
      \<and> (submit_disabled f \<longleftrightarrow> \<not> (\<forall>p\<in>set required. is_ready f (fst p)))
      \<and> (\<forall>t\<in>set (timers f). \<exists>p\<in>set required. t = (snd p, CheckText (fst p))))"

lemma name_unique: "p \<in> set required \<Longrightarrow> q \<in> set required \<Longrightarrow> fst p = fst q \<longleftrightarrow> p = q"
  using required_name by (auto simp: distinct_map inj_on_def)

lemma sel_unique: "p \<in> set required \<Longrightarrow> q \<in> set required \<Longrightarrow> snd p = snd q \<longleftrightarrow> p = q"
  using required_sel by (auto simp: distinct_map inj_on_def)

lemma read_check:
  "read_field_text ready sel (CheckText n) f
     = f\<lparr>is_ready := (is_ready f)(n := vals f sel \<noteq> ''''),
         submit_disabled := \<not> (\<forall>p\<in>set required. ((is_ready f)(n := vals f sel \<noteq> '''')) (fst p))\<rparr>"
  by (simp add: set_ready_def ready_button)

lemma gate_inv_read:
  assumes p: "p \<in> set required"
    and others: "\<forall>q\<in>set required. q \<noteq> p \<longrightarrow> (snd q, CheckText (fst q)) \<in> set (timers f)
          \<or> (is_ready f (fst q) \<longleftrightarrow> vals f (snd q) \<noteq> '''')"
    and ts: "\<forall>t\<in>set (timers f). \<exists>p\<in>set required. t = (snd p, CheckText (fst p))"
  shows "gate_inv (read_field_text ready (snd p) (CheckText (fst p)) f)"
  unfolding read_check gate_inv_def using others ts name_unique [OF _ p] by auto

lemma gate_step:
  assumes "gate_inv f"
  shows "gate_inv (form_step (text_binds required) ready e f)"
proof (cases e)
  case (Type sel new)
  let ?f = "f\<lparr>vals := (vals f)(sel := new)\<rparr>"
  show ?thesis
  proof (cases "sel \<in> snd ` set required")
    case True
    then obtain p where p: "p \<in> set required" "sel = snd p" by auto
    have "gate_inv (read_field_text ready (snd p) (CheckText (fst p)) ?f)"
      using assms p sel_unique [OF _ p(1)] by (intro gate_inv_read) (auto simp: gate_inv_def)
    with Type p show ?thesis by (simp add: fire_field required_sel checkTextField_def)
  next
    case False
    with Type assms show ?thesis by (auto simp: fire_other gate_inv_def)
  qed
next
  case (Paste sel new)
  show ?thesis
  proof (cases "sel \<in> snd ` set required")
    case True
    then obtain p where p: "p \<in> set required" "sel = snd p" by auto
    with Paste assms sel_unique [OF _ p(1)] show ?thesis
      by (auto simp: fire_field required_sel checkTextField_def gate_inv_def)
  next
    case False
    with Paste assms show ?thesis by (auto simp: fire_other gate_inv_def)
  qed
next
  case (Cut sel new)
  show ?thesis
  proof (cases "sel \<in> snd ` set required")
    case True
    then obtain p where p: "p \<in> set required" "sel = snd p" by auto
    with Cut assms sel_unique [OF _ p(1)] show ?thesis
      by (auto simp: fire_field required_sel checkTextField_def gate_inv_def)
  next
    case False
    with Cut assms show ?thesis by (auto simp: fire_other gate_inv_def)
  qed
next
  case Timer
  show ?thesis
  proof (cases "timers f")
    case Nil
    with Timer assms show ?thesis by simp
  next
    case (Cons t ts)
    with assms obtain p where p: "p \<in> set required" "t = (snd p, CheckText (fst p))"
      by (auto simp: gate_inv_def)
    have "gate_inv (read_field_text ready (snd p) (CheckText (fst p)) (f\<lparr>timers := ts\<rparr>))"
      using assms p Cons name_unique [OF _ p(1)] by (intro gate_inv_read) (auto simp: gate_inv_def)
    with Timer Cons p show ?thesis by simp
  qed
qed

lemma gate_run: "gate_inv f \<Longrightarrow> gate_inv (fold (form_step (text_binds required) ready) es f)"
  by (induction es arbitrary: f) (auto intro: gate_step)

text \<open>When the timers have fired, the button is enabled exactly when every required field has text.\<close>

lemma gate_exact: "gate_inv f \<Longrightarrow> timers f = [] \<Longrightarrow> submit_disabled f \<longleftrightarrow> \<not> all_filled required f"
  by (auto simp: gate_inv_def all_filled_def)

lemma gate_open:
  assumes "required \<noteq> []"
  shows "gate_inv \<lparr>vals = \<lambda>_. '''', is_ready = \<lambda>_. False, submit_disabled = True, timers = []\<rparr>"
proof -
  obtain a b where "(a, b) \<in> set required" using assms by (cases required) auto
  then show ?thesis by (auto simp: gate_inv_def)
qed

end

text \<open>A dialog as it opens: its fields empty, its flags unset, its button disabled.\<close>

definition form_empty :: form where
  "form_empty = \<lparr>vals = \<lambda>_. '''', is_ready = \<lambda>_. False, submit_disabled = True, timers = []\<rparr>"

section \<open>A field with a single handler\<close>

text \<open>A dialog with one field, watched by \<open>availableTextField\<close> for the given kinds of input.\<close>

definition avail_binds :: "string \<Rightarrow> input_kind list \<Rightarrow> bindings" where
  "avail_binds sel kinds = map (\<lambda>k. (sel, k, AvailText)) kinds"

lemma fire_avail:
  "distinct kinds \<Longrightarrow> fire (avail_binds sel kinds) ready s ty f
     = (if s = sel \<and> ty \<in> set kinds then availableTextField ready sel ty f else f)"
proof (induction kinds arbitrary: f)
  case Nil
  then show ?case by (simp add: fire_def avail_binds_def)
next
  case (Cons k ks)
  have "fire (avail_binds sel (k # ks)) ready s ty f
      = fire (avail_binds sel ks) ready s ty (if sel = s \<and> k = ty then availableTextField ready s ty f else f)"
    by (simp add: fire_def avail_binds_def)
  with Cons show ?case by auto
qed

definition avail_inv :: "string \<Rightarrow> form \<Rightarrow> bool" where
  "avail_inv sel f = ((timers f = [] \<longrightarrow> (submit_disabled f \<longleftrightarrow> vals f sel = ''''))
     \<and> (\<forall>t\<in>set (timers f). t = (sel, AvailText)))"

text \<open>With all three kinds watched the button follows the text, once the timers have fired.\<close>

lemma avail_inv_step:
  assumes "avail_inv sel f"
  shows "avail_inv sel (form_step (avail_binds sel [Paste_input, Cut_input, Keyup]) ready e f)"
proof (cases e)
  case (Type s new)
  with assms show ?thesis
    by (auto simp: avail_inv_def fire_avail availableTextField_def disable_submit_def Let_def)
next
  case (Paste s new)
  with assms show ?thesis
    by (auto simp: avail_inv_def fire_avail availableTextField_def disable_submit_def Let_def)
next
  case (Cut s new)
  with assms show ?thesis
    by (auto simp: avail_inv_def fire_avail availableTextField_def disable_submit_def Let_def)
next
  case Timer
  with assms show ?thesis
    by (cases "timers f") (auto simp: avail_inv_def disable_submit_def Let_def)
qed

interpretation avail_machine:
  machine "avail_inv sel" "\<lambda>_ _. True" "form_step (avail_binds sel [Paste_input, Cut_input, Keyup]) ready"
    "avail_inv sel" for sel ready
  by unfold_locales (auto intro: avail_inv_step)

end
