(* ===== verification/Core_Vif.thy ===== *)
theory Core_Vif
  imports Js_Prelude
begin

text \<open>
  The network monitor editor \<open>DcmgrGUI.VifMonitorSelector\<close> of \<open>core.js\<close>: a table of monitors,
  each of one protocol, with a plus button, a delete button per row and a protocol select per
  row; the query it sends and its validation.
\<close>

section \<open>Protocols\<close>

datatype monitor_form = No_Form | Http_Form int | Port_Form int | Ssh_Form int | Dns_Form int

text \<open>The object \<open>MONITOR_ITEMS\<close>, in key order: title and the form with its default port.\<close>

definition MONITOR_ITEMS :: "(string \<times> string \<times> monitor_form) list" where
  "MONITOR_ITEMS =
     [(''PING'', ''Ping'', No_Form), (''HTTP1'', ''HTTP'', Http_Form 80), (''HTTPS1'', ''HTTPS'', Http_Form 443),
      (''FTP'', ''FTP'', Port_Form 21), (''SSH'', ''SSH'', Ssh_Form 22), (''SMTP'', ''SMTP'', Port_Form 25),
      (''POP3'', ''POP3'', Port_Form 110), (''IMAP'', ''IMAP'', Port_Form 143),
      (''SUBMISSION'', ''Submission'', Port_Form 587), (''DNS'', ''DNS'', Dns_Form 53),
      (''MYSQL'', ''MySQL'', Port_Form 3306), (''POSTGRESQL'', ''PostgreSQL'', Port_Form 5432)]"

definition MONITOR_ITEMS_NUM :: nat where
  "MONITOR_ITEMS_NUM = length MONITOR_ITEMS"

definition item_keys :: "string list" where
  "item_keys = map fst MONITOR_ITEMS"

definition lookup_item :: "string \<Rightarrow> (string \<times> monitor_form) option" where
  "lookup_item k = map_of MONITOR_ITEMS k"

lemma MONITOR_ITEMS_NUM_eq: "MONITOR_ITEMS_NUM = 12"
  by (simp add: MONITOR_ITEMS_NUM_def MONITOR_ITEMS_def)

lemma distinct_item_keys: "distinct item_keys"
  by (simp add: item_keys_def MONITOR_ITEMS_def)

lemma length_item_keys: "length item_keys = MONITOR_ITEMS_NUM"
  by (simp add: item_keys_def MONITOR_ITEMS_NUM_def)

lemma lookup_item_iff: "lookup_item k \<noteq> None \<longleftrightarrow> k \<in> set item_keys"
  by (simp add: lookup_item_def item_keys_def map_of_eq_None_iff)

section \<open>Rows\<close>

text \<open>The parameters of a monitor that the server knows; a missing one is \<open>JUndef\<close>.\<close>

record monitor_params =
  par_port :: jsval
  par_check_path :: jsval
  par_query_record :: jsval

record monitor_json =
  js_enabled :: bool
  js_uuid :: string
  js_params :: "monitor_params option"

text \<open>
  A row: the properties kept for it (\<open>idx\<close>, title, key, json) and its elements: the check box,
  the select with its options, and the inputs of the protocol, \<open>None\<close> when it has none.
\<close>

record mrow =
  idx :: nat
  title :: string
  item_key :: string
  json :: "monitor_json option"
  enabled_box :: bool
  sel_options :: "string list"
  sel_value :: string
  port_input :: "string option"
  path_input :: "string option"
  record_input :: "string option"

definition default_params :: "monitor_form \<Rightarrow> monitor_params" where
  "default_params f =
     (case f of
        No_Form \<Rightarrow> \<lparr>par_port = JUndef, par_check_path = JUndef, par_query_record = JUndef\<rparr>
      | Http_Form n \<Rightarrow> \<lparr>par_port = JNum n, par_check_path = JStr ''/'', par_query_record = JUndef\<rparr>
      | Port_Form n \<Rightarrow> \<lparr>par_port = JNum n, par_check_path = JUndef, par_query_record = JUndef\<rparr>
      | Ssh_Form n \<Rightarrow> \<lparr>par_port = JNum n, par_check_path = JUndef, par_query_record = JUndef\<rparr>
      | Dns_Form n \<Rightarrow> \<lparr>par_port = JNum n, par_check_path = JUndef, par_query_record = JStr ''localhost''\<rparr>)"

text \<open>
  The \<open>ui\<close> function of a protocol fills the emptied cell with its inputs. A value written into
  the HTML comes back as it is: it has no quote in it.
\<close>

definition ui :: "monitor_form \<Rightarrow> monitor_params option \<Rightarrow> mrow \<Rightarrow> mrow" where
  "ui f params r =
     (let p = (case params of None \<Rightarrow> default_params f | Some q \<Rightarrow> q);
          r0 = r\<lparr>port_input := None, path_input := None, record_input := None\<rparr>
      in case f of
           No_Form \<Rightarrow> r0
         | Http_Form _ \<Rightarrow> r0\<lparr>port_input := Some (to_str (par_port p)), path_input := Some (to_str (par_check_path p))\<rparr>
         | Port_Form _ \<Rightarrow> r0\<lparr>port_input := Some (to_str (par_port p))\<rparr>
         | Ssh_Form _ \<Rightarrow> r0\<lparr>port_input := Some (to_str (par_port p))\<rparr>
         | Dns_Form _ \<Rightarrow> r0\<lparr>port_input := Some (to_str (par_port p)), record_input := Some (to_str (par_query_record p))\<rparr>)"

section \<open>The editor\<close>

record vif =
  index_counter :: nat
  item_list :: "mrow list"
  plus_disabled :: bool

definition vif_initialize :: vif where
  "vif_initialize = \<lparr>index_counter = 0, item_list = [], plus_disabled = False\<rparr>"

text \<open>Every select offers the keys that no other row has.\<close>

definition refresh_row :: "mrow list \<Rightarrow> mrow \<Rightarrow> mrow" where
  "refresh_row items i =
     i\<lparr>sel_options := filter (\<lambda>k. \<not> (k \<noteq> item_key i \<and> (\<exists>j\<in>set items. k = item_key j))) item_keys,
       sel_value := item_key i\<rparr>"

definition refreshSelectItem :: "vif \<Rightarrow> vif" where
  "refreshSelectItem s = s\<lparr>item_list := map (refresh_row (item_list s)) (item_list s)\<rparr>"

text \<open>
  The \<open>change\<close> handler of the row \<open>i\<close>, whose select has the value \<open>key\<close>. \<open>None\<close> is the
  exception for an unknown key.
\<close>

definition select_change :: "nat \<Rightarrow> string \<Rightarrow> monitor_json option \<Rightarrow> vif \<Rightarrow> vif option" where
  "select_change i key js s =
     (case lookup_item key of
        None \<Rightarrow> None
      | Some (tit, form) \<Rightarrow>
          let fill = (\<lambda>r. if idx r \<noteq> i then r else
                let r1 = r\<lparr>title := tit, item_key := key, sel_value := key\<rparr> in
                case js of
                  None \<Rightarrow> ui form None r1
                | Some j \<Rightarrow> ui form (js_params j) (r1\<lparr>enabled_box := js_enabled j\<rparr>));
              s1 = s\<lparr>plus_disabled := (if MONITOR_ITEMS_NUM \<le> length (item_list s) then True else plus_disabled s)\<rparr>;
              s2 = s1\<lparr>item_list := map fill (item_list s1)\<rparr>
          in Some (refreshSelectItem s2))"

definition find_unselected_item_key :: "vif \<Rightarrow> string option" where
  "find_unselected_item_key s = List.find (\<lambda>t. \<not> (\<exists>j\<in>set (item_list s). item_key j = t)) item_keys"

text \<open>
  \<open>addItem\<close> takes an index first; the flag is whether the function returned rather than threw.
  The template gives a new row a checked box and all the options.
\<close>

definition addItem :: "string option \<Rightarrow> monitor_json option \<Rightarrow> vif \<Rightarrow> vif \<times> bool" where
  "addItem key js s =
     (let i = index_counter s;
          s1 = s\<lparr>index_counter := index_counter s + 1\<rparr>;
          chosen = (case key of Some k \<Rightarrow> Some k | None \<Rightarrow> find_unselected_item_key s1)
      in case Option.bind chosen (\<lambda>k. map_option (Pair k) (lookup_item k)) of
           None \<Rightarrow> (s1, False)
         | Some (k, (tit, form)) \<Rightarrow>
             let r = \<lparr>idx = i, title = tit, item_key = k, json = js, enabled_box = True,
                      sel_options = item_keys, sel_value = k, port_input = None, path_input = None,
                      record_input = None\<rparr>;
                 s2 = s1\<lparr>item_list := item_list s1 @ [r]\<rparr>
             in (case select_change i k js s2 of Some s3 \<Rightarrow> (s3, True) | None \<Rightarrow> (s2, False)))"

text \<open>
  The loop of the delete button removes while it iterates: after a removal the next entry has the
  index just visited and is passed over.
\<close>

function delete_loop :: "nat \<Rightarrow> nat \<Rightarrow> mrow list \<Rightarrow> mrow list" where
  "delete_loop i n xs =
     (if n < length xs then
        (if idx (xs ! n) = i then delete_loop i (Suc n) (take n xs @ drop (Suc n) xs)
         else delete_loop i (Suc n) xs)
      else xs)"
  by pat_completeness auto
termination by (relation "measure (\<lambda>(i, n, xs). length xs - n)") auto

declare delete_loop.simps [simp del]

definition delete_item :: "nat \<Rightarrow> vif \<Rightarrow> vif" where
  "delete_item i s =
     (let s1 = refreshSelectItem (s\<lparr>item_list := delete_loop i 0 (item_list s)\<rparr>) in
      if MONITOR_ITEMS_NUM > length (item_list s1) then s1\<lparr>plus_disabled := False\<rparr> else s1)"

lemma delete_loop_absent: "\<forall>r\<in>set (drop n xs). idx r \<noteq> i \<Longrightarrow> delete_loop i n xs = xs"
proof (induction i n xs rule: delete_loop.induct)
  case (1 i n xs)
  show ?case
  proof (cases "n < length xs")
    case True
    then have d: "drop n xs = xs ! n # drop (Suc n) xs" by (simp add: Cons_nth_drop_Suc)
    with 1 True show ?thesis by (simp add: delete_loop.simps [of i n])
  qed (simp add: delete_loop.simps)
qed

text \<open>The indices being distinct, the loop removes the one row.\<close>

lemma delete_loop_filter:
  "distinct (map idx xs) \<Longrightarrow> delete_loop i 0 xs = filter (\<lambda>r. idx r \<noteq> i) xs"
proof -
  assume dist: "distinct (map idx xs)"
  have "distinct (map idx xs) \<Longrightarrow> n \<le> length xs \<Longrightarrow> \<forall>r\<in>set (take n xs). idx r \<noteq> i \<Longrightarrow>
      delete_loop i n xs = filter (\<lambda>r. idx r \<noteq> i) xs" for n
  proof (induction i n xs rule: delete_loop.induct)
    case (1 i n xs)
    show ?case
    proof (cases "n < length xs")
      case True
      then have xs: "xs = take n xs @ xs ! n # drop (Suc n) xs" by (simp add: id_take_nth_drop)
      have d: "distinct (map idx (take n xs @ xs ! n # drop (Suc n) xs))" using "1.prems"(1) xs by simp
      show ?thesis
      proof (cases "idx (xs ! n) = i")
        case i: True
        have no: "\<forall>r\<in>set (take n xs @ drop (Suc n) xs). idx r \<noteq> i" using d i by (auto simp: image_iff)
        then have "delete_loop i (Suc n) (take n xs @ drop (Suc n) xs) = take n xs @ drop (Suc n) xs"
          by (intro delete_loop_absent) (meson in_set_dropD)
        moreover have "filter (\<lambda>r. idx r \<noteq> i) xs = take n xs @ drop (Suc n) xs"
          by (subst xs) (use no i in \<open>simp add: filter_id_conv\<close>)
        ultimately show ?thesis using True i by (simp add: delete_loop.simps [of i n])
      next
        case False
        then show ?thesis using 1 True by (simp add: delete_loop.simps [of i n] take_Suc_conv_app_nth)
      qed
    qed (use 1 in \<open>simp add: delete_loop.simps filter_id_conv\<close>)
  qed
  from this [OF dist, of 0] show "delete_loop i 0 xs = filter (\<lambda>r. idx r \<noteq> i) xs" by simp
qed

section \<open>The editor as a machine\<close>

datatype vif_event = Plus | Change nat string | Delete nat

fun vif_step :: "vif_event \<Rightarrow> vif \<Rightarrow> vif" where
  "vif_step Plus s = fst (addItem None None s)"
| "vif_step (Change i key) s = (case select_change i key None s of Some s' \<Rightarrow> s' | None \<Rightarrow> s)"
| "vif_step (Delete i) s = delete_item i s"

text \<open>A disabled button is not clicked; a select gives one of its options.\<close>

fun vif_enabled :: "vif_event \<Rightarrow> vif \<Rightarrow> bool" where
  "vif_enabled Plus s = (\<not> plus_disabled s)"
| "vif_enabled (Change i key) s = (\<exists>r\<in>set (item_list s). idx r = i \<and> key \<in> set (sel_options r))"
| "vif_enabled (Delete i) s = (\<exists>r\<in>set (item_list s). idx r = i)"

text \<open>The editor starts with the monitors the instance has, one per protocol.\<close>

definition vif_load :: "(string \<times> monitor_json) list \<Rightarrow> vif" where
  "vif_load ms = fold (\<lambda>(k, j) s. fst (addItem (Some k) (Some j) s)) ms vif_initialize"

definition vif_init :: "vif \<Rightarrow> bool" where
  "vif_init s = (\<exists>ms. distinct (map fst ms) \<and> fst ` set ms \<subseteq> set item_keys \<and> s = vif_load ms)"

definition vif_inv :: "vif \<Rightarrow> bool" where
  "vif_inv s =
     (distinct (map idx (item_list s)) \<and> (\<forall>r\<in>set (item_list s). idx r < index_counter s)
      \<and> distinct (map item_key (item_list s)) \<and> item_key ` set (item_list s) \<subseteq> set item_keys
      \<and> (\<forall>r\<in>set (item_list s). refresh_row (item_list s) r = r)
      \<and> (plus_disabled s \<longleftrightarrow> MONITOR_ITEMS_NUM \<le> length (item_list s)))"

lemma ui_frame [simp]: "idx (ui f p r) = idx r" "item_key (ui f p r) = item_key r"
  by (auto simp: ui_def Let_def split: monitor_form.splits)

lemma refresh_row_frame [simp]:
  "idx (refresh_row xs r) = idx r" "item_key (refresh_row xs r) = item_key r"
  by (simp_all add: refresh_row_def)

lemma refresh_row_keys:
  "map item_key xs = map item_key ys \<Longrightarrow> refresh_row xs r = refresh_row ys r"
proof -
  assume "map item_key xs = map item_key ys"
  then have "item_key ` set xs = item_key ` set ys" by (metis list.set_map)
  then have "(\<exists>j\<in>set xs. k = item_key j) \<longleftrightarrow> (\<exists>j\<in>set ys. k = item_key j)" for k by blast
  then show ?thesis by (simp add: refresh_row_def)
qed

lemma refresh_twice:
  "refresh_row (map (refresh_row xs) xs) (refresh_row xs r) = refresh_row xs r"
proof -
  have "map item_key (map (refresh_row xs) xs) = map item_key xs" by (simp add: comp_def)
  then have "refresh_row (map (refresh_row xs) xs) (refresh_row xs r) = refresh_row xs (refresh_row xs r)"
    by (rule refresh_row_keys)
  then show ?thesis by (simp add: refresh_row_def)
qed

text \<open>Redrawing the options establishes the part of the invariant that is about them.\<close>

lemma vif_inv_refresh:
  assumes "distinct (map idx (item_list s))" "\<forall>r\<in>set (item_list s). idx r < index_counter s"
    and "distinct (map item_key (item_list s))" "item_key ` set (item_list s) \<subseteq> set item_keys"
    and "plus_disabled s \<longleftrightarrow> MONITOR_ITEMS_NUM \<le> length (item_list s)"
  shows "vif_inv (refreshSelectItem s)"
  using assms by (simp add: vif_inv_def refreshSelectItem_def refresh_twice comp_def image_image)

lemma distinct_rekey:
  "distinct (map idx xs) \<Longrightarrow> \<forall>r\<in>set xs. idx r \<noteq> i \<longrightarrow> item_key r \<noteq> key \<Longrightarrow>
   distinct (map item_key (filter (\<lambda>r. idx r \<noteq> i) xs)) \<Longrightarrow>
     distinct (map (\<lambda>r. if idx r = i then key else item_key r) xs)"
proof (induction xs)
  case (Cons x xs)
  then have IH: "distinct (map (\<lambda>r. if idx r = i then key else item_key r) xs)"
    by (auto split: if_splits)
  show ?case
  proof (cases "idx x = i")
    case True
    with Cons.prems(1) have "\<forall>r\<in>set xs. idx r \<noteq> i" by (auto simp: image_iff)
    with True IH Cons.prems(2) show ?thesis by auto
  next
    case False
    with IH Cons.prems show ?thesis by auto
  qed
qed simp

text \<open>Changing a row to a key that no other row has.\<close>

lemma vif_inv_select_change:
  assumes s: "distinct (map idx (item_list s))" "\<forall>r\<in>set (item_list s). idx r < index_counter s"
    and others: "distinct (map item_key (filter (\<lambda>r. idx r \<noteq> i) (item_list s)))"
      "\<forall>r\<in>set (item_list s). idx r \<noteq> i \<longrightarrow> item_key r \<in> set item_keys \<and> item_key r \<noteq> key"
    and key: "key \<in> set item_keys"
    and plus: "plus_disabled s \<longrightarrow> MONITOR_ITEMS_NUM \<le> length (item_list s)"
  shows "\<exists>s'. select_change i key js s = Some s' \<and> vif_inv s'
     \<and> map item_key (item_list s') = map (\<lambda>r. if idx r = i then key else item_key r) (item_list s)
     \<and> index_counter s' = index_counter s"
proof -
  obtain tit f where l: "lookup_item key = Some (tit, f)"
    using key lookup_item_iff [of key] by (cases "lookup_item key") auto
  define fill where "fill = (\<lambda>r. if idx r \<noteq> i then r else
      let r1 = r\<lparr>title := tit, item_key := key, sel_value := key\<rparr> in
      case js of None \<Rightarrow> ui f None r1 | Some j \<Rightarrow> ui f (js_params j) (r1\<lparr>enabled_box := js_enabled j\<rparr>))"
  have fi: "idx (fill r) = idx r" for r by (auto simp: fill_def Let_def split: option.splits)
  have fk: "item_key (fill r) = (if idx r = i then key else item_key r)" for r
    by (auto simp: fill_def Let_def split: option.splits)
  define t where "t = s\<lparr>plus_disabled := (if MONITOR_ITEMS_NUM \<le> length (item_list s) then True else plus_disabled s),
      item_list := map fill (item_list s)\<rparr>"
  have sc: "select_change i key js s = Some (refreshSelectItem t)"
    by (simp add: select_change_def l t_def fill_def Let_def)
  have keys: "map item_key (item_list t) = map (\<lambda>r. if idx r = i then key else item_key r) (item_list s)"
    by (simp add: t_def fk comp_def)
  have "vif_inv (refreshSelectItem t)"
  proof (rule vif_inv_refresh)
    show "distinct (map idx (item_list t))" using s(1) by (simp add: t_def fi comp_def)
    show "\<forall>r\<in>set (item_list t). idx r < index_counter t" using s(2) by (auto simp: t_def fi)
    show "distinct (map item_key (item_list t))" unfolding keys
      using s(1) others by (intro distinct_rekey) auto
    show "item_key ` set (item_list t) \<subseteq> set item_keys"
      using others(2) key by (auto simp: t_def fk)
    show "plus_disabled t \<longleftrightarrow> MONITOR_ITEMS_NUM \<le> length (item_list t)" using plus by (auto simp: t_def)
  qed
  moreover have "map item_key (item_list (refreshSelectItem t)) = map item_key (item_list t)"
    by (simp add: refreshSelectItem_def comp_def)
  moreover have "index_counter (refreshSelectItem t) = index_counter s"
    by (simp add: refreshSelectItem_def t_def)
  ultimately show ?thesis using sc keys by simp
qed

text \<open>Adding a row with a key that no row has: it does not throw.\<close>

lemma vif_inv_add:
  assumes inv: "vif_inv s" and k: "k \<in> set item_keys" "k \<notin> item_key ` set (item_list s)"
    and choice: "key = Some k \<or> (key = None \<and> find_unselected_item_key s = Some k)"
  shows "\<exists>s'. addItem key js s = (s', True) \<and> vif_inv s'
    \<and> map item_key (item_list s') = map item_key (item_list s) @ [k]"
proof -
  obtain tit f where l: "lookup_item k = Some (tit, f)"
    using k(1) lookup_item_iff [of k] by (cases "lookup_item k") auto
  define r where "r = \<lparr>idx = index_counter s, title = tit, item_key = k, json = js, enabled_box = True,
      sel_options = item_keys, sel_value = k, port_input = None, path_input = None, record_input = None\<rparr>"
  define t where "t = s\<lparr>index_counter := index_counter s + 1, item_list := item_list s @ [r]\<rparr>"
  have new: "\<forall>x\<in>set (item_list s). idx x \<noteq> index_counter s" using inv by (auto simp: vif_inv_def)
  then have f: "filter (\<lambda>x. idx x \<noteq> index_counter s) (item_list t) = item_list s"
    by (simp add: t_def r_def filter_id_conv)
  have "\<exists>s'. select_change (index_counter s) k js t = Some s' \<and> vif_inv s'
     \<and> map item_key (item_list s') = map (\<lambda>x. if idx x = index_counter s then k else item_key x) (item_list t)
     \<and> index_counter s' = index_counter t"
  proof (rule vif_inv_select_change)
    show "distinct (map idx (item_list t))" using inv new by (auto simp: vif_inv_def t_def r_def)
    show "\<forall>x\<in>set (item_list t). idx x < index_counter t" using inv by (auto simp: vif_inv_def t_def r_def less_Suc_eq)
    show "distinct (map item_key (filter (\<lambda>x. idx x \<noteq> index_counter s) (item_list t)))"
      unfolding f using inv by (simp add: vif_inv_def)
    show "\<forall>x\<in>set (item_list t). idx x \<noteq> index_counter s \<longrightarrow> item_key x \<in> set item_keys \<and> item_key x \<noteq> k"
      using inv k(2) by (auto simp: vif_inv_def t_def r_def)
    show "k \<in> set item_keys" by (rule k(1))
    show "plus_disabled t \<longrightarrow> MONITOR_ITEMS_NUM \<le> length (item_list t)"
      using inv by (auto simp: vif_inv_def t_def)
  qed
  then obtain s' where s': "select_change (index_counter s) k js t = Some s'" "vif_inv s'"
     "map item_key (item_list s') = map (\<lambda>x. if idx x = index_counter s then k else item_key x) (item_list t)"
    by blast
  have "map (\<lambda>x. if idx x = index_counter s then k else item_key x) (item_list t)
      = map item_key (item_list s) @ [k]"
    using new by (auto simp: t_def r_def)
  moreover have "find_unselected_item_key (s\<lparr>index_counter := index_counter s + 1\<rparr>) = find_unselected_item_key s"
    by (simp add: find_unselected_item_key_def)
  then have "addItem key js s = (s', True)"
    using choice l s'(1) by (auto simp: addItem_def Let_def t_def r_def)
  ultimately show ?thesis using s' by simp
qed

lemma find_unselected:
  assumes "vif_inv s" "length (item_list s) < MONITOR_ITEMS_NUM"
  shows "\<exists>k. find_unselected_item_key s = Some k \<and> k \<in> set item_keys \<and> k \<notin> item_key ` set (item_list s)"
proof -
  have "card (item_key ` set (item_list s)) \<le> length (item_list s)"
    by (metis card_length length_map list.set_map)
  moreover have "card (set item_keys) = MONITOR_ITEMS_NUM"
    using distinct_item_keys by (simp add: distinct_card length_item_keys)
  ultimately have "\<not> set item_keys \<subseteq> item_key ` set (item_list s)"
    using assms(2) card_mono [of "item_key ` set (item_list s)" "set item_keys"] by auto
  then obtain k where "k \<in> set item_keys" "k \<notin> item_key ` set (item_list s)" by blast
  then have "find_unselected_item_key s \<noteq> None"
    by (auto simp: find_unselected_item_key_def find_None_iff image_iff)
  then obtain c where c: "find_unselected_item_key s = Some c" by blast
  then obtain n where "n < length item_keys" "c = item_keys ! n" "\<not> (\<exists>j\<in>set (item_list s). item_key j = c)"
    unfolding find_unselected_item_key_def find_Some_iff by blast
  then have "c \<in> set item_keys" "c \<notin> item_key ` set (item_list s)" by auto
  with c show ?thesis by blast
qed

lemma vif_inv_length: "vif_inv s \<Longrightarrow> length (item_list s) \<le> MONITOR_ITEMS_NUM"
proof -
  assume "vif_inv s"
  then have "distinct (map item_key (item_list s))" "item_key ` set (item_list s) \<subseteq> set item_keys"
    by (simp_all add: vif_inv_def)
  then have "length (item_list s) \<le> card (set item_keys)"
    by (metis List.finite_set card_mono distinct_card length_map list.set_map)
  then show ?thesis using distinct_item_keys by (simp add: distinct_card length_item_keys)
qed

lemma vif_inv_delete:
  assumes "vif_inv s" "\<exists>r\<in>set (item_list s). idx r = i"
  shows "vif_inv (delete_item i s)"
proof -
  let ?xs = "filter (\<lambda>r. idx r \<noteq> i) (item_list s)"
  have d: "delete_loop i 0 (item_list s) = ?xs"
    using assms(1) by (intro delete_loop_filter) (simp add: vif_inv_def)
  have "length ?xs < length (item_list s)"
    using assms(2) by (metis (mono_tags, lifting) length_filter_less)
  then have len: "length ?xs < MONITOR_ITEMS_NUM" using vif_inv_length [OF assms(1)] by linarith
  have keys: "distinct (map item_key ?xs)" "item_key ` set ?xs \<subseteq> set item_keys"
    "distinct (map idx ?xs)" "\<forall>r\<in>set ?xs. idx r < index_counter s"
    using assms(1) by (auto simp: vif_inv_def distinct_map_filter)
  have "vif_inv (refreshSelectItem (s\<lparr>item_list := ?xs, plus_disabled := False\<rparr>))"
    using keys len by (intro vif_inv_refresh) simp_all
  moreover have "delete_item i s = refreshSelectItem (s\<lparr>item_list := ?xs, plus_disabled := False\<rparr>)"
    using len by (simp add: delete_item_def refreshSelectItem_def d Let_def)
  ultimately show ?thesis by simp
qed

lemma vif_inv_initialize: "vif_inv vif_initialize"
  by (simp add: vif_inv_def vif_initialize_def MONITOR_ITEMS_NUM_eq)

lemma vif_load_inv:
  "distinct (map fst ms) \<Longrightarrow> fst ` set ms \<subseteq> set item_keys \<Longrightarrow> vif_inv s \<Longrightarrow>
   fst ` set ms \<inter> item_key ` set (item_list s) = {} \<Longrightarrow>
     vif_inv (fold (\<lambda>(k, j) s. fst (addItem (Some k) (Some j) s)) ms s)"
proof (induction ms arbitrary: s)
  case (Cons m ms)
  obtain k j where m: "m = (k, j)" by fastforce
  with Cons.prems obtain s' where s': "addItem (Some k) (Some j) s = (s', True)" "vif_inv s'"
     "map item_key (item_list s') = map item_key (item_list s) @ [k]"
    using vif_inv_add [of s k "Some k" "Some j"] by auto
  from s'(3) have "item_key ` set (item_list s') = insert k (item_key ` set (item_list s))"
    by (metis Un_insert_right append_Nil2 list.set_map list.simps(15) set_append sup_bot_right empty_set)
  with Cons.prems m s' have "vif_inv (fold (\<lambda>(k, j) s. fst (addItem (Some k) (Some j) s)) ms s')"
    by (intro Cons.IH) auto
  with m s' show ?case by simp
qed simp

interpretation vif: machine vif_init vif_enabled vif_step vif_inv
proof unfold_locales
  fix s show "vif_init s \<Longrightarrow> vif_inv s"
    using vif_load_inv vif_inv_initialize by (auto simp: vif_init_def vif_load_def vif_initialize_def)
next
  fix s e assume inv: "vif_inv s" and en: "vif_enabled e s"
  show "vif_inv (vif_step e s)"
  proof (cases e)
    case Plus
    with inv en have "length (item_list s) < MONITOR_ITEMS_NUM" by (simp add: vif_inv_def)
    with find_unselected [OF inv] obtain k where k: "find_unselected_item_key s = Some k"
      "k \<in> set item_keys" "k \<notin> item_key ` set (item_list s)" by blast
    then obtain s' where "addItem None None s = (s', True)" "vif_inv s'"
      using vif_inv_add [OF inv k(2,3), of None None] by auto
    with Plus show ?thesis by simp
  next
    case (Change i key)
    with en obtain r where r: "r \<in> set (item_list s)" "idx r = i" "key \<in> set (sel_options r)" by auto
    have "r = refresh_row (item_list s) r" using inv r(1) by (simp add: vif_inv_def)
    then have "sel_options r = sel_options (refresh_row (item_list s) r)" by simp
    with r(3) have key: "key \<in> set item_keys" "key = item_key r \<or> key \<notin> item_key ` set (item_list s)"
      by (auto simp: refresh_row_def)
    have un: "x \<in> set (item_list s) \<Longrightarrow> idx x \<noteq> i \<Longrightarrow> item_key x \<noteq> item_key r" for x
      using inv r by (auto simp: vif_inv_def distinct_map inj_on_def)
    have "\<exists>s'. select_change i key None s = Some s' \<and> vif_inv s'
       \<and> map item_key (item_list s') = map (\<lambda>r. if idx r = i then key else item_key r) (item_list s)
       \<and> index_counter s' = index_counter s"
      using inv key un by (intro vif_inv_select_change) (auto simp: vif_inv_def distinct_map_filter)
    with Change show ?thesis by auto
  next
    case (Delete i)
    with inv en show ?thesis by (simp add: vif_inv_delete)
  qed
qed


definition vif_demo :: vif where
  "vif_demo = fold vif_step [Plus, Plus, Change 0 ''DNS'', Delete 1, Plus] (vif_load [])"


section \<open>The query\<close>

text \<open>\<open>.val()\<close> of an input that is not there is \<open>undefined\<close>, which the concatenation spells out.\<close>

definition val_text :: "string option \<Rightarrow> string" where
  "val_text v = (case v of Some s \<Rightarrow> s | None \<Rightarrow> ''undefined'')"

definition eth0_key :: "nat \<Rightarrow> string \<Rightarrow> string" where
  "eth0_key i k = ''eth0_monitors['' @ nat_digits i @ '']'' @ k"

text \<open>The twelve \<open>buildQuery\<close> functions; \<open>None\<close> is their \<open>null\<close>.\<close>

definition buildQuery :: "monitor_form \<Rightarrow> mrow \<Rightarrow> nat \<Rightarrow> string option" where
  "buildQuery f r i =
     (case f of
        No_Form \<Rightarrow> None
      | Http_Form _ \<Rightarrow> Some (field (eth0_key i ''[params][port]'') (val_text (port_input r))
          @ ''&'' @ field (eth0_key i ''[params][check_path]'') (val_text (path_input r)))
      | Port_Form _ \<Rightarrow> Some (field (eth0_key i ''[params][port]'') (val_text (port_input r)))
      | Ssh_Form _ \<Rightarrow> Some (''&'' @ field (eth0_key i ''[params][port]'') (val_text (port_input r)))
      | Dns_Form _ \<Rightarrow> Some (field (eth0_key i ''[params][port]'') ''53''
          @ ''&'' @ field (eth0_key i ''[params][query_record]'') (val_text (record_input r))))"

definition item_query :: "mrow \<Rightarrow> nat \<Rightarrow> string" where
  "item_query r i =
     (let a = [field (eth0_key i ''[title]'') (item_key r),
               field (eth0_key i ''[enabled]'') (to_str (JBool (enabled_box r)))]
              @ (case json r of None \<Rightarrow> [] | Some j \<Rightarrow> [field (eth0_key i ''[uuid]'') (js_uuid j)])
      in join ''&'' a
         @ (case Option.bind (lookup_item (item_key r)) (\<lambda>(_, f). buildQuery f r i) of
              None \<Rightarrow> '''' | Some q \<Rightarrow> ''&'' @ q))"

fun query_loop :: "nat \<Rightarrow> mrow list \<Rightarrow> string" where
  "query_loop i [] = ''''"
| "query_loop i (r # rs) = (if i > 0 then ''&'' else '''') @ item_query r i @ query_loop (Suc i) rs"

definition queryParams :: "vif \<Rightarrow> string" where
  "queryParams s = query_loop 0 (item_list s)"

text \<open>The specification: the fields a monitor stands for.\<close>

definition form_fields :: "monitor_form \<Rightarrow> mrow \<Rightarrow> nat \<Rightarrow> (string \<times> string) list" where
  "form_fields f r i =
     (case f of
        No_Form \<Rightarrow> []
      | Http_Form _ \<Rightarrow> [(eth0_key i ''[params][port]'', val_text (port_input r)),
                        (eth0_key i ''[params][check_path]'', val_text (path_input r))]
      | Port_Form _ \<Rightarrow> [(eth0_key i ''[params][port]'', val_text (port_input r))]
      | Ssh_Form _ \<Rightarrow> [(eth0_key i ''[params][port]'', val_text (port_input r))]
      | Dns_Form _ \<Rightarrow> [(eth0_key i ''[params][port]'', ''53''),
                       (eth0_key i ''[params][query_record]'', val_text (record_input r))])"

definition item_fields :: "mrow \<Rightarrow> nat \<Rightarrow> (string \<times> string) list" where
  "item_fields r i =
     [(eth0_key i ''[title]'', item_key r), (eth0_key i ''[enabled]'', if enabled_box r then ''true'' else ''false'')]
     @ (case json r of None \<Rightarrow> [] | Some j \<Rightarrow> [(eth0_key i ''[uuid]'', js_uuid j)])
     @ (case lookup_item (item_key r) of None \<Rightarrow> [] | Some (_, f) \<Rightarrow> form_fields f r i)"

definition row_plain :: "mrow \<Rightarrow> bool" where
  "row_plain r =
     (plain_value (item_key r) \<and> (case json r of None \<Rightarrow> True | Some j \<Rightarrow> plain_value (js_uuid j))
      \<and> plain_value (val_text (port_input r)) \<and> plain_value (val_text (path_input r))
      \<and> plain_value (val_text (record_input r)))"

definition read_all :: "(string \<times> string) list \<Rightarrow> (string \<times> string option) list" where
  "read_all kvs = map (\<lambda>(k, v). (k, Some v)) kvs"

lemma plain_key_eth0: "plain_key k \<Longrightarrow> plain_key (eth0_key i k)"
proof -
  have "\<not> is_digit (CHR ''&'')" "\<not> is_digit (CHR ''='')" by (simp_all add: digit_value_def)
  then have "CHR ''&'' \<notin> set (nat_digits i)" "CHR ''='' \<notin> set (nat_digits i)"
    using nat_digits_all by blast+
  then show "plain_key k \<Longrightarrow> plain_key (eth0_key i k)" by (simp add: plain_key_def eth0_key_def)
qed

lemma read_eth0:
  "plain_key k \<Longrightarrow> plain_value v \<Longrightarrow> read_query (field (eth0_key i k) v) = [(eth0_key i k, Some v)]"
  by (simp add: js_simps plain_key_eth0)

lemma monitor_keys_plain:
  "plain_key ''[title]''" "plain_key ''[enabled]''" "plain_key ''[uuid]''" "plain_key ''[params][port]''"
  "plain_key ''[params][check_path]''" "plain_key ''[params][query_record]''"
  "plain_value ''true''" "plain_value ''false''" "plain_value ''53''"
  by (simp_all add: plain_key_def plain_value_def)

lemmas read_monitor = read_eth0 [OF monitor_keys_plain(1)] read_eth0 [OF monitor_keys_plain(2)]
  read_eth0 [OF monitor_keys_plain(3)] read_eth0 [OF monitor_keys_plain(4)]
  read_eth0 [OF monitor_keys_plain(5)] read_eth0 [OF monitor_keys_plain(6)] monitor_keys_plain(7,8,9)

lemma read_query_amp: "read_query (''&'' @ s) = read_query s"
  using read_query_append [of "[]" s] by simp

lemma read_buildQuery:
  assumes "row_plain r"
  shows "(case buildQuery f r i of None \<Rightarrow> [] | Some q \<Rightarrow> read_query q) = read_all (form_fields f r i)"
  using assms
  by (cases f)
     (simp_all only: buildQuery_def form_fields_def read_all_def monitor_form.case option.case row_plain_def
        read_query_append read_query_amp read_monitor, simp_all)

lemma join2: "join s [a, b] = a @ s @ b"
  by simp

lemma join3: "join s ([a, b] @ [c]) = a @ s @ b @ s @ c"
  by simp

lemma read_item_query:
  assumes "row_plain r"
  shows "read_query (item_query r i) = read_all (item_fields r i)"
proof -
  let ?t = "field (eth0_key i ''[title]'') (item_key r)"
  let ?e = "field (eth0_key i ''[enabled]'') (to_str (JBool (enabled_box r)))"
  let ?q = "case Option.bind (lookup_item (item_key r)) (\<lambda>(_, f). buildQuery f r i) of
      None \<Rightarrow> '''' | Some q \<Rightarrow> ''&'' @ q"
  let ?u = "case json r of None \<Rightarrow> [] | Some j \<Rightarrow> [(eth0_key i ''[uuid]'', js_uuid j)]"
  have v: "plain_value (item_key r)" "plain_value (to_str (JBool (enabled_box r)))"
    using assms by (auto simp: row_plain_def monitor_keys_plain)
  have tail: "read_query (s @ ?q) = read_query s @ read_all (case lookup_item (item_key r) of
        None \<Rightarrow> [] | Some (_, f) \<Rightarrow> form_fields f r i)" for s
    using read_buildQuery [OF assms, of _ i, symmetric]
    by (auto simp: read_all_def read_query_append [of s, simplified] split: option.splits prod.splits)
  have "read_query (join ''&'' ([?t, ?e] @ (case json r of None \<Rightarrow> [] | Some j \<Rightarrow> [field (eth0_key i ''[uuid]'') (js_uuid j)])))
      = [(eth0_key i ''[title]'', Some (item_key r)), (eth0_key i ''[enabled]'', Some (to_str (JBool (enabled_box r))))]
        @ read_all ?u"
  proof (cases "json r")
    case None
    then show ?thesis
      by (simp only: option.case join2 append_Nil2)
         (simp only: read_query_append read_monitor(1,2) v, simp add: read_all_def)
  next
    case (Some j)
    then have "plain_value (js_uuid j)" using assms by (simp add: row_plain_def)
    with Some show ?thesis
      by (simp only: option.case join3)
         (simp only: read_query_append read_monitor(1,2,3) v, simp add: read_all_def)
  qed
  then show ?thesis
    unfolding item_query_def Let_def tail by (simp add: item_fields_def read_all_def)
qed

fun all_item_fields :: "nat \<Rightarrow> mrow list \<Rightarrow> (string \<times> string) list" where
  "all_item_fields i [] = []"
| "all_item_fields i (r # rs) = item_fields r i @ all_item_fields (Suc i) rs"

lemma read_query_loop:
  "\<forall>r\<in>set rs. row_plain r \<Longrightarrow> read_query (query_loop i rs) = read_all (all_item_fields i rs)"
proof (induction rs arbitrary: i)
  case Nil
  then show ?case by (simp add: read_all_def)
next
  case (Cons r rs)
  have t: "read_query (item_query r i @ query_loop (Suc i) rs)
      = read_query (item_query r i) @ read_query (query_loop (Suc i) rs)"
  proof (cases rs)
    case (Cons q qs)
    then have "query_loop (Suc i) rs = ''&'' @ item_query q (Suc i) @ query_loop (Suc (Suc i)) qs" by simp
    then show ?thesis by (simp only: read_query_append read_query_amp)
  qed simp
  have "read_query (query_loop i (r # rs)) = read_query (item_query r i @ query_loop (Suc i) rs)"
    using read_query_amp [of "item_query r i @ query_loop (Suc i) rs"] by simp
  then show ?case
    using t read_item_query [of r i] Cons by (simp add: read_all_def)
qed



section \<open>Validation\<close>

definition ip_port :: "string \<Rightarrow> bool" where
  "ip_port val = (val \<noteq> '''' \<and> list_all is_digit val \<and> digits_value 0 val > 0 \<and> digits_value 0 val \<le> 65535)"

definition http_check_path :: "string \<Rightarrow> bool" where
  "http_check_path val = (\<not> list_ex (\<lambda>c. c \<in> {CHR 0x5C, CHR ''>'', CHR ''<'', CHR '' '', CHR '';'', CHR 0x22, CHR 0x27}) val)"

text \<open>The class \<open>[a-zA-z0-9]\<close> of the first character of a domain name, as it is written.\<close>

definition dns_first :: "char \<Rightarrow> bool" where
  "dns_first c = (let n = (of_char c :: nat) in
     (97 \<le> n \<and> n \<le> 122) \<or> (65 \<le> n \<and> n \<le> 122) \<or> (48 \<le> n \<and> n \<le> 57))"

definition dns_rest :: "char \<Rightarrow> bool" where
  "dns_rest c = (let n = (of_char c :: nat) in
     (97 \<le> n \<and> n \<le> 122) \<or> (65 \<le> n \<and> n \<le> 90) \<or> (48 \<le> n \<and> n \<le> 57) \<or> n = 46 \<or> n = 45)"

definition dns_record :: "string \<Rightarrow> bool" where
  "dns_record val = (case val of [] \<Rightarrow> False | c # cs \<Rightarrow> dns_first c \<and> list_all dns_rest cs)"

definition validate_form :: "monitor_form \<Rightarrow> mrow \<Rightarrow> bool" where
  "validate_form f r =
     (case f of
        No_Form \<Rightarrow> True
      | Http_Form _ \<Rightarrow> ip_port (val_text (port_input r)) \<and> http_check_path (val_text (path_input r))
      | Port_Form _ \<Rightarrow> ip_port (val_text (port_input r))
      | Ssh_Form _ \<Rightarrow> ip_port (val_text (port_input r))
      | Dns_Form _ \<Rightarrow> ip_port (val_text (port_input r)) \<and> dns_record (val_text (record_input r)))"

definition row_valid :: "mrow \<Rightarrow> bool" where
  "row_valid r = (case lookup_item (item_key r) of Some (_, f) \<Rightarrow> validate_form f r | None \<Rightarrow> False)"

definition validate_all :: "vif \<Rightarrow> bool" where
  "validate_all s = (let err_items = filter (\<lambda>r. \<not> row_valid r) (item_list s) in length err_items = 0)"

text \<open>The texts that a port field accepts are the decimal numerals of 1 to 65535, with leading zeros.\<close>

lemma ip_port_nat_digits: "ip_port (nat_digits n) \<longleftrightarrow> 1 \<le> n \<and> n \<le> 65535"
proof -
  have "list_all is_digit (nat_digits n)" unfolding list_all_iff using nat_digits_all by blast
  then show ?thesis by (auto simp: ip_port_def)
qed

lemma validate_all_iff: "validate_all s \<longleftrightarrow> (\<forall>r\<in>set (item_list s). row_valid r)"
  by (simp add: validate_all_def filter_empty_conv Let_def)

text \<open>
  a valid row needs no escaping in its port and its domain name, but a valid path may carry
  more fields: with the path \<open>p&k=v\<close> the query has the field \<open>k\<close> of the path beside the fields
  of the monitor, and the path that is read is cut at the ampersand.
\<close>

theorem valid_path_injects:
  assumes "lookup_item (item_key r) = Some (tit, Http_Form n)" and "row_plain (r\<lparr>path_input := Some p\<rparr>)"
    and "path_input r = Some (p @ ''&'' @ field k v)" and "plain_key k" and "plain_value v" and "row_valid r"
  shows "read_query (item_query r i)
    = map (\<lambda>(k, v). (k, Some v)) (item_fields (r\<lparr>path_input := Some p\<rparr>) i) @ [(k, Some v)]"
proof -
  let ?r = "r\<lparr>path_input := Some p\<rparr>"
  have l: "lookup_item (item_key ?r) = Some (tit, Http_Form n)" using assms(1) by simp
  have "item_query r i = item_query ?r i @ ''&'' @ field k v"
    using assms(1,3) by (simp add: item_query_def buildQuery_def Let_def val_text_def field_def)
  then have "read_query (item_query r i) = read_query (item_query ?r i) @ read_query (field k v)"
    by (simp only: read_query_append)
  with assms(2,4,5) show ?thesis by (simp add: read_item_query read_all_def js_simps)
qed

definition http_row :: "string \<Rightarrow> mrow" where
  "http_row path = \<lparr>idx = 0, title = ''HTTP'', item_key = ''HTTP1'', json = None, enabled_box = True,
     sel_options = item_keys, sel_value = ''HTTP1'', port_input = Some ''80'', path_input = Some path,
     record_input = None\<rparr>"

lemma valid_path_injects_witness:
  "row_valid (http_row ''/?a=1&b=2'') \<and>
   read_query (item_query (http_row ''/?a=1&b=2'') 0)
    = map (\<lambda>(k, v). (k, Some v)) (item_fields (http_row ''/?a=1'') 0) @ [(''b'', Some ''2'')]"
proof -
  have v: "row_valid (http_row ''/?a=1&b=2'')"
    by (simp add: row_valid_def lookup_item_def MONITOR_ITEMS_def validate_form_def http_row_def
        ip_port_def digit_value_def http_check_path_def val_text_def)
  have u: "(http_row ''/?a=1&b=2'')\<lparr>path_input := Some ''/?a=1''\<rparr> = http_row ''/?a=1''"
    by (simp add: http_row_def)
  have p: "row_plain (http_row ''/?a=1'')" by code_simp
  have l: "lookup_item (item_key (http_row ''/?a=1&b=2'')) = Some (''HTTP'', Http_Form 80)" by code_simp
  have k: "plain_key ''b''" "plain_value ''2''" by code_simp+
  have q: "path_input (http_row ''/?a=1&b=2'') = Some (''/?a=1'' @ ''&'' @ field ''b'' ''2'')"
    by (simp add: http_row_def field_def)
  show ?thesis
    using valid_path_injects [OF l _ q k v, of 0] v p u by simp
qed

text \<open>The character class of a domain name lets a name begin with an underscore or a bracket.\<close>

lemma dns_record_accepts: "dns_record ''_sip.example.org'' \<and> dns_record ''[x''"
  by code_simp

end
