(* ===== verification/Panel_Base.thy ===== *)
theory Panel_Base
  imports Core_Converter Core_Events Core_Request Core_Pagenate Core_Selector Core_List Core_Form Core_Vif
begin

text \<open>
  What the panels share: the dialogs of \<open>DcmgrGUI.Dialog\<close>, the filters that print the dates of
  an item, the state of a list with its pager, and the specification of the query strings that
  \<open>$.param\<close> makes.
\<close>

section \<open>Dialogs\<close>

text \<open>
  \<open>d_loads\<close> records the parameters of each load of the dialog's page, \<open>None\<close> for none;
  \<open>d_buttons\<close> the disabled state of the dialog's buttons; \<open>target_off\<close> the disabled state of
  the element that opens it. Before the first \<open>create\<close> there is no content.
\<close>

record dialog =
  d_content :: bool
  d_open :: bool
  d_loads :: "string list option list"
  d_buttons :: "nat \<Rightarrow> bool"
  target_off :: bool

definition dialog_initialize :: dialog where
  "dialog_initialize = \<lparr>d_content = False, d_open = False, d_loads = [], d_buttons = \<lambda>_. False, target_off = False\<rparr>"

definition dialog_create :: "string list option \<Rightarrow> dialog \<Rightarrow> dialog" where
  "dialog_create params d = d\<lparr>d_content := True, d_loads := d_loads d @ [params], d_buttons := \<lambda>_. False\<rparr>"

definition dialog_open :: "string list option \<Rightarrow> dialog \<Rightarrow> dialog" where
  "dialog_open params d =
     (case params of
        Some ids \<Rightarrow> if length ids = 0 then d else (dialog_create params d)\<lparr>d_open := True\<rparr>
      | None \<Rightarrow> (dialog_create None d)\<lparr>d_open := True\<rparr>)"

text \<open>\<open>None\<close> is the exception of a dialog that was never created.\<close>

definition disabledButton :: "nat \<Rightarrow> bool \<Rightarrow> dialog \<Rightarrow> dialog option" where
  "disabledButton num b d = (if d_content d then Some (d\<lparr>d_buttons := (d_buttons d)(num := b)\<rparr>) else None)"

text \<open>Closing publishes the topic \<open>close_dialog\<close>.\<close>

definition dialog_close :: "dialog \<Rightarrow> (dialog \<times> string list) option" where
  "dialog_close d = (if d_content d then Some (d\<lparr>d_open := False\<rparr>, [''close_dialog'']) else None)"

definition enableDialogButton :: "dialog \<Rightarrow> dialog" where
  "enableDialogButton d = d\<lparr>target_off := False\<rparr>"

definition disableDialogButton :: "dialog \<Rightarrow> dialog" where
  "disableDialogButton d = d\<lparr>target_off := True\<rparr>"

definition is_disabled :: "dialog \<Rightarrow> bool" where
  "is_disabled d = target_off d"

lemmas dialog_defs = dialog_initialize_def dialog_create_def dialog_open_def disabledButton_def
  dialog_close_def enableDialogButton_def disableDialogButton_def is_disabled_def

text \<open>
  The click handlers of the panels on the element that opens a dialog: only when it is enabled,
  with the checked ids; some of them then disable the submit button.
\<close>

definition click_target :: "string list \<Rightarrow> dialog \<Rightarrow> dialog" where
  "click_target ids d = (if \<not> is_disabled d then dialog_open (Some ids) d else d)"

definition click_target_submit_off :: "string list \<Rightarrow> dialog \<Rightarrow> dialog option" where
  "click_target_submit_off ids d =
     (if \<not> is_disabled d then disabledButton 1 True (dialog_open (Some ids) d) else Some d)"

definition click_create :: "dialog \<Rightarrow> dialog option" where
  "click_create d = disabledButton 1 True (dialog_open None d)"

lemma click_create_open: "\<exists>d'. click_create d = Some d' \<and> d_open d' \<and> d_buttons d' 1"
  by (simp add: click_create_def dialog_defs)

section \<open>Dates of an item\<close>

text \<open>
  The three steps that the filters apply to a date: parse, set the zone, print. \<open>None\<close> is the
  exception of a text that is no date or of a zone that cannot be loaded, which ends the filter; \<open>prop\<close>, \<open>zone\<close> and \<open>now\<close> are as
  in \<open>utcToLocal\<close>.
\<close>

definition localize ::
  "(string \<Rightarrow> string list \<Rightarrow> string) \<Rightarrow> (date \<Rightarrow> date option) \<Rightarrow> date \<Rightarrow> string \<Rightarrow> string option" where
  "localize prop zone now str =
     Option.bind (parseISO8601 now str) (\<lambda>dt. map_option (getI18n prop dt) (zone dt))"

record dated =
  created_at :: string
  updated_at :: string
  last_login_at :: string

text \<open>The filter of the details: an empty or missing date is left alone.\<close>

definition detail_filter ::
  "(string \<Rightarrow> string list \<Rightarrow> string) \<Rightarrow> (date \<Rightarrow> date option) \<Rightarrow> date \<Rightarrow> dated \<Rightarrow> dated option" where
  "detail_filter prop zone now d =
     (let loc = (\<lambda>s. if s \<noteq> '''' then localize prop zone now s else Some s) in
      case loc (created_at d) of None \<Rightarrow> None | Some c \<Rightarrow>
      (case loc (updated_at d) of None \<Rightarrow> None | Some u \<Rightarrow>
      (case loc (last_login_at d) of None \<Rightarrow> None | Some l \<Rightarrow>
         Some (d\<lparr>created_at := c, updated_at := u, last_login_at := l\<rparr>))))"

text \<open>The filter of the list rows has no such test: every row must have a date.\<close>

fun rows_filter ::
  "(string \<Rightarrow> string list \<Rightarrow> string) \<Rightarrow> (date \<Rightarrow> date option) \<Rightarrow> date \<Rightarrow> dated list \<Rightarrow> dated list option" where
  "rows_filter prop zone now [] = Some []"
| "rows_filter prop zone now (r # rs) =
     (case localize prop zone now (created_at r) of
        None \<Rightarrow> None
      | Some c \<Rightarrow> map_option ((#) (r\<lparr>created_at := c\<rparr>)) (rows_filter prop zone now rs))"

lemma rows_filter_length: "rows_filter prop zone now rs = Some rs' \<Longrightarrow> length rs' = length rs"
  by (induction rs arbitrary: rs') (auto split: option.splits)

section \<open>Queries made with jQuery's \<open>$.param\<close>\<close>

text \<open>
  \<open>$.param\<close> is library code. What the panels rely on: a pair becomes \<open>key=value\<close>, an array one
  \<open>key[]=value\<close> per element, keys and values escaped, spaces as \<open>+\<close>, joined by \<open>&\<close>.
\<close>

datatype param_value = P_Str string | P_Arr "string list"

definition form_encode :: "string \<Rightarrow> string" where
  "form_encode s = concat (map (\<lambda>c. if c = CHR '' '' then ''+'' else encode_char c) s)"

fun param_pairs :: "(string \<times> param_value) list \<Rightarrow> (string \<times> string) list" where
  "param_pairs [] = []"
| "param_pairs ((k, P_Str v) # ps) = (k, v) # param_pairs ps"
| "param_pairs ((k, P_Arr vs) # ps) = map (\<lambda>v. (k @ ''[]'', v)) vs @ param_pairs ps"

definition jq_param :: "(string \<times> param_value) list \<Rightarrow> string" where
  "jq_param ps = join ''&'' (map (\<lambda>(k, v). field (form_encode k) (form_encode v)) (param_pairs ps))"

lemma form_encode_Cons:
  "form_encode (c # s) = (if c = CHR '' '' then ''+'' else encode_char c) @ form_encode s"
  by (simp add: form_encode_def)

lemma form_decode_form_encode [simp]: "form_decode (form_encode s) = Some s"
  by (induction s) (auto simp: form_encode_Cons, simp add: form_encode_def)

lemma form_encode_plain: "x \<in> set (form_encode s) \<Longrightarrow> x \<noteq> CHR ''&'' \<and> x \<noteq> CHR ''=''"
  by (induction s) (auto simp: form_encode_Cons form_encode_def dest: encode_char_plain split: if_splits)

text \<open>A query made with \<open>$.param\<close> always reads back as the values put in.\<close>

lemma read_jq_param:
  "read_query (jq_param ps) = map (\<lambda>(k, v). (form_encode k, Some v)) (param_pairs ps)"
proof -
  have "\<forall>w\<in>set (map (\<lambda>(k, v). field (form_encode k) (form_encode v)) (param_pairs ps)). CHR ''&'' \<notin> set w"
    using form_encode_plain by (auto simp: field_def)
  moreover have "read_field (field (form_encode k) (form_encode v)) = (form_encode k, Some v)" for k v
  proof -
    have "CHR ''='' \<notin> set (form_encode k)" using form_encode_plain by blast
    then show ?thesis by (simp add: read_field_def field_def split_eq_field)
  qed
  ultimately show ?thesis
    unfolding jq_param_def by (subst read_query_join) (auto simp: filter_map comp_def case_prod_beta)
qed

section \<open>Selectors with several ids\<close>

text \<open>
  \<open>$('#row-' + x).find('.state').text()\<close> where \<open>x\<close> is an array: its string form joins the ids by
  commas, and a selector with commas is a group. The first part is the id of a row, the others are
  tag names, which match nothing. \<open>rows\<close> are the rows of the table: id and state text.
\<close>

definition array_string :: "string list \<Rightarrow> string" where
  "array_string ids = join '','' ids"

definition matches_row :: "string \<Rightarrow> string \<Rightarrow> bool" where
  "matches_row part i = (part = ''#row-'' @ i)"

definition state_text :: "(string \<times> string) list \<Rightarrow> string \<Rightarrow> string" where
  "state_text rows selector =
     concat (map snd (filter (\<lambda>(i, st). list_ex (\<lambda>part. matches_row part i) (split_on (CHR '','') selector)) rows))"

definition row_state :: "(string \<times> string) list \<Rightarrow> string \<Rightarrow> string" where
  "row_state rows i = (case map_of rows i of Some st \<Rightarrow> st | None \<Rightarrow> '''')"

text \<open>Ids as the servers give them: letters, digits and hyphens.\<close>

definition plain_id :: "string \<Rightarrow> bool" where
  "plain_id i = (CHR '','' \<notin> set i \<and> CHR ''#'' \<notin> set i)"

lemma concat_states_unique:
  "distinct (map fst rows) \<Longrightarrow>
     concat (map snd (filter (\<lambda>(j, st). j = i) rows)) = row_state rows i"
proof (induction rows)
  case Nil
  then show ?case by (simp add: row_state_def)
next
  case (Cons r rows)
  obtain j st where r: "r = (j, st)" by fastforce
  show ?case
  proof (cases "j = i")
    case True
    with Cons.prems r have "i \<notin> fst ` set rows" by simp
    then have "filter (\<lambda>(j, st). j = i) rows = []" by (force simp: filter_empty_conv)
    with True r show ?thesis by (simp add: row_state_def)
  next
    case False
    with Cons r show ?thesis by (simp add: row_state_def)
  qed
qed

lemma state_text_one:
  "distinct (map fst rows) \<Longrightarrow> plain_id i \<Longrightarrow> state_text rows (''#row-'' @ i) = row_state rows i"
proof -
  assume d: "distinct (map fst rows)" and p: "plain_id i"
  have "split_on (CHR '','') (''#row-'' @ i) = [''#row-'' @ i]"
    using p by (intro split_on_none) (simp add: plain_id_def)
  moreover have "list_ex (\<lambda>part. matches_row part j) [''#row-'' @ i] \<longleftrightarrow> j = i" for j
    by (auto simp: matches_row_def)
  ultimately show ?thesis using concat_states_unique [OF d, of i] by (simp only: state_text_def)
qed

lemma split_on_array: "is \<noteq> [] \<Longrightarrow> \<forall>i\<in>set is. plain_id i \<Longrightarrow>
   split_on (CHR '','') (''#row-'' @ array_string is) = (''#row-'' @ hd is) # tl is"
proof -
  assume ne: "is \<noteq> []" and p: "\<forall>i\<in>set is. plain_id i"
  obtain i js where c: "is = i # js" using ne by (cases "is") auto
  have "split_on (CHR '','') (join '','' ((''#row-'' @ i) # js)) = (''#row-'' @ i) # js"
    using p c by (intro split_on_join) (auto simp: plain_id_def)
  moreover have "join '','' ((''#row-'' @ i) # js) = ''#row-'' @ join '','' (i # js)" by (cases js) simp_all
  ultimately show ?thesis by (simp add: array_string_def c)
qed

text \<open>The state read for an array of ids is that of the row of its first id.\<close>

lemma state_text_array:
  assumes "distinct (map fst rows)" "ids \<noteq> []" "\<forall>i\<in>set ids. plain_id i"
  shows "state_text rows (''#row-'' @ array_string ids) = row_state rows (hd ids)"
proof -
  have "\<not> matches_row part i" if "part \<in> set (tl ids)" for part i
  proof -
    have "part \<in> set ids" using that assms(2) by (meson list.set_sel(2))
    then have "CHR ''#'' \<notin> set part" using assms(3) by (simp add: plain_id_def)
    then show ?thesis by (auto simp: matches_row_def)
  qed
  then have "list_ex (\<lambda>part. matches_row part i) ((''#row-'' @ hd ids) # tl ids) \<longleftrightarrow> i = hd ids" for i
    by (auto simp: matches_row_def list_ex_iff)
  then show ?thesis
    using concat_states_unique [OF assms(1), of "hd ids"]
    unfolding state_text_def split_on_array [OF assms(2,3)] by simp
qed

lemma array_string_Nil: "distinct (map fst rows) \<Longrightarrow> state_text rows (''#row-'' @ array_string []) = row_state rows ''''"
  using state_text_one [of rows "''''"] by (simp add: array_string_def plain_id_def)

section \<open>The list of a panel\<close>

text \<open>
  The parts every list panel has: the pager, the list, and the request for the list that the panel
  keeps and changes on a refresh. \<open>pl_sent\<close> records the requests sent, in order.
\<close>

record panel =
  pl_pager :: pagenate
  pl_list :: clist
  pl_url :: string
  pl_data :: string
  pl_sent :: "ajax_settings list"

definition send_get :: "string \<Rightarrow> jsval \<Rightarrow> 'a panel_scheme \<Rightarrow> 'a panel_scheme" where
  "send_get url data p =
     p\<lparr>pl_sent := pl_sent p @ [request_get \<lparr>p_url = url, p_data = data, p_async = JUndef\<rparr>]\<rparr>"

definition page_text :: "pagenate \<Rightarrow> string" where
  "page_text pg = to_str (num_val (current_page pg))"

text \<open>
  The refresh handler of a panel with check boxes: the page and the rows to ask for are read from
  the pager, the list is asked for, then the detail of every checked row.
\<close>

definition panel_refresh :: "string \<Rightarrow> string \<Rightarrow> 'a panel_scheme \<Rightarrow> 'a panel_scheme" where
  "panel_refresh list_path show_path p =
     (let pg = pl_pager p;
          p1 = p\<lparr>pl_url := getPagePath list_path (page_text pg) JUndef,
                 pl_data := getPagenateData (num_val (start pg)) (JNum (row pg))\<rparr>;
          p2 = send_get (pl_url p1) (JStr (pl_data p1)) p1;
          p3 = fold (\<lambda>i. send_get (getPagePath show_path i JUndef) JUndef) (checked_list (pl_list p2)) p2
      in p3\<lparr>pl_list := refresh_details (pl_list p3)\<rparr>)"

text \<open>The handler of a page change: the selection and the details go, then the refresh.\<close>

definition panel_updatePagenate :: "string \<Rightarrow> string \<Rightarrow> 'a panel_scheme \<Rightarrow> 'a panel_scheme" where
  "panel_updatePagenate list_path show_path p =
     panel_refresh list_path show_path (p\<lparr>pl_list := change_page (pl_list p)\<rparr>)"

text \<open>The answer of the list request: the new total for the pager, the new rows for the table.\<close>

definition panel_content :: "int \<Rightarrow> string list \<Rightarrow> 'a panel_scheme \<Rightarrow> 'a panel_scheme" where
  "panel_content tot ids p =
     p\<lparr>pl_pager := changeTotal tot (pl_pager p), pl_list := list_content ids (pl_list p)\<rparr>"

definition panel_init :: "string \<Rightarrow> int \<Rightarrow> int \<Rightarrow> panel" where
  "panel_init list_path maxrow page =
     (let p = \<lparr>pl_pager = pagenate_initialize 0 maxrow, pl_list = list_empty,
               pl_url = getPagePath list_path (to_str (JNum page)) JUndef,
               pl_data = getPagenateData (JNum page) (JNum maxrow), pl_sent = []\<rparr>
      in send_get (pl_url p) (JStr (pl_data p)) p)"

lemma send_get_frame [simp]:
  "pl_list (send_get u d p) = pl_list p" "pl_pager (send_get u d p) = pl_pager p"
  "pl_sent (send_get u d p) = pl_sent p @ [request_get \<lparr>p_url = u, p_data = d, p_async = JUndef\<rparr>]"
  by (simp_all add: send_get_def)

lemma fold_send_get:
  "pl_sent (fold (\<lambda>i. send_get (f i) d) is p)
     = pl_sent p @ map (\<lambda>i. request_get \<lparr>p_url = f i, p_data = d, p_async = JUndef\<rparr>) is"
  "pl_list (fold (\<lambda>i. send_get (f i) d) is p) = pl_list p"
  "pl_pager (fold (\<lambda>i. send_get (f i) d) is p) = pl_pager p"
  by (induction "is" arbitrary: p) simp_all

text \<open>What a refresh sends: the list request, then one detail request per checked row.\<close>

lemma panel_refresh_sent:
  "pl_sent (panel_refresh lp sp p) = pl_sent p
     @ request_get \<lparr>p_url = getPagePath lp (page_text (pl_pager p)) JUndef,
           p_data = JStr (getPagenateData (num_val (start (pl_pager p))) (JNum (row (pl_pager p)))), p_async = JUndef\<rparr>
     # map (\<lambda>i. request_get \<lparr>p_url = getPagePath sp i JUndef, p_data = JUndef, p_async = JUndef\<rparr>)
         (checked_list (pl_list p))"
  by (simp add: panel_refresh_def Let_def fold_send_get)

lemma panel_refresh_list: "pl_list (panel_refresh lp sp p) = refresh_details (pl_list p)"
  "pl_pager (panel_refresh lp sp p) = pl_pager p"
  by (simp_all add: panel_refresh_def Let_def fold_send_get)

lemma panel_updatePagenate_sent:
  "pl_sent (panel_updatePagenate lp sp p) = pl_sent p
     @ [request_get \<lparr>p_url = getPagePath lp (page_text (pl_pager p)) JUndef,
           p_data = JStr (getPagenateData (num_val (start (pl_pager p))) (JNum (row (pl_pager p)))), p_async = JUndef\<rparr>]"
  by (simp add: panel_updatePagenate_def panel_refresh_sent change_page_def clearCheckedList_def)

section \<open>Buttons that depend on the states of the checked rows\<close>

text \<open>
  The interface of \<open>changeButtonState\<close>: a panel's handler sets the buttons that it reads off the
  states of the checked rows. When the handler's result is the same table whatever the buttons
  were before, then the buttons depend on the selection only, not on its history.
\<close>

locale button_table =
  fixes change :: "string list \<Rightarrow> 'p \<Rightarrow> 'p"
    and buttons :: "'p \<Rightarrow> 'b"
    and table :: "string list \<Rightarrow> 'b"
  assumes change_table: "buttons (change states p) = table states"
begin

lemma history_free: "buttons (change states (fold change hist p)) = table states"
  by (rule change_table)

lemma last_wins: "hist \<noteq> [] \<Longrightarrow> buttons (fold change hist p) = table (last hist)"
  by (induction hist arbitrary: p rule: rev_induct) (auto simp: change_table)

end

section \<open>Requests as the server reads them\<close>

definition sent_fields :: "ajax_settings \<Rightarrow> string \<times> string \<times> (string \<times> string option) list" where
  "sent_fields r = (a_type r, a_url r, case a_data r of JStr s \<Rightarrow> read_query s | _ \<Rightarrow> [])"

lemma sent_fields_put: "sent_fields (request_put \<lparr>p_url = u, p_data = JStr d, p_async = a\<rparr>) = (''PUT'', u, read_query d)"
  and sent_fields_post: "sent_fields (request_post \<lparr>p_url = u, p_data = JStr d, p_async = a\<rparr>) = (''POST'', u, read_query d)"
  and sent_fields_del: "sent_fields (request_del \<lparr>p_url = u, p_data = JStr d, p_async = a\<rparr>) = (''DELETE'', u, read_query d)"
  and sent_fields_get: "sent_fields (request_get \<lparr>p_url = u, p_data = JStr d, p_async = a\<rparr>) = (''GET'', u, read_query d)"
  by (simp_all add: sent_fields_def request_defs)

lemmas sent_fields_simps = sent_fields_put sent_fields_post sent_fields_del sent_fields_get

lemma read_encoded: "plain_key k \<Longrightarrow> read_query (field k (encodeURIComponent v)) = [(k, Some v)]"
  by (simp add: js_simps)

lemma read_plain: "plain_key k \<Longrightarrow> plain_value v \<Longrightarrow> read_query (field k v) = [(k, Some v)]"
  by (simp add: js_simps)

end
