(* ===== verification/Panel_Volume.thy ===== *)
theory Panel_Volume
  imports Panel_Base
begin

text \<open>
  The volume panel, \<open>volume_panel.js\<close>: the requests its dialogs send, which buttons the checked
  volumes enable, the action menu, and the refresh of the list.
\<close>

section \<open>Requests of the dialogs\<close>

text \<open>The ids of a dialog are the texts of the cells of its table.\<close>

definition volume_update_request :: "string \<Rightarrow> string \<Rightarrow> ajax_settings" where
  "volume_update_request volume_id display_name =
     request_put \<lparr>p_url = ''/volumes/'' @ volume_id @ ''.json'',
       p_data = JStr (field ''display_name'' (encodeURIComponent display_name)), p_async = JUndef\<rparr>"

text \<open>\<open>None\<close>: the size is missing, nothing is sent and the dialog stays open.\<close>

definition volume_create_request :: "string \<Rightarrow> string \<Rightarrow> string \<Rightarrow> ajax_settings option" where
  "volume_create_request display_name volume_size vunit =
     (if volume_size = '''' then None
      else Some (request_post \<lparr>p_url = ''/volumes'',
        p_data = JStr (field ''size'' volume_size @ ''&'' @ field ''unit'' vunit @ ''&''
                       @ field ''display_name'' (encodeURIComponent display_name)), p_async = JUndef\<rparr>))"

definition volume_delete_request :: "string list \<Rightarrow> ajax_settings" where
  "volume_delete_request ids =
     request_del \<lparr>p_url = ''/volumes'', p_data = JStr (jq_param [(''ids'', P_Arr ids)]), p_async = JUndef\<rparr>"

definition volume_backup_request :: "string list \<Rightarrow> string \<Rightarrow> string \<Rightarrow> ajax_settings" where
  "volume_backup_request ids destination display_name =
     request_put \<lparr>p_url = ''/volumes/backup'',
       p_data = JStr (jq_param [(''ids'', P_Arr ids), (''destination'', P_Str destination),
                                (''display_name'', P_Str display_name)]), p_async = JUndef\<rparr>"

definition volume_attach_request :: "string \<Rightarrow> string list \<Rightarrow> ajax_settings" where
  "volume_attach_request instance_id volume_ids =
     request_put \<lparr>p_url = ''/volumes/attach'',
       p_data = JStr (jq_param [(''instance_id'', P_Str instance_id), (''volume_ids'', P_Arr volume_ids)]),
       p_async = JUndef\<rparr>"

definition volume_detach_request :: "string list \<Rightarrow> ajax_settings" where
  "volume_detach_request ids =
     request_put \<lparr>p_url = ''/volumes/detach'', p_data = JStr (jq_param [(''ids'', P_Arr ids)]), p_async = JUndef\<rparr>"

lemmas volume_requests = volume_update_request_def volume_create_request_def volume_delete_request_def
  volume_backup_request_def volume_attach_request_def volume_detach_request_def request_defs

section \<open>The create dialog\<close>

text \<open>Its two text fields are watched for typing, pasting and cutting.\<close>

definition create_volume_fields :: "(string \<times> string) list" where
  "create_volume_fields = [(''display_name'', ''#display_name''), (''volume_size'', ''#volume_size'')]"

definition create_volume_ready :: ready where
  "create_volume_ready f =
     (if is_ready f ''display_name'' = True \<and> is_ready f ''volume_size'' = True
      then disable_submit False f else disable_submit True f)"

interpretation create_volume: form_gate create_volume_fields create_volume_ready
  by unfold_locales (auto simp: create_volume_fields_def create_volume_ready_def disable_submit_def)

text \<open>
  in the create dialog, after any typing, pasting and cutting, once the timers have fired,
  the create button is enabled exactly when both the name and the size have text.
\<close>

theorem create_volume_gate:
  assumes "timers (fold (form_step (text_binds create_volume_fields) create_volume_ready) es form_empty) = []"
  shows "let f = fold (form_step (text_binds create_volume_fields) create_volume_ready) es form_empty in
     \<not> submit_disabled f \<longleftrightarrow> vals f ''#display_name'' \<noteq> '''' \<and> vals f ''#volume_size'' \<noteq> ''''"
proof -
  have "create_volume.gate_inv form_empty"
    unfolding form_empty_def by (rule create_volume.gate_open) (simp add: create_volume_fields_def)
  then have "create_volume.gate_inv (fold (form_step (text_binds create_volume_fields) create_volume_ready) es form_empty)"
    by (rule create_volume.gate_run)
  from create_volume.gate_exact [OF this assms] show ?thesis
    by (simp add: Let_def all_filled_def create_volume_fields_def)
qed

lemma create_volume_gate_witness:
  "\<not> submit_disabled (fold (form_step (text_binds create_volume_fields) create_volume_ready)
     [Paste ''#display_name'' ''db'', Type ''#volume_size'' ''10'', Timer] form_empty)"
proof -
  let ?f = "fold (form_step (text_binds create_volume_fields) create_volume_ready)
     [Paste ''#display_name'' ''db'', Type ''#volume_size'' ''10'', Timer] form_empty"
  have t: "timers ?f = []" and v: "vals ?f ''#display_name'' = ''db''" "vals ?f ''#volume_size'' = ''10''"
    by code_simp+
  show ?thesis using create_volume_gate [OF t] v by (simp add: Let_def)
qed

section \<open>Buttons and menu\<close>

record vpanel = panel +
  v_rows :: "(string \<times> string) list"
  v_menu_off :: bool
  bt_create_volume :: dialog
  bt_delete_volume :: dialog
  bt_create_backup :: dialog
  bt_attach_volume :: dialog
  bt_detach_volume :: dialog

text \<open>The loop over the states of the checked rows: what is among them, and whether all are known.\<close>

record volume_scan =
  is_available :: bool
  is_attached :: bool
  is_deleting :: bool
  scan_flag :: bool

definition scan_volume :: "string \<Rightarrow> volume_scan \<Rightarrow> volume_scan" where
  "scan_volume state v =
     (if state = ''available'' then v\<lparr>is_available := True\<rparr>
      else if state = ''attached'' then v\<lparr>is_attached := True\<rparr>
      else if state = ''deleting'' then v\<lparr>is_deleting := True\<rparr>
      else v\<lparr>scan_flag := False\<rparr>)"

definition scan_volumes :: "string list \<Rightarrow> volume_scan" where
  "scan_volumes states =
     fold scan_volume states \<lparr>is_available = False, is_attached = False, is_deleting = False, scan_flag = True\<rparr>"

definition set_volume_buttons :: "bool \<Rightarrow> bool \<Rightarrow> bool \<Rightarrow> vpanel \<Rightarrow> vpanel" where
  "set_volume_buttons del backup menu p =
     p\<lparr>bt_delete_volume := (if del then enableDialogButton else disableDialogButton) (bt_delete_volume p),
       bt_create_backup := (if backup then enableDialogButton else disableDialogButton) (bt_create_backup p),
       v_menu_off := \<not> menu\<rparr>"

definition volume_button_states :: "string list \<Rightarrow> vpanel \<Rightarrow> vpanel" where
  "volume_button_states states p =
     (let v = scan_volumes states in
      if scan_flag v then
        (let p1 = (if is_available v \<and> is_attached v then set_volume_buttons True True False p else p);
             p2 = (if \<not> is_available v \<and> is_attached v then set_volume_buttons False False True p1 else p1);
             p3 = (if is_available v \<and> \<not> is_attached v then set_volume_buttons True True True p2 else p2);
             p4 = (if \<not> is_available v \<and> \<not> is_attached v then set_volume_buttons False False False p3 else p3)
         in if is_deleting v then p4\<lparr>bt_delete_volume := enableDialogButton (bt_delete_volume p4)\<rparr> else p4)
      else set_volume_buttons False False False p)"

definition volume_changeButtonState :: "vpanel \<Rightarrow> vpanel" where
  "volume_changeButtonState p =
     volume_button_states
       (map (\<lambda>uuid. state_text (v_rows p) (''#row-'' @ uuid)) (currentMultiChecked (pl_list p))) p"

definition volume_buttons :: "vpanel \<Rightarrow> bool \<times> bool \<times> bool" where
  "volume_buttons p = (\<not> target_off (bt_delete_volume p), \<not> target_off (bt_create_backup p), \<not> v_menu_off p)"

text \<open>The table: for a set of states, which of delete, backup and menu are enabled.\<close>

definition volume_table :: "string list \<Rightarrow> bool \<times> bool \<times> bool" where
  "volume_table states =
     (let known = (set states \<subseteq> {''available'', ''attached'', ''deleting''});
          av = (''available'' \<in> set states); att = (''attached'' \<in> set states)
      in (known \<and> (av \<or> ''deleting'' \<in> set states), known \<and> av, known \<and> (av \<noteq> att)))"

lemma scan_volumes_eq:
  "scan_volumes states = \<lparr>is_available = (''available'' \<in> set states), is_attached = (''attached'' \<in> set states),
     is_deleting = (''deleting'' \<in> set states), scan_flag = (set states \<subseteq> {''available'', ''attached'', ''deleting''})\<rparr>"
proof -
  have "fold scan_volume states v = \<lparr>is_available = (is_available v \<or> ''available'' \<in> set states),
      is_attached = (is_attached v \<or> ''attached'' \<in> set states),
      is_deleting = (is_deleting v \<or> ''deleting'' \<in> set states),
      scan_flag = (scan_flag v \<and> set states \<subseteq> {''available'', ''attached'', ''deleting''})\<rparr>" for v
  proof (induction states arbitrary: v)
    case (Cons st states)
    have "scan_volume st v = \<lparr>is_available = (is_available v \<or> st = ''available''),
        is_attached = (is_attached v \<or> st = ''attached''), is_deleting = (is_deleting v \<or> st = ''deleting''),
        scan_flag = (scan_flag v \<and> st \<in> {''available'', ''attached'', ''deleting''})\<rparr>"
      by (simp add: scan_volume_def)
    with Cons show ?case by (simp add: eq_commute)
  qed simp
  then show ?thesis by (simp add: scan_volumes_def)
qed

lemma volume_buttons_set [simp]: "volume_buttons (set_volume_buttons a b c p) = (a, b, c)"
  by (simp add: volume_buttons_def set_volume_buttons_def dialog_defs)

lemma volume_button_states_table: "volume_buttons (volume_button_states states p) = volume_table states"
proof -
  have e: "volume_buttons (p\<lparr>bt_delete_volume := enableDialogButton (bt_delete_volume p)\<rparr>)
      = (True, snd (volume_buttons p))" for p :: vpanel
    by (simp add: volume_buttons_def dialog_defs)
  show ?thesis
    by (cases "''available'' \<in> set states"; cases "''attached'' \<in> set states")
       (simp_all add: volume_button_states_def scan_volumes_eq volume_table_def e Let_def)
qed

interpretation volume_table: button_table volume_button_states volume_buttons volume_table
  by unfold_locales (rule volume_button_states_table)

text \<open>
  C33: which buttons the checked volumes enable, whatever was enabled before. With a volume in
  another state among them, none; otherwise delete needs an available or deleting one, backup an
  available one, and the menu that the available and the attached ones are not mixed.
\<close>

theorem volume_buttons_of_selection:
  "volume_buttons (volume_changeButtonState p) =
     (let states = map (\<lambda>uuid. state_text (v_rows p) (''#row-'' @ uuid)) (currentMultiChecked (pl_list p));
          known = (\<not> (\<exists>st\<in>set states. st \<notin> {''available'', ''attached'', ''deleting''}));
          av = (\<exists>st\<in>set states. st = ''available''); att = (\<exists>st\<in>set states. st = ''attached'')
      in (known \<and> (av \<or> (\<exists>st\<in>set states. st = ''deleting'')), known \<and> av, known \<and> (av \<noteq> att)))"
  by (auto simp: volume_changeButtonState_def volume_button_states_table volume_table_def Let_def subset_iff)

section \<open>The action menu\<close>

text \<open>
  The two actions loop over \<open>c_list.getCheckedInstanceIds()\<close> with \<open>$.each\<close>. That is an object
  with the one property \<open>ids\<close>, so the loop runs once, with the whole array as \<open>uuid\<close>.
\<close>

definition volume_attach_ok :: "(string \<times> string) list \<Rightarrow> string list \<Rightarrow> bool" where
  "volume_attach_ok rows ids =
     (let state = state_text rows (''#row-'' @ array_string ids);
          ok = (state = ''available'' \<and> state \<noteq> ''attached'');
          is_att = ok; flag = ok
      in is_att = True \<and> flag = True)"

definition volume_detach_ok :: "(string \<times> string) list \<Rightarrow> string list \<Rightarrow> bool" where
  "volume_detach_ok rows ids =
     (let state = state_text rows (''#row-'' @ array_string ids);
          ok = (state = ''attached'');
          is_det = ok; flag = ok
      in is_det = True \<and> flag = True)"

text \<open>\<open>None\<close> is an exception of \<open>disabledButton\<close> on a dialog that was never created.\<close>

definition volume_select :: "string \<Rightarrow> vpanel \<Rightarrow> vpanel option" where
  "volume_select select_action p =
     (let ids = getCheckedInstanceIds (pl_list p) in
      if select_action = ''attach_volume'' then
        (if volume_attach_ok (v_rows p) ids
         then map_option (\<lambda>d. p\<lparr>bt_attach_volume := d\<rparr>)
                (disabledButton 1 True (dialog_open (Some ids) (bt_attach_volume p)))
         else Some p)
      else if select_action = ''detach_volume'' then
        (if volume_detach_ok (v_rows p) ids
         then Some (p\<lparr>bt_detach_volume := dialog_open (Some ids) (bt_detach_volume p)\<rparr>)
         else Some p)
      else Some p)"

text \<open>
  the attach action opens its dialog for all checked volumes as soon as the first of them is
  available: the states of the others are not looked at.
\<close>

theorem volume_attach_looks_at_first:
  assumes "distinct (map fst (v_rows p))" and "getCheckedInstanceIds (pl_list p) = i # ids"
    and "\<forall>j\<in>set (i # ids). plain_id j"
  shows "volume_select ''attach_volume'' p =
     (if row_state (v_rows p) i = ''available''
      then Some (p\<lparr>bt_attach_volume := (bt_attach_volume p)\<lparr>d_content := True, d_open := True,
             d_loads := d_loads (bt_attach_volume p) @ [Some (i # ids)],
             d_buttons := (\<lambda>_. False)(1 := True)\<rparr>\<rparr>)
      else Some p)"
proof -
  have "state_text (v_rows p) (''#row-'' @ array_string (i # ids)) = row_state (v_rows p) i"
    using state_text_array [OF assms(1) _ assms(3)] by simp
  then have "volume_attach_ok (v_rows p) (i # ids) \<longleftrightarrow> row_state (v_rows p) i = ''available''"
    by (auto simp: volume_attach_ok_def Let_def)
  then show ?thesis by (simp add: volume_select_def assms(2) dialog_defs)
qed

section \<open>The panel\<close>

definition volume_init :: vpanel where
  "volume_init =
     (let p = panel_init ''/volumes/list/'' 10 1 in
      \<lparr>pl_pager = pl_pager p, pl_list = pl_list p, pl_url = pl_url p, pl_data = pl_data p, pl_sent = pl_sent p,
       v_rows = [], v_menu_off = True, bt_create_volume = dialog_initialize,
       bt_delete_volume = disableDialogButton dialog_initialize,
       bt_create_backup = disableDialogButton dialog_initialize,
       bt_attach_volume = dialog_initialize, bt_detach_volume = dialog_initialize\<rparr>)"

definition volume_refresh :: "vpanel \<Rightarrow> vpanel" where
  "volume_refresh p = panel_refresh ''/volumes/list/'' ''/volumes/show/'' p"

definition volume_updatePagenate :: "vpanel \<Rightarrow> vpanel" where
  "volume_updatePagenate p = panel_updatePagenate ''/volumes/list/'' ''/volumes/show/'' p"

definition volume_contentChange :: "int \<Rightarrow> (string \<times> string) list \<Rightarrow> vpanel \<Rightarrow> vpanel" where
  "volume_contentChange tot rows p = (panel_content tot (map fst rows) p)\<lparr>v_rows := rows\<rparr>"

definition volume_click_create :: "vpanel \<Rightarrow> vpanel option" where
  "volume_click_create p = map_option (\<lambda>d. p\<lparr>bt_create_volume := d\<rparr>) (click_create (bt_create_volume p))"

definition volume_click_delete :: "vpanel \<Rightarrow> vpanel" where
  "volume_click_delete p =
     p\<lparr>bt_delete_volume := click_target (getCheckedInstanceIds (pl_list p)) (bt_delete_volume p)\<rparr>"

definition volume_click_backup :: "vpanel \<Rightarrow> vpanel option" where
  "volume_click_backup p =
     map_option (\<lambda>d. p\<lparr>bt_create_backup := d\<rparr>)
       (click_target_submit_off (getCheckedInstanceIds (pl_list p)) (bt_create_backup p))"

text \<open>After a volume was deleted, the button is disabled and the list refreshed.\<close>

definition volume_deleted :: "vpanel \<Rightarrow> vpanel" where
  "volume_deleted p = volume_refresh (p\<lparr>bt_delete_volume := disableDialogButton (bt_delete_volume p)\<rparr>)"

section \<open>Subscriptions\<close>

datatype volume_target = V_Actions | V_Delete | V_Backup | V_Menu

definition volume_subscribe ::
  "(volume_target, unit, vpanel) notification \<Rightarrow> (volume_target, unit, vpanel) notification" where
  "volume_subscribe n =
     (let s1 = snd (subscribe ''checked_box'' V_Actions ''changeButtonState'' () n);
          s2 = snd (subscribe ''unchecked_box'' V_Actions ''changeButtonState'' () s1);
          s3 = snd (subscribe ''change_pagenate'' V_Delete ''disableDialogButton'' () s2);
          s4 = snd (subscribe ''change_pagenate'' V_Backup ''disableDialogButton'' () s3)
      in snd (subscribe ''change_pagenate'' V_Menu ''disableButton'' () s4))"

fun volume_call :: "(volume_target, unit, vpanel) calls" where
  "volume_call V_Actions m o1 p = (volume_changeButtonState p, [])"
| "volume_call V_Delete m o1 p = (p\<lparr>bt_delete_volume := disableDialogButton (bt_delete_volume p)\<rparr>, [])"
| "volume_call V_Backup m o1 p = (p\<lparr>bt_create_backup := disableDialogButton (bt_create_backup p)\<rparr>, [])"
| "volume_call V_Menu m o1 p = (p\<lparr>v_menu_off := True\<rparr>, [])"

text \<open>The topics that the pager, the dialogs and the list create before the panel subscribes.\<close>

definition panel_topics :: "('t, 'o, 's) notification \<Rightarrow> ('t, 'o, 's) notification" where
  "panel_topics n = fold create_topic
     [''change_pagenate'', ''checked_box'', ''unchecked_box'', ''checked_radio'', ''close_dialog''] n"

definition volume_bus :: "(volume_target, unit, vpanel) notification" where
  "volume_bus = volume_subscribe (panel_topics notification_init)"

lemma volume_bus_topics:
  "topics volume_bus ''checked_box'' =
     Some [\<lparr>target = V_Actions, method_name = ''changeButtonState'', options = (), sub_id = 1\<rparr>]"
  "topics volume_bus ''change_pagenate'' =
     Some [\<lparr>target = V_Delete, method_name = ''disableDialogButton'', options = (), sub_id = 3\<rparr>,
           \<lparr>target = V_Backup, method_name = ''disableDialogButton'', options = (), sub_id = 4\<rparr>,
           \<lparr>target = V_Menu, method_name = ''disableButton'', options = (), sub_id = 5\<rparr>]"
  "evaluation_list volume_bus = Map.empty"
  by (simp_all add: volume_bus_def volume_subscribe_def panel_topics_def bus_simps Let_def)

lemma volume_call_quiet: "quiet volume_call"
  unfolding quiet_def
proof (intro allI)
  fix t m o1 p show "snd (volume_call t m o1 p) = []" by (cases t) auto
qed

text \<open>
  the publications reach the panel: a click on a check box recomputes the buttons, and a page
  change disables delete, backup and the menu.
\<close>

theorem volume_topics_reach_buttons:
  "publish 5 volume_call volume_bus ''checked_box'' (i, p) = Some (1, volume_changeButtonState p)
   \<and> (\<exists>q. publish 5 volume_call volume_bus ''change_pagenate'' (i, p) = Some (3, q)
        \<and> volume_buttons q = (False, False, False))"
proof -
  have e: "evaluate sid volume_bus s" for sid s by (simp add: evaluate_def volume_bus_topics)
  show ?thesis
    using publish_quiet [OF volume_call_quiet volume_bus_topics(1), of 5 i p]
      publish_quiet [OF volume_call_quiet volume_bus_topics(2), of 5 i p]
    by (simp add: deliver_def e volume_buttons_def dialog_defs)
qed

definition volume_demo :: vpanel where
  "volume_demo = volume_init\<lparr>v_rows := [(''vol-1'', ''available''), (''vol-2'', ''deleting'')],
     pl_list := \<lparr>checked_list = [''vol-1'', ''vol-2''], boxes = [(''vol-1'', True), (''vol-2'', True)],
                 details = [], pending = []\<rparr>\<rparr>"

text \<open>The witness: an available and a deleting volume are checked, and both go to the attach dialog.\<close>

lemma volume_attach_looks_at_first_witness:
  "volume_buttons (volume_changeButtonState volume_demo) = (True, True, True)
   \<and> map_option (\<lambda>q. d_loads (bt_attach_volume q)) (volume_select ''attach_volume'' volume_demo)
       = Some [Some [''vol-1'', ''vol-2'']]"
proof -
  have b: "volume_buttons (volume_changeButtonState volume_demo) = (True, True, True)" by code_simp
  have r: "distinct (map fst (v_rows volume_demo))" by code_simp
  have c: "getCheckedInstanceIds (pl_list volume_demo) = ''vol-1'' # [''vol-2'']" by code_simp
  have p: "\<forall>j\<in>set [''vol-1'', ''vol-2'']. plain_id j" by (simp add: plain_id_def)
  have s: "row_state (v_rows volume_demo) ''vol-1'' = ''available''" by code_simp
  have d: "d_loads (bt_attach_volume volume_demo) = []" by code_simp
  show ?thesis using volume_attach_looks_at_first [OF r c p] b s d by simp
qed

section \<open>What the server reads\<close>

text \<open>
  the server reads from the requests of the update, delete, backup, attach and detach dialogs
  exactly the ids, in their order, and the texts of the fields, whatever characters they have.
\<close>

theorem volume_requests_read_back:
  "sent_fields (volume_update_request i nm) = (''PUT'', ''/volumes/'' @ i @ ''.json'', [(''display_name'', Some nm)])
   \<and> sent_fields (volume_delete_request ids) = (''DELETE'', ''/volumes'', map (\<lambda>i. (''ids%5B%5D'', Some i)) ids)
   \<and> sent_fields (volume_detach_request ids) = (''PUT'', ''/volumes/detach'', map (\<lambda>i. (''ids%5B%5D'', Some i)) ids)
   \<and> sent_fields (volume_backup_request ids dest nm) = (''PUT'', ''/volumes/backup'',
        map (\<lambda>i. (''ids%5B%5D'', Some i)) ids @ [(''destination'', Some dest), (''display_name'', Some nm)])
   \<and> sent_fields (volume_attach_request inst ids) = (''PUT'', ''/volumes/attach'',
        (''instance_id'', Some inst) # map (\<lambda>i. (''volume_ids%5B%5D'', Some i)) ids)"
proof -
  have k: "form_encode ''ids[]'' = ''ids%5B%5D''" "form_encode ''volume_ids[]'' = ''volume_ids%5B%5D''"
    "form_encode ''destination'' = ''destination''" "form_encode ''display_name'' = ''display_name''"
    "form_encode ''instance_id'' = ''instance_id''"
    by code_simp+
  have p: "plain_key ''display_name''" by (simp add: plain_key_def)
  show ?thesis
    unfolding volume_update_request_def volume_delete_request_def volume_detach_request_def
      volume_backup_request_def volume_attach_request_def sent_fields_simps read_jq_param
    by (simp add: read_encoded [OF p] k)
qed

lemma volume_create_request_reads:
  assumes "plain_value sz" "plain_value un" "sz \<noteq> ''''"
  shows "map_option sent_fields (volume_create_request nm sz un)
    = Some (''POST'', ''/volumes'', [(''size'', Some sz), (''unit'', Some un), (''display_name'', Some nm)])"
proof -
  have p: "plain_key ''display_name''" "plain_key ''size''" "plain_key ''unit''" by (simp_all add: plain_key_def)
  have q: "read_query (field ''size'' sz @ ''&'' @ field ''unit'' un @ ''&'' @ field ''display_name'' (encodeURIComponent nm))
      = [(''size'', Some sz), (''unit'', Some un), (''display_name'', Some nm)]"
    by (simp only: read_query_append read_encoded read_plain p assms) simp
  have "volume_create_request nm sz un = Some (request_post \<lparr>p_url = ''/volumes'',
      p_data = JStr (field ''size'' sz @ ''&'' @ field ''unit'' un @ ''&'' @ field ''display_name'' (encodeURIComponent nm)),
      p_async = JUndef\<rparr>)"
    using assms(3) by (simp add: volume_create_request_def)
  then show ?thesis by (simp only: option.map sent_fields_post q)
qed

end
