(* ===== verification/Panel_LoadBalancer.thy ===== *)
theory Panel_LoadBalancer
  imports Panel_Base
begin

text \<open>
  The load balancer panel, \<open>load_balancer_panel.js\<close>: the form of the create and edit dialogs
  with its dependent fields, the requests, the registration of instances, the active and standby
  modes, and the action menu.
\<close>

section \<open>The form\<close>

definition lb_fields :: "(string \<times> string) list" where
  "lb_fields = [(''display_name'', ''#display_name''), (''load_balancer_port'', ''#load_balancer_port''),
     (''instance_port'', ''#instance_port''), (''cookie_name'', ''#cookie_name''),
     (''public_key'', ''#public_key''), (''private_key'', ''#private_key'')]"

definition lb_change_fields :: "(string \<times> string) list" where
  "lb_change_fields = [(''display_name'', ''#display_name''), (''load_balancer_port'', ''#load_balancer_port''),
     (''instance_port'', ''#instance_port'')]"

definition lb_binds :: bindings where
  "lb_binds = text_binds lb_fields @ map (\<lambda>(name, sel). (sel, Change_input, CheckText name)) lb_change_fields"

definition lb_ready :: ready where
  "lb_ready f =
     (if is_ready f ''display_name'' = True \<and> is_ready f ''load_balancer_port'' = True \<and>
         is_ready f ''instance_port'' = True \<and> is_ready f ''cookie_name'' = True \<and>
         is_ready f ''private_key'' = True \<and> is_ready f ''public_key'' = True
      then disable_submit False f else disable_submit True f)"

definition lb_flags :: "string \<Rightarrow> bool" where
  "lb_flags = (\<lambda>_. False)(''cookie_name'' := True, ''private_key'' := True, ''public_key'' := True)"

text \<open>
  The text fields and flags, the fields that are disabled, the sticky session check box, the
  algorithm and protocol chosen, and the instance protocol shown.
\<close>

record lb_form =
  lf :: form
  off :: "string \<Rightarrow> bool"
  sticky :: bool
  algorithm :: string
  protocol :: string
  instance_protocol :: string

definition set_val :: "string \<Rightarrow> string \<Rightarrow> form \<Rightarrow> form" where
  "set_val sel t f = f\<lparr>vals := (vals f)(sel := t)\<rparr>"

text \<open>The \<open>change\<close> handlers of the algorithm, of the sticky box and of the protocol.\<close>

definition algorithm_change :: "string \<Rightarrow> lb_form \<Rightarrow> lb_form" where
  "algorithm_change v s0 =
     (let s = s0\<lparr>algorithm := v\<rparr> in
      if v = ''leastconn'' then s\<lparr>off := (off s)(''#use_sticky_session'' := False)\<rparr>
      else s\<lparr>off := (off s)(''#use_sticky_session'' := True, ''#cookie_name'' := True), sticky := False,
             lf := lb_ready (set_ready ''cookie_name'' True (set_val ''#cookie_name'' '''' (lf s)))\<rparr>)"

definition sticky_change :: "bool \<Rightarrow> lb_form \<Rightarrow> lb_form" where
  "sticky_change b s0 =
     (let s = s0\<lparr>sticky := b\<rparr> in
      if b then
        s\<lparr>off := (off s)(''#cookie_name'' := False),
          lf := (if vals (lf s) ''#cookie_name'' \<noteq> '''' then lb_ready (set_ready ''cookie_name'' True (lf s))
                 else lb_ready (set_ready ''cookie_name'' False (lf s)))\<rparr>
      else
        s\<lparr>off := (off s)(''#cookie_name'' := True),
          lf := lb_ready (set_ready ''cookie_name'' True (set_val ''#cookie_name'' '''' (lf s)))\<rparr>)"

definition change_instance_protocol :: "string \<Rightarrow> lb_form \<Rightarrow> lb_form" where
  "change_instance_protocol v s =
     (if v \<in> {''http'', ''https''} then s\<lparr>instance_protocol := ''http''\<rparr>
      else if v \<in> {''ssl'', ''tcp''} then s\<lparr>instance_protocol := ''tcp''\<rparr> else s)"

definition protocol_behavior :: "string \<Rightarrow> lb_form \<Rightarrow> lb_form" where
  "protocol_behavior v s =
     (if v \<in> {''http'', ''tcp''} then
        s\<lparr>off := (off s)(''#private_key'' := True, ''#public_key'' := True),
          lf := lb_ready (set_ready ''public_key'' True (set_ready ''private_key'' True
                  (set_val ''#public_key'' '''' (set_val ''#private_key'' '''' (lf s)))))\<rparr>
      else
        s\<lparr>off := (off s)(''#private_key'' := False, ''#public_key'' := False),
          lf := lb_ready (if vals (lf s) ''#private_key'' \<noteq> '''' \<and> vals (lf s) ''#public_key'' \<noteq> ''''
                  then set_ready ''public_key'' True (set_ready ''private_key'' True (lf s))
                  else set_ready ''public_key'' False (set_ready ''private_key'' False (lf s)))\<rparr>)"

definition protocol_change :: "string \<Rightarrow> lb_form \<Rightarrow> lb_form" where
  "protocol_change v s = protocol_behavior v (change_instance_protocol v (s\<lparr>protocol := v\<rparr>))"

text \<open>
  The callback of the dialog: the protocol's first handler runs, then every handler once for the
  values the page came with.
\<close>

definition lb_open :: "lb_form \<Rightarrow> lb_form" where
  "lb_open s0 =
     (let s = change_instance_protocol (protocol s0) (s0\<lparr>lf := (lf s0)\<lparr>is_ready := lb_flags\<rparr>\<rparr>);
          s1 = algorithm_change (algorithm s) s;
          s2 = sticky_change (sticky s1) s1;
          s3 = protocol_change (protocol s2) s2;
          s4 = s3\<lparr>lf := fire lb_binds lb_ready ''#display_name'' Change_input (lf s3)\<rparr>;
          s5 = s4\<lparr>lf := fire lb_binds lb_ready ''#load_balancer_port'' Change_input (lf s4)\<rparr>
      in s5\<lparr>lf := fire lb_binds lb_ready ''#instance_port'' Change_input (lf s5)\<rparr>)"

datatype lb_event = Text form_event | Blur string | Algorithm string | Sticky bool | Protocol string

fun lb_step :: "lb_event \<Rightarrow> lb_form \<Rightarrow> lb_form" where
  "lb_step (Text e) s = s\<lparr>lf := form_step lb_binds lb_ready e (lf s)\<rparr>"
| "lb_step (Blur sel) s = s\<lparr>lf := fire lb_binds lb_ready sel Change_input (lf s)\<rparr>"
| "lb_step (Algorithm v) s = algorithm_change v s"
| "lb_step (Sticky b) s = sticky_change b s"
| "lb_step (Protocol v) s = protocol_change v s"

text \<open>Nothing is typed into a disabled field, and a disabled box is not clicked.\<close>

fun text_enabled :: "form_event \<Rightarrow> lb_form \<Rightarrow> bool" where
  "text_enabled (Type sel t) s = (\<not> off s sel)"
| "text_enabled (Paste sel t) s = (\<not> off s sel)"
| "text_enabled (Cut sel t) s = (\<not> off s sel)"
| "text_enabled Timer s = True"

fun lb_enabled :: "lb_event \<Rightarrow> lb_form \<Rightarrow> bool" where
  "lb_enabled (Text e) s = text_enabled e s"
| "lb_enabled (Sticky b) s = (\<not> off s ''#use_sticky_session'')"
| "lb_enabled _ s = True"

definition lb_init :: "lb_form \<Rightarrow> bool" where
  "lb_init s = (\<exists>s0. timers (lf s0) = [] \<and> \<not> off s0 ''#display_name'' \<and> \<not> off s0 ''#load_balancer_port''
     \<and> \<not> off s0 ''#instance_port'' \<and> s = lb_open s0)"

section \<open>The form never lets an incomplete balancer through\<close>

interpretation lb_gate: form_gate lb_fields lb_ready
  by unfold_locales (auto simp: lb_fields_def lb_ready_def disable_submit_def)

text \<open>
  A flag that is set is right: its field has text, or is disabled, or a timer is pending for it.
  The button follows the flags.
\<close>

definition flags_sound :: "(string \<Rightarrow> bool) \<Rightarrow> form \<Rightarrow> bool" where
  "flags_sound offs f =
     ((\<forall>p\<in>set lb_fields. (snd p, CheckText (fst p)) \<in> set (timers f)
         \<or> \<not> is_ready f (fst p) \<or> vals f (snd p) \<noteq> '''' \<or> offs (snd p))
      \<and> (submit_disabled f \<longleftrightarrow> \<not> (\<forall>p\<in>set lb_fields. is_ready f (fst p)))
      \<and> (\<forall>t\<in>set (timers f). \<exists>p\<in>set lb_fields. t = (snd p, CheckText (fst p))))"

definition lb_inv :: "lb_form \<Rightarrow> bool" where
  "lb_inv s =
     (flags_sound (off s) (lf s)
      \<and> (protocol s \<notin> {''http'', ''tcp''} \<longrightarrow> \<not> off s ''#private_key'' \<and> \<not> off s ''#public_key'')
      \<and> (sticky s \<longrightarrow> \<not> off s ''#cookie_name'')
      \<and> \<not> off s ''#display_name'' \<and> \<not> off s ''#load_balancer_port'' \<and> \<not> off s ''#instance_port'')"

lemma fire_append: "fire (a @ b) ready sel ty f = fire b ready sel ty (fire a ready sel ty f)"
  by (simp add: fire_def)

lemma fire_lb_binds:
  assumes "ty \<noteq> Change_input"
  shows "fire lb_binds lb_ready sel ty f = fire (text_binds lb_fields) lb_ready sel ty f"
proof -
  have "fire (map (\<lambda>(name, sel). (sel, Change_input, CheckText name)) lb_change_fields) lb_ready sel ty g = g" for g
    using assms by (simp add: fire_def lb_change_fields_def)
  then show ?thesis by (simp add: lb_binds_def fire_append)
qed

lemma form_step_lb_binds:
  "form_step lb_binds lb_ready e f = form_step (text_binds lb_fields) lb_ready e f"
  by (cases e) (simp_all add: fire_lb_binds)

text \<open>The \<open>change\<close> of a text field reads it if it is one of the three that listen.\<close>

lemma fire_lb_change:
  "fire lb_binds lb_ready sel Change_input f =
     (if sel = ''#display_name'' then read_field_text lb_ready sel (CheckText ''display_name'') f
      else if sel = ''#load_balancer_port'' then read_field_text lb_ready sel (CheckText ''load_balancer_port'') f
      else if sel = ''#instance_port'' then read_field_text lb_ready sel (CheckText ''instance_port'') f else f)"
proof -
  have "fire (text_binds lb_fields) lb_ready sel Change_input f = f"
    by (simp add: fire_def text_binds_def lb_fields_def)
  then show ?thesis
    by (simp add: lb_binds_def fire_append) (simp add: fire_def lb_change_fields_def checkTextField_def)
qed

lemma lb_ready_frame [simp]:
  "vals (lb_ready f) = vals f" "is_ready (lb_ready f) = is_ready f" "timers (lb_ready f) = timers f"
  by (simp_all add: lb_ready_def disable_submit_def)

lemma lb_ready_submit:
  "submit_disabled (lb_ready f) \<longleftrightarrow> \<not> (\<forall>p\<in>set lb_fields. is_ready f (fst p))"
  by (simp add: lb_gate.ready_button)

text \<open>Reading a field makes its flag exact.\<close>

lemma flags_sound_read:
  assumes p: "p \<in> set lb_fields"
    and others: "\<forall>q\<in>set lb_fields. q \<noteq> p \<longrightarrow> (snd q, CheckText (fst q)) \<in> set (timers f)
         \<or> \<not> is_ready f (fst q) \<or> vals f (snd q) \<noteq> '''' \<or> offs (snd q)"
    and ts: "\<forall>t\<in>set (timers f). \<exists>p\<in>set lb_fields. t = (snd p, CheckText (fst p))"
  shows "flags_sound offs (read_field_text lb_ready (snd p) (CheckText (fst p)) f)"
  unfolding lb_gate.read_check flags_sound_def using others ts lb_gate.name_unique [OF _ p] by auto

lemma flags_sound_step:
  assumes "flags_sound offs f" and "case e of Timer \<Rightarrow> True | Type sel t \<Rightarrow> \<not> offs sel
      | Paste sel t \<Rightarrow> \<not> offs sel | Cut sel t \<Rightarrow> \<not> offs sel"
  shows "flags_sound offs (form_step (text_binds lb_fields) lb_ready e f)"
proof (cases e)
  case (Type sel new)
  let ?f = "f\<lparr>vals := (vals f)(sel := new)\<rparr>"
  show ?thesis
  proof (cases "sel \<in> snd ` set lb_fields")
    case True
    then obtain p where p: "p \<in> set lb_fields" "sel = snd p" by auto
    have "flags_sound offs (read_field_text lb_ready (snd p) (CheckText (fst p)) ?f)"
      using assms p lb_gate.sel_unique [OF _ p(1)] by (intro flags_sound_read) (auto simp: flags_sound_def)
    with Type p show ?thesis by (simp add: fire_field lb_gate.required_sel checkTextField_def)
  next
    case False
    with Type assms show ?thesis by (auto simp: fire_other flags_sound_def)
  qed
next
  case (Paste sel new)
  show ?thesis
  proof (cases "sel \<in> snd ` set lb_fields")
    case True
    then obtain p where p: "p \<in> set lb_fields" "sel = snd p" by auto
    with Paste assms lb_gate.sel_unique [OF _ p(1)] show ?thesis
      by (auto simp: fire_field lb_gate.required_sel checkTextField_def flags_sound_def)
  next
    case False
    with Paste assms show ?thesis by (auto simp: fire_other flags_sound_def)
  qed
next
  case (Cut sel new)
  show ?thesis
  proof (cases "sel \<in> snd ` set lb_fields")
    case True
    then obtain p where p: "p \<in> set lb_fields" "sel = snd p" by auto
    with Cut assms lb_gate.sel_unique [OF _ p(1)] show ?thesis
      by (auto simp: fire_field lb_gate.required_sel checkTextField_def flags_sound_def)
  next
    case False
    with Cut assms show ?thesis by (auto simp: fire_other flags_sound_def)
  qed
next
  case Timer
  show ?thesis
  proof (cases "timers f")
    case Nil
    with Timer assms show ?thesis by simp
  next
    case (Cons t ts)
    with assms obtain p where p: "p \<in> set lb_fields" "t = (snd p, CheckText (fst p))"
      by (auto simp: flags_sound_def)
    have "flags_sound offs (read_field_text lb_ready (snd p) (CheckText (fst p)) (f\<lparr>timers := ts\<rparr>))"
      using assms p Cons lb_gate.name_unique [OF _ p(1)] by (intro flags_sound_read) (auto simp: flags_sound_def)
    with Timer Cons p show ?thesis by simp
  qed
qed

lemma flags_sound_ready:
  assumes "\<forall>p\<in>set lb_fields. (snd p, CheckText (fst p)) \<in> set (timers f)
         \<or> \<not> is_ready f (fst p) \<or> vals f (snd p) \<noteq> '''' \<or> offs (snd p)"
    and "\<forall>t\<in>set (timers f). \<exists>p\<in>set lb_fields. t = (snd p, CheckText (fst p))"
  shows "flags_sound offs (lb_ready f)"
  using assms by (simp add: flags_sound_def lb_ready_submit)

lemma flags_sound_off:
  "flags_sound offs f \<Longrightarrow> \<forall>p\<in>set lb_fields. offs (snd p) \<longrightarrow> offs' (snd p) \<Longrightarrow> flags_sound offs' f"
  by (auto simp: flags_sound_def)

lemma flags_soundD:
  assumes "flags_sound offs f" "p \<in> set lb_fields"
  shows "(snd p, CheckText (fst p)) \<in> set (timers f) \<or> \<not> is_ready f (fst p) \<or> vals f (snd p) \<noteq> '''' \<or> offs (snd p)"
  using assms unfolding flags_sound_def by blast

text \<open>The three handlers, for a form that is sound in the fields that they do not set themselves.\<close>

definition sound_in :: "string list \<Rightarrow> (string \<Rightarrow> bool) \<Rightarrow> form \<Rightarrow> bool" where
  "sound_in names offs f =
     ((\<forall>p\<in>set lb_fields. fst p \<in> set names \<longrightarrow> (snd p, CheckText (fst p)) \<in> set (timers f)
         \<or> \<not> is_ready f (fst p) \<or> vals f (snd p) \<noteq> '''' \<or> offs (snd p))
      \<and> (\<forall>t\<in>set (timers f). \<exists>p\<in>set lb_fields. t = (snd p, CheckText (fst p))))"

definition texts :: "string list" where
  "texts = [''display_name'', ''load_balancer_port'', ''instance_port'']"

definition keys :: "string list" where
  "keys = [''private_key'', ''public_key'']"

lemma flags_sound_in: "flags_sound offs f \<Longrightarrow> sound_in names offs f"
  by (auto simp: flags_sound_def sound_in_def)

lemma sound_in_all: "sound_in (texts @ ''cookie_name'' # keys) offs f \<Longrightarrow> flags_sound offs (lb_ready f)"
  by (rule flags_sound_ready) (auto simp: sound_in_def lb_fields_def texts_def keys_def)

lemma sound_sticky:
  "sound_in (texts @ ns) (off s) (lf s) \<Longrightarrow> set ns \<subseteq> set keys \<Longrightarrow>
     sound_in (texts @ ''cookie_name'' # ns) (off (sticky_change b s)) (lf (sticky_change b s))"
  by (auto simp: sound_in_def sticky_change_def Let_def lb_fields_def texts_def keys_def set_ready_def set_val_def)

lemma sound_protocol:
  "sound_in (texts @ [''cookie_name'']) (off s) (lf s) \<Longrightarrow>
     sound_in (texts @ ''cookie_name'' # keys) (off (protocol_change v s)) (lf (protocol_change v s))"
  by (auto simp: sound_in_def protocol_change_def protocol_behavior_def change_instance_protocol_def Let_def
      lb_fields_def texts_def keys_def set_ready_def set_val_def)

lemma sound_algorithm:
  "sound_in names (off s) (lf s) \<Longrightarrow> sound_in names (off (algorithm_change v s)) (lf (algorithm_change v s))"
  by (auto simp: sound_in_def algorithm_change_def Let_def lb_fields_def set_ready_def set_val_def)

lemma lb_ready_idem [simp]: "lb_ready (lb_ready f) = lb_ready f"
  by (simp add: lb_gate.ready_button)

lemma handlers_end_ready:
  "lb_ready (lf (sticky_change b s)) = lf (sticky_change b s)"
  "lb_ready (lf (protocol_change v s)) = lf (protocol_change v s)"
  by (simp_all add: sticky_change_def protocol_change_def protocol_behavior_def Let_def)

lemma handlers_frame:
  "protocol (sticky_change b s) = protocol s" "protocol (algorithm_change v s) = protocol s"
  "protocol (protocol_change v s) = v"
  "sticky (sticky_change b s) = b" "sticky (protocol_change v s) = sticky s"
  "sticky (algorithm_change v s) = (sticky s \<and> v = ''leastconn'')"
  by (simp_all add: sticky_change_def algorithm_change_def protocol_change_def protocol_behavior_def
      change_instance_protocol_def Let_def)

lemma sticky_off: "off (sticky_change b s) = (off s)(''#cookie_name'' := \<not> b)"
  by (cases b) (simp_all add: sticky_change_def Let_def)

lemma algorithm_off:
  "off (algorithm_change v s) = (if v = ''leastconn'' then (off s)(''#use_sticky_session'' := False)
     else (off s)(''#use_sticky_session'' := True, ''#cookie_name'' := True))"
  by (cases "v = ''leastconn''") (simp_all add: algorithm_change_def Let_def)

lemma protocol_plain_off:
  "v \<in> {''http'', ''tcp''} \<Longrightarrow>
     off (protocol_behavior v t) = (off t)(''#private_key'' := True, ''#public_key'' := True)"
  unfolding protocol_behavior_def by (simp only: if_True) simp

lemma protocol_secure_off:
  "v \<notin> {''http'', ''tcp''} \<Longrightarrow>
     off (protocol_behavior v t) = (off t)(''#private_key'' := False, ''#public_key'' := False)"
  unfolding protocol_behavior_def by (simp only: if_False) simp

lemma protocol_off:
  "off (protocol_change v s) = (let c = v \<in> {''http'', ''tcp''} in (off s)(''#private_key'' := c, ''#public_key'' := c))"
proof -
  have o: "off (change_instance_protocol v t) = off t" for t by (simp add: change_instance_protocol_def)
  show ?thesis
  proof (cases "v \<in> {''http'', ''tcp''}")
    case True
    have "off (protocol_change v s) = (off s)(''#private_key'' := True, ''#public_key'' := True)"
      unfolding protocol_change_def protocol_plain_off [OF True] o by simp
    then show ?thesis unfolding Let_def using True by (simp only:)
  next
    case False
    have "off (protocol_change v s) = (off s)(''#private_key'' := False, ''#public_key'' := False)"
      unfolding protocol_change_def protocol_secure_off [OF False] o by simp
    then show ?thesis unfolding Let_def using False by (simp only:)
  qed
qed

lemmas handlers_off = sticky_off algorithm_off protocol_off

lemma lb_inv_sticky: "lb_inv s \<Longrightarrow> lb_inv (sticky_change b s)"
proof -
  assume inv: "lb_inv s"
  then have "sound_in (texts @ keys) (off s) (lf s)" by (auto simp: lb_inv_def intro: flags_sound_in)
  from sound_sticky [OF this] have "sound_in (texts @ ''cookie_name'' # keys) (off (sticky_change b s)) (lf (sticky_change b s))"
    by simp
  from sound_in_all [OF this] have "flags_sound (off (sticky_change b s)) (lf (sticky_change b s))"
    by (simp add: handlers_end_ready)
  with inv show ?thesis by (simp add: lb_inv_def handlers_frame handlers_off)
qed

lemma lb_inv_protocol: "lb_inv s \<Longrightarrow> lb_inv (protocol_change v s)"
proof -
  assume inv: "lb_inv s"
  then have "sound_in (texts @ [''cookie_name'']) (off s) (lf s)" by (auto simp: lb_inv_def intro: flags_sound_in)
  from sound_in_all [OF sound_protocol [OF this]]
  have "flags_sound (off (protocol_change v s)) (lf (protocol_change v s))"
    by (simp add: handlers_end_ready)
  with inv show ?thesis by (simp add: lb_inv_def handlers_frame handlers_off Let_def)
qed

lemma lb_inv_algorithm: "lb_inv s \<Longrightarrow> lb_inv (algorithm_change v s)"
proof -
  assume inv: "lb_inv s"
  have "flags_sound (off (algorithm_change v s)) (lf (algorithm_change v s))"
  proof (cases "v = ''leastconn''")
    case True
    then have "lf (algorithm_change v s) = lf s" by (simp add: algorithm_change_def)
    moreover have "flags_sound (off s) (lf s)" using inv by (simp add: lb_inv_def)
    then have "flags_sound (off (algorithm_change v s)) (lf s)"
      by (rule flags_sound_off) (simp add: algorithm_off True lb_fields_def)
    ultimately show ?thesis by simp
  next
    case False
    then have r: "lb_ready (lf (algorithm_change v s)) = lf (algorithm_change v s)"
      by (simp add: algorithm_change_def Let_def)
    have "sound_in (texts @ ''cookie_name'' # keys) (off s) (lf s)"
      using inv by (auto simp: lb_inv_def intro: flags_sound_in)
    from sound_in_all [OF sound_algorithm [OF this, of v]] show ?thesis by (simp only: r)
  qed
  with inv show ?thesis by (auto simp: lb_inv_def handlers_frame handlers_off)
qed

lemma lb_inv_blur: "lb_inv s \<Longrightarrow> lb_inv (lb_step (Blur sel) s)"
proof -
  assume inv: "lb_inv s"
  then have so: "flags_sound (off s) (lf s)" by (simp add: lb_inv_def)
  have r: "flags_sound (off s) (read_field_text lb_ready (snd p) (CheckText (fst p)) (lf s))"
    if "p \<in> set lb_fields" for p
    using that so by (intro flags_sound_read) (auto simp: flags_sound_def)
  have "flags_sound (off s) (fire lb_binds lb_ready sel Change_input (lf s))"
    using so r [of "(''display_name'', ''#display_name'')"]
      r [of "(''load_balancer_port'', ''#load_balancer_port'')"] r [of "(''instance_port'', ''#instance_port'')"]
    by (simp add: fire_lb_change lb_fields_def del: read_field_text.simps)
  with inv show ?thesis by (simp add: lb_inv_def)
qed

lemma lb_inv_text: "lb_inv s \<Longrightarrow> text_enabled e s \<Longrightarrow> lb_inv (lb_step (Text e) s)"
proof -
  assume inv: "lb_inv s" and en: "text_enabled e s"
  have "flags_sound (off s) (form_step (text_binds lb_fields) lb_ready e (lf s))"
    using inv en by (intro flags_sound_step) (auto simp: lb_inv_def split: form_event.splits)
  with inv show ?thesis by (simp add: lb_inv_def form_step_lb_binds)
qed

lemma lb_inv_open:
  assumes "timers (lf s0) = []" "\<not> off s0 ''#display_name''" "\<not> off s0 ''#load_balancer_port''"
    "\<not> off s0 ''#instance_port''"
  shows "lb_inv (lb_open s0)"
proof -
  define s where "s = change_instance_protocol (protocol s0) (s0\<lparr>lf := (lf s0)\<lparr>is_ready := lb_flags\<rparr>\<rparr>)"
  define s1 where "s1 = algorithm_change (algorithm s) s"
  define s2 where "s2 = sticky_change (sticky s1) s1"
  define s3 where "s3 = protocol_change (protocol s2) s2"
  have "lf s = (lf s0)\<lparr>is_ready := lb_flags\<rparr>" "off s = off s0"
    by (simp_all add: s_def change_instance_protocol_def)
  then have "sound_in (texts @ []) (off s) (lf s)"
    using assms(1) by (auto simp: sound_in_def texts_def lb_flags_def)
  then have "sound_in (texts @ []) (off s1) (lf s1)" unfolding s1_def by (rule sound_algorithm)
  then have "sound_in (texts @ ''cookie_name'' # []) (off s2) (lf s2)"
    unfolding s2_def by (rule sound_sticky) simp
  then have "sound_in (texts @ ''cookie_name'' # keys) (off s3) (lf s3)"
    unfolding s3_def by (intro sound_protocol) simp
  then have f: "flags_sound (off s3) (lf s3)"
    using sound_in_all handlers_end_ready(2) [of "protocol s2" s2] unfolding s3_def by metis
  have "lb_inv s3"
    using f assms \<open>off s = off s0\<close>
    by (auto simp: lb_inv_def s3_def s2_def s1_def handlers_frame handlers_off Let_def)
  then have "lb_inv (lb_step (Blur ''#instance_port'') (lb_step (Blur ''#load_balancer_port'')
      (lb_step (Blur ''#display_name'') s3)))"
    by (intro lb_inv_blur)
  then show ?thesis by (simp add: lb_open_def s_def s1_def s2_def s3_def Let_def)
qed

interpretation lb_machine: machine lb_init lb_enabled lb_step lb_inv
proof unfold_locales
  fix s show "lb_init s \<Longrightarrow> lb_inv s" using lb_inv_open by (auto simp: lb_init_def)
next
  fix s e assume "lb_inv s" "lb_enabled e s"
  then show "lb_inv (lb_step e s)"
    by (cases e) (auto simp del: lb_step.simps(1,2) intro: lb_inv_text lb_inv_blur lb_inv_sticky
        lb_inv_algorithm lb_inv_protocol)
qed

text \<open>
  C24: the form never lets an incomplete load balancer through. In every state it can get into,
  once the timers have fired, an enabled submit button means that the name and both ports have
  text, that with a secure protocol both keys have, and that with sticky sessions the cookie has
  a name.
\<close>

theorem lb_form_safe:
  assumes "reachable lb_init lb_enabled lb_step s" and "timers (lf s) = []" and "\<not> submit_disabled (lf s)"
  shows "vals (lf s) ''#display_name'' \<noteq> '''' \<and> vals (lf s) ''#load_balancer_port'' \<noteq> ''''
    \<and> vals (lf s) ''#instance_port'' \<noteq> ''''
    \<and> (protocol s \<in> {''http'', ''tcp''}
        \<or> (vals (lf s) ''#private_key'' \<noteq> '''' \<and> vals (lf s) ''#public_key'' \<noteq> ''''))
    \<and> (\<not> sticky s \<or> vals (lf s) ''#cookie_name'' \<noteq> '''')"
proof -
  have inv: "lb_inv s" using assms(1) by (rule lb_machine.reachable_inv)
  have flags: "\<forall>p\<in>set lb_fields. is_ready (lf s) (fst p)"
    using inv assms(3) by (simp add: lb_inv_def flags_sound_def)
  have v: "vals (lf s) (snd p) \<noteq> '''' \<or> off s (snd p)" if "p \<in> set lb_fields" for p
    using inv flags that assms(2) flags_soundD [of "off s" "lf s" p] by (auto simp: lb_inv_def)
  show ?thesis
    using inv v [of "(''display_name'', ''#display_name'')"] v [of "(''instance_port'', ''#instance_port'')"]
      v [of "(''load_balancer_port'', ''#load_balancer_port'')"] v [of "(''cookie_name'', ''#cookie_name'')"]
      v [of "(''public_key'', ''#public_key'')"] v [of "(''private_key'', ''#private_key'')"]
    by (auto simp: lb_inv_def lb_fields_def)
qed

definition lb_page :: lb_form where
  "lb_page = \<lparr>lf = form_empty, off = \<lambda>_. False, sticky = False, algorithm = ''leastconn'',
     protocol = ''http'', instance_protocol = ''''\<rparr>"

definition lb_fill :: "lb_event list" where
  "lb_fill = [Text (Type ''#display_name'' ''web''), Text (Type ''#load_balancer_port'' ''443''),
     Text (Type ''#instance_port'' ''80''), Protocol ''https'', Text (Type ''#private_key'' ''k''),
     Text (Type ''#public_key'' ''c'')]"

lemma lb_form_safe_witness:
  "\<not> submit_disabled (lf (fold lb_step lb_fill (lb_open lb_page)))
   \<and> vals (lf (fold lb_step lb_fill (lb_open lb_page))) ''#display_name'' \<noteq> ''''"
proof -
  have i: "lb_init (lb_open lb_page)"
    unfolding lb_init_def by (rule exI [of _ lb_page]) (simp add: lb_page_def form_empty_def)
  have "all_enabled lb_enabled lb_step lb_fill (lb_open lb_page)" by code_simp
  with i have r: "reachable lb_init lb_enabled lb_step (fold lb_step lb_fill (lb_open lb_page))"
    by (intro lb_machine.run_reachable reach_init)
  have t: "timers (lf (fold lb_step lb_fill (lb_open lb_page))) = []"
    and b: "\<not> submit_disabled (lf (fold lb_step lb_fill (lb_open lb_page)))" by code_simp+
  show ?thesis using lb_form_safe [OF r t b] b by simp
qed

text \<open>
  but it can keep a complete one out. When the protocol is changed while only the private key
  has text, both key flags are cleared; typing the public key afterwards sets its own flag only,
  so the button stays disabled although every field is filled in.
\<close>

theorem lb_keys_stuck:
  assumes "v \<notin> {''http'', ''tcp''}" and "vals (lf s) ''#private_key'' \<noteq> ''''"
    and "vals (lf s) ''#public_key'' = ''''"
  shows "let q = lb_step (Text (Type ''#public_key'' t)) (lb_step (Protocol v) s) in
     submit_disabled (lf q) \<and> vals (lf q) ''#public_key'' = t
     \<and> (\<forall>sel. sel \<noteq> ''#public_key'' \<longrightarrow> vals (lf q) sel = vals (lf s) sel)"
proof -
  let ?q = "protocol_change v s"
  have p: "(''public_key'', ''#public_key'') \<in> set lb_fields" by (simp add: lb_fields_def)
  have q: "is_ready (lf ?q) ''private_key'' = False" "vals (lf ?q) = vals (lf s)"
    using assms by (auto simp: protocol_change_def protocol_behavior_def change_instance_protocol_def set_ready_def)
  have f: "fire (text_binds lb_fields) lb_ready ''#public_key'' Keyup g
      = checkTextField lb_ready ''#public_key'' ''public_key'' Keyup g" for g
    using fire_field [OF p lb_gate.required_sel, where ty = Keyup and f = g and ready = lb_ready] by simp
  have e: "lf (lb_step (Text (Type ''#public_key'' t)) (lb_step (Protocol v) s))
      = read_field_text lb_ready ''#public_key'' (CheckText ''public_key'')
          ((lf ?q)\<lparr>vals := (vals (lf s))(''#public_key'' := t)\<rparr>)"
    by (simp add: fire_lb_binds f checkTextField_def q del: read_field_text.simps)
  have "(''private_key'', ''#private_key'') \<in> set lb_fields" by (simp add: lb_fields_def)
  then show ?thesis unfolding Let_def e lb_gate.read_check using q by force
qed

definition lb_demo_events :: "lb_event list" where
  "lb_demo_events = [Text (Type ''#display_name'' ''web''), Text (Type ''#load_balancer_port'' ''443''),
     Text (Type ''#instance_port'' ''80''), Protocol ''https'', Text (Type ''#private_key'' ''k'')]"

lemma lb_keys_stuck_witness:
  "submit_disabled (lf (lb_step (Text (Type ''#public_key'' ''c''))
     (lb_step (Protocol ''ssl'') (fold lb_step lb_demo_events (lb_open lb_page)))))"
proof -
  have v: "vals (lf (fold lb_step lb_demo_events (lb_open lb_page))) ''#private_key'' \<noteq> ''''"
    "vals (lf (fold lb_step lb_demo_events (lb_open lb_page))) ''#public_key'' = ''''" by code_simp+
  show ?thesis using lb_keys_stuck [of "''ssl''", OF _ v, of "''c''"] by (simp add: Let_def)
qed

section \<open>Requests\<close>

record lb_values =
  lv_name :: string
  lv_description :: string
  lv_protocol :: string
  lv_port :: string
  lv_instance_protocol :: string
  lv_instance_port :: string
  lv_public_key :: string
  lv_private_key :: string
  lv_algorithm :: string
  lv_cookie_name :: string

definition lb_data :: "lb_values \<Rightarrow> string" where
  "lb_data v =
     field ''display_name'' (encodeURIComponent (lv_name v))
     @ ''&'' @ field ''description'' (encodeURIComponent (lv_description v))
     @ ''&'' @ field ''load_balancer_protocol'' (lv_protocol v)
     @ ''&'' @ field ''load_balancer_port'' (lv_port v)
     @ ''&'' @ field ''instance_protocol'' (lv_instance_protocol v)
     @ ''&'' @ field ''instance_port'' (lv_instance_port v)
     @ ''&'' @ field ''balance_algorithm'' (lv_algorithm v)
     @ ''&'' @ field ''private_key'' (encodeURIComponent (lv_private_key v))
     @ ''&'' @ field ''public_key'' (encodeURIComponent (lv_public_key v))
     @ ''&'' @ field ''cookie_name'' (lv_cookie_name v)"

definition lb_update_request :: "string option \<Rightarrow> lb_values \<Rightarrow> ajax_settings" where
  "lb_update_request checked v =
     request_put \<lparr>p_url = ''/load_balancers/'' @ to_str (case checked of Some i \<Rightarrow> JStr i | None \<Rightarrow> JNull) @ ''.json'',
       p_data = JStr (lb_data v), p_async = JUndef\<rparr>"

definition lb_create_request :: "lb_values \<Rightarrow> ajax_settings" where
  "lb_create_request v = request_post \<lparr>p_url = ''/load_balancers'', p_data = JStr (lb_data v), p_async = JUndef\<rparr>"

definition lb_delete_request :: "string \<Rightarrow> ajax_settings" where
  "lb_delete_request i =
     request_del \<lparr>p_url = ''/load_balancers/'' @ i @ ''.json'', p_data = JUndef, p_async = JUndef\<rparr>"

definition lb_vifs_data :: "string \<Rightarrow> string list \<Rightarrow> string" where
  "lb_vifs_data i vifs =
     field ''load_balancer_id'' i @ ''&'' @ join ''&'' (map (\<lambda>w. field ''vifs[]'' w) vifs)"

definition lb_register_request :: "string \<Rightarrow> string list \<Rightarrow> ajax_settings" where
  "lb_register_request i vifs =
     request_put \<lparr>p_url = ''/load_balancers/register_instances'', p_data = JStr (lb_vifs_data i vifs), p_async = JUndef\<rparr>"

definition lb_unregister_request :: "string \<Rightarrow> string list \<Rightarrow> ajax_settings" where
  "lb_unregister_request i vifs =
     request_put \<lparr>p_url = ''/load_balancers/unregister_instances'', p_data = JStr (lb_vifs_data i vifs), p_async = JUndef\<rparr>"

definition lb_power_request :: "string \<Rightarrow> string \<Rightarrow> ajax_settings" where
  "lb_power_request what i =
     request_put \<lparr>p_url = ''/load_balancers/'' @ what @ ''/'' @ i, p_data = JUndef, p_async = JUndef\<rparr>"

lemma lb_keys_plain:
  "plain_key ''display_name''" "plain_key ''description''" "plain_key ''load_balancer_protocol''"
  "plain_key ''load_balancer_port''" "plain_key ''instance_protocol''" "plain_key ''instance_port''"
  "plain_key ''balance_algorithm''" "plain_key ''private_key''" "plain_key ''public_key''"
  "plain_key ''cookie_name''" "plain_key ''load_balancer_id''" "plain_key ''vifs[]''"
  by (simp_all add: plain_key_def)

text \<open>
  the server reads from the create request what the form holds: name, description and keys
  whatever they contain, the rest as long as it needs no escaping.
\<close>

theorem lb_data_roundtrip:
  assumes "\<forall>x\<in>set [lv_protocol v, lv_port v, lv_instance_protocol v, lv_instance_port v, lv_algorithm v,
      lv_cookie_name v]. plain_value x"
  shows "sent_fields (lb_create_request v) = (''POST'', ''/load_balancers'',
     [(''display_name'', Some (lv_name v)), (''description'', Some (lv_description v)),
      (''load_balancer_protocol'', Some (lv_protocol v)), (''load_balancer_port'', Some (lv_port v)),
      (''instance_protocol'', Some (lv_instance_protocol v)), (''instance_port'', Some (lv_instance_port v)),
      (''balance_algorithm'', Some (lv_algorithm v)), (''private_key'', Some (lv_private_key v)),
      (''public_key'', Some (lv_public_key v)), (''cookie_name'', Some (lv_cookie_name v))])"
proof -
  have p: "plain_value (lv_protocol v)" "plain_value (lv_port v)" "plain_value (lv_instance_protocol v)"
    "plain_value (lv_instance_port v)" "plain_value (lv_algorithm v)" "plain_value (lv_cookie_name v)"
    using assms by simp_all
  show ?thesis
    unfolding lb_create_request_def sent_fields_simps lb_data_def
    by (simp only: read_query_append read_encoded read_plain lb_keys_plain p) simp
qed

definition lb_values_demo :: lb_values where
  "lb_values_demo = \<lparr>lv_name = ''a&b=c'', lv_description = ''50% + more'', lv_protocol = ''https'', lv_port = ''443'',
     lv_instance_protocol = ''http'', lv_instance_port = ''80'', lv_public_key = ''x+y'', lv_private_key = ''z'',
     lv_algorithm = ''leastconn'', lv_cookie_name = ''sid''\<rparr>"

lemma lb_data_roundtrip_witness:
  "(''display_name'', Some ''a&b=c'') \<in> set (snd (snd (sent_fields (lb_create_request lb_values_demo))))"
proof -
  have p: "\<forall>x\<in>set [lv_protocol lb_values_demo, lv_port lb_values_demo, lv_instance_protocol lb_values_demo,
      lv_instance_port lb_values_demo, lv_algorithm lb_values_demo, lv_cookie_name lb_values_demo]. plain_value x"
    by (simp add: lb_values_demo_def plain_value_def)
  show ?thesis using lb_data_roundtrip [OF p] by (simp add: lb_values_demo_def)
qed

section \<open>Which instances can be registered\<close>

record lb_instance =
  li_id :: string
  li_name :: string
  li_vifs :: "string list"

definition lb_items :: "lb_instance list \<Rightarrow> item list" where
  "lb_items is = map (\<lambda>i. \<lparr>item_id = li_id i, item_name = li_name i, item_value = hd (li_vifs i), item_selected = False\<rparr>)
     (filter (\<lambda>i. length (li_vifs i) > 0) is)"

definition registerable :: "string list \<Rightarrow> lb_instance list \<Rightarrow> item list" where
  "registerable registered is = lb_items (filter (\<lambda>i. \<not> (li_id i \<in> set registered)) is)"

definition unregisterable :: "string list \<Rightarrow> lb_instance list \<Rightarrow> item list" where
  "unregisterable registered is = lb_items (filter (\<lambda>i. li_id i \<in> set registered) is)"

text \<open>The gate of the two dialogs: the submit button follows the right column of the chooser.\<close>

definition vifs_ready :: "selector \<Rightarrow> bool" where
  "vifs_ready s = (getRightSelectionCount s > 0)"

lemma register_lists_partition:
  "set (map item_id (registerable rs is)) \<inter> set (map item_id (unregisterable rs is)) = {}"
  "set (registerable rs is) \<union> set (unregisterable rs is) = set (lb_items is)"
  by (auto simp: registerable_def unregisterable_def lb_items_def)

section \<open>Active and standby\<close>

text \<open>
  The table has one row per registered interface, with an active and a standby radio button. The
  modes come from the server; the update reads, for the \<open>k\<close>-th button that is on, the interface
  of row \<open>k\<close>. A row is its interface and the class of its button that is on.
\<close>

definition mode_of :: "string \<Rightarrow> string option" where
  "mode_of fallback_mode =
     (if fallback_mode = ''on'' then Some ''standby'' else if fallback_mode = ''off'' then Some ''active'' else None)"

definition mode_rows :: "(string \<times> string) list \<Rightarrow> (string \<times> string option) list" where
  "mode_rows vifs = map (\<lambda>(vif, fb). (vif, mode_of fb)) vifs"

definition fallback_of :: "string \<Rightarrow> string" where
  "fallback_of cls = (if cls = ''active'' then ''off'' else if cls = ''standby'' then ''on'' else ''undefined'')"

definition mode_update_fields :: "(string \<times> string option) list \<Rightarrow> (string \<times> string) list" where
  "mode_update_fields rows =
     (let checked = List.map_filter snd rows in
      map (\<lambda>k. (case nth_opt rows k of Some (vif, _) \<Rightarrow> vif | None \<Rightarrow> ''undefined'', fallback_of (checked ! k)))
        [0..<length checked])"

definition mode_update_request :: "string \<Rightarrow> (string \<times> string option) list \<Rightarrow> ajax_settings" where
  "mode_update_request i rows =
     request_put \<lparr>p_url = ''/load_balancers/'' @ i @ ''.json'',
       p_data = JStr (join ''&'' (concat (map (\<lambda>(vif, fb).
          [field ''target_vifs[][network_vif_id]'' vif, field ''target_vifs[][fallback_mode]'' fb])
          (mode_update_fields rows)))), p_async = JUndef\<rparr>"

lemma map_filter_all_some:
  "list_all (\<lambda>r. snd r \<noteq> None) rows \<Longrightarrow> List.map_filter snd rows = map (the \<circ> snd) rows"
  by (induction rows) (auto simp: List.map_filter_simps split: option.splits)

text \<open>
  with every row switched to active or standby, the update gives every interface its own mode;
  so saving the modes as they came from the server changes nothing.
\<close>

theorem modes_unchanged:
  assumes "\<forall>p\<in>set vifs. snd p \<in> {''on'', ''off''}"
  shows "mode_update_fields (mode_rows vifs) = vifs"
proof -
  have s: "list_all (\<lambda>r. snd r \<noteq> None) (mode_rows vifs)"
    using assms by (auto simp: mode_rows_def mode_of_def list_all_iff)
  have f: "fallback_of (the (mode_of (snd p))) = snd p" if "p \<in> set vifs" for p
    using assms that by (auto simp: mode_of_def fallback_of_def)
  have l: "length (map (the \<circ> snd) (mode_rows vifs)) = length vifs" by (simp add: mode_rows_def)
  show ?thesis
    unfolding mode_update_fields_def map_filter_all_some [OF s] Let_def l
  proof (rule nth_equalityI)
    fix k assume "k < length (map (\<lambda>k. (case nth_opt (mode_rows vifs) k of Some (vif, _) \<Rightarrow> vif | None \<Rightarrow> ''undefined'',
        fallback_of (map (the \<circ> snd) (mode_rows vifs) ! k))) [0..<length vifs])"
    then have k: "k < length vifs" by simp
    then show "map (\<lambda>k. (case nth_opt (mode_rows vifs) k of Some (vif, _) \<Rightarrow> vif | None \<Rightarrow> ''undefined'',
        fallback_of (map (the \<circ> snd) (mode_rows vifs) ! k))) [0..<length vifs] ! k = vifs ! k"
      using f [of "vifs ! k"] by (simp add: mode_rows_def nth_opt_def case_prod_beta)
  qed simp
qed

lemma modes_unchanged_witness:
  "mode_update_fields (mode_rows [(''vif-1'', ''on''), (''vif-2'', ''off'')]) = [(''vif-1'', ''on''), (''vif-2'', ''off'')]"
  by (rule modes_unchanged) simp

text \<open>A row with neither button on shifts the modes of the rows after it.\<close>

lemma modes_shifted:
  "mode_update_fields [(''vif-1'', None), (''vif-2'', Some ''standby'')] = [(''vif-1'', ''on'')]"
  by code_simp

section \<open>The action menu and the buttons\<close>

record lpanel =
  l_radio :: rlist
  l_rows :: "(string \<times> string) list"
  l_menu_off :: bool
  bt_register :: dialog
  bt_unregister :: dialog
  bt_delete_lb :: dialog
  bt_poweron_lb :: dialog
  bt_poweroff_lb :: dialog
  bt_active_standby :: dialog

definition checked_text :: "lpanel \<Rightarrow> string" where
  "checked_text p = to_str (case currentChecked (l_radio p) of Some i \<Rightarrow> JStr i | None \<Rightarrow> JNull)"

definition lb_state :: "lpanel \<Rightarrow> string" where
  "lb_state p = state_text (l_rows p) (''#row-'' @ checked_text p)"

definition lb_select :: "string \<Rightarrow> lpanel \<Rightarrow> lpanel" where
  "lb_select action p =
     (let ids = Some [checked_text p]; state = lb_state p in
      if action = ''register'' then
        (if state = ''running'' then p\<lparr>bt_register := dialog_open ids (bt_register p)\<rparr> else p)
      else if action = ''unregister'' then
        (if state = ''running'' then p\<lparr>bt_unregister := dialog_open ids (bt_unregister p)\<rparr> else p)
      else if action = ''delete'' then p\<lparr>bt_delete_lb := dialog_open ids (bt_delete_lb p)\<rparr>
      else if action = ''poweron'' then
        (if state = ''halted'' then p\<lparr>bt_poweron_lb := dialog_open ids (bt_poweron_lb p)\<rparr> else p)
      else if action = ''poweroff'' then
        (if state = ''running'' then p\<lparr>bt_poweroff_lb := dialog_open ids (bt_poweroff_lb p)\<rparr> else p)
      else if action = ''active_standby'' then
        (if state = ''running'' then p\<lparr>bt_active_standby := dialog_open ids (bt_active_standby p)\<rparr> else p)
      else p)"

definition lb_button_state :: "string \<Rightarrow> lpanel \<Rightarrow> lpanel" where
  "lb_button_state state p =
     (if state \<in> {''running'', ''halted''}
      then p\<lparr>bt_delete_lb := enableDialogButton (bt_delete_lb p), l_menu_off := False\<rparr>
      else p\<lparr>bt_delete_lb := disableDialogButton (bt_delete_lb p), l_menu_off := True\<rparr>)"

definition lb_changeButtonState :: "lpanel \<Rightarrow> lpanel" where
  "lb_changeButtonState p = lb_button_state (lb_state p) p"

definition lb_buttons :: "lpanel \<Rightarrow> bool \<times> bool" where
  "lb_buttons p = (\<not> target_off (bt_delete_lb p), \<not> l_menu_off p)"

interpretation lb_table: button_table "\<lambda>states. lb_button_state (hd states)" lb_buttons
  "\<lambda>states. (hd states \<in> {''running'', ''halted''}, hd states \<in> {''running'', ''halted''})"
  by unfold_locales (simp add: lb_button_state_def lb_buttons_def dialog_defs)

definition lb_edit_enabled :: "string \<Rightarrow> string \<Rightarrow> bool" where
  "lb_edit_enabled uuid state = (uuid \<noteq> '''' \<and> state = ''running'')"

text \<open>The list content is drawn anew: no radio button is on any more.\<close>

definition lb_contentChange :: "(string \<times> string) list \<Rightarrow> lpanel \<Rightarrow> lpanel" where
  "lb_contentChange rows p = p\<lparr>l_rows := rows, l_radio := (l_radio p)\<lparr>radio := None\<rparr>\<rparr>"

text \<open>
  the content of a refresh switches the radio buttons off but leaves the menu enabled, for no
  topic is published. With nothing chosen, all actions of the menu do nothing except delete, which
  opens its dialog for the balancer \<open>null\<close>.
\<close>

theorem lb_menu_after_refresh:
  assumes "lb_buttons p = (True, True)" and "''null'' \<notin> fst ` set rows"
  shows "let q = lb_contentChange rows p in
     lb_buttons q = (True, True)
     \<and> \<not> (\<exists>a\<in>{''register'', ''unregister'', ''poweron'', ''poweroff'', ''active_standby''}. lb_select a q \<noteq> q)
     \<and> d_loads (bt_delete_lb (lb_select ''delete'' q)) = d_loads (bt_delete_lb p) @ [Some [''null'']]"
proof -
  let ?q = "lb_contentChange rows p"
  have c: "checked_text ?q = ''null''" by (simp add: checked_text_def lb_contentChange_def currentChecked_def)
  have "split_on (CHR '','') ''#row-null'' = [''#row-null'']" by code_simp
  then have f: "filter (\<lambda>(i, st). list_ex (\<lambda>part. matches_row part i) (split_on (CHR '','') (''#row-'' @ ''null''))) rows = []"
    using assms(2) by (force simp: filter_empty_conv matches_row_def)
  have r: "l_rows ?q = rows" by (simp add: lb_contentChange_def)
  have s: "lb_state ?q = ''''"
    unfolding lb_state_def c r state_text_def f by simp
  have d: "bt_delete_lb ?q = bt_delete_lb p" "l_menu_off ?q = l_menu_off p"
    by (simp_all add: lb_contentChange_def)
  have b: "lb_buttons ?q = (True, True)" using assms(1) d by (simp add: lb_buttons_def)
  show ?thesis using b by (simp add: lb_select_def s c d Let_def dialog_open_def dialog_create_def)
qed

definition lb_panel_demo :: lpanel where
  "lb_panel_demo = lb_changeButtonState \<lparr>l_radio = \<lparr>radio = Some ''lb-1'', shown_detail = None, r_pending = []\<rparr>,
     l_rows = [(''lb-1'', ''running'')], l_menu_off = True, bt_register = dialog_initialize,
     bt_unregister = dialog_initialize, bt_delete_lb = disableDialogButton dialog_initialize,
     bt_poweron_lb = dialog_initialize, bt_poweroff_lb = dialog_initialize, bt_active_standby = dialog_initialize\<rparr>"

lemma lb_menu_after_refresh_witness:
  "d_loads (bt_delete_lb (lb_select ''delete'' (lb_contentChange [(''lb-1'', ''running'')] lb_panel_demo)))
     = [Some [''null'']]"
proof -
  have b: "lb_buttons lb_panel_demo = (True, True)" by code_simp
  have l: "d_loads (bt_delete_lb lb_panel_demo) = []" by code_simp
  show ?thesis using lb_menu_after_refresh [OF b, of "[(''lb-1'', ''running'')]"] l by (simp add: Let_def)
qed

section \<open>The panel\<close>

definition lb_list_path :: string where
  "lb_list_path = ''/load_balancers/list/''"

text \<open>The refresh: the list is asked for, and the detail of the balancer chosen is removed.\<close>

definition lb_refresh :: "pagenate \<Rightarrow> lpanel \<Rightarrow> ajax_settings \<times> lpanel" where
  "lb_refresh pg p =
     (request_get \<lparr>p_url = getPagePath lb_list_path (page_text pg) JUndef,
        p_data = JStr (getPagenateData (num_val (start pg)) (JNum (row pg))), p_async = JUndef\<rparr>,
      p\<lparr>l_radio := (l_radio p)\<lparr>shown_detail :=
          (if shown_detail (l_radio p) = Some (checked_text p) then None else shown_detail (l_radio p))\<rparr>\<rparr>)"

definition lb_updatePagenate :: "pagenate \<Rightarrow> lpanel \<Rightarrow> ajax_settings \<times> lpanel" where
  "lb_updatePagenate pg p = lb_refresh pg (p\<lparr>l_radio := (l_radio p)\<lparr>shown_detail := None\<rparr>\<rparr>)"

end
