(* ===== verification/Panel_Radio.thy ===== *)
theory Panel_Radio
  imports Panel_Base
begin

text \<open>
  The panels whose rows have radio buttons: what \<open>sshkeypair_panel.js\<close>,
  \<open>security_group_panel.js\<close> and \<open>image_panel.js\<close> share, then the ssh key pair and the security
  group panels, each with a create, an edit and a delete dialog.
\<close>

section \<open>A list with radio buttons\<close>

record rpanel =
  rp_pager :: pagenate
  rp_list :: rlist
  rp_url :: string
  rp_data :: string
  rp_sent :: "ajax_settings list"

definition rpanel_send :: "ajax_settings \<Rightarrow> 'a rpanel_scheme \<Rightarrow> 'a rpanel_scheme" where
  "rpanel_send r p = p\<lparr>rp_sent := rp_sent p @ [r]\<rparr>"

text \<open>The id of the chosen row in a selector: \<open>null\<close> becomes a text there.\<close>

definition check_id :: "rlist \<Rightarrow> string" where
  "check_id r = to_str (case currentChecked r of Some i \<Rightarrow> JStr i | None \<Rightarrow> JNull)"

definition remove_detail :: "rlist \<Rightarrow> rlist" where
  "remove_detail r = r\<lparr>shown_detail := (if shown_detail r = Some (check_id r) then None else shown_detail r)\<rparr>"

text \<open>
  The refresh handler: the page and the rows to ask for are read from the pager, the list is asked
  for, the detail of the chosen row goes; \<open>off\<close> is what the panel disables in the end.
\<close>

definition rpanel_refresh ::
  "string \<Rightarrow> ('a rpanel_scheme \<Rightarrow> 'a rpanel_scheme) \<Rightarrow> 'a rpanel_scheme \<Rightarrow> 'a rpanel_scheme" where
  "rpanel_refresh list_path off p =
     (let pg = rp_pager p;
          p1 = p\<lparr>rp_url := getPagePath list_path (page_text pg) JUndef,
                 rp_data := getPagenateData (num_val (start pg)) (JNum (row pg))\<rparr>;
          p2 = rpanel_send (request_get \<lparr>p_url = rp_url p1, p_data = JStr (rp_data p1), p_async = JUndef\<rparr>) p1
      in off (p2\<lparr>rp_list := remove_detail (rp_list p2)\<rparr>))"

definition rpanel_updatePagenate ::
  "string \<Rightarrow> ('a rpanel_scheme \<Rightarrow> 'a rpanel_scheme) \<Rightarrow> 'a rpanel_scheme \<Rightarrow> 'a rpanel_scheme" where
  "rpanel_updatePagenate list_path off p =
     rpanel_refresh list_path off (p\<lparr>rp_list := (rp_list p)\<lparr>shown_detail := None\<rparr>\<rparr>)"

text \<open>The answer: the new total for the pager, and rows whose radio buttons are all off.\<close>

definition rpanel_content :: "int \<Rightarrow> 'a rpanel_scheme \<Rightarrow> 'a rpanel_scheme" where
  "rpanel_content tot p =
     p\<lparr>rp_pager := changeTotal tot (rp_pager p), rp_list := (rp_list p)\<lparr>radio := None\<rparr>\<rparr>"

definition rpanel_init :: "string \<Rightarrow> int \<Rightarrow> int \<Rightarrow> rpanel" where
  "rpanel_init list_path maxrow page =
     (let p = \<lparr>rp_pager = pagenate_initialize 0 maxrow,
               rp_list = \<lparr>radio = None, shown_detail = None, r_pending = []\<rparr>,
               rp_url = getPagePath list_path (to_str (JNum page)) JUndef,
               rp_data = getPagenateData (JNum page) (JNum maxrow), rp_sent = []\<rparr>
      in rpanel_send (request_get \<lparr>p_url = rp_url p, p_data = JStr (rp_data p), p_async = JUndef\<rparr>) p)"

lemmas rpanel_defs = rpanel_send_def remove_detail_def rpanel_refresh_def rpanel_updatePagenate_def
  rpanel_content_def rpanel_init_def

section \<open>A panel with a create, an edit and a delete dialog\<close>

text \<open>\<open>s_rows\<close> holds the ids of the rows that the table shows.\<close>

record spanel = rpanel +
  s_rows :: "string list"
  bt_create :: dialog
  bt_edit :: dialog
  bt_delete :: dialog

definition single_off :: "spanel \<Rightarrow> spanel" where
  "single_off p = p\<lparr>bt_delete := disableDialogButton (bt_delete p)\<rparr>"

definition single_on :: "spanel \<Rightarrow> spanel" where
  "single_on p = p\<lparr>bt_delete := enableDialogButton (bt_delete p)\<rparr>"

definition single_refresh :: "string \<Rightarrow> spanel \<Rightarrow> spanel" where
  "single_refresh list_path p = rpanel_refresh list_path single_off p"

definition single_updatePagenate :: "string \<Rightarrow> spanel \<Rightarrow> spanel" where
  "single_updatePagenate list_path p = rpanel_updatePagenate list_path single_off p"

text \<open>The content draws the rows and makes a new edit dialog for them.\<close>

definition single_contentChange :: "int \<Rightarrow> string list \<Rightarrow> spanel \<Rightarrow> spanel" where
  "single_contentChange tot ids p =
     (rpanel_content tot p)\<lparr>s_rows := ids, bt_edit := enableDialogButton dialog_initialize\<rparr>"

text \<open>
  The edit button of a row opens the dialog and switches the radio button of the row on, which
  raises no click: no detail is asked for and no topic is published. A filler row has no radio
  button, and its edit button no id.
\<close>

definition single_click_edit :: "string \<Rightarrow> spanel \<Rightarrow> spanel" where
  "single_click_edit uuid p =
     (let p1 = (if uuid \<noteq> '''' then p\<lparr>bt_edit := dialog_open (Some [uuid]) (bt_edit p)\<rparr> else p)
      in if uuid \<noteq> '''' then p1\<lparr>rp_list := (rp_list p1)\<lparr>radio := Some uuid\<rparr>\<rparr> else p1)"

definition single_click_create :: "spanel \<Rightarrow> spanel option" where
  "single_click_create p = map_option (\<lambda>d. p\<lparr>bt_create := d\<rparr>) (click_create (bt_create p))"

definition single_click_delete :: "spanel \<Rightarrow> spanel" where
  "single_click_delete p =
     (case currentChecked (rp_list p) of
        Some i \<Rightarrow> p\<lparr>bt_delete := dialog_open (Some [i]) (bt_delete p)\<rparr>
      | None \<Rightarrow> p)"

text \<open>A click on a radio button publishes \<open>checked_radio\<close>, then asks for the detail.\<close>

definition single_click_radio :: "string \<Rightarrow> string \<Rightarrow> spanel \<Rightarrow> spanel" where
  "single_click_radio show_path i p =
     rpanel_send (request_get \<lparr>p_url = getPagePath show_path i JUndef, p_data = JUndef, p_async = JUndef\<rparr>)
       (single_on (p\<lparr>rp_list := fst (click_radio i (rp_list p))\<rparr>))"

definition single_init :: "string \<Rightarrow> spanel" where
  "single_init list_path = rpanel.extend (rpanel_init list_path 10 1)
     \<lparr>s_rows = [], bt_create = enableDialogButton dialog_initialize, bt_edit = dialog_initialize,
      bt_delete = disableDialogButton dialog_initialize\<rparr>"

lemmas single_defs = single_off_def single_on_def single_refresh_def single_updatePagenate_def
  single_contentChange_def single_click_edit_def single_click_create_def single_click_delete_def
  single_click_radio_def single_init_def

text \<open>What happens in such a panel, in any order.\<close>

datatype single_event =
    S_Radio string | S_Detail string | S_Refresh | S_Page | S_Content int "string list"
  | S_Edit string | S_Create | S_Delete

fun single_step :: "string \<Rightarrow> string \<Rightarrow> single_event \<Rightarrow> spanel \<Rightarrow> spanel" where
  "single_step lp sp (S_Radio i) p = single_click_radio sp i p"
| "single_step lp sp (S_Detail i) p = p\<lparr>rp_list := radio_response i (rp_list p)\<rparr>"
| "single_step lp sp S_Refresh p = single_refresh lp p"
| "single_step lp sp S_Page p = single_updatePagenate lp p"
| "single_step lp sp (S_Content tot ids) p = single_contentChange tot ids p"
| "single_step lp sp (S_Edit i) p = single_click_edit i p"
| "single_step lp sp S_Create p = (case single_click_create p of Some q \<Rightarrow> q | None \<Rightarrow> p)"
| "single_step lp sp S_Delete p = single_click_delete p"

text \<open>A click needs a row of the table.\<close>

fun single_enabled :: "single_event \<Rightarrow> spanel \<Rightarrow> bool" where
  "single_enabled (S_Radio i) p = (i \<in> set (s_rows p))"
| "single_enabled (S_Edit i) p = (i \<in> set (s_rows p))"
| "single_enabled e p = True"

text \<open>
  The radio button that is on is one of the table's, and the delete dialog was only ever loaded for
  one row. \<open>S\<close> is a set of ids: when all tables shown have their ids in it, so have the dialogs.
\<close>

definition single_inv :: "string set \<Rightarrow> spanel \<Rightarrow> bool" where
  "single_inv S p =
     ((\<forall>i. radio (rp_list p) = Some i \<longrightarrow> i \<in> set (s_rows p)) \<and> set (s_rows p) \<subseteq> S
      \<and> (\<forall>l\<in>set (d_loads (bt_delete p)). \<exists>i\<in>S. i \<noteq> '''' \<and> l = Some [i])
      \<and> (\<forall>l\<in>set (d_loads (bt_edit p)). \<exists>i\<in>S. i \<noteq> '''' \<and> l = Some [i]))"

fun tables_in :: "string set \<Rightarrow> single_event \<Rightarrow> bool" where
  "tables_in S (S_Content tot ids) = (set ids \<subseteq> S)"
| "tables_in S e = True"

lemma dialog_frames [simp]:
  "d_loads (enableDialogButton d) = d_loads d" "d_loads (disableDialogButton d) = d_loads d"
  "d_loads dialog_initialize = []"
  "d_loads (dialog_open (Some [i]) d) = d_loads d @ [Some [i]]"
  by (simp_all add: dialog_defs)

lemma currentChecked_Some: "currentChecked r = Some i \<longleftrightarrow> radio r = Some i \<and> i \<noteq> ''''"
  by (auto simp: currentChecked_def split: option.splits)

lemma single_refresh_parts:
  "rp_list (single_refresh lp p) = remove_detail (rp_list p)" "s_rows (single_refresh lp p) = s_rows p"
  "bt_delete (single_refresh lp p) = disableDialogButton (bt_delete p)"
  "bt_edit (single_refresh lp p) = bt_edit p" "rp_pager (single_refresh lp p) = rp_pager p"
  by (simp_all add: single_defs rpanel_defs Let_def)

lemma single_page_parts:
  "rp_list (single_updatePagenate lp p) = remove_detail ((rp_list p)\<lparr>shown_detail := None\<rparr>)"
  "s_rows (single_updatePagenate lp p) = s_rows p"
  "bt_delete (single_updatePagenate lp p) = disableDialogButton (bt_delete p)"
  "bt_edit (single_updatePagenate lp p) = bt_edit p"
  by (simp_all add: single_defs rpanel_defs Let_def)

lemma remove_detail_radio [simp]: "radio (remove_detail r) = radio r"
  by (simp add: remove_detail_def)

lemma single_inv_step:
  assumes "single_inv S p" and "single_enabled e p" and "tables_in S e"
  shows "single_inv S (single_step lp sp e p)"
proof (cases e)
  case (S_Radio i)
  with assms show ?thesis by (auto simp: single_inv_def single_click_radio_def single_on_def click_radio_def rpanel_send_def)
next
  case S_Refresh
  with assms show ?thesis by (simp add: single_inv_def single_refresh_parts)
next
  case S_Page
  with assms show ?thesis by (simp add: single_inv_def single_page_parts)
next
  case (S_Edit i)
  with assms show ?thesis by (auto simp: single_inv_def single_click_edit_def Let_def)
next
  case S_Create
  with assms show ?thesis
    by (auto simp: single_inv_def single_click_create_def click_create_def split: option.splits)
next
  case S_Delete
  with assms show ?thesis
    by (auto simp: single_inv_def single_click_delete_def currentChecked_Some split: option.splits)
qed (use assms in \<open>auto simp: single_inv_def radio_response_def single_contentChange_def rpanel_content_def\<close>)

lemma single_init_inv: "single_inv S (single_init lp)"
  by (simp add: single_inv_def single_defs rpanel_defs rpanel.defs Let_def)

interpretation single_machine:
  machine "\<lambda>p. p = single_init lp" "\<lambda>e p. single_enabled e p \<and> tables_in S e" "single_step lp sp" "single_inv S"
  for lp sp S
  by unfold_locales (auto intro: single_inv_step simp: single_init_inv)

text \<open>Whether a radio button was clicked since the last refresh or page change.\<close>

fun armed_by :: "single_event \<Rightarrow> bool \<Rightarrow> bool" where
  "armed_by (S_Radio i) a = True"
| "armed_by S_Refresh a = False"
| "armed_by S_Page a = False"
| "armed_by e a = a"

lemma delete_armed_step:
  "target_off (bt_delete (single_step lp sp e p)) = (\<not> armed_by e (\<not> target_off (bt_delete p)))"
  by (cases e) (simp_all add: single_refresh_parts single_page_parts single_click_radio_def single_on_def
      rpanel_send_def single_contentChange_def rpanel_content_def single_click_edit_def single_click_create_def
      single_click_delete_def dialog_defs Let_def split: option.splits)

lemma delete_armed_run:
  "(\<not> target_off (bt_delete (fold (single_step lp sp) es p))) = fold armed_by es (\<not> target_off (bt_delete p))"
  by (induction es arbitrary: p) (simp_all add: delete_armed_step)

lemma single_run_inv:
  assumes "all_enabled (\<lambda>e p. single_enabled e p \<and> tables_in S e) (single_step lp sp) es (single_init lp)"
  shows "single_inv S (fold (single_step lp sp) es (single_init lp))"
  by (rule single_machine.run_inv [OF refl assms])

text \<open>
  whatever the user clicks and in whatever order the answers arrive, the delete dialog is only
  ever loaded for a single row of a table that was shown, never for none and never for \<open>null\<close>;
  and the button that opens it is enabled exactly when a row was chosen after the last refresh or
  page change.
\<close>

theorem single_delete_safe:
  assumes "all_enabled (\<lambda>e p. single_enabled e p \<and> tables_in S e) (single_step lp sp) es (single_init lp)"
  shows "let p = fold (single_step lp sp) es (single_init lp) in
     (\<forall>l\<in>set (d_loads (bt_delete p)). \<exists>i\<in>S. i \<noteq> '''' \<and> l = Some [i])
     \<and> (\<not> is_disabled (bt_delete p) \<longleftrightarrow> fold armed_by es False)"
proof -
  have "target_off (bt_delete (single_init lp))"
    by (simp add: single_init_def rpanel.defs rpanel_init_def rpanel_send_def dialog_defs Let_def)
  then show ?thesis
    using single_run_inv [OF assms] delete_armed_run [of lp sp es "single_init lp"]
    by (simp add: single_inv_def is_disabled_def Let_def)
qed

definition single_demo :: "single_event list" where
  "single_demo = [S_Content 2 [''ssh-a'', ''ssh-b''], S_Radio ''ssh-a'', S_Refresh, S_Radio ''ssh-b'', S_Delete,
     S_Content 2 [''ssh-a'', ''ssh-b''], S_Delete]"

lemma single_delete_safe_witness:
  "d_loads (bt_delete (fold (single_step ''/l'' ''/s'') single_demo (single_init ''/l''))) = [Some [''ssh-b'']]
   \<and> \<not> is_disabled (bt_delete (fold (single_step ''/l'' ''/s'') single_demo (single_init ''/l'')))"
proof -
  have e: "all_enabled (\<lambda>e p. single_enabled e p \<and> tables_in {''ssh-a'', ''ssh-b''} e) (single_step ''/l'' ''/s'')
      single_demo (single_init ''/l'')" by code_simp
  have l: "d_loads (bt_delete (fold (single_step ''/l'' ''/s'') single_demo (single_init ''/l''))) = [Some [''ssh-b'']]"
    by code_simp
  have a: "fold armed_by single_demo False" by code_simp
  show ?thesis using single_delete_safe [OF e] l a by (simp add: Let_def)
qed

section \<open>Ssh key pairs\<close>

text \<open>The requests of \<open>sshkeypair_panel.js\<close>.\<close>

definition key_update_request :: "string \<Rightarrow> string \<Rightarrow> string \<Rightarrow> ajax_settings" where
  "key_update_request uuid display_name description =
     request_put \<lparr>p_url = ''/keypairs/edit_ssh_keypair/'' @ uuid @ ''.json'',
       p_data = JStr (field ''display_name'' (encodeURIComponent display_name) @ ''&''
                      @ field ''description'' (encodeURIComponent description)), p_async = JUndef\<rparr>"

definition key_delete_request :: "string \<Rightarrow> ajax_settings" where
  "key_delete_request i = request_del \<lparr>p_url = ''/keypairs/'' @ i @ ''.json'', p_data = JUndef, p_async = JUndef\<rparr>"

text \<open>
  The create button sends the public key by a request, or, when there is none, submits a form in a
  frame, so that the browser saves the private key of the answer; then the list of all keys is
  asked for, whose answer refreshes the panel. The form is written as text.
\<close>

datatype key_sent = Frame_form string | Sent ajax_settings

definition quote :: string where "quote = [CHR 0x22]"

definition hidden_input :: "string \<Rightarrow> string \<Rightarrow> string" where
  "hidden_input nm v = ''<input type='' @ quote @ ''hidden'' @ quote @ '' name='' @ quote @ nm @ quote
     @ '' value='' @ quote @ v @ quote @ ''>''"

definition key_form_html :: "string \<Rightarrow> string \<Rightarrow> string" where
  "key_form_html display_name description =
     ''<form accept-charset='' @ quote @ ''UTF-8'' @ quote @ '' id='' @ quote @ ''prk_download'' @ quote
       @ '' action='' @ quote @ ''/keypairs/create_ssh_keypair'' @ quote @ '' method='' @ quote @ ''post'' @ quote @ ''>''
     @ hidden_input ''display_name'' display_name @ hidden_input ''description'' description @ ''</form>''"

definition key_create_data :: "string \<Rightarrow> string \<Rightarrow> string \<Rightarrow> string" where
  "key_create_data display_name description public_key =
     field ''display_name'' (encodeURIComponent display_name) @ ''&''
     @ field ''description'' (encodeURIComponent description) @ ''&''
     @ field ''public_key'' (encodeURIComponent public_key)"

definition key_create :: "bool \<Rightarrow> string \<Rightarrow> string \<Rightarrow> string \<Rightarrow> key_sent list" where
  "key_create old_ie display_name description public_key =
     (let nm = (if old_ie then encodeURIComponent display_name else display_name);
          desc = (if old_ie then encodeURIComponent description else description)
      in (if public_key = '''' then [Frame_form (key_form_html nm desc)]
          else [Sent (request_post \<lparr>p_url = ''/keypairs/create_ssh_keypair.json'',
                  p_data = JStr (key_create_data nm desc public_key), p_async = JUndef\<rparr>)])
         @ [Sent (request_get \<lparr>p_url = ''/keypairs/all.json'', p_data = JStr '''', p_async = JUndef\<rparr>)])"

lemma key_keys: "plain_key ''display_name''" "plain_key ''description''" "plain_key ''public_key''" "plain_key ''rule''"
  by (simp_all add: plain_key_def)

lemma key_create_data_read:
  "read_query (key_create_data nm desc pk)
     = [(''display_name'', Some nm), (''description'', Some desc), (''public_key'', Some pk)]"
  unfolding key_create_data_def by (simp only: read_query_append read_encoded key_keys) simp

lemma key_update_read:
  "sent_fields (key_update_request i nm desc)
     = (''PUT'', ''/keypairs/edit_ssh_keypair/'' @ i @ ''.json'', [(''display_name'', Some nm), (''description'', Some desc)])"
proof -
  have "read_query (field ''display_name'' (encodeURIComponent nm) @ ''&'' @ field ''description'' (encodeURIComponent desc))
      = [(''display_name'', Some nm), (''description'', Some desc)]"
    by (simp only: read_query_append read_encoded key_keys) simp
  then show ?thesis unfolding key_update_request_def sent_fields_put by simp
qed

text \<open>On the old browser the texts are escaped twice: the server reads the escaped text.\<close>

lemma key_create_old_ie:
  "pk \<noteq> '''' \<Longrightarrow> map (\<lambda>x. case x of Sent r \<Rightarrow> sent_fields r | Frame_form h \<Rightarrow> undefined) (take 1 (key_create True nm desc pk))
     = [(''POST'', ''/keypairs/create_ssh_keypair.json'',
         [(''display_name'', Some (encodeURIComponent nm)), (''description'', Some (encodeURIComponent desc)),
          (''public_key'', Some pk)])]"
  by (simp add: key_create_def sent_fields_post key_create_data_read)

definition key_panel :: spanel where
  "key_panel = single_init ''/keypairs/list/''"

definition key_step :: "single_event \<Rightarrow> spanel \<Rightarrow> spanel" where
  "key_step = single_step ''/keypairs/list/'' ''/keypairs/show/''"

section \<open>Security groups\<close>

text \<open>The requests of \<open>security_group_panel.js\<close>: the rule is not escaped.\<close>

definition group_update_request :: "string \<Rightarrow> string \<Rightarrow> string \<Rightarrow> string \<Rightarrow> ajax_settings" where
  "group_update_request i description display_name rule =
     request_put \<lparr>p_url = ''/security_groups/'' @ i @ ''.json'',
       p_data = JStr (field ''description'' (encodeURIComponent description) @ ''&''
                      @ field ''display_name'' (encodeURIComponent display_name) @ ''&'' @ field ''rule'' rule),
       p_async = JUndef\<rparr>"

definition group_create_request :: "string \<Rightarrow> string \<Rightarrow> string \<Rightarrow> ajax_settings" where
  "group_create_request display_name description rule =
     request_post \<lparr>p_url = ''/security_groups.json'',
       p_data = JStr (field ''display_name'' (encodeURIComponent display_name) @ ''&''
                      @ field ''description'' (encodeURIComponent description) @ ''&'' @ field ''rule'' rule),
       p_async = JUndef\<rparr>"

definition group_delete_request :: "string \<Rightarrow> ajax_settings" where
  "group_delete_request i =
     request_del \<lparr>p_url = ''/security_groups/'' @ i @ ''.json'', p_data = JUndef, p_async = JUndef\<rparr>"

definition group_panel :: spanel where
  "group_panel = single_init ''/security_groups/list/''"

definition group_step :: "single_event \<Rightarrow> spanel \<Rightarrow> spanel" where
  "group_step = single_step ''/security_groups/list/'' ''/security_groups/show/''"

text \<open>
  what the server reads of a new security group. A rule with nothing to escape arrives as it
  is; of a rule with an ampersand, only the part before it does, and the rest is read as further
  fields, so that it can overwrite any other field.
\<close>

theorem group_rule_cut:
  assumes "plain_value r1"
  shows "sent_fields (group_create_request nm desc r1)
      = (''POST'', ''/security_groups.json'', [(''display_name'', Some nm), (''description'', Some desc), (''rule'', Some r1)])
    \<and> sent_fields (group_create_request nm desc (r1 @ ''&'' @ r2))
      = (''POST'', ''/security_groups.json'',
         [(''display_name'', Some nm), (''description'', Some desc), (''rule'', Some r1)] @ read_query r2)"
proof -
  have f: "field ''rule'' (r1 @ ''&'' @ r2) = field ''rule'' r1 @ ''&'' @ r2" by (simp add: field_def)
  have a: "read_query (field ''display_name'' (encodeURIComponent nm) @ ''&'' @ field ''description'' (encodeURIComponent desc)
        @ ''&'' @ field ''rule'' r1)
      = [(''display_name'', Some nm), (''description'', Some desc), (''rule'', Some r1)]"
    by (simp only: read_query_append read_encoded read_plain key_keys assms) simp
  have b: "read_query (field ''display_name'' (encodeURIComponent nm) @ ''&'' @ field ''description'' (encodeURIComponent desc)
        @ ''&'' @ field ''rule'' r1 @ ''&'' @ r2)
      = [(''display_name'', Some nm), (''description'', Some desc), (''rule'', Some r1)] @ read_query r2"
    by (simp only: read_query_append read_encoded read_plain key_keys assms) simp
  show ?thesis unfolding group_create_request_def sent_fields_post f a b by blast
qed

lemma group_rule_cut_witness:
  "sent_fields (group_create_request ''web'' ''w'' (''tcp:80,80,ip4:0.0.0.0'' @ ''&'' @ ''display_name=x''))
     = (''POST'', ''/security_groups.json'', [(''display_name'', Some ''web''), (''description'', Some ''w''),
         (''rule'', Some ''tcp:80,80,ip4:0.0.0.0''), (''display_name'', Some ''x'')])"
proof -
  have p: "plain_value ''tcp:80,80,ip4:0.0.0.0''" by (simp add: plain_value_def)
  have q: "read_query ''display_name=x'' = [(''display_name'', Some ''x'')]" by code_simp
  show ?thesis using group_rule_cut [OF p, of "''web''" "''w''" "''display_name=x''"] by (simp add: q)
qed

section \<open>Subscriptions\<close>

definition single_topics :: "(unit, unit, spanel) notification \<Rightarrow> (unit, unit, spanel) notification" where
  "single_topics n =
     (let s1 = snd (subscribe ''checked_radio'' () ''enableDialogButton'' () n)
      in snd (subscribe ''change_pagenate'' () ''disableDialogButton'' () s1))"

fun single_call :: "(unit, unit, spanel) calls" where
  "single_call u m o1 p =
     (if m = ''enableDialogButton'' then single_on p else if m = ''disableDialogButton'' then single_off p else p, [])"

text \<open>The publications of the list and of the pager reach the delete button.\<close>

definition single_bus :: "(unit, unit, spanel) notification" where
  "single_bus = single_topics (fold create_topic
     [''change_pagenate'', ''checked_box'', ''unchecked_box'', ''checked_radio'', ''close_dialog''] notification_init)"

lemma single_bus_topics:
  "topics single_bus ''checked_radio'' =
     Some [\<lparr>target = (), method_name = ''enableDialogButton'', options = (), sub_id = 1\<rparr>]"
  "topics single_bus ''change_pagenate'' =
     Some [\<lparr>target = (), method_name = ''disableDialogButton'', options = (), sub_id = 2\<rparr>]"
  "evaluation_list single_bus = Map.empty"
  by (simp_all add: single_bus_def single_topics_def bus_simps Let_def)

lemma single_bus_reaches_delete:
  "publish 5 single_call single_bus ''checked_radio'' (i, p) = Some (1, single_on p)"
  "publish 5 single_call single_bus ''change_pagenate'' (i, p) = Some (1, single_off p)"
proof -
  have q: "quiet single_call" by (simp add: quiet_def)
  have e: "evaluate sid single_bus s" for sid s by (simp add: evaluate_def single_bus_topics)
  show "publish 5 single_call single_bus ''checked_radio'' (i, p) = Some (1, single_on p)"
    using publish_quiet [OF q single_bus_topics(1), of 5 i p] by (simp add: deliver_def e)
  show "publish 5 single_call single_bus ''change_pagenate'' (i, p) = Some (1, single_off p)"
    using publish_quiet [OF q single_bus_topics(2), of 5 i p] by (simp add: deliver_def e)
qed

end
