(* ===== verification/Panel_Backup.thy ===== *)
theory Panel_Backup
  imports Panel_Base
begin

text \<open>
  The backup panel, \<open>backup_panel.js\<close>: its requests, the buttons that the states of the checked
  backups enable, and its subscriptions.
\<close>

section \<open>Requests\<close>

definition backup_update_request :: "string \<Rightarrow> string \<Rightarrow> ajax_settings" where
  "backup_update_request backup_id display_name =
     request_put \<lparr>p_url = ''/backups/'' @ backup_id @ ''.json'',
       p_data = JStr (field ''display_name'' (encodeURIComponent display_name)), p_async = JUndef\<rparr>"

text \<open>The ids are read from the table in the dialog; the name is taken for all of them.\<close>

definition backup_volume_request :: "string list \<Rightarrow> string \<Rightarrow> ajax_settings" where
  "backup_volume_request ids display_name =
     request_post \<lparr>p_url = ''/volumes'',
       p_data = JStr (jq_param [(''ids'', P_Arr ids), (''display_name'', P_Str display_name)]), p_async = JUndef\<rparr>"

definition backup_delete_request :: "string list \<Rightarrow> ajax_settings" where
  "backup_delete_request ids =
     request_del \<lparr>p_url = ''/backups/delete'', p_data = JStr (jq_param [(''ids'', P_Arr ids)]), p_async = JUndef\<rparr>"

section \<open>The panel\<close>

record bpanel = panel +
  b_rows :: "(string \<times> string) list"
  bb_volume :: dialog
  bb_delete :: dialog

text \<open>The loop over the states of the checked rows, then the branches on what it found.\<close>

record backup_scan =
  b_available :: bool
  b_deleting :: bool
  b_flag :: bool

definition scan_backup :: "string \<Rightarrow> backup_scan \<Rightarrow> backup_scan" where
  "scan_backup state v =
     (if state = ''available'' then v\<lparr>b_available := True\<rparr>
      else if state = ''deleting'' then v\<lparr>b_deleting := True\<rparr>
      else v\<lparr>b_flag := False\<rparr>)"

definition backup_button_states :: "string list \<Rightarrow> bpanel \<Rightarrow> bpanel" where
  "backup_button_states states p =
     (let v = fold scan_backup states \<lparr>b_available = False, b_deleting = False, b_flag = True\<rparr>;
          p1 = (if b_available v = True \<and> b_flag v = True
                then p\<lparr>bb_volume := enableDialogButton (bb_volume p), bb_delete := enableDialogButton (bb_delete p)\<rparr>
                else p\<lparr>bb_volume := disableDialogButton (bb_volume p), bb_delete := disableDialogButton (bb_delete p)\<rparr>)
      in if b_deleting v = True then p1\<lparr>bb_delete := enableDialogButton (bb_delete p1)\<rparr> else p1)"

definition backup_changeButtonState :: "bpanel \<Rightarrow> bpanel" where
  "backup_changeButtonState p =
     backup_button_states
       (map (\<lambda>uuid. state_text (b_rows p) (''#row-'' @ uuid)) (currentMultiChecked (pl_list p))) p"

definition backup_buttons :: "bpanel \<Rightarrow> bool \<times> bool" where
  "backup_buttons p = (\<not> is_disabled (bb_volume p), \<not> is_disabled (bb_delete p))"

text \<open>The table: a volume can be made of known backups one of which is available; a backup can be
  deleted then, and whenever one is being deleted already.\<close>

definition backup_table :: "string list \<Rightarrow> bool \<times> bool" where
  "backup_table states =
     (let ok = (''available'' \<in> set states \<and> set states \<subseteq> {''available'', ''deleting''})
      in (ok, ok \<or> ''deleting'' \<in> set states))"

lemma scan_backup_fold:
  "fold scan_backup states v =
     \<lparr>b_available = (b_available v \<or> ''available'' \<in> set states),
      b_deleting = (b_deleting v \<or> ''deleting'' \<in> set states),
      b_flag = (b_flag v \<and> set states \<subseteq> {''available'', ''deleting''})\<rparr>"
proof (induction states arbitrary: v)
  case (Cons st states)
  have "scan_backup st v = \<lparr>b_available = (b_available v \<or> st = ''available''),
      b_deleting = (b_deleting v \<or> st = ''deleting''), b_flag = (b_flag v \<and> st \<in> {''available'', ''deleting''})\<rparr>"
    by (simp add: scan_backup_def)
  with Cons show ?case by (simp add: eq_commute)
qed simp

interpretation backup_table: button_table backup_button_states backup_buttons backup_table
  by unfold_locales
    (simp add: backup_button_states_def scan_backup_fold backup_buttons_def backup_table_def dialog_defs Let_def)

text \<open>
  whatever was checked before, after a click on a check box the create-volume button is enabled
  exactly when an available backup is checked and all checked ones are available or being deleted;
  the delete button is enabled then, and also whenever a backup that is being deleted is checked,
  even next to one in an unknown state.
\<close>

theorem backup_buttons_of_selection:
  "let states = map (\<lambda>uuid. state_text (b_rows p) (''#row-'' @ uuid)) (currentMultiChecked (pl_list p));
       ok = (''available'' \<in> set states \<and> set states \<subseteq> {''available'', ''deleting''})
   in backup_buttons (backup_changeButtonState p) = (ok, ok \<or> ''deleting'' \<in> set states)"
  unfolding backup_changeButtonState_def Let_def backup_table.change_table
  by (simp add: backup_table_def Let_def)

section \<open>Handlers\<close>

definition backup_init :: bpanel where
  "backup_init = panel.extend (panel_init ''/backups/list/'' 10 1)
     \<lparr>b_rows = [], bb_volume = disableDialogButton dialog_initialize, bb_delete = disableDialogButton dialog_initialize\<rparr>"

definition backup_refresh :: "bpanel \<Rightarrow> bpanel" where
  "backup_refresh p = panel_refresh ''/backups/list/'' ''/backups/show/'' p"

definition backup_updatePagenate :: "bpanel \<Rightarrow> bpanel" where
  "backup_updatePagenate p = panel_updatePagenate ''/backups/list/'' ''/backups/show/'' p"

definition backup_contentChange :: "int \<Rightarrow> (string \<times> string) list \<Rightarrow> bpanel \<Rightarrow> bpanel" where
  "backup_contentChange tot rows p = (panel_content tot (map fst rows) p)\<lparr>b_rows := rows\<rparr>"

text \<open>The click on create volume disables the submit button of the dialog it opened.\<close>

definition backup_click_volume :: "bpanel \<Rightarrow> bpanel option" where
  "backup_click_volume p =
     map_option (\<lambda>d. p\<lparr>bb_volume := d\<rparr>)
       (click_target_submit_off (getCheckedInstanceIds (pl_list p)) (bb_volume p))"

definition backup_click_delete :: "bpanel \<Rightarrow> bpanel" where
  "backup_click_delete p = p\<lparr>bb_delete := click_target (getCheckedInstanceIds (pl_list p)) (bb_delete p)\<rparr>"

text \<open>
  The delete button of the dialog shows the state \<open>deleting\<close> in the rows of the checked list at
  once, \<open>List.changeStatus\<close>; the answer disables the button and refreshes.
\<close>

definition changeStatus :: "string \<Rightarrow> string list \<Rightarrow> (string \<times> string) list \<Rightarrow> (string \<times> string) list" where
  "changeStatus state ids rows = map (\<lambda>(i, s). if i \<in> set ids then (i, state) else (i, s)) rows"

definition backup_delete_submit :: "string list \<Rightarrow> bpanel \<Rightarrow> bpanel" where
  "backup_delete_submit ids p =
     p\<lparr>pl_sent := pl_sent p @ [backup_delete_request ids],
       b_rows := changeStatus ''deleting'' (checked_list (pl_list p)) (b_rows p)\<rparr>"

definition backup_deleted :: "bpanel \<Rightarrow> bpanel" where
  "backup_deleted p = backup_refresh (p\<lparr>bb_delete := disableDialogButton (bb_delete p)\<rparr>)"

datatype backup_target = B_Actions | B_Delete

definition backup_subscribe ::
  "(backup_target, unit, bpanel) notification \<Rightarrow> (backup_target, unit, bpanel) notification" where
  "backup_subscribe n =
     (let s1 = snd (subscribe ''checked_box'' B_Actions ''changeButtonState'' () n);
          s2 = snd (subscribe ''unchecked_box'' B_Actions ''changeButtonState'' () s1)
      in snd (subscribe ''change_pagenate'' B_Delete ''disableDialogButton'' () s2))"

fun backup_call :: "(backup_target, unit, bpanel) calls" where
  "backup_call B_Actions m o1 p = (backup_changeButtonState p, [])"
| "backup_call B_Delete m o1 p = (p\<lparr>bb_delete := disableDialogButton (bb_delete p)\<rparr>, [])"

definition backup_bus :: "(backup_target, unit, bpanel) notification" where
  "backup_bus = backup_subscribe (fold create_topic
     [''change_pagenate'', ''checked_box'', ''unchecked_box'', ''checked_radio'', ''close_dialog''] notification_init)"

lemma backup_bus_topics:
  "topics backup_bus ''change_pagenate'' =
     Some [\<lparr>target = B_Delete, method_name = ''disableDialogButton'', options = (), sub_id = 3\<rparr>]"
  "evaluation_list backup_bus = Map.empty"
  by (simp_all add: backup_bus_def backup_subscribe_def bus_simps Let_def)

lemma backup_call_quiet: "quiet backup_call"
  unfolding quiet_def
proof (intro allI)
  fix t m o1 p show "snd (backup_call t m o1 p) = []" by (cases t) auto
qed

lemma backup_page_parts:
  "bb_volume (backup_updatePagenate p) = bb_volume p" "bb_delete (backup_updatePagenate p) = bb_delete p"
  "checked_list (pl_list (backup_updatePagenate p)) = []"
  by (simp_all add: backup_updatePagenate_def panel_updatePagenate_def panel_refresh_def send_get_def
      refresh_details_eq change_page_def clearCheckedList_def Let_def)

text \<open>
  a page change disables the delete button but not the create-volume button, for only the first
  is subscribed; a click on the latter then opens no dialog, as nothing is checked any more, and
  raises an exception when the dialog was never opened before.
\<close>

theorem backup_page_change:
  assumes "\<not> is_disabled (bb_volume p)" and "\<not> d_content (bb_volume p)"
  shows "\<exists>q. publish 5 backup_call backup_bus ''change_pagenate'' (i, p) = Some (1, q)
     \<and> backup_buttons (backup_updatePagenate q) = (True, False)
     \<and> backup_click_volume (backup_updatePagenate q) = None"
proof -
  let ?q = "p\<lparr>bb_delete := disableDialogButton (bb_delete p)\<rparr>"
  have e: "evaluate sid backup_bus s" for sid s by (simp add: evaluate_def backup_bus_topics)
  have p: "publish 5 backup_call backup_bus ''change_pagenate'' (i, p) = Some (1, ?q)"
    using publish_quiet [OF backup_call_quiet backup_bus_topics(1), of 5 i p] by (simp add: deliver_def e)
  have "backup_click_volume (backup_updatePagenate ?q) = None"
    using assms
    by (simp add: backup_click_volume_def backup_page_parts getCheckedInstanceIds_def click_target_submit_off_def
        is_disabled_def dialog_open_def disabledButton_def)
  with p assms show ?thesis
    by (simp add: backup_buttons_def backup_page_parts is_disabled_def disableDialogButton_def)
qed

definition backup_demo :: bpanel where
  "backup_demo = backup_changeButtonState (backup_init\<lparr>b_rows := [(''bo-1'', ''available'')],
     pl_list := \<lparr>checked_list = [''bo-1''], boxes = [(''bo-1'', True)], details = [], pending = []\<rparr>\<rparr>)"

lemma backup_page_change_witness:
  "\<exists>q. publish 5 backup_call backup_bus ''change_pagenate'' (0, backup_demo) = Some (1, q)
     \<and> backup_buttons (backup_updatePagenate q) = (True, False)
     \<and> backup_click_volume (backup_updatePagenate q) = None"
proof (rule backup_page_change)
  show "\<not> is_disabled (bb_volume backup_demo)" by code_simp
  show "\<not> d_content (bb_volume backup_demo)" by code_simp
qed

text \<open>The requests read back as the ids, in their order, and the name.\<close>

lemma backup_requests_read:
  "sent_fields (backup_update_request i nm) = (''PUT'', ''/backups/'' @ i @ ''.json'', [(''display_name'', Some nm)])"
  "sent_fields (backup_delete_request ids) = (''DELETE'', ''/backups/delete'', map (\<lambda>i. (''ids%5B%5D'', Some i)) ids)"
  "sent_fields (backup_volume_request ids nm) = (''POST'', ''/volumes'',
     map (\<lambda>i. (''ids%5B%5D'', Some i)) ids @ [(''display_name'', Some nm)])"
proof -
  have k: "form_encode ''ids[]'' = ''ids%5B%5D''" "form_encode ''display_name'' = ''display_name''" by code_simp+
  have p: "plain_key ''display_name''" by (simp add: plain_key_def)
  show "sent_fields (backup_update_request i nm) = (''PUT'', ''/backups/'' @ i @ ''.json'', [(''display_name'', Some nm)])"
    "sent_fields (backup_delete_request ids) = (''DELETE'', ''/backups/delete'', map (\<lambda>i. (''ids%5B%5D'', Some i)) ids)"
    "sent_fields (backup_volume_request ids nm) = (''POST'', ''/volumes'',
       map (\<lambda>i. (''ids%5B%5D'', Some i)) ids @ [(''display_name'', Some nm)])"
    unfolding backup_update_request_def backup_delete_request_def backup_volume_request_def sent_fields_simps read_jq_param
    by (simp_all add: read_encoded [OF p] k)
qed

end
