(* ===== verification/Panel_Instance.thy ===== *)
theory Panel_Instance
  imports Panel_Base
begin

text \<open>
  The instance panel, \<open>instance_panel.js\<close>: the edit dialog with its monitoring settings, the
  network interfaces of an instance, the power actions, and the buttons that the checked instances
  enable.
\<close>

section \<open>The edit dialog: when it may be submitted\<close>

text \<open>The regular expression for an address: a part before the only \<open>@\<close>, then a host name.\<close>

definition host_first :: "char \<Rightarrow> bool" where
  "host_first c = (let n = (of_char c :: nat) in
     (97 \<le> n \<and> n \<le> 122) \<or> (48 \<le> n \<and> n \<le> 57) \<or> (65 \<le> n \<and> n \<le> 90))"

definition host_rest :: "char \<Rightarrow> bool" where
  "host_rest c = (host_first c \<or> c = CHR ''.'' \<or> c = CHR ''-'')"

fun mail_valid :: "string \<Rightarrow> bool" where
  "mail_valid v =
     (case split_on (CHR ''@'') v of
        [local, host] \<Rightarrow> local \<noteq> '''' \<and> (case host of c # r \<Rightarrow> host_first c \<and> r \<noteq> [] \<and> list_all host_rest r | [] \<Rightarrow> False)
      | _ \<Rightarrow> False)"

text \<open>
  The flags of the dialog and what \<open>ready\<close> reads from the page: the three address fields, the
  monitoring check box, and the monitor editor.
\<close>

record edit_form =
  mailaddr :: "string list"
  monitoring_enabled :: bool
  monitor_editor :: vif
  ed_ready :: "string \<Rightarrow> bool"
  ed_submit_off :: bool

definition address_tuple :: "string \<Rightarrow> bool \<times> bool" where
  "address_tuple v = (if length v > 0 then (True, mail_valid v) else (False, False))"

definition ready_monitoring :: "edit_form \<Rightarrow> bool" where
  "ready_monitoring f =
     (let tuple_lst = map address_tuple (mailaddr f) in
      if list_all (\<lambda>i. snd i = False) tuple_lst \<and> monitoring_enabled f then False
      else list_all (\<lambda>i. (fst i = True \<and> snd i = True) \<or> fst i = False) tuple_lst)"

definition edit_ready :: "edit_form \<Rightarrow> edit_form" where
  "edit_ready f =
     (let f1 = f\<lparr>ed_ready := (ed_ready f)(''monitoring'' := ready_monitoring f)\<rparr>;
          f2 = (if ed_ready f1 ''monitoring''
                then f1\<lparr>ed_ready := (ed_ready f1)(''monitoring'' := validate_all (monitor_editor f1))\<rparr> else f1)
      in if ed_ready f2 ''security_groups'' \<and> ed_ready f2 ''display_name'' \<and> ed_ready f2 ''networks''
            \<and> ed_ready f2 ''monitoring'' \<and> ed_ready f2 ''monitoring_form''
         then f2\<lparr>ed_submit_off := False\<rparr> else f2\<lparr>ed_submit_off := True\<rparr>)"

definition edit_flags :: "string \<Rightarrow> bool" where
  "edit_flags = (\<lambda>_. False)(''display_name'' := True, ''security_groups'' := True, ''networks'' := False,
     ''monitoring'' := True, ''monitoring_form'' := False)"

text \<open>The handlers that call \<open>ready\<close> with a flag changed.\<close>

definition edit_on_ready :: "nat \<Rightarrow> edit_form \<Rightarrow> edit_form" where
  "edit_on_ready sz f =
     (if sz > 0 then edit_ready (f\<lparr>ed_ready := (ed_ready f)(''security_groups'' := True)\<rparr>)
      else edit_ready (f\<lparr>ed_ready := (ed_ready f)(''security_groups'' := False)\<rparr>))"

definition edit_flag_loaded :: "string \<Rightarrow> edit_form \<Rightarrow> edit_form" where
  "edit_flag_loaded name f = edit_ready (f\<lparr>ed_ready := (ed_ready f)(name := True)\<rparr>)"

text \<open>The monitors of the interface, added to the editor one by one when they arrive.\<close>

definition edit_monitors_loaded :: "(string \<times> monitor_json) list \<Rightarrow> edit_form \<Rightarrow> edit_form" where
  "edit_monitors_loaded mails f =
     edit_flag_loaded ''monitoring_form''
       (f\<lparr>monitor_editor := fold (\<lambda>(k, j) s. fst (addItem (Some k) (Some j) s)) mails (monitor_editor f)\<rparr>)"

lemma ready_monitoring_iff:
  "ready_monitoring f \<longleftrightarrow>
     (\<forall>v\<in>set (mailaddr f). v \<noteq> '''' \<longrightarrow> mail_valid v)
     \<and> (monitoring_enabled f \<longrightarrow> (\<exists>v\<in>set (mailaddr f). v \<noteq> '''' \<and> mail_valid v))"
proof -
  have "list_all (\<lambda>i. snd i = False) (map address_tuple xs) \<longleftrightarrow> \<not> (\<exists>v\<in>set xs. v \<noteq> '''' \<and> mail_valid v)" for xs
    by (induction xs) (auto simp: address_tuple_def simp del: mail_valid.simps)
  moreover have "list_all (\<lambda>i. (fst i = True \<and> snd i = True) \<or> fst i = False) (map address_tuple xs)
      \<longleftrightarrow> (\<forall>v\<in>set xs. v \<noteq> '''' \<longrightarrow> mail_valid v)" for xs
    by (induction xs) (auto simp: address_tuple_def simp del: mail_valid.simps)
  ultimately show ?thesis unfolding ready_monitoring_def Let_def by meson
qed

text \<open>
  whatever happened in the edit dialog before, after a call of \<open>ready\<close> the update button is
  enabled exactly when the name, the groups, the networks and the monitors are in order, no
  address is malformed, and with monitoring switched on there is at least one address.
\<close>

theorem edit_instance_gate:
  "\<not> ed_submit_off (edit_ready f) \<longleftrightarrow>
     ed_ready f ''display_name'' \<and> ed_ready f ''security_groups'' \<and> ed_ready f ''networks''
     \<and> ed_ready f ''monitoring_form''
     \<and> \<not> (\<exists>v\<in>set (mailaddr f). v \<noteq> '''' \<and> \<not> mail_valid v)
     \<and> \<not> (monitoring_enabled f \<and> \<not> (\<exists>v\<in>set (mailaddr f). v \<noteq> '''' \<and> mail_valid v))
     \<and> \<not> (\<exists>r\<in>set (item_list (monitor_editor f)). \<not> row_valid r)"
  using ready_monitoring_iff [of f] validate_all_iff [of "monitor_editor f"]
  by (simp add: edit_ready_def Let_def del: mail_valid.simps) blast

section \<open>The edit dialog: what it sends\<close>

record edit_values =
  ev_id :: string
  ev_name :: string
  ev_monitoring :: bool
  ev_ssh_key :: string
  ev_groups :: "string list"
  ev_mail :: "string list"

definition edit_query :: "edit_values \<Rightarrow> string" where
  "edit_query e =
     (let query = [field ''display_name'' (encodeURIComponent (ev_name e)),
                   field ''monitoring[enabled]'' (to_str (JBool (ev_monitoring e))),
                   field ''ssh_key_id'' (ev_ssh_key e)]
                  @ map (\<lambda>g. field ''security_groups[]'' g) (ev_groups e);
          orig_len = length query;
          query1 = query @ map (\<lambda>a. field ''monitoring[mail_address][]'' a) (filter (\<lambda>a. a \<noteq> '''') (ev_mail e));
          query2 = (if length query1 = orig_len then query1 @ [''monitoring[mail_address]=''] else query1)
      in join ''&'' query2)"

text \<open>Both requests are sent, or none when a monitor is invalid; \<open>vif0\<close> is the first interface.\<close>

definition edit_submit :: "edit_values \<Rightarrow> string \<Rightarrow> vif \<Rightarrow> ajax_settings list option" where
  "edit_submit e vif0 mon =
     (if \<not> validate_all mon then None
      else Some [request_put \<lparr>p_url = ''/instances/'' @ ev_id e @ ''.json'', p_data = JStr (edit_query e), p_async = JUndef\<rparr>,
                 request_post \<lparr>p_url = ''/network_vifs/'' @ vif0 @ ''/monitors.json'', p_data = JStr (queryParams mon),
                   p_async = JUndef\<rparr>])"

text \<open>The fields that the dialog means to send; only the name is escaped.\<close>

definition edit_fields :: "edit_values \<Rightarrow> (string \<times> string option) list" where
  "edit_fields e =
     [(''display_name'', Some (ev_name e)), (''monitoring[enabled]'', Some (if ev_monitoring e then ''true'' else ''false'')),
      (''ssh_key_id'', Some (ev_ssh_key e))]
     @ map (\<lambda>g. (''security_groups[]'', Some g)) (ev_groups e)
     @ (let mails = filter (\<lambda>a. a \<noteq> '''') (ev_mail e) in
        if mails = [] then [(''monitoring[mail_address]'', Some '''')]
        else map (\<lambda>a. (''monitoring[mail_address][]'', Some a)) mails)"

text \<open>What a server makes of an address with a plus sign.\<close>

definition plus_to_space :: "string \<Rightarrow> string" where
  "plus_to_space s = map (\<lambda>c. if c = CHR ''+'' then CHR '' '' else c) s"

lemma form_decode_plus:
  "CHR ''%'' \<notin> set s \<Longrightarrow> form_decode s = Some (plus_to_space s)"
  by (induction s) (auto simp: plus_to_space_def)

lemma edit_query_read:
  assumes "plain_value (ev_ssh_key e)" "\<forall>g\<in>set (ev_groups e). plain_value g"
    and "\<forall>a\<in>set (ev_mail e). CHR ''&'' \<notin> set a \<and> CHR ''%'' \<notin> set a"
  shows "read_query (edit_query e) = edit_fields (e\<lparr>ev_mail := map plus_to_space (ev_mail e)\<rparr>)"
proof -
  define mails where "mails = filter (\<lambda>a. a \<noteq> '''') (ev_mail e)"
  have k: "plain_key ''display_name''" "plain_key ''monitoring[enabled]''" "plain_key ''ssh_key_id''"
    "plain_key ''security_groups[]''" "plain_key ''monitoring[mail_address][]''" "plain_key ''monitoring[mail_address]''"
    by (simp_all add: plain_key_def)
  have b: "plain_value (to_str (JBool x))" for x by (simp add: plain_value_def)
  have amp: "CHR ''&'' \<notin> set (field ''monitoring[mail_address][]'' a)" if "a \<in> set mails" for a
    using assms(3) k(5) that by (auto simp: field_def plain_key_def mails_def)
  have mail: "read_field (field ''monitoring[mail_address][]'' a) = (''monitoring[mail_address][]'', Some (plus_to_space a))"
    if "a \<in> set mails" for a
    using assms(3) that form_decode_plus by (simp add: read_field_def field_def split_eq_field mails_def)
  have grp: "read_field (field ''security_groups[]'' g) = (''security_groups[]'', Some g)"
    "CHR ''&'' \<notin> set (field ''security_groups[]'' g)" if "g \<in> set (ev_groups e)" for g
    using assms(2) that k(4) read_field_plain amp_notin_plain by blast+
  have none: "read_field ''monitoring[mail_address]='' = (''monitoring[mail_address]'', Some '''')"
    by (simp add: read_field_def)
  define ws where "ws = [field ''display_name'' (encodeURIComponent (ev_name e)),
      field ''monitoring[enabled]'' (to_str (JBool (ev_monitoring e))), field ''ssh_key_id'' (ev_ssh_key e)]
      @ map (\<lambda>g. field ''security_groups[]'' g) (ev_groups e)
      @ (if mails = [] then [''monitoring[mail_address]=''] else map (\<lambda>a. field ''monitoring[mail_address][]'' a) mails)"
  have q: "edit_query e = join ''&'' ws" by (simp add: edit_query_def ws_def Let_def mails_def [symmetric])
  have ws_amp: "\<forall>w\<in>set ws. CHR ''&'' \<notin> set w"
    using amp grp(2) assms(1) b by (auto simp: ws_def amp_notin_encoded amp_notin_plain k)
  have ws_ne: "filter (\<lambda>w. w \<noteq> '''') ws = ws"
    by (auto simp: ws_def filter_id_conv)
  have pm: "filter (\<lambda>a. a \<noteq> '''') (map plus_to_space (ev_mail e)) = map plus_to_space mails"
    by (simp add: mails_def filter_map comp_def plus_to_space_def)
  show ?thesis
    unfolding q read_query_join [OF ws_amp] ws_ne
    using mail grp(1) assms(1) b [of "ev_monitoring e"] none
    by (simp add: ws_def edit_fields_def pm read_field_encoded read_field_plain k Let_def comp_def)
qed

text \<open>
  what the server reads from the update request. With nothing to escape in the key and the
  groups and no ampersand or percent in the addresses, it reads the name, the switch, the key,
  the groups and the addresses in order, or an empty list when there is none; but the addresses
  are not escaped, and a plus sign in one is read as a space.
\<close>

theorem edit_query_reads:
  assumes "plain_value (ev_ssh_key e)" "\<forall>g\<in>set (ev_groups e). plain_value g"
    and "\<forall>a\<in>set (ev_mail e). CHR ''&'' \<notin> set a \<and> CHR ''%'' \<notin> set a"
  shows "read_query (edit_query e) = edit_fields (e\<lparr>ev_mail := map plus_to_space (ev_mail e)\<rparr>)"
  using assms by (rule edit_query_read)

definition edit_demo :: edit_values where
  "edit_demo = \<lparr>ev_id = ''i-1'', ev_name = ''a&b'', ev_monitoring = True, ev_ssh_key = ''ssh-1'',
     ev_groups = [''sg-1''], ev_mail = [''ops+dc1@example.com'', '''', '''']\<rparr>"

lemma edit_query_reads_witness:
  "mail_valid ''ops+dc1@example.com'' \<and>
   read_query (edit_query edit_demo) =
     [(''display_name'', Some ''a&b''), (''monitoring[enabled]'', Some ''true''), (''ssh_key_id'', Some ''ssh-1''),
      (''security_groups[]'', Some ''sg-1''), (''monitoring[mail_address][]'', Some ''ops dc1@example.com'')]"
proof -
  have v: "mail_valid ''ops+dc1@example.com''" by (simp add: host_first_def host_rest_def)
  have p: "plain_value (ev_ssh_key edit_demo)" "\<forall>g\<in>set (ev_groups edit_demo). plain_value g"
    "\<forall>a\<in>set (ev_mail edit_demo). CHR ''&'' \<notin> set a \<and> CHR ''%'' \<notin> set a"
    by (simp_all add: edit_demo_def plain_value_def)
  show ?thesis using v edit_query_reads [OF p]
    by (simp add: edit_demo_def edit_fields_def plus_to_space_def del: mail_valid.simps)
qed

section \<open>The network interfaces of an instance\<close>

text \<open>
  \<open>current_nw\<close> and \<open>current_vif\<close> are the arrays of the page; per interface, \<open>eth_text\<close> is the
  shown network, \<open>eth_select\<close> the value of the select and \<open>eth_detach\<close> whether the button is
  Detach rather than Attach. A network is \<open>None\<close> when the interface is disconnected.
\<close>

record eths =
  current_nw :: "string option list"
  current_vif :: "string list"
  eth_text :: "string list"
  eth_select :: "string list"
  eth_detach :: "bool list"

definition update_eth_network_id :: "nat \<Rightarrow> eths \<Rightarrow> eths" where
  "update_eth_network_id i s =
     (case Option.bind (nth_opt (current_nw s) i) (\<lambda>n. case n of Some w \<Rightarrow> if w \<noteq> '''' then Some w else None | None \<Rightarrow> None) of
        Some w \<Rightarrow> s\<lparr>eth_text := (eth_text s)[i := w], eth_select := (eth_select s)[i := w],
                    eth_detach := (eth_detach s)[i := True]\<rparr>
      | None \<Rightarrow> s\<lparr>eth_text := (eth_text s)[i := ''disconnected''], eth_select := (eth_select s)[i := ''disconnected''],
                  eth_detach := (eth_detach s)[i := False]\<rparr>)"

definition vif_request :: "string \<Rightarrow> string \<Rightarrow> string \<Rightarrow> ajax_settings" where
  "vif_request url network_id vif_id =
     request_put \<lparr>p_url = url, p_data = JStr (field ''network_id'' network_id @ ''&'' @ field ''vif_id'' vif_id),
       p_async = JUndef\<rparr>"

text \<open>The two buttons: what a click sends, and what the success of the request does.\<close>

definition click_attach :: "nat \<Rightarrow> eths \<Rightarrow> ajax_settings option" where
  "click_attach i s =
     (if eth_select s ! i \<noteq> ''disconnected''
      then Some (vif_request ''/networks/attach'' (eth_select s ! i) (current_vif s ! i)) else None)"

definition click_detach :: "nat \<Rightarrow> eths \<Rightarrow> ajax_settings" where
  "click_detach i s =
     vif_request ''/networks/detach'' (to_str (case current_nw s ! i of Some w \<Rightarrow> JStr w | None \<Rightarrow> JNull)) (current_vif s ! i)"

definition attached_vif :: "string \<Rightarrow> nat \<Rightarrow> eths \<Rightarrow> eths" where
  "attached_vif network_id i s = update_eth_network_id i (s\<lparr>current_nw := (current_nw s)[i := Some network_id]\<rparr>)"

definition detached_vif :: "nat \<Rightarrow> eths \<Rightarrow> eths" where
  "detached_vif i s = update_eth_network_id i (s\<lparr>current_nw := (current_nw s)[i := None]\<rparr>)"

text \<open>Each interface shows its network, and its button is Detach exactly when it has one.\<close>

definition eth_shows :: "eths \<Rightarrow> nat \<Rightarrow> bool" where
  "eth_shows s i =
     (case current_nw s ! i of
        Some w \<Rightarrow> w \<noteq> '''' \<and> eth_text s ! i = w \<and> eth_detach s ! i
      | None \<Rightarrow> eth_text s ! i = ''disconnected'' \<and> \<not> eth_detach s ! i)"

definition eths_ok :: "eths \<Rightarrow> bool" where
  "eths_ok s = (length (current_vif s) = length (current_nw s) \<and> length (eth_text s) = length (current_nw s)
     \<and> length (eth_select s) = length (current_nw s) \<and> length (eth_detach s) = length (current_nw s)
     \<and> (\<forall>i<length (current_nw s). eth_shows s i))"

lemma eths_ok_attached: "eths_ok s \<Longrightarrow> i < length (current_nw s) \<Longrightarrow> w \<noteq> '''' \<Longrightarrow> eths_ok (attached_vif w i s)"
  by (simp add: eths_ok_def attached_vif_def update_eth_network_id_def nth_opt_def)
     (auto simp: eth_shows_def nth_list_update split: option.splits)

lemma eths_ok_detached: "eths_ok s \<Longrightarrow> i < length (current_nw s) \<Longrightarrow> eths_ok (detached_vif i s)"
  by (simp add: eths_ok_def detached_vif_def update_eth_network_id_def nth_opt_def)
     (auto simp: eth_shows_def nth_list_update split: option.splits)

section \<open>Power actions\<close>

definition instance_action_request :: "string \<Rightarrow> string list \<Rightarrow> ajax_settings" where
  "instance_action_request action ids =
     request_post \<lparr>p_url = ''/instances/'' @ action, p_data = JStr (jq_param [(''ids'', P_Arr ids)]), p_async = JUndef\<rparr>"

definition instance_backup_request :: "string \<Rightarrow> string \<Rightarrow> string \<Rightarrow> ajax_settings" where
  "instance_backup_request instance_id display_name description =
     request_post \<lparr>p_url = ''/instances/backup'',
       p_data = JStr (join ''&'' [field ''instance_id'' instance_id,
          field ''backup_display_name'' (encodeURIComponent display_name),
          field ''backup_description'' (encodeURIComponent description)]), p_async = JUndef\<rparr>"

record ipanel = panel +
  i_rows :: "(string \<times> string) list"
  i_menu_off :: bool
  bt_instance_backup :: dialog
  bt_instance_start :: dialog
  bt_instance_stop :: dialog
  bt_instance_reboot :: dialog
  bt_instance_terminate :: dialog
  bt_instance_poweroff :: dialog
  bt_instance_poweron :: dialog

definition checked_states :: "ipanel \<Rightarrow> string list" where
  "checked_states p = map (\<lambda>uuid. state_text (i_rows p) (''#row-'' @ uuid)) (currentMultiChecked (pl_list p))"

text \<open>The loop of the menu handler: which of the two power actions may open.\<close>

definition power_step :: "string \<Rightarrow> bool \<times> bool \<Rightarrow> bool \<times> bool" where
  "power_step state fl =
     (if state = ''running'' then (fst fl, False) else if state = ''halted'' then (False, snd fl) else fl)"

definition instance_select :: "string \<Rightarrow> ipanel \<Rightarrow> ipanel" where
  "instance_select action p =
     (let ids = currentMultiChecked (pl_list p);
          fl = fold power_step (checked_states p) (True, True);
          is_open_poweroff = fst fl; is_open_poweron = snd fl
      in if action = ''terminate'' then p\<lparr>bt_instance_terminate := dialog_open (Some ids) (bt_instance_terminate p)\<rparr>
         else if action = ''reboot'' then p\<lparr>bt_instance_reboot := dialog_open (Some ids) (bt_instance_reboot p)\<rparr>
         else if action = ''start'' then p\<lparr>bt_instance_start := dialog_open (Some ids) (bt_instance_start p)\<rparr>
         else if action = ''stop'' then p\<lparr>bt_instance_stop := dialog_open (Some ids) (bt_instance_stop p)\<rparr>
         else if action = ''poweroff'' then
           (if is_open_poweroff then p\<lparr>bt_instance_poweroff := dialog_open (Some ids) (bt_instance_poweroff p)\<rparr> else p)
         else if action = ''poweron'' then
           (if is_open_poweron then p\<lparr>bt_instance_poweron := dialog_open (Some ids) (bt_instance_poweron p)\<rparr> else p)
         else p)"

lemma power_flags: "fold power_step sts fl = (fst fl \<and> ''halted'' \<notin> set sts, snd fl \<and> ''running'' \<notin> set sts)"
  by (induction sts arbitrary: fl) (auto simp: power_step_def)

lemma dialog_open_loads:
  "d_loads (dialog_open (Some ids) d) = d_loads d @ (if ids = [] then [] else [Some ids])"
  by (simp add: dialog_defs)

text \<open>
  power off opens its dialog, for all checked instances, exactly when one is checked and none
  of them is halted; power on, exactly when one is checked and none of them is running.
\<close>

theorem power_actions_guarded:
  "d_loads (bt_instance_poweroff (instance_select ''poweroff'' p)) = d_loads (bt_instance_poweroff p)
     @ (if currentMultiChecked (pl_list p) = [] \<or> ''halted'' \<in> set (checked_states p) then []
        else [Some (currentMultiChecked (pl_list p))])
   \<and> d_loads (bt_instance_poweron (instance_select ''poweron'' p)) = d_loads (bt_instance_poweron p)
     @ (if currentMultiChecked (pl_list p) = [] \<or> ''running'' \<in> set (checked_states p) then []
        else [Some (currentMultiChecked (pl_list p))])"
  by (simp add: instance_select_def power_flags dialog_open_loads Let_def)

section \<open>Buttons\<close>

definition instance_states :: "string list" where
  "instance_states = [''running'', ''stopped'', ''halted'']"

definition instance_button_states :: "string list \<Rightarrow> ipanel \<Rightarrow> ipanel" where
  "instance_button_states states p =
     (if length states = 0 then p\<lparr>i_menu_off := True, bt_instance_backup := disableDialogButton (bt_instance_backup p)\<rparr>
      else
        (let is_select_menus = map (\<lambda>st. st \<in> set instance_states) states;
             is_instance_backups = map (\<lambda>st. st \<in> set [''halted'']) states;
             p1 = (if False \<notin> set is_select_menus then p\<lparr>i_menu_off := False\<rparr> else p\<lparr>i_menu_off := True\<rparr>)
         in if False \<notin> set is_instance_backups
            then p1\<lparr>bt_instance_backup := enableDialogButton (bt_instance_backup p1)\<rparr>
            else p1\<lparr>bt_instance_backup := disableDialogButton (bt_instance_backup p1)\<rparr>))"

definition instance_changeButtonState :: "ipanel \<Rightarrow> ipanel" where
  "instance_changeButtonState p = instance_button_states (checked_states p) p"

definition instance_buttons :: "ipanel \<Rightarrow> bool \<times> bool" where
  "instance_buttons p = (\<not> i_menu_off p, \<not> target_off (bt_instance_backup p))"

definition instance_table :: "string list \<Rightarrow> bool \<times> bool" where
  "instance_table states =
     (states \<noteq> [] \<and> set states \<subseteq> set instance_states, states \<noteq> [] \<and> set states = {''halted''})"

lemma instance_button_states_table: "instance_buttons (instance_button_states states p) = instance_table states"
proof -
  have h: "False \<notin> set (map (\<lambda>st. st \<in> set [''halted'']) states) \<longleftrightarrow> set states \<subseteq> {''halted''}" by auto
  have m: "False \<notin> set (map (\<lambda>st. st \<in> set instance_states) states) \<longleftrightarrow> set states \<subseteq> set instance_states" by auto
  have e: "states \<noteq> [] \<Longrightarrow> set states = {''halted''} \<longleftrightarrow> set states \<subseteq> {''halted''}" by (cases states) auto
  show ?thesis
    unfolding instance_button_states_def Let_def h m
    using e by (simp add: instance_buttons_def instance_table_def dialog_defs)
qed

interpretation instance_table: button_table instance_button_states instance_buttons instance_table
  by unfold_locales (rule instance_button_states_table)

text \<open>
  the action menu is enabled exactly when some instance is checked and all the checked ones
  are running, stopped or halted; the backup button exactly when some is checked and all are halted.
\<close>

theorem instance_buttons_of_selection:
  "instance_buttons (instance_changeButtonState p) =
     (checked_states p \<noteq> [] \<and> \<not> (\<exists>st\<in>set (checked_states p). st \<notin> {''running'', ''stopped'', ''halted''}),
      checked_states p \<noteq> [] \<and> \<not> (\<exists>st\<in>set (checked_states p). st \<noteq> ''halted''))"
proof -
  have e: "sts \<noteq> [] \<and> set sts = {x} \<longleftrightarrow> sts \<noteq> [] \<and> \<not> (\<exists>st\<in>set sts. st \<noteq> x)" for sts and x :: string
    by (cases sts) auto
  have s: "set sts \<subseteq> S \<longleftrightarrow> \<not> (\<exists>st\<in>set sts. st \<notin> S)" for sts and S :: "string set" by blast
  have i: "set instance_states = {''running'', ''stopped'', ''halted''}" by (simp add: instance_states_def)
  show ?thesis
    by (simp only: instance_changeButtonState_def instance_button_states_table instance_table_def e s i)
qed

section \<open>The panel\<close>

definition instance_init :: ipanel where
  "instance_init =
     (let p = panel_init ''/instances/list/'' 10 1 in
      \<lparr>pl_pager = pl_pager p, pl_list = pl_list p, pl_url = pl_url p, pl_data = pl_data p, pl_sent = pl_sent p,
       i_rows = [], i_menu_off = True, bt_instance_backup = disableDialogButton dialog_initialize,
       bt_instance_start = dialog_initialize, bt_instance_stop = dialog_initialize,
       bt_instance_reboot = dialog_initialize, bt_instance_terminate = dialog_initialize,
       bt_instance_poweroff = dialog_initialize, bt_instance_poweron = dialog_initialize\<rparr>)"

text \<open>
  The refresh asks for the list and clears the selection and the details; its loop over the
  checked list comes after that, so no detail is asked for.
\<close>

definition instance_refresh :: "ipanel \<Rightarrow> ipanel" where
  "instance_refresh p =
     (let pg = pl_pager p;
          p1 = p\<lparr>pl_url := getPagePath ''/instances/list/'' (page_text pg) JUndef,
                 pl_data := getPagenateData (num_val (start pg)) (JNum (row pg))\<rparr>;
          p2 = send_get (pl_url p1) (JStr (pl_data p1)) p1;
          p3 = p2\<lparr>pl_list := (clearCheckedList (pl_list p2))\<lparr>details := []\<rparr>\<rparr>;
          p4 = fold (\<lambda>i. send_get (getPagePath ''/instances/show/'' i JUndef) JUndef) (checked_list (pl_list p3)) p3
      in p4\<lparr>pl_list := refresh_details (pl_list p4)\<rparr>)"

definition instance_updatePagenate :: "ipanel \<Rightarrow> ipanel" where
  "instance_updatePagenate p = instance_refresh p"

definition instance_contentChange :: "int \<Rightarrow> (string \<times> string) list \<Rightarrow> ipanel \<Rightarrow> ipanel" where
  "instance_contentChange tot rows p = (panel_content tot (map fst rows) p)\<lparr>i_rows := rows\<rparr>"

text \<open>Which rows of the table get a working edit button.\<close>

definition edit_enabled :: "string \<Rightarrow> string \<Rightarrow> bool" where
  "edit_enabled uuid state = (uuid \<noteq> '''' \<and> state \<in> set instance_states)"

text \<open>The filters of the memory size.\<close>

definition memory_filter :: "jsval list \<Rightarrow> string list" where
  "memory_filter sizes = map (\<lambda>m. converter_unit m ''megabyte'') sizes"

text \<open>
  The click on the backup button: an object is always true, so the test of \<open>selected_ids\<close> never
  fails. \<open>None\<close> is the exception of a dialog that was never created.
\<close>

definition instance_click_backup :: "ipanel \<Rightarrow> ipanel option" where
  "instance_click_backup p =
     (if \<not> is_disabled (bt_instance_backup p) then
        (let ids = getCheckedInstanceIds (pl_list p) in
         map_option (\<lambda>d. p\<lparr>bt_instance_backup := d\<rparr>)
           (disabledButton 1 True (dialog_open (Some ids) (bt_instance_backup p))))
      else Some p)"

definition backup_fields :: "(string \<times> string) list" where
  "backup_fields = [(''backup_display_name'', ''#backup_display_name'')]"

definition backup_ready :: ready where
  "backup_ready f = (if is_ready f ''backup_display_name'' = True then disable_submit False f else disable_submit True f)"

interpretation instance_backup: form_gate backup_fields backup_ready
  by unfold_locales (auto simp: backup_fields_def backup_ready_def disable_submit_def)

lemma instance_refresh_list:
  "checked_list (pl_list (instance_refresh p)) = []" "details (pl_list (instance_refresh p)) = []"
  "bt_instance_backup (instance_refresh p) = bt_instance_backup p" "i_menu_off (instance_refresh p) = i_menu_off p"
  by (simp_all add: instance_refresh_def clearCheckedList_def refresh_details_def send_get_def Let_def)

lemma panel_content_list: "pl_list (panel_content tot ids p) = list_content ids (pl_list p)"
  by (simp add: panel_content_def)

text \<open>
  a refresh unchecks every row and clears the details, but leaves the buttons as they are:
  after it the menu and the backup button stay enabled with nothing checked, and the first click
  on the backup button runs into an exception instead of opening the dialog.
\<close>

theorem refresh_leaves_buttons:
  assumes "instance_buttons p = (True, True)" and "\<not> d_content (bt_instance_backup p)"
  shows "let q = instance_contentChange tot rows (instance_refresh p) in
     currentMultiChecked (pl_list q) = [] \<and> getCheckedInstanceIds (pl_list q) = []
     \<and> instance_buttons q = (True, True) \<and> instance_click_backup q = None"
proof -
  let ?q = "instance_contentChange tot rows (instance_refresh p)"
  have b: "bt_instance_backup ?q = bt_instance_backup p" "i_menu_off ?q = i_menu_off p"
    by (simp_all add: instance_contentChange_def panel_content_def instance_refresh_list)
  have l: "pl_list ?q = list_content (map fst rows) (pl_list (instance_refresh p))"
    by (simp add: instance_contentChange_def panel_content_list)
  have c: "checked_list (pl_list ?q) = []"
    unfolding l by (simp add: list_content_def instance_refresh_list)
  have m: "currentMultiChecked (pl_list ?q) = []"
    unfolding l currentMultiChecked_content by (simp add: instance_refresh_list)
  show ?thesis
    using assms b c m
    by (simp add: instance_buttons_def instance_click_backup_def getCheckedInstanceIds_def dialog_defs Let_def)
qed

definition instance_demo :: ipanel where
  "instance_demo = instance_changeButtonState (instance_init\<lparr>i_rows := [(''i-1'', ''halted'')],
     pl_list := \<lparr>checked_list = [''i-1''], boxes = [(''i-1'', True)], details = [], pending = []\<rparr>\<rparr>)"

lemma refresh_leaves_buttons_witness:
  "instance_click_backup (instance_contentChange 1 [(''i-1'', ''halted'')] (instance_refresh instance_demo)) = None"
proof -
  have b: "instance_buttons instance_demo = (True, True)" by code_simp
  have c: "\<not> d_content (bt_instance_backup instance_demo)" by code_simp
  show ?thesis using refresh_leaves_buttons [OF b c] by (simp add: Let_def)
qed

section \<open>Subscriptions\<close>

datatype instance_target = I_Actions | I_Menu | I_Backup

definition instance_subscribe ::
  "(instance_target, unit, ipanel) notification \<Rightarrow> (instance_target, unit, ipanel) notification" where
  "instance_subscribe n =
     (let s1 = snd (subscribe ''checked_box'' I_Actions ''changeButtonState'' () n);
          s2 = snd (subscribe ''unchecked_box'' I_Actions ''changeButtonState'' () s1);
          s3 = snd (subscribe ''change_pagenate'' I_Menu ''disableButton'' () s2)
      in snd (subscribe ''change_pagenate'' I_Backup ''disableDialogButton'' () s3))"

fun instance_call :: "(instance_target, unit, ipanel) calls" where
  "instance_call I_Actions m o1 p = (instance_changeButtonState p, [])"
| "instance_call I_Menu m o1 p = (p\<lparr>i_menu_off := True\<rparr>, [])"
| "instance_call I_Backup m o1 p = (p\<lparr>bt_instance_backup := disableDialogButton (bt_instance_backup p)\<rparr>, [])"

end
