(* ===== verification/Panel_Image.thy ===== *)
theory Panel_Image
  imports Panel_Instance Panel_Radio
begin

text \<open>
  The image panel, \<open>image_panel.js\<close>: the launch dialog, whose answers arrive in any order while
  the user fills it in, what it sends, and the buttons of the chosen image. The address check is
  that of the edit dialog of an instance.
\<close>

section \<open>The launch dialog\<close>

text \<open>
  The texts, flags, timers and submit button are a \<open>form\<close>; beside it the check box that switches
  monitoring on, the monitor editor, and what the four answers put on the page.
\<close>

record launch =
  la_form :: form
  la_checked :: bool
  la_mail_off :: bool
  la_editor :: vif
  la_specs :: "string list"
  la_keys :: "string list"
  la_groups :: "selector option"
  la_eths :: "string list option"

definition mail_ids :: "string list" where
  "mail_ids = [''#mailaddr_0'', ''#mailaddr_1'', ''#mailaddr_2'']"

definition launch_flags :: "string \<Rightarrow> bool" where
  "launch_flags = (\<lambda>_. False)(''instance_spec'' := False, ''ssh_keypair'' := False, ''security_groups'' := False,
     ''networks'' := False, ''display_name'' := False, ''monitoring'' := True)"

definition launch_ready :: "bool \<Rightarrow> vif \<Rightarrow> ready" where
  "launch_ready checked mon f =
     (let f1 = (if checked then
                  (let tuple_lst = map (\<lambda>i. address_tuple (vals f i)) mail_ids in
                   if list_all (\<lambda>i. snd i = False) tuple_lst \<and> checked
                   then set_ready ''monitoring'' False f
                   else set_ready ''monitoring''
                     (list_all (\<lambda>i. (fst i = True \<and> snd i = True) \<or> fst i = False) tuple_lst) f)
                else set_ready ''monitoring'' True f);
          f2 = (if is_ready f1 ''monitoring'' then set_ready ''monitoring'' (validate_all mon) f1 else f1)
      in if is_ready f2 ''instance_spec'' = True \<and> is_ready f2 ''ssh_keypair'' = True
            \<and> is_ready f2 ''security_groups'' = True \<and> is_ready f2 ''networks'' = True
            \<and> is_ready f2 ''display_name'' = True \<and> is_ready f2 ''monitoring'' = True
         then disable_submit False f2 else disable_submit True f2)"

text \<open>The handlers that \<open>callback\<close> binds to the text inputs; the last selector is that of a live binding.\<close>

definition monitor_inputs :: string where
  "monitor_inputs = ''#monitor_item_list input''"

definition launch_fields :: "(string \<times> string) list" where
  "launch_fields = (''display_name'', ''#display_name'') # map (\<lambda>i. (''monitoring'', i)) (mail_ids @ [monitor_inputs])"

definition launch_ready_of :: "launch \<Rightarrow> ready" where
  "launch_ready_of s = launch_ready (la_checked s) (la_editor s)"

definition launch_text :: "form_event \<Rightarrow> launch \<Rightarrow> launch" where
  "launch_text e s = s\<lparr>la_form := form_step (text_binds launch_fields) (launch_ready_of s) e (la_form s)\<rparr>"

text \<open>
  A click on the check box: it has changed when the handlers run. Its kind of event is neither
  paste nor cut, for which \<open>Change_input\<close> stands here.
\<close>

definition click_monitoring :: "launch \<Rightarrow> launch" where
  "click_monitoring s =
     (let s1 = s\<lparr>la_checked := \<not> la_checked s\<rparr>;
          s2 = s1\<lparr>la_form := checkTextField (launch_ready_of s1) ''#monitoring_enabled'' ''monitoring'' Change_input (la_form s1)\<rparr>
      in s2\<lparr>la_mail_off := \<not> la_checked s2\<rparr>)"

text \<open>The answers with the specs and the key pairs set their flag when there is one; they do not call \<open>ready\<close>.\<close>

definition specs_loaded :: "string list \<Rightarrow> launch \<Rightarrow> launch" where
  "specs_loaded ids s =
     (let s1 = (if length ids > 0 then s\<lparr>la_form := set_ready ''instance_spec'' True (la_form s)\<rparr> else s)
      in s1\<lparr>la_specs := ids\<rparr>)"

definition keys_loaded :: "string list \<Rightarrow> launch \<Rightarrow> launch" where
  "keys_loaded ids s =
     (let s1 = (if length ids > 0 then s\<lparr>la_form := set_ready ''ssh_keypair'' True (la_form s)\<rparr> else s)
      in s1\<lparr>la_keys := ids\<rparr>)"

text \<open>The security groups make a chooser, with nothing chosen.\<close>

definition group_items :: "(string \<times> string) list \<Rightarrow> item list" where
  "group_items results =
     map (\<lambda>(uuid, nm). \<lparr>item_id = uuid, item_name = nm, item_value = uuid, item_selected = False\<rparr>) results"

definition groups_loaded :: "(string \<times> string) list \<Rightarrow> launch \<Rightarrow> launch" where
  "groups_loaded results s = s\<lparr>la_groups := Some (selector_initialize (group_items results))\<rparr>"

definition launch_on_ready :: "nat \<Rightarrow> launch \<Rightarrow> launch" where
  "launch_on_ready sz s =
     (if sz > 0 then s\<lparr>la_form := launch_ready_of s (set_ready ''security_groups'' True (la_form s))\<rparr>
      else s\<lparr>la_form := launch_ready_of s (set_ready ''security_groups'' False (la_form s))\<rparr>)"

definition move_groups :: "(selector \<Rightarrow> selector) \<Rightarrow> launch \<Rightarrow> launch" where
  "move_groups move s =
     (case la_groups s of
        Some g \<Rightarrow> launch_on_ready (getRightSelectionCount (move g)) (s\<lparr>la_groups := Some (move g)\<rparr>)
      | None \<Rightarrow> s)"

text \<open>The networks: each of the five selects offers them after the two fixed choices.\<close>

definition networks_loaded :: "string list \<Rightarrow> launch \<Rightarrow> launch" where
  "networks_loaded uuids s =
     s\<lparr>la_form := launch_ready_of s (set_ready ''networks'' True (la_form s)),
       la_eths := Some ([''none'', ''disconnected''] @ uuids)\<rparr>"

datatype launch_event =
    La_Text form_event | La_Editor vif | La_Check
  | La_Specs "string list" | La_Keys "string list" | La_Groups "(string \<times> string) list" | La_Nets "string list"
  | La_Right "option_elem \<Rightarrow> bool" | La_Left "option_elem \<Rightarrow> bool"

fun launch_step :: "launch_event \<Rightarrow> launch \<Rightarrow> launch" where
  "launch_step (La_Text e) s = launch_text e s"
| "launch_step (La_Editor v) s = s\<lparr>la_editor := v\<rparr>"
| "launch_step La_Check s = click_monitoring s"
| "launch_step (La_Specs ids) s = specs_loaded ids s"
| "launch_step (La_Keys ids) s = keys_loaded ids s"
| "launch_step (La_Groups rs) s = groups_loaded rs s"
| "launch_step (La_Nets uuids) s = networks_loaded uuids s"
| "launch_step (La_Right ch) s = move_groups (leftToRight ch) s"
| "launch_step (La_Left ch) s = move_groups (rightToLeft ch) s"

text \<open>Each request is answered once; the buttons of the chooser have handlers once it is there.\<close>

fun launch_enabled :: "launch_event \<Rightarrow> launch \<Rightarrow> bool" where
  "launch_enabled (La_Specs ids) s = (la_specs s = [])"
| "launch_enabled (La_Keys ids) s = (la_keys s = [])"
| "launch_enabled (La_Groups rs) s = (la_groups s = None)"
| "launch_enabled (La_Right ch) s = (la_groups s \<noteq> None)"
| "launch_enabled (La_Left ch) s = (la_groups s \<noteq> None)"
| "launch_enabled e s = True"

text \<open>The dialog as its page is loaded: the click that opened it has disabled the submit button.\<close>

definition launch_open :: "bool \<Rightarrow> launch" where
  "launch_open checked =
     \<lparr>la_form = \<lparr>vals = \<lambda>_. '''', is_ready = launch_flags, submit_disabled = True, timers = []\<rparr>,
      la_checked = checked, la_mail_off = False, la_editor = vif_initialize, la_specs = [], la_keys = [],
      la_groups = None, la_eths = None\<rparr>"

section \<open>When the launch button is enabled\<close>

definition groups_chosen :: "launch \<Rightarrow> nat" where
  "groups_chosen s = (case la_groups s of Some g \<Rightarrow> getRightSelectionCount g | None \<Rightarrow> 0)"

text \<open>What \<open>ready\<close> asks of the monitoring fields, and of the whole dialog.\<close>

definition monitoring_ok :: "launch \<Rightarrow> bool" where
  "monitoring_ok s =
     (let mails = map (vals (la_form s)) mail_ids in
      (la_checked s \<longrightarrow> (\<exists>v\<in>set mails. v \<noteq> '''' \<and> mail_valid v) \<and> (\<forall>v\<in>set mails. v \<noteq> '''' \<longrightarrow> mail_valid v))
      \<and> validate_all (la_editor s))"

definition launch_filled :: "launch \<Rightarrow> bool" where
  "launch_filled s =
     (vals (la_form s) ''#display_name'' \<noteq> '''' \<and> la_specs s \<noteq> [] \<and> la_keys s \<noteq> []
      \<and> groups_chosen s > 0 \<and> la_eths s \<noteq> None)"

definition six_flags :: "(string \<Rightarrow> bool) \<Rightarrow> bool" where
  "six_flags r = (r ''instance_spec'' \<and> r ''ssh_keypair'' \<and> r ''security_groups'' \<and> r ''networks''
     \<and> r ''display_name'' \<and> r ''monitoring'')"

definition launch_inv :: "launch \<Rightarrow> bool" where
  "launch_inv s =
     (let f = la_form s in
      (\<not> submit_disabled f \<longrightarrow> six_flags (is_ready f))
      \<and> ((''#display_name'', CheckText ''display_name'') \<in> set (timers f)
           \<or> (is_ready f ''display_name'' \<longleftrightarrow> vals f ''#display_name'' \<noteq> ''''))
      \<and> (\<forall>t\<in>set (timers f). t = (''#display_name'', CheckText ''display_name'') \<or> snd t = CheckText ''monitoring'')
      \<and> (is_ready f ''instance_spec'' \<longleftrightarrow> la_specs s \<noteq> [])
      \<and> (is_ready f ''ssh_keypair'' \<longleftrightarrow> la_keys s \<noteq> [])
      \<and> (is_ready f ''security_groups'' \<longleftrightarrow> groups_chosen s > 0)
      \<and> (is_ready f ''networks'' \<longleftrightarrow> la_eths s \<noteq> None))"

text \<open>One call of \<open>ready\<close> sets the monitoring flag and the button, and nothing else.\<close>

definition mails_ok :: "bool \<Rightarrow> vif \<Rightarrow> (string \<Rightarrow> string) \<Rightarrow> bool" where
  "mails_ok checked mon vs =
     ((checked \<longrightarrow> (\<exists>i\<in>set mail_ids. vs i \<noteq> '''' \<and> mail_valid (vs i)) \<and> (\<forall>i\<in>set mail_ids. vs i \<noteq> '''' \<longrightarrow> mail_valid (vs i)))
      \<and> validate_all mon)"

lemma launch_ready_eq:
  "launch_ready checked mon f =
     f\<lparr>is_ready := (is_ready f)(''monitoring'' := mails_ok checked mon (vals f)),
       submit_disabled := \<not> six_flags ((is_ready f)(''monitoring'' := mails_ok checked mon (vals f)))\<rparr>"
proof -
  have a: "list_all (\<lambda>i. snd i = False) (map (\<lambda>i. address_tuple (vals f i)) is)
      \<longleftrightarrow> \<not> (\<exists>i\<in>set is. vals f i \<noteq> '''' \<and> mail_valid (vals f i))" for "is"
    by (induction "is") (auto simp: address_tuple_def simp del: mail_valid.simps)
  have b: "list_all (\<lambda>i. (fst i = True \<and> snd i = True) \<or> fst i = False) (map (\<lambda>i. address_tuple (vals f i)) is)
      \<longleftrightarrow> (\<forall>i\<in>set is. vals f i \<noteq> '''' \<longrightarrow> mail_valid (vals f i))" for "is"
    by (induction "is") (auto simp: address_tuple_def simp del: mail_valid.simps)
  define A where "A = (\<exists>i\<in>set mail_ids. vals f i \<noteq> '''' \<and> mail_valid (vals f i))"
  define B where "B = (\<forall>i\<in>set mail_ids. vals f i \<noteq> '''' \<longrightarrow> mail_valid (vals f i))"
  show ?thesis
    unfolding launch_ready_def Let_def a b mails_ok_def A_def [symmetric] B_def [symmetric]
    by (cases checked; cases "validate_all mon"; cases A; cases B)
      (simp_all add: set_ready_def disable_submit_def six_flags_def)
qed

lemma monitoring_ok_eq: "monitoring_ok s = mails_ok (la_checked s) (la_editor s) (vals (la_form s))"
  by (simp add: monitoring_ok_def mails_ok_def Let_def del: mail_valid.simps)

text \<open>The part of the invariant that does not speak of the button; a call of \<open>ready\<close> restores the rest.\<close>

definition flags_ok :: "launch \<Rightarrow> bool" where
  "flags_ok s =
     (let f = la_form s in
      ((''#display_name'', CheckText ''display_name'') \<in> set (timers f)
           \<or> (is_ready f ''display_name'' \<longleftrightarrow> vals f ''#display_name'' \<noteq> ''''))
      \<and> (\<forall>t\<in>set (timers f). t = (''#display_name'', CheckText ''display_name'') \<or> snd t = CheckText ''monitoring'')
      \<and> (is_ready f ''instance_spec'' \<longleftrightarrow> la_specs s \<noteq> [])
      \<and> (is_ready f ''ssh_keypair'' \<longleftrightarrow> la_keys s \<noteq> [])
      \<and> (is_ready f ''security_groups'' \<longleftrightarrow> groups_chosen s > 0)
      \<and> (is_ready f ''networks'' \<longleftrightarrow> la_eths s \<noteq> None))"

lemma launch_inv_flags:
  "launch_inv s \<longleftrightarrow> (\<not> submit_disabled (la_form s) \<longrightarrow> six_flags (is_ready (la_form s))) \<and> flags_ok s"
  by (simp only: launch_inv_def flags_ok_def Let_def)

lemma launch_frames [simp]:
  "groups_chosen (s\<lparr>la_form := f\<rparr>) = groups_chosen s" "launch_ready_of (s\<lparr>la_form := f\<rparr>) = launch_ready_of s"
  by (simp_all add: groups_chosen_def launch_ready_of_def)

lemma ready_inv:
  assumes "flags_ok (s\<lparr>la_form := f\<rparr>)"
  shows "launch_inv (s\<lparr>la_form := launch_ready c v f\<rparr>)"
  using assms unfolding launch_inv_flags flags_ok_def Let_def launch_ready_eq by (simp add: six_flags_def)

lemma read_inv:
  assumes "flags_ok (s\<lparr>la_form := set_ready n (vals f sel \<noteq> '''') f\<rparr>)"
  shows "launch_inv (s\<lparr>la_form := read_field_text (launch_ready c v) sel (CheckText n) f\<rparr>)"
proof -
  have e: "read_field_text (launch_ready c v) sel (CheckText n) f = launch_ready c v (set_ready n (vals f sel \<noteq> '''') f)"
    by (cases "vals f sel = ''''") simp_all
  show ?thesis unfolding e by (rule ready_inv [OF assms])
qed

lemma launch_fields_cases:
  assumes "p \<in> set launch_fields"
  shows "p = (''display_name'', ''#display_name'') \<or> (fst p = ''monitoring'' \<and> snd p \<noteq> ''#display_name'')"
proof -
  have "list_all (\<lambda>p. p = (''display_name'', ''#display_name'') \<or> (fst p = ''monitoring'' \<and> snd p \<noteq> ''#display_name''))
      launch_fields" by code_simp
  with assms show ?thesis by (simp add: list_all_iff)
qed

lemma launch_fields_distinct: "distinct (map snd launch_fields)"
  by code_simp

lemma display_field: "sel \<notin> snd ` set launch_fields \<Longrightarrow> sel \<noteq> ''#display_name''"
  by (auto simp: launch_fields_def)

text \<open>Setting a flag, changing a text, starting a timer, taking it.\<close>

lemma flags_ok_monitoring:
  "flags_ok (s\<lparr>la_form := f\<rparr>) \<Longrightarrow> flags_ok (s\<lparr>la_form := set_ready ''monitoring'' b f\<rparr>)"
  by (simp add: flags_ok_def set_ready_def Let_def)

lemma flags_ok_value:
  "flags_ok s \<Longrightarrow> sel \<noteq> ''#display_name'' \<Longrightarrow>
     flags_ok (s\<lparr>la_form := (la_form s)\<lparr>vals := (vals (la_form s))(sel := new)\<rparr>\<rparr>)"
  by (simp add: flags_ok_def Let_def)

lemma flags_ok_name:
  assumes "flags_ok s" "\<forall>t\<in>set ts. t \<in> set (timers (la_form s))"
  shows "flags_ok (s\<lparr>la_form := set_ready ''display_name'' (vs ''#display_name'' \<noteq> '''')
     ((la_form s)\<lparr>vals := vs, timers := ts\<rparr>)\<rparr>)"
  using assms by (simp add: flags_ok_def set_ready_def Let_def)

lemma flags_ok_drop:
  assumes "flags_ok s" "timers (la_form s) = (sel, CheckText ''monitoring'') # ts"
  shows "flags_ok (s\<lparr>la_form := (la_form s)\<lparr>timers := ts\<rparr>\<rparr>)"
  using assms by (simp add: flags_ok_def Let_def)

lemma flags_ok_timer:
  assumes "flags_ok s" "p \<in> set launch_fields"
  shows "flags_ok (s\<lparr>la_form := (la_form s)\<lparr>timers := timers (la_form s) @ [(snd p, CheckText (fst p))],
     vals := (vals (la_form s))(snd p := new)\<rparr>\<rparr>)"
  using launch_fields_cases [OF assms(2)]
proof
  assume "p = (''display_name'', ''#display_name'')"
  with assms(1) show ?thesis by (simp add: flags_ok_def Let_def)
next
  assume "fst p = ''monitoring'' \<and> snd p \<noteq> ''#display_name''"
  with assms(1) show ?thesis by (auto simp: flags_ok_def Let_def)
qed

lemma button_frame:
  "submit_disabled (la_form t) = submit_disabled (la_form s) \<Longrightarrow> is_ready (la_form t) = is_ready (la_form s) \<Longrightarrow>
     launch_inv s \<Longrightarrow> flags_ok t \<Longrightarrow> launch_inv t"
  by (simp add: launch_inv_flags)

lemma read_field_inv:
  assumes "flags_ok s" "p \<in> set launch_fields"
  shows "launch_inv (s\<lparr>la_form := read_field_text (launch_ready c v) (snd p) (CheckText (fst p))
     ((la_form s)\<lparr>vals := (vals (la_form s))(snd p := new)\<rparr>)\<rparr>)"
  using launch_fields_cases [OF assms(2)]
proof
  assume p: "p = (''display_name'', ''#display_name'')"
  show ?thesis unfolding p fst_conv snd_conv
    using flags_ok_name [OF assms(1), of "timers (la_form s)" "(vals (la_form s))(''#display_name'' := new)"]
    by (intro read_inv) simp
next
  assume p: "fst p = ''monitoring'' \<and> snd p \<noteq> ''#display_name''"
  then show ?thesis
    using flags_ok_monitoring [OF flags_ok_value [OF assms(1)]] by (intro read_inv) simp
qed

lemma launch_text_delayed:
  assumes inv: "launch_inv s" and ty: "ty \<in> {Paste_input, Cut_input}"
  shows "launch_inv (s\<lparr>la_form := (let f' = fire (text_binds launch_fields) (launch_ready_of s) sel ty (la_form s)
      in f'\<lparr>vals := (vals f')(sel := new)\<rparr>)\<rparr>)"
proof (cases "sel \<in> snd ` set launch_fields")
  case True
  then obtain p where p: "p \<in> set launch_fields" "sel = snd p" by auto
  have f: "fire (text_binds launch_fields) (launch_ready_of s) sel ty (la_form s)
      = (la_form s)\<lparr>timers := timers (la_form s) @ [(snd p, CheckText (fst p))]\<rparr>"
    unfolding p(2) using ty by (subst fire_field [OF p(1) launch_fields_distinct]) (auto simp: checkTextField_def)
  have "flags_ok s" using inv by (simp add: launch_inv_flags)
  from flags_ok_timer [OF this p(1), of new] show ?thesis unfolding f Let_def unfolding p(2)
    by (intro button_frame [OF _ _ inv]) simp_all
next
  case False
  have "flags_ok s" using inv by (simp add: launch_inv_flags)
  from flags_ok_value [OF this display_field [OF False]] show ?thesis
    unfolding fire_other [OF False] Let_def by (intro button_frame [OF _ _ inv]) simp_all
qed

lemma launch_timer_inv:
  assumes inv: "launch_inv s"
  shows "launch_inv (launch_text Timer s)"
proof (cases "timers (la_form s)")
  case Nil
  with inv show ?thesis by (simp add: launch_text_def)
next
  case (Cons t ts)
  have fl: "flags_ok s" using inv by (simp add: launch_inv_flags)
  then have "t = (''#display_name'', CheckText ''display_name'') \<or> snd t = CheckText ''monitoring''"
    using Cons by (simp add: flags_ok_def Let_def)
  then obtain sel n where t: "t = (sel, CheckText n)"
    and n: "(sel = ''#display_name'' \<and> n = ''display_name'') \<or> n = ''monitoring''"
    by (cases t) auto
  have r: "launch_text Timer s = s\<lparr>la_form := read_field_text (launch_ready (la_checked s) (la_editor s)) sel (CheckText n)
      ((la_form s)\<lparr>timers := ts\<rparr>)\<rparr>"
    unfolding launch_text_def launch_ready_of_def using Cons t by simp
  from n show ?thesis
  proof
    assume n: "sel = ''#display_name'' \<and> n = ''display_name''"
    have "\<forall>t\<in>set ts. t \<in> set (timers (la_form s))" using Cons by simp
    from flags_ok_name [OF fl this, of "vals (la_form s)"] n show ?thesis unfolding r
      by (intro read_inv) simp
  next
    assume n: "n = ''monitoring''"
    show ?thesis unfolding r n
      using flags_ok_monitoring [OF flags_ok_drop [OF fl Cons [unfolded t n]]] by (intro read_inv)
  qed
qed

lemma launch_text_inv:
  assumes inv: "launch_inv s"
  shows "launch_inv (launch_text e s)"
proof (cases e)
  case (Type sel new)
  have fl: "flags_ok s" using inv by (simp add: launch_inv_flags)
  show ?thesis
  proof (cases "sel \<in> snd ` set launch_fields")
    case True
    then obtain p where p: "p \<in> set launch_fields" "sel = snd p" by auto
    have "launch_text e s = s\<lparr>la_form := read_field_text (launch_ready (la_checked s) (la_editor s)) (snd p) (CheckText (fst p))
        ((la_form s)\<lparr>vals := (vals (la_form s))(snd p := new)\<rparr>)\<rparr>"
      unfolding Type p(2) launch_text_def launch_ready_of_def
      using p(1) by (simp add: fire_field launch_fields_distinct checkTextField_def del: read_field_text.simps)
    with read_field_inv [OF fl p(1)] show ?thesis by (simp del: read_field_text.simps)
  next
    case False
    from flags_ok_value [OF fl display_field [OF False]] show ?thesis
      unfolding Type launch_text_def form_step.simps fire_other [OF False]
      by (intro button_frame [OF _ _ inv]) simp_all
  qed
next
  case (Paste sel new)
  with launch_text_delayed [OF inv, of Paste_input] show ?thesis by (simp add: launch_text_def)
next
  case (Cut sel new)
  with launch_text_delayed [OF inv, of Cut_input] show ?thesis by (simp add: launch_text_def)
next
  case Timer
  with launch_timer_inv [OF inv] show ?thesis by simp
qed

lemma check_inv: "launch_inv s \<Longrightarrow> launch_inv (click_monitoring s)"
proof -
  assume "launch_inv s"
  then have "flags_ok (s\<lparr>la_checked := \<not> la_checked s\<rparr>)"
    by (simp add: launch_inv_flags flags_ok_def groups_chosen_def)
  then have "flags_ok ((s\<lparr>la_checked := \<not> la_checked s\<rparr>)\<lparr>la_form := la_form s\<rparr>)" by simp
  from ready_inv [OF flags_ok_monitoring [OF this]]
  have "launch_inv (s\<lparr>la_checked := \<not> la_checked s, la_form :=
      launch_ready c v (set_ready ''monitoring'' b (la_form s))\<rparr>)" for c v b by simp
  moreover have "launch_inv (t\<lparr>la_mail_off := b\<rparr>) = launch_inv t" for t b
    by (simp add: launch_inv_flags flags_ok_def groups_chosen_def)
  ultimately show ?thesis
    by (simp add: click_monitoring_def checkTextField_def launch_ready_of_def Let_def)
qed

lemma on_ready_inv:
  assumes "flags_ok s" "groups_chosen t = n" "la_form t = la_form s" "la_specs t = la_specs s"
    "la_keys t = la_keys s" "la_eths t = la_eths s"
  shows "launch_inv (launch_on_ready n t)"
proof -
  have "flags_ok (t\<lparr>la_form := set_ready ''security_groups'' (n > 0) (la_form s)\<rparr>)"
    using assms by (simp add: flags_ok_def set_ready_def Let_def)
  from ready_inv [OF this] show ?thesis
    by (cases "n > 0") (simp_all add: launch_on_ready_def launch_ready_of_def assms(3))
qed

lemma move_inv:
  assumes "launch_inv s" "la_groups s \<noteq> None"
  shows "launch_inv (move_groups move s)"
proof -
  obtain g where g: "la_groups s = Some g" using assms(2) by auto
  have "flags_ok s" using assms(1) by (simp add: launch_inv_flags)
  then show ?thesis unfolding move_groups_def g option.case
    by (rule on_ready_inv) (simp_all add: groups_chosen_def)
qed

lemma group_items_unchosen: "groups_chosen (groups_loaded rs s) = 0"
proof -
  have "column (\<lambda>i. i \<in> {i. item_selected (group_items rs ! i)}) (group_items rs) = []"
    by (auto simp: column_def group_items_def filter_empty_conv split: prod.splits)
  then show ?thesis
    by (simp add: groups_chosen_def groups_loaded_def selector_initialize_chooser getRightSelectionCount_def
        count_right_refresh chooser_def)
qed

lemma networks_inv: "launch_inv s \<Longrightarrow> launch_inv (networks_loaded uuids s)"
proof -
  assume "launch_inv s"
  then have "flags_ok (s\<lparr>la_eths := Some ([''none'', ''disconnected''] @ uuids),
      la_form := set_ready ''networks'' True (la_form s)\<rparr>)"
    by (simp add: launch_inv_flags flags_ok_def set_ready_def groups_chosen_def Let_def)
  then have "flags_ok ((s\<lparr>la_eths := Some ([''none'', ''disconnected''] @ uuids)\<rparr>)\<lparr>la_form :=
      set_ready ''networks'' True (la_form s)\<rparr>)" by simp
  from ready_inv [OF this] show ?thesis by (cases s) (simp add: networks_loaded_def launch_ready_of_def)
qed

lemma loaded_inv:
  assumes "launch_inv s"
  shows "la_specs s = [] \<Longrightarrow> launch_inv (specs_loaded ids s)"
    and "la_keys s = [] \<Longrightarrow> launch_inv (keys_loaded ids s)"
    and "la_groups s = None \<Longrightarrow> launch_inv (groups_loaded rs s)"
    and "launch_inv (s\<lparr>la_editor := v\<rparr>)"
proof -
  have off: "submit_disabled (la_form s)" if "la_specs s = [] \<or> la_keys s = []"
    using assms that unfolding launch_inv_flags flags_ok_def Let_def six_flags_def by blast
  show "launch_inv (specs_loaded ids s)" if "la_specs s = []"
    using assms that off
    by (cases ids) (simp_all add: launch_inv_flags flags_ok_def specs_loaded_def set_ready_def groups_chosen_def Let_def)
  show "launch_inv (keys_loaded ids s)" if "la_keys s = []"
    using assms that off
    by (cases ids) (simp_all add: launch_inv_flags flags_ok_def keys_loaded_def set_ready_def groups_chosen_def Let_def)
  show "launch_inv (groups_loaded rs s)" if "la_groups s = None"
    using assms that group_items_unchosen [of rs s]
    by (simp add: launch_inv_flags flags_ok_def groups_loaded_def groups_chosen_def Let_def)
  show "launch_inv (s\<lparr>la_editor := v\<rparr>)"
    using assms by (simp add: launch_inv_flags flags_ok_def groups_chosen_def Let_def)
qed

lemma launch_inv_open: "launch_inv (launch_open c)"
  by (simp add: launch_inv_def launch_open_def launch_flags_def groups_chosen_def Let_def)

lemma launch_inv_step:
  assumes "launch_inv s" "launch_enabled e s"
  shows "launch_inv (launch_step e s)"
  using assms loaded_inv [OF assms(1)]
  by (cases e) (simp_all add: launch_text_inv check_inv networks_inv move_inv)

interpretation launch_machine:
  machine "\<lambda>s. \<exists>c. s = launch_open c" launch_enabled launch_step launch_inv
  by unfold_locales (auto intro: launch_inv_step launch_inv_open)

text \<open>
  however the user types, pastes, checks and moves groups while the four answers arrive in any
  order: once the timers have fired, an enabled launch button means that the name has text, there
  is a spec, there is a key pair, at least one group is chosen, and the networks are there.
\<close>

theorem launch_form_safe:
  assumes "reachable (\<lambda>s. \<exists>c. s = launch_open c) launch_enabled launch_step s"
    and "timers (la_form s) = []" and "\<not> submit_disabled (la_form s)"
  shows "launch_filled s"
  using launch_machine.reachable_inv [OF assms(1)] assms(2,3)
  by (auto simp: launch_inv_def six_flags_def launch_filled_def Let_def)

text \<open>The steps that end with a call of \<open>ready\<close>, after which the button is exact.\<close>

fun calls_ready :: "launch_event \<Rightarrow> launch \<Rightarrow> bool" where
  "calls_ready La_Check s = True"
| "calls_ready (La_Nets uuids) s = True"
| "calls_ready (La_Right ch) s = True"
| "calls_ready (La_Left ch) s = True"
| "calls_ready (La_Text (Type sel t)) s = (sel \<in> snd ` set launch_fields)"
| "calls_ready (La_Text Timer) s = (timers (la_form s) \<noteq> [])"
| "calls_ready e s = False"

lemma on_ready_form: "\<exists>f. la_form (launch_on_ready n s) = launch_ready_of (launch_on_ready n s) f"
  by (cases "n > 0") (auto simp: launch_on_ready_def launch_ready_of_def)

lemma calls_ready_form:
  assumes "calls_ready e s" "launch_enabled e s" "launch_inv s"
  shows "\<exists>f. la_form (launch_step e s) = launch_ready_of (launch_step e s) f"
proof (cases e)
  case (La_Text x)
  have l: "launch_ready_of (launch_step e s) = launch_ready_of s"
    using La_Text by (simp add: launch_text_def)
  from assms(1) La_Text consider sel t where "x = Type sel t" "sel \<in> snd ` set launch_fields"
    | "x = Timer" "timers (la_form s) \<noteq> []" by (cases x) auto
  then show ?thesis
  proof cases
    case (1 sel t)
    then obtain p where p: "p \<in> set launch_fields" "sel = snd p" by auto
    have "la_form (launch_step e s) = read_field_text (launch_ready_of s) sel (CheckText (fst p))
        ((la_form s)\<lparr>vals := (vals (la_form s))(sel := t)\<rparr>)"
      using La_Text 1 p
      by (simp add: launch_text_def fire_field launch_fields_distinct checkTextField_def del: read_field_text.simps)
    with l show ?thesis by (auto simp: Let_def)
  next
    case 2
    then obtain t ts where ts: "timers (la_form s) = t # ts" by (cases "timers (la_form s)") auto
    have "t = (''#display_name'', CheckText ''display_name'') \<or> snd t = CheckText ''monitoring''"
      using assms(3) ts unfolding launch_inv_def Let_def by auto
    then obtain sel n where "t = (sel, CheckText n)" by (cases t) auto
    then have "la_form (launch_step e s) = read_field_text (launch_ready_of s) sel (CheckText n) ((la_form s)\<lparr>timers := ts\<rparr>)"
      using La_Text 2 ts by (simp add: launch_text_def del: read_field_text.simps)
    with l show ?thesis by (auto simp: Let_def)
  qed
next
  case La_Check
  then show ?thesis by (auto simp: click_monitoring_def checkTextField_def launch_ready_of_def Let_def)
next
  case (La_Nets us)
  then show ?thesis by (auto simp: networks_loaded_def launch_ready_of_def)
next
  case (La_Right ch)
  with assms obtain g where "la_groups s = Some g" by auto
  with La_Right on_ready_form show ?thesis by (simp add: move_groups_def)
next
  case (La_Left ch)
  with assms obtain g where "la_groups s = Some g" by auto
  with La_Left on_ready_form show ?thesis by (simp add: move_groups_def)
qed (use assms in simp_all)

text \<open>
  C27: Right after each step that calls \<open>ready\<close> - typing in a watched field, the check that follows a cut or a paste
  after a tenth of a second, the check box, a move of groups, the answer with the networks - the button is exact,
  provided that no check of the name is still to come: it is enabled if and only if the
  dialog is filled in and its monitoring fields are in order. While the check after a cut of the name is to come,
  the button is what the text before the cut made it.
\<close>

theorem launch_form_exact:
  assumes "reachable (\<lambda>s. \<exists>c. s = launch_open c) launch_enabled launch_step s"
    and "launch_enabled e s" and "calls_ready e s"
    and "(''#display_name'', CheckText ''display_name'') \<notin> set (timers (la_form (launch_step e s)))"
  shows "\<not> submit_disabled (la_form (launch_step e s)) \<longleftrightarrow>
     launch_filled (launch_step e s) \<and> monitoring_ok (launch_step e s)"
proof -
  let ?t = "launch_step e s"
  have inv: "launch_inv ?t"
    using launch_inv_step [OF launch_machine.reachable_inv [OF assms(1)] assms(2)] .
  obtain f where f: "la_form ?t = launch_ready_of ?t f" using calls_ready_form [OF assms(3,2) launch_machine.reachable_inv [OF assms(1)]] by blast
  have v: "vals (la_form ?t) = vals f" by (simp add: f launch_ready_of_def launch_ready_eq)
  have m: "is_ready (la_form ?t) ''monitoring'' = monitoring_ok ?t"
    unfolding monitoring_ok_eq v by (simp add: f launch_ready_of_def launch_ready_eq)
  have b: "submit_disabled (la_form ?t) = (\<not> six_flags (is_ready (la_form ?t)))"
    by (simp add: f launch_ready_of_def launch_ready_eq)
  show ?thesis
    unfolding b six_flags_def m launch_filled_def
    using inv assms(4) unfolding launch_inv_def Let_def by auto
qed

text \<open>
  but the answers with the specs and with the key pairs do not call \<open>ready\<close>: when one of them
  is the last thing to arrive, the button stays disabled though everything is there.
\<close>

theorem launch_late_answer:
  assumes "reachable (\<lambda>s. \<exists>c. s = launch_open c) launch_enabled launch_step s"
    and "la_specs s = []"
  shows "submit_disabled (la_form (launch_step (La_Specs ids) s))
     \<and> la_specs (launch_step (La_Specs ids) s) = ids"
proof -
  have "submit_disabled (la_form s)"
    using launch_machine.reachable_inv [OF assms(1)] assms(2)
    unfolding launch_inv_def Let_def six_flags_def by blast
  then show ?thesis by (simp add: specs_loaded_def set_ready_def Let_def)
qed

definition pick_all :: "option_elem \<Rightarrow> bool" where "pick_all o1 = True"

definition launch_demo :: "launch_event list" where
  "launch_demo = [La_Keys [''ssh-1''], La_Groups [(''sg-1'', ''default'')], La_Nets [''nw-1''],
     La_Text (Type ''#display_name'' ''web''), La_Right pick_all]"

lemma launch_demo_reachable:
  "reachable (\<lambda>s. \<exists>c. s = launch_open c) launch_enabled launch_step (fold launch_step launch_demo (launch_open False))"
proof -
  have "all_enabled launch_enabled launch_step launch_demo (launch_open False)" by code_simp
  then show ?thesis by (intro launch_machine.run_reachable reach_init) auto
qed

lemma launch_demo_specs_reachable:
  "reachable (\<lambda>s. \<exists>c. s = launch_open c) launch_enabled launch_step
     (launch_step (La_Specs [''is-1'']) (fold launch_step launch_demo (launch_open False)))"
proof (rule reach_step [OF launch_demo_reachable])
  show "launch_enabled (La_Specs [''is-1'']) (fold launch_step launch_demo (launch_open False))" by code_simp
qed

lemma launch_late_answer_witness:
  "submit_disabled (la_form (launch_step (La_Specs [''is-1'']) (fold launch_step launch_demo (launch_open False))))
   \<and> launch_filled (launch_step (La_Specs [''is-1'']) (fold launch_step launch_demo (launch_open False)))
   \<and> monitoring_ok (launch_step (La_Specs [''is-1'']) (fold launch_step launch_demo (launch_open False)))"
proof -
  have a: "la_specs (fold launch_step launch_demo (launch_open False)) = []" by code_simp
  have b: "launch_filled (launch_step (La_Specs [''is-1'']) (fold launch_step launch_demo (launch_open False)))"
    "monitoring_ok (launch_step (La_Specs [''is-1'']) (fold launch_step launch_demo (launch_open False)))"
    by code_simp+
  show ?thesis using launch_late_answer [OF launch_demo_reachable a] b by blast
qed

text \<open>The witness: the name is cut away; when the check comes the button is disabled.\<close>

lemma launch_form_exact_witness:
  "\<not> submit_disabled (la_form (launch_step (La_Text (Type ''#display_name'' ''web''))
     (launch_step (La_Specs [''is-1'']) (fold launch_step launch_demo (launch_open False)))))
   \<and> submit_disabled (la_form (launch_step (La_Text Timer)
     (fold launch_step (launch_demo @ [La_Specs [''is-1''], La_Text (Cut ''#display_name'' '''')]) (launch_open False))))"
proof -
  let ?s = "launch_step (La_Specs [''is-1'']) (fold launch_step launch_demo (launch_open False))"
  let ?e = "La_Text (Type ''#display_name'' ''web'')"
  let ?es = "launch_demo @ [La_Specs [''is-1''], La_Text (Cut ''#display_name'' '''')]"
  let ?c = "fold launch_step ?es (launch_open False)"
  have e: "launch_enabled ?e ?s" "calls_ready ?e ?s"
    "(''#display_name'', CheckText ''display_name'') \<notin> set (timers (la_form (launch_step ?e ?s)))"
    "launch_filled (launch_step ?e ?s)" "monitoring_ok (launch_step ?e ?s)"
    by code_simp+
  have "all_enabled launch_enabled launch_step ?es (launch_open False)" by code_simp
  then have r: "reachable (\<lambda>s. \<exists>c. s = launch_open c) launch_enabled launch_step ?c"
    by (intro launch_machine.run_reachable reach_init) auto
  have c: "launch_enabled (La_Text Timer) ?c" "calls_ready (La_Text Timer) ?c"
    "(''#display_name'', CheckText ''display_name'') \<notin> set (timers (la_form (launch_step (La_Text Timer) ?c)))"
    "\<not> launch_filled (launch_step (La_Text Timer) ?c)"
    by code_simp+
  show ?thesis using launch_form_exact [OF launch_demo_specs_reachable e(1-3)] e(4,5) launch_form_exact [OF r c(1-3)] c(4) by blast
qed

lemma launch_form_safe_witness:
  "groups_chosen (launch_step La_Check (launch_step (La_Specs [''is-1''])
     (fold launch_step (La_Text (Type ''#mailaddr_0'' ''a@b.c'') # launch_demo) (launch_open False)))) > 0"
proof -
  let ?s = "launch_step La_Check (launch_step (La_Specs [''is-1''])
     (fold launch_step (La_Text (Type ''#mailaddr_0'' ''a@b.c'') # launch_demo) (launch_open False)))"
  have "all_enabled launch_enabled launch_step
      ((La_Text (Type ''#mailaddr_0'' ''a@b.c'') # launch_demo) @ [La_Specs [''is-1''], La_Check]) (launch_open False)"
    by code_simp
  then have "reachable (\<lambda>s. \<exists>c. s = launch_open c) launch_enabled launch_step
      (fold launch_step ((La_Text (Type ''#mailaddr_0'' ''a@b.c'') # launch_demo) @ [La_Specs [''is-1''], La_Check]) (launch_open False))"
    by (intro launch_machine.run_reachable reach_init) auto
  then have r: "reachable (\<lambda>s. \<exists>c. s = launch_open c) launch_enabled launch_step ?s"
    by (simp del: launch_step.simps)
  have t: "timers (la_form ?s) = []" and b: "\<not> submit_disabled (la_form ?s)" by code_simp+
  show ?thesis using launch_form_safe [OF r t b] by (simp add: launch_filled_def del: launch_step.simps)
qed

section \<open>What the launch dialog sends\<close>

record launch_values =
  lv_image :: string
  lv_name :: string
  lv_host :: string
  lv_spec :: string
  lv_key :: string
  lv_groups :: "string list"
  lv_user_data :: string
  lv_monitoring :: bool
  lv_vifs :: "string list"
  lv_mail :: "string list"

text \<open>Only the name is escaped; the groups, the interfaces and the monitors are queries themselves.\<close>

definition launch_query :: "launch_values \<Rightarrow> vif \<Rightarrow> string" where
  "launch_query v mon =
     (let security_groups = map (\<lambda>g. field ''security_groups[]'' g) (lv_groups v);
          vifs = map (\<lambda>i. field ''vifs[]'' i) (lv_vifs v);
          data = [field ''image_id'' (lv_image v), field ''instance_spec_id'' (lv_spec v),
                  field ''host_name'' (lv_host v), field ''user_data'' (lv_user_data v),
                  join ''&'' security_groups, join ''&'' vifs, queryParams mon,
                  field ''ssh_key'' (lv_key v), field ''display_name'' (encodeURIComponent (lv_name v)),
                  field ''monitoring[enabled]'' (to_str (JBool (lv_monitoring v)))]
                 @ map (\<lambda>a. field ''monitoring[mail_address][]'' a) (filter (\<lambda>a. a \<noteq> '''') (lv_mail v))
      in join ''&'' data)"

definition launch_submit :: "launch_values \<Rightarrow> vif \<Rightarrow> ajax_settings option" where
  "launch_submit v mon =
     (if \<not> validate_all mon then None
      else Some (request_post \<lparr>p_url = ''/instances'', p_data = JStr (launch_query v mon), p_async = JUndef\<rparr>))"

lemma read_query_join_all: "read_query (join ''&'' ws) = concat (map read_query ws)"
proof (induction ws)
  case (Cons x xs)
  show ?case
  proof (cases xs)
    case (Cons y ys)
    have "join ''&'' (x # xs) = x @ ''&'' @ join ''&'' xs" unfolding Cons by (rule join.simps)
    then show ?thesis by (simp only: read_query_append Cons.IH list.map concat.simps)
  qed simp
qed simp

text \<open>The values of the dialog have nothing to escape but the name.\<close>

definition launch_plain :: "launch_values \<Rightarrow> bool" where
  "launch_plain v =
     (list_all plain_value ([lv_image v, lv_spec v, lv_host v, lv_user_data v, lv_key v] @ lv_groups v @ lv_vifs v @ lv_mail v))"

definition launch_sent :: "launch_values \<Rightarrow> vif \<Rightarrow> (string \<times> string option) list" where
  "launch_sent v mon =
     [(''image_id'', Some (lv_image v)), (''instance_spec_id'', Some (lv_spec v)), (''host_name'', Some (lv_host v)),
      (''user_data'', Some (lv_user_data v))]
     @ map (\<lambda>g. (''security_groups[]'', Some g)) (lv_groups v)
     @ map (\<lambda>i. (''vifs[]'', Some i)) (lv_vifs v)
     @ map (\<lambda>(k, x). (k, Some x)) (all_item_fields 0 (item_list mon))
     @ [(''ssh_key'', Some (lv_key v)), (''display_name'', Some (lv_name v)),
        (''monitoring[enabled]'', Some (if lv_monitoring v then ''true'' else ''false''))]
     @ map (\<lambda>a. (''monitoring[mail_address][]'', Some a)) (filter (\<lambda>a. a \<noteq> '''') (lv_mail v))"

lemma launch_read:
  assumes "launch_plain v" and "\<forall>r\<in>set (item_list mon). row_plain r"
  shows "read_query (launch_query v mon) = launch_sent v mon"
proof -
  have k: "plain_key ''image_id''" "plain_key ''instance_spec_id''" "plain_key ''host_name''" "plain_key ''user_data''"
    "plain_key ''security_groups[]''" "plain_key ''vifs[]''" "plain_key ''ssh_key''" "plain_key ''display_name''"
    "plain_key ''monitoring[enabled]''" "plain_key ''monitoring[mail_address][]''"
    by (simp_all add: plain_key_def)
  have p: "plain_value (lv_image v)" "plain_value (lv_spec v)" "plain_value (lv_host v)" "plain_value (lv_user_data v)"
    "plain_value (lv_key v)" "\<forall>x\<in>set (lv_groups v). plain_value x" "\<forall>x\<in>set (lv_vifs v). plain_value x"
    "\<forall>x\<in>set (lv_mail v). plain_value x"
    using assms(1) by (auto simp: launch_plain_def list_all_iff)
  have b: "plain_value (to_str (JBool x))" for x by (simp add: plain_value_def)
  have many: "concat (map read_query (map (\<lambda>x. field key x) xs)) = map (\<lambda>x. (key, Some x)) xs"
    if "plain_key key" "\<forall>x\<in>set xs. plain_value x" for key xs
    using that by (induction xs) (simp_all add: read_plain)
  have m: "read_query (queryParams mon) = map (\<lambda>(k, x). (k, Some x)) (all_item_fields 0 (item_list mon))"
    using read_query_loop [OF assms(2)] by (simp add: queryParams_def read_all_def)
  have mails: "\<forall>x\<in>set (filter (\<lambda>a. a \<noteq> '''') (lv_mail v)). plain_value x" using p(8) by simp
  show ?thesis
    unfolding launch_query_def Let_def read_query_join_all map_append concat_append launch_sent_def many [OF k(10) mails]
    by (simp only: list.map concat.simps read_query_join_all many [OF k(5) p(6)] many [OF k(6) p(7)] m
        read_plain [OF k(1) p(1)] read_plain [OF k(2) p(2)] read_plain [OF k(3) p(3)] read_plain [OF k(4) p(4)]
        read_plain [OF k(7) p(5)] read_encoded [OF k(8)] read_plain [OF k(9) b]) simp
qed

text \<open>
  what the server reads from the launch request. With nothing to escape in the values beside
  the name, it reads the image, the spec, the host name, the user data, the groups that were chosen
  and the interfaces in their order, the monitors of the editor, the key, the name whatever
  characters it has, the switch, and the addresses that are not empty.
\<close>

theorem launch_query_reads:
  assumes "launch_plain v" and "\<forall>r\<in>set (item_list mon). row_plain r"
  shows "read_query (launch_query v mon) = launch_sent v mon"
  using assms by (rule launch_read)

definition launch_values_demo :: launch_values where
  "launch_values_demo = \<lparr>lv_image = ''wmi-1'', lv_name = ''a&b=c'', lv_host = ''h'', lv_spec = ''is-1'', lv_key = ''ssh-1'',
     lv_groups = [''sg-1'', ''sg-2''], lv_user_data = '''', lv_monitoring = False,
     lv_vifs = [''nw-1'', ''none'', ''none'', ''none'', ''none''], lv_mail = ['''', '''', '''']\<rparr>"

lemma launch_query_reads_witness:
  "(''display_name'', Some ''a&b=c'') \<in> set (read_query (launch_query launch_values_demo vif_demo))"
proof -
  have p: "launch_plain launch_values_demo" by code_simp
  have "list_all row_plain (item_list vif_demo)" by code_simp
  then have r: "\<forall>r\<in>set (item_list vif_demo). row_plain r" by (simp add: list_all_iff)
  show ?thesis using launch_query_reads [OF p r] by (simp add: launch_sent_def launch_values_demo_def)
qed

text \<open>The user data is free text, but not escaped: what follows an ampersand in it is lost to other fields.\<close>

lemma user_data_cut:
  "plain_value d \<Longrightarrow> read_query (field ''user_data'' (d @ ''&'' @ e)) = (''user_data'', Some d) # read_query e"
proof -
  assume d: "plain_value d"
  have f: "field ''user_data'' (d @ ''&'' @ e) = field ''user_data'' d @ ''&'' @ e" by (simp add: field_def)
  have k: "plain_key ''user_data''" by (simp add: plain_key_def)
  show ?thesis unfolding f by (simp only: read_query_append read_plain [OF k d]) simp
qed

section \<open>The panel and its buttons\<close>

text \<open>\<open>im_rows\<close> holds id, state and owner of each row; \<open>im_owner\<close> is the account that is logged in.\<close>

record impanel = rpanel +
  im_rows :: "(string \<times> string \<times> string) list"
  im_owner :: string
  bt_launch_instance :: dialog
  bt_delete_image :: dialog

definition im_state :: "impanel \<Rightarrow> string \<Rightarrow> string" where
  "im_state p i = state_text (map (\<lambda>(u, st, ow). (u, st)) (im_rows p)) (''#row-'' @ i)"

definition im_row_owner :: "impanel \<Rightarrow> string \<Rightarrow> string" where
  "im_row_owner p i = state_text (map (\<lambda>(u, st, ow). (u, ow)) (im_rows p)) (''#row-'' @ i)"

definition image_changeButtonState :: "impanel \<Rightarrow> impanel" where
  "image_changeButtonState p =
     (let i = check_id (rp_list p); state = im_state p i; image_owner = im_row_owner p i in
      if state = ''available'' then
        (let p1 = p\<lparr>bt_launch_instance := enableDialogButton (bt_launch_instance p)\<rparr> in
         if im_owner p \<noteq> image_owner then p1\<lparr>bt_delete_image := disableDialogButton (bt_delete_image p1)\<rparr>
         else p1\<lparr>bt_delete_image := enableDialogButton (bt_delete_image p1)\<rparr>)
      else p\<lparr>bt_launch_instance := disableDialogButton (bt_launch_instance p),
             bt_delete_image := disableDialogButton (bt_delete_image p)\<rparr>)"

definition image_off :: "impanel \<Rightarrow> impanel" where
  "image_off p = p\<lparr>bt_launch_instance := disableDialogButton (bt_launch_instance p),
                   bt_delete_image := disableDialogButton (bt_delete_image p)\<rparr>"

definition image_buttons :: "impanel \<Rightarrow> bool \<times> bool" where
  "image_buttons p = (\<not> is_disabled (bt_launch_instance p), \<not> is_disabled (bt_delete_image p))"

definition image_init :: "string \<Rightarrow> impanel" where
  "image_init owner = rpanel.extend (rpanel_init ''/machine_images/list/'' 10 1)
     \<lparr>im_rows = [], im_owner = owner, bt_launch_instance = disableDialogButton dialog_initialize,
      bt_delete_image = disableDialogButton dialog_initialize\<rparr>"

definition image_refresh :: "impanel \<Rightarrow> impanel" where
  "image_refresh p = rpanel_refresh ''/machine_images/list/'' image_off p"

definition image_updatePagenate :: "impanel \<Rightarrow> impanel" where
  "image_updatePagenate p = rpanel_updatePagenate ''/machine_images/list/'' image_off p"

definition image_contentChange :: "int \<Rightarrow> (string \<times> string \<times> string) list \<Rightarrow> impanel \<Rightarrow> impanel" where
  "image_contentChange tot rows p = (rpanel_content tot p)\<lparr>im_rows := rows\<rparr>"

text \<open>The edit button of a row is enabled for the owner's images.\<close>

definition image_edit_enabled :: "string \<Rightarrow> impanel \<Rightarrow> bool" where
  "image_edit_enabled uuid p = (uuid \<noteq> '''' \<and> im_owner p = im_row_owner p uuid)"

text \<open>A click on a radio button publishes \<open>checked_radio\<close>, for which \<open>changeButtonState\<close> is subscribed.\<close>

definition image_click_radio :: "string \<Rightarrow> impanel \<Rightarrow> impanel" where
  "image_click_radio i p =
     rpanel_send (request_get \<lparr>p_url = getPagePath ''/machine_images/show/'' i JUndef, p_data = JUndef, p_async = JUndef\<rparr>)
       (image_changeButtonState (p\<lparr>rp_list := fst (click_radio i (rp_list p))\<rparr>))"

text \<open>The clicks on the two buttons; \<open>None\<close> is an exception.\<close>

definition image_click_launch :: "impanel \<Rightarrow> impanel option" where
  "image_click_launch p =
     (if \<not> is_disabled (bt_launch_instance p) then
        (case currentChecked (rp_list p) of
           Some i \<Rightarrow> map_option (\<lambda>d. p\<lparr>bt_launch_instance := d\<rparr>)
                      (disabledButton 1 True (dialog_open (Some [i]) (bt_launch_instance p)))
         | None \<Rightarrow> Some p)
      else Some p)"

definition image_click_delete :: "impanel \<Rightarrow> impanel" where
  "image_click_delete p =
     (if \<not> is_disabled (bt_delete_image p) then
        (case currentChecked (rp_list p) of
           Some i \<Rightarrow> p\<lparr>bt_delete_image := dialog_open (Some [i]) (bt_delete_image p)\<rparr>
         | None \<Rightarrow> p)
      else p)"

text \<open>The requests of the edit and the delete dialogs.\<close>

definition image_update_request :: "string \<Rightarrow> string \<Rightarrow> string \<Rightarrow> ajax_settings" where
  "image_update_request i display_name description =
     request_put \<lparr>p_url = ''/machine_images/'' @ i @ ''.json'',
       p_data = JStr (field ''display_name'' (encodeURIComponent display_name) @ ''&''
                      @ field ''description'' (encodeURIComponent description)), p_async = JUndef\<rparr>"

definition image_delete_request :: "string \<Rightarrow> ajax_settings" where
  "image_delete_request i = request_del \<lparr>p_url = ''/machine_images/'' @ i @ ''.json'', p_data = JUndef, p_async = JUndef\<rparr>"

lemma image_update_read:
  "sent_fields (image_update_request i nm desc)
     = (''PUT'', ''/machine_images/'' @ i @ ''.json'', [(''display_name'', Some nm), (''description'', Some desc)])"
proof -
  have "read_query (field ''display_name'' (encodeURIComponent nm) @ ''&'' @ field ''description'' (encodeURIComponent desc))
      = [(''display_name'', Some nm), (''description'', Some desc)]"
    by (simp only: read_query_append read_encoded key_keys) simp
  then show ?thesis unfolding image_update_request_def sent_fields_put by simp
qed

datatype image_target = Im_Actions | Im_Launch | Im_Delete

definition image_subscribe :: "(image_target, unit, impanel) notification \<Rightarrow> (image_target, unit, impanel) notification" where
  "image_subscribe n =
     (let s1 = snd (subscribe ''checked_radio'' Im_Actions ''changeButtonState'' () n);
          s2 = snd (subscribe ''change_pagenate'' Im_Launch ''disableDialogButton'' () s1)
      in snd (subscribe ''change_pagenate'' Im_Delete ''disableDialogButton'' () s2))"

fun image_call :: "(image_target, unit, impanel) calls" where
  "image_call Im_Actions m o1 p = (image_changeButtonState p, [])"
| "image_call Im_Launch m o1 p = (p\<lparr>bt_launch_instance := disableDialogButton (bt_launch_instance p)\<rparr>, [])"
| "image_call Im_Delete m o1 p = (p\<lparr>bt_delete_image := disableDialogButton (bt_delete_image p)\<rparr>, [])"

definition image_bus :: "(image_target, unit, impanel) notification" where
  "image_bus = image_subscribe (fold create_topic
     [''change_pagenate'', ''checked_box'', ''unchecked_box'', ''checked_radio'', ''close_dialog''] notification_init)"

lemma image_bus_topics:
  "topics image_bus ''checked_radio'' =
     Some [\<lparr>target = Im_Actions, method_name = ''changeButtonState'', options = (), sub_id = 1\<rparr>]"
  "topics image_bus ''change_pagenate'' =
     Some [\<lparr>target = Im_Launch, method_name = ''disableDialogButton'', options = (), sub_id = 2\<rparr>,
           \<lparr>target = Im_Delete, method_name = ''disableDialogButton'', options = (), sub_id = 3\<rparr>]"
  "evaluation_list image_bus = Map.empty"
  by (simp_all add: image_bus_def image_subscribe_def bus_simps Let_def)

lemma image_call_quiet: "quiet image_call"
  unfolding quiet_def
proof (intro allI)
  fix t m o1 p show "snd (image_call t m o1 p) = []" by (cases t) auto
qed

lemma image_bus_reaches_buttons:
  "publish 5 image_call image_bus ''checked_radio'' (i, p) = Some (1, image_changeButtonState p)"
  "\<exists>q. publish 5 image_call image_bus ''change_pagenate'' (i, p) = Some (2, q) \<and> image_buttons q = (False, False)"
proof -
  have e: "evaluate sid image_bus s" for sid s by (simp add: evaluate_def image_bus_topics)
  show "publish 5 image_call image_bus ''checked_radio'' (i, p) = Some (1, image_changeButtonState p)"
    using publish_quiet [OF image_call_quiet image_bus_topics(1), of 5 i p] by (simp add: deliver_def e)
  show "\<exists>q. publish 5 image_call image_bus ''change_pagenate'' (i, p) = Some (2, q) \<and> image_buttons q = (False, False)"
    using publish_quiet [OF image_call_quiet image_bus_topics(2), of 5 i p]
    by (simp add: deliver_def e image_buttons_def dialog_defs)
qed

lemma image_text_one:
  assumes "distinct (map fst (im_rows p))" "plain_id i" "(i, st, ow) \<in> set (im_rows p)"
  shows "im_state p i = st" "im_row_owner p i = ow"
proof -
  have d: "distinct (map fst (map (\<lambda>(u, st, ow). (u, st)) (im_rows p)))"
    "distinct (map fst (map (\<lambda>(u, st, ow). (u, ow)) (im_rows p)))"
    using assms(1) by (simp_all add: comp_def case_prod_beta)
  have "(i, st) \<in> set (map (\<lambda>(u, st, ow). (u, st)) (im_rows p))" using assms(3) by force
  then show "im_state p i = st"
    unfolding im_state_def state_text_one [OF d(1) assms(2)] row_state_def by (simp add: map_of_is_SomeI [OF d(1)])
  have "(i, ow) \<in> set (map (\<lambda>(u, st, ow). (u, ow)) (im_rows p))" using assms(3) by force
  then show "im_row_owner p i = ow"
    unfolding im_row_owner_def state_text_one [OF d(2) assms(2)] row_state_def by (simp add: map_of_is_SomeI [OF d(2)])
qed

text \<open>
  after a row is chosen, whatever was chosen before, the launch button is enabled exactly for an
  available image and the delete button exactly for an available image of one's own; the launch
  button then opens its dialog for that row with the submit button disabled, and otherwise nothing;
  a refresh disables both.
\<close>

theorem image_choice_buttons:
  assumes "distinct (map fst (im_rows p))" and "(i, st, ow) \<in> set (im_rows p)" and "plain_id i" and "i \<noteq> ''''"
  shows "let q = image_click_radio i p in
     image_buttons q = (st = ''available'', st = ''available'' \<and> ow = im_owner p)
     \<and> (\<exists>r. image_click_launch q = Some r
          \<and> d_loads (bt_launch_instance r) = d_loads (bt_launch_instance p) @ (if st = ''available'' then [Some [i]] else [])
          \<and> (st = ''available'' \<longrightarrow> d_buttons (bt_launch_instance r) 1))
     \<and> image_buttons (image_refresh q) = (False, False)"
proof -
  let ?p = "p\<lparr>rp_list := fst (click_radio i (rp_list p))\<rparr>"
  have c: "check_id (rp_list ?p) = i" "currentChecked (rp_list ?p) = Some i"
    using assms(4) by (simp_all add: check_id_def currentChecked_def click_radio_def)
  have s: "im_state ?p i = st" "im_row_owner ?p i = ow"
    using image_text_one [OF assms(1,3,2)] by (simp_all add: im_state_def im_row_owner_def)
  define q where "q = image_click_radio i p"
  have q: "bt_launch_instance q = (if st = ''available'' then enableDialogButton else disableDialogButton) (bt_launch_instance p)"
    "bt_delete_image q = (if st = ''available'' \<and> ow = im_owner p then enableDialogButton else disableDialogButton) (bt_delete_image p)"
    "rp_list q = rp_list ?p"
    unfolding q_def image_click_radio_def image_changeButtonState_def Let_def c s
    by (simp_all add: rpanel_send_def)
  have r: "image_buttons (image_refresh q) = (False, False)"
    by (simp add: image_refresh_def rpanel_refresh_def image_off_def image_buttons_def dialog_defs Let_def)
  have b: "image_buttons q = (st = ''available'', st = ''available'' \<and> ow = im_owner p)"
    by (simp add: image_buttons_def q dialog_defs)
  have l: "\<exists>r. image_click_launch q = Some r
      \<and> d_loads (bt_launch_instance r) = d_loads (bt_launch_instance p) @ (if st = ''available'' then [Some [i]] else [])
      \<and> (st = ''available'' \<longrightarrow> d_buttons (bt_launch_instance r) 1)"
    unfolding image_click_launch_def q c by (cases "st = ''available''") (simp_all add: dialog_defs q)
  show ?thesis using b l r by (simp add: q_def [symmetric] Let_def)
qed

definition image_demo :: impanel where
  "image_demo = image_contentChange 2 [(''wmi-1'', ''available'', ''a-shp''), (''wmi-2'', ''available'', ''a-usr'')] (image_init ''a-usr'')"

lemma image_choice_buttons_witness:
  "image_buttons (image_click_radio ''wmi-1'' image_demo) = (True, False)
   \<and> image_buttons (image_click_radio ''wmi-2'' image_demo) = (True, True)"
proof -
  have d: "distinct (map fst (im_rows image_demo))" by code_simp
  have m: "List.member (im_rows image_demo) (''wmi-1'', ''available'', ''a-shp'')"
    "List.member (im_rows image_demo) (''wmi-2'', ''available'', ''a-usr'')" by code_simp+
  have o1: "im_owner image_demo = ''a-usr''" by code_simp
  have p: "plain_id ''wmi-1''" "plain_id ''wmi-2''" by (simp_all add: plain_id_def)
  show ?thesis
    using image_choice_buttons [OF d _ p(1), of "''available''" "''a-shp''"]
      image_choice_buttons [OF d _ p(2), of "''available''" "''a-usr''"] m
    by (simp add: o1 Let_def)
qed

end
