(* ===== verification/Panel_Account.thy ===== *)
theory Panel_Account
  imports Panel_Radio
begin

text \<open>
  The users and the groups panels, \<open>users_panel.js\<close> and \<open>groups_panel.js\<close>: lists with radio
  buttons, the dialogs to create, edit and delete, and the dialogs that link users with groups.
\<close>

section \<open>The two panels\<close>

text \<open>
  Both panels have the same handlers, but groups are protected: \<open>prot\<close> is the test for the
  account of the data centre, which is neither edited nor deleted but raises an alert.
\<close>

record apanel = rpanel +
  a_rows :: "string list"
  a_create :: dialog
  a_edit :: dialog
  a_link :: dialog
  a_delete :: dialog
  a_alerts :: nat

text \<open>
  The refresh asks for the list only: the loop over \<open>checked_list\<close> is over the empty object, for
  radio buttons do not fill it. It neither removes a detail nor disables the delete button.
\<close>

definition account_refresh :: "string \<Rightarrow> apanel \<Rightarrow> apanel" where
  "account_refresh list_path p =
     (let pg = rp_pager p;
          p1 = p\<lparr>rp_url := getPagePath list_path (page_text pg) JUndef,
                 rp_data := getPagenateData (num_val (start pg)) (JNum (row pg))\<rparr>
      in rpanel_send (request_get \<lparr>p_url = rp_url p1, p_data = JStr (rp_data p1), p_async = JUndef\<rparr>) p1)"

definition account_updatePagenate :: "string \<Rightarrow> apanel \<Rightarrow> apanel" where
  "account_updatePagenate list_path p =
     account_refresh list_path (p\<lparr>rp_list := (rp_list p)\<lparr>shown_detail := None\<rparr>\<rparr>)"

text \<open>The content draws the rows and makes the two dialogs of the rows anew.\<close>

definition account_contentChange :: "int \<Rightarrow> string list \<Rightarrow> apanel \<Rightarrow> apanel" where
  "account_contentChange tot ids p =
     (rpanel_content tot p)\<lparr>a_rows := ids, a_edit := enableDialogButton dialog_initialize,
        a_link := enableDialogButton dialog_initialize\<rparr>"

text \<open>\<open>checkRadioButton\<close> switches the radio button of a row on, when there is one.\<close>

definition checkRadioButton :: "string \<Rightarrow> apanel \<Rightarrow> apanel" where
  "checkRadioButton uuid p =
     (if uuid \<noteq> '''' \<and> uuid \<in> set (a_rows p) then p\<lparr>rp_list := (rp_list p)\<lparr>radio := Some uuid\<rparr>\<rparr> else p)"

definition account_click_edit :: "(string \<Rightarrow> bool) \<Rightarrow> string \<Rightarrow> apanel \<Rightarrow> apanel" where
  "account_click_edit prot uuid p =
     checkRadioButton uuid
       (if uuid \<noteq> '''' then
          (if \<not> prot uuid then p\<lparr>a_edit := dialog_open (Some [uuid]) (a_edit p)\<rparr> else p\<lparr>a_alerts := Suc (a_alerts p)\<rparr>)
        else p)"

definition account_click_link :: "string \<Rightarrow> apanel \<Rightarrow> apanel" where
  "account_click_link uuid p =
     checkRadioButton uuid (if uuid \<noteq> '''' then p\<lparr>a_link := dialog_open (Some [uuid]) (a_link p)\<rparr> else p)"

definition account_click_create :: "apanel \<Rightarrow> apanel" where
  "account_click_create p = p\<lparr>a_create := dialog_open None (a_create p)\<rparr>"

definition account_click_delete :: "(string \<Rightarrow> bool) \<Rightarrow> apanel \<Rightarrow> apanel" where
  "account_click_delete prot p =
     (case currentChecked (rp_list p) of
        Some i \<Rightarrow> if \<not> prot i then p\<lparr>a_delete := dialog_open (Some [i]) (a_delete p)\<rparr> else p\<lparr>a_alerts := Suc (a_alerts p)\<rparr>
      | None \<Rightarrow> p)"

definition account_click_radio :: "string \<Rightarrow> string \<Rightarrow> apanel \<Rightarrow> apanel" where
  "account_click_radio show_path i p =
     rpanel_send (request_get \<lparr>p_url = getPagePath show_path i JUndef, p_data = JUndef, p_async = JUndef\<rparr>)
       (p\<lparr>rp_list := fst (click_radio i (rp_list p)), a_delete := enableDialogButton (a_delete p)\<rparr>)"

text \<open>The answer to a deletion refreshes and disables the delete button.\<close>

definition account_deleted :: "string \<Rightarrow> apanel \<Rightarrow> apanel" where
  "account_deleted list_path p =
     (let p1 = account_refresh list_path p in p1\<lparr>a_delete := disableDialogButton (a_delete p1)\<rparr>)"

text \<open>The answer to an update refreshes, then switches the radio button of the row on.\<close>

definition account_updated :: "string \<Rightarrow> string \<Rightarrow> apanel \<Rightarrow> apanel" where
  "account_updated list_path uuid p = checkRadioButton uuid (account_refresh list_path p)"

text \<open>The page change, published by the pager, disables the delete button.\<close>

definition account_page :: "string \<Rightarrow> apanel \<Rightarrow> apanel" where
  "account_page list_path p =
     account_updatePagenate list_path (p\<lparr>a_delete := disableDialogButton (a_delete p)\<rparr>)"

definition account_init :: "string \<Rightarrow> apanel" where
  "account_init list_path = rpanel.extend (rpanel_init list_path 10 1)
     \<lparr>a_rows = [], a_create = enableDialogButton dialog_initialize, a_edit = dialog_initialize,
      a_link = dialog_initialize, a_delete = disableDialogButton dialog_initialize, a_alerts = 0\<rparr>"

lemmas account_defs = account_refresh_def account_updatePagenate_def account_contentChange_def checkRadioButton_def
  account_click_edit_def account_click_link_def account_click_create_def account_click_delete_def
  account_click_radio_def account_deleted_def account_updated_def account_page_def

datatype account_event =
    A_Radio string | A_Detail string | A_Refresh | A_Page | A_Content int "string list"
  | A_Edit string | A_Link string | A_Create | A_Delete | A_Deleted | A_Updated string

fun account_step :: "(string \<Rightarrow> bool) \<Rightarrow> string \<Rightarrow> string \<Rightarrow> account_event \<Rightarrow> apanel \<Rightarrow> apanel" where
  "account_step prot lp sp (A_Radio i) p = account_click_radio sp i p"
| "account_step prot lp sp (A_Detail i) p = p\<lparr>rp_list := radio_response i (rp_list p)\<rparr>"
| "account_step prot lp sp A_Refresh p = account_refresh lp p"
| "account_step prot lp sp A_Page p = account_page lp p"
| "account_step prot lp sp (A_Content tot ids) p = account_contentChange tot ids p"
| "account_step prot lp sp (A_Edit i) p = account_click_edit prot i p"
| "account_step prot lp sp (A_Link i) p = account_click_link i p"
| "account_step prot lp sp A_Create p = account_click_create p"
| "account_step prot lp sp A_Delete p = account_click_delete prot p"
| "account_step prot lp sp A_Deleted p = account_deleted lp p"
| "account_step prot lp sp (A_Updated i) p = account_updated lp i p"

fun account_enabled :: "account_event \<Rightarrow> apanel \<Rightarrow> bool" where
  "account_enabled (A_Radio i) p = (i \<in> set (a_rows p))"
| "account_enabled (A_Edit i) p = (i \<in> set (a_rows p))"
| "account_enabled (A_Link i) p = (i \<in> set (a_rows p))"
| "account_enabled e p = True"

text \<open>What the edit and the delete dialogs were loaded for: one row that is not protected.\<close>

definition one_row :: "(string \<Rightarrow> bool) \<Rightarrow> string list option \<Rightarrow> bool" where
  "one_row prot l = (case l of Some [i] \<Rightarrow> i \<noteq> '''' \<and> \<not> prot i | _ \<Rightarrow> False)"

definition account_inv :: "(string \<Rightarrow> bool) \<Rightarrow> apanel \<Rightarrow> bool" where
  "account_inv prot p =
     ((\<forall>i. radio (rp_list p) = Some i \<longrightarrow> i \<in> set (a_rows p))
      \<and> list_all (one_row prot) (d_loads (a_delete p)) \<and> list_all (one_row prot) (d_loads (a_edit p)))"

lemma account_refresh_parts:
  "rp_list (account_refresh lp p) = rp_list p" "a_rows (account_refresh lp p) = a_rows p"
  "a_delete (account_refresh lp p) = a_delete p" "a_edit (account_refresh lp p) = a_edit p"
  by (simp_all add: account_refresh_def rpanel_send_def Let_def)

lemma checkRadioButton_parts:
  "a_rows (checkRadioButton i p) = a_rows p" "a_delete (checkRadioButton i p) = a_delete p"
  "a_edit (checkRadioButton i p) = a_edit p"
  by (simp_all add: checkRadioButton_def)

lemma checkRadioButton_inv: "account_inv prot p \<Longrightarrow> account_inv prot (checkRadioButton i p)"
  by (simp add: account_inv_def checkRadioButton_def)

lemma account_inv_step:
  assumes "account_inv prot p" "account_enabled e p"
  shows "account_inv prot (account_step prot lp sp e p)"
proof (cases e)
  case (A_Radio i)
  with assms show ?thesis by (simp add: account_inv_def account_click_radio_def click_radio_def rpanel_send_def)
next
  case (A_Edit i)
  with assms show ?thesis
    by (simp add: account_click_edit_def checkRadioButton_inv) (simp add: account_inv_def one_row_def checkRadioButton_def)
next
  case (A_Link i)
  with assms show ?thesis
    by (simp add: account_click_link_def) (simp add: account_inv_def checkRadioButton_def)
next
  case A_Delete
  with assms show ?thesis
    by (auto simp: account_click_delete_def account_inv_def currentChecked_Some one_row_def split: option.split)
next
  case (A_Updated i)
  with assms show ?thesis
    by (simp add: account_updated_def checkRadioButton_inv) (simp add: account_inv_def checkRadioButton_def account_refresh_parts)
qed (use assms in \<open>simp_all add: account_inv_def account_refresh_parts account_page_def account_updatePagenate_def
      account_deleted_def account_contentChange_def rpanel_content_def radio_response_def account_click_create_def Let_def\<close>)

lemma account_init_inv: "account_inv prot (account_init lp)"
  by (simp add: account_inv_def account_init_def rpanel.defs rpanel_init_def rpanel_send_def Let_def)

interpretation account_machine:
  machine "\<lambda>p. p = account_init lp" account_enabled "account_step prot lp sp" "account_inv prot"
  for prot lp sp
  by unfold_locales (auto intro: account_inv_step simp: account_init_inv)

definition user_step :: "account_event \<Rightarrow> apanel \<Rightarrow> apanel" where
  "user_step = account_step (\<lambda>uuid. False) ''/users/list/'' ''/users/show/''"

definition group_account_step :: "account_event \<Rightarrow> apanel \<Rightarrow> apanel" where
  "group_account_step = account_step (\<lambda>uuid. uuid = ''00000000'') ''/groups/list/'' ''/groups/show/''"

text \<open>
  whatever is clicked in the groups panel and however the answers interleave, the edit and the
  delete dialogs are only ever loaded for one row, and never for the account of the data centre.
\<close>

theorem data_centre_account_protected:
  assumes "reachable (\<lambda>p. p = account_init ''/groups/list/'') account_enabled group_account_step p"
  shows "\<not> (\<exists>l\<in>set (d_loads (a_delete p)) \<union> set (d_loads (a_edit p)). \<not> one_row (\<lambda>uuid. uuid = ''00000000'') l)"
  using account_machine.reachable_inv [OF assms [unfolded group_account_step_def]]
  by (auto simp: account_inv_def list_all_iff)

definition group_demo :: "account_event list" where
  "group_demo = [A_Content 2 [''00000000'', ''shpoolxx''], A_Radio ''00000000'', A_Delete, A_Edit ''00000000'',
     A_Radio ''shpoolxx'', A_Delete]"

lemma data_centre_account_protected_witness:
  "list_all (one_row (\<lambda>uuid. uuid = ''00000000'')) (d_loads (a_delete (fold group_account_step group_demo (account_init ''/groups/list/''))))
   \<and> d_loads (a_delete (fold group_account_step group_demo (account_init ''/groups/list/''))) = [Some [''shpoolxx'']]
   \<and> a_alerts (fold group_account_step group_demo (account_init ''/groups/list/'')) = 2"
proof -
  let ?p = "fold group_account_step group_demo (account_init ''/groups/list/'')"
  have "all_enabled account_enabled group_account_step group_demo (account_init ''/groups/list/'')" by code_simp
  then have r: "reachable (\<lambda>p. p = account_init ''/groups/list/'') account_enabled group_account_step ?p"
    unfolding group_account_step_def by (intro account_machine.run_reachable reach_init) auto
  have l: "d_loads (a_delete ?p) = [Some [''shpoolxx'']]" "a_alerts ?p = 2" by code_simp+
  show ?thesis using data_centre_account_protected [OF r] l by (auto simp: list_all_iff)
qed

text \<open>
  after an update the panels try to keep the choice: they refresh, then switch the radio button
  of the row on. But the refresh is answered later, and its content has all buttons off: the
  choice is lost, while the delete button stays as it was.
\<close>

theorem choice_lost_after_update:
  assumes "uuid \<in> set (a_rows p)" and "uuid \<noteq> ''''"
  shows "let q = account_step prot lp sp (A_Updated uuid) p;
             r = account_step prot lp sp (A_Content tot ids) q in
     currentChecked (rp_list q) = Some uuid \<and> currentChecked (rp_list r) = None
     \<and> is_disabled (a_delete r) = is_disabled (a_delete p)
     \<and> account_click_delete prot r = r"
proof -
  let ?q = "account_updated lp uuid p" and ?r = "account_contentChange tot ids (account_updated lp uuid p)"
  have q: "currentChecked (rp_list ?q) = Some uuid"
    using assms by (simp add: account_updated_def checkRadioButton_def account_refresh_parts currentChecked_def)
  have r: "currentChecked (rp_list ?r) = None"
    by (simp add: account_contentChange_def rpanel_content_def currentChecked_def)
  have d: "a_delete ?r = a_delete p"
    by (simp add: account_contentChange_def rpanel_content_def account_updated_def checkRadioButton_parts account_refresh_parts)
  show ?thesis using q r d by (simp add: account_click_delete_def)
qed

lemma choice_lost_after_update_witness:
  "currentChecked (rp_list (fold user_step [A_Content 1 [''alice'']] (account_init ''/users/list/''))) = None
   \<and> (let q = user_step (A_Updated ''alice'') (fold user_step [A_Content 1 [''alice'']] (account_init ''/users/list/'')) in
        currentChecked (rp_list q) = Some ''alice''
        \<and> currentChecked (rp_list (user_step (A_Content 1 [''alice'']) q)) = None)"
proof -
  let ?p = "fold user_step [A_Content 1 [''alice'']] (account_init ''/users/list/'')"
  have m: "List.member (a_rows ?p) ''alice''" and c: "currentChecked (rp_list ?p) = None" by code_simp+
  then have m: "''alice'' \<in> set (a_rows ?p)" by simp
  have n: "''alice'' \<noteq> ''''" by simp
  show ?thesis
    using choice_lost_after_update [OF m n, of "\<lambda>uuid. False" "''/users/list/''" "''/users/show/''" 1 "[''alice'']"] c
    unfolding user_step_def Let_def by blast
qed

section \<open>Linking a user with groups\<close>

text \<open>
  The link dialog has, per group, a radio button for the primary group and a check box for the
  link. Choosing a primary group checks its box; clearing a box clears the primary choice on it.
\<close>

record link_dialog =
  l_primary :: "string option"
  l_links :: "(string \<times> bool) list"

definition click_primary :: "string \<Rightarrow> link_dialog \<Rightarrow> link_dialog" where
  "click_primary g d =
     (let d1 = d\<lparr>l_primary := Some g\<rparr>
      in d1\<lparr>l_links := map (\<lambda>(h, b). if h = g then (h, True) else (h, b)) (l_links d1)\<rparr>)"

definition click_link :: "string \<Rightarrow> bool \<Rightarrow> link_dialog \<Rightarrow> link_dialog" where
  "click_link g b d =
     (let d1 = d\<lparr>l_links := map (\<lambda>(h, c). if h = g then (h, b) else (h, c)) (l_links d)\<rparr>
      in if b \<noteq> True then (if l_primary d1 = Some g then d1\<lparr>l_primary := None\<rparr> else d1) else d1)"

text \<open>The loop over the checked boxes, with its counter.\<close>

fun link_params :: "string \<Rightarrow> nat \<Rightarrow> (string \<times> bool) list \<Rightarrow> string" where
  "link_params key i [] = ''''"
| "link_params key i ((g, b) # gs) =
     (if b then ''&'' @ field (key @ ''['' @ to_str (JNum (int i)) @ '']'') g @ link_params key (Suc i) gs
      else link_params key i gs)"

definition link_group_data :: "link_dialog \<Rightarrow> string" where
  "link_group_data d =
     field ''pr_group_uuid'' (case l_primary d of Some g \<Rightarrow> g | None \<Rightarrow> '''') @ link_params ''sel_group_uuid'' 0 (l_links d)"

definition link_group_request :: "string \<Rightarrow> link_dialog \<Rightarrow> ajax_settings" where
  "link_group_request user_uuid d =
     request_post \<lparr>p_url = ''/users/link_user_groups/'' @ user_uuid @ ''.json'', p_data = JStr (link_group_data d), p_async = JUndef\<rparr>"

definition link_user_request :: "string \<Rightarrow> (string \<times> bool) list \<Rightarrow> ajax_settings" where
  "link_user_request group_uuid links =
     request_post \<lparr>p_url = ''/groups/link_group_users/'' @ group_uuid @ ''.json'',
       p_data = JStr (link_params ''sel_user_uuid'' 0 links), p_async = JUndef\<rparr>"

datatype link_event = Primary string | Link_box string bool

fun link_step :: "link_event \<Rightarrow> link_dialog \<Rightarrow> link_dialog" where
  "link_step (Primary g) d = click_primary g d"
| "link_step (Link_box g b) d = click_link g b d"

fun link_enabled :: "link_event \<Rightarrow> link_dialog \<Rightarrow> bool" where
  "link_enabled (Primary g) d = (g \<in> fst ` set (l_links d))"
| "link_enabled (Link_box g b) d = (g \<in> fst ` set (l_links d))"

definition link_inv :: "link_dialog \<Rightarrow> bool" where
  "link_inv d =
     (case l_primary d of None \<Rightarrow> True | Some g \<Rightarrow> g \<in> fst ` set (l_links d) \<and> (\<forall>(h, b)\<in>set (l_links d). h = g \<longrightarrow> b))"

lemma link_inv_step: "link_inv d \<Longrightarrow> link_enabled e d \<Longrightarrow> link_inv (link_step e d)"
proof (cases e)
  case (Primary g)
  assume "link_enabled e d"
  then have g: "g \<in> fst ` set (l_links d)" using Primary by simp
  have m: "map (\<lambda>(h, b). if h = g then (h, True) else (h, b)) xs = map (\<lambda>(h, b). (h, b \<or> h = g)) xs"
    for xs :: "(string \<times> bool) list" by (auto simp: map_eq_conv)
  obtain c where "(g, c) \<in> set (l_links d)" using g by auto
  then have "(g, True) \<in> set (map (\<lambda>(h, b). (h, b \<or> h = g)) (l_links d))" by force
  then have "g \<in> fst ` set (map (\<lambda>(h, b). (h, b \<or> h = g)) (l_links d))" by (rule image_eqI [rotated]) simp
  then show ?thesis unfolding Primary link_step.simps link_inv_def click_primary_def m Let_def by auto
next
  case (Link_box g b)
  assume i: "link_inv d" and e: "link_enabled e d"
  show ?thesis
  proof (cases "l_primary d = Some g \<and> \<not> b")
    case True
    with Link_box show ?thesis by (simp add: link_inv_def click_link_def Let_def)
  next
    case False
    have p: "l_primary (click_link g b d) = l_primary d" "l_links (click_link g b d) = map (\<lambda>(h, c). if h = g then (h, b) else (h, c)) (l_links d)"
      using False by (auto simp: click_link_def Let_def)
    show ?thesis
    proof (cases "l_primary d")
      case None
      then show ?thesis unfolding Link_box link_step.simps link_inv_def p by simp
    next
      case (Some q)
      have q: "q \<noteq> g \<or> b" using False Some by auto
      have l: "(q, c) \<in> set (l_links d) \<Longrightarrow> c" for c using i Some by (auto simp: link_inv_def)
      obtain c where "(q, c) \<in> set (l_links d)" using i Some by (auto simp: link_inv_def)
      then have "(case (q, c) of (h, c) \<Rightarrow> if h = g then (h, b) else (h, c)) \<in> set (l_links (click_link g b d))"
        unfolding p set_map by (rule imageI)
      then have "q \<in> fst ` set (l_links (click_link g b d))" by (cases "q = g") (force simp: image_iff)+
      moreover have "\<forall>(h, e)\<in>set (l_links (click_link g b d)). h = q \<longrightarrow> e"
        unfolding p set_map using l q by (auto split: if_splits)
      ultimately show ?thesis unfolding Link_box link_step.simps link_inv_def p(1) Some by simp
    qed
  qed
qed

interpretation link_machine: machine link_inv link_enabled link_step link_inv
  by unfold_locales (auto intro: link_inv_step)

text \<open>What the server reads: the links are numbered from 0, in the order of the table.\<close>

definition linked :: "(string \<times> bool) list \<Rightarrow> string list" where
  "linked gs = map fst (filter snd gs)"

definition numbered :: "string \<Rightarrow> nat \<Rightarrow> string list \<Rightarrow> (string \<times> string option) list" where
  "numbered key i gs = map (\<lambda>(j, g). (key @ ''['' @ to_str (JNum (int j)) @ '']'', Some g)) (zip [i..<i + length gs] gs)"

lemma numbered_Cons: "numbered key i (g # gs) = (key @ ''['' @ to_str (JNum (int i)) @ '']'', Some g) # numbered key (Suc i) gs"
  by (simp add: numbered_def upt_rec del: upt.simps)

lemma indexed_key: "plain_key (key @ ''['' @ to_str (JNum (int i)) @ '']'')" if "plain_key key"
proof -
  have "\<not> is_digit (CHR ''&'')" "\<not> is_digit (CHR ''='')" by code_simp+
  then have "CHR ''&'' \<notin> set (nat_digits i)" "CHR ''='' \<notin> set (nat_digits i)"
    using nat_digits_all by blast+
  with that show ?thesis by (simp add: plain_key_def int_digits_def)
qed

lemma link_params_read:
  assumes "plain_key key" "\<forall>(g, b)\<in>set gs. plain_value g"
  shows "read_query (s @ link_params key i gs) = read_query s @ numbered key i (linked gs)"
  using assms(2)
proof (induction gs arbitrary: i s)
  case Nil
  then show ?case by (simp add: linked_def numbered_def)
next
  case (Cons x gs)
  obtain g b where x: "x = (g, b)" by (cases x) auto
  show ?case
  proof (cases b)
    case True
    let ?f = "field (key @ ''['' @ to_str (JNum (int i)) @ '']'') g"
    have l: "linked (x # gs) = g # linked gs" using x True by (simp add: linked_def)
    have e: "s @ link_params key i (x # gs) = (s @ ''&'' @ ?f) @ link_params key (Suc i) gs"
      using x True by simp
    have ih: "read_query ((s @ ''&'' @ ?f) @ link_params key (Suc i) gs)
        = read_query (s @ ''&'' @ ?f) @ numbered key (Suc i) (linked gs)"
      by (rule Cons.IH) (use Cons.prems in simp)
    have f: "read_query ?f = [(key @ ''['' @ to_str (JNum (int i)) @ '']'', Some g)]"
      using Cons.prems x by (intro read_plain indexed_key assms(1)) simp
    show ?thesis unfolding e ih read_query_append f l numbered_Cons by simp
  next
    case False
    with x Cons show ?thesis by (simp add: linked_def)
  qed
qed

text \<open>
  however the boxes of the link dialog are clicked, the primary group that is sent is one of
  the groups sent as linked, or none; and the server reads exactly the primary group and the linked
  groups, numbered from 0.
\<close>

theorem link_request_consistent:
  assumes "reachable link_inv link_enabled link_step d" and "\<forall>(g, b)\<in>set (l_links d). plain_value g"
  shows "sent_fields (link_group_request u d) =
       (''POST'', ''/users/link_user_groups/'' @ u @ ''.json'',
        (''pr_group_uuid'', Some (case l_primary d of Some g \<Rightarrow> g | None \<Rightarrow> ''''))
          # numbered ''sel_group_uuid'' 0 (linked (l_links d)))
     \<and> (case l_primary d of Some g \<Rightarrow> g \<in> set (linked (l_links d)) | None \<Rightarrow> True)"
proof -
  have inv: "link_inv d" using link_machine.reachable_inv [OF assms(1)] .
  have k: "plain_key ''sel_group_uuid''" "plain_key ''pr_group_uuid''" by (simp_all add: plain_key_def)
  have p: "plain_value (case l_primary d of Some g \<Rightarrow> g | None \<Rightarrow> '''')"
    using inv assms(2) by (auto simp: link_inv_def plain_value_def split: option.splits)
  have "read_query (link_group_data d) = (''pr_group_uuid'', Some (case l_primary d of Some g \<Rightarrow> g | None \<Rightarrow> ''''))
      # numbered ''sel_group_uuid'' 0 (linked (l_links d))"
    unfolding link_group_data_def link_params_read [OF k(1) assms(2)] read_plain [OF k(2) p] by simp
  moreover have "case l_primary d of Some g \<Rightarrow> g \<in> set (linked (l_links d)) | None \<Rightarrow> True"
    using inv by (force simp: link_inv_def linked_def image_iff split: option.splits)
  ultimately show ?thesis by (simp add: link_group_request_def sent_fields_post)
qed

definition link_demo :: link_dialog where
  "link_demo = \<lparr>l_primary = Some ''a-1'', l_links = [(''a-1'', True), (''a-2'', False), (''a-3'', True)]\<rparr>"

lemma link_request_consistent_witness:
  "sent_fields (link_group_request ''u-1'' (click_link ''a-1'' False (click_primary ''a-2'' link_demo))) =
     (''POST'', ''/users/link_user_groups/u-1.json'',
      [(''pr_group_uuid'', Some ''a-2''), (''sel_group_uuid[0]'', Some ''a-2''), (''sel_group_uuid[1]'', Some ''a-3'')])"
proof -
  let ?d = "fold link_step [Primary ''a-2'', Link_box ''a-1'' False] link_demo"
  have i: "link_inv link_demo" by (simp add: link_inv_def link_demo_def)
  have "all_enabled link_enabled link_step [Primary ''a-2'', Link_box ''a-1'' False] link_demo" by code_simp
  with i have r: "reachable link_inv link_enabled link_step ?d" by (intro link_machine.run_reachable reach_init)
  have d: "?d = \<lparr>l_primary = Some ''a-2'', l_links = [(''a-1'', False), (''a-2'', True), (''a-3'', True)]\<rparr>" by code_simp
  have p: "\<forall>(g, b)\<in>set (l_links ?d). plain_value g" unfolding d by (simp add: plain_value_def)
  have n: "numbered ''sel_group_uuid'' 0 [''a-2'', ''a-3''] = [(''sel_group_uuid[0]'', Some ''a-2''), (''sel_group_uuid[1]'', Some ''a-3'')]"
    by code_simp
  show ?thesis using link_request_consistent [OF r p, of "''u-1''"] unfolding d by (simp add: linked_def n d [simplified])
qed

section \<open>Requests of the users panel\<close>

text \<open>\<open>valid\<close> is the result of the validation of the form. Nothing is escaped.\<close>

definition user_update_request :: "string \<Rightarrow> string \<Rightarrow> string \<Rightarrow> string \<Rightarrow> string \<Rightarrow> ajax_settings" where
  "user_update_request uuid login_id nm locale time_zone =
     request_post \<lparr>p_url = ''/users/edit_user/'' @ uuid @ ''.json'',
       p_data = JStr (field ''login_id'' login_id @ ''&'' @ field ''name'' nm @ ''&'' @ field ''locale'' locale
                      @ ''&'' @ field ''time_zone'' time_zone), p_async = JUndef\<rparr>"

record user_values =
  uv_login_id :: string
  uv_password :: string
  uv_name :: string
  uv_account :: string
  uv_locale :: string
  uv_time_zone :: string

definition user_create_data :: "user_values \<Rightarrow> string" where
  "user_create_data v =
     field ''login_id'' (uv_login_id v) @ ''&'' @ field ''password'' (uv_password v) @ ''&'' @ field ''name'' (uv_name v)
     @ ''&'' @ field ''primary_account_id'' (uv_account v) @ ''&'' @ field ''locale'' (uv_locale v)
     @ ''&'' @ field ''time_zone'' (uv_time_zone v)"

definition user_create_request :: "bool \<Rightarrow> user_values \<Rightarrow> ajax_settings option" where
  "user_create_request valid v =
     (if valid then Some (request_post \<lparr>p_url = ''/users/create_user'', p_data = JStr (user_create_data v), p_async = JUndef\<rparr>)
      else None)"

definition user_delete_request :: "string \<Rightarrow> ajax_settings" where
  "user_delete_request i = request_post \<lparr>p_url = ''/users/'' @ i @ ''.json'', p_data = JUndef, p_async = JUndef\<rparr>"

section \<open>Requests of the groups panel\<close>

definition group_edit_request :: "string \<Rightarrow> string \<Rightarrow> string \<Rightarrow> ajax_settings" where
  "group_edit_request uuid nm description =
     request_post \<lparr>p_url = ''/groups/edit_group/'' @ uuid @ ''.json'',
       p_data = JStr (field ''name'' nm @ ''&'' @ field ''description'' description), p_async = JUndef\<rparr>"

definition group_new_request :: "bool \<Rightarrow> string \<Rightarrow> string \<Rightarrow> string \<Rightarrow> ajax_settings option" where
  "group_new_request valid nm description enable =
     (if valid then Some (request_post \<lparr>p_url = ''/groups/create_group'',
        p_data = JStr (field ''name'' nm @ ''&'' @ field ''description'' description @ ''&'' @ field ''enable'' enable),
        p_async = JUndef\<rparr>)
      else None)"

definition group_remove_request :: "string \<Rightarrow> ajax_settings" where
  "group_remove_request i = request_post \<lparr>p_url = ''/groups/'' @ i @ ''.json'', p_data = JUndef, p_async = JUndef\<rparr>"

lemma user_keys: "plain_key ''login_id''" "plain_key ''password''" "plain_key ''name''" "plain_key ''primary_account_id''"
  "plain_key ''locale''" "plain_key ''time_zone''"
  by (simp_all add: plain_key_def)

text \<open>
  A password is not escaped either: the one that is stored is cut at an ampersand, and a plus sign
  in it is stored as a space.
\<close>

lemma password_cut:
  assumes "plain_value (uv_login_id v)" "plain_value p1" "uv_password v = p1 @ ''&'' @ p2"
  shows "take 2 (read_query (user_create_data v)) = [(''login_id'', Some (uv_login_id v)), (''password'', Some p1)]"
proof -
  have f: "field ''password'' (uv_password v) = field ''password'' p1 @ ''&'' @ p2" using assms(3) by (simp add: field_def)
  show ?thesis unfolding user_create_data_def f append_assoc
    by (simp only: read_query_append read_plain user_keys assms(1,2)) simp
qed

end
