(* ===== verification/Panel_Network.thy ===== *)
theory Panel_Network
  imports Panel_Base
begin

text \<open>
  The network panel, \<open>network_panel.js\<close>: the edit dialog with its DHCP ranges and services, the
  create dialog with the modes that a data centre network offers, and the requests of both.
\<close>

section \<open>Requests\<close>

text \<open>None of the texts of this panel is escaped.\<close>

definition network_update_request :: "string \<Rightarrow> string \<Rightarrow> ajax_settings" where
  "network_update_request network_id display_name =
     request_put \<lparr>p_url = ''/networks/'' @ network_id @ ''.json'', p_data = JStr (field ''display_name'' display_name),
       p_async = JUndef\<rparr>"

definition change_dhcp_range :: "string \<Rightarrow> string \<Rightarrow> string \<Rightarrow> string \<Rightarrow> ajax_settings" where
  "change_dhcp_range network_id use_command range_begin range_end =
     request_put \<lparr>p_url = ''/networks/'' @ network_id @ ''/dhcp_ranges/'' @ use_command @ ''.json'',
       p_data = JStr (field ''range_begin'' range_begin @ ''&'' @ field ''range_end'' range_end), p_async = JUndef\<rparr>"

definition delete_service :: "string \<Rightarrow> string \<Rightarrow> string \<Rightarrow> ajax_settings" where
  "delete_service network_id vif_id nm =
     request_del \<lparr>p_url = ''/networks/'' @ network_id @ ''/services'',
       p_data = JStr (field ''vif_id'' vif_id @ ''&'' @ field ''name'' nm), p_async = JUndef\<rparr>"

definition add_service_request :: "string \<Rightarrow> string \<Rightarrow> string \<Rightarrow> string \<Rightarrow> string \<Rightarrow> ajax_settings" where
  "add_service_request network_id nm address incoming outgoing =
     request_post \<lparr>p_url = ''/networks/'' @ network_id @ ''/services.json'',
       p_data = JStr (field ''name'' nm @ ''&'' @ field ''ipv4'' address @ ''&'' @ field ''incoming_port'' incoming
                      @ ''&'' @ field ''outgoing_port'' outgoing), p_async = JUndef\<rparr>"

record network_values =
  nv_name :: string
  nv_description :: string
  nv_domain :: string
  nv_dc_network :: string
  nv_mode :: string
  nv_ipv4_network :: string
  nv_ipv4_gw :: string
  nv_prefix :: string
  nv_ip_assignment :: string
  nv_service_address :: string
  nv_services :: "string list"

definition network_create_data :: "network_values \<Rightarrow> string" where
  "network_create_data v =
     (let data = ''&'' @ field ''display_name'' (nv_name v) @ ''&'' @ field ''description'' (nv_description v)
          @ ''&'' @ field ''domain_name'' (nv_domain v) @ ''&'' @ field ''dc_network'' (nv_dc_network v)
          @ ''&'' @ field ''network_mode'' (nv_mode v) @ ''&'' @ field ''ipv4_network'' (nv_ipv4_network v)
          @ ''&'' @ field ''ipv4_gw'' (nv_ipv4_gw v) @ ''&'' @ field ''prefix'' (nv_prefix v)
          @ ''&'' @ field ''network_mode'' (nv_mode v) @ ''&'' @ field ''ip_assignment'' (nv_ip_assignment v)
      in fold (\<lambda>s d. d @ ''&'' @ field (''service_'' @ s) (nv_service_address v)) (nv_services v) data)"

definition network_create_request :: "network_values \<Rightarrow> ajax_settings" where
  "network_create_request v =
     request_post \<lparr>p_url = ''/networks'', p_data = JStr (network_create_data v), p_async = JUndef\<rparr>"

definition network_plain :: "network_values \<Rightarrow> bool" where
  "network_plain v =
     (list_all plain_value [nv_name v, nv_description v, nv_domain v, nv_dc_network v, nv_mode v, nv_ipv4_network v,
        nv_ipv4_gw v, nv_prefix v, nv_ip_assignment v, nv_service_address v] \<and> list_all plain_key (nv_services v))"

lemma network_keys:
  "plain_key ''display_name''" "plain_key ''description''" "plain_key ''domain_name''" "plain_key ''dc_network''"
  "plain_key ''network_mode''" "plain_key ''ipv4_network''" "plain_key ''ipv4_gw''" "plain_key ''prefix''"
  "plain_key ''ip_assignment''"
  by (simp_all add: plain_key_def)

lemma service_key: "plain_key s \<Longrightarrow> plain_key (''service_'' @ s)"
  by (simp add: plain_key_def)

text \<open>The server reads the fields in their order, the mode twice, then one address per service.\<close>

lemma network_create_read:
  assumes "network_plain v"
  shows "read_query (network_create_data v) =
     [(''display_name'', Some (nv_name v)), (''description'', Some (nv_description v)), (''domain_name'', Some (nv_domain v)),
      (''dc_network'', Some (nv_dc_network v)), (''network_mode'', Some (nv_mode v)), (''ipv4_network'', Some (nv_ipv4_network v)),
      (''ipv4_gw'', Some (nv_ipv4_gw v)), (''prefix'', Some (nv_prefix v)), (''network_mode'', Some (nv_mode v)),
      (''ip_assignment'', Some (nv_ip_assignment v))]
     @ map (\<lambda>s. (''service_'' @ s, Some (nv_service_address v))) (nv_services v)"
proof -
  have p: "plain_value (nv_name v)" "plain_value (nv_description v)" "plain_value (nv_domain v)" "plain_value (nv_dc_network v)"
    "plain_value (nv_mode v)" "plain_value (nv_ipv4_network v)" "plain_value (nv_ipv4_gw v)" "plain_value (nv_prefix v)"
    "plain_value (nv_ip_assignment v)" "plain_value (nv_service_address v)" "\<forall>s\<in>set (nv_services v). plain_key s"
    using assms by (simp_all add: network_plain_def list_all_iff)
  have services: "read_query (fold (\<lambda>s d. d @ ''&'' @ field (''service_'' @ s) (nv_service_address v)) ss d)
      = read_query d @ map (\<lambda>s. (''service_'' @ s, Some (nv_service_address v))) ss"
    if "\<forall>s\<in>set ss. plain_key s" for ss d
    using that
  proof (induction ss arbitrary: d)
    case (Cons s ss)
    then have k: "plain_key (''service_'' @ s)" by (intro service_key) simp
    have "read_query (fold (\<lambda>s d. d @ ''&'' @ field (''service_'' @ s) (nv_service_address v)) ss
          (d @ ''&'' @ field (''service_'' @ s) (nv_service_address v)))
        = read_query (d @ ''&'' @ field (''service_'' @ s) (nv_service_address v))
          @ map (\<lambda>s. (''service_'' @ s, Some (nv_service_address v))) ss"
      by (rule Cons.IH) (use Cons.prems in simp)
    then show ?case by (simp only: fold.simps comp_apply read_query_append read_plain [OF k p(10)]) simp
  qed simp
  have e: "read_query (''&'' @ w) = read_query w" for w
    using read_query_append [of "''''" w] by simp
  show ?thesis
    unfolding network_create_data_def Let_def services [OF p(11)] e read_query_append
      network_keys(1-9) [THEN read_plain, OF p(1)] network_keys [THEN read_plain, OF p(2)]
      network_keys [THEN read_plain, OF p(3)] network_keys [THEN read_plain, OF p(4)]
      network_keys [THEN read_plain, OF p(5)] network_keys [THEN read_plain, OF p(6)]
      network_keys [THEN read_plain, OF p(7)] network_keys [THEN read_plain, OF p(8)]
      network_keys [THEN read_plain, OF p(9)]
    by simp
qed

section \<open>The services of a network\<close>

text \<open>
  Each service of the answer gets a button whose id is made of the service's name, and its handler
  is bound to every element in the table that has this id by then. A button is its name with the
  handlers bound to it, each a service: its interface and its name.
\<close>

type_synonym service_button = "string \<times> (string \<times> string) list"

definition add_service_button :: "string \<times> string \<Rightarrow> service_button list \<Rightarrow> service_button list" where
  "add_service_button srv buttons =
     (case srv of (nm, vif) \<Rightarrow>
        map (\<lambda>(b, hs). if b = nm then (b, hs @ [(vif, nm)]) else (b, hs)) (buttons @ [(nm, [])]))"

definition refresh_network_services :: "(string \<times> string) list \<Rightarrow> service_button list" where
  "refresh_network_services results = fold add_service_button results []"

definition click_service_delete :: "string \<Rightarrow> service_button \<Rightarrow> ajax_settings list" where
  "click_service_delete network_id b = map (\<lambda>(vif, nm). delete_service network_id vif nm) (snd b)"

text \<open>The handlers of a button: its own service and all later ones of the same name.\<close>

fun service_buttons :: "(string \<times> string) list \<Rightarrow> service_button list" where
  "service_buttons [] = []"
| "service_buttons ((nm, vif) # rs) =
     (nm, (vif, nm) # map (\<lambda>(n, w). (w, n)) (filter (\<lambda>(n, w). n = nm) rs)) # service_buttons rs"

lemma add_service_buttons:
  "fold add_service_button rs bs = map (\<lambda>(b, hs). (b, hs @ map (\<lambda>(n, w). (w, n)) (filter (\<lambda>(n, w). n = b) rs))) bs @ service_buttons rs"
proof (induction rs arbitrary: bs)
  case Nil
  then show ?case by (simp add: case_prod_beta)
next
  case (Cons r rs)
  obtain nm vif where r: "r = (nm, vif)" by (cases r)
  have m: "map (\<lambda>(b, hs). (b, hs @ map (\<lambda>(n, w). (w, n)) (filter (\<lambda>(n, w). n = b) rs)))
        (map (\<lambda>(b, hs). if b = nm then (b, hs @ [(vif, nm)]) else (b, hs)) cs)
      = map (\<lambda>(b, hs). (b, hs @ map (\<lambda>(n, w). (w, n)) (filter (\<lambda>(n, w). n = b) ((nm, vif) # rs)))) cs"
    for cs :: "service_button list"
    by (induction cs) auto
  show ?case unfolding fold.simps comp_apply Cons.IH r
    by (simp only: add_service_button_def prod.case m map_append append_assoc) simp
qed

text \<open>
  a button deletes its own service and every later one of the same name; so when the names are
  distinct, each deletes exactly its own, and when two services have one name, the button of the
  first deletes both.
\<close>

theorem service_delete_buttons:
  "concat (map (click_service_delete network_id) (take 1 (refresh_network_services ((nm, vif) # rs)))) =
       delete_service network_id vif nm
         # map (\<lambda>(n, w). delete_service network_id w n) (filter (\<lambda>(n, w). n = nm) rs)
   \<and> (if distinct (map fst rs) then map (click_service_delete network_id) (refresh_network_services rs)
         = map (\<lambda>(n, w). [delete_service network_id w n]) rs else True)"
proof -
  have d: "map (click_service_delete network_id) (service_buttons qs) = map (\<lambda>(n, w). [delete_service network_id w n]) qs"
    if "distinct (map fst qs)" for qs
    using that
  proof (induction qs)
    case (Cons q qs)
    obtain n w where q: "q = (n, w)" by (cases q)
    have "filter (\<lambda>(m, v). m = n) qs = []" using Cons.prems q by (force simp: filter_empty_conv)
    with Cons q show ?case by (simp add: click_service_delete_def)
  qed simp
  have f: "refresh_network_services qs = service_buttons qs" for qs
    by (simp add: refresh_network_services_def add_service_buttons)
  show ?thesis unfolding f using d by (simp add: click_service_delete_def comp_def case_prod_beta)
qed

section \<open>The name in the edit dialog\<close>

text \<open>
  Its field is watched for typing and pasting, not for cutting: a cut with the mouse that empties
  it leaves the update button as it was.
\<close>

definition edit_network_binds :: bindings where
  "edit_network_binds = avail_binds ''#network_display_name'' [Paste_input, Keyup]"

lemma cut_unnoticed:
  assumes "timers f = []" "\<not> submit_disabled f"
  shows "let g = form_step edit_network_binds ready (Cut ''#network_display_name'' '''') f in
     timers g = [] \<and> \<not> submit_disabled g \<and> vals g ''#network_display_name'' = ''''"
  using assms by (simp add: edit_network_binds_def fire_avail Let_def)

section \<open>The create dialog\<close>

text \<open>
  The select of the data centre networks with the modes each offers, \<open>dc_offering\<close>, the select of the
  modes, and the two flags. Beside the state, the handlers return whether they ended without the
  exception of a network that is not in \<open>dc_offering\<close>.
\<close>

record create_network =
  cn_name :: string
  cn_networks :: "string list"
  cn_offering :: "string \<rightharpoonup> string list"
  cn_network :: "string option"
  cn_modes :: "string list"
  cn_name_ready :: bool
  cn_dc_ready :: bool
  cn_submit_off :: bool

definition cn_ready :: "create_network \<Rightarrow> create_network" where
  "cn_ready d = (if cn_dc_ready d = True \<and> cn_name_ready d = True then d\<lparr>cn_submit_off := False\<rparr> else d\<lparr>cn_submit_off := True\<rparr>)"

definition cn_keyup :: "string \<Rightarrow> create_network \<Rightarrow> create_network" where
  "cn_keyup t d =
     (let d1 = d\<lparr>cn_name := t\<rparr> in
      if t \<noteq> '''' then cn_ready (d1\<lparr>cn_name_ready := True\<rparr>) else cn_ready (d1\<lparr>cn_name_ready := False\<rparr>))"

definition update_network_modes :: "create_network \<Rightarrow> create_network \<times> bool" where
  "update_network_modes d =
     (case Option.bind (cn_network d) (cn_offering d) of
        Some modes \<Rightarrow> (d\<lparr>cn_modes := modes\<rparr>, True)
      | None \<Rightarrow> (d\<lparr>cn_modes := []\<rparr>, False))"

definition dc_offering :: "(string \<times> string list) list \<Rightarrow> string \<rightharpoonup> string list" where
  "dc_offering results = fold (\<lambda>(uuid, modes) m. m(uuid \<mapsto> modes)) results Map.empty"

text \<open>The answer: the select shows its first option; then the modes, then the flag.\<close>

definition cn_loaded :: "(string \<times> string list) list \<Rightarrow> create_network \<Rightarrow> create_network \<times> bool" where
  "cn_loaded results d =
     (let d1 = d\<lparr>cn_networks := map fst results, cn_offering := dc_offering results,
                 cn_network := (case results of [] \<Rightarrow> None | (uuid, m) # rs \<Rightarrow> Some uuid)\<rparr>
      in case update_network_modes d1 of (d2, ok) \<Rightarrow>
           if ok then (cn_ready (d2\<lparr>cn_dc_ready := True\<rparr>), True) else (d2, False))"

definition cn_change :: "string \<Rightarrow> create_network \<Rightarrow> create_network \<times> bool" where
  "cn_change uuid d = update_network_modes (d\<lparr>cn_network := Some uuid\<rparr>)"

definition cn_open :: create_network where
  "cn_open = \<lparr>cn_name = '''', cn_networks = [], cn_offering = Map.empty, cn_network = None, cn_modes = [],
     cn_name_ready = False, cn_dc_ready = False, cn_submit_off = True\<rparr>"

datatype cn_event = Cn_Key string | Cn_Mouse string | Cn_Loaded "(string \<times> string list) list" | Cn_Change string

text \<open>An exception ends its handler; what was drawn before it stays.\<close>

fun cn_step :: "cn_event \<Rightarrow> create_network \<Rightarrow> create_network" where
  "cn_step (Cn_Key t) d = cn_keyup t d"
| "cn_step (Cn_Mouse t) d = d\<lparr>cn_name := t\<rparr>"
| "cn_step (Cn_Loaded rs) d = fst (cn_loaded rs d)"
| "cn_step (Cn_Change uuid) d = fst (cn_change uuid d)"

fun cn_enabled :: "cn_event \<Rightarrow> create_network \<Rightarrow> bool" where
  "cn_enabled (Cn_Loaded rs) d = (\<not> cn_dc_ready d)"
| "cn_enabled (Cn_Change uuid) d = (uuid \<in> set (cn_networks d))"
| "cn_enabled e d = True"

definition cn_inv :: "create_network \<Rightarrow> bool" where
  "cn_inv d =
     (set (cn_networks d) \<subseteq> dom (cn_offering d)
      \<and> (cn_dc_ready d \<longrightarrow> Option.bind (cn_network d) (cn_offering d) = Some (cn_modes d))
      \<and> (cn_submit_off d \<longleftrightarrow> \<not> (cn_dc_ready d \<and> cn_name_ready d)))"

lemma dom_dc_offering: "dom (dc_offering rs) = fst ` set rs"
proof -
  have "dom (fold (\<lambda>(uuid, modes) m. m(uuid \<mapsto> modes)) rs m) = fst ` set rs \<union> dom m" for m :: "string \<rightharpoonup> string list"
    by (induction rs arbitrary: m) auto
  then show ?thesis by (simp add: dc_offering_def)
qed

lemma cn_inv_step: "cn_inv d \<Longrightarrow> cn_enabled e d \<Longrightarrow> cn_inv (cn_step e d)"
proof (cases e)
  case (Cn_Loaded rs)
  assume i: "cn_inv d" and e: "cn_enabled e d"
  show ?thesis
  proof (cases rs)
    case Nil
    with Cn_Loaded i e show ?thesis by (simp add: cn_loaded_def update_network_modes_def cn_inv_def Let_def)
  next
    case (Cons r qs)
    obtain u m where r: "r = (u, m)" by (cases r)
    have "u \<in> dom (dc_offering rs)" unfolding dom_dc_offering using Cons r by simp
    then obtain ms1 where "dc_offering rs u = Some ms1" by auto
    moreover have "set (map fst rs) \<subseteq> dom (dc_offering rs)" unfolding dom_dc_offering by simp
    ultimately show ?thesis using Cn_Loaded Cons r
      by (simp add: cn_loaded_def update_network_modes_def cn_ready_def cn_inv_def Let_def)
  qed
next
  case (Cn_Change uuid)
  assume i: "cn_inv d" and e: "cn_enabled e d"
  then obtain m where "cn_offering d uuid = Some m" using Cn_Change by (auto simp: cn_inv_def)
  with Cn_Change i show ?thesis by (simp add: cn_change_def update_network_modes_def cn_inv_def)
qed (simp_all add: cn_inv_def cn_keyup_def cn_ready_def Let_def)

interpretation cn_machine: machine "\<lambda>d. d = cn_open" cn_enabled cn_step cn_inv
  by unfold_locales (simp add: cn_inv_def cn_open_def, rule cn_inv_step)

text \<open>
  in the create dialog, whatever is typed and chosen and whenever the networks arrive: once the
  button is enabled, a data centre network is chosen and the modes offered are exactly its modes;
  an answer without any network raises an exception and leaves the button disabled.
\<close>

theorem network_modes_follow:
  assumes "reachable (\<lambda>d. d = cn_open) cn_enabled cn_step d"
  shows "(if \<not> cn_submit_off d
          then \<exists>u. cn_network d = Some u \<and> cn_offering d u = Some (cn_modes d) else True)
     \<and> (if \<not> cn_dc_ready d then \<not> snd (cn_loaded [] d) \<and> cn_submit_off (fst (cn_loaded [] d)) else True)"
  using cn_machine.reachable_inv [OF assms]
  by (auto simp: cn_inv_def cn_loaded_def update_network_modes_def bind_eq_Some_conv Let_def)

definition cn_demo :: "cn_event list" where
  "cn_demo = [Cn_Key ''lan'', Cn_Loaded [(''dcn-1'', [''passthru'']), (''dcn-2'', [''l2overlay'', ''securitygroup''])], Cn_Change ''dcn-2'']"

lemma network_modes_follow_witness:
  "\<not> cn_submit_off (fold cn_step cn_demo cn_open)
   \<and> cn_offering (fold cn_step cn_demo cn_open) ''dcn-2'' = Some (cn_modes (fold cn_step cn_demo cn_open))"
proof -
  have "all_enabled cn_enabled cn_step cn_demo cn_open" by code_simp
  then have r: "reachable (\<lambda>d. d = cn_open) cn_enabled cn_step (fold cn_step cn_demo cn_open)"
    by (intro cn_machine.run_reachable reach_init) auto
  have b: "\<not> cn_submit_off (fold cn_step cn_demo cn_open)" "cn_network (fold cn_step cn_demo cn_open) = Some ''dcn-2''"
    by code_simp+
  show ?thesis using network_modes_follow [OF r] b by simp
qed

section \<open>The panel\<close>

definition network_init :: panel where
  "network_init = panel_init ''/networks/list/'' 10 1"

definition network_refresh :: "panel \<Rightarrow> panel" where
  "network_refresh p = panel_refresh ''/networks/list/'' ''/networks/show/'' p"

definition network_updatePagenate :: "panel \<Rightarrow> panel" where
  "network_updatePagenate p = panel_updatePagenate ''/networks/list/'' ''/networks/show/'' p"

definition network_contentChange :: "int \<Rightarrow> string list \<Rightarrow> panel \<Rightarrow> panel" where
  "network_contentChange tot ids p = panel_content tot ids p"

end
