(* ===== verification/Panel_Nodes.thy ===== *)
theory Panel_Nodes
  imports Panel_Base
begin

text \<open>
  The panels for host nodes and storage nodes (\<open>host_node_panel.js\<close>, \<open>storage_node_panel.js\<close>), the
  dashboard (\<open>dashboard_panel.js\<close>) and the menus of \<open>application.js\<close>.
\<close>

section \<open>Host and storage nodes\<close>

definition host_node_init :: panel where
  "host_node_init = panel_init ''/host_nodes/list/'' 10 1"

definition host_node_refresh :: "'a panel_scheme \<Rightarrow> 'a panel_scheme" where
  "host_node_refresh = panel_refresh ''/host_nodes/list/'' ''/host_nodes/show/''"

definition host_node_updatePagenate :: "'a panel_scheme \<Rightarrow> 'a panel_scheme" where
  "host_node_updatePagenate = panel_updatePagenate ''/host_nodes/list/'' ''/host_nodes/show/''"

definition host_node_contentChange :: "int \<Rightarrow> string list \<Rightarrow> 'a panel_scheme \<Rightarrow> 'a panel_scheme" where
  "host_node_contentChange = panel_content"

definition storage_node_init :: panel where
  "storage_node_init = panel_init ''/storage_nodes/list/'' 10 1"

definition storage_node_refresh :: "'a panel_scheme \<Rightarrow> 'a panel_scheme" where
  "storage_node_refresh = panel_refresh ''/storage_nodes/list/'' ''/storage_nodes/show/''"

definition storage_node_updatePagenate :: "'a panel_scheme \<Rightarrow> 'a panel_scheme" where
  "storage_node_updatePagenate = panel_updatePagenate ''/storage_nodes/list/'' ''/storage_nodes/show/''"

definition storage_node_contentChange :: "int \<Rightarrow> string list \<Rightarrow> 'a panel_scheme \<Rightarrow> 'a panel_scheme" where
  "storage_node_contentChange = panel_content"

section \<open>The dashboard: usage\<close>

text \<open>
  A usage is the current number and the quota, when there is one. The places of the page that are not
  filled keep the loading picture, \<open>None\<close>. A missing key throws, which ends the handler.
\<close>

type_synonym usage = "int \<times> int option"

definition usage_places :: "(string \<times> string) list" where
  "usage_places =
     [(''#total_instance'', ''instance.count''), (''#total_image'', ''image.count''), (''#total_volume'', ''volume.count''),
      (''#total_backup'', ''backup_object.count''), (''#total_network'', ''network.count''),
      (''#total_security_group'', ''security_group.count''), (''#total_keypair'', ''ssh_key_pair.count''),
      (''#total_load_balancer'', ''load_balancer.count'')]"

definition usage_text :: "usage \<Rightarrow> string" where
  "usage_text u = (case u of
      (c, None) \<Rightarrow> int_digits c
    | (c, Some q) \<Rightarrow> int_digits c @ ''/'' @ int_digits q)"

fun fill_usage :: "(string \<Rightarrow> usage option) \<Rightarrow> (string \<times> string) list \<Rightarrow> (string \<Rightarrow> string option) \<Rightarrow> (string \<Rightarrow> string option)" where
  "fill_usage res [] pg = pg"
| "fill_usage res ((i, k) # ps) pg =
     (case res k of
        None \<Rightarrow> pg
      | Some u \<Rightarrow> fill_usage res ps (pg(i := Some (usage_text u))))"

definition dashboard_refresh :: "string \<Rightarrow> string option" where
  "dashboard_refresh = (\<lambda>_. None)"

definition dashboard_loaded :: "(string \<Rightarrow> usage option) \<Rightarrow> string \<Rightarrow> string option" where
  "dashboard_loaded res = fill_usage res usage_places dashboard_refresh"

definition dashboard_request :: ajax_settings where
  "dashboard_request = request_get \<lparr>p_url = ''/accounts/usage.res'', p_data = JUndef, p_async = JUndef\<rparr>"

lemma fill_usage_before:
  "\<forall>(i, k)\<in>set ps. res k \<noteq> None \<Longrightarrow> fill_usage res (ps @ qs) pg = fill_usage res qs (fill_usage res ps pg)"
  by (induction ps arbitrary: pg) auto

lemma fill_usage_other: "i \<notin> fst ` set ps \<Longrightarrow> fill_usage res ps pg i = pg i"
  by (induction ps arbitrary: pg) (auto split: option.split)

lemma fill_usage_all:
  "distinct (map fst ps) \<Longrightarrow> \<forall>(i, k)\<in>set ps. res k \<noteq> None \<Longrightarrow> (i, k) \<in> set ps \<Longrightarrow>
     fill_usage res ps pg i = map_option usage_text (res k)"
proof (induction ps arbitrary: pg)
  case (Cons p ps)
  obtain j l where p: "p = (j, l)" by fastforce
  then obtain u where u: "res l = Some u" using Cons.prems(2) by auto
  show ?case
  proof (cases "(i, k) = (j, l)")
    case True
    then have "i \<notin> fst ` set ps" using Cons.prems(1) p by auto
    then show ?thesis using True p u by (simp add: fill_usage_other)
  next
    case False
    then have "(i, k) \<in> set ps" using Cons.prems(3) p by auto
    then show ?thesis using Cons.IH Cons.prems p u by simp
  qed
qed simp

text \<open>
  the dashboard. When the answer has no quota for one of the places, the places before it show
  their own number, with the quota when there is one, and the places from it on keep the loading
  picture, though the answer may have their numbers.
\<close>

theorem dashboard_stops_at_missing:
  assumes "usage_places = ps @ (i, k) # qs" and "\<forall>(i, k)\<in>set ps. res k \<noteq> None" and "res k = None"
  shows "(\<forall>(i', k')\<in>set ps. dashboard_loaded res i' = map_option usage_text (res k'))
     \<and> (\<forall>(i', k')\<in>set ((i, k) # qs). dashboard_loaded res i' = None)"
proof -
  have d: "distinct (map fst (ps @ (i, k) # qs))" unfolding assms(1) [symmetric] by code_simp
  have e: "dashboard_loaded res = fill_usage res ps dashboard_refresh"
    using fill_usage_before [OF assms(2), of "(i, k) # qs"] assms(3) by (simp add: dashboard_loaded_def assms(1))
  have "dashboard_loaded res i' = None" if "(i', k') \<in> set ((i, k) # qs)" for i' k'
  proof -
    have "i' \<in> fst ` set ((i, k) # qs)" using that by force
    then have "i' \<notin> fst ` set ps" using d by auto
    then show ?thesis by (simp add: e fill_usage_other dashboard_refresh_def)
  qed
  moreover have "dashboard_loaded res i' = map_option usage_text (res k')" if "(i', k') \<in> set ps" for i' k'
    using d fill_usage_all [OF _ assms(2) that] unfolding e by simp
  ultimately show ?thesis by blast
qed

lemma dashboard_stops_at_missing_witness:
  "dashboard_loaded (\<lambda>k. if k = ''network.count'' then None else Some (3, Some 10)) ''#total_backup'' = Some ''3/10''
   \<and> dashboard_loaded (\<lambda>k. if k = ''network.count'' then None else Some (3, Some 10)) ''#total_keypair'' = None"
proof -
  let ?res = "\<lambda>k. if k = ''network.count'' then None else Some (3 :: int, Some (10 :: int))"
  let ?ps = "[(''#total_instance'', ''instance.count''), (''#total_image'', ''image.count''), (''#total_volume'', ''volume.count''),
      (''#total_backup'', ''backup_object.count'')]"
  let ?qs = "[(''#total_security_group'', ''security_group.count''), (''#total_keypair'', ''ssh_key_pair.count''),
      (''#total_load_balancer'', ''load_balancer.count'')]"
  have s: "usage_places = ?ps @ (''#total_network'', ''network.count'') # ?qs" by (simp add: usage_places_def)
  have p: "\<forall>(i, k)\<in>set ?ps. ?res k \<noteq> None" by simp
  have t: "usage_text (3, Some 10) = ''3/10''" by code_simp
  show ?thesis using dashboard_stops_at_missing [OF s p] t by simp
qed

section \<open>The dashboard: notifications\<close>

text \<open>
  A title is cut when the page opens, if it is long; a click opens or closes the article and writes
  the whole or the cut title.
\<close>

record article =
  ar_title :: string
  ar_text :: string
  ar_hidden :: bool

definition notification_title_length :: nat where "notification_title_length = 28"

definition article_start :: "string \<Rightarrow> article" where
  "article_start ttl =
     \<lparr>ar_title = ttl,
      ar_text = (if length ttl \<ge> notification_title_length then slice_text notification_title_length ttl else ttl),
      ar_hidden = True\<rparr>"

definition article_click :: "article \<Rightarrow> article" where
  "article_click a =
     a\<lparr>ar_text := (if ar_hidden a then ar_title a else slice_text notification_title_length (ar_title a)),
       ar_hidden := \<not> ar_hidden a\<rparr>"

text \<open>
  the title of a notification is whole while its article is open and cut while it is closed;
  once it was open, a title of at most 28 characters gets the dots as well when it closes.
\<close>

theorem article_title_text:
  "ar_text ((article_click ^^ Suc n) (article_start t))
     = (if ar_hidden ((article_click ^^ Suc n) (article_start t)) then take 28 t @ ''...'' else t)
   \<and> ar_hidden ((article_click ^^ Suc n) (article_start t)) = odd n"
proof (induction n)
  case 0
  then show ?case by (simp add: article_click_def article_start_def)
next
  case (Suc n)
  have "ar_title ((article_click ^^ m) (article_start t)) = t" for m
    by (induction m) (simp_all add: article_click_def article_start_def)
  then show ?case using Suc unfolding funpow.simps(2) comp_def
    by (simp add: article_click_def slice_text_def notification_title_length_def)
qed

section \<open>The menus of the page\<close>

text \<open>
  The region menu, the menus of actions and the toggles of the page's parts. A menu keeps the
  position of its button's picture (the height of the step is an argument) and its label.
\<close>

record page_menu =
  mn_pos :: int
  mn_open :: bool
  mn_label :: string

definition menu_toggle :: "int \<Rightarrow> page_menu \<Rightarrow> page_menu" where
  "menu_toggle h m = m\<lparr>mn_pos := (if mn_pos m = 0 then mn_pos m + h else 0), mn_open := \<not> mn_open m\<rparr>"

definition menu_choose :: "int \<Rightarrow> string \<Rightarrow> page_menu \<Rightarrow> page_menu" where
  "menu_choose h label m =
     m\<lparr>mn_pos := (if mn_pos m = 0 then mn_pos m + h else 0), mn_label := label, mn_open := \<not> mn_open m\<rparr>"

definition regionselect :: "page_menu \<Rightarrow> page_menu" where "regionselect = menu_toggle 33"
definition regionmenu_item :: "string \<Rightarrow> page_menu \<Rightarrow> page_menu" where "regionmenu_item = menu_choose 33"
definition actionmenu :: "page_menu \<Rightarrow> page_menu" where "actionmenu = menu_toggle 26"
definition actionmenu_item :: "string \<Rightarrow> page_menu \<Rightarrow> page_menu" where "actionmenu_item = menu_choose 26"

datatype part_button = Btn_show | Btn_hide

text \<open>The picture of a part's button, and whether the part is open.\<close>

definition showhide :: "part_button \<times> bool \<Rightarrow> part_button \<times> bool" where
  "showhide p = (case p of (b, v) \<Rightarrow> (if b = Btn_hide then Btn_show else Btn_hide, \<not> v))"

definition menu_inv :: "int \<Rightarrow> page_menu \<Rightarrow> bool" where
  "menu_inv h m = (mn_pos m = (if mn_open m then h else 0))"

lemma menu_invs: "h \<noteq> 0 \<Longrightarrow> menu_inv h m \<Longrightarrow> menu_inv h (menu_toggle h m) \<and> menu_inv h (menu_choose h l m)"
  by (simp add: menu_inv_def menu_toggle_def menu_choose_def)

lemma showhide_inv: "(b = Btn_hide) = v \<Longrightarrow> showhide (b, v) = (b', v') \<Longrightarrow> (b' = Btn_hide) = v'"
  by (auto simp: showhide_def split: if_splits)

end
