(* ===== verification/Resource_Rules.thy ===== *)
theory Resource_Rules
  imports Panel_Base
begin

text \<open>
  The forms of \<open>resource_manage_panel.js\<close>, \<open>users_panel.js\<close> and \<open>groups_panel.js\<close>: their
  validation rules, the requests of the create and edit buttons, and the dialogs while a command
  runs. The rules without a plug-in of their own are those that the pages register; that
  the others are what the validation plug-in computes is proved in \<open>Resource_Validate\<close>.
\<close>

section \<open>Rules\<close>

datatype rule = Required | AN | Maxlength nat | Digits | Min nat | IP | PATH | RelativePATH | Number | GT

definition is_letter :: "char \<Rightarrow> bool" where
  "is_letter c = (let n = (of_char c :: nat) in (65 \<le> n \<and> n \<le> 90) \<or> (97 \<le> n \<and> n \<le> 122))"

definition an_char :: "char \<Rightarrow> bool" where
  "an_char c = (is_letter c \<or> is_digit c \<or> c = CHR ''-'')"

text \<open>The regular expressions: \<open>^[A-Za-z][A-Za-z0-9-]*$\<close>, four groups of one to three digits, and paths.\<close>

definition an_ok :: "string \<Rightarrow> bool" where
  "an_ok v = (case v of c # r \<Rightarrow> is_letter c \<and> list_all an_char r | [] \<Rightarrow> False)"

definition ip_ok :: "string \<Rightarrow> bool" where
  "ip_ok v = (let parts = split_on (CHR ''.'') v in
     length parts = 4 \<and> list_all (\<lambda>p. 1 \<le> length p \<and> length p \<le> 3 \<and> list_all is_digit p) parts)"

definition path_char :: "char \<Rightarrow> bool" where
  "path_char c = (is_letter c \<or> is_digit c \<or> c \<in> set (''_-.!#$%&=~|+*{}?<>[]'' @ [CHR 0x22, CHR 0x5C]))"

definition path_ok :: "string \<Rightarrow> bool" where
  "path_ok v = (case split_on (CHR ''/'') v of
     [] \<Rightarrow> False
   | first # parts \<Rightarrow> first = '''' \<and> parts \<noteq> [] \<and> list_all (\<lambda>p. p \<noteq> '''' \<and> list_all path_char p) parts)"

definition relative_path_ok :: "string \<Rightarrow> bool" where
  "relative_path_ok v = (v \<noteq> '''' \<and> (case split_on (CHR ''/'') v of
     [] \<Rightarrow> False
   | first # parts \<Rightarrow> list_all path_char first \<and> list_all (\<lambda>p. p \<noteq> '''' \<and> list_all path_char p) parts))"

definition whole_ok :: "string \<Rightarrow> bool" where
  "whole_ok w = ((w \<noteq> '''' \<and> list_all is_digit w)
     \<or> (case split_on (CHR '','') w of
          [] \<Rightarrow> False
        | h # ts \<Rightarrow> ts \<noteq> [] \<and> 1 \<le> length h \<and> length h \<le> 3 \<and> list_all is_digit h
            \<and> list_all (\<lambda>t. length t = 3 \<and> list_all is_digit t) ts))"

definition number_ok :: "string \<Rightarrow> bool" where
  "number_ok v =
     (let u = (case v of c # r \<Rightarrow> if c = CHR ''-'' then r else v | [] \<Rightarrow> v) in
      case split_on (CHR ''.'') u of
        [w] \<Rightarrow> whole_ok w
      | [w, f] \<Rightarrow> whole_ok w \<and> f \<noteq> '''' \<and> list_all is_digit f
      | _ \<Rightarrow> False)"

text \<open>
  The comparison \<open>value > 0\<close> on a text that the rule \<open>number\<close> accepts: with a thousands separator the
  text is no number for the comparison, and it fails.
\<close>

definition gt_zero :: "string \<Rightarrow> bool" where
  "gt_zero v = (v = '''' \<or> (CHR '','' \<notin> set v \<and> hd v \<noteq> CHR ''-'' \<and> list_ex (\<lambda>c. is_digit c \<and> c \<noteq> CHR ''0'') v))"

text \<open>
  The rules of the plug-in accept a missing text; those of the pages decide for themselves. The length of a
  text is zero exactly when it is empty, so for \<open>required\<close> its bytes may be counted.
\<close>

definition optional :: "string \<Rightarrow> bool" where
  "optional v = (js_trim v = '''')"

fun check :: "rule \<Rightarrow> string \<Rightarrow> bool" where
  "check Required v = (length (js_trim v) > 0)"
| "check AN v = an_ok v"
| "check (Maxlength n) v = (optional v \<or> js_length (js_trim v) \<le> n)"
| "check Digits v = (optional v \<or> (v \<noteq> '''' \<and> list_all is_digit v))"
| "check (Min n) v = (optional v \<or> digits_value 0 v \<ge> n)"
| "check IP v = ip_ok v"
| "check PATH v = path_ok v"
| "check RelativePATH v = relative_path_ok v"
| "check Number v = (optional v \<or> number_ok v)"
| "check GT v = gt_zero v"

type_synonym rules = "(string \<times> rule list) list"

definition valid_field :: "rule list \<Rightarrow> string \<Rightarrow> bool" where
  "valid_field rs v = list_all (\<lambda>r. check r v) rs"

definition valid_form :: "rules \<Rightarrow> (string \<Rightarrow> string) \<Rightarrow> bool" where
  "valid_form rules vs = list_all (\<lambda>(nm, rs). valid_field rs (vs nm)) rules"

section \<open>The forms\<close>

definition count_rule :: "rule list" where
  "count_rule = [Required, Digits, Min 1]"

definition hn_create_rules :: rules where
  "hn_create_rules = [(''hostid'', [Required, AN, Maxlength 8]), (''cpu_cores'', [Required, Digits, Min 1]),
     (''memory_size'', [Required, Digits, Min 1])]"

definition hn_edit_rules :: rules where
  "hn_edit_rules = [(''cpu_cores'', [Required, Digits, Min 1]), (''memory_size'', [Required, Digits, Min 1])]"

definition sn_create_rules :: rules where
  "sn_create_rules = [(''storageid'', [Required, AN, Maxlength 8]), (''disk_space'', [Required, Digits, Min 1]),
     (''ipaddr'', [Required, IP]), (''base_path'', [Required, PATH, Maxlength 255]),
     (''snapshot_base_path'', [Required, PATH, Maxlength 255])]"

definition is_create_rules :: rules where
  "is_create_rules = [(''specid'', [Required, AN, Maxlength 8]), (''cpu_cores'', [Required, Digits, Min 1]),
     (''memory_size'', [Required, Digits, Min 1]), (''quota_weight'', [Number, GT])]"

definition is_edit_rules :: rules where
  "is_edit_rules = [(''cpu_cores'', [Required, Digits, Min 1]), (''memory_size'', [Required, Digits, Min 1]),
     (''quota_weight'', [Number, GT])]"

definition wmi_create_rules :: rules where
  "wmi_create_rules = [(''imageid'', [Required, AN, Maxlength 8]), (''description'', [Maxlength 255]),
     (''image_location'', [Required, RelativePATH, Maxlength 255]), (''md5sum'', [Required])]"

definition user_rules :: rules where
  "user_rules = [(''login_id'', [Required, AN, Maxlength 255]), (''user_name'', [Maxlength 200]),
     (''pass'', [Required, Maxlength 255])]"

definition group_rules :: rules where
  "group_rules = [(''group_name'', [Required, AN, Maxlength 255]), (''description'', [Maxlength 255])]"

section \<open>What the forms send\<close>

text \<open>The data of a form: the fields in their order, none escaped.\<close>

definition plain_data :: "(string \<times> string) list \<Rightarrow> string" where
  "plain_data kvs = join ''&'' (map (\<lambda>(k, v). field k v) kvs)"

definition exec_request :: "string \<Rightarrow> (string \<times> string) list \<Rightarrow> ajax_settings" where
  "exec_request url kvs = request_post \<lparr>p_url = url, p_data = JStr (plain_data kvs), p_async = JUndef\<rparr>"

definition pick :: "string list \<Rightarrow> (string \<Rightarrow> string) \<Rightarrow> (string \<times> string) list" where
  "pick ks vs = map (\<lambda>k. (k, vs k)) ks"

definition hn_create :: "(string \<Rightarrow> string) \<Rightarrow> ajax_settings option" where
  "hn_create vs =
     (if valid_form hn_create_rules vs
      then Some (exec_request ''/dialog/create_hn_exec''
        (pick [''account_id'', ''cpu_cores'', ''memory_size'', ''arch'', ''hypervisor'', ''hostid'', ''name''] vs))
      else None)"

definition hn_edit :: "(string \<Rightarrow> string) \<Rightarrow> ajax_settings option" where
  "hn_edit vs =
     (if valid_form hn_edit_rules vs
      then Some (exec_request ''/dialog/edit_hn_exec''
        ((''uuid'', vs ''hostid'') # pick [''account_id'', ''cpu_cores'', ''memory_size'', ''name''] vs))
      else None)"

definition sn_create :: "(string \<Rightarrow> string) \<Rightarrow> ajax_settings option" where
  "sn_create vs =
     (if valid_form sn_create_rules vs
      then Some (exec_request ''/dialog/create_sn_exec''
        (pick [''account_id'', ''disk_space'', ''ipaddr'', ''transport_type'', ''storage_type'', ''storageid'',
               ''snapshot_base_path'', ''base_path''] vs))
      else None)"

definition is_create :: "(string \<Rightarrow> string) \<Rightarrow> ajax_settings option" where
  "is_create vs =
     (if valid_form is_create_rules vs
      then Some (exec_request ''/dialog/create_is_exec''
        (pick [''account_id'', ''cpu_cores'', ''memory_size'', ''arch'', ''hypervisor'', ''specid''] vs
         @ (if vs ''quota_weight'' \<noteq> '''' then pick [''quota_weight''] vs else [])))
      else None)"

definition is_edit :: "(string \<Rightarrow> string) \<Rightarrow> ajax_settings option" where
  "is_edit vs =
     (if valid_form is_edit_rules vs
      then Some (exec_request ''/dialog/edit_is_exec''
        ((''uuid'', vs ''specid'') # pick [''account_id'', ''cpu_cores'', ''memory_size''] vs
         @ (if vs ''quota_weight'' \<noteq> '''' then pick [''quota_weight''] vs else [])))
      else None)"

definition wmi_create :: "(string \<Rightarrow> string) \<Rightarrow> ajax_settings option" where
  "wmi_create vs =
     (if valid_form wmi_create_rules vs
      then Some (exec_request ''/dialog/create_wmi_exec''
        (pick [''account_id'', ''arch'', ''imageid'', ''description'', ''md5sum'', ''image_location''] vs))
      else None)"

text \<open>The delete buttons, which send the id in the address: \<open>kind\<close> is one of \<open>hn\<close>, \<open>sn\<close>, \<open>is\<close>, \<open>wmi\<close>.\<close>

definition delete_exec :: "string \<Rightarrow> string \<Rightarrow> ajax_settings" where
  "delete_exec kind i =
     request_post \<lparr>p_url = ''/dialog/delete_'' @ kind @ ''_exec/'' @ i, p_data = JUndef, p_async = JUndef\<rparr>"

lemma plain_data_read:
  assumes "\<forall>(k, v)\<in>set kvs. plain_key k \<and> plain_value v"
  shows "read_query (plain_data kvs) = map (\<lambda>(k, v). (k, Some v)) kvs"
proof -
  have amp: "\<forall>w\<in>set (map (\<lambda>(k, v). field k v) kvs). CHR ''&'' \<notin> set w"
    using assms by (auto simp: field_def plain_key_def plain_value_def)
  have ne: "filter (\<lambda>w. w \<noteq> '''') (map (\<lambda>(k, v). field k v) kvs) = map (\<lambda>(k, v). field k v) kvs"
    by (auto simp: filter_id_conv field_def)
  show ?thesis unfolding plain_data_def read_query_join [OF amp] ne
    using assms by (auto simp: read_field_plain)
qed

section \<open>What the validation gives\<close>

lemma amp_no_an: "\<not> an_char (CHR ''&'')" "\<not> an_char (CHR ''%'')" "\<not> an_char (CHR ''+'')"
  by code_simp+

lemma amp_no_digit: "\<not> is_digit (CHR ''&'')" "\<not> is_digit (CHR ''%'')" "\<not> is_digit (CHR ''+'')"
  by code_simp+

lemma an_plain: "an_ok v \<Longrightarrow> plain_value v"
proof -
  assume a: "an_ok v"
  then have "list_all an_char v" by (cases v) (auto simp: an_ok_def an_char_def)
  then show "plain_value v" using amp_no_an unfolding plain_value_def list_all_iff by blast
qed

lemma digits_plain: "list_all is_digit v \<Longrightarrow> plain_value v"
  using amp_no_digit unfolding plain_value_def list_all_iff by blast

lemma count_field: "valid_field [Required, Digits, Min 1] v \<Longrightarrow> list_all is_digit v \<and> digits_value 0 v \<ge> 1"
  by (auto simp: valid_field_def optional_def)

lemma count_plain: "valid_field [Required, Digits, Min 1] v \<Longrightarrow> plain_value v"
  using count_field digits_plain by blast

lemma id_field: "valid_field (Required # AN # rs) v \<Longrightarrow> plain_value v"
  by (auto simp: valid_field_def an_plain)

lemma sent_exec:
  assumes "\<forall>(k, v)\<in>set kvs. plain_key k \<and> plain_value v"
  shows "sent_fields (exec_request url kvs) = (''POST'', url, map (\<lambda>(k, v). (k, Some v)) kvs)"
  using plain_data_read [OF assms] by (simp add: exec_request_def sent_fields_post)

text \<open>
  a host node that the create dialog sends has an id of at most 8 letters, digits and hyphens,
  and counts of at least one core and one unit of memory; with nothing to escape in the account,
  the architecture, the hypervisor and the free name, the server reads exactly the seven fields.
\<close>

theorem hn_create_valid:
  assumes "hn_create vs = Some r"
    and "\<forall>k\<in>{''account_id'', ''arch'', ''hypervisor'', ''name''}. plain_value (vs k)"
  shows "sent_fields r = (''POST'', ''/dialog/create_hn_exec'',
       map (\<lambda>k. (k, Some (vs k))) [''account_id'', ''cpu_cores'', ''memory_size'', ''arch'', ''hypervisor'', ''hostid'', ''name''])
     \<and> an_ok (vs ''hostid'') \<and> js_length (js_trim (vs ''hostid'')) \<le> 8
     \<and> digits_value 0 (vs ''cpu_cores'') \<ge> 1 \<and> digits_value 0 (vs ''memory_size'') \<ge> 1"
proof -
  have v: "valid_form hn_create_rules vs" using assms(1) by (simp add: hn_create_def split: if_splits)
  then have h: "valid_field [Required, AN, Maxlength 8] (vs ''hostid'')"
    and c: "valid_field [Required, Digits, Min 1] (vs ''cpu_cores'')" "valid_field [Required, Digits, Min 1] (vs ''memory_size'')"
    by (simp_all add: valid_form_def hn_create_rules_def)
  let ?kvs = "pick [''account_id'', ''cpu_cores'', ''memory_size'', ''arch'', ''hypervisor'', ''hostid'', ''name''] vs"
  have r: "r = exec_request ''/dialog/create_hn_exec'' ?kvs" using assms(1) v by (simp add: hn_create_def)
  have k: "plain_key ''account_id''" "plain_key ''cpu_cores''" "plain_key ''memory_size''" "plain_key ''arch''"
    "plain_key ''hypervisor''" "plain_key ''hostid''" "plain_key ''name''" by (simp_all add: plain_key_def)
  have p: "\<forall>(k, v)\<in>set ?kvs. plain_key k \<and> plain_value v"
    using k assms(2) count_plain [OF c(1)] count_plain [OF c(2)] id_field [OF h] by (simp add: pick_def)
  have "sent_fields r = (''POST'', ''/dialog/create_hn_exec'',
      map (\<lambda>k. (k, Some (vs k))) [''account_id'', ''cpu_cores'', ''memory_size'', ''arch'', ''hypervisor'', ''hostid'', ''name''])"
    unfolding r sent_exec [OF p] by (simp add: pick_def)
  moreover have "an_ok (vs ''hostid'')" "js_length (js_trim (vs ''hostid'')) \<le> 8"
    using h by (auto simp: valid_field_def optional_def)
  ultimately show ?thesis using count_field [OF c(1)] count_field [OF c(2)] by blast
qed

definition hn_demo :: "string \<Rightarrow> string" where
  "hn_demo = (\<lambda>_. '''')(''account_id'' := ''a-shpoolxx'', ''cpu_cores'' := ''8'', ''memory_size'' := ''16384'',
     ''arch'' := ''x86_64'', ''hypervisor'' := ''kvm'', ''hostid'' := ''demo1'', ''name'' := ''node 1'')"

lemma hn_create_valid_witness:
  "\<exists>r. hn_create hn_demo = Some r \<and> snd (snd (sent_fields r)) ! 5 = (''hostid'', Some ''demo1'')"
proof -
  obtain r where r: "hn_create hn_demo = Some r"
  proof -
    have "valid_form hn_create_rules hn_demo" by code_simp
    then show ?thesis using that by (simp add: hn_create_def)
  qed
  have p: "\<forall>k\<in>{''account_id'', ''arch'', ''hypervisor'', ''name''}. plain_value (hn_demo k)"
    by (simp add: hn_demo_def plain_value_def)
  have h: "hn_demo ''hostid'' = ''demo1''" by (simp add: hn_demo_def)
  show ?thesis using hn_create_valid [OF r p] r h by simp
qed

text \<open>The paths of a storage node are validated, but the characters they may have include the
  ampersand and the equals sign, and they are not escaped.\<close>

lemma path_chars_amp: "list_all path_char ''s&storageid=''" "CHR ''/'' \<notin> set ''s&storageid=''"
  by code_simp+

lemma an_path: "an_ok i \<Longrightarrow> list_all path_char i \<and> CHR ''/'' \<notin> set i"
proof -
  assume "an_ok i"
  then have a: "list_all an_char i" by (cases i) (auto simp: an_ok_def an_char_def)
  have "\<not> an_char (CHR ''/'')" by code_simp
  then have "CHR ''/'' \<notin> set i" using a unfolding list_all_iff by blast
  moreover have "an_char c \<Longrightarrow> path_char c" for c by (auto simp: an_char_def path_char_def)
  ultimately show ?thesis using a by (auto simp: list_all_iff)
qed

lemma injecting_path:
  assumes "an_ok i" "js_length (js_trim (''/s&storageid='' @ i)) \<le> 255"
  shows "valid_field [Required, PATH, Maxlength 255] (''/s&storageid='' @ i)"
proof -
  let ?t = "''s&storageid='' @ i"
  have "CHR ''/'' \<notin> set ?t" using an_path [OF assms(1)] path_chars_amp(2) by simp
  then have "split_on (CHR ''/'') (CHR ''/'' # ?t) = [[], ?t]"
    by (simp only: split_on.simps split_on_none if_True simp_thms)
  then have "path_ok (''/s&storageid='' @ i)"
    using an_path [OF assms(1)] path_chars_amp(1) by (simp add: path_ok_def)
  moreover have "js_trim (''/s&storageid='' @ i) \<noteq> ''''"
  proof -
    have "\<not> blank_byte (CHR ''/'')" by code_simp
    then show ?thesis using trim_blank_bytes [of "''/s&storageid='' @ i"] by auto
  qed
  ultimately show ?thesis using assms(2) by (simp add: valid_field_def)
qed

text \<open>
  in the create dialog for storage nodes a valid path can carry another id: when the form is
  valid and the snapshot path is \<open>/s&storageid=i\<close>, the server reads the id that was typed in and,
  after it, the id \<open>i\<close>.
\<close>

theorem valid_snapshot_path_injects:
  assumes "valid_form sn_create_rules vs" and "an_ok i" and "js_length (js_trim (''/s&storageid='' @ i)) \<le> 255"
  shows "\<exists>r xs ys. sn_create (vs(''snapshot_base_path'' := ''/s&storageid='' @ i)) = Some r
     \<and> snd (snd (sent_fields r)) = xs @ [(''storageid'', Some (vs ''storageid'')), (''snapshot_base_path'', Some ''/s''),
          (''storageid'', Some i)] @ ys"
proof -
  let ?vs = "vs(''snapshot_base_path'' := ''/s&storageid='' @ i)"
  have "valid_form sn_create_rules ?vs"
    using assms(1) injecting_path [OF assms(2,3)] by (simp add: valid_form_def sn_create_rules_def)
  then have r: "sn_create ?vs = Some (exec_request ''/dialog/create_sn_exec''
      (pick [''account_id'', ''disk_space'', ''ipaddr'', ''transport_type'', ''storage_type'', ''storageid'',
             ''snapshot_base_path'', ''base_path''] ?vs))" by (simp add: sn_create_def)
  have id: "plain_value (vs ''storageid'')"
    using assms(1) by (auto simp: valid_form_def sn_create_rules_def id_field)
  have k: "plain_key ''storageid''" "plain_key ''snapshot_base_path''" by (simp_all add: plain_key_def)
  have s: "plain_value ''/s''" by (simp add: plain_value_def)
  define w where "w = (\<lambda>k. field k (?vs k))"
  have f: "w ''snapshot_base_path'' = field ''snapshot_base_path'' ''/s'' @ ''&'' @ field ''storageid'' i"
    "w ''storageid'' = field ''storageid'' (vs ''storageid'')"
    by (simp_all add: field_def w_def)
  have m: "read_query (w ''storageid'') @ read_query (w ''snapshot_base_path'')
      = [(''storageid'', Some (vs ''storageid'')), (''snapshot_base_path'', Some ''/s''), (''storageid'', Some i)]"
    unfolding f by (simp only: read_query_append read_plain [OF k(1) id] read_plain [OF k(2) s]
        read_plain [OF k(1) an_plain [OF assms(2)]]) simp
  have d: "plain_data (pick [''account_id'', ''disk_space'', ''ipaddr'', ''transport_type'', ''storage_type'', ''storageid'',
             ''snapshot_base_path'', ''base_path''] ?vs)
      = (w ''account_id'' @ ''&'' @ w ''disk_space'' @ ''&'' @ w ''ipaddr'' @ ''&'' @ w ''transport_type'' @ ''&'' @ w ''storage_type'')
        @ ''&'' @ (w ''storageid'' @ ''&'' @ w ''snapshot_base_path'') @ ''&'' @ w ''base_path''"
    by (simp add: plain_data_def pick_def w_def)
  show ?thesis
  proof (intro exI conjI)
    show "sn_create ?vs = Some (exec_request ''/dialog/create_sn_exec''
      (pick [''account_id'', ''disk_space'', ''ipaddr'', ''transport_type'', ''storage_type'', ''storageid'',
             ''snapshot_base_path'', ''base_path''] ?vs))" by (rule r)
    show "snd (snd (sent_fields (exec_request ''/dialog/create_sn_exec''
      (pick [''account_id'', ''disk_space'', ''ipaddr'', ''transport_type'', ''storage_type'', ''storageid'',
             ''snapshot_base_path'', ''base_path''] ?vs))))
       = read_query (w ''account_id'' @ ''&'' @ w ''disk_space'' @ ''&'' @ w ''ipaddr'' @ ''&'' @ w ''transport_type'' @ ''&'' @ w ''storage_type'')
         @ [(''storageid'', Some (vs ''storageid'')), (''snapshot_base_path'', Some ''/s''), (''storageid'', Some i)]
         @ read_query (w ''base_path'')"
      unfolding exec_request_def sent_fields_post snd_conv d m [symmetric]
      by (simp only: read_query_append append_assoc)
  qed
qed

definition sn_demo :: "string \<Rightarrow> string" where
  "sn_demo = (\<lambda>_. '''')(''account_id'' := ''a-shpoolxx'', ''disk_space'' := ''1024'', ''ipaddr'' := ''10.0.0.2'',
     ''transport_type'' := ''iscsi'', ''storage_type'' := ''zfs'', ''storageid'' := ''demo1'',
     ''snapshot_base_path'' := ''/snap'', ''base_path'' := ''/vol'')"

lemma valid_snapshot_path_injects_witness:
  "\<exists>r. sn_create (sn_demo(''snapshot_base_path'' := ''/s&storageid='' @ ''other'')) = Some r
     \<and> (''storageid'', Some ''other'') \<in> set (snd (snd (sent_fields r)))"
proof -
  have "valid_form sn_create_rules sn_demo" "an_ok ''other''"
    "js_length (js_trim (''/s&storageid='' @ ''other'')) \<le> 255" by code_simp+
  from valid_snapshot_path_injects [OF this]
  obtain r xs ys where "sn_create (sn_demo(''snapshot_base_path'' := ''/s&storageid='' @ ''other'')) = Some r"
    and f: "snd (snd (sent_fields r)) = xs @ [(''storageid'', Some (sn_demo ''storageid'')),
          (''snapshot_base_path'', Some ''/s''), (''storageid'', Some ''other'')] @ ys" by blast
  moreover have "(''storageid'', Some ''other'') \<in> set (snd (snd (sent_fields r)))" unfolding f by simp
  ultimately show ?thesis by blast
qed

end
