(* ===== verification/Resource_Dialogs.thy ===== *)
theory Resource_Dialogs
  imports Resource_Rules
begin

text \<open>
  The dialogs of \<open>resource_manage_panel.js\<close> that choose an account and then one of its host nodes,
  storage nodes, instance specifications or images; the dialogs while a command runs; the check sum
  of an image; and the dialog for the drives and interfaces of a specification. Requests are
  answered in any order.
\<close>

section \<open>Choosing one of an account's items\<close>

text \<open>
  The answer of a list request: the loops run to \<open>total\<close> and throw when there are fewer results.
  \<open>ch_sel\<close> is the value of the select, \<open>None\<close> (null) when it is empty; \<open>ch_cache\<close> is what
  \<open>$.data\<close> keeps; \<open>ch_view\<close> the fields and buttons of the dialog.
\<close>

record 'n answer =
  ans_total :: nat
  ans_results :: "'n list"

record ('n, 'v) chooser =
  ch_account :: string
  ch_cache :: "'n answer option"
  ch_options :: "string list"
  ch_sel :: "string option"
  ch_sent :: "ajax_settings list"
  ch_view :: 'v

definition answered :: "'n answer \<Rightarrow> 'n list" where
  "answered a = take (ans_total a) (ans_results a)"

text \<open>The handlers, with what differs between the dialogs as arguments.\<close>

definition item_change :: "('n \<Rightarrow> string) \<Rightarrow> ('n \<Rightarrow> 'v \<Rightarrow> 'v) \<Rightarrow> ('n, 'v) chooser \<Rightarrow> ('n, 'v) chooser" where
  "item_change uuid_of fill s =
     (if ch_sel s = Some '''' then s
      else case ch_cache s of
          None \<Rightarrow> s
        | Some a \<Rightarrow> s\<lparr>ch_view := fold (\<lambda>n v. if ch_sel s = Some (uuid_of n) then fill n v else v)
                                  (answered a) (ch_view s)\<rparr>)"

definition list_loaded ::
  "('n \<Rightarrow> string) \<Rightarrow> ('n \<Rightarrow> 'v \<Rightarrow> 'v) \<Rightarrow> ('v \<Rightarrow> 'v) \<Rightarrow> 'n answer \<Rightarrow> ('n, 'v) chooser \<Rightarrow> ('n, 'v) chooser" where
  "list_loaded uuid_of fill clear a s =
     (let s1 = s\<lparr>ch_cache := Some a\<rparr>;
          ids = map uuid_of (answered a);
          s2 = s1\<lparr>ch_options := ids, ch_sel := (case ids of [] \<Rightarrow> None | i # _ \<Rightarrow> Some i)\<rparr>
      in if ans_total a > 0
         then if ans_total a \<le> length (ans_results a) then item_change uuid_of fill s2 else s2
         else s1\<lparr>ch_options := [''''], ch_sel := Some '''', ch_view := clear (ch_view s)\<rparr>)"

definition account_change :: "string \<Rightarrow> string \<Rightarrow> ('n, 'v) chooser \<Rightarrow> ('n, 'v) chooser" where
  "account_change url a s =
     s\<lparr>ch_account := a, ch_sent := ch_sent s @ [exec_request url [(''account_id'', a)]]\<rparr>"

definition choose_item :: "('n \<Rightarrow> string) \<Rightarrow> ('n \<Rightarrow> 'v \<Rightarrow> 'v) \<Rightarrow> string \<Rightarrow> ('n, 'v) chooser \<Rightarrow> ('n, 'v) chooser" where
  "choose_item uuid_of fill i s =
     (if i \<in> set (ch_options s) then item_change uuid_of fill (s\<lparr>ch_sel := Some i\<rparr>) else s)"

text \<open>The value of the select as it enters a string.\<close>

definition sel_text :: "('n, 'v) chooser \<Rightarrow> string" where
  "sel_text s = (case ch_sel s of None \<Rightarrow> ''null'' | Some i \<Rightarrow> i)"

datatype 'n choice = Account string | Answer "'n answer" | Choose string

fun chooser_step ::
  "string \<Rightarrow> ('n \<Rightarrow> string) \<Rightarrow> ('n \<Rightarrow> 'v \<Rightarrow> 'v) \<Rightarrow> ('v \<Rightarrow> 'v) \<Rightarrow> 'n choice \<Rightarrow> ('n, 'v) chooser \<Rightarrow> ('n, 'v) chooser" where
  "chooser_step url uuid_of fill clear (Account a) s = account_change url a s"
| "chooser_step url uuid_of fill clear (Answer a) s = list_loaded uuid_of fill clear a s"
| "chooser_step url uuid_of fill clear (Choose i) s = choose_item uuid_of fill i s"

definition chooser_open :: "string \<Rightarrow> string \<Rightarrow> 'v \<Rightarrow> ('n, 'v) chooser" where
  "chooser_open url a v =
     account_change url a \<lparr>ch_account = a, ch_cache = None, ch_options = [], ch_sel = None, ch_sent = [], ch_view = v\<rparr>"

section \<open>The contract of these dialogs\<close>

text \<open>
  What a dialog provides: filling in an item shows it, and arms the delete button exactly for items
  that may be deleted; clearing disarms it. A good answer has as many results as it announces, with
  non-empty ids. The server sends at most 1000 results and the full total, so an answer can announce
  more than it has.
\<close>

definition ids_ok :: "('n \<Rightarrow> string) \<Rightarrow> 'n answer \<Rightarrow> bool" where
  "ids_ok uuid_of a = list_all (\<lambda>n. uuid_of n \<noteq> '''') (ans_results a)"

definition complete :: "'n answer \<Rightarrow> bool" where
  "complete a = (ans_total a \<le> length (ans_results a))"

definition good_answer :: "('n \<Rightarrow> string) \<Rightarrow> 'n answer \<Rightarrow> bool" where
  "good_answer uuid_of a =
     (ans_total a \<le> length (ans_results a) \<and> list_all (\<lambda>n. uuid_of n \<noteq> '''') (ans_results a))"

lemma good_answer_eq: "good_answer uuid_of a = (complete a \<and> ids_ok uuid_of a)"
  by (simp add: good_answer_def complete_def ids_ok_def)

text \<open>An event that is not the answer of a list.\<close>

fun no_list :: "'n choice \<Rightarrow> bool" where
  "no_list (Answer a) = False"
| "no_list _ = True"

locale chooser_dialog =
  fixes uuid_of :: "'n \<Rightarrow> string"
    and fill :: "'n \<Rightarrow> 'v \<Rightarrow> 'v"
    and clear :: "'v \<Rightarrow> 'v"
    and shows_item :: "'n \<Rightarrow> 'v \<Rightarrow> bool"
    and armed :: "'v \<Rightarrow> bool"
    and deletable :: "'n \<Rightarrow> bool"
  assumes shows_fill: "shows_item n (fill n v)"
    and armed_fill: "armed (fill n v) \<longleftrightarrow> deletable n"
    and armed_clear: "\<not> armed (clear v)"
begin

definition settled :: "('n, 'v) chooser \<Rightarrow> bool" where
  "settled s = (case ch_cache s of
      None \<Rightarrow> ch_options s = [] \<and> ch_sel s = None
    | Some a \<Rightarrow> ids_ok uuid_of a \<and>
        (if answered a = [] then ch_options s = [''''] \<and> ch_sel s = Some '''' \<and> \<not> armed (ch_view s)
         else ch_options s = map uuid_of (answered a) \<and>
           (\<exists>n\<in>set (answered a). ch_sel s = Some (uuid_of n) \<and> shows_item n (ch_view s)
              \<and> (armed (ch_view s) \<longleftrightarrow> deletable n))))"

lemma fold_fill:
  assumes "i \<in> uuid_of ` set ns"
  shows "\<exists>n\<in>set ns. i = uuid_of n \<and> shows_item n (fold (\<lambda>n v. if Some i = Some (uuid_of n) then fill n v else v) ns v)
     \<and> (armed (fold (\<lambda>n v. if Some i = Some (uuid_of n) then fill n v else v) ns v) \<longleftrightarrow> deletable n)"
  using assms
proof (induction ns rule: rev_induct)
  case (snoc n ns)
  then show ?case
    by (cases "i = uuid_of n") (auto simp: shows_fill armed_fill)
qed simp

lemma good_nonempty: "ids_ok uuid_of a \<Longrightarrow> n \<in> set (answered a) \<Longrightarrow> uuid_of n \<noteq> ''''"
  by (auto simp: ids_ok_def answered_def list_all_iff dest: in_set_takeD)

lemma item_change_settled:
  assumes "ch_cache s = Some a" "ids_ok uuid_of a" "answered a \<noteq> []"
    "ch_options s = map uuid_of (answered a)" "ch_sel s = Some i" "i \<in> uuid_of ` set (answered a)"
  shows "settled (item_change uuid_of fill s)"
proof -
  have "i \<noteq> ''''" using good_nonempty [OF assms(2)] assms(6) by auto
  then have e: "item_change uuid_of fill s = s\<lparr>ch_view := fold (\<lambda>n v. if Some i = Some (uuid_of n) then fill n v else v)
      (answered a) (ch_view s)\<rparr>" using assms by (simp add: item_change_def)
  obtain n where "n \<in> set (answered a)" "i = uuid_of n" "shows_item n (ch_view (item_change uuid_of fill s))"
    "armed (ch_view (item_change uuid_of fill s)) \<longleftrightarrow> deletable n"
    using fold_fill [OF assms(6), of "ch_view s"] unfolding e by auto
  moreover have "ch_cache (item_change uuid_of fill s) = Some a" "ch_sel (item_change uuid_of fill s) = Some i"
    "ch_options (item_change uuid_of fill s) = map uuid_of (answered a)"
    unfolding e using assms by simp_all
  ultimately show ?thesis using assms(2,3) unfolding settled_def by auto
qed

lemma list_loaded_settled:
  assumes "good_answer uuid_of a"
  shows "settled (list_loaded uuid_of fill clear a s)"
proof (cases "answered a")
  case Nil
  then have "ans_total a = 0" using assms by (auto simp: answered_def good_answer_def)
  then show ?thesis using Nil assms by (simp add: settled_def list_loaded_def Let_def armed_clear good_answer_eq)
next
  case (Cons n ns)
  then have t: "ans_total a > 0" by (cases "ans_total a") (auto simp: answered_def)
  have l: "ans_total a \<le> length (ans_results a)" using assms by (simp add: good_answer_def)
  show ?thesis unfolding list_loaded_def Let_def using t l Cons
    using assms by (simp add: item_change_settled [of _ a "uuid_of n"] good_answer_eq)
qed

lemma choose_settled: "settled s \<Longrightarrow> settled (choose_item uuid_of fill i s)"
proof (cases "i \<in> set (ch_options s)")
  case True
  assume s: "settled s"
  then obtain a where c: "ch_cache s = Some a" "ids_ok uuid_of a"
    using True by (auto simp: settled_def split: option.splits)
  show ?thesis
  proof (cases "answered a = []")
    case True
    with s c \<open>i \<in> _\<close> have "i = ''''" "ch_sel s = Some ''''" by (auto simp: settled_def)
    then show ?thesis using s \<open>i \<in> _\<close> c True by (simp add: choose_item_def item_change_def settled_def)
  next
    case False
    with s c have "ch_options s = map uuid_of (answered a)" by (simp add: settled_def)
    then show ?thesis using True c False by (simp add: choose_item_def item_change_settled [of _ a i])
  qed
qed (simp add: choose_item_def)

lemma account_settled: "settled (account_change url a s) = settled s"
  by (cases "ch_cache s") (simp_all add: account_change_def settled_def)

lemma open_settled: "settled (chooser_open url a v)"
  by (simp add: chooser_open_def account_change_def settled_def)

lemma step_cache: "no_list e \<Longrightarrow> ch_cache (chooser_step url uuid_of fill clear e s) = ch_cache s"
  by (cases e) (auto simp: account_change_def choose_item_def item_change_def split: option.splits)

lemma run_settled:
  "settled s \<Longrightarrow> list_all no_list es \<Longrightarrow> settled (fold (chooser_step url uuid_of fill clear) es s)
     \<and> ch_cache (fold (chooser_step url uuid_of fill clear) es s) = ch_cache s"
proof (induction es arbitrary: s)
  case (Cons e es)
  then have "settled (chooser_step url uuid_of fill clear e s)" by (cases e) (simp_all add: choose_settled account_settled)
  then show ?case using Cons step_cache [of e url s] by simp
qed simp

text \<open>After an answer that was not complete, the options are there, and choosing one of them settles the dialog.\<close>

lemma run_chosen:
  "ch_cache s = Some c \<Longrightarrow> ids_ok uuid_of c \<Longrightarrow> ch_options s = map uuid_of (answered c) \<Longrightarrow> n \<in> set (answered c) \<Longrightarrow>
   Choose (uuid_of n) \<in> set es \<Longrightarrow> list_all no_list es \<Longrightarrow>
     settled (fold (chooser_step url uuid_of fill clear) es s) \<and> ch_cache (fold (chooser_step url uuid_of fill clear) es s) = Some c"
proof (induction es arbitrary: s)
  case (Cons e es)
  show ?case
  proof (cases "\<exists>m \<in> set (answered c). e = Choose (uuid_of m)")
    case True
    then obtain m where m: "m \<in> set (answered c)" "e = Choose (uuid_of m)" by blast
    have "settled (chooser_step url uuid_of fill clear e s)"
      using Cons.prems(1-3) m by (auto simp: choose_item_def intro!: item_change_settled [where i = "uuid_of m" and a = c])
    then show ?thesis using run_settled [of _ es url] Cons.prems(1,6) step_cache [of e url s] by simp
  next
    case False
    then have "ch_options (chooser_step url uuid_of fill clear e s) = ch_options s"
      using Cons.prems(3,6) by (cases e) (auto simp: account_change_def choose_item_def)
    moreover have "Choose (uuid_of n) \<in> set es" using False Cons.prems(4,5) by auto
    ultimately show ?thesis using Cons.IH [of "chooser_step url uuid_of fill clear e s"] Cons.prems step_cache [of e url s] by simp
  qed
qed simp

lemma list_loaded_parts:
  "ch_cache (list_loaded uuid_of fill clear a s) = Some a"
  "ans_total a > 0 \<Longrightarrow> ch_options (list_loaded uuid_of fill clear a s) = map uuid_of (answered a)"
  by (simp_all add: list_loaded_def Let_def item_change_def)

text \<open>
  Once an answer is there that is complete, or one of whose items has been chosen since, an armed button
  deletes an item that is chosen, shown and deletable.
\<close>

lemma armed_deletable:
  assumes "s = fold (chooser_step url uuid_of fill clear) (es0 @ Answer c # es) s0" and "list_all no_list es"
    and "ids_ok uuid_of c" and "complete c \<or> (\<exists>n\<in>set (answered c). Choose (uuid_of n) \<in> set es)" and "armed (ch_view s)"
  shows "\<exists>n\<in>set (answered c). ch_sel s = Some (uuid_of n) \<and> shows_item n (ch_view s) \<and> deletable n"
proof -
  define t where "t = list_loaded uuid_of fill clear c (fold (chooser_step url uuid_of fill clear) es0 s0)"
  have s: "s = fold (chooser_step url uuid_of fill clear) es t" by (simp add: assms(1) t_def)
  have "settled s \<and> ch_cache s = Some c"
  proof (cases "complete c")
    case True
    then have "settled t" unfolding t_def using assms(3) by (intro list_loaded_settled) (simp add: good_answer_eq)
    then show ?thesis unfolding s using run_settled [of t es url] assms(2) by (simp add: t_def list_loaded_parts)
  next
    case False
    then obtain n where n: "n \<in> set (answered c)" "Choose (uuid_of n) \<in> set es" using assms(4) by blast
    then have "ans_total c > 0" by (cases "ans_total c") (auto simp: answered_def)
    then show ?thesis unfolding s using run_chosen [OF _ assms(3) _ n assms(2), of t] by (simp add: t_def list_loaded_parts)
  qed
  then show ?thesis using assms(5) by (auto simp: settled_def split: if_splits)
qed

text \<open>What the select shows in any state, whatever the answers hold.\<close>

definition select_ok :: "('n, 'v) chooser \<Rightarrow> bool" where
  "select_ok s = (case ch_cache s of
      None \<Rightarrow> ch_options s = [] \<and> ch_sel s = None
    | Some c \<Rightarrow> if ans_total c = 0 then ch_options s = [''''] \<and> ch_sel s = Some '''' \<and> (\<exists>v. ch_view s = clear v)
        else ch_options s = map uuid_of (answered c) \<and> (if answered c = [] then ch_sel s = None else ch_sel s \<in> Some ` set (ch_options s)))"

lemma step_select_ok: "select_ok s \<Longrightarrow> select_ok (chooser_step url uuid_of fill clear e s)"
proof (cases e)
  case (Account a)
  assume "select_ok s"
  then show ?thesis unfolding Account by (simp add: select_ok_def account_change_def cong: option.case_cong if_cong)
next
  case (Answer a)
  then show ?thesis
    by (cases "ids_ok uuid_of a"; cases "answered a") (auto simp: select_ok_def list_loaded_def item_change_def Let_def)
next
  case (Choose i)
  assume s: "select_ok s"
  show ?thesis
  proof (cases "i \<in> set (ch_options s)")
    case True
    then obtain c where "ch_cache s = Some c" using s by (cases "ch_cache s") (auto simp: select_ok_def)
    then show ?thesis unfolding Choose using s True
      by (cases "ans_total c = 0") (auto simp: select_ok_def choose_item_def item_change_def)
  qed (use s Choose in \<open>simp add: choose_item_def\<close>)
qed

lemma run_select_ok: "select_ok s \<Longrightarrow> select_ok (fold (chooser_step url uuid_of fill clear) es s)"
  by (induction es arbitrary: s) (simp_all add: step_select_ok)

lemma open_select_ok: "select_ok (chooser_open url a v)"
  by (simp add: select_ok_def chooser_open_def account_change_def)

text \<open>An answer decides the view whatever was there before: the last one that arrives wins.\<close>

lemma late_answer:
  assumes "good_answer uuid_of a" "answered a \<noteq> []"
  shows "ch_sel (list_loaded uuid_of fill clear a s) = Some (uuid_of (hd (answered a)))
     \<and> ch_account (list_loaded uuid_of fill clear a s) = ch_account s"
proof -
  obtain n ns where c: "answered a = n # ns" using assms(2) by (cases "answered a") auto
  then have "ans_total a > 0" by (cases "ans_total a") (auto simp: answered_def)
  then show ?thesis using assms(1) c
    by (simp add: list_loaded_def Let_def item_change_def good_answer_def split: if_splits)
qed

end

section \<open>Host nodes: edit and delete\<close>

text \<open>\<open>label\<close> is what the page's hidden fields give for an architecture or a hypervisor.\<close>

record host_node =
  hn_uuid :: string
  hn_cpu :: string
  hn_memory :: string
  hn_name :: string
  hn_arch :: string
  hn_hypervisor :: string
  hn_status :: string

record hn_view =
  hv_cpu :: string
  hv_memory :: string
  hv_name :: string
  hv_arch :: string
  hv_hypervisor :: string
  hv_status :: string
  hv_texts_off :: bool
  hv_delete_off :: bool
  hv_update_off :: bool

definition hn_view_page :: hn_view where
  "hn_view_page = \<lparr>hv_cpu = '''', hv_memory = '''', hv_name = '''', hv_arch = ''<BR>'', hv_hypervisor = ''<BR>'',
     hv_status = ''<BR>'', hv_texts_off = True, hv_delete_off = False, hv_update_off = False\<rparr>"

definition hn_fill :: "(string \<Rightarrow> string) \<Rightarrow> host_node \<Rightarrow> hn_view \<Rightarrow> hn_view" where
  "hn_fill label n v =
     v\<lparr>hv_cpu := hn_cpu n, hv_texts_off := False, hv_memory := hn_memory n, hv_name := hn_name n,
       hv_arch := label (hn_arch n), hv_hypervisor := label (hn_hypervisor n), hv_status := hn_status n,
       hv_delete_off := (hn_status n = ''online''), hv_update_off := False\<rparr>"

definition hn_clear :: "hn_view \<Rightarrow> hn_view" where
  "hn_clear v =
     v\<lparr>hv_cpu := '''', hv_texts_off := True, hv_memory := '''', hv_name := '''', hv_arch := ''<BR>'',
       hv_hypervisor := ''<BR>'', hv_status := ''<BR>'', hv_delete_off := True, hv_update_off := True\<rparr>"

definition hn_shows :: "host_node \<Rightarrow> hn_view \<Rightarrow> bool" where
  "hn_shows n v = (hv_cpu v = hn_cpu n \<and> hv_memory v = hn_memory n \<and> hv_name v = hn_name n \<and> hv_status v = hn_status n
     \<and> \<not> hv_update_off v \<and> \<not> hv_texts_off v)"

definition hn_account_change :: "string \<Rightarrow> (host_node, hn_view) chooser \<Rightarrow> (host_node, hn_view) chooser" where
  "hn_account_change = account_change ''/dialog/get_hn_list''"

definition hn_list_loaded :: "(string \<Rightarrow> string) \<Rightarrow> host_node answer \<Rightarrow> (host_node, hn_view) chooser \<Rightarrow> (host_node, hn_view) chooser" where
  "hn_list_loaded label = list_loaded hn_uuid (hn_fill label) hn_clear"

definition hn_select_change :: "(string \<Rightarrow> string) \<Rightarrow> (host_node, hn_view) chooser \<Rightarrow> (host_node, hn_view) chooser" where
  "hn_select_change label = item_change hn_uuid (hn_fill label)"

definition hn_step :: "(string \<Rightarrow> string) \<Rightarrow> host_node choice \<Rightarrow> (host_node, hn_view) chooser \<Rightarrow> (host_node, hn_view) chooser" where
  "hn_step label = chooser_step ''/dialog/get_hn_list'' hn_uuid (hn_fill label) hn_clear"

definition hn_open :: "string \<Rightarrow> (host_node, hn_view) chooser" where
  "hn_open a = chooser_open ''/dialog/get_hn_list'' a hn_view_page"

text \<open>The buttons of the dialog: a disabled one does nothing. The update reads the fields of the form.\<close>

definition hn_delete :: "(host_node, hn_view) chooser \<Rightarrow> ajax_settings option" where
  "hn_delete s = (if hv_delete_off (ch_view s) then None else Some (delete_exec ''hn'' (sel_text s)))"

definition hn_values :: "(host_node, hn_view) chooser \<Rightarrow> string \<Rightarrow> string" where
  "hn_values s k =
     (if k = ''account_id'' then ch_account s
      else if k = ''hostid'' then sel_text s
      else if k = ''cpu_cores'' then hv_cpu (ch_view s)
      else if k = ''memory_size'' then hv_memory (ch_view s)
      else if k = ''name'' then hv_name (ch_view s)
      else '''')"

text \<open>The validation passes over disabled fields, so with the text fields off it checks nothing.\<close>

definition hn_update :: "(host_node, hn_view) chooser \<Rightarrow> ajax_settings option" where
  "hn_update s =
     (if hv_update_off (ch_view s) then None
      else if hv_texts_off (ch_view s)
      then Some (exec_request ''/dialog/edit_hn_exec''
        ((''uuid'', hn_values s ''hostid'') # pick [''account_id'', ''cpu_cores'', ''memory_size'', ''name''] (hn_values s)))
      else hn_edit (hn_values s))"

interpretation hn: chooser_dialog hn_uuid "hn_fill label" hn_clear hn_shows "\<lambda>v. \<not> hv_delete_off v" "\<lambda>n. hn_status n \<noteq> ''online''"
  by unfold_locales (simp_all add: hn_fill_def hn_clear_def hn_shows_def)



definition node_demo :: "string \<Rightarrow> string \<Rightarrow> host_node" where
  "node_demo i st = \<lparr>hn_uuid = i, hn_cpu = ''8'', hn_memory = ''4096'', hn_name = i, hn_arch = ''x86_64'',
     hn_hypervisor = ''kvm'', hn_status = st\<rparr>"

definition nodes_demo :: "host_node answer" where
  "nodes_demo = \<lparr>ans_total = 2, ans_results = [node_demo ''hn-up'' ''online'', node_demo ''hn-down'' ''offline'']\<rparr>"


text \<open>
  A list that announces more nodes than it holds stops the loop before the buttons are set: the dialog
  keeps what it showed, and the delete button sends the first node of the new list, online or not.
\<close>

lemma hn_delete_incomplete:
  "hn_delete (fold (hn_step id) [Answer \<lparr>ans_total = 1001, ans_results = [node_demo ''hn-up'' ''online'']\<rparr>] (hn_open ''a-1''))
     = Some (delete_exec ''hn'' ''hn-up'')"
  by code_simp

text \<open>Before the first list arrives the select is empty and both buttons are enabled.\<close>

lemma hn_delete_early: "hn_delete (hn_open a) = Some (delete_exec ''hn'' ''null'')"
  by (simp add: hn_delete_def hn_open_def chooser_open_def account_change_def hn_view_page_def sel_text_def)

lemma hn_update_early:
  "hn_update (hn_open a) = Some (exec_request ''/dialog/edit_hn_exec''
     [(''uuid'', ''null''), (''account_id'', a), (''cpu_cores'', ''''), (''memory_size'', ''''), (''name'', '''')])"
  by (simp add: hn_update_def hn_open_def chooser_open_def account_change_def hn_view_page_def sel_text_def hn_values_def pick_def)

text \<open>
  the lists of two accounts that arrive out of order leave the nodes of the first account under
  the second one: after \<open>b\<close> is chosen and its list arrives, the late list of \<open>a\<close> replaces it, and
  the update button then assigns the first node of \<open>a\<close> to the account \<open>b\<close>.
\<close>

theorem late_list_moves_node:
  assumes "good_answer hn_uuid la" and "answered la = n # ns" and "good_answer hn_uuid lb"
    and "valid_field [Required, Digits, Min 1] (hn_cpu n)" and "valid_field [Required, Digits, Min 1] (hn_memory n)"
    and "plain_value b" and "plain_value (hn_uuid n)" and "plain_value (hn_name n)" and "distinct (map hn_uuid (n # ns))"
  shows "\<exists>r. hn_update (fold (hn_step label) [Account b, Answer lb, Answer la] (hn_open a)) = Some r
     \<and> sent_fields r = (''POST'', ''/dialog/edit_hn_exec'',
         [(''uuid'', Some (hn_uuid n)), (''account_id'', Some b), (''cpu_cores'', Some (hn_cpu n)),
          (''memory_size'', Some (hn_memory n)), (''name'', Some (hn_name n))])"
proof -
  define s where "s = fold (hn_step label) [Account b, Answer lb] (hn_open a)"
  define t where "t = list_loaded hn_uuid (hn_fill label) hn_clear la s"
  have acc: "ch_account s = b"
    by (simp add: s_def hn_step_def account_change_def list_loaded_def Let_def item_change_def split: option.splits)
  have "settled_t": "hn.settled t" unfolding t_def by (rule hn.list_loaded_settled [OF assms(1)])
  have cache: "ch_cache t = Some la"
    by (simp add: t_def list_loaded_def Let_def item_change_def)
  have sel: "ch_sel t = Some (hn_uuid n)" "ch_account t = b"
    using hn.late_answer [OF assms(1), where s = s] assms(2) acc by (simp_all add: t_def)
  obtain m where m: "m \<in> set (n # ns)" "hn_uuid n = hn_uuid m" "hn_shows m (ch_view t)"
    using settled_t cache sel assms(2) by (auto simp: hn.settled_def)
  then have "m = n" using assms(9) by (auto simp: image_iff)
  then have v: "hv_cpu (ch_view t) = hn_cpu n" "hv_memory (ch_view t) = hn_memory n" "hv_name (ch_view t) = hn_name n"
    using m by (simp_all add: hn_shows_def)
  have off: "\<not> hv_update_off (ch_view t)" "\<not> hv_texts_off (ch_view t)" using m(3) by (simp_all add: hn_shows_def)
  let ?vs = "hn_values t"
  have vs: "?vs ''hostid'' = hn_uuid n" "?vs ''account_id'' = b" "?vs ''cpu_cores'' = hn_cpu n"
    "?vs ''memory_size'' = hn_memory n" "?vs ''name'' = hn_name n"
    using v sel by (simp_all add: hn_values_def sel_text_def)
  have k: "plain_key ''uuid''" "plain_key ''account_id''" "plain_key ''cpu_cores''" "plain_key ''memory_size''" "plain_key ''name''"
    by (simp_all add: plain_key_def)
  have p: "\<forall>(k, v)\<in>set ((''uuid'', ?vs ''hostid'') # pick [''account_id'', ''cpu_cores'', ''memory_size'', ''name''] ?vs).
      plain_key k \<and> plain_value v"
    using k assms(6-8) count_plain [OF assms(4)] count_plain [OF assms(5)] vs by (simp add: pick_def)
  have "valid_form hn_edit_rules ?vs" using assms(4,5) vs by (simp add: valid_form_def hn_edit_rules_def)
  then have "hn_update t = Some (exec_request ''/dialog/edit_hn_exec''
      ((''uuid'', ?vs ''hostid'') # pick [''account_id'', ''cpu_cores'', ''memory_size'', ''name''] ?vs))"
    using off by (simp add: hn_update_def hn_edit_def)
  moreover have "fold (hn_step label) [Account b, Answer lb, Answer la] (hn_open a) = t"
    by (simp add: t_def s_def hn_step_def)
  ultimately show ?thesis using sent_exec [OF p] vs by (simp add: pick_def)
qed

lemma late_list_moves_node_witness:
  "\<exists>r. hn_update (fold (hn_step id) [Account ''a-2'', Answer \<lparr>ans_total = 0, ans_results = []\<rparr>, Answer nodes_demo]
         (hn_open ''a-1'')) = Some r
     \<and> snd (snd (sent_fields r)) ! 1 = (''account_id'', Some ''a-2'')
     \<and> snd (snd (sent_fields r)) ! 0 = (''uuid'', Some ''hn-up'')"
proof -
  have 1: "good_answer hn_uuid nodes_demo" "good_answer hn_uuid \<lparr>ans_total = 0, ans_results = []\<rparr>" by code_simp+
  have 2: "answered nodes_demo = node_demo ''hn-up'' ''online'' # [node_demo ''hn-down'' ''offline'']"
    by (simp add: answered_def nodes_demo_def)
  have 3: "valid_field [Required, Digits, Min 1] (hn_cpu (node_demo ''hn-up'' ''online''))"
    "valid_field [Required, Digits, Min 1] (hn_memory (node_demo ''hn-up'' ''online''))" by code_simp+
  have 4: "plain_value ''a-2''" "plain_value (hn_uuid (node_demo ''hn-up'' ''online''))"
    "plain_value (hn_name (node_demo ''hn-up'' ''online''))"
    "distinct (map hn_uuid (node_demo ''hn-up'' ''online'' # [node_demo ''hn-down'' ''offline'']))"
    by (simp_all add: plain_value_def node_demo_def)
  have u: "hn_uuid (node_demo ''hn-up'' ''online'') = ''hn-up''" by (simp add: node_demo_def)
  show ?thesis
    using late_list_moves_node [OF 1(1) 2 1(2) 3 4, where label = id and a = "''a-1''"] by (auto simp: u)
qed

section \<open>Storage nodes, specifications and images\<close>

record storage_node =
  sn_uuid :: string
  sn_space :: string
  sn_ipaddr :: string
  sn_transport :: string
  sn_storage :: string
  sn_path :: string
  sn_snapshot :: string
  sn_status :: string

record sn_view =
  sv_space :: string
  sv_ipaddr :: string
  sv_transport :: string
  sv_storage :: string
  sv_path :: string
  sv_snapshot :: string
  sv_status :: string
  sv_delete_off :: bool

definition sn_fill :: "(string \<Rightarrow> string) \<Rightarrow> storage_node \<Rightarrow> sn_view \<Rightarrow> sn_view" where
  "sn_fill label n v =
     v\<lparr>sv_space := sn_space n, sv_ipaddr := sn_ipaddr n, sv_transport := label (sn_transport n),
       sv_storage := label (sn_storage n), sv_path := sn_path n, sv_snapshot := sn_snapshot n,
       sv_status := sn_status n, sv_delete_off := (sn_status n = ''online'')\<rparr>"

definition sn_clear :: "sn_view \<Rightarrow> sn_view" where
  "sn_clear v =
     v\<lparr>sv_space := ''<BR>'', sv_ipaddr := ''<BR>'', sv_transport := ''<BR>'', sv_storage := ''<BR>'',
       sv_path := ''<BR>'', sv_snapshot := ''<BR>'', sv_status := ''<BR>'', sv_delete_off := True\<rparr>"

definition sn_shows :: "storage_node \<Rightarrow> sn_view \<Rightarrow> bool" where
  "sn_shows n v = (sv_space v = sn_space n \<and> sv_ipaddr v = sn_ipaddr n \<and> sv_path v = sn_path n
     \<and> sv_snapshot v = sn_snapshot n \<and> sv_status v = sn_status n)"

definition sn_account_change :: "string \<Rightarrow> (storage_node, sn_view) chooser \<Rightarrow> (storage_node, sn_view) chooser" where
  "sn_account_change = account_change ''/dialog/get_sn_list''"

definition sn_list_loaded ::
  "(string \<Rightarrow> string) \<Rightarrow> storage_node answer \<Rightarrow> (storage_node, sn_view) chooser \<Rightarrow> (storage_node, sn_view) chooser" where
  "sn_list_loaded label = list_loaded sn_uuid (sn_fill label) sn_clear"

definition sn_select_change ::
  "(string \<Rightarrow> string) \<Rightarrow> (storage_node, sn_view) chooser \<Rightarrow> (storage_node, sn_view) chooser" where
  "sn_select_change label = item_change sn_uuid (sn_fill label)"

definition sn_step ::
  "(string \<Rightarrow> string) \<Rightarrow> storage_node choice \<Rightarrow> (storage_node, sn_view) chooser \<Rightarrow> (storage_node, sn_view) chooser" where
  "sn_step label = chooser_step ''/dialog/get_sn_list'' sn_uuid (sn_fill label) sn_clear"

definition sn_delete :: "(storage_node, sn_view) chooser \<Rightarrow> ajax_settings option" where
  "sn_delete s = (if sv_delete_off (ch_view s) then None else Some (delete_exec ''sn'' (sel_text s)))"

interpretation sn: chooser_dialog sn_uuid "sn_fill label" sn_clear sn_shows "\<lambda>v. \<not> sv_delete_off v" "\<lambda>n. sn_status n \<noteq> ''online''"
  by unfold_locales (simp_all add: sn_fill_def sn_clear_def sn_shows_def)

record spec =
  is_uuid :: string
  is_cpu :: string
  is_memory :: string
  is_weight :: string
  is_arch :: string
  is_hypervisor :: string

record is_view =
  iv_cpu :: string
  iv_memory :: string
  iv_weight :: string
  iv_arch :: string
  iv_hypervisor :: string
  iv_texts_off :: bool
  iv_delete_off :: bool
  iv_update_off :: bool

definition is_fill :: "(string \<Rightarrow> string) \<Rightarrow> spec \<Rightarrow> is_view \<Rightarrow> is_view" where
  "is_fill label n v =
     v\<lparr>iv_cpu := is_cpu n, iv_texts_off := False, iv_memory := is_memory n, iv_weight := is_weight n,
       iv_arch := label (is_arch n), iv_hypervisor := label (is_hypervisor n),
       iv_delete_off := False, iv_update_off := False\<rparr>"

definition is_clear :: "is_view \<Rightarrow> is_view" where
  "is_clear v =
     v\<lparr>iv_cpu := '''', iv_texts_off := True, iv_memory := '''', iv_weight := '''', iv_arch := ''<BR>'',
       iv_hypervisor := ''<BR>'', iv_delete_off := True, iv_update_off := True\<rparr>"

definition is_shows :: "spec \<Rightarrow> is_view \<Rightarrow> bool" where
  "is_shows n v = (iv_cpu v = is_cpu n \<and> iv_memory v = is_memory n \<and> iv_weight v = is_weight n \<and> \<not> iv_update_off v)"

definition is_account_change :: "string \<Rightarrow> (spec, is_view) chooser \<Rightarrow> (spec, is_view) chooser" where
  "is_account_change = account_change ''/dialog/get_is_list''"

definition is_list_loaded :: "(string \<Rightarrow> string) \<Rightarrow> spec answer \<Rightarrow> (spec, is_view) chooser \<Rightarrow> (spec, is_view) chooser" where
  "is_list_loaded label = list_loaded is_uuid (is_fill label) is_clear"

definition is_select_change :: "(string \<Rightarrow> string) \<Rightarrow> (spec, is_view) chooser \<Rightarrow> (spec, is_view) chooser" where
  "is_select_change label = item_change is_uuid (is_fill label)"

definition is_step :: "(string \<Rightarrow> string) \<Rightarrow> spec choice \<Rightarrow> (spec, is_view) chooser \<Rightarrow> (spec, is_view) chooser" where
  "is_step label = chooser_step ''/dialog/get_is_list'' is_uuid (is_fill label) is_clear"

definition is_delete :: "(spec, is_view) chooser \<Rightarrow> ajax_settings option" where
  "is_delete s = (if iv_delete_off (ch_view s) then None else Some (delete_exec ''is'' (sel_text s)))"

definition is_values :: "(spec, is_view) chooser \<Rightarrow> string \<Rightarrow> string" where
  "is_values s k =
     (if k = ''account_id'' then ch_account s
      else if k = ''specid'' then sel_text s
      else if k = ''cpu_cores'' then iv_cpu (ch_view s)
      else if k = ''memory_size'' then iv_memory (ch_view s)
      else if k = ''quota_weight'' then iv_weight (ch_view s)
      else '''')"

definition is_update :: "(spec, is_view) chooser \<Rightarrow> ajax_settings option" where
  "is_update s =
     (if iv_update_off (ch_view s) then None
      else if iv_texts_off (ch_view s)
      then Some (exec_request ''/dialog/edit_is_exec''
        ((''uuid'', is_values s ''specid'') # pick [''account_id'', ''cpu_cores'', ''memory_size''] (is_values s)
         @ (if is_values s ''quota_weight'' \<noteq> '''' then pick [''quota_weight''] (is_values s) else [])))
      else is_edit (is_values s))"

interpretation spec: chooser_dialog is_uuid "is_fill label" is_clear is_shows "\<lambda>v. \<not> iv_delete_off v" "\<lambda>n. True"
  by unfold_locales (simp_all add: is_fill_def is_clear_def is_shows_def)

record machine_image =
  wmi_uuid :: string
  wmi_arch :: string
  wmi_source :: string
  wmi_description :: string

record wmi_view =
  wv_arch :: string
  wv_location :: string
  wv_description :: string
  wv_delete_off :: bool

definition wmi_fill :: "machine_image \<Rightarrow> wmi_view \<Rightarrow> wmi_view" where
  "wmi_fill n v =
     v\<lparr>wv_arch := wmi_arch n, wv_location := wmi_source n, wv_description := wmi_description n, wv_delete_off := False\<rparr>"

definition wmi_clear :: "wmi_view \<Rightarrow> wmi_view" where
  "wmi_clear v = v\<lparr>wv_arch := ''<BR>'', wv_location := ''<BR>'', wv_description := ''<BR>'', wv_delete_off := True\<rparr>"

definition wmi_shows :: "machine_image \<Rightarrow> wmi_view \<Rightarrow> bool" where
  "wmi_shows n v = (wv_arch v = wmi_arch n \<and> wv_location v = wmi_source n \<and> wv_description v = wmi_description n)"

definition wmi_account_change :: "string \<Rightarrow> (machine_image, wmi_view) chooser \<Rightarrow> (machine_image, wmi_view) chooser" where
  "wmi_account_change = account_change ''/dialog/get_wmi_list''"

definition wmi_list_loaded :: "machine_image answer \<Rightarrow> (machine_image, wmi_view) chooser \<Rightarrow> (machine_image, wmi_view) chooser" where
  "wmi_list_loaded = list_loaded wmi_uuid wmi_fill wmi_clear"

definition wmi_select_change :: "(machine_image, wmi_view) chooser \<Rightarrow> (machine_image, wmi_view) chooser" where
  "wmi_select_change = item_change wmi_uuid wmi_fill"

definition wmi_step :: "machine_image choice \<Rightarrow> (machine_image, wmi_view) chooser \<Rightarrow> (machine_image, wmi_view) chooser" where
  "wmi_step = chooser_step ''/dialog/get_wmi_list'' wmi_uuid wmi_fill wmi_clear"

definition wmi_delete :: "(machine_image, wmi_view) chooser \<Rightarrow> ajax_settings option" where
  "wmi_delete s = (if wv_delete_off (ch_view s) then None else Some (delete_exec ''wmi'' (sel_text s)))"

interpretation wmi: chooser_dialog wmi_uuid wmi_fill wmi_clear wmi_shows "\<lambda>v. \<not> wv_delete_off v" "\<lambda>n. True"
  by unfold_locales (simp_all add: wmi_fill_def wmi_clear_def wmi_shows_def)


definition sn_demo_node :: storage_node where
  "sn_demo_node = \<lparr>sn_uuid = ''sn-1'', sn_space = ''100'', sn_ipaddr = ''10.0.0.1'', sn_transport = ''iscsi'',
     sn_storage = ''zfs'', sn_path = ''/p'', sn_snapshot = ''/s'', sn_status = ''offline''\<rparr>"

definition sn_page :: sn_view where
  "sn_page = sn_clear \<lparr>sv_space = '''', sv_ipaddr = '''', sv_transport = '''', sv_storage = '''', sv_path = '''',
     sv_snapshot = '''', sv_status = '''', sv_delete_off = False\<rparr>"

definition spec_demo :: spec where
  "spec_demo = \<lparr>is_uuid = ''is-1'', is_cpu = ''1'', is_memory = ''256'', is_weight = ''1.0'', is_arch = ''x86'',
     is_hypervisor = ''kvm''\<rparr>"

definition is_page :: is_view where
  "is_page = is_clear \<lparr>iv_cpu = '''', iv_memory = '''', iv_weight = '''', iv_arch = '''', iv_hypervisor = '''',
     iv_texts_off = False, iv_delete_off = False, iv_update_off = False\<rparr>"

definition wmi_demo :: machine_image where
  "wmi_demo = \<lparr>wmi_uuid = ''wmi-1'', wmi_arch = ''x86'', wmi_source = ''a/b'', wmi_description = ''''\<rparr>"

definition wmi_page :: wmi_view where
  "wmi_page = wmi_clear \<lparr>wv_arch = '''', wv_location = '''', wv_description = '''', wv_delete_off = False\<rparr>"


section \<open>A dialog while its command runs\<close>

text \<open>
  The buttons of these dialogs mask the content and send; the buttons themselves are outside the
  masked part. A successful answer of exit code 0 reports it and destroys the dialog, another one
  reports the error; every completed request unmasks. A failed request goes to the error handler of
  the request class and completes too. \<open>ex_box\<close> is what the message boxes show.
\<close>

datatype box = Info string | Error string int

record exec_dialog =
  ex_open :: bool
  ex_masked :: bool
  ex_pending :: nat
  ex_box :: "box list"

datatype exec_event = Press | Result int string | Failed

definition exec_press :: "exec_dialog \<Rightarrow> exec_dialog" where
  "exec_press d = (if ex_open d then d\<lparr>ex_masked := True, ex_pending := ex_pending d + 1\<rparr> else d)"

definition exec_success :: "int \<Rightarrow> string \<Rightarrow> exec_dialog \<Rightarrow> exec_dialog" where
  "exec_success exitcode message d =
     (if exitcode = 0 then d\<lparr>ex_box := ex_box d @ [Info message], ex_open := False\<rparr>
      else d\<lparr>ex_box := ex_box d @ [Error message exitcode]\<rparr>)"

definition exec_complete :: "exec_dialog \<Rightarrow> exec_dialog" where
  "exec_complete d = d\<lparr>ex_masked := False, ex_pending := ex_pending d - 1\<rparr>"

fun exec_step :: "exec_event \<Rightarrow> exec_dialog \<Rightarrow> exec_dialog" where
  "exec_step Press d = exec_press d"
| "exec_step (Result code msg) d = (if ex_pending d = 0 then d else exec_complete (exec_success code msg d))"
| "exec_step Failed d = (if ex_pending d = 0 then d else exec_complete d)"

definition exec_open :: exec_dialog where
  "exec_open = \<lparr>ex_open = True, ex_masked = False, ex_pending = 0, ex_box = []\<rparr>"

definition exec_inv :: "exec_dialog \<Rightarrow> bool" where
  "exec_inv d = ((ex_masked d \<longrightarrow> ex_pending d > 0) \<and> (ex_open d \<longleftrightarrow> \<not> list_ex (\<lambda>b. case b of Info _ \<Rightarrow> True | _ \<Rightarrow> False) (ex_box d)))"

lemma exec_step_inv: "exec_inv d \<Longrightarrow> exec_inv (exec_step e d)"
  by (cases e) (auto simp: exec_inv_def exec_press_def exec_success_def exec_complete_def)

lemma exec_run_inv: "exec_inv d \<Longrightarrow> exec_inv (fold exec_step es d)"
  by (induction es arbitrary: d) (auto simp: exec_step_inv)

text \<open>
  a command dialog never stays masked when nothing is pending, and it is still open exactly when
  no success has been reported, however presses, answers and failures are ordered; so a failed
  command always leaves a dialog that can be used again.
\<close>

theorem exec_dialog_consistent:
  "\<not> (ex_masked (fold exec_step es exec_open) \<and> ex_pending (fold exec_step es exec_open) = 0)
   \<and> (ex_open (fold exec_step es exec_open) = (\<not> (\<exists>m. Info m \<in> set (ex_box (fold exec_step es exec_open)))))"
proof -
  have "exec_inv (fold exec_step es exec_open)"
    by (rule exec_run_inv) (simp add: exec_inv_def exec_open_def)
  moreover have "list_ex (\<lambda>b. case b of Info _ \<Rightarrow> True | _ \<Rightarrow> False) bs \<longleftrightarrow> (\<exists>m. Info m \<in> set bs)" for bs
    by (auto simp: list_ex_iff split: box.splits) (metis box.exhaust)
  ultimately show ?thesis by (auto simp: exec_inv_def)
qed

text \<open>The first of two answers takes the mask off while the second command still runs.\<close>

lemma second_press_unmasked:
  "let d = fold exec_step [Press, Press, Result 1 m] exec_open in \<not> ex_masked d \<and> ex_pending d = 1 \<and> ex_open d"
  by (simp add: exec_open_def exec_press_def exec_success_def exec_complete_def Let_def)

section \<open>The check sum of an image\<close>

text \<open>
  \<open>mf_asked\<close> holds the locations of the pending requests, oldest first; the server answers the sum
  of the location asked about, or an error.
\<close>

record md5_form =
  mf_location :: string
  mf_md5 :: string
  mf_asked :: "string list"
  mf_masked :: bool

datatype md5_event = Edit_location string | Md5_get | Md5_answer nat int

definition md5_get :: "md5_form \<Rightarrow> md5_form" where
  "md5_get s =
     (if valid_field [Required, RelativePATH, Maxlength 255] (mf_location s)
      then s\<lparr>mf_asked := mf_asked s @ [mf_location s], mf_masked := True\<rparr> else s)"

definition location_change :: "string \<Rightarrow> md5_form \<Rightarrow> md5_form" where
  "location_change l s = s\<lparr>mf_location := l, mf_md5 := ''''\<rparr>"

definition md5_success :: "int \<Rightarrow> string \<Rightarrow> md5_form \<Rightarrow> md5_form" where
  "md5_success exitcode detail s = (if exitcode = 0 then s\<lparr>mf_md5 := detail\<rparr> else s)"

definition md5_complete :: "md5_form \<Rightarrow> md5_form" where
  "md5_complete s = s\<lparr>mf_masked := False\<rparr>"

definition remove_nth :: "nat \<Rightarrow> 'a list \<Rightarrow> 'a list" where
  "remove_nth n xs = take n xs @ drop (Suc n) xs"

fun md5_step :: "(string \<Rightarrow> string) \<Rightarrow> md5_event \<Rightarrow> md5_form \<Rightarrow> md5_form" where
  "md5_step sum_of (Edit_location l) s = location_change l s"
| "md5_step sum_of Md5_get s = md5_get s"
| "md5_step sum_of (Md5_answer n code) s =
     (if n < length (mf_asked s)
      then md5_complete (md5_success code (sum_of (mf_asked s ! n)) (s\<lparr>mf_asked := remove_nth n (mf_asked s)\<rparr>))
      else s)"

text \<open>The masked content cannot be edited with the mouse; \<open>md5_quiet\<close> runs have no edit while an answer
  is pending.\<close>

fun md5_quiet :: "(string \<Rightarrow> string) \<Rightarrow> md5_event list \<Rightarrow> md5_form \<Rightarrow> bool" where
  "md5_quiet sum_of [] s = True"
| "md5_quiet sum_of (e # es) s =
     ((case e of Edit_location l \<Rightarrow> mf_asked s = [] | _ \<Rightarrow> True) \<and> md5_quiet sum_of es (md5_step sum_of e s))"

definition md5_open :: md5_form where
  "md5_open = \<lparr>mf_location = '''', mf_md5 = '''', mf_asked = [], mf_masked = False\<rparr>"

definition md5_inv :: "(string \<Rightarrow> string) \<Rightarrow> md5_form \<Rightarrow> bool" where
  "md5_inv sum_of s =
     ((mf_md5 s = '''' \<or> mf_md5 s = sum_of (mf_location s)) \<and> list_all (\<lambda>l. l = mf_location s) (mf_asked s))"

lemma md5_step_inv:
  "md5_inv sum_of s \<Longrightarrow> (case e of Edit_location l \<Rightarrow> mf_asked s = [] | _ \<Rightarrow> True) \<Longrightarrow> md5_inv sum_of (md5_step sum_of e s)"
proof (cases e)
  case (Md5_answer n code)
  assume i: "md5_inv sum_of s"
  then have "n < length (mf_asked s) \<Longrightarrow> mf_asked s ! n = mf_location s"
    by (simp add: md5_inv_def list_all_length)
  moreover have "list_all P (remove_nth n xs)" if "list_all P xs" for P and xs :: "string list"
    using that by (auto simp: remove_nth_def list_all_iff dest: in_set_takeD in_set_dropD)
  ultimately show ?thesis using i Md5_answer by (simp add: md5_inv_def md5_success_def md5_complete_def)
qed (auto simp: md5_inv_def md5_get_def location_change_def)

lemma md5_run_inv: "md5_inv sum_of s \<Longrightarrow> md5_quiet sum_of es s \<Longrightarrow> md5_inv sum_of (fold (md5_step sum_of) es s)"
  by (induction es arbitrary: s) (simp_all add: md5_step_inv)

definition md5_values :: "(string \<Rightarrow> string) \<Rightarrow> md5_form \<Rightarrow> string \<Rightarrow> string" where
  "md5_values vs s = vs(''image_location'' := mf_location s, ''md5sum'' := mf_md5 s)"

text \<open>
  the create dialog for images sends a location only with its own check sum: when the location
  was not edited while a sum was being computed, a form that is valid has in its check sum field the
  sum of the location it sends.
\<close>

theorem image_sum_matches:
  assumes "md5_quiet sum_of es md5_open" and "wmi_create (md5_values vs (fold (md5_step sum_of) es md5_open)) = Some r"
  shows "mf_md5 (fold (md5_step sum_of) es md5_open) = sum_of (mf_location (fold (md5_step sum_of) es md5_open))
     \<and> relative_path_ok (mf_location (fold (md5_step sum_of) es md5_open))
     \<and> r = exec_request ''/dialog/create_wmi_exec''
         (pick [''account_id'', ''arch'', ''imageid'', ''description''] vs
          @ [(''md5sum'', sum_of (mf_location (fold (md5_step sum_of) es md5_open))),
             (''image_location'', mf_location (fold (md5_step sum_of) es md5_open))])"
proof -
  let ?s = "fold (md5_step sum_of) es md5_open"
  have "md5_inv sum_of ?s" by (rule md5_run_inv [OF _ assms(1)]) (simp add: md5_inv_def md5_open_def)
  moreover have v: "valid_form wmi_create_rules (md5_values vs ?s)"
    using assms(2) by (simp add: wmi_create_def split: if_splits)
  then have "check Required (mf_md5 ?s)" "relative_path_ok (mf_location ?s)"
    by (simp_all add: valid_form_def wmi_create_rules_def valid_field_def md5_values_def)
  moreover from this have "mf_md5 ?s \<noteq> ''''" by auto
  ultimately have m: "mf_md5 ?s = sum_of (mf_location ?s)" "relative_path_ok (mf_location ?s)"
    by (auto simp: md5_inv_def)
  moreover have "r = exec_request ''/dialog/create_wmi_exec''
      (pick [''account_id'', ''arch'', ''imageid'', ''description'', ''md5sum'', ''image_location''] (md5_values vs ?s))"
    using assms(2) v by (simp add: wmi_create_def)
  ultimately show ?thesis by (simp add: pick_def md5_values_def)
qed

text \<open>An edit while the answer is pending breaks it: the sum of the old location is kept.\<close>

lemma edit_while_summing:
  assumes "valid_field [Required, RelativePATH, Maxlength 255] l"
  shows "mf_md5 (fold (md5_step sum_of) [Edit_location l, Md5_get, Edit_location l', Md5_answer 0 0] md5_open) = sum_of l
    \<and> mf_location (fold (md5_step sum_of) [Edit_location l, Md5_get, Edit_location l', Md5_answer 0 0] md5_open) = l'"
  using assms by (simp add: md5_open_def location_change_def md5_get_def md5_success_def md5_complete_def)

lemma image_sum_matches_witness:
  "\<exists>r. wmi_create (md5_values (hn_demo(''imageid'' := ''img''))
        (fold (md5_step (\<lambda>l. ''sum-of-'' @ l)) [Edit_location ''a/b'', Md5_get, Md5_answer 0 0] md5_open)) = Some r
     \<and> r = exec_request ''/dialog/create_wmi_exec''
         (pick [''account_id'', ''arch'', ''imageid'', ''description''] (hn_demo(''imageid'' := ''img''))
          @ [(''md5sum'', ''sum-of-a/b''), (''image_location'', ''a/b'')])"
proof -
  let ?es = "[Edit_location ''a/b'', Md5_get, Md5_answer 0 0]"
  have q: "md5_quiet (\<lambda>l. ''sum-of-'' @ l) ?es md5_open" by code_simp
  have "valid_form wmi_create_rules (md5_values (hn_demo(''imageid'' := ''img''))
        (fold (md5_step (\<lambda>l. ''sum-of-'' @ l)) ?es md5_open))" by code_simp
  then obtain r where r: "wmi_create (md5_values (hn_demo(''imageid'' := ''img''))
        (fold (md5_step (\<lambda>l. ''sum-of-'' @ l)) ?es md5_open)) = Some r"
    using that by (simp add: wmi_create_def)
  have l: "mf_location (fold (md5_step (\<lambda>l. ''sum-of-'' @ l)) ?es md5_open) = ''a/b''" by code_simp
  have "''sum-of-'' @ ''a/b'' = ''sum-of-a/b''" by simp
  then show ?thesis using image_sum_matches [OF q r] r unfolding l by simp
qed

section \<open>The drives and interfaces of a specification\<close>

text \<open>
  The dialog keeps the account \<open>is_accid\<close> and the specification \<open>dr_uuid\<close> (the code's \<open>is_uuid\<close>)
  that its two grids ask for and change. The grids are library code: \<open>dr_grid\<close> records what the
  dialog tells them, \<open>dr_records\<close> what the first one reports as its number of records. \<open>dr_sel\<close> is
  the value of the select, \<open>None\<close> for null.
\<close>

datatype grid_command = Clear_and_add string | Del_row nat

record drives_dialog =
  is_accid :: string
  dr_uuid :: string
  dr_cache :: "string answer option"
  dr_options :: "string list"
  dr_sel :: "string option"
  dr_records :: nat
  dr_grid :: "grid_command list"
  dr_sent :: "ajax_settings list"
  dr_masked1 :: bool
  dr_masked2 :: bool

definition drives_query :: "string \<Rightarrow> string \<Rightarrow> (string \<times> string) list \<Rightarrow> string" where
  "drives_query accid uuid postdata =
     field ''account_id'' accid @ ''&'' @ field ''uuid'' uuid @ concat (map (\<lambda>(k, v). ''&'' @ field k v) postdata)"

definition drives_get :: "string \<Rightarrow> string \<Rightarrow> ajax_settings" where
  "drives_get url data = request_get \<lparr>p_url = url, p_data = JStr data, p_async = JUndef\<rparr>"

text \<open>The data functions of the two grids.\<close>

definition grid_drives :: "(string \<times> string) list \<Rightarrow> drives_dialog \<Rightarrow> drives_dialog" where
  "grid_drives postdata s =
     s\<lparr>dr_sent := dr_sent s @ [drives_get ''/dialog/get_is_drives_list'' (drives_query (is_accid s) (dr_uuid s) postdata)]\<rparr>"

definition grid_vifs :: "(string \<times> string) list \<Rightarrow> drives_dialog \<Rightarrow> drives_dialog" where
  "grid_vifs postdata s =
     s\<lparr>dr_sent := dr_sent s @ [drives_get ''/dialog/get_is_vifs_list'' (drives_query (is_accid s) (dr_uuid s) postdata)]\<rparr>"

definition grid_drives_loaded :: "nat \<Rightarrow> drives_dialog \<Rightarrow> drives_dialog" where
  "grid_drives_loaded n s = s\<lparr>dr_grid := dr_grid s @ [Clear_and_add ''list''], dr_records := n\<rparr>"

definition grid_vifs_loaded :: "drives_dialog \<Rightarrow> drives_dialog" where
  "grid_vifs_loaded s = s\<lparr>dr_grid := dr_grid s @ [Clear_and_add ''list2'']\<rparr>"

text \<open>What the grids' edit, add and delete forms add to their own fields.\<close>

definition onclickSubmit :: "drives_dialog \<Rightarrow> (string \<times> string) list" where
  "onclickSubmit s = [(''uuid'', dr_uuid s)]"

definition spec_change :: "drives_dialog \<Rightarrow> drives_dialog" where
  "spec_change s =
     (if dr_sel s = Some '''' then s
      else let specid = (case dr_sel s of None \<Rightarrow> ''null'' | Some i \<Rightarrow> i);
               data = drives_query (is_accid s) specid [(''rows'', ''5''), (''page'', ''1''), (''sidx'', ''''), (''sord'', ''asc'')]
           in s\<lparr>dr_uuid := specid, dr_masked1 := True, dr_masked2 := True,
                dr_sent := dr_sent s @ [drives_get ''/dialog/get_is_drives_list'' data, drives_get ''/dialog/get_is_vifs_list'' data]\<rparr>)"

definition drives_account_change :: "string \<Rightarrow> drives_dialog \<Rightarrow> drives_dialog" where
  "drives_account_change a s =
     s\<lparr>is_accid := a, dr_sent := dr_sent s @ [exec_request ''/dialog/get_is_list'' [(''account_id'', a)]]\<rparr>"

text \<open>The list of specifications arrives; with none, the rows of the first grid are deleted.\<close>

definition drives_list_loaded :: "string answer \<Rightarrow> drives_dialog \<Rightarrow> drives_dialog" where
  "drives_list_loaded a s =
     (let ids = answered a;
          s1 = s\<lparr>dr_cache := Some a, dr_options := ids, dr_sel := (case ids of [] \<Rightarrow> None | i # _ \<Rightarrow> Some i)\<rparr>
      in if ans_total a > 0
         then if ans_total a \<le> length (ans_results a) then spec_change s1 else s1
         else s1\<lparr>dr_grid := dr_grid s @ map Del_row [1..<dr_records s + 1]\<rparr>)"

definition drives_loaded :: "nat \<Rightarrow> drives_dialog \<Rightarrow> drives_dialog" where
  "drives_loaded n s = (grid_drives_loaded n s)\<lparr>dr_masked1 := False\<rparr>"

definition vifs_loaded :: "drives_dialog \<Rightarrow> drives_dialog" where
  "vifs_loaded s = (grid_vifs_loaded s)\<lparr>dr_masked2 := False\<rparr>"

definition choose_spec :: "string \<Rightarrow> drives_dialog \<Rightarrow> drives_dialog" where
  "choose_spec i s = (if i \<in> set (dr_options s) then spec_change (s\<lparr>dr_sel := Some i\<rparr>) else s)"

datatype drives_event = Dr_account string | Dr_list "string answer" | Dr_choose string | Dr_drives nat | Dr_vifs
  | Dr_page "(string \<times> string) list" | Dr_page2 "(string \<times> string) list"

fun drives_step :: "drives_event \<Rightarrow> drives_dialog \<Rightarrow> drives_dialog" where
  "drives_step (Dr_account a) s = drives_account_change a s"
| "drives_step (Dr_list a) s = drives_list_loaded a s"
| "drives_step (Dr_choose i) s = choose_spec i s"
| "drives_step (Dr_drives n) s = drives_loaded n s"
| "drives_step Dr_vifs s = vifs_loaded s"
| "drives_step (Dr_page d) s = grid_drives d s"
| "drives_step (Dr_page2 d) s = grid_vifs d s"

definition drives_open :: "string \<Rightarrow> drives_dialog" where
  "drives_open a = drives_account_change a
     \<lparr>is_accid = '''', dr_uuid = '''', dr_cache = None, dr_options = [], dr_sel = None, dr_records = 0, dr_grid = [],
      dr_sent = [], dr_masked1 = False, dr_masked2 = False\<rparr>"

fun good_drives :: "drives_event \<Rightarrow> bool" where
  "good_drives (Dr_list a) = (good_answer (\<lambda>i. i) a)"
| "good_drives _ = True"

definition drives_inv :: "drives_dialog \<Rightarrow> bool" where
  "drives_inv s = ('''' \<notin> set (dr_options s) \<and> (case dr_sel s of
      Some i \<Rightarrow> dr_uuid s = i \<and> i \<in> set (dr_options s)
    | None \<Rightarrow> dr_options s = []))"

lemma spec_change_inv:
  "dr_sel s = Some i \<Longrightarrow> i \<in> set (dr_options s) \<Longrightarrow> '''' \<notin> set (dr_options s) \<Longrightarrow> drives_inv (spec_change s)"
  by (auto simp: spec_change_def drives_inv_def Let_def)

lemma drives_list_inv:
  assumes "good_answer (\<lambda>i. i) a"
  shows "drives_inv (drives_list_loaded a s)"
proof (cases "answered a")
  case Nil
  then have "ans_total a = 0" using assms by (auto simp: answered_def good_answer_def)
  then show ?thesis using Nil by (simp add: drives_list_loaded_def Let_def drives_inv_def)
next
  case (Cons i js)
  have "'''' \<notin> set (answered a)"
    using assms by (auto simp: answered_def good_answer_def list_all_iff dest: in_set_takeD)
  moreover have "ans_total a > 0" using Cons by (cases "ans_total a") (auto simp: answered_def)
  moreover have "ans_total a \<le> length (ans_results a)" using assms by (simp add: good_answer_def)
  ultimately show ?thesis using Cons by (simp add: drives_list_loaded_def Let_def spec_change_inv)
qed

lemma drives_inv_frame:
  "drives_inv (drives_account_change a s) = drives_inv s" "drives_inv (drives_loaded n s) = drives_inv s"
  "drives_inv (vifs_loaded s) = drives_inv s" "drives_inv (grid_drives d s) = drives_inv s" "drives_inv (grid_vifs d s) = drives_inv s"
  by (cases "dr_sel s"; simp add: drives_inv_def drives_account_change_def drives_loaded_def vifs_loaded_def
    grid_drives_loaded_def grid_vifs_loaded_def grid_drives_def grid_vifs_def)+

lemma drives_step_inv: "drives_inv s \<Longrightarrow> good_drives e \<Longrightarrow> drives_inv (drives_step e s)"
proof (cases e)
  case (Dr_choose i)
  assume i: "drives_inv s"
  then have "'''' \<notin> set (dr_options s)" by (simp add: drives_inv_def)
  then have "i \<in> set (dr_options s) \<Longrightarrow> drives_inv (spec_change (s\<lparr>dr_sel := Some i\<rparr>))"
    by (intro spec_change_inv [of _ i]) simp_all
  then show ?thesis using Dr_choose i by (simp add: choose_spec_def)
qed (simp_all add: drives_list_inv drives_inv_frame)

lemma drives_run_inv: "drives_inv s \<Longrightarrow> list_all good_drives es \<Longrightarrow> drives_inv (fold drives_step es s)"
  by (induction es arbitrary: s) (simp_all add: drives_step_inv)

text \<open>
  in the dialog for drives and interfaces the grids change the specification that the select
  shows, whatever is chosen and however the lists arrive, as long as one is shown. When an account
  has none, the grids go on changing the specification chosen before: only the rows of the first
  grid are deleted.
\<close>

theorem grids_change_shown_spec:
  assumes "list_all good_drives es" and "s = fold drives_step es (drives_open a)"
  shows "(case dr_sel s of Some i \<Rightarrow> onclickSubmit s = [(''uuid'', i)] \<and> i \<in> set (dr_options s) | None \<Rightarrow> dr_options s = [])
     \<and> onclickSubmit (drives_list_loaded \<lparr>ans_total = 0, ans_results = []\<rparr> s) = onclickSubmit s
     \<and> dr_sel (drives_list_loaded \<lparr>ans_total = 0, ans_results = []\<rparr> s) = None
     \<and> Clear_and_add ''list2'' \<notin> set (drop (length (dr_grid s)) (dr_grid (drives_list_loaded \<lparr>ans_total = 0, ans_results = []\<rparr> s)))"
proof -
  have "drives_inv s" unfolding assms(2)
    by (rule drives_run_inv [OF _ assms(1)]) (simp add: drives_inv_def drives_open_def drives_account_change_def)
  then show ?thesis
    by (auto simp: drives_inv_def onclickSubmit_def drives_list_loaded_def answered_def Let_def split: option.splits)
qed

lemma grids_change_shown_spec_witness:
  "let s = fold drives_step [Dr_list \<lparr>ans_total = 2, ans_results = [''is-1'', ''is-2'']\<rparr>, Dr_choose ''is-2'', Dr_account ''a-2'']
         (drives_open ''a-1'')
   in dr_sel s = Some ''is-2'' \<and> onclickSubmit (drives_list_loaded \<lparr>ans_total = 0, ans_results = []\<rparr> s) = [(''uuid'', ''is-2'')]"
proof -
  let ?es = "[Dr_list \<lparr>ans_total = 2, ans_results = [''is-1'', ''is-2'']\<rparr>, Dr_choose ''is-2'', Dr_account ''a-2'']"
  have g: "list_all good_drives ?es" by code_simp
  have s: "dr_sel (fold drives_step ?es (drives_open ''a-1'')) = Some ''is-2''" by code_simp
  show ?thesis using grids_change_shown_spec [OF g refl, of "''a-1''"] s by (simp add: Let_def)
qed

end
