(* ===== verification/Admin_Notification.thy ===== *)
theory Admin_Notification
  imports Resource_Rules
begin

text \<open>
  The admin site's form for notifications: \<open>models/dcmgr_gui.js\<close> (the validation) and
  \<open>views/notification_create_view.js\<close> (confirm, create, update), with the parts of Backbone 0.9.2
  they run on: a silent \<open>set\<close> is not validated, a loud one is and keeps the old attributes when the
  validation fails, \<open>save(null)\<close> sends without validating, and the answer is set loudly. The date
  functions are parameters: \<open>stamp\<close> is \<open>Date.parse\<close> (\<open>None\<close> for NaN), \<open>to_iso\<close> the helper \<open>iso8601\<close>
  (\<open>None\<close> for undefined), \<open>date_text\<close> the helper \<open>parse\<close>.
\<close>

section \<open>Validation\<close>

datatype users = Users_text string | Users_list "string list"

text \<open>The text of the users: an array is joined, so an empty one, or one of an empty text, equals the empty text.\<close>

definition users_text :: "users \<Rightarrow> string" where
  "users_text u = (case u of Users_text t \<Rightarrow> t | Users_list us \<Rightarrow> join '','' us)"

record notification =
  nt_any :: bool
  nt_users :: users
  nt_title :: string
  nt_article :: string
  nt_begin :: "string option"
  nt_end :: "string option"
  nt_confirmed :: bool

datatype complaint = Missing | Malformed | Impossible

record complaints =
  e_title :: "complaint option"
  e_users :: "complaint option"
  e_date :: "complaint option"
  e_article :: "complaint option"

definition no_complaints :: complaints where
  "no_complaints = \<lparr>e_title = None, e_users = None, e_date = None, e_article = None\<rparr>"

text \<open>The regular expressions of the dates: \<open>d\<close> stands for a digit and \<open>s\<close> for a white space character.\<close>

fun shaped :: "string \<Rightarrow> string \<Rightarrow> bool" where
  "shaped [] v = (v = [])"
| "shaped (p # ps) v =
     (if p = CHR ''s'' then (case begins_with blanks v of Some b \<Rightarrow> shaped ps (drop (length b) v) | None \<Rightarrow> False)
      else (case v of [] \<Rightarrow> False | c # r \<Rightarrow> (if p = CHR ''d'' then is_digit c else p = c) \<and> shaped ps r))"

definition date_form :: "string \<Rightarrow> bool" where
  "date_form v = (shaped ''dddd-dd-ddTdd:dd:ddZ'' v \<or> shaped ''dddd-dd-ddTdd:dd:dd+dd:dd'' v \<or> shaped ''dddd/dd/ddsdd:dd:dd'' v)"

definition user_ok :: "string \<Rightarrow> bool" where
  "user_ok u = (case u of
      a # b # r \<Rightarrow> a = CHR ''u'' \<and> b = CHR ''-'' \<and> list_all (\<lambda>c. is_digit c \<or> (is_letter c \<and> of_char c \<ge> (97::nat))) r
    | _ \<Rightarrow> False)"

definition date_later :: "(string \<Rightarrow> int option) \<Rightarrow> string option \<Rightarrow> string option \<Rightarrow> bool" where
  "date_later stamp b e =
     (case Option.bind b stamp of None \<Rightarrow> False | Some x \<Rightarrow>
      (case Option.bind e stamp of None \<Rightarrow> False | Some y \<Rightarrow> x > y))"

definition bad_form :: "string option \<Rightarrow> bool" where
  "bad_form d = (case d of None \<Rightarrow> False | Some s \<Rightarrow> s \<noteq> '''' \<and> \<not> date_form s)"

definition nt_validate :: "(string \<Rightarrow> int option) \<Rightarrow> notification \<Rightarrow> complaints" where
  "nt_validate stamp n =
     (let e0 = no_complaints;
          e1 = (if nt_title n = '''' then e0\<lparr>e_title := Some Missing\<rparr> else e0);
          e2 = (if nt_any n \<and> users_text (nt_users n) = '''' then e1\<lparr>e_users := Some Missing\<rparr> else e1);
          e3 = (if nt_any n
                then case nt_users n of
                    Users_list us \<Rightarrow> e2
                  | Users_text t \<Rightarrow> if t \<noteq> '''' \<and> list_ex (\<lambda>u. \<not> user_ok u) (split_on (CHR '','') t)
                      then e2\<lparr>e_users := Some Malformed\<rparr> else e2
                else e2);
          e4 = (if nt_begin n = Some '''' \<or> nt_end n = Some '''' then e3\<lparr>e_date := Some Missing\<rparr> else e3);
          e5 = (if bad_form (nt_begin n) then e4\<lparr>e_date := Some Malformed\<rparr> else e4);
          e6 = (if bad_form (nt_end n) then e5\<lparr>e_date := Some Malformed\<rparr> else e5);
          e7 = (if date_later stamp (nt_begin n) (nt_end n) then e6\<lparr>e_date := Some Impossible\<rparr> else e6);
          e8 = (if nt_article n = '''' then e7\<lparr>e_article := Some Missing\<rparr> else e7)
      in e8)"

definition isValid :: "(string \<Rightarrow> int option) \<Rightarrow> notification \<Rightarrow> bool" where
  "isValid stamp n = (nt_validate stamp n = no_complaints)"

text \<open>What a notification must have, stated without the order of the checks.\<close>

definition date_present :: "string option \<Rightarrow> bool" where
  "date_present d = (case d of None \<Rightarrow> True | Some s \<Rightarrow> date_form s)"

definition users_given :: "notification \<Rightarrow> bool" where
  "users_given n =
     (if nt_any n then case nt_users n of
         Users_list us \<Rightarrow> us \<noteq> [] \<and> us \<noteq> ['''']
       | Users_text t \<Rightarrow> list_all user_ok (split_on (CHR '','') t)
      else True)"

definition well_formed_notification :: "(string \<Rightarrow> int option) \<Rightarrow> notification \<Rightarrow> bool" where
  "well_formed_notification stamp n =
     (nt_title n \<noteq> '''' \<and> nt_article n \<noteq> ''''
      \<and> users_given n
      \<and> date_present (nt_begin n) \<and> date_present (nt_end n) \<and> \<not> date_later stamp (nt_begin n) (nt_end n))"

lemma date_form_empty: "\<not> date_form ''''"
  by (simp add: date_form_def)

lemma date_presentI: "date_present d \<longleftrightarrow> d \<noteq> Some '''' \<and> \<not> bad_form d"
  by (cases d) (auto simp: date_present_def bad_form_def date_form_empty)

lemma users_part:
  "list_all user_ok (split_on (CHR '','') t) \<longleftrightarrow> t \<noteq> '''' \<and> \<not> list_ex (\<lambda>u. \<not> user_ok u) (split_on (CHR '','') t)"
  by (cases "t = ''''") (auto simp: user_ok_def list_ex_iff list_all_iff)

lemma users_text_empty: "users_text (Users_list us) = '''' \<longleftrightarrow> us = [] \<or> us = ['''']"
proof (cases us)
  case (Cons a r)
  then show ?thesis by (cases r) (auto simp: users_text_def)
qed (simp add: users_text_def)

lemma nt_validate_parts:
  "isValid stamp n = well_formed_notification stamp n
   \<and> (e_title (nt_validate stamp n) = None) = (nt_title n \<noteq> '''')
   \<and> (e_article (nt_validate stamp n) = None) = (nt_article n \<noteq> '''')
   \<and> (e_users (nt_validate stamp n) = None) = users_given n
   \<and> (e_date (nt_validate stamp n) = None)
       = (date_present (nt_begin n) \<and> date_present (nt_end n) \<and> (\<not> date_later stamp (nt_begin n) (nt_end n)))"
proof -
  have t: "(e_title (nt_validate stamp n) = None) = (nt_title n \<noteq> '''')"
    by (simp add: nt_validate_def Let_def no_complaints_def split: users.split)
  have a: "(e_article (nt_validate stamp n) = None) = (nt_article n \<noteq> '''')"
    by (simp add: nt_validate_def Let_def no_complaints_def split: users.split)
  have d: "(e_date (nt_validate stamp n) = None)
       = (date_present (nt_begin n) \<and> date_present (nt_end n) \<and> \<not> date_later stamp (nt_begin n) (nt_end n))"
    unfolding date_presentI by (simp add: nt_validate_def Let_def no_complaints_def split: users.split)
  have u: "(e_users (nt_validate stamp n) = None) = users_given n"
  proof (cases "nt_users n")
    case (Users_text t)
    then show ?thesis by (auto simp: nt_validate_def Let_def no_complaints_def users_part users_text_def users_given_def)
  next
    case (Users_list us)
    then show ?thesis by (auto simp: nt_validate_def Let_def no_complaints_def users_text_empty users_given_def)
  qed
  have e: "(c = no_complaints) = (e_title c = None \<and> e_users c = None \<and> e_date c = None \<and> e_article c = None)" for c :: complaints
    by (cases c) (auto simp: no_complaints_def)
  show ?thesis unfolding isValid_def e t a d u well_formed_notification_def by blast
qed

text \<open>
  C32: a notification passes the validation exactly when it has a title and an article, dates that
  are given in one of the three forms with the first not after the last, and, when it is for some
  users only, the ids of users: a text of them between commas, or an array that is neither empty nor of one
  empty text; the messages are one per field, and none is lost by a later check
  of another field.
\<close>

theorem nt_validate_exact:
  "isValid stamp n = well_formed_notification stamp n
   \<and> (e_title (nt_validate stamp n) = None) = (nt_title n \<noteq> '''')
   \<and> (e_article (nt_validate stamp n) = None) = (nt_article n \<noteq> '''')
   \<and> (e_users (nt_validate stamp n) = None) = users_given n
   \<and> (e_date (nt_validate stamp n) = None)
       = (date_present (nt_begin n) \<and> date_present (nt_end n) \<and> (\<not> date_later stamp (nt_begin n) (nt_end n)))"
  by (rule nt_validate_parts)

section \<open>The form\<close>

text \<open>
  \<open>Form\<close> is the page with the fields as the user may have changed them, \<open>Confirm\<close> the page that
  shows the notification. \<open>nv_params_any\<close> is the view's parameter \<open>distribution\<close>, which the confirm
  page reads: it is set once and never reset. \<open>nv_sent\<close> records the requests: method and the
  notification they carry. A title is written into an attribute without escaping, so the field that
  the page shows ends at its first quote.
\<close>

record fields =
  f_any :: bool
  f_users :: string
  f_title :: string
  f_article :: string
  f_begin :: string
  f_end :: string

datatype page = Form fields | Confirm

datatype view_state = Init | Creating | Updating

record notification_view =
  nv_state :: view_state
  nv_model :: notification
  nv_errors :: complaints
  nv_new :: bool
  nv_user_any :: bool
  nv_params_any :: bool
  nv_page :: page
  nv_button_off :: bool
  nv_sent :: "(string \<times> notification) list"
  nv_left :: bool

definition attr_text :: "string \<Rightarrow> string" where
  "attr_text s = takeWhile (\<lambda>c. c \<noteq> CHR 0x22) s"

text \<open>Rendering: the radio button of the page that is there, if any, and the model decide the new one.\<close>

definition nt_render :: "(string option \<Rightarrow> string) \<Rightarrow> notification_view \<Rightarrow> notification_view" where
  "nt_render date_text v =
     (let n = nv_model v;
          anyone = ((case nv_page v of Form f \<Rightarrow> f_any f | Confirm \<Rightarrow> False) \<or> nt_any n)
      in v\<lparr>nv_user_any := anyone, nv_button_off := False,
           nv_page := (if nt_confirmed n then Confirm
                       else Form \<lparr>f_any = anyone, f_users = users_text (nt_users n), f_title = attr_text (nt_title n),
                                  f_article = nt_article n, f_begin = date_text (nt_begin n), f_end = date_text (nt_end n)\<rparr>)\<rparr>)"

text \<open>A loud \<open>set\<close>: the errors of the new attributes are kept; with any, the view renders and the
  attributes stay.\<close>

definition set_loud ::
  "(string \<Rightarrow> int option) \<Rightarrow> (string option \<Rightarrow> string) \<Rightarrow> (notification \<Rightarrow> notification) \<Rightarrow> notification_view \<Rightarrow> notification_view" where
  "set_loud stamp date_text f v =
     (let e = nt_validate stamp (f (nv_model v));
          v1 = v\<lparr>nv_errors := e\<rparr>
      in if e = no_complaints then v1\<lparr>nv_model := f (nv_model v)\<rparr> else nt_render date_text v1)"

text \<open>The notification to edit is fetched and set loudly: when it is not valid the blank one stays.\<close>

definition nt_initialize ::
  "(string \<Rightarrow> int option) \<Rightarrow> (string option \<Rightarrow> string) \<Rightarrow> notification option \<Rightarrow> notification_view" where
  "nt_initialize stamp date_text stored =
     (let blank = \<lparr>nt_any = False, nt_users = Users_text '''', nt_title = '''', nt_article = '''',
                   nt_begin = Some '''', nt_end = Some '''', nt_confirmed = False\<rparr>;
          n = (case stored of None \<Rightarrow> blank | Some m \<Rightarrow> if isValid stamp m then m else blank);
          e = (case stored of None \<Rightarrow> no_complaints | Some m \<Rightarrow> nt_validate stamp m)
      in nt_render date_text \<lparr>nv_state = Init, nv_model = n, nv_errors = e, nv_new = (stored = None),
           nv_user_any = False, nv_params_any = False, nv_page = Confirm, nv_button_off = False, nv_sent = [], nv_left = False\<rparr>)"

text \<open>The model as \<open>confirm\<close> fills it from the page.\<close>

definition nt_read :: "fields \<Rightarrow> notification \<Rightarrow> notification" where
  "nt_read f n = n\<lparr>nt_title := f_title f, nt_article := f_article f, nt_begin := Some (f_begin f), nt_end := Some (f_end f),
     nt_any := f_any f, nt_users := Users_text (if f_any f then f_users f else '''')\<rparr>"

definition nt_confirm :: "(string \<Rightarrow> int option) \<Rightarrow> (string option \<Rightarrow> string) \<Rightarrow> notification_view \<Rightarrow> notification_view" where
  "nt_confirm stamp date_text v =
     (case nv_page v of
        Confirm \<Rightarrow> v
      | Form f \<Rightarrow>
          (let v1 = v\<lparr>nv_model := nt_read f (nv_model v), nv_params_any := (nv_params_any v \<or> f_any f)\<rparr>;
               v2 = set_loud stamp date_text (\<lambda>n. n) v1;
               v3 = v2\<lparr>nv_errors := nt_validate stamp (nv_model v2)\<rparr>
           in if isValid stamp (nv_model v3)
              then nt_render date_text (set_loud stamp date_text (\<lambda>n. n\<lparr>nt_confirmed := True\<rparr>) v3)
              else v3))"

definition nt_create ::
  "(string \<Rightarrow> int option) \<Rightarrow> (string \<Rightarrow> string option) \<Rightarrow> notification_view \<Rightarrow> notification_view" where
  "nt_create stamp to_iso v =
     (if nv_page v = Confirm \<and> nv_new v
      then let v1 = v\<lparr>nv_button_off := True, nv_errors := nt_validate stamp (nv_model v)\<rparr>
           in if isValid stamp (nv_model v) \<and> nv_state v = Init
              then let n = (nv_model v)\<lparr>nt_begin := Option.bind (nt_begin (nv_model v)) to_iso,
                                        nt_end := Option.bind (nt_end (nv_model v)) to_iso\<rparr>
                   in v1\<lparr>nv_state := Creating, nv_model := n, nv_sent := nv_sent v @ [(''POST'', n)]\<rparr>
              else v1
      else v)"

definition nt_update ::
  "(string \<Rightarrow> int option) \<Rightarrow> (string option \<Rightarrow> string) \<Rightarrow> (string \<Rightarrow> string option) \<Rightarrow> notification_view \<Rightarrow> notification_view" where
  "nt_update stamp date_text to_iso v =
     (if nv_page v = Confirm \<and> \<not> nv_new v
      then let v1 = v\<lparr>nv_button_off := True, nv_errors := nt_validate stamp (nv_model v)\<rparr>
           in if isValid stamp (nv_model v) \<and> nv_state v = Init
              then let v2 = set_loud stamp date_text (\<lambda>n. n\<lparr>nt_begin := Option.bind (nt_begin n) to_iso\<rparr>) (v1\<lparr>nv_state := Updating\<rparr>);
                       v3 = set_loud stamp date_text (\<lambda>n. n\<lparr>nt_end := Option.bind (nt_end n) to_iso\<rparr>) v2
                   in v3\<lparr>nv_sent := nv_sent v3 @ [(''PUT'', nv_model v3)]\<rparr>
              else v1
      else v)"

text \<open>
  The answer of \<open>save\<close>: the attributes of the server are set loudly; when they are valid the browser
  leaves the page (\<open>this.state\<close> in that callback is not the view's). An error renders.
\<close>

definition save_success ::
  "(string \<Rightarrow> int option) \<Rightarrow> (string option \<Rightarrow> string) \<Rightarrow> (notification \<Rightarrow> notification) \<Rightarrow> notification_view \<Rightarrow> notification_view" where
  "save_success stamp date_text answer v =
     (let v1 = set_loud stamp date_text answer v
      in if isValid stamp (answer (nv_model v)) then v1\<lparr>nv_left := True\<rparr> else v1)"

definition save_error :: "(string option \<Rightarrow> string) \<Rightarrow> notification_view \<Rightarrow> notification_view" where
  "save_error date_text v = nt_render date_text v"

datatype nt_event = Edit_fields fields | Click_confirm | Click_create | Click_update
  | Saved "notification \<Rightarrow> notification" | Save_failed

fun nt_step ::
  "(string \<Rightarrow> int option) \<Rightarrow> (string option \<Rightarrow> string) \<Rightarrow> (string \<Rightarrow> string option) \<Rightarrow> nt_event \<Rightarrow> notification_view \<Rightarrow> notification_view" where
  "nt_step stamp date_text to_iso (Edit_fields f) v = (case nv_page v of Form _ \<Rightarrow> v\<lparr>nv_page := Form f\<rparr> | Confirm \<Rightarrow> v)"
| "nt_step stamp date_text to_iso Click_confirm v = nt_confirm stamp date_text v"
| "nt_step stamp date_text to_iso Click_create v = nt_create stamp to_iso v"
| "nt_step stamp date_text to_iso Click_update v = nt_update stamp date_text to_iso v"
| "nt_step stamp date_text to_iso (Saved a) v = (if nv_sent v = [] then v else save_success stamp date_text a v)"
| "nt_step stamp date_text to_iso Save_failed v = (if nv_sent v = [] then v else save_error date_text v)"

section \<open>What is sent\<close>

text \<open>A request carries a notification that was valid, but for its dates.\<close>

definition from_valid :: "(string \<Rightarrow> int option) \<Rightarrow> (string \<Rightarrow> string option) \<Rightarrow> notification \<Rightarrow> bool" where
  "from_valid stamp to_iso n =
     (\<exists>m. well_formed_notification stamp m \<and> nt_title n = nt_title m \<and> nt_article n = nt_article m
        \<and> nt_any n = nt_any m \<and> nt_users n = nt_users m
        \<and> nt_begin n \<in> {nt_begin m, Option.bind (nt_begin m) to_iso} \<and> nt_end n \<in> {nt_end m, Option.bind (nt_end m) to_iso})"

lemma isValid_well_formed: "isValid stamp n = well_formed_notification stamp n"
  by (rule conjunct1 [OF nt_validate_parts])

definition nt_inv :: "(string \<Rightarrow> int option) \<Rightarrow> (string \<Rightarrow> string option) \<Rightarrow> notification_view \<Rightarrow> bool" where
  "nt_inv stamp to_iso v =
     (length (nv_sent v) \<le> 1 \<and> (nv_state v = Init \<longleftrightarrow> nv_sent v = []) \<and> list_all (\<lambda>(m, n). from_valid stamp to_iso n) (nv_sent v))"

lemma set_loud_frame [simp]:
  "nv_sent (set_loud stamp date_text f v) = nv_sent v" "nv_state (set_loud stamp date_text f v) = nv_state v"
  "nv_sent (nt_render date_text v) = nv_sent v" "nv_state (nt_render date_text v) = nv_state v"
  "nv_model (nt_render date_text v) = nv_model v"
  "nv_model (set_loud stamp date_text f v) = (if isValid stamp (f (nv_model v)) then f (nv_model v) else nv_model v)"
  by (simp_all add: set_loud_def nt_render_def Let_def isValid_def)

lemma confirm_frame [simp]:
  "nv_sent (nt_confirm stamp date_text v) = nv_sent v" "nv_state (nt_confirm stamp date_text v) = nv_state v"
  by (simp_all add: nt_confirm_def Let_def split: page.split)

lemma create_sent:
  "nv_sent (nt_create stamp to_iso v) = nv_sent v
   \<or> (nv_state v = Init \<and> nv_state (nt_create stamp to_iso v) = Creating
      \<and> (\<exists>n. nv_sent (nt_create stamp to_iso v) = nv_sent v @ [(''POST'', n)] \<and> from_valid stamp to_iso n))"
  by (auto simp: nt_create_def Let_def from_valid_def isValid_well_formed)

lemma update_sent:
  "nv_sent (nt_update stamp date_text to_iso v) = nv_sent v
   \<or> (nv_state v = Init \<and> nv_state (nt_update stamp date_text to_iso v) = Updating
      \<and> (\<exists>n. nv_sent (nt_update stamp date_text to_iso v) = nv_sent v @ [(''PUT'', n)] \<and> from_valid stamp to_iso n))"
  by (auto simp: nt_update_def Let_def from_valid_def isValid_well_formed)

lemma state_frame:
  "nv_sent (nt_create stamp to_iso v) = nv_sent v \<Longrightarrow> nv_state (nt_create stamp to_iso v) = nv_state v"
  "nv_sent (nt_update stamp date_text to_iso v) = nv_sent v \<Longrightarrow> nv_state (nt_update stamp date_text to_iso v) = nv_state v"
  by (auto simp: nt_create_def nt_update_def Let_def split: if_splits)

lemma nt_step_sent:
  "nt_inv stamp to_iso v \<Longrightarrow> nt_inv stamp to_iso (nt_step stamp date_text to_iso e v)
     \<and> (nv_sent v \<noteq> [] \<longrightarrow> nv_sent (nt_step stamp date_text to_iso e v) = nv_sent v)"
proof (cases e)
  case Click_create
  assume "nt_inv stamp to_iso v"
  then show ?thesis using Click_create create_sent [of stamp to_iso v] state_frame(1) [of stamp to_iso v]
    by (auto simp: nt_inv_def)
next
  case Click_update
  assume "nt_inv stamp to_iso v"
  then show ?thesis using Click_update update_sent [of stamp date_text to_iso v] state_frame(2) [of stamp date_text to_iso v]
    by (auto simp: nt_inv_def)
qed (auto simp: nt_inv_def save_success_def save_error_def Let_def split: page.split)

lemma nt_run_sent:
  "nt_inv stamp to_iso v \<Longrightarrow> nt_inv stamp to_iso (fold (nt_step stamp date_text to_iso) es v)
     \<and> (nv_sent v \<noteq> [] \<longrightarrow> nv_sent (fold (nt_step stamp date_text to_iso) es v) = nv_sent v)"
proof (induction es arbitrary: v)
  case (Cons e es)
  show ?case using nt_step_sent [OF Cons.prems, of date_text e] Cons.IH [of "nt_step stamp date_text to_iso e v"] by auto
qed simp

lemma nt_initialize_inv: "nt_inv stamp to_iso (nt_initialize stamp date_text stored)"
  by (simp add: nt_inv_def nt_initialize_def Let_def nt_render_def)

text \<open>
  C31: the form sends at most one request for its whole life, in whatever order its buttons are
  pressed and its answers arrive, and what it sends passed the validation, up to the conversion of
  its dates. The other side of it: once a request was sent, nothing is sent again, not even after
  the save failed.
\<close>

theorem notification_sent_once:
  "length (nv_sent (fold (nt_step stamp date_text to_iso) es (nt_initialize stamp date_text stored))) \<le> 1
   \<and> list_all (\<lambda>(m, n). from_valid stamp to_iso n) (nv_sent (fold (nt_step stamp date_text to_iso) es (nt_initialize stamp date_text stored)))
   \<and> (if nv_sent (fold (nt_step stamp date_text to_iso) es (nt_initialize stamp date_text stored)) \<noteq> []
      then nv_sent (fold (nt_step stamp date_text to_iso) (es @ Save_failed # es') (nt_initialize stamp date_text stored))
         = nv_sent (fold (nt_step stamp date_text to_iso) es (nt_initialize stamp date_text stored))
      else True)"
proof -
  let ?v = "fold (nt_step stamp date_text to_iso) es (nt_initialize stamp date_text stored)"
  have i: "nt_inv stamp to_iso ?v" using nt_run_sent [OF nt_initialize_inv] by blast
  have "nv_sent ?v \<noteq> [] \<Longrightarrow> nv_sent (fold (nt_step stamp date_text to_iso) (es @ Save_failed # es') (nt_initialize stamp date_text stored)) = nv_sent ?v"
    using nt_run_sent [OF i, of date_text "Save_failed # es'"] unfolding fold_append comp_def by blast
  then show ?thesis using i unfolding nt_inv_def by auto
qed

text \<open>
  a date of the right form that is no date passes the validation and is dropped: \<open>Date.parse\<close>
  gives NaN, the comparison is false, the conversion gives undefined, and the request creates a
  notification without that date.
\<close>

theorem impossible_date_dropped:
  assumes "date_form (f_begin f)" and "stamp (f_begin f) = None" and "to_iso (f_begin f) = None"
    and "date_form (f_end f)" and "f_title f \<noteq> ''''" and "f_article f \<noteq> ''''" and "\<not> f_any f"
  shows "\<exists>n. nv_sent (fold (nt_step stamp date_text to_iso) [Edit_fields f, Click_confirm, Click_create]
         (nt_initialize stamp date_text None)) = [(''POST'', n)]
     \<and> nt_begin n = None \<and> nt_end n = to_iso (f_end f) \<and> nt_title n = f_title f"
proof -
  let ?n = "\<lambda>c. \<lparr>nt_any = False, nt_users = Users_text '''', nt_title = f_title f, nt_article = f_article f,
                   nt_begin = Some (f_begin f), nt_end = Some (f_end f), nt_confirmed = c\<rparr>"
  have v: "isValid stamp (?n c)" for c
    using assms by (simp add: isValid_well_formed well_formed_notification_def users_given_def date_present_def date_later_def)
  define v1 where "v1 = nt_step stamp date_text to_iso (Edit_fields f) (nt_initialize stamp date_text None)"
  have p: "nv_page v1 = Form f" "nv_new v1" "nv_state v1 = Init" "nv_sent v1 = []" "nt_read f (nv_model v1) = ?n False"
    using assms(7) by (simp_all add: v1_def nt_initialize_def Let_def nt_render_def nt_read_def)
  have v': "nt_validate stamp (?n c) = no_complaints" for c using v [of c] by (simp add: isValid_def)
  define v2 where "v2 = nt_confirm stamp date_text v1"
  have q: "nv_page v2 = Confirm" "nv_new v2" "nv_state v2 = Init" "nv_sent v2 = []" "nv_model v2 = ?n True"
    using p v' by (simp_all add: v2_def nt_confirm_def Let_def set_loud_def isValid_def nt_render_def)
  have "nv_sent (nt_create stamp to_iso v2) = [(''POST'', (?n True)\<lparr>nt_begin := None, nt_end := to_iso (f_end f)\<rparr>)]"
    using q v [of True] assms(3) by (simp add: nt_create_def Let_def)
  then show ?thesis by (simp add: v1_def v2_def)
qed

definition date_demo :: fields where
  "date_demo = \<lparr>f_any = False, f_users = '''', f_title = ''news'', f_article = ''text'', f_begin = ''2013/99/99 00:00:00'',
     f_end = ''2013/12/31 00:00:00''\<rparr>"

lemma impossible_date_dropped_witness:
  "\<exists>n. nv_sent (fold (nt_step (\<lambda>_. None) (\<lambda>_. '''') (\<lambda>s. if s = ''2013/12/31 00:00:00'' then Some ''2013-12-31T00:00:00+09:00'' else None))
        [Edit_fields date_demo, Click_confirm, Click_create] (nt_initialize (\<lambda>_. None) (\<lambda>_. '''') None)) = [(''POST'', n)]
     \<and> nt_begin n = None \<and> nt_title n = ''news''"
proof -
  have d: "date_form (f_begin date_demo)" "date_form (f_end date_demo)" by code_simp+
  have t: "f_title date_demo = ''news''" "f_article date_demo = ''text''" "\<not> f_any date_demo"
    "f_begin date_demo = ''2013/99/99 00:00:00''" by (simp_all add: date_demo_def)
  show ?thesis
    using impossible_date_dropped [of date_demo "\<lambda>_. None"
        "\<lambda>s. if s = ''2013/12/31 00:00:00'' then Some ''2013-12-31T00:00:00+09:00'' else None" "\<lambda>_. ''''"] d t by auto
qed

text \<open>
  in a time zone west of Greenwich, where the converted dates have a minus sign that the
  validation does not accept, the update button shows the dates as malformed and yet sends the
  notification, with its dates unconverted.
\<close>

theorem western_update_unconverted:
  assumes "nv_page v = Confirm" and "\<not> nv_new v" and "nv_state v = Init" and "isValid stamp (nv_model v)"
    and "nt_begin (nv_model v) = Some b" and "nt_end (nv_model v) = Some e"
    and "to_iso b = Some b'" and "bad_form (Some b')" and "to_iso e = Some e'" and "bad_form (Some e')"
  shows "nv_sent (nt_update stamp date_text to_iso v) = nv_sent v @ [(''PUT'', nv_model v)]
     \<and> nv_errors (nt_update stamp date_text to_iso v) \<noteq> no_complaints"
proof -
  have ng: "\<not> isValid stamp ((nv_model v)\<lparr>nt_begin := Some b'\<rparr>)" "\<not> isValid stamp ((nv_model v)\<lparr>nt_end := Some e'\<rparr>)"
    using assms(8,10) by (auto simp: isValid_well_formed well_formed_notification_def date_presentI)
  have err: "nv_errors (set_loud stamp date_text f w) = nt_validate stamp (f (nv_model w))" for f w
    by (simp add: set_loud_def nt_render_def Let_def)
  show ?thesis using assms ng by (simp add: nt_update_def Let_def err, simp add: isValid_def)
qed

definition western_demo :: notification where
  "western_demo = \<lparr>nt_any = True, nt_users = Users_list [''u-1''], nt_title = ''news'', nt_article = ''text'',
     nt_begin = Some ''2013/01/01 00:00:00'', nt_end = Some ''2013/01/02 00:00:00'', nt_confirmed = True\<rparr>"

definition to_west :: "string \<Rightarrow> string option" where
  "to_west s = Some (take 4 s @ ''-01-01T00:00:00-05:00'')"

lemma western_update_unconverted_witness:
  "nv_sent (nt_update (\<lambda>_. None) (\<lambda>_. '''') to_west (nt_initialize (\<lambda>_. None) (\<lambda>_. '''') (Some western_demo))) = [(''PUT'', western_demo)]
   \<and> nt_begin western_demo = Some ''2013/01/01 00:00:00''"
proof -
  have valid: "isValid (\<lambda>_. None) western_demo"
    unfolding isValid_well_formed by code_simp
  define v where "v = nt_initialize (\<lambda>_. None) (\<lambda>_. '''') (Some western_demo)"
  have m: "nv_model v = western_demo" "nv_sent v = []" "\<not> nv_new v" "nv_state v = Init"
    using valid by (simp_all add: v_def nt_initialize_def Let_def nt_render_def)
  have p: "nv_page v = Confirm" using valid by (simp add: v_def nt_initialize_def Let_def nt_render_def western_demo_def)
  have b: "nt_begin western_demo = Some ''2013/01/01 00:00:00''" by (simp add: western_demo_def)
  have h: "isValid (\<lambda>_. None) (nv_model v)" "nt_begin (nv_model v) = Some ''2013/01/01 00:00:00''"
    "nt_end (nv_model v) = Some ''2013/01/02 00:00:00''"
    unfolding m using valid by (simp_all add: western_demo_def)
  have w: "to_west ''2013/01/01 00:00:00'' = Some ''2013-01-01T00:00:00-05:00''"
    "to_west ''2013/01/02 00:00:00'' = Some ''2013-01-01T00:00:00-05:00''" by (simp_all add: to_west_def)
  have f: "bad_form (Some ''2013-01-01T00:00:00-05:00'')" by code_simp
  show ?thesis
    using western_update_unconverted [OF p m(3,4) h w(1) f w(2) f, where date_text = "\<lambda>_. ''''"] m b
    by (simp add: v_def)
qed

text \<open>A title with a quote loses its rest when the page shows it again.\<close>

lemma title_cut: "nt_title (nt_read f n) = t \<Longrightarrow> \<not> nt_confirmed n
   \<Longrightarrow> \<exists>g. nv_page (nt_render date_text (v\<lparr>nv_model := nt_read f n\<rparr>)) = Form g \<and> f_title g = takeWhile (\<lambda>c. c \<noteq> CHR 0x22) t"
  by (simp add: nt_render_def Let_def nt_read_def attr_text_def)

end
