(* ===== verification/Admin_App.thy ===== *)
theory Admin_App
  imports Panel_Base
begin

text \<open>
  The admin site: \<open>app.js\<close> (search words of the address, the page's error messages), \<open>helpers.js\<close>,
  \<open>models/dcmgr.js\<close> (the query for text logs), \<open>collections/detail_collection.js\<close> (statistics) and
  \<open>views/text_log_view.js\<close>. A search form's query is what \<open>jq_param\<close> writes.
\<close>

section \<open>Search words\<close>

text \<open>
  The loop over the matches of the regular expression: an optional question mark, the shortest text
  up to an equals sign, the text up to an ampersand. The loop ends when no equals sign is left.
\<close>

definition drop_question :: "string \<Rightarrow> string" where
  "drop_question s = (case s of c # r \<Rightarrow> if c = CHR ''?'' then r else s | [] \<Rightarrow> s)"

function search_matches :: "string \<Rightarrow> (string \<times> string) list" where
  "search_matches s =
     (if CHR ''='' \<in> set s
      then let s1 = drop_question s;
               rest = tl (dropWhile (\<lambda>c. c \<noteq> CHR ''='') s1)
           in (takeWhile (\<lambda>c. c \<noteq> CHR ''='') s1, takeWhile (\<lambda>c. c \<noteq> CHR ''&'') rest)
              # search_matches (drop 1 (dropWhile (\<lambda>c. c \<noteq> CHR ''&'') rest))
      else [])"
  by pat_completeness auto

lemma search_rest_shorter:
  assumes "CHR ''='' \<in> set s"
  shows "length (drop 1 (dropWhile (\<lambda>c. c \<noteq> CHR ''&'') (tl (dropWhile (\<lambda>c. c \<noteq> CHR ''='')
      (drop_question s))))) < length s"
proof -
  define s1 where "s1 = drop_question s"
  have m: "CHR ''='' \<in> set s1" "length s1 \<le> length s"
    using assms by (auto simp: s1_def drop_question_def split: list.split)
  have le: "length (drop 1 (dropWhile (\<lambda>c. c \<noteq> CHR ''&'') xs)) \<le> length xs" for xs :: string
    using length_dropWhile_le [of "\<lambda>c. c \<noteq> CHR ''&''" xs] by simp
  have "dropWhile (\<lambda>c. c \<noteq> CHR ''='') s1 \<noteq> []" using m(1) by (auto simp: dropWhile_eq_Nil_conv)
  then have lt: "length (tl (dropWhile (\<lambda>c. c \<noteq> CHR ''='') s1)) < length s1"
    using length_dropWhile_le [of "\<lambda>c. c \<noteq> CHR ''=''" s1] by (cases "dropWhile (\<lambda>c. c \<noteq> CHR ''='') s1") auto
  show ?thesis unfolding s1_def [symmetric]
    by (rule le_less_trans [OF le less_le_trans [OF lt m(2)]])
qed

termination search_matches
  by (relation "measure length") (use search_rest_shorter in \<open>simp_all add: Let_def\<close>)

declare search_matches.simps [simp del]

lemma filter_first: "a \<in> set xs \<Longrightarrow> filter (\<lambda>c. c = a) xs = a # filter (\<lambda>c. c = a) (tl (dropWhile (\<lambda>c. c \<noteq> a) xs))"
  by (induction xs) auto

lemma length_filter_dropWhile: "length (filter Q (dropWhile P xs)) \<le> length (filter Q xs)"
  by (induction xs) auto

text \<open>
  the loop over the address ends: it goes round at most once for each equals sign of the
  address, and an address without one gives no words.
\<close>

theorem search_loop_bounded:
  "length (search_matches s) \<le> length (filter (\<lambda>c. c = CHR ''='') s)
   \<and> (search_matches s = []) = (CHR ''='' \<notin> set s)"
proof (induction s rule: search_matches.induct)
  case (1 s)
  let ?q = "\<lambda>c. c = CHR ''=''"
  define s1 where "s1 = drop_question s"
  define rest where "rest = tl (dropWhile (\<lambda>c. c \<noteq> CHR ''='') s1)"
  show ?case
  proof (cases "CHR ''='' \<in> set s")
    case True
    then have e: "search_matches s = (takeWhile (\<lambda>c. c \<noteq> CHR ''='') s1, takeWhile (\<lambda>c. c \<noteq> CHR ''&'') rest)
        # search_matches (drop 1 (dropWhile (\<lambda>c. c \<noteq> CHR ''&'') rest))"
      by (simp add: search_matches.simps [of s] s1_def rest_def Let_def)
    have m: "CHR ''='' \<in> set s1" "filter ?q s1 = filter ?q s"
      using True by (auto simp: s1_def drop_question_def split: list.split)
    have "filter ?q s1 = CHR ''='' # filter ?q rest" unfolding rest_def by (rule filter_first [OF m(1)])
    moreover have "length (filter ?q (drop 1 (dropWhile (\<lambda>c. c \<noteq> CHR ''&'') rest))) \<le> length (filter ?q rest)"
    proof -
      have "length (filter ?q (drop 1 ys)) \<le> length (filter ?q ys)" for ys by (cases ys) auto
      then show ?thesis using length_filter_dropWhile [of ?q "\<lambda>c. c \<noteq> CHR ''&''" rest] le_trans by blast
    qed
    moreover have "length (search_matches (drop 1 (dropWhile (\<lambda>c. c \<noteq> CHR ''&'') rest)))
        \<le> length (filter ?q (drop 1 (dropWhile (\<lambda>c. c \<noteq> CHR ''&'') rest)))"
      using 1 [OF True s1_def rest_def] by simp
    ultimately show ?thesis using True e m(2) by simp
  next
    case False
    then show ?thesis by (simp add: search_matches.simps [of s])
  qed
qed

text \<open>The last match of a word counts; the matches of a page are computed once.\<close>

definition parsedSearch :: "string \<Rightarrow> string \<Rightarrow> (string \<times> string) list option \<Rightarrow> string \<times> (string \<times> string) list option" where
  "parsedSearch address w known =
     (let found = (case known of Some old \<Rightarrow> old | None \<Rightarrow> search_matches address)
      in (case map_of (rev found) w of Some v \<Rightarrow> v | None \<Rightarrow> '''', Some found))"

fun decodeURIComponent :: "string \<Rightarrow> string option" where
  "decodeURIComponent [] = Some []"
| "decodeURIComponent (c # s) =
     (if c = CHR ''%'' then
        (case s of a # b # t \<Rightarrow>
           (case (hex_value a, hex_value b) of
              (Some x, Some y) \<Rightarrow> map_option ((#) (char_of (16 * x + y))) (decodeURIComponent t)
            | _ \<Rightarrow> None)
         | _ \<Rightarrow> None)
      else map_option ((#) c) (decodeURIComponent s))"

fun replace_first :: "char \<Rightarrow> char \<Rightarrow> string \<Rightarrow> string" where
  "replace_first a b [] = []"
| "replace_first a b (c # s) = (if c = a then b # s else c # replace_first a b s)"

definition decodeSearhTime :: "string \<Rightarrow> string option" where
  "decodeSearhTime time = map_option (replace_first (CHR ''+'') (CHR '' '')) (decodeURIComponent time)"

lemma decode_encode_char [simp]: "decodeURIComponent (encode_char c @ s) = map_option ((#) c) (decodeURIComponent s)"
proof (cases "unreserved c")
  case True
  then have "c \<noteq> CHR ''%''" by (auto simp: unreserved_def)
  with True show ?thesis by (simp add: encode_char_def)
next
  case False
  have "(of_char c :: nat) div 16 < 16"
    using of_char_less [of c] by (simp add: less_mult_imp_div_less)
  with False show ?thesis by (simp add: encode_char_def)
qed

lemma decode_form_encode:
  "CHR '' '' \<notin> set s \<Longrightarrow> decodeURIComponent t = Some u \<Longrightarrow> decodeURIComponent (form_encode s @ t) = Some (s @ u)"
  by (induction s) (auto simp: form_encode_Cons, simp add: form_encode_def)

text \<open>
  The query of an API request: the paginator escapes the attributes with \<open>$.param\<close> and decodes the
  result again.
\<close>

definition text_params :: "(string \<times> string) list \<Rightarrow> string" where
  "text_params ps = jq_param (map (\<lambda>(k, v). (k, P_Str v)) ps)"

definition api_query :: "(string \<times> string) list \<Rightarrow> string option" where
  "api_query ps = decodeURIComponent (text_params ps)"

lemma param_pairs_text: "param_pairs (map (\<lambda>(k, v). (k, P_Str v)) ps) = ps"
  by (induction ps) auto

lemma text_params_join: "text_params ps = join ''&'' (map (\<lambda>(k, v). field (form_encode k) (form_encode v)) ps)"
  by (simp add: text_params_def jq_param_def param_pairs_text)

text \<open>So what has no space reaches the server as it is, escaped or not.\<close>

lemma api_query_raw:
  "\<forall>(k, v)\<in>set ps. CHR '' '' \<notin> set k \<and> CHR '' '' \<notin> set v \<Longrightarrow> api_query ps = Some (join ''&'' (map (\<lambda>(k, v). field k v) ps))"
proof (induction ps)
  case Nil
  then show ?case by (simp add: api_query_def text_params_join)
next
  case (Cons p ps)
  obtain k v where p: "p = (k, v)" by fastforce
  have s: "CHR '' '' \<notin> set k" "CHR '' '' \<notin> set v" using Cons.prems p by auto
  have f: "decodeURIComponent (field (form_encode k) (form_encode v) @ t) = Some (field k v @ u)"
    if "decodeURIComponent t = Some u" for t u
  proof -
    have "decodeURIComponent (CHR ''='' # form_encode v @ t) = Some (CHR ''='' # v @ u)"
      using decode_form_encode [OF s(2) that] by simp
    then show ?thesis using decode_form_encode [OF s(1)] by (simp add: field_def)
  qed
  show ?case
  proof (cases ps)
    case Nil
    then show ?thesis using f [of "[]" "[]"] p by (simp add: api_query_def text_params_join)
  next
    case (Cons q qs)
    have "decodeURIComponent (text_params ps) = Some (join ''&'' (map (\<lambda>(k, v). field k v) ps))"
      using Cons.IH Cons.prems by (simp add: api_query_def)
    then have "decodeURIComponent (CHR ''&'' # text_params ps) = Some (CHR ''&'' # join ''&'' (map (\<lambda>(k, v). field k v) ps))" by simp
    from f [OF this] show ?thesis using Cons p by (simp add: api_query_def text_params_join)
  qed
qed

lemma form_encode_no:
  "x \<in> set (form_encode s) \<Longrightarrow> x \<noteq> CHR ''?'' \<and> x \<noteq> CHR '' ''"
proof (induction s)
  case (Cons c s)
  have d: "(of_char c :: nat) div 16 < 16" using of_char_less [of c] by (simp add: less_mult_imp_div_less)
  have h: "hex_char n \<noteq> CHR ''?'' \<and> hex_char n \<noteq> CHR '' ''" if "n < 16" for n
  proof -
    have "(of_char (hex_char n) :: nat) \<ge> 48 \<and> (of_char (hex_char n) :: nat) \<noteq> 63" using that by (auto simp: hex_char_def)
    then show ?thesis by auto
  qed
  have "x \<in> set (encode_char c) \<Longrightarrow> x \<noteq> CHR ''?'' \<and> x \<noteq> CHR '' ''"
    using h [OF d] h [of "of_char c mod 16"] by (auto simp: encode_char_def unreserved_def split: if_splits)
  then show ?case using Cons by (auto simp: form_encode_Cons split: if_splits)
qed (simp add: form_encode_def)

lemma search_field:
  assumes "CHR ''='' \<notin> set a" "CHR ''?'' \<notin> set a" "CHR ''&'' \<notin> set b"
  shows "search_matches (field a b) = [(a, b)]"
    and "search_matches (field a b @ ''&'' @ z) = (a, b) # search_matches z"
proof -
  have t: "drop_question (field a b @ t) = field a b @ t" for t
    using assms(2) by (cases a) (auto simp: field_def drop_question_def)
  have w: "takeWhile (\<lambda>c. c \<noteq> CHR ''='') (field a b @ t) = a" "dropWhile (\<lambda>c. c \<noteq> CHR ''='') (field a b @ t) = ''='' @ b @ t" for t
    using assms(1) by (induction a) (auto simp: field_def)
  have v: "takeWhile (\<lambda>c. c \<noteq> CHR ''&'') (b @ ''&'' @ z) = b" "dropWhile (\<lambda>c. c \<noteq> CHR ''&'') (b @ ''&'' @ z) = ''&'' @ z"
    "takeWhile (\<lambda>c. c \<noteq> CHR ''&'') b = b" "dropWhile (\<lambda>c. c \<noteq> CHR ''&'') b = []"
    using assms(3) by (induction b) auto
  have e: "search_matches (drop (Suc 0) (dropWhile (\<lambda>c. c \<noteq> CHR ''&'') b)) = []"
    unfolding v(4) by (simp add: search_matches.simps)
  have m: "CHR ''='' \<in> set (field a b @ t)" for t by (simp add: field_def)
  show "search_matches (field a b) = [(a, b)]"
    using t [of "[]"] w [of "[]"] m [of "[]"] v e by (subst search_matches.simps) (simp add: Let_def)
  show "search_matches (field a b @ ''&'' @ z) = (a, b) # search_matches z"
    using t [of "''&'' @ z"] w [of "''&'' @ z"] m [of "''&'' @ z"] v
    by (subst search_matches.simps) (simp add: Let_def)
qed

lemma search_question:
  assumes "CHR ''='' \<in> set s" "hd s \<noteq> CHR ''?''"
  shows "search_matches (CHR ''?'' # s) = search_matches s"
proof -
  have "drop_question s = s" "drop_question (CHR ''?'' # s) = s" using assms by (cases s; simp add: drop_question_def)+
  then show ?thesis using assms(1) by (simp add: search_matches.simps [of s] search_matches.simps [of "CHR ''?'' # s"])
qed

lemma search_params: "search_matches (text_params ps) = map (\<lambda>(k, v). (form_encode k, form_encode v)) ps"
proof (induction ps)
  case Nil
  then show ?case by (simp add: text_params_join search_matches.simps)
next
  case (Cons p ps)
  obtain k v where p: "p = (k, v)" by fastforce
  have n: "CHR ''='' \<notin> set (form_encode k)" "CHR ''?'' \<notin> set (form_encode k)" "CHR ''&'' \<notin> set (form_encode v)"
    using form_encode_plain form_encode_no by blast+
  show ?case
  proof (cases ps)
    case Nil
    then show ?thesis using p search_field(1) [OF n] by (simp add: text_params_join)
  next
    case (Cons q qs)
    have "text_params (p # ps) = field (form_encode k) (form_encode v) @ ''&'' @ text_params ps"
      using p Cons by (simp add: text_params_join)
    then show ?thesis using Cons.IH p by (simp only: search_field(2) [OF n]) simp
  qed
qed

lemma search_address:
  assumes "ps \<noteq> []"
  shows "search_matches (CHR ''?'' # text_params ps) = map (\<lambda>(k, v). (form_encode k, form_encode v)) ps"
proof -
  obtain k v qs where p: "ps = (k, v) # qs" using assms by (cases ps) auto
  have h: "\<exists>t. text_params ps = form_encode k @ CHR ''='' # t"
    using p by (cases qs) (auto simp: text_params_join field_def)
  have "hd (text_params ps) \<noteq> CHR ''?''"
    using h form_encode_no [of "hd (form_encode k)" k] by (cases "form_encode k") auto
  then show ?thesis using search_question [of "text_params ps"] h search_params by auto
qed

text \<open>
  what is typed in a search form of the admin site is what the API server reads: the browser
  writes the fields into the address, \<open>parsedSearch\<close> finds the text of a field there, still escaped,
  and the request's query decodes to the text that was typed, whatever its characters.
\<close>

theorem search_text_roundtrip:
  assumes "distinct (map fst ps)" and "(k, v) \<in> set ps" and "\<forall>(k, v)\<in>set ps. form_encode k = k"
    and "plain_key nm" and "CHR '' '' \<notin> set nm"
  shows "\<exists>q. api_query [(nm, fst (parsedSearch (CHR ''?'' # text_params ps) k None))] = Some q \<and> read_query q = [(nm, Some v)]"
proof -
  let ?es = "map (\<lambda>(k, v). (form_encode k, form_encode v)) ps"
  have ne: "ps \<noteq> []" using assms(2) by auto
  have es: "?es = map (\<lambda>(k, v). (k, form_encode v)) ps" using assms(3) by auto
  have d: "distinct (map fst (rev ?es))" using assms(1) unfolding es by (simp add: rev_map comp_def case_prod_beta flip: rev_map)
  have "(k, form_encode v) \<in> set (rev ?es)" using assms(2) unfolding es by force
  then have "map_of (rev ?es) k = Some (form_encode v)" using map_of_is_SomeI [OF d] by blast
  then have w: "fst (parsedSearch (CHR ''?'' # text_params ps) k None) = form_encode v"
    by (simp add: parsedSearch_def search_address [OF ne] Let_def)
  have s: "CHR '' '' \<notin> set (form_encode v)" "CHR ''&'' \<notin> set (form_encode v)"
    using form_encode_no form_encode_plain by blast+
  have q: "api_query [(nm, form_encode v)] = Some (field nm (form_encode v))"
    using api_query_raw [of "[(nm, form_encode v)]"] s assms(5) by simp
  have "read_query (field nm (form_encode v)) = [(nm, Some v)]"
  proof -
    have "CHR ''&'' \<notin> set (field nm (form_encode v))" using s assms(4) by (auto simp: field_def plain_key_def)
    moreover have "read_field (field nm (form_encode v)) = (nm, Some v)"
      using assms(4) by (simp add: read_field_def field_def plain_key_def split_eq_field)
    ultimately show ?thesis by (simp add: read_query_field)
  qed
  then show ?thesis using q w by auto
qed

lemma search_text_roundtrip_witness:
  "\<exists>q. api_query [(''id'', fst (parsedSearch (CHR ''?'' # text_params [(''q'', ''a b&c=1+1''), (''state'', ''running'')]) ''q'' None))] = Some q
     \<and> read_query q = [(''id'', Some ''a b&c=1+1'')]"
proof -
  have "\<forall>(k, v)\<in>set [(''q'', ''a b&c=1+1''), (''state'', ''running'')]. form_encode k = k" by code_simp
  then show ?thesis
    by (intro search_text_roundtrip [where v = "''a b&c=1+1''"]) (simp_all add: plain_key_def)
qed

section \<open>The query for text logs\<close>

text \<open>
  \<open>to_iso\<close> is the helper \<open>iso8601\<close>, \<open>None\<close> for undefined, which \<open>$.param\<close> writes as nothing. The
  result is \<open>None\<close> when the time in the address cannot be decoded.
\<close>

definition text_log_url :: "(string \<Rightarrow> string option) \<Rightarrow> string \<Rightarrow> string \<Rightarrow> string option" where
  "text_log_url to_iso endpoint address =
     (let w = (\<lambda>k. fst (parsedSearch address k None));
          url = (\<lambda>t. endpoint @ ''/api/12.03/text_logs.json?''
             @ text_params [(''account_id'', ''a-00000000''), (''instance_id'', ''none''),
                 (''application_id'', w ''application_id''), (''start'', ''1''), (''limit'', ''100''), (''start_time'', t)])
      in if w ''start_time'' \<noteq> ''''
         then map_option (\<lambda>d. url (case to_iso d of Some t \<Rightarrow> t | None \<Rightarrow> '''')) (decodeSearhTime (w ''start_time''))
         else Some (url ''''))"

lemma form_encode_append: "form_encode (s @ t) = form_encode s @ form_encode t"
  by (simp add: form_encode_def)

lemma replace_first_append: "a \<notin> set s \<Longrightarrow> replace_first a b (s @ a # t) = s @ b # t"
  by (induction s) auto

lemma decodeSearhTime_one_space:
  assumes "CHR '' '' \<notin> set d" "CHR '' '' \<notin> set h" "CHR ''+'' \<notin> set d"
  shows "decodeSearhTime (form_encode (d @ '' '' @ h)) = Some (d @ '' '' @ h)"
proof -
  have "decodeURIComponent (form_encode h @ []) = Some (h @ [])" using decode_form_encode [OF assms(2), of "[]" "[]"] by simp
  then have "decodeURIComponent (CHR ''+'' # form_encode h) = Some (CHR ''+'' # h)" by simp
  from decode_form_encode [OF assms(1) this]
  have "decodeURIComponent (form_encode (d @ '' '' @ h)) = Some (d @ CHR ''+'' # h)"
    by (simp add: form_encode_append form_encode_Cons)
  then show ?thesis by (simp add: decodeSearhTime_def replace_first_append [OF assms(3)])
qed

text \<open>
  a search for text logs asks for the logs from the time that was picked (a day and a time of
  day with one space between), but the application's name is escaped twice: the server reads the
  escaped text, so a name with a space or another special character finds nothing.
\<close>

theorem text_log_query:
  assumes "CHR '' '' \<notin> set d" and "CHR '' '' \<notin> set h" and "CHR ''+'' \<notin> set d" and "to_iso (d @ '' '' @ h) = Some t"
  shows "\<exists>q. text_log_url to_iso endpoint (CHR ''?'' # text_params [(''application_id'', a), (''start_time'', d @ '' '' @ h)])
       = Some (endpoint @ ''/api/12.03/text_logs.json?'' @ q)
     \<and> read_query q = [(form_encode ''account_id'', Some ''a-00000000''), (form_encode ''instance_id'', Some ''none''),
         (form_encode ''application_id'', Some (form_encode a)), (form_encode ''start'', Some ''1''),
         (form_encode ''limit'', Some ''100''), (form_encode ''start_time'', Some t)]"
proof -
  let ?ps = "[(''application_id'', a), (''start_time'', d @ '' '' @ h)]"
  have k: "form_encode ''application_id'' = ''application_id''" "form_encode ''start_time'' = ''start_time''" by code_simp+
  have m: "search_matches (CHR ''?'' # text_params ?ps)
      = [(''application_id'', form_encode a), (''start_time'', form_encode (d @ '' '' @ h))]"
    using search_address [of ?ps] k by simp
  have w: "fst (parsedSearch (CHR ''?'' # text_params ?ps) ''application_id'' None) = form_encode a"
    "fst (parsedSearch (CHR ''?'' # text_params ?ps) ''start_time'' None) = form_encode (d @ '' '' @ h)"
    unfolding parsedSearch_def Let_def option.case m fst_conv by simp_all
  have ne: "form_encode (d @ '' '' @ h) \<noteq> ''''" by (simp add: form_encode_append form_encode_Cons)
  define q where "q = text_params [(''account_id'', ''a-00000000''), (''instance_id'', ''none''),
     (''application_id'', form_encode a), (''start'', ''1''), (''limit'', ''100''), (''start_time'', t)]"
  have "text_log_url to_iso endpoint (CHR ''?'' # text_params ?ps) = Some (endpoint @ ''/api/12.03/text_logs.json?'' @ q)"
    unfolding text_log_url_def Let_def w using ne decodeSearhTime_one_space [OF assms(1-3)] assms(4)
    by (simp add: q_def)
  moreover have "read_query q = [(form_encode ''account_id'', Some ''a-00000000''), (form_encode ''instance_id'', Some ''none''),
         (form_encode ''application_id'', Some (form_encode a)), (form_encode ''start'', Some ''1''),
         (form_encode ''limit'', Some ''100''), (form_encode ''start_time'', Some t)]"
    unfolding q_def text_params_def by (simp add: read_jq_param)
  ultimately show ?thesis by blast
qed

lemma text_log_query_witness:
  "\<exists>q. text_log_url Some '''' (CHR ''?'' # text_params [(''application_id'', ''my app''), (''start_time'', ''2013/01/02'' @ '' '' @ ''03:04:05'')])
       = Some ('''' @ ''/api/12.03/text_logs.json?'' @ q)
     \<and> (form_encode ''application_id'', Some ''my+app'') \<in> set (read_query q)"
proof -
  have e: "form_encode ''my app'' = ''my+app''" by code_simp
  have "\<exists>q. text_log_url Some '''' (CHR ''?'' # text_params [(''application_id'', ''my app''), (''start_time'', ''2013/01/02'' @ '' '' @ ''03:04:05'')])
       = Some ('''' @ ''/api/12.03/text_logs.json?'' @ q)
     \<and> read_query q = [(form_encode ''account_id'', Some ''a-00000000''), (form_encode ''instance_id'', Some ''none''),
         (form_encode ''application_id'', Some (form_encode ''my app'')), (form_encode ''start'', Some ''1''),
         (form_encode ''limit'', Some ''100''), (form_encode ''start_time'', Some (''2013/01/02'' @ '' '' @ ''03:04:05''))]"
    by (rule text_log_query) simp_all
  then show ?thesis unfolding e by auto
qed

section \<open>Error messages\<close>

text \<open>
  The page's handler of Ajax errors. The comparison of the event with \<open>parsererror\<close> compares an
  object with a string.
\<close>

datatype admin_message = M_network | M_parse | M_general

datatype ajax_event = Ajax_event string

record admin_page =
  ap_log :: "(string \<times> admin_message) list"
  ap_notified :: "admin_message list"

definition event_is_text :: "ajax_event \<Rightarrow> string \<Rightarrow> bool" where
  "event_is_text e t = False"

definition admin_logger_push :: "string \<Rightarrow> admin_message \<Rightarrow> admin_page \<Rightarrow> admin_page" where
  "admin_logger_push ty m p = p\<lparr>ap_log := ap_log p @ [(ty, m)]\<rparr>"

definition logger_getLog :: "string \<Rightarrow> admin_page \<Rightarrow> (string \<times> admin_message) list" where
  "logger_getLog ty p = filter (\<lambda>(t, m). t = ty) (ap_log p)"

definition admin_message_of :: "ajax_event \<Rightarrow> nat \<Rightarrow> admin_message" where
  "admin_message_of e status =
     (if status = 0 then M_network else if event_is_text e ''parsererror'' then M_parse else M_general)"

definition admin_ajaxError :: "ajax_event \<Rightarrow> nat \<Rightarrow> admin_page \<Rightarrow> admin_page" where
  "admin_ajaxError e status p =
     (let m = admin_message_of e status; ty = (case e of Ajax_event t \<Rightarrow> t)
      in if \<not> list_ex (\<lambda>(t, i). i = m) (logger_getLog ty p)
         then (admin_logger_push ty m p)\<lparr>ap_notified := ap_notified p @ [m]\<rparr> else p)"

definition ajaxErrors :: "nat list \<Rightarrow> admin_page" where
  "ajaxErrors statuses = fold (\<lambda>st. admin_ajaxError (Ajax_event ''ajaxError'') st) statuses \<lparr>ap_log = [], ap_notified = []\<rparr>"

text \<open>
  a page of the admin site tells of each kind of failure once: after any failures the messages
  shown are distinct, they are those of the failures, and the message about an answer that cannot
  be parsed is never among them.
\<close>

theorem admin_errors_once:
  "distinct (ap_notified (ajaxErrors sts)) \<and> set (ap_notified (ajaxErrors sts)) = (\<lambda>st. if st = 0 then M_network else M_general) ` set sts
   \<and> M_parse \<notin> set (ap_notified (ajaxErrors sts)) \<and> length (ap_notified (ajaxErrors sts)) \<le> 2"
proof -
  define f where "f = (\<lambda>st :: nat. if st = 0 then M_network else M_general)"
  have i: "ap_log (ajaxErrors sts) = map (\<lambda>m. (''ajaxError'', m)) (ap_notified (ajaxErrors sts))
     \<and> distinct (ap_notified (ajaxErrors sts)) \<and> set (ap_notified (ajaxErrors sts)) = f ` set sts"
  proof (induction sts rule: rev_induct)
    case Nil
    then show ?case by (simp add: ajaxErrors_def)
  next
    case (snoc st sts)
    define p where "p = ajaxErrors sts"
    have a: "ajaxErrors (sts @ [st]) = admin_ajaxError (Ajax_event ''ajaxError'') st p" by (simp add: ajaxErrors_def p_def)
    have g: "list_ex (\<lambda>(t, i). i = f st) (logger_getLog ''ajaxError'' p) \<longleftrightarrow> f st \<in> set (ap_notified p)"
      using snoc by (auto simp: logger_getLog_def p_def list_ex_iff)
    have m: "admin_message_of (Ajax_event ''ajaxError'') st = f st"
      by (simp add: admin_message_of_def event_is_text_def f_def)
    show ?case
    proof (cases "f st \<in> set (ap_notified p)")
      case True
      then have "ajaxErrors (sts @ [st]) = p" unfolding a admin_ajaxError_def m using g by (simp add: Let_def)
      then show ?thesis using snoc True unfolding p_def by auto
    next
      case False
      then have e: "ajaxErrors (sts @ [st]) = (admin_logger_push ''ajaxError'' (f st) p)\<lparr>ap_notified := ap_notified p @ [f st]\<rparr>"
        unfolding a admin_ajaxError_def m using g by (simp add: Let_def)
      show ?thesis unfolding e using snoc False by (simp add: admin_logger_push_def flip: p_def)
    qed
  qed
  then have "set (ap_notified (ajaxErrors sts)) \<subseteq> {M_network, M_general}" by (auto simp: f_def)
  moreover from this i have "length (ap_notified (ajaxErrors sts)) \<le> card {M_network, M_general}"
    by (metis card_mono distinct_card finite.emptyI finite.insertI)
  ultimately show ?thesis using i unfolding f_def by auto
qed

section \<open>Helpers\<close>

text \<open>\<open>nl2br\<close>: each line end, of one or two characters, becomes a break.\<close>

definition CR :: char where "CR = CHR 0x0D"

definition LF :: char where "LF = CHR 0x0A"

fun helper_nl2br :: "string \<Rightarrow> string" where
  "helper_nl2br [] = []"
| "helper_nl2br [c] = (if c = LF \<or> c = CR then ''<br />'' else [c])"
| "helper_nl2br (c # d # s) =
     (if (c = CR \<and> d = LF) \<or> (c = LF \<and> d = CR) then ''<br />'' @ helper_nl2br s
      else if c = LF \<or> c = CR then ''<br />'' @ helper_nl2br (d # s)
      else c # helper_nl2br (d # s))"

definition helper_iso8601 :: "(string \<Rightarrow> bool) \<Rightarrow> (string \<Rightarrow> string) \<Rightarrow> string \<Rightarrow> string option" where
  "helper_iso8601 moment_valid moment_format s = (if s \<noteq> '''' \<and> moment_valid s then Some (moment_format s) else None)"

definition helper_parse :: "(string \<Rightarrow> string) \<Rightarrow> string \<Rightarrow> string" where
  "helper_parse moment_local s = (if s \<noteq> '''' then moment_local s else '''')"

definition helper_parse_ja :: "(string \<Rightarrow> string) \<Rightarrow> string \<Rightarrow> string" where
  "helper_parse_ja moment_local_ja s = moment_local_ja s"

text \<open>The first row of a search result's dates; nothing when one is missing.\<close>

definition publish_date :: "(string \<Rightarrow> string) \<Rightarrow> string \<Rightarrow> string \<Rightarrow> string" where
  "publish_date moment_local b e =
     (if b \<noteq> '''' \<and> e \<noteq> '''' then helper_parse moment_local b @ '' ~ '' @ helper_parse moment_local e else '''')"

lemma helper_nl2br_no_newline: "LF \<notin> set (helper_nl2br s) \<and> CR \<notin> set (helper_nl2br s)"
proof (induction s rule: helper_nl2br.induct)
  case (2 c)
  then show ?case by (auto simp: LF_def CR_def)
next
  case (3 c d s)
  have b: "LF \<notin> set ''<br />''" "CR \<notin> set ''<br />''" by code_simp+
  show ?case using 3 b by (simp split: if_splits) blast
qed simp

section \<open>Statistics of a host node\<close>

text \<open>\<open>groupBy\<close> on the account, as an object: the keys in the order they first occur.\<close>

fun groupBy :: "(string \<times> 'a) list \<Rightarrow> (string \<times> (string \<times> 'a) list) list" where
  "groupBy [] = []"
| "groupBy (r # rs) = (fst r, r # filter (\<lambda>s. fst s = fst r) rs) # filter (\<lambda>(k, _). k \<noteq> fst r) (groupBy rs)"

definition accountTotal :: "(string \<times> 'b list) list \<Rightarrow> nat" where
  "accountTotal accounts = length (map fst accounts)"

definition instanceTotal :: "(string \<times> 'b list) list \<Rightarrow> nat" where
  "instanceTotal accounts = foldl (\<lambda>sum num. sum + num) 0 (map (\<lambda>(_, account). length account) accounts)"

lemma groupBy_keys: "set (map fst (groupBy rs)) = fst ` set rs \<and> distinct (map fst (groupBy rs))"
proof (induction rs)
  case (Cons r rs)
  have "map fst (filter (\<lambda>(k, _). k \<noteq> fst r) xs) = filter (\<lambda>k. k \<noteq> fst r) (map fst xs)"
    for xs :: "(string \<times> (string \<times> 'a) list) list"
    by (induction xs) auto
  then have "map fst (groupBy (r # rs)) = fst r # filter (\<lambda>k. k \<noteq> fst r) (map fst (groupBy rs))" by simp
  then show ?case using Cons by (simp only: set_simps set_filter distinct.simps) auto
qed simp

lemma groupBy_groups: "map_of (groupBy rs) k = (if k \<in> fst ` set rs then Some (filter (\<lambda>s. fst s = k) rs) else None)"
proof (induction rs)
  case (Cons r rs)
  have "map_of (filter (\<lambda>(j, _). j \<noteq> fst r) xs) k = (if k = fst r then None else map_of xs k)"
    for xs :: "(string \<times> (string \<times> 'a) list) list"
    by (induction xs) auto
  then show ?case using Cons by auto
qed simp

lemma foldl_sum: "foldl (\<lambda>sum num. sum + num) (a :: nat) xs = a + sum_list xs"
  by (induction xs arbitrary: a) auto

lemma sum_groups: "(\<Sum>k \<in> fst ` set rs. length (filter (\<lambda>s. fst s = k) rs)) = length rs"
proof (induction rs)
  case (Cons r rs)
  let ?K = "fst ` set (r # rs)"
  have "(\<Sum>k \<in> ?K. length (filter (\<lambda>s. fst s = k) (r # rs)))
      = (\<Sum>k \<in> ?K. (if k = fst r then 1 else 0)) + (\<Sum>k \<in> ?K. length (filter (\<lambda>s. fst s = k) rs))"
    unfolding sum.distrib [symmetric] by (intro sum.cong) auto
  moreover have "(\<Sum>k \<in> ?K. (if k = fst r then 1 else 0 :: nat)) = 1" by simp
  moreover have "(\<Sum>k \<in> ?K. length (filter (\<lambda>s. fst s = k) rs)) = (\<Sum>k \<in> fst ` set rs. length (filter (\<lambda>s. fst s = k) rs))"
  proof (rule sum.mono_neutral_right)
    show "\<forall>k\<in>?K - fst ` set rs. length (filter (\<lambda>s. fst s = k) rs) = 0" by (auto simp: filter_empty_conv)
  qed auto
  ultimately show ?case using Cons by simp
qed simp

text \<open>
  the statistics of a host node: the groups are the instances of each account, the account
  total is the number of accounts that have an instance there, and the instance total the number of
  instances, none counted twice or left out.
\<close>

theorem statistics_totals:
  "accountTotal (groupBy rs) = card (fst ` set rs) \<and> instanceTotal (groupBy rs) = length rs
   \<and> (\<forall>k. map_of (groupBy rs) k = (if k \<in> fst ` set rs then Some (filter (\<lambda>s. fst s = k) rs) else None))"
proof -
  have "accountTotal (groupBy rs) = card (fst ` set rs)"
    using groupBy_keys [of rs] unfolding accountTotal_def by (metis distinct_card)
  moreover have "instanceTotal (groupBy rs) = length rs"
  proof -
    have inst: "instanceTotal (groupBy rs) = (\<Sum>(k, g) \<leftarrow> groupBy rs. length g)"
      by (simp add: instanceTotal_def foldl_sum)
    have "(k, g) \<in> set (groupBy rs) \<Longrightarrow> g = filter (\<lambda>s. fst s = k) rs" for k g
    proof -
      assume "(k, g) \<in> set (groupBy rs)"
      then have "map_of (groupBy rs) k = Some g" using groupBy_keys [of rs] by simp
      then show "g = filter (\<lambda>s. fst s = k) rs" by (simp add: groupBy_groups split: if_splits)
    qed
    then have "(\<Sum>(k, g) \<leftarrow> groupBy rs. length g) = (\<Sum>(k, g) \<leftarrow> groupBy rs. length (filter (\<lambda>s. fst s = k) rs))"
      by (intro arg_cong [of _ _ sum_list] map_cong) auto
    also have "\<dots> = (\<Sum>k \<leftarrow> map fst (groupBy rs). length (filter (\<lambda>s. fst s = k) rs))"
      unfolding map_map comp_def case_prod_beta ..
    also have "\<dots> = (\<Sum>k \<in> fst ` set rs. length (filter (\<lambda>s. fst s = k) rs))"
      using groupBy_keys [of rs] by (metis sum_list_distinct_conv_sum_set)
    also have "\<dots> = length rs" by (rule sum_groups)
    finally show ?thesis unfolding inst .
  qed
  ultimately show ?thesis using groupBy_groups by blast
qed

section \<open>The view of text logs\<close>

text \<open>
  \<open>lv_content\<close> is the page's content: lines, and the links for the next lines with the last ids that
  their click handlers know. The view's own element is another one, so nothing is ever taken out but
  the links. \<open>lv_fetched\<close> records the addresses asked for.
\<close>

datatype piece = Line string | Tail "string list"

record log_view =
  lv_models :: "string list"
  lv_content :: "piece list"
  lv_fetched :: "string list"

definition log_start :: "string \<Rightarrow> log_view" where
  "log_start url = \<lparr>lv_models = [], lv_content = [], lv_fetched = [url]\<rparr>"

text \<open>\<open>addAll\<close> runs on every event of the collection.\<close>

definition addAll :: "log_view \<Rightarrow> log_view" where
  "addAll v =
     (if lv_models v = [] then v
      else v\<lparr>lv_content :=
             map (\<lambda>p. case p of Tail is \<Rightarrow> Tail (is @ [last (lv_models v)]) | Line i \<Rightarrow> Line i)
               (lv_content v @ map Line (lv_models v) @ [Tail []])\<rparr>)"

definition log_reset :: "string list \<Rightarrow> log_view \<Rightarrow> log_view" where
  "log_reset items v = addAll (v\<lparr>lv_models := items\<rparr>)"

definition log_error :: "log_view \<Rightarrow> log_view" where
  "log_error v = addAll v"

fun is_line :: "piece \<Rightarrow> bool" where
  "is_line (Line i) = True"
| "is_line (Tail is) = False"

text \<open>A click on the first link runs its handlers: each removes the links and asks for the lines after
  the one it knows.\<close>

definition next_url :: "string \<Rightarrow> string \<Rightarrow> string" where
  "next_url url i = url @ ''&id='' @ i"

fun tail_click_pieces :: "string \<Rightarrow> piece list \<Rightarrow> log_view \<Rightarrow> log_view" where
  "tail_click_pieces url [] v = v"
| "tail_click_pieces url (Line i # ps) v = tail_click_pieces url ps v"
| "tail_click_pieces url (Tail is # ps) v =
     v\<lparr>lv_content := filter is_line (lv_content v), lv_fetched := lv_fetched v @ map (\<lambda>i. next_url url i) is\<rparr>"

definition tail_click :: "string \<Rightarrow> log_view \<Rightarrow> log_view" where
  "tail_click url v = tail_click_pieces url (lv_content v) v"

definition log_lines :: "log_view \<Rightarrow> string list" where
  "log_lines v = concat (map (\<lambda>p. case p of Line i \<Rightarrow> [i] | Tail _ \<Rightarrow> []) (lv_content v))"

definition log_session :: "string \<Rightarrow> string list \<Rightarrow> string list list \<Rightarrow> log_view" where
  "log_session url first answers = fold (\<lambda>a v. log_reset a (tail_click url v)) answers (log_reset first (log_start url))"

lemma log_lines_append: "log_lines (v\<lparr>lv_content := xs @ ys\<rparr>) = log_lines (v\<lparr>lv_content := xs\<rparr>) @ log_lines (v\<lparr>lv_content := ys\<rparr>)"
  by (simp add: log_lines_def)

lemma tail_click_lines:
  "tail_click_pieces url (map Line is @ [Tail js]) v
     = v\<lparr>lv_content := filter is_line (lv_content v), lv_fetched := lv_fetched v @ map (\<lambda>i. next_url url i) js\<rparr>"
  by (induction "is") auto

lemma reset_content:
  "items \<noteq> [] \<Longrightarrow> lv_content v = map Line is \<Longrightarrow>
     log_reset items v = v\<lparr>lv_models := items, lv_content := map Line (is @ items) @ [Tail [last items]]\<rparr>"
  by (simp add: log_reset_def addAll_def)

lemma filter_lines: "filter is_line (map Line is @ [Tail js]) = map Line is"
  by (induction "is") auto

lemma map_butlast_last: "xs \<noteq> [] \<Longrightarrow> map f (butlast xs) @ [f (last xs)] = map f xs"
  by (metis append_butlast_last_id list.simps(8,9) map_append)

lemma log_session_state:
  assumes "first \<noteq> []" and "\<forall>a\<in>set answers. a \<noteq> []"
  shows "log_session url first answers
     = \<lparr>lv_models = last (first # answers), lv_content = map Line (first @ concat answers) @ [Tail [last (last (first # answers))]],
        lv_fetched = url # map (\<lambda>a. next_url url (last a)) (butlast (first # answers))\<rparr>"
  using assms(2)
proof (induction answers rule: rev_induct)
  case Nil
  then show ?case using assms(1) by (simp add: log_session_def log_start_def log_reset_def addAll_def)
next
  case (snoc a answers)
  define v where "v = log_session url first answers"
  have v: "v = \<lparr>lv_models = last (first # answers), lv_content = map Line (first @ concat answers) @ [Tail [last (last (first # answers))]],
        lv_fetched = url # map (\<lambda>a. next_url url (last a)) (butlast (first # answers))\<rparr>"
    unfolding v_def using snoc by simp
  define w where "w = tail_click url v"
  have w: "lv_content w = map Line (first @ concat answers)"
    "lv_fetched w = lv_fetched v @ [next_url url (last (last (first # answers)))]"
    unfolding w_def tail_click_def v by (simp_all only: log_view.simps tail_click_lines filter_lines list.map)
  have "log_session url first (answers @ [a]) = log_reset a w" by (simp add: log_session_def v_def w_def)
  also have "\<dots> = w\<lparr>lv_models := a, lv_content := map Line ((first @ concat answers) @ a) @ [Tail [last a]]\<rparr>"
    using snoc.prems by (intro reset_content w(1)) simp
  also have "\<dots> = \<lparr>lv_models = a, lv_content = map Line ((first @ concat answers) @ a) @ [Tail [last a]], lv_fetched = lv_fetched w\<rparr>"
    by (cases w) simp
  finally have r: "log_session url first (answers @ [a])
     = \<lparr>lv_models = a, lv_content = map Line ((first @ concat answers) @ a) @ [Tail [last a]], lv_fetched = lv_fetched w\<rparr>" .
  have m: "map (\<lambda>a. next_url url (last a)) (butlast (first # answers)) @ [next_url url (last (last (first # answers)))]
      = map (\<lambda>a. next_url url (last a)) (first # answers)"
    by (rule map_butlast_last) simp
  have f: "lv_fetched w = url # map (\<lambda>a. next_url url (last a)) (first # answers)"
    unfolding w(2) v by (simp only: log_view.simps append_Cons m)
  have b: "butlast (first # answers @ [a]) = first # answers" by (simp add: butlast_append)
  show ?case unfolding r f b by simp
qed

lemma log_lines_map: "log_lines (v\<lparr>lv_content := map Line is @ [Tail js]\<rparr>) = is"
  by (simp add: log_lines_def comp_def)

text \<open>
  the page of text logs shows the answers one after the other, and each further request asks for
  what follows the last line shown. But a request that fails adds all the lines of the last answer
  to the page a second time, and a second link that asks for the same lines.
\<close>

theorem text_log_lines:
  assumes "first \<noteq> []" and "\<forall>a\<in>set answers. a \<noteq> []"
  shows "log_lines (log_session url first answers) = first @ concat answers
     \<and> lv_fetched (tail_click url (log_session url first answers))
       = url # map (\<lambda>a. next_url url (last a)) (first # answers)
     \<and> log_lines (log_error (tail_click url (log_session url first answers))) = first @ concat answers @ last (first # answers)
     \<and> last (lv_content (log_error (tail_click url (log_session url first answers)))) = Tail [last (last (first # answers))]"
proof -
  let ?i = "last (last (first # answers))"
  define v where "v = log_session url first answers"
  have v: "v = \<lparr>lv_models = last (first # answers), lv_content = map Line (first @ concat answers) @ [Tail [?i]],
        lv_fetched = url # map (\<lambda>a. next_url url (last a)) (butlast (first # answers))\<rparr>"
    unfolding v_def by (rule log_session_state [OF assms])
  have m: "map (\<lambda>a. next_url url (last a)) (butlast (first # answers)) @ [next_url url (last (last (first # answers)))]
      = map (\<lambda>a. next_url url (last a)) (first # answers)"
    by (rule map_butlast_last) simp
  define w where "w = tail_click url v"
  have w: "w = \<lparr>lv_models = last (first # answers), lv_content = map Line (first @ concat answers),
      lv_fetched = url # map (\<lambda>a. next_url url (last a)) (first # answers)\<rparr>"
    unfolding w_def tail_click_def v
    by (simp only: log_view.simps log_view.update_convs tail_click_lines filter_lines list.simps(8,9) append_Cons m)
  have ne: "last (first # answers) \<noteq> []" using assms by (cases answers rule: rev_cases) auto
  have e: "lv_content (log_error w) = map Line (first @ concat answers @ last (first # answers)) @ [Tail [?i]]"
    unfolding log_error_def addAll_def w using ne by simp
  have "log_lines v = first @ concat answers" unfolding v by (simp add: log_lines_def comp_def)
  moreover have "log_lines (log_error w) = first @ concat answers @ last (first # answers)"
    unfolding log_lines_def e by (simp add: comp_def)
  ultimately show ?thesis using e unfolding v_def [symmetric] w_def [symmetric] by (simp add: w)
qed

lemma text_log_lines_witness:
  "log_lines (log_error (tail_click ''u'' (log_session ''u'' [''1'', ''2''] [[''3'']]))) = [''1'', ''2'', ''3'', ''3'']"
  using text_log_lines [of "[''1'', ''2'']" "[[''3'']]" "''u''"] by simp

text \<open>The applications to choose from: the third part of each key, each once, without \<open>invalid\<close>.\<close>

definition key_collection :: "string list \<Rightarrow> string option list" where
  "key_collection keys = filter (\<lambda>k. k \<noteq> Some ''invalid'') (rev (remdups (rev (map (\<lambda>v. nth_opt (split_on (CHR '':'') v) 2) keys))))"

definition key_options :: "string \<Rightarrow> string list \<Rightarrow> (string option \<times> bool) list" where
  "key_options application_id keys = map (\<lambda>k. (k, k = Some application_id)) (key_collection keys)"

lemma key_collection_distinct: "distinct (key_collection keys) \<and> Some ''invalid'' \<notin> set (key_collection keys)"
  by (simp add: key_collection_def)

end
