(* ===== verification/Admin_Collection.thy ===== *)
theory Admin_Collection
  imports Admin_App
begin

text \<open>
  The paged lists of the admin site: \<open>collections/paginated_collection.js\<close>, \<open>views/pagination_view.js\<close>,
  the template \<open>_paginate.erb\<close>, \<open>router.js\<close> and \<open>views/list_view.js\<close>, on the request pager of
  \<open>backbone.paginator.js\<close>. A page number is \<open>None\<close> when it is NaN. \<open>co_rendered\<close> is what the links of the
  page were made from: the current page and the number of pages at the last answer.
\<close>

section \<open>The collection\<close>

type_synonym row_data = "(string \<times> jsval) list"

record coll =
  co_current :: "int option"
  co_total :: "int option"
  co_records :: int
  co_rows :: "row_data list"
  co_api :: "(string \<times> string) list"
  co_rendered :: "(int option \<times> int) option"
  co_sent :: "(string \<times> string) list list"
  co_history :: "string list"

definition perPage :: int where "perPage = 10"

definition firstPage :: int where "firstPage = 1"

text \<open>The search attributes that are empty are left out.\<close>

definition coll_initialize :: "(string \<times> string) list \<Rightarrow> coll" where
  "coll_initialize server_api =
     \<lparr>co_current = Some 1, co_total = None, co_records = 0, co_rows = [], co_api = filter (\<lambda>(k, v). v \<noteq> '''') server_api,
      co_rendered = None, co_sent = [], co_history = []\<rparr>"

definition query_start :: "coll \<Rightarrow> int option" where
  "query_start s = map_option (\<lambda>c. c * perPage - perPage) (co_current s)"

definition query_attributes :: "coll \<Rightarrow> (string \<times> string) list" where
  "query_attributes s = co_api s @ [(''limit'', to_str (JNum perPage)), (''start'', to_str (num_val (query_start s)))]"

text \<open>\<open>pager\<close>: the request for the current page. The first one gives a collection that has not counted
  its pages the default number of the library, which is ten.\<close>

definition coll_pager :: "coll \<Rightarrow> coll" where
  "coll_pager s = s\<lparr>co_total := (case co_total s of None \<Rightarrow> Some 10 | Some n \<Rightarrow> Some n), co_sent := co_sent s @ [query_attributes s]\<rparr>"

definition requestNextPage :: "coll \<Rightarrow> coll" where
  "requestNextPage s = coll_pager (s\<lparr>co_current := map_option (\<lambda>c. c + 1) (co_current s)\<rparr>)"

definition requestPreviousPage :: "coll \<Rightarrow> coll" where
  "requestPreviousPage s = coll_pager (s\<lparr>co_current := map_option (\<lambda>c. c - 1) (co_current s)\<rparr>)"

definition coll_goTo :: "int option \<Rightarrow> coll \<Rightarrow> coll" where
  "coll_goTo parsed s = coll_pager (s\<lparr>co_current := parsed\<rparr>)"

text \<open>The rows of an answer, filled up with empty ones; the keys are those of the first row.\<close>

definition empty_row :: "row_data \<Rightarrow> row_data" where
  "empty_row r = obj_set ''id'' JNull (map (\<lambda>(k, _). (k, JStr '''')) r)"

definition fill_rows :: "row_data list \<Rightarrow> row_data list" where
  "fill_rows tags =
     (if int (length tags) < perPage \<and> tags \<noteq> [] then tags @ replicate (nat perPage - length tags) (empty_row (hd tags)) else tags)"

text \<open>The two forms of an answer: the rows and their number at the top, or inside the first element.\<close>

datatype coll_answer = Gui_answer "row_data list" int | Dcmgr_answer "row_data list" int

fun answer_rows :: "coll_answer \<Rightarrow> row_data list" where
  "answer_rows (Gui_answer rs n) = rs"
| "answer_rows (Dcmgr_answer rs n) = rs"

fun answer_count :: "coll_answer \<Rightarrow> int" where
  "answer_count (Gui_answer rs n) = n"
| "answer_count (Dcmgr_answer rs n) = n"

definition total_pages :: "int \<Rightarrow> int" where
  "total_pages n = (n + perPage - 1) div perPage"

definition coll_parse :: "coll_answer \<Rightarrow> coll \<Rightarrow> coll" where
  "coll_parse a s =
     s\<lparr>co_rows := fill_rows (answer_rows a), co_total := Some (total_pages (answer_count a)), co_records := answer_count a\<rparr>"

text \<open>An answer resets the collection, and the links are rendered from it.\<close>

definition coll_answered :: "coll_answer \<Rightarrow> coll \<Rightarrow> coll" where
  "coll_answered a s =
     (let s1 = coll_parse a s in s1\<lparr>co_rendered := Some (co_current s1, total_pages (answer_count a))\<rparr>)"

section \<open>The views\<close>

definition updateNavigate :: "coll \<Rightarrow> coll" where
  "updateNavigate s = s\<lparr>co_history := co_history s @ [to_str (num_val (co_current s))]\<rparr>"

definition nextResultPage :: "coll \<Rightarrow> coll" where
  "nextResultPage s = updateNavigate (requestNextPage s)"

definition previousResultPage :: "coll \<Rightarrow> coll" where
  "previousResultPage s = updateNavigate (requestPreviousPage s)"

definition view_goTo :: "int option \<Rightarrow> coll \<Rightarrow> coll" where
  "view_goTo parsed s = updateNavigate (coll_goTo parsed s)"

text \<open>The arrow keys compare with the live page; a comparison with NaN or undefined is false.\<close>

definition keydown :: "nat \<Rightarrow> coll \<Rightarrow> coll" where
  "keydown keyCode s =
     (case co_current s of
        None \<Rightarrow> s
      | Some c \<Rightarrow>
          (if keyCode = 37 then (if c > firstPage then previousResultPage s else s)
           else if keyCode = 39 then (case co_total s of Some n \<Rightarrow> if c < n then nextResultPage s else s | None \<Rightarrow> s)
           else s))"

text \<open>The route of the address: an empty one is the first page.\<close>

definition router_list :: "(string \<Rightarrow> int option) \<Rightarrow> string \<Rightarrow> coll \<Rightarrow> coll" where
  "router_list parseInt p s = coll_goTo (if p = '''' then Some 1 else parseInt p) s"

text \<open>A page starts with the request of the list's view and that of the route.\<close>

definition coll_open :: "(string \<times> string) list \<Rightarrow> coll" where
  "coll_open server_api = router_list (\<lambda>_. None) '''' (coll_pager (coll_initialize server_api))"

text \<open>The page numbers of the template, for a current page that is a number.\<close>

definition page_link :: "int \<Rightarrow> int \<Rightarrow> int \<Rightarrow> int" where
  "page_link current lastPage p =
     (let halfPage = (perPage + 1) div 2
      in if current \<le> halfPage then p
         else if current + halfPage \<le> lastPage then current + halfPage - perPage + p
         else lastPage - perPage + p)"

definition page_links :: "int \<Rightarrow> int \<Rightarrow> int list" where
  "page_links current lastPage = map (page_link current lastPage) (filter (\<lambda>p. p \<le> 10) [firstPage..lastPage])"

definition has_previous :: "coll \<Rightarrow> bool" where
  "has_previous s = (case co_rendered s of Some (c, n) \<Rightarrow> n \<ge> 1 \<and> c \<noteq> Some firstPage | None \<Rightarrow> False)"

definition has_next :: "coll \<Rightarrow> bool" where
  "has_next s = (case co_rendered s of Some (c, n) \<Rightarrow> n \<ge> 1 \<and> Some n \<noteq> c | None \<Rightarrow> False)"

definition shown_links :: "coll \<Rightarrow> int list" where
  "shown_links s = (case co_rendered s of Some (Some c, n) \<Rightarrow> page_links c n | _ \<Rightarrow> [])"

lemmas coll_defs = coll_pager_def requestNextPage_def requestPreviousPage_def coll_goTo_def coll_parse_def coll_answered_def
  updateNavigate_def nextResultPage_def previousResultPage_def view_goTo_def keydown_def router_list_def coll_open_def

section \<open>Rows and pages\<close>

text \<open>
  an answer with rows is shown as ten rows at least: first the rows of the answer, unchanged,
  then empty ones, each with no id and every other field empty; an empty answer shows nothing.
\<close>

theorem fill_rows_exact:
  "take (length tags) (fill_rows tags) = tags
   \<and> length (fill_rows tags) = (if tags = [] then 0 else max 10 (length tags))
   \<and> list_all (\<lambda>r. map_of r ''id'' = Some JNull
        \<and> list_all (\<lambda>(k, v). if k = ''id'' then True else v = JStr '''') r) (drop (length tags) (fill_rows tags))"
proof -
  have e: "map_of (empty_row r) ''id'' = Some JNull" for r by (simp add: empty_row_def)
  have g: "list_all (\<lambda>(k, v). if k = ''id'' then True else v = JStr '''') (obj_set ''id'' JNull xs)"
    if "list_all (\<lambda>(k, v). v = JStr '''') xs" for xs
    using that by (induction xs) (auto simp: list_all_iff split: if_splits)
  have f: "list_all (\<lambda>(k, v). if k = ''id'' then True else v = JStr '''') (empty_row r)" for r
    unfolding empty_row_def by (rule g) (auto simp: list_all_iff)
  show ?thesis using e f by (auto simp: fill_rows_def perPage_def list_all_iff)
qed

lemma total_pages_bounds: "n > 0 \<Longrightarrow> (total_pages n - 1) * perPage < n \<and> n \<le> total_pages n * perPage"
  unfolding total_pages_def perPage_def by presburger

text \<open>
  the pages cover the records: each record of a list of \<open>n\<close> is on one page only of those the
  collection counts, between the start that its request asks for and the next one.
\<close>

theorem records_on_one_page:
  assumes "0 \<le> i" and "i < n"
  shows "\<exists>!p. 1 \<le> p \<and> p \<le> total_pages n
     \<and> (\<exists>a. query_start (s\<lparr>co_current := Some p\<rparr>) = Some a \<and> a \<le> i \<and> i < a + perPage)"
proof (rule ex1I [of _ "i div perPage + 1"])
  show "1 \<le> i div perPage + 1 \<and> i div perPage + 1 \<le> total_pages n
     \<and> (\<exists>a. query_start (s\<lparr>co_current := Some (i div perPage + 1)\<rparr>) = Some a \<and> a \<le> i \<and> i < a + perPage)"
  proof -
    have "(i + 10) div 10 \<le> (n + 9) div 10" using assms by (intro zdiv_mono1) auto
    then have "i div 10 + 1 \<le> (n + 9) div 10" by simp
    moreover have "0 \<le> i div 10" "i div 10 * 10 \<le> i" "i < i div 10 * 10 + 10" using assms(1) by auto
    ultimately show ?thesis by (simp add: query_start_def total_pages_def perPage_def add.commute)
  qed
next
  fix p
  assume "1 \<le> p \<and> p \<le> total_pages n
     \<and> (\<exists>a. query_start (s\<lparr>co_current := Some p\<rparr>) = Some a \<and> a \<le> i \<and> i < a + perPage)"
  then have "p * 10 - 10 \<le> i" "i < p * 10" by (simp_all add: query_start_def perPage_def)
  then have "i div 10 = p - 1" by (intro int_div_pos_eq [where r = "i - 10 * (p - 1)"]) simp_all
  then have "p = i div 10 + 1" by simp
  then show "p = i div perPage + 1" by (simp add: perPage_def)
qed

lemma records_on_one_page_witness:
  "\<exists>!p. 1 \<le> p \<and> p \<le> total_pages 25
     \<and> (\<exists>a. query_start ((coll_initialize [])\<lparr>co_current := Some p\<rparr>) = Some a \<and> a \<le> 24 \<and> 24 < a + perPage)"
  using records_on_one_page [of 24 25 "coll_initialize []"] by simp

lemma page_links_cases:
  assumes "1 \<le> current" and "current \<le> n"
  shows "(if n \<ge> 10 then \<exists>a. page_links current n = [a..a + 9] \<and> 1 \<le> a \<and> a + 9 \<le> n \<and> a \<le> current \<and> current \<le> a + 9
          else if current \<le> 5 then page_links current n = [1..n]
          else page_links current n = [n - 9..2 * n - 10] \<and> n - 9 \<le> 0)"
proof -
  have f: "filter (\<lambda>p. p \<le> 10) [1..n] = [1..min n 10]"
  proof (cases "n \<le> 10")
    case True
    then show ?thesis by (auto simp: filter_id_conv min_def)
  next
    case False
    then have "[1..n] = [1..10] @ [11..n]" using upto_split1 [of 1 10 n] upto_split2 [of 1 10 n] by simp
    then show ?thesis using False by (simp add: min_def filter_empty_conv)
  qed
  have shift: "map (\<lambda>p. c + p) [a..b] = [c + a..c + b]" for a b c :: int
  proof (induction "nat (b - a + 1)" arbitrary: a)
    case 0
    then show ?case by simp
  next
    case (Suc k)
    then have "a \<le> b" "k = nat (b - (a + 1) + 1)" by simp_all
    then show ?case using Suc(1) [of "a + 1"] by (simp add: upto_rec1 [of a b] upto_rec1 [of "c + a" "c + b"] add.assoc)
  qed
  have l: "page_links current n = (if current \<le> 5 then [1..min n 10]
      else if current + 5 \<le> n then [current - 4..current - 5 + min n 10] else [n - 9..n - 10 + min n 10])"
  proof -
    have "page_link current n = (\<lambda>p. (if current \<le> 5 then 0 else if current + 5 \<le> n then current - 5 else n - 10) + p)"
      by (auto simp: page_link_def perPage_def Let_def)
    then have "page_links current n = map (\<lambda>p. (if current \<le> 5 then 0 else if current + 5 \<le> n then current - 5 else n - 10) + p) [1..min n 10]"
      by (simp add: page_links_def firstPage_def f)
    then show ?thesis unfolding shift by (simp add: algebra_simps)
  qed
  show ?thesis
  proof (cases "n \<ge> 10")
    case True
    show ?thesis
    proof (cases "current \<le> 5")
      case 1: True
      then show ?thesis using True assms l by (auto intro!: exI [of _ 1])
    next
      case 2: False
      show ?thesis
      proof (cases "current + 5 \<le> n")
        case 3: True
        then show ?thesis using True 2 assms l by (auto intro!: exI [of _ "current - 4"])
      next
        case 4: False
        then show ?thesis using True 2 assms l by (auto intro!: exI [of _ "n - 9"])
      qed
    qed
  next
    case False
    then show ?thesis using assms l by (auto simp: algebra_simps)
  qed
qed

text \<open>
  the numbered links. With at least ten pages they are ten consecutive pages of the list, the
  current one among them; with fewer pages, as long as the current page is one of the first five,
  they are all pages. Otherwise, on the sixth to ninth page of a list of fewer than ten pages, they
  begin before the first page.
\<close>

theorem page_links_window:
  assumes "1 \<le> current" and "current \<le> n"
  shows "(if n \<ge> 10 then \<exists>a. page_links current n = [a..a + 9] \<and> 1 \<le> a \<and> a + 9 \<le> n \<and> a \<le> current \<and> current \<le> a + 9
          else if current \<le> 5 then page_links current n = [1..n]
          else page_links current n = [n - 9..2 * n - 10] \<and> n - 9 \<le> 0)"
  by (rule page_links_cases [OF assms])

lemma page_links_window_witness:
  "page_links 6 7 = [-2..4] \<and> (\<exists>a. page_links 12 30 = [a..a + 9] \<and> 1 \<le> a)"
  using page_links_window [of 6 7] page_links_window [of 12 30] by auto

section \<open>Moving between pages\<close>

text \<open>
  The events of a list whose answers all count \<open>n\<close> records: the two arrow keys once there is an
  answer, the links of the page, and the answers. A link click is \<open>prompt\<close> when the page it was
  rendered for is still the current one.
\<close>

datatype nav_event = Key nat | Next_link | Previous_link | Page_link int | Answered coll_answer

fun nav_step :: "nav_event \<Rightarrow> coll \<Rightarrow> coll" where
  "nav_step (Key k) s = keydown k s"
| "nav_step Next_link s = (if has_next s then nextResultPage s else s)"
| "nav_step Previous_link s = (if has_previous s then previousResultPage s else s)"
| "nav_step (Page_link p) s = (if p \<in> set (shown_links s) then view_goTo (Some p) s else s)"
| "nav_step (Answered a) s = coll_answered a s"

definition prompt :: "coll \<Rightarrow> bool" where
  "prompt s = (case co_rendered s of Some (c, n) \<Rightarrow> c = co_current s | None \<Rightarrow> True)"

fun nav_enabled :: "int \<Rightarrow> nav_event \<Rightarrow> coll \<Rightarrow> bool" where
  "nav_enabled n (Key k) s = (co_rendered s \<noteq> None)"
| "nav_enabled n (Answered a) s = (answer_count a = n)"
| "nav_enabled n _ s = prompt s"

text \<open>Page counts for which the numbered links stay in the list.\<close>

definition steady :: "int \<Rightarrow> bool" where
  "steady n = (n > 0 \<and> (total_pages n \<le> 5 \<or> total_pages n \<ge> 10))"

definition nav_init :: "int \<Rightarrow> (string \<times> string) list \<Rightarrow> coll \<Rightarrow> bool" where
  "nav_init n api s = (steady n \<and> s = coll_open api)"

definition nav_inv :: "int \<Rightarrow> coll \<Rightarrow> bool" where
  "nav_inv n s = (steady n
     \<and> (\<exists>c. co_current s = Some c \<and> 1 \<le> c \<and> c \<le> total_pages n)
     \<and> (case co_rendered s of None \<Rightarrow> True | Some (c, m) \<Rightarrow> m = total_pages n \<and> co_total s = Some (total_pages n)))"

lemma steady_pages: "steady n \<Longrightarrow> 1 \<le> total_pages n"
  unfolding steady_def total_pages_def perPage_def by presburger

lemma links_in_list:
  assumes "steady n" "1 \<le> c" "c \<le> total_pages n" "p \<in> set (page_links c (total_pages n))"
  shows "1 \<le> p \<and> p \<le> total_pages n"
  using page_links_cases [OF assms(2,3)] assms by (auto simp: steady_def split: if_splits)

lemma nav_frame [simp]:
  "co_total s = Some m \<Longrightarrow> co_total (nextResultPage s) = Some m" "co_rendered (nextResultPage s) = co_rendered s"
  "co_current (nextResultPage s) = map_option (\<lambda>c. c + 1) (co_current s)"
  "co_total s = Some m \<Longrightarrow> co_total (previousResultPage s) = Some m" "co_rendered (previousResultPage s) = co_rendered s"
  "co_current (previousResultPage s) = map_option (\<lambda>c. c - 1) (co_current s)"
  "co_total s = Some m \<Longrightarrow> co_total (view_goTo p s) = Some m" "co_rendered (view_goTo p s) = co_rendered s" "co_current (view_goTo p s) = p"
  "co_total (coll_answered a s) = Some (total_pages (answer_count a))"
  "co_rendered (coll_answered a s) = Some (co_current s, total_pages (answer_count a))"
  "co_current (coll_answered a s) = co_current s"
  by (simp_all add: coll_defs Let_def)

lemma nav_step_inv: "nav_inv n s \<Longrightarrow> nav_enabled n e s \<Longrightarrow> nav_inv n (nav_step e s)"
proof -
  assume i: "nav_inv n s" and en: "nav_enabled n e s"
  obtain c where c: "co_current s = Some c" "1 \<le> c" "c \<le> total_pages n" and st: "steady n"
    using i by (auto simp: nav_inv_def)
  have ren: "co_rendered s = Some (d, m) \<Longrightarrow> m = total_pages n \<and> co_total s = Some (total_pages n)" for d m
    using i by (simp add: nav_inv_def)
  have move: "nav_inv n t" if "co_total s = Some (total_pages n) \<Longrightarrow> co_total t = Some (total_pages n)"
    "co_rendered t = co_rendered s" "co_current t = Some d" "1 \<le> d" "d \<le> total_pages n" for t d
    using i that by (auto simp: nav_inv_def split: option.splits)
  show ?thesis
  proof (cases e)
    case (Key k)
    then have "co_total s = Some (total_pages n)" using en ren by auto
    then have "keydown k s = (if k = 37 \<and> c > 1 then previousResultPage s
        else if k = 39 \<and> c < total_pages n then nextResultPage s else s)"
      using c(1) by (simp add: keydown_def firstPage_def)
    then show ?thesis using Key i c move [of "previousResultPage s" "c - 1"] move [of "nextResultPage s" "c + 1"] by simp
  next
    case Next_link
    then have "has_next s \<Longrightarrow> c \<noteq> total_pages n"
      using en c ren by (auto simp: has_next_def prompt_def split: option.splits)
    then have "has_next s \<Longrightarrow> c + 1 \<le> total_pages n" using c(3) by simp
    then show ?thesis using Next_link i c move [of "nextResultPage s" "c + 1"] by simp
  next
    case Previous_link
    then have "has_previous s \<Longrightarrow> c \<noteq> 1"
      using en c by (auto simp: has_previous_def prompt_def firstPage_def split: option.splits)
    then have "has_previous s \<Longrightarrow> 1 \<le> c - 1" using c(2) by simp
    then show ?thesis using Previous_link i c move [of "previousResultPage s" "c - 1"] by simp
  next
    case (Page_link p)
    then have "p \<in> set (shown_links s) \<Longrightarrow> 1 \<le> p \<and> p \<le> total_pages n"
      using en c ren links_in_list [OF st c(2,3)] by (auto simp: shown_links_def prompt_def split: option.splits)
    then show ?thesis using Page_link i move [of "view_goTo (Some p) s" p] by simp
  next
    case (Answered a)
    then show ?thesis using i en by (simp add: nav_inv_def)
  qed
qed

interpretation admin_pages: machine "nav_init n api" "nav_enabled n" nav_step "nav_inv n"
proof unfold_locales
  fix s
  assume "nav_init n api s"
  then show "nav_inv n s"
    using steady_pages [of n] by (simp add: nav_init_def nav_inv_def coll_initialize_def coll_open_def coll_defs)
qed (rule nav_step_inv)

text \<open>
  C28: moving through a list of the admin site stays in it, when the number of rows stays the same and makes up to five
  pages or at least ten: with the keys used only once the first answer is there, and the links and buttons only
  once the answer to the last move is there, no move leads before the first page or behind the last one, and every
  request asks for a page of the list.
\<close>

theorem navigation_in_range:
  assumes "steady n" and "all_enabled (nav_enabled n) nav_step es (coll_open api)"
  shows "\<exists>c. co_current (fold nav_step es (coll_open api)) = Some c \<and> 1 \<le> c \<and> c \<le> total_pages n
     \<and> query_start (fold nav_step es (coll_open api)) = Some ((c - 1) * perPage) \<and> (c - 1) * perPage < n"
proof -
  let ?s = "fold nav_step es (coll_open api)"
  have "nav_inv n ?s" using admin_pages.run_inv [OF _ assms(2)] assms(1) by (simp add: nav_init_def)
  then obtain c where c: "co_current ?s = Some c" "1 \<le> c" "c \<le> total_pages n" by (auto simp: nav_inv_def)
  moreover have "query_start ?s = Some ((c - 1) * perPage)" using c(1) by (simp add: query_start_def algebra_simps)
  moreover have "(c - 1) * perPage < n"
  proof -
    have "n > 0" using assms(1) by (simp add: steady_def)
    then have "(total_pages n - 1) * perPage < n" using total_pages_bounds by blast
    moreover have "(c - 1) * perPage \<le> (total_pages n - 1) * perPage" using c(3) by (simp add: perPage_def)
    ultimately show ?thesis by simp
  qed
  ultimately show ?thesis by blast
qed

definition nav_demo :: "nav_event list" where
  "nav_demo = [Answered (Gui_answer [] 25), Next_link, Key 39, Key 39, Answered (Gui_answer [] 25), Page_link 1]"

lemma navigation_in_range_witness:
  "\<exists>c. co_current (fold nav_step nav_demo (coll_open [])) = Some c \<and> c = 1 \<and> c \<le> total_pages 25"
proof -
  have s: "steady 25" by (simp add: steady_def total_pages_def perPage_def)
  have e: "all_enabled (nav_enabled 25) nav_step nav_demo (coll_open [])"
    "co_current (fold nav_step nav_demo (coll_open [])) = Some 1" by code_simp+
  show ?thesis using navigation_in_range [OF s e(1)] e(2) by auto
qed

text \<open>Before the first answer the right key goes up to the tenth page, however many there are.\<close>

lemma early_key_overruns: "co_current (fold nav_step (replicate 9 (Key 39)) (coll_open api)) = Some 10"
  by (simp add: numeral_eq_Suc coll_open_def coll_initialize_def coll_defs firstPage_def)

text \<open>A second click before the answer of the first overruns the last page.\<close>

lemma double_click_overruns:
  "co_current s = Some c \<Longrightarrow> co_rendered s = Some (Some c, c + 1) \<Longrightarrow> 1 \<le> c \<Longrightarrow>
     co_current (fold nav_step [Next_link, Next_link] s) = Some (c + 2)"
  by (simp add: has_next_def)

end
