(* ===== verification/Admin_Pages.thy ===== *)
theory Admin_Pages
  imports Admin_Collection
begin

text \<open>
  The controllers of the admin site and the views that they create: the searches with their
  parameters (\<open>controllers/*/search_controller.js\<close>), the pages of one item (\<open>detail_view.js\<close>,
  \<open>detail_collection.js\<close>), the rows of a list (\<open>list_view.js\<close>, \<open>result_view.js\<close>), the deletion of a
  notification (\<open>notification_view.js\<close>), the login in place of a user (\<open>user_view.js\<close>), and the messages
  of \<open>app.js\<close>. The lemmas show which query a search sends, what a page of an item shows, and that the
  notifications that are deleted are those that were confirmed.
\<close>

section \<open>The search pages\<close>

text \<open>
  Each search page builds its collection from the address: \<open>w\<close> is \<open>parsedSearch\<close>. The result is the
  address of the lists and the attributes of the search.
\<close>

record endpoints =
  ep_dcmgr :: string
  ep_gui :: string

definition instances_search :: "endpoints \<Rightarrow> (string \<Rightarrow> string) \<Rightarrow> string \<times> (string \<times> string) list" where
  "instances_search ep w =
     (ep_dcmgr ep @ ''/api/12.03/instances.json'',
      [(''id'', w ''q''), (''state'', w ''state''), (''host_node_id'', w ''host_node_id''), (''account_id'', w ''account_id'')])"

definition host_nodes_search :: "endpoints \<Rightarrow> (string \<Rightarrow> string) \<Rightarrow> string \<times> (string \<times> string) list" where
  "host_nodes_search ep w =
     (ep_dcmgr ep @ ''/api/12.03/host_nodes.json'', [(''id'', w ''q''), (''status'', w ''status'')])"

definition load_balancers_search :: "endpoints \<Rightarrow> (string \<Rightarrow> string) \<Rightarrow> string \<times> (string \<times> string) list" where
  "load_balancers_search ep w = (ep_dcmgr ep @ ''/api/12.03/load_balancers.json'', [(''id'', w ''q'')])"

definition users_search :: "endpoints \<Rightarrow> (string \<Rightarrow> string) \<Rightarrow> string \<times> (string \<times> string) list" where
  "users_search ep w = (ep_gui ep @ ''/api/users.json'', [(''id'', w ''q'')])"

text \<open>
  A date of the search for notifications: the text in the address is decoded and escaped again as an
  ISO date. \<open>to_iso\<close> is the helper \<open>iso8601\<close>; its undefined is escaped like the word. Text that
  cannot be decoded throws, and the page gets no list at all.
\<close>

definition search_date :: "(string \<Rightarrow> string option) \<Rightarrow> string \<Rightarrow> string option" where
  "search_date to_iso raw =
     (if raw \<noteq> '''' then
        map_option (\<lambda>d. encodeURIComponent (case to_iso d of Some t \<Rightarrow> t | None \<Rightarrow> ''undefined''))
          (decodeSearhTime raw)
      else Some '''')"

definition notifications_search ::
  "(string \<Rightarrow> string option) \<Rightarrow> endpoints \<Rightarrow> (string \<Rightarrow> string) \<Rightarrow> (string \<times> (string \<times> string) list) option" where
  "notifications_search to_iso ep w =
     (case search_date to_iso (w ''display_end_at'') of
        None \<Rightarrow> None
      | Some e \<Rightarrow>
          (case search_date to_iso (w ''display_begin_at'') of
             None \<Rightarrow> None
           | Some b \<Rightarrow>
               Some (ep_gui ep @ ''/api/notifications.json'',
                 [(''distribution'', w ''distribution''), (''users'', w ''user_id''),
                  (''display_end_at'', e), (''display_begin_at'', b)])))"

text \<open>The words of an address, and the queries a page sends when it is opened.\<close>

definition words :: "string \<Rightarrow> string \<Rightarrow> string" where
  "words address k = fst (parsedSearch address k None)"

definition first_queries :: "(string \<times> string) list \<Rightarrow> string option list" where
  "first_queries server_api = map api_query (co_sent (coll_open server_api))"

definition typed :: "(string \<times> string) list \<Rightarrow> string \<Rightarrow> string" where
  "typed ps k = (case map_of ps k of Some v \<Rightarrow> v | None \<Rightarrow> '''')"

lemma form_encode_Nil [simp]: "form_encode '''' = ''''"
  by (simp add: form_encode_def)

lemma words_typed:
  assumes "distinct (map fst ps)" "ps \<noteq> []" "\<forall>(k, v)\<in>set ps. form_encode k = k"
  shows "words (CHR ''?'' # text_params ps) k = form_encode (typed ps k)"
proof -
  let ?es = "map (\<lambda>(k, v). (form_encode k, form_encode v)) ps"
  have es: "?es = map (\<lambda>(k, v). (k, form_encode v)) ps" using assms(3) by auto
  have d: "distinct (map fst ?es)" using assms(1) unfolding es by (simp add: comp_def case_prod_beta)
  have r: "map_of (rev ?es) = map_of ?es"
    using d by (intro map_of_inject_set [THEN iffD2]) (simp_all add: rev_map [symmetric])
  have "map_of ?es k = map_option form_encode (map_of ps k)"
    unfolding es by (rule map_of_map [THEN fun_cong, THEN trans]) simp
  then have "map_of (rev ?es) k = map_option form_encode (map_of ps k)" by (simp only: r)
  then show ?thesis unfolding words_def parsedSearch_def search_address [OF assms(2)] option.case Let_def fst_conv typed_def
    by (cases "map_of ps k") simp_all
qed

text \<open>A value that is written once and escaped once.\<close>

definition escapes :: "string \<Rightarrow> string \<Rightarrow> bool" where
  "escapes v raw = (form_decode raw = Some v \<and> CHR '' '' \<notin> set raw \<and> CHR ''&'' \<notin> set raw)"

lemma escapes_form [simp, intro]: "escapes v (form_encode v)"
  using form_encode_no [of "CHR '' ''" v] form_encode_plain by (auto simp: escapes_def)

lemma escapes_uri [simp, intro]: "escapes v (encodeURIComponent v)"
proof -
  have "CHR '' '' \<notin> set (encode_char c)" for c
  proof -
    have d: "(of_char c :: nat) div 16 < 16" using of_char_less [of c] by (simp add: less_mult_imp_div_less)
    have h: "hex_char n \<noteq> CHR '' ''" if "n < 16" for n
    proof -
      have "(of_char (hex_char n) :: nat) \<ge> 48" using that by (auto simp: hex_char_def)
      then show ?thesis by auto
    qed
    show ?thesis using h [OF d] h [of "of_char c mod 16"] by (auto simp: encode_char_def unreserved_def)
  qed
  then have "CHR '' '' \<notin> set (encodeURIComponent v)" by (induction v) auto
  then show ?thesis using encodeURIComponent_plain [of "CHR ''&''" v] by (auto simp: escapes_def)
qed

text \<open>A request whose attributes are escaped once is read with the values that they stand for.\<close>

lemma api_query_reads:
  assumes "list_all2 (\<lambda>(k, v) (k', raw). k' = k \<and> plain_key k \<and> CHR '' '' \<notin> set k \<and> escapes v raw) vs ps"
  shows "\<exists>q. api_query ps = Some q \<and> read_query q = map (\<lambda>(k, v). (k, Some v)) vs"
proof -
  have a: "\<forall>(k, v)\<in>set ps. CHR '' '' \<notin> set k \<and> CHR '' '' \<notin> set v" 
    using assms by (induction rule: list_all2_induct) (auto simp: escapes_def)
  have b: "\<forall>w\<in>set (map (\<lambda>(k, v). field k v) ps). CHR ''&'' \<notin> set w"
    using assms by (induction rule: list_all2_induct) (auto simp: escapes_def field_def plain_key_def)
  have c: "map read_field (filter (\<lambda>w. w \<noteq> '''') (map (\<lambda>(k, v). field k v) ps)) = map (\<lambda>(k, v). (k, Some v)) vs"
    using assms by (induction rule: list_all2_induct) (auto simp: escapes_def read_field_def field_def plain_key_def split_eq_field)
  show ?thesis using api_query_raw [OF a] read_query_join [OF b] c by auto
qed

text \<open>What the server should read: the fields that were filled in, and the rows of the first page.\<close>

definition given :: "(string \<times> string) list \<Rightarrow> (string \<times> string option) list" where
  "given vs = map (\<lambda>(k, v). (k, Some v)) (filter (\<lambda>(k, v). v \<noteq> '''') vs) @ [(''limit'', Some ''10''), (''start'', Some ''0'')]"

lemma form_decode_empty: "form_decode raw = Some [] \<longleftrightarrow> raw = []"
  by (induction raw rule: form_decode.induct) (auto split: list.splits option.splits)

lemma escapes_empty [simp]: "escapes v [] \<longleftrightarrow> v = []" "escapes [] raw \<longleftrightarrow> raw = []"
  using form_decode_empty [of raw] by (auto simp: escapes_def)

definition attribute_ok :: "string \<times> string \<Rightarrow> string \<times> string \<Rightarrow> bool" where
  "attribute_ok = (\<lambda>(k, v) (k', raw). k' = k \<and> plain_key k \<and> CHR '' '' \<notin> set k \<and> escapes v raw)"

lemma first_queries_read:
  assumes "list_all2 attribute_ok vs ps"
  shows "\<exists>q. first_queries ps = [Some q, Some q] \<and> read_query q = given vs"
proof -
  let ?rows = "[(''limit'', ''10''), (''start'', ''0'')]"
  have f: "list_all2 attribute_ok (filter (\<lambda>(k, v). v \<noteq> '''') vs) (filter (\<lambda>(k, v). v \<noteq> '''') ps)"
    using assms by (induction rule: list_all2_induct) (auto simp: attribute_ok_def)
  have "attribute_ok (k, v) (k, v)" if "(k, v) \<in> set ?rows" for k v
    using that by (auto simp: attribute_ok_def escapes_def plain_key_def)
  then have r: "list_all2 attribute_ok ?rows ?rows" by (simp add: list_all2_same)
  let ?ps = "filter (\<lambda>(k, v). v \<noteq> '''') ps @ ?rows"
  have "list_all2 attribute_ok (filter (\<lambda>(k, v). v \<noteq> '''') vs @ ?rows) ?ps"
    by (rule list_all2_appendI [OF f r])
  then obtain q where q: "api_query ?ps = Some q" "read_query q = map (\<lambda>(k, v). (k, Some v)) (filter (\<lambda>(k, v). v \<noteq> '''') vs @ ?rows)"
    using api_query_reads [of "filter (\<lambda>(k, v). v \<noteq> '''') vs @ ?rows" ?ps] unfolding attribute_ok_def by blast
  have "int_digits 10 = ''10''" "int_digits 0 = ''0''" by code_simp+
  then have "co_sent (coll_open ps) = [?ps, ?ps]"
    by (simp add: coll_open_def coll_initialize_def router_list_def coll_defs query_attributes_def query_start_def
      num_val_def perPage_def)
  then show ?thesis using q by (simp add: first_queries_def given_def)
qed

theorem instances_search_reads:
  assumes "distinct (map fst ps)" "ps \<noteq> []" "\<forall>(k, v)\<in>set ps. form_encode k = k"
  shows "\<exists>q. first_queries (snd (instances_search ep (words (CHR ''?'' # text_params ps)))) = [Some q, Some q] \<and>
    read_query q = given [(''id'', typed ps ''q''), (''state'', typed ps ''state''),
      (''host_node_id'', typed ps ''host_node_id''), (''account_id'', typed ps ''account_id'')]"
  by (rule first_queries_read)
    (auto simp: instances_search_def words_typed [OF assms] attribute_ok_def plain_key_def)

definition one_space :: "string \<Rightarrow> bool" where
  "one_space d = (length (filter (\<lambda>c. c = CHR '' '') d) = 1 \<and> CHR ''+'' \<notin> set (takeWhile (\<lambda>c. c \<noteq> CHR '' '') d))"

lemma one_space_split:
  assumes "one_space d"
  obtains a b where "d = a @ '' '' @ b" "CHR '' '' \<notin> set a" "CHR '' '' \<notin> set b" "CHR ''+'' \<notin> set a"
proof -
  let ?a = "takeWhile (\<lambda>c. c \<noteq> CHR '' '') d"
  have n: "filter (\<lambda>c. c = CHR '' '') d \<noteq> []" using assms by (auto simp: one_space_def)
  then have "CHR '' '' \<in> set d" by (auto simp: filter_empty_conv)
  then have "\<exists>b. dropWhile (\<lambda>c. c \<noteq> CHR '' '') d = CHR '' '' # b" by (induction d) auto
  then obtain b where b: "dropWhile (\<lambda>c. c \<noteq> CHR '' '') d = CHR '' '' # b" ..
  then have d: "d = ?a @ CHR '' '' # b" using takeWhile_dropWhile_id [of "\<lambda>c. c \<noteq> CHR '' ''" d] by simp
  have a: "CHR '' '' \<notin> set ?a" using set_takeWhileD by fastforce
  have "length (filter (\<lambda>c. c = CHR '' '') d) = length (filter (\<lambda>c. c = CHR '' '') ?a) + Suc (length (filter (\<lambda>c. c = CHR '' '') b))"
    using arg_cong [OF d, of "\<lambda>x. length (filter (\<lambda>c. c = CHR '' '') x)"] by simp
  then have "filter (\<lambda>c. c = CHR '' '') b = []" using assms by (simp add: one_space_def)
  then have "CHR '' '' \<notin> set b" by (auto simp: filter_empty_conv)
  moreover have "CHR ''+'' \<notin> set ?a" using assms by (simp add: one_space_def)
  ultimately show ?thesis using that [of ?a b] d a by simp
qed

text \<open>A field with a date: empty, or a day and a time with one space between, which the date library reads.\<close>

definition date_field :: "(string \<Rightarrow> string option) \<Rightarrow> string \<Rightarrow> string \<Rightarrow> bool" where
  "date_field to_iso d v = (if d = '''' then v = '''' else one_space d \<and> to_iso d = Some v)"

lemma search_date_field:
  assumes "date_field to_iso d v"
  shows "\<exists>raw. search_date to_iso (form_encode d) = Some raw \<and> escapes v raw"
proof (cases "d = ''''")
  case True
  then show ?thesis using assms by (auto simp: date_field_def search_date_def escapes_def)
next
  case False
  then have o: "one_space d" and i: "to_iso d = Some v" using assms by (auto simp: date_field_def)
  obtain a b where s: "d = a @ '' '' @ b" "CHR '' '' \<notin> set a" "CHR '' '' \<notin> set b" "CHR ''+'' \<notin> set a"
    by (rule one_space_split [OF o])
  have "decodeSearhTime (form_encode d) = Some d"
    unfolding s(1) by (rule decodeSearhTime_one_space [OF s(2-4)])
  moreover have "form_encode d \<noteq> ''''" using escapes_form [of d] False by (metis escapes_empty(1))
  ultimately show ?thesis using i by (auto simp: search_date_def)
qed

text \<open>
  C29: The search for notifications: the form's fields, as the browser writes them into the address,
  reach the server as they were typed, with the two dates in ISO form, each escaped exactly once.
\<close>

theorem notifications_search_reads:
  assumes "distinct (map fst ps)" "ps \<noteq> []" "\<forall>(k, v)\<in>set ps. form_encode k = k"
    and "date_field to_iso (typed ps ''display_end_at'') e" "date_field to_iso (typed ps ''display_begin_at'') b"
  shows "\<exists>url api q. notifications_search to_iso ep (words (CHR ''?'' # text_params ps)) = Some (url, api) \<and>
    first_queries api = [Some q, Some q] \<and>
    read_query q = given [(''distribution'', typed ps ''distribution''), (''users'', typed ps ''user_id''),
      (''display_end_at'', e), (''display_begin_at'', b)]"
proof -
  obtain x y where d: "search_date to_iso (form_encode (typed ps ''display_end_at'')) = Some x" "escapes e x"
    "search_date to_iso (form_encode (typed ps ''display_begin_at'')) = Some y" "escapes b y"
    using search_date_field [OF assms(4)] search_date_field [OF assms(5)] by blast
  let ?vs = "[(''distribution'', typed ps ''distribution''), (''users'', typed ps ''user_id''), (''display_end_at'', e), (''display_begin_at'', b)]"
  let ?api = "[(''distribution'', form_encode (typed ps ''distribution'')), (''users'', form_encode (typed ps ''user_id'')),
    (''display_end_at'', x), (''display_begin_at'', y)]"
  have "list_all2 attribute_ok ?vs ?api" using d by (auto simp: attribute_ok_def plain_key_def)
  from first_queries_read [OF this] show ?thesis
    by (auto simp: notifications_search_def words_typed [OF assms(1-3)] d)
qed

definition search_demo :: "(string \<times> string) list" where
  "search_demo = [(''distribution'', ''any''), (''user_id'', ''u-a&b''), (''display_begin_at'', ''2012/06/01 12:00:00''), (''display_end_at'', '''')]"

lemma notifications_search_witness:
  "\<exists>url api q. notifications_search (\<lambda>_. Some ''2012-06-01T12:00:00+09:00'') \<lparr>ep_dcmgr = [], ep_gui = ''/gui''\<rparr>
       (words (CHR ''?'' # text_params search_demo)) = Some (url, api) \<and>
    first_queries api = [Some q, Some q] \<and>
    read_query q = [(''distribution'', Some ''any''), (''users'', Some ''u-a&b''),
      (''display_begin_at'', Some ''2012-06-01T12:00:00+09:00''), (''limit'', Some ''10''), (''start'', Some ''0'')]"
proof -
  have k: "\<forall>(k, v)\<in>set search_demo. form_encode k = k" by code_simp
  have d: "distinct (map fst search_demo)" "search_demo \<noteq> []" by (simp_all add: search_demo_def)
  have t: "typed search_demo ''distribution'' = ''any''" "typed search_demo ''user_id'' = ''u-a&b''"
    "typed search_demo ''display_end_at'' = ''''" "typed search_demo ''display_begin_at'' = ''2012/06/01 12:00:00''"
    by (simp_all add: typed_def search_demo_def)
  have "date_field (\<lambda>_. Some ''2012-06-01T12:00:00+09:00'') (typed search_demo ''display_end_at'') ''''"
    "date_field (\<lambda>_. Some ''2012-06-01T12:00:00+09:00'') (typed search_demo ''display_begin_at'') ''2012-06-01T12:00:00+09:00''"
    by (simp_all add: t date_field_def one_space_def)
  from notifications_search_reads [OF d k this, of "\<lparr>ep_dcmgr = [], ep_gui = ''/gui''\<rparr>"] show ?thesis
    by (simp add: t given_def)
qed

text \<open>A date that the library cannot read is sent as the word undefined.\<close>

lemma unread_date: "search_date (\<lambda>_. None) ''yesterday'' = Some ''undefined''"
  by code_simp

section \<open>The pages of one item\<close>

text \<open>
  The address of an item's page is that of its data: \<open>pathname\<close> is the path in the browser. The
  models of the data centre and those of the user site differ in the endpoint.
\<close>

definition dcmgr_model_url :: "endpoints \<Rightarrow> string \<Rightarrow> string" where
  "dcmgr_model_url ep pathname = ep_dcmgr ep @ ''/api/12.03'' @ pathname @ ''.json''"

definition gui_model_url :: "endpoints \<Rightarrow> string \<Rightarrow> string" where
  "gui_model_url ep pathname = ep_gui ep @ ''/api'' @ pathname @ ''.json''"

definition statistics_url :: "endpoints \<Rightarrow> string \<Rightarrow> string" where
  "statistics_url ep pathname =
     ep_dcmgr ep @ ''/api/12.03/instances.json?host_node_id=''
     @ (case nth_opt (split_on (CHR ''/'') pathname) 2 of Some s \<Rightarrow> s | None \<Rightarrow> ''undefined'')
     @ ''&state=without_terminated''"

text \<open>
  A detail view: \<open>dv_models\<close> are the attributes of the collection's models, \<open>dv_shown\<close> what the
  template was filled with last, \<open>dv_sent\<close> the requests. \<open>'v\<close> is the type of an attribute's value.
\<close>

record 'v detail_view =
  dv_models :: "(string \<times> 'v) list list"
  dv_shown :: "(string \<times> 'v) list option"
  dv_sent :: "string list"

definition detail_info :: "'v detail_view \<Rightarrow> (string \<times> 'v) list" where
  "detail_info v = (case dv_models v of [] \<Rightarrow> [] | m # rest \<Rightarrow> m)"

definition detail_render :: "'v detail_view \<Rightarrow> 'v detail_view" where
  "detail_render v =
     (if map_of (detail_info v) ''id'' \<noteq> None then v\<lparr>dv_shown := Some (detail_info v)\<rparr> else v)"

text \<open>
  The collection is made with its options as its first argument, which Backbone takes for its models: it
  starts with one model, whose only attribute is the class of the models.
\<close>

definition detail_initialize :: "'v \<Rightarrow> string \<Rightarrow> 'v detail_view" where
  "detail_initialize model_class url = \<lparr>dv_models = [[(''model'', model_class)]], dv_shown = None, dv_sent = [url]\<rparr>"

text \<open>An answer of the server is one object or a list of objects; both reset the collection.\<close>

datatype 'v detail_answer = One_object "(string \<times> 'v) list" | Object_list "(string \<times> 'v) list list"

fun detail_models :: "'v detail_answer \<Rightarrow> (string \<times> 'v) list list" where
  "detail_models (One_object m) = [m]"
| "detail_models (Object_list ls) = ls"

datatype 'v detail_event = Detail_answer "'v detail_answer" | Detail_error

fun detail_step :: "'v detail_event \<Rightarrow> 'v detail_view \<Rightarrow> 'v detail_view" where
  "detail_step (Detail_answer a) v = detail_render (v\<lparr>dv_models := detail_models a\<rparr>)"
| "detail_step Detail_error v = detail_render v"

text \<open>
  The statistics of a host node: the instances of the answer, grouped by account, become the only
  attribute of the only model.
\<close>

definition statistics_parse :: "(string \<times> 'a) list \<Rightarrow> (string \<times> (string \<times> (string \<times> 'a) list) list) list list" where
  "statistics_parse rs = [[(''accounts'', groupBy rs)]]"

text \<open>What is shown of an item is the last answer that had an id.\<close>

definition answer_info :: "'v detail_event \<Rightarrow> (string \<times> 'v) list" where
  "answer_info e = (case e of Detail_answer a \<Rightarrow> (case detail_models a of [] \<Rightarrow> [] | m # rest \<Rightarrow> m) | Detail_error \<Rightarrow> [])"

definition has_id :: "(string \<times> 'v) list \<Rightarrow> bool" where
  "has_id m = (map_of m ''id'' \<noteq> None)"

lemma detail_shown:
  assumes "case dv_shown v of None \<Rightarrow> \<not> has_id (detail_info v) | Some m \<Rightarrow> has_id (detail_info v) \<longrightarrow> m = detail_info v"
  shows "dv_shown (fold detail_step es v) =
    (case filter has_id (map answer_info es) of [] \<Rightarrow> dv_shown v | js \<Rightarrow> Some (last js))"
  using assms
proof (induction es arbitrary: v)
  case (Cons e es)
  have s: "dv_shown (detail_step e v) = (if has_id (answer_info e) then Some (answer_info e) else dv_shown v)"
    using Cons.prems
    by (cases e) (auto simp: detail_render_def answer_info_def has_id_def detail_info_def split: option.splits list.splits)
  have "case dv_shown (detail_step e v) of None \<Rightarrow> \<not> has_id (detail_info (detail_step e v))
      | Some m \<Rightarrow> has_id (detail_info (detail_step e v)) \<longrightarrow> m = detail_info (detail_step e v)"
    using Cons.prems
    by (cases e) (auto simp: detail_render_def has_id_def detail_info_def split: option.splits list.splits)
  from Cons.IH [OF this] s show ?case by (auto split: list.splits)
qed simp

lemma detail_page:
  "dv_shown (fold detail_step es (detail_initialize c url)) =
    (case filter has_id (map answer_info es) of [] \<Rightarrow> None | js \<Rightarrow> Some (last js))"
  by (subst detail_shown) (auto simp: detail_initialize_def detail_info_def has_id_def split: list.splits)

text \<open>
  The statistics of a host node are never shown: the view renders only what has an id, and the
  grouped instances have none.
\<close>

theorem statistics_never_shown:
  "dv_shown (fold detail_step (map (\<lambda>rs. Detail_answer (Object_list (statistics_parse rs))) answers) (detail_initialize c url)) = None"
proof -
  have "filter has_id (map answer_info (map (\<lambda>rs. Detail_answer (Object_list (statistics_parse rs))) answers)) = []"
    by (auto simp: filter_empty_conv answer_info_def statistics_parse_def has_id_def)
  then show ?thesis by (simp add: detail_page)
qed

section \<open>The rows of a list\<close>

text \<open>A row of the table; the rows that fill up a page are marked.\<close>

record table_row =
  tr_data :: row_data
  tr_empty :: bool

definition result_render :: "row_data \<Rightarrow> table_row" where
  "result_render r = \<lparr>tr_data = r, tr_empty = (map_of r ''id'' = Some JNull)\<rparr>"

definition list_addOne :: "row_data \<Rightarrow> table_row list \<Rightarrow> table_row list" where
  "list_addOne r t = t @ [result_render r]"

definition list_addAll :: "row_data list \<Rightarrow> table_row list" where
  "list_addAll rs = fold list_addOne rs []"

lemma list_addAll_map: "list_addAll rs = map result_render rs"
proof -
  have "fold list_addOne rs t = t @ map result_render rs" for t
    by (induction rs arbitrary: t) (simp_all add: list_addOne_def)
  then show ?thesis by (simp add: list_addAll_def)
qed

text \<open>
  A page of rows with ids is shown with its rows unmarked, filled up to ten with marked ones.
\<close>

theorem list_page_filled:
  assumes "list_all (\<lambda>r. map_of r ''id'' \<noteq> None \<and> map_of r ''id'' \<noteq> Some JNull) rs" "rs \<noteq> []" "length rs \<le> 10"
  shows "length (list_addAll (fill_rows rs)) = 10 \<and>
    map tr_data (filter (\<lambda>t. \<not> tr_empty t) (list_addAll (fill_rows rs))) = rs"
proof -
  have u: "filter (\<lambda>t. \<not> tr_empty t) (map result_render rs) = map result_render rs"
    using assms(1) by (auto simp: filter_id_conv list_all_iff result_render_def)
  have e: "tr_empty (result_render (empty_row r))" for r by (simp add: result_render_def empty_row_def)
  have m: "map tr_data (map result_render rs) = rs" by (simp add: result_render_def comp_def)
  show ?thesis using assms(2,3) u m
    by (auto simp: list_addAll_map fill_rows_def perPage_def e nat_diff_distrib)
qed

lemma list_page_filled_witness:
  "length (list_addAll (fill_rows [[(''id'', JNum 7), (''name'', JStr ''a'')]])) = 10"
  using list_page_filled [of "[[(''id'', JNum 7), (''name'', JStr ''a'')]]"] by simp

section \<open>Deleting a notification\<close>

text \<open>
  The state of the list's page: \<open>del_rows\<close> the uuids of the rows, \<open>del_open\<close> whether the question is
  shown, \<open>del_bound\<close> the uuids for which a handler is bound to the button of the question, and the
  addresses to which the deletions were sent, with the messages shown.
\<close>

datatype deletion_note = Deleted | Not_deleted

record deletion =
  del_rows :: "string list"
  del_open :: bool
  del_bound :: "string list"
  del_sent :: "string list"
  del_notes :: "deletion_note list"

definition onDestroy :: "string \<Rightarrow> deletion \<Rightarrow> deletion" where
  "onDestroy uuid s = s\<lparr>del_open := True, del_bound := del_bound s @ [uuid]\<rparr>"

text \<open>The question is hidden: its handlers are unbound.\<close>

definition onHidden :: "deletion \<Rightarrow> deletion" where
  "onHidden s = s\<lparr>del_open := False, del_bound := []\<rparr>"

definition destroy_url :: "string \<Rightarrow> string \<Rightarrow> string" where
  "destroy_url urlRoot uuid = urlRoot @ ''/'' @ ''n-'' @ uuid @ ''.json''"

text \<open>\<open>destroy\<close> sends the request, and takes the row away at once.\<close>

definition destroy_model :: "string \<Rightarrow> string \<Rightarrow> deletion \<Rightarrow> deletion" where
  "destroy_model urlRoot uuid s =
     s\<lparr>del_sent := del_sent s @ [destroy_url urlRoot uuid], del_rows := filter (\<lambda>u. u \<noteq> uuid) (del_rows s)\<rparr>"

text \<open>The button runs its handlers, then the question closes.\<close>

definition actionDestroy :: "string \<Rightarrow> deletion \<Rightarrow> deletion" where
  "actionDestroy urlRoot s = onHidden (fold (destroy_model urlRoot) (del_bound s) s)"

datatype deletion_event = Click_delete string | Click_confirm | Click_cancel | Deletion_answered bool

fun deletion_step :: "string \<Rightarrow> deletion_event \<Rightarrow> deletion \<Rightarrow> deletion" where
  "deletion_step r (Click_delete u) s = onDestroy u s"
| "deletion_step r Click_confirm s = actionDestroy r s"
| "deletion_step r Click_cancel s = onHidden s"
| "deletion_step r (Deletion_answered good) s = s\<lparr>del_notes := del_notes s @ [if good then Deleted else Not_deleted]\<rparr>"

text \<open>The question covers the page: a row can be clicked only while it is hidden.\<close>

fun deletion_enabled :: "deletion_event \<Rightarrow> deletion \<Rightarrow> bool" where
  "deletion_enabled (Click_delete u) s = (\<not> del_open s \<and> u \<in> set (del_rows s))"
| "deletion_enabled Click_confirm s = del_open s"
| "deletion_enabled Click_cancel s = del_open s"
| "deletion_enabled (Deletion_answered good) s = (length (del_notes s) < length (del_sent s))"

definition deletion_init :: "string list \<Rightarrow> deletion" where
  "deletion_init rows = \<lparr>del_rows = rows, del_open = False, del_bound = [], del_sent = [], del_notes = []\<rparr>"

text \<open>
  The specification: what a user confirmed. \<open>asked\<close> is the row of the last question.
\<close>

fun confirmed :: "string option \<Rightarrow> deletion_event list \<Rightarrow> string list" where
  "confirmed asked [] = []"
| "confirmed asked (Click_delete u # es) = confirmed (Some u) es"
| "confirmed asked (Click_confirm # es) = (case asked of Some u \<Rightarrow> u # confirmed None es | None \<Rightarrow> confirmed None es)"
| "confirmed asked (Click_cancel # es) = confirmed None es"
| "confirmed asked (Deletion_answered g # es) = confirmed asked es"

definition deletion_inv :: "string list \<Rightarrow> string \<Rightarrow> deletion \<Rightarrow> bool" where
  "deletion_inv rows r s =
     ((\<exists>us. del_sent s = map (destroy_url r) us \<and> set us \<subseteq> set rows - set (del_rows s) \<and> distinct us)
      \<and> set (del_rows s) \<subseteq> set rows
      \<and> (if del_open s then \<exists>u\<in>set (del_rows s). del_bound s = [u] else del_bound s = []))"

lemma deletion_step_inv: "deletion_inv rows r s \<Longrightarrow> deletion_enabled e s \<Longrightarrow> deletion_inv rows r (deletion_step r e s)"
proof (cases e)
  case Click_confirm
  assume i: "deletion_inv rows r s" and "deletion_enabled e s"
  with Click_confirm obtain u us where u: "u \<in> set (del_rows s)" "del_bound s = [u]" "del_sent s = map (destroy_url r) us"
    "set us \<subseteq> set rows - set (del_rows s)" "distinct us"
    by (auto simp: deletion_inv_def)
  have "del_sent s @ [destroy_url r u] = map (destroy_url r) (us @ [u])" "distinct (us @ [u])"
    "set (us @ [u]) \<subseteq> set rows - set (filter (\<lambda>v. v \<noteq> u) (del_rows s))"
    using u i by (auto simp: deletion_inv_def)
  then show ?thesis using Click_confirm u(2) i
    by (auto simp: deletion_inv_def actionDestroy_def onHidden_def destroy_model_def simp del: distinct_append map_append set_append)
qed (auto simp: deletion_inv_def onDestroy_def onHidden_def)

interpretation deletions: machine "\<lambda>s. s = deletion_init rows" deletion_enabled "deletion_step r" "deletion_inv rows r"
  by unfold_locales (simp add: deletion_init_def deletion_inv_def, rule deletion_step_inv)

lemma deletion_run:
  assumes "all_enabled deletion_enabled (deletion_step r) es s"
    and "if del_open s then del_bound s = [u] else del_bound s = []"
  shows "del_sent (fold (deletion_step r) es s) =
    del_sent s @ map (destroy_url r) (confirmed (if del_open s then Some u else None) es)"
  using assms
proof (induction es arbitrary: s u)
  case (Cons e es)
  show ?case
  proof (cases e)
    case (Click_delete w)
    then show ?thesis using Cons.prems Cons.IH [of "onDestroy w s" w] by (simp add: onDestroy_def)
  next
    case Click_confirm
    then show ?thesis using Cons.prems Cons.IH [of "actionDestroy r s" u]
      by (simp add: actionDestroy_def onHidden_def destroy_model_def)
  next
    case Click_cancel
    then show ?thesis using Cons.prems Cons.IH [of "onHidden s" u] by (simp add: onHidden_def)
  next
    case (Deletion_answered g)
    then show ?thesis using Cons.prems Cons.IH [of "deletion_step r e s" u] by simp
  qed
qed simp

text \<open>
  C16: What is deleted is what was confirmed: in every session on the list of notifications, the requests
  are those for the rows whose question was answered with yes, in that order, each at most once.
\<close>

theorem deletions_confirmed:
  assumes "all_enabled deletion_enabled (deletion_step r) es (deletion_init rows)"
  shows "del_sent (fold (deletion_step r) es (deletion_init rows)) = map (destroy_url r) (confirmed None es)
    \<and> distinct (confirmed None es) \<and> set (confirmed None es) \<subseteq> set rows"
proof -
  have s: "del_sent (fold (deletion_step r) es (deletion_init rows)) = map (destroy_url r) (confirmed None es)"
    using deletion_run [OF assms, of undefined] by (simp add: deletion_init_def)
  have "deletion_inv rows r (fold (deletion_step r) es (deletion_init rows))"
    by (rule deletions.run_inv [OF refl assms])
  then obtain us where us: "map (destroy_url r) (confirmed None es) = map (destroy_url r) us" "distinct us" "set us \<subseteq> set rows"
    unfolding s deletion_inv_def by auto
  have "inj (destroy_url r)" by (auto simp: inj_def destroy_url_def)
  then have "confirmed None es = us" using us(1) by (simp add: inj_map_eq_map)
  then show ?thesis using s us by simp
qed

definition deletion_demo :: "deletion_event list" where
  "deletion_demo = [Click_delete ''b'', Click_cancel, Click_delete ''a'', Click_confirm, Click_delete ''b'',
     Deletion_answered True, Click_confirm]"

lemma deletions_confirmed_witness:
  "del_sent (fold (deletion_step ''/n'') deletion_demo (deletion_init [''a'', ''b'', ''c''])) = [''/n/n-a.json'', ''/n/n-b.json'']"
proof -
  have "all_enabled deletion_enabled (deletion_step ''/n'') deletion_demo (deletion_init [''a'', ''b'', ''c''])" by code_simp
  from deletions_confirmed [OF this] show ?thesis by (simp add: deletion_demo_def destroy_url_def)
qed

text \<open>A deletion that fails: the row is gone from the page, and the notification is still there.\<close>

lemma failed_deletion_hides_row:
  "fold (deletion_step r) [Click_delete ''a'', Click_confirm, Deletion_answered False] (deletion_init [''a'', ''b'']) =
     \<lparr>del_rows = [''b''], del_open = False, del_bound = [], del_sent = [destroy_url r ''a''], del_notes = [Not_deleted]\<rparr>"
  by (simp add: deletion_init_def onDestroy_def actionDestroy_def onHidden_def destroy_model_def)

section \<open>Logging in as a user\<close>

record token_answer =
  ta_token :: string
  ta_user_id :: string
  ta_timestamp :: string

definition token_query :: "string \<Rightarrow> string" where
  "token_query uuid = ''id='' @ uuid"

text \<open>The window that opens when the token is there; nothing when the request failed.\<close>

definition spoofLogin :: "endpoints \<Rightarrow> token_answer option \<Rightarrow> string option" where
  "spoofLogin ep a =
     (case a of
        Some t \<Rightarrow> Some (ep_gui ep @ ''/session/new?token='' @ encodeURIComponent (ta_token t)
                   @ ''&user_id='' @ ta_user_id t @ ''&timestamp='' @ encodeURIComponent (ta_timestamp t))
      | None \<Rightarrow> None)"

text \<open>
  The user site reads the token, the user and the time stamp that the server gave, whatever the
  characters of the token and of the time stamp, for user ids that need no escaping.
\<close>

theorem spoofLogin_reads:
  assumes "plain_value (ta_user_id t)"
  shows "\<exists>q. spoofLogin ep (Some t) = Some (ep_gui ep @ ''/session/new?'' @ q) \<and>
    read_query q = [(''token'', Some (ta_token t)), (''user_id'', Some (ta_user_id t)), (''timestamp'', Some (ta_timestamp t))]"
proof -
  let ?q = "field ''token'' (encodeURIComponent (ta_token t)) @ ''&'' @ field ''user_id'' (ta_user_id t)
    @ ''&'' @ field ''timestamp'' (encodeURIComponent (ta_timestamp t))"
  have "plain_key ''token''" "plain_key ''user_id''" "plain_key ''timestamp''" by (simp_all add: plain_key_def)
  then have "read_query ?q = [(''token'', Some (ta_token t)), (''user_id'', Some (ta_user_id t)), (''timestamp'', Some (ta_timestamp t))]"
    using assms by (simp only: read_query_append) (simp add: js_simps)
  moreover have "spoofLogin ep (Some t) = Some (ep_gui ep @ ''/session/new?'' @ ?q)"
    by (simp add: spoofLogin_def field_def)
  ultimately show ?thesis by blast
qed

lemma spoofLogin_witness:
  "\<exists>q. spoofLogin \<lparr>ep_dcmgr = [], ep_gui = ''/gui''\<rparr> (Some \<lparr>ta_token = ''a+b&c'', ta_user_id = ''u-1'', ta_timestamp = ''2012-06-01 12:00:00 +0900''\<rparr>)
      = Some (''/gui/session/new?'' @ q) \<and>
    read_query q = [(''token'', Some ''a+b&c''), (''user_id'', Some ''u-1''), (''timestamp'', Some ''2012-06-01 12:00:00 +0900'')]"
  using spoofLogin_reads [of "\<lparr>ta_token = ''a+b&c'', ta_user_id = ''u-1'', ta_timestamp = ''2012-06-01 12:00:00 +0900''\<rparr>"
      "\<lparr>ep_dcmgr = [], ep_gui = ''/gui''\<rparr>"] by (simp add: plain_value_def)

section \<open>Messages\<close>

text \<open>
  The options of a message: what the caller gave, then the defaults for what is missing, then the text
  and the type, which override. Objects are association lists.
\<close>

datatype notify_value = N_bool bool | N_fade bool nat | N_message string | N_type string

fun defaults :: "(string \<times> 'v) list \<Rightarrow> (string \<times> 'v) list \<Rightarrow> (string \<times> 'v) list" where
  "defaults obj [] = obj"
| "defaults obj ((k, v) # src) = defaults (if map_of obj k = None then obj_set k v obj else obj) src"

fun extend :: "(string \<times> 'v) list \<Rightarrow> (string \<times> 'v) list \<Rightarrow> (string \<times> 'v) list" where
  "extend obj [] = obj"
| "extend obj ((k, v) # src) = extend (obj_set k v obj) src"

definition notify_options :: "string \<Rightarrow> string \<Rightarrow> (string \<times> notify_value) list \<Rightarrow> (string \<times> notify_value) list" where
  "notify_options kind msg opts =
     extend (defaults opts [(''closable'', N_bool False), (''fadeOut'', N_fade True 2000)])
       [(''message'', N_message msg), (''type'', N_type kind)]"

definition notify_success :: "string \<Rightarrow> (string \<times> notify_value) list \<Rightarrow> (string \<times> notify_value) list" where
  "notify_success = notify_options ''success''"

definition notify_warning :: "string \<Rightarrow> (string \<times> notify_value) list \<Rightarrow> (string \<times> notify_value) list" where
  "notify_warning = notify_options ''warning''"

definition notify_info :: "string \<Rightarrow> (string \<times> notify_value) list \<Rightarrow> (string \<times> notify_value) list" where
  "notify_info = notify_options ''info''"

definition notify_error :: "string \<Rightarrow> (string \<times> notify_value) list \<Rightarrow> (string \<times> notify_value) list" where
  "notify_error = notify_options ''danger''"

lemma map_of_defaults: "map_of (defaults obj src) k = (case map_of obj k of Some v \<Rightarrow> Some v | None \<Rightarrow> map_of src k)"
  by (induction obj src rule: defaults.induct) (auto split: option.splits)

lemma map_of_extend: "map_of (extend obj src) k = (case map_of (rev src) k of Some v \<Rightarrow> Some v | None \<Rightarrow> map_of obj k)"
  by (induction obj src rule: extend.induct) (auto split: option.splits)

text \<open>The text and the type are always the message's own; what the caller set for the rest stays.\<close>

lemma notify_options_lookup:
  "map_of (notify_options kind msg opts) k =
     (if k = ''message'' then Some (N_message msg) else if k = ''type'' then Some (N_type kind)
      else case map_of opts k of Some v \<Rightarrow> Some v
        | None \<Rightarrow> map_of [(''closable'', N_bool False), (''fadeOut'', N_fade True 2000)] k)"
  by (auto simp: notify_options_def map_of_extend map_of_defaults split: option.splits)

end
