(* ===== verification/Lib_Sprintf.thy ===== *)
theory Lib_Sprintf
  imports Core_Request Core_Converter
begin

text \<open>
  \<open>sprintf-0.7-beta1.js\<close>, with which the error handler of the page formats the message of an
  error: the parser of a format, the formatter, and the cache of parsed formats. Numbers are
  integers, and what \<open>toExponential\<close> prints of one is the parameter \<open>expo\<close>. Lengths count
  bytes, so they are the code's for ASCII texts.
\<close>

section \<open>Values\<close>

datatype sval = S_undef | S_null | S_bool bool | S_num int | S_str string | S_obj "(string \<times> sval) list"

fun get_type :: "sval \<Rightarrow> string" where
  "get_type S_undef = ''undefined''"
| "get_type S_null = ''null''"
| "get_type (S_bool b) = ''boolean''"
| "get_type (S_num n) = ''number''"
| "get_type (S_str s) = ''string''"
| "get_type (S_obj ob) = ''object''"

fun sval_str :: "sval \<Rightarrow> string" where
  "sval_str S_undef = ''undefined''"
| "sval_str S_null = ''null''"
| "sval_str (S_bool b) = (if b then ''true'' else ''false'')"
| "sval_str (S_num n) = int_digits n"
| "sval_str (S_str s) = s"
| "sval_str (S_obj ob) = ''[object Object]''"

datatype sprintf_error =
    Huh                         \<comment> \<open>\<open>[sprintf] huh?\<close>\<close>
  | Mixed                       \<comment> \<open>positional and named placeholders\<close>
  | No_property string
  | Expecting_number string     \<comment> \<open>with the type found\<close>
  | Sprintf_type_error          \<comment> \<open>a property of \<open>undefined\<close> or \<open>null\<close>, or a call of what is no function\<close>

text \<open>A property of its own of a value; texts have their length and their characters.\<close>

definition own_property :: "sval \<Rightarrow> string \<Rightarrow> sval option" where
  "own_property v k =
     (case v of
        S_obj ob \<Rightarrow> map_of ob k
      | S_str s \<Rightarrow>
          if k = ''length'' then Some (S_num (int (length s)))
          else if k \<noteq> [] \<and> list_all is_digit k \<and> nat_digits (digits_value 0 k) = k
          then map_option (\<lambda>c. S_str [c]) (nth_opt s (digits_value 0 k)) else None
      | _ \<Rightarrow> None)"

section \<open>Formats\<close>

datatype arg_ref = Implicit | Positional nat | Named "string list"
datatype pad_spec = No_pad | Zero_pad | Pad_with char

record place =
  pl_arg :: arg_ref
  pl_plus :: bool
  pl_pad :: pad_spec
  pl_left :: bool
  pl_width :: "nat option"
  pl_prec :: "nat option"
  pl_conv :: char

datatype node = Text string | Place place

definition percent :: char where "percent = CHR ''%''"

definition conversions :: "char set" where
  "conversions = {CHR ''b'', CHR ''c'', CHR ''d'', CHR ''e'', CHR ''f'', CHR ''o'', CHR ''s'', CHR ''u'', CHR ''x'', CHR ''X''}"

subsection \<open>The parser\<close>

definition ident_start :: "char \<Rightarrow> bool" where
  "ident_start c = (let n = of_char c :: nat in (97 \<le> n \<and> n \<le> 122) \<or> (65 \<le> n \<and> n \<le> 90) \<or> n = 95)"

definition ident_char :: "char \<Rightarrow> bool" where
  "ident_char c = (ident_start c \<or> is_digit c)"

text \<open>The names after the first one: \<open>.name\<close> or \<open>[digits]\<close>, until the text ends.\<close>

function field_rest :: "string \<Rightarrow> sprintf_error + string list" where
  "field_rest [] = Inr []"
| "field_rest (c # s) =
     (let w = takeWhile ident_char s; d = takeWhile is_digit s in
      if c = CHR ''.'' \<and> w \<noteq> [] \<and> ident_start (hd w)
      then (case field_rest (drop (length w) s) of Inl e \<Rightarrow> Inl e | Inr ks \<Rightarrow> Inr (w # ks))
      else if c = CHR ''['' \<and> d \<noteq> [] \<and> take 1 (drop (length d) s) = '']''
      then (case field_rest (drop (Suc (length d)) s) of Inl e \<Rightarrow> Inl e | Inr ks \<Rightarrow> Inr (d # ks))
      else Inl Huh)"
  by pat_completeness auto
termination by (relation "measure length") auto

definition field_list :: "string \<Rightarrow> sprintf_error + string list" where
  "field_list s =
     (let w = takeWhile ident_char s in
      if w \<noteq> [] \<and> ident_start (hd w)
      then (case field_rest (drop (length w) s) of Inl e \<Rightarrow> Inl e | Inr ks \<Rightarrow> Inr (w # ks))
      else Inl Huh)"

text \<open>
  The parts of the placeholder pattern after the percent sign, each greedy: what a part takes
  back could not be matched by a later one, so trying less never helps.
\<close>

datatype raw_arg = Raw_none | Raw_pos nat | Raw_named string

definition arg_part :: "string \<Rightarrow> raw_arg \<times> string" where
  "arg_part s =
     (let d = takeWhile is_digit s in
      if d \<noteq> [] \<and> hd d \<noteq> CHR ''0'' \<and> take 1 (drop (length d) s) = ''$''
      then (Raw_pos (digits_value 0 d), drop (Suc (length d)) s)
      else if take 1 s = ''(''
      then (let n = takeWhile (\<lambda>c. c \<noteq> CHR '')'') (tl s) in
            if n \<noteq> [] \<and> length n < length (tl s) then (Raw_named n, drop (length n + 2) s) else (Raw_none, s))
      else (Raw_none, s))"

definition flag_part :: "char \<Rightarrow> string \<Rightarrow> bool \<times> string" where
  "flag_part c s = (if take 1 s = [c] then (True, tl s) else (False, s))"

definition pad_part :: "string \<Rightarrow> pad_spec \<times> string" where
  "pad_part s =
     (case s of
        c # r \<Rightarrow> if c = CHR ''0'' then (Zero_pad, r)
          else if c = CHR 0x27 then (case r of p # r' \<Rightarrow> if p \<noteq> CHR ''$'' then (Pad_with p, r') else (No_pad, s) | [] \<Rightarrow> (No_pad, s))
          else (No_pad, s)
      | [] \<Rightarrow> (No_pad, s))"

definition number_part :: "string \<Rightarrow> nat option \<times> string" where
  "number_part s =
     (let d = takeWhile is_digit s in if d = [] then (None, s) else (Some (digits_value 0 d), drop (length d) s))"

definition precision_part :: "string \<Rightarrow> nat option \<times> string" where
  "precision_part s =
     (if take 1 s = ''.'' then (case number_part (tl s) of (Some n, r) \<Rightarrow> (Some n, r) | (None, r) \<Rightarrow> (None, s))
      else (None, s))"

definition place_part :: "string \<Rightarrow> (raw_arg \<times> place \<times> string) option" where
  "place_part s =
     (let (a, s1) = arg_part s; (plus, s2) = flag_part (CHR ''+'') s1; (pad, s3) = pad_part s2;
          (left, s4) = flag_part (CHR ''-'') s3; (w, s5) = number_part s4; (p, s6) = precision_part s5
      in case s6 of
           [] \<Rightarrow> None
         | c # r \<Rightarrow> if c \<in> conversions
             then Some (a, \<lparr>pl_arg = Implicit, pl_plus = plus, pl_pad = pad, pl_left = left, pl_width = w,
                            pl_prec = p, pl_conv = c\<rparr>, r)
             else None)"

lemma part_lengths:
  "arg_part s = (a, r) \<Longrightarrow> length r \<le> length s"
  "flag_part c s = (b, r) \<Longrightarrow> length r \<le> length s"
  "pad_part s = (p, r) \<Longrightarrow> length r \<le> length s"
  "number_part s = (n, r) \<Longrightarrow> length r \<le> length s"
  "precision_part s = (m, r) \<Longrightarrow> length r \<le> length s"
  by (auto simp: arg_part_def flag_part_def pad_part_def number_part_def precision_part_def Let_def
      split: if_splits list.splits prod.splits option.splits)

lemma place_part_length: "place_part s = Some (a, p, r) \<Longrightarrow> length r < length s"
  by (auto simp: place_part_def Let_def split: prod.splits list.splits if_splits dest!: part_lengths)

text \<open>The kinds of arguments seen so far, as the two bits of \<open>arg_names\<close>.\<close>

type_synonym seen = "bool \<times> bool"

function parse_format :: "seen \<Rightarrow> string \<Rightarrow> sprintf_error + node list" where
  "parse_format seen [] = Inr []"
| "parse_format seen (c # s) =
     (if c \<noteq> percent
      then (case parse_format seen (dropWhile (\<lambda>c. c \<noteq> percent) s) of
              Inl e \<Rightarrow> Inl e | Inr t \<Rightarrow> Inr (Text (c # takeWhile (\<lambda>c. c \<noteq> percent) s) # t))
      else if take 1 s = [percent]
      then (case parse_format seen (tl s) of Inl e \<Rightarrow> Inl e | Inr t \<Rightarrow> Inr (Text [percent] # t))
      else (case place_part s of
              None \<Rightarrow> Inl Huh
            | Some (a, p, r) \<Rightarrow>
                (case (case a of Raw_none \<Rightarrow> Inr Implicit | Raw_pos n \<Rightarrow> Inr (Positional n)
                       | Raw_named f \<Rightarrow> (case field_list f of Inl e \<Rightarrow> Inl e | Inr ks \<Rightarrow> Inr (Named ks))) of
                   Inl e \<Rightarrow> Inl e
                 | Inr ref \<Rightarrow>
                     let seen' = (case ref of Named _ \<Rightarrow> (True, snd seen) | _ \<Rightarrow> (fst seen, True)) in
                     if seen' = (True, True) then Inl Mixed
                     else (case parse_format seen' r of Inl e \<Rightarrow> Inl e
                           | Inr t \<Rightarrow> Inr (Place (p\<lparr>pl_arg := ref\<rparr>) # t)))))"
  by pat_completeness auto
termination
  by (relation "measure (\<lambda>(seen, s). length s)")
    (auto simp: less_Suc_eq_le length_dropWhile_le dest: place_part_length)

definition sprintf_parse :: "string \<Rightarrow> sprintf_error + node list" where
  "sprintf_parse fmt = parse_format (False, False) fmt"

subsection \<open>The formatter\<close>

text \<open>\<open>toString\<close> of a number in a base.\<close>

definition digit_low :: "nat \<Rightarrow> char" where
  "digit_low d = (if d < 10 then char_of (48 + d) else char_of (87 + d))"

function base_digits :: "nat \<Rightarrow> nat \<Rightarrow> string" where
  "base_digits b n = (if b < 2 \<or> n < b then [digit_low n] else base_digits b (n div b) @ [digit_low (n mod b)])"
  by pat_completeness auto
termination by (relation "measure snd") auto

declare base_digits.simps [simp del]

definition to_base :: "nat \<Rightarrow> int \<Rightarrow> string" where
  "to_base b i = (if i < 0 then ''-'' @ base_digits b (nat (- i)) else base_digits b (nat i))"

text \<open>\<open>String.fromCharCode\<close>, in UTF-8.\<close>

definition fromCharCode :: "int \<Rightarrow> string" where
  "fromCharCode i =
     (let u = nat (i mod 65536) in
      if u < 128 then [char_of u]
      else if u < 2048 then [char_of (192 + u div 64), char_of (128 + u mod 64)]
      else [char_of (224 + u div 4096), char_of (128 + u div 64 mod 64), char_of (128 + u mod 64)])"

definition toFixed :: "int \<Rightarrow> nat \<Rightarrow> string" where
  "toFixed i p = int_digits i @ (if p = 0 then [] else ''.'' @ replicate p (CHR ''0''))"

text \<open>The text of an argument under a conversion.\<close>

definition convert_arg :: "(int \<Rightarrow> nat option \<Rightarrow> string) \<Rightarrow> place \<Rightarrow> sval \<Rightarrow> sprintf_error + string" where
  "convert_arg expo p v =
     (if pl_conv p = CHR ''s''
      then Inr (case pl_prec p of Some n \<Rightarrow> take n (sval_str v) | None \<Rightarrow> sval_str v)
      else case v of
        S_num i \<Rightarrow>
          let c = pl_conv p;
              t = (if c = CHR ''b'' then to_base 2 i
                   else if c = CHR ''c'' then fromCharCode i
                   else if c = CHR ''d'' then int_digits i
                   else if c = CHR ''e'' then expo i (pl_prec p)
                   else if c = CHR ''f'' then (case pl_prec p of Some n \<Rightarrow> toFixed i n | None \<Rightarrow> int_digits i)
                   else if c = CHR ''o'' then to_base 8 i
                   else if c = CHR ''u'' then int_digits \<bar>i\<bar>
                   else if c = CHR ''x'' then to_base 16 i
                   else to_upper (to_base 16 i))
          in Inr (if c \<in> {CHR ''d'', CHR ''e'', CHR ''f''} \<and> pl_plus p \<and> i \<ge> 0 then ''+'' @ t else t)
      | _ \<Rightarrow> Inl (Expecting_number (get_type v)))"

definition pad_char :: "pad_spec \<Rightarrow> char" where
  "pad_char s = (case s of No_pad \<Rightarrow> CHR '' '' | Zero_pad \<Rightarrow> CHR ''0'' | Pad_with c \<Rightarrow> c)"

definition pad_arg :: "place \<Rightarrow> string \<Rightarrow> string" where
  "pad_arg p t =
     (let pad = (case pl_width p of Some w \<Rightarrow> replicate (w - length t) (pad_char (pl_pad p)) | None \<Rightarrow> [])
      in if pl_left p then t @ pad else pad @ t)"

text \<open>The value of a placeholder, and the next implicit argument. \<open>argv\<close> starts with the format.\<close>

fun follow_keys :: "sval \<Rightarrow> string list \<Rightarrow> sprintf_error + sval" where
  "follow_keys v [] = Inr v"
| "follow_keys v (k # ks) =
     (if v = S_undef \<or> v = S_null then Inl Sprintf_type_error
      else case own_property v k of None \<Rightarrow> Inl (No_property k) | Some v' \<Rightarrow> follow_keys v' ks)"

definition arg_at :: "sval list \<Rightarrow> nat \<Rightarrow> sval" where
  "arg_at argv i = (case nth_opt argv i of Some v \<Rightarrow> v | None \<Rightarrow> S_undef)"

definition place_value :: "sval list \<Rightarrow> nat \<Rightarrow> arg_ref \<Rightarrow> (sprintf_error + sval) \<times> nat" where
  "place_value argv cursor ref =
     (case ref of
        Named ks \<Rightarrow> (follow_keys (arg_at argv cursor) ks, cursor)
      | Positional n \<Rightarrow> (Inr (arg_at argv n), cursor)
      | Implicit \<Rightarrow> (Inr (arg_at argv cursor), Suc cursor))"

fun format_nodes :: "(int \<Rightarrow> nat option \<Rightarrow> string) \<Rightarrow> sval list \<Rightarrow> nat \<Rightarrow> node list \<Rightarrow> sprintf_error + string" where
  "format_nodes expo argv cursor [] = Inr []"
| "format_nodes expo argv cursor (Text t # ns) =
     (case format_nodes expo argv cursor ns of Inl e \<Rightarrow> Inl e | Inr r \<Rightarrow> Inr (t @ r))"
| "format_nodes expo argv cursor (Place p # ns) =
     (case place_value argv cursor (pl_arg p) of
        (Inl e, _) \<Rightarrow> Inl e
      | (Inr v, cursor') \<Rightarrow>
          (case convert_arg expo p v of
             Inl e \<Rightarrow> Inl e
           | Inr t \<Rightarrow> (case format_nodes expo argv cursor' ns of Inl e \<Rightarrow> Inl e | Inr r \<Rightarrow> Inr (pad_arg p t @ r))))"

subsection \<open>The function and its cache\<close>

definition sprintf :: "(int \<Rightarrow> nat option \<Rightarrow> string) \<Rightarrow> string \<Rightarrow> sval list \<Rightarrow> sprintf_error + string" where
  "sprintf expo fmt args =
     (case sprintf_parse fmt of Inl e \<Rightarrow> Inl e | Inr ns \<Rightarrow> format_nodes expo (S_str fmt # args) 1 ns)"

text \<open>
  The cache is an object with the formats as its properties. The format \<open>hasOwnProperty\<close> takes the place of the
  method that the function asks it with: every later call throws.
\<close>

type_synonym format_cache = "(string \<times> node list) list"

definition sprintf_cached ::
  "(int \<Rightarrow> nat option \<Rightarrow> string) \<Rightarrow> string \<Rightarrow> sval list \<Rightarrow> format_cache \<Rightarrow> (sprintf_error + string) \<times> format_cache" where
  "sprintf_cached expo fmt args cache0 =
     (if map_of cache0 ''hasOwnProperty'' \<noteq> None then (Inl Sprintf_type_error, cache0)
      else case map_of cache0 fmt of
        Some ns \<Rightarrow> (format_nodes expo (S_str fmt # args) 1 ns, cache0)
      | None \<Rightarrow>
          (case sprintf_parse fmt of
             Inl e \<Rightarrow> (Inl e, cache0)
           | Inr ns \<Rightarrow> (format_nodes expo (S_str fmt # args) 1 ns, obj_set fmt ns cache0)))"

definition vsprintf :: "(int \<Rightarrow> nat option \<Rightarrow> string) \<Rightarrow> string \<Rightarrow> sval list \<Rightarrow> sprintf_error + string" where
  "vsprintf expo fmt argv = sprintf expo fmt argv"

section \<open>Escaped texts\<close>

definition escape :: "string \<Rightarrow> string" where
  "escape s = concat (map (\<lambda>c. if c = percent then [percent, percent] else [c]) s)"

lemma escape_simps [simp]:
  "escape [] = []" "escape (c # s) = (if c = percent then [percent, percent] else [c]) @ escape s"
  by (simp_all add: escape_def)

lemma escape_plain: "percent \<notin> set s \<Longrightarrow> escape (s @ t) = s @ escape t"
  by (induction s) auto

lemma escape_split:
  obtains a t where "s = a @ t" "percent \<notin> set a" "t = [] \<or> hd t = percent" "escape s = a @ escape t"
proof (rule that)
  show "s = takeWhile (\<lambda>c. c \<noteq> percent) s @ dropWhile (\<lambda>c. c \<noteq> percent) s" by simp
  show n: "percent \<notin> set (takeWhile (\<lambda>c. c \<noteq> percent) s)" by (auto dest: set_takeWhileD)
  show "dropWhile (\<lambda>c. c \<noteq> percent) s = [] \<or> hd (dropWhile (\<lambda>c. c \<noteq> percent) s) = percent"
    using hd_dropWhile [of "\<lambda>c. c \<noteq> percent" s] by auto
  show "escape s = takeWhile (\<lambda>c. c \<noteq> percent) s @ escape (dropWhile (\<lambda>c. c \<noteq> percent) s)"
    using escape_plain [OF n, of "dropWhile (\<lambda>c. c \<noteq> percent) s"] by simp
qed

fun node_text :: "node \<Rightarrow> string" where
  "node_text (Text t) = t"
| "node_text (Place p) = []"

fun is_text :: "node \<Rightarrow> bool" where
  "is_text (Text t) = True"
| "is_text (Place p) = False"

lemma format_texts: "list_all is_text ns \<Longrightarrow> format_nodes expo argv k ns = Inr (concat (map node_text ns))"
proof (induction ns)
  case (Cons n ns)
  then show ?case by (cases n) simp_all
qed simp

lemma parse_escape: "\<exists>ns. parse_format seen (escape s) = Inr ns \<and> list_all is_text ns \<and> concat (map node_text ns) = s"
proof (induction "length s" arbitrary: s rule: less_induct)
  case less
  obtain a t where at: "s = a @ t" "percent \<notin> set a" "t = [] \<or> hd t = percent" "escape s = a @ escape t"
    by (rule escape_split)
  show ?case
  proof (cases s)
    case Nil
    then show ?thesis by simp
  next
    case (Cons c s')
    show ?thesis
    proof (cases "c = percent")
      case True
      obtain ns where "parse_format seen (escape s') = Inr ns" "list_all is_text ns" "concat (map node_text ns) = s'"
        using less [of s'] Cons by auto
      then show ?thesis using Cons True by simp
    next
      case False
      with at Cons obtain a' where a': "a = c # a'" by (cases a) auto
      have tw: "takeWhile (\<lambda>c. c \<noteq> percent) (a' @ escape t) = a'" "dropWhile (\<lambda>c. c \<noteq> percent) (a' @ escape t) = escape t"
        using at a' by (cases t; auto simp: takeWhile_append dropWhile_append)+
      obtain ns where "parse_format seen (escape t) = Inr ns" "list_all is_text ns" "concat (map node_text ns) = t"
        using less [of t] at(1) a' by auto
      then show ?thesis using at a' False tw by simp
    qed
  qed
qed

text \<open>
  A text whose percent signs are doubled is printed as it is, whatever the arguments.
\<close>

theorem sprintf_escape: "sprintf expo (escape s) args = Inr s"
  using parse_escape [of "(False, False)" s] by (auto simp: sprintf_def sprintf_parse_def format_texts)

section \<open>The cache\<close>

definition cache_ok :: "format_cache \<Rightarrow> bool" where
  "cache_ok ca = (\<forall>f ns. map_of ca f = Some ns \<longrightarrow> sprintf_parse f = Inr ns \<and> f \<noteq> ''hasOwnProperty'')"

fun sprintf_calls :: "(int \<Rightarrow> nat option \<Rightarrow> string) \<Rightarrow> (string \<times> sval list) list \<Rightarrow> format_cache \<Rightarrow> (sprintf_error + string) list" where
  "sprintf_calls expo [] ca = []"
| "sprintf_calls expo ((fmt, args) # cs) ca =
     (case sprintf_cached expo fmt args ca of (r, ca') \<Rightarrow> r # sprintf_calls expo cs ca')"

lemma cached_step:
  assumes "cache_ok ca"
  shows "fst (sprintf_cached expo fmt args ca) = sprintf expo fmt args"
    and "fmt \<noteq> ''hasOwnProperty'' \<Longrightarrow> cache_ok (snd (sprintf_cached expo fmt args ca))"
proof -
  have n: "map_of ca ''hasOwnProperty'' = None" using assms by (cases "map_of ca ''hasOwnProperty''") (auto simp: cache_ok_def)
  show "fst (sprintf_cached expo fmt args ca) = sprintf expo fmt args"
    using assms n by (auto simp: sprintf_cached_def sprintf_def cache_ok_def split: option.splits sum.splits)
  show "fmt \<noteq> ''hasOwnProperty'' \<Longrightarrow> cache_ok (snd (sprintf_cached expo fmt args ca))"
    using assms n by (auto simp: sprintf_cached_def cache_ok_def split: option.splits sum.splits)
qed

text \<open>
  A sequence of calls that share the cache gives what the calls give without it, as long as no format is
  \<open>hasOwnProperty\<close>.
\<close>

lemma cached_calls:
  "cache_ok ca \<Longrightarrow> list_all (\<lambda>(fmt, args). fmt \<noteq> ''hasOwnProperty'') cs
     \<Longrightarrow> sprintf_calls expo cs ca = map (\<lambda>(fmt, args). sprintf expo fmt args) cs"
proof (induction cs arbitrary: ca)
  case (Cons c cs)
  obtain fmt args where c: "c = (fmt, args)" by fastforce
  obtain r ca' where r: "sprintf_cached expo fmt args ca = (r, ca')" by fastforce
  then show ?case using cached_step(1) [OF Cons.prems(1), where expo = expo and fmt = fmt and args = args]
      cached_step(2) [OF Cons.prems(1), where expo = expo and fmt = fmt and args = args] Cons.IH [of ca'] Cons.prems(2)
    by (simp add: c)
qed simp

text \<open>After that format, every call throws.\<close>

lemma cache_overwritten:
  assumes "cache_ok ca"
  shows "sprintf_calls expo ((''hasOwnProperty'', args) # cs) ca
    = Inr ''hasOwnProperty'' # map (\<lambda>_. Inl Sprintf_type_error) cs"
proof -
  have n: "map_of ca ''hasOwnProperty'' = None" using assms by (cases "map_of ca ''hasOwnProperty''") (auto simp: cache_ok_def)
  have p: "sprintf_parse ''hasOwnProperty'' = Inr [Text ''hasOwnProperty'']" by code_simp
  obtain ca' where s: "sprintf_cached expo ''hasOwnProperty'' args ca = (Inr ''hasOwnProperty'', ca')"
      "map_of ca' ''hasOwnProperty'' \<noteq> None"
    using n by (simp add: sprintf_cached_def p)
  have "sprintf_calls expo cs ca' = map (\<lambda>_. Inl Sprintf_type_error) cs"
    using s(2) by (induction cs) (auto simp: sprintf_cached_def)
  with s(1) show ?thesis by simp
qed

section \<open>Formats printed and parsed\<close>

definition is_ident :: "string \<Rightarrow> bool" where
  "is_ident k = (k \<noteq> [] \<and> ident_start (hd k) \<and> list_all ident_char k)"

definition is_index :: "string \<Rightarrow> bool" where
  "is_index k = (k \<noteq> [] \<and> list_all is_digit k)"

definition key_text :: "string \<Rightarrow> string" where
  "key_text k = (if is_ident k then ''.'' @ k else ''['' @ k @ '']'')"

fun keys_text :: "string list \<Rightarrow> string" where
  "keys_text [] = []"
| "keys_text (k # ks) = k @ concat (map key_text ks)"

fun arg_text :: "arg_ref \<Rightarrow> string" where
  "arg_text Implicit = []"
| "arg_text (Positional n) = nat_digits n @ ''$''"
| "arg_text (Named ks) = ''('' @ keys_text ks @ '')''"

fun pad_text :: "pad_spec \<Rightarrow> string" where
  "pad_text No_pad = []"
| "pad_text Zero_pad = ''0''"
| "pad_text (Pad_with c) = [CHR 0x27, c]"

definition place_text :: "place \<Rightarrow> string" where
  "place_text p =
     [percent] @ arg_text (pl_arg p) @ (if pl_plus p then ''+'' else []) @ pad_text (pl_pad p) @ (if pl_left p then ''-'' else [])
     @ (case pl_width p of Some w \<Rightarrow> nat_digits w | None \<Rightarrow> [])
     @ (case pl_prec p of Some n \<Rightarrow> ''.'' @ nat_digits n | None \<Rightarrow> []) @ [pl_conv p]"

fun format_text :: "node list \<Rightarrow> string" where
  "format_text [] = []"
| "format_text (Text t # ns) = (if t = [percent] then [percent, percent] else t) @ format_text ns"
| "format_text (Place p # ns) = place_text p @ format_text ns"

fun arg_wf :: "arg_ref \<Rightarrow> bool" where
  "arg_wf Implicit = True"
| "arg_wf (Positional n) = (0 < n)"
| "arg_wf (Named ks) = (ks \<noteq> [] \<and> is_ident (hd ks) \<and> list_all (\<lambda>k. is_ident k \<or> is_index k) (tl ks))"

text \<open>A width of zero needs a sign or a padding before it: alone it reads as zero padding.\<close>

definition place_wf :: "place \<Rightarrow> bool" where
  "place_wf p =
     (arg_wf (pl_arg p) \<and> pl_pad p \<noteq> Pad_with (CHR ''$'') \<and> pl_conv p \<in> conversions \<and>
      (pl_width p = Some 0 \<longrightarrow> pl_pad p \<noteq> No_pad \<or> pl_left p))"

fun nodes_wf :: "node list \<Rightarrow> bool" where
  "nodes_wf [] = True"
| "nodes_wf (Text t # ns) =
     ((t = [percent] \<or> (t \<noteq> [] \<and> percent \<notin> set t \<and> (case ns of Text u # _ \<Rightarrow> u = [percent] | _ \<Rightarrow> True))) \<and> nodes_wf ns)"
| "nodes_wf (Place p # ns) = (place_wf p \<and> nodes_wf ns)"

fun is_named :: "node \<Rightarrow> bool" where
  "is_named (Place p) = (case pl_arg p of Named _ \<Rightarrow> True | _ \<Rightarrow> False)"
| "is_named (Text t) = False"

fun is_numbered :: "node \<Rightarrow> bool" where
  "is_numbered (Place p) = (case pl_arg p of Named _ \<Rightarrow> False | _ \<Rightarrow> True)"
| "is_numbered (Text t) = False"

text \<open>What a text starts with.\<close>

definition starts :: "(char \<Rightarrow> bool) \<Rightarrow> string \<Rightarrow> bool" where
  "starts P s = (s \<noteq> [] \<and> P (hd s))"

lemma starts_simps [simp]: "starts P [] = False" "starts P (c # s) = P c"
  by (simp_all add: starts_def)

lemma starts_digits [simp]: "starts P (nat_digits n @ s) = P (hd (nat_digits n))"
  by (simp add: starts_def)

lemma take_1: "take (Suc 0) s = [c] \<longleftrightarrow> starts (\<lambda>x. x = c) s"
  by (cases s) simp_all

lemma takeWhile_until: "list_all P w \<Longrightarrow> \<not> starts P s \<Longrightarrow> takeWhile P (w @ s) = w"
  by (induction w) (cases s; simp)+

lemma number_part_text:
  "\<not> starts is_digit s \<Longrightarrow> number_part ((case w of Some n \<Rightarrow> nat_digits n | None \<Rightarrow> []) @ s) = (w, s)"
proof (cases w)
  case None
  assume "\<not> starts is_digit s"
  then have "takeWhile is_digit s = []" using takeWhile_until [of is_digit "[]" s] by simp
  then show ?thesis using None by (simp add: number_part_def)
next
  case (Some n)
  assume "\<not> starts is_digit s"
  then have "takeWhile is_digit (nat_digits n @ s) = nat_digits n"
    using nat_digits_all by (intro takeWhile_until) (simp_all add: list_all_iff del: not_None_eq)
  then show ?thesis using Some by (simp add: number_part_def)
qed

lemma conversion_char: "c \<in> conversions \<Longrightarrow> \<not> is_digit c \<and> c \<noteq> CHR ''.'' \<and> c \<noteq> CHR ''('' \<and> c \<noteq> CHR ''$'' \<and> c \<noteq> CHR ''0''
    \<and> c \<noteq> CHR ''+'' \<and> c \<noteq> CHR ''-'' \<and> c \<noteq> CHR 0x27"
  by (auto simp: conversions_def digit_value_def)

lemma precision_part_text:
  assumes "c \<in> conversions"
  shows "precision_part ((case p of Some n \<Rightarrow> ''.'' @ nat_digits n | None \<Rightarrow> []) @ c # r) = (p, c # r)"
  using conversion_char [OF assms] number_part_text [of "c # r" p]
  by (cases p) (simp_all add: precision_part_def)

lemma flag_part_text: "\<not> starts (\<lambda>x. x = c) s \<Longrightarrow> flag_part c ((if b then [c] else []) @ s) = (b, s)"
  by (cases s) (auto simp: flag_part_def)


lemma pad_part_text:
  assumes "pd \<noteq> Pad_with (CHR ''$'')" and "pd = No_pad \<Longrightarrow> \<not> starts (\<lambda>c. c = CHR ''0'' \<or> c = CHR 0x27) s"
  shows "pad_part (pad_text pd @ s) = (pd, s)"
  using assms by (cases pd) (auto simp: pad_part_def split: list.splits)

lemma hd_digits: "is_digit (hd (nat_digits n))"
  using nat_digits_all [of "hd (nat_digits n)" n] by simp

lemma hd_digits_zero: "0 < n \<Longrightarrow> hd (nat_digits n) \<noteq> CHR ''0''"
proof (induction n rule: nat_digits.induct)
  case (1 n)
  show ?case
  proof (cases "n < 10")
    case True
    then have "digit_value (hd (nat_digits n)) = Some n" by (simp add: nat_digits.simps [of n])
    then show ?thesis using 1(2) by (auto simp: digit_value_def)
  next
    case False
    then have "hd (nat_digits n) = hd (nat_digits (n div 10))" by (simp add: nat_digits.simps [of n])
    then show ?thesis using 1 False by simp
  qed
qed

lemma digit_chars: "is_digit c \<Longrightarrow> c \<noteq> CHR ''.'' \<and> c \<noteq> CHR ''('' \<and> c \<noteq> CHR ''$'' \<and> c \<noteq> CHR ''+'' \<and> c \<noteq> CHR ''-'' \<and> c \<noteq> CHR '')''
    \<and> c \<noteq> CHR '']'' \<and> c \<noteq> CHR ''['' \<and> c \<noteq> CHR 0x27"
  by (auto simp: digit_value_def)

text \<open>The text of a placeholder from its flags on.\<close>

definition tail_text :: "place \<Rightarrow> string \<Rightarrow> string" where
  "tail_text p r =
     (if pl_plus p then ''+'' else []) @ pad_text (pl_pad p) @ (if pl_left p then ''-'' else [])
     @ (case pl_width p of Some w \<Rightarrow> nat_digits w | None \<Rightarrow> [])
     @ (case pl_prec p of Some n \<Rightarrow> ''.'' @ nat_digits n | None \<Rightarrow> []) @ pl_conv p # r"

lemma not_starts_conv:
  assumes "c \<in> conversions" "\<And>k. k \<in> conversions \<Longrightarrow> \<not> P k" "\<not> P (CHR ''.'')"
  shows "\<not> starts P ((case q of Some n \<Rightarrow> ''.'' @ nat_digits n | None \<Rightarrow> []) @ c # r)"
  using assms by (cases q) auto

lemma tail_parts:
  fixes p :: place and r :: string
  assumes "place_wf p"
  defines "s6 \<equiv> pl_conv p # r"
  defines "s5 \<equiv> (case pl_prec p of Some n \<Rightarrow> ''.'' @ nat_digits n | None \<Rightarrow> []) @ s6"
  defines "s4 \<equiv> (case pl_width p of Some w \<Rightarrow> nat_digits w | None \<Rightarrow> []) @ s5"
  defines "s3 \<equiv> (if pl_left p then ''-'' else []) @ s4"
  defines "s2 \<equiv> pad_text (pl_pad p) @ s3"
  shows "flag_part (CHR ''+'') (tail_text p r) = (pl_plus p, s2)" "pad_part s2 = (pl_pad p, s3)"
    "flag_part (CHR ''-'') s3 = (pl_left p, s4)" "number_part s4 = (pl_width p, s5)" "precision_part s5 = (pl_prec p, s6)"
proof -
  have c: "pl_conv p \<in> conversions" using assms(1) by (simp add: place_wf_def)
  note cc = conversion_char [OF c]
  show "precision_part s5 = (pl_prec p, s6)" unfolding s5_def s6_def by (rule precision_part_text [OF c])
  have n5: "\<not> starts is_digit s5" unfolding s5_def s6_def
    by (rule not_starts_conv [OF c]) (auto dest: conversion_char simp: digit_value_def)
  then show "number_part s4 = (pl_width p, s5)" unfolding s4_def by (rule number_part_text)
  have minus: "\<not> starts (\<lambda>x. x = CHR ''-'') s4"
    using n5 not_starts_conv [OF c, of "\<lambda>x. x = CHR ''-''" "pl_prec p" r] digit_chars [OF hd_digits]
    by (cases "pl_width p") (auto simp: s4_def s5_def s6_def dest: conversion_char)
  then show "flag_part (CHR ''-'') s3 = (pl_left p, s4)"
    unfolding s3_def using flag_part_text [of "CHR ''-''" s4 "pl_left p"] by simp
  have pad: "\<not> starts (\<lambda>c. c = CHR ''0'' \<or> c = CHR 0x27) s3" if "pl_pad p = No_pad"
  proof (cases "pl_left p")
    case True
    then show ?thesis by (simp add: s3_def)
  next
    case False
    then have "pl_width p \<noteq> Some 0" using assms(1) that by (auto simp: place_wf_def)
    then show ?thesis
      using False not_starts_conv [OF c, of "\<lambda>c. c = CHR ''0'' \<or> c = CHR 0x27" "pl_prec p" r]
        digit_chars [OF hd_digits] hd_digits_zero
      by (cases "pl_width p") (auto simp: s3_def s4_def s5_def s6_def dest: conversion_char)
  qed
  show "pad_part s2 = (pl_pad p, s3)"
    unfolding s2_def by (rule pad_part_text) (use assms(1) pad in \<open>auto simp: place_wf_def\<close>)
  have "\<not> starts (\<lambda>x. x = CHR ''+'') s2"
  proof (cases "pl_pad p = No_pad")
    case True
    then show ?thesis
      using not_starts_conv [OF c, of "\<lambda>x. x = CHR ''+''" "pl_prec p" r] digit_chars [OF hd_digits]
      by (cases "pl_width p") (auto simp: s2_def s3_def s4_def s5_def s6_def dest: conversion_char)
  next
    case False
    then show ?thesis by (cases "pl_pad p") (auto simp: s2_def)
  qed
  then show "flag_part (CHR ''+'') (tail_text p r) = (pl_plus p, s2)"
    using flag_part_text [of "CHR ''+''" s2 "pl_plus p"]
    by (simp add: tail_text_def s2_def s3_def s4_def s5_def s6_def)
qed

text \<open>The keys of a named placeholder.\<close>

lemma ident_chars: "ident_char c \<Longrightarrow> c \<noteq> CHR '')'' \<and> c \<noteq> CHR ''.'' \<and> c \<noteq> CHR ''[''"
  by (auto simp: ident_char_def ident_start_def digit_value_def)

lemma index_not_ident: "is_index k \<Longrightarrow> \<not> is_ident k"
  by (cases k) (auto simp: is_index_def is_ident_def ident_start_def digit_value_def Let_def split: if_splits)

lemma keys_start: "\<not> starts ident_char (concat (map key_text ks))"
  by (cases ks) (auto simp: key_text_def dest: ident_chars)

lemma field_rest_text:
  "list_all (\<lambda>k. is_ident k \<or> is_index k) ks \<Longrightarrow> field_rest (concat (map key_text ks)) = Inr ks"
proof (induction ks)
  case (Cons k ks)
  have IH: "field_rest (concat (map key_text ks)) = Inr ks" using Cons by simp
  show ?case
  proof (cases "is_ident k")
    case True
    then have "takeWhile ident_char (k @ concat (map key_text ks)) = k"
      by (intro takeWhile_until keys_start) (simp add: is_ident_def)
    moreover have "key_text k = ''.'' @ k" using True by (simp add: key_text_def)
    ultimately show ?thesis using True IH by (simp add: is_ident_def)
  next
    case False
    then have i: "is_index k" and kt: "key_text k = ''['' @ k @ '']''" using Cons by (simp_all add: key_text_def)
    have "takeWhile is_digit (k @ '']'' @ concat (map key_text ks)) = k"
      using i by (intro takeWhile_until) (simp_all add: is_index_def digit_value_def)
    then show ?thesis using i IH by (simp add: kt is_index_def)
  qed
qed simp

lemma field_list_text: "arg_wf (Named ks) \<Longrightarrow> field_list (keys_text ks) = Inr ks"
proof (cases ks)
  case (Cons k ks')
  assume "arg_wf (Named ks)"
  then have k: "is_ident k" "list_all (\<lambda>k. is_ident k \<or> is_index k) ks'" using Cons by simp_all
  then have "takeWhile ident_char (k @ concat (map key_text ks')) = k"
    by (intro takeWhile_until keys_start) (simp add: is_ident_def)
  then show ?thesis using Cons k field_rest_text [OF k(2)] by (simp add: field_list_def is_ident_def)
qed simp

lemma keys_no_paren: "arg_wf (Named ks) \<Longrightarrow> list_all (\<lambda>c. c \<noteq> CHR '')'') (keys_text ks) \<and> keys_text ks \<noteq> []"
proof (cases ks)
  case (Cons k ks')
  assume "arg_wf (Named ks)"
  then have k: "is_ident k" "list_all (\<lambda>k. is_ident k \<or> is_index k) ks'" using Cons by simp_all
  have w: "list_all (\<lambda>c. c \<noteq> CHR '')'') k" if "is_ident k \<or> is_index k" for k
    using that ident_chars [of "CHR '')''"] digit_chars [of "CHR '')''"]
    by (auto simp: is_ident_def is_index_def list_all_iff simp del: not_None_eq)
  have "list_all (\<lambda>c. c \<noteq> CHR '')'') (concat (map key_text ks'))"
    using k(2) w by (induction ks') (auto simp: key_text_def)
  then show ?thesis using Cons k(1) w [of k] by (simp add: is_ident_def)
qed simp

fun raw_of :: "arg_ref \<Rightarrow> raw_arg" where
  "raw_of Implicit = Raw_none"
| "raw_of (Positional n) = Raw_pos n"
| "raw_of (Named ks) = Raw_named (keys_text ks)"

lemma takeWhile_digits: "\<not> starts is_digit s \<Longrightarrow> takeWhile is_digit (nat_digits n @ s) = nat_digits n"
  using nat_digits_all by (intro takeWhile_until) (simp_all add: list_all_iff del: not_None_eq)

text \<open>Nothing in the tail of a placeholder looks like a reference to an argument.\<close>

lemma tail_no_arg:
  assumes "place_wf p"
  shows "arg_part (tail_text p r) = (Raw_none, tail_text p r)"
proof -
  have c: "pl_conv p \<in> conversions" using assms by (simp add: place_wf_def)
  let ?s5 = "(case pl_prec p of Some n \<Rightarrow> ''.'' @ nat_digits n | None \<Rightarrow> []) @ pl_conv p # r"
  have n5: "\<not> starts is_digit ?s5" "\<not> starts (\<lambda>c. c = CHR ''('' \<or> c = CHR ''$'') ?s5"
    by (rule not_starts_conv [OF c]; auto dest: conversion_char simp: digit_value_def)+
  have paren: "\<not> starts (\<lambda>c. c = CHR ''('') (tail_text p r)"
    using n5(2) digit_chars [OF hd_digits]
    by (cases "pl_pad p"; cases "pl_width p") (auto simp: tail_text_def starts_def)
  show ?thesis
  proof (cases "\<exists>w. \<not> pl_plus p \<and> pl_pad p = No_pad \<and> \<not> pl_left p \<and> pl_width p = Some w")
    case True
    then obtain w where w: "tail_text p r = nat_digits w @ ?s5" by (auto simp: tail_text_def)
    have "\<not> starts (\<lambda>c. c = CHR ''$'') ?s5" using n5(2) by (auto simp: starts_def)
    moreover have "takeWhile is_digit (tail_text p r) = nat_digits w" "drop (length (nat_digits w)) (tail_text p r) = ?s5"
      unfolding w using takeWhile_digits [OF n5(1)] by simp_all
    ultimately show ?thesis using paren by (simp add: arg_part_def take_1 del: not_None_eq)
  next
    case False
    have "\<not> starts (\<lambda>c. is_digit c \<and> c \<noteq> CHR ''0'') (tail_text p r)"
      using False n5(1) by (cases "pl_pad p"; cases "pl_width p") (auto simp: tail_text_def digit_value_def starts_def)
    then have "takeWhile is_digit (tail_text p r) = [] \<or> hd (takeWhile is_digit (tail_text p r)) = CHR ''0''"
      by (cases "tail_text p r") auto
    moreover have "take 1 (tail_text p r) \<noteq> ''(''" using paren by (cases "tail_text p r") auto
    ultimately show ?thesis by (auto simp: arg_part_def Let_def)
  qed
qed

lemma arg_part_text:
  assumes "place_wf p"
  shows "arg_part (arg_text (pl_arg p) @ tail_text p r) = (raw_of (pl_arg p), tail_text p r)"
proof (cases "pl_arg p")
  case Implicit
  then show ?thesis using tail_no_arg [OF assms] by simp
next
  case (Positional n)
  then have "0 < n" using assms by (simp add: place_wf_def)
  moreover have "takeWhile is_digit (nat_digits n @ ''$'' @ tail_text p r) = nat_digits n"
    by (rule takeWhile_digits) (simp add: digit_value_def)
  ultimately show ?thesis using Positional hd_digits_zero by (simp add: arg_part_def)
next
  case (Named ks)
  then have "arg_wf (Named ks)" using assms by (simp add: place_wf_def)
  note k = keys_no_paren [OF this]
  have "takeWhile (\<lambda>c. c \<noteq> CHR '')'') (keys_text ks @ '')'' @ tail_text p r) = keys_text ks"
    using k by (intro takeWhile_until) simp_all
  then show ?thesis using Named k by (simp add: arg_part_def digit_value_def)
qed

lemma place_part_text:
  assumes "place_wf p"
  shows "place_part (arg_text (pl_arg p) @ tail_text p r) = Some (raw_of (pl_arg p), p\<lparr>pl_arg := Implicit\<rparr>, r)"
  using tail_parts [OF assms, of r] assms
  by (simp add: place_part_def arg_part_text Let_def place_wf_def)

lemma place_text_tail: "place_text p @ r = percent # arg_text (pl_arg p) @ tail_text p r"
  by (simp add: place_text_def tail_text_def)

lemma tail_not_percent: "place_wf p \<Longrightarrow> take 1 (arg_text (pl_arg p) @ tail_text p r) \<noteq> [percent]"
proof -
  assume wf: "place_wf p"
  then have c: "pl_conv p \<in> conversions" by (simp add: place_wf_def)
  have k: "\<not> is_digit percent" "percent \<noteq> CHR ''.''" "percent \<notin> conversions"
    by (auto simp: percent_def digit_value_def conversions_def)
  have d: "hd (nat_digits n) \<noteq> percent" for n using hd_digits [of n] k(1) by metis
  have "\<not> starts (\<lambda>c. c = percent) ((case pl_prec p of Some n \<Rightarrow> ''.'' @ nat_digits n | None \<Rightarrow> []) @ pl_conv p # r)"
    using k by (intro not_starts_conv [OF c]) auto
  then have "\<not> starts (\<lambda>c. c = percent) (arg_text (pl_arg p) @ tail_text p r)"
    using d by (cases "pl_arg p"; cases "pl_pad p"; cases "pl_width p") (auto simp: tail_text_def percent_def starts_def)
  then show ?thesis by (cases "arg_text (pl_arg p) @ tail_text p r") auto
qed

lemma format_text_starts: "nodes_wf ns \<Longrightarrow> (case ns of Text u # _ \<Rightarrow> u = [percent] | _ \<Rightarrow> True) \<Longrightarrow>
    \<not> starts (\<lambda>c. c \<noteq> percent) (format_text ns)"
  by (cases ns rule: nodes_wf.cases) (auto simp: place_text_def)

text \<open>The kinds of arguments of a format fit what was seen before.\<close>

definition kinds_ok :: "seen \<Rightarrow> node list \<Rightarrow> bool" where
  "kinds_ok seen ns = ((list_all (\<lambda>n. \<not> is_named n) ns \<and> \<not> fst seen) \<or> (list_all (\<lambda>n. \<not> is_numbered n) ns \<and> \<not> snd seen))"

lemma parse_format_text:
  "nodes_wf ns \<Longrightarrow> kinds_ok seen ns \<Longrightarrow> parse_format seen (format_text ns) = Inr ns"
proof (induction ns arbitrary: seen rule: nodes_wf.induct)
  case (2 t ns)
  then have IH: "parse_format seen (format_text ns) = Inr ns" by (auto simp: kinds_ok_def)
  show ?case
  proof (cases "t = [percent]")
    case True
    then show ?thesis using IH by simp
  next
    case False
    with 2(2) obtain c t' where t: "t = c # t'" "c \<noteq> percent" "percent \<notin> set t'" by (cases t) auto
    have s: "\<not> starts (\<lambda>c. c \<noteq> percent) (format_text ns)"
      using 2(2) False by (intro format_text_starts) auto
    have "takeWhile (\<lambda>c. c \<noteq> percent) (t' @ format_text ns) = t'"
      using t(3) s by (intro takeWhile_until) (auto simp: list_all_iff)
    moreover from this have "dropWhile (\<lambda>c. c \<noteq> percent) (t' @ format_text ns) = format_text ns"
      by (metis append_eq_conv_conj dropWhile_eq_drop)
    ultimately show ?thesis using t IH by simp
  qed
next
  case (3 p ns)
  have wf: "place_wf p" "nodes_wf ns" using 3(2) by simp_all
  define seen' where "seen' = (case pl_arg p of Named _ \<Rightarrow> (True, snd seen) | _ \<Rightarrow> (fst seen, True))"
  have k: "kinds_ok seen' ns" "seen' \<noteq> (True, True)"
    using 3(3) by (auto simp: kinds_ok_def seen'_def split: arg_ref.splits)
  have "(case raw_of (pl_arg p) of Raw_none \<Rightarrow> Inr Implicit | Raw_pos n \<Rightarrow> Inr (Positional n)
      | Raw_named f \<Rightarrow> (case field_list f of Inl e \<Rightarrow> Inl e | Inr ks \<Rightarrow> Inr (Named ks))) = Inr (pl_arg p)"
    using wf(1) field_list_text by (cases "pl_arg p") (auto simp: place_wf_def)
  then show ?case
    using 3(1) [OF wf(2) k(1)] k(2) tail_not_percent [OF wf(1), of "format_text ns"] place_part_text [OF wf(1), of "format_text ns"]
    by (simp add: place_text_tail seen'_def [symmetric] Let_def)
qed simp

text \<open>
  C20: The parser reads back the placeholders and texts of a format that was printed from them.
\<close>

theorem format_roundtrip:
  assumes "nodes_wf ns" "list_all (\<lambda>n. \<not> is_named n) ns \<or> list_all (\<lambda>n. \<not> is_numbered n) ns"
  shows "sprintf_parse (format_text ns) = Inr ns"
  unfolding sprintf_parse_def using assms by (intro parse_format_text) (auto simp: kinds_ok_def)

text \<open>The witness: a format with an explicit argument, a signed number and a literal percent sign.\<close>

definition format_demo :: "node list" where
  "format_demo =
     [Text ''usage '', Place \<lparr>pl_arg = Positional 2, pl_plus = False, pl_pad = No_pad, pl_left = True, pl_width = Some 8,
        pl_prec = None, pl_conv = CHR ''s''\<rparr>, Text '': '', Place \<lparr>pl_arg = Implicit, pl_plus = True, pl_pad = Zero_pad,
        pl_left = False, pl_width = Some 3, pl_prec = None, pl_conv = CHR ''d''\<rparr>, Text ''%'']"

lemma format_roundtrip_witness:
  "format_text format_demo = ''usage %2$-8s: %+03d%%'' \<and> sprintf_parse ''usage %2$-8s: %+03d%%'' = Inr format_demo"
proof -
  have t: "format_text format_demo = ''usage %2$-8s: %+03d%%''" by code_simp
  have "nodes_wf format_demo"
    by (simp add: format_demo_def place_wf_def conversions_def percent_def)
  moreover have "list_all (\<lambda>n. \<not> is_named n) format_demo" by (simp add: format_demo_def)
  ultimately show ?thesis using format_roundtrip [of format_demo] by (simp add: t)
qed

section \<open>Padding\<close>

text \<open>
  A placeholder with a width fills its text up to it and never shortens it: the text is there
  whole, at the end or, with a minus sign, at the start.
\<close>

theorem pad_arg_width:
  "length (pad_arg p t) = max (length t) (case pl_width p of Some w \<Rightarrow> w | None \<Rightarrow> 0) \<and>
   (if pl_left p then take (length t) (pad_arg p t) = t
    else drop (length (pad_arg p t) - length t) (pad_arg p t) = t)"
  by (auto simp: pad_arg_def split: option.splits)

text \<open>Zeros are put before the sign of a negative number.\<close>

lemma zeros_before_sign: "sprintf expo ''%05d'' [S_num (-5)] = Inr ''000-5''"
proof -
  have p: "sprintf_parse ''%05d'' = Inr [Place \<lparr>pl_arg = Implicit, pl_plus = False, pl_pad = Zero_pad, pl_left = False,
      pl_width = Some 5, pl_prec = None, pl_conv = CHR ''d''\<rparr>]" by code_simp
  have d: "int_digits (-5) = ''-5''" by code_simp
  show ?thesis
    by (simp add: sprintf_def p place_value_def arg_at_def nth_opt_def convert_arg_def d pad_arg_def pad_char_def
        eval_nat_numeral)
qed

section \<open>The message of an error\<close>

text \<open>
  How the error handler makes the body of its message: the JSON parser \<open>parse\<close> gives the message
  and its parameters.
\<close>

definition message_render ::
  "(string \<Rightarrow> (string \<times> sval) option) \<Rightarrow> (int \<Rightarrow> nat option \<Rightarrow> string) \<Rightarrow> string \<Rightarrow> string option" where
  "message_render parse expo body =
     (case parse body of
        None \<Rightarrow> None
      | Some (m, params) \<Rightarrow> (case sprintf expo m [params] of Inl e \<Rightarrow> None | Inr t \<Rightarrow> Some t))"

lemma dropWhile_to: "x \<notin> set a \<Longrightarrow> dropWhile (\<lambda>c. c \<noteq> x) (a @ x # t) = x # t"
  by (induction a) auto

lemma broken_format:
  assumes "percent \<notin> set s" "take 1 t \<noteq> [percent]" "place_part t = None"
  shows "sprintf expo (s @ percent # t) args = Inl Huh"
proof -
  have "parse_format seen (s @ percent # t) = Inl Huh" for seen
  proof (cases s)
    case Nil
    then show ?thesis using assms by simp
  next
    case (Cons c s')
    then have "dropWhile (\<lambda>c. c \<noteq> percent) (s' @ percent # t) = percent # t"
      using assms(1) Cons by (intro dropWhile_to) simp
    moreover have "c \<noteq> percent" using assms(1) Cons by auto
    ultimately show ?thesis using Cons assms(2,3) by simp
  qed
  then show ?thesis by (simp add: sprintf_def sprintf_parse_def)
qed

text \<open>
  A message of the server in which a percent sign is not part of a placeholder is not shown: the
  handler shows its general text instead, and logs the response once more.
\<close>

theorem percent_message_hidden:
  assumes "is_dcmgr x" "parse (xhr_responseText x) = Some (s @ percent # t, params)"
    and "percent \<notin> set s" "take 1 t \<noteq> [percent]" "place_part t = None"
  shows "error_body (message_render parse expo) x g =
    (''Request faild.'', g\<lparr>logger := logger_push JUndef x (logger g)\<rparr>)"
  using assms(1,2) broken_format [OF assms(3-5)] by (simp add: error_body_def message_render_def)

definition disk_full :: xhr where
  "disk_full = \<lparr>xhr_status = 400, xhr_request_id = JStr ''r-1'', xhr_responseText = ''{}'', xhr_statusText = ''Bad Request''\<rparr>"

lemma percent_message_hidden_witness:
  "fst (error_body (message_render (\<lambda>_. Some (''Disk usage over 90% of quota'', S_str '''')) (\<lambda>_ _. [])) disk_full gui_initialize)
     = ''Request faild.''"
proof -
  have a: "is_dcmgr disk_full" by (simp add: is_dcmgr_def disk_full_def)
  have m: "''Disk usage over 90% of quota'' = ''Disk usage over 90'' @ percent # '' of quota''" by (simp add: percent_def)
  have "percent \<notin> set ''Disk usage over 90''" "take 1 '' of quota'' \<noteq> [percent]" by (simp_all add: percent_def)
  moreover have "place_part '' of quota'' = None" by code_simp
  ultimately show ?thesis
    using percent_message_hidden [OF a, of "\<lambda>_. Some (''Disk usage over 90% of quota'', S_str '''')"
        "''Disk usage over 90''" "'' of quota''" "S_str ''''" "\<lambda>_ _. []" gui_initialize] m by simp
qed

end
