(* ===== verification/Tz_Calendar.thy ===== *)
theory Tz_Calendar
  imports Js_Prelude
begin

text \<open>
  The time values of the JavaScript \<open>Date\<close> object, as the time zone library (\<open>date.js\<close>) uses
  them: the milliseconds since the start of 1970 in UTC, the fields that \<open>getUTCFullYear\<close> and
  the other readers compute from them, \<open>Date.UTC\<close>, and the \<open>setUTC\<close> methods. They are the
  formulas of the language standard. Time values are unbounded here; the standard's limit of
  100 million days around 1970, past which a date is invalid, is not modelled.
\<close>

named_theorems cal_defs \<open>readers and setters of a time value\<close>

section \<open>Days and years\<close>

abbreviation ms_per_day :: int where
  "ms_per_day \<equiv> 86400000"

definition leap_year :: "int \<Rightarrow> bool" where
  "leap_year y = ((y mod 4 = 0 \<and> y mod 100 \<noteq> 0) \<or> y mod 400 = 0)"

definition days_in_year :: "int \<Rightarrow> int" where
  "days_in_year y = (if leap_year y then 366 else 365)"

definition day_from_year :: "int \<Rightarrow> int" where
  "day_from_year y = 365 * (y - 1970) + (y - 1969) div 4 - (y - 1901) div 100 + (y - 1601) div 400"

text \<open>The day of the year on which each month starts.\<close>

definition month_start :: "bool \<Rightarrow> int \<Rightarrow> int" where
  "month_start lp m =
     (let s = [0, 31, 59, 90, 120, 151, 181, 212, 243, 273, 304, 334] ! nat m
      in if lp \<and> 2 \<le> m then s + 1 else s)"

definition month_days :: "bool \<Rightarrow> int \<Rightarrow> int" where
  "month_days lp m = (if m = 1 then (if lp then 29 else 28) else if m \<in> {3, 5, 8, 10} then 30 else 31)"

text \<open>The year of a day: a first guess from the 146097 days of 400 years, corrected by one.\<close>

definition year_from_day :: "int \<Rightarrow> int" where
  "year_from_day d =
     (let g = 1970 + (400 * d) div 146097
      in if d < day_from_year g then g - 1
         else if day_from_year (g + 1) \<le> d then g + 1 else g)"

fun month_search :: "bool \<Rightarrow> int \<Rightarrow> nat \<Rightarrow> int" where
  "month_search lp d 0 = 0"
| "month_search lp d (Suc m) = (if month_start lp (int (Suc m)) \<le> d then int (Suc m) else month_search lp d m)"

definition month_from_yday :: "bool \<Rightarrow> int \<Rightarrow> int" where
  "month_from_yday lp d = month_search lp d 11"

lemma div_next: "0 < n \<Longrightarrow> (x + 1) div n = x div n + (if (x + 1) mod n = 0 then 1 else (0::int))"
proof -
  assume n: "0 < n"
  define q r where qr: "q = x div n" "r = x mod n"
  have x: "x = n * q + r" "0 \<le> r" "r < n" using n by (simp_all add: qr)
  show ?thesis
  proof (cases "r = n - 1")
    case True
    then have "x + 1 = n * (q + 1)" using x by (simp add: algebra_simps)
    then have "(x + 1) div n = q + 1" "(x + 1) mod n = 0" using n by simp_all
    then show ?thesis by (simp add: qr)
  next
    case False
    then have "(x + 1) div n = q" "(x + 1) mod n = r + 1"
      using x by (auto intro: int_div_pos_eq [where r = "r + 1"] int_mod_pos_eq [where q = q])
    then show ?thesis using x(2) by (simp add: qr)
  qed
qed

lemma mod_shift: "(y - k) mod n = 0 \<longleftrightarrow> y mod n = (0::int)" if "n dvd k"
  using that by (metis dvd_diff_right_iff dvd_eq_mod_eq_0 dvd_minus_iff uminus_add_conv_diff dvd_add_right_iff)

lemma day_from_year_Suc: "day_from_year (y + 1) = day_from_year y + days_in_year y"
proof -
  have a: "(y - 1968) div 4 = (y - 1969) div 4 + (if y mod 4 = 0 then 1 else 0)"
    using div_next [of 4 "y - 1969"] mod_shift [of 4 1968 y] by simp
  have b: "(y - 1900) div 100 = (y - 1901) div 100 + (if y mod 100 = 0 then 1 else 0)"
    using div_next [of 100 "y - 1901"] mod_shift [of 100 1900 y] by simp
  have c: "(y - 1600) div 400 = (y - 1601) div 400 + (if y mod 400 = 0 then 1 else 0)"
    using div_next [of 400 "y - 1601"] mod_shift [of 400 1600 y] by simp
  have d: "y mod 400 = 0 \<Longrightarrow> y mod 100 = 0" "y mod 100 = 0 \<Longrightarrow> y mod 4 = 0"
    using mod_mod_cancel [of 100 400 y] mod_mod_cancel [of 4 100 y] by auto
  show ?thesis
    using d by (auto simp: day_from_year_def days_in_year_def leap_year_def a b c)
qed

lemma days_in_year_bounds: "365 \<le> days_in_year y" "days_in_year y \<le> 366"
  by (simp_all add: days_in_year_def)

lemma day_from_year_mono_nat: "day_from_year y + 365 * int n \<le> day_from_year (y + int n)"
proof (induction n)
  case (Suc n)
  have "day_from_year (y + int (Suc n)) = day_from_year (y + int n) + days_in_year (y + int n)"
    using day_from_year_Suc [of "y + int n"] by (simp add: algebra_simps)
  with Suc show ?case using days_in_year_bounds [of "y + int n"] by simp
qed simp

lemma day_from_year_mono: "y \<le> z \<Longrightarrow> day_from_year y + 365 * (z - y) \<le> day_from_year z"
  using day_from_year_mono_nat [of y "nat (z - y)"] by simp

lemma year_unique:
  assumes "day_from_year y \<le> d" "d < day_from_year (y + 1)" "day_from_year z \<le> d" "d < day_from_year (z + 1)"
  shows "y = z"
proof (rule ccontr)
  assume "y \<noteq> z"
  then consider "y + 1 \<le> z" | "z + 1 \<le> y" by linarith
  then show False
    using assms day_from_year_mono [of "y + 1" z] day_from_year_mono [of "z + 1" y] by cases auto
qed

lemma year_from_day_bounds:
  "day_from_year (year_from_day d) \<le> d" "d < day_from_year (year_from_day d + 1)"
proof -
  define g where "g = 1970 + (400 * d) div 146097"
  define r where "r = (400 * d) mod 146097"
  have gd: "400 * d = 146097 * (g - 1970) + r" "0 \<le> r" "r < 146097" by (simp_all add: g_def r_def)
  define a b c where abc: "a = (g - 1969) div 4" "b = (g - 1901) div 100" "c = (g - 1601) div 400"
  have lin: "4 * a \<le> g - 1969" "g - 1969 \<le> 4 * a + 3" "100 * b \<le> g - 1901" "g - 1901 \<le> 100 * b + 99"
    "400 * c \<le> g - 1601" "g - 1601 \<le> 400 * c + 399" by (simp_all add: abc)
  have dg: "day_from_year g = 365 * (g - 1970) + a - b + c" by (simp add: day_from_year_def abc)
  have low: "day_from_year (g - 1) \<le> d"
  proof -
    have "day_from_year (g - 1) \<le> day_from_year g - 365"
      using day_from_year_mono [of "g - 1" g] by simp
    then show ?thesis using dg gd lin unfolding right_diff_distrib by linarith
  qed
  have high: "d < day_from_year (g + 2)"
  proof -
    have "day_from_year g + 730 \<le> day_from_year (g + 2)" using day_from_year_mono [of g "g + 2"] by simp
    then show ?thesis using dg gd lin unfolding right_diff_distrib by linarith
  qed
  have y: "year_from_day d = (if d < day_from_year g then g - 1 else if day_from_year (g + 1) \<le> d then g + 1 else g)"
    by (simp add: year_from_day_def g_def Let_def)
  from low show "day_from_year (year_from_day d) \<le> d" by (simp add: y)
  from high show "d < day_from_year (year_from_day d + 1)" by (simp add: y add.assoc)
qed

lemma year_from_day_eq: "day_from_year y \<le> d \<Longrightarrow> d < day_from_year (y + 1) \<Longrightarrow> year_from_day d = y"
  using year_unique year_from_day_bounds by blast

section \<open>Readers\<close>

definition day_of :: "int \<Rightarrow> int" where [cal_defs]: "day_of t = t div ms_per_day"
definition year_of :: "int \<Rightarrow> int" where "year_of t = year_from_day (day_of t)"
definition yday_of :: "int \<Rightarrow> int" where "yday_of t = day_of t - day_from_year (year_of t)"
definition month_of :: "int \<Rightarrow> int" where "month_of t = month_from_yday (leap_year (year_of t)) (yday_of t)"
definition date_of :: "int \<Rightarrow> int" where
  "date_of t = yday_of t - month_start (leap_year (year_of t)) (month_of t) + 1"
definition weekday_of :: "int \<Rightarrow> int" where "weekday_of t = (day_of t + 4) mod 7"
definition hour_of :: "int \<Rightarrow> int" where [cal_defs]: "hour_of t = t mod ms_per_day div 3600000"
definition minute_of :: "int \<Rightarrow> int" where [cal_defs]: "minute_of t = t mod ms_per_day div 60000 mod 60"
definition second_of :: "int \<Rightarrow> int" where [cal_defs]: "second_of t = t mod ms_per_day div 1000 mod 60"
definition milli_of :: "int \<Rightarrow> int" where [cal_defs]: "milli_of t = t mod ms_per_day mod 1000"

section \<open>Making a time value\<close>

text \<open>Months out of range carry into the year, days and times just add up.\<close>

definition make_day :: "int \<Rightarrow> int \<Rightarrow> int \<Rightarrow> int" where
  "make_day y m d =
     (let y' = y + m div 12; m' = m mod 12
      in day_from_year y' + month_start (leap_year y') m' + d - 1)"

definition make_time :: "int \<Rightarrow> int \<Rightarrow> int \<Rightarrow> int \<Rightarrow> int" where
  "make_time h mi s u = h * 3600000 + mi * 60000 + s * 1000 + u"

definition make_full :: "int \<Rightarrow> int" where
  "make_full y = (if 0 \<le> y \<and> y \<le> 99 then 1900 + y else y)"

text \<open>\<open>Date.UTC\<close>, which reads a year below 100 as one of the twentieth century.\<close>

definition Date_UTC :: "int \<Rightarrow> int \<Rightarrow> int \<Rightarrow> int \<Rightarrow> int \<Rightarrow> int \<Rightarrow> int \<Rightarrow> int" where
  "Date_UTC y m d h mi s u = make_day (make_full y) m d * ms_per_day + make_time h mi s u"

section \<open>Setters\<close>

definition time_of_day :: "int \<Rightarrow> int" where [cal_defs]: "time_of_day t = t mod ms_per_day"

definition set_year :: "int \<Rightarrow> int \<Rightarrow> int" where
  "set_year y t = make_day y (month_of t) (date_of t) * ms_per_day + time_of_day t"
definition set_month :: "int \<Rightarrow> int \<Rightarrow> int" where
  "set_month m t = make_day (year_of t) m (date_of t) * ms_per_day + time_of_day t"
definition set_date :: "int \<Rightarrow> int \<Rightarrow> int" where
  "set_date d t = make_day (year_of t) (month_of t) d * ms_per_day + time_of_day t"
definition set_hours :: "int \<Rightarrow> int \<Rightarrow> int" where
  "set_hours h t = day_of t * ms_per_day + make_time h (minute_of t) (second_of t) (milli_of t)"
definition set_minutes :: "int \<Rightarrow> int \<Rightarrow> int" where
  "set_minutes m t = day_of t * ms_per_day + make_time (hour_of t) m (second_of t) (milli_of t)"
definition set_seconds :: "int \<Rightarrow> int \<Rightarrow> int" where
  "set_seconds s t = day_of t * ms_per_day + make_time (hour_of t) (minute_of t) s (milli_of t)"
definition set_millis :: "int \<Rightarrow> int \<Rightarrow> int" where
  "set_millis u t = day_of t * ms_per_day + make_time (hour_of t) (minute_of t) (second_of t) u"

section \<open>The fields of a time value and back\<close>

lemma months_12: "0 \<le> m \<Longrightarrow> m < 12 \<Longrightarrow> m \<in> {0, 1, 2, 3, 4, 5, 6, 7, 8, 9, 10, 11 :: int}"
  by (simp) presburger

lemma month_start_0 [simp]: "month_start lp 0 = 0"
  by (simp add: month_start_def)

lemma month_start_Suc:
  "0 \<le> m \<Longrightarrow> m < 11 \<Longrightarrow> month_start lp (m + 1) = month_start lp m + month_days lp m"
  using months_12 [of m] by (auto simp: month_start_def month_days_def Let_def)

lemma month_days_bounds: "28 \<le> month_days lp m" "month_days lp m \<le> 31"
  by (auto simp: month_days_def)

lemma month_start_last: "month_start (leap_year y) 11 + month_days (leap_year y) 11 = days_in_year y"
  by (simp add: month_start_def month_days_def days_in_year_def)

lemma month_from_yday_eq:
  assumes "0 \<le> m" "m < 12" "1 \<le> d" "d \<le> month_days lp m"
  shows "month_from_yday lp (month_start lp m + d - 1) = m"
  using months_12 [OF assms(1,2)] assms(3,4)
  by (cases lp) (auto simp: month_from_yday_def eval_nat_numeral month_start_def month_days_def)

lemma month_search_bounds:
  assumes "0 \<le> d"
  shows "0 \<le> month_search lp d n" "month_search lp d n \<le> int n" "month_start lp (month_search lp d n) \<le> d"
    "month_search lp d n < int n \<Longrightarrow> d < month_start lp (month_search lp d n + 1)"
  using assms by (induction n) (auto simp: not_le le_less add.commute)

lemma month_from_yday_bounds:
  fixes y d :: int
  defines "lp \<equiv> leap_year y" and "m \<equiv> month_from_yday (leap_year y) d"
  assumes "0 \<le> d" "d < days_in_year y"
  shows "0 \<le> m" "m < 12" "month_start lp m \<le> d" "d < month_start lp m + month_days lp m"
proof -
  have b: "0 \<le> m" "m \<le> 11" "month_start lp m \<le> d" "m < 11 \<Longrightarrow> d < month_start lp (m + 1)"
    using month_search_bounds [of d lp 11] assms(3) by (simp_all add: m_def month_from_yday_def lp_def)
  then show "0 \<le> m" "m < 12" "month_start lp m \<le> d" by auto
  show "d < month_start lp m + month_days lp m"
  proof (cases "m < 11")
    case True
    then show ?thesis using b month_start_Suc [of m lp] by simp
  next
    case False
    with b have "m = 11" by simp
    then show ?thesis using month_start_last [of y] assms(4) by (simp add: lp_def)
  qed
qed

lemma month_start_bounds:
  "0 \<le> m \<Longrightarrow> m < 12 \<Longrightarrow> 0 \<le> month_start lp m"
  "0 \<le> m \<Longrightarrow> m < 12 \<Longrightarrow> d \<le> month_days (leap_year y) m \<Longrightarrow> month_start (leap_year y) m + d \<le> days_in_year y"
  using months_12 [of m] by (auto simp: month_start_def month_days_def days_in_year_def)

lemma make_day_eq:
  "0 \<le> m \<Longrightarrow> m < 12 \<Longrightarrow> make_day y m d = day_from_year y + month_start (leap_year y) m + d - 1"
  by (simp add: make_day_def Let_def)

lemma day_in_year:
  assumes "0 \<le> m" "m < 12" "1 \<le> d" "d \<le> month_days (leap_year y) m"
  shows "year_from_day (make_day y m d) = y"
  using assms month_start_bounds(1) [of m "leap_year y"] month_start_bounds(2) [of m d y]
  by (intro year_from_day_eq) (simp_all add: make_day_eq day_from_year_Suc)

lemma div_time: "0 \<le> r \<Longrightarrow> r < n \<Longrightarrow> (q * n + r) div n = q" "0 \<le> r \<Longrightarrow> r < n \<Longrightarrow> (q * n + r) mod n = (r::int)"
  by (auto simp: div_pos_pos_trivial)

lemma make_time_bounds:
  "0 \<le> h \<Longrightarrow> h < 24 \<Longrightarrow> 0 \<le> mi \<Longrightarrow> mi < 60 \<Longrightarrow> 0 \<le> s \<Longrightarrow> s < 60 \<Longrightarrow> 0 \<le> u \<Longrightarrow> u < 1000
    \<Longrightarrow> 0 \<le> make_time h mi s u \<and> make_time h mi s u < ms_per_day"
  by (simp add: make_time_def)

text \<open>The time part of a time value.\<close>

lemma time_fields:
  fixes D h mi s u :: int
  assumes "0 \<le> h" "h < 24" "0 \<le> mi" "mi < 60" "0 \<le> s" "s < 60" "0 \<le> u" "u < 1000"
  defines "t \<equiv> D * ms_per_day + make_time h mi s u"
  shows "day_of t = D" "hour_of t = h" "minute_of t = mi" "second_of t = s" "milli_of t = u"
proof -
  have m: "t mod ms_per_day = make_time h mi s u" "t div ms_per_day = D"
    using make_time_bounds [of h mi s u] assms(1-8) by (simp_all add: t_def div_time)
  have e: "make_time h mi s u = h * 3600000 + (mi * 60000 + s * 1000 + u)"
    "make_time h mi s u = (h * 60 + mi) * 60000 + (s * 1000 + u)"
    "make_time h mi s u = ((h * 60 + mi) * 60 + s) * 1000 + u" by (simp_all add: make_time_def)
  have "make_time h mi s u div 3600000 = h" unfolding e(1) using assms(1-8) by (simp add: div_time)
  moreover have "make_time h mi s u div 60000 = h * 60 + mi" unfolding e(2) using assms(1-8) by (simp add: div_time)
  moreover have "make_time h mi s u div 1000 = (h * 60 + mi) * 60 + s" "make_time h mi s u mod 1000 = u"
    unfolding e(3) using assms(1-8) div_time [of u 1000 "(h * 60 + mi) * 60 + s"] by auto
  ultimately have d: "make_time h mi s u div 3600000 = h" "make_time h mi s u div 60000 = h * 60 + mi"
    "make_time h mi s u div 1000 = (h * 60 + mi) * 60 + s" "make_time h mi s u mod 1000 = u" by auto
  show "day_of t = D" "hour_of t = h" "minute_of t = mi" "second_of t = s" "milli_of t = u"
    using assms(1-8) div_time(2) [of s 60 "h * 60 + mi"] div_time(2) [of mi 60 h]
    by (simp_all only: cal_defs m d)
qed

text \<open>A day and its time of day add up to the time value.\<close>

lemma time_parts: "day_of t * ms_per_day + make_time (hour_of t) (minute_of t) (second_of t) (milli_of t) = t"
proof -
  define r where "r = t mod ms_per_day"
  have "r mod 1000 = r - r div 1000 * 1000" "r div 60000 = r div 1000 div 60" "r div 3600000 = r div 1000 div 60 div 60"
    "r div 1000 mod 60 = r div 1000 - r div 1000 div 60 * 60"
    "r div 1000 div 60 mod 60 = r div 1000 div 60 - r div 1000 div 60 div 60 * 60"
    by (simp_all add: div_mult2_eq [symmetric] minus_div_mult_eq_mod)
  then have "make_time (r div 3600000) (r div 60000 mod 60) (r div 1000 mod 60) (r mod 1000) = r"
    by (simp add: make_time_def)
  then show ?thesis by (simp add: cal_defs r_def)
qed

lemma day_parts:
  "make_day (year_of t) (month_of t) (date_of t) = day_of t"
  "0 \<le> month_of t" "month_of t < 12" "1 \<le> date_of t"
  "date_of t \<le> month_days (leap_year (year_of t)) (month_of t)"
proof -
  note y = year_from_day_bounds [of "day_of t", folded year_of_def]
  then have "0 \<le> yday_of t" "yday_of t < days_in_year (year_of t)"
    by (simp_all add: yday_of_def day_from_year_Suc)
  note m = month_from_yday_bounds [OF this, folded month_of_def]
  show "0 \<le> month_of t" "month_of t < 12" "1 \<le> date_of t"
    "date_of t \<le> month_days (leap_year (year_of t)) (month_of t)"
    using m by (simp_all add: date_of_def)
  show "make_day (year_of t) (month_of t) (date_of t) = day_of t"
    using m by (simp add: make_day_eq date_of_def yday_of_def)
qed

lemma time_ranges:
  "0 \<le> hour_of t" "hour_of t < 24" "0 \<le> minute_of t" "minute_of t < 60"
  "0 \<le> second_of t" "second_of t < 60" "0 \<le> milli_of t" "milli_of t < 1000"
  by (auto simp: cal_defs)

lemma make_full_id: "y < 0 \<or> 99 < y \<Longrightarrow> make_full y = y"
  by (auto simp: make_full_def)

text \<open>
  \<open>Date.UTC\<close> of the fields read from a time value is that value, unless the year is below 100.
\<close>

lemma Date_UTC_fields:
  "year_of t < 0 \<or> 99 < year_of t \<Longrightarrow>
   Date_UTC (year_of t) (month_of t) (date_of t) (hour_of t) (minute_of t) (second_of t) (milli_of t) = t"
  by (simp add: Date_UTC_def make_full_id day_parts time_parts)

text \<open>The fields of a date and time in range are read back from the time value made of them.\<close>

definition fields_in_range :: "int \<Rightarrow> int \<Rightarrow> int \<Rightarrow> int \<Rightarrow> int \<Rightarrow> int \<Rightarrow> int \<Rightarrow> bool" where
  "fields_in_range y m d h mi s u =
     (99 < y \<and> 0 \<le> m \<and> m < 12 \<and> 1 \<le> d \<and> d \<le> month_days (leap_year y) m \<and>
      0 \<le> h \<and> h < 24 \<and> 0 \<le> mi \<and> mi < 60 \<and> 0 \<le> s \<and> s < 60 \<and> 0 \<le> u \<and> u < 1000)"

lemma fields_Date_UTC:
  fixes y m d h mi s u :: int
  assumes "fields_in_range y m d h mi s u"
  defines "t \<equiv> Date_UTC y m d h mi s u"
  shows "year_of t = y" "month_of t = m" "date_of t = d" "hour_of t = h" "minute_of t = mi"
    "second_of t = s" "milli_of t = u" "day_of t = make_day y m d"
proof -
  note r = assms(1) [unfolded fields_in_range_def]
  have t: "t = make_day y m d * ms_per_day + make_time h mi s u"
    using r by (simp add: t_def Date_UTC_def make_full_id)
  show td: "day_of t = make_day y m d" and "hour_of t = h" "minute_of t = mi" "second_of t = s" "milli_of t = u"
    unfolding t using r time_fields [of h mi s u "make_day y m d"] by simp_all
  show yr: "year_of t = y" using r by (simp add: year_of_def td day_in_year)
  have yd: "yday_of t = month_start (leap_year y) m + d - 1"
    using r by (simp add: yday_of_def yr td make_day_eq)
  show mo: "month_of t = m" using r by (simp add: month_of_def yr yd month_from_yday_eq)
  show "date_of t = d" by (simp add: date_of_def yr mo yd)
qed

text \<open>Setting the day moves the time value by whole days, setting the time within it by its difference.\<close>

lemma set_date_shift: "set_date (date_of t + k) t = t + k * ms_per_day"
proof -
  have "make_day (year_of t) (month_of t) (date_of t + k) = day_of t + k"
    using day_parts(1) [of t] by (simp add: make_day_def Let_def)
  then show ?thesis by (simp add: set_date_def cal_defs algebra_simps)
qed

lemma set_minutes_shift: "set_minutes (minute_of t + k) t = t + k * 60000"
  using time_parts [of t] by (simp add: set_minutes_def make_time_def algebra_simps)

lemma weekday_range: "0 \<le> weekday_of t" "weekday_of t < 7"
  by (simp_all add: weekday_of_def)

lemma weekday_shift: "weekday_of (t + k * ms_per_day) = (weekday_of t + k) mod 7"
  by (simp add: weekday_of_def day_of_def mod_simps algebra_simps)

section \<open>Julian day numbers\<close>

text \<open>
  \<open>civilToJulianDayNumber\<close>; the products with 365.25 and 30.6001 are exact here. Months count
  from zero, and months past the year are carried over.
\<close>

definition civilToJulianDayNumber :: "int \<Rightarrow> int \<Rightarrow> int \<Rightarrow> int" where
  "civilToJulianDayNumber y0 m0 d =
     (let m1 = m0 + 1;
          (y1, m2) = (if m1 > 12 then (y0 + m1 div 12, m1 mod 12) else (y0, m1));
          (y, m) = (if m2 \<le> 2 then (y1 - 1, m2 + 12) else (y1, m2));
          a = y div 100;
          b = 2 - a + a div 4
      in (1461 * (y + 4716)) div 4 + (306001 * (m + 1)) div 10000 + d + b - 1524)"

lemma day_from_year_alt:
  "day_from_year y = 365 * y + (y - 1) div 4 - (y - 1) div 100 + (y - 1) div 400 - 719527"
proof -
  have "y - 1969 = (y - 1) + (-492) * 4" "y - 1901 = (y - 1) + (-19) * 100" "y - 1601 = (y - 1) + (-4) * 400" by simp_all
  then have "(y - 1969) div 4 = (y - 1) div 4 - 492" "(y - 1901) div 100 = (y - 1) div 100 - 19"
    "(y - 1601) div 400 = (y - 1) div 400 - 4"
    by (simp_all only: div_mult_self2 [of 4] div_mult_self2 [of 100] div_mult_self2 [of 400])
  then show ?thesis by (simp add: day_from_year_def)
qed

lemma leap_next:
  "day_from_year y + (if leap_year y then 1 else 0) = 365 * y + y div 4 - y div 100 + y div 400 - 719527"
proof -
  have "day_from_year (y + 1) = 365 * (y + 1) + y div 4 - y div 100 + y div 400 - 719527"
    using day_from_year_alt [of "y + 1"] by simp
  then show ?thesis by (simp add: day_from_year_Suc days_in_year_def split: if_splits)
qed

text \<open>
  The Julian day number is the day number of the calendar, shifted by a constant.
\<close>

theorem julian_day_number:
  assumes "0 \<le> m" "m < 12"
  shows "civilToJulianDayNumber y m d = make_day y m d + 2440588"
proof -
  have c: "1461 * (y + 4716) div 4 = 365 * y + y div 4 + 1722519" for y :: int
  proof -
    have "1461 * (y + 4716) = y + (365 * y + 1722519) * 4" by simp
    then show ?thesis by (simp only: div_mult_self2 [of 4]) simp
  qed
  have h: "y div 100 div 4 = y div 400" for y :: int by (simp add: div_mult2_eq [symmetric])
  have long: "306001 * (m + 2) div 10000 = month_start False m + 63"
    "month_start lp m = month_start False m + (if lp then 1 else 0)" if "2 \<le> m" for lp
    using that months_12 [OF assms] by (auto simp: month_start_def)
  have short: "306001 * (m + 14) div 10000 = month_start lp m + 428" if "m < 2" for lp
    using that months_12 [OF assms] by (auto simp: month_start_def)
  show ?thesis
  proof (cases "m < 2")
    case True
    then have "civilToJulianDayNumber y m d = (1461 * ((y - 1) + 4716)) div 4 + 306001 * (m + 14) div 10000 + d
        + (2 - (y - 1) div 100 + (y - 1) div 100 div 4) - 1524"
      using assms by (simp add: civilToJulianDayNumber_def Let_def add.commute)
    then show ?thesis
      unfolding c h short [OF True, of "leap_year y"] using assms day_from_year_alt [of y] by (simp add: make_day_eq)
  next
    case False
    then have *: "civilToJulianDayNumber y m d = (1461 * (y + 4716)) div 4 + 306001 * (m + 2) div 10000 + d
        + (2 - y div 100 + y div 100 div 4) - 1524"
      using assms by (simp add: civilToJulianDayNumber_def Let_def add.commute)
    have "2 \<le> m" using False by simp
    with * show ?thesis
      unfolding c h long(1) [OF \<open>2 \<le> m\<close>] using assms leap_next [of y] by (simp add: make_day_eq long(2) [of "leap_year y"])
  qed
qed

lemma julian_day_number_witness: "civilToJulianDayNumber 2012 1 29 = 2455987"
proof -
  have "make_day 2012 1 29 = 15399" by code_simp
  then show ?thesis using julian_day_number [of 1 2012 29] by simp
qed
end
