(* ===== verification/Tz_Zones.thy ===== *)
theory Tz_Zones
  imports Tz_Calendar Core_Converter
begin

text \<open>
  The reader of the Olson time zone files in \<open>date.js\<close>: the time texts, the lines of a zone
  file, and the choice of the era of a zone and of the daylight saving rule at a moment. The
  offsets are minutes west of UTC and can be fractions of a minute, as in the code.

  A call that throws has the result \<open>Inl e\<close>.
\<close>

datatype tz_error =
    Type_error                 \<comment> \<open>a property of \<open>undefined\<close> or \<open>null\<close> is read\<close>
  | Bad_link string            \<comment> \<open>a link onto a zone that exists\<close>
  | Bad_timezone string        \<comment> \<open>\<open>invalidTZError\<close>\<close>
  | No_zone string             \<comment> \<open>a zone without eras\<close>
  | No_base_path
  | Load_failed string
  | Units_error
  | Unspecified_order          \<comment> \<open>\<open>sort\<close> with an invalid date: the language leaves the order open\<close>

type_synonym 'a result = "tz_error + 'a"

fun bindE :: "'e + 'a \<Rightarrow> ('a \<Rightarrow> 'e + 'b) \<Rightarrow> 'e + 'b" where
  "bindE (Inl e) f = Inl e"
| "bindE (Inr x) f = f x"

section \<open>Texts\<close>

definition MONTHS :: "string list" where
  "MONTHS = [''January'', ''February'', ''March'', ''April'', ''May'', ''June'', ''July'',
             ''August'', ''September'', ''October'', ''November'', ''December'']"

definition DAYS :: "string list" where
  "DAYS = [''Sunday'', ''Monday'', ''Tuesday'', ''Wednesday'', ''Thursday'', ''Friday'', ''Saturday'']"

text \<open>The index of a name by its first three letters.\<close>

definition short_index :: "string list \<Rightarrow> (string \<times> int) list" where
  "short_index names = zip (map (take 3) names) (map int [0..<length names])"

definition SHORT_MONTHS :: "string \<Rightarrow> int option" where
  "SHORT_MONTHS = map_of (short_index MONTHS)"

definition SHORT_DAYS :: "string \<Rightarrow> int option" where
  "SHORT_DAYS = map_of (short_index DAYS)"

text \<open>\<open>_fixWidth\<close>: the test of \<open>number.length\<close>, which a number does not have, is never true.\<close>

definition fixWidth :: "int \<Rightarrow> nat \<Rightarrow> string" where
  "fixWidth n digits = (let s = int_digits n in replicate (digits - length s) (CHR ''0'') @ s)"

text \<open>\<open>parseInt(s, 10)\<close>: blanks, a sign, and the digits at the front; \<open>None\<close> is \<open>NaN\<close>.\<close>

definition digits_prefix :: "string \<Rightarrow> int option" where
  "digits_prefix s = (let d = takeWhile is_digit s in if d = [] then None else Some (int (digits_value 0 d)))"

definition parse_int :: "string \<Rightarrow> int option" where
  "parse_int s =
     (case strip blanks s of
        [] \<Rightarrow> None
      | c # r \<Rightarrow> if c = CHR ''-'' then map_option uminus (digits_prefix r)
                  else if c = CHR ''+'' then digits_prefix r else digits_prefix (c # r))"

section \<open>Times of a zone file\<close>

text \<open>Hours, minutes, seconds, and the letter that says what the time refers to.\<close>

record at_time =
  at_h :: int
  at_m :: int
  at_s :: int
  at_kind :: "char option"

definition time_kinds :: "char set" where
  "time_kinds = {CHR ''w'', CHR ''s'', CHR ''u'', CHR ''g'', CHR ''z''}"

text \<open>An optional colon with the digits after it, leading zeros skipped.\<close>

definition colon_group :: "string \<Rightarrow> int \<times> string" where
  "colon_group s =
     (case s of
        [] \<Rightarrow> (0, s)
      | c # r \<Rightarrow> if c = CHR '':''
          then let r' = dropWhile (\<lambda>c. c = CHR ''0'') r
               in (int (digits_value 0 (takeWhile is_digit r')), dropWhile is_digit r')
          else (0, s))"

text \<open>The pattern of \<open>parseTimeString\<close> at the start of a text; it must reach the end of it.\<close>

definition time_here :: "string \<Rightarrow> at_time option" where
  "time_here s =
     (let d = takeWhile is_digit s; (m, r1) = colon_group (dropWhile is_digit s); (sec, r2) = colon_group r1
      in if d = [] then None
         else if r2 = [] then Some \<lparr>at_h = int (digits_value 0 d), at_m = m, at_s = sec, at_kind = None\<rparr>
         else if length r2 = 1 \<and> hd r2 \<in> time_kinds
         then Some \<lparr>at_h = int (digits_value 0 d), at_m = m, at_s = sec, at_kind = Some (hd r2)\<rparr>
         else None)"

fun parseTimeString :: "string \<Rightarrow> at_time result" where
  "parseTimeString [] = Inl Type_error"
| "parseTimeString (c # s) = (case time_here (c # s) of Some t \<Rightarrow> Inr t | None \<Rightarrow> parseTimeString s)"

definition getBasicOffset :: "string \<Rightarrow> rat result" where
  "getBasicOffset time =
     bindE (parseTimeString time) (\<lambda>off.
       let adj = (if take 1 time = ''-'' then -1 else 1)
       in Inr (of_int (adj * (((at_h off * 60 + at_m off) * 60 + at_s off) * 1000)) / 60 / 1000))"

section \<open>Zones and rules\<close>

datatype year_to = To_year int | To_text string

record rule =
  r_from :: "int option"
  r_to :: year_to
  r_type :: string
  r_in :: string
  r_on :: string
  r_at :: at_time
  r_save :: rat
  r_letter :: "string option"

text \<open>One line of a zone: offset, name of the rules, format, and the time value it lasts until.\<close>

record era =
  e_offset :: rat
  e_rules :: string
  e_format :: string
  e_until :: "int option"

datatype zone_entry = Link string | Eras "era list"

record tz_db =
  tz_zones :: "(string \<times> zone_entry) list"
  tz_rules :: "(string \<times> rule list) list"
  tz_loaded :: "string list"

definition nonempty_at :: "string list \<Rightarrow> nat \<Rightarrow> string option" where
  "nonempty_at z i = (case nth_opt z i of Some s \<Rightarrow> if s = [] then None else Some s | None \<Rightarrow> None)"

text \<open>
  \<open>processZone\<close> and the \<open>Date.UTC\<close> that its result goes through: the time value until which an
  era lasts. A day that is not a number, as in \<open>lastSun\<close>, counts as the first.
\<close>

definition processZone :: "string list \<Rightarrow> int option result" where
  "processZone z =
     (case nonempty_at z 3 of
        None \<Rightarrow> Inr None
      | Some y \<Rightarrow>
          let yea = parse_int y;
              (mon, dat) = (case nonempty_at z 4 of
                  None \<Rightarrow> (Some 11, 31)
                | Some m \<Rightarrow> (SHORT_MONTHS (take 3 m),
                    case Option.bind (nth_opt z 5) parse_int of
                      Some d \<Rightarrow> if d = 0 then 1 else d | None \<Rightarrow> 1))
          in bindE (parseTimeString (case nonempty_at z 6 of Some s \<Rightarrow> s | None \<Rightarrow> ''00:00:00''))
               (\<lambda>t. Inr (case (yea, mon) of
                   (Some y, Some m) \<Rightarrow> Some (Date_UTC y m dat (at_h t) (at_m t) (at_s t) 0)
                 | _ \<Rightarrow> None)))"

text \<open>The words of a line, split at runs of white space; the zone files are ASCII.\<close>

function split_ws :: "string \<Rightarrow> string list" where
  "split_ws s =
     (case dropWhile (\<lambda>c. \<not> is_space c) s of
        [] \<Rightarrow> [s]
      | c # r \<Rightarrow> takeWhile (\<lambda>c. \<not> is_space c) s # split_ws (dropWhile is_space r))"
  by pat_completeness auto
termination
proof (relation "measure length")
  fix s c r
  assume "dropWhile (\<lambda>c. \<not> is_space c) s = c # r"
  then have "Suc (length r) \<le> length s" using length_dropWhile_le [of "\<lambda>c. \<not> is_space c" s] by simp
  then show "(dropWhile is_space r, s) \<in> measure length"
    using length_dropWhile_le [of is_space r] by simp
qed simp

declare split_ws.simps [simp del]

text \<open>
  The functions that change the tables return them with the exception that ended them, if any:
  what was written before the exception stays.
\<close>

type_synonym outcome = "tz_db \<times> tz_error option"

definition add_era :: "string \<Rightarrow> era \<Rightarrow> tz_db \<Rightarrow> outcome" where
  "add_era zone e db =
     (case map_of (tz_zones db) zone of
        Some (Eras es) \<Rightarrow> (db\<lparr>tz_zones := obj_set zone (Eras (es @ [e])) (tz_zones db)\<rparr>, None)
      | _ \<Rightarrow> (db, Some Type_error))"

definition rules_of :: "tz_db \<Rightarrow> string \<Rightarrow> rule list" where
  "rules_of db n = (case map_of (tz_rules db) n of Some rs \<Rightarrow> rs | None \<Rightarrow> [])"

text \<open>The offset, the rules, the format and the end of an era, from the words of its line.\<close>

definition make_era :: "string list \<Rightarrow> era result" where
  "make_era arr =
     bindE (processZone arr) (\<lambda>until.
     bindE (getBasicOffset (arr ! 0)) (\<lambda>off.
       Inr \<lparr>e_offset = - off, e_rules = arr ! 1, e_format = arr ! 2, e_until = until\<rparr>))"

definition make_rule :: "string list \<Rightarrow> rule result" where
  "make_rule arr =
     (case (nth_opt arr 5, nth_opt arr 6) of
        (None, _) \<Rightarrow> Inl Type_error
      | (Some w, save) \<Rightarrow> bindE (parseTimeString w) (\<lambda>t.
          case save of
            None \<Rightarrow> Inl Type_error
          | Some sv \<Rightarrow> bindE (getBasicOffset sv) (\<lambda>off.
              Inr \<lparr>r_from = parse_int (arr ! 0),
                   r_to = (case parse_int (arr ! 1) of Some y \<Rightarrow> if y = 0 then To_text (arr ! 1) else To_year y
                                                   | None \<Rightarrow> To_text (arr ! 1)),
                   r_type = arr ! 2, r_in = arr ! 3, r_on = arr ! 4, r_at = t, r_save = off,
                   r_letter = nth_opt arr 7\<rparr>)))"

text \<open>The three kinds of lines, each given as its words after the first one.\<close>

definition first_word :: "string list \<Rightarrow> string" where
  "first_word ws = (case ws of [] \<Rightarrow> ''undefined'' | w # _ \<Rightarrow> w)"

definition zone_line :: "string list \<Rightarrow> tz_db \<Rightarrow> outcome" where
  "zone_line ws db0 =
     (let zone = first_word ws; arr = tl ws;
          db = (if map_of (tz_zones db0) zone = None
                then db0\<lparr>tz_zones := obj_set zone (Eras []) (tz_zones db0)\<rparr> else db0)
      in if length arr < 3 then (db, None)
         else case make_era arr of Inl e \<Rightarrow> (db, Some e) | Inr er \<Rightarrow> add_era zone er db)"

definition rule_line :: "string list \<Rightarrow> tz_db \<Rightarrow> outcome" where
  "rule_line ws db0 =
     (let n = first_word ws; rs = rules_of db0 n; db = db0\<lparr>tz_rules := obj_set n rs (tz_rules db0)\<rparr>
      in case make_rule (tl ws) of
           Inl e \<Rightarrow> (db, Some e)
         | Inr r \<Rightarrow> (db\<lparr>tz_rules := obj_set n (rs @ [r]) (tz_rules db)\<rparr>, None))"

definition link_line :: "string list \<Rightarrow> tz_db \<Rightarrow> outcome" where
  "link_line ws db =
     (let alias = first_word (tl ws) in
      if map_of (tz_zones db) alias \<noteq> None then (db, Some (Bad_link alias))
      else case ws of
             [] \<Rightarrow> (db, None)
           | t # _ \<Rightarrow> (db\<lparr>tz_zones := obj_set alias (Link t) (tz_zones db)\<rparr>, None))"

text \<open>
  One line of a file: a line that starts with white space continues the last zone, whose name
  is carried along.
\<close>

definition line_words :: "string option \<Rightarrow> string \<Rightarrow> string list" where
  "line_words zone l =
     (let l1 = (if l \<noteq> [] \<and> is_space (hd l)
                then ''Zone '' @ (case zone of Some z \<Rightarrow> z | None \<Rightarrow> ''null'') @ l else l);
          l2 = takeWhile (\<lambda>c. c \<noteq> CHR ''#'') l1
      in if length l2 > 3 then split_ws l2 else [])"

definition parse_line :: "string \<Rightarrow> string option \<Rightarrow> tz_db \<Rightarrow> string option \<times> outcome" where
  "parse_line l zone db =
     (case line_words zone l of
        [] \<Rightarrow> (zone, db, None)
      | chunk # ws \<Rightarrow>
          if chunk = ''Zone'' then (Some (first_word ws), zone_line ws db)
          else if chunk = ''Rule'' then (zone, rule_line ws db)
          else if chunk = ''Link'' then (zone, link_line ws db)
          else (zone, db, None))"

fun parse_lines :: "string list \<Rightarrow> string option \<Rightarrow> tz_db \<Rightarrow> outcome" where
  "parse_lines [] zone db = (db, None)"
| "parse_lines (l # ls) zone db =
     (case parse_line l zone db of
        (zone', db', None) \<Rightarrow> parse_lines ls zone' db'
      | (zone', db', Some e) \<Rightarrow> (db', Some e))"

definition parseZones :: "string \<Rightarrow> tz_db \<Rightarrow> outcome" where
  "parseZones str db = parse_lines (split_on (CHR ''\<newline>'') str) None db"

section \<open>The era of a moment\<close>

text \<open>
  \<open>getZone\<close> looks for the last era that ended before the moment, from the end of the list, and
  takes the one after it. An end that is missing, invalid or zero is false in the test.
\<close>

definition ended :: "int \<Rightarrow> era \<Rightarrow> bool" where
  "ended t e = (case e_until e of Some u \<Rightarrow> u \<noteq> 0 \<and> t > u | None \<Rightarrow> False)"

fun era_scan :: "int \<Rightarrow> era list \<Rightarrow> nat \<Rightarrow> era option" where
  "era_scan t es 0 = nth_opt es 0"
| "era_scan t es (Suc i) = (if ended t (es ! i) then nth_opt es (Suc i) else era_scan t es i)"

section \<open>The rule of a moment\<close>

definition getAdjustedOffset :: "rat \<Rightarrow> rule \<Rightarrow> int" where
  "getAdjustedOffset off r = - \<lceil>r_save r - off\<rceil>"

text \<open>The date a rule takes effect in a year; \<open>None\<close> is an invalid date.\<close>

definition month_of_rule :: "rule \<Rightarrow> int option" where
  "month_of_rule r = SHORT_MONTHS (r_in r)"

definition hunt :: "bool \<Rightarrow> int \<Rightarrow> int \<Rightarrow> int" where
  "hunt forward targetDay t =
     (let ourDay = weekday_of t in
      if forward then set_date (date_of t + (targetDay - ourDay + (if targetDay < ourDay then 7 else 0))) t
      else set_date (date_of t + (targetDay - ourDay - (if targetDay > ourDay then 7 else 0))) t)"

definition exact_date :: "int \<Rightarrow> rule \<Rightarrow> int option" where
  "exact_date yr r =
     (let a = r_at r; on = r_on r;
          moment = (\<lambda>m d h. Date_UTC yr m d h (at_m a) (at_s a) 0)
      in case month_of_rule r of
           None \<Rightarrow> None
         | Some m \<Rightarrow>
             (case to_number on of
                Fin d \<Rightarrow> Some (moment m (trunc d) (at_h a))
              | Infinite _ \<Rightarrow> None
              | Not_a_number \<Rightarrow>
                  if take 4 on = ''last''
                  then map_option (\<lambda>wd. hunt False wd (moment (m + 1) 1 (at_h a - 24))) (SHORT_DAYS (take 3 (drop 4 on)))
                  else case (to_number (drop 5 on), SHORT_DAYS (take 3 on)) of
                         (Fin d, Some wd) \<Rightarrow> Some (hunt (take 2 (drop 3 on) = ''>='') wd (moment m (trunc d) (at_h a)))
                       | _ \<Rightarrow> None))"

text \<open>\<open>convertDateToUTC\<close>: the letter of a parsed time is always one of the kinds.\<close>

definition convertDateToUTC :: "rat \<Rightarrow> char option \<Rightarrow> rule \<Rightarrow> int \<Rightarrow> int" where
  "convertDateToUTC basicOffset kind r t =
     t + (if kind \<in> {Some (CHR ''u''), Some (CHR ''g''), Some (CHR ''z'')} then 0
          else if kind = Some (CHR ''s'') then \<lfloor>basicOffset * 60000\<rfloor>
          else getAdjustedOffset basicOffset r * 60000)"

definition applies :: "int \<Rightarrow> rule \<Rightarrow> bool" where
  "applies yr r =
     (case r_from r of
        None \<Rightarrow> False
      | Some f \<Rightarrow> f \<le> yr \<and>
          ((case r_to r of To_year y \<Rightarrow> y \<ge> yr
            | To_text t \<Rightarrow> num_le (Fin (of_int yr)) (to_number t)) \<or>
           (f = yr \<and> r_to r = To_text ''only'') \<or> r_to r = To_text ''max''))"

text \<open>The list that is sorted holds the rules of a year and, among them, the date itself.\<close>

datatype entry = Applicable int rule | The_date

definition findApplicableRules :: "int \<Rightarrow> rule list \<Rightarrow> entry list" where
  "findApplicableRules yr rs = map (Applicable yr) (filter (applies yr) rs)"

text \<open>The time of an entry as \<open>compareDates\<close> computes it; \<open>prev\<close> is its third argument.\<close>

fun entry_time :: "rat \<Rightarrow> int \<Rightarrow> bool \<Rightarrow> rule option \<Rightarrow> entry \<Rightarrow> int option" where
  "entry_time off dt isUTC prev (Applicable yr r) =
     (case prev of None \<Rightarrow> exact_date yr r
      | Some p \<Rightarrow> map_option (convertDateToUTC off (at_kind (r_at r)) p) (exact_date yr r))"
| "entry_time off dt isUTC prev The_date =
     (case prev of None \<Rightarrow> Some dt
      | Some p \<Rightarrow> Some (convertDateToUTC off (if isUTC then Some (CHR ''u'') else Some (CHR ''w'')) p dt))"

definition compareDates :: "rat \<Rightarrow> int \<Rightarrow> bool \<Rightarrow> entry \<Rightarrow> entry \<Rightarrow> rule option \<Rightarrow> int option" where
  "compareDates off dt isUTC a b prev =
     (case (entry_time off dt isUTC prev a, entry_time off dt isUTC prev b) of
        (Some x, Some y) \<Rightarrow> Some (x - y) | _ \<Rightarrow> None)"

definition sort_entries :: "rat \<Rightarrow> int \<Rightarrow> entry list \<Rightarrow> entry list result" where
  "sort_entries off dt es =
     (if list_all (\<lambda>e. entry_time off dt False None e \<noteq> None) es
      then Inr (sort_key (\<lambda>e. the (entry_time off dt False None e)) es)
      else Inl Unspecified_order)"

fun date_index :: "entry list \<Rightarrow> nat" where
  "date_index [] = 0"
| "date_index (e # es) = (case e of The_date \<Rightarrow> 0 | Applicable y r \<Rightarrow> Suc (date_index es))"

fun rule_of :: "entry \<Rightarrow> rule option" where
  "rule_of (Applicable y r) = Some r"
| "rule_of The_date = None"

definition pick_rule :: "rat \<Rightarrow> int \<Rightarrow> bool \<Rightarrow> entry list \<Rightarrow> rule option" where
  "pick_rule off dt isUTC es =
     (let p = date_index es;
          before = (\<lambda>i j. case compareDates off dt isUTC The_date (es ! i) (rule_of (es ! j)) of
                            Some d \<Rightarrow> d < 0 | None \<Rightarrow> False);
          after = (\<lambda>i j. case compareDates off dt isUTC The_date (es ! i) (rule_of (es ! j)) of
                            Some d \<Rightarrow> d > 0 | None \<Rightarrow> False)
      in if p > 1 \<and> before (p - 1) (p - 2) then rule_of (es ! (p - 2))
         else if p > 0 \<and> p < length es - 1 \<and> after (p + 1) (p - 1) then rule_of (es ! (p + 1))
         else if p = 0 then None
         else rule_of (es ! (p - 1)))"

definition getRule :: "tz_db \<Rightarrow> int \<Rightarrow> era \<Rightarrow> bool \<Rightarrow> rule option result" where
  "getRule db dt zone isUTC =
     (let rs = rules_of db (e_rules zone); yr = year_of dt; off = e_offset zone
      in bindE (sort_entries off dt (findApplicableRules yr rs @ [The_date])) (\<lambda>es.
         bindE (if date_index es < 2 then sort_entries off dt (es @ findApplicableRules (yr - 1) rs) else Inr es)
           (\<lambda>es'. Inr (pick_rule off dt isUTC es'))))"

text \<open>The abbreviation of a zone; without a rule a format with two alternatives throws.\<close>

fun replace_s :: "string \<Rightarrow> string \<Rightarrow> string option" where
  "replace_s w [] = None"
| "replace_s w (c # s) =
     (if c = CHR ''%'' \<and> take 1 s = ''s'' then Some (w @ drop 1 s) else map_option (Cons c) (replace_s w s))"

definition getAbbreviation :: "era \<Rightarrow> rule option \<Rightarrow> string result" where
  "getAbbreviation zone r =
     (let base = e_format zone;
          w = (case r of None \<Rightarrow> ''S''
               | Some r \<Rightarrow> (case r_letter r of None \<Rightarrow> ''undefined'' | Some l \<Rightarrow> if l = ''-'' then [] else l))
      in case replace_s w base of
           Some res \<Rightarrow> Inr res
         | None \<Rightarrow>
             if CHR ''/'' \<in> set base
             then (case r of None \<Rightarrow> Inl Type_error
                   | Some r \<Rightarrow> Inr (split_on (CHR ''/'') base ! (if r_save r \<noteq> 0 then 1 else 0)))
             else Inr base)"

end
