(* ===== verification/Tz_Load.thy ===== *)
theory Tz_Load
  imports Tz_Zones "HOL-Library.Monad_Syntax"
begin

text \<open>
  Loading of the zone files and \<open>timezoneJS.timezone.getTzInfo\<close>, with \<open>loadZoneFile\<close> as
  \<open>timezone-js-jquery.js\<close> overrides it: one synchronous request per file, made when a zone of
  the file is first used. The web server is the parameter \<open>server\<close>: the text of a file, or
  \<open>None\<close> when the request fails. The tables are passed along; a call gives its value or the
  exception together with the tables it leaves.

  Links can form a cycle, on which the two loops that follow them do not end. So the calls are
  partial functions: \<open>None\<close> is a call that never returns.
\<close>

type_synonym 'a tz = "tz_db \<Rightarrow> ('a result \<times> tz_db) option"

definition ret :: "'a \<Rightarrow> 'a tz" where "ret x db = Some (Inr x, db)"
definition throw :: "tz_error \<Rightarrow> 'a tz" where "throw e db = Some (Inl e, db)"

definition bindT :: "'a tz \<Rightarrow> ('a \<Rightarrow> 'b tz) \<Rightarrow> 'b tz" where
  "bindT f g db = (case f db of None \<Rightarrow> None | Some (Inl e, db') \<Rightarrow> Some (Inl e, db') | Some (Inr x, db') \<Rightarrow> g x db')"

definition liftE :: "'a result \<Rightarrow> 'a tz" where "liftE r db = Some (r, db)"

section \<open>The file of a zone\<close>

definition regionMap :: "(string \<times> string) list" where
  "regionMap =
  [ (''Etc'', ''etcetera''), (''EST'', ''northamerica''), (''MST'', ''northamerica''),
    (''HST'', ''northamerica''), (''EST5EDT'', ''northamerica''), (''CST6CDT'', ''northamerica''),
    (''MST7MDT'', ''northamerica''), (''PST8PDT'', ''northamerica''), (''America'', ''northamerica''),
    (''Pacific'', ''australasia''), (''Atlantic'', ''europe''), (''Africa'', ''africa''),
    (''Indian'', ''africa''), (''Antarctica'', ''antarctica''), (''Asia'', ''asia''),
    (''Australia'', ''australasia''), (''Europe'', ''europe''), (''WET'', ''europe''), (''CET'', ''europe''),
    (''MET'', ''europe''), (''EET'', ''europe'')]"

definition regionExceptions :: "(string \<times> string) list" where
  "regionExceptions =
  [ (''Pacific/Honolulu'', ''northamerica''), (''Atlantic/Bermuda'', ''northamerica''),
    (''Atlantic/Cape_Verde'', ''africa''), (''Atlantic/St_Helena'', ''africa''),
    (''Indian/Kerguelen'', ''antarctica''), (''Indian/Chagos'', ''asia''), (''Indian/Maldives'', ''asia''),
    (''Indian/Christmas'', ''australasia''), (''Indian/Cocos'', ''australasia''),
    (''America/Danmarkshavn'', ''europe''), (''America/Scoresbysund'', ''europe''),
    (''America/Godthab'', ''europe''), (''America/Thule'', ''europe''), (''Asia/Yekaterinburg'', ''europe''),
    (''Asia/Omsk'', ''europe''), (''Asia/Novosibirsk'', ''europe''), (''Asia/Krasnoyarsk'', ''europe''),
    (''Asia/Irkutsk'', ''europe''), (''Asia/Yakutsk'', ''europe''), (''Asia/Vladivostok'', ''europe''),
    (''Asia/Sakhalin'', ''europe''), (''Asia/Magadan'', ''europe''), (''Asia/Kamchatka'', ''europe''),
    (''Asia/Anadyr'', ''europe''), (''Africa/Ceuta'', ''europe''),
    (''America/Argentina/Buenos_Aires'', ''southamerica''), (''America/Argentina/Cordoba'', ''southamerica''),
    (''America/Argentina/Tucuman'', ''southamerica''), (''America/Argentina/La_Rioja'', ''southamerica''),
    (''America/Argentina/San_Juan'', ''southamerica''), (''America/Argentina/Jujuy'', ''southamerica''),
    (''America/Argentina/Catamarca'', ''southamerica''), (''America/Argentina/Mendoza'', ''southamerica''),
    (''America/Argentina/Rio_Gallegos'', ''southamerica''), (''America/Argentina/Ushuaia'', ''southamerica''),
    (''America/Aruba'', ''southamerica''), (''America/La_Paz'', ''southamerica''),
    (''America/Noronha'', ''southamerica''), (''America/Belem'', ''southamerica''),
    (''America/Fortaleza'', ''southamerica''), (''America/Recife'', ''southamerica''),
    (''America/Araguaina'', ''southamerica''), (''America/Maceio'', ''southamerica''),
    (''America/Bahia'', ''southamerica''), (''America/Sao_Paulo'', ''southamerica''),
    (''America/Campo_Grande'', ''southamerica''), (''America/Cuiaba'', ''southamerica''),
    (''America/Porto_Velho'', ''southamerica''), (''America/Boa_Vista'', ''southamerica''),
    (''America/Manaus'', ''southamerica''), (''America/Eirunepe'', ''southamerica''),
    (''America/Rio_Branco'', ''southamerica''), (''America/Santiago'', ''southamerica''),
    (''Pacific/Easter'', ''southamerica''), (''America/Bogota'', ''southamerica''),
    (''America/Curacao'', ''southamerica''), (''America/Guayaquil'', ''southamerica''),
    (''Pacific/Galapagos'', ''southamerica''), (''Atlantic/Stanley'', ''southamerica''),
    (''America/Cayenne'', ''southamerica''), (''America/Guyana'', ''southamerica''),
    (''America/Asuncion'', ''southamerica''), (''America/Lima'', ''southamerica''),
    (''Atlantic/South_Georgia'', ''southamerica''), (''America/Paramaribo'', ''southamerica''),
    (''America/Port_of_Spain'', ''southamerica''), (''America/Montevideo'', ''southamerica''),
    (''America/Caracas'', ''southamerica'')]"

definition loadZoneFile :: "(string \<Rightarrow> string option) \<Rightarrow> string option \<Rightarrow> string \<Rightarrow> tz_db \<Rightarrow> outcome" where
  "loadZoneFile server base fileName db =
     (case base of
        None \<Rightarrow> (db, Some No_base_path)
      | Some path \<Rightarrow>
          let url = path @ ''/'' @ fileName in
          case server url of
            None \<Rightarrow> (db, Some (Load_failed url))
          | Some txt \<Rightarrow>
              (case parseZones txt db of
                 (db', Some e) \<Rightarrow> (db', Some e)
               | (db', None) \<Rightarrow> (db'\<lparr>tz_loaded := List.insert fileName (tz_loaded db')\<rparr>, None)))"

text \<open>\<open>loadZoneDataFromObject\<close>: zones and rules that are there already are replaced.\<close>

definition loadZoneDataFromObject :: "(string \<times> zone_entry) list \<Rightarrow> (string \<times> rule list) list \<Rightarrow> tz_db \<Rightarrow> tz_db" where
  "loadZoneDataFromObject zs rs db =
     db\<lparr>tz_zones := fold (\<lambda>(z, e). obj_set z e) zs (tz_zones db),
        tz_rules := fold (\<lambda>(n, r). obj_set n r) rs (tz_rules db)\<rparr>"

type_synonym env = "(string \<Rightarrow> string option) \<times> string option"

definition load :: "env \<Rightarrow> string \<Rightarrow> tz_db \<Rightarrow> outcome" where
  "load env = loadZoneFile (fst env) (snd env)"

text \<open>\<open>init\<close>, which the layout of the pages calls, loads the default file.\<close>

definition tz_init :: "env \<Rightarrow> tz_db \<Rightarrow> outcome" where
  "tz_init env = load env ''northamerica''"

partial_function (option) getRegionForTimezone :: "env \<Rightarrow> string \<Rightarrow> tz_db \<Rightarrow> (string result \<times> tz_db) option" where
  "getRegionForTimezone env tz db =
     (case map_of regionExceptions tz of
        Some reg \<Rightarrow> Some (Inr reg, db)
      | None \<Rightarrow>
          (case map_of regionMap (hd (split_on (CHR ''/'') tz)) of
             Some reg \<Rightarrow> Some (Inr reg, db)
           | None \<Rightarrow>
               (case map_of (tz_zones db) tz of
                  Some (Link l) \<Rightarrow> getRegionForTimezone env l db
                | _ \<Rightarrow>
                    if ''backward'' \<notin> set (tz_loaded db)
                    then (case load env ''backward'' db of
                            (db', Some e) \<Rightarrow> Some (Inl e, db')
                          | (db', None) \<Rightarrow> getRegionForTimezone env tz db')
                    else Some (Inl (Bad_timezone tz), db))))"

declare getRegionForTimezone.simps [code]

section \<open>The zone and its offset\<close>

partial_function (option) follow_links :: "tz_db \<Rightarrow> string \<Rightarrow> (string \<times> era list option) option" where
  "follow_links db t =
     (case map_of (tz_zones db) t of
        Some (Link l) \<Rightarrow> follow_links db l
      | Some (Eras es) \<Rightarrow> Some (t, Some es)
      | None \<Rightarrow> Some (t, None))"

partial_function (option) getZone :: "env \<Rightarrow> int \<Rightarrow> string \<Rightarrow> tz_db \<Rightarrow> (era option result \<times> tz_db) option" where
  "getZone env dt tz db =
     do {
       (t, found) \<leftarrow> follow_links db tz;
       (case found of
          None \<Rightarrow>
            if ''backward'' \<notin> set (tz_loaded db)
            then (case load env ''backward'' db of
                    (db', Some e) \<Rightarrow> Some (Inl e, db')
                  | (db', None) \<Rightarrow> getZone env dt tz db')
            else Some (Inl (Bad_timezone t), db)
        | Some es \<Rightarrow>
            if es = [] then Some (Inl (No_zone tz), db)
            else Some (Inr (era_scan dt es (length es)), db))
     }"

declare follow_links.simps [code] getZone.simps [code]

record tz_info =
  tzOffset :: rat
  tzAbbr :: "string option"

text \<open>\<open>getTzInfo\<close> under the scheme \<open>LAZY_LOAD\<close>, which the layout of the pages chooses.\<close>

definition zone_info :: "int \<Rightarrow> bool \<Rightarrow> era \<Rightarrow> tz_db \<Rightarrow> tz_info result" where
  "zone_info dt isUTC z db =
     bindE (getRule db dt z isUTC) (\<lambda>r.
     bindE (getAbbreviation z r) (\<lambda>ab.
       Inr \<lparr>tzOffset = (case r of Some r' \<Rightarrow> of_int (getAdjustedOffset (e_offset z) r') | None \<Rightarrow> e_offset z),
            tzAbbr = Some ab\<rparr>))"

definition load_region :: "env \<Rightarrow> string \<Rightarrow> unit tz" where
  "load_region env zoneFile db =
     (if zoneFile \<in> set (tz_loaded db) then ret () db
      else case load env zoneFile db of (db', None) \<Rightarrow> ret () db' | (db', Some e) \<Rightarrow> throw e db')"

definition getTzInfo :: "env \<Rightarrow> int \<Rightarrow> string \<Rightarrow> bool \<Rightarrow> tz_info tz" where
  "getTzInfo env dt tz isUTC =
     bindT (getRegionForTimezone env tz) (\<lambda>zoneFile.
     bindT (load_region env zoneFile) (\<lambda>_.
     bindT (getZone env dt tz) (\<lambda>z.
       case z of None \<Rightarrow> throw Type_error
       | Some er \<Rightarrow> (\<lambda>db. liftE (zone_info dt isUTC er db) db))))"

end
