(* ===== verification/Tz_Date.thy ===== *)
theory Tz_Date
  imports Tz_Load
begin

text \<open>
  The class \<open>timezoneJS.Date\<close> of \<open>date.js\<close>: a date that carries its fields as they read in its
  zone, the zone, the cached offset and the date object it was last set from. That object is a
  \<open>Date\<close> of the browser (a time value) or, after \<open>setTimezone\<close>, another date of this class.

  The zone of the browser is a parameter: the two functions of the language standard between
  time values and local time.
\<close>

record browser =
  to_local :: "int \<Rightarrow> int"
  from_local :: "int \<Rightarrow> int"

definition browser_offset :: "browser \<Rightarrow> int \<Rightarrow> rat" where
  "browser_offset br t = of_int (t - to_local br t) / 60000"

section \<open>State\<close>

record dfields =
  f_year :: int
  f_month :: int
  f_date :: int
  f_hours :: int
  f_minutes :: int
  f_seconds :: int
  f_millis :: int

datatype tzd = Tzd (td_fields: dfields) (td_day: int) (td_zone: "string option") (td_utc: bool)
    (td_cache: "tz_info option") (td_proxy: proxy)
  and proxy = Native int | Clone tzd

definition fields_at :: "int \<Rightarrow> dfields" where
  "fields_at t = \<lparr>f_year = year_of t, f_month = month_of t, f_date = date_of t, f_hours = hour_of t,
     f_minutes = minute_of t, f_seconds = second_of t, f_millis = milli_of t\<rparr>"

text \<open>\<open>Date.UTC\<close> of the array of the fields; its eighth element, the zone, is ignored.\<close>

definition fields_utc :: "dfields \<Rightarrow> int" where
  "fields_utc f = Date_UTC (f_year f) (f_month f) (f_date f) (f_hours f) (f_minutes f) (f_seconds f) (f_millis f)"

definition is_utc_name :: "string option \<Rightarrow> bool" where
  "is_utc_name tz = (tz = Some ''Etc/UTC'' \<or> tz = Some ''Etc/GMT'')"

datatype unit_name = Year | Month | Day | Hours | Minutes | Seconds | Millis

fun set_unit :: "unit_name \<Rightarrow> int \<Rightarrow> int \<Rightarrow> int" where
  "set_unit Year = set_year"
| "set_unit Month = set_month"
| "set_unit Day = set_date"
| "set_unit Hours = set_hours"
| "set_unit Minutes = set_minutes"
| "set_unit Seconds = set_seconds"
| "set_unit Millis = set_millis"

section \<open>Offset\<close>

text \<open>
  \<open>getTimezoneInfo\<close>: fixed for UTC, the cached one, the one of the zone, or else the offset of
  the date object underneath. The date is returned with the cache it has then.
\<close>

fun getTimezoneInfo :: "browser \<Rightarrow> env \<Rightarrow> tzd \<Rightarrow> (tz_info \<times> tzd) tz"
  and proxy_offset :: "browser \<Rightarrow> env \<Rightarrow> proxy \<Rightarrow> (rat \<times> proxy) tz" where
  "getTimezoneInfo br env (Tzd f w z u c p) =
     (if u then ret (\<lparr>tzOffset = 0, tzAbbr = Some ''UTC''\<rparr>, Tzd f w z u c p)
      else case c of
             Some i \<Rightarrow> ret (i, Tzd f w z u c p)
           | None \<Rightarrow>
               if z \<noteq> None \<and> z \<noteq> Some []
               then bindT (getTzInfo env (fields_utc f) (the z) False)
                      (\<lambda>i. ret (i, Tzd f w z u (Some i) p))
               else bindT (proxy_offset br env p)
                      (\<lambda>(off, p'). let i = \<lparr>tzOffset = off, tzAbbr = None\<rparr> in ret (i, Tzd f w z u (Some i) p')))"
| "proxy_offset br env (Native t) = ret (browser_offset br t, Native t)"
| "proxy_offset br env (Clone d) =
     bindT (getTimezoneInfo br env d) (\<lambda>(i, d'). ret (tzOffset i, Clone d'))"

definition getTimezoneOffset :: "browser \<Rightarrow> env \<Rightarrow> tzd \<Rightarrow> (rat \<times> tzd) tz" where
  "getTimezoneOffset br env d = bindT (getTimezoneInfo br env d) (\<lambda>(i, d'). ret (tzOffset i, d'))"

text \<open>\<open>getTime\<close>; the offsets are whole milliseconds, so the product is one too.\<close>

definition getTime :: "browser \<Rightarrow> env \<Rightarrow> tzd \<Rightarrow> (int \<times> tzd) tz" where
  "getTime br env d =
     bindT (getTimezoneOffset br env d) (\<lambda>(off, d'). ret (fields_utc (td_fields d) + \<lfloor>off * 60 * 1000\<rfloor>, d'))"

text \<open>\<open>getUTCDateProxy\<close>: the time value whose UTC reading is the date in UTC.\<close>

definition getUTCDateProxy :: "browser \<Rightarrow> env \<Rightarrow> tzd \<Rightarrow> (int \<times> tzd) tz" where
  "getUTCDateProxy br env d =
     (let dt = fields_utc (td_fields d) in
      bindT (getTimezoneOffset br env d) (\<lambda>(off, d').
        ret (set_minutes (trunc (of_int (minute_of dt) + off)) dt, d')))"

definition getUTC :: "browser \<Rightarrow> env \<Rightarrow> (int \<Rightarrow> 'a) \<Rightarrow> tzd \<Rightarrow> ('a \<times> tzd) tz" where
  "getUTC br env reader d = bindT (getUTCDateProxy br env d) (\<lambda>(t, d'). ret (reader t, d'))"

section \<open>Setting the fields\<close>

text \<open>\<open>setFromDateObjProxy\<close> with a date of the browser and with a date of the class.\<close>

definition from_native :: "browser \<Rightarrow> bool \<Rightarrow> int \<Rightarrow> tzd \<Rightarrow> tzd" where
  "from_native br fromUTC t d =
     (let r = (if fromUTC then t else to_local br t)
      in Tzd (fields_at r) (weekday_of r) (td_zone d) (td_utc d) None (Native t))"

definition from_clone :: "browser \<Rightarrow> env \<Rightarrow> bool \<Rightarrow> tzd \<Rightarrow> tzd \<Rightarrow> tzd tz" where
  "from_clone br env fromUTC c d =
     (if fromUTC
      then bindT (getUTCDateProxy br env c) (\<lambda>(t, c').
             ret (Tzd (fields_at t) (weekday_of t) (td_zone d) (td_utc d) None (Clone c')))
      else ret (Tzd (td_fields c) (td_day c) (td_zone d) (td_utc d) None (Clone c)))"

text \<open>A number that a setter is given; \<open>None\<close> is \<open>NaN\<close>, on which it throws.\<close>

definition setUTCAttribute :: "browser \<Rightarrow> env \<Rightarrow> unit_name \<Rightarrow> rat option \<Rightarrow> tzd \<Rightarrow> tzd tz" where
  "setUTCAttribute br env unit n d =
     (case n of
        None \<Rightarrow> throw Units_error
      | Some x \<Rightarrow>
          bindT (getUTCDateProxy br env d) (\<lambda>(dt, d1).
          bindT (getTimezoneOffset br env d1) (\<lambda>(off, d2).
            let dt1 = set_unit unit (trunc x) dt;
                dt2 = set_minutes (trunc (of_int (minute_of dt1) - off)) dt1
            in ret (from_native br True dt2 d2))))"

fun setAttribute :: "browser \<Rightarrow> unit_name \<Rightarrow> rat option \<Rightarrow> tzd \<Rightarrow> tzd tz"
  and proxy_set :: "browser \<Rightarrow> unit_name \<Rightarrow> rat option \<Rightarrow> proxy \<Rightarrow> tzd \<Rightarrow> tzd tz" where
  "setAttribute br unit n (Tzd f w z u c p) = proxy_set br unit n p (Tzd f w z u c p)"
| "proxy_set br unit n (Native t) d =
     (case n of
        None \<Rightarrow> throw Units_error
      | Some x \<Rightarrow> ret (from_native br False (from_local br (set_unit unit (trunc x) (to_local br t))) d))"
| "proxy_set br unit n (Clone c) d =
     bindT (setAttribute br unit n c) (\<lambda>c'. ret (Tzd (td_fields c') (td_day c') (td_zone d) (td_utc d) None (Clone c')))"

section \<open>Constructors\<close>

text \<open>
  A zone name given to the constructor counts as one when it starts with letters and a slash.
\<close>

definition letter :: "char \<Rightarrow> bool" where
  "letter c = (let n = of_char c :: nat in (97 \<le> n \<and> n \<le> 122) \<or> (65 \<le> n \<and> n \<le> 90))"

definition zone_name :: "string \<Rightarrow> bool" where
  "zone_name s = (let r = dropWhile letter s in length r < length s \<and> take 1 r = ''/'')"

definition blank_date :: "string option \<Rightarrow> tzd" where
  "blank_date tz = Tzd (fields_at 0) 0 tz (is_utc_name tz) None (Native 0)"

text \<open>From a time value, with a zone or without one.\<close>

definition setFromTimeProxy :: "browser \<Rightarrow> env \<Rightarrow> int \<Rightarrow> string option \<Rightarrow> tzd \<Rightarrow> tzd tz" where
  "setFromTimeProxy br env utcMillis tz d =
     bindT (case tz of
              Some z \<Rightarrow> bindT (getTzInfo env utcMillis z False) (\<lambda>i. ret (tzOffset i))
            | None \<Rightarrow> ret (browser_offset br utcMillis))
       (\<lambda>tzOff. ret (from_native br True (\<lfloor>of_int utcMillis - tzOff * 60000\<rfloor>) d))"

definition new_from_millis :: "browser \<Rightarrow> env \<Rightarrow> int \<Rightarrow> string option \<Rightarrow> tzd tz" where
  "new_from_millis br env utcMillis tz = setFromTimeProxy br env utcMillis tz (blank_date tz)"

definition setTime :: "browser \<Rightarrow> env \<Rightarrow> int option \<Rightarrow> tzd \<Rightarrow> tzd tz" where
  "setTime br env n d = (case n of None \<Rightarrow> throw Units_error | Some t \<Rightarrow> setFromTimeProxy br env t (td_zone d) d)"

text \<open>\<open>clone\<close>: from the array of the fields; they are read as a local time of the browser.\<close>

definition clone :: "browser \<Rightarrow> tzd \<Rightarrow> tzd" where
  "clone br d =
     (let tz = (case td_zone d of Some z \<Rightarrow> if zone_name z then Some z else None | None \<Rightarrow> None)
      in from_native br False (from_local br (fields_utc (td_fields d))) (blank_date tz))"

section \<open>Changing the zone\<close>

definition setTimezone :: "browser \<Rightarrow> env \<Rightarrow> string \<Rightarrow> tzd \<Rightarrow> tzd tz" where
  "setTimezone br env tz d =
     bindT (getTimezoneOffset br env d) (\<lambda>(previousOffset, d0).
       let d1 = Tzd (td_fields d0) (td_day d0) (Some tz) (is_utc_name (Some tz)) None (td_proxy d0);
           c = clone br d1
       in bindT (getUTC br env minute_of c) (\<lambda>(mi, c1).
          bindT (getTimezoneOffset br env d1) (\<lambda>(off, d2).
          bindT (setUTCAttribute br env Minutes (Some (of_int mi - off + previousOffset)) c1) (\<lambda>c2.
            from_clone br env (td_utc d2) c2 d2))))"

definition removeTimezone :: "tzd \<Rightarrow> tzd" where
  "removeTimezone d = Tzd (td_fields d) (td_day d) None False None (td_proxy d)"

section \<open>Printing\<close>

text \<open>A global replacement of the runs of the characters that satisfy \<open>P\<close>.\<close>

function replace_runs :: "(char \<Rightarrow> bool) \<Rightarrow> (nat \<Rightarrow> string) \<Rightarrow> string \<Rightarrow> string" where
  "replace_runs P f [] = []"
| "replace_runs P f (c # s) =
     (if P c then f (Suc (length (takeWhile P s))) @ replace_runs P f (dropWhile P s)
      else c # replace_runs P f s)"
  by pat_completeness auto
termination
  by (relation "measure (\<lambda>(P, f, s). length s)") (auto simp: less_Suc_eq_le length_dropWhile_le)

text \<open>The marks of the half of the day; each run of \<open>k\<close> takes 12 off the hours above 12.\<close>

function replace_half :: "int \<Rightarrow> string \<Rightarrow> string \<times> int" where
  "replace_half hours [] = ([], hours)"
| "replace_half hours (c # s) =
     (if c = CHR ''k''
      then (let (w, h) = (if hours \<ge> 12 then (''PM'', if hours > 12 then hours - 12 else hours) else (''AM'', hours));
                (r, h') = replace_half h (dropWhile (\<lambda>c. c = CHR ''k'') s)
            in (w @ r, h'))
      else (let (r, h') = replace_half hours s in (c # r, h')))"
  by pat_completeness auto
termination
  by (relation "measure (\<lambda>(h, s). length s)") (auto simp: less_Suc_eq_le length_dropWhile_le)

definition month_text :: "int \<Rightarrow> nat \<Rightarrow> string" where
  "month_text m len =
     (if len > 3 then MONTHS ! nat m else if len > 2 then take len (MONTHS ! nat m) else fixWidth (m + 1) len)"

definition format_date :: "string \<Rightarrow> tzd \<Rightarrow> string option \<Rightarrow> string" where
  "format_date fmt d ab =
     (let f = td_fields d;
          s0 = replace_runs (\<lambda>c. c = CHR ''a'') (\<lambda>_. ''k'') fmt;
          s1 = replace_runs (\<lambda>c. c = CHR ''y'') (fixWidth (f_year f)) s0;
          s2 = replace_runs (\<lambda>c. c = CHR ''d'') (fixWidth (f_date f)) s1;
          s3 = replace_runs (\<lambda>c. c = CHR ''m'') (fixWidth (f_minutes f)) s2;
          s4 = replace_runs (\<lambda>c. c = CHR ''s'') (fixWidth (f_seconds f)) s3;
          s5 = replace_runs (\<lambda>c. c = CHR ''S'') (fixWidth (f_millis f)) s4;
          s6 = replace_runs (\<lambda>c. c = CHR ''M'') (month_text (f_month f)) s5;
          (s7, hours) = replace_half (f_hours f) s6;
          s8 = replace_runs (\<lambda>c. c = CHR ''H'') (fixWidth hours) s7;
          s9 = replace_runs (\<lambda>c. c = CHR ''E'') (\<lambda>n. take n (DAYS ! nat (td_day d))) s8
      in replace_runs (\<lambda>c. c = CHR ''Z'' \<or> c = CHR ''z'') (\<lambda>_. case ab of Some a \<Rightarrow> a | None \<Rightarrow> ''null'') s9)"

definition date_toString :: "browser \<Rightarrow> env \<Rightarrow> string \<Rightarrow> string option \<Rightarrow> tzd \<Rightarrow> string tz" where
  "date_toString br env fmt tz d =
     (case tz of
        None \<Rightarrow> bindT (getTimezoneInfo br env d) (\<lambda>(i, d'). ret (format_date fmt d' (tzAbbr i)))
      | Some z \<Rightarrow>
          bindT (getTime br env d) (\<lambda>(t, d1).
          bindT (getTzInfo env t z False) (\<lambda>i.
          bindT (setTimezone br env z (clone br d1)) (\<lambda>c.
            ret (format_date fmt c (tzAbbr i))))))"

definition toISOString :: "browser \<Rightarrow> env \<Rightarrow> tzd \<Rightarrow> string tz" where
  "toISOString br env d =
     bindT (date_toString br env ''yyyy-MM-ddTHH:mm:ss.SSS'' (Some ''Etc/UTC'') d) (\<lambda>s. ret (s @ ''Z''))"

definition toGMTString :: "browser \<Rightarrow> env \<Rightarrow> tzd \<Rightarrow> string tz" where
  "toGMTString br env d = date_toString br env ''EEE, dd MMM yyyy HH:mm:ss Z'' (Some ''Etc/GMT'') d"

end
