(* ===== verification/Tz_Rules.thy ===== *)
theory Tz_Rules
  imports Tz_Load
begin

text \<open>
  Facts about the choice of the rule of a moment: the hunt for a weekday, zones without rules in
  force, zones that change twice a year by the clock on the wall, and the rules of the United
  States since 2007 as the zone file has them.
\<close>


section \<open>Hunting a weekday\<close>

lemma hunt_shift:
  assumes "0 \<le> wd" "wd < 7"
  shows "hunt True wd t = t + ((wd - weekday_of t) mod 7) * ms_per_day"
    "hunt False wd t = t - ((weekday_of t - wd) mod 7) * ms_per_day"
proof -
  have r: "0 \<le> weekday_of t" "weekday_of t < 7" by (rule weekday_range)+
  have "(wd - weekday_of t) mod 7 = wd - weekday_of t + (if wd < weekday_of t then 7 else 0)"
    using r assms by (intro int_mod_pos_eq [where q = "if wd < weekday_of t then -1 else 0"]) auto
  then show "hunt True wd t = t + ((wd - weekday_of t) mod 7) * ms_per_day"
    by (simp add: hunt_def set_date_shift Let_def)
  have "(weekday_of t - wd) mod 7 = weekday_of t - wd + (if weekday_of t < wd then 7 else 0)"
    using r assms by (intro int_mod_pos_eq [where q = "if weekday_of t < wd then -1 else 0"]) auto
  moreover have "set_date (date_of t + (wd - weekday_of t - k)) t = t - (weekday_of t - wd + k) * ms_per_day" for k
    using set_date_shift [of t "wd - weekday_of t - k"] by (simp add: algebra_simps)
  ultimately show "hunt False wd t = t - ((weekday_of t - wd) mod 7) * ms_per_day"
    by (simp add: hunt_def Let_def)
qed

text \<open>
  C22: The date of a rule: of a text like \<open>Sun>=8\<close>, the hunt finds that day of the week on the day it
  starts from or in the six days after it, of \<open>lastSun\<close> in the six days before.
\<close>

theorem hunt_finds_weekday:
  assumes "0 \<le> wd" "wd < 7"
  shows "weekday_of (hunt fw wd t) = wd \<and>
    (if fw then t \<le> hunt fw wd t \<and> hunt fw wd t < t + 7 * ms_per_day
     else hunt fw wd t \<le> t \<and> t - 7 * ms_per_day < hunt fw wd t)"
proof (cases fw)
  case True
  have m: "0 \<le> (wd - weekday_of t) mod 7" "(wd - weekday_of t) mod 7 < 7" by simp_all
  have "weekday_of (hunt True wd t) = (weekday_of t + (wd - weekday_of t) mod 7) mod 7"
    by (simp only: hunt_shift [OF assms] weekday_shift)
  also have "\<dots> = wd" using assms by (simp add: mod_simps)
  finally show ?thesis using True m by (simp add: hunt_shift [OF assms])
next
  case False
  have m: "0 \<le> (weekday_of t - wd) mod 7" "(weekday_of t - wd) mod 7 < 7" by simp_all
  have "hunt False wd t = t + (- ((weekday_of t - wd) mod 7)) * ms_per_day"
    by (simp add: hunt_shift [OF assms])
  then have "weekday_of (hunt False wd t) = (weekday_of t - (weekday_of t - wd) mod 7) mod 7"
    by (simp only: weekday_shift) simp
  also have "\<dots> = wd" using assms by (simp add: mod_simps)
  finally show ?thesis using False m by (simp add: hunt_shift [OF assms])
qed

lemma hunt_finds_weekday_witness:
  "weekday_of (hunt True 0 (Date_UTC 2012 2 8 2 0 0 0)) = 0 \<and> hunt True 0 (Date_UTC 2012 2 8 2 0 0 0) = Date_UTC 2012 2 11 2 0 0 0"
proof -
  have "hunt True 0 (Date_UTC 2012 2 8 2 0 0 0) = Date_UTC 2012 2 11 2 0 0 0" by code_simp
  then show ?thesis using hunt_finds_weekday [of 0 True "Date_UTC 2012 2 8 2 0 0 0"] by simp
qed

section \<open>Zones without rules\<close>

lemma getRule_no_rules:
  assumes "\<And>r. r \<in> set (rules_of db (e_rules z)) \<Longrightarrow> \<not> applies (year_of dt) r \<and> \<not> applies (year_of dt - 1) r"
  shows "getRule db dt z isUTC = Inr None"
proof -
  have f: "findApplicableRules (year_of dt) (rules_of db (e_rules z)) = []"
    "findApplicableRules (year_of dt - 1) (rules_of db (e_rules z)) = []"
    using assms by (simp_all add: findApplicableRules_def)
  then show ?thesis by (simp add: getRule_def f sort_entries_def pick_rule_def Let_def)
qed

section \<open>Zones that change twice a year by the clock on the wall\<close>

definition wall :: "rule \<Rightarrow> bool" where
  "wall r = (at_kind (r_at r) \<in> {None, Some (CHR ''w'')})"

lemma compare_wall:
  assumes "wall r" "exact_date y r = Some x"
  shows "compareDates off dt False The_date (Applicable y r) (Some p) = Some (dt - x)"
  using assms by (auto simp: compareDates_def wall_def convertDateToUTC_def)

lemma getRule_two:
  fixes a b a' b' dt :: int
  defines "y \<equiv> year_of dt"
  assumes rs: "findApplicableRules y rs = [Applicable y A, Applicable y B]"
    "findApplicableRules (y - 1) rs = [Applicable (y - 1) A, Applicable (y - 1) B]"
    and "rules_of db (e_rules z) = rs"
    and x: "exact_date y A = Some a" "exact_date y B = Some b"
    "exact_date (y - 1) A = Some a'" "exact_date (y - 1) B = Some b'"
    and o: "a' < b'" "b' < dt" "b' < a" "a < b"
    and w: "wall A" "wall B"
  shows "getRule db dt z False = Inr (Some (if a \<le> dt \<and> dt < b then A else B))"
proof -
  consider (before) "dt < a" | (between) "a \<le> dt" "dt < b" | (later) "b \<le> dt" by linarith
  then show ?thesis
  proof cases
    case before
    then show ?thesis using assms
      by (simp add: getRule_def sort_entries_def pick_rule_def compare_wall Let_def)
  next
    case between
    then show ?thesis using assms
      by (simp add: getRule_def sort_entries_def pick_rule_def compare_wall Let_def)
  next
    case later
    then show ?thesis using assms
      by (simp add: getRule_def sort_entries_def pick_rule_def compare_wall Let_def)
  qed
qed

section \<open>The United States since 2007\<close>

definition at_two :: at_time where
  "at_two = \<lparr>at_h = 2, at_m = 0, at_s = 0, at_kind = None\<rparr>"

definition us_daylight :: rule where
  "us_daylight = \<lparr>r_from = Some 2007, r_to = To_text ''max'', r_type = ''-'', r_in = ''Mar'',
     r_on = ''Sun>=8'', r_at = at_two, r_save = 60, r_letter = Some ''D''\<rparr>"

definition us_standard :: rule where
  "us_standard = \<lparr>r_from = Some 2007, r_to = To_text ''max'', r_type = ''-'', r_in = ''Nov'',
     r_on = ''Sun>=1'', r_at = at_two, r_save = 0, r_letter = Some ''S''\<rparr>"

definition old_rule :: "rule \<Rightarrow> bool" where
  "old_rule r = (case r_to r of To_year y \<Rightarrow> y < 2007
     | To_text t \<Rightarrow> t = ''only'' \<and> (case r_from r of Some f \<Rightarrow> f < 2007 | None \<Rightarrow> True))"

text \<open>The two changes of a year: the second Sunday of March and the first one of November, at two.\<close>

definition us_spring :: "int \<Rightarrow> int" where
  "us_spring y = hunt True 0 (Date_UTC y 2 8 2 0 0 0)"

definition us_autumn :: "int \<Rightarrow> int" where
  "us_autumn y = hunt True 0 (Date_UTC y 10 1 2 0 0 0)"

lemma us_exact:
  "exact_date y us_daylight = Some (us_spring y)" "exact_date y us_standard = Some (us_autumn y)"
proof -
  have k: "SHORT_MONTHS ''Mar'' = Some 2" "SHORT_MONTHS ''Nov'' = Some 10" "SHORT_DAYS ''Sun'' = Some 0"
    "to_number ''Sun>=8'' = Not_a_number" "to_number ''Sun>=1'' = Not_a_number" "to_number ''8'' = Fin 8" "to_number ''1'' = Fin 1"
    "trunc 8 = 8" "trunc 1 = 1"
    by code_simp+
  show "exact_date y us_daylight = Some (us_spring y)" "exact_date y us_standard = Some (us_autumn y)"
    by (simp_all add: exact_date_def us_daylight_def us_standard_def us_spring_def us_autumn_def at_two_def
        month_of_rule_def k Let_def)
qed

lemma old_rule_applies: "old_rule r \<Longrightarrow> 2007 \<le> y \<Longrightarrow> \<not> applies y r"
proof -
  have k: "to_number ''only'' = Not_a_number" by code_simp
  show "old_rule r \<Longrightarrow> 2007 \<le> y \<Longrightarrow> \<not> applies y r"
    by (auto simp: old_rule_def applies_def k split: year_to.splits option.splits)
qed

lemma us_applies: "applies y us_daylight = (2007 \<le> y)" "applies y us_standard = (2007 \<le> y)"
proof -
  have k: "to_number ''max'' = Not_a_number" by code_simp
  show "applies y us_daylight = (2007 \<le> y)" "applies y us_standard = (2007 \<le> y)"
    by (simp_all add: applies_def us_daylight_def us_standard_def k)
qed

lemma Date_UTC_day: "99 < y \<Longrightarrow> 0 \<le> m \<Longrightarrow> m < 12 \<Longrightarrow>
  Date_UTC y m d h mi s u = (day_from_year y + month_start (leap_year y) m + d - 1) * ms_per_day + make_time h mi s u"
  by (simp add: Date_UTC_def make_full_id make_day_eq)

lemma us_order:
  assumes "99 < y"
  shows "day_from_year y * ms_per_day < us_spring y" "us_spring y < us_autumn y"
    "us_autumn y < (day_from_year y + 365) * ms_per_day"
proof -
  have h: "us_spring y = Date_UTC y 2 8 2 0 0 0 + ((- weekday_of (Date_UTC y 2 8 2 0 0 0)) mod 7) * ms_per_day"
    "us_autumn y = Date_UTC y 10 1 2 0 0 0 + ((- weekday_of (Date_UTC y 10 1 2 0 0 0)) mod 7) * ms_per_day"
    by (simp_all add: us_spring_def us_autumn_def hunt_shift)
  define i j where ij: "i = (- weekday_of (Date_UTC y 2 8 2 0 0 0)) mod 7" "j = (- weekday_of (Date_UTC y 10 1 2 0 0 0)) mod 7"
  have b: "0 \<le> i" "i < 7" "0 \<le> j" "j < 7" by (simp_all add: ij)
  have s: "month_start lp 2 \<in> {59, 60}" "month_start lp 10 \<in> {304, 305}" for lp by (simp_all add: month_start_def)
  have "0 < (month_start (leap_year y) 2 + 7) * ms_per_day + 7200000 + i * ms_per_day"
    "(month_start (leap_year y) 2 + 7) * ms_per_day + i * ms_per_day < month_start (leap_year y) 10 * ms_per_day + j * ms_per_day"
    "month_start (leap_year y) 10 * ms_per_day + 7200000 + j * ms_per_day < 365 * ms_per_day"
    using b s [of "leap_year y"] by auto
  moreover have "us_spring y = day_from_year y * ms_per_day + ((month_start (leap_year y) 2 + 7) * ms_per_day + 7200000 + i * ms_per_day)"
    "us_autumn y = day_from_year y * ms_per_day + (month_start (leap_year y) 10 * ms_per_day + 7200000 + j * ms_per_day)"
    unfolding h ij [symmetric] using assms by (simp_all add: Date_UTC_day make_time_def algebra_simps)
  ultimately show "day_from_year y * ms_per_day < us_spring y" "us_spring y < us_autumn y"
    "us_autumn y < (day_from_year y + 365) * ms_per_day"
    unfolding distrib_right by linarith+
qed

lemma year_bounds: "day_from_year (year_of t) * ms_per_day \<le> t" "t < day_from_year (year_of t + 1) * ms_per_day"
  using year_from_day_bounds [of "day_of t"] by (auto simp: year_of_def day_of_def)

lemma us_rule:
  assumes "rules_of db (e_rules z) = old @ [us_daylight, us_standard]" "list_all old_rule old" "2008 \<le> year_of dt"
  shows "getRule db dt z False =
    Inr (Some (if us_spring (year_of dt) \<le> dt \<and> dt < us_autumn (year_of dt) then us_daylight else us_standard))"
proof (rule getRule_two)
  let ?y = "year_of dt"
  have f: "findApplicableRules y (old @ [us_daylight, us_standard]) = [Applicable y us_daylight, Applicable y us_standard]"
    if "2007 \<le> y" for y
    using that assms(2) by (simp add: findApplicableRules_def us_applies old_rule_applies filter_empty_conv list_all_iff)
  show "findApplicableRules ?y (old @ [us_daylight, us_standard]) = [Applicable ?y us_daylight, Applicable ?y us_standard]"
    "findApplicableRules (?y - 1) (old @ [us_daylight, us_standard]) =
       [Applicable (?y - 1) us_daylight, Applicable (?y - 1) us_standard]"
    using assms(3) by (simp_all add: f)
  show "exact_date ?y us_daylight = Some (us_spring ?y)" "exact_date ?y us_standard = Some (us_autumn ?y)"
    "exact_date (?y - 1) us_daylight = Some (us_spring (?y - 1))"
    "exact_date (?y - 1) us_standard = Some (us_autumn (?y - 1))" by (rule us_exact)+
  have o: "us_spring (?y - 1) < us_autumn (?y - 1)" "us_spring ?y < us_autumn ?y"
    "us_autumn (?y - 1) < (day_from_year (?y - 1) + 365) * ms_per_day" "day_from_year ?y * ms_per_day < us_spring ?y"
    using us_order [of ?y] us_order [of "?y - 1"] assms(3) by simp_all
  have "day_from_year (?y - 1) + 365 \<le> day_from_year ?y" using day_from_year_mono [of "?y - 1" ?y] by simp
  then have "(day_from_year (?y - 1) + 365) * ms_per_day \<le> day_from_year ?y * ms_per_day" by simp
  then show "us_autumn (?y - 1) < dt" "us_autumn (?y - 1) < us_spring ?y" "us_spring (?y - 1) < us_autumn (?y - 1)" "us_spring ?y < us_autumn ?y"
    using o year_bounds(1) [of dt] by linarith+
  show "wall us_daylight" "wall us_standard" by (simp_all add: wall_def us_daylight_def us_standard_def at_two_def)
qed (fact assms(1))
end
