(* ===== verification/Tz_Class.thy ===== *)
theory Tz_Class
  imports Tz_Date Tz_Rules
begin

text \<open>
  What the class \<open>timezoneJS.Date\<close> does, against the dates of \<open>core.js\<close>: in a browser whose zone
  has one offset, a date without a zone shows an instant, each setter replaces a unit of its UTC
  reading, and \<open>setTimezone\<close> turns it into a reading in the zone. The dates of the model of
  \<open>core.js\<close> are the instants, and their setters are the class's.
\<close>


section \<open>A browser in a fixed zone\<close>

text \<open>\<open>b\<close> minutes west of UTC, all the year round.\<close>

definition fixed_browser :: "int \<Rightarrow> browser" where
  "fixed_browser b = \<lparr>to_local = (\<lambda>t. t - b * 60000), from_local = (\<lambda>t. t + b * 60000)\<rparr>"

lemma browser_offset_fixed [simp]: "browser_offset (fixed_browser b) t = of_int b"
  by (simp add: browser_offset_def fixed_browser_def)

lemma set_minutes_by:
  "set_minutes (minute_of t + k) t = t + k * 60000" "set_minutes (minute_of t - k) t = t - k * 60000"
  using set_minutes_shift [of t k] set_minutes_shift [of t "- k"] by simp_all

lemma fields_utc_at: "year_of t < 0 \<or> 99 < year_of t \<Longrightarrow> fields_utc (fields_at t) = t"
  by (simp add: fields_utc_def fields_at_def Date_UTC_fields)

lemmas tz_monad = bindT_def ret_def throw_def liftE_def

text \<open>A date without a zone, which shows the instant \<open>u\<close> in the browser's zone.\<close>

definition plain_at :: "int \<Rightarrow> int \<Rightarrow> tzd \<Rightarrow> bool" where
  "plain_at b u x = (td_fields x = fields_at (u - b * 60000) \<and> td_zone x = None \<and> \<not> td_utc x \<and>
     (td_cache x = None \<or> (\<exists>a. td_cache x = Some \<lparr>tzOffset = of_int b, tzAbbr = a\<rparr>)) \<and> (\<exists>t. td_proxy x = Native t))"

lemma plain_offset:
  assumes "plain_at b u x"
  obtains x' where "getTimezoneOffset (fixed_browser b) env x db = Some (Inr (of_int b, x'), db)" "plain_at b u x'"
proof -
  obtain f w z v c p where x: "x = Tzd f w z v c p" by (cases x)
  obtain t where p: "p = Native t" "z = None" "\<not> v" using assms by (auto simp: x plain_at_def)
  show thesis
  proof (cases c)
    case None
    show thesis
      by (rule that [of "Tzd f w z v (Some \<lparr>tzOffset = of_int b, tzAbbr = None\<rparr>) p"])
        (use assms p None in \<open>simp_all add: x getTimezoneOffset_def tz_monad plain_at_def Let_def\<close>)
  next
    case (Some i)
    then have "tzOffset i = of_int b" using assms by (auto simp: x plain_at_def)
    then show thesis
      by (intro that [of x]) (use assms p Some in \<open>simp_all add: x getTimezoneOffset_def tz_monad plain_at_def Let_def\<close>)
  qed
qed

lemma plain_proxy:
  assumes "plain_at b u x" "99 < year_of (u - b * 60000)"
  obtains x' where "getUTCDateProxy (fixed_browser b) env x db = Some (Inr (u, x'), db)" "plain_at b u x'"
proof -
  obtain x' where x': "getTimezoneOffset (fixed_browser b) env x db = Some (Inr (of_int b, x'), db)" "plain_at b u x'"
    by (rule plain_offset [OF assms(1)])
  have "fields_utc (td_fields x) = u - b * 60000" using assms by (simp add: plain_at_def fields_utc_at)
  with x' show thesis
    by (intro that [of x']) (simp_all add: getUTCDateProxy_def bindT_def ret_def set_minutes_by Let_def)
qed

text \<open>A setter replaces the unit in the UTC reading.\<close>

lemma plain_set:
  assumes "plain_at b u x" "99 < year_of (u - b * 60000)"
  obtains x' where "setUTCAttribute (fixed_browser b) env unit (Some n) x db = Some (Inr x', db)"
    "plain_at b (set_unit unit (trunc n) u) x'"
proof -
  obtain x1 where x1: "getUTCDateProxy (fixed_browser b) env x db = Some (Inr (u, x1), db)" "plain_at b u x1"
    by (rule plain_proxy [OF assms])
  obtain x2 where x2: "getTimezoneOffset (fixed_browser b) env x1 db = Some (Inr (of_int b, x2), db)" "plain_at b u x2"
    by (rule plain_offset [OF x1(2)])
  show thesis
    by (rule that [of "from_native (fixed_browser b) True (set_unit unit (trunc n) u - b * 60000) x2"])
      (use x1 x2 in \<open>simp_all add: setUTCAttribute_def bindT_def ret_def set_minutes_by from_native_def plain_at_def Let_def\<close>)
qed

lemma plain_new: "\<exists>x. new_from_millis (fixed_browser b) env now None db = Some (Inr x, db) \<and> plain_at b now x"
proof -
  have "of_int now - of_int b * (60000 :: rat) = of_int (now - b * 60000)" by simp
  then have "\<lfloor>of_int now - of_int b * (60000 :: rat)\<rfloor> = now - b * 60000" by (simp only: floor_of_int)
  then show ?thesis
    by (simp add: new_from_millis_def setFromTimeProxy_def tz_monad from_native_def blank_date_def plain_at_def
        is_utc_name_def Let_def)
qed

section \<open>Into a zone\<close>

text \<open>The offset of a zone at a reading of the clock, where it is whole minutes and needs no load.\<close>

definition zone_offset :: "env \<Rightarrow> tz_db \<Rightarrow> string \<Rightarrow> int \<Rightarrow> int \<Rightarrow> bool" where
  "zone_offset env db tz t off = (\<exists>a. getTzInfo env t tz False db = Some (Inr \<lparr>tzOffset = of_int off, tzAbbr = a\<rparr>, db))"

definition zoned_at :: "string \<Rightarrow> int \<Rightarrow> int \<Rightarrow> tzd \<Rightarrow> bool" where
  "zoned_at tz off l x = (td_fields x = fields_at l \<and> td_zone x = Some tz \<and> \<not> td_utc x \<and>
     (td_cache x = None \<or> (\<exists>a. td_cache x = Some \<lparr>tzOffset = of_int off, tzAbbr = a\<rparr>)))"

lemma zoned_offset:
  assumes "zoned_at tz off l x" "zone_offset env db tz l off" "tz \<noteq> []" "99 < year_of l"
  obtains x' where "getTimezoneOffset br env x db = Some (Inr (of_int off, x'), db)" "zoned_at tz off l x'" "td_proxy x' = td_proxy x"
proof -
  obtain f w z v c p where x: "x = Tzd f w z v c p" by (cases x)
  obtain a where a: "getTzInfo env l tz False db = Some (Inr \<lparr>tzOffset = of_int off, tzAbbr = a\<rparr>, db)"
    using assms(2) by (auto simp: zone_offset_def)
  have f: "fields_utc f = l" using assms by (simp add: x zoned_at_def fields_utc_at)
  show thesis
  proof (cases c)
    case None
    show thesis
      by (rule that [of "Tzd f w z v (Some \<lparr>tzOffset = of_int off, tzAbbr = a\<rparr>) p"])
        (use assms a f None in \<open>simp_all add: x getTimezoneOffset_def tz_monad zoned_at_def\<close>)
  next
    case (Some i)
    then have "tzOffset i = of_int off" using assms(1) by (auto simp: x zoned_at_def)
    then show thesis
      by (intro that [of x]) (use assms Some in \<open>simp_all add: x getTimezoneOffset_def tz_monad zoned_at_def\<close>)
  qed
qed

lemma zoned_proxy:
  assumes "zoned_at tz off l x" "zone_offset env db tz l off" "tz \<noteq> []" "99 < year_of l"
  obtains x' where "getUTCDateProxy br env x db = Some (Inr (l + off * 60000, x'), db)" "zoned_at tz off l x'"
proof -
  obtain x' where x': "getTimezoneOffset br env x db = Some (Inr (of_int off, x'), db)" "zoned_at tz off l x'"
    by (rule zoned_offset [OF assms])
  have "fields_utc (td_fields x) = l" using assms by (simp add: zoned_at_def fields_utc_at)
  with x' show thesis
    by (intro that [of x']) (simp_all add: getUTCDateProxy_def bindT_def ret_def set_minutes_by Let_def)
qed

text \<open>
  \<open>setTimezone\<close> on a date without a zone: it shows the instant \<open>u\<close> with the offset that the zone
  has at the reading of the browser's clock.
\<close>

lemma setTimezone_plain:
  assumes x: "plain_at b u x" and y: "99 < year_of (u - b * 60000)"
    and z: "zone_offset env db tz (u - b * 60000) off" "zone_name tz" "\<not> is_utc_name (Some tz)"
  obtains x' where "setTimezone (fixed_browser b) env tz x db = Some (Inr x', db)"
    "zoned_at tz off' (u - off * 60000) x'" "td_cache x' = None"
proof -
  let ?br = "fixed_browser b" and ?l = "u - b * 60000"
  have ne: "tz \<noteq> []" using z(2) by (auto simp: zone_name_def)
  obtain x0 where x0: "getTimezoneOffset ?br env x db = Some (Inr (of_int b, x0), db)" "plain_at b u x0"
    by (rule plain_offset [OF x])
  define x1 where "x1 = Tzd (td_fields x0) (td_day x0) (Some tz) False None (td_proxy x0)"
  define c where "c = clone ?br x1"
  have z1: "zoned_at tz off ?l x1" using x0(2) by (simp add: x1_def zoned_at_def plain_at_def)
  have zc: "zoned_at tz off ?l c"
    using x0(2) z y
    by (simp add: c_def x1_def clone_def zoned_at_def from_native_def blank_date_def plain_at_def fixed_browser_def
        fields_utc_at Let_def)
  obtain c1 where c1: "getUTCDateProxy ?br env c db = Some (Inr (?l + off * 60000, c1), db)" "zoned_at tz off ?l c1"
    by (rule zoned_proxy [OF zc z(1) ne y])
  obtain x2 where x2: "getTimezoneOffset ?br env x1 db = Some (Inr (of_int off, x2), db)" "zoned_at tz off ?l x2"
    by (rule zoned_offset [OF z1 z(1) ne y])
  obtain c2 where c2: "getUTCDateProxy ?br env c1 db = Some (Inr (?l + off * 60000, c2), db)" "zoned_at tz off ?l c2"
    by (rule zoned_proxy [OF c1(2) z(1) ne y])
  obtain c3 where c3: "getTimezoneOffset ?br env c2 db = Some (Inr (of_int off, c3), db)" "zoned_at tz off ?l c3"
    by (rule zoned_offset [OF c2(2) z(1) ne y])
  let ?t = "?l + off * 60000"
  have t: "trunc (of_int (minute_of ?t) - of_int off + of_int b) = minute_of ?t + (b - off)"
    unfolding of_int_diff [symmetric] of_int_add [symmetric] trunc_int by simp
  define r where "r = from_native ?br True (u - off * 60000) c3"
  have e: "?t + (b - off) * 60000 - off * 60000 = u - off * 60000" by (simp add: algebra_simps)
  have s: "setUTCAttribute ?br env Minutes (Some (of_int (minute_of ?t) - of_int off + of_int b)) c1 db = Some (Inr r, db)"
    using c2(1) c3(1) by (simp add: setUTCAttribute_def bindT_def ret_def t set_minutes_by e r_def Let_def)
  have rf: "td_fields r = fields_at (u - off * 60000)" by (simp add: r_def from_native_def Let_def)
  have u2: "\<not> td_utc x2" "td_zone x2 = Some tz" using x2(2) by (auto simp: zoned_at_def)
  have "setTimezone ?br env tz x db = from_clone ?br env (td_utc x2) r x2 db"
    using z(3) x0(1) c1(1) x2(1) s
    by (simp add: setTimezone_def bindT_def ret_def getUTC_def x1_def [symmetric] c_def [symmetric] Let_def)
  also have "\<dots> = Some (Inr (Tzd (td_fields r) (td_day r) (Some tz) False None (Clone r)), db)"
    using u2 by (simp add: from_clone_def ret_def)
  finally have "setTimezone ?br env tz x db = \<dots>" .
  then show thesis by (rule that) (simp_all add: rf zoned_at_def)
qed

section \<open>The class keeps the dates of \<open>core.js\<close>\<close>

text \<open>The instant of a normalised date.\<close>

definition instant :: "date \<Rightarrow> int" where
  "instant d = make_day (year d) (month d) (day d) * ms_per_day + ms d"

lemma days_month_days: "0 \<le> m \<Longrightarrow> m < 12 \<Longrightarrow> days_in_month y m = month_days (leap_year y) m"
  by (simp add: days_in_month_def month_days_def leap_def leap_year_def)

lemma make_day_next: "0 \<le> m \<Longrightarrow> m < 12 \<Longrightarrow> make_day y (m + 1) d = make_day y m (d + days_in_month y m)"
proof (cases "m = 11")
  case True
  then show ?thesis using month_start_last [of y]
    by (simp add: make_day_def days_month_days day_from_year_Suc Let_def)
next
  case False
  assume "0 \<le> m" "m < 12"
  with False show ?thesis
    by (simp add: make_day_eq days_month_days month_start_Suc)
qed

lemma make_day_norm: "norm_month y m = (y', m') \<Longrightarrow> make_day y' m' d = make_day y m d"
  by (auto simp: norm_month_def make_day_def Let_def)

lemma norm_month_range: "norm_month y m = (y', m') \<Longrightarrow> 0 \<le> m' \<and> m' < 12"
  by (auto simp: norm_month_def)

lemma norm_day_day:
  "0 \<le> m \<Longrightarrow> m < 12 \<Longrightarrow> norm_day y m d = (y', m', d') \<Longrightarrow>
    make_day y' m' d' = make_day y m d \<and> 0 \<le> m' \<and> m' < 12 \<and> 1 \<le> d' \<and> d' \<le> days_in_month y' m'"
proof (induction y m d rule: norm_day.induct)
  case (1 y m d)
  obtain y1 m1 where n1: "norm_month y (m + 1) = (y1, m1)" by fastforce
  obtain y2 m2 where n2: "norm_month y (m - 1) = (y2, m2)" by fastforce
  show ?case
  proof (cases "days_in_month y m < d")
    case True
    then have "norm_day y1 m1 (d - days_in_month y m) = (y', m', d')"
      using 1(5) by (subst (asm) norm_day.simps) (simp add: n1)
    with 1(1) [OF True n1 [symmetric]] norm_month_range [OF n1]
    show ?thesis using make_day_norm [OF n1] make_day_next [OF 1(3,4)] by simp
  next
    case False
    show ?thesis
    proof (cases "d < 1")
      case True
      with False have "norm_day y2 m2 (d + days_in_month y2 m2) = (y', m', d')"
        using 1(5) by (subst (asm) norm_day.simps) (simp add: n2)
      with 1(2) [OF False True n2 [symmetric]] norm_month_range [OF n2]
      have "make_day y' m' d' = make_day y2 m2 (d + days_in_month y2 m2)"
        "0 \<le> m' \<and> m' < 12 \<and> 1 \<le> d' \<and> d' \<le> days_in_month y' m'" by simp_all
      moreover have "make_day y2 m2 (d + days_in_month y2 m2) = make_day y2 (m2 + 1) d"
        using make_day_next norm_month_range [OF n2] by simp
      moreover have "make_day y2 (m2 + 1) d = make_day y m d"
        using n2 1(3,4) by (cases "m = 0") (auto simp: norm_month_def make_day_def)
      ultimately show ?thesis by simp
    next
      case t: False
      with False 1(5) have "y' = y" "m' = m" "d' = d" by (simp_all add: norm_day.simps [of y m d])
      then show ?thesis using False t 1(3,4) by simp
    qed
  qed
qed

lemma make_date_instant:
  "instant (make_date y m d t) = make_day y m d * ms_per_day + t" "date_ok (make_date y m d t)"
proof -
  obtain y1 m1 where n: "norm_month y m = (y1, m1)" by fastforce
  obtain y2 m2 d2 where k: "norm_day y1 m1 (d + t div 86400000) = (y2, m2, d2)" by (metis surj_pair)
  have r: "make_day y2 m2 d2 = make_day y1 m1 (d + t div 86400000)" "0 \<le> m2 \<and> m2 < 12 \<and> 1 \<le> d2 \<and> d2 \<le> days_in_month y2 m2"
    using norm_day_day [OF _ _ k] norm_month_range [OF n] by simp_all
  have "make_day y1 m1 (d + t div 86400000) = make_day y m d + t div 86400000"
    using make_day_norm [OF n, of "d + t div 86400000"] by (simp add: make_day_def Let_def)
  then show "instant (make_date y m d t) = make_day y m d * ms_per_day + t"
    using r by (simp add: make_date_def n k instant_def algebra_simps minus_mod_eq_mult_div [symmetric])
  show "date_ok (make_date y m d t)" using r by (simp add: make_date_def n k date_ok_def)
qed

lemma instant_fields:
  assumes "date_ok d"
  shows "year_of (instant d) = year d" "month_of (instant d) = month d" "date_of (instant d) = day d"
    "day_of (instant d) = make_day (year d) (month d) (day d)" "time_of_day (instant d) = ms d"
    "hour_of (instant d) = hours_of d" "minute_of (instant d) = minutes_of d"
    "second_of (instant d) = seconds_of d" "milli_of (instant d) = millis_of d"
proof -
  note d = assms [unfolded date_ok_def]
  have td: "day_of (instant d) = make_day (year d) (month d) (day d)" "instant d mod ms_per_day = ms d"
    using d by (simp_all add: instant_def cal_defs div_time)
  then show "day_of (instant d) = make_day (year d) (month d) (day d)" "time_of_day (instant d) = ms d"
    "hour_of (instant d) = hours_of d" "minute_of (instant d) = minutes_of d"
    "second_of (instant d) = seconds_of d" "milli_of (instant d) = millis_of d"
    by (simp_all add: cal_defs hours_of_def minutes_of_def seconds_of_def millis_of_def)
  show y: "year_of (instant d) = year d" using d day_in_year [of "month d" "day d" "year d"]
    by (simp add: year_of_def td flip: days_month_days)
  have yd: "yday_of (instant d) = month_start (leap_year (year d)) (month d) + day d - 1"
    using d by (simp add: yday_of_def y td make_day_eq)
  show m: "month_of (instant d) = month d" using d month_from_yday_eq [of "month d" "day d" "leap_year (year d)"]
    by (simp add: month_of_def y yd flip: days_month_days)
  show "date_of (instant d) = day d" by (simp add: date_of_def y m yd)
qed

text \<open>Each setter of the abstract date is the setter of the time value.\<close>

fun abs_set :: "unit_name \<Rightarrow> rat option \<Rightarrow> date option \<Rightarrow> date option" where
  "abs_set Year = setUTCFullYear"
| "abs_set Month = setUTCMonth"
| "abs_set Day = setUTCDate"
| "abs_set Hours = setUTCHours"
| "abs_set Minutes = setUTCMinutes"
| "abs_set Seconds = setUTCSeconds"
| "abs_set Millis = setUTCMilliseconds"

lemma abs_set_unit:
  assumes "date_ok d"
  shows "\<exists>d'. abs_set unit (Some n) (Some d) = Some d' \<and> date_ok d' \<and> instant d' = set_unit unit (trunc n) (instant d)"
  using assms
  by (cases unit)
    (simp_all add: setUTCFullYear_def setUTCMonth_def setUTCDate_def setUTCHours_def setUTCMinutes_def setUTCSeconds_def
      setUTCMilliseconds_def setUTCTime_def make_date_instant set_year_def set_month_def set_date_def set_hours_def
      set_minutes_def set_seconds_def set_millis_def instant_fields time_ms_def make_time_def)

lemma abs_set_None: "abs_set unit None d = None" "abs_set unit n None = None"
  by (cases unit; simp add: setUTCFullYear_def setUTCMonth_def setUTCDate_def setUTCHours_def setUTCMinutes_def setUTCSeconds_def
      setUTCMilliseconds_def setUTCTime_def split: option.split)+

end
