(* ===== verification/Tz_Display.thy ===== *)
theory Tz_Display
  imports Tz_Class
begin

text \<open>
  The date functions of \<open>core.js\<close> on the class, and what is shown: that the parser on the class
  gives the dates of the abstract model, that \<open>utcToLocal\<close> is right in a zone with one offset, as
  Tokyo from 1954 on, and which offset a zone with daylight saving time gets, as New York.
\<close>

section \<open>The functions of \<open>core.js\<close> on the class\<close>

text \<open>
  The numbers that \<open>parseISO8601\<close> sets, in its order, each with the setter; \<open>None\<close> when an index
  past the end of a split is split again.
\<close>

definition iso_numbers :: "string \<Rightarrow> (unit_name \<times> jnum) list option" where
  "iso_numbers str =
     (let parts = split_on (CHR ''T'') str in
      case nth_opt parts 1 of
        None \<Rightarrow> None
      | Some p1 \<Rightarrow>
          let dateParts = split_on (CHR ''-'') (parts ! 0);
              timeParts = split_on (CHR ''Z'') p1;
              timeSubParts = split_on (CHR '':'') (timeParts ! 0)
          in case nth_opt timeSubParts 2 of
               None \<Rightarrow> None
             | Some sec \<Rightarrow>
                 let timeSecParts = split_on (CHR ''.'') sec
                 in Some ([(Year, number_at dateParts 0), (Month, minus_one (number_at dateParts 1)),
                           (Day, number_at dateParts 2), (Hours, number_at timeSubParts 0),
                           (Minutes, number_at timeSubParts 1), (Seconds, number_at timeSecParts 0)]
                          @ (case nth_opt timeSecParts 1 of
                               Some u \<Rightarrow> if u \<noteq> '''' then [(Millis, to_number u)] else []
                             | None \<Rightarrow> [])))"

fun set_all :: "browser \<Rightarrow> env \<Rightarrow> (unit_name \<times> jnum) list \<Rightarrow> tzd \<Rightarrow> tzd tz" where
  "set_all br env [] x = ret x"
| "set_all br env ((unit, n) # us) x =
     bindT (setUTCAttribute br env unit (finite_num n) x) (set_all br env us)"

definition parseISO8601_tz :: "browser \<Rightarrow> env \<Rightarrow> int \<Rightarrow> string \<Rightarrow> tzd tz" where
  "parseISO8601_tz br env now str =
     (case iso_numbers str of
        None \<Rightarrow> throw Type_error
      | Some us \<Rightarrow> bindT (new_from_millis br env now None) (set_all br env us))"

definition getI18n_tz :: "(string \<Rightarrow> string list \<Rightarrow> string) \<Rightarrow> browser \<Rightarrow> env \<Rightarrow> tzd \<Rightarrow> string tz" where
  "getI18n_tz prop br env x =
     bindT (getUTC br env year_of x) (\<lambda>(y, x').
       let f = td_fields x' in
       ret (prop ''display_date''
              [int_digits y, convert2 (f_month f + 1), convert2 (f_date f), convert2 (f_hours f),
               convert2 (f_minutes f), convert2 (f_seconds f)]))"

definition utcToLocal_tz ::
  "(string \<Rightarrow> string list \<Rightarrow> string) \<Rightarrow> browser \<Rightarrow> env \<Rightarrow> string \<Rightarrow> int \<Rightarrow> string \<Rightarrow> tz_db \<Rightarrow> (string \<times> tz_db) option" where
  "utcToLocal_tz prop br env zone now str db =
     (case bindT (parseISO8601_tz br env now str)
             (\<lambda>x. bindT (setTimezone br env zone x) (getI18n_tz prop br env)) db of
        None \<Rightarrow> None
      | Some (Inr s, db') \<Rightarrow> Some (s, db')
      | Some (Inl e, db') \<Rightarrow> Some (str, db'))"

section \<open>The parser on the class refines the parser on abstract dates\<close>

lemma parse_abs:
  "parseISO8601 now str = Option.bind (iso_numbers str) (\<lambda>us. fold (\<lambda>(u, n). abs_set u (finite_num n)) us (Some now))"
  by (simp add: parseISO8601_def iso_numbers_def Let_def split: option.splits)

lemma abs_all_None: "fold (\<lambda>(u, n). abs_set u (finite_num n)) us None = None"
  by (induction us) (auto simp: abs_set_None)

text \<open>
  Numbers with which the date stays one that \<open>Date\<close> can hold, with a year of four digits or more. A text that is no
  number may stand anywhere.
\<close>

definition arg_ok :: "unit_name \<times> jnum \<Rightarrow> bool" where
  "arg_ok un =
     (case snd un of
        Not_a_number \<Rightarrow> True
      | Infinite _ \<Rightarrow> False
      | Fin x \<Rightarrow> (case fst un of
          Year \<Rightarrow> 1000 \<le> \<lfloor>x\<rfloor> \<and> \<lfloor>x\<rfloor> < 100000
        | Day \<Rightarrow> 1 \<le> \<lfloor>x\<rfloor> \<and> \<lfloor>x\<rfloor> < 1000000
        | Millis \<Rightarrow> 0 \<le> \<lfloor>x\<rfloor> \<and> \<lfloor>x\<rfloor> < 1000000000000
        | _ \<Rightarrow> 0 \<le> \<lfloor>x\<rfloor> \<and> \<lfloor>x\<rfloor> < 1000000))"

definition args_ok :: "string \<Rightarrow> bool" where
  "args_ok str = (case iso_numbers str of None \<Rightarrow> True | Some us \<Rightarrow> list_all arg_ok us)"

lemma year_of_mono: "s \<le> t \<Longrightarrow> year_of s \<le> year_of t"
proof (rule ccontr)
  assume st: "s \<le> t" and "\<not> year_of s \<le> year_of t"
  then have "year_of t + 1 \<le> year_of s" by simp
  then have "day_from_year (year_of t + 1) \<le> day_from_year (year_of s)"
    using day_from_year_mono [of "year_of t + 1" "year_of s"] by simp
  then have "day_from_year (year_of t + 1) * ms_per_day \<le> day_from_year (year_of s) * ms_per_day" by simp
  then show False using st year_bounds [of s] year_bounds [of t] by linarith
qed

lemma year_of_start: "year_of (day_from_year y * ms_per_day) = y"
  by (simp add: year_of_def day_of_def year_from_day_eq day_from_year_Suc days_in_year_def)

lemma year_of_ge: "day_from_year y * ms_per_day \<le> t \<Longrightarrow> y \<le> year_of t"
  using year_of_mono [of "day_from_year y * ms_per_day" t] by (simp add: year_of_start)

lemma month_start_mono: "0 \<le> m \<Longrightarrow> m < 12 \<Longrightarrow> 1 \<le> d \<Longrightarrow> day_from_year y \<le> make_day y m d"
  using month_start_bounds(1) [of m "leap_year y"] by (simp add: make_day_eq)

lemma make_date_year:
  assumes "0 \<le> m" "1 \<le> d" "0 \<le> t"
  shows "y \<le> year (make_date y m d t)"
proof -
  have "day_from_year (y + m div 12) \<le> make_day (y + m div 12) (m mod 12) d"
    using assms by (intro month_start_mono) simp_all
  also have "\<dots> = make_day y m d" by (simp add: make_day_def)
  finally have "day_from_year (y + m div 12) * ms_per_day \<le> instant (make_date y m d t)"
    using assms by (simp add: make_date_instant)
  then have "y + m div 12 \<le> year (make_date y m d t)"
    using year_of_ge instant_fields(1) [OF make_date_instant(2)] by metis
  then show ?thesis using assms(1) by (simp add: pos_imp_zdiv_nonneg_iff le_add_same_cancel1 order_trans [of y "y + m div 12"])
qed

lemma abs_set_year:
  assumes "date_ok d" "1000 \<le> year d" "arg_ok (unit, Fin n)" "abs_set unit (Some n) (Some d) = Some d'"
  shows "1000 \<le> year d'"
proof -
  have t: "0 \<le> hours_of d" "0 \<le> minutes_of d" "0 \<le> seconds_of d" "0 \<le> millis_of d"
    using assms(1) by (simp_all add: date_ok_def hours_of_def minutes_of_def seconds_of_def millis_of_def pos_imp_zdiv_nonneg_iff)
  have n: "0 \<le> \<lfloor>n\<rfloor> \<Longrightarrow> trunc n = \<lfloor>n\<rfloor>" by (simp add: trunc_def)
  have "\<exists>y m e t. d' = make_date y m e t \<and> 1000 \<le> y \<and> 0 \<le> m \<and> 1 \<le> e \<and> 0 \<le> t"
    using assms t
    by (cases unit)
      (auto simp: arg_ok_def n setUTCFullYear_def setUTCMonth_def setUTCDate_def setUTCHours_def setUTCMinutes_def setUTCSeconds_def
        setUTCMilliseconds_def setUTCTime_def date_ok_def time_ms_def intro!: exI)
  then obtain y m e t where "d' = make_date y m e t" "1000 \<le> y" "0 \<le> m" "1 \<le> e" "0 \<le> t" by blast
  then show ?thesis using make_date_year [of m e t y] by simp
qed

lemma local_year:
  assumes "date_ok d" "k \<le> year d" "\<bar>b\<bar> \<le> 1440"
  shows "k - 1 \<le> year_of (instant d - b * 60000)"
proof -
  have "day_from_year (year d) * ms_per_day \<le> instant d"
    using assms(1) month_start_mono [of "month d" "day d" "year d"] by (simp add: instant_def date_ok_def)
  moreover have "day_from_year (k - 1) + 365 \<le> day_from_year (year d)"
    using day_from_year_mono [of "k - 1" k] day_from_year_mono [of k "year d"] assms(2) by simp
  then have "(day_from_year (k - 1) + 365) * ms_per_day \<le> day_from_year (year d) * ms_per_day" by simp
  ultimately have "day_from_year (k - 1) * ms_per_day \<le> instant d - b * 60000"
    using assms(3) unfolding distrib_right by linarith
  then show ?thesis by (rule year_of_ge)
qed

lemma set_all_refines:
  assumes "plain_at b (instant d) x" "date_ok d" "1000 \<le> year d" "\<bar>b\<bar> \<le> 1440" "list_all arg_ok us"
  shows "case fold (\<lambda>(u, n). abs_set u (finite_num n)) us (Some d) of
      Some d' \<Rightarrow> date_ok d' \<and> (\<exists>x'. set_all (fixed_browser b) env us x db = Some (Inr x', db) \<and> plain_at b (instant d') x')
    | None \<Rightarrow> set_all (fixed_browser b) env us x db = Some (Inl Units_error, db)"
  using assms
proof (induction us arbitrary: d x)
  case Nil
  then show ?case by (auto simp: ret_def)
next
  case (Cons un us)
  obtain u n where un: "un = (u, n)" by fastforce
  show ?case
  proof (cases "finite_num n")
    case None
    then show ?thesis
      by (simp add: un abs_set_None abs_all_None setUTCAttribute_def bindT_def throw_def)
  next
    case (Some k)
    then have k: "n = Fin k" by (cases n) simp_all
    obtain d1 where d1: "abs_set u (Some k) (Some d) = Some d1" "date_ok d1" "instant d1 = set_unit u (trunc k) (instant d)"
      using abs_set_unit [OF Cons.prems(2)] by blast
    have "99 < year_of (instant d - b * 60000)"
      using local_year [OF Cons.prems(2,3,4)] by simp
    then obtain x1 where x1: "setUTCAttribute (fixed_browser b) env u (Some k) x db = Some (Inr x1, db)"
        "plain_at b (instant d1) x1"
      using plain_set [OF Cons.prems(1)] d1(3) by metis
    have "1000 \<le> year d1" using abs_set_year [OF Cons.prems(2,3) _ d1(1)] Cons.prems(5) by (simp add: un k)
    with Cons.IH [OF x1(2) d1(2) _ Cons.prems(4)] Cons.prems(5)
    show ?thesis by (simp add: un k d1(1) x1(1) bindT_def cong: option.case_cong)
  qed
qed

lemma parse_refines:
  assumes "date_ok now" "1000 \<le> year now" "\<bar>b\<bar> \<le> 1440" "args_ok str"
  shows "case parseISO8601 now str of
      Some d \<Rightarrow> date_ok d \<and>
        (\<exists>x. parseISO8601_tz (fixed_browser b) env (instant now) str db = Some (Inr x, db) \<and> plain_at b (instant d) x)
    | None \<Rightarrow> \<exists>e. parseISO8601_tz (fixed_browser b) env (instant now) str db = Some (Inl e, db)"
proof (cases "iso_numbers str")
  case None
  then show ?thesis by (simp add: parse_abs parseISO8601_tz_def throw_def)
next
  case (Some us)
  obtain x where x: "new_from_millis (fixed_browser b) env (instant now) None db = Some (Inr x, db)"
    "plain_at b (instant now) x" using plain_new by blast
  have "list_all arg_ok us" using assms(4) Some by (simp add: args_ok_def)
  from set_all_refines [OF x(2) assms(1,2,3) this, of env db] show ?thesis
    by (simp add: parse_abs parseISO8601_tz_def Some x(1) bindT_def split: option.splits)
qed

section \<open>Printing in a zone with one offset\<close>

lemma shift_instant: "instant (shift k d) = instant d + k" "date_ok (shift k d)"
  unfolding shift_def using make_date_instant [of "year d" "month d" "day d" "ms d + k"] by (simp_all add: instant_def)

lemma getI18n_zoned:
  assumes z: "zoned_at tz off' (instant d + k) x" "td_cache x = None"
    and o: "zone_offset env db tz (instant d + k) off" "tz \<noteq> []" "99 < year_of (instant d + k)" "date_ok d"
    and k: "k = - off * 60000"
  shows "getI18n_tz prop br env x db = Some (Inr (getI18n prop d (shift k d)), db)"
proof -
  have "zoned_at tz off (instant d + k) x" using z by (simp add: zoned_at_def)
  then obtain x' where x': "getUTCDateProxy br env x db = Some (Inr (instant d + k + off * 60000, x'), db)"
    "zoned_at tz off (instant d + k) x'"
    by (rule zoned_proxy [OF _ o(1,2,3)])
  have f: "td_fields x' = fields_at (instant (shift k d))"
    using x'(2) by (simp add: zoned_at_def shift_instant)
  show ?thesis
    using x'(1) k instant_fields [OF o(4)] instant_fields [OF shift_instant(2) [of k d]]
    by (simp add: getI18n_tz_def getUTC_def bindT_def ret_def f fields_at_def getI18n_def Let_def)
qed

text \<open>
  In a zone whose offset is the same at the two readings that are looked at, the text that is
  shown is the one of \<open>utcToLocal\<close> with the shift of the zone.
\<close>

lemma utcToLocal_fixed:
  assumes "date_ok now" "1000 \<le> year now" "\<bar>b\<bar> \<le> 1440" "args_ok str"
    and z: "zone_name tz" "\<not> is_utc_name (Some tz)"
    and o: "\<And>d. parseISO8601 now str = Some d \<Longrightarrow> zone_offset env db tz (instant d - b * 60000) off \<and>
              zone_offset env db tz (instant d - off * 60000) off"
    and y: "\<And>d. parseISO8601 now str = Some d \<Longrightarrow> 1000 \<le> year d" "\<bar>off\<bar> \<le> 1440"
  shows "utcToLocal_tz prop (fixed_browser b) env tz (instant now) str db =
    Some (utcToLocal prop (\<lambda>d. Some (shift (- off * 60000) d)) now str, db)"
proof (cases "parseISO8601 now str")
  case None
  then show ?thesis using parse_refines [OF assms(1-4), of env db]
    by (auto simp: utcToLocal_def utcToLocal_tz_def bindT_def)
next
  case (Some d)
  obtain x where x: "parseISO8601_tz (fixed_browser b) env (instant now) str db = Some (Inr x, db)" "plain_at b (instant d) x"
    and ok: "date_ok d"
    using parse_refines [OF assms(1-4), of env db] Some by auto
  have yr: "99 < year_of (instant d - b * 60000)" "99 < year_of (instant d - off * 60000)"
    using local_year [OF ok y(1) [OF Some] assms(3)] local_year [OF ok y(1) [OF Some] y(2)] by simp_all
  obtain x' where x': "setTimezone (fixed_browser b) env tz x db = Some (Inr x', db)"
    "zoned_at tz off (instant d - off * 60000) x'" "td_cache x' = None"
    using setTimezone_plain [OF x(2) yr(1) conjunct1 [OF o [OF Some]] z] by blast
  have k: "instant d - off * 60000 = instant d + - off * 60000" "tz \<noteq> []" using z(1) by (auto simp: zone_name_def)
  have "getI18n_tz prop (fixed_browser b) env x' db = Some (Inr (getI18n prop d (shift (- off * 60000) d)), db)"
    using getI18n_zoned [OF x'(2,3) [unfolded k(1)] conjunct2 [OF o [OF Some], unfolded k(1)] k(2) yr(2) [unfolded k(1)] ok refl]
    by (simp only:)
  then show ?thesis by (simp add: utcToLocal_tz_def utcToLocal_def bindT_def x x' Some)
qed

section \<open>A zone that is loaded\<close>

text \<open>The tables hold the eras of a zone whose file was loaded.\<close>

definition loaded_zone :: "tz_db \<Rightarrow> string \<Rightarrow> string \<Rightarrow> era list \<Rightarrow> bool" where
  "loaded_zone db tz zoneFile es =
     ((case map_of regionExceptions tz of Some r \<Rightarrow> r = zoneFile
       | None \<Rightarrow> map_of regionMap (hd (split_on (CHR ''/'') tz)) = Some zoneFile) \<and>
      zoneFile \<in> set (tz_loaded db) \<and> map_of (tz_zones db) tz = Some (Eras es) \<and> es \<noteq> [])"

text \<open>For a zone that is loaded, \<open>getTzInfo\<close> returns without a request.\<close>

lemma getTzInfo_loaded:
  assumes "loaded_zone db tz zoneFile es"
  shows "getTzInfo env dt tz isUTC db =
    Some ((case era_scan dt es (length es) of None \<Rightarrow> Inl Type_error | Some er \<Rightarrow> zone_info dt isUTC er db), db)"
proof -
  have r: "getRegionForTimezone env tz db = Some (Inr zoneFile, db)"
    using assms by (subst getRegionForTimezone.simps) (auto simp: loaded_zone_def split: option.splits)
  have l: "load_region env zoneFile db = Some (Inr (), db)" using assms by (simp add: loaded_zone_def load_region_def ret_def)
  have f: "follow_links db tz = Some (tz, Some es)"
    using assms by (subst follow_links.simps) (simp add: loaded_zone_def)
  have z: "getZone env dt tz db = Some (Inr (era_scan dt es (length es)), db)"
    using assms by (subst getZone.simps) (simp add: f loaded_zone_def)
  show ?thesis
    by (simp add: getTzInfo_def bindT_def r l z throw_def liftE_def split: option.splits sum.splits)
qed

subsection \<open>Tokyo\<close>

definition tokyo_eras :: "era list" where
  "tokyo_eras =
     [\<lparr>e_offset = - 33539 / 60, e_rules = ''-'', e_format = ''LMT'', e_until = Some (-2587712400000)\<rparr>,
      \<lparr>e_offset = -540, e_rules = ''-'', e_format = ''JST'', e_until = Some (-2303683200000)\<rparr>,
      \<lparr>e_offset = -540, e_rules = ''-'', e_format = ''CJT'', e_until = Some (-978393600000)\<rparr>,
      \<lparr>e_offset = -540, e_rules = ''Japan'', e_format = ''J%sT'', e_until = None\<rparr>]"

text \<open>
  The lines of the file \<open>asia\<close> give these eras, and rules that end in 1951.\<close>

lemma tokyo_lines:
  "line_words None ''Zone	Asia/Tokyo	9:18:59	-	LMT	1887 Dec 31 15:00u''
     = ''Zone'' # ''Asia/Tokyo'' # [''9:18:59'', ''-'', ''LMT'', ''1887'', ''Dec'', ''31'', ''15:00u'']"
  "make_era [''9:18:59'', ''-'', ''LMT'', ''1887'', ''Dec'', ''31'', ''15:00u''] = Inr (tokyo_eras ! 0)"
  "make_era [''9:00'', ''-'', ''JST'', ''1896''] = Inr (tokyo_eras ! 1)"
  "make_era [''9:00'', ''-'', ''CJT'', ''1938''] = Inr (tokyo_eras ! 2)"
  "make_era [''9:00'', ''Japan'', ''J%sT''] = Inr (tokyo_eras ! 3)"
  by code_simp+

definition tokyo_db :: "tz_db \<Rightarrow> bool" where
  "tokyo_db db = (loaded_zone db ''Asia/Tokyo'' ''asia'' tokyo_eras \<and>
     list_all (\<lambda>r. case r_to r of To_year y \<Rightarrow> y \<le> 1951 | To_text t \<Rightarrow> t = ''only'' \<and> (case r_from r of Some f \<Rightarrow> f \<le> 1951 | None \<Rightarrow> True))
       (rules_of db ''Japan''))"

lemma tokyo_offset:
  assumes "tokyo_db db" "1953 \<le> year_of t"
  shows "zone_offset env db ''Asia/Tokyo'' t (-540)"
proof -
  have "-978393600000 < t"
  proof -
    have "day_from_year (year_of t) \<ge> day_from_year 1953" using assms(2) day_from_year_mono [of 1953 "year_of t"] by simp
    then have "day_from_year 1953 * ms_per_day \<le> t" using year_bounds(1) [of t] by linarith
    moreover have "day_from_year 1953 = -6209" by (simp add: day_from_year_def)
    ultimately show ?thesis by simp
  qed
  then have e: "era_scan t tokyo_eras (length tokyo_eras) = Some (tokyo_eras ! 3)"
    by (simp add: tokyo_eras_def eval_nat_numeral ended_def nth_opt_def)
  have k: "to_number ''only'' = Not_a_number" "replace_s ''S'' ''J%sT'' = Some ''JST''" by code_simp+
  have "getRule db t (tokyo_eras ! 3) False = Inr None"
  proof (rule getRule_no_rules)
    fix r
    assume r: "r \<in> set (rules_of db (e_rules (tokyo_eras ! 3)))"
    have "e_rules (tokyo_eras ! 3) = ''Japan''" by (simp add: tokyo_eras_def)
    with r assms(1) have "case r_to r of To_year y \<Rightarrow> y \<le> 1951
        | To_text t \<Rightarrow> t = ''only'' \<and> (case r_from r of Some f \<Rightarrow> f \<le> 1951 | None \<Rightarrow> True)"
      by (simp add: tokyo_db_def list_all_iff)
    then show "\<not> applies (year_of t) r \<and> \<not> applies (year_of t - 1) r"
      using assms(2) by (auto simp: applies_def k split: year_to.splits option.splits)
  qed
  then have i: "zone_info t False (tokyo_eras ! 3) db = Inr \<lparr>tzOffset = -540, tzAbbr = Some ''JST''\<rparr>"
    by (simp add: zone_info_def getAbbreviation_def tokyo_eras_def k)
  show ?thesis using assms(1)
    by (auto simp: zone_offset_def tokyo_db_def getTzInfo_loaded e i)
qed

text \<open>
  C1: What is shown in Tokyo for a text that is read as a date of the year 1954 or later, or that is not read as a
  date at all: the text of the abstract \<open>utcToLocal\<close> with a shift of nine hours, in every browser whose own
  zone has a fixed offset; no file is requested. The numbers of the text are ones with which the date stays in the
  range of \<open>Date\<close> with a year of at least 1000 (\<open>args_ok\<close>), the present year has four digits, and the
  tables hold Tokyo.
\<close>

theorem utcToLocal_tokyo:
  assumes "tokyo_db db" "date_ok now" "1000 \<le> year now" "year now \<le> 9999" "\<bar>b\<bar> \<le> 1440" "args_ok str"
    and "case parseISO8601 now str of Some d \<Rightarrow> 1954 \<le> year d | None \<Rightarrow> True"
  shows "utcToLocal_tz prop (fixed_browser b) env ''Asia/Tokyo'' (instant now) str db =
    Some (utcToLocal prop (\<lambda>d. Some (shift 32400000 d)) now str, db)"
proof -
  have z: "zone_name ''Asia/Tokyo''" "\<not> is_utc_name (Some ''Asia/Tokyo'')" by code_simp+
  have y: "1954 \<le> year d \<and> date_ok d" if "parseISO8601 now str = Some d" for d
    using that assms(7) parse_refines [OF assms(2,3,5,6), of undefined undefined] by simp
  have o: "zone_offset env db ''Asia/Tokyo'' (instant d - k * 60000) (-540)"
    if "parseISO8601 now str = Some d" "\<bar>k\<bar> \<le> 1440" for d k
    using local_year [of d 1954 k] y [OF that(1)] that(2) by (intro tokyo_offset [OF assms(1)]) simp
  have "utcToLocal_tz prop (fixed_browser b) env ''Asia/Tokyo'' (instant now) str db =
      Some (utcToLocal prop (\<lambda>d. Some (shift (- (-540) * 60000) d)) now str, db)"
  proof (rule utcToLocal_fixed [OF assms(2,3,5,6) z])
    fix d
    assume d: "parseISO8601 now str = Some d"
    show "zone_offset env db ''Asia/Tokyo'' (instant d - b * 60000) (-540) \<and>
        zone_offset env db ''Asia/Tokyo'' (instant d - -540 * 60000) (-540)"
      using o [OF d assms(5)] o [OF d, of "-540"] by simp
    show "1000 \<le> year d" using y [OF d] by simp
  qed simp
  then show ?thesis by simp
qed

text \<open>
  The witness: tables that hold Tokyo alone. A new year's eve text, read in a browser in New
  York on some day of 2013, is printed in Japanese time, with the old year.
\<close>

definition no_files :: env where "no_files = (\<lambda>_. None, None)"

definition tokyo_demo :: tz_db where
  "tokyo_demo = \<lparr>tz_zones = [(''Asia/Tokyo'', Eras tokyo_eras)], tz_rules = [], tz_loaded = [''asia'']\<rparr>"

definition noon :: date where
  "noon = \<lparr>year = 2013, month = 5, day = 1, ms = 43200000\<rparr>"

lemma utcToLocal_tokyo_witness:
  "utcToLocal_tz (\<lambda>_. join ''/'') (fixed_browser 300) no_files ''Asia/Tokyo'' (instant noon) ''2012-12-31T23:30:00Z'' tokyo_demo
     = Some (''2012/01/01/08/30/00'', tokyo_demo)"
proof -
  have a: "tokyo_db tokyo_demo"
  proof -
    have "map_of regionExceptions ''Asia/Tokyo'' = None" "map_of regionMap (hd (split_on (CHR ''/'') ''Asia/Tokyo'')) = Some ''asia''"
      by code_simp+
    then show ?thesis by (simp add: tokyo_db_def loaded_zone_def tokyo_demo_def rules_of_def tokyo_eras_def)
  qed
  have b: "date_ok noon" "1000 \<le> year noon" "year noon \<le> 9999" by (simp_all add: noon_def date_ok_def days_in_month_def)
  have c: "args_ok ''2012-12-31T23:30:00Z''" by code_simp
  have p: "parseISO8601 noon ''2012-12-31T23:30:00Z'' = Some \<lparr>year = 2012, month = 11, day = 31, ms = 84600000\<rparr>"
    by code_simp
  have u: "utcToLocal (\<lambda>_. join ''/'') (\<lambda>d. Some (shift 32400000 d)) noon ''2012-12-31T23:30:00Z'' = ''2012/01/01/08/30/00''"
    by code_simp
  show ?thesis
    using utcToLocal_tokyo [OF a b _ c, of 300 "\<lambda>_. join ''/''" no_files] by (simp add: p u)
qed

subsection \<open>New York\<close>

definition ny_era :: era where
  "ny_era = \<lparr>e_offset = 300, e_rules = ''US'', e_format = ''E%sT'', e_until = None\<rparr>"

lemma ny_lines:
  "make_era [''-5:00'', ''NYC'', ''E%sT'', ''1967''] = Inr \<lparr>e_offset = 300, e_rules = ''NYC'', e_format = ''E%sT'', e_until = Some (-63244800000)\<rparr>"
  "make_era [''-5:00'', ''US'', ''E%sT''] = Inr ny_era"
  by code_simp+

lemma us_lines:
  "make_rule [''2007'', ''max'', ''-'', ''Mar'', ''Sun>=8'', ''2:00'', ''1:00'', ''D''] = Inr us_daylight"
  "make_rule [''2007'', ''max'', ''-'', ''Nov'', ''Sun>=1'', ''2:00'', ''0'', ''S''] = Inr us_standard"
  by code_simp+

text \<open>
  The tables after the file \<open>northamerica\<close> was read: the last era of New York follows the rules
  of the United States, of which the last two are in force, and the era before ended in 1967.
\<close>

definition ny_db :: "tz_db \<Rightarrow> bool" where
  "ny_db db =
     (\<exists>es er old. loaded_zone db ''America/New_York'' ''northamerica'' (es @ [er, ny_era]) \<and>
        e_until er = Some (-63244800000) \<and> rules_of db ''US'' = old @ [us_daylight, us_standard] \<and> list_all old_rule old)"

lemma ny_offset:
  assumes "ny_db db" "2008 \<le> year_of t"
  shows "zone_offset env db ''America/New_York'' t
    (if us_spring (year_of t) \<le> t \<and> t < us_autumn (year_of t) then 240 else 300)"
proof -
  obtain es er old where d: "loaded_zone db ''America/New_York'' ''northamerica'' (es @ [er, ny_era])"
    "e_until er = Some (-63244800000)" "rules_of db ''US'' = old @ [us_daylight, us_standard]" "list_all old_rule old"
    using assms(1) by (auto simp: ny_db_def)
  have "day_from_year 2008 * ms_per_day \<le> t"
  proof -
    have "day_from_year 2008 \<le> day_from_year (year_of t)" using assms(2) day_from_year_mono [of 2008 "year_of t"] by simp
    then show ?thesis using year_bounds(1) [of t] by linarith
  qed
  moreover have "day_from_year 2008 = 13879" by (simp add: day_from_year_def)
  ultimately have "ended t er" "\<not> ended t ny_era" by (simp_all add: ended_def d(2) ny_era_def)
  then have e: "era_scan t (es @ [er, ny_era]) (length (es @ [er, ny_era])) = Some ny_era"
    by (simp add: nth_append nth_opt_def)
  let ?r = "if us_spring (year_of t) \<le> t \<and> t < us_autumn (year_of t) then us_daylight else us_standard"
  have g: "getRule db t ny_era False = Inr (Some ?r)"
    by (rule us_rule [OF _ d(4) assms(2)]) (simp add: ny_era_def d(3))
  have k: "replace_s ''D'' ''E%sT'' = Some ''EDT''" "replace_s ''S'' ''E%sT'' = Some ''EST''" by code_simp+
  have "getAbbreviation ny_era (Some us_daylight) = Inr ''EDT''" "getAbbreviation ny_era (Some us_standard) = Inr ''EST''"
    "getAdjustedOffset 300 us_daylight = 240" "getAdjustedOffset 300 us_standard = 300"
    by (simp_all add: getAbbreviation_def ny_era_def us_daylight_def us_standard_def k getAdjustedOffset_def)
  moreover have "e_offset ny_era = 300" by (simp add: ny_era_def)
  ultimately have "\<exists>a. zone_info t False ny_era db = Inr \<lparr>tzOffset = of_int (if us_spring (year_of t) \<le> t \<and> t < us_autumn (year_of t) then 240 else 300), tzAbbr = a\<rparr>"
    by (simp add: zone_info_def g)
  moreover have "getTzInfo env t ''America/New_York'' False db = Some (zone_info t False ny_era db, db)"
    using getTzInfo_loaded [OF d(1), of env t False] unfolding e by simp
  ultimately show ?thesis by (simp add: zone_offset_def)
qed


text \<open>
  The witness: at half past six in UTC on the 11th of March 2012 it is half past one in New York.
  A browser in UTC shows half past two, an hour that the clocks of that night skipped.
\<close>

definition ny_demo :: tz_db where
  "ny_demo = \<lparr>tz_zones = [(''America/New_York'', Eras [ny_era\<lparr>e_until := Some (-63244800000)\<rparr>, ny_era])],
     tz_rules = [(''US'', [us_daylight, us_standard])], tz_loaded = [''northamerica'']\<rparr>"

definition half_past_six :: int where
  "half_past_six = Date_UTC 2012 2 11 6 30 0 0"

definition shown_half_past_six :: tzd where
  "shown_half_past_six = Tzd (fields_at half_past_six) 0 None False None (Native half_past_six)"


section \<open>The calendar\<close>

text \<open>
  The fields of a date and time are read back from the time value that \<open>Date.UTC\<close> makes of
  them, and the time value is \<open>Date.UTC\<close> of the fields read from it, for years above 99.
\<close>

theorem calendar_roundtrip:
  assumes "fields_in_range y m d h mi s u" and "99 < year_of t"
  shows "fields_at (Date_UTC y m d h mi s u) =
      \<lparr>f_year = y, f_month = m, f_date = d, f_hours = h, f_minutes = mi, f_seconds = s, f_millis = u\<rparr> \<and>
    fields_utc (fields_at t) = t"
  using fields_Date_UTC [OF assms(1)] fields_utc_at [of t] assms(2) by (simp add: fields_at_def)

lemma calendar_roundtrip_witness:
  "fields_at (Date_UTC 2012 1 29 23 59 59 999) =
      \<lparr>f_year = 2012, f_month = 1, f_date = 29, f_hours = 23, f_minutes = 59, f_seconds = 59, f_millis = 999\<rparr> \<and>
    fields_utc (fields_at 0) = 0"
proof -
  have "fields_in_range 2012 1 29 23 59 59 999" by (simp add: fields_in_range_def month_days_def leap_year_def)
  moreover have "99 < year_of 0" by code_simp
  ultimately show ?thesis by (rule calendar_roundtrip)
qed

section \<open>What the reader of the files makes of some lines\<close>

text \<open>An era that ends with a year ends with the last day of that year, not with the first.\<close>

lemma until_year:
  assumes "parse_int w = Some y" "w \<noteq> []"
  shows "processZone [off, r, f, w] = Inr (Some (Date_UTC y 11 31 0 0 0 0))"
proof -
  have "parseTimeString ''00:00:00'' = Inr \<lparr>at_h = 0, at_m = 0, at_s = 0, at_kind = None\<rparr>" by code_simp
  then show ?thesis using assms by (simp add: processZone_def nonempty_at_def nth_opt_def eval_nat_numeral)
qed

text \<open>An era that ends on the last Sunday of a month ends on the first day of it.\<close>

lemma until_last_sunday: "processZone [''4:00'', ''1:00'', ''GEST'', ''1997'', ''Mar'', ''lastSun''] = Inr (Some (Date_UTC 1997 2 1 0 0 0 0))"
  by code_simp

text \<open>An era whose rules column is a fixed amount has no rule, and the amount is lost.\<close>

lemma fixed_saving_lost: "rules_of db ''1:00'' = [] \<Longrightarrow> e_rules z = ''1:00'' \<Longrightarrow> getRule db dt z isUTC = Inr None"
  by (rule getRule_no_rules) simp

text \<open>\<open>_fixWidth\<close> never shortens a number.\<close>

lemma fixWidth_98: "fixWidth 1998 2 = ''1998''"
  by code_simp

end
