(* ===== verification/Panel_Edit.thy ===== *)
theory Panel_Edit
  imports Panel_Instance Core_Selector
begin

text \<open>
  The edit dialog of the instance panel while its parts arrive: the instance, which the dialog waits
  for, and the answers with the security groups, the ssh key pairs, the networks and the monitors,
  which come in any order between the user's events (\<open>instance_panel.js\<close>, the callback of
  \<open>bt_edit_instance\<close>). The lemmas show what an update sends when nothing was touched, what it sends too
  early, and what the interfaces show.
\<close>

section \<open>State\<close>

text \<open>What the dialog reads of the instance, in a request that it waits for.\<close>

record instance_json =
  in_monitoring :: bool
  in_vif_groups :: "string list list"
  in_key :: "string option"

text \<open>The parts of the page that the server fills when the dialog opens.\<close>

record edit_page =
  pg_id :: string
  pg_name :: string
  pg_mails :: "string list"
  pg_monitoring :: bool
  pg_networks :: "string list"
  pg_vifs :: "string list"

text \<open>
  The dialog: the form with its flags, the fields of the page, the chooser and the options of the key
  select once they are there, the value of that select, whether the message about another key is
  shown, whether the address fields are disabled, and the interfaces with the options of their selects.
\<close>

record edit_dialog =
  dg_form :: edit_form
  dg_page :: edit_page
  dg_name :: string
  dg_instance :: instance_json
  dg_chooser :: "selector option"
  dg_keys :: "(string \<times> string) list option"
  dg_key :: "string option"
  dg_key_message :: bool
  dg_mail_off :: bool
  dg_eths :: eths
  dg_eth_options :: "string list list"

text \<open>
  Setting the value of a select: an option with the value is selected. With null nothing is selected,
  with another value the browser falls back on the first option.
\<close>

definition select_val :: "string option \<Rightarrow> string list \<Rightarrow> string option" where
  "select_val v options1 =
     (case v of
        None \<Rightarrow> None
      | Some x \<Rightarrow> if x \<in> set options1 then Some x else (case options1 of [] \<Rightarrow> None | y # _ \<Rightarrow> Some y))"

section \<open>Opening\<close>

definition edit_callback :: "edit_page \<Rightarrow> instance_json \<Rightarrow> edit_dialog" where
  "edit_callback pg inst =
     \<lparr>dg_form = \<lparr>mailaddr = pg_mails pg, monitoring_enabled = pg_monitoring pg, monitor_editor = vif_initialize,
                 ed_ready = edit_flags, ed_submit_off = False\<rparr>,
      dg_page = pg, dg_name = pg_name pg, dg_instance = inst, dg_chooser = None, dg_keys = None, dg_key = None, dg_key_message = False,
      dg_mail_off = (\<not> in_monitoring inst),
      dg_eths = \<lparr>current_nw = map Some (pg_networks pg), current_vif = pg_vifs pg,
                 eth_text = map (\<lambda>_. '''') (pg_networks pg), eth_select = map (\<lambda>_. ''disconnected'') (pg_networks pg),
                 eth_detach = map (\<lambda>_. False) (pg_networks pg)\<rparr>,
      dg_eth_options = map (\<lambda>_. [''disconnected'']) (pg_networks pg)\<rparr>"

section \<open>The answers\<close>

definition selected_groups :: "instance_json \<Rightarrow> string list" where
  "selected_groups inst = (case in_vif_groups inst of [] \<Rightarrow> [] | gs # rest \<Rightarrow> gs)"

definition group_items :: "instance_json \<Rightarrow> (string \<times> string) list \<Rightarrow> item list" where
  "group_items inst results =
     map (\<lambda>(uuid, nm). \<lparr>item_id = uuid, item_name = nm, item_value = uuid,
            item_selected = (uuid \<in> set (selected_groups inst))\<rparr>) results"

definition groups_answer :: "(string \<times> string) list \<Rightarrow> edit_dialog \<Rightarrow> edit_dialog" where
  "groups_answer results d = d\<lparr>dg_chooser := Some (selector_initialize (group_items (dg_instance d) results))\<rparr>"

definition key_label :: "string \<Rightarrow> string \<Rightarrow> string" where
  "key_label k nm = nm @ '' ('' @ k @ '')''"

definition keys_answer :: "(string \<times> string) list \<Rightarrow> edit_dialog \<Rightarrow> edit_dialog" where
  "keys_answer results d =
     (let f = dg_form d;
          f1 = (if length results > 0 then f\<lparr>ed_ready := (ed_ready f)(''ssh_keypair'' := True)\<rparr> else f)
      in d\<lparr>dg_form := f1, dg_keys := Some (map (\<lambda>(k, nm). (k, key_label k nm)) results),
           dg_key := select_val (in_key (dg_instance d)) (map fst results)\<rparr>)"

definition key_change :: "string \<Rightarrow> edit_dialog \<Rightarrow> edit_dialog" where
  "key_change v d = d\<lparr>dg_key := Some v, dg_key_message := (Some v \<noteq> in_key (dg_instance d))\<rparr>"

text \<open>
  The networks: each interface is drawn, then its select gets the options, of which the current network
  is selected.
\<close>

definition eth_draw :: "nat \<Rightarrow> edit_dialog \<Rightarrow> edit_dialog" where
  "eth_draw i d =
     (let s = update_eth_network_id i (dg_eths d)
      in d\<lparr>dg_eths := s\<lparr>eth_select := (eth_select s)[i := the (select_val (Some (eth_select s ! i)) (dg_eth_options d ! i))]\<rparr>\<rparr>)"

definition create_select_eth :: "nat \<Rightarrow> string list \<Rightarrow> string option \<Rightarrow> edit_dialog \<Rightarrow> edit_dialog" where
  "create_select_eth i results sel d =
     (let s = dg_eths d
      in d\<lparr>dg_eth_options := (dg_eth_options d)[i := dg_eth_options d ! i @ results],
           dg_eths := (case sel of Some w \<Rightarrow> if w \<in> set results then s\<lparr>eth_select := (eth_select s)[i := w]\<rparr> else s | None \<Rightarrow> s)\<rparr>)"

definition networks_answer :: "string list \<Rightarrow> edit_dialog \<Rightarrow> edit_dialog" where
  "networks_answer results d =
     (let d1 = d\<lparr>dg_form := edit_flag_loaded ''networks'' (dg_form d)\<rparr>
      in fold (\<lambda>i e. create_select_eth i results (current_nw (dg_eths e) ! i) (eth_draw i e))
           [0..<length (current_nw (dg_eths d1))] d1)"

definition monitors_answer :: "(string \<times> monitor_json) list \<Rightarrow> edit_dialog \<Rightarrow> edit_dialog" where
  "monitors_answer mails d = d\<lparr>dg_form := edit_monitors_loaded mails (dg_form d)\<rparr>"

section \<open>The user's events\<close>

definition edit_right :: "(option_elem \<Rightarrow> bool) \<Rightarrow> edit_dialog \<Rightarrow> edit_dialog" where
  "edit_right ch d =
     (case dg_chooser d of
        None \<Rightarrow> d
      | Some s \<Rightarrow> (let s1 = leftToRight ch s
                   in d\<lparr>dg_chooser := Some s1, dg_form := edit_on_ready (getRightSelectionCount s1) (dg_form d)\<rparr>))"

definition edit_left :: "(option_elem \<Rightarrow> bool) \<Rightarrow> edit_dialog \<Rightarrow> edit_dialog" where
  "edit_left ch d =
     (case dg_chooser d of
        None \<Rightarrow> d
      | Some s \<Rightarrow> (let s1 = rightToLeft ch s
                   in d\<lparr>dg_chooser := Some s1, dg_form := edit_on_ready (getRightSelectionCount s1) (dg_form d)\<rparr>))"

text \<open>
  Typing: the field changes at once, and the check that follows sets the flag of the name, or calls
  \<open>ready\<close>, which computes the flag of the monitoring from the page.
\<close>

definition edit_type_name :: "string \<Rightarrow> edit_dialog \<Rightarrow> edit_dialog" where
  "edit_type_name v d = d\<lparr>dg_name := v\<rparr>"

definition edit_name_checked :: "edit_dialog \<Rightarrow> edit_dialog" where
  "edit_name_checked d =
     d\<lparr>dg_form := edit_ready ((dg_form d)\<lparr>ed_ready := (ed_ready (dg_form d))(''display_name'' := (dg_name d \<noteq> ''''))\<rparr>)\<rparr>"

definition edit_type_mail :: "nat \<Rightarrow> string \<Rightarrow> edit_dialog \<Rightarrow> edit_dialog" where
  "edit_type_mail i v d = d\<lparr>dg_form := (dg_form d)\<lparr>mailaddr := (mailaddr (dg_form d))[i := v]\<rparr>\<rparr>"

definition edit_checked :: "edit_dialog \<Rightarrow> edit_dialog" where
  "edit_checked d = d\<lparr>dg_form := edit_ready (dg_form d)\<rparr>"

definition edit_monitoring_click :: "edit_dialog \<Rightarrow> edit_dialog" where
  "edit_monitoring_click d =
     (let on = (\<not> monitoring_enabled (dg_form d))
      in d\<lparr>dg_form := edit_ready ((dg_form d)\<lparr>monitoring_enabled := on\<rparr>), dg_mail_off := (\<not> on)\<rparr>)"

text \<open>What the update button sends: the value of the key select is undefined before the select is there.\<close>

definition edit_values_of :: "edit_dialog \<Rightarrow> edit_values" where
  "edit_values_of d =
     \<lparr>ev_id = pg_id (dg_page d), ev_name = dg_name d, ev_monitoring = monitoring_enabled (dg_form d),
      ev_ssh_key = to_str (case dg_keys d of None \<Rightarrow> JUndef
         | Some ks \<Rightarrow> (case dg_key d of Some v \<Rightarrow> JStr v | None \<Rightarrow> JNull)),
      ev_groups = (case dg_chooser d of Some s \<Rightarrow> map opt_value (right_select s) | None \<Rightarrow> []),
      ev_mail = mailaddr (dg_form d)\<rparr>"

definition edit_update :: "edit_dialog \<Rightarrow> ajax_settings list option" where
  "edit_update d = edit_submit (edit_values_of d) (hd (current_vif (dg_eths d))) (monitor_editor (dg_form d))"

datatype edit_event = Got_groups | Got_keys | Got_networks | Got_monitors
  | To_assigned "option_elem \<Rightarrow> bool" | To_available "option_elem \<Rightarrow> bool" | Choose_key string | Monitoring_click
  | Type_name string | Name_checked | Type_mail nat string | Checked | Choose_eth nat string | Attached nat string | Detached nat

text \<open>What the server answers, fixed while the dialog is open.\<close>

record edit_server =
  sv_groups :: "(string \<times> string) list"
  sv_keys :: "(string \<times> string) list"
  sv_networks :: "string list"
  sv_monitors :: "(string \<times> monitor_json) list"

fun edit_step :: "edit_server \<Rightarrow> edit_event \<Rightarrow> edit_dialog \<Rightarrow> edit_dialog" where
  "edit_step sv Got_groups d = groups_answer (sv_groups sv) d"
| "edit_step sv Got_keys d = keys_answer (sv_keys sv) d"
| "edit_step sv Got_networks d = networks_answer (sv_networks sv) d"
| "edit_step sv Got_monitors d = monitors_answer (sv_monitors sv) d"
| "edit_step sv (To_assigned ch) d = edit_right ch d"
| "edit_step sv (To_available ch) d = edit_left ch d"
| "edit_step sv (Choose_key v) d = key_change v d"
| "edit_step sv Monitoring_click d = edit_monitoring_click d"
| "edit_step sv (Type_name v) d = edit_type_name v d"
| "edit_step sv Name_checked d = edit_name_checked d"
| "edit_step sv (Type_mail i v) d = edit_type_mail i v d"
| "edit_step sv Checked d = edit_checked d"
| "edit_step sv (Choose_eth i v) d = d\<lparr>dg_eths := (dg_eths d)\<lparr>eth_select := (eth_select (dg_eths d))[i := v]\<rparr>\<rparr>"
| "edit_step sv (Attached i w) d = d\<lparr>dg_eths := attached_vif w i (dg_eths d)\<rparr>"
| "edit_step sv (Detached i) d = d\<lparr>dg_eths := detached_vif i (dg_eths d)\<rparr>"

section \<open>What the answers leave alone\<close>

lemma fold_eths_frame:
  "dg_form (fold (\<lambda>i e. create_select_eth i rs (current_nw (dg_eths e) ! i) (eth_draw i e)) is d) = dg_form d"
  "dg_page (fold (\<lambda>i e. create_select_eth i rs (current_nw (dg_eths e) ! i) (eth_draw i e)) is d) = dg_page d"
  "dg_name (fold (\<lambda>i e. create_select_eth i rs (current_nw (dg_eths e) ! i) (eth_draw i e)) is d) = dg_name d"
  "dg_instance (fold (\<lambda>i e. create_select_eth i rs (current_nw (dg_eths e) ! i) (eth_draw i e)) is d) = dg_instance d"
  "dg_chooser (fold (\<lambda>i e. create_select_eth i rs (current_nw (dg_eths e) ! i) (eth_draw i e)) is d) = dg_chooser d"
  "dg_keys (fold (\<lambda>i e. create_select_eth i rs (current_nw (dg_eths e) ! i) (eth_draw i e)) is d) = dg_keys d"
  "dg_key (fold (\<lambda>i e. create_select_eth i rs (current_nw (dg_eths e) ! i) (eth_draw i e)) is d) = dg_key d"
  by (induction "is" arbitrary: d) (auto simp: create_select_eth_def eth_draw_def Let_def)

lemma networks_answer_frame [simp]:
  "dg_form (networks_answer rs d) = edit_flag_loaded ''networks'' (dg_form d)"
  "dg_page (networks_answer rs d) = dg_page d" "dg_name (networks_answer rs d) = dg_name d"
  "dg_instance (networks_answer rs d) = dg_instance d" "dg_chooser (networks_answer rs d) = dg_chooser d"
  "dg_keys (networks_answer rs d) = dg_keys d" "dg_key (networks_answer rs d) = dg_key d"
  by (simp_all add: networks_answer_def Let_def fold_eths_frame)

fun answer_only :: "edit_event \<Rightarrow> bool" where
  "answer_only Got_groups = True"
| "answer_only Got_keys = True"
| "answer_only Got_networks = True"
| "answer_only Got_monitors = True"
| "answer_only _ = False"

text \<open>The values of the form that \<open>ready\<close> and the answers never change.\<close>

lemma edit_ready_values [simp]:
  "mailaddr (edit_ready f) = mailaddr f" "monitoring_enabled (edit_ready f) = monitoring_enabled f"
  "monitor_editor (edit_ready f) = monitor_editor f"
  by (simp_all add: edit_ready_def Let_def)

lemma assigned_values: "map opt_value (right_select (selector_initialize (group_items inst gs)))
    = filter (\<lambda>g. g \<in> set (selected_groups inst)) (map fst gs)"
proof -
  let ?data = "group_items inst gs"
  have v: "map opt_value (column P ?data) = map (\<lambda>i. fst (gs ! i)) (filter P [0..<length gs])" for P
    by (auto simp: column_def group_items_def option_html_def case_prod_beta)
  have "filter (\<lambda>i. item_selected (?data ! i)) [0..<length gs] = filter (\<lambda>i. fst (gs ! i) \<in> set (selected_groups inst)) [0..<length gs]"
    by (rule filter_cong) (auto simp: group_items_def case_prod_beta)
  moreover have "map (\<lambda>i. fst (gs ! i)) (filter (\<lambda>i. fst (gs ! i) \<in> set (selected_groups inst)) [0..<length gs])
      = filter (\<lambda>g. g \<in> set (selected_groups inst)) (map (\<lambda>i. fst (gs ! i)) [0..<length gs])"
    by (simp add: filter_map comp_def)
  moreover have "map (\<lambda>i. fst (gs ! i)) [0..<length gs] = map fst gs"
    by (rule nth_equalityI) simp_all
  ultimately show ?thesis
    by (simp only: selector_initialize_chooser chooser_def selector.select_convs v mem_Collect_eq)
qed

lemma answers_run:
  fixes sv d es
  defines "e \<equiv> fold (edit_step sv) es d"
  assumes "list_all answer_only es"
  shows "dg_page e = dg_page d \<and> dg_name e = dg_name d \<and> dg_instance e = dg_instance d
    \<and> mailaddr (dg_form e) = mailaddr (dg_form d) \<and> monitoring_enabled (dg_form e) = monitoring_enabled (dg_form d)
    \<and> dg_chooser e = (if Got_groups \<in> set es then Some (selector_initialize (group_items (dg_instance d) (sv_groups sv))) else dg_chooser d)
    \<and> dg_keys e = (if Got_keys \<in> set es then Some (map (\<lambda>(k, nm). (k, key_label k nm)) (sv_keys sv)) else dg_keys d)
    \<and> dg_key e = (if Got_keys \<in> set es then select_val (in_key (dg_instance d)) (map fst (sv_keys sv)) else dg_key d)"
  using assms(2) unfolding e_def
proof (induction es arbitrary: d)
  case (Cons ev es)
  have m: "mailaddr (edit_monitors_loaded ms f) = mailaddr f" "monitoring_enabled (edit_monitors_loaded ms f) = monitoring_enabled f" for ms f
    by (simp_all add: edit_monitors_loaded_def edit_flag_loaded_def)
  show ?case using Cons.prems Cons.IH [of "edit_step sv ev d"]
    by (cases ev) (auto simp: groups_answer_def keys_answer_def monitors_answer_def Let_def edit_flag_loaded_def m)
qed simp


definition edit_page_demo :: edit_page where
  "edit_page_demo = \<lparr>pg_id = ''i-1'', pg_name = ''web'', pg_mails = ['''', '''', ''''], pg_monitoring = False,
     pg_networks = [''nw-1'', ''''], pg_vifs = [''vif-1'', ''vif-2'']\<rparr>"

definition edit_server_demo :: edit_server where
  "edit_server_demo = \<lparr>sv_groups = [(''sg-1'', ''default''), (''sg-2'', ''http'')], sv_keys = [(''ssh-1'', ''a''), (''ssh-2'', ''b'')],
     sv_networks = [''nw-1'', ''nw-2''], sv_monitors = []\<rparr>"

definition instance_json_demo :: instance_json where
  "instance_json_demo = \<lparr>in_monitoring = False, in_vif_groups = [[''sg-2''], []], in_key = Some ''ssh-2''\<rparr>"


text \<open>
  The update button does not wait for them: with the networks and the monitors there it is enabled, and
  an update before the other answers takes every group away and names a key that does not exist.
\<close>

lemma early_update:
  "\<not> ed_submit_off (dg_form (fold (edit_step edit_server_demo) [Got_monitors, Got_networks] (edit_callback edit_page_demo instance_json_demo)))
   \<and> edit_values_of (fold (edit_step edit_server_demo) [Got_monitors, Got_networks] (edit_callback edit_page_demo instance_json_demo)) =
    \<lparr>ev_id = ''i-1'', ev_name = ''web'', ev_monitoring = False, ev_ssh_key = ''undefined'', ev_groups = [], ev_mail = ['''', '''', '''']\<rparr>"
  by code_simp

section \<open>The interfaces when the networks have arrived\<close>

definition eth_row :: "string list \<Rightarrow> string \<Rightarrow> string \<times> string \<times> bool" where
  "eth_row rs w =
     (if w = '''' then (''disconnected'', ''disconnected'', False)
      else (w, if w \<in> set rs then w else ''disconnected'', True))"

definition eth_rows :: "edit_dialog \<Rightarrow> (string \<times> string \<times> bool) list" where
  "eth_rows d = map (\<lambda>i. (eth_text (dg_eths d) ! i, eth_select (dg_eths d) ! i, eth_detach (dg_eths d) ! i)) [0..<length (current_nw (dg_eths d))]"

definition eths_filled :: "string list \<Rightarrow> string list \<Rightarrow> nat \<Rightarrow> edit_dialog \<Rightarrow> bool" where
  "eths_filled ns rs k d =
     (current_nw (dg_eths d) = map Some ns \<and> length (eth_text (dg_eths d)) = length ns \<and> length (eth_select (dg_eths d)) = length ns
      \<and> length (eth_detach (dg_eths d)) = length ns \<and> length (dg_eth_options d) = length ns
      \<and> (\<forall>i<length ns. if i < k then (eth_text (dg_eths d) ! i, eth_select (dg_eths d) ! i, eth_detach (dg_eths d) ! i) = eth_row rs (ns ! i)
           else dg_eth_options d ! i = [''disconnected'']))"

lemma eth_row_filled:
  assumes "eths_filled ns rs k d" "k < length ns" "'''' \<notin> set rs"
  shows "eths_filled ns rs (Suc k) (create_select_eth k rs (current_nw (dg_eths d) ! k) (eth_draw k d))"
proof -
  have l: "current_nw (dg_eths d) = map Some ns" "length (eth_text (dg_eths d)) = length ns" "length (eth_select (dg_eths d)) = length ns"
    "length (eth_detach (dg_eths d)) = length ns" "length (dg_eth_options d) = length ns" "dg_eth_options d ! k = [''disconnected'']"
    using assms(1,2) by (auto simp: eths_filled_def)
  let ?e = "create_select_eth k rs (current_nw (dg_eths d) ! k) (eth_draw k d)"
  have f: "current_nw (dg_eths ?e) = map Some ns" "length (eth_text (dg_eths ?e)) = length ns" "length (eth_select (dg_eths ?e)) = length ns"
    "length (eth_detach (dg_eths ?e)) = length ns" "length (dg_eth_options ?e) = length ns"
    using l assms(2) by (simp_all add: create_select_eth_def eth_draw_def update_eth_network_id_def Let_def nth_opt_def)
  have k: "(eth_text (dg_eths ?e) ! k, eth_select (dg_eths ?e) ! k, eth_detach (dg_eths ?e) ! k) = eth_row rs (ns ! k)"
    using l assms(2,3)
    by (auto simp: create_select_eth_def eth_draw_def update_eth_network_id_def Let_def nth_opt_def eth_row_def select_val_def)
  have o: "eth_text (dg_eths ?e) ! i = eth_text (dg_eths d) ! i" "eth_select (dg_eths ?e) ! i = eth_select (dg_eths d) ! i"
    "eth_detach (dg_eths ?e) ! i = eth_detach (dg_eths d) ! i" "dg_eth_options ?e ! i = dg_eth_options d ! i" if "i \<noteq> k" for i
    using l assms(2) that by (simp_all add: create_select_eth_def eth_draw_def update_eth_network_id_def Let_def nth_opt_def)
  show ?thesis unfolding eths_filled_def
  proof (intro conjI allI impI f)
    fix i
    assume "i < length ns"
    then show "if i < Suc k then (eth_text (dg_eths ?e) ! i, eth_select (dg_eths ?e) ! i, eth_detach (dg_eths ?e) ! i) = eth_row rs (ns ! i)
        else dg_eth_options ?e ! i = [''disconnected'']"
      using assms(1) k o [of i] by (cases "i = k") (auto simp: eths_filled_def less_Suc_eq)
  qed
qed

text \<open>
  Each interface shows its network and offers to detach it, or shows that it is disconnected and
  offers to attach one; its select shows the same network when that is among the answer's.
\<close>

theorem interfaces_shown:
  assumes "'''' \<notin> set rs"
  shows "eth_rows (networks_answer rs (edit_callback pg inst)) = map (eth_row rs) (pg_networks pg)"
proof -
  let ?ns = "pg_networks pg"
  let ?d = "(edit_callback pg inst)\<lparr>dg_form := edit_flag_loaded ''networks'' (dg_form (edit_callback pg inst))\<rparr>"
  let ?f = "\<lambda>i e. create_select_eth i rs (current_nw (dg_eths e) ! i) (eth_draw i e)"
  have "k \<le> length ?ns \<Longrightarrow> eths_filled ?ns rs k (fold ?f [0..<k] ?d)" for k
  proof (induction k)
    case 0
    then show ?case by (simp add: eths_filled_def edit_callback_def)
  next
    case (Suc k)
    then show ?case using eth_row_filled [of ?ns rs k "fold ?f [0..<k] ?d"] assms by simp
  qed
  from this [of "length ?ns"] have "eths_filled ?ns rs (length ?ns) (networks_answer rs (edit_callback pg inst))"
    by (simp add: networks_answer_def edit_callback_def)
  then show ?thesis by (auto simp: eth_rows_def eths_filled_def intro!: nth_equalityI)
qed

lemma interfaces_shown_witness:
  "eth_rows (networks_answer [''nw-2'', ''nw-1''] (edit_callback edit_page_demo instance_json_demo)) =
    [(''nw-1'', ''nw-1'', True), (''disconnected'', ''disconnected'', False)]"
  using interfaces_shown [of "[''nw-2'', ''nw-1'']" edit_page_demo instance_json_demo] by (simp add: edit_page_demo_def eth_row_def)

section \<open>Moving groups\<close>

text \<open>After a move the update button is off unless a group is assigned.\<close>

lemma move_needs_group:
  assumes "dg_chooser d = Some (chooser data R)"
    and "\<not> ed_submit_off (dg_form (edit_step sv e d))" "e = To_assigned ch \<or> e = To_available ch"
  shows "ev_groups (edit_values_of (edit_step sv e d)) \<noteq> []"
proof -
  have n: "getRightSelectionCount (chooser data S) = length (right_select (chooser data S))" for S
    by (simp add: getRightSelectionCount_def count_right_refresh chooser_def)
  have c: "\<exists>S. dg_chooser (edit_step sv e d) = Some (chooser data S) \<and> ed_submit_off (dg_form (edit_step sv e d)) =
      ed_submit_off (edit_on_ready (length (right_select (chooser data S))) (dg_form d))"
    using assms(1,3) by (auto simp: edit_right_def edit_left_def leftToRight_chooser rightToLeft_chooser Let_def n)
  then obtain S where S: "dg_chooser (edit_step sv e d) = Some (chooser data S)"
    "\<not> ed_submit_off (edit_on_ready (length (right_select (chooser data S))) (dg_form d))" using assms(2) by auto
  then have "right_select (chooser data S) \<noteq> []"
    by (auto simp: edit_on_ready_def edit_ready_def Let_def split: if_splits)
  then show ?thesis using S(1) by (simp add: edit_values_of_def)
qed



text \<open>A key that was deleted: the select falls back on the first key, which the next update sends.\<close>

lemma deleted_key_replaced:
  "ev_ssh_key (edit_values_of (keys_answer [(''ssh-1'', ''a''), (''ssh-2'', ''b'')]
     (edit_callback edit_page_demo (instance_json_demo\<lparr>in_key := Some ''ssh-9''\<rparr>)))) = ''ssh-1''"
  by code_simp

end
