(* ===== verification/Lib_Validate.thy ===== *)
theory Lib_Validate
  imports Resource_Rules
begin

text \<open>
  The validation plug-in of the forms, \<open>jquery.validate.js\<close>: the tests that rules name, the rules of an
  element from its classes, its attributes and the page, the check of an element, of a form, and the
  labels with the messages. The lemmas show which elements a check of the form finds and which
  messages are seen after it, and that a mistyped digit of a card number is found.
\<close>

section \<open>The form\<close>

text \<open>
  An element of the form: \<open>fe_key\<close> tells the elements apart; \<open>fe_selected\<close> is the number of selected
  options of a select, and \<open>fe_multiple\<close> whether it may be more than one. Types are those of a page,
  in small letters.
\<close>

record felem =
  fe_key :: nat
  fe_name :: string
  fe_id :: string
  fe_node :: string
  fe_type :: string
  fe_value :: string
  fe_checked :: bool
  fe_selected :: nat
  fe_multiple :: bool
  fe_class :: "string list"
  fe_attrs :: "(string \<times> string) list"
  fe_title :: string
  fe_disabled :: bool
  fe_hidden :: bool

type_synonym form = "felem list"

definition checkable :: "felem \<Rightarrow> bool" where
  "checkable e = (fe_type e = ''radio'' \<or> fe_type e = ''checkbox'')"

definition findByName :: "form \<Rightarrow> string \<Rightarrow> form" where
  "findByName fm nm = filter (\<lambda>e. fe_name e = nm) fm"

text \<open>A radio button or check box stands for its group: the first that is not hidden.\<close>

definition validationTargetFor :: "form \<Rightarrow> felem \<Rightarrow> felem option" where
  "validationTargetFor fm e =
     (if checkable e then (case filter (\<lambda>f. \<not> fe_hidden f) (findByName fm (fe_name e)) of [] \<Rightarrow> None | f # rest \<Rightarrow> Some f)
      else Some e)"

definition getLength :: "form \<Rightarrow> string \<Rightarrow> felem \<Rightarrow> nat" where
  "getLength fm value e =
     (if fe_node e = ''select'' then fe_selected e
      else if fe_node e = ''input'' \<and> checkable e then length (filter fe_checked (findByName fm (fe_name e)))
      else js_length value)"

section \<open>Parameters\<close>

text \<open>
  The parameter of a rule: a value, a pair for ranges, a value with a condition (\<open>param\<close> and
  \<open>depends\<close>), or a function of the element. A condition is a selector or a function.
\<close>

datatype condition = No_condition | When_found string | When "felem \<Rightarrow> bool"

datatype param = P_bool bool | P_num jnum | P_text string | P_pair jnum jnum
  | P_depends "param option" condition | P_fun "felem \<Rightarrow> param"

type_synonym element_rules = "(string \<times> param) list"

text \<open>
  What the rules ask of the browser: how a number is written, whether a selector finds something in
  the form, and the values of fields.
\<close>

record page =
  pg_number_text :: "jnum \<Rightarrow> string"
  pg_found :: "string \<Rightarrow> bool"
  pg_value :: "string \<Rightarrow> string"

definition truthy_num :: "jnum \<Rightarrow> bool" where
  "truthy_num n = (case n of Fin x \<Rightarrow> x \<noteq> 0 | Infinite _ \<Rightarrow> True | Not_a_number \<Rightarrow> False)"

fun truthy_param :: "param \<Rightarrow> bool" where
  "truthy_param (P_bool b) = b"
| "truthy_param (P_num n) = truthy_num n"
| "truthy_param (P_text s) = (s \<noteq> '''')"
| "truthy_param _ = True"

fun param_number :: "param \<Rightarrow> jnum" where
  "param_number (P_bool b) = Fin (if b then 1 else 0)"
| "param_number (P_num n) = n"
| "param_number (P_text s) = to_number s"
| "param_number _ = Not_a_number"

section \<open>The methods\<close>

datatype verdict = Mismatch | Pending | Verdict bool

type_synonym check_method = "page \<Rightarrow> form \<Rightarrow> string \<Rightarrow> felem \<Rightarrow> param option \<Rightarrow> verdict"

definition depend :: "page \<Rightarrow> param option \<Rightarrow> felem \<Rightarrow> bool" where
  "depend pg p e =
     (case p of
        Some (P_bool b) \<Rightarrow> b
      | Some (P_text s) \<Rightarrow> pg_found pg s
      | Some (P_fun f) \<Rightarrow> truthy_param (f e)
      | _ \<Rightarrow> True)"

definition m_required :: check_method where
  "m_required pg fm value e p =
     (if \<not> depend pg p e then Mismatch
      else if fe_node e = ''select'' then Verdict (if fe_multiple e then fe_selected e > 0 else fe_value e \<noteq> '''')
      else if fe_node e = ''input'' \<and> checkable e then Verdict (getLength fm value e > 0)
      else Verdict (length (js_trim value) > 0))"

text \<open>An optional element is one that is empty: \<open>required\<close> says no.\<close>

definition is_optional :: "page \<Rightarrow> form \<Rightarrow> felem \<Rightarrow> bool" where
  "is_optional pg fm e = (m_required pg fm (js_trim (fe_value e)) e None = Verdict False)"

definition unless_empty :: "page \<Rightarrow> form \<Rightarrow> felem \<Rightarrow> bool \<Rightarrow> verdict" where
  "unless_empty pg fm e b = (if is_optional pg fm e then Mismatch else Verdict b)"

definition of_len :: "nat \<Rightarrow> jnum" where
  "of_len n = Fin (of_nat n)"

definition pnum :: "param option \<Rightarrow> jnum" where
  "pnum p = (case p of Some q \<Rightarrow> param_number q | None \<Rightarrow> Not_a_number)"

definition m_minlength :: check_method where
  "m_minlength pg fm value e p = unless_empty pg fm e (num_le (pnum p) (of_len (getLength fm (js_trim value) e)))"

definition m_maxlength :: check_method where
  "m_maxlength pg fm value e p = unless_empty pg fm e (num_le (of_len (getLength fm (js_trim value) e)) (pnum p))"

definition in_pair :: "param option \<Rightarrow> jnum \<Rightarrow> bool" where
  "in_pair p n = (case p of Some (P_pair a b) \<Rightarrow> num_le a n \<and> num_le n b | _ \<Rightarrow> False)"

definition m_rangelength :: check_method where
  "m_rangelength pg fm value e p = unless_empty pg fm e (in_pair p (of_len (getLength fm (js_trim value) e)))"

definition m_min :: check_method where
  "m_min pg fm value e p = unless_empty pg fm e (num_le (pnum p) (to_number value))"

definition m_max :: check_method where
  "m_max pg fm value e p = unless_empty pg fm e (num_le (to_number value) (pnum p))"

definition m_range :: check_method where
  "m_range pg fm value e p = unless_empty pg fm e (in_pair p (to_number value))"

definition m_digits :: check_method where
  "m_digits pg fm value e p = unless_empty pg fm e (value \<noteq> '''' \<and> list_all is_digit value)"

definition m_number :: check_method where
  "m_number pg fm value e p = unless_empty pg fm e (number_ok value)"

text \<open>\<open>dateISO\<close>: four digits and twice one or two, with dashes or slashes between.\<close>

definition iso_separator :: "char \<Rightarrow> bool" where
  "iso_separator c = (c = CHR ''-'' \<or> c = CHR ''/'')"

definition iso_parts :: "string \<Rightarrow> string list" where
  "iso_parts v = split_on (CHR ''-'') (map (\<lambda>c. if iso_separator c then CHR ''-'' else c) v)"

definition date_iso_ok :: "string \<Rightarrow> bool" where
  "date_iso_ok v =
     (case iso_parts v of
        [y, m, d] \<Rightarrow> length y = 4 \<and> list_all is_digit (y @ m @ d) \<and> length m \<in> {1, 2} \<and> length d \<in> {1, 2}
      | _ \<Rightarrow> False)"

definition m_dateISO :: check_method where
  "m_dateISO pg fm value e p = unless_empty pg fm e (date_iso_ok value)"

text \<open>The check sum of a card number, from the last digit: every second digit is doubled.\<close>

fun card_sum :: "bool \<Rightarrow> nat list \<Rightarrow> nat" where
  "card_sum even1 [] = 0"
| "card_sum even1 (d # ds) =
     (let x = (if even1 then (if 2 * d > 9 then 2 * d - 9 else 2 * d) else d) in x + card_sum (\<not> even1) ds)"

definition card_digits :: "string \<Rightarrow> nat list" where
  "card_digits v = rev (map (\<lambda>c. the (digit_value c)) (filter is_digit v))"

definition card_char :: "char \<Rightarrow> bool" where
  "card_char c = (is_digit c \<or> c = CHR '' '' \<or> c = CHR ''-'')"

definition m_creditcard :: check_method where
  "m_creditcard pg fm value e p =
     (if is_optional pg fm e then Mismatch
      else if \<not> list_all card_char value then Verdict False
      else Verdict (card_sum False (card_digits value) mod 10 = 0))"

definition m_equalTo :: check_method where
  "m_equalTo pg fm value e p =
     (case p of Some (P_text sel) \<Rightarrow> Verdict (value = pg_value pg sel) | _ \<Rightarrow> Verdict False)"

text \<open>
  The plug-in's methods in their order, the ones that the model does not need left out: \<open>remote\<close>, the
  regular expressions of addresses, \<open>date\<close> and \<open>accept\<close>. The pages add theirs at the end.
\<close>

definition plugin_methods :: "(string \<times> check_method) list" where
  "plugin_methods = [(''required'', m_required), (''minlength'', m_minlength), (''maxlength'', m_maxlength),
     (''rangelength'', m_rangelength), (''min'', m_min), (''max'', m_max), (''range'', m_range),
     (''dateISO'', m_dateISO), (''number'', m_number), (''digits'', m_digits), (''creditcard'', m_creditcard),
     (''equalTo'', m_equalTo)]"

section \<open>The rules of an element\<close>

text \<open>A rule as a text: each of its words is a method without a parameter.\<close>

fun words_of :: "string \<Rightarrow> string list" where
  "words_of [] = [[]]"
| "words_of (c # s) = (if is_space c then [] # words_of s else (case words_of s of w # ws \<Rightarrow> (c # w) # ws | [] \<Rightarrow> [[c]]))"

datatype rule_data = Rule_words string | Rule_object element_rules

definition extend_rules :: "element_rules \<Rightarrow> element_rules \<Rightarrow> element_rules" where
  "extend_rules obj src = fold (\<lambda>(k, v). obj_set k v) src obj"

definition normalizeRule :: "rule_data \<Rightarrow> element_rules" where
  "normalizeRule r =
     (case r of
        Rule_words s \<Rightarrow> extend_rules [] (map (\<lambda>w. (w, P_bool True)) (words_of s))
      | Rule_object rs \<Rightarrow> rs)"

text \<open>A message is a text or a function of the parameters, and a field has one message or one for each method.\<close>

datatype message = M_text string | M_fun "param \<Rightarrow> string"

datatype message_spec = One_message string | Message_for "(string \<times> message) list"

record settings =
  st_rules :: "(string \<times> rule_data) list"
  st_classRules :: "(string \<times> element_rules) list"
  st_methods :: "(string \<times> check_method) list"
  st_autoCreateRanges :: bool
  st_messages :: "(string \<times> message_spec) list"
  st_defaults :: "(string \<times> message) list"
  st_groups :: "(string \<times> string) list"
  st_ignoreTitle :: bool

text \<open>The rules of the element's classes; a method without a parameter is the name of a class as well.\<close>

definition classRules :: "settings \<Rightarrow> felem \<Rightarrow> element_rules" where
  "classRules st e =
     fold (\<lambda>c rs. case map_of (st_classRules st) c of Some r \<Rightarrow> extend_rules rs r | None \<Rightarrow> rs) (fe_class e) []"

definition no_maxlength :: "param \<Rightarrow> bool" where
  "no_maxlength p =
     (case p of
        P_text s \<Rightarrow> list_ex (\<lambda>w. list_ex (\<lambda>i. take (length w) (drop i s) = w) [0..<Suc (length s)]) [''-1'', ''2147483647'', ''524288'']
      | _ \<Rightarrow> False)"

definition attributeRules :: "settings \<Rightarrow> felem \<Rightarrow> element_rules" where
  "attributeRules st e =
     (let rs = fold (\<lambda>(m, f) rs.
                 (case map_of (fe_attrs e) m of
                    Some v \<Rightarrow> if v \<noteq> '''' then obj_set m (P_text v) rs
                              else if fe_type e = m then obj_set m (P_bool True) rs else rs
                  | None \<Rightarrow> if fe_type e = m then obj_set m (P_bool True) rs else rs)) (st_methods st) []
      in case map_of rs ''maxlength'' of
           Some p \<Rightarrow> if truthy_param p \<and> no_maxlength p then obj_delete ''maxlength'' rs else rs
         | None \<Rightarrow> rs)"

definition staticRules :: "settings \<Rightarrow> felem \<Rightarrow> element_rules" where
  "staticRules st e = (case map_of (st_rules st) (fe_name e) of Some r \<Rightarrow> normalizeRule r | None \<Rightarrow> [])"

text \<open>
  \<open>normalizeRules\<close>: rules that are switched off or whose condition does not hold go, functions are
  called, the parameters that have to be numbers become numbers, and pairs become ranges.
\<close>

definition keep_rule :: "page \<Rightarrow> felem \<Rightarrow> param \<Rightarrow> param option" where
  "keep_rule pg e p =
     (case p of
        P_bool False \<Rightarrow> None
      | P_depends q c \<Rightarrow>
          if (case q of Some r \<Rightarrow> truthy_param r | None \<Rightarrow> False) \<or> (case c of No_condition \<Rightarrow> False | _ \<Rightarrow> True)
          then (if (case c of No_condition \<Rightarrow> True | When_found s \<Rightarrow> pg_found pg s | When f \<Rightarrow> f e)
                then Some (case q of Some r \<Rightarrow> r | None \<Rightarrow> P_bool True) else None)
          else Some p
      | _ \<Rightarrow> Some p)"

definition evaluate_param :: "felem \<Rightarrow> param \<Rightarrow> param" where
  "evaluate_param e p = (case p of P_fun f \<Rightarrow> f e | _ \<Rightarrow> p)"

definition number_methods :: "string list" where
  "number_methods = [''minlength'', ''maxlength'', ''min'', ''max'']"

definition pair_methods :: "string list" where
  "pair_methods = [''rangelength'', ''range'']"

text \<open>A pair whose parts are read from a text takes two of its characters.\<close>

definition char_number :: "string \<Rightarrow> nat \<Rightarrow> jnum" where
  "char_number s i = (case nth_opt s i of Some c \<Rightarrow> to_number [c] | None \<Rightarrow> Not_a_number)"

definition pair_param :: "param \<Rightarrow> param" where
  "pair_param p =
     (case p of
        P_pair a b \<Rightarrow> P_pair a b
      | P_text s \<Rightarrow> P_pair (char_number s 0) (char_number s 1)
      | _ \<Rightarrow> P_pair Not_a_number Not_a_number)"

definition clean_param :: "string \<Rightarrow> param \<Rightarrow> param" where
  "clean_param m p =
     (if m \<in> set number_methods then (if truthy_param p then P_num (param_number p) else p)
      else if m \<in> set pair_methods then (if truthy_param p then pair_param p else p)
      else p)"

definition create_range :: "string \<Rightarrow> string \<Rightarrow> string \<Rightarrow> element_rules \<Rightarrow> element_rules" where
  "create_range lo hi rg rs =
     (case (map_of rs lo, map_of rs hi) of
        (Some a, Some b) \<Rightarrow>
          if truthy_param a \<and> truthy_param b
          then obj_delete hi (obj_delete lo (obj_set rg (P_pair (param_number a) (param_number b)) rs)) else rs
      | _ \<Rightarrow> rs)"

definition normalizeRules :: "settings \<Rightarrow> page \<Rightarrow> element_rules \<Rightarrow> felem \<Rightarrow> element_rules" where
  "normalizeRules st pg rs e =
     (let rs1 = List.map_filter (\<lambda>(m, p). map_option (\<lambda>q. (m, q)) (keep_rule pg e p)) rs;
          rs2 = map (\<lambda>(m, p). (m, clean_param m (evaluate_param e p))) rs1;
          rs3 = (if st_autoCreateRanges st
                 then create_range ''minlength'' ''maxlength'' ''rangelength'' (create_range ''min'' ''max'' ''range'' rs2) else rs2)
      in filter (\<lambda>(m, p). \<not> (m = ''messages'' \<and> truthy_param p)) rs3)"

text \<open>\<open>required\<close> comes first.\<close>

definition required_first :: "element_rules \<Rightarrow> element_rules" where
  "required_first data =
     (case map_of data ''required'' of
        Some p \<Rightarrow> if truthy_param p then extend_rules [(''required'', p)] (obj_delete ''required'' data) else data
      | None \<Rightarrow> data)"

definition rules_of_element :: "settings \<Rightarrow> page \<Rightarrow> felem \<Rightarrow> element_rules" where
  "rules_of_element st pg e =
     required_first (normalizeRules st pg
       (extend_rules (extend_rules (extend_rules [] (classRules st e)) (attributeRules st e)) (staticRules st e)) e)"

text \<open>\<open>rules(''add'')\<close> and \<open>rules(''remove'')\<close>: the rules that the page sets for an element's name.\<close>

definition rules_add :: "felem \<Rightarrow> rule_data \<Rightarrow> settings \<Rightarrow> settings" where
  "rules_add e r st =
     st\<lparr>st_rules := obj_set (fe_name e) (Rule_object (extend_rules (staticRules st e) (normalizeRule r))) (st_rules st)\<rparr>"

definition rules_remove :: "felem \<Rightarrow> string option \<Rightarrow> settings \<Rightarrow> settings" where
  "rules_remove e which st =
     (case which of
        None \<Rightarrow> st\<lparr>st_rules := obj_delete (fe_name e) (st_rules st)\<rparr>
      | Some ws \<Rightarrow> st\<lparr>st_rules := (if map_of (st_rules st) (fe_name e) = None then st_rules st
           else map (\<lambda>(k, r). if k = fe_name e then (k, Rule_object (fold obj_delete (words_of ws) (staticRules st e))) else (k, r)) (st_rules st))\<rparr>)"

text \<open>A method that a page adds; one with fewer than three parameters is a class too.\<close>

definition addMethod :: "string \<Rightarrow> check_method \<Rightarrow> nat \<Rightarrow> settings \<Rightarrow> settings" where
  "addMethod nm f arity st =
     (let st1 = st\<lparr>st_methods := obj_set nm f (st_methods st)\<rparr>
      in if arity < 3 then st1\<lparr>st_classRules := obj_set nm (normalizeRule (Rule_words nm)) (st_classRules st1)\<rparr> else st1)"

text \<open>The elements that a form is checked by: the first of each name that has rules.\<close>

fun first_named :: "string list \<Rightarrow> (felem \<Rightarrow> bool) \<Rightarrow> form \<Rightarrow> form" where
  "first_named seen P [] = []"
| "first_named seen P (e # es) =
     (if fe_name e \<in> set seen \<or> \<not> P e then first_named seen P es else e # first_named (fe_name e # seen) P es)"

definition button_types :: "string list" where
  "button_types = [''submit'', ''reset'', ''image'']"

definition elements_to_check :: "settings \<Rightarrow> page \<Rightarrow> form \<Rightarrow> form" where
  "elements_to_check st pg fm =
     first_named [] (\<lambda>e. length (rules_of_element st pg e) > 0)
       (filter (\<lambda>e. fe_type e \<notin> set button_types \<and> \<not> fe_disabled e) fm)"

section \<open>Checking an element\<close>

text \<open>What a check comes to; \<open>Unknown\<close> is the exception for a rule that is no method.\<close>

datatype outcome = Passed | Skipped | Waiting | Failed string param | Unknown string

definition strip_cr :: "string \<Rightarrow> string" where
  "strip_cr s = filter (\<lambda>c. c \<noteq> CHR 0x0D) s"

fun check_rules :: "settings \<Rightarrow> page \<Rightarrow> form \<Rightarrow> felem \<Rightarrow> bool \<Rightarrow> element_rules \<Rightarrow> outcome" where
  "check_rules st pg fm e mismatch [] = (if mismatch then Skipped else Passed)"
| "check_rules st pg fm e mismatch ((m, p) # rs) =
     (case map_of (st_methods st) m of
        None \<Rightarrow> Unknown m
      | Some f \<Rightarrow> (case f pg fm (strip_cr (fe_value e)) e (Some p) of
            Mismatch \<Rightarrow> check_rules st pg fm e True rs
          | Pending \<Rightarrow> Waiting
          | Verdict b \<Rightarrow> if b then check_rules st pg fm e False rs else Failed m p))"

definition check_element :: "settings \<Rightarrow> page \<Rightarrow> form \<Rightarrow> felem \<Rightarrow> outcome" where
  "check_element st pg fm e = check_rules st pg fm e False (rules_of_element st pg e)"

section \<open>Messages\<close>

function replace_all :: "string \<Rightarrow> string \<Rightarrow> string \<Rightarrow> string" where
  "replace_all pat new [] = []"
| "replace_all pat new (c # s) =
     (if pat \<noteq> [] \<and> take (length pat) (c # s) = pat then new @ replace_all pat new (drop (length pat) (c # s))
      else c # replace_all pat new s)"
  by pat_completeness auto
termination by (relation "measure (\<lambda>(pat, new, s). length s)") auto

text \<open>\<open>format\<close>: the parameters replace \<open>{0}\<close>, \<open>{1}\<close> and so on, one after the other.\<close>

definition format_message :: "string \<Rightarrow> string list \<Rightarrow> string" where
  "format_message source params =
     fold (\<lambda>i s. replace_all (''{'' @ nat_digits i @ ''}'') (params ! i) s) [0..<length params] source"

definition param_texts :: "page \<Rightarrow> param \<Rightarrow> string list" where
  "param_texts pg p =
     (case p of
        P_bool b \<Rightarrow> [to_str (JBool b)]
      | P_num n \<Rightarrow> [pg_number_text pg n]
      | P_text s \<Rightarrow> [s]
      | P_pair a b \<Rightarrow> [pg_number_text pg a, pg_number_text pg b]
      | _ \<Rightarrow> [])"

text \<open>The dollar sign before a placeholder goes away.\<close>

fun strip_dollar :: "string \<Rightarrow> string" where
  "strip_dollar [] = []"
| "strip_dollar (c # s) =
     (if c = CHR ''$'' \<and> take 1 s = ''{'' \<and> takeWhile is_digit (drop 1 s) \<noteq> []
         \<and> take 1 (dropWhile is_digit (drop 1 s)) = ''}''
      then strip_dollar s else c # strip_dollar s)"

definition customMessage :: "settings \<Rightarrow> string \<Rightarrow> string \<Rightarrow> message option" where
  "customMessage st nm m =
     (case map_of (st_messages st) nm of
        None \<Rightarrow> None
      | Some (One_message t) \<Rightarrow> Some (M_text t)
      | Some (Message_for ms1) \<Rightarrow> map_of ms1 m)"

text \<open>
  The first message that is defined: the page's own, the element's title, the plug-in's. An empty
  message of the page for the whole field counts as none given for it, but as defined.
\<close>

definition defaultMessage :: "settings \<Rightarrow> felem \<Rightarrow> string \<Rightarrow> message" where
  "defaultMessage st e m =
     (case customMessage st (fe_name e) m of
        Some t \<Rightarrow> t
      | None \<Rightarrow>
          if \<not> st_ignoreTitle st \<and> fe_title e \<noteq> '''' then M_text (fe_title e)
          else (case map_of (st_defaults st) m of
                  Some t \<Rightarrow> t
                | None \<Rightarrow> M_text (''<strong>Warning: No message defined for '' @ fe_name e @ ''</strong>'')))"

definition rule_message :: "settings \<Rightarrow> page \<Rightarrow> felem \<Rightarrow> string \<Rightarrow> param \<Rightarrow> string" where
  "rule_message st pg e m p =
     (case defaultMessage st e m of
        M_fun f \<Rightarrow> f p
      | M_text t \<Rightarrow> format_message (strip_dollar t) (param_texts pg p))"

section \<open>The validator\<close>

text \<open>
  The labels that show messages, in the order in which they were made; \<open>toShow\<close> and \<open>toHide\<close> are
  sets of them. Error containers, wrappers and the option \<open>success\<close> are not used by the pages.
\<close>

record label =
  lb_for :: string
  lb_text :: string
  lb_shown :: bool

record validator =
  v_submitted :: "string list"
  v_invalid :: "string list"
  v_success :: "felem list"
  v_errors :: "(felem \<times> string) list"
  v_errorMap :: "(string \<times> string) list"
  v_toShow :: "nat list"
  v_toHide :: "nat list"
  v_labels :: "label list"
  v_current :: "felem list"
  v_last :: "felem option"
  v_marks :: "nat list"

definition validator_init :: validator where
  "validator_init = \<lparr>v_submitted = [], v_invalid = [], v_success = [], v_errors = [], v_errorMap = [], v_toShow = [],
     v_toHide = [], v_labels = [], v_current = [], v_last = None, v_marks = []\<rparr>"

definition idOrName :: "settings \<Rightarrow> felem \<Rightarrow> string" where
  "idOrName st e =
     (case map_of (st_groups st) (fe_name e) of
        Some g \<Rightarrow> g
      | None \<Rightarrow> if checkable e then fe_name e else if fe_id e \<noteq> '''' then fe_id e else fe_name e)"

definition errorsFor :: "settings \<Rightarrow> felem \<Rightarrow> validator \<Rightarrow> nat list" where
  "errorsFor st e v = filter (\<lambda>i. lb_for (v_labels v ! i) = idOrName st e) [0..<length (v_labels v)]"

definition v_reset :: "validator \<Rightarrow> validator" where
  "v_reset v = v\<lparr>v_success := [], v_errors := [], v_errorMap := [], v_toShow := [], v_toHide := [], v_current := []\<rparr>"

definition prepareForm :: "validator \<Rightarrow> validator" where
  "prepareForm v = (v_reset v)\<lparr>v_toHide := [0..<length (v_labels v)]\<rparr>"

definition prepareElement :: "settings \<Rightarrow> felem \<Rightarrow> validator \<Rightarrow> validator" where
  "prepareElement st e v = (v_reset v)\<lparr>v_toHide := errorsFor st e v\<rparr>"

definition formatAndAdd :: "settings \<Rightarrow> page \<Rightarrow> felem \<Rightarrow> string \<Rightarrow> param \<Rightarrow> validator \<Rightarrow> validator" where
  "formatAndAdd st pg e m p v =
     (let t = rule_message st pg e m p
      in v\<lparr>v_errors := v_errors v @ [(e, t)], v_errorMap := obj_set (fe_name e) t (v_errorMap v),
           v_submitted := List.insert (fe_name e) (v_submitted v)\<rparr>)"

text \<open>
  \<open>check\<close>: the answer is \<open>Some\<close> of true or false, or \<open>None\<close> for undefined. The whole is \<open>None\<close>
  when it throws: for a rule that is no method, and for a group with nothing visible.
\<close>

definition v_check :: "settings \<Rightarrow> page \<Rightarrow> form \<Rightarrow> felem \<Rightarrow> validator \<Rightarrow> (bool option \<times> validator) option" where
  "v_check st pg fm e0 v =
     (case validationTargetFor fm e0 of
        None \<Rightarrow> None
      | Some e \<Rightarrow>
          (case check_element st pg fm e of
             Unknown m \<Rightarrow> None
           | Passed \<Rightarrow> Some (Some True, if length (rules_of_element st pg e) > 0 then v\<lparr>v_success := v_success v @ [e]\<rparr> else v)
           | Skipped \<Rightarrow> Some (None, v)
           | Waiting \<Rightarrow> Some (None, v\<lparr>v_toHide := filter (\<lambda>i. i \<notin> set (errorsFor st e v)) (v_toHide v)\<rparr>)
           | Failed m p \<Rightarrow> Some (Some False, formatAndAdd st pg e m p v)))"

fun v_check_all :: "settings \<Rightarrow> page \<Rightarrow> form \<Rightarrow> form \<Rightarrow> validator \<Rightarrow> validator option" where
  "v_check_all st pg fm [] v = Some v"
| "v_check_all st pg fm (e # es) v =
     (case v_check st pg fm e v of None \<Rightarrow> None | Some (r, v1) \<Rightarrow> v_check_all st pg fm es v1)"

definition checkForm :: "settings \<Rightarrow> page \<Rightarrow> form \<Rightarrow> validator \<Rightarrow> validator option" where
  "checkForm st pg fm v =
     (let es = elements_to_check st pg fm in v_check_all st pg fm es ((prepareForm v)\<lparr>v_current := es\<rparr>))"

text \<open>
  Showing a message makes a new label, but for an empty one, which refreshes the labels that the
  element has.
\<close>

definition showLabel :: "settings \<Rightarrow> felem \<Rightarrow> string \<Rightarrow> validator \<Rightarrow> validator" where
  "showLabel st e t v =
     (if t = '''' \<and> errorsFor st e v \<noteq> []
      then v\<lparr>v_labels := fold (\<lambda>i ls. ls[i := (ls ! i)\<lparr>lb_text := ''''\<rparr>]) (errorsFor st e v) (v_labels v),
             v_toShow := v_toShow v @ errorsFor st e v\<rparr>
      else v\<lparr>v_labels := v_labels v @ [\<lparr>lb_for = idOrName st e, lb_text = t, lb_shown = True\<rparr>],
             v_toShow := v_toShow v @ [length (v_labels v)]\<rparr>)"

text \<open>The error class of the elements: the keys of those that have it. A radio button marks its group.\<close>

definition marked_by :: "form \<Rightarrow> felem \<Rightarrow> nat list" where
  "marked_by fm e = (if fe_type e = ''radio'' then map fe_key (findByName fm (fe_name e)) else [fe_key e])"

definition highlight :: "form \<Rightarrow> felem \<Rightarrow> validator \<Rightarrow> validator" where
  "highlight fm e v = v\<lparr>v_marks := fold List.insert (marked_by fm e) (v_marks v)\<rparr>"

definition unhighlight :: "form \<Rightarrow> felem \<Rightarrow> validator \<Rightarrow> validator" where
  "unhighlight fm e v = v\<lparr>v_marks := filter (\<lambda>k. k \<notin> set (marked_by fm e)) (v_marks v)\<rparr>"

definition set_shown :: "bool \<Rightarrow> nat list \<Rightarrow> validator \<Rightarrow> validator" where
  "set_shown b is v = v\<lparr>v_labels := map (\<lambda>i. if i \<in> set is then (v_labels v ! i)\<lparr>lb_shown := b\<rparr> else v_labels v ! i) [0..<length (v_labels v)]\<rparr>"

definition validElements :: "validator \<Rightarrow> felem list" where
  "validElements v = filter (\<lambda>e. fe_key e \<notin> (\<lambda>(f, t). fe_key f) ` set (v_errors v)) (v_current v)"

definition defaultShowErrors :: "settings \<Rightarrow> form \<Rightarrow> validator \<Rightarrow> validator" where
  "defaultShowErrors st fm v =
     (let v1 = fold (\<lambda>(e, t) u. showLabel st e t (highlight fm e u)) (v_errors v) v;
          v2 = fold (unhighlight fm) (validElements v1) v1;
          v3 = v2\<lparr>v_toHide := filter (\<lambda>i. i \<notin> set (v_toShow v2)) (v_toHide v2)\<rparr>
      in set_shown True (v_toShow v3) (set_shown False (v_toHide v3) v3))"

definition v_valid :: "validator \<Rightarrow> bool" where
  "v_valid v = (length (v_errors v) = 0)"

definition form_validate :: "settings \<Rightarrow> page \<Rightarrow> form \<Rightarrow> validator \<Rightarrow> (bool \<times> validator) option" where
  "form_validate st pg fm v =
     (case checkForm st pg fm v of
        None \<Rightarrow> None
      | Some v1 \<Rightarrow>
          (let v2 = v1\<lparr>v_submitted := fold List.insert (map fst (v_errorMap v1)) (v_submitted v1),
                       v_invalid := map fst (v_errorMap v1)\<rparr>
           in Some (v_valid v2, defaultShowErrors st fm v2)))"

definition element_validate :: "settings \<Rightarrow> page \<Rightarrow> form \<Rightarrow> felem \<Rightarrow> validator \<Rightarrow> (bool option \<times> validator) option" where
  "element_validate st pg fm e0 v =
     (case validationTargetFor fm e0 of
        None \<Rightarrow> None
      | Some e \<Rightarrow>
          (case v_check st pg fm e ((prepareElement st e v)\<lparr>v_last := Some e, v_current := [e]\<rparr>) of
             None \<Rightarrow> None
           | Some (r, v1) \<Rightarrow>
               (let v2 = (if r = Some True then v1\<lparr>v_invalid := removeAll (fe_name e) (v_invalid v1)\<rparr>
                          else v1\<lparr>v_invalid := List.insert (fe_name e) (v_invalid v1)\<rparr>)
                in Some (r, defaultShowErrors st fm v2))))"

definition numberOfInvalids :: "validator \<Rightarrow> nat" where
  "numberOfInvalids v = length (v_invalid v)"

definition resetForm :: "settings \<Rightarrow> page \<Rightarrow> form \<Rightarrow> validator \<Rightarrow> validator" where
  "resetForm st pg fm v =
     (let v1 = prepareForm (v\<lparr>v_submitted := [], v_last := None\<rparr>);
          v2 = set_shown False (v_toHide v1) v1
      in v2\<lparr>v_marks := filter (\<lambda>k. k \<notin> fe_key ` set (elements_to_check st pg fm)) (v_marks v2)\<rparr>)"

text \<open>The events of the fields.\<close>

definition onfocusout :: "settings \<Rightarrow> page \<Rightarrow> form \<Rightarrow> felem \<Rightarrow> validator \<Rightarrow> validator option" where
  "onfocusout st pg fm e v =
     (if \<not> checkable e \<and> (fe_name e \<in> set (v_submitted v) \<or> \<not> is_optional pg fm e)
      then map_option snd (element_validate st pg fm e v) else Some v)"

definition onkeyup :: "settings \<Rightarrow> page \<Rightarrow> form \<Rightarrow> felem \<Rightarrow> validator \<Rightarrow> validator option" where
  "onkeyup st pg fm e v =
     (if fe_name e \<in> set (v_submitted v) \<or> map_option fe_key (v_last v) = Some (fe_key e)
      then map_option snd (element_validate st pg fm e v) else Some v)"

definition onclick :: "settings \<Rightarrow> page \<Rightarrow> form \<Rightarrow> felem \<Rightarrow> validator \<Rightarrow> validator option" where
  "onclick st pg fm e v =
     (if fe_name e \<in> set (v_submitted v) then map_option snd (element_validate st pg fm e v) else Some v)"

section \<open>What the check of a form finds\<close>

text \<open>The specification: the message of the first rule that an element breaks.\<close>

definition failure :: "settings \<Rightarrow> page \<Rightarrow> form \<Rightarrow> felem \<Rightarrow> (felem \<times> string) option" where
  "failure st pg fm e =
     (case validationTargetFor fm e of
        None \<Rightarrow> None
      | Some t \<Rightarrow> (case check_element st pg fm t of Failed m p \<Rightarrow> Some (t, rule_message st pg t m p) | _ \<Rightarrow> None))"

definition checks_well :: "settings \<Rightarrow> page \<Rightarrow> form \<Rightarrow> felem \<Rightarrow> bool" where
  "checks_well st pg fm e =
     (case validationTargetFor fm e of
        None \<Rightarrow> False
      | Some t \<Rightarrow> (case check_element st pg fm t of Unknown m \<Rightarrow> False | _ \<Rightarrow> True))"

definition failures :: "settings \<Rightarrow> page \<Rightarrow> form \<Rightarrow> (felem \<times> string) list" where
  "failures st pg fm = List.map_filter (failure st pg fm) (elements_to_check st pg fm)"

lemma v_check_frame:
  assumes "checks_well st pg fm e"
  shows "\<exists>r v1. v_check st pg fm e v = Some (r, v1)
    \<and> v_errors v1 = v_errors v @ (case failure st pg fm e of Some x \<Rightarrow> [x] | None \<Rightarrow> [])
    \<and> v_toShow v1 = v_toShow v \<and> v_labels v1 = v_labels v \<and> v_current v1 = v_current v \<and> v_marks v1 = v_marks v
    \<and> (r = Some False \<longleftrightarrow> failure st pg fm e \<noteq> None)
    \<and> (v_toHide v1 = v_toHide v \<or> (\<exists>t. validationTargetFor fm e = Some t \<and> check_element st pg fm t = Waiting))"
  using assms
  by (auto simp: checks_well_def v_check_def failure_def formatAndAdd_def Let_def split: option.splits outcome.splits)

text \<open>No rule is waiting for an answer.\<close>

definition settled :: "settings \<Rightarrow> page \<Rightarrow> form \<Rightarrow> felem \<Rightarrow> bool" where
  "settled st pg fm e =
     (checks_well st pg fm e \<and> (case validationTargetFor fm e of Some t \<Rightarrow> (case check_element st pg fm t of Waiting \<Rightarrow> False | _ \<Rightarrow> True) | None \<Rightarrow> False))"

lemma v_check_settled:
  assumes "settled st pg fm e"
  shows "\<exists>r v1. v_check st pg fm e v = Some (r, v1)
    \<and> v_errors v1 = v_errors v @ (case failure st pg fm e of Some x \<Rightarrow> [x] | None \<Rightarrow> [])
    \<and> v_toShow v1 = v_toShow v \<and> v_toHide v1 = v_toHide v \<and> v_labels v1 = v_labels v \<and> v_current v1 = v_current v"
  using v_check_frame [of st pg fm e v] assms by (auto simp: settled_def split: outcome.splits)

lemma v_check_all_settled:
  "list_all (settled st pg fm) es \<Longrightarrow> \<exists>v1. v_check_all st pg fm es v = Some v1
    \<and> v_errors v1 = v_errors v @ List.map_filter (failure st pg fm) es
    \<and> v_toShow v1 = v_toShow v \<and> v_toHide v1 = v_toHide v \<and> v_labels v1 = v_labels v \<and> v_current v1 = v_current v"
proof (induction es arbitrary: v)
  case (Cons e es)
  have e: "settled st pg fm e" and es: "list_all (settled st pg fm) es" using Cons.prems by simp_all
  obtain r v1 where c: "v_check st pg fm e v = Some (r, v1)"
    "v_errors v1 = v_errors v @ (case failure st pg fm e of Some x \<Rightarrow> [x] | None \<Rightarrow> [])"
    "v_toShow v1 = v_toShow v" "v_toHide v1 = v_toHide v" "v_labels v1 = v_labels v" "v_current v1 = v_current v"
    using v_check_settled [OF e] by blast
  from Cons.IH [OF es, of v1] show ?case using c by (auto simp: map_filter_simps split: option.splits)
qed (simp add: map_filter_simps)

text \<open>The labels that can be seen.\<close>

definition seen_labels :: "validator \<Rightarrow> (string \<times> string) list" where
  "seen_labels v = map (\<lambda>l. (lb_for l, lb_text l)) (filter lb_shown (v_labels v))"

lemma show_labels:
  assumes "list_all (\<lambda>(e, t). t \<noteq> '''') es"
  shows "v_labels (fold (\<lambda>(e, t) u. showLabel st e t (highlight fm e u)) es v)
      = v_labels v @ map (\<lambda>(e, t). \<lparr>lb_for = idOrName st e, lb_text = t, lb_shown = True\<rparr>) es"
    and "v_toShow (fold (\<lambda>(e, t) u. showLabel st e t (highlight fm e u)) es v)
      = v_toShow v @ [length (v_labels v)..<length (v_labels v) + length es]"
    and "v_toHide (fold (\<lambda>(e, t) u. showLabel st e t (highlight fm e u)) es v) = v_toHide v"
    and "v_errors (fold (\<lambda>(e, t) u. showLabel st e t (highlight fm e u)) es v) = v_errors v"
proof -
  let ?f = "\<lambda>(e, t) u. showLabel st e t (highlight fm e u)"
  have s: "v_labels (?f (e, t) u) = v_labels u @ [\<lparr>lb_for = idOrName st e, lb_text = t, lb_shown = True\<rparr>]"
    "v_toShow (?f (e, t) u) = v_toShow u @ [length (v_labels u)]" "v_toHide (?f (e, t) u) = v_toHide u"
    "v_errors (?f (e, t) u) = v_errors u" if "t \<noteq> ''''" for e t u
    using that by (simp_all add: showLabel_def highlight_def)
  have "v_labels (fold ?f es v) = v_labels v @ map (\<lambda>(e, t). \<lparr>lb_for = idOrName st e, lb_text = t, lb_shown = True\<rparr>) es
    \<and> v_toShow (fold ?f es v) = v_toShow v @ [length (v_labels v)..<length (v_labels v) + length es]
    \<and> v_toHide (fold ?f es v) = v_toHide v \<and> v_errors (fold ?f es v) = v_errors v"
    using assms
  proof (induction es arbitrary: v)
    case (Cons x es)
    obtain e t where x: "x = (e, t)" by fastforce
    have t: "t \<noteq> ''''" "list_all (\<lambda>(e, t). t \<noteq> '''') es" using Cons.prems x by simp_all
    have "[length (v_labels v)..<length (v_labels v) + length (x # es)] =
        length (v_labels v) # [Suc (length (v_labels v))..<Suc (length (v_labels v)) + length es]"
      by (simp add: upt_conv_Cons del: upt_Suc)
    then show ?case using Cons.IH [OF t(2), of "?f (e, t) v"] s [OF t(1), of e v] x by (simp del: upt_Suc)
  qed simp
  then show "v_labels (fold ?f es v) = v_labels v @ map (\<lambda>(e, t). \<lparr>lb_for = idOrName st e, lb_text = t, lb_shown = True\<rparr>) es"
    "v_toShow (fold ?f es v) = v_toShow v @ [length (v_labels v)..<length (v_labels v) + length es]"
    "v_toHide (fold ?f es v) = v_toHide v" "v_errors (fold ?f es v) = v_errors v" by blast+
qed

lemma unhighlight_frame [simp]:
  "v_labels (fold (unhighlight fm) es v) = v_labels v" "v_toShow (fold (unhighlight fm) es v) = v_toShow v"
  "v_toHide (fold (unhighlight fm) es v) = v_toHide v" "v_errors (fold (unhighlight fm) es v) = v_errors v"
  by (induction es arbitrary: v) (auto simp: unhighlight_def)

lemma set_shown_labels:
  "v_labels (set_shown b js v) = map (\<lambda>i. if i \<in> set js then (v_labels v ! i)\<lparr>lb_shown := b\<rparr> else v_labels v ! i) [0..<length (v_labels v)]"
  "v_errors (set_shown b js v) = v_errors v"
  by (simp_all add: set_shown_def)

text \<open>The old labels keep what \<open>toHide\<close> leaves of them, and the new ones follow.\<close>

lemma defaultShowErrors_labels:
  fixes v st fm
  defines "n \<equiv> length (v_labels v)"
  assumes "list_all (\<lambda>(e, t). t \<noteq> '''') (v_errors v)" "v_toShow v = []" "set (v_toHide v) \<subseteq> {..<n}"
  shows "v_labels (defaultShowErrors st fm v) =
      map (\<lambda>i. if i \<in> set (v_toHide v) then (v_labels v ! i)\<lparr>lb_shown := False\<rparr> else v_labels v ! i) [0..<n]
      @ map (\<lambda>(e, t). \<lparr>lb_for = idOrName st e, lb_text = t, lb_shown = True\<rparr>) (v_errors v)"
    and "v_errors (defaultShowErrors st fm v) = v_errors v"
proof -
  let ?new = "map (\<lambda>(e, t). \<lparr>lb_for = idOrName st e, lb_text = t, lb_shown = True\<rparr>) (v_errors v)"
  have h: "filter (\<lambda>i. i \<notin> set [n..<n + length (v_errors v)]) (v_toHide v) = v_toHide v"
    using assms(4) by (auto simp: filter_id_conv)
  show "v_labels (defaultShowErrors st fm v) =
      map (\<lambda>i. if i \<in> set (v_toHide v) then (v_labels v ! i)\<lparr>lb_shown := False\<rparr> else v_labels v ! i) [0..<n] @ ?new"
    unfolding defaultShowErrors_def Let_def
    by (rule nth_equalityI)
       (use assms(4) in \<open>auto simp: set_shown_labels show_labels [OF assms(2)] assms(3) n_def nth_append split: prod.splits\<close>)
  show "v_errors (defaultShowErrors st fm v) = v_errors v"
    unfolding defaultShowErrors_def Let_def by (simp add: set_shown_labels show_labels [OF assms(2)])
qed

lemma filter_hidden: "filter lb_shown (map (\<lambda>i. (ls ! i)\<lparr>lb_shown := False\<rparr>) is) = []"
  by (auto simp: filter_empty_conv)

lemma filter_new: "filter lb_shown (map (\<lambda>(e, t). \<lparr>lb_for = f e, lb_text = t, lb_shown = True\<rparr>) es)
    = map (\<lambda>(e, t). \<lparr>lb_for = f e, lb_text = t, lb_shown = True\<rparr>) es"
  by (auto simp: filter_id_conv)

text \<open>
  The labels of a form never become fewer: each check makes new ones and hides the old.
\<close>

lemma labels_pile_up:
  assumes "list_all (settled st pg fm) (elements_to_check st pg fm)"
    and "list_all (\<lambda>(e, t). t \<noteq> '''') (failures st pg fm)" "form_validate st pg fm v = Some (b, v1)"
  shows "length (v_labels v1) = length (v_labels v) + length (failures st pg fm)"
proof -
  let ?es = "elements_to_check st pg fm"
  obtain u where c: "checkForm st pg fm v = Some u" "v_errors u = failures st pg fm" "v_toShow u = []"
    "v_toHide u = [0..<length (v_labels v)]" "v_labels u = v_labels v"
    using v_check_all_settled [OF assms(1), of "(prepareForm v)\<lparr>v_current := ?es\<rparr>"]
    by (auto simp: checkForm_def Let_def failures_def prepareForm_def v_reset_def)
  let ?v2 = "u\<lparr>v_submitted := fold List.insert (map fst (v_errorMap u)) (v_submitted u), v_invalid := map fst (v_errorMap u)\<rparr>"
  have "v1 = defaultShowErrors st fm ?v2" using assms(3) c by (simp add: form_validate_def Let_def)
  moreover have "list_all (\<lambda>(e, t). t \<noteq> '''') (v_errors ?v2)" "v_toShow ?v2 = []" "set (v_toHide ?v2) \<subseteq> {..<length (v_labels ?v2)}"
    using assms(2) c by auto
  ultimately show ?thesis using defaultShowErrors_labels(1) [of ?v2 st fm] c by simp
qed

text \<open>The check of one element replaces the messages of that element and leaves the others.\<close>

theorem element_validate_labels:
  assumes "settled st pg fm e" "\<not> checkable e" "case failure st pg fm e of Some (f, t) \<Rightarrow> t \<noteq> '''' | None \<Rightarrow> True"
  shows "\<exists>r v1. element_validate st pg fm e v = Some (r, v1)
    \<and> seen_labels v1 = filter (\<lambda>(k, t). k \<noteq> idOrName st e) (seen_labels v)
        @ (case failure st pg fm e of Some (f, t) \<Rightarrow> [(idOrName st e, t)] | None \<Rightarrow> [])"
proof -
  have t: "validationTargetFor fm e = Some e" using assms(2) by (simp add: validationTargetFor_def)
  let ?u = "(prepareElement st e v)\<lparr>v_last := Some e, v_current := [e]\<rparr>"
  obtain r w where c: "v_check st pg fm e ?u = Some (r, w)"
    "v_errors w = (case failure st pg fm e of Some x \<Rightarrow> [x] | None \<Rightarrow> [])"
    "v_toShow w = []" "v_toHide w = errorsFor st e v" "v_labels w = v_labels v"
    using v_check_settled [OF assms(1), of ?u] by (auto simp: prepareElement_def v_reset_def)
  define x where "x = (if r = Some True then w\<lparr>v_invalid := removeAll (fe_name e) (v_invalid w)\<rparr>
      else w\<lparr>v_invalid := List.insert (fe_name e) (v_invalid w)\<rparr>)"
  have x: "v_errors x = v_errors w" "v_toShow x = []" "v_toHide x = errorsFor st e v" "v_labels x = v_labels v"
    by (simp_all add: x_def c)
  have a: "list_all (\<lambda>(e, t). t \<noteq> '''') (v_errors x)" "set (v_toHide x) \<subseteq> {..<length (v_labels x)}"
    using assms(3) x c(2) by (auto simp: errorsFor_def split: option.splits)
  have f: "failure st pg fm e = Some (f, m) \<Longrightarrow> f = e" for f m
    using t by (auto simp: failure_def split: outcome.splits)
  have old: "map (\<lambda>l. (lb_for l, lb_text l)) (filter lb_shown (map (\<lambda>i. if lb_for (ls ! i) = k then (ls ! i)\<lparr>lb_shown := False\<rparr> else ls ! i) [0..<length ls]))
      = filter (\<lambda>(j, t). j \<noteq> k) (map (\<lambda>l. (lb_for l, lb_text l)) (filter lb_shown ls))" for ls k
  proof -
    have "map (\<lambda>i. if lb_for (ls ! i) = k then (ls ! i)\<lparr>lb_shown := False\<rparr> else ls ! i) [0..<length ls] =
        map (\<lambda>l. if lb_for l = k then l\<lparr>lb_shown := False\<rparr> else l) ls"
      by (rule nth_equalityI) auto
    moreover have "map (\<lambda>l. (lb_for l, lb_text l)) (filter lb_shown (map (\<lambda>l. if lb_for l = k then l\<lparr>lb_shown := False\<rparr> else l) ls))
        = filter (\<lambda>(j, t). j \<noteq> k) (map (\<lambda>l. (lb_for l, lb_text l)) (filter lb_shown ls))"
      by (induction ls) auto
    ultimately show ?thesis by simp
  qed
  have m: "map (\<lambda>i. if i \<in> set (errorsFor st e v) then (v_labels v ! i)\<lparr>lb_shown := False\<rparr> else v_labels v ! i) [0..<length (v_labels v)]
      = map (\<lambda>i. if lb_for (v_labels v ! i) = idOrName st e then (v_labels v ! i)\<lparr>lb_shown := False\<rparr> else v_labels v ! i) [0..<length (v_labels v)]"
    by (auto simp: errorsFor_def)
  note d = defaultShowErrors_labels(1) [OF a(1) x(2) a(2), of st fm, unfolded x(1,3,4) m]
  have "seen_labels (defaultShowErrors st fm x) = filter (\<lambda>(j, t). j \<noteq> idOrName st e) (seen_labels v)
      @ map (\<lambda>(e, t). (idOrName st e, t)) (v_errors w)"
    unfolding seen_labels_def d filter_append map_append old filter_new by (simp add: comp_def case_prod_beta)
  moreover have "map (\<lambda>(e, t). (idOrName st e, t)) (v_errors w) = (case failure st pg fm e of Some (f, t) \<Rightarrow> [(idOrName st e, t)] | None \<Rightarrow> [])"
    using c(2) f by (auto split: option.splits)
  moreover have "element_validate st pg fm e v = Some (r, defaultShowErrors st fm x)"
    using t c(1) by (simp add: element_validate_def x_def)
  ultimately show ?thesis by auto
qed

section \<open>The check sum\<close>

definition card_weight :: "bool \<Rightarrow> nat \<Rightarrow> nat" where
  "card_weight b d = (if b then (if 2 * d > 9 then 2 * d - 9 else 2 * d) else d)"

lemma card_weight_digit: "d < 10 \<Longrightarrow> card_weight b d < 10"
  by (auto simp: card_weight_def)

lemma card_weight_inj: "c < 10 \<Longrightarrow> d < 10 \<Longrightarrow> card_weight b c = card_weight b d \<Longrightarrow> c = d"
  unfolding card_weight_def by (cases b) (simp_all split: if_splits, presburger+)

lemma card_sum_Cons: "card_sum b (d # ds) = card_weight b d + card_sum (\<not> b) ds"
  by (simp add: card_weight_def Let_def)

lemma card_sum_update:
  "i < length ds \<Longrightarrow> card_sum b (ds[i := x]) + card_weight (b = even i) (ds ! i) = card_sum b ds + card_weight (b = even i) x"
proof (induction ds arbitrary: b i)
  case (Cons d ds)
  show ?case
  proof (cases i)
    case 0
    then show ?thesis by (simp add: card_sum_Cons del: card_sum.simps)
  next
    case (Suc j)
    have "(\<not> b) = even j \<longleftrightarrow> b = even i" using Suc by auto
    then show ?thesis using Cons.IH [of j "\<not> b"] Cons.prems Suc by (simp add: card_sum_Cons del: card_sum.simps)
  qed
qed simp

text \<open>A mistyped digit of a card number is always found.\<close>

theorem card_single_error:
  assumes "card_sum False ds mod 10 = 0" "i < length ds" "list_all (\<lambda>d. d < 10) ds" "x < 10" "x \<noteq> ds ! i"
  shows "card_sum False (ds[i := x]) mod 10 \<noteq> 0"
proof
  assume z: "card_sum False (ds[i := x]) mod 10 = 0"
  let ?w = "card_weight (False = even i)"
  have d: "ds ! i < 10" using assms(2,3) by (simp add: list_all_length)
  have "(card_sum False (ds[i := x]) + ?w (ds ! i)) mod 10 = (card_sum False ds + ?w x) mod 10"
    using card_sum_update [OF assms(2), of False x] by simp
  then have "?w (ds ! i) mod 10 = ?w x mod 10" using z assms(1) by (metis add_0 mod_add_left_eq)
  then have "?w (ds ! i) = ?w x" using card_weight_digit [OF d] card_weight_digit [OF assms(4)] by simp
  then show False using card_weight_inj [OF d assms(4)] assms(5) by metis
qed

end
