(* ===== verification/Resource_Validate.thy ===== *)
theory Resource_Validate
  imports Lib_Validate
begin

text \<open>
  The forms of the resource, user and group pages under the validation plug-in: the tests that
  \<open>resource/index.html.erb\<close> adds to it, and the proof that the plug-in accepts a form exactly when the
  tables of \<open>Resource_Rules\<close> do.
\<close>

section \<open>The rules of the pages in the plug-in\<close>

text \<open>
  The methods that the pages add, and their rules as the plug-in sees them. \<open>GT\<close> compares with the
  parameter; the empty text passes.
\<close>

definition page_test :: "(string \<Rightarrow> bool) \<Rightarrow> check_method" where
  "page_test f pg fm value e p = Verdict (f value)"

fun num_less :: "jnum \<Rightarrow> jnum \<Rightarrow> bool" where
  "num_less (Fin x) (Fin y) = (x < y)"
| "num_less (Fin x) (Infinite p) = p"
| "num_less (Infinite p) (Fin y) = (\<not> p)"
| "num_less (Infinite p) (Infinite q) = (\<not> p \<and> q)"
| "num_less _ _ = False"

definition m_GT :: check_method where
  "m_GT pg fm value e p = Verdict (value = '''' \<or> num_less (pnum p) (to_number value))"

definition page_settings :: settings where
  "page_settings =
     addMethod ''relativePATH'' (page_test relative_path_ok) 2 (addMethod ''GT'' m_GT 3 (addMethod ''PATH'' (page_test path_ok) 2
       (addMethod ''IP'' (page_test ip_ok) 2 (addMethod ''AN'' (page_test an_ok) 2
         \<lparr>st_rules = [], st_classRules = [], st_methods = plugin_methods, st_autoCreateRanges = False, st_messages = [],
          st_defaults = [], st_groups = [], st_ignoreTitle = False\<rparr>))))"

fun plugin_rule :: "rule \<Rightarrow> string \<times> param" where
  "plugin_rule Required = (''required'', P_bool True)"
| "plugin_rule AN = (''AN'', P_bool True)"
| "plugin_rule (Maxlength n) = (''maxlength'', P_num (Fin (of_nat n)))"
| "plugin_rule Digits = (''digits'', P_bool True)"
| "plugin_rule (Min n) = (''min'', P_num (Fin (of_nat n)))"
| "plugin_rule IP = (''IP'', P_bool True)"
| "plugin_rule PATH = (''PATH'', P_bool True)"
| "plugin_rule RelativePATH = (''relativePATH'', P_bool True)"
| "plugin_rule Number = (''number'', P_bool True)"
| "plugin_rule GT = (''GT'', P_num (Fin 0))"

definition with_rules :: "rules \<Rightarrow> settings \<Rightarrow> settings" where
  "with_rules rs st = st\<lparr>st_rules := map (\<lambda>(nm, r). (nm, Rule_object (map plugin_rule r))) rs\<rparr>"

text \<open>
  The texts that \<open>digits\<close> and \<open>number\<close> accept, as numbers.
\<close>

lemma digit_not:
  "is_digit c \<Longrightarrow> \<not> blank_byte c \<and> c \<noteq> CHR ''-'' \<and> c \<noteq> CHR ''+'' \<and> c \<noteq> CHR ''x'' \<and> c \<noteq> CHR ''X'' \<and> c \<noteq> CHR ''e''
     \<and> c \<noteq> CHR ''E'' \<and> c \<noteq> CHR ''.'' \<and> c \<noteq> CHR ''I'' \<and> c \<noteq> CHR '',''"
proof -
  assume "is_digit c"
  then have "48 \<le> (of_char c :: nat) \<and> (of_char c :: nat) \<le> 57" "\<not> blank_byte c"
    using digits_not_blank by (auto simp: digit_value_def Let_def split: if_splits)
  then show ?thesis by auto
qed

lemma split_on_chars: "concat (split_on c s) = filter (\<lambda>x. x \<noteq> c) s"
proof (induction s)
  case (Cons x s)
  then show ?case by (cases "split_on c s") auto
qed simp

lemma split_on_one: "split_on c s = [w] \<Longrightarrow> s = w"
  using join_split_on [of c s] by simp

lemma split_on_two: "split_on c s = [w, f] \<Longrightarrow> s = w @ c # f"
  using join_split_on [of c s] by simp

lemma digits_value_pos:
  "list_all is_digit w \<Longrightarrow> 0 < digits_value a w \<longleftrightarrow> 0 < a \<or> list_ex (\<lambda>c. c \<noteq> CHR ''0'') w"
proof (induction w arbitrary: a)
  case (Cons c w)
  then obtain d where d: "digit_value c = Some d" by auto
  have "d = 0 \<longleftrightarrow> c = CHR ''0''"
  proof -
    have "digit_value (CHR ''0'') = Some 0" by code_simp
    moreover have "c = CHR ''0''" if "d = 0"
    proof -
      have "(of_char c :: nat) = of_char (CHR ''0'')" using d that by (auto simp: digit_value_def Let_def split: if_splits)
      then show ?thesis by (simp only: of_char_eq_iff)
    qed
    ultimately show ?thesis using d by auto
  qed
  then show ?case using Cons.IH [of "10 * a + d"] Cons.prems d by auto
qed simp

text \<open>A text of digits, points and commas after an optional minus sign, with a digit at its end.\<close>

definition number_text :: "string \<Rightarrow> bool" where
  "number_text u = (u \<noteq> [] \<and> list_all (\<lambda>c. is_digit c \<or> c = CHR ''.'' \<or> c = CHR '','') u \<and> is_digit (hd u) \<and> is_digit (last u))"

lemma whole_text: "whole_ok w \<Longrightarrow> number_text w"
proof -
  assume w: "whole_ok w"
  then consider "w \<noteq> ''''" "list_all is_digit w"
    | h ts where "split_on (CHR '','') w = h # ts" "ts \<noteq> []" "1 \<le> length h" "list_all is_digit h" "list_all (\<lambda>t. length t = 3 \<and> list_all is_digit t) ts"
    by (auto simp: whole_ok_def split: list.splits)
  then show ?thesis
  proof cases
    case 1
    then show ?thesis by (auto simp: number_text_def list_all_iff)
  next
    case 2
    have j: "w = join '','' (h # ts)" using join_split_on [of "CHR '',''" w] 2(1) by simp
    have "list_all (\<lambda>c. is_digit c \<or> c = CHR '','') (join '','' (h # ts)) \<and> is_digit (hd (join '','' (h # ts))) \<and> is_digit (last (join '','' (h # ts))) \<and> join '','' (h # ts) \<noteq> []"
      using 2(3-5)
    proof (induction ts arbitrary: h)
      case Nil
      then have "h \<noteq> []" by auto
      then show ?case using Nil hd_in_set [of h] last_in_set [of h] by (simp add: list_all_iff)
    next
      case (Cons t ts)
      have t: "1 \<le> length t" "list_all is_digit t" "list_all (\<lambda>t. length t = 3 \<and> list_all is_digit t) ts" using Cons.prems by simp_all
      show ?case using Cons.IH [OF t] Cons.prems(1,2) by (cases h) (auto simp: list_all_iff)
    qed
    then show ?thesis unfolding j number_text_def list_all_iff by auto
  qed
qed

lemma to_number_text:
  assumes "number_text u" "v = u \<or> v = CHR ''-'' # u"
  shows "to_number v = (case mantissa u of Some x \<Rightarrow> Fin (if v = u then x else - x) | None \<Rightarrow> Not_a_number)"
proof -
  have u: "u \<noteq> []" "is_digit (hd u)" "is_digit (last u)" "\<And>c. c \<in> set u \<Longrightarrow> is_digit c \<or> c = CHR ''.'' \<or> c = CHR '',''"
    using assms(1) unfolding number_text_def list_all_iff by blast+
  obtain d ds where d: "u = d # ds" "is_digit d" using u(1,2) by (cases u) auto
  have no: "c \<noteq> CHR ''x'' \<and> c \<noteq> CHR ''X'' \<and> c \<noteq> CHR ''e'' \<and> c \<noteq> CHR ''E''" if "c \<in> set u" for c
    using u(4) [OF that] digit_not [of c] by (auto simp del: not_None_eq)
  have dn: "\<not> blank_byte d \<and> d \<noteq> CHR ''-'' \<and> d \<noteq> CHR ''+'' \<and> d \<noteq> CHR ''I''" using digit_not [OF d(2)] by simp
  have sp: "\<not> blank_byte (CHR ''-'')" by code_simp
  have t: "js_trim v = v"
  proof (rule js_trim_id)
    have "last v = last u" using assms(2) u(1) by auto
    then show "v = [] \<or> \<not> blank_byte (hd v) \<and> \<not> blank_byte (last v)"
      using assms(2) dn d(1) sp digit_not [OF u(3)] by auto
  qed
  have h: "hex_number v = None"
    using assms(2)
  proof
    assume v: "v = u"
    show ?thesis
    proof (cases ds)
      case Nil
      then show ?thesis using v d(1) by (simp add: hex_number_def)
    next
      case (Cons b t)
      then have "b \<noteq> CHR ''x''" "b \<noteq> CHR ''X''" using no [of b] d(1) by simp_all
      then show ?thesis using v d(1) Cons by (simp add: hex_number_def)
    qed
  next
    assume "v = CHR ''-'' # u"
    then show ?thesis using d(1) by (simp add: hex_number_def)
  qed
  have e: "decimal u = mantissa u" by (rule decimal_plain) (use no in \<open>auto simp: list_all_iff\<close>)
  have v: "v \<noteq> u" if "v = CHR ''-'' # u" using that by auto
  show ?thesis
    using assms(2)
  proof
    assume "v = u"
    then show ?thesis using t h e d(1) dn by (simp add: to_number_def Let_def split: option.splits)
  next
    assume "v = CHR ''-'' # u"
    then show ?thesis using t h e d(1) dn v by (simp add: to_number_def Let_def split: option.splits)
  qed
qed

lemma digits_number_text: "v \<noteq> [] \<Longrightarrow> list_all is_digit v \<Longrightarrow> number_text v"
  using hd_in_set [of v] last_in_set [of v] by (simp add: number_text_def list_all_iff)

lemma mantissa_digits: "v \<noteq> [] \<Longrightarrow> list_all is_digit v \<Longrightarrow> mantissa v = Some (digits_rat v)"
proof -
  assume v: "v \<noteq> []" "list_all is_digit v"
  have "\<not> is_digit (CHR ''.'')" by code_simp
  then have "CHR ''.'' \<notin> set v" using v(2) unfolding list_all_iff by blast
  then have "split_on (CHR ''.'') v = [v]" by (rule split_on_none)
  then show ?thesis using v by (simp only: mantissa_def list.case if_True simp_thms)
qed

text \<open>The unsigned part of a number that the rule \<open>number\<close> accepts.\<close>

lemma number_ok_text:
  assumes "number_ok v"
  obtains u where "v = u \<or> v = CHR ''-'' # u" "number_text u"
    and "if CHR '','' \<in> set u then mantissa u = None
         else \<exists>x. mantissa u = Some x \<and> 0 \<le> x \<and> (0 < x \<longleftrightarrow> list_ex (\<lambda>c. is_digit c \<and> c \<noteq> CHR ''0'') u)"
proof -
  define u where "u = (case v of c # r \<Rightarrow> if c = CHR ''-'' then r else v | [] \<Rightarrow> v)"
  have v: "v = u \<or> v = CHR ''-'' # u" by (auto simp: u_def split: list.splits)
  have whole: "list_all is_digit w" if "whole_ok w" "CHR '','' \<notin> set w" for w
    using that split_on_none [of "CHR '',''" w] by (auto simp: whole_ok_def)
  have ex: "0 < (of_nat (digits_value 0 w) :: rat) \<longleftrightarrow> list_ex (\<lambda>c. is_digit c \<and> c \<noteq> CHR ''0'') w" if "list_all is_digit w" for w
    using digits_value_pos [OF that, of 0] that by (auto simp: list_ex_iff list_all_iff simp del: not_None_eq)
  have comma: "\<not> is_digit (CHR '','')" "\<not> is_digit (CHR ''.'')" by code_simp+
  consider w where "split_on (CHR ''.'') u = [w]" "whole_ok w"
    | w f where "split_on (CHR ''.'') u = [w, f]" "whole_ok w" "f \<noteq> ''''" "list_all is_digit f"
    using assms unfolding number_ok_def u_def [symmetric] Let_def by (auto split: list.splits)
  then show thesis
  proof cases
    case 1
    then have u: "u = w" using split_on_one by blast
    have t: "number_text u" using whole_text [OF 1(2)] u by simp
    have "if CHR '','' \<in> set u then mantissa u = None
         else \<exists>x. mantissa u = Some x \<and> 0 \<le> x \<and> (0 < x \<longleftrightarrow> list_ex (\<lambda>c. is_digit c \<and> c \<noteq> CHR ''0'') u)"
    proof (cases "CHR '','' \<in> set u")
      case True
      then have "\<not> list_all is_digit u" using comma(1) unfolding list_all_iff by blast
      then show ?thesis using True 1(1) u by (simp add: mantissa_def)
    next
      case False
      then have l: "list_all is_digit u" using whole [OF 1(2)] u by simp
      have "u \<noteq> []" using t by (simp add: number_text_def)
      then show ?thesis using False mantissa_digits [OF _ l] ex [OF l] by (simp add: digits_rat_def)
    qed
    then show thesis using that v t by blast
  next
    case 2
    then have u: "u = w @ CHR ''.'' # f" using split_on_two by blast
    have w: "number_text w" by (rule whole_text [OF 2(2)])
    have t: "number_text u"
      using w 2(3,4) last_in_set [of f] unfolding u number_text_def list_all_iff by auto
    have f: "CHR '','' \<notin> set f" using 2(4) comma(1) unfolding list_all_iff by blast
    have "if CHR '','' \<in> set u then mantissa u = None
         else \<exists>x. mantissa u = Some x \<and> 0 \<le> x \<and> (0 < x \<longleftrightarrow> list_ex (\<lambda>c. is_digit c \<and> c \<noteq> CHR ''0'') u)"
    proof (cases "CHR '','' \<in> set u")
      case True
      then have "CHR '','' \<in> set w" using f u by auto
      then have "\<not> list_all is_digit (w @ f)" using comma(1) unfolding list_all_iff by auto
      then show ?thesis using True 2(1) by (simp add: mantissa_def)
    next
      case False
      then have l: "list_all is_digit w" using whole [OF 2(2)] u by simp
      have m: "mantissa u = Some (digits_rat w + digits_rat f / 10 ^ length f)"
        using 2(1,3,4) l by (simp add: mantissa_def)
      have "0 \<le> digits_rat w" "0 \<le> digits_rat f" by (simp_all add: digits_rat_def)
      moreover have "0 < digits_rat w \<longleftrightarrow> list_ex (\<lambda>c. is_digit c \<and> c \<noteq> CHR ''0'') w"
        "0 < digits_rat f \<longleftrightarrow> list_ex (\<lambda>c. is_digit c \<and> c \<noteq> CHR ''0'') f"
        using ex [OF l] ex [OF 2(4)] by (simp_all add: digits_rat_def)
      moreover have "0 < a + b / 10 ^ n \<longleftrightarrow> 0 < a \<or> 0 < b" if "0 \<le> a" "0 \<le> b" for a b :: rat and n
      proof -
        have "0 \<le> b / 10 ^ n" "0 < b / 10 ^ n \<longleftrightarrow> 0 < b" using that(2) by (simp_all add: zero_less_divide_iff)
        then show ?thesis using that(1) by linarith
      qed
      ultimately show ?thesis using False m u comma(2) by auto
    qed
    then show thesis using that v t by blast
  qed
qed

lemma GT_number:
  assumes "number_ok v"
  shows "num_less (Fin 0) (to_number v) \<longleftrightarrow> gt_zero v"
proof -
  obtain u where u: "v = u \<or> v = CHR ''-'' # u" "number_text u"
    "if CHR '','' \<in> set u then mantissa u = None
     else \<exists>x. mantissa u = Some x \<and> 0 \<le> x \<and> (0 < x \<longleftrightarrow> list_ex (\<lambda>c. is_digit c \<and> c \<noteq> CHR ''0'') u)"
    by (rule number_ok_text [OF assms])
  have n: "u \<noteq> []" "hd u \<noteq> CHR ''-''" using u(2) digit_not [of "hd u"] by (auto simp: number_text_def)
  have ne: "v \<noteq> []" using u(1) n by auto
  show ?thesis
  proof (cases "CHR '','' \<in> set u")
    case True
    then have "to_number v = Not_a_number" "CHR '','' \<in> set v" using to_number_text [OF u(2,1)] u by auto
    then show ?thesis using ne by (simp add: gt_zero_def)
  next
    case False
    then obtain x where x: "mantissa u = Some x" "0 \<le> x" "0 < x \<longleftrightarrow> list_ex (\<lambda>c. is_digit c \<and> c \<noteq> CHR ''0'') u" using u(3) by auto
    show ?thesis
    proof (cases "v = u")
      case True
      then show ?thesis using to_number_text [OF u(2,1)] x n False ne by (simp add: gt_zero_def)
    next
      case F: False
      then have "hd v = CHR ''-''" using u(1) by auto
      then show ?thesis using to_number_text [OF u(2,1)] x F ne by (simp add: gt_zero_def)
    qed
  qed
qed

section \<open>Agreement\<close>

text \<open>The methods by their names.\<close>

lemma page_methods:
  "map_of (st_methods page_settings) ''required'' = Some m_required"
  "map_of (st_methods page_settings) ''AN'' = Some (page_test an_ok)"
  "map_of (st_methods page_settings) ''maxlength'' = Some m_maxlength"
  "map_of (st_methods page_settings) ''digits'' = Some m_digits"
  "map_of (st_methods page_settings) ''min'' = Some m_min"
  "map_of (st_methods page_settings) ''IP'' = Some (page_test ip_ok)"
  "map_of (st_methods page_settings) ''PATH'' = Some (page_test path_ok)"
  "map_of (st_methods page_settings) ''relativePATH'' = Some (page_test relative_path_ok)"
  "map_of (st_methods page_settings) ''number'' = Some m_number"
  "map_of (st_methods page_settings) ''GT'' = Some m_GT"
  by (simp_all add: page_settings_def addMethod_def plugin_methods_def Let_def)

definition plain_element :: "felem \<Rightarrow> bool" where
  "plain_element e = (fe_class e = []
     \<and> list_all (\<lambda>m. map_of (fe_attrs e) m = None \<and> fe_type e \<noteq> m) (map fst (st_methods page_settings)))"

definition text_field :: "felem \<Rightarrow> bool" where
  "text_field e = (plain_element e \<and> fe_node e = ''input'' \<and> (fe_type e = ''text'' \<or> fe_type e = ''password'') \<and> \<not> fe_disabled e
     \<and> CHR 0x0D \<notin> set (fe_value e))"

fun ordered :: "bool \<Rightarrow> bool \<Rightarrow> rule list \<Rightarrow> bool" where
  "ordered dig num [] = True"
| "ordered dig num (r # rs) =
     ((case r of Min n \<Rightarrow> dig | GT \<Rightarrow> num | _ \<Rightarrow> True) \<and> ordered (dig \<or> r = Digits) (num \<or> r = Number) rs)"

text \<open>
  The tables of the pages: each test once, \<open>required\<close> at the front, a minimum only after \<open>digits\<close>, and
  \<open>GT\<close> only after \<open>number\<close>.
\<close>

definition table_ok :: "rule list \<Rightarrow> bool" where
  "table_ok rs = (rs \<noteq> [] \<and> distinct (map (\<lambda>r. fst (plugin_rule r)) rs) \<and> Required \<notin> set (tl rs) \<and> ordered False False rs)"

lemma text_field_optional:
  assumes "text_field e"
  shows "is_optional pg fm e \<longleftrightarrow> js_trim (fe_value e) = ''''"
proof -
  show ?thesis using assms
    by (auto simp: is_optional_def m_required_def depend_def text_field_def checkable_def)
qed

text \<open>One rule of a text field: the plug-in's verdict is the rule's.\<close>

lemma plugin_verdict:
  assumes e: "text_field e" and m: "plugin_rule r = (m, p)"
    and "case r of Min n \<Rightarrow> check Digits (fe_value e) | GT \<Rightarrow> check Number (fe_value e) | _ \<Rightarrow> True"
  shows "\<exists>f. map_of (st_methods page_settings) m = Some f
    \<and> (case f pg fm (fe_value e) e (Some p) of Mismatch \<Rightarrow> check r (fe_value e) | Pending \<Rightarrow> False | Verdict b \<Rightarrow> b = check r (fe_value e))"
proof -
  let ?v = "fe_value e"
  have o: "is_optional pg fm e \<longleftrightarrow> optional ?v" using text_field_optional [OF e] by (simp add: optional_def)
  have n: "fe_node e = ''input''" "\<not> checkable e" using e by (auto simp: text_field_def checkable_def)
  have l: "getLength fm w e = js_length w" for w using n by (simp add: getLength_def)
  show ?thesis
  proof (cases r)
    case Required
    then show ?thesis using m n by (auto simp: page_methods m_required_def depend_def)
  next
    case (Maxlength k)
    then show ?thesis using m o l by (auto simp: page_methods m_maxlength_def unless_empty_def pnum_def of_len_def)
  next
    case Digits
    then show ?thesis using m o by (auto simp: page_methods m_digits_def unless_empty_def)
  next
    case (Min k)
    show ?thesis
    proof (cases "optional ?v")
      case True
      then show ?thesis using Min m o by (auto simp: page_methods m_min_def unless_empty_def)
    next
      case False
      then have "to_number ?v = Fin (of_nat (digits_value 0 ?v))" using assms(3) Min by (intro to_number_digits) (auto simp: list_all_iff)
      then show ?thesis using Min m o False by (auto simp: page_methods m_min_def unless_empty_def pnum_def)
    qed
  next
    case Number
    then show ?thesis using m o by (auto simp: page_methods m_number_def unless_empty_def)
  next
    case GT
    show ?thesis
    proof (cases "number_ok ?v")
      case True
      then show ?thesis using GT m GT_number [OF True] by (auto simp: page_methods m_GT_def pnum_def gt_zero_def)
    next
      case False
      then have "optional ?v" using assms(3) GT by simp
      then have t: "js_trim ?v = ''''" by (simp add: optional_def)
      then have "to_number ?v = Fin 0" by (simp add: to_number_def)
      moreover have "?v = '''' \<or> \<not> list_ex (\<lambda>c. is_digit c \<and> c \<noteq> CHR ''0'') ?v"
      proof -
        have "list_all blank_byte ?v" using t by (rule trim_blank_bytes)
        then have "\<not> list_ex (\<lambda>c. is_digit c \<and> c \<noteq> CHR ''0'') ?v"
          using digit_not by (auto simp: list_ex_iff list_all_iff simp del: not_None_eq)
        then show ?thesis ..
      qed
      ultimately show ?thesis using GT m by (auto simp: page_methods m_GT_def pnum_def gt_zero_def)
    qed
  qed (use m in \<open>auto simp: page_methods page_test_def\<close>)
qed

lemma check_table:
  assumes e: "text_field e" and "st_methods st = st_methods page_settings"
    and "ordered dig num rs" "dig \<Longrightarrow> check Digits (fe_value e)" "num \<Longrightarrow> check Number (fe_value e)"
  shows "case check_rules st pg fm e mm (map plugin_rule rs) of
    Passed \<Rightarrow> valid_field rs (fe_value e) | Skipped \<Rightarrow> valid_field rs (fe_value e) | Failed m p \<Rightarrow> \<not> valid_field rs (fe_value e) | _ \<Rightarrow> False"
  using assms(3-5)
proof (induction rs arbitrary: dig num mm)
  case Nil
  then show ?case by (simp add: valid_field_def)
next
  case (Cons r rs)
  obtain m p where m: "plugin_rule r = (m, p)" by fastforce
  have s: "strip_cr (fe_value e) = fe_value e" using e by (auto simp: strip_cr_def text_field_def filter_id_conv)
  have "case r of Min n \<Rightarrow> check Digits (fe_value e) | GT \<Rightarrow> check Number (fe_value e) | _ \<Rightarrow> True"
    using Cons.prems by (cases r) auto
  from plugin_verdict [OF e m this, of pg fm] obtain f where f: "map_of (st_methods page_settings) m = Some f"
    "case f pg fm (fe_value e) e (Some p) of Mismatch \<Rightarrow> check r (fe_value e) | Pending \<Rightarrow> False | Verdict b \<Rightarrow> b = check r (fe_value e)"
    by blast
  have o: "ordered (dig \<or> r = Digits) (num \<or> r = Number) rs" using Cons.prems(1) by simp
  show ?case
  proof (cases "check r (fe_value e)")
    case True
    have v: "valid_field (r # rs) (fe_value e) = valid_field rs (fe_value e)" using True by (simp add: valid_field_def)
    have d: "dig \<or> r = Digits \<Longrightarrow> check Digits (fe_value e)" "num \<or> r = Number \<Longrightarrow> check Number (fe_value e)"
      using True Cons.prems(2,3) by auto
    note ih = Cons.IH [OF o d]
    show ?thesis unfolding v using f ih [where mm = True] ih [where mm = False] assms(2) True m s
      by (auto split: verdict.splits)
  next
    case False
    then have "\<not> valid_field (r # rs) (fe_value e)" by (simp add: valid_field_def)
    then show ?thesis using f assms(2) False m s by (auto split: verdict.splits)
  qed
qed

lemma fold_obj_set:
  "distinct (map fst (obj @ src)) \<Longrightarrow> fold (\<lambda>(k, v). obj_set k v) src obj = obj @ src"
proof (induction src arbitrary: obj)
  case (Cons p src)
  obtain k v where p: "p = (k, v)" by fastforce
  have n: "k \<notin> fst ` set obj" using Cons.prems p by auto
  have "obj_set k v obj = obj @ [(k, v)]" using n by (induction obj) (auto split: if_splits)
  then show ?case using Cons.IH [of "obj @ [(k, v)]"] Cons.prems p by simp
qed simp

lemma no_attribute_rules: "plain_element e \<Longrightarrow> st_methods st = st_methods page_settings \<Longrightarrow> attributeRules st e = []"
proof -
  assume e: "plain_element e" and m: "st_methods st = st_methods page_settings"
  have "fold (\<lambda>(m, f) rs.
                 (case map_of (fe_attrs e) m of
                    Some v \<Rightarrow> if v \<noteq> '''' then obj_set m (P_text v) rs
                              else if fe_type e = m then obj_set m (P_bool True) rs else rs
                  | None \<Rightarrow> if fe_type e = m then obj_set m (P_bool True) rs else rs)) ml [] = []"
    if "list_all (\<lambda>m. map_of (fe_attrs e) m = None \<and> fe_type e \<noteq> m) (map fst ml)" for ml :: "(string \<times> check_method) list"
    using that by (induction ml) auto
  then show ?thesis using e m by (simp add: attributeRules_def plain_element_def)
qed

text \<open>The rules of an element of a page's form are those of its table.\<close>

lemma table_rules:
  assumes e: "plain_element e" and t: "map_of rs (fe_name e) = Some r" "table_ok r"
  shows "rules_of_element (with_rules rs page_settings) pg e = map plugin_rule r"
proof -
  let ?st = "with_rules rs page_settings"
  have m: "st_methods ?st = st_methods page_settings" "st_autoCreateRanges ?st = False"
    by (simp_all add: with_rules_def page_settings_def addMethod_def Let_def)
  have d: "distinct (map fst (map plugin_rule r))" using t(2) by (simp add: table_ok_def comp_def)
  have "map_of (map (\<lambda>(nm, r). (nm, Rule_object (map plugin_rule r))) rs) (fe_name e) = Some (Rule_object (map plugin_rule r))"
    using t(1) by (induction rs) (auto split: if_splits)
  then have s: "staticRules ?st e = map plugin_rule r" by (simp add: staticRules_def with_rules_def normalizeRule_def)
  have c: "classRules ?st e = []" using e by (simp add: classRules_def plain_element_def)
  have x: "extend_rules (extend_rules (extend_rules [] []) []) (map plugin_rule r) = map plugin_rule r"
    using fold_obj_set [of "[]" "map plugin_rule r"] d by (simp add: extend_rules_def)
  have k: "keep_rule pg e (snd (plugin_rule q)) = Some (snd (plugin_rule q))"
    "clean_param (fst (plugin_rule q)) (evaluate_param e (snd (plugin_rule q))) = snd (plugin_rule q)"
    "fst (plugin_rule q) \<noteq> ''messages''" for q
    by (cases q; simp add: keep_rule_def clean_param_def evaluate_param_def number_methods_def pair_methods_def)+
  have "List.map_filter (\<lambda>(m, p). map_option (\<lambda>q. (m, q)) (keep_rule pg e p)) (map plugin_rule r) = map plugin_rule r"
    by (induction r) (auto simp: map_filter_simps case_prod_beta k)
  moreover have "map (\<lambda>(m, p). (m, clean_param m (evaluate_param e p))) (map plugin_rule r) = map plugin_rule r"
    by (simp add: case_prod_beta k)
  moreover have "filter (\<lambda>(m, p). \<not> (m = ''messages'' \<and> truthy_param p)) (map plugin_rule r) = map plugin_rule r"
    using k(3) by (auto simp: filter_id_conv) (metis fst_conv)
  ultimately have n: "normalizeRules ?st pg (map plugin_rule r) e = map plugin_rule r"
    unfolding normalizeRules_def Let_def m by (simp only: if_False)
  have q: "fst (plugin_rule u) = ''required'' \<longleftrightarrow> u = Required" for u by (cases u) auto
  have "required_first (map plugin_rule r) = map plugin_rule r"
  proof (cases r)
    case (Cons u us)
    have "Required \<notin> set us" using t(2) Cons by (simp add: table_ok_def)
    then have "\<forall>x\<in>set us. fst (plugin_rule x) \<noteq> ''required''" using q by metis
    then have rq: "\<forall>x\<in>set us. fst (plugin_rule x) \<noteq> ''required''" .
    then have rest: "''required'' \<notin> fst ` set (map plugin_rule us)" by (auto simp: image_iff)
    show ?thesis
    proof (cases "u = Required")
      case True
      have del: "obj_delete ''required'' (map plugin_rule r) = map plugin_rule us"
        using rq Cons True by (auto simp: obj_delete_def filter_id_conv)
      have "extend_rules [(''required'', P_bool True)] (map plugin_rule us) = map plugin_rule r"
        using fold_obj_set [of "[(''required'', P_bool True)]" "map plugin_rule us"] d Cons True by (simp add: extend_rules_def)
      then show ?thesis using Cons True del by (simp add: required_first_def)
    next
      case False
      then have "map_of (map plugin_rule r) ''required'' = None"
        using rest Cons q [of u] by (auto simp: map_of_eq_None_iff)
      then show ?thesis by (simp add: required_first_def)
    qed
  qed (simp add: required_first_def)
  then show ?thesis by (simp add: rules_of_element_def c s no_attribute_rules [OF e m(1)] x n)
qed

lemma no_table_rules:
  assumes e: "plain_element e" and "map_of rs (fe_name e) = None"
  shows "rules_of_element (with_rules rs page_settings) pg e = []"
proof -
  let ?st = "with_rules rs page_settings"
  have m: "st_methods ?st = st_methods page_settings" "st_autoCreateRanges ?st = False"
    by (simp_all add: with_rules_def page_settings_def addMethod_def Let_def)
  have "map_of (map (\<lambda>(nm, r). (nm, Rule_object (map plugin_rule r))) rs) (fe_name e) = None"
    using assms(2) by (induction rs) (auto split: if_splits)
  then have "staticRules ?st e = []" by (simp add: staticRules_def with_rules_def)
  moreover have "classRules ?st e = []" using e by (simp add: classRules_def plain_element_def)
  ultimately show ?thesis
    by (simp add: rules_of_element_def no_attribute_rules [OF e m(1)] extend_rules_def normalizeRules_def m map_filter_simps required_first_def)
qed

lemma first_named_set:
  "distinct (map fe_name (filter P es)) \<Longrightarrow> set (first_named seen P es) = {e \<in> set es. P e \<and> fe_name e \<notin> set seen}"
proof (induction es arbitrary: seen)
  case (Cons x es)
  have d: "distinct (map fe_name (filter P es))" using Cons.prems by (auto split: if_splits)
  have n: "fe_name e \<noteq> fe_name x" if "P x" "e \<in> set es" "P e" for e
    using Cons.prems that by (force simp: image_iff)
  show ?case using Cons.IH [OF d] n by (auto split: if_splits)
qed simp

text \<open>
  A form of a page: 
  for each name of the rules one text field, and other elements without rules.
\<close>

definition page_form :: "rules \<Rightarrow> form \<Rightarrow> (string \<Rightarrow> string) \<Rightarrow> bool" where
  "page_form rs fm vs =
     (list_all plain_element fm
      \<and> map fe_name (filter (\<lambda>e. map_of rs (fe_name e) \<noteq> None) fm) = map fst rs
      \<and> list_all (\<lambda>e. if map_of rs (fe_name e) \<noteq> None then text_field e \<and> fe_value e = vs (fe_name e) else True) fm)"

lemma form_validate_answer:
  assumes "list_all (settled st pg fm) (elements_to_check st pg fm)"
  shows "\<exists>v1. form_validate st pg fm v = Some (failures st pg fm = [], v1)"
proof -
  obtain v1 where "checkForm st pg fm v = Some v1" "v_errors v1 = failures st pg fm"
    using v_check_all_settled [OF assms, of "(prepareForm v)\<lparr>v_current := elements_to_check st pg fm\<rparr>"]
    by (auto simp: checkForm_def Let_def failures_def prepareForm_def v_reset_def)
  then show ?thesis by (simp add: form_validate_def Let_def v_valid_def)
qed


text \<open>The tables of all forms are of this kind.\<close>

lemma page_tables:
  "list_all (\<lambda>rs. distinct (map fst rs) \<and> list_all (\<lambda>(nm, r). table_ok r) rs)
     [hn_create_rules, hn_edit_rules, sn_create_rules, is_create_rules, is_edit_rules, wmi_create_rules, user_rules, group_rules]"
  by (simp add: hn_create_rules_def hn_edit_rules_def sn_create_rules_def is_create_rules_def is_edit_rules_def wmi_create_rules_def
    user_rules_def group_rules_def table_ok_def)

definition demo_field :: "nat \<Rightarrow> string \<Rightarrow> string \<Rightarrow> felem" where
  "demo_field i nm v = \<lparr>fe_key = i, fe_name = nm, fe_id = nm, fe_node = ''input'', fe_type = ''text'', fe_value = v, fe_checked = False,
     fe_selected = 0, fe_multiple = False, fe_class = [], fe_attrs = [(''size'', ''8'')], fe_title = '''', fe_disabled = False, fe_hidden = False\<rparr>"

definition demo_form :: form where
  "demo_form = [demo_field 0 ''hostid'' ''node1'', demo_field 1 ''cpu_cores'' ''0'', demo_field 2 ''memory_size'' ''1024'',
     (demo_field 3 ''arch'' ''x86'')\<lparr>fe_node := ''select'', fe_type := ''select-one''\<rparr>]"

definition demo_page :: page where
  "demo_page = \<lparr>pg_number_text = \<lambda>_. '''', pg_found = \<lambda>_. False, pg_value = \<lambda>_. ''''\<rparr>"


text \<open>
  The check of a single field answers undefined for an optional field that is empty, and the field
  counts as invalid.
\<close>

lemma empty_optional_invalid:
  "let st = with_rules [(''description'', [Maxlength 255])] page_settings; e = demo_field 0 ''description'' '''' in
   map_option (\<lambda>(r, v). (r, numberOfInvalids v, v_errors v)) (element_validate st demo_page [e] e validator_init) = Some (None, 1, [])"
  by code_simp

section \<open>The messages\<close>

text \<open>
  C23: The check of a form finds the first broken rule of each of its elements, in the order of the form,
  says yes exactly when there is none, and afterwards the messages that can be seen are those.
\<close>

theorem form_validate_exact:
  assumes "list_all (settled st pg fm) (elements_to_check st pg fm)"
    and "list_all (\<lambda>(e, t). t \<noteq> '''') (failures st pg fm)"
  shows "\<exists>v1. form_validate st pg fm v = Some (failures st pg fm = [], v1)
    \<and> v_errors v1 = failures st pg fm
    \<and> seen_labels v1 = map (\<lambda>(e, t). (idOrName st e, t)) (failures st pg fm)"
proof -
  let ?es = "elements_to_check st pg fm"
  obtain v1 where c: "checkForm st pg fm v = Some v1" "v_errors v1 = failures st pg fm" "v_toShow v1 = []"
    "v_toHide v1 = [0..<length (v_labels v)]" "v_labels v1 = v_labels v"
    using v_check_all_settled [OF assms(1), of "(prepareForm v)\<lparr>v_current := ?es\<rparr>"]
    by (auto simp: checkForm_def Let_def failures_def prepareForm_def v_reset_def)
  let ?v2 = "v1\<lparr>v_submitted := fold List.insert (map fst (v_errorMap v1)) (v_submitted v1), v_invalid := map fst (v_errorMap v1)\<rparr>"
  have f: "form_validate st pg fm v = Some (failures st pg fm = [], defaultShowErrors st fm ?v2)"
    using c by (simp add: form_validate_def Let_def v_valid_def)
  have a: "list_all (\<lambda>(e, t). t \<noteq> '''') (v_errors ?v2)" "v_toShow ?v2 = []" "set (v_toHide ?v2) \<subseteq> {..<length (v_labels ?v2)}"
    using assms(2) c by auto
  have "v_labels (defaultShowErrors st fm ?v2) = map (\<lambda>i. (v_labels v ! i)\<lparr>lb_shown := False\<rparr>) [0..<length (v_labels v)]
      @ map (\<lambda>(e, t). \<lparr>lb_for = idOrName st e, lb_text = t, lb_shown = True\<rparr>) (failures st pg fm)"
    using defaultShowErrors_labels(1) [OF a, of st fm] c by (simp cong: map_cong)
  then have "seen_labels (defaultShowErrors st fm ?v2) = map (\<lambda>(e, t). (idOrName st e, t)) (failures st pg fm)"
    by (simp add: seen_labels_def filter_hidden filter_new comp_def case_prod_beta)
  moreover have "v_errors (defaultShowErrors st fm ?v2) = failures st pg fm"
    using defaultShowErrors_labels(2) [OF a, of st fm] c by simp
  ultimately show ?thesis using f by blast
qed

text \<open>What is seen after the check: the message of the field that is missing.\<close>

lemma form_validate_exact_witness:
  "\<exists>v1. form_validate (with_rules [(''pass'', [Required])] page_settings) demo_page [(demo_field 0 ''pass'' '''')\<lparr>fe_title := ''x''\<rparr>] validator_init
       = Some (False, v1)
     \<and> seen_labels v1 = [(''pass'', ''x'')]"
proof -
  let ?st = "with_rules [(''pass'', [Required])] page_settings"
  define e where "e = (demo_field 0 ''pass'' '''')\<lparr>fe_title := ''x''\<rparr>"
  have p: "plain_element e"
    by (simp add: e_def demo_field_def plain_element_def page_settings_def addMethod_def plugin_methods_def Let_def)
  have r: "rules_of_element ?st demo_page e = [(''required'', P_bool True)]"
    using table_rules [OF p, of "[(''pass'', [Required])]" "[Required]" demo_page] by (simp add: e_def demo_field_def table_ok_def)
  have b: "fe_type e \<notin> set button_types" "\<not> fe_disabled e" "\<not> checkable e" "idOrName ?st e = ''pass''"
    by (simp_all add: e_def demo_field_def button_types_def checkable_def idOrName_def with_rules_def page_settings_def addMethod_def Let_def)
  have es: "elements_to_check ?st demo_page [e] = [e]" by (simp add: elements_to_check_def r b)
  have c: "check_element ?st demo_page [e] e = Failed ''required'' (P_bool True)"
  proof -
    have "st_methods ?st = st_methods page_settings" by (simp add: with_rules_def)
    moreover have "m_required demo_page [e] (strip_cr (fe_value e)) e (Some (P_bool True)) = Verdict False"
      using b(3) by (simp add: m_required_def depend_def e_def demo_field_def strip_cr_def)
    ultimately show ?thesis unfolding check_element_def r by (simp add: page_methods)
  qed
  have "format_message (strip_dollar ''x'') [''true''] = ''x''" by code_simp
  then have m: "rule_message ?st demo_page e ''required'' (P_bool True) = ''x''"
    by (simp add: rule_message_def defaultMessage_def customMessage_def with_rules_def page_settings_def addMethod_def Let_def
      param_texts_def e_def demo_field_def)
  have f: "failures ?st demo_page [e] = [(e, ''x'')]"
    by (simp add: failures_def es failure_def validationTargetFor_def b c m map_filter_simps)
  have s: "list_all (settled ?st demo_page [e]) (elements_to_check ?st demo_page [e])"
    by (simp add: es settled_def checks_well_def validationTargetFor_def b c)
  have n: "list_all (\<lambda>(e, t). t \<noteq> '''') (failures ?st demo_page [e])" by (simp add: f)
  show ?thesis using form_validate_exact [OF s n, of validator_init] unfolding f e_def [symmetric] by (auto simp: b)
qed

end
