(* ===== verification/Backbone_Events.thy ===== *)
theory Backbone_Events
  imports Js_Prelude
begin

text \<open>
  \<open>Backbone.Events\<close> of \<open>backbone.js\<close>, on which the admin site's models, collections and views are
  built: \<open>on\<close>, \<open>off\<close> and \<open>trigger\<close>. The callbacks of an event are a linked list whose last node is
  an empty object, which the next \<open>on\<close> fills. The nodes live in a heap, so that a callback can bind
  and unbind while a \<open>trigger\<close> walks the list. The theory shows that the lists implement a
  table of callbacks per event, and that \<open>trigger\<close> calls exactly the callbacks that were bound when
  it started.

  Functions and contexts are compared by identity: they are numbers. A node that was not filled is an
  address without an entry in the heap.
\<close>

section \<open>The state\<close>

record node =
  nd_next :: nat
  nd_callback :: nat
  nd_context :: "nat option"

text \<open>
  \<open>ev_calls\<close> holds the objects that are or were \<open>this._callbacks\<close>: a running \<open>trigger\<close> keeps the one it
  started with. An entry is the pair of \<open>tail\<close> and \<open>next\<close>.
\<close>

record events =
  ev_heap :: "nat \<Rightarrow> node option"
  ev_free :: nat
  ev_calls :: "nat \<Rightarrow> (string \<times> (nat \<times> nat)) list"
  ev_next :: nat
  ev_callbacks :: "nat option"

definition ev_empty :: events where
  "ev_empty = \<lparr>ev_heap = (\<lambda>_. None), ev_free = 0, ev_calls = (\<lambda>_. []), ev_next = 0, ev_callbacks = None\<rparr>"

text \<open>\<open>split(/\s+/)\<close>, and the loop over \<open>shift()\<close>, which an empty name ends.\<close>

lemma dropWhile_shorter: "dropWhile P s = c # r \<Longrightarrow> length (dropWhile Q r) < length s"
proof -
  assume a: "dropWhile P s = c # r"
  have "length (dropWhile P s) \<le> length s" "length (dropWhile Q r) \<le> length r" by (rule length_dropWhile_le)+
  with a show ?thesis by simp
qed

function split_spaces :: "string \<Rightarrow> string list" where
  "split_spaces s = (case dropWhile (\<lambda>c. \<not> is_space c) s of
      [] \<Rightarrow> [s]
    | c # r \<Rightarrow> takeWhile (\<lambda>c. \<not> is_space c) s # split_spaces (dropWhile is_space r))"
  by pat_completeness auto
termination
  by (relation "measure length")
    (auto intro: dropWhile_shorter)

declare split_spaces.simps [simp del]

definition event_names :: "string \<Rightarrow> string list" where
  "event_names s = takeWhile (\<lambda>w. w \<noteq> '''') (split_spaces s)"

section \<open>Binding\<close>

text \<open>One round of the loop of \<open>on\<close>: \<open>node\<close> is the empty tail of the list, or a new object.\<close>

definition bind_event :: "nat \<Rightarrow> nat \<Rightarrow> nat option \<Rightarrow> string \<Rightarrow> events \<Rightarrow> events" where
  "bind_event t cb ctx ev s =
     (case map_of (ev_calls s t) ev of
        Some (tn, nx) \<Rightarrow> let tail = ev_free s in
          s\<lparr>ev_heap := (ev_heap s)(tn \<mapsto> \<lparr>nd_next = tail, nd_callback = cb, nd_context = ctx\<rparr>),
            ev_free := tail + 1,
            ev_calls := (ev_calls s)(t := obj_set ev (tail, nx) (ev_calls s t))\<rparr>
      | None \<Rightarrow> let node = ev_free s; tail = node + 1 in
          s\<lparr>ev_heap := (ev_heap s)(node \<mapsto> \<lparr>nd_next = tail, nd_callback = cb, nd_context = ctx\<rparr>),
            ev_free := tail + 1,
            ev_calls := (ev_calls s)(t := obj_set ev (tail, node) (ev_calls s t))\<rparr>)"

text \<open>\<open>this._callbacks || (this._callbacks = {})\<close>.\<close>

definition ensure_callbacks :: "events \<Rightarrow> events" where
  "ensure_callbacks s = (case ev_callbacks s of Some _ \<Rightarrow> s
     | None \<Rightarrow> s\<lparr>ev_callbacks := Some (ev_next s), ev_next := ev_next s + 1,
                ev_calls := (ev_calls s)(ev_next s := [])\<rparr>)"

definition ev_on :: "string \<Rightarrow> nat option \<Rightarrow> nat option \<Rightarrow> events \<Rightarrow> events" where
  "ev_on names callback ctx s = (case callback of None \<Rightarrow> s
     | Some cb \<Rightarrow> let s = ensure_callbacks s in
         (case ev_callbacks s of None \<Rightarrow> s
          | Some t \<Rightarrow> fold (bind_event t cb ctx) (event_names names) s))"

section \<open>Unbinding\<close>

definition matches :: "nat option \<Rightarrow> nat option \<Rightarrow> nat \<times> nat option \<Rightarrow> bool" where
  "matches callback ctx l = (\<not> ((callback \<noteq> None \<and> Some (fst l) \<noteq> callback) \<or> (ctx \<noteq> None \<and> snd l \<noteq> ctx)))"

text \<open>
  The loop over the old list, which binds again what does not match: \<open>None\<close> where the loop does not
  end or reads a property of \<open>undefined\<close>.
\<close>

partial_function (option) rebind :: "nat \<Rightarrow> string \<Rightarrow> nat option \<Rightarrow> nat option \<Rightarrow> nat \<Rightarrow> nat \<Rightarrow> events \<Rightarrow> events option" where
  "rebind t ev callback ctx tail node s =
     (if node = tail then Some s
      else case ev_heap s node of
        None \<Rightarrow> None
      | Some nd \<Rightarrow>
          (let s' = (if matches callback ctx (nd_callback nd, nd_context nd) then s
                     else bind_event t (nd_callback nd) (nd_context nd) ev s)
           in rebind t ev callback ctx tail (nd_next nd) s'))"

declare rebind.simps [code]

definition off_event :: "nat \<Rightarrow> nat option \<Rightarrow> nat option \<Rightarrow> string \<Rightarrow> events \<Rightarrow> events option" where
  "off_event t callback ctx ev s =
     (let entry = map_of (ev_calls s t) ev;
          s = s\<lparr>ev_calls := (ev_calls s)(t := obj_delete ev (ev_calls s t))\<rparr>
      in case entry of None \<Rightarrow> Some s
       | Some (tn, nx) \<Rightarrow> if callback = None \<and> ctx = None then Some s
           else rebind t ev callback ctx tn nx s)"

fun off_events :: "nat \<Rightarrow> nat option \<Rightarrow> nat option \<Rightarrow> string list \<Rightarrow> events \<Rightarrow> events option" where
  "off_events t callback ctx [] s = Some s"
| "off_events t callback ctx (e # es) s =
     (case off_event t callback ctx e s of None \<Rightarrow> None | Some s' \<Rightarrow> off_events t callback ctx es s')"

definition ev_off :: "string option \<Rightarrow> nat option \<Rightarrow> nat option \<Rightarrow> events \<Rightarrow> events option" where
  "ev_off names callback ctx s = (case ev_callbacks s of None \<Rightarrow> Some s
     | Some t \<Rightarrow>
         let given = (case names of Some n \<Rightarrow> n \<noteq> '''' | None \<Rightarrow> False) in
         if \<not> given \<and> callback = None \<and> ctx = None then Some (s\<lparr>ev_callbacks := None\<rparr>)
         else off_events t callback ctx
           (if given then event_names (the names) else takeWhile (\<lambda>w. w \<noteq> '''') (map fst (ev_calls s t))) s)"

section \<open>Triggering\<close>

text \<open>
  What a callback is called with: the function, \<open>this\<close> (\<open>None\<close> for the object of the events) and the
  arguments. \<open>body\<close> says what the call does to the bindings, \<open>None\<close> where it does not return.
\<close>

record call =
  cl_callback :: nat
  cl_this :: "nat option"
  cl_args :: "string list"

partial_function (option) walk ::
    "(call \<Rightarrow> events \<Rightarrow> events option) \<Rightarrow> string list \<Rightarrow> nat \<Rightarrow> nat \<Rightarrow> events \<Rightarrow> call list \<Rightarrow> (events \<times> call list) option" where
  "walk body args tail node s log =
     (if node = tail then Some (s, log)
      else case ev_heap s node of
        None \<Rightarrow> None
      | Some nd \<Rightarrow>
          (let c = \<lparr>cl_callback = nd_callback nd, cl_this = nd_context nd, cl_args = args\<rparr>
           in case body c s of None \<Rightarrow> None
            | Some s' \<Rightarrow> (case ev_heap s' node of None \<Rightarrow> None
               | Some nd' \<Rightarrow> walk body args tail (nd_next nd') s' (log @ [c]))))"

declare walk.simps [code]

definition walk_entry :: "(call \<Rightarrow> events \<Rightarrow> events option) \<Rightarrow> string list \<Rightarrow> (nat \<times> nat) option \<Rightarrow> events \<times> call list \<Rightarrow> (events \<times> call list) option" where
  "walk_entry body args entry st =
     (case entry of None \<Rightarrow> Some st | Some (tn, nx) \<Rightarrow> walk body args tn nx (fst st) (snd st))"

text \<open>\<open>all\<close> is read once, the entry of an event when its turn comes.\<close>

fun trigger_loop :: "(call \<Rightarrow> events \<Rightarrow> events option) \<Rightarrow> string list \<Rightarrow> nat \<Rightarrow> (nat \<times> nat) option \<Rightarrow> string list
    \<Rightarrow> events \<times> call list \<Rightarrow> (events \<times> call list) option" where
  "trigger_loop body rest t all [] st = Some st"
| "trigger_loop body rest t all (ev # evs) st =
     (case walk_entry body rest (map_of (ev_calls (fst st) t) ev) st of
        None \<Rightarrow> None
      | Some st1 \<Rightarrow>
          (case walk_entry body (ev # rest) all st1 of
             None \<Rightarrow> None
           | Some st2 \<Rightarrow> trigger_loop body rest t all evs st2))"

definition ev_trigger :: "(call \<Rightarrow> events \<Rightarrow> events option) \<Rightarrow> string \<Rightarrow> string list \<Rightarrow> events \<Rightarrow> (events \<times> call list) option" where
  "ev_trigger body names rest s = (case ev_callbacks s of None \<Rightarrow> Some (s, [])
     | Some t \<Rightarrow> trigger_loop body rest t (map_of (ev_calls s t) ''all'') (event_names names) (s, []))"


section \<open>What the lists hold\<close>

fun path :: "(nat \<Rightarrow> node option) \<Rightarrow> nat \<Rightarrow> (nat \<times> nat option) list \<Rightarrow> nat \<Rightarrow> bool" where
  "path h a [] b \<longleftrightarrow> a = b"
| "path h a (c # cs) b \<longleftrightarrow> a \<noteq> b \<and> (\<exists>nd. h a = Some nd \<and> c = (nd_callback nd, nd_context nd) \<and> path h (nd_next nd) cs b)"

fun collect :: "nat \<Rightarrow> (nat \<Rightarrow> node option) \<Rightarrow> nat \<Rightarrow> nat \<Rightarrow> (nat \<times> nat option) list" where
  "collect 0 h a b = []"
| "collect (Suc n) h a b = (if a = b then [] else case h a of None \<Rightarrow> []
     | Some nd \<Rightarrow> (nd_callback nd, nd_context nd) # collect n h (nd_next nd) b)"

text \<open>The callbacks and contexts bound to an event, first the oldest.\<close>

definition listeners_at :: "events \<Rightarrow> nat \<Rightarrow> string \<Rightarrow> (nat \<times> nat option) list" where
  "listeners_at s t ev = (case map_of (ev_calls s t) ev of None \<Rightarrow> []
     | Some (tn, nx) \<Rightarrow> collect (ev_free s) (ev_heap s) nx tn)"

definition listeners :: "events \<Rightarrow> string \<Rightarrow> (nat \<times> nat option) list" where
  "listeners s ev = (case ev_callbacks s of None \<Rightarrow> [] | Some t \<Rightarrow> listeners_at s t ev)"

text \<open>Nodes are only filled once, and refer to younger nodes.\<close>

definition heap_ok :: "events \<Rightarrow> bool" where
  "heap_ok s \<longleftrightarrow> (\<forall>a nd. ev_heap s a = Some nd \<longrightarrow> a < nd_next nd \<and> nd_next nd < ev_free s)"

definition entry_ok :: "events \<Rightarrow> nat \<times> nat \<Rightarrow> bool" where
  "entry_ok s e \<longleftrightarrow> (\<exists>cs. path (ev_heap s) (snd e) cs (fst e)) \<and> fst e < ev_free s"

definition entries_ok :: "events \<Rightarrow> bool" where
  "entries_ok s \<longleftrightarrow> (\<forall>t ev e. map_of (ev_calls s t) ev = Some e \<longrightarrow> entry_ok s e \<and> ev_heap s (fst e) = None)"

definition tails_ok :: "events \<Rightarrow> bool" where
  "tails_ok s \<longleftrightarrow> (\<forall>t ev e t' ev' e'. map_of (ev_calls s t) ev = Some e \<longrightarrow> map_of (ev_calls s t') ev' = Some e'
     \<longrightarrow> fst e = fst e' \<longrightarrow> t = t' \<and> ev = ev')"

definition tables_ok :: "events \<Rightarrow> bool" where
  "tables_ok s \<longleftrightarrow> (\<forall>t. distinct (map fst (ev_calls s t)) \<and> '''' \<notin> set (map fst (ev_calls s t)))
     \<and> (\<forall>t. ev_next s \<le> t \<longrightarrow> ev_calls s t = []) \<and> (\<forall>t. ev_callbacks s = Some t \<longrightarrow> t < ev_next s)"

definition ev_wf :: "events \<Rightarrow> bool" where
  "ev_wf s \<longleftrightarrow> heap_ok s \<and> entries_ok s \<and> tails_ok s \<and> tables_ok s"

definition extends :: "events \<Rightarrow> events \<Rightarrow> bool" where
  "extends s s' \<longleftrightarrow> (\<forall>a nd. ev_heap s a = Some nd \<longrightarrow> ev_heap s' a = Some nd) \<and> ev_free s \<le> ev_free s' \<and> ev_next s \<le> ev_next s'"

lemma extends_refl [simp]: "extends s s"
  by (simp add: extends_def)

lemma extends_trans [trans]: "extends s s' \<Longrightarrow> extends s' s'' \<Longrightarrow> extends s s''"
  by (force simp: extends_def)

lemma path_mono: "path h a cs b \<Longrightarrow> (\<And>a nd. h a = Some nd \<Longrightarrow> h' a = Some nd) \<Longrightarrow> path h' a cs b"
  by (induction cs arbitrary: a) auto

lemma path_extends: "path (ev_heap s) a cs b \<Longrightarrow> extends s s' \<Longrightarrow> path (ev_heap s') a cs b"
  by (erule path_mono) (simp add: extends_def)

lemma path_length:
  assumes "\<And>a nd. h a = Some nd \<Longrightarrow> a < nd_next nd"
  shows "path h a cs b \<Longrightarrow> a + length cs \<le> b"
proof (induction cs arbitrary: a)
  case (Cons c cs)
  then obtain nd where "h a = Some nd" "path h (nd_next nd) cs b" by auto
  with Cons.IH [of "nd_next nd"] assms [of a nd] show ?case by simp
qed simp

lemma path_snoc:
  assumes inc: "\<And>a nd. h a = Some nd \<Longrightarrow> a < nd_next nd"
    and e: "h b = None" and n: "b < nd_next nd"
  shows "path h a cs b \<Longrightarrow> path (h(b \<mapsto> nd)) a (cs @ [(nd_callback nd, nd_context nd)]) (nd_next nd)"
proof (induction cs arbitrary: a)
  case Nil
  then show ?case using n by simp
next
  case (Cons c cs)
  then obtain nd' where a: "a \<noteq> b" "h a = Some nd'" "c = (nd_callback nd', nd_context nd')" "path h (nd_next nd') cs b" by auto
  have "a \<le> b" using path_length [OF inc Cons.prems] by simp
  with a n Cons.IH show ?case by auto
qed

lemma collect_path: "path h a cs b \<Longrightarrow> length cs \<le> n \<Longrightarrow> collect n h a b = cs"
proof (induction cs arbitrary: a n)
  case Nil
  then show ?case by (cases n) simp_all
next
  case (Cons c cs)
  then show ?case by (cases n) auto
qed

text \<open>The list of an entry, as a predicate.\<close>

definition bound :: "events \<Rightarrow> nat \<Rightarrow> string \<Rightarrow> (nat \<times> nat option) list \<Rightarrow> bool" where
  "bound s t ev cs = (case map_of (ev_calls s t) ev of None \<Rightarrow> cs = [] | Some (tn, nx) \<Rightarrow> path (ev_heap s) nx cs tn)"

lemma entry_listeners:
  assumes "heap_ok s" "path (ev_heap s) nx cs tn" "tn < ev_free s"
  shows "collect (ev_free s) (ev_heap s) nx tn = cs"
proof (rule collect_path [OF assms(2)])
  have "nx + length cs \<le> tn"
    by (rule path_length [OF _ assms(2)]) (use assms(1) in \<open>simp add: heap_ok_def\<close>)
  with assms(3) show "length cs \<le> ev_free s" by simp
qed

lemma entryD:
  assumes "ev_wf s" "map_of (ev_calls s t) ev = Some (tn, nx)"
  obtains cs where "path (ev_heap s) nx cs tn" "tn < ev_free s" "ev_heap s tn = None"
  using assms unfolding ev_wf_def entries_ok_def entry_ok_def by (metis fst_conv snd_conv)

lemma bound_listeners:
  assumes "ev_wf s"
  shows "bound s t ev cs \<longleftrightarrow> listeners_at s t ev = cs"
proof (cases "map_of (ev_calls s t) ev")
  case None
  then show ?thesis by (auto simp: bound_def listeners_at_def)
next
  case (Some e)
  obtain tn nx where e: "e = (tn, nx)" by (cases e)
  from Some e obtain cs' where p: "path (ev_heap s) nx cs' tn" "tn < ev_free s"
    by (auto elim: entryD [OF assms])
  have h: "heap_ok s" using assms by (simp add: ev_wf_def)
  from entry_listeners [OF h p] have "listeners_at s t ev = cs'" using Some e by (simp add: listeners_at_def)
  moreover have "path (ev_heap s) nx cs tn \<Longrightarrow> cs = cs'" using entry_listeners [OF h _ p(2)] entry_listeners [OF h p] by metis
  ultimately show ?thesis using Some e p by (auto simp: bound_def)
qed

section \<open>Binding\<close>

lemma fill_wf:
  assumes w: "ev_wf s" and t: "t < ev_next s" and ev: "ev \<noteq> ''''"
    and p: "path (ev_heap s) first cs node" and e: "ev_heap s node = None" and l: "listeners_at s t ev = cs"
    and u: "\<And>t' ev' x. map_of (ev_calls s t') ev' = Some x \<Longrightarrow> fst x = node \<Longrightarrow> t' = t \<and> ev' = ev"
    and n: "node < tail" "ev_free s \<le> tail"
    and s': "s' = s\<lparr>ev_heap := (ev_heap s)(node \<mapsto> \<lparr>nd_next = tail, nd_callback = cb, nd_context = ctx\<rparr>),
        ev_free := tail + 1, ev_calls := (ev_calls s)(t := obj_set ev (tail, first) (ev_calls s t))\<rparr>"
  shows "ev_wf s' \<and> extends s s' \<and> (\<forall>t' e. listeners_at s' t' e = listeners_at s t' e @ (if t' = t \<and> e = ev then [(cb, ctx)] else []))"
proof -
  let ?nd = "\<lparr>nd_next = tail, nd_callback = cb, nd_context = ctx\<rparr>"
  have h: "\<And>a nd. ev_heap s a = Some nd \<Longrightarrow> a < nd_next nd \<and> nd_next nd < ev_free s"
    using w by (auto simp: ev_wf_def heap_ok_def)
  have x: "extends s s'" using e n by (auto simp: extends_def s')
  have p': "path (ev_heap s') first (cs @ [(cb, ctx)]) tail"
    using path_snoc [of "ev_heap s" node ?nd, OF _ e _ p] h n by (simp add: s')
  have tail: "ev_heap s tail = None" using h n by (metis less_le_not_le less_trans linorder_le_less_linear not_Some_eq)
  have calls: "map_of (ev_calls s' t') ev' = (if t' = t \<and> ev' = ev then Some (tail, first) else map_of (ev_calls s t') ev')" for t' ev'
    by (simp add: s')
  have old: "\<exists>c. path (ev_heap s') (snd x) c (fst x) \<and> fst x < ev_free s \<and> ev_heap s' (fst x) = None"
    if o: "map_of (ev_calls s t') ev' = Some x" and d: "\<not> (t' = t \<and> ev' = ev)" for t' ev' x
  proof -
    obtain c where c: "path (ev_heap s) (snd x) c (fst x)" "fst x < ev_free s" "ev_heap s (fst x) = None"
      using entryD [OF w, of t' ev' "fst x" "snd x"] o by auto
    with path_extends [OF c(1) x] u [OF o] d show ?thesis by (auto simp: s')
  qed
  have "heap_ok s'" using h n by (fastforce simp: heap_ok_def s')
  moreover have "entries_ok s'"
    unfolding entries_ok_def entry_ok_def calls
  proof (intro allI impI)
    fix t' ev' x
    assume a: "(if t' = t \<and> ev' = ev then Some (tail, first) else map_of (ev_calls s t') ev') = Some x"
    show "((\<exists>cs. path (ev_heap s') (snd x) cs (fst x)) \<and> fst x < ev_free s') \<and> ev_heap s' (fst x) = None"
    proof (cases "t' = t \<and> ev' = ev")
      case True
      with a p' tail n show ?thesis by (auto simp: s')
    next
      case False
      with a old [of t' ev' x] n show ?thesis by (auto simp: s')
    qed
  qed
  moreover have "tails_ok s'"
    unfolding tails_ok_def calls
  proof (intro allI impI)
    fix t1 e1 x1 t2 e2 x2
    assume a: "(if t1 = t \<and> e1 = ev then Some (tail, first) else map_of (ev_calls s t1) e1) = Some x1"
      "(if t2 = t \<and> e2 = ev then Some (tail, first) else map_of (ev_calls s t2) e2) = Some x2" "fst x1 = fst x2"
    have lt: "map_of (ev_calls s t') ev' = Some x \<Longrightarrow> fst x < tail" for t' ev' x
      using entryD [OF w, of t' ev' "fst x" "snd x"] n by fastforce
    from w have "map_of (ev_calls s t1) e1 = Some x1 \<Longrightarrow> map_of (ev_calls s t2) e2 = Some x2 \<Longrightarrow> t1 = t2 \<and> e1 = e2"
      using a(3) unfolding ev_wf_def tails_ok_def by blast
    with a lt [of t1 e1 x1] lt [of t2 e2 x2] show "t1 = t2 \<and> e1 = e2" by (auto split: if_splits)
  qed
  moreover have "tables_ok s'"
    using w t ev by (auto simp: ev_wf_def tables_ok_def s' distinct_obj_set keys_obj_set simp del: set_map)
  ultimately have w': "ev_wf s'" by (simp add: ev_wf_def)
  have "listeners_at s' t' e = listeners_at s t' e @ (if t' = t \<and> e = ev then [(cb, ctx)] else [])" for t' e
  proof (cases "t' = t \<and> e = ev")
    case True
    then have "bound s' t' e (cs @ [(cb, ctx)])" using p' by (simp add: bound_def calls)
    with True l show ?thesis using bound_listeners [OF w'] by simp
  next
    case False
    have "bound s t' e (listeners_at s t' e)" using bound_listeners [OF w] by simp
    with False have "bound s' t' e (listeners_at s t' e)"
      by (auto simp: bound_def calls path_extends [OF _ x] split: option.splits)
    then show ?thesis using False bound_listeners [OF w'] by simp
  qed
  with w' x show ?thesis by blast
qed

lemma bind_event_wf:
  assumes w: "ev_wf s" and t: "t < ev_next s" and ev: "ev \<noteq> ''''"
  shows "ev_wf (bind_event t cb ctx ev s) \<and> extends s (bind_event t cb ctx ev s)
    \<and> (\<forall>t' e. listeners_at (bind_event t cb ctx ev s) t' e
         = listeners_at s t' e @ (if t' = t \<and> e = ev then [(cb, ctx)] else []))"
proof (cases "map_of (ev_calls s t) ev")
  case None
  have h: "heap_ok s" using w by (simp add: ev_wf_def)
  have e: "ev_heap s (ev_free s) = None"
    using h unfolding heap_ok_def by (metis not_Some_eq not_less_iff_gr_or_eq order.strict_trans)
  have l: "listeners_at s t ev = []" using None by (simp add: listeners_at_def)
  have u: "t' = t \<and> ev' = ev" if "map_of (ev_calls s t') ev' = Some x" "fst x = ev_free s" for t' ev' x
    using entryD [OF w] that by (metis less_irrefl prod.collapse)
  show ?thesis
    by (rule fill_wf [where node = "ev_free s" and first = "ev_free s" and tail = "ev_free s + 1", OF w t ev _ e l u])
       (auto simp: bind_event_def None Let_def)
next
  case (Some x)
  obtain tn nx where x: "x = (tn, nx)" by (cases x)
  obtain cs where c: "path (ev_heap s) nx cs tn" "tn < ev_free s" "ev_heap s tn = None"
    using entryD [OF w, of t ev tn nx] Some x by auto
  have l: "listeners_at s t ev = cs" using bound_listeners [OF w, of t ev cs] Some x c by (simp add: bound_def)
  have u: "t' = t \<and> ev' = ev" if "map_of (ev_calls s t') ev' = Some y" "fst y = tn" for t' ev' y
    using w Some x that unfolding ev_wf_def tails_ok_def by (metis fst_conv)
  show ?thesis
    by (rule fill_wf [where tail = "ev_free s", OF w t ev c(1,3) l u])
       (use c in \<open>auto simp: bind_event_def Some x Let_def\<close>)
qed

lemma bind_event_fields [simp]:
  "ev_callbacks (bind_event t cb ctx ev s) = ev_callbacks s" "ev_next (bind_event t cb ctx ev s) = ev_next s"
  by (simp_all add: bind_event_def Let_def split: option.splits)

lemma bind_events_wf:
  assumes "ev_wf s" "t < ev_next s" "\<forall>e\<in>set es. e \<noteq> ''''"
  shows "ev_wf (fold (bind_event t cb ctx) es s) \<and> extends s (fold (bind_event t cb ctx) es s)
    \<and> ev_callbacks (fold (bind_event t cb ctx) es s) = ev_callbacks s
    \<and> (\<forall>t' e. listeners_at (fold (bind_event t cb ctx) es s) t' e
         = listeners_at s t' e @ (if t' = t then replicate (count_list es e) (cb, ctx) else []))"
  using assms
proof (induction es arbitrary: s)
  case (Cons e es)
  let ?s = "bind_event t cb ctx e s"
  have b: "ev_wf ?s" "extends s ?s" "\<And>t' e'. listeners_at ?s t' e' = listeners_at s t' e' @ (if t' = t \<and> e' = e then [(cb, ctx)] else [])"
    using bind_event_wf [of s t e cb ctx] Cons.prems by auto
  with Cons.IH [OF b(1)] Cons.prems extends_trans [OF b(2)] show ?case by (auto simp: replicate_app_Cons_same)
qed simp

lemma event_names_nonempty: "\<forall>e\<in>set (event_names n). e \<noteq> ''''"
  unfolding event_names_def using set_takeWhileD by fast

lemma ensure_callbacks_wf:
  assumes w: "ev_wf s"
  shows "ev_wf (ensure_callbacks s)" "extends s (ensure_callbacks s)" "listeners (ensure_callbacks s) e = listeners s e"
    "\<exists>t. ev_callbacks (ensure_callbacks s) = Some t \<and> t < ev_next (ensure_callbacks s)"
proof -
  show "ev_wf (ensure_callbacks s)" "extends s (ensure_callbacks s)" "\<exists>t. ev_callbacks (ensure_callbacks s) = Some t \<and> t < ev_next (ensure_callbacks s)"
    using w by (auto simp: ensure_callbacks_def ev_wf_def heap_ok_def entries_ok_def entry_ok_def tails_ok_def tables_ok_def
        extends_def split: option.splits)
  show "listeners (ensure_callbacks s) e = listeners s e"
    by (auto simp: ensure_callbacks_def listeners_def listeners_at_def split: option.splits)
qed

lemma ev_on_wf:
  assumes w: "ev_wf s"
  shows "ev_wf (ev_on names callback ctx s) \<and> extends s (ev_on names callback ctx s)
    \<and> (\<forall>e. listeners (ev_on names callback ctx s) e = listeners s e
        @ (case callback of None \<Rightarrow> [] | Some cb \<Rightarrow> replicate (count_list (event_names names) e) (cb, ctx)))"
proof (cases callback)
  case None
  with w show ?thesis by (simp add: ev_on_def)
next
  case (Some cb)
  let ?s = "ensure_callbacks s"
  obtain t where t: "ev_callbacks ?s = Some t" "t < ev_next ?s" using ensure_callbacks_wf(4) [OF w] by blast
  note f = bind_events_wf [OF ensure_callbacks_wf(1) [OF w] t(2) event_names_nonempty, of cb ctx names]
  have "listeners (fold (bind_event t cb ctx) (event_names names) ?s) e
      = listeners s e @ replicate (count_list (event_names names) e) (cb, ctx)" for e
    using f ensure_callbacks_wf(3) [OF w, of e] t(1) by (simp add: listeners_def)
  with f extends_trans [OF ensure_callbacks_wf(2) [OF w]] show ?thesis by (simp add: ev_on_def Some t(1) Let_def)
qed

section \<open>Unbinding\<close>

lemma rebind_wf:
  assumes "ev_wf s" "t < ev_next s" "ev \<noteq> ''''" "path (ev_heap s) node cs tail"
  shows "\<exists>s'. rebind t ev callback ctx tail node s = Some s' \<and> ev_wf s' \<and> extends s s' \<and> ev_callbacks s' = ev_callbacks s
    \<and> (\<forall>t' e. listeners_at s' t' e = listeners_at s t' e
         @ (if t' = t \<and> e = ev then filter (\<lambda>l. \<not> matches callback ctx l) cs else []))"
  using assms
proof (induction cs arbitrary: s node)
  case Nil
  then show ?case by (subst rebind.simps) simp
next
  case (Cons c cs)
  then obtain nd where nd: "node \<noteq> tail" "ev_heap s node = Some nd" "c = (nd_callback nd, nd_context nd)"
    "path (ev_heap s) (nd_next nd) cs tail" by auto
  let ?s = "if matches callback ctx c then s else bind_event t (fst c) (snd c) ev s"
  have b: "ev_wf ?s" "extends s ?s" "t < ev_next ?s" "ev_callbacks ?s = ev_callbacks s"
    "\<And>t' e. listeners_at ?s t' e = listeners_at s t' e @ (if t' = t \<and> e = ev \<and> \<not> matches callback ctx c then [c] else [])"
    using bind_event_wf [of s t ev "fst c" "snd c"] Cons.prems by auto
  have "rebind t ev callback ctx tail node s = rebind t ev callback ctx tail (nd_next nd) ?s"
    using nd by (subst rebind.simps) simp
  with Cons.IH [OF b(1,3) Cons.prems(3) path_extends [OF nd(4) b(2)]] b extends_trans [OF b(2)]
  show ?case by auto
qed

lemma listeners_cong:
  assumes "ev_wf s" "ev_wf s'" "extends s s'" "map_of (ev_calls s' t') e' = map_of (ev_calls s t) e"
  shows "listeners_at s' t' e' = listeners_at s t e"
proof -
  have "bound s t e (listeners_at s t e)" using bound_listeners [OF assms(1)] by simp
  then have "bound s' t' e' (listeners_at s t e)"
    using assms(4) by (auto simp: bound_def path_extends [OF _ assms(3)] split: option.splits)
  then show ?thesis using bound_listeners [OF assms(2)] by simp
qed

lemma off_event_wf:
  assumes w: "ev_wf s" and t: "t < ev_next s"
  shows "\<exists>s'. off_event t callback ctx ev s = Some s' \<and> ev_wf s' \<and> extends s s' \<and> ev_callbacks s' = ev_callbacks s
    \<and> (\<forall>t' e. listeners_at s' t' e = (if t' = t \<and> e = ev then filter (\<lambda>l. \<not> matches callback ctx l) (listeners_at s t' e)
          else listeners_at s t' e))"
proof -
  let ?s = "s\<lparr>ev_calls := (ev_calls s)(t := obj_delete ev (ev_calls s t))\<rparr>"
  have m: "map_of (ev_calls ?s t') e = (if t' = t \<and> e = ev then None else map_of (ev_calls s t') e)" for t' e by simp
  have w1: "ev_wf ?s"
    unfolding ev_wf_def entries_ok_def tails_ok_def m
    using w by (auto simp: ev_wf_def heap_ok_def entries_ok_def entry_ok_def tails_ok_def tables_ok_def
        distinct_obj_delete keys_obj_delete simp del: set_map split: if_splits) (auto simp: obj_delete_def)
  have x1: "extends s ?s" by (simp add: extends_def)
  have l1: "listeners_at ?s t' e = (if t' = t \<and> e = ev then [] else listeners_at s t' e)" for t' e
    using listeners_cong [OF w w1 x1, of t' e t' e] by (auto simp: listeners_at_def)
  show ?thesis
  proof (cases "map_of (ev_calls s t) ev")
    case None
    then have "listeners_at s t ev = []" by (simp add: listeners_at_def)
    with w1 x1 l1 None show ?thesis by (auto simp: off_event_def)
  next
    case (Some en)
    obtain tn nx where en: "en = (tn, nx)" by (cases en)
    obtain cs where c: "path (ev_heap s) nx cs tn" using entryD [OF w, of t ev tn nx] Some en by auto
    have l: "listeners_at s t ev = cs" using bound_listeners [OF w, of t ev cs] Some en c by (simp add: bound_def)
    have ev: "ev \<noteq> ''''" using w Some unfolding ev_wf_def tables_ok_def
      by (metis map_of_eq_None_iff not_Some_eq list.set_map)
    show ?thesis
    proof (cases "callback = None \<and> ctx = None")
      case True
      with w1 x1 l1 Some en show ?thesis by (auto simp: off_event_def matches_def)
    next
      case False
      have "off_event t callback ctx ev s = rebind t ev callback ctx tn nx ?s"
        using False by (auto simp: off_event_def Some en Let_def)
      moreover have "path (ev_heap ?s) nx cs tn" "t < ev_next ?s" using c t by simp_all
      ultimately show ?thesis
        using rebind_wf [OF w1 _ ev, of t nx cs tn callback ctx] l1 l extends_trans [OF x1] by auto
    qed
  qed
qed

lemma off_events_wf:
  assumes "ev_wf s" "t < ev_next s"
  shows "\<exists>s'. off_events t callback ctx es s = Some s' \<and> ev_wf s' \<and> extends s s' \<and> ev_callbacks s' = ev_callbacks s
    \<and> (\<forall>t' e. listeners_at s' t' e = (if t' = t \<and> e \<in> set es then filter (\<lambda>l. \<not> matches callback ctx l) (listeners_at s t' e)
          else listeners_at s t' e))"
  using assms
proof (induction es arbitrary: s)
  case (Cons e es)
  obtain s1 where s1: "off_event t callback ctx e s = Some s1" "ev_wf s1" "extends s s1" "ev_callbacks s1 = ev_callbacks s"
    "\<And>t' e'. listeners_at s1 t' e' = (if t' = t \<and> e' = e then filter (\<lambda>l. \<not> matches callback ctx l) (listeners_at s t' e')
          else listeners_at s t' e')"
    using off_event_wf [OF Cons.prems, of callback ctx e] by blast
  have "t < ev_next s1" using s1(3) Cons.prems(2) by (simp add: extends_def)
  from Cons.IH [OF s1(2) this] obtain s2 where s2: "off_events t callback ctx es s1 = Some s2" "ev_wf s2" "extends s1 s2"
    "ev_callbacks s2 = ev_callbacks s1" "\<And>t' e'. listeners_at s2 t' e' = (if t' = t \<and> e' \<in> set es
       then filter (\<lambda>l. \<not> matches callback ctx l) (listeners_at s1 t' e') else listeners_at s1 t' e')" by blast
  have f: "filter (\<lambda>l. \<not> matches callback ctx l) (filter (\<lambda>l. \<not> matches callback ctx l) xs)
      = filter (\<lambda>l. \<not> matches callback ctx l) xs" for xs by simp
  have "listeners_at s2 t' e' = (if t' = t \<and> e' \<in> set (e # es) then filter (\<lambda>l. \<not> matches callback ctx l) (listeners_at s t' e')
          else listeners_at s t' e')" for t' e'
    unfolding s2(5) s1(5) using f by auto
  with s1 s2 extends_trans [OF s1(3) s2(3)] show ?case by auto
qed simp

lemma ev_off_wf:
  assumes w: "ev_wf s"
  shows "\<exists>s'. ev_off names callback ctx s = Some s' \<and> ev_wf s' \<and> extends s s'
    \<and> (\<forall>e. listeners s' e =
         (if (case names of Some n \<Rightarrow> n = '''' \<or> e \<in> set (event_names n) | None \<Rightarrow> True)
          then filter (\<lambda>l. \<not> matches callback ctx l) (listeners s e) else listeners s e))"
proof (cases "ev_callbacks s")
  case None
  with w show ?thesis by (auto simp: ev_off_def listeners_def)
next
  case (Some t)
  have t: "t < ev_next s" using w Some by (simp add: ev_wf_def tables_ok_def)
  let ?given = "case names of Some n \<Rightarrow> n \<noteq> '''' | None \<Rightarrow> False"
  show ?thesis
  proof (cases "\<not> ?given \<and> callback = None \<and> ctx = None")
    case True
    have "ev_wf (s\<lparr>ev_callbacks := None\<rparr>)" "extends s (s\<lparr>ev_callbacks := None\<rparr>)"
      using w by (simp_all add: ev_wf_def heap_ok_def entries_ok_def entry_ok_def tails_ok_def tables_ok_def extends_def)
    with True show ?thesis by (auto simp: ev_off_def Some listeners_def matches_def split: option.splits)
  next
    case False
    define es where "es = (if ?given then event_names (the names) else takeWhile (\<lambda>w. w \<noteq> '''') (map fst (ev_calls s t)))"
    have "'''' \<notin> set (map fst (ev_calls s t))" using w by (simp add: ev_wf_def tables_ok_def)
    then have all: "takeWhile (\<lambda>w. w \<noteq> '''') (map fst (ev_calls s t)) = map fst (ev_calls s t)"
      unfolding takeWhile_eq_all_conv by metis
    have none: "listeners_at s t e = []" if "e \<notin> set (map fst (ev_calls s t))" for e
    proof -
      have "map_of (ev_calls s t) e = None" using that unfolding map_of_eq_None_iff by simp
      then show ?thesis by (simp add: listeners_at_def)
    qed
    obtain s' where s': "off_events t callback ctx es s = Some s'" "ev_wf s'" "extends s s'" "ev_callbacks s' = Some t"
      "\<And>e. listeners_at s' t e = (if e \<in> set es then filter (\<lambda>l. \<not> matches callback ctx l) (listeners_at s t e) else listeners_at s t e)"
      using off_events_wf [OF w t, of callback ctx es] Some by auto
    have "ev_off names callback ctx s = Some s'"
      using s'(1) False Some by (auto simp: ev_off_def es_def Let_def)
    moreover have "listeners s' e =
         (if (case names of Some n \<Rightarrow> n = '''' \<or> e \<in> set (event_names n) | None \<Rightarrow> True)
          then filter (\<lambda>l. \<not> matches callback ctx l) (listeners s e) else listeners s e)" for e
    proof (cases ?given)
      case True
      then show ?thesis unfolding listeners_def s'(4) Some option.case s'(5) es_def by (auto split: option.splits)
    next
      case False
      then have "es = map fst (ev_calls s t)" unfolding es_def using all by metis
      with False none [of e] show ?thesis
        unfolding listeners_def s'(4) Some option.case s'(5) by (auto split: option.splits)
    qed
    ultimately show ?thesis using s'(2,3) by blast
  qed
qed

section \<open>Triggering\<close>

text \<open>What a callback may do while a list is walked: return, keep the lists in order, and leave filled nodes alone.\<close>

definition calls_of :: "string list \<Rightarrow> (nat \<times> nat option) list \<Rightarrow> call list" where
  "calls_of args ls = map (\<lambda>(cb, ctx). \<lparr>cl_callback = cb, cl_this = ctx, cl_args = args\<rparr>) ls"

locale callbacks =
  fixes body :: "call \<Rightarrow> events \<Rightarrow> events option"
  assumes returns: "ev_wf s \<Longrightarrow> \<exists>s'. body c s = Some s' \<and> ev_wf s' \<and> extends s s'"
begin

lemma walk_path:
  "path (ev_heap s) node cs tail \<Longrightarrow> ev_wf s \<Longrightarrow>
    \<exists>s'. walk body args tail node s log = Some (s', log @ calls_of args cs) \<and> ev_wf s' \<and> extends s s'"
proof (induction cs arbitrary: s node log)
  case Nil
  then show ?case by (subst walk.simps) (simp add: calls_of_def)
next
  case (Cons c cs)
  then obtain nd where nd: "node \<noteq> tail" "ev_heap s node = Some nd" "c = (nd_callback nd, nd_context nd)"
    "path (ev_heap s) (nd_next nd) cs tail" by auto
  define cl where "cl = \<lparr>cl_callback = nd_callback nd, cl_this = nd_context nd, cl_args = args\<rparr>"
  obtain s1 where s1: "body cl s = Some s1" "ev_wf s1" "extends s s1" using returns [OF Cons.prems(2)] by blast
  have h: "ev_heap s1 node = Some nd" using s1(3) nd(2) by (simp add: extends_def)
  have w: "walk body args tail node s log = walk body args tail (nd_next nd) s1 (log @ [cl])"
    using nd s1 h by (subst walk.simps) (simp add: cl_def Let_def)
  from Cons.IH [OF path_extends [OF nd(4) s1(3)] s1(2), of "log @ [cl]"] obtain s2 where
    "walk body args tail (nd_next nd) s1 (log @ [cl]) = Some (s2, (log @ [cl]) @ calls_of args cs)"
    "ev_wf s2" "extends s1 s2" by blast
  with w extends_trans [OF s1(3)] show ?case by (auto simp: nd(3) cl_def calls_of_def)
qed

text \<open>An entry that was read in an earlier state is walked as it was then.\<close>

lemma walk_entry_snapshot:
  assumes w: "ev_wf s" and x: "extends s s'" "ev_wf s'"
  shows "\<exists>s''. walk_entry body args (map_of (ev_calls s t) ev) (s', log) = Some (s'', log @ calls_of args (listeners_at s t ev))
    \<and> ev_wf s'' \<and> extends s' s''"
proof (cases "map_of (ev_calls s t) ev")
  case None
  with x show ?thesis by (auto simp: walk_entry_def listeners_at_def calls_of_def)
next
  case (Some e)
  obtain tn nx where e: "e = (tn, nx)" by (cases e)
  obtain cs where c: "path (ev_heap s) nx cs tn" using entryD [OF w, of t ev tn nx] Some e by auto
  then have "listeners_at s t ev = cs" using bound_listeners [OF w, of t ev cs] Some e by (simp add: bound_def)
  with walk_path [OF path_extends [OF c x(1)] x(2)] show ?thesis by (simp add: walk_entry_def Some e)
qed

lemma trigger_loop_returns:
  assumes w: "ev_wf s" and x: "extends s s'" "ev_wf s'"
  shows "\<exists>s'' l. trigger_loop body rest t (map_of (ev_calls s u) ''all'') evs (s', log) = Some (s'', log @ l) \<and> ev_wf s'' \<and> extends s s''"
  using x
proof (induction evs arbitrary: s' log)
  case (Cons ev evs)
  obtain s1 where s1: "walk_entry body rest (map_of (ev_calls s' t) ev) (s', log)
      = Some (s1, log @ calls_of rest (listeners_at s' t ev))" "ev_wf s1" "extends s' s1"
    using walk_entry_snapshot [OF Cons.prems(2) extends_refl Cons.prems(2)] by blast
  obtain s2 where s2: "walk_entry body (ev # rest) (map_of (ev_calls s u) ''all'') (s1, log @ calls_of rest (listeners_at s' t ev))
      = Some (s2, (log @ calls_of rest (listeners_at s' t ev)) @ calls_of (ev # rest) (listeners_at s u ''all''))" "ev_wf s2" "extends s1 s2"
    using walk_entry_snapshot [OF w extends_trans [OF Cons.prems(1) s1(3)] s1(2)] by blast
  have "extends s s2" using Cons.prems(1) s1(3) s2(3) by (blast intro: extends_trans)
  from Cons.IH [OF this s2(2), of "(log @ calls_of rest (listeners_at s' t ev)) @ calls_of (ev # rest) (listeners_at s u ''all'')"]
  show ?case using s1(1) s2(1) by auto
qed simp

lemma trigger_returns:
  assumes w: "ev_wf s"
  shows "\<exists>s' l. ev_trigger body names rest s = Some (s', l) \<and> ev_wf s' \<and> extends s s'"
  using trigger_loop_returns [OF w extends_refl w, where log = "[]"] w
  by (auto simp: ev_trigger_def split: option.splits)

lemma trigger_snapshot:
  assumes w: "ev_wf s" and n: "event_names names = [ev]"
  shows "\<exists>s'. ev_trigger body names rest s
    = Some (s', calls_of rest (listeners s ev) @ calls_of (ev # rest) (listeners s ''all''))"
proof (cases "ev_callbacks s")
  case None
  then show ?thesis by (simp add: ev_trigger_def listeners_def calls_of_def)
next
  case (Some t)
  obtain s1 where s1: "walk_entry body rest (map_of (ev_calls s t) ev) (s, [])
      = Some (s1, calls_of rest (listeners_at s t ev))" "ev_wf s1" "extends s s1"
    using walk_entry_snapshot [OF w extends_refl w, where log = "[]" and t = t and ev = ev and args = rest] by auto
  obtain s2 where "walk_entry body (ev # rest) (map_of (ev_calls s t) ''all'') (s1, calls_of rest (listeners_at s t ev))
      = Some (s2, calls_of rest (listeners_at s t ev) @ calls_of (ev # rest) (listeners_at s t ''all''))"
    using walk_entry_snapshot [OF w s1(3,2)] by blast
  with s1 show ?thesis by (simp add: ev_trigger_def Some n listeners_def)
qed

end

section \<open>Programs that bind, unbind and trigger\<close>

datatype ev_op = OpOn string "nat option" "nat option" | OpOff "string option" "nat option" "nat option"

fun ev_do :: "ev_op \<Rightarrow> events \<Rightarrow> events option" where
  "ev_do (OpOn names callback ctx) s = Some (ev_on names callback ctx s)"
| "ev_do (OpOff names callback ctx) s = ev_off names callback ctx s"

fun run_ops :: "ev_op list \<Rightarrow> events \<Rightarrow> events option" where
  "run_ops [] s = Some s"
| "run_ops (op # ops) s = (case ev_do op s of None \<Rightarrow> None | Some s' \<Rightarrow> run_ops ops s')"

text \<open>The specification: a table of callbacks, first the oldest.\<close>

fun spec_do :: "ev_op \<Rightarrow> (string \<Rightarrow> (nat \<times> nat option) list) \<Rightarrow> string \<Rightarrow> (nat \<times> nat option) list" where
  "spec_do (OpOn names callback ctx) T = (\<lambda>e. T e
     @ (case callback of None \<Rightarrow> [] | Some cb \<Rightarrow> replicate (count_list (event_names names) e) (cb, ctx)))"
| "spec_do (OpOff names callback ctx) T = (\<lambda>e.
     if (case names of Some n \<Rightarrow> n = '''' \<or> e \<in> set (event_names n) | None \<Rightarrow> True)
     then filter (\<lambda>l. \<not> matches callback ctx l) (T e) else T e)"

lemma ev_do_wf:
  assumes "ev_wf s"
  shows "\<exists>s'. ev_do op s = Some s' \<and> ev_wf s' \<and> extends s s' \<and> listeners s' = spec_do op (listeners s)"
proof (cases op)
  case (OpOn names callback ctx)
  with ev_on_wf [OF assms, of names callback ctx] show ?thesis by (auto simp: fun_eq_iff)
next
  case (OpOff names callback ctx)
  with ev_off_wf [OF assms, of names callback ctx] show ?thesis by (auto simp: fun_eq_iff)
qed

lemma run_ops_wf:
  "ev_wf s \<Longrightarrow> \<exists>s'. run_ops ops s = Some s' \<and> ev_wf s' \<and> extends s s' \<and> listeners s' = fold spec_do ops (listeners s)"
proof (induction ops arbitrary: s)
  case (Cons op ops)
  obtain s1 where s1: "ev_do op s = Some s1" "ev_wf s1" "extends s s1" "listeners s1 = spec_do op (listeners s)"
    using ev_do_wf [OF Cons.prems] by blast
  with Cons.IH [OF s1(2)] extends_trans [OF s1(3)] show ?case by auto
qed simp

lemma ev_empty_wf: "ev_wf ev_empty"
  by (simp add: ev_wf_def ev_empty_def heap_ok_def entries_ok_def tails_ok_def tables_ok_def)

lemma listeners_empty: "listeners ev_empty = (\<lambda>_. [])"
  by (simp add: fun_eq_iff listeners_def ev_empty_def)

interpretation script: callbacks "\<lambda>c. run_ops (script c)" for script
  by unfold_locales (use run_ops_wf in blast)

text \<open>A callback may also trigger an event whose callbacks are such programs.\<close>

interpretation nested: callbacks "\<lambda>c s. map_option fst (ev_trigger (\<lambda>c. run_ops (script c)) (names c) (rest c) s)"
  for script names rest
proof unfold_locales
  fix s c
  assume "ev_wf s"
  from script.trigger_returns [OF this, of script "names c" "rest c"]
  show "\<exists>s'. map_option fst (ev_trigger (\<lambda>c. run_ops (script c)) (names c) (rest c) s) = Some s' \<and> ev_wf s' \<and> extends s s'"
    by auto
qed

text \<open>
  C8: \<open>on\<close> and \<open>off\<close>: after any program of calls, the linked lists hold for every event what a table
  of lists would: \<open>on\<close> has appended its callback once for every time the event is named, \<open>off\<close> has
  removed exactly the callbacks that its arguments match, in all events if it names none, and the
  loops over the lists ended.
\<close>

theorem events_refine_table:
  "map_option listeners (run_ops ops ev_empty) = Some (fold spec_do ops (\<lambda>_. []))"
  using run_ops_wf [OF ev_empty_wf, of ops] by (auto simp: listeners_empty)

text \<open>
  C4: \<open>trigger\<close>: whatever was bound and unbound before, and whatever the callbacks bind and unbind
  while they run, a trigger returns. A trigger of one event has called the callbacks that were bound to the
  event when it started, in the order in which they were bound, and then those of \<open>all\<close> with the name
  of the event as the first argument; no other callback was called and none was left out. Of a trigger of several
  events, each of which reads its callbacks when its turn comes, nothing more is claimed.
\<close>

theorem trigger_calls_bound:
  "\<exists>s s'. run_ops ops ev_empty = Some s
     \<and> (if event_names names = [ev] then
          ev_trigger (\<lambda>c. run_ops (script c)) names rest s
            = Some (s', calls_of rest (fold spec_do ops (\<lambda>_. []) ev)
                @ calls_of (ev # rest) (fold spec_do ops (\<lambda>_. []) ''all''))
        else \<exists>log. ev_trigger (\<lambda>c. run_ops (script c)) names rest s = Some (s', log))"
proof -
  obtain s where s: "run_ops ops ev_empty = Some s" "ev_wf s" "listeners s = fold spec_do ops (\<lambda>_. [])"
    using run_ops_wf [OF ev_empty_wf, of ops] by (auto simp: listeners_empty)
  with script.trigger_snapshot [OF s(2), of names ev script rest] script.trigger_returns [OF s(2), of script names rest]
  show ?thesis by (cases "event_names names = [ev]") auto
qed

text \<open>A name list that starts with a space binds nothing: the first name is empty, which ends the loop.\<close>

lemma leading_space_binds_nothing:
  "is_space c \<Longrightarrow> listeners (ev_on (c # names) (Some cb) ctx ev_empty) e = []"
  using ev_on_wf [OF ev_empty_wf, of "c # names" "Some cb" ctx]
  by (simp add: listeners_empty event_names_def split_spaces.simps [of "c # names"])

text \<open>Two callbacks, of which the first unbinds the second and binds a third: the second is still called.\<close>

definition event_demo :: "call \<Rightarrow> ev_op list" where
  "event_demo c = (if cl_callback c = 1 then [OpOff (Some ''add'') (Some 2) None, OpOn ''add'' (Some 3) None] else [])"

lemma event_demo_calls:
  "map_option (\<lambda>(s, l). (map cl_callback l, listeners s ''add''))
     (case run_ops [OpOn ''add remove'' (Some 1) None, OpOn ''add'' (Some 2) (Some 7)] ev_empty of None \<Rightarrow> None
      | Some s \<Rightarrow> ev_trigger (\<lambda>c. run_ops (event_demo c)) ''add'' [] s)
   = Some ([1, 2], [(1, None), (3, None)])"
  by code_simp

end
