(* ===== verification/Backbone_Collection.thy ===== *)
theory Backbone_Collection
  imports Js_Prelude "HOL-Library.Multiset"
begin

text \<open>
  \<open>Backbone.Collection\<close> of \<open>backbone.js\<close>: the list of models, the indexes by id and by client id, and
  the listener on each model's events. A model is its client id, a number; the ids that models have
  are kept beside, as the keys they are used as. The theory shows that the indexes, the length and the
  listeners follow the list through \<open>add\<close>, \<open>remove\<close>, \<open>reset\<close>, \<open>sort\<close>, changes of ids and deletions, and
  what \<open>add\<close> does with duplicates. The order of a collection with a comparator is an argument, which
  permutes the list.
\<close>

section \<open>The state\<close>

datatype coll_event = CAdd nat nat | CRemove nat nat | CReset | CDestroy nat | CChangeId nat

text \<open>
  \<open>co_owned\<close>: the models whose \<open>collection\<close> is this one; \<open>co_foreign\<close>: those that belong to another.
  \<open>co_bound\<close> holds a model once for every time that its events are listened to.
\<close>

record coll =
  co_models :: "nat list"
  co_length :: int
  co_byId :: "(string \<times> nat) list"
  co_byCid :: "nat list"
  co_ids :: "nat \<Rightarrow> string option"
  co_next :: nat
  co_owned :: "nat list"
  co_foreign :: "nat list"
  co_bound :: "nat list"
  co_log :: "coll_event list"

text \<open>What can be added: a model, or attributes with an id, of which a model is made that is valid or not.\<close>

datatype item = Inst nat | Raw "string option" bool

text \<open>An id that a model does not have is the key \<open>undefined\<close>.\<close>

definition key_of :: "string option \<Rightarrow> string" where
  "key_of i = (case i of Some k \<Rightarrow> k | None \<Rightarrow> ''undefined'')"

definition reset_state :: "coll \<Rightarrow> coll" where
  "reset_state s = s\<lparr>co_length := 0, co_models := [], co_byId := [], co_byCid := []\<rparr>"

fun prepareModel :: "bool \<Rightarrow> item \<Rightarrow> coll \<Rightarrow> nat option \<times> coll" where
  "prepareModel silent (Inst c) s =
     (Some c, if c \<in> set (co_owned s) \<or> c \<in> set (co_foreign s) then s else s\<lparr>co_owned := c # co_owned s\<rparr>)"
| "prepareModel silent (Raw i valid) s =
     (let c = co_next s in
      (if silent \<or> valid then Some c else None,
       s\<lparr>co_ids := (co_ids s)(c := i), co_next := c + 1, co_owned := c # co_owned s\<rparr>))"

section \<open>\<open>add\<close>\<close>

definition is_dup :: "nat list \<Rightarrow> string list \<Rightarrow> nat \<Rightarrow> coll \<Rightarrow> bool" where
  "is_dup cids ids c s \<longleftrightarrow> c \<in> set cids \<or> c \<in> set (co_byCid s)
     \<or> (case co_ids s c of None \<Rightarrow> False | Some k \<Rightarrow> k \<in> set ids \<or> map_of (co_byId s) k \<noteq> None)"

text \<open>The first loop: the models made, the client ids and ids seen, the places of the duplicates.\<close>

record scan =
  sc_models :: "nat list"
  sc_cids :: "nat list"
  sc_ids :: "string list"
  sc_dups :: "nat list"

fun add_scan :: "bool \<Rightarrow> item list \<Rightarrow> scan \<Rightarrow> coll \<Rightarrow> coll + (scan \<times> coll)" where
  "add_scan silent [] sc s = Inr (sc, s)"
| "add_scan silent (it # its) sc s =
     (case prepareModel silent it s of
        (None, s') \<Rightarrow> Inl s'
      | (Some c, s') \<Rightarrow>
          if is_dup (sc_cids sc) (sc_ids sc) c s'
          then add_scan silent its (sc\<lparr>sc_models := sc_models sc @ [c], sc_dups := sc_dups sc @ [length (sc_models sc)]\<rparr>) s'
          else add_scan silent its (sc\<lparr>sc_models := sc_models sc @ [c], sc_cids := sc_cids sc @ [c],
                 sc_ids := sc_ids sc @ [key_of (co_ids s' c)]\<rparr>) s')"

definition splice_out :: "nat \<Rightarrow> 'a list \<Rightarrow> 'a list" where
  "splice_out i xs = take i xs @ drop (Suc i) xs"

definition remove_dups :: "nat list \<Rightarrow> 'a list \<Rightarrow> 'a list" where
  "remove_dups dups xs = fold splice_out (rev dups) xs"

definition index_model :: "nat \<Rightarrow> coll \<Rightarrow> coll" where
  "index_model c s = s\<lparr>co_bound := c # co_bound s, co_byCid := c # co_byCid s,
     co_byId := (case co_ids s c of Some k \<Rightarrow> obj_set k c (co_byId s) | None \<Rightarrow> co_byId s)\<rparr>"

definition add_events :: "nat list \<Rightarrow> nat list \<Rightarrow> coll_event list" where
  "add_events cids models = map (\<lambda>(i, c). CAdd c i) (filter (\<lambda>(i, c). c \<in> set cids) (enumerate 0 models))"

text \<open>Where the new models go, and the order of a comparator.\<close>

definition placed :: "(nat list \<Rightarrow> nat list) option \<Rightarrow> nat option \<Rightarrow> nat list \<Rightarrow> nat list \<Rightarrow> nat list" where
  "placed srt pos new old = (let index = (case pos of Some p \<Rightarrow> p | None \<Rightarrow> length old);
      xs = take index old @ new @ drop index old in case srt of Some f \<Rightarrow> f xs | None \<Rightarrow> xs)"

text \<open>\<open>Inl\<close> is the state in which \<open>add\<close> raises its error.\<close>

definition coll_add :: "(nat list \<Rightarrow> nat list) option \<Rightarrow> bool \<Rightarrow> nat option \<Rightarrow> item list \<Rightarrow> coll \<Rightarrow> coll + coll" where
  "coll_add srt silent pos items s =
     (case add_scan silent items \<lparr>sc_models = [], sc_cids = [], sc_ids = [], sc_dups = []\<rparr> s of
        Inl s' \<Rightarrow> Inl s'
      | Inr (sc, s1) \<Rightarrow>
          let models = remove_dups (sc_dups sc) (sc_models sc);
              s2 = fold index_model models s1;
              models' = placed srt pos models (co_models s2)
          in Inr (s2\<lparr>co_length := co_length s2 + int (length models), co_models := models',
                co_log := (if silent then co_log s2 else co_log s2 @ add_events (sc_cids sc) models')\<rparr>))"

section \<open>Looking up\<close>

definition cid_text :: "nat \<Rightarrow> string" where
  "cid_text c = ''c'' @ nat_digits c"

text \<open>The argument of \<open>get\<close> and \<open>remove\<close>: a model or a string.\<close>

datatype handle = HModel nat | HKey string

fun coll_getByCid :: "coll \<Rightarrow> handle \<Rightarrow> nat option" where
  "coll_getByCid s (HModel c) = (if c \<in> set (co_byCid s) then Some c else None)"
| "coll_getByCid s (HKey k) = (if k = '''' then None else find (\<lambda>c. cid_text c = k) (co_byCid s))"

fun coll_get :: "coll \<Rightarrow> handle \<Rightarrow> nat option" where
  "coll_get s (HModel c) = (case co_ids s c of Some k \<Rightarrow> map_of (co_byId s) k | None \<Rightarrow> map_of (co_byId s) ''[object Object]'')"
| "coll_get s (HKey k) = map_of (co_byId s) k"

definition coll_at :: "coll \<Rightarrow> nat \<Rightarrow> nat option" where
  "coll_at s i = nth_opt (co_models s) i"

section \<open>\<open>remove\<close>, \<open>reset\<close> and the events of models\<close>

definition removeReference :: "nat \<Rightarrow> coll \<Rightarrow> coll" where
  "removeReference c s = s\<lparr>co_owned := removeAll c (co_owned s), co_bound := removeAll c (co_bound s)\<rparr>"

fun index_of :: "nat \<Rightarrow> nat list \<Rightarrow> int" where
  "index_of c [] = -1"
| "index_of c (x # xs) = (if x = c then 0 else (let i = index_of c xs in if i < 0 then -1 else i + 1))"

text \<open>\<open>splice(index, 1)\<close>: \<open>-1\<close> takes the last.\<close>

definition splice_index :: "int \<Rightarrow> nat list \<Rightarrow> nat list" where
  "splice_index i xs = (if i < 0 then butlast xs else splice_out (nat i) xs)"

definition remove_one :: "bool \<Rightarrow> handle \<Rightarrow> coll \<Rightarrow> coll" where
  "remove_one silent h s =
     (case (case coll_getByCid s h of Some c \<Rightarrow> Some c | None \<Rightarrow> coll_get s h) of
        None \<Rightarrow> s
      | Some c \<Rightarrow>
          let index = index_of c (co_models s) in
          removeReference c (s\<lparr>co_byId := obj_delete (key_of (co_ids s c)) (co_byId s),
            co_byCid := removeAll c (co_byCid s), co_models := splice_index index (co_models s),
            co_length := co_length s - 1,
            co_log := (if silent then co_log s else co_log s @ [CRemove c (nat index)])\<rparr>))"

definition coll_remove :: "bool \<Rightarrow> handle list \<Rightarrow> coll \<Rightarrow> coll" where
  "coll_remove silent hs s = fold (remove_one silent) hs s"

text \<open>
  \<open>push\<close> and \<open>unshift\<close> pass on the \<open>false\<close> that stands for attributes that are not valid: a model without
  attributes is made of it, and \<open>bare\<close> says whether such a model is valid.
\<close>

definition coll_push :: "(nat list \<Rightarrow> nat list) option \<Rightarrow> bool \<Rightarrow> bool \<Rightarrow> item \<Rightarrow> coll \<Rightarrow> coll + coll" where
  "coll_push srt silent bare it s = (case prepareModel silent it s of
     (None, s') \<Rightarrow> coll_add srt silent None [Raw None bare] s' | (Some c, s') \<Rightarrow> coll_add srt silent None [Inst c] s')"

definition coll_unshift :: "(nat list \<Rightarrow> nat list) option \<Rightarrow> bool \<Rightarrow> bool \<Rightarrow> item \<Rightarrow> coll \<Rightarrow> coll + coll" where
  "coll_unshift srt silent bare it s = (case prepareModel silent it s of
     (None, s') \<Rightarrow> coll_add srt silent (Some 0) [Raw None bare] s' | (Some c, s') \<Rightarrow> coll_add srt silent (Some 0) [Inst c] s')"

definition coll_pop :: "bool \<Rightarrow> coll \<Rightarrow> nat option \<times> coll" where
  "coll_pop silent s = (let c = (if co_length s = 0 then None else coll_at s (nat (co_length s - 1)))
     in (c, case c of Some c \<Rightarrow> remove_one silent (HModel c) s | None \<Rightarrow> s))"

definition coll_shift :: "bool \<Rightarrow> coll \<Rightarrow> nat option \<times> coll" where
  "coll_shift silent s = (let c = coll_at s 0 in (c, case c of Some c \<Rightarrow> remove_one silent (HModel c) s | None \<Rightarrow> s))"

definition coll_reset :: "(nat list \<Rightarrow> nat list) option \<Rightarrow> bool \<Rightarrow> item list \<Rightarrow> coll \<Rightarrow> coll + coll" where
  "coll_reset srt silent items s =
     (let s1 = reset_state (fold removeReference (co_models s) s)
      in case coll_add srt True None items s1 of
           Inl s2 \<Rightarrow> Inl s2
         | Inr s2 \<Rightarrow> Inr (if silent then s2 else s2\<lparr>co_log := co_log s2 @ [CReset]\<rparr>))"

text \<open>Sorting without a comparator raises an error.\<close>

definition coll_sort :: "(nat list \<Rightarrow> nat list) option \<Rightarrow> bool \<Rightarrow> coll \<Rightarrow> coll + coll" where
  "coll_sort srt silent s = (case srt of None \<Rightarrow> Inl s
     | Some f \<Rightarrow> Inr (s\<lparr>co_models := f (co_models s), co_log := (if silent then co_log s else co_log s @ [CReset])\<rparr>))"

text \<open>
  The listener, for the events of models that concern the indexes; the collection fires the event again.
  The id of the model has changed already when \<open>change:id\<close> is fired.
\<close>

definition on_destroy :: "nat \<Rightarrow> coll \<Rightarrow> coll" where
  "on_destroy c s = (if c \<in> set (co_bound s)
     then (let s' = remove_one False (HModel c) s in s'\<lparr>co_log := co_log s' @ [CDestroy c]\<rparr>) else s)"

definition on_change_id :: "nat \<Rightarrow> string option \<Rightarrow> coll \<Rightarrow> coll" where
  "on_change_id c new s =
     (let old = co_ids s c; s' = s\<lparr>co_ids := (co_ids s)(c := new)\<rparr>
      in if c \<in> set (co_bound s)
         then s'\<lparr>co_byId := obj_set (key_of new) c (obj_delete (key_of old) (co_byId s')), co_log := co_log s' @ [CChangeId c]\<rparr>
         else s')"


section \<open>Removing the duplicates\<close>

lemma splice_out_append: "i < length xs \<Longrightarrow> splice_out i (xs @ ys) = splice_out i xs @ ys"
  by (simp add: splice_out_def)

lemma length_splice_out: "i < length xs \<Longrightarrow> length (splice_out i xs) = length xs - 1"
  by (simp add: splice_out_def)

lemma remove_dups_append:
  "sorted_wrt (<) ds \<Longrightarrow> \<forall>d\<in>set ds. d < length xs \<Longrightarrow> remove_dups ds (xs @ ys) = remove_dups ds xs @ ys"
proof (induction ds arbitrary: xs rule: rev_induct)
  case Nil
  show ?case by (simp add: remove_dups_def)
next
  case (snoc d ds)
  have l: "d < length xs" "\<forall>e\<in>set ds. e < length (splice_out d xs)" using snoc.prems
    by (auto simp: sorted_wrt_append length_splice_out)
  from snoc.prems have "sorted_wrt (<) ds" by (simp add: sorted_wrt_append)
  from snoc.IH [OF this l(2)] show ?case by (simp add: remove_dups_def splice_out_append l(1))
qed

lemma remove_dups_new:
  assumes "sorted_wrt (<) ds" "\<forall>d\<in>set ds. d < length xs"
  shows "remove_dups (ds @ [length xs]) (xs @ [x]) = remove_dups ds xs"
  by (simp add: remove_dups_def splice_out_def)

section \<open>The invariant\<close>

definition ids_ok :: "coll \<Rightarrow> bool" where
  "ids_ok s \<longleftrightarrow> (\<forall>k c. map_of (co_byId s) k = Some c \<longleftrightarrow> c \<in> set (co_models s) \<and> co_ids s c = Some k)"

definition coll_inv :: "coll \<Rightarrow> bool" where
  "coll_inv s \<longleftrightarrow> distinct (co_models s) \<and> co_length s = int (length (co_models s))
     \<and> set (co_byCid s) = set (co_models s) \<and> distinct (co_bound s) \<and> set (co_bound s) = set (co_models s)
     \<and> ids_ok s \<and> (\<forall>c. co_ids s c \<noteq> Some ''undefined'') \<and> (\<forall>c\<in>set (co_models s). c < co_next s)"

definition item_ok :: "coll \<Rightarrow> item \<Rightarrow> bool" where
  "item_ok s it = (case it of Inst c \<Rightarrow> c < co_next s | Raw i _ \<Rightarrow> i \<noteq> Some ''undefined'')"

lemma prepare_fields [simp]:
  "co_models (snd (prepareModel b it s)) = co_models s" "co_length (snd (prepareModel b it s)) = co_length s"
  "co_byId (snd (prepareModel b it s)) = co_byId s" "co_byCid (snd (prepareModel b it s)) = co_byCid s"
  "co_bound (snd (prepareModel b it s)) = co_bound s" "co_log (snd (prepareModel b it s)) = co_log s"
  by (cases it; simp add: Let_def)+

lemma prepare_next: "co_next s \<le> co_next (snd (prepareModel b it s))"
  by (cases it) (simp_all add: Let_def)

lemma prepare_ids: "c < co_next s \<Longrightarrow> co_ids (snd (prepareModel b it s)) c = co_ids s c"
  by (cases it) (simp_all add: Let_def)

lemma prepare_cid: "item_ok s it \<Longrightarrow> prepareModel b it s = (Some c, s') \<Longrightarrow> c < co_next s'"
  by (cases it) (auto simp: item_ok_def Let_def split: if_splits)

lemma prepare_inv:
  assumes "coll_inv s" "item_ok s it"
  shows "coll_inv (snd (prepareModel b it s))"
proof -
  have "co_ids (snd (prepareModel b it s)) c \<noteq> Some ''undefined''" for c
    using assms by (cases it) (auto simp: coll_inv_def item_ok_def Let_def)
  moreover have "ids_ok (snd (prepareModel b it s))"
    using assms prepare_ids [of _ s b it] unfolding coll_inv_def ids_ok_def prepare_fields by metis
  ultimately show ?thesis
    using assms prepare_next [of s b it] unfolding coll_inv_def prepare_fields by (meson order_less_le_trans)
qed

definition ids_differ :: "(nat \<Rightarrow> string option) \<Rightarrow> nat list \<Rightarrow> bool" where
  "ids_differ ids cs \<longleftrightarrow> (\<forall>c\<in>set cs. \<forall>d\<in>set cs. \<forall>k. ids c = Some k \<longrightarrow> ids d = Some k \<longrightarrow> c = d)"

text \<open>What the first loop of \<open>add\<close> has found.\<close>

definition scan_ok :: "scan \<Rightarrow> coll \<Rightarrow> bool" where
  "scan_ok sc s \<longleftrightarrow> distinct (sc_cids sc) \<and> set (sc_cids sc) \<inter> set (co_byCid s) = {}
     \<and> (\<forall>c\<in>set (sc_cids sc). c < co_next s \<and> (\<forall>k. co_ids s c = Some k \<longrightarrow> k \<in> set (sc_ids sc) \<and> map_of (co_byId s) k = None))
     \<and> ids_differ (co_ids s) (sc_cids sc)
     \<and> sorted_wrt (<) (sc_dups sc) \<and> (\<forall>d\<in>set (sc_dups sc). d < length (sc_models sc))
     \<and> remove_dups (sc_dups sc) (sc_models sc) = sc_cids sc"

lemma scan_ok_prepare:
  assumes "scan_ok sc s"
  shows "scan_ok sc (snd (prepareModel b it s))"
proof -
  have "\<forall>c\<in>set (sc_cids sc). c < co_next s" using assms by (simp add: scan_ok_def)
  then have "\<forall>c\<in>set (sc_cids sc). co_ids (snd (prepareModel b it s)) c = co_ids s c \<and> c < co_next (snd (prepareModel b it s))"
    using prepare_ids [of _ s b it] prepare_next [of s b it] by fastforce
  with assms show ?thesis unfolding scan_ok_def prepare_fields ids_differ_def by metis
qed

lemma item_ok_prepare: "item_ok s it' \<Longrightarrow> item_ok (snd (prepareModel b it s)) it'"
  using prepare_next [of s b it] by (auto simp: item_ok_def split: item.splits)

lemma add_scan_ok:
  assumes "coll_inv s" "scan_ok sc s" "list_all (item_ok s) items"
  shows "case add_scan silent items sc s of
      Inl s' \<Rightarrow> coll_inv s'
    | Inr (sc', s') \<Rightarrow> coll_inv s' \<and> scan_ok sc' s' \<and> co_models s' = co_models s \<and> co_bound s' = co_bound s \<and> co_log s' = co_log s"
  using assms
proof (induction items arbitrary: sc s)
  case (Cons it items)
  define s1 where "s1 = snd (prepareModel silent it s)"
  have ok: "item_ok s it" "list_all (item_ok s1) items" using Cons.prems(3) item_ok_prepare
    by (auto simp: s1_def list_all_iff)
  have i: "coll_inv s1" using prepare_inv [OF Cons.prems(1) ok(1)] by (simp add: s1_def)
  have k: "scan_ok sc s1" using scan_ok_prepare [OF Cons.prems(2)] by (simp add: s1_def)
  have f: "co_models s1 = co_models s" "co_bound s1 = co_bound s" "co_log s1 = co_log s" by (simp_all add: s1_def)
  show ?case
  proof (cases "fst (prepareModel silent it s)")
    case None
    then have "prepareModel silent it s = (None, s1)" by (simp add: s1_def prod_eq_iff)
    with i show ?thesis by simp
  next
    case (Some c)
    then have p: "prepareModel silent it s = (Some c, s1)" by (simp add: s1_def prod_eq_iff)
    have c: "c < co_next s1" using prepare_cid [OF ok(1) p] .
    show ?thesis
    proof (cases "is_dup (sc_cids sc) (sc_ids sc) c s1")
      case True
      let ?sc = "sc\<lparr>sc_models := sc_models sc @ [c], sc_dups := sc_dups sc @ [length (sc_models sc)]\<rparr>"
      have "scan_ok ?sc s1"
        using k remove_dups_new [of "sc_dups sc" "sc_models sc" c] by (auto simp: scan_ok_def sorted_wrt_append less_SucI)
      from Cons.IH [OF i this ok(2)] show ?thesis unfolding f by (simp add: p True)
    next
      case False
      let ?sc = "sc\<lparr>sc_models := sc_models sc @ [c], sc_cids := sc_cids sc @ [c], sc_ids := sc_ids sc @ [key_of (co_ids s1 c)]\<rparr>"
      have n: "c \<notin> set (sc_cids sc)" "c \<notin> set (co_byCid s1)"
        "\<And>k. co_ids s1 c = Some k \<Longrightarrow> k \<notin> set (sc_ids sc) \<and> map_of (co_byId s1) k = None"
        using False by (auto simp: is_dup_def)
      have "remove_dups (sc_dups sc) (sc_models sc @ [c]) = sc_cids sc @ [c]"
        using k remove_dups_append [of "sc_dups sc" "sc_models sc" "[c]"] by (simp add: scan_ok_def)
      moreover have "ids_differ (co_ids s1) (sc_cids sc @ [c])"
        using k n(3) unfolding scan_ok_def ids_differ_def by auto
      ultimately have "scan_ok ?sc s1"
        using k n c unfolding scan_ok_def by (auto simp: less_SucI key_of_def)
      from Cons.IH [OF i this ok(2)] show ?thesis unfolding f by (simp add: p False)
    qed
  qed
qed simp


section \<open>Indexing the new models\<close>

definition indexed :: "nat list \<Rightarrow> coll \<Rightarrow> coll \<Rightarrow> bool" where
  "indexed cs s s' \<longleftrightarrow> co_models s' = co_models s \<and> co_length s' = co_length s \<and> co_ids s' = co_ids s \<and> co_next s' = co_next s
     \<and> co_log s' = co_log s \<and> set (co_byCid s') = set cs \<union> set (co_byCid s) \<and> co_bound s' = rev cs @ co_bound s
     \<and> (\<forall>k c. map_of (co_byId s') k = Some c \<longleftrightarrow> (c \<in> set cs \<and> co_ids s c = Some k) \<or>
          (map_of (co_byId s) k = Some c \<and> (\<forall>d\<in>set cs. co_ids s d \<noteq> Some k)))"

lemma fold_index_model:
  assumes "ids_differ (co_ids s) cs"
  shows "indexed cs s (fold index_model cs s)"
  using assms
proof (induction cs rule: rev_induct)
  case Nil
  show ?case by (simp add: indexed_def)
next
  case (snoc c cs)
  then have i: "indexed cs s (fold index_model cs s)" by (simp add: ids_differ_def)
  define s1 where "s1 = fold index_model cs s"
  have ids: "co_ids s1 = co_ids s" using i by (simp add: indexed_def s1_def)
  have "map_of (co_byId (index_model c s1)) k = Some d \<longleftrightarrow> (d \<in> set (cs @ [c]) \<and> co_ids s d = Some k) \<or>
          (map_of (co_byId s) k = Some d \<and> (\<forall>d\<in>set (cs @ [c]). co_ids s d \<noteq> Some k))" for k d
  proof (cases "co_ids s c")
    case None
    with i show ?thesis by (auto simp: indexed_def index_model_def ids s1_def [symmetric])
  next
    case (Some k')
    have "map_of (co_byId s1) k = Some d \<longleftrightarrow> (d \<in> set cs \<and> co_ids s d = Some k) \<or>
          (map_of (co_byId s) k = Some d \<and> (\<forall>d\<in>set cs. co_ids s d \<noteq> Some k))"
      using i by (simp add: indexed_def s1_def)
    moreover have "co_ids s d = Some k' \<Longrightarrow> d \<in> set cs \<Longrightarrow> d = c" using snoc.prems Some by (simp add: ids_differ_def)
    ultimately show ?thesis using Some by (auto simp: index_model_def ids)
  qed
  moreover have "co_models (index_model c s1) = co_models s" "co_length (index_model c s1) = co_length s"
    "co_ids (index_model c s1) = co_ids s" "co_next (index_model c s1) = co_next s" "co_log (index_model c s1) = co_log s"
    "set (co_byCid (index_model c s1)) = set (cs @ [c]) \<union> set (co_byCid s)" "co_bound (index_model c s1) = rev (cs @ [c]) @ co_bound s"
    using i by (auto simp: indexed_def index_model_def s1_def)
  ultimately show ?case unfolding indexed_def by (simp add: s1_def)
qed

text \<open>A comparator only permutes.\<close>

definition permutes :: "(nat list \<Rightarrow> nat list) option \<Rightarrow> bool" where
  "permutes srt \<longleftrightarrow> (\<forall>f xs. srt = Some f \<longrightarrow> mset (f xs) = mset xs)"

lemma placed_mset: "permutes srt \<Longrightarrow> mset (placed srt pos new old) = mset new + mset old"
proof -
  assume "permutes srt"
  then have "mset (placed srt pos new old) = mset (take i old @ new @ drop i old)"
    if "i = (case pos of Some p \<Rightarrow> p | None \<Rightarrow> length old)" for i
    using that by (auto simp: placed_def permutes_def Let_def split: option.splits)
  moreover have "mset (take i old @ new @ drop i old) = mset new + mset old" for i
  proof -
    have "mset old = mset (take i old) + mset (drop i old)" by (metis append_take_drop_id mset_append)
    then show ?thesis by (simp add: ac_simps)
  qed
  ultimately show ?thesis by simp
qed

lemma placed_facts:
  assumes "permutes srt"
  shows "set (placed srt pos new old) = set new \<union> set old" "length (placed srt pos new old) = length new + length old"
    "distinct (placed srt pos new old) \<longleftrightarrow> distinct (new @ old)"
proof -
  note m = placed_mset [OF assms, of pos new old]
  then have m': "mset (placed srt pos new old) = mset (new @ old)" by simp
  from mset_eq_setD [OF m'] show "set (placed srt pos new old) = set new \<union> set old" by simp
  from mset_eq_length [OF m'] show "length (placed srt pos new old) = length new + length old" by simp
  from mset_eq_imp_distinct_iff [OF m'] show "distinct (placed srt pos new old) \<longleftrightarrow> distinct (new @ old)" .
qed

abbreviation scan0 :: scan where
  "scan0 \<equiv> \<lparr>sc_models = [], sc_cids = [], sc_ids = [], sc_dups = []\<rparr>"

lemma scan0_ok: "scan_ok scan0 s"
  by (simp add: scan_ok_def remove_dups_def ids_differ_def)

lemma add_inv:
  assumes i: "coll_inv s" and "list_all (item_ok s) items" and p: "permutes srt"
  shows "case coll_add srt silent pos items s of Inl s' \<Rightarrow> coll_inv s' | Inr s' \<Rightarrow> coll_inv s'"
proof (cases "add_scan silent items scan0 s")
  case (Inl s')
  with add_scan_ok [OF i scan0_ok assms(2), of silent] show ?thesis by (simp add: coll_add_def)
next
  case (Inr r)
  obtain sc s1 where r: "r = (sc, s1)" by (cases r)
  have s1: "coll_inv s1" "scan_ok sc s1" using add_scan_ok [OF i scan0_ok assms(2), of silent] Inr r by simp_all
  define cs where "cs = sc_cids sc"
  have cs: "distinct cs" "set cs \<inter> set (co_models s1) = {}" "remove_dups (sc_dups sc) (sc_models sc) = cs"
    "\<forall>c\<in>set cs. c < co_next s1" "\<And>c k. c \<in> set cs \<Longrightarrow> co_ids s1 c = Some k \<Longrightarrow> map_of (co_byId s1) k = None"
    "ids_differ (co_ids s1) cs"
    using s1 by (simp_all add: scan_ok_def cs_def coll_inv_def)
  define s2 where "s2 = fold index_model cs s1"
  have x: "indexed cs s1 s2" unfolding s2_def by (rule fold_index_model [OF cs(6)])
  have "coll_inv (s2\<lparr>co_length := co_length s2 + int (length cs), co_models := placed srt pos cs (co_models s2), co_log := l\<rparr>)" for l
  proof -
    have "ids_ok (s2\<lparr>co_length := co_length s2 + int (length cs), co_models := placed srt pos cs (co_models s2), co_log := l\<rparr>)"
      unfolding ids_ok_def
    proof (intro allI)
      fix k c
      have "map_of (co_byId s1) k = Some c \<longleftrightarrow> c \<in> set (co_models s1) \<and> co_ids s1 c = Some k"
        using s1(1) by (simp add: coll_inv_def ids_ok_def)
      then show "(map_of (co_byId (s2\<lparr>co_length := co_length s2 + int (length cs), co_models := placed srt pos cs (co_models s2), co_log := l\<rparr>)) k = Some c)
         = (c \<in> set (co_models (s2\<lparr>co_length := co_length s2 + int (length cs), co_models := placed srt pos cs (co_models s2), co_log := l\<rparr>))
           \<and> co_ids (s2\<lparr>co_length := co_length s2 + int (length cs), co_models := placed srt pos cs (co_models s2), co_log := l\<rparr>) c = Some k)"
        using x cs(5) by (auto simp: indexed_def placed_facts [OF p])
    qed
    then show ?thesis
      using s1(1) x cs by (auto simp: coll_inv_def indexed_def placed_facts [OF p])
  qed
  then show ?thesis
    unfolding coll_add_def Inr r using cs(3) by (simp add: Let_def s2_def)
qed

section \<open>Removing, resetting, changing ids\<close>

lemma index_of_member: "c \<in> set xs \<Longrightarrow> 0 \<le> index_of c xs \<and> splice_index (index_of c xs) xs = remove1 c xs \<and> nth_opt xs (nat (index_of c xs)) = Some c"
proof (induction xs)
  case (Cons x xs)
  show ?case
  proof (cases "x = c")
    case True
    then show ?thesis by (simp add: splice_index_def splice_out_def)
  next
    case False
    with Cons have i: "0 \<le> index_of c xs" "splice_index (index_of c xs) xs = remove1 c xs" "nth_opt xs (nat (index_of c xs)) = Some c" by simp_all
    then have "nat (index_of c xs + 1) = Suc (nat (index_of c xs))" by simp
    with i False show ?thesis by (simp add: splice_index_def splice_out_def nth_opt_def Let_def split: if_splits)
  qed
qed simp

lemma find_member: "find P xs = Some c \<Longrightarrow> c \<in> set xs"
  by (induction xs) (auto split: if_splits)

lemma getByCid_member: "coll_getByCid s h = Some c \<Longrightarrow> c \<in> set (co_byCid s)"
  by (cases h) (auto split: if_splits dest: find_member)

lemma get_member: "coll_inv s \<Longrightarrow> coll_get s h = Some c \<Longrightarrow> c \<in> set (co_models s)"
  by (cases h) (auto simp: coll_inv_def ids_ok_def split: option.splits)

lemma handle_member:
  assumes "coll_inv s" "(case coll_getByCid s h of Some c \<Rightarrow> Some c | None \<Rightarrow> coll_get s h) = Some c"
  shows "c \<in> set (co_models s)"
proof (cases "coll_getByCid s h")
  case None
  with assms get_member show ?thesis by simp
next
  case (Some d)
  with assms getByCid_member [OF Some] show ?thesis by (simp add: coll_inv_def)
qed

lemma ids_ok_remove:
  assumes "coll_inv s" and that: "c \<in> set (co_models s)"
  shows "map_of (obj_delete (key_of (co_ids s c)) (co_byId s)) k = Some d \<longleftrightarrow> d \<in> set (co_models s) - {c} \<and> co_ids s d = Some k"
proof -
  have i: "map_of (co_byId s) k = Some d \<longleftrightarrow> d \<in> set (co_models s) \<and> co_ids s d = Some k" for k d
    using assms by (simp add: coll_inv_def ids_ok_def)
  have u: "map_of (co_byId s) ''undefined'' = None" using i assms by (cases "map_of (co_byId s) ''undefined''") (auto simp: coll_inv_def)
  show ?thesis
  proof (cases "co_ids s c")
    case None
    with i u assms(1) show ?thesis by (auto simp: key_of_def coll_inv_def)
  next
    case (Some k')
    with i that show ?thesis by (auto simp: key_of_def) (metis option.inject)
  qed
qed

lemma remove_one_inv:
  assumes i: "coll_inv s"
  shows "coll_inv (remove_one silent h s)"
proof (cases "case coll_getByCid s h of Some c \<Rightarrow> Some c | None \<Rightarrow> coll_get s h")
  case None
  with i show ?thesis by (simp add: remove_one_def)
next
  case (Some c)
  have c: "c \<in> set (co_models s)" using handle_member [OF i Some] .
  have m: "splice_index (index_of c (co_models s)) (co_models s) = remove1 c (co_models s)" using index_of_member [OF c] by simp
  have d: "distinct (co_models s)" using i by (simp add: coll_inv_def)
  have "ids_ok (remove_one silent h s)"
    unfolding ids_ok_def remove_one_def Some option.case Let_def removeReference_def
    using ids_ok_remove [OF i c] by (simp add: m set_remove1_eq [OF d])
  moreover have "int (length (co_models s) - Suc 0) = int (length (co_models s)) - 1" using c by (cases "co_models s") auto
  ultimately show ?thesis
    unfolding coll_inv_def using i c d
    by (auto simp: remove_one_def Some Let_def removeReference_def m coll_inv_def length_remove1 of_nat_diff
        length_pos_if_in_set Suc_leI distinct_removeAll)
qed

lemma fold_remove_inv: "coll_inv s \<Longrightarrow> coll_inv (fold (remove_one silent) hs s)"
  by (induction hs arbitrary: s) (auto intro: remove_one_inv)

lemma fold_removeReference:
  "co_bound (fold removeReference cs s) = filter (\<lambda>c. c \<notin> set cs) (co_bound s)
   \<and> co_next (fold removeReference cs s) = co_next s \<and> co_ids (fold removeReference cs s) = co_ids s"
  by (induction cs arbitrary: s) (auto simp: removeReference_def removeAll_filter_not_eq intro: filter_cong)

lemma reset_state_inv:
  assumes "coll_inv s"
  shows "coll_inv (reset_state (fold removeReference (co_models s) s))"
    "co_next (reset_state (fold removeReference (co_models s) s)) = co_next s"
proof -
  have "co_bound (fold removeReference (co_models s) s) = []"
    using fold_removeReference [of "co_models s" s] assms by (simp add: coll_inv_def filter_empty_conv)
  with fold_removeReference [of "co_models s" s] assms
  show "coll_inv (reset_state (fold removeReference (co_models s) s))"
    "co_next (reset_state (fold removeReference (co_models s) s)) = co_next s"
    by (simp_all add: coll_inv_def reset_state_def ids_ok_def)
qed

lemma coll_inv_log [simp]: "coll_inv (s\<lparr>co_log := l\<rparr>) = coll_inv s"
  by (simp add: coll_inv_def ids_ok_def)

lemma reset_inv:
  assumes i: "coll_inv s" and "list_all (item_ok s) items" and p: "permutes srt"
  shows "case coll_reset srt silent items s of Inl s' \<Rightarrow> coll_inv s' | Inr s' \<Rightarrow> coll_inv s'"
proof -
  let ?s = "reset_state (fold removeReference (co_models s) s)"
  have "list_all (item_ok ?s) items"
    using assms(2) reset_state_inv(2) [OF i] by (auto simp: list_all_iff item_ok_def split: item.splits)
  from add_inv [OF reset_state_inv(1) [OF i] this p, of True None] show ?thesis
    by (auto simp: coll_reset_def Let_def split: sum.splits)
qed

lemma sort_inv: "coll_inv s \<Longrightarrow> permutes srt \<Longrightarrow> case coll_sort srt silent s of Inl s' \<Rightarrow> coll_inv s' | Inr s' \<Rightarrow> coll_inv s'"
proof (cases srt)
  case (Some f)
  assume i: "coll_inv s" and "permutes srt"
  then have "mset (f (co_models s)) = mset (co_models s)" by (simp add: permutes_def Some)
  from mset_eq_setD [OF this] mset_eq_length [OF this] mset_eq_imp_distinct_iff [OF this] i show ?thesis
    by (simp add: coll_sort_def Some coll_inv_def ids_ok_def)
qed (simp add: coll_sort_def)

lemma change_id_inv:
  assumes i: "coll_inv s" and n: "new \<noteq> Some ''undefined''"
    and m: "c \<in> set (co_models s) \<Longrightarrow> new \<noteq> None \<and> (\<forall>d\<in>set (co_models s). d \<noteq> c \<longrightarrow> co_ids s d \<noteq> new)"
  shows "coll_inv (on_change_id c new s)"
proof (cases "c \<in> set (co_models s)")
  case False
  then have b: "c \<notin> set (co_bound s)" using i by (simp add: coll_inv_def)
  have "ids_ok (s\<lparr>co_ids := (co_ids s)(c := new)\<rparr>)" using i False by (auto simp: coll_inv_def ids_ok_def)
  with i n b show ?thesis by (auto simp: on_change_id_def coll_inv_def Let_def)
next
  case True
  then have b: "c \<in> set (co_bound s)" using i by (simp add: coll_inv_def)
  obtain k' where k': "new = Some k'" using m [OF True] by auto
  have "ids_ok (on_change_id c new s)"
    unfolding ids_ok_def
  proof (intro allI)
    fix k d
    show "(map_of (co_byId (on_change_id c new s)) k = Some d)
        = (d \<in> set (co_models (on_change_id c new s)) \<and> co_ids (on_change_id c new s) d = Some k)"
      using ids_ok_remove [OF i True, of k d] m [OF True] True b by (auto simp: on_change_id_def Let_def k' key_of_def)
  qed
  with i n b show ?thesis by (auto simp: on_change_id_def coll_inv_def Let_def)
qed

section \<open>Runs of a collection\<close>

text \<open>A model made elsewhere, which may belong to another collection.\<close>

definition new_model :: "string option \<Rightarrow> bool \<Rightarrow> coll \<Rightarrow> coll" where
  "new_model i foreign s = s\<lparr>co_ids := (co_ids s)(co_next s := i), co_next := co_next s + 1,
     co_foreign := (if foreign then co_next s # co_foreign s else co_foreign s)\<rparr>"

datatype coll_op = CoNew "string option" bool | CoAdd bool "nat option" "item list" | CoPush bool bool item
  | CoUnshift bool bool item | CoRemove bool "handle list" | CoPop bool | CoShift bool | CoReset bool "item list"
  | CoSort bool | CoDestroy nat | CoChangeId nat "string option"

text \<open>The state after an error is the one in which it was raised. A comparator gives each model a number.\<close>

fun after :: "coll + coll \<Rightarrow> coll" where
  "after (Inl s) = s"
| "after (Inr s) = s"

fun coll_step :: "(nat \<Rightarrow> int) option \<Rightarrow> coll_op \<Rightarrow> coll \<Rightarrow> coll" where
  "coll_step cmp (CoNew i foreign) s = new_model i foreign s"
| "coll_step cmp (CoAdd silent pos items) s = after (coll_add (map_option sort_key cmp) silent pos items s)"
| "coll_step cmp (CoPush silent bare it) s = after (coll_push (map_option sort_key cmp) silent bare it s)"
| "coll_step cmp (CoUnshift silent bare it) s = after (coll_unshift (map_option sort_key cmp) silent bare it s)"
| "coll_step cmp (CoRemove silent hs) s = coll_remove silent hs s"
| "coll_step cmp (CoPop silent) s = snd (coll_pop silent s)"
| "coll_step cmp (CoShift silent) s = snd (coll_shift silent s)"
| "coll_step cmp (CoReset silent items) s = after (coll_reset (map_option sort_key cmp) silent items s)"
| "coll_step cmp (CoSort silent) s = after (coll_sort (map_option sort_key cmp) silent s)"
| "coll_step cmp (CoDestroy c) s = on_destroy c s"
| "coll_step cmp (CoChangeId c i) s = on_change_id c i s"

text \<open>
  Models exist before they are added, no id is the word \<open>undefined\<close>, and the id of a model in the
  collection changes to one that no other model of it has.
\<close>

fun coll_enabled :: "coll_op \<Rightarrow> coll \<Rightarrow> bool" where
  "coll_enabled (CoNew i foreign) s = (i \<noteq> Some ''undefined'')"
| "coll_enabled (CoAdd silent pos items) s = list_all (item_ok s) items"
| "coll_enabled (CoPush silent bare it) s = item_ok s it"
| "coll_enabled (CoUnshift silent bare it) s = item_ok s it"
| "coll_enabled (CoReset silent items) s = list_all (item_ok s) items"
| "coll_enabled (CoChangeId c i) s = (i \<noteq> Some ''undefined''
     \<and> (c \<in> set (co_models s) \<longrightarrow> i \<noteq> None \<and> list_all (\<lambda>d. d = c \<or> co_ids s d \<noteq> i) (co_models s)))"
| "coll_enabled _ s = True"

definition coll_init :: "coll \<Rightarrow> bool" where
  "coll_init s \<longleftrightarrow> co_models s = [] \<and> co_length s = 0 \<and> co_byId s = [] \<and> co_byCid s = [] \<and> co_bound s = []
     \<and> co_ids s = (\<lambda>_. None)"

lemma permutes_sort: "permutes (map_option sort_key cmp)"
  by (auto simp: permutes_def)

lemma after_inv: "(case r of Inl s \<Rightarrow> coll_inv s | Inr s \<Rightarrow> coll_inv s) \<Longrightarrow> coll_inv (after r)"
  by (cases r) auto

lemma push_inv:
  assumes "coll_inv s" "item_ok s it" "permutes srt"
  shows "coll_inv (after (coll_push srt silent bare it s))" "coll_inv (after (coll_unshift srt silent bare it s))"
proof -
  obtain r s1 where r: "prepareModel silent it s = (r, s1)" by (cases "prepareModel silent it s")
  have i: "coll_inv s1" using prepare_inv [OF assms(1,2), of silent] by (simp add: r)
  have "list_all (item_ok s1) [case r of None \<Rightarrow> Raw None bare | Some c \<Rightarrow> Inst c]"
    using prepare_cid [OF assms(2), of silent] r by (auto simp: item_ok_def split: option.splits)
  note a = after_inv [OF add_inv [OF i this assms(3)]]
  show "coll_inv (after (coll_push srt silent bare it s))" "coll_inv (after (coll_unshift srt silent bare it s))"
    using a [of silent None] a [of silent "Some 0"]
    by (auto simp: coll_push_def coll_unshift_def r split: option.splits)
qed

lemma step_inv: "coll_inv s \<Longrightarrow> coll_enabled op s \<Longrightarrow> coll_inv (coll_step cmp op s)"
proof (cases op)
  case (CoNew i foreign)
  moreover assume "coll_inv s" "coll_enabled op s"
  ultimately show ?thesis
    by (auto simp: coll_inv_def ids_ok_def new_model_def less_SucI)
next
  case (CoPop silent)
  moreover assume "coll_inv s"
  ultimately show ?thesis by (auto simp: coll_pop_def Let_def intro: remove_one_inv split: option.splits)
next
  case (CoShift silent)
  moreover assume "coll_inv s"
  ultimately show ?thesis by (auto simp: coll_shift_def Let_def intro: remove_one_inv split: option.splits)
next
  case (CoDestroy c)
  moreover assume "coll_inv s"
  ultimately show ?thesis using remove_one_inv [of s False "HModel c"] by (simp add: on_destroy_def Let_def)
next
  case (CoChangeId c i)
  moreover assume "coll_inv s" "coll_enabled op s"
  ultimately show ?thesis using change_id_inv [of s i c] by (auto simp: list_all_iff)
qed (simp_all add: after_inv add_inv push_inv fold_remove_inv reset_inv sort_inv permutes_sort coll_remove_def)

interpretation collection: machine coll_init coll_enabled "coll_step cmp" coll_inv for cmp
proof unfold_locales
  fix s assume "coll_init s" then show "coll_inv s" by (simp add: coll_init_def coll_inv_def ids_ok_def)
qed (rule step_inv)


definition coll_empty :: coll where
  "coll_empty = \<lparr>co_models = [], co_length = 0, co_byId = [], co_byCid = [], co_ids = (\<lambda>_. None), co_next = 0,
     co_owned = [], co_foreign = [], co_bound = [], co_log = []\<rparr>"

lemma coll_empty_init: "coll_init coll_empty"
  by (simp add: coll_init_def coll_empty_def)

text \<open>Two models of which the second is a duplicate, a third, whose id changes, and the first is destroyed.\<close>

definition coll_demo_ops :: "coll_op list" where
  "coll_demo_ops = [CoAdd False None [Raw (Some ''7'') True, Raw (Some ''7'') True, Raw (Some ''8'') True], CoChangeId 2 (Some ''9''), CoDestroy 0]"

lemma coll_demo_reachable: "reachable coll_init coll_enabled (coll_step None) (fold (coll_step None) coll_demo_ops coll_empty)"
proof (rule collection.run_reachable)
  show "reachable coll_init coll_enabled (coll_step None) coll_empty" by (rule reach_init, rule coll_empty_init)
  show "all_enabled coll_enabled (coll_step None) coll_demo_ops coll_empty" by code_simp
qed


section \<open>What \<open>add\<close> takes\<close>

text \<open>The models one after the other, each unless it or its id is in the list already.\<close>

fun spec_add :: "(nat \<Rightarrow> string option) \<Rightarrow> nat list \<Rightarrow> nat list \<Rightarrow> nat list" where
  "spec_add ids [] acc = acc"
| "spec_add ids (c # cs) acc = (if c \<in> set acc \<or> (ids c \<noteq> None \<and> ids c \<in> ids ` set acc) then spec_add ids cs acc
     else spec_add ids cs (acc @ [c]))"

lemma prepare_Inst:
  "prepareModel silent (Inst c) s = (Some c, snd (prepareModel silent (Inst c) s))"
  "co_ids (snd (prepareModel silent (Inst c) s)) = co_ids s" "co_next (snd (prepareModel silent (Inst c) s)) = co_next s"
  by simp_all

lemma add_scan_spec:
  assumes "coll_inv s" "sc_ids sc = map (\<lambda>c. key_of (co_ids s c)) (sc_cids sc)"
  shows "\<exists>sc' s'. add_scan silent (map Inst cs) sc s = Inr (sc', s') \<and> co_ids s' = co_ids s
     \<and> co_models s @ sc_cids sc' = spec_add (co_ids s) cs (co_models s @ sc_cids sc)"
  using assms
proof (induction cs arbitrary: sc s)
  case (Cons c cs)
  define s1 where "s1 = snd (prepareModel silent (Inst c) s)"
  have p: "prepareModel silent (Inst c) s = (Some c, s1)" "co_ids s1 = co_ids s" "co_models s1 = co_models s" "co_next s1 = co_next s"
    "co_byCid s1 = co_byCid s" "co_byId s1 = co_byId s"
    unfolding s1_def by (rule prepare_Inst prepare_fields)+
  have i: "coll_inv s1" using Cons.prems(1) p by (auto simp: coll_inv_def ids_ok_def s1_def)
  have key: "k \<in> set (sc_ids sc) \<longleftrightarrow> Some k \<in> co_ids s ` set (sc_cids sc)" if "k \<noteq> ''undefined''" for k
  proof -
    have "key_of x = k \<longleftrightarrow> x = Some k" for x using that by (cases x) (auto simp: key_of_def)
    then have "(\<exists>c\<in>A. k = key_of (co_ids s c)) \<longleftrightarrow> (\<exists>c\<in>A. Some k = co_ids s c)" for A by metis
    then show ?thesis unfolding Cons.prems(2) set_map image_iff .
  qed
  have dup: "is_dup (sc_cids sc) (sc_ids sc) c s1 \<longleftrightarrow> c \<in> set (co_models s @ sc_cids sc)
      \<or> (co_ids s c \<noteq> None \<and> co_ids s c \<in> co_ids s ` set (co_models s @ sc_cids sc))"
  proof (cases "co_ids s c")
    case None
    with Cons.prems(1) show ?thesis by (auto simp: is_dup_def p coll_inv_def)
  next
    case (Some k)
    then have "k \<noteq> ''undefined''" using Cons.prems(1) by (auto simp: coll_inv_def)
    moreover have "map_of (co_byId s) k \<noteq> None \<longleftrightarrow> Some k \<in> co_ids s ` set (co_models s)"
      using Cons.prems(1) by (auto simp: coll_inv_def ids_ok_def image_iff) (metis+)?
    ultimately show ?thesis using key [of k] Some Cons.prems(1) by (auto simp: is_dup_def p coll_inv_def image_Un)
  qed
  show ?case
  proof (cases "is_dup (sc_cids sc) (sc_ids sc) c s1")
    case True
    let ?sc = "sc\<lparr>sc_models := sc_models sc @ [c], sc_dups := sc_dups sc @ [length (sc_models sc)]\<rparr>"
    have "sc_ids ?sc = map (\<lambda>c. key_of (co_ids s1 c)) (sc_cids ?sc)" using Cons.prems(2) p by simp
    from Cons.IH [OF i this] True dup show ?thesis by (simp add: p del: prepareModel.simps)
  next
    case False
    let ?sc = "sc\<lparr>sc_models := sc_models sc @ [c], sc_cids := sc_cids sc @ [c], sc_ids := sc_ids sc @ [key_of (co_ids s1 c)]\<rparr>"
    have "sc_ids ?sc = map (\<lambda>c. key_of (co_ids s1 c)) (sc_cids ?sc)" using Cons.prems(2) p by simp
    note h = Cons.IH [OF i this]
    have a: "add_scan silent (map Inst (c # cs)) sc s = add_scan silent (map Inst cs) ?sc s1"
      using False by (simp add: p del: prepareModel.simps)
    have "spec_add (co_ids s) (c # cs) (co_models s @ sc_cids sc) = spec_add (co_ids s) cs (co_models s @ sc_cids sc @ [c])"
      using False unfolding dup by auto
    with h show ?thesis unfolding a by (simp add: p)
  qed
qed auto

text \<open>
  What \<open>add\<close> does with models: in every state that a collection without a comparator can get into,
  the list afterwards is what adding the models one at a time gives, leaving out those which are in it
  already or whose id a model in it has, in the list of arguments too; and for each model that is new,
  and for no other, the event \<open>add\<close> is fired once, in the order of the list and with its index.
\<close>

theorem add_skips_duplicates:
  assumes "reachable coll_init coll_enabled (coll_step None) s" "list_all (\<lambda>c. c < co_next s) cs"
  shows "\<exists>s'. coll_add None False None (map Inst cs) s = Inr s'
     \<and> co_models s' = spec_add (co_ids s) cs (co_models s)
     \<and> co_log s' = co_log s @ map (\<lambda>(i, c). CAdd c i) (enumerate (length (co_models s)) (drop (length (co_models s)) (co_models s')))"
proof -
  have i: "coll_inv s" by (rule collection.reachable_inv [OF assms(1)])
  have ok: "list_all (item_ok s) (map Inst cs)" using assms(2) by (simp add: list_all_iff item_ok_def)
  obtain sc s1 where s1: "add_scan False (map Inst cs) scan0 s = Inr (sc, s1)"
    "co_models s @ sc_cids sc = spec_add (co_ids s) cs (co_models s)"
    using add_scan_spec [OF i, of scan0 False cs] by auto
  have f: "coll_inv s1" "scan_ok sc s1" "co_models s1 = co_models s" "co_log s1 = co_log s"
    using add_scan_ok [OF i scan0_ok ok, of False] s1(1) by auto
  have d: "set (sc_cids sc) \<inter> set (co_models s) = {}" "remove_dups (sc_dups sc) (sc_models sc) = sc_cids sc"
    using f by (auto simp: scan_ok_def coll_inv_def)
  have "indexed (sc_cids sc) s1 (fold index_model (sc_cids sc) s1)"
    by (rule fold_index_model) (use f(2) in \<open>simp add: scan_ok_def\<close>)
  then have x: "co_models (fold index_model (sc_cids sc) s1) = co_models s" "co_log (fold index_model (sc_cids sc) s1) = co_log s"
    using f(3,4) by (simp_all add: indexed_def)
  have "filter (\<lambda>(i, c). c \<in> set (sc_cids sc)) (enumerate 0 (co_models s @ sc_cids sc))
      = enumerate (length (co_models s)) (sc_cids sc)"
  proof -
    have "filter (\<lambda>(i, c). c \<in> set (sc_cids sc)) (enumerate 0 (co_models s)) = []"
      using d(1) by (auto simp: filter_empty_conv in_set_enumerate_eq)
    moreover have "filter (\<lambda>(i, c). c \<in> set (sc_cids sc)) (enumerate n (sc_cids sc)) = enumerate n (sc_cids sc)" for n
      by (auto simp: filter_id_conv in_set_enumerate_eq)
    ultimately show ?thesis by (simp add: enumerate_append_eq)
  qed
  moreover have "drop (length (co_models s)) (spec_add (co_ids s) cs (co_models s)) = sc_cids sc"
    using s1(2) by (metis append_eq_conv_conj)
  ultimately show ?thesis
    using s1 x d(2) by (simp add: coll_add_def placed_def add_events_def Let_def)
qed

lemma add_skips_duplicates_witness:
  "\<exists>s s'. co_models s = [2] \<and> coll_add None False None (map Inst [2, 1, 0]) s = Inr s' \<and> co_models s' = [2, 1]
     \<and> co_log s' = co_log s @ [CAdd 1 1]"
proof -
  let ?s = "fold (coll_step None) coll_demo_ops coll_empty"
  note r = coll_demo_reachable
  have m: "co_models ?s = [2]" "co_ids ?s 2 = Some ''9''" "co_ids ?s 1 = Some ''7''" "co_ids ?s 0 = Some ''7''" by code_simp+
  have n: "list_all (\<lambda>c. c < co_next ?s) [2, 1, 0]" by code_simp
  show ?thesis
    by (rule exI [of _ ?s]) (use add_skips_duplicates [OF r n] m in auto)
qed

section \<open>Where the indexes are left behind\<close>

text \<open>A model that takes the id of another one hides it, and removing it leaves the other without an index.\<close>

lemma shared_id_hides_model:
  "let s = fold (coll_step None) [CoAdd False None [Raw (Some ''1'') True, Raw (Some ''2'') True], CoChangeId 1 (Some ''1''), CoRemove False [HModel 1]] coll_empty
   in co_models s = [0] \<and> co_ids s 0 = Some ''1'' \<and> coll_get s (HKey ''1'') = None"
  by code_simp

text \<open>Removing a model that is not in the collection removes the model that has its id.\<close>

lemma stranger_removes_member:
  "let s = fold (coll_step None) [CoAdd False None [Raw (Some ''1'') True], CoNew (Some ''1'') False, CoRemove False [HModel 1]] coll_empty
   in co_models s = []"
  by code_simp

end
