(* ===== verification/Backbone_Router.thy ===== *)
theory Backbone_Router
  imports Js_Prelude
begin

text \<open>
  \<open>Backbone.Router\<close> and \<open>Backbone.History\<close> of \<open>backbone.js\<close>: how the text of a route becomes a regular
  expression, what the expression matches and with which parameters, and how the address of the page,
  the fragment that the history remembers and the handlers go together. The frame for old browsers is
  not modelled, and an address is taken as the browser reports it.
\<close>

section \<open>Routes as regular expressions\<close>

definition between :: "nat \<Rightarrow> nat \<Rightarrow> char \<Rightarrow> bool" where
  "between a b c = (let n = of_char c in a \<le> n \<and> n \<le> b)"

text \<open>The classes \<open>\w\<close> and \<open>[-[\]{}()+?.,\\^$|#\s]\<close>.\<close>

definition is_word :: "char \<Rightarrow> bool" where
  "is_word c \<longleftrightarrow> between 48 57 c \<or> between 65 90 c \<or> between 97 122 c \<or> c = CHR ''_''"

definition is_special :: "char \<Rightarrow> bool" where
  "is_special c \<longleftrightarrow> c \<in> set ''-[]{}()+?.,^$|#'' \<or> c = CHR 0x5C \<or> is_space c"

definition escape_special :: "string \<Rightarrow> string" where
  "escape_special s = concat (map (\<lambda>c. if is_special c then [CHR 0x5C, c] else [c]) s)"

text \<open>\<open>replace\<close> with the expressions \<open>/:\w+/g\<close> and \<open>/\*\w+/g\<close>: a mark and the longest run of word characters after it.\<close>

function replace_marked :: "char \<Rightarrow> string \<Rightarrow> string \<Rightarrow> string" where
  "replace_marked mark r [] = []"
| "replace_marked mark r (c # s) =
     (if c = mark \<and> takeWhile is_word s \<noteq> '''' then r @ replace_marked mark r (dropWhile is_word s)
      else c # replace_marked mark r s)"
  by pat_completeness auto
termination
  by (relation "measure (\<lambda>(_, _, s). length s)") (auto simp: le_imp_less_Suc length_dropWhile_le)

definition group_param :: string where
  "group_param = ''([^/]+)''"

definition group_splat :: string where
  "group_splat = ''(.*?)''"

definition routeToRegExp :: "string \<Rightarrow> string" where
  "routeToRegExp r = replace_marked (CHR ''*'') group_splat (replace_marked (CHR '':'') group_param (escape_special r))"

text \<open>
  What the text means as a regular expression between \<open>^\<close> and \<open>$\<close>: literal characters and the two
  groups. \<open>None\<close> where the text has an operator of its own, as the star of a route that no name follows.
\<close>

datatype tok = Lit char | Param | Splat

definition is_operator :: "char \<Rightarrow> bool" where
  "is_operator c \<longleftrightarrow> c \<in> set ''*+?()[]{}^$|.''"

fun read_regexp :: "string \<Rightarrow> tok list option" where
  "read_regexp [] = Some []"
| "read_regexp (c # s) =
     (if c = CHR 0x5C then (case s of [] \<Rightarrow> None | d # r \<Rightarrow> map_option (Cons (Lit d)) (read_regexp r))
      else if take 7 (c # s) = group_param then map_option (Cons Param) (read_regexp (drop 6 s))
      else if take 5 (c # s) = group_splat then map_option (Cons Splat) (read_regexp (drop 4 s))
      else if is_operator c then None
      else map_option (Cons (Lit c)) (read_regexp s))"

section \<open>Matching\<close>

fun first_some :: "'a option list \<Rightarrow> 'a option" where
  "first_some [] = None"
| "first_some (x # xs) = (case x of Some y \<Rightarrow> Some y | None \<Rightarrow> first_some xs)"

definition is_newline :: "char \<Rightarrow> bool" where
  "is_newline c \<longleftrightarrow> c = CHR 0x0A \<or> c = CHR 0x0D"

text \<open>The groups of the first match in the order of backtracking: the parameter takes as much as it can first, the splat as little.\<close>

fun match_toks :: "tok list \<Rightarrow> string \<Rightarrow> string list option" where
  "match_toks [] s = (if s = '''' then Some [] else None)"
| "match_toks (Lit c # ts) s = (case s of [] \<Rightarrow> None | d # r \<Rightarrow> if d = c then match_toks ts r else None)"
| "match_toks (Param # ts) s =
     first_some (map (\<lambda>n. map_option (Cons (take n s)) (match_toks ts (drop n s)))
       (rev [1..<Suc (length (takeWhile (\<lambda>c. c \<noteq> CHR ''/'') s))]))"
| "match_toks (Splat # ts) s =
     first_some (map (\<lambda>n. map_option (Cons (take n s)) (match_toks ts (drop n s)))
       [0..<Suc (length (takeWhile (\<lambda>c. \<not> is_newline c) s))])"

text \<open>\<open>test\<close> and \<open>exec(\<dots>).slice(1)\<close> of the expression of a route.\<close>

definition extractParameters :: "string \<Rightarrow> string \<Rightarrow> string list option" where
  "extractParameters route fragment =
     (case read_regexp (routeToRegExp route) of None \<Rightarrow> None | Some ts \<Rightarrow> match_toks ts fragment)"

section \<open>The history\<close>

text \<open>
  The address is a path with a query, and a hash with or without its sign; \<open>hs_entries\<close> counts the
  entries of the browser's history that were made. A handler is a route and the name of its function;
  \<open>hs_calls\<close> lists the calls made. \<open>hs_loads\<close> lists the addresses the page was left for.
\<close>

record hist =
  hs_started :: bool
  hs_root :: string
  hs_push :: bool
  hs_hashes :: bool
  hs_fragment :: string
  hs_path :: string
  hs_hash :: string
  hs_entries :: nat
  hs_handlers :: "(string \<times> string) list"
  hs_calls :: "(string \<times> string list) list"
  hs_loads :: "string list"

definition is_prefix :: "string \<Rightarrow> string \<Rightarrow> bool" where
  "is_prefix p s \<longleftrightarrow> take (length p) s = p"

text \<open>\<open>replace(routeStripper, '')\<close>.\<close>

definition strip_route :: "string \<Rightarrow> string" where
  "strip_route s = (case s of c # r \<Rightarrow> if c = CHR ''#'' \<or> c = CHR ''/'' then r else s | [] \<Rightarrow> [])"

definition getFragment :: "string option \<Rightarrow> hist \<Rightarrow> string" where
  "getFragment given h =
     (let f = (case given of Some f \<Rightarrow> f | None \<Rightarrow> if hs_push h then hs_path h else hs_hash h);
          f = (if is_prefix (hs_root h) f then drop (length (hs_root h)) f else f)
      in strip_route f)"

text \<open>A route is tried before those that were added earlier.\<close>

definition add_route :: "string \<Rightarrow> string \<Rightarrow> hist \<Rightarrow> hist" where
  "add_route r nm h = h\<lparr>hs_handlers := (r, nm) # hs_handlers h\<rparr>"

text \<open>\<open>_bindRoutes\<close>: the routes of the object in reverse order, so that the first is tried first.\<close>

definition bindRoutes :: "(string \<times> string) list \<Rightarrow> hist \<Rightarrow> hist" where
  "bindRoutes routes h = fold (\<lambda>(r, nm). add_route r nm) (rev routes) h"

fun first_match :: "(string \<times> string) list \<Rightarrow> string \<Rightarrow> (string \<times> string list) option" where
  "first_match [] f = None"
| "first_match ((r, nm) # hs) f = (case extractParameters r f of Some ps \<Rightarrow> Some (nm, ps) | None \<Rightarrow> first_match hs f)"

definition loadUrl :: "string option \<Rightarrow> hist \<Rightarrow> bool \<times> hist" where
  "loadUrl given h =
     (let f = getFragment given h; h = h\<lparr>hs_fragment := f\<rparr>
      in case first_match (hs_handlers h) f of
           Some c \<Rightarrow> (True, h\<lparr>hs_calls := hs_calls h @ [c]\<rparr>)
         | None \<Rightarrow> (False, h))"

text \<open>The handler of \<open>hashchange\<close> and \<open>popstate\<close>.\<close>

definition checkUrl :: "hist \<Rightarrow> hist" where
  "checkUrl h =
     (if getFragment None h = hs_fragment h then h
      else case loadUrl None h of (True, h') \<Rightarrow> h' | (False, h') \<Rightarrow> snd (loadUrl (Some (hs_hash h')) h'))"

text \<open>
  What the browser keeps of an address that is set: it drops tabs and line ends, and percent-encodes the other control
  characters, the blank, the bytes that are not ASCII, and a few characters that depend on the part of the
  address. A hash that is set may have its sign in front. The address that \<open>pushState\<close> is given is a path with a
  query and a hash.
\<close>

definition percent_char :: "char \<Rightarrow> string" where
  "percent_char c = [CHR ''%'', hex_char (of_char c div 16), hex_char (of_char c mod 16)]"

definition address_text :: "string \<Rightarrow> string \<Rightarrow> string" where
  "address_text special s =
     concat (map (\<lambda>c. let n = (of_char c :: nat) in
       if n = 9 \<or> n = 10 \<or> n = 13 then [] else if n \<le> 0x20 \<or> 0x7F \<le> n \<or> c \<in> set special then percent_char c else [c]) s)"

definition hash_text :: "string \<Rightarrow> string" where
  "hash_text s = address_text [CHR 0x22, CHR ''<'', CHR ''>'', CHR 0x60] s"

definition path_text :: "string \<Rightarrow> string" where
  "path_text s =
     address_text [CHR 0x22, CHR ''<'', CHR ''>'', CHR 0x60, CHR ''{'', CHR ''}'', CHR 0x5E] (takeWhile (\<lambda>c. c \<noteq> CHR ''?'') s)
     @ address_text [CHR 0x22, CHR ''<'', CHR ''>'', CHR 0x27] (dropWhile (\<lambda>c. c \<noteq> CHR ''?'') s)"

definition set_hash :: "string \<Rightarrow> string" where
  "set_hash s = hash_text (if take 1 s = ''#'' then drop 1 s else s)"

definition push_address :: "string \<Rightarrow> hist \<Rightarrow> hist" where
  "push_address s h =
     h\<lparr>hs_path := path_text (takeWhile (\<lambda>c. c \<noteq> CHR ''#'') s), hs_hash := hash_text (drop 1 (dropWhile (\<lambda>c. c \<noteq> CHR ''#'') s))\<rparr>"

text \<open>\<open>navigate\<close>; setting the hash to what it was makes no entry.\<close>

definition h_navigate :: "string \<Rightarrow> bool \<Rightarrow> bool \<Rightarrow> hist \<Rightarrow> hist" where
  "h_navigate fragment trigger replaced h =
     (let frag = strip_route fragment in
      if \<not> hs_started h \<or> hs_fragment h = frag then h
      else
        let h1 = (if hs_push h then
                    (let frag = (if is_prefix (hs_root h) frag then frag else hs_root h @ frag)
                     in push_address frag (h\<lparr>hs_fragment := frag, hs_entries := hs_entries h + (if replaced then 0 else 1)\<rparr>))
                  else if hs_hashes h then
                    (let hash = (if replaced then hash_text frag else set_hash frag)
                     in h\<lparr>hs_fragment := frag, hs_hash := hash,
                          hs_entries := hs_entries h + (if replaced \<or> hs_hash h = hash then 0 else 1)\<rparr>)
                  else h\<lparr>hs_loads := hs_loads h @ [hs_root h @ fragment]\<rparr>)
        in if trigger then snd (loadUrl (Some fragment) h1) else h1)"

text \<open>
  \<open>start\<close> on a page, with the options \<open>pushState\<close> and \<open>hashChange\<close>, in a browser that has \<open>pushState\<close>
  or not: \<open>None\<close> where it raises an error. \<open>Some (None, h)\<close> is a start that returns nothing.
\<close>

definition h_start :: "string \<Rightarrow> bool \<Rightarrow> bool \<Rightarrow> bool \<Rightarrow> bool \<Rightarrow> hist \<Rightarrow> (bool option \<times> hist) option" where
  "h_start root wantsPush wantsHash hasPush silent h =
     (if hs_started h then None
      else
        let h = h\<lparr>hs_started := True, hs_root := root, hs_push := (wantsPush \<and> hasPush), hs_hashes := wantsHash\<rparr>;
            h = h\<lparr>hs_fragment := getFragment None h\<rparr>;
            atRoot = (takeWhile (\<lambda>c. c \<noteq> CHR ''?'') (hs_path h) = root)
        in if wantsHash \<and> wantsPush \<and> \<not> hs_push h \<and> \<not> atRoot then
             (let f = getFragment None (h\<lparr>hs_push := True\<rparr>)
              in Some (Some True, h\<lparr>hs_fragment := f, hs_loads := hs_loads h @ [root @ ''#'' @ f]\<rparr>))
           else
             let h = (if wantsPush \<and> hs_push h \<and> atRoot \<and> hs_hash h \<noteq> ''''
                      then (let f = strip_route (hs_hash h) in push_address (root @ f) (h\<lparr>hs_fragment := f\<rparr>)) else h)
             in if silent then Some (None, h) else (case loadUrl None h of (b, h') \<Rightarrow> Some (Some b, h')))"

definition h_stop :: "hist \<Rightarrow> hist" where
  "h_stop h = h\<lparr>hs_started := False\<rparr>"


section \<open>Routes made of pieces\<close>

datatype piece = Text string | Named string | Star string

fun piece_text :: "piece \<Rightarrow> string" where
  "piece_text (Text t) = t"
| "piece_text (Named n) = CHR '':'' # n"
| "piece_text (Star n) = CHR ''*'' # n"

definition route_text :: "piece list \<Rightarrow> string" where
  "route_text ps = concat (map piece_text ps)"

fun piece_toks :: "piece \<Rightarrow> tok list" where
  "piece_toks (Text t) = map Lit t"
| "piece_toks (Named n) = [Param]"
| "piece_toks (Star n) = [Splat]"

definition name_ok :: "string \<Rightarrow> bool" where
  "name_ok n \<longleftrightarrow> length n > 0 \<and> list_all is_word n"

text \<open>Texts without marks; a parameter ends at a slash or at the end of the route, a splat ends it.\<close>

fun route_ok :: "piece list \<Rightarrow> bool" where
  "route_ok [] = True"
| "route_ok (Text t # ps) = (CHR '':'' \<notin> set t \<and> CHR ''*'' \<notin> set t \<and> route_ok ps)"
| "route_ok (Named n # ps) = (name_ok n \<and> route_ok ps
     \<and> (case ps of [] \<Rightarrow> True | Text (c # t) # _ \<Rightarrow> c = CHR ''/'' | _ \<Rightarrow> False))"
| "route_ok (Star n # ps) = (name_ok n \<and> length ps = 0)"

text \<open>A fragment with values in the places of the parameters.\<close>

fun fill :: "piece list \<Rightarrow> string list \<Rightarrow> string" where
  "fill [] vs = ''''"
| "fill (Text t # ps) vs = t @ fill ps vs"
| "fill (_ # ps) vs = hd vs @ fill ps (tl vs)"

fun values_ok :: "piece list \<Rightarrow> string list \<Rightarrow> bool" where
  "values_ok [] vs = (length vs = 0)"
| "values_ok (Text t # ps) vs = values_ok ps vs"
| "values_ok (Named n # ps) vs = (case vs of [] \<Rightarrow> False | v # vs \<Rightarrow> length v > 0 \<and> CHR ''/'' \<notin> set v \<and> values_ok ps vs)"
| "values_ok (Star n # ps) vs = (case vs of [] \<Rightarrow> False | v # vs \<Rightarrow> list_all (\<lambda>c. \<not> is_newline c) v \<and> values_ok ps vs)"

section \<open>The expression of a route\<close>

lemma escape_append: "escape_special (s @ t) = escape_special s @ escape_special t"
  by (simp add: escape_special_def)

lemma word_not_special: "is_word c \<Longrightarrow> \<not> is_special c \<and> c \<noteq> CHR '':'' \<and> c \<noteq> CHR ''*''"
proof -
  assume w: "is_word c"
  have "list_all (\<lambda>c. \<not> is_word c) ''-[]{}()+?.,^$|#:*''" by code_simp
  then have "c \<notin> set ''-[]{}()+?.,^$|#:*''" using w unfolding list_all_iff by blast
  moreover have "c \<noteq> CHR 0x5C" using w by (auto simp: is_word_def between_def)
  moreover have "\<not> is_space c" using w by (auto simp: is_word_def between_def is_space_def Let_def)
  ultimately show ?thesis by (simp add: is_special_def)
qed

lemma escape_not_special: "list_all (\<lambda>c. \<not> is_special c) s \<Longrightarrow> escape_special s = s"
  by (induction s) (simp_all add: escape_special_def)

lemma name_chars: "name_ok n \<Longrightarrow> escape_special n = n \<and> CHR '':'' \<notin> set n \<and> CHR ''*'' \<notin> set n"
  using word_not_special by (auto simp: name_ok_def list_all_iff intro: escape_not_special)

lemma marks_plain: "\<not> is_special (CHR '':'')" "\<not> is_special (CHR ''*'')" "\<not> is_word (CHR 0x5C)" "\<not> is_word (CHR ''('')"
  "\<not> is_word (CHR ''*'')" "\<not> is_word (CHR ''/'')" "\<not> is_special (CHR ''/'')" "is_special (CHR ''('')"
  by code_simp+

lemma replace_plain: "mark \<notin> set s \<Longrightarrow> replace_marked mark r (s @ t) = s @ replace_marked mark r t"
  by (induction s) auto

lemma replace_name:
  assumes "name_ok n" "t = [] \<or> \<not> is_word (hd t)"
  shows "replace_marked mark r (mark # n @ t) = r @ replace_marked mark r t"
proof -
  have "takeWhile is_word (n @ t) = n" "dropWhile is_word (n @ t) = t"
    using assms by (cases t; auto simp: name_ok_def list_all_iff takeWhile_append dropWhile_append)+
  with assms(1) show ?thesis by (simp add: name_ok_def)
qed

definition stage :: "bool \<Rightarrow> bool \<Rightarrow> piece \<Rightarrow> string" where
  "stage b1 b2 p = (case p of Text t \<Rightarrow> escape_special t
     | Named n \<Rightarrow> if b1 then group_param else CHR '':'' # n | Star n \<Rightarrow> if b2 then group_splat else CHR ''*'' # n)"

lemma stage_simps [simp]:
  "stage b1 b2 (Text t) = escape_special t"
  "stage b1 b2 (Named n) = (if b1 then group_param else CHR '':'' # n)"
  "stage b1 b2 (Star n) = (if b2 then group_splat else CHR ''*'' # n)"
  by (simp_all add: stage_def)

lemma escape_route: "route_ok ps \<Longrightarrow> escape_special (route_text ps) = concat (map (stage False False) ps)"
proof (induction ps rule: route_ok.induct)
  case (3 n ps)
  then show ?case using name_chars [of n] marks_plain
    by (auto simp: route_text_def escape_append stage_def) (simp_all add: escape_special_def)
next
  case (4 n ps)
  then show ?case using name_chars [of n] marks_plain
    by (auto simp: route_text_def escape_append stage_def) (simp_all add: escape_special_def)
qed (simp_all add: route_text_def escape_append stage_def, simp add: escape_special_def)

lemma escape_head: "s = [] \<or> \<not> is_word (hd s) \<Longrightarrow> escape_special s = [] \<or> \<not> is_word (hd (escape_special s))"
  using marks_plain(3) by (cases s) (auto simp: escape_special_def)

lemma escape_no_mark: "mark \<notin> set s \<Longrightarrow> mark \<noteq> CHR 0x5C \<Longrightarrow> mark \<notin> set (escape_special s)"
  by (auto simp: escape_special_def split: if_splits)

text \<open>What follows the name of a parameter does not lengthen it.\<close>

lemma stage_head:
  assumes "route_ok (Named n # ps)"
  shows "concat (map (stage b1 b2) ps) = [] \<or> \<not> is_word (hd (concat (map (stage b1 b2) ps)))"
proof (cases ps)
  case (Cons p qs)
  with assms obtain t where "p = Text (CHR ''/'' # t)" by (auto split: piece.splits list.splits)
  with Cons marks_plain show ?thesis by (simp add: stage_def escape_special_def)
qed simp

lemma route_tail: "route_ok (p # ps) \<Longrightarrow> route_ok ps"
  by (cases p) auto

lemma replace_params:
  "route_ok ps \<Longrightarrow> replace_marked (CHR '':'') group_param (concat (map (stage False False) ps)) = concat (map (stage True False) ps)"
proof (induction ps)
  case (Cons p ps)
  note IH = Cons.IH [OF route_tail [OF Cons.prems]]
  show ?case
  proof (cases p)
    case (Text t)
    with Cons.prems have "CHR '':'' \<notin> set (escape_special t)" by (intro escape_no_mark) auto
    with Text IH show ?thesis by (simp add: stage_def replace_plain)
  next
    case (Named n)
    let ?x = "concat (map (stage False False) ps)"
    have "replace_marked (CHR '':'') group_param (CHR '':'' # n @ ?x) = group_param @ replace_marked (CHR '':'') group_param ?x"
      using replace_name [OF _ stage_head [of n ps False False]] Cons.prems Named by simp
    with Named IH show ?thesis by (simp add: stage_simps del: replace_marked.simps)
  next
    case (Star n)
    with Cons.prems name_chars [of n] have "CHR '':'' \<notin> set (CHR ''*'' # n)" "ps = []" by auto
    with Star replace_plain [of "CHR '':''" "CHR ''*'' # n" group_param "[]"] show ?thesis by (simp add: stage_def)
  qed
qed simp

lemma replace_splats:
  "route_ok ps \<Longrightarrow> replace_marked (CHR ''*'') group_splat (concat (map (stage True False) ps)) = concat (map (stage True True) ps)"
proof (induction ps)
  case (Cons p ps)
  note IH = Cons.IH [OF route_tail [OF Cons.prems]]
  show ?case
  proof (cases p)
    case (Text t)
    with Cons.prems have "CHR ''*'' \<notin> set (escape_special t)" by (intro escape_no_mark) auto
    with Text IH show ?thesis by (simp add: stage_def replace_plain)
  next
    case (Named n)
    have "CHR ''*'' \<notin> set group_param" by code_simp
    with Named IH show ?thesis by (simp add: stage_def replace_plain)
  next
    case (Star n)
    with Cons.prems have "name_ok n" "ps = []" by simp_all
    with replace_name [of n "[]" "CHR ''*''" group_splat] Star show ?thesis by (simp add: stage_def)
  qed
qed simp

lemma read_route_plain:
  assumes "c \<noteq> CHR 0x5C" "c \<noteq> CHR ''(''" "\<not> is_operator c"
  shows "read_regexp (c # s) = map_option (Cons (Lit c)) (read_regexp s)"
proof -
  have "take 7 (c # s) \<noteq> group_param" "take 5 (c # s) \<noteq> group_splat"
    using assms(2) by (auto simp: group_param_def group_splat_def)
  with assms show ?thesis by simp
qed

lemma read_escaped:
  "CHR ''*'' \<notin> set t \<Longrightarrow> read_regexp (escape_special t @ s) = map_option (append (map Lit t)) (read_regexp s)"
proof (induction t)
  case Nil
  show ?case by (simp add: escape_special_def option.map_id0 [unfolded id_def])
next
  case (Cons c t)
  have e: "escape_special (c # t) = (if is_special c then [CHR 0x5C, c] else [c]) @ escape_special t" by (simp add: escape_special_def)
  from Cons have IH: "read_regexp (escape_special t @ s) = map_option (append (map Lit t)) (read_regexp s)" by simp
  show ?case
  proof (cases "is_special c")
    case True
    with IH show ?thesis unfolding e by (simp add: option.map_comp comp_def)
  next
    case False
    with Cons.prems marks_plain(8) have n: "c \<noteq> CHR 0x5C" "c \<noteq> CHR ''(''" "\<not> is_operator c"
      by (auto simp: is_special_def is_operator_def)
    with IH False show ?thesis unfolding e by (simp add: read_route_plain option.map_comp comp_def del: read_regexp.simps)
  qed
qed

lemma read_groups:
  "read_regexp (group_param @ s) = map_option (Cons Param) (read_regexp s)"
  "read_regexp (group_splat @ s) = map_option (Cons Splat) (read_regexp s)"
  by (simp_all add: group_param_def group_splat_def numeral_eq_Suc)

lemma read_route:
  assumes "route_ok ps"
  shows "read_regexp (routeToRegExp (route_text ps)) = Some (concat (map piece_toks ps))"
proof -
  have r: "routeToRegExp (route_text ps) = concat (map (stage True True) ps)"
    using assms by (simp add: routeToRegExp_def escape_route replace_params replace_splats)
  have "route_ok ps \<Longrightarrow> read_regexp (concat (map (stage True True) ps)) = Some (concat (map piece_toks ps))" for ps
  proof (induction ps)
    case (Cons p ps)
    note IH = Cons.IH [OF route_tail [OF Cons.prems]]
    show ?case
    proof (cases p)
      case (Text t)
      with Cons.prems IH show ?thesis by (simp add: stage_def read_escaped)
    qed (use IH in \<open>simp_all add: stage_def read_groups\<close>)
  qed simp
  with r assms show ?thesis by simp
qed

section \<open>The parameters of a fragment\<close>

lemma first_some_append: "first_some (xs @ ys) = (case first_some xs of Some y \<Rightarrow> Some y | None \<Rightarrow> first_some ys)"
  by (induction xs) (auto split: option.splits)

lemma first_some_None: "list_all (\<lambda>x. x = None) xs \<Longrightarrow> first_some xs = None"
  by (induction xs) auto

lemma match_text: "match_toks (map Lit t @ ts) (t @ s) = match_toks ts s"
  by (induction t) auto

lemma match_param:
  assumes "takeWhile (\<lambda>c. c \<noteq> CHR ''/'') (v @ s) = v" "length v > 0" "match_toks ts s = Some vs"
  shows "match_toks (Param # ts) (v @ s) = Some (v # vs)"
proof -
  have "rev [1..<Suc (length v)] = length v # rev [1..<length v]" using assms(2) by (cases v) simp_all
  with assms show ?thesis by simp
qed

lemma match_last_splat:
  assumes "list_all (\<lambda>c. \<not> is_newline c) v"
  shows "match_toks [Splat] v = Some [v]"
proof -
  have t: "takeWhile (\<lambda>c. \<not> is_newline c) v = v" using assms by (simp add: takeWhile_eq_all_conv list_all_iff)
  have "first_some (map (\<lambda>n. map_option (Cons (take n v)) (match_toks [] (drop n v))) [0..<length v]) = None"
    by (rule first_some_None) (auto simp: list_all_iff)
  then show ?thesis by (simp add: t first_some_append)
qed

lemma match_route:
  "route_ok ps \<Longrightarrow> values_ok ps vs \<Longrightarrow> match_toks (concat (map piece_toks ps)) (fill ps vs) = Some vs"
proof (induction ps arbitrary: vs)
  case (Cons p ps)
  note IH = Cons.IH [OF route_tail [OF Cons.prems(1)]]
  show ?case
  proof (cases p)
    case (Text t)
    with Cons.prems IH show ?thesis by (simp add: match_text)
  next
    case (Named n)
    with Cons.prems(2) obtain v ws where v: "vs = v # ws" "length v > 0" "CHR ''/'' \<notin> set v" "values_ok ps ws"
      by (auto split: list.splits)
    have "takeWhile (\<lambda>c. c \<noteq> CHR ''/'') (v @ fill ps ws) = v"
    proof (cases ps)
      case Nil
      with v(3) show ?thesis by (auto simp: takeWhile_eq_all_conv)
    next
      case (Cons q qs)
      with Cons.prems(1) Named obtain t where "q = Text (CHR ''/'' # t)" by (auto split: piece.splits list.splits)
      then have f: "fill ps ws = CHR ''/'' # t @ fill qs ws" using Cons by simp
      show ?thesis unfolding f by (subst takeWhile_append2) (use v(3) in auto)
    qed
    from match_param [OF this v(2) IH [OF v(4)]] Named v(1) show ?thesis by simp
  next
    case (Star n)
    with Cons.prems obtain v where "vs = [v]" "list_all (\<lambda>c. \<not> is_newline c) v" "ps = []" by (auto split: list.splits)
    with Star match_last_splat show ?thesis by simp
  qed
qed simp



text \<open>The route of the admin site takes the whole fragment.\<close>

lemma admin_route: "list_all (\<lambda>c. \<not> is_newline c) f \<Longrightarrow> extractParameters ''*actions'' f = Some [f]"
proof -
  have "route_ok [Star ''actions'']" by code_simp
  then show "list_all (\<lambda>c. \<not> is_newline c) f \<Longrightarrow> ?thesis"
    using read_route [of "[Star ''actions'']"] match_last_splat [of f] by (simp add: extractParameters_def route_text_def)
qed

text \<open>A star without a name is an operator of the expression.\<close>

lemma bare_star: "read_regexp (routeToRegExp ''a*'') = None"
  by code_simp

section \<open>Navigation\<close>

text \<open>\<open>_bindRoutes\<close> keeps the order of the routes, and puts them before those bound earlier.\<close>

lemma bindRoutes_handlers: "hs_handlers (bindRoutes routes h) = routes @ hs_handlers h"
proof -
  have "hs_handlers (fold (\<lambda>(r, nm). add_route r nm) rs h) = rev rs @ hs_handlers h" for rs
    by (induction rs arbitrary: h) (auto simp: add_route_def)
  then show ?thesis by (simp add: bindRoutes_def)
qed

text \<open>
  A fragment that needs nothing done to it: it has no slash or hash sign in front, and it is encoded for an address in
  advance, which \<open>navigate\<close> asks of its callers.
\<close>

definition plain_fragment :: "string \<Rightarrow> bool" where
  "plain_fragment f \<longleftrightarrow> strip_route f = f \<and> hash_text f = f"

lemma strip_plain: "strip_route f = f \<longleftrightarrow> (case f of c # r \<Rightarrow> c \<noteq> CHR ''#'' \<and> c \<noteq> CHR ''/'' | [] \<Rightarrow> True)"
proof (cases f)
  case (Cons c r)
  have "r \<noteq> c # r" by (metis not_Cons_self2)
  with Cons show ?thesis by (auto simp: strip_route_def)
qed (simp add: strip_route_def)

lemma getFragment_given:
  assumes "hs_root h = ''/''" "plain_fragment (strip_route f)"
  shows "getFragment (Some f) h = strip_route f"
proof (cases f)
  case (Cons c r)
  show ?thesis
  proof (cases "c = CHR ''/''")
    case True
    then have "getFragment (Some f) h = strip_route r" "strip_route f = r"
      using Cons assms(1) by (simp_all add: getFragment_def is_prefix_def Let_def) (simp add: strip_route_def)
    with assms(2) show ?thesis by (simp add: plain_fragment_def)
  next
    case False
    with Cons assms show ?thesis by (simp add: getFragment_def is_prefix_def Let_def)
  qed
qed (use assms in \<open>simp add: getFragment_def is_prefix_def strip_route_def Let_def\<close>)

text \<open>The call that a fragment leads to, if a route matches it.\<close>

definition routed :: "hist \<Rightarrow> string \<Rightarrow> (string \<times> string list) list" where
  "routed h f = (case first_match (hs_handlers h) f of Some c \<Rightarrow> [c] | None \<Rightarrow> [])"

lemma loadUrl_given:
  assumes "hs_root h = ''/''" "plain_fragment (strip_route f)"
  shows "snd (loadUrl (Some f) h) = h\<lparr>hs_fragment := strip_route f, hs_calls := hs_calls h @ routed h (strip_route f)\<rparr>"
  using getFragment_given [OF assms] by (simp add: loadUrl_def Let_def routed_def split: option.split)

definition in_step :: "hist \<Rightarrow> bool" where
  "in_step h \<longleftrightarrow> hs_started h \<and> \<not> hs_push h \<and> hs_hashes h \<and> hs_root h = ''/'' \<and> hs_fragment h = getFragment None h"

text \<open>
  C14: Navigation on hashes, as the admin site uses it, to a fragment that, without the slash or hash sign in front of
  it, begins with neither of them and is encoded for an address (\<open>plain_fragment\<close>): while the history agrees
  with the address, this calls the function of the first route that matches exactly once if it is
  to be triggered and the fragment is a new one, and otherwise none; the event of the changed hash that
  the browser fires afterwards calls nothing more; and the history agrees with the address again.
\<close>

theorem navigate_routes_once:
  assumes "in_step h" "plain_fragment (strip_route f)"
  shows "let h' = h_navigate f trigger replaced h in
     hs_calls h' = hs_calls h @ (if trigger \<and> hs_fragment h \<noteq> strip_route f then routed h (strip_route f) else [])
     \<and> checkUrl h' = h' \<and> in_step h' \<and> hs_fragment h' = strip_route f
     \<and> hs_entries h' = hs_entries h + (if replaced \<or> hs_fragment h = strip_route f \<or> hs_hash h = strip_route f then 0 else 1)"
proof (cases "hs_fragment h = strip_route f")
  case True
  with assms(1) have "h_navigate f trigger replaced h = h" by (simp add: h_navigate_def)
  with True assms(1) show ?thesis by (simp add: checkUrl_def in_step_def)
next
  case False
  let ?f = "strip_route f"
  let ?h = "h\<lparr>hs_fragment := ?f, hs_hash := ?f, hs_entries := hs_entries h + (if replaced \<or> hs_hash h = ?f then 0 else 1)\<rparr>"
  have p: "strip_route ?f = ?f" "hash_text ?f = ?f" using assms(2) by (simp_all add: plain_fragment_def)
  have q: "take 1 ?f \<noteq> ''/''" "take 1 ?f \<noteq> ''#''" using p(1) by (cases ?f; auto simp: strip_plain)+
  then have k: "set_hash ?f = ?f" using p(2) by (simp add: set_hash_def)
  have n: "h_navigate f trigger replaced h = (if trigger then snd (loadUrl (Some f) ?h) else ?h)"
    using assms(1) False by (simp add: h_navigate_def in_step_def Let_def k p(2))
  have r: "routed ?h = routed h" by (simp add: routed_def fun_eq_iff)
  have g: "getFragment None (h\<lparr>hs_fragment := x, hs_hash := ?f, hs_entries := k, hs_calls := cs\<rparr>) = ?f" for x k cs
    using assms(1) p(1) q by (simp add: getFragment_def in_step_def is_prefix_def Let_def)
  have h': "h_navigate f trigger replaced h
      = h\<lparr>hs_fragment := ?f, hs_hash := ?f, hs_entries := hs_entries h + (if replaced \<or> hs_hash h = ?f then 0 else 1),
          hs_calls := hs_calls h @ (if trigger then routed h ?f else [])\<rparr>"
    using loadUrl_given [of ?h f] assms by (simp add: n r in_step_def)
  show ?thesis
    unfolding h' Let_def using assms False g by (simp add: checkUrl_def in_step_def)
qed

definition demo_hist :: hist where
  "demo_hist = bindRoutes [(''*actions'', ''list'')]
     \<lparr>hs_started = True, hs_root = ''/'', hs_push = False, hs_hashes = True, hs_fragment = '''', hs_path = ''/users'', hs_hash = '''',
      hs_entries = 0, hs_handlers = [], hs_calls = [], hs_loads = []\<rparr>"

lemma navigate_routes_once_witness:
  "hs_calls (checkUrl (h_navigate ''#3'' True False demo_hist)) = [(''list'', [''3''])] \<and> hs_entries (h_navigate ''#3'' True False demo_hist) = 1"
proof -
  have i: "in_step demo_hist" "plain_fragment (strip_route ''#3'')" by code_simp+
  have f: "hs_calls demo_hist = []" "hs_fragment demo_hist = ''''" "strip_route ''#3'' = ''3''" "routed demo_hist ''3'' = [(''list'', [''3''])]"
    "hs_entries demo_hist = 0" "hs_hash demo_hist = ''''" by code_simp+
  from navigate_routes_once [OF i, of True False] f show ?thesis by (simp add: Let_def)
qed

section \<open>Where the history loses step\<close>

text \<open>Navigating without a trigger to a fragment that starts with two slashes calls the function all the same.\<close>

lemma double_slash_routes:
  "hs_calls (h_navigate ''//3'' False False demo_hist) = []
   \<and> hs_calls (checkUrl (h_navigate ''//3'' False False demo_hist)) = [(''list'', [''3''])]"
  by code_simp

text \<open>
  A fragment that is not encoded calls the function twice: the browser encodes it, and its event finds another fragment
  than the history remembers.
\<close>

lemma unencoded_routes_twice:
  "hs_calls (checkUrl (h_navigate ''a b'' True False demo_hist)) = [(''list'', [''a b'']), (''list'', [''a%20b''])]"
  by code_simp

text \<open>
  With \<open>pushState\<close> the history remembers the fragment with the root in front, so that navigating to
  where one is makes another entry.
\<close>

lemma push_state_duplicates_entry:
  assumes "hs_started h" "hs_push h" "hs_root h = ''/''" "plain_fragment f" "length f > 0" "hs_fragment h \<noteq> f"
  shows "hs_entries (h_navigate f False False (h_navigate f False False h)) = hs_entries (h_navigate f False False h) + 1"
proof -
  have s: "strip_route f = f" using assms(4) by (simp add: plain_fragment_def)
  have p: "take 1 f \<noteq> ''/''" using s by (cases f) (auto simp: strip_plain)
  have ne: "CHR ''/'' # f \<noteq> f" by (metis not_Cons_self2)
  show ?thesis using assms s p ne by (simp add: h_navigate_def push_address_def is_prefix_def Let_def)
qed

end
