(* ===== verification/Backbone_Model.thy ===== *)
theory Backbone_Model
  imports Js_Prelude
begin

text \<open>
  \<open>Backbone.Model\<close> of \<open>backbone.js\<close>: attributes, what has changed since the last \<open>change\<close> event, the
  cache of escaped values, and the events that \<open>set\<close>, \<open>unset\<close>, \<open>clear\<close> and \<open>change\<close> fire, with
  handlers that call these functions again. A handler that always changes the model makes \<open>change\<close>
  loop, so the functions take fuel; what a result that they return looks like is shown for every fuel
  and every handler, and that they return for handlers that only read.

  Objects are association lists; \<open>_silent\<close> and \<open>_pending\<close>, whose values are always \<open>true\<close>, are the
  lists of their keys. \<open>_.isEqual\<close> is equality on the values without parts that attributes have here.
\<close>

section \<open>The state\<close>

text \<open>The log holds the events in their order: what a listener would be called with.\<close>

datatype model_event = MChangeAttr string jsval | MChange | MError string

record model =
  md_attrs :: "(string \<times> jsval) list"
  md_escaped :: "(string \<times> string) list"
  md_changed :: "(string \<times> jsval) list"
  md_silent :: "string list"
  md_pending :: "string list"
  md_prev :: "(string \<times> jsval) list"
  md_changing :: bool
  md_id :: jsval
  md_log :: "model_event list"

record set_options =
  so_silent :: bool
  so_unset :: bool

definition add_key :: "string \<Rightarrow> string list \<Rightarrow> string list" where
  "add_key k ks = (if k \<in> set ks then ks else ks @ [k])"

definition obj_extend :: "(string \<times> 'v) list \<Rightarrow> (string \<times> 'v) list \<Rightarrow> (string \<times> 'v) list" where
  "obj_extend xs ys = fold (\<lambda>(k, v). obj_set k v) ys xs"

definition get_in :: "(string \<times> jsval) list \<Rightarrow> string \<Rightarrow> jsval" where
  "get_in xs a = (case map_of xs a of Some v \<Rightarrow> v | None \<Rightarrow> JUndef)"

definition has_in :: "(string \<times> 'v) list \<Rightarrow> string \<Rightarrow> bool" where
  "has_in xs a = (map_of xs a \<noteq> None)"

definition m_get :: "model \<Rightarrow> string \<Rightarrow> jsval" where
  "m_get m a = get_in (md_attrs m) a"

definition m_has :: "model \<Rightarrow> string \<Rightarrow> bool" where
  "m_has m a = (m_get m a \<notin> {JNull, JUndef})"

text \<open>\<open>_.escape\<close> of \<open>underscore.js\<close>.\<close>

definition replace_char :: "char \<Rightarrow> string \<Rightarrow> string \<Rightarrow> string" where
  "replace_char c r s = concat (map (\<lambda>x. if x = c then r else [x]) s)"

definition us_escape :: "string \<Rightarrow> string" where
  "us_escape s = replace_char (CHR ''/'') ''&#x2F;'' (replace_char (CHR 0x27) ''&#x27;'' (replace_char (CHR 0x22) ''&quot;''
     (replace_char (CHR ''>'') ''&gt;'' (replace_char (CHR ''<'') ''&lt;'' (replace_char (CHR ''&'') ''&amp;'' s)))))"

definition escaped_value :: "jsval \<Rightarrow> string" where
  "escaped_value v = us_escape (if v \<in> {JNull, JUndef} then '''' else to_str v)"

definition m_escape :: "model \<Rightarrow> string \<Rightarrow> string \<times> model" where
  "m_escape m a = (case map_of (md_escaped m) a of
      Some h \<Rightarrow> if h \<noteq> '''' then (h, m)
        else (let h' = escaped_value (m_get m a) in (h', m\<lparr>md_escaped := obj_set a h' (md_escaped m)\<rparr>))
    | None \<Rightarrow> (let h' = escaped_value (m_get m a) in (h', m\<lparr>md_escaped := obj_set a h' (md_escaped m)\<rparr>)))"

definition m_isNew :: "model \<Rightarrow> bool" where
  "m_isNew m = (md_id m \<in> {JNull, JUndef})"

definition m_hasChanged :: "model \<Rightarrow> bool" where
  "m_hasChanged m = (length (md_changed m) > 0)"

definition m_hasChangedAttr :: "model \<Rightarrow> string \<Rightarrow> bool" where
  "m_hasChangedAttr m a = has_in (md_changed m) a"

definition m_previous :: "model \<Rightarrow> string \<Rightarrow> jsval" where
  "m_previous m a = get_in (md_prev m) a"

text \<open>\<open>changedAttributes\<close> with an object to compare with: \<open>None\<close> stands for \<open>false\<close>.\<close>

definition m_diff :: "model \<Rightarrow> (string \<times> jsval) list \<Rightarrow> (string \<times> jsval) list option" where
  "m_diff m d = (let c = fold (\<lambda>(k, v) acc. if get_in (md_prev m) k = v then acc else obj_set k v acc) d []
     in if c = [] then None else Some c)"

definition m_changedAttributes :: "model \<Rightarrow> (string \<times> jsval) list option" where
  "m_changedAttributes m = (if m_hasChanged m then Some (md_changed m) else None)"

section \<open>\<open>set\<close> and \<open>change\<close>\<close>

text \<open>
  One attribute of the loop of \<open>set\<close>, with the object \<open>changes\<close> of its options. The value \<open>differs\<close> from
  the current one, or \<open>deviates\<close> from the previous one once it is put.
\<close>

definition put_attr :: "set_options \<Rightarrow> string \<Rightarrow> jsval \<Rightarrow> (string \<times> jsval) list \<Rightarrow> (string \<times> jsval) list" where
  "put_attr op a v xs = (if so_unset op then obj_delete a xs else obj_set a v xs)"

definition differs :: "set_options \<Rightarrow> string \<Rightarrow> jsval \<Rightarrow> model \<Rightarrow> bool" where
  "differs op a v m \<longleftrightarrow> get_in (md_attrs m) a \<noteq> v \<or> (so_unset op \<and> has_in (md_attrs m) a)"

definition deviates :: "set_options \<Rightarrow> string \<Rightarrow> jsval \<Rightarrow> model \<Rightarrow> bool" where
  "deviates op a v m \<longleftrightarrow> get_in (md_prev m) a \<noteq> v \<or> has_in (put_attr op a v (md_attrs m)) a \<noteq> has_in (md_prev m) a"

definition set_attr :: "set_options \<Rightarrow> string \<times> jsval \<Rightarrow> model \<times> string list \<Rightarrow> model \<times> string list" where
  "set_attr op av mc =
     (let a = fst av; v = snd av; m = fst mc; d = differs op a v m; n = deviates op a v m
      in (m\<lparr>md_escaped := (if d then obj_delete a (md_escaped m) else md_escaped m),
            md_silent := (if d \<and> so_silent op then add_key a (md_silent m) else md_silent m),
            md_attrs := put_attr op a v (md_attrs m),
            md_changed := (if n then obj_set a v (md_changed m) else obj_delete a (md_changed m)),
            md_pending := (if \<not> n then removeAll a (md_pending m)
              else if so_silent op then md_pending m else add_key a (md_pending m))\<rparr>,
          if d \<and> \<not> so_silent op then add_key a (snd mc) else snd mc))"

definition set_id :: "(string \<times> jsval) list \<Rightarrow> model \<Rightarrow> model" where
  "set_id attrs m = (case map_of attrs ''id'' of Some v \<Rightarrow> m\<lparr>md_id := v\<rparr> | None \<Rightarrow> m)"

text \<open>
  The handlers are a function of the event and the model: the calls of \<open>set\<close> that they make, each with
  its attributes and options. \<open>validate\<close> is \<open>None\<close> where it returns nothing.
\<close>

type_synonym set_call = "(string \<times> jsval) list \<times> set_options"
type_synonym handlers = "model_event \<Rightarrow> model \<Rightarrow> set_call list"
type_synonym validator = "(string \<times> jsval) list \<Rightarrow> string option"
type_synonym setter = "set_call \<Rightarrow> model \<Rightarrow> (bool \<times> model) option"

fun m_calls :: "setter \<Rightarrow> set_call list \<Rightarrow> model \<Rightarrow> model option" where
  "m_calls sf [] m = Some m"
| "m_calls sf (c # cs) m = (case sf c m of None \<Rightarrow> None | Some (_, m') \<Rightarrow> m_calls sf cs m')"

definition m_trigger :: "setter \<Rightarrow> handlers \<Rightarrow> model_event \<Rightarrow> model \<Rightarrow> model option" where
  "m_trigger sf H e m = m_calls sf (H e (m\<lparr>md_log := md_log m @ [e]\<rparr>)) (m\<lparr>md_log := md_log m @ [e]\<rparr>)"

fun m_attrs :: "setter \<Rightarrow> handlers \<Rightarrow> string list \<Rightarrow> model \<Rightarrow> model option" where
  "m_attrs sf H [] m = Some m"
| "m_attrs sf H (a # as) m =
     (case m_trigger sf H (MChangeAttr a (m_get m a)) m of None \<Rightarrow> None | Some m' \<Rightarrow> m_attrs sf H as m')"

text \<open>One round of the loop of \<open>change\<close> after the handlers of \<open>change\<close> ran, and the loop.\<close>

definition settle :: "model \<Rightarrow> model" where
  "settle m = m\<lparr>md_changed := filter (\<lambda>p. fst p \<in> set (md_pending m) \<or> fst p \<in> set (md_silent m)) (md_changed m),
                md_prev := md_attrs m\<rparr>"

fun m_loop :: "nat \<Rightarrow> setter \<Rightarrow> handlers \<Rightarrow> model \<Rightarrow> model option" where
  "m_loop 0 sf H m = None"
| "m_loop (Suc n) sf H m =
     (if length (md_pending m) = 0 then Some (m\<lparr>md_changing := False\<rparr>)
      else case m_trigger sf H MChange (m\<lparr>md_pending := []\<rparr>) of None \<Rightarrow> None
         | Some m' \<Rightarrow> m_loop n sf H (settle m'))"

definition m_change :: "nat \<Rightarrow> setter \<Rightarrow> handlers \<Rightarrow> string list \<Rightarrow> model \<Rightarrow> model option" where
  "m_change n sf H changes m =
     (let m' = m\<lparr>md_changing := True, md_pending := fold add_key (md_silent m) (md_pending m), md_silent := []\<rparr>
      in case m_attrs sf H (fold add_key (md_silent m) changes) m' of None \<Rightarrow> None
         | Some m'' \<Rightarrow> if md_changing m then Some m'' else m_loop n sf H m'')"

text \<open>\<open>set\<close>, with fuel for the nesting of handlers and for the rounds of the loop of \<open>change\<close>.\<close>

definition given_attrs :: "set_call \<Rightarrow> (string \<times> jsval) list" where
  "given_attrs c = (if so_unset (snd c) then map (\<lambda>p. (fst p, JUndef)) (fst c) else fst c)"

definition m_validate :: "validator \<Rightarrow> set_call \<Rightarrow> model \<Rightarrow> string option" where
  "m_validate V c m = (if so_silent (snd c) then None else V (obj_extend (md_attrs m) (given_attrs c)))"

definition set_attrs :: "set_call \<Rightarrow> model \<Rightarrow> model \<times> string list" where
  "set_attrs c m = fold (set_attr (snd c)) (given_attrs c) (set_id (given_attrs c) m, [])"

fun m_set :: "nat \<Rightarrow> handlers \<Rightarrow> validator \<Rightarrow> setter" where
  "m_set 0 H V c m = None"
| "m_set (Suc n) H V c m =
     (case m_validate V c m of
        Some e \<Rightarrow> map_option (Pair False) (m_trigger (m_set n H V) H (MError e) m)
      | None \<Rightarrow> (case set_attrs c m of (m', changes) \<Rightarrow>
          if so_silent (snd c) then Some (True, m')
          else map_option (Pair True) (m_change n (m_set n H V) H changes m')))"

text \<open>\<open>unset\<close> and \<open>clear\<close> as calls of \<open>set\<close>.\<close>

definition unset_call :: "string \<Rightarrow> bool \<Rightarrow> set_call" where
  "unset_call a silent = ([(a, JNull)], \<lparr>so_silent = silent, so_unset = True\<rparr>)"

definition clear_call :: "bool \<Rightarrow> model \<Rightarrow> set_call" where
  "clear_call silent m = (md_attrs m, \<lparr>so_silent = silent, so_unset = True\<rparr>)"

text \<open>The constructor: no handler is bound yet, and \<open>set\<close> is silent.\<close>

definition m_new :: "(string \<times> jsval) list \<Rightarrow> (string \<times> jsval) list \<Rightarrow> model" where
  "m_new defaults attrs =
     (let attrs = obj_extend (obj_extend [] defaults) attrs;
          m = \<lparr>md_attrs = [], md_escaped = [], md_changed = [], md_silent = [], md_pending = [], md_prev = [],
               md_changing = False, md_id = JUndef, md_log = []\<rparr>;
          m = fst (fold (set_attr \<lparr>so_silent = True, so_unset = False\<rparr>) attrs (set_id attrs m, []))
      in m\<lparr>md_changed := [], md_silent := [], md_pending := [], md_prev := md_attrs m\<rparr>)"

text \<open>What the program calls on a model.\<close>

datatype model_op = MSet "(string \<times> jsval) list" bool | MUnset string bool | MClear bool | MFire | MEscape string

fun m_do :: "nat \<Rightarrow> handlers \<Rightarrow> validator \<Rightarrow> model_op \<Rightarrow> model \<Rightarrow> model option" where
  "m_do n H V (MSet attrs silent) m = map_option snd (m_set n H V (attrs, \<lparr>so_silent = silent, so_unset = False\<rparr>) m)"
| "m_do n H V (MUnset a silent) m = map_option snd (m_set n H V (unset_call a silent) m)"
| "m_do n H V (MClear silent) m = map_option snd (m_set n H V (clear_call silent m) m)"
| "m_do n H V MFire m = m_change n (m_set n H V) H [] m"
| "m_do n H V (MEscape a) m = Some (snd (m_escape m a))"

fun m_run :: "nat \<Rightarrow> handlers \<Rightarrow> validator \<Rightarrow> model_op list \<Rightarrow> model \<Rightarrow> model option" where
  "m_run n H V [] m = Some m"
| "m_run n H V (c # cs) m = (case m_do n H V c m of None \<Rightarrow> None | Some m \<Rightarrow> m_run n H V cs m)"


section \<open>What holds between calls\<close>

text \<open>\<open>changed\<close> is the difference between the attributes and the previous ones.\<close>

definition agree :: "model \<Rightarrow> bool" where
  "agree m \<longleftrightarrow> (\<forall>a. map_of (md_changed m) a
     = (if map_of (md_attrs m) a = map_of (md_prev m) a then None else Some (m_get m a)))"

definition covered :: "model \<Rightarrow> bool" where
  "covered m \<longleftrightarrow> (\<forall>a. map_of (md_changed m) a \<noteq> None \<longrightarrow> a \<in> set (md_pending m) \<or> a \<in> set (md_silent m))"

definition cache_ok :: "model \<Rightarrow> bool" where
  "cache_ok m \<longleftrightarrow> (\<forall>a h. map_of (md_escaped m) a = Some h \<longrightarrow> h = escaped_value (m_get m a))"

definition rest_ok :: "model \<Rightarrow> bool" where
  "rest_ok m \<longleftrightarrow> \<not> md_changing m \<and> md_pending m = [] \<and> agree m \<and> covered m \<and> cache_ok m"

definition settled :: "model \<Rightarrow> bool" where
  "settled m \<longleftrightarrow> md_changed m = [] \<and> md_silent m = [] \<and> map_of (md_prev m) = map_of (md_attrs m)"

text \<open>While handlers run: before the loop of \<open>change\<close>, and in it.\<close>

definition before_loop :: "model \<Rightarrow> bool" where
  "before_loop m \<longleftrightarrow> md_changing m \<and> md_silent m = [] \<and> agree m \<and> covered m \<and> cache_ok m"

definition in_loop :: "model \<Rightarrow> bool" where
  "in_loop m \<longleftrightarrow> md_changing m \<and> md_silent m = [] \<and> cache_ok m"

lemma kept_by_update [simp]:
  "agree (m\<lparr>md_log := l\<rparr>) = agree m" "agree (m\<lparr>md_changing := b\<rparr>) = agree m"
  "agree (m\<lparr>md_pending := ks\<rparr>) = agree m" "agree (m\<lparr>md_silent := ks\<rparr>) = agree m"
  "agree (m\<lparr>md_changing := b, md_pending := ks, md_silent := ks'\<rparr>) = agree m"
  "covered (m\<lparr>md_log := l\<rparr>) = covered m" "covered (m\<lparr>md_changing := b\<rparr>) = covered m"
  "cache_ok (m\<lparr>md_log := l\<rparr>) = cache_ok m" "cache_ok (m\<lparr>md_changing := b\<rparr>) = cache_ok m"
  "cache_ok (m\<lparr>md_pending := ks\<rparr>) = cache_ok m" "cache_ok (m\<lparr>md_silent := ks\<rparr>) = cache_ok m"
  "cache_ok (m\<lparr>md_changed := c, md_prev := p\<rparr>) = cache_ok m"
  "cache_ok (m\<lparr>md_changing := b, md_pending := ks, md_silent := ks'\<rparr>) = cache_ok m"
  "cache_ok (m\<lparr>md_changed := c, md_silent := ks, md_pending := ks', md_prev := p\<rparr>) = cache_ok m"
  by (simp_all add: agree_def covered_def cache_ok_def m_get_def)

lemma settled_update [simp]: "settled (m\<lparr>md_changing := b\<rparr>) = settled m"
  by (simp add: settled_def)

lemma set_add_key [simp]: "set (add_key k ks) = insert k (set ks)"
  by (auto simp: add_key_def)

lemma set_fold_add_key [simp]: "set (fold add_key ks acc) = set ks \<union> set acc"
  by (induction ks arbitrary: acc) auto

lemma map_of_filter_key: "map_of (filter (\<lambda>p. P (fst p)) xs) a = (if P a then map_of xs a else None)"
  by (induction xs) auto

lemma map_of_none_Nil: "(\<forall>a. map_of xs a = None) \<longleftrightarrow> xs = []"
  by (cases xs) (auto split: if_splits)

lemma set_attr_fields [simp]:
  "md_prev (fst (set_attr op av mc)) = md_prev (fst mc)"
  "md_changing (fst (set_attr op av mc)) = md_changing (fst mc)"
  "md_id (fst (set_attr op av mc)) = md_id (fst mc)"
  "md_log (fst (set_attr op av mc)) = md_log (fst mc)"
  by (simp_all add: set_attr_def Let_def)

lemma set_attr_silent:
  "\<not> so_silent op \<Longrightarrow> md_silent (fst (set_attr op av mc)) = md_silent (fst mc)"
  by (simp add: set_attr_def Let_def)

lemma set_attr_pending:
  "so_silent op \<Longrightarrow> md_pending (fst mc) = [] \<Longrightarrow> md_pending (fst (set_attr op av mc)) = []"
  by (simp add: set_attr_def Let_def)

lemma map_of_set_attr:
  "map_of (md_attrs (fst (set_attr op (a, v) mc))) = (map_of (md_attrs (fst mc)))(a := (if so_unset op then None else Some v))"
  by (simp add: set_attr_def Let_def put_attr_def)

lemma has_in_put [simp]: "has_in (put_attr op a v xs) a = (\<not> so_unset op)"
  by (simp add: put_attr_def has_in_def)

lemma map_of_put: "map_of (put_attr op a v xs) = (map_of xs)(a := (if so_unset op then None else Some v))"
  by (simp add: put_attr_def)

lemma map_of_set_changed:
  "map_of (md_changed (fst (set_attr op (a, v) mc)))
     = (map_of (md_changed (fst mc)))(a := (if deviates op a v (fst mc) then Some v else None))"
  by (simp add: set_attr_def Let_def)

lemma map_of_set_escaped:
  "map_of (md_escaped (fst (set_attr op (a, v) mc)))
     = (if differs op a v (fst mc) then (map_of (md_escaped (fst mc)))(a := None) else map_of (md_escaped (fst mc)))"
  by (simp add: set_attr_def Let_def)

lemma set_set_pending:
  "set (md_pending (fst (set_attr op (a, v) mc)))
     = (if deviates op a v (fst mc) then (if so_silent op then {} else {a}) \<union> set (md_pending (fst mc))
        else set (md_pending (fst mc)) - {a})"
  by (simp add: set_attr_def Let_def)

lemma set_set_silent:
  "set (md_silent (fst (set_attr op (a, v) mc)))
     = (if differs op a v (fst mc) \<and> so_silent op then {a} else {}) \<union> set (md_silent (fst mc))"
  by (simp add: set_attr_def Let_def)

lemma set_attr_changes:
  "snd (set_attr op (a, v) mc) = (if differs op a v (fst mc) \<and> \<not> so_silent op then add_key a (snd mc) else snd mc)"
  by (simp add: set_attr_def Let_def)

lemma set_attr_agree:
  assumes "agree (fst mc)" "so_unset op \<Longrightarrow> v = JUndef"
  shows "agree (fst (set_attr op (a, v) mc))"
  unfolding agree_def map_of_set_changed map_of_set_attr set_attr_fields
proof
  fix b
  from assms(1) have b: "map_of (md_changed (fst mc)) b = (if map_of (md_attrs (fst mc)) b = map_of (md_prev (fst mc)) b
      then None else Some (m_get (fst mc) b))" by (simp add: agree_def)
  have g: "m_get (fst (set_attr op (a, v) mc)) b = (if b = a then if so_unset op then JUndef else v else m_get (fst mc) b)"
    by (simp add: m_get_def get_in_def map_of_set_attr)
  show "((map_of (md_changed (fst mc)))(a := if deviates op a v (fst mc) then Some v else None)) b =
      (if ((map_of (md_attrs (fst mc)))(a := if so_unset op then None else Some v)) b = map_of (md_prev (fst mc)) b then None
       else Some (m_get (fst (set_attr op (a, v) mc)) b))"
  proof (cases "b = a")
    case False
    with b g show ?thesis by simp
  next
    case True
    show ?thesis
      using assms(2) unfolding True g [unfolded True]
      by (cases "so_unset op"; cases "map_of (md_prev (fst mc)) a") (simp_all add: deviates_def get_in_def has_in_def map_of_put)
  qed
qed

lemma set_attr_covered:
  assumes "agree (fst mc)" "covered (fst mc)" "so_unset op \<or> \<not> so_silent op \<or> v \<noteq> JUndef"
  shows "covered (fst (set_attr op (a, v) mc))"
  unfolding covered_def map_of_set_changed set_set_pending set_set_silent
proof (intro allI impI)
  fix b
  assume c: "((map_of (md_changed (fst mc)))(a := if deviates op a v (fst mc) then Some v else None)) b \<noteq> None"
  have old: "map_of (md_changed (fst mc)) b \<noteq> None \<Longrightarrow> b \<in> set (md_pending (fst mc)) \<or> b \<in> set (md_silent (fst mc))"
    using assms(2) by (simp add: covered_def)
  show "b \<in> (if deviates op a v (fst mc) then (if so_silent op then {} else {a}) \<union> set (md_pending (fst mc)) else set (md_pending (fst mc)) - {a})
     \<or> b \<in> (if differs op a v (fst mc) \<and> so_silent op then {a} else {}) \<union> set (md_silent (fst mc))"
  proof (cases "b = a")
    case False
    with c old show ?thesis by auto
  next
    case True
    with c have d: "deviates op a v (fst mc)" by (auto split: if_splits)
    have "map_of (md_changed (fst mc)) a \<noteq> None" if "\<not> differs op a v (fst mc)" "so_silent op"
    proof -
      have "map_of (md_attrs (fst mc)) a \<noteq> map_of (md_prev (fst mc)) a"
        using that d assms(3) by (auto simp: differs_def deviates_def get_in_def has_in_def map_of_put split: option.splits)
      then show ?thesis using assms(1) by (simp add: agree_def)
    qed
    with d old True show ?thesis by auto
  qed
qed

lemma set_attr_cache:
  assumes "cache_ok (fst mc)" "so_unset op \<Longrightarrow> v = JUndef"
  shows "cache_ok (fst (set_attr op (a, v) mc))"
  unfolding cache_ok_def map_of_set_escaped
proof (intro allI impI)
  fix b h
  assume h: "(if differs op a v (fst mc) then (map_of (md_escaped (fst mc)))(a := None) else map_of (md_escaped (fst mc))) b = Some h"
  have g: "m_get (fst (set_attr op (a, v) mc)) b = (if b = a then if so_unset op then JUndef else v else m_get (fst mc) b)"
    by (simp add: m_get_def get_in_def map_of_set_attr)
  have e: "map_of (md_escaped (fst mc)) b = Some h" "b = a \<Longrightarrow> \<not> differs op a v (fst mc)"
    using h by (auto split: if_splits)
  then have "h = escaped_value (m_get (fst mc) b)" using assms(1) by (simp add: cache_ok_def)
  then show "h = escaped_value (m_get (fst (set_attr op (a, v) mc)) b)"
    using g e(2) assms(2) by (auto simp: differs_def m_get_def)
qed


section \<open>The calls of \<open>set\<close>\<close>

lemma set_attrs_induct:
  assumes "P (set_id (given_attrs c) m)"
    and "\<And>mc a v. (a, v) \<in> set (given_attrs c) \<Longrightarrow> P (fst mc) \<Longrightarrow> P (fst (set_attr (snd c) (a, v) mc))"
  shows "P (fst (set_attrs c m))"
proof -
  have "P (fst mc) \<Longrightarrow> set as \<subseteq> set (given_attrs c) \<Longrightarrow> P (fst (fold (set_attr (snd c)) as mc))" for as mc
  proof (induction as arbitrary: mc)
    case (Cons av as)
    then show ?case using Cons.IH [of "set_attr (snd c) av mc"] assms(2) [of "fst av" "snd av" mc] by simp
  qed simp
  with assms(1) show ?thesis by (simp add: set_attrs_def)
qed

lemma given_unset: "(a, v) \<in> set (given_attrs c) \<Longrightarrow> so_unset (snd c) \<Longrightarrow> v = JUndef"
  by (auto simp: given_attrs_def)

lemma set_id_fields [simp]:
  "md_attrs (set_id as m) = md_attrs m" "md_escaped (set_id as m) = md_escaped m" "md_changed (set_id as m) = md_changed m"
  "md_silent (set_id as m) = md_silent m" "md_pending (set_id as m) = md_pending m" "md_prev (set_id as m) = md_prev m"
  "md_changing (set_id as m) = md_changing m" "md_log (set_id as m) = md_log m"
  by (simp_all add: set_id_def split: option.splits)

lemma m_get_set_id [simp]: "m_get (set_id as m) = m_get m"
  by (simp add: m_get_def fun_eq_iff)

lemma set_attrs_fields:
  "md_prev (fst (set_attrs c m)) = md_prev m" "md_changing (fst (set_attrs c m)) = md_changing m"
  "md_log (fst (set_attrs c m)) = md_log m"
  by (rule set_attrs_induct; simp)+

lemma set_attrs_silent: "\<not> so_silent (snd c) \<Longrightarrow> md_silent (fst (set_attrs c m)) = md_silent m"
  by (rule set_attrs_induct) (simp_all add: set_attr_silent)

lemma set_attrs_pending: "so_silent (snd c) \<Longrightarrow> md_pending m = [] \<Longrightarrow> md_pending (fst (set_attrs c m)) = []"
  by (rule set_attrs_induct) (simp_all add: set_attr_pending)

definition defined_call :: "set_call \<Rightarrow> bool" where
  "defined_call c = (so_silent (snd c) \<longrightarrow> so_unset (snd c) \<or> list_all (\<lambda>p. snd p \<noteq> JUndef) (fst c))"

lemma set_attrs_cache: "cache_ok m \<Longrightarrow> cache_ok (fst (set_attrs c m))"
  by (rule set_attrs_induct) (auto intro!: set_attr_cache dest: given_unset simp: cache_ok_def [of "set_id _ _"] cache_ok_def [of m])

lemma set_attrs_agree:
  assumes "agree m" "covered m" "defined_call c"
  shows "agree (fst (set_attrs c m)) \<and> covered (fst (set_attrs c m))"
proof (rule set_attrs_induct)
  show "agree (set_id (given_attrs c) m) \<and> covered (set_id (given_attrs c) m)"
    using assms by (simp add: agree_def covered_def)
next
  fix a v and mc :: "model \<times> string list"
  assume v: "(a, v) \<in> set (given_attrs c)" and p: "agree (fst mc) \<and> covered (fst mc)"
  have "so_unset (snd c) \<or> \<not> so_silent (snd c) \<or> v \<noteq> JUndef"
    using v assms(3) by (fastforce simp: defined_call_def given_attrs_def list_all_iff)
  with p v show "agree (fst (set_attr (snd c) (a, v) mc)) \<and> covered (fst (set_attr (snd c) (a, v) mc))"
    using set_attr_agree [of mc "snd c" v a] set_attr_covered [of mc "snd c" v a] given_unset [OF v] by blast
qed

section \<open>What handlers keep\<close>

text \<open>Handlers that do not use \<open>silent\<close>, as the views of the admin site.\<close>

definition loud :: "handlers \<Rightarrow> bool" where
  "loud H \<longleftrightarrow> (\<forall>e m. \<forall>c\<in>set (H e m). \<not> so_silent (snd c))"

text \<open>A phase of \<open>change\<close>: what holds whenever a handler can run in it.\<close>

locale phase =
  fixes P :: "model \<Rightarrow> bool"
  assumes in_change: "P m \<Longrightarrow> md_changing m \<and> md_silent m = []"
    and keeps_log: "P m \<Longrightarrow> P (m\<lparr>md_log := l\<rparr>)"
    and keeps_set: "P m \<Longrightarrow> \<not> so_silent (snd c) \<Longrightarrow> P (fst (set_attrs c m))"
begin

definition keeps :: "setter \<Rightarrow> bool" where
  "keeps sf \<longleftrightarrow> (\<forall>c m b m'. \<not> so_silent (snd c) \<longrightarrow> P m \<longrightarrow> sf c m = Some (b, m') \<longrightarrow> P m')"

lemma calls_keep:
  "keeps sf \<Longrightarrow> \<forall>c\<in>set cs. \<not> so_silent (snd c) \<Longrightarrow> P m \<Longrightarrow> m_calls sf cs m = Some m' \<Longrightarrow> P m'"
proof (induction cs arbitrary: m)
  case (Cons c cs)
  from Cons.prems(4) obtain b m1 where "sf c m = Some (b, m1)" "m_calls sf cs m1 = Some m'"
    by (auto split: option.splits)
  with Cons show ?case unfolding keeps_def by (metis list.set_intros)
qed simp

lemma trigger_keeps: "keeps sf \<Longrightarrow> loud H \<Longrightarrow> P m \<Longrightarrow> m_trigger sf H e m = Some m' \<Longrightarrow> P m'"
  using calls_keep [of sf "H e (m\<lparr>md_log := md_log m @ [e]\<rparr>)" "m\<lparr>md_log := md_log m @ [e]\<rparr>" m'] keeps_log
  unfolding m_trigger_def loud_def by blast

lemma attrs_keep: "keeps sf \<Longrightarrow> loud H \<Longrightarrow> P m \<Longrightarrow> m_attrs sf H as m = Some m' \<Longrightarrow> P m'"
  by (induction as arbitrary: m) (auto split: option.splits dest: trigger_keeps)

lemma change_keeps:
  assumes "keeps sf" "loud H" "P m" "m_change n sf H changes m = Some m'"
  shows "P m'"
proof -
  have c: "md_changing m" "md_silent m = []" using in_change [OF assms(3)] by simp_all
  then have u: "m\<lparr>md_changing := True, md_pending := md_pending m, md_silent := []\<rparr> = m" by (cases m) simp
  have "m_change n sf H changes m = m_attrs sf H changes m"
    unfolding m_change_def Let_def c(2) fold_simps u using c(1) by (simp split: option.split)
  with assms attrs_keep show ?thesis by simp
qed

lemma set_keeps: "loud H \<Longrightarrow> keeps (m_set n H V)"
proof (induction n)
  case 0
  show ?case by (simp add: keeps_def)
next
  case (Suc n)
  show ?case
    unfolding keeps_def
  proof (intro allI impI)
    fix c m b m'
    assume a: "\<not> so_silent (snd c)" "P m" "m_set (Suc n) H V c m = Some (b, m')"
    obtain m1 ch where s: "set_attrs c m = (m1, ch)" by (cases "set_attrs c m")
    show "P m'"
    proof (cases "m_validate V c m")
      case None
      with a s have "m_change n (m_set n H V) H ch m1 = Some m'" by auto
      moreover have "P m1" using keeps_set [OF a(2,1)] s by simp
      ultimately show ?thesis using change_keeps [OF Suc.IH [OF Suc.prems] Suc.prems] by blast
    next
      case (Some e)
      with a have "m_trigger (m_set n H V) H (MError e) m = Some m'" by auto
      with trigger_keeps [OF Suc.IH [OF Suc.prems] Suc.prems a(2)] show ?thesis by blast
    qed
  qed
qed

end

interpretation before: phase before_loop
proof unfold_locales
  fix m and c :: set_call
  assume "before_loop m" "\<not> so_silent (snd c)"
  then show "before_loop (fst (set_attrs c m))"
    using set_attrs_agree [of m c] set_attrs_cache [of m c] set_attrs_silent [of c m]
    by (simp add: before_loop_def set_attrs_fields defined_call_def)
qed (simp_all add: before_loop_def)

interpretation inside: phase in_loop
proof unfold_locales
  fix m and c :: set_call
  assume "in_loop m" "\<not> so_silent (snd c)"
  then show "in_loop (fst (set_attrs c m))"
    using set_attrs_cache [of m c] set_attrs_silent [of c m] by (simp add: in_loop_def set_attrs_fields)
qed (simp_all add: in_loop_def)

section \<open>What the calls leave\<close>

lemma settled_rest: "settled m \<Longrightarrow> \<not> md_changing m \<Longrightarrow> md_pending m = [] \<Longrightarrow> cache_ok m \<Longrightarrow> rest_ok m"
  by (simp add: rest_ok_def settled_def agree_def covered_def)

lemma before_pending_settled:
  assumes "before_loop m" "md_pending m = []"
  shows "settled m"
proof -
  from assms have n: "map_of (md_changed m) a = None" for a by (auto simp: before_loop_def covered_def)
  then have c: "md_changed m = []" by (simp flip: map_of_none_Nil)
  have "map_of (md_prev m) a = map_of (md_attrs m) a" for a
    using assms(1) n [of a] by (simp add: before_loop_def agree_def split: if_splits)
  with c assms(1) show ?thesis by (simp add: settled_def before_loop_def fun_eq_iff)
qed

lemma loop_settles:
  assumes "inside.keeps sf" "loud H"
  shows "in_loop m \<Longrightarrow> (md_pending m = [] \<Longrightarrow> settled m) \<Longrightarrow> m_loop n sf H m = Some m'
    \<Longrightarrow> rest_ok m' \<and> settled m'"
proof (induction n arbitrary: m)
  case (Suc n)
  show ?case
  proof (cases "md_pending m = []")
    case True
    with Suc.prems have "m' = m\<lparr>md_changing := False\<rparr>" "settled m" by simp_all
    with Suc.prems(1) True show ?thesis
      using settled_rest [of "m\<lparr>md_changing := False\<rparr>"] by (simp add: in_loop_def)
  next
    case False
    with Suc.prems(3) obtain m1 where m1: "m_trigger sf H MChange (m\<lparr>md_pending := []\<rparr>) = Some m1"
      "m_loop n sf H (settle m1) = Some m'" by (auto split: option.splits)
    have "in_loop (m\<lparr>md_pending := []\<rparr>)" using Suc.prems(1) by (simp add: in_loop_def)
    with m1(1) have i: "in_loop m1" using inside.trigger_keeps [OF assms] by blast
    then have "in_loop (settle m1)" by (simp add: in_loop_def settle_def)
    moreover have "md_pending (settle m1) = [] \<Longrightarrow> settled (settle m1)"
      using i by (simp add: settled_def settle_def in_loop_def)
    ultimately show ?thesis using Suc.IH m1(2) by blast
  qed
qed simp

text \<open>\<open>change\<close> called where no handler runs.\<close>

lemma change_settles:
  assumes "loud H" "\<not> md_changing m" "agree m" "covered m" "cache_ok m"
    and "m_change k (m_set n H V) H changes m = Some m'"
  shows "rest_ok m' \<and> settled m'"
proof -
  let ?m = "m\<lparr>md_changing := True, md_pending := fold add_key (md_silent m) (md_pending m), md_silent := []\<rparr>"
  obtain m1 where m1: "m_attrs (m_set n H V) H (fold add_key (md_silent m) changes) ?m = Some m1"
    "m_loop k (m_set n H V) H m1 = Some m'"
    using assms(2,6) by (auto simp: m_change_def split: option.splits)
  have "before_loop ?m"
    using assms by (auto simp: before_loop_def covered_def)
  then have b: "before_loop m1"
    using before.attrs_keep [OF before.set_keeps [OF assms(1)] assms(1) _ m1(1)] by blast
  then have "in_loop m1" by (simp add: before_loop_def in_loop_def)
  then show ?thesis
    using loop_settles [OF inside.set_keeps [OF assms(1)] assms(1)] before_pending_settled [OF b] m1(2) by blast
qed

lemma set_rest:
  assumes "loud H"
  shows "rest_ok m \<Longrightarrow> defined_call c \<Longrightarrow> m_set n H V c m = Some (b, m')
    \<Longrightarrow> rest_ok m' \<and> (b \<and> \<not> so_silent (snd c) \<longrightarrow> settled m')"
proof (induction n arbitrary: c m b m')
  case (Suc n)
  obtain m1 ch where s: "set_attrs c m = (m1, ch)" by (cases "set_attrs c m")
  have r: "\<not> md_changing m" "md_pending m = []" "agree m" "covered m" "cache_ok m"
    using Suc.prems(1) by (simp_all add: rest_ok_def)
  have k: "\<not> md_changing m1" "agree m1" "covered m1" "cache_ok m1" "so_silent (snd c) \<Longrightarrow> md_pending m1 = []"
    using set_attrs_fields(2) [of c m] set_attrs_agree [OF r(3,4) Suc.prems(2)] set_attrs_cache [OF r(5), of c]
      set_attrs_pending [of c m] r by (simp_all add: s)
  show ?case
  proof (cases "m_validate V c m")
    case None
    show ?thesis
    proof (cases "so_silent (snd c)")
      case True
      with Suc.prems(3) None s k show ?thesis by (auto simp: rest_ok_def)
    next
      case False
      with Suc.prems(3) None s have "m_change n (m_set n H V) H ch m1 = Some m'" by auto
      from change_settles [OF assms k(1-4) this] show ?thesis by blast
    qed
  next
    case (Some e)
    then have e: "b = False" "m_calls (m_set n H V) (H (MError e) (m\<lparr>md_log := md_log m @ [MError e]\<rparr>))
        (m\<lparr>md_log := md_log m @ [MError e]\<rparr>) = Some m'"
      using Suc.prems(3) by (auto simp: m_trigger_def)
    have "m_calls (m_set n H V) cs m2 = Some m' \<Longrightarrow> rest_ok m2 \<Longrightarrow> \<forall>c\<in>set cs. \<not> so_silent (snd c) \<Longrightarrow> rest_ok m'" for cs m2
    proof (induction cs arbitrary: m2)
      case (Cons c cs)
      from Cons.prems(1) obtain b1 m3 where m3: "m_set n H V c m2 = Some (b1, m3)" "m_calls (m_set n H V) cs m3 = Some m'"
        by (auto split: option.splits)
      have "defined_call c" using Cons.prems(3) by (simp add: defined_call_def)
      with Suc.IH [OF Cons.prems(2) _ m3(1)] have "rest_ok m3" by blast
      with Cons.IH [OF m3(2)] Cons.prems(3) show ?case by simp
    qed simp
    moreover have "rest_ok (m\<lparr>md_log := md_log m @ [MError e]\<rparr>)"
      using Suc.prems(1) by (simp add: rest_ok_def)
    ultimately show ?thesis using e assms unfolding loud_def by blast
  qed
qed simp

lemma escape_value: "cache_ok m \<Longrightarrow> fst (m_escape m a) = escaped_value (m_get m a)"
  by (auto simp: m_escape_def cache_ok_def Let_def split: option.splits)

lemma escape_fields:
  "md_attrs (snd (m_escape m a)) = md_attrs m" "md_changed (snd (m_escape m a)) = md_changed m"
  "md_silent (snd (m_escape m a)) = md_silent m" "md_pending (snd (m_escape m a)) = md_pending m"
  "md_prev (snd (m_escape m a)) = md_prev m" "md_changing (snd (m_escape m a)) = md_changing m"
  by (simp_all add: m_escape_def Let_def split: option.splits)

lemma escape_cache: "cache_ok m \<Longrightarrow> cache_ok (snd (m_escape m a))"
  by (auto simp: m_escape_def cache_ok_def m_get_def Let_def split: option.splits)

lemma escape_rest: "rest_ok m \<Longrightarrow> rest_ok (snd (m_escape m a))"
  unfolding rest_ok_def agree_def covered_def m_get_def escape_fields using escape_cache by blast

fun defined_op :: "model_op \<Rightarrow> bool" where
  "defined_op (MSet attrs silent) = (silent \<longrightarrow> list_all (\<lambda>p. snd p \<noteq> JUndef) attrs)"
| "defined_op _ = True"

lemma do_rest:
  assumes "loud H" "rest_ok m" "defined_op op" "m_do n H V op m = Some m'"
  shows "rest_ok m'"
proof -
  have set: "rest_ok m'" if "map_option snd (m_set n H V c m) = Some m'" "defined_call c" for c
    using that set_rest [OF assms(1,2), of c n V] by auto
  show ?thesis
  proof (cases op)
    case (MSet as b)
    with assms(3,4) set [of "(as, \<lparr>so_silent = b, so_unset = False\<rparr>)"] show ?thesis by (simp add: defined_call_def)
  next
    case (MUnset a b)
    with assms(4) set [of "unset_call a b"] show ?thesis by (simp add: defined_call_def unset_call_def)
  next
    case (MClear b)
    with assms(4) set [of "clear_call b m"] show ?thesis by (simp add: defined_call_def clear_call_def)
  next
    case MFire
    with assms show ?thesis using change_settles [OF assms(1), of m n n V "[]" m'] by (simp add: rest_ok_def)
  next
    case (MEscape a)
    with assms(2,4) escape_rest [of m a] show ?thesis by simp
  qed
qed

lemma new_rest: "rest_ok (m_new d as)"
proof -
  let ?m = "\<lparr>md_attrs = [], md_escaped = [], md_changed = [], md_silent = [], md_pending = [], md_prev = [],
               md_changing = False, md_id = JUndef, md_log = []\<rparr>"
  let ?c = "(obj_extend (obj_extend [] d) as, \<lparr>so_silent = True, so_unset = False\<rparr>)"
  have "cache_ok (fst (set_attrs ?c ?m))" by (rule set_attrs_cache) (simp add: cache_ok_def)
  moreover have "\<not> md_changing (fst (set_attrs ?c ?m))" by (simp add: set_attrs_fields)
  moreover have "m_new d as = (fst (set_attrs ?c ?m))\<lparr>md_changed := [], md_silent := [], md_pending := [],
      md_prev := md_attrs (fst (set_attrs ?c ?m))\<rparr>"
    by (simp add: m_new_def set_attrs_def given_attrs_def Let_def)
  ultimately show ?thesis by (simp add: rest_ok_def) (simp add: agree_def covered_def)
qed

lemma run_rest:
  "loud H \<Longrightarrow> rest_ok m \<Longrightarrow> list_all defined_op ops \<Longrightarrow> m_run n H V ops m = Some m' \<Longrightarrow> rest_ok m'"
  by (induction ops arbitrary: m) (auto split: option.splits dest: do_rest)

text \<open>Handlers that only read: every call returns.\<close>

definition readers :: handlers where
  "readers e m = []"

lemma loud_readers: "loud readers"
  by (simp add: loud_def readers_def)

lemma trigger_readers [simp]: "m_trigger sf readers e m = Some (m\<lparr>md_log := md_log m @ [e]\<rparr>)"
  by (simp add: m_trigger_def readers_def)

lemma attrs_readers:
  "m_attrs sf readers as m = Some (m\<lparr>md_log := md_log m @ map (\<lambda>a. MChangeAttr a (m_get m a)) as\<rparr>)"
  by (induction as arbitrary: m) (simp_all add: m_get_def)

lemma loop_returns: "m_loop (Suc (Suc k)) sf readers m \<noteq> None"
  by (simp add: settle_def)

lemma change_returns: "m_change (Suc (Suc k)) sf readers ch m \<noteq> None"
  unfolding m_change_def Let_def attrs_readers by (simp add: loop_returns del: m_loop.simps not_None_eq)

lemma set_returns: "m_set (Suc (Suc (Suc k))) readers V c m \<noteq> None"
  using change_returns [of k "m_set (Suc (Suc k)) readers V"]
  unfolding m_set.simps(2) [of "Suc (Suc k)"] by (auto split: option.splits prod.splits)

lemma run_returns: "m_run (Suc (Suc (Suc k))) readers V ops m \<noteq> None"
proof (induction ops arbitrary: m)
  case (Cons op ops)
  have "m_do (Suc (Suc (Suc k))) readers V op m \<noteq> None"
    using set_returns [of k V] change_returns [of "Suc k"] by (cases op) (simp_all del: m_set.simps)
  with Cons.IH show ?case by (auto split: option.splits)
qed simp

text \<open>
  C5: What a model knows of its changes, when handlers set attributes only aloud and silent calls put no
  \<open>undefined\<close>: whatever calls of \<open>set\<close>, \<open>unset\<close>, \<open>clear\<close>, \<open>change\<close> and \<open>escape\<close>
  have returned, silent or not, the model says of an attribute that it has changed exactly if its value is not
  the one of the last change event; \<open>escape\<close> never shows a stale value; and when a further \<open>set\<close> that is not
  silent returns and was accepted, nothing is left to report. With handlers that only read, all these calls return:
  a nesting of three is enough.
\<close>

theorem model_settles:
  assumes "loud H" "list_all defined_op ops" "m_run n H V ops (m_new d as) = Some m"
  shows "m_hasChangedAttr m a = (map_of (md_attrs m) a \<noteq> map_of (md_prev m) a)
     \<and> fst (m_escape m a) = escaped_value (m_get m a)
     \<and> (case m_set k H V (bs, \<lparr>so_silent = False, so_unset = u\<rparr>) m of
          Some (True, m') \<Rightarrow> \<not> m_hasChanged m' \<and> map_of (md_prev m') = map_of (md_attrs m') \<and> md_pending m' = []
        | _ \<Rightarrow> True)
     \<and> m_run (Suc (Suc (Suc j))) readers V ops (m_new d as) \<noteq> None
     \<and> m_set (Suc (Suc (Suc j))) readers V c m \<noteq> None"
proof -
  have r: "rest_ok m" using run_rest [OF assms(1) new_rest assms(2,3)] .
  have h: "m_hasChangedAttr m a = (map_of (md_attrs m) a \<noteq> map_of (md_prev m) a)"
    using r by (simp add: rest_ok_def agree_def m_hasChangedAttr_def has_in_def)
  have e: "fst (m_escape m a) = escaped_value (m_get m a)" using r by (simp add: rest_ok_def escape_value)
  have "rest_ok m' \<and> settled m'" if "m_set k H V (bs, \<lparr>so_silent = False, so_unset = u\<rparr>) m = Some (True, m')" for m'
    using set_rest [OF assms(1) r _ that] by (simp add: defined_call_def)
  with h e run_returns set_returns show ?thesis
    by (auto simp: rest_ok_def settled_def m_hasChanged_def simp del: m_set.simps split: option.splits bool.splits)
qed

text \<open>A handler that keeps the attribute \<open>b\<close> a copy of \<open>a\<close>, after a silent change of \<open>a\<close>.\<close>

definition copy_handler :: handlers where
  "copy_handler e m = (case e of
      MChangeAttr a v \<Rightarrow> if a = ''a'' then [([(''b'', v)], \<lparr>so_silent = False, so_unset = False\<rparr>)] else []
    | _ \<Rightarrow> [])"

lemma model_settles_witness:
  "\<exists>m. m_run 9 copy_handler (\<lambda>_. None) [MSet [(''a'', JNum 1)] True] (m_new [(''a'', JNum 0)] []) = Some m
     \<and> m_hasChangedAttr m ''a'' \<and> \<not> m_hasChangedAttr m ''b''
     \<and> (case m_set 9 copy_handler (\<lambda>_. None) ([(''c'', JNum 2)], \<lparr>so_silent = False, so_unset = False\<rparr>) m of
          Some (b, m') \<Rightarrow> b \<and> \<not> m_hasChanged m' \<and> m_get m' ''b'' = JNum 1
            \<and> md_log m' = [MChangeAttr ''c'' (JNum 2), MChangeAttr ''a'' (JNum 1), MChangeAttr ''b'' (JNum 1), MChange]
        | None \<Rightarrow> False)"
proof -
  have l: "loud copy_handler" by (auto simp: loud_def copy_handler_def split: model_event.split)
  let ?ops = "[MSet [(''a'', JNum 1)] True]"
  have d: "list_all defined_op ?ops" by simp
  obtain m where m: "m_run 9 copy_handler (\<lambda>_. None) ?ops (m_new [(''a'', JNum 0)] []) = Some m"
    "map_option (\<lambda>m. (md_attrs m, md_prev m)) (m_run 9 copy_handler (\<lambda>_. None) ?ops (m_new [(''a'', JNum 0)] []))
       = Some ([(''a'', JNum 1)], [(''a'', JNum 0)])"
    "map_option (\<lambda>m. map_option (\<lambda>(b, m'). (b, m_get m' ''b'', md_log m'))
        (m_set 9 copy_handler (\<lambda>_. None) ([(''c'', JNum 2)], \<lparr>so_silent = False, so_unset = False\<rparr>) m))
       (m_run 9 copy_handler (\<lambda>_. None) ?ops (m_new [(''a'', JNum 0)] []))
     = Some (Some (True, JNum 1, [MChangeAttr ''c'' (JNum 2), MChangeAttr ''a'' (JNum 1), MChangeAttr ''b'' (JNum 1), MChange]))"
  proof -
    have "m_run 9 copy_handler (\<lambda>_. None) ?ops (m_new [(''a'', JNum 0)] []) \<noteq> None" by code_simp
    then obtain m where "m_run 9 copy_handler (\<lambda>_. None) ?ops (m_new [(''a'', JNum 0)] []) = Some m" by blast
    then show thesis by (rule that) code_simp+
  qed
  from model_settles [OF l d m(1), of "''a''" 9 "[(''c'', JNum 2)]" False] model_settles [OF l d m(1), of "''b''" 9 "[]" False] m
  show ?thesis by (auto split: option.splits)
qed

section \<open>Which events a \<open>set\<close> fires\<close>

lemma change_readers:
  assumes "\<not> md_changing m" "md_silent m = []"
  shows "\<exists>m'. m_change (Suc (Suc k)) sf readers ch m = Some m' \<and> md_attrs m' = md_attrs m
    \<and> md_log m' = md_log m @ map (\<lambda>a. MChangeAttr a (m_get m a)) ch @ (if md_pending m = [] then [] else [MChange])"
  using assms by (simp add: m_change_def attrs_readers m_get_def settle_def)

lemma set_attr_attrs: "md_attrs (fst (set_attr op (a, v) mc)) = put_attr op a v (md_attrs (fst mc))"
  by (simp add: set_attr_def Let_def)

lemma fold_set_attr:
  assumes "\<not> so_silent op" "\<not> so_unset op"
  shows "distinct (map fst as) \<Longrightarrow> \<forall>a\<in>fst ` set as. map_of (md_attrs m) a = map_of A a \<and> a \<notin> set ch \<Longrightarrow>
    snd (fold (set_attr op) as (m, ch)) = ch @ map fst (filter (\<lambda>p. get_in A (fst p) \<noteq> snd p) as)
    \<and> set (md_pending (fst (fold (set_attr op) as (m, ch))))
        = (set (md_pending m) - fst ` set as) \<union> fst ` {p \<in> set as. map_of (md_prev m) (fst p) \<noteq> Some (snd p)}
    \<and> md_attrs (fst (fold (set_attr op) as (m, ch))) = obj_extend (md_attrs m) as"
proof (induction as arbitrary: m ch)
  case Nil
  show ?case by (simp add: obj_extend_def)
next
  case (Cons p as)
  obtain a v where p: "p = (a, v)" by (cases p)
  obtain m1 ch1 where s: "set_attr op (a, v) (m, ch) = (m1, ch1)" by (cases "set_attr op (a, v) (m, ch)")
  have A: "get_in (md_attrs m) a = get_in A a" using Cons.prems(2) by (simp add: p get_in_def)
  have ch1: "ch1 = ch @ (if get_in A a \<noteq> v then [a] else [])"
    using set_attr_changes [of op a v "(m, ch)"] Cons.prems(2) A assms by (simp add: s differs_def p add_key_def)
  have dev: "deviates op a v m \<longleftrightarrow> map_of (md_prev m) a \<noteq> Some v"
    using assms by (auto simp: deviates_def get_in_def has_in_def map_of_put split: option.splits)
  have m1: "set (md_pending m1) = (set (md_pending m) - {a}) \<union> (if map_of (md_prev m) a \<noteq> Some v then {a} else {})"
    "map_of (md_attrs m1) = (map_of (md_attrs m))(a \<mapsto> v)" "md_prev m1 = md_prev m" "md_attrs m1 = obj_set a v (md_attrs m)"
    using set_set_pending [of op a v "(m, ch)"] map_of_set_attr [of op a v "(m, ch)"] set_attr_fields(1) [of op "(a, v)" "(m, ch)"] assms
      set_attr_attrs [of op a v "(m, ch)"]
    by (simp_all add: s dev put_attr_def)
  have "\<forall>b\<in>fst ` set as. map_of (md_attrs m1) b = map_of A b \<and> b \<notin> set ch1"
    using Cons.prems by (auto simp: m1(2) p ch1)
  with Cons.IH [of m1 ch1] Cons.prems(1) have h:
    "snd (fold (set_attr op) as (m1, ch1)) = ch1 @ map fst (filter (\<lambda>p. get_in A (fst p) \<noteq> snd p) as)"
    "set (md_pending (fst (fold (set_attr op) as (m1, ch1))))
        = (set (md_pending m1) - fst ` set as) \<union> fst ` {p \<in> set as. map_of (md_prev m1) (fst p) \<noteq> Some (snd p)}"
    "md_attrs (fst (fold (set_attr op) as (m1, ch1))) = obj_extend (md_attrs m1) as" by simp_all
  have a: "a \<notin> fst ` set as" using Cons.prems(1) by (simp add: p)
  have e: "{q \<in> set (p # as). map_of (md_prev m) (fst q) \<noteq> Some (snd q)}
      = (if map_of (md_prev m) a \<noteq> Some v then {(a, v)} else {}) \<union> {q \<in> set as. map_of (md_prev m) (fst q) \<noteq> Some (snd q)}"
    unfolding p by (cases "map_of (md_prev m) a = Some v") auto
  have "(set (md_pending m1) - fst ` set as) = (set (md_pending m) - fst ` set (p # as)) \<union> (if map_of (md_prev m) a \<noteq> Some v then {a} else {})"
    unfolding m1(1) p using a by auto
  with h(2) e have "set (md_pending (fst (fold (set_attr op) as (m1, ch1))))
      = (set (md_pending m) - fst ` set (p # as)) \<union> fst ` {q \<in> set (p # as). map_of (md_prev m) (fst q) \<noteq> Some (snd q)}"
    unfolding m1(3) by (simp add: image_Un)
  with h(1,3) show ?case by (simp add: p s ch1 m1(4) obj_extend_def)
qed

text \<open>
  C18: The events of \<open>set\<close>: with handlers that only read, no silent change outstanding, silent calls that put no
  \<open>undefined\<close>, and attributes that pass the validation, a loud \<open>set\<close> of distinct names returns
  and reports exactly the attributes whose values are new, in the order in which they are given, each
  with its new value, and then one \<open>change\<close> unless the model had every attribute with its value already.
\<close>

theorem set_fires_exactly:
  assumes "list_all defined_op ops" "m_run n readers V ops (m_new d as) = Some m" "md_silent m = []"
    and "distinct (map fst bs)" "V (obj_extend (md_attrs m) bs) = None"
  shows "\<exists>m'. m_set (Suc (Suc (Suc k))) readers V (bs, \<lparr>so_silent = False, so_unset = False\<rparr>) m = Some (True, m')
     \<and> md_attrs m' = obj_extend (md_attrs m) bs
     \<and> md_log m' = md_log m @ map (\<lambda>(a, v). MChangeAttr a v) (filter (\<lambda>(a, v). m_get m a \<noteq> v) bs)
         @ (if list_all (\<lambda>(a, v). map_of (md_attrs m) a = Some v) bs then [] else [MChange])"
proof -
  let ?op = "\<lparr>so_silent = False, so_unset = False\<rparr>"
  have r: "rest_ok m" using run_rest [OF loud_readers new_rest assms(1,2)] .
  have "map_of (md_changed m) a = None" for a using r assms(3) by (auto simp: rest_ok_def covered_def)
  then have prev: "map_of (md_prev m) = map_of (md_attrs m)"
    using r by (auto simp: rest_ok_def agree_def fun_eq_iff split: if_splits)
  obtain m1 ch where s: "set_attrs (bs, ?op) m = (m1, ch)" by (cases "set_attrs (bs, ?op) m")
  have f: "ch = map fst (filter (\<lambda>p. m_get m (fst p) \<noteq> snd p) bs)"
    "set (md_pending m1) = fst ` {p \<in> set bs. map_of (md_attrs m) (fst p) \<noteq> Some (snd p)}"
    "md_attrs m1 = obj_extend (md_attrs m) bs"
    using fold_set_attr [of ?op bs "set_id bs m" "md_attrs m" "[]"] assms(4) s r
    by (auto simp: set_attrs_def given_attrs_def m_get_def prev rest_ok_def)
  have "map_of (md_attrs m1) a = Some v" if "(a, v) \<in> set bs" for a v
  proof -
    have "distinct (map fst bs) \<Longrightarrow> (a, v) \<in> set bs \<Longrightarrow> map_of (obj_extend xs bs) a = Some v" for xs
    proof (induction bs arbitrary: xs)
      case (Cons p bs)
      have n: "a \<notin> fst ` set bs \<Longrightarrow> map_of (obj_extend xs bs) a = map_of xs a" for xs
        by (induction bs arbitrary: xs) (auto simp: obj_extend_def)
      show ?case
      proof (cases "p = (a, v)")
        case True
        with Cons.prems(1) n [of "obj_set a v xs"] show ?thesis by (simp add: obj_extend_def)
      next
        case False
        with Cons show ?thesis by (auto simp: obj_extend_def split: prod.splits)
      qed
    qed simp
    with that assms(4) f(3) show ?thesis by simp
  qed
  then have g: "map (\<lambda>a. MChangeAttr a (m_get m1 a)) ch = map (\<lambda>(a, v). MChangeAttr a v) (filter (\<lambda>(a, v). m_get m a \<noteq> v) bs)"
    unfolding f(1) map_map split_def by (intro map_cong) (auto simp: m_get_def get_in_def)
  have p: "md_pending m1 = [] \<longleftrightarrow> list_all (\<lambda>(a, v). map_of (md_attrs m) a = Some v) bs"
    using f(2) by (auto simp: list_all_iff simp flip: set_empty)
  have k: "\<not> md_changing m1" "md_silent m1 = []" "md_log m1 = md_log m"
    using set_attrs_fields [of "(bs, ?op)" m] set_attrs_silent [of "(bs, ?op)" m] r assms(3) by (simp_all add: s rest_ok_def)
  have v: "m_validate V (bs, ?op) m = None" using assms(5) by (simp add: m_validate_def given_attrs_def)
  obtain m' where m': "m_change (Suc (Suc k)) (m_set (Suc (Suc k)) readers V) readers ch m1 = Some m'" "md_attrs m' = md_attrs m1"
    "md_log m' = md_log m @ map (\<lambda>a. MChangeAttr a (m_get m1 a)) ch @ (if md_pending m1 = [] then [] else [MChange])"
    using change_readers [OF k(1,2), of k "m_set (Suc (Suc k)) readers V" ch] k(3) by auto
  then have "m_set (Suc (Suc (Suc k))) readers V (bs, ?op) m = Some (True, m')"
    unfolding m_set.simps(2) [of "Suc (Suc k)"] v s by simp
  with m'(2,3) show ?thesis unfolding g p f(3) by blast
qed

lemma set_fires_witness:
  "\<exists>m m'. m_run 9 readers (\<lambda>_. None) [MSet [(''a'', JNum 1)] False] (m_new [(''a'', JNum 0)] []) = Some m
     \<and> m_set 3 readers (\<lambda>_. None) ([(''a'', JNum 1), (''b'', JNum 2)], \<lparr>so_silent = False, so_unset = False\<rparr>) m = Some (True, m')
     \<and> md_log m' = md_log m @ [MChangeAttr ''b'' (JNum 2), MChange]"
proof -
  let ?run = "m_run 9 readers (\<lambda>_. None) [MSet [(''a'', JNum 1)] False] (m_new [(''a'', JNum 0)] [])"
  have "map_option (\<lambda>m. (md_attrs m, md_silent m)) ?run = Some ([(''a'', JNum 1)], [])" by code_simp
  then obtain m where m: "?run = Some m" "md_attrs m = [(''a'', JNum 1)]" "md_silent m = []" by auto
  have d: "list_all defined_op [MSet [(''a'', JNum 1)] False]" by simp
  have b: "distinct (map fst [(''a'', JNum 1), (''b'', JNum 2)])" by simp
  from set_fires_exactly [OF d m(1,3) b, of 0] show ?thesis
    unfolding m(1) by (auto simp: m(2) m_get_def get_in_def numeral_3_eq_3)
qed

section \<open>What the loop does not settle\<close>

text \<open>
  Silently setting an attribute that the model does not have to \<open>undefined\<close> is a change that no later
  \<open>change\<close> reports: it stays in \<open>changed\<close>, and no event is fired.
\<close>

lemma silent_undefined_unreported:
  "map_option (\<lambda>m. (m_hasChanged m, md_log m)) (m_run 9 readers (\<lambda>_. None) [MSet [(''a'', JUndef)] True, MFire] (m_new [] []))
     = Some (True, [])"
  by code_simp

end
