(* ===== verification/Backbone_Sync.thy ===== *)
theory Backbone_Sync
  imports Backbone_Model
begin

text \<open>
  \<open>fetch\<close>, \<open>save\<close>, \<open>destroy\<close> and \<open>url\<close> of \<open>Backbone.Model\<close>, the request that \<open>Backbone.sync\<close> makes, and
  what the answers do, on the model of \<open>Backbone_Model\<close>. Answers come in any order, each for one of the
  requests under way. The emulations for old servers, which the program leaves off, are not modelled.
\<close>

section \<open>The state\<close>

text \<open>The options of a call: \<open>op_success\<close> and \<open>op_error\<close> say whether callbacks are given.\<close>

record sync_options =
  op_wait :: bool
  op_silent :: bool
  op_success :: bool
  op_error :: bool
  op_url :: "string option"

datatype continuation = ThenFetch sync_options | ThenSave "(string \<times> jsval) list" sync_options | ThenDestroy sync_options

record request_sent =
  rq_type :: string
  rq_url :: string
  rq_data :: "(string \<times> jsval) list option"
  rq_then :: continuation

datatype sync_event = SSync | SError | SDestroy | CallSuccess | CallError

record synced =
  sy_model :: model
  sy_open :: "request_sent list"
  sy_sent :: "request_sent list"
  sy_events :: "sync_event list"

text \<open>\<open>url\<close>, from the address of the model or of its collection; \<open>None\<close> is the error of a model without one.\<close>

definition base_url :: "string option \<Rightarrow> string option \<Rightarrow> string option" where
  "base_url urlRoot collection_url = (case urlRoot of
      Some u \<Rightarrow> if u \<noteq> '''' then Some u else (case collection_url of Some c \<Rightarrow> if c \<noteq> '''' then Some c else None | None \<Rightarrow> None)
    | None \<Rightarrow> (case collection_url of Some c \<Rightarrow> if c \<noteq> '''' then Some c else None | None \<Rightarrow> None))"

definition model_url :: "string option \<Rightarrow> string option \<Rightarrow> model \<Rightarrow> string option" where
  "model_url urlRoot collection_url m = (case base_url urlRoot collection_url of None \<Rightarrow> None
     | Some base \<Rightarrow> Some (if m_isNew m then base
         else base @ (if last base = CHR ''/'' then '''' else ''/'') @ encodeURIComponent (to_str (md_id m))))"

definition method_type :: "string \<Rightarrow> string" where
  "method_type method = (if method = ''create'' then ''POST'' else if method = ''update'' then ''PUT''
     else if method = ''delete'' then ''DELETE'' else ''GET'')"

text \<open>The request, with the attributes as its data where something is stored; \<open>None\<close> where it has no address.\<close>

definition backbone_sync :: "string \<Rightarrow> string option \<Rightarrow> sync_options \<Rightarrow> continuation \<Rightarrow> synced \<Rightarrow> synced option" where
  "backbone_sync method addr op k s =
     (let r = (\<lambda>u. \<lparr>rq_type = method_type method, rq_url = u,
           rq_data = (if method = ''create'' \<or> method = ''update'' then Some (md_attrs (sy_model s)) else None), rq_then = k\<rparr>)
      in case op_url op of
           Some u \<Rightarrow> if u \<noteq> '''' then Some (s\<lparr>sy_open := sy_open s @ [r u], sy_sent := sy_sent s @ [r u]\<rparr>)
             else map_option (\<lambda>u. s\<lparr>sy_open := sy_open s @ [r u], sy_sent := sy_sent s @ [r u]\<rparr>) addr
         | None \<Rightarrow> map_option (\<lambda>u. s\<lparr>sy_open := sy_open s @ [r u], sy_sent := sy_sent s @ [r u]\<rparr>) addr)"

section \<open>The calls\<close>

text \<open>\<open>set\<close> with options that may have a callback for errors, which is called in place of the event.\<close>

definition sync_set :: "nat \<Rightarrow> handlers \<Rightarrow> validator \<Rightarrow> bool \<Rightarrow> set_call \<Rightarrow> synced \<Rightarrow> (bool \<times> synced) option" where
  "sync_set n H V has_error c s =
     (if has_error \<and> m_validate V c (sy_model s) \<noteq> None
      then Some (False, s\<lparr>sy_events := sy_events s @ [CallError]\<rparr>)
      else map_option (\<lambda>(b, m). (b, s\<lparr>sy_model := m\<rparr>)) (m_set n H V c (sy_model s)))"

definition sync_fetch :: "string option \<Rightarrow> string option \<Rightarrow> sync_options \<Rightarrow> synced \<Rightarrow> synced option" where
  "sync_fetch urlRoot curl op s = backbone_sync ''read'' (model_url urlRoot curl (sy_model s)) op (ThenFetch op) s"

definition fire :: "bool \<Rightarrow> sync_event \<Rightarrow> sync_event \<Rightarrow> synced \<Rightarrow> synced" where
  "fire given callback event s = s\<lparr>sy_events := sy_events s @ [if given then callback else event]\<rparr>"

text \<open>
  \<open>save\<close>: \<open>attrs\<close> is \<open>None\<close> for \<open>null\<close>. The result says whether a request was made; \<open>None\<close> where the fuel
  of \<open>set\<close> is used up or there is no address. With \<open>wait\<close> the attributes are validated, set silently for
  the request, and then the old ones are set again.
\<close>

definition plain_call :: "bool \<Rightarrow> (string \<times> jsval) list \<Rightarrow> set_call" where
  "plain_call silent attrs = (attrs, \<lparr>so_silent = silent, so_unset = False\<rparr>)"

definition sync_validate :: "nat \<Rightarrow> handlers \<Rightarrow> validator \<Rightarrow> sync_options \<Rightarrow> (string \<times> jsval) list \<Rightarrow> synced \<Rightarrow> (bool \<times> synced) option" where
  "sync_validate n H V op attrs s =
     (case m_validate V (plain_call (op_silent op) attrs) (sy_model s) of
        None \<Rightarrow> Some (True, s)
      | Some e \<Rightarrow> if op_error op then Some (False, s\<lparr>sy_events := sy_events s @ [CallError]\<rparr>)
          else map_option (\<lambda>m. (False, s\<lparr>sy_model := m\<rparr>)) (m_trigger (m_set n H V) H (MError e) (sy_model s)))"

definition sync_save :: "nat \<Rightarrow> handlers \<Rightarrow> validator \<Rightarrow> string option \<Rightarrow> string option \<Rightarrow> (string \<times> jsval) list option
    \<Rightarrow> sync_options \<Rightarrow> synced \<Rightarrow> (bool \<times> synced) option" where
  "sync_save n H V urlRoot curl attrs op s =
     (case (if op_wait op then sync_validate n H V op (case attrs of Some a \<Rightarrow> a | None \<Rightarrow> []) s else Some (True, s)) of
        None \<Rightarrow> None
      | Some (False, s1) \<Rightarrow> Some (False, s1)
      | Some (True, s1) \<Rightarrow>
          (case (case attrs of None \<Rightarrow> Some (True, s1)
                 | Some a \<Rightarrow> sync_set n H V (op_error op) (plain_call (op_wait op \<or> op_silent op) a) s1) of
             None \<Rightarrow> None
           | Some (False, s2) \<Rightarrow> Some (False, s2)
           | Some (True, s2) \<Rightarrow>
               (case backbone_sync (if m_isNew (sy_model s2) then ''create'' else ''update'')
                       (model_url urlRoot curl (sy_model s2)) op (ThenSave (case attrs of Some a \<Rightarrow> a | None \<Rightarrow> []) op) s2 of
                  None \<Rightarrow> None
                | Some s3 \<Rightarrow>
                    if op_wait op
                    then map_option (\<lambda>(b, s4). (True, s4)) (sync_set n H V (op_error op) (plain_call True (md_attrs (sy_model s1))) s3)
                    else Some (True, s3))))"

definition sync_destroy :: "string option \<Rightarrow> string option \<Rightarrow> sync_options \<Rightarrow> synced \<Rightarrow> synced option" where
  "sync_destroy urlRoot curl op s =
     (if m_isNew (sy_model s) then Some (s\<lparr>sy_events := sy_events s @ [SDestroy]\<rparr>)
      else map_option (\<lambda>s'. if op_wait op then s' else s'\<lparr>sy_events := sy_events s' @ [SDestroy]\<rparr>)
        (backbone_sync ''delete'' (model_url urlRoot curl (sy_model s)) op (ThenDestroy op) s))"

section \<open>The answers\<close>

text \<open>The answer of the request at a place of the list: \<open>Some\<close> attributes for a success.\<close>

definition close_request :: "nat \<Rightarrow> synced \<Rightarrow> synced" where
  "close_request i s = s\<lparr>sy_open := take i (sy_open s) @ drop (Suc i) (sy_open s)\<rparr>"

definition sync_answer :: "nat \<Rightarrow> handlers \<Rightarrow> validator \<Rightarrow> nat \<Rightarrow> (string \<times> jsval) list option \<Rightarrow> synced \<Rightarrow> synced option" where
  "sync_answer n H V i resp s =
     (case nth_opt (sy_open s) i of None \<Rightarrow> Some s
      | Some r \<Rightarrow>
          let s = close_request i s in
          (case resp of
             None \<Rightarrow> (case rq_then r of ThenFetch op \<Rightarrow> Some (fire (op_error op) CallError SError s)
               | ThenSave a op \<Rightarrow> Some (fire (op_error op) CallError SError s)
               | ThenDestroy op \<Rightarrow> Some (fire (op_error op) CallError SError s))
           | Some attrs \<Rightarrow>
               (case rq_then r of
                  ThenFetch op \<Rightarrow> map_option (\<lambda>(b, s'). if b \<and> op_success op then s'\<lparr>sy_events := sy_events s' @ [CallSuccess]\<rparr> else s')
                    (sync_set n H V (op_error op) (plain_call (op_silent op) attrs) s)
                | ThenSave a op \<Rightarrow> map_option (\<lambda>(b, s'). if b then fire (op_success op) CallSuccess SSync s' else s')
                    (sync_set n H V (op_error op) (plain_call (op_silent op) (if op_wait op then obj_extend a attrs else attrs)) s)
                | ThenDestroy op \<Rightarrow> Some (fire (op_success op) CallSuccess SSync
                    (if op_wait op then s\<lparr>sy_events := sy_events s @ [SDestroy]\<rparr> else s)))))"


section \<open>Addresses\<close>

lemma slash_not_encoded: "CHR ''/'' \<notin> set (encodeURIComponent s)"
proof (induction s)
  case (Cons c s)
  have "CHR ''/'' \<notin> set (encode_char c)"
  proof
    assume "CHR ''/'' \<in> set (encode_char c)"
    moreover have "\<not> unreserved (CHR ''/'')" "hex_value (CHR ''/'') = None" by code_simp+
    moreover have "hex_char d \<noteq> CHR ''/''" if "d < 16" for d
      using hex_value_hex_char [OF that] \<open>hex_value (CHR ''/'') = None\<close> by auto
    ultimately show False
      using of_char_less [of c] by (auto simp: encode_char_def less_mult_imp_div_less split: if_splits)
  qed
  with Cons show ?case by simp
qed simp

text \<open>
  The address of a model: without an id it is that of the collection, and otherwise one more part of the
  path, after exactly one slash, which the server decodes to the id, whatever characters the id has.
\<close>

theorem model_url_reads_id:
  "case base_url urlRoot curl of None \<Rightarrow> model_url urlRoot curl m = None
   | Some base \<Rightarrow> (if m_isNew m then model_url urlRoot curl m = Some base
       else \<exists>p e. model_url urlRoot curl m = Some (p @ CHR ''/'' # e) \<and> p = (if last base = CHR ''/'' then butlast base else base)
          \<and> CHR ''/'' \<notin> set e \<and> form_decode e = Some (to_str (md_id m)))"
proof (cases "base_url urlRoot curl")
  case None
  then show ?thesis by (simp add: model_url_def)
next
  case (Some base)
  then have "base \<noteq> []" by (auto simp: base_url_def split: option.splits if_splits)
  then have "last base = CHR ''/'' \<Longrightarrow> base = butlast base @ [CHR ''/'']" by (metis append_butlast_last_id)
  then show ?thesis
    using Some slash_not_encoded by (auto simp: model_url_def intro!: exI [of _ "encodeURIComponent (to_str (md_id m))"])
qed

section \<open>Saving\<close>

lemma map_of_obj_extend: "map_of (obj_extend xs ys) a = (case map_of (rev ys) a of Some v \<Rightarrow> Some v | None \<Rightarrow> map_of xs a)"
proof (induction ys arbitrary: xs)
  case (Cons y ys)
  obtain k v where y: "y = (k, v)" by (cases y)
  have "map_of (obj_extend xs (y # ys)) a = map_of (obj_extend (obj_set k v xs) ys) a" by (simp add: obj_extend_def y)
  also have "\<dots> = (case map_of (rev ys) a of Some w \<Rightarrow> Some w | None \<Rightarrow> if a = k then Some v else map_of xs a)"
    by (simp add: Cons.IH split: option.split)
  also have "\<dots> = (case map_of (rev (y # ys)) a of Some w \<Rightarrow> Some w | None \<Rightarrow> map_of xs a)"
    by (simp add: y map_of_append map_add_def split: option.split)
  finally show ?case .
qed (simp add: obj_extend_def)

lemma set_attrs_plain:
  "md_attrs (fst (set_attrs (plain_call b as) m)) = obj_extend (md_attrs m) as"
proof -
  have "md_attrs (fst (fold (set_attr \<lparr>so_silent = b, so_unset = False\<rparr>) as mc)) = obj_extend (md_attrs (fst mc)) as" for mc
  proof (induction as arbitrary: mc)
    case (Cons p as)
    then show ?case by (cases p) (simp add: set_attr_attrs put_attr_def obj_extend_def)
  qed (simp add: obj_extend_def)
  then show ?thesis by (simp add: set_attrs_def plain_call_def given_attrs_def)
qed

lemma silent_set:
  "m_set (Suc n) H V (plain_call True as) m = Some (True, fst (set_attrs (plain_call True as) m))"
  by (cases "set_attrs (plain_call True as) m") (simp add: plain_call_def m_validate_def)

text \<open>
  Saving with \<open>wait\<close>: when the attributes are valid and there is an address, one request is sent, whose
  data are the attributes with the new values, no event is fired, and until the answer every attribute
  that the model had keeps its value; an attribute that the model did not have is there already.
\<close>

theorem save_wait_keeps:
  assumes "op_wait op" "distinct (map fst (md_attrs (sy_model s)))"
    and "m_validate V (plain_call (op_silent op) attrs) (sy_model s) = None"
    and "op_url op = None" "base_url urlRoot curl = Some base"
  shows "\<exists>s' r. sync_save (Suc n) H V urlRoot curl (Some attrs) op s = Some (True, s')
     \<and> sy_sent s' = sy_sent s @ [r] \<and> rq_data r = Some (obj_extend (md_attrs (sy_model s)) attrs)
     \<and> sy_events s' = sy_events s \<and> md_log (sy_model s') = md_log (sy_model s)
     \<and> map_of (md_attrs (sy_model s')) a = (case map_of (md_attrs (sy_model s)) a of Some v \<Rightarrow> Some v | None \<Rightarrow> map_of (rev attrs) a)"
proof -
  define m1 where "m1 = fst (set_attrs (plain_call True attrs) (sy_model s))"
  define m2 where "m2 = fst (set_attrs (plain_call True (md_attrs (sy_model s))) m1)"
  have a: "md_attrs m1 = obj_extend (md_attrs (sy_model s)) attrs" "md_attrs m2 = obj_extend (md_attrs m1) (md_attrs (sy_model s))"
    by (simp_all add: m1_def m2_def set_attrs_plain)
  have l: "md_log m2 = md_log (sy_model s)" by (simp add: m2_def m1_def set_attrs_fields)
  obtain u where u: "model_url urlRoot curl m1 = Some u" using assms(5) by (simp add: model_url_def)
  have v: "m_validate V (plain_call True x) m = None" for x m by (simp add: m_validate_def plain_call_def)
  have s1: "sync_set (Suc n) H V (op_error op) (plain_call True as) t
      = Some (True, t\<lparr>sy_model := fst (set_attrs (plain_call True as) (sy_model t))\<rparr>)" for as t
    by (simp add: sync_set_def v silent_set del: m_set.simps)
  have "map_of (rev (md_attrs (sy_model s))) = map_of (md_attrs (sy_model s))"
    using assms(2) by (intro map_of_eqI) (auto simp: rev_map [symmetric] map_of_eq_Some_iff)
  then have "map_of (md_attrs m2) a = (case map_of (md_attrs (sy_model s)) a of Some v \<Rightarrow> Some v | None \<Rightarrow> map_of (rev attrs) a)"
    unfolding a map_of_obj_extend by (simp split: option.splits)
  then show ?thesis
    using assms(1,3,4) u a(1) l
    by (simp add: sync_save_def sync_validate_def s1 backbone_sync_def Let_def flip: m1_def m2_def)
qed

definition demo_synced :: synced where
  "demo_synced = \<lparr>sy_model = m_new [] [(''id'', JNum 7), (''name'', JStr ''a'')], sy_open = [], sy_sent = [], sy_events = []\<rparr>"

definition wait_options :: sync_options where
  "wait_options = \<lparr>op_wait = True, op_silent = False, op_success = False, op_error = False, op_url = None\<rparr>"

lemma save_wait_keeps_witness:
  "\<exists>s' r. sync_save 1 readers (\<lambda>_. None) (Some ''/items'') None (Some [(''name'', JStr ''b''), (''size'', JNum 1)]) wait_options demo_synced = Some (True, s')
     \<and> sy_sent s' = [r] \<and> rq_data r = Some [(''id'', JNum 7), (''name'', JStr ''b''), (''size'', JNum 1)]
     \<and> m_get (sy_model s') ''name'' = JStr ''a''"
proof -
  have a: "md_attrs (sy_model demo_synced) = [(''id'', JNum 7), (''name'', JStr ''a'')]" "sy_sent demo_synced = []" by code_simp+
  have h: "op_wait wait_options" "distinct (map fst (md_attrs (sy_model demo_synced)))"
    "m_validate (\<lambda>_. None) (plain_call (op_silent wait_options) [(''name'', JStr ''b''), (''size'', JNum 1)]) (sy_model demo_synced) = None"
    "op_url wait_options = None" "base_url (Some ''/items'') None = Some ''/items''"
    by (simp_all add: a m_validate_def plain_call_def wait_options_def base_url_def)
  have o: "obj_extend [(''id'', JNum 7), (''name'', JStr ''a'')] [(''name'', JStr ''b''), (''size'', JNum 1)]
      = [(''id'', JNum 7), (''name'', JStr ''b''), (''size'', JNum 1)]" by code_simp
  from save_wait_keeps [OF h, of 0 readers "''name''"] show ?thesis
    unfolding a o by (auto simp: m_get_def get_in_def)
qed

text \<open>An attribute that a waiting save adds, and the id, are there before the server has answered, and stay when it refuses.\<close>

lemma wait_adds_at_once:
  "let s0 = demo_synced\<lparr>sy_model := m_new [] [(''name'', JStr ''a'')]\<rparr>
   in case sync_save 3 readers (\<lambda>_. None) (Some ''/items'') None (Some [(''id'', JNum 9)]) wait_options s0 of
        Some (b, s1) \<Rightarrow> (case sync_answer 3 readers (\<lambda>_. None) 0 None s1 of
            Some s2 \<Rightarrow> b \<and> map rq_type (sy_sent s1) = [''PUT''] \<and> sy_events s2 = [SError] \<and> \<not> m_isNew (sy_model s2)
          | None \<Rightarrow> False)
      | None \<Rightarrow> False"
  by code_simp

section \<open>Deleting\<close>

text \<open>How often the model was destroyed, as its collection hears it.\<close>

definition destroys :: "synced \<Rightarrow> nat" where
  "destroys s = length (filter (\<lambda>e. e = SDestroy) (sy_events s))"

text \<open>
  Deleting: a model that was never saved is destroyed without a request. Any other sends one request;
  with \<open>wait\<close> it is destroyed when the server has agreed and not when it refuses, and without it at
  once, whatever the answer is.
\<close>

theorem destroy_once:
  assumes "base_url urlRoot curl = Some base" "op_url op = None" "sy_open s = []"
  shows "\<exists>s1. sync_destroy urlRoot curl op s = Some s1
     \<and> (if m_isNew (sy_model s) then sy_sent s1 = sy_sent s \<and> destroys s1 = destroys s + 1
        else length (sy_sent s1) = length (sy_sent s) + 1 \<and> rq_type (last (sy_sent s1)) = ''DELETE''
          \<and> (\<exists>s2. sync_answer n H V 0 resp s1 = Some s2
               \<and> destroys s1 = destroys s + (if op_wait op then 0 else 1)
               \<and> destroys s2 = destroys s + (if op_wait op \<and> resp = None then 0 else 1)))"
proof -
  obtain u where u: "model_url urlRoot curl (sy_model s) = Some u" using assms(1) by (simp add: model_url_def)
  show ?thesis
    using u assms(2,3)
    by (cases resp; cases "op_wait op")
       (simp_all add: sync_destroy_def backbone_sync_def Let_def destroys_def method_type_def sync_answer_def close_request_def fire_def)
qed

lemma destroy_once_witness:
  "\<exists>s1 s2. sync_destroy (Some ''/items'') None (wait_options\<lparr>op_wait := False\<rparr>) demo_synced = Some s1 \<and> sync_answer 1 readers (\<lambda>_. None) 0 None s1 = Some s2
     \<and> destroys s2 = 1"
proof -
  have h: "base_url (Some ''/items'') None = Some ''/items''" "op_url (wait_options\<lparr>op_wait := False\<rparr>) = None" "sy_open demo_synced = []"
    by (simp_all add: base_url_def wait_options_def demo_synced_def)
  have d: "\<not> m_isNew (sy_model demo_synced)" "destroys demo_synced = 0" by code_simp+
  from destroy_once [OF h, of 1 readers "\<lambda>_. None" None] d show ?thesis by auto
qed

end
