(* ===== verification/Lib_Deferred.thy ===== *)
theory Lib_Deferred
  imports Js_Prelude
begin

text \<open>
  The deferreds of \<open>jsdeferred.jquery.js\<close>, with which the panels wait for several requests: chains of
  callbacks, \<open>parallel\<close>, \<open>earlier\<close>, \<open>chain\<close>, \<open>wait\<close>, \<open>call\<close>, \<open>loop\<close>, \<open>retry\<close> and the wrapper of
  \<open>$.ajax\<close>. Deferreds live in a heap, since a callback can hand over a deferred that the rest of the
  chain then waits for. The theory shows what order of calls a chain means, that \<open>parallel\<close> goes on once,
  after the last answer, in whatever order the answers come, and that \<open>loop\<close> and \<open>retry\<close> end.

  The functions of the library are the constructors of \<open>callback\<close>, with what they close over as
  arguments; functions of the program are numbers, and \<open>body\<close> says what a call of one does. \<open>None\<close>
  stands for a call that does not return. Timers run in any order. A page extends the record with a
  state of its own.
\<close>

section \<open>Values and objects\<close>

datatype 'j dval =
  Undef | Null | Num int | Str string | Flag bool | Plain 'j | Obj "(string \<times> 'j dval) list" | Arr "'j dval list" | Ref nat

text \<open>What \<open>parallel\<close> is given: a function or a deferred under each key.\<close>

datatype part = Fn nat | Df nat

datatype callback =
    Ok | Ng | User nat
  | Gather nat string | FailTo nat | First nat string | Finish nat
  | LoopStart nat | LoopRound nat int | LoopResume nat int
  | RetryOk nat | RetryNg nat
  | Together bool "(string \<times> part) list" | RunLoop int int int nat | RunWait int

datatype canceller = ClearTimer nat | CancelParts "(string \<times> part) list"

record dnode =
  dn_next :: "nat option"
  dn_ok :: callback
  dn_ng :: callback
  dn_canceller :: "canceller option"

text \<open>The variables of one call of \<open>parallel\<close> or \<open>earlier\<close>, of \<open>loop\<close> (with its object \<open>o\<close>), of \<open>retry\<close>.\<close>

record 'j gathering =
  ga_parts :: "(string \<times> part) list"
  ga_array :: bool
  ga_values :: "(string \<times> 'j dval) list"
  ga_num :: int
  ga_ret :: nat

record 'j looping =
  lo_begin :: int
  lo_end :: int
  lo_step :: int
  lo_ostep :: int
  lo_last :: bool
  lo_prev :: "'j dval"
  lo_ret :: "'j dval"
  lo_fun :: nat

record retrying =
  rt_count :: int
  rt_fun :: nat
  rt_deferred :: nat

datatype task = CallNow nat | CallWait nat | CallRetry nat

record 'j deferreds =
  df_heap :: "nat \<Rightarrow> dnode option"
  df_free :: nat
  df_gather :: "nat \<Rightarrow> 'j gathering"
  df_gathers :: nat
  df_loop :: "nat \<Rightarrow> 'j looping"
  df_loops :: nat
  df_retry :: "nat \<Rightarrow> retrying"
  df_retries :: nat
  df_timers :: "(nat \<times> task) list"
  df_timer :: nat
  df_log :: "(nat \<times> 'j dval list) list"

text \<open>\<open>new Deferred()\<close>, whose address is the first free one, and \<open>init\<close> of one that exists.\<close>

definition blank :: dnode where
  "blank = \<lparr>dn_next = None, dn_ok = Ok, dn_ng = Ng, dn_canceller = None\<rparr>"

definition put_node :: "nat \<Rightarrow> dnode \<Rightarrow> ('j, 'z) deferreds_scheme \<Rightarrow> ('j, 'z) deferreds_scheme" where
  "put_node d nd s = s\<lparr>df_heap := (df_heap s)(d \<mapsto> nd)\<rparr>"

definition new_deferred :: "dnode \<Rightarrow> ('j, 'z) deferreds_scheme \<Rightarrow> nat \<times> ('j, 'z) deferreds_scheme" where
  "new_deferred nd s = (df_free s, s\<lparr>df_heap := (df_heap s)(df_free s \<mapsto> nd), df_free := Suc (df_free s)\<rparr>)"

definition node_at :: "nat \<Rightarrow> ('j, 'z) deferreds_scheme \<Rightarrow> dnode" where
  "node_at d s = (case df_heap s d of Some nd \<Rightarrow> nd | None \<Rightarrow> blank)"

definition df_init :: "nat \<Rightarrow> ('j, 'z) deferreds_scheme \<Rightarrow> ('j, 'z) deferreds_scheme" where
  "df_init d s = put_node d ((node_at d s)\<lparr>dn_next := None, dn_ok := Ok, dn_ng := Ng\<rparr>) s"

text \<open>\<open>next\<close> and \<open>error\<close>: the new deferred replaces one that was chained before.\<close>

definition df_post :: "bool \<Rightarrow> callback \<Rightarrow> nat \<Rightarrow> ('j, 'z) deferreds_scheme \<Rightarrow> nat \<times> ('j, 'z) deferreds_scheme" where
  "df_post ok f d s =
     (let (n, s1) = new_deferred (if ok then blank\<lparr>dn_ok := f\<rparr> else blank\<lparr>dn_ng := f\<rparr>) s
      in (n, put_node d ((node_at d s)\<lparr>dn_next := Some n\<rparr>) s1))"

text \<open>\<open>Deferred.next\<close> and \<open>Deferred.wait\<close>: a timer calls the deferred, and \<open>cancel\<close> clears the timer.\<close>

definition set_timer :: "task \<Rightarrow> ('j, 'z) deferreds_scheme \<Rightarrow> ('j, 'z) deferreds_scheme" where
  "set_timer t s = s\<lparr>df_timers := df_timers s @ [(df_timer s, t)], df_timer := Suc (df_timer s)\<rparr>"

definition clear_timer :: "nat \<Rightarrow> ('j, 'z) deferreds_scheme \<Rightarrow> ('j, 'z) deferreds_scheme" where
  "clear_timer i s = s\<lparr>df_timers := filter (\<lambda>(j, _). j \<noteq> i) (df_timers s)\<rparr>"

definition df_next_call :: "callback option \<Rightarrow> ('j, 'z) deferreds_scheme \<Rightarrow> nat \<times> ('j, 'z) deferreds_scheme" where
  "df_next_call f s =
     (let (d, s1) = new_deferred (blank\<lparr>dn_ok := (case f of None \<Rightarrow> Ok | Some g \<Rightarrow> g), dn_canceller := Some (ClearTimer (df_timer s))\<rparr>) s
      in (d, set_timer (CallNow d) s1))"

definition df_wait :: "('j, 'z) deferreds_scheme \<Rightarrow> nat \<times> ('j, 'z) deferreds_scheme" where
  "df_wait s =
     (let (d, s1) = new_deferred (blank\<lparr>dn_canceller := Some (ClearTimer (df_timer s))\<rparr>) s
      in (d, set_timer (CallWait d) s1))"

section \<open>Cancelling\<close>

text \<open>
  \<open>cancel\<close> of every deferred in a list of parts, the loop of the cancellers of \<open>parallel\<close> and \<open>earlier\<close>.
  A part that is a function has no \<open>cancel\<close>, which throws: \<open>False\<close>.
\<close>

partial_function (option) cancel_parts :: "part list \<Rightarrow> ('j, 'z) deferreds_scheme \<Rightarrow> (bool \<times> ('j, 'z) deferreds_scheme) option" where
  "cancel_parts ps s = (case ps of [] \<Rightarrow> Some (True, s)
     | p # ps' \<Rightarrow> (case p of Fn f \<Rightarrow> Some (False, s)
        | Df d \<Rightarrow> (case dn_canceller (node_at d s) of
             None \<Rightarrow> cancel_parts ps' (df_init d s)
           | Some c \<Rightarrow> (case c of
               ClearTimer i \<Rightarrow> cancel_parts ps' (df_init d (clear_timer i s))
             | CancelParts qs \<Rightarrow> Option.bind (cancel_parts (map snd qs) s)
                 (\<lambda>r. if fst r then cancel_parts ps' (df_init d (snd r)) else Some r)))))"

declare cancel_parts.simps [code]

definition df_cancel :: "nat \<Rightarrow> ('j, 'z) deferreds_scheme \<Rightarrow> (bool \<times> ('j, 'z) deferreds_scheme) option" where
  "df_cancel d s = cancel_parts [Df d] s"

section \<open>Waiting for several deferreds\<close>

definition gather_new :: "bool \<Rightarrow> (string \<times> part) list \<Rightarrow> ('j, 'z) deferreds_scheme \<Rightarrow> nat \<times> nat \<times> ('j, 'z) deferreds_scheme" where
  "gather_new arr parts s =
     (let (ret, s1) = new_deferred (blank\<lparr>dn_canceller := Some (CancelParts parts)\<rparr>) s; p = df_gathers s
      in (ret, p, s1\<lparr>df_gather := (df_gather s1)(p := \<lparr>ga_parts = parts, ga_array = arr, ga_values = [],
            ga_num = int (length parts), ga_ret = ret\<rparr>), df_gathers := Suc p\<rparr>))"

definition attach :: "(nat \<Rightarrow> string \<Rightarrow> callback) \<Rightarrow> nat \<Rightarrow> nat \<Rightarrow> string \<Rightarrow> nat \<Rightarrow> ('j, 'z) deferreds_scheme \<Rightarrow> ('j, 'z) deferreds_scheme" where
  "attach cb ret p k d s = (let (e, s1) = df_post True (cb p k) d s in snd (df_post False (FailTo ret) e s1))"

fun parallel_loop :: "nat \<Rightarrow> nat \<Rightarrow> (string \<times> part) list \<Rightarrow> ('j, 'z) deferreds_scheme \<Rightarrow> ('j, 'z) deferreds_scheme" where
  "parallel_loop ret p [] s = s"
| "parallel_loop ret p ((k, Df d) # ps) s = parallel_loop ret p ps (attach Gather ret p k d s)"
| "parallel_loop ret p ((k, Fn f) # ps) s =
     (let (d, s1) = df_next_call (Some (User f)) s in parallel_loop ret p ps (attach Gather ret p k d s1))"

text \<open>
  Nothing is called while the parts are attached, so the counter can be set to the number of parts at
  once, and the canceller be given to the new deferred at its creation.
\<close>

definition df_parallel :: "bool \<Rightarrow> (string \<times> part) list \<Rightarrow> ('j, 'z) deferreds_scheme \<Rightarrow> nat \<times> ('j, 'z) deferreds_scheme" where
  "df_parallel arr parts s =
     (let (ret, p, s1) = gather_new arr parts s; s2 = parallel_loop ret p parts s1
      in (ret, if parts = [] then snd (df_next_call (Some (Finish ret)) s2) else s2))"

fun earlier_loop :: "nat \<Rightarrow> nat \<Rightarrow> (string \<times> nat) list \<Rightarrow> ('j, 'z) deferreds_scheme \<Rightarrow> ('j, 'z) deferreds_scheme" where
  "earlier_loop ret p [] s = s"
| "earlier_loop ret p ((k, d) # ps) s = earlier_loop ret p ps (attach First ret p k d s)"

definition df_earlier :: "bool \<Rightarrow> (string \<times> nat) list \<Rightarrow> ('j, 'z) deferreds_scheme \<Rightarrow> nat \<times> ('j, 'z) deferreds_scheme" where
  "df_earlier arr parts s =
     (let (ret, p, s1) = gather_new arr (map (\<lambda>(k, d). (k, Df d)) parts) s; s2 = earlier_loop ret p parts s1
      in (ret, if parts = [] then snd (df_next_call (Some (Finish ret)) s2) else s2))"

text \<open>The object of the values, or the array made of it, where what is missing is \<open>undefined\<close>.\<close>

definition gathered :: "'j gathering \<Rightarrow> 'j dval" where
  "gathered g = (if ga_array g
     then Arr (map (\<lambda>i. case map_of (ga_values g) (nat_digits i) of Some v \<Rightarrow> v | None \<Rightarrow> Undef) [0..<length (ga_parts g)])
     else Obj (ga_values g))"

definition put_value :: "string \<Rightarrow> 'j dval \<Rightarrow> 'j gathering \<Rightarrow> 'j gathering" where
  "put_value k v g = g\<lparr>ga_values := obj_set k v (ga_values g)\<rparr>"

section \<open>Loops and retries\<close>

definition loop_call :: "nat \<Rightarrow> int \<Rightarrow> ('j, 'z) deferreds_scheme \<Rightarrow> nat \<times> ('j, 'z) deferreds_scheme" where
  "loop_call l i s = df_next_call (Some (LoopRound l i)) s"

definition df_loop_from :: "int \<Rightarrow> int \<Rightarrow> int \<Rightarrow> nat \<Rightarrow> ('j, 'z) deferreds_scheme \<Rightarrow> nat \<times> ('j, 'z) deferreds_scheme" where
  "df_loop_from b e st f s =
     (let l = df_loops s; st' = (if st = 0 then 1 else st)
      in df_next_call (Some (LoopStart l)) (s\<lparr>df_loop := (df_loop s)(l :=
           \<lparr>lo_begin = b, lo_end = e, lo_step = st', lo_ostep = st', lo_last = False, lo_prev = Null, lo_ret = Undef, lo_fun = f\<rparr>),
         df_loops := Suc l\<rparr>))"

text \<open>\<open>loop\<close> with a number.\<close>

definition df_loop_count :: "int \<Rightarrow> nat \<Rightarrow> ('j, 'z) deferreds_scheme \<Rightarrow> nat \<times> ('j, 'z) deferreds_scheme" where
  "df_loop_count n f s = df_loop_from 0 (n - 1) 1 f s"

text \<open>What \<open>o\<close> holds when the round of \<open>i\<close> calls the function.\<close>

definition loop_round :: "int \<Rightarrow> 'j looping \<Rightarrow> 'j looping" where
  "loop_round i o' = (let last = (i + lo_step o' > lo_end o') in
     o'\<lparr>lo_last := lo_last o' \<or> last, lo_ostep := (if last then lo_end o' - i + 1 else lo_ostep o'), lo_prev := lo_ret o'\<rparr>)"

definition loop_object :: "'j looping \<Rightarrow> 'j dval" where
  "loop_object o' = Obj [(''begin'', Num (lo_begin o')), (''end'', Num (lo_end o')), (''step'', Num (lo_ostep o')),
     (''last'', Flag (lo_last o')), (''prev'', lo_prev o')]"

definition df_retry_new :: "int \<Rightarrow> nat \<Rightarrow> ('j, 'z) deferreds_scheme \<Rightarrow> nat \<times> ('j, 'z) deferreds_scheme" where
  "df_retry_new n f s =
     (let (d, s1) = new_deferred blank s; r = df_retries s
      in (d, set_timer (CallRetry r) (s1\<lparr>df_retry := (df_retry s1)(r := \<lparr>rt_count = n, rt_fun = f, rt_deferred = d\<rparr>),
            df_retries := Suc r\<rparr>)))"

section \<open>Calling\<close>

text \<open>A call of a function of the program: whether it returns or throws, and the value.\<close>

type_synonym ('j, 'z) program = "nat \<Rightarrow> 'j dval list \<Rightarrow> ('j, 'z) deferreds_scheme \<Rightarrow> ((bool \<times> 'j dval) \<times> ('j, 'z) deferreds_scheme) option"

definition call_user :: "('j, 'z) program \<Rightarrow> nat \<Rightarrow> 'j dval list \<Rightarrow> ('j, 'z) deferreds_scheme \<Rightarrow> ((bool \<times> 'j dval) \<times> ('j, 'z) deferreds_scheme) option" where
  "call_user body f args s = body f args (s\<lparr>df_log := df_log s @ [(f, args)]\<rparr>)"

fun ref_of :: "'j dval \<Rightarrow> nat option" where
  "ref_of (Ref d) = Some d"
| "ref_of _ = None"

definition set_loop :: "nat \<Rightarrow> 'j looping \<Rightarrow> ('j, 'z) deferreds_scheme \<Rightarrow> ('j, 'z) deferreds_scheme" where
  "set_loop l o' s = s\<lparr>df_loop := (df_loop s)(l := o')\<rparr>"

text \<open>The function \<open>_loop\<close>, where \<open>ret\<close> is a variable of \<open>loop\<close> and not of the round.\<close>

definition run_round :: "('j, 'z) program \<Rightarrow> nat \<Rightarrow> int \<Rightarrow> ('j, 'z) deferreds_scheme \<Rightarrow> ((bool \<times> 'j dval) \<times> ('j, 'z) deferreds_scheme) option" where
  "run_round body l i s =
     (if i \<le> lo_end (df_loop s l) then
        (let o' = loop_round i (df_loop s l)
         in case call_user body (lo_fun o') [Num i, loop_object o'] (set_loop l o' s) of None \<Rightarrow> None
          | Some (r, s1) \<Rightarrow>
              if \<not> fst r then Some (r, s1)
              else (let s2 = set_loop l ((df_loop s1 l)\<lparr>lo_ret := snd r\<rparr>) s1
                    in case ref_of (snd r) of
                      Some e \<Rightarrow> (let (n, s3) = df_post True (LoopResume l i) e s2 in Some ((True, Ref n), s3))
                    | None \<Rightarrow> (let (n, s3) = loop_call l (i + lo_step o') s2 in Some ((True, Ref n), s3))))
      else Some ((True, lo_ret (df_loop s l)), s))"

text \<open>
  What one callback does: its result, and the deferred that it calls before it returns. In all callbacks
  of the library that call is the last thing they do, and it never throws.
\<close>

fun effect :: "('j, 'z) program \<Rightarrow> callback \<Rightarrow> 'j dval \<Rightarrow> ('j, 'z) deferreds_scheme
    \<Rightarrow> ((bool \<times> 'j dval) \<times> (bool \<times> nat \<times> 'j dval) option \<times> ('j, 'z) deferreds_scheme) option" where
  "effect body Ok v s = Some ((True, v), None, s)"
| "effect body Ng v s = Some ((False, v), None, s)"
| "effect body (User f) v s = map_option (\<lambda>(r, s1). (r, None, s1)) (call_user body f [v] s)"
| "effect body (Gather p k) v s =
     (let g = (put_value k v (df_gather s p))\<lparr>ga_num := ga_num (df_gather s p) - 1\<rparr>; s1 = s\<lparr>df_gather := (df_gather s)(p := g)\<rparr>
      in Some ((True, Undef), if ga_num g \<le> 0 then Some (True, ga_ret g, gathered g) else None, s1))"
| "effect body (FailTo ret) v s = Some ((True, Undef), Some (False, ret, v), s)"
| "effect body (First p k) v s =
     (let g = put_value k v (df_gather s p)
      in case cancel_parts (map snd (ga_parts g)) (s\<lparr>df_gather := (df_gather s)(p := g)\<rparr>) of None \<Rightarrow> None
       | Some (b, s1) \<Rightarrow> if b then Some ((True, Undef), Some (True, ga_ret g, gathered g), s1)
                         else Some ((False, Str ''TypeError''), None, s1))"
| "effect body (Finish ret) v s = Some ((True, Undef), Some (True, ret, Undef), s)"
| "effect body (LoopStart l) v s =
     (let o' = df_loop s l
      in if lo_begin o' \<le> lo_end o' then (let (n, s1) = loop_call l (lo_begin o') s in Some ((True, Ref n), None, s1))
         else Some ((True, Null), None, s))"
| "effect body (LoopRound l i) v s = map_option (\<lambda>(r, s1). (r, None, s1)) (run_round body l i s)"
| "effect body (LoopResume l i) v s =
     (let s1 = set_loop l ((df_loop s l)\<lparr>lo_ret := v\<rparr>) s; (n, s2) = loop_call l (i + lo_step (df_loop s l)) s1
      in Some ((True, Ref n), None, s2))"
| "effect body (RetryOk r) v s = Some ((True, Undef), Some (True, rt_deferred (df_retry s r), v), s)"
| "effect body (RetryNg r) v s =
     (let t = (df_retry s r)\<lparr>rt_count := rt_count (df_retry s r) - 1\<rparr>; s1 = s\<lparr>df_retry := (df_retry s)(r := t)\<rparr>
      in if rt_count t \<le> 0 then Some ((True, Undef), Some (False, rt_deferred t, Arr [Str ''retry failed'', v]), s1)
         else Some ((True, Undef), None, set_timer (CallRetry r) s1))"
| "effect body (Together arr parts) v s = (let (n, s1) = df_parallel arr parts s in Some ((True, Ref n), None, s1))"
| "effect body (RunLoop b e st f) v s = (let (n, s1) = df_loop_from b e st f s in Some ((True, Ref n), None, s1))"
| "effect body (RunWait n) v s = (let (d, s1) = df_wait s in Some ((True, Ref d), None, s1))"

text \<open>\<open>_fire\<close>: where a callback hands over a deferred, that one takes over what is left of the chain.\<close>

partial_function (option) fire :: "('j, 'z) program \<Rightarrow> bool \<Rightarrow> nat \<Rightarrow> 'j dval \<Rightarrow> ('j, 'z) deferreds_scheme \<Rightarrow> ('j, 'z) deferreds_scheme option" where
  "fire body ok d v s =
     (case effect body (if ok then dn_ok (node_at d s) else dn_ng (node_at d s)) v s of None \<Rightarrow> None
      | Some (r, inner, s1) \<Rightarrow>
         Option.bind (case inner of None \<Rightarrow> Some s1 | Some (b, e, w) \<Rightarrow> fire body b e w s1)
           (\<lambda>s2. case ref_of (snd r) of
              Some e \<Rightarrow> Some (put_node e ((node_at e s2)\<lparr>dn_next := dn_next (node_at d s2)\<rparr>) s2)
            | None \<Rightarrow> (case dn_next (node_at d s2) of None \<Rightarrow> Some s2 | Some n \<Rightarrow> fire body (fst r) n (snd r) s2)))"

declare fire.simps [code]

text \<open>The timers: one of those that are set runs; \<open>elapsed\<close> is what a wait took.\<close>

definition run_retry :: "('j, 'z) program \<Rightarrow> nat \<Rightarrow> ('j, 'z) deferreds_scheme \<Rightarrow> ('j, 'z) deferreds_scheme option" where
  "run_retry body r s = (case call_user body (rt_fun (df_retry s r)) [Num (rt_count (df_retry s r))] s of None \<Rightarrow> None
     | Some (res, s1) \<Rightarrow> (case (fst res, ref_of (snd res)) of
          (True, Some m) \<Rightarrow> (let (e, s2) = df_post True (RetryOk r) m s1 in Some (snd (df_post False (RetryNg r) e s2)))
        | _ \<Rightarrow> Some s1))"

definition run_timer :: "('j, 'z) program \<Rightarrow> nat \<Rightarrow> int \<Rightarrow> ('j, 'z) deferreds_scheme \<Rightarrow> ('j, 'z) deferreds_scheme option" where
  "run_timer body i elapsed s = (let s1 = clear_timer i s in
     case map_of (df_timers s) i of None \<Rightarrow> Some s
     | Some (CallNow d) \<Rightarrow> fire body True d Undef s1
     | Some (CallWait d) \<Rightarrow> fire body True d (Num elapsed) s1
     | Some (CallRetry r) \<Rightarrow> run_retry body r s1)"

text \<open>\<open>chain\<close>: functions are told apart by their name, objects become \<open>parallel\<close>.\<close>

datatype link = Function nat bool | Object "(string \<times> part) list"

fun chain_links :: "link list \<Rightarrow> nat \<Rightarrow> ('j, 'z) deferreds_scheme \<Rightarrow> nat \<times> ('j, 'z) deferreds_scheme" where
  "chain_links [] d s = (d, s)"
| "chain_links (Function f named_error # ls) d s =
     (let (n, s1) = df_post (\<not> named_error) (User f) d s in chain_links ls n s1)"
| "chain_links (Object parts # ls) d s =
     (let (n, s1) = df_post True (Together False parts) d s in chain_links ls n s1)"

definition df_chain :: "link list \<Rightarrow> ('j, 'z) deferreds_scheme \<Rightarrow> nat \<times> ('j, 'z) deferreds_scheme" where
  "df_chain ls s = (let (d, s1) = df_next_call None s in chain_links ls d s1)"

text \<open>
  \<open>$.ajax\<close> makes a deferred and wraps the callbacks of the settings: the given one runs first, and where
  it throws the deferred is never called. \<open>request\<close> holds the given callbacks and the deferred.
\<close>

record ajax_request =
  aj_success :: "nat option"
  aj_error :: "nat option"
  aj_deferred :: nat

definition df_ajax :: "nat option \<Rightarrow> nat option \<Rightarrow> ('j, 'z) deferreds_scheme \<Rightarrow> ajax_request \<times> ('j, 'z) deferreds_scheme" where
  "df_ajax su er s = (let (d, s1) = new_deferred blank s in (\<lparr>aj_success = su, aj_error = er, aj_deferred = d\<rparr>, s1))"

definition ajax_answer :: "('j, 'z) program \<Rightarrow> bool \<Rightarrow> 'j dval list \<Rightarrow> ajax_request \<Rightarrow> ('j, 'z) deferreds_scheme \<Rightarrow> ('j, 'z) deferreds_scheme option" where
  "ajax_answer body ok args q s =
     (let go = (\<lambda>s. fire body ok (aj_deferred q) (case args of [] \<Rightarrow> Undef | a # _ \<Rightarrow> a) s)
      in case (if ok then aj_success q else aj_error q) of None \<Rightarrow> go s
       | Some f \<Rightarrow> (case call_user body f args s of None \<Rightarrow> None
           | Some (r, s1) \<Rightarrow> if fst r then go s1 else Some s1))"


section \<open>What a chain means\<close>

lemma node_put [simp]: "node_at a (put_node d nd s) = (if a = d then nd else node_at a s)"
  by (simp add: node_at_def put_node_def)

lemma put_node_frame [simp]:
  "df_log (put_node d nd s) = df_log s" "df_gather (put_node d nd s) = df_gather s" "df_free (put_node d nd s) = df_free s"
  "df_loop (put_node d nd s) = df_loop s" "df_timers (put_node d nd s) = df_timers s"
  by (simp_all add: put_node_def)

text \<open>The four ways in which \<open>_fire\<close> goes on after the callback.\<close>

lemma fire_next:
  assumes "effect body (if b then dn_ok (node_at d s) else dn_ng (node_at d s)) v s = Some (r, None, s1)"
    and "ref_of (snd r) = None" and "dn_next (node_at d s1) = Some n"
  shows "fire body b d v s = fire body (fst r) n (snd r) s1"
  using assms by (subst fire.simps) simp

lemma fire_last:
  assumes "effect body (if b then dn_ok (node_at d s) else dn_ng (node_at d s)) v s = Some (r, None, s1)"
    and "ref_of (snd r) = None" and "dn_next (node_at d s1) = None"
  shows "fire body b d v s = Some s1"
  using assms by (subst fire.simps) simp

lemma fire_handed:
  assumes "effect body (if b then dn_ok (node_at d s) else dn_ng (node_at d s)) v s = Some (r, None, s1)"
    and "ref_of (snd r) = Some e"
  shows "fire body b d v s = Some (put_node e ((node_at e s1)\<lparr>dn_next := dn_next (node_at d s1)\<rparr>) s1)"
  using assms by (subst fire.simps) simp

lemma fire_inner:
  assumes "effect body (if b then dn_ok (node_at d s) else dn_ng (node_at d s)) v s = Some (r, Some (c, e, w), s1)"
    and "fire body c e w s1 = Some s2" and "ref_of (snd r) = None" and "dn_next (node_at d s2) = Some n"
  shows "fire body b d v s = fire body (fst r) n (snd r) s2"
  using assms by (subst fire.simps) simp

lemma node_log [simp]: "node_at a (s\<lparr>df_log := l\<rparr>) = node_at a s"
  by (simp add: node_at_def)

lemma effect_pass: "effect body (if b then Ok else Ng) v s = Some ((b, v), None, s)"
  by simp

text \<open>
  The specification: the posts of a chain handle a result or an error in turn. It is done with one, or
  it waits for a deferred that a function handed over, with the posts that are left.
\<close>

datatype 'j outcome = Done bool "'j dval" | Waits nat "(bool \<times> nat) list"

fun chain_run :: "(nat \<Rightarrow> 'j dval \<Rightarrow> bool \<times> 'j dval) \<Rightarrow> (bool \<times> nat) list \<Rightarrow> bool \<Rightarrow> 'j dval
    \<Rightarrow> (nat \<times> 'j dval list) list \<times> 'j outcome" where
  "chain_run out [] b v = ([], Done b v)"
| "chain_run out ((ok, f) # ps) b v =
     (if ok \<noteq> b then chain_run out ps b v
      else let (calls, end) = (case ref_of (snd (out f v)) of Some e \<Rightarrow> ([], Waits e ps)
                               | None \<Rightarrow> chain_run out ps (fst (out f v)) (snd (out f v)))
           in ((f, [v]) # calls, end))"

text \<open>Functions that only compute.\<close>

definition quiet :: "(nat \<Rightarrow> 'j dval \<Rightarrow> bool \<times> 'j dval) \<Rightarrow> ('j, 'z) program" where
  "quiet out f args s = Some (out f (case args of [] \<Rightarrow> Undef | a # _ \<Rightarrow> a), s)"

text \<open>The deferreds \<open>ns\<close> are chained after \<open>d\<close>, with the callbacks of the posts.\<close>

fun chained :: "('j, 'z) deferreds_scheme \<Rightarrow> nat \<Rightarrow> (bool \<times> nat) list \<Rightarrow> nat list \<Rightarrow> bool" where
  "chained s d [] ns \<longleftrightarrow> dn_next (node_at d s) = None \<and> ns = []"
| "chained s d ((ok, f) # ps) ns \<longleftrightarrow> (case ns of [] \<Rightarrow> False
     | n # ns' \<Rightarrow> dn_next (node_at d s) = Some n \<and> dn_ok (node_at n s) = (if ok then User f else Ok)
         \<and> dn_ng (node_at n s) = (if ok then Ng else User f) \<and> chained s n ps ns')"

definition plain_root :: "nat \<Rightarrow> ('j, 'z) deferreds_scheme \<Rightarrow> bool" where
  "plain_root d s \<longleftrightarrow> dn_ok (node_at d s) = Ok \<and> dn_ng (node_at d s) = Ng"

lemma chained_cong:
  "chained s d ps ns \<Longrightarrow> dn_next (node_at d' s') = dn_next (node_at d s) \<Longrightarrow> (\<And>a. a \<in> set ns \<Longrightarrow> node_at a s' = node_at a s)
     \<Longrightarrow> chained s' d' ps ns"
proof (induction ps arbitrary: d d' ns)
  case (Cons p ps)
  obtain ok f where p: "p = (ok, f)" by (cases p)
  obtain n ns' where ns: "ns = n # ns'" using Cons.prems(1) p by (cases ns) auto
  have c: "chained s n ps ns'" using Cons.prems(1) by (simp add: p ns)
  have "chained s' n ps ns'"
    by (rule Cons.IH [OF c]) (use Cons.prems(3) in \<open>simp_all add: ns\<close>)
  then show ?case using Cons.prems by (simp add: p ns)
qed simp

text \<open>What is true after the call.\<close>

definition chain_after :: "nat list \<Rightarrow> ('j, 'z) deferreds_scheme \<Rightarrow> (nat \<times> 'j dval list) list \<times> 'j outcome \<Rightarrow> ('j, 'z) deferreds_scheme \<Rightarrow> bool" where
  "chain_after ns s res s' \<longleftrightarrow> df_log s' = df_log s @ fst res
     \<and> (case snd res of Done b v \<Rightarrow> df_heap s' = df_heap s
        | Waits e ps \<Rightarrow> (\<exists>ns'. chained s' e ps ns' \<and> set ns' \<subseteq> set ns) \<and> dn_ok (node_at e s') = dn_ok (node_at e s) \<and> dn_ng (node_at e s') = dn_ng (node_at e s))"

lemma chain_after_mono: "chain_after ns s r s' \<Longrightarrow> chain_after (n # ns) s r s'"
  by (force simp: chain_after_def split: outcome.splits)

definition refs_avoid :: "(nat \<Rightarrow> 'j dval \<Rightarrow> bool \<times> 'j dval) \<Rightarrow> nat list \<Rightarrow> bool" where
  "refs_avoid out ns \<longleftrightarrow> (\<forall>f v e. ref_of (snd (out f v)) = Some e \<longrightarrow> e \<notin> set ns)"

lemma chain_from:
  assumes "chained s n ps ns" "ref_of v = None"
    and "refs_avoid out ns"
    and "effect (quiet out) (if b then dn_ok (node_at n s) else dn_ng (node_at n s)) v s = Some ((b', v'), None, s1)"
    and "s1 = s\<lparr>df_log := l\<rparr>" "ref_of v' = None"
  shows "\<exists>s'. fire (quiet out) b n v s = Some s' \<and> chain_after ns s1 (chain_run out ps b' v') s'"
  using assms
proof (induction ps arbitrary: s n ns b v b' v' s1 l)
  case Nil
  have "fire (quiet out) b n v s = Some s1"
    by (rule fire_last [OF Nil(4)]) (use Nil in \<open>simp_all add: node_at_def\<close>)
  then show ?case by (simp add: chain_after_def)
next
  case (Cons p ps)
  obtain ok f where p: "p = (ok, f)" by (cases p)
  obtain m ns' where ns: "ns = m # ns'" using Cons.prems(1) p by (cases ns) auto
  have nodes: "node_at a s1 = node_at a s" for a using Cons.prems(5) by (simp add: node_at_def)
  have m: "dn_next (node_at n s1) = Some m" "dn_ok (node_at m s1) = (if ok then User f else Ok)"
    "dn_ng (node_at m s1) = (if ok then Ng else User f)"
    using Cons.prems(1) by (simp_all add: p ns nodes)
  have c: "chained s1 m ps ns'"
    by (rule chained_cong) (use Cons.prems(1) in \<open>auto simp: p ns nodes\<close>)
  have out: "refs_avoid out ns'" using Cons.prems(3) by (simp add: ns refs_avoid_def)
  have go: "fire (quiet out) b n v s = fire (quiet out) b' m v' s1"
    using fire_next [OF Cons.prems(4)] Cons.prems(6) m by simp
  have same: "s1 = s1\<lparr>df_log := df_log s1\<rparr>" by simp
  show ?case
  proof (cases "ok = b'")
    case False
    then have "effect (quiet out) (if b' then dn_ok (node_at m s1) else dn_ng (node_at m s1)) v' s1 = Some ((b', v'), None, s1)"
      using m by (cases b') auto
    from Cons.IH [OF c Cons.prems(6) out this same Cons.prems(6)] go show ?thesis
      using False by (auto simp: p ns intro: chain_after_mono)
  next
    case True
    let ?s2 = "s1\<lparr>df_log := df_log s1 @ [(f, [v'])]\<rparr>"
    have e: "effect (quiet out) (if b' then dn_ok (node_at m s1) else dn_ng (node_at m s1)) v' s1 = Some (out f v', None, ?s2)"
      using m True by (cases b') (simp_all add: call_user_def quiet_def)
    show ?thesis
    proof (cases "ref_of (snd (out f v'))")
      case None
      have "effect (quiet out) (if b' then dn_ok (node_at m s1) else dn_ng (node_at m s1)) v' s1
          = Some ((fst (out f v'), snd (out f v')), None, ?s2)" using e by simp
      from Cons.IH [OF c Cons.prems(6) out this refl None] obtain s' where
        s': "fire (quiet out) b' m v' s1 = Some s'" "chain_after ns' ?s2 (chain_run out ps (fst (out f v')) (snd (out f v'))) s'"
        by auto
      have "chain_after ns s1 (chain_run out (p # ps) b' v') s'"
        using s'(2) True None by (fastforce simp: p ns chain_after_def split: prod.splits outcome.splits)
      with s'(1) go show ?thesis by auto
    next
      case (Some x)
      let ?s' = "put_node x ((node_at x ?s2)\<lparr>dn_next := dn_next (node_at m ?s2)\<rparr>) ?s2"
      have f: "fire (quiet out) b' m v' s1 = Some ?s'" by (rule fire_handed [OF e Some])
      have "x \<notin> set ns'" using out Some by (auto simp: refs_avoid_def)
      then have "chained ?s' x ps ns'"
        by (intro chained_cong [OF c]) auto
      then have "chain_after ns s1 (chain_run out (p # ps) b' v') ?s'"
        using True Some by (auto simp: p ns chain_after_def)
      with f go show ?thesis by auto
    qed
  qed
qed

text \<open>Building a chain.\<close>

fun post_all :: "(bool \<times> nat) list \<Rightarrow> nat \<Rightarrow> ('j, 'z) deferreds_scheme \<Rightarrow> nat \<times> ('j, 'z) deferreds_scheme" where
  "post_all [] d s = (d, s)"
| "post_all ((ok, f) # ps) d s = (let (n, s1) = df_post ok (User f) d s in post_all ps n s1)"

lemma node_new [simp]:
  "node_at a (snd (new_deferred nd s)) = (if a = df_free s then nd else node_at a s)" "fst (new_deferred nd s) = df_free s"
  "df_free (snd (new_deferred nd s)) = Suc (df_free s)" "df_log (snd (new_deferred nd s)) = df_log s"
  "df_gather (snd (new_deferred nd s)) = df_gather s"
  by (simp_all add: new_deferred_def node_at_def)

lemma post_facts [simp]:
  "fst (df_post ok f d s) = df_free s" "df_free (snd (df_post ok f d s)) = Suc (df_free s)"
  "df_log (snd (df_post ok f d s)) = df_log s" "df_gather (snd (df_post ok f d s)) = df_gather s"
  by (simp_all add: df_post_def split_beta)

lemma node_post:
  "node_at a (snd (df_post ok f d s)) =
     (if a = d then (node_at d s)\<lparr>dn_next := Some (df_free s)\<rparr>
      else if a = df_free s then (if ok then blank\<lparr>dn_ok := f\<rparr> else blank\<lparr>dn_ng := f\<rparr>) else node_at a s)"
  by (simp add: df_post_def split_beta)

lemma post_all_facts:
  "df_free (snd (post_all ps d s)) = df_free s + length ps \<and> df_log (snd (post_all ps d s)) = df_log s
     \<and> (\<forall>a. a < df_free s \<longrightarrow> a \<noteq> d \<longrightarrow> node_at a (snd (post_all ps d s)) = node_at a s)
     \<and> (d < df_free s \<longrightarrow> node_at d (snd (post_all ps d s))
          = (if ps = [] then node_at d s else (node_at d s)\<lparr>dn_next := Some (df_free s)\<rparr>))"
proof (induction ps arbitrary: d s)
  case (Cons p ps)
  obtain ok f where p: "p = (ok, f)" by (cases p)
  show ?case using Cons.IH [of "df_free s" "snd (df_post ok (User f) d s)"]
    by (auto simp: p split_beta node_post)
qed simp

lemma post_all_chained:
  assumes "d < df_free s" "dn_next (node_at d s) = None"
  shows "chained (snd (post_all ps d s)) d ps [df_free s..<df_free s + length ps]"
  using assms
proof (induction ps arbitrary: d s)
  case (Cons p ps)
  obtain ok f where p: "p = (ok, f)" by (cases p)
  let ?n = "df_free s" and ?s1 = "snd (df_post ok (User f) d s)"
  have n: "?n < df_free ?s1" "dn_next (node_at ?n ?s1) = None"
    using Cons.prems by (auto simp: node_post blank_def)
  note f = post_all_facts [of ps ?n ?s1]
  have c: "chained (snd (post_all ps ?n ?s1)) ?n ps [Suc ?n..<Suc ?n + length ps]"
    using Cons.IH [OF n] by simp
  have "node_at d (snd (post_all ps ?n ?s1)) = node_at d ?s1" using f Cons.prems by auto
  moreover have "dn_ok (node_at ?n (snd (post_all ps ?n ?s1))) = (if ok then User f else Ok)"
    "dn_ng (node_at ?n (snd (post_all ps ?n ?s1))) = (if ok then Ng else User f)"
    using f n Cons.prems by (auto simp: node_post blank_def)
  moreover have "[?n..<?n + length (p # ps)] = ?n # [Suc ?n..<Suc ?n + length ps]" by (simp add: upt_conv_Cons del: upt_Suc)
  moreover have "post_all (p # ps) d s = post_all ps ?n ?s1" by (simp add: p split_beta)
  moreover have "dn_next (node_at d ?s1) = Some ?n" by (simp add: node_post)
  ultimately show ?case using c by (simp only: p chained.simps list.case)
qed simp

text \<open>
  C9: a chain of \<open>next\<close> and \<open>error\<close> on a deferred that only passes on what it is called with: calling it
  returns, having called the functions that the specification says, in that order. Where a function
  hands over a deferred, the rest of the chain is chained to that one, and calling it in turn goes on
  with the rest of the chain.
\<close>

theorem chain_sequences:
  assumes "d < df_free s" "dn_next (node_at d s) = None" "plain_root d s"
    and "ref_of v = None"
    and "\<forall>f w e. ref_of (snd (out f w)) = Some e \<longrightarrow> e < df_free s"
  shows "\<exists>s'. fire (quiet out) b d v (snd (post_all ps d s)) = Some s'
     \<and> df_log s' = df_log s @ fst (chain_run out ps b v)
     \<and> (\<forall>e rest c w. snd (chain_run out ps b v) = Waits e rest \<longrightarrow> plain_root e (snd (post_all ps d s)) \<longrightarrow> ref_of w = None \<longrightarrow>
          (\<exists>s''. fire (quiet out) c e w s' = Some s'' \<and> df_log s'' = df_log s' @ fst (chain_run out rest c w)))"
proof -
  let ?s = "snd (post_all ps d s)" and ?ns = "[df_free s..<df_free s + length ps]"
  note facts = post_all_facts [of ps d s]
  have out: "refs_avoid out ?ns" using assms(5) by (fastforce simp: refs_avoid_def)
  have p: "plain_root d ?s" using facts assms(1,3) by (auto simp: plain_root_def)
  then have e: "effect (quiet out) (if b then dn_ok (node_at d ?s) else dn_ng (node_at d ?s)) v ?s = Some ((b, v), None, ?s)"
    by (simp add: plain_root_def)
  have same: "?s = ?s\<lparr>df_log := df_log ?s\<rparr>" by simp
  obtain s' where s': "fire (quiet out) b d v ?s = Some s'" "chain_after ?ns ?s (chain_run out ps b v) s'"
    using chain_from [OF post_all_chained [OF assms(1,2)] assms(4) out e same assms(4)] by auto
  have "\<exists>s''. fire (quiet out) c e w s' = Some s'' \<and> df_log s'' = df_log s' @ fst (chain_run out rest c w)"
    if w: "snd (chain_run out ps b v) = Waits e rest" and pe: "plain_root e ?s" and r: "ref_of w = None" for e rest c w
  proof -
    obtain ns where ns: "chained s' e rest ns" "set ns \<subseteq> set ?ns" "plain_root e s'"
      using s'(2) w pe by (auto simp: chain_after_def plain_root_def)
    have "effect (quiet out) (if c then dn_ok (node_at e s') else dn_ng (node_at e s')) w s' = Some ((c, w), None, s')"
      using ns(3) by (simp add: plain_root_def)
    moreover have "refs_avoid out ns" using out ns(2) unfolding refs_avoid_def by blast
    moreover have "s' = s'\<lparr>df_log := df_log s'\<rparr>" by simp
    ultimately obtain s'' where "fire (quiet out) c e w s' = Some s''" "chain_after ns s' (chain_run out rest c w) s''"
      using chain_from [OF ns(1) r] r by blast
    then show ?thesis by (auto simp: chain_after_def)
  qed
  then show ?thesis using s' facts by (auto simp: chain_after_def)
qed

text \<open>A chain with two functions: the first hands over the deferred 0, and the second is called with its answer.\<close>

definition chain_demo :: "nat \<Rightarrow> unit dval \<Rightarrow> bool \<times> unit dval" where
  "chain_demo f v = (True, if f = 7 then Ref 0 else if ref_of v = None then v else Undef)"

definition df_start :: "unit deferreds" where
  "df_start = \<lparr>df_heap = (\<lambda>_. None), df_free = 0, df_gather = (\<lambda>_. \<lparr>ga_parts = [], ga_array = False, ga_values = [], ga_num = 0, ga_ret = 0\<rparr>),
     df_gathers = 0, df_loop = (\<lambda>_. \<lparr>lo_begin = 0, lo_end = 0, lo_step = 0, lo_ostep = 0, lo_last = False, lo_prev = Null, lo_ret = Undef, lo_fun = 0\<rparr>),
     df_loops = 0, df_retry = (\<lambda>_. \<lparr>rt_count = 0, rt_fun = 0, rt_deferred = 0\<rparr>), df_retries = 0, df_timers = [], df_timer = 0, df_log = []\<rparr>"

definition df_two :: "unit deferreds" where
  "df_two = snd (new_deferred blank (snd (new_deferred blank df_start)))"

lemma chain_sequences_witness:
  "\<exists>s' s''. fire (quiet chain_demo) True 1 (Num 3) (snd (post_all [(True, 7), (False, 8), (True, 9)] 1 df_two)) = Some s'
     \<and> df_log s' = [(7, [Num 3])]
     \<and> fire (quiet chain_demo) True 0 (Num 4) s' = Some s'' \<and> df_log s'' = [(7, [Num 3]), (9, [Num 4])]"
proof -
  let ?ps = "[(True, 7), (False, 8), (True, 9)]"
  have h: "1 < df_free df_two" "dn_next (node_at 1 df_two) = None" "plain_root 1 df_two" "ref_of (Num 3 :: unit dval) = None"
    "\<forall>f w e. ref_of (snd (chain_demo f w)) = Some e \<longrightarrow> e < df_free df_two"
    by (simp_all add: df_two_def df_start_def plain_root_def chain_demo_def blank_def)
  have "plain_root 0 df_two" by (simp add: df_two_def df_start_def plain_root_def blank_def)
  then have p: "plain_root 0 (snd (post_all ?ps 1 df_two))"
    using post_all_facts [of ?ps 1 df_two] by (auto simp: plain_root_def df_two_def df_start_def)
  have run: "chain_run chain_demo ?ps True (Num 3) = ([(7, [Num 3])], Waits 0 [(False, 8), (True, 9)])"
    "chain_run chain_demo [(False, 8), (True, 9)] True (Num 4) = ([(9, [Num 4])], Done True (Num 4))"
    by (simp_all add: chain_demo_def)
  have l: "df_log df_two = []" by (simp add: df_two_def df_start_def)
  obtain s' where s': "fire (quiet chain_demo) True 1 (Num 3) (snd (post_all ?ps 1 df_two)) = Some s'" "df_log s' = [(7, [Num 3])]"
    "\<And>c w. ref_of w = None \<Longrightarrow> \<exists>s''. fire (quiet chain_demo) c 0 w s' = Some s''
        \<and> df_log s'' = df_log s' @ fst (chain_run chain_demo [(False, 8), (True, 9)] c w)"
    using chain_sequences [OF h, of True ?ps] p by (auto simp only: run l fst_conv snd_conv append_Nil)
  obtain s'' where "fire (quiet chain_demo) True 0 (Num 4) s' = Some s''" "df_log s'' = [(7, [Num 3]), (9, [Num 4])]"
    using s'(3) [of "Num 4" True] s'(2) run(2) by auto
  with s' show ?thesis by blast
qed

section \<open>Waiting for several deferreds\<close>

lemma node_gather [simp]: "node_at a (s\<lparr>df_gather := g\<rparr>) = node_at a s"
  by (simp add: node_at_def)

text \<open>What \<open>parallel\<close> chains to each deferred.\<close>

definition attached :: "callback \<Rightarrow> nat \<Rightarrow> nat \<Rightarrow> nat \<Rightarrow> ('j, 'z) deferreds_scheme \<Rightarrow> bool" where
  "attached cb ret lo d s \<longleftrightarrow> plain_root d s \<and> (\<exists>e e'. dn_next (node_at d s) = Some e \<and> dn_ok (node_at e s) = cb \<and> dn_ng (node_at e s) = Ng
     \<and> dn_next (node_at e s) = Some e' \<and> dn_ok (node_at e' s) = Ok \<and> dn_ng (node_at e' s) = FailTo ret \<and> dn_next (node_at e' s) = None
     \<and> lo \<le> e \<and> lo \<le> e' \<and> e < df_free s \<and> e' < df_free s)"

lemma attach_facts:
  assumes "d < df_free s" "plain_root d s"
  shows "attached (cb p k) ret (df_free s) d (attach cb ret p k d s)"
    and "df_free (attach cb ret p k d s) = df_free s + 2" "df_log (attach cb ret p k d s) = df_log s"
    and "df_gather (attach cb ret p k d s) = df_gather s"
    and "a < df_free s \<Longrightarrow> a \<noteq> d \<Longrightarrow> node_at a (attach cb ret p k d s) = node_at a s"
    and "a < df_free s \<Longrightarrow> dn_canceller (node_at a (attach cb ret p k d s)) = dn_canceller (node_at a s)"
  using assms by (auto simp: attached_def attach_def split_beta node_post plain_root_def blank_def)

lemma attached_frame:
  assumes "attached cb ret lo d s" "\<And>a. a < df_free s \<Longrightarrow> a \<notin> D \<Longrightarrow> node_at a s' = node_at a s"
    and "df_free s \<le> df_free s'" "d < df_free s" "d \<notin> D" "\<And>a. a \<in> D \<Longrightarrow> a < lo"
  shows "attached cb ret lo d s'"
proof -
  obtain e e' where e: "dn_next (node_at d s) = Some e" "dn_ok (node_at e s) = cb" "dn_ng (node_at e s) = Ng"
     "dn_next (node_at e s) = Some e'" "dn_ok (node_at e' s) = Ok" "dn_ng (node_at e' s) = FailTo ret" "dn_next (node_at e' s) = None"
     "lo \<le> e" "lo \<le> e'" "e < df_free s" "e' < df_free s" and p: "plain_root d s"
    using assms(1) by (auto simp: attached_def)
  have "e \<notin> D" "e' \<notin> D" using assms(6) e by force+
  then have "node_at d s' = node_at d s" "node_at e s' = node_at e s" "node_at e' s' = node_at e' s"
    using assms e by simp_all
  with e p assms(3) show ?thesis unfolding attached_def plain_root_def
    by (intro conjI exI [of _ e] exI [of _ e']) simp_all
qed

fun attach_all :: "(nat \<Rightarrow> string \<Rightarrow> callback) \<Rightarrow> nat \<Rightarrow> nat \<Rightarrow> (string \<times> nat) list \<Rightarrow> ('j, 'z) deferreds_scheme \<Rightarrow> ('j, 'z) deferreds_scheme" where
  "attach_all cb ret p [] s = s"
| "attach_all cb ret p ((k, d) # ds) s = attach_all cb ret p ds (attach cb ret p k d s)"

lemma parallel_loop_attach: "parallel_loop ret p (map (\<lambda>(k, d). (k, Df d)) ds) s = attach_all Gather ret p ds s"
  by (induction ds arbitrary: s) auto

lemma earlier_loop_attach: "earlier_loop ret p ds s = attach_all First ret p ds s"
  by (induction ds arbitrary: s) auto

lemma attach_all_facts:
  assumes "distinct (map snd ds)" "\<forall>d \<in> snd ` set ds. d < df_free s \<and> plain_root d s"
  shows "(\<forall>(k, d) \<in> set ds. attached (cb p k) ret (df_free s) d (attach_all cb ret p ds s))
    \<and> df_free s \<le> df_free (attach_all cb ret p ds s)
    \<and> df_log (attach_all cb ret p ds s) = df_log s
    \<and> df_gather (attach_all cb ret p ds s) = df_gather s
    \<and> (\<forall>a < df_free s. dn_canceller (node_at a (attach_all cb ret p ds s)) = dn_canceller (node_at a s))
    \<and> (\<forall>a. a < df_free s \<longrightarrow> a \<notin> snd ` set ds \<longrightarrow> node_at a (attach_all cb ret p ds s) = node_at a s)"
  using assms
proof (induction ds arbitrary: s)
  case (Cons x ds)
  obtain k d where x: "x = (k, d)" by (cases x)
  let ?s1 = "attach cb ret p k d s"
  let ?s' = "attach_all cb ret p ds ?s1"
  have d: "d < df_free s" "plain_root d s" "d \<notin> snd ` set ds" using Cons.prems by (auto simp: x)
  note f = attach_facts [OF d(1,2), where cb = cb and p = p and k = k and ret = ret]
  have h: "distinct (map snd ds)" "\<forall>d' \<in> snd ` set ds. d' < df_free ?s1 \<and> plain_root d' ?s1"
  proof -
    show "distinct (map snd ds)" using Cons.prems(1) by (simp add: x)
    show "\<forall>d' \<in> snd ` set ds. d' < df_free ?s1 \<and> plain_root d' ?s1"
    proof
      fix d' assume m: "d' \<in> snd ` set ds"
      then have "d' < df_free s" "plain_root d' s" "d' \<noteq> d" using Cons.prems(2) d(3) by (auto simp: x)
      then show "d' < df_free ?s1 \<and> plain_root d' ?s1" using f by (simp add: plain_root_def)
    qed
  qed
  note IH = Cons.IH [OF h]
  have "attached (cb p k) ret (df_free s) d ?s'"
    by (rule attached_frame [OF f(1), where D = "snd ` set ds"]) (use IH f d Cons.prems in \<open>auto simp: x\<close>)
  moreover have "attached (cb p k') ret (df_free s) d' ?s'" if "(k', d') \<in> set ds" for k' d'
    using IH that f(2) by (fastforce simp: attached_def)
  ultimately show ?case using IH f by (auto simp: x)
qed simp

lemma attached_mono: "attached cb ret lo d s \<Longrightarrow> lo' \<le> lo \<Longrightarrow> attached cb ret lo' d s"
  by (fastforce simp: attached_def)

text \<open>What one answer does, before and after the continuation runs.\<close>

definition with_gather :: "nat \<Rightarrow> 'j gathering \<Rightarrow> ('j, 'z) deferreds_scheme \<Rightarrow> ('j, 'z) deferreds_scheme" where
  "with_gather p g s = s\<lparr>df_gather := (df_gather s)(p := g)\<rparr>"

definition answered :: "string \<Rightarrow> 'j dval \<Rightarrow> 'j gathering \<Rightarrow> 'j gathering" where
  "answered k v g = (put_value k v g)\<lparr>ga_num := ga_num g - 1\<rparr>"

lemma node_with_gather [simp]: "node_at a (with_gather p g s) = node_at a s"
  by (simp add: with_gather_def)

lemma fire_attached:
  assumes a: "attached cb ret lo d s" and v: "ref_of v = None"
  shows attached_fails: "fire body False ret v s = Some s \<Longrightarrow> fire body False d v s = Some s"
    and attached_waits: "effect body cb v s = Some ((True, Undef), None, s1) \<Longrightarrow> (\<And>a. node_at a s1 = node_at a s) \<Longrightarrow>
      fire body True d v s = Some s1"
    and attached_calls: "effect body cb v s = Some ((True, Undef), Some (c, e', w), s1) \<Longrightarrow> fire body c e' w s1 = Some s2 \<Longrightarrow>
      (\<And>a. lo \<le> a \<Longrightarrow> a < df_free s \<Longrightarrow> node_at a s2 = node_at a s) \<Longrightarrow> fire body True d v s = Some s2"
proof -
  obtain e e' where e: "dn_ok (node_at d s) = Ok" "dn_ng (node_at d s) = Ng" "dn_next (node_at d s) = Some e"
    "dn_ok (node_at e s) = cb" "dn_ng (node_at e s) = Ng" "lo \<le> e" "lo \<le> e'" "e < df_free s" "e' < df_free s"
    "dn_next (node_at e s) = Some e'" "dn_ok (node_at e' s) = Ok" "dn_ng (node_at e' s) = FailTo ret" "dn_next (node_at e' s) = None"
    using a by (auto simp: attached_def plain_root_def)
  have first: "fire body b d v s = fire body b e v s" for b
  proof -
    have f: "effect body (if b then dn_ok (node_at d s) else dn_ng (node_at d s)) v s = Some ((b, v), None, s)" using e by simp
    show ?thesis using fire_next [OF f] v e by simp
  qed
  have last: "fire body True e' Undef t = Some t" if "node_at e' t = node_at e' s" for t
  proof -
    have l: "effect body (if True then dn_ok (node_at e' t) else dn_ng (node_at e' t)) Undef t = Some ((True, Undef), None, t)"
      using e that by simp
    show ?thesis by (rule fire_last [OF l]) (use e that in simp_all)
  qed
  show "fire body True d v s = Some s1" if eff: "effect body cb v s = Some ((True, Undef), None, s1)"
    and n: "\<And>a. node_at a s1 = node_at a s"
  proof -
    have f: "effect body (if True then dn_ok (node_at e s) else dn_ng (node_at e s)) v s = Some ((True, Undef), None, s1)"
      using eff e by simp
    show ?thesis using fire_next [OF f] n e first last by simp
  qed
  show "fire body False d v s = Some s" if r: "fire body False ret v s = Some s"
  proof -
    have f: "effect body (if False then dn_ok (node_at e s) else dn_ng (node_at e s)) v s = Some ((False, v), None, s)" using e by simp
    have "fire body False e' v s = Some s" using r e by (subst fire.simps) simp
    then show ?thesis using fire_next [OF f] v e first by simp
  qed
  show "fire body True d v s = Some s2" if eff: "effect body cb v s = Some ((True, Undef), Some (c, x, w), s1)"
    and r: "fire body c x w s1 = Some s2" and n: "\<And>a. lo \<le> a \<Longrightarrow> a < df_free s \<Longrightarrow> node_at a s2 = node_at a s" for c x w
  proof -
    have f: "effect body (if True then dn_ok (node_at e s) else dn_ng (node_at e s)) v s = Some ((True, Undef), Some (c, x, w), s1)"
      using eff e by simp
    have ne: "node_at e s2 = node_at e s" "node_at e' s2 = node_at e' s" using n e by simp_all
    show ?thesis using fire_inner [OF f r] e ne first last by simp
  qed
qed

lemma fire_part:
  assumes a: "attached (Gather p k) ret lo d s" and v: "ref_of v = None" and g: "g = answered k v (df_gather s p)"
  shows part_waits: "0 < ga_num g \<Longrightarrow> fire body True d v s = Some (with_gather p g s)"
    and part_last: "ga_num g \<le> 0 \<Longrightarrow> fire body True (ga_ret g) (gathered g) (with_gather p g s) = Some s2
       \<Longrightarrow> df_heap s2 = df_heap s \<Longrightarrow> fire body True d v s = Some s2"
proof -
  have eff: "effect body (Gather p k) v s = Some ((True, Undef), if ga_num g \<le> 0 then Some (True, ga_ret g, gathered g) else None, with_gather p g s)"
    by (simp add: g Let_def with_gather_def answered_def)
  show "fire body True d v s = Some (with_gather p g s)" if n: "0 < ga_num g"
    by (rule attached_waits [OF a v]) (use eff n in auto)
  show "fire body True d v s = Some s2" if n: "ga_num g \<le> 0"
    and r: "fire body True (ga_ret g) (gathered g) (with_gather p g s) = Some s2" and h: "df_heap s2 = df_heap s"
    by (rule attached_calls [OF a v _ r]) (use eff n h in \<open>auto simp: node_at_def\<close>)
qed

text \<open>A continuation that leaves the deferreds alone: it may change the page and the log.\<close>

definition continues :: "('j, 'z) program \<Rightarrow> nat \<Rightarrow> ('j dval \<Rightarrow> ('j, 'z) deferreds_scheme \<Rightarrow> ('j, 'z) deferreds_scheme) \<Rightarrow> bool" where
  "continues body f upd \<longleftrightarrow> (\<forall>v s. body f [v] s = Some ((True, Undef), upd v s) \<and> df_heap (upd v s) = df_heap s)"

text \<open>\<open>ret\<close> with one \<open>next\<close>: a result reaches the continuation, an error is dropped.\<close>

definition awaits :: "nat \<Rightarrow> nat \<Rightarrow> ('j, 'z) deferreds_scheme \<Rightarrow> bool" where
  "awaits ret f s \<longleftrightarrow> plain_root ret s \<and> (\<exists>r. dn_next (node_at ret s) = Some r \<and> dn_ok (node_at r s) = User f
     \<and> dn_ng (node_at r s) = Ng \<and> dn_next (node_at r s) = None)"

lemma awaits_fire:
  assumes "awaits ret f s" "continues body f upd" "ref_of v = None"
  shows "fire body True ret v s = Some (upd v (s\<lparr>df_log := df_log s @ [(f, [v])]\<rparr>))"
    and "fire body False ret v s = Some s"
proof -
  obtain r where r: "dn_ok (node_at ret s) = Ok" "dn_ng (node_at ret s) = Ng" "dn_next (node_at ret s) = Some r"
    "dn_ok (node_at r s) = User f" "dn_ng (node_at r s) = Ng" "dn_next (node_at r s) = None"
    using assms(1) by (auto simp: awaits_def plain_root_def)
  have first: "fire body b ret v s = fire body b r v s" for b
  proof -
    have f: "effect body (if b then dn_ok (node_at ret s) else dn_ng (node_at ret s)) v s = Some ((b, v), None, s)" using r by simp
    show ?thesis using fire_next [OF f] assms(3) r by simp
  qed
  let ?s' = "upd v (s\<lparr>df_log := df_log s @ [(f, [v])]\<rparr>)"
  have f: "effect body (if True then dn_ok (node_at r s) else dn_ng (node_at r s)) v s = Some ((True, Undef), None, ?s')"
    using r assms(2) by (simp add: continues_def call_user_def)
  have "df_heap ?s' = df_heap s" using assms(2) by (simp add: continues_def)
  then have "dn_next (node_at r ?s') = None" using r by (simp add: node_at_def)
  then show "fire body True ret v s = Some ?s'" using fire_last [OF f] first by simp
  have f': "effect body (if False then dn_ok (node_at r s) else dn_ng (node_at r s)) v s = Some ((False, v), None, s)" using r by simp
  show "fire body False ret v s = Some s" using fire_last [OF f'] first r assms(3) by simp
qed


text \<open>A series of answers, each for one deferred.\<close>

fun answer_all :: "('j, 'z) program \<Rightarrow> (nat \<times> bool \<times> 'j dval) list \<Rightarrow> ('j, 'z) deferreds_scheme \<Rightarrow> ('j, 'z) deferreds_scheme option" where
  "answer_all body [] s = Some s"
| "answer_all body ((d, b, v) # as) s = Option.bind (fire body b d v s) (answer_all body as)"

definition results :: "(string \<times> bool \<times> 'j dval) list \<Rightarrow> (string \<times> 'j dval) list" where
  "results as = map (\<lambda>(k, b, v). (k, v)) (filter (\<lambda>(k, b, v). b) as)"

lemma results_simps [simp]:
  "results [] = []" "results ((k, b, v) # as) = (if b then (k, v) # results as else results as)"
  by (simp_all add: results_def)

lemma results_length: "length (results as) \<le> length as"
  by (simp add: results_def)

lemma obj_set_new: "k \<notin> fst ` set xs \<Longrightarrow> obj_set k v xs = xs @ [(k, v)]"
  by (induction xs) auto

lemma with_gather_idle [simp]: "with_gather p (df_gather s p) s = s"
  by (simp add: with_gather_def)

lemma with_gather_twice [simp]: "with_gather p g (with_gather p g' s) = with_gather p g s"
  by (simp add: with_gather_def)

lemma gather_frames [simp]:
  "df_gather (with_gather p g s) p = g" "df_log (with_gather p g s) = df_log s" "df_free (with_gather p g s) = df_free s"
  "df_heap (with_gather p g s) = df_heap s"
  by (simp_all add: with_gather_def)

lemma attached_gather [simp]: "attached cb ret lo d (with_gather p g s) = attached cb ret lo d s"
  by (simp add: attached_def plain_root_def)

lemma awaits_gather [simp]: "awaits ret f (with_gather p g s) = awaits ret f s"
  by (simp add: awaits_def plain_root_def)

lemma gather_answers_run:
  assumes "\<forall>x \<in> set as. ref_of (snd (snd x)) = None \<and> attached (Gather p (fst x)) ret lo (at (fst x)) t"
    and "awaits ret f t" "continues body f upd"
    and "ga_array (df_gather t p) = False" "ga_ret (df_gather t p) = ret"
    and "ga_num (df_gather t p) = int n - int (length (ga_values (df_gather t p)))"
    and "distinct (map fst (ga_values (df_gather t p)) @ map fst as)"
    and "length (ga_values (df_gather t p)) < n" "length (ga_values (df_gather t p)) + length as \<le> n"
  shows "\<exists>g. answer_all body (map (\<lambda>(k, b, v). (at k, b, v)) as) t =
    Some (let got = ga_values (df_gather t p) @ results as; t' = with_gather p g t
      in if length got = n then upd (Obj got) (t'\<lparr>df_log := df_log t @ [(f, [Obj got])]\<rparr>) else t')"
  using assms
proof (induction as arbitrary: t)
  case Nil
  then show ?case by (intro exI [of _ "df_gather t p"]) (simp add: Let_def)
next
  case (Cons x as)
  obtain k b v where x: "x = (k, b, v)" by (cases x)
  let ?g = "df_gather t p"
  have a: "ref_of v = None" "attached (Gather p k) ret lo (at k) t" using Cons.prems(1) by (simp_all add: x)
  have k: "k \<notin> fst ` set (ga_values ?g)" using Cons.prems(7) by (auto simp: x)
  have rest: "\<forall>y \<in> set as. ref_of (snd (snd y)) = None \<and> attached (Gather p (fst y)) ret lo (at (fst y)) t"
    using Cons.prems(1) by simp
  show ?case
  proof (cases b)
    case False
    have "fire body False (at k) v t = Some t"
      by (rule attached_fails [OF a(2,1) awaits_fire(2) [OF Cons.prems(2,3) a(1)]])
    moreover have "distinct (map fst (ga_values ?g) @ map fst as)" "length (ga_values ?g) + length as \<le> n"
      using Cons.prems by (simp_all add: x)
    ultimately show ?thesis
      using Cons.IH [OF rest Cons.prems(2-6) _ Cons.prems(8)] False by (simp add: x)
  next
    case True
    define g1 where "g1 = answered k v ?g"
    have g1: "ga_values g1 = ga_values ?g @ [(k, v)]" "ga_num g1 = ga_num ?g - 1" "ga_array g1 = False" "ga_ret g1 = ret"
      using k Cons.prems(4,5) by (simp_all add: g1_def answered_def put_value_def obj_set_new)
    show ?thesis
    proof (cases "length (ga_values g1) < n")
      case less: True
      have "0 < ga_num g1" using less g1 Cons.prems(6) by simp
      from part_waits [OF a(2,1) g1_def this] have f: "fire body True (at k) v t = Some (with_gather p g1 t)" .
      have h: "\<forall>y \<in> set as. ref_of (snd (snd y)) = None \<and> attached (Gather p (fst y)) ret lo (at (fst y)) (with_gather p g1 t)"
        "awaits ret f (with_gather p g1 t)" "ga_array (df_gather (with_gather p g1 t) p) = False"
        "ga_ret (df_gather (with_gather p g1 t) p) = ret"
        "ga_num (df_gather (with_gather p g1 t) p) = int n - int (length (ga_values (df_gather (with_gather p g1 t) p)))"
        "distinct (map fst (ga_values (df_gather (with_gather p g1 t) p)) @ map fst as)"
        "length (ga_values (df_gather (with_gather p g1 t) p)) < n"
        "length (ga_values (df_gather (with_gather p g1 t) p)) + length as \<le> n"
        using rest Cons.prems less by (auto simp: g1 x)
      from Cons.IH [OF h(1,2) Cons.prems(3) h(3-8)] show ?thesis using f True by (simp add: x g1 Let_def cong: if_cong)
    next
      case False
      then have n: "length (ga_values ?g) + 1 = n" "as = []" using Cons.prems(8,9) g1(1) by (simp, cases as) simp_all
      have num: "ga_num g1 \<le> 0" using n g1 Cons.prems(6) by simp
      have got: "gathered g1 = Obj (ga_values ?g @ [(k, v)])" by (simp add: gathered_def g1)
      have aw: "awaits ret f (with_gather p g1 t)" using Cons.prems(2) by simp
      let ?w = "Obj (ga_values ?g @ [(k, v)])"
      let ?s2 = "upd ?w ((with_gather p g1 t)\<lparr>df_log := df_log t @ [(f, [?w])]\<rparr>)"
      have "fire body True (ga_ret g1) (gathered g1) (with_gather p g1 t) = Some ?s2"
        using awaits_fire(1) [OF aw Cons.prems(3), of ?w] by (simp add: g1 got)
      moreover have "df_heap ?s2 = df_heap t" using Cons.prems(3) by (simp add: continues_def)
      ultimately have "fire body True (at k) v t = Some ?s2" by (rule part_last [OF a(2,1) g1_def num])
      then show ?thesis using n True by (auto simp: x Let_def intro!: exI [of _ g1])
    qed
  qed
qed

text \<open>The state after the deferreds of \<open>ds\<close> are attached and a continuation is chained to the new one.\<close>

lemma gather_ready:
  assumes "distinct (map snd ds)" "\<forall>d \<in> snd ` set ds. d < df_free s \<and> plain_root d s"
    and g: "gather_new False (map (\<lambda>(k, d). (k, Df d)) ds) s = (ret, p, t)"
    and s2: "s2 = snd (df_post True (User f) ret (attach_all cb ret p ds t))"
  shows "(\<forall>(k, d) \<in> set ds. attached (cb (df_gathers s) k) ret (Suc (df_free s)) d s2)
    \<and> awaits ret f s2 \<and> df_log s2 = df_log s \<and> Suc (df_free s) \<le> df_free s2
    \<and> (\<forall>a < df_free s. dn_canceller (node_at a s2) = dn_canceller (node_at a s))
    \<and> (\<forall>r. dn_next (node_at ret s2) = Some r \<longrightarrow> df_free s < r)
    \<and> df_gather s2 (df_gathers s) = \<lparr>ga_parts = map (\<lambda>(k, d). (k, Df d)) ds, ga_array = False, ga_values = [], ga_num = int (length ds), ga_ret = ret\<rparr>"
proof -
  let ?parts = "map (\<lambda>(k, d). (k, Df d)) ds" and ?s1 = "attach_all cb ret p ds t"
  have ret: "ret = df_free s" "p = df_gathers s" using g by (simp_all add: gather_new_def Let_def split_beta)
  have t: "df_free t = Suc (df_free s)" "df_log t = df_log s"
    "df_gather t p = \<lparr>ga_parts = ?parts, ga_array = False, ga_values = [], ga_num = int (length ds), ga_ret = ret\<rparr>"
    "\<And>a. node_at a t = (if a = df_free s then blank\<lparr>dn_canceller := Some (CancelParts ?parts)\<rparr> else node_at a s)"
    using g by (auto simp: gather_new_def new_deferred_def node_at_def Let_def)
  have "\<forall>d \<in> snd ` set ds. d < df_free t \<and> plain_root d t"
    using assms(2) t(1,4) by (auto simp: plain_root_def)
  note f = attach_all_facts [OF assms(1) this, of cb p ret]
  have nd: "df_free s \<notin> snd ` set ds" using assms(2) by auto
  then have r: "node_at ret ?s1 = node_at ret t" using f t(1) ret(1) by auto
  have lt: "ret < df_free ?s1" using f t(1) ret(1) by simp
  have "attached (cb p k) ret (Suc (df_free s)) d s2" if "(k, d) \<in> set ds" for k d
  proof (rule attached_frame [where D = "{ret}"])
    show "attached (cb p k) ret (Suc (df_free s)) d ?s1" using f that t(1) by auto
    show "d < df_free ?s1" "d \<notin> {ret}" using that assms(2) f t(1) nd ret(1) by fastforce+
  qed (auto simp: s2 node_post ret(1))
  moreover have "awaits ret f s2"
    using r lt t(4) by (auto simp: awaits_def plain_root_def s2 node_post ret(1) blank_def)
  moreover have "dn_canceller (node_at a s2) = dn_canceller (node_at a s)" if "a < df_free s" for a
    using f that t(1,4) ret(1) by (auto simp: s2 node_post)
  moreover have "df_free s < r" if "dn_next (node_at ret s2) = Some r" for r
    using that f t(1) by (auto simp: s2 node_post)
  ultimately show ?thesis using f t(1,2,3) ret by (auto simp: s2)
qed

text \<open>
  C3: \<open>parallel\<close> with a continuation: whatever answers arrive, in whatever order and with whatever
  failures, the continuation runs exactly when every part has answered with a result, once, with the
  object of all results; what it does to the page is what is done. With a failure among the answers, or
  one of them still missing, it does not run.
\<close>

theorem parallel_once:
  assumes "distinct (map fst ds)" "distinct (map snd ds)" "ds \<noteq> []"
    and "\<forall>d \<in> snd ` set ds. d < df_free s \<and> plain_root d s"
    and "df_parallel False (map (\<lambda>(k, d). (k, Df d)) ds) s = (ret, s1)"
    and "continues body f upd"
    and "distinct (map fst as)" "set (map fst as) \<subseteq> set (map fst ds)" "\<forall>x \<in> set as. ref_of (snd (snd x)) = None"
  shows "\<exists>g. let s2 = snd (df_post True (User f) ret s1) in
     answer_all body (map (\<lambda>(k, b, v). (the (map_of ds k), b, v)) as) s2 =
       Some (if length (results as) = length ds
             then upd (Obj (results as)) (s2\<lparr>df_gather := g, df_log := df_log s @ [(f, [Obj (results as)])]\<rparr>)
             else s2\<lparr>df_gather := g\<rparr>)"
proof -
  define s2 where "s2 = snd (df_post True (User f) ret s1)"
  obtain p t where t: "gather_new False (map (\<lambda>(k, d). (k, Df d)) ds) s = (ret, p, t)"
    "s1 = attach_all Gather ret p ds t"
    using assms(3,5) by (auto simp: df_parallel_def parallel_loop_attach split: prod.splits)
  note r = gather_ready [OF assms(2,4) t(1) s2_def [unfolded t(2)]]
  let ?p = "df_gathers s"
  have len: "length as \<le> length ds"
    using card_mono [OF _ assms(8)] distinct_card [OF assms(7)] distinct_card [OF assms(1)] by simp
  have at: "\<forall>x \<in> set as. ref_of (snd (snd x)) = None \<and> attached (Gather ?p (fst x)) ret (Suc (df_free s)) (the (map_of ds (fst x))) s2"
  proof
    fix x assume x: "x \<in> set as"
    then have "fst x \<in> fst ` set ds" using assms(8) by auto
    then obtain d where d: "(fst x, d) \<in> set ds" by auto
    then have "map_of ds (fst x) = Some d" using assms(1) by simp
    then show "ref_of (snd (snd x)) = None \<and> attached (Gather ?p (fst x)) ret (Suc (df_free s)) (the (map_of ds (fst x))) s2"
      using r d x assms(9) by auto
  qed
  have h: "awaits ret f s2" "ga_array (df_gather s2 ?p) = False" "ga_ret (df_gather s2 ?p) = ret"
    "ga_num (df_gather s2 ?p) = int (length ds) - int (length (ga_values (df_gather s2 ?p)))"
    "distinct (map fst (ga_values (df_gather s2 ?p)) @ map fst as)"
    "length (ga_values (df_gather s2 ?p)) < length ds" "length (ga_values (df_gather s2 ?p)) + length as \<le> length ds"
    using r assms(3,7) len by simp_all
  from gather_answers_run [OF at h(1) assms(6) h(2-7)] obtain g where
    g: "answer_all body (map (\<lambda>(k, b, v). (the (map_of ds k), b, v)) as) s2 = Some (let got = results as; t' = with_gather ?p g s2
      in if length got = length ds then upd (Obj got) (t'\<lparr>df_log := df_log s2 @ [(f, [Obj got])]\<rparr>) else t')"
    using r by auto
  show ?thesis
    using g r by (intro exI [of _ "(df_gather s2)(?p := g)"]) (simp add: Let_def with_gather_def flip: s2_def)
qed

text \<open>Two requests, the second answered first.\<close>

definition page_demo :: "(unit, unit) program" where
  "page_demo f args s = Some ((True, Undef), s)"

lemma parallel_once_witness:
  "\<exists>s3. answer_all page_demo [(1, True, Num 20), (0, True, Num 10)]
          (snd (df_post True (User 5) 2 (snd (df_parallel False [(''a'', Df 0), (''b'', Df 1)] df_two)))) = Some s3
     \<and> df_log s3 = [(5, [Obj [(''b'', Num 20), (''a'', Num 10)]])]"
proof -
  let ?ds = "[(''a'', 0), (''b'', 1)] :: (string \<times> nat) list"
  have p: "\<forall>d \<in> snd ` set ?ds. d < df_free df_two \<and> plain_root d df_two"
    by (simp add: df_two_def df_start_def plain_root_def blank_def)
  have r: "df_parallel False (map (\<lambda>(k, d). (k, Df d)) ?ds) df_two = (2, snd (df_parallel False [(''a'', Df 0), (''b'', Df 1)] df_two))"
    by (simp add: df_parallel_def gather_new_def split_beta Let_def df_two_def df_start_def)
  have c: "continues page_demo 5 (\<lambda>v s. s)" by (simp add: continues_def page_demo_def)
  have l: "df_log df_two = []" by (simp add: df_two_def df_start_def)
  show ?thesis
    using parallel_once [OF _ _ _ p r c, of "[(''b'', True, Num 20), (''a'', True, Num 10)]"] by (auto simp: l Let_def)
qed


section \<open>Loops\<close>

text \<open>The timers, first the oldest.\<close>

fun ticks :: "('j, 'z) program \<Rightarrow> nat \<Rightarrow> ('j, 'z) deferreds_scheme \<Rightarrow> ('j, 'z) deferreds_scheme option" where
  "ticks body 0 s = Some s"
| "ticks body (Suc n) s = (case df_timers s of [] \<Rightarrow> Some s
     | t # _ \<Rightarrow> Option.bind (run_timer body (fst t) 0 s) (ticks body n))"

text \<open>The calls that a loop makes from \<open>i\<close> on, and its result.\<close>

fun loop_calls :: "(nat \<Rightarrow> 'j dval \<Rightarrow> bool \<times> 'j dval) \<Rightarrow> nat \<Rightarrow> int \<Rightarrow> int \<Rightarrow> int \<Rightarrow> nat \<Rightarrow> int \<Rightarrow> 'j dval \<Rightarrow> (nat \<times> 'j dval list) list" where
  "loop_calls out f b e st 0 i prev = []"
| "loop_calls out f b e st (Suc k) i prev =
     (f, [Num i, Obj [(''begin'', Num b), (''end'', Num e), (''step'', Num (if i + st > e then e - i + 1 else st)),
        (''last'', Flag (i + st > e)), (''prev'', prev)]]) # loop_calls out f b e st k (i + st) (snd (out f (Num i)))"

fun loop_result :: "(nat \<Rightarrow> 'j dval \<Rightarrow> bool \<times> 'j dval) \<Rightarrow> nat \<Rightarrow> int \<Rightarrow> nat \<Rightarrow> int \<Rightarrow> 'j dval \<Rightarrow> 'j dval" where
  "loop_result out f st 0 i prev = prev"
| "loop_result out f st (Suc k) i prev = loop_result out f st k (i + st) (snd (out f (Num i)))"

text \<open>From \<open>i\<close> on there are \<open>k\<close> rounds.\<close>

fun rounds_left :: "int \<Rightarrow> int \<Rightarrow> nat \<Rightarrow> int \<Rightarrow> bool" where
  "rounds_left e st 0 i \<longleftrightarrow> e < i"
| "rounds_left e st (Suc k) i \<longleftrightarrow> i \<le> e \<and> rounds_left e st k (i + st)"

definition loop_rounds :: "int \<Rightarrow> int \<Rightarrow> int \<Rightarrow> nat" where
  "loop_rounds b e st = nat ((e - b) div st + 1)"

lemma rounds_loop_rounds: "0 < st \<Longrightarrow> i \<le> e + st \<Longrightarrow> rounds_left e st (loop_rounds i e st) i"
proof (induction "loop_rounds i e st" arbitrary: i)
  case 0
  have "(e - i) div st < 0" using 0(1) by (simp add: loop_rounds_def)
  then have "e - i < 0" using 0(2) by (simp add: pos_imp_zdiv_neg_iff)
  then show ?case using 0(1) by (simp flip: 0(1))
next
  case (Suc k)
  have d: "(e - (i + st)) div st = (e - i) div st - 1"
    using div_mult_self2 [of st "e - i" "-1"] Suc.prems(1) by (simp add: algebra_simps)
  have "0 \<le> (e - i) div st" using Suc(2) by (simp add: loop_rounds_def)
  then have i: "i \<le> e" using Suc.prems(1) by (simp add: pos_imp_zdiv_nonneg_iff)
  have k: "k = loop_rounds (i + st) e st" using Suc(2) d by (simp add: loop_rounds_def)
  from Suc(1) [OF k] Suc.prems i k have "rounds_left e st k (i + st)" by simp
  with i show ?case by (simp flip: Suc(2))
qed

text \<open>One round is pending: its deferred goes on with the one chained to the loop.\<close>

definition round_pending :: "'j looping \<Rightarrow> nat \<Rightarrow> nat \<Rightarrow> nat \<Rightarrow> int \<Rightarrow> ('j, 'z) deferreds_scheme \<Rightarrow> bool" where
  "round_pending o' l c g i t \<longleftrightarrow> df_loop t l = o' \<and> c < df_free t \<and> dn_ok (node_at c t) = User g \<and> dn_next (node_at c t) = None
     \<and> (\<exists>n x. df_timers t = [(n, CallNow x)] \<and> dn_ok (node_at x t) = LoopRound l i \<and> dn_next (node_at x t) = Some c \<and> x < df_free t)"

lemma node_frames [simp]:
  "node_at a (set_loop l o' s) = node_at a s" "node_at a (set_timer t s) = node_at a s" "node_at a (clear_timer i s) = node_at a s"
  by (simp_all add: node_at_def set_loop_def set_timer_def clear_timer_def)

lemma node_timers: "node_at a (s\<lparr>df_timers := ts\<rparr>) = node_at a s"
  by (simp add: node_at_def)

lemma next_call_facts [simp]:
  "fst (df_next_call f s) = df_free s" "df_free (snd (df_next_call f s)) = Suc (df_free s)"
  "df_timers (snd (df_next_call f s)) = df_timers s @ [(df_timer s, CallNow (df_free s))]"
  "df_log (snd (df_next_call f s)) = df_log s" "df_loop (snd (df_next_call f s)) = df_loop s"
  "node_at a (snd (df_next_call f s)) = (if a = df_free s
     then blank\<lparr>dn_ok := (case f of None \<Rightarrow> Ok | Some g \<Rightarrow> g), dn_canceller := Some (ClearTimer (df_timer s))\<rparr> else node_at a s)"
  by (simp_all add: df_next_call_def split_beta set_timer_def new_deferred_def node_at_def)

lemma loop_frames [simp]:
  "df_log (set_loop l o' s) = df_log s" "df_timers (set_loop l o' s) = df_timers s" "df_free (set_loop l o' s) = df_free s"
  "df_loop (set_loop l o' s) l = o'" "df_log (clear_timer i s) = df_log s" "df_free (clear_timer i s) = df_free s"
  "df_loop (clear_timer i s) = df_loop s"
  by (simp_all add: set_loop_def clear_timer_def)

lemma fire_round:
  assumes p: "round_pending o' l c g i t" and i: "i \<le> lo_end o'" and f: "fst (out (lo_fun o') (Num i))"
    and r: "ref_of (snd (out (lo_fun o') (Num i))) = None"
  shows "\<exists>t'. df_timers t \<noteq> [] \<and> run_timer (quiet out) (fst (hd (df_timers t))) 0 t = Some t'
    \<and> df_log t' = df_log t @ [(lo_fun o', [Num i, loop_object (loop_round i o')])]
    \<and> round_pending ((loop_round i o')\<lparr>lo_ret := snd (out (lo_fun o') (Num i))\<rparr>) l c g (i + lo_step o') t'"
proof -
  obtain n x where t: "df_timers t = [(n, CallNow x)]" "dn_ok (node_at x t) = LoopRound l i" "dn_next (node_at x t) = Some c"
    "df_loop t l = o'" "c < df_free t" "x < df_free t" "dn_ok (node_at c t) = User g" "dn_next (node_at c t) = None"
    using p by (auto simp: round_pending_def)
  let ?o = "loop_round i o'" and ?v = "snd (out (lo_fun o') (Num i))"
  let ?t1 = "clear_timer n t"
  define t2 where "t2 = set_loop l (?o\<lparr>lo_ret := ?v\<rparr>) ((set_loop l ?o ?t1)\<lparr>df_log := df_log t @ [(lo_fun o', [Num i, loop_object ?o])]\<rparr>)"
  define t3 where "t3 = snd (df_next_call (Some (LoopRound l (i + lo_step o'))) t2)"
  have o: "lo_fun ?o = lo_fun o'" "lo_step ?o = lo_step o'" by (simp_all add: loop_round_def Let_def)
  have e: "effect (quiet out) (if True then dn_ok (node_at x ?t1) else dn_ng (node_at x ?t1)) Undef ?t1
      = Some ((True, Ref (df_free t2)), None, t3)"
    using t i f r by (simp add: run_round_def Let_def call_user_def quiet_def o loop_call_def split_beta t2_def t3_def)
  have n: "\<And>a. node_at a t2 = node_at a t" "df_free t2 = df_free t" by (simp_all add: t2_def)
  define t' where "t' = put_node (df_free t2) ((node_at (df_free t2) t3)\<lparr>dn_next := dn_next (node_at x t3)\<rparr>) t3"
  have run: "run_timer (quiet out) (fst (hd (df_timers t))) 0 t = Some t'"
    using fire_handed [OF e] t(1) by (simp add: run_timer_def t'_def)
  show ?thesis
    using run t n by (intro exI [of _ t']) (simp add: round_pending_def t'_def t3_def t2_def clear_timer_def set_loop_def)
qed

lemma fire_loop_end:
  assumes p: "round_pending o' l c g i t" and i: "lo_end o' < i" and r: "ref_of (lo_ret o') = None"
  shows "\<exists>t'. df_timers t \<noteq> [] \<and> run_timer (quiet out) (fst (hd (df_timers t))) 0 t = Some t'
    \<and> df_log t' = df_log t @ [(g, [lo_ret o'])] \<and> df_timers t' = []"
proof -
  obtain n x where t: "df_timers t = [(n, CallNow x)]" "dn_ok (node_at x t) = LoopRound l i" "dn_next (node_at x t) = Some c"
    "df_loop t l = o'" "dn_ok (node_at c t) = User g" "dn_next (node_at c t) = None"
    using p by (auto simp: round_pending_def)
  let ?t1 = "clear_timer n t" and ?v = "lo_ret o'"
  let ?t2 = "?t1\<lparr>df_log := df_log t @ [(g, [?v])]\<rparr>"
  have e: "effect (quiet out) (if True then dn_ok (node_at x ?t1) else dn_ng (node_at x ?t1)) Undef ?t1 = Some ((True, ?v), None, ?t1)"
    using t i by (simp add: run_round_def)
  have e': "effect (quiet out) (if True then dn_ok (node_at c ?t1) else dn_ng (node_at c ?t1)) ?v ?t1 = Some (out g ?v, None, ?t2)"
    using t by (simp add: call_user_def quiet_def)
  have f: "fire (quiet out) True x Undef ?t1 = fire (quiet out) True c ?v ?t1" using fire_next [OF e] t r by simp
  have m: "df_timers ?t1 = []" by (simp add: clear_timer_def t(1))
  have "\<exists>t'. fire (quiet out) True c ?v ?t1 = Some t' \<and> df_log t' = df_log t @ [(g, [?v])] \<and> df_timers t' = []"
    using fire_last [OF e'] fire_handed [OF e'] t m by (cases "ref_of (snd (out g ?v))") simp_all
  then show ?thesis using f t(1) by (simp add: run_timer_def)
qed

definition returns_value :: "(nat \<Rightarrow> 'j dval \<Rightarrow> bool \<times> 'j dval) \<Rightarrow> nat \<Rightarrow> bool" where
  "returns_value out f \<longleftrightarrow> (\<forall>i. fst (out f (Num i)) \<and> ref_of (snd (out f (Num i))) = None)"

lemma rounds_run:
  assumes "round_pending o' l c g i t" "rounds_left (lo_end o') (lo_step o') k i" "returns_value out (lo_fun o')"
    and "ref_of (lo_ret o') = None" "k = 0 \<or> \<not> lo_last o' \<and> lo_ostep o' = lo_step o'"
  shows "\<exists>t'. ticks (quiet out) (Suc k) t = Some t' \<and> df_timers t' = []
    \<and> df_log t' = df_log t @ loop_calls out (lo_fun o') (lo_begin o') (lo_end o') (lo_step o') k i (lo_ret o')
        @ [(g, [loop_result out (lo_fun o') (lo_step o') k i (lo_ret o')])]"
  using assms
proof (induction k arbitrary: o' i t)
  case 0
  then have "lo_end o' < i" by simp
  from fire_loop_end [OF 0(1) this 0(4), of out] obtain t' where
    "df_timers t \<noteq> []" "run_timer (quiet out) (fst (hd (df_timers t))) 0 t = Some t'" "df_log t' = df_log t @ [(g, [lo_ret o'])]" "df_timers t' = []"
    by auto
  then show ?case by (cases "df_timers t") auto
next
  case (Suc k)
  have i: "i \<le> lo_end o'" "rounds_left (lo_end o') (lo_step o') k (i + lo_step o')" using Suc.prems(2) by simp_all
  let ?f = "lo_fun o'" and ?o = "(loop_round i o')\<lparr>lo_ret := snd (out (lo_fun o') (Num i))\<rparr>"
  have v: "fst (out ?f (Num i))" "ref_of (snd (out ?f (Num i))) = None" using Suc.prems(3) by (auto simp: returns_value_def)
  from fire_round [OF Suc.prems(1) i(1), where out = out, OF v] obtain t1 where t1: "df_timers t \<noteq> []"
    "run_timer (quiet out) (fst (hd (df_timers t))) 0 t = Some t1"
    "df_log t1 = df_log t @ [(?f, [Num i, loop_object (loop_round i o')])]"
    "round_pending ?o l c g (i + lo_step o') t1" by auto
  have o: "lo_fun ?o = ?f" "lo_step ?o = lo_step o'" "lo_end ?o = lo_end o'" "lo_begin ?o = lo_begin o'"
    "lo_ret ?o = snd (out ?f (Num i))"
    "lo_last ?o = (lo_last o' \<or> i + lo_step o' > lo_end o')"
    "lo_ostep ?o = (if i + lo_step o' > lo_end o' then lo_end o' - i + 1 else lo_ostep o')"
    by (simp_all add: loop_round_def Let_def)
  have "k = 0 \<or> \<not> lo_last ?o \<and> lo_ostep ?o = lo_step ?o"
    using i(2) Suc.prems(5) by (cases k) (auto simp: o)
  from Suc.IH [OF t1(4)] this i(2) v(2) Suc.prems(3) obtain t' where t': "ticks (quiet out) (Suc k) t1 = Some t'" "df_timers t' = []"
    "df_log t' = df_log t1 @ loop_calls out ?f (lo_begin o') (lo_end o') (lo_step o') k (i + lo_step o') (snd (out ?f (Num i)))
        @ [(g, [loop_result out ?f (lo_step o') k (i + lo_step o') (snd (out ?f (Num i)))])]"
    unfolding o by blast
  have "loop_object (loop_round i o') = Obj [(''begin'', Num (lo_begin o')), (''end'', Num (lo_end o')),
      (''step'', Num (if i + lo_step o' > lo_end o' then lo_end o' - i + 1 else lo_step o')),
      (''last'', Flag (i + lo_step o' > lo_end o')), (''prev'', lo_ret o')]"
    using Suc.prems(5) by (simp add: loop_object_def loop_round_def Let_def)
  with t' t1 show ?case by (cases "df_timers t") auto
qed

text \<open>
  C36: \<open>loop\<close> from \<open>b\<close> to \<open>e\<close>, not below \<open>b\<close>, in positive steps, of a function that returns a value, throws nothing and
  returns no deferred, with a continuation: after two more timers than there are
  rounds it is over. The function was called once for each number, with what came before it and whether
  it is the last, and the continuation once, with the last result.
\<close>

theorem loop_runs:
  assumes "0 < st" "b \<le> e" "df_timers s = []" "returns_value out f"
    and "df_loop_from b e st f s = (d, s1)"
  shows "\<exists>s'. ticks (quiet out) (loop_rounds b e st + 2) (snd (df_post True (User g) d s1)) = Some s' \<and> df_timers s' = []
    \<and> df_log s' = df_log s @ loop_calls out f b e st (loop_rounds b e st) b Undef
        @ [(g, [loop_result out f st (loop_rounds b e st) b Undef])]"
proof -
  let ?l = "df_loops s" and ?k = "loop_rounds b e st"
  let ?o = "\<lparr>lo_begin = b, lo_end = e, lo_step = st, lo_ostep = st, lo_last = False, lo_prev = Null, lo_ret = Undef, lo_fun = f\<rparr>"
  let ?s0 = "s\<lparr>df_loop := (df_loop s)(?l := ?o), df_loops := Suc ?l\<rparr>"
  define s2 where "s2 = snd (df_post True (User g) d s1)"
  have d: "d = df_free s" "s1 = snd (df_next_call (Some (LoopStart ?l)) ?s0)"
    using assms(1,5) by (auto simp: df_loop_from_def Let_def prod_eq_iff)
  have loop: "df_loop (snd (df_post ok f' d' t)) = df_loop t" "df_timers (snd (df_post ok f' d' t)) = df_timers t" for ok f' d' and t :: "('a, 'b) deferreds_scheme"
    by (simp_all add: df_post_def split_beta put_node_def new_deferred_def)
  have s2: "df_loop s2 ?l = ?o" "df_timers s2 = [(df_timer s, CallNow d)]" "df_log s2 = df_log s" "df_free s2 = Suc (Suc d)"
    "dn_ok (node_at d s2) = LoopStart ?l" "dn_next (node_at d s2) = Some (Suc d)"
    "dn_ok (node_at (Suc d) s2) = User g" "dn_next (node_at (Suc d) s2) = None"
    using assms(3) by (simp_all add: s2_def loop d node_post blank_def)
  let ?t1 = "clear_timer (df_timer s) s2"
  let ?t2 = "snd (df_next_call (Some (LoopRound ?l b)) ?t1)"
  let ?t' = "put_node (df_free s2) ((node_at (df_free s2) ?t2)\<lparr>dn_next := dn_next (node_at d ?t2)\<rparr>) ?t2"
  have eff: "effect (quiet out) (if True then dn_ok (node_at d ?t1) else dn_ng (node_at d ?t1)) Undef ?t1 = Some ((True, Ref (df_free s2)), None, ?t2)"
    using assms(2) by (simp add: s2 Let_def loop_call_def split_beta)
  have run: "run_timer (quiet out) (df_timer s) 0 s2 = Some ?t'"
    using fire_handed [OF eff] by (simp add: run_timer_def s2)
  have p: "round_pending ?o ?l (Suc d) g b ?t'"
    using s2 by (simp add: round_pending_def clear_timer_def node_timers)
  have "rounds_left e st ?k b" using rounds_loop_rounds [OF assms(1)] assms(1,2) by simp
  with rounds_run [OF p, of ?k out] assms(4) obtain t' where t': "ticks (quiet out) (Suc ?k) ?t' = Some t'" "df_timers t' = []"
    "df_log t' = df_log ?t' @ loop_calls out f b e st ?k b Undef @ [(g, [loop_result out f st ?k b Undef])]"
    by auto
  have "ticks (quiet out) (?k + 2) s2 = Some t'" using t'(1) run s2(2) by simp
  moreover have "df_log ?t' = df_log s" by (simp add: s2)
  ultimately show ?thesis using t'(2,3) by (auto simp: s2_def)
qed

lemma loop_runs_witness:
  "\<exists>s'. ticks (quiet (\<lambda>f v. (True, Str ''x''))) 5 (snd (df_post True (User 9) 0 (snd (df_loop_count 3 4 df_start)))) = Some s'
     \<and> map fst (df_log s') = [4, 4, 4, 9] \<and> map (hd \<circ> snd) (df_log s') = [Num 0, Num 1, Num 2, Str ''x'']"
proof -
  have k: "loop_rounds 0 2 1 = 3" by (simp add: loop_rounds_def)
  have t: "df_timers df_start = []" "df_log df_start = []" by (simp_all add: df_start_def)
  have r: "returns_value (\<lambda>(f :: nat) v. (True, Str ''x'' :: unit dval)) 4" by (simp add: returns_value_def)
  have d: "df_loop_from 0 2 1 4 df_start = (0, snd (df_loop_count 3 4 df_start))"
    by (simp add: df_loop_count_def df_loop_from_def Let_def prod_eq_iff df_start_def)
  have "\<exists>s'. ticks (quiet (\<lambda>f v. (True, Str ''x''))) (3 + 2) (snd (df_post True (User 9) 0 (snd (df_loop_count 3 4 df_start)))) = Some s'
     \<and> df_timers s' = [] \<and> df_log s' = df_log df_start @ loop_calls (\<lambda>f v. (True, Str ''x'')) 4 0 2 1 3 0 Undef
          @ [(9, [loop_result (\<lambda>f v. (True, Str ''x'')) 4 1 3 0 Undef])]"
    using loop_runs [OF _ _ t(1) r d] unfolding k by simp
  then show ?thesis by (simp add: t eval_nat_numeral) auto
qed


section \<open>The first of several deferreds\<close>

text \<open>Deferreds of requests have nothing to cancel: they are only set back.\<close>

lemma node_init [simp]:
  "node_at a (df_init d s) = (if a = d then (node_at d s)\<lparr>dn_next := None, dn_ok := Ok, dn_ng := Ng\<rparr> else node_at a s)"
  "df_log (df_init d s) = df_log s" "df_gather (df_init d s) = df_gather s"
  by (simp_all add: df_init_def)

lemma cancel_requests:
  "\<forall>d \<in> set ds. dn_canceller (node_at d s) = None \<Longrightarrow> cancel_parts (map Df ds) s = Some (True, fold df_init ds s)"
proof (induction ds arbitrary: s)
  case Nil
  show ?case by (subst cancel_parts.simps) simp
next
  case (Cons d ds)
  have "\<forall>d' \<in> set ds. dn_canceller (node_at d' (df_init d s)) = None" using Cons.prems by auto
  from Cons.IH [OF this] Cons.prems show ?case by (subst cancel_parts.simps) simp
qed

lemma fold_init:
  "df_log (fold df_init ds s) = df_log s \<and> df_gather (fold df_init ds s) = df_gather s
     \<and> (\<forall>a. a \<notin> set ds \<longrightarrow> node_at a (fold df_init ds s) = node_at a s)
     \<and> (\<forall>a \<in> set ds. plain_root a (fold df_init ds s) \<and> dn_next (node_at a (fold df_init ds s)) = None)"
proof (induction ds arbitrary: s)
  case (Cons d ds)
  show ?case
  proof (cases "d \<in> set ds")
    case True
    then show ?thesis using Cons.IH [of "df_init d s"] by auto
  next
    case False
    then show ?thesis using Cons.IH [of "df_init d s"] by (auto simp: plain_root_def)
  qed
qed simp

text \<open>Answers before the first result are dropped, and so are those after it.\<close>

lemma fire_idle:
  assumes "plain_root d s" "dn_next (node_at d s) = None" "ref_of v = None"
  shows "fire body b d v s = Some s"
proof -
  have f: "effect body (if b then dn_ok (node_at d s) else dn_ng (node_at d s)) v s = Some ((b, v), None, s)"
    using assms(1) by (simp add: plain_root_def)
  show ?thesis by (rule fire_last [OF f]) (use assms in simp_all)
qed

lemma answers_idle:
  assumes "\<forall>x \<in> set as. ref_of (snd (snd x)) = None \<and> plain_root (at (fst x)) s \<and> dn_next (node_at (at (fst x)) s) = None"
  shows "answer_all body (map (\<lambda>(k, b, v). (at k, b, v)) as) s = Some s"
  using assms
proof (induction as)
  case (Cons x as)
  obtain k b v where x: "x = (k, b, v)" by (cases x)
  have "fire body b (at k) v s = Some s" by (rule fire_idle) (use Cons.prems in \<open>simp_all add: x\<close>)
  then show ?case using Cons by (simp add: x)
qed simp

lemma earlier_run:
  assumes "\<forall>x \<in> set as. ref_of (snd (snd x)) = None \<and> fst x \<in> fst ` set ds"
    and "\<forall>(k, d) \<in> set ds. attached (First p k) ret lo d t \<and> dn_canceller (node_at d t) = None \<and> d < lo"
    and "distinct (map fst ds)" "awaits ret f t" "lo \<le> df_free t"
    and "\<And>r. dn_next (node_at ret t) = Some r \<Longrightarrow> lo \<le> r" "lo \<le> ret" and "continues body f upd"
    and "ga_array (df_gather t p) = False" "ga_ret (df_gather t p) = ret" "ga_values (df_gather t p) = []"
    and "map snd (ga_parts (df_gather t p)) = map Df (map snd ds)"
  shows "\<exists>t'. answer_all body (map (\<lambda>(k, b, v). (the (map_of ds k), b, v)) as) t = Some (case results as of [] \<Rightarrow> t
      | r # _ \<Rightarrow> upd (Obj [r]) (t'\<lparr>df_log := df_log t @ [(f, [Obj [r]])]\<rparr>))"
  using assms(1)
proof (induction as)
  case Nil
  show ?case by simp
next
  case (Cons x as)
  obtain k b v where x: "x = (k, b, v)" by (cases x)
  let ?at = "\<lambda>k. the (map_of ds k)" and ?D = "map snd ds" and ?g = "df_gather t p"
  have "k \<in> fst ` set ds" and v: "ref_of v = None" using Cons.prems by (auto simp: x)
  then obtain d where d: "(k, d) \<in> set ds" by auto
  then have at: "?at k = d" using assms(3) by simp
  have a: "attached (First p k) ret lo d t" using assms(2) d by auto
  show ?case
  proof (cases b)
    case False
    have "fire body False d v t = Some t" by (rule attached_fails [OF a v awaits_fire(2) [OF assms(4,8) v]])
    then show ?thesis using Cons False by (simp add: x at)
  next
    case True
    define t1 where "t1 = fold df_init ?D (t\<lparr>df_gather := (df_gather t)(p := put_value k v ?g)\<rparr>)"
    let ?w = "Obj [(k, v)]"
    let ?t2 = "upd ?w (t1\<lparr>df_log := df_log t @ [(f, [?w])]\<rparr>)"
    have c: "cancel_parts (map Df ?D) (t\<lparr>df_gather := (df_gather t)(p := put_value k v ?g)\<rparr>) = Some (True, t1)"
      unfolding t1_def by (rule cancel_requests) (use assms(2) in auto)
    have eff: "effect body (First p k) v t = Some ((True, Undef), Some (True, ret, ?w), t1)"
      using c assms(9-12) by (simp add: Let_def put_value_def gathered_def)
    note i = fold_init [of ?D "t\<lparr>df_gather := (df_gather t)(p := put_value k v ?g)\<rparr>", folded t1_def]
    have out: "a \<notin> set ?D" if "lo \<le> a" for a using assms(2) that by fastforce
    have keep: "node_at a t1 = node_at a t" if "lo \<le> a" for a using i out [OF that] by simp
    have "awaits ret f t1"
      using assms(4) keep [OF assms(7)] keep assms(6) by (auto simp: awaits_def plain_root_def)
    from awaits_fire(1) [OF this assms(8), of ?w] have call: "fire body True ret ?w t1 = Some ?t2" using i by simp
    have h: "df_heap ?t2 = df_heap t1" using assms(8) by (simp add: continues_def)
    then have same: "node_at a ?t2 = node_at a t1" for a by (simp add: node_at_def)
    have f: "fire body True d v t = Some ?t2" by (rule attached_calls [OF a v eff call]) (simp add: same keep)
    have "answer_all body (map (\<lambda>(k, b, v). (?at k, b, v)) as) ?t2 = Some ?t2"
    proof (rule answers_idle, intro ballI)
      fix y assume y: "y \<in> set as"
      then obtain e where e: "(fst y, e) \<in> set ds" using Cons.prems by fastforce
      then have "?at (fst y) = e" "e \<in> set ?D" using assms(3) by force+
      then show "ref_of (snd (snd y)) = None \<and> plain_root (?at (fst y)) ?t2 \<and> dn_next (node_at (?at (fst y)) ?t2) = None"
        using i y Cons.prems same by (auto simp: plain_root_def)
    qed
    then show ?thesis using f True by (auto simp: x at)
  qed
qed

text \<open>
  \<open>earlier\<close> with a continuation: the first result that arrives reaches it, alone, and sets all the
  deferreds back, so that later answers do nothing; failures before it are dropped.
\<close>

theorem earlier_first_only:
  assumes "distinct (map fst ds)" "distinct (map snd ds)" "ds \<noteq> []"
    and "\<forall>d \<in> snd ` set ds. d < df_free s \<and> plain_root d s \<and> dn_canceller (node_at d s) = None"
    and "df_earlier False ds s = (ret, s1)" and "continues body f upd"
    and "\<forall>x \<in> set as. ref_of (snd (snd x)) = None \<and> fst x \<in> fst ` set ds"
  shows "\<exists>t'. let s2 = snd (df_post True (User f) ret s1) in
     answer_all body (map (\<lambda>(k, b, v). (the (map_of ds k), b, v)) as) s2 = Some (case results as of [] \<Rightarrow> s2
       | r # _ \<Rightarrow> upd (Obj [r]) (t'\<lparr>df_log := df_log s @ [(f, [Obj [r]])]\<rparr>))"
proof -
  let ?p = "df_gathers s" and ?parts = "map (\<lambda>(k, d). (k, Df d)) ds"
  define s2 where "s2 = snd (df_post True (User f) ret s1)"
  obtain p t where t: "gather_new False ?parts s = (ret, p, t)" "s1 = attach_all First ret p ds t"
    using assms(3,5) by (auto simp: df_earlier_def earlier_loop_attach split: prod.splits)
  have d: "\<forall>d \<in> snd ` set ds. d < df_free s \<and> plain_root d s" using assms(4) by auto
  note r = gather_ready [OF assms(2) d t(1) s2_def [unfolded t(2)]]
  have ret: "ret = df_free s" using t(1) by (simp add: gather_new_def Let_def split_beta)
  have c: "\<forall>(k, d) \<in> set ds. attached (First ?p k) ret ret d s2 \<and> dn_canceller (node_at d s2) = None \<and> d < ret"
  proof clarify
    fix k d assume m: "(k, d) \<in> set ds"
    then have "d < df_free s" "dn_canceller (node_at d s) = None" using assms(4) by force+
    moreover have "attached (First ?p k) ret (Suc (df_free s)) d s2" using r m by auto
    ultimately show "attached (First ?p k) ret ret d s2 \<and> dn_canceller (node_at d s2) = None \<and> d < ret"
      using r ret by (auto intro: attached_mono)
  qed
  have h: "awaits ret f s2" "ret \<le> df_free s2" "\<And>x. dn_next (node_at ret s2) = Some x \<Longrightarrow> ret \<le> x"
    "ga_array (df_gather s2 ?p) = False" "ga_ret (df_gather s2 ?p) = ret" "ga_values (df_gather s2 ?p) = []"
    "map snd (ga_parts (df_gather s2 ?p)) = map Df (map snd ds)"
    using r ret by auto
  have l: "df_log s2 = df_log s" using r by blast
  show ?thesis
    using earlier_run [OF assms(7) c assms(1) h(1,2) h(3) order_refl assms(6) h(4-7)]
    by (simp only: Let_def l flip: s2_def)
qed

lemma earlier_first_only_witness:
  "\<exists>s3. answer_all page_demo [(1, False, Num 30), (1, True, Num 20), (0, True, Num 10)]
          (snd (df_post True (User 5) 2 (snd (df_earlier False [(''a'', 0), (''b'', 1)] df_two)))) = Some s3
     \<and> df_log s3 = [(5, [Obj [(''b'', Num 20)]])]"
proof -
  let ?ds = "[(''a'', 0), (''b'', 1)] :: (string \<times> nat) list"
  have p: "\<forall>d \<in> snd ` set ?ds. d < df_free df_two \<and> plain_root d df_two \<and> dn_canceller (node_at d df_two) = None"
    by (simp add: df_two_def df_start_def plain_root_def blank_def)
  have r: "df_earlier False ?ds df_two = (2, snd (df_earlier False [(''a'', 0), (''b'', 1)] df_two))"
    by (simp add: df_earlier_def gather_new_def split_beta Let_def df_two_def df_start_def)
  have c: "continues page_demo 5 (\<lambda>v s. s)" by (simp add: continues_def page_demo_def)
  have l: "df_log df_two = []" by (simp add: df_two_def df_start_def)
  show ?thesis
    using earlier_first_only [OF _ _ _ p r c, of "[(''b'', False, Num 30), (''b'', True, Num 20), (''a'', True, Num 10)]"]
    by (auto simp: l Let_def)
qed

end
