(* ===== verification/Panel_Register.thy ===== *)
theory Panel_Register
  imports Panel_LoadBalancer Lib_Deferred
begin

text \<open>
  The dialogs of \<open>load_balancer_panel.js\<close> that register instances with a load balancer and take them
  away: the page of the dialog, the two requests it waits for with \<open>parallel\<close>, the two columns, and the
  button that sends the interfaces of the right one. Pages and answers of dialogs that were closed may
  still arrive.
\<close>

section \<open>The state\<close>

datatype way = Register | Unregister

definition way_items :: "way \<Rightarrow> string list \<Rightarrow> lb_instance list \<Rightarrow> item list" where
  "way_items w registered insts = (case w of Register \<Rightarrow> registerable registered insts | Unregister \<Rightarrow> unregisterable registered insts)"

definition way_request :: "way \<Rightarrow> string \<Rightarrow> string list \<Rightarrow> ajax_settings" where
  "way_request w i vifs = (case w of Register \<Rightarrow> lb_register_request i vifs | Unregister \<Rightarrow> lb_unregister_request i vifs)"

text \<open>The two requests of the page's callback; only the first dialog asks for the instances that are alive.\<close>

definition way_gets :: "way \<Rightarrow> string \<Rightarrow> ajax_settings list" where
  "way_gets w i =
     [request_get \<lparr>p_url = ''/load_balancers/show/'' @ i @ ''.json'', p_data = JUndef, p_async = JUndef\<rparr>,
      request_get \<lparr>p_url = ''/instances/all.json'',
        p_data = (case w of Register \<Rightarrow> JStr ''state=alive'' | Unregister \<Rightarrow> JUndef), p_async = JUndef\<rparr>]"

text \<open>Each opening has an element, the variables of its callback and, once both answers came, the chooser.\<close>

record rd_opening =
  og_loaded :: bool
  og_ready :: bool
  og_answers :: "(string list \<times> lb_instance list) option"
  og_selector :: "selector option"

text \<open>
  \<open>rd_disabled\<close> is the state of the second button of the dialog's content, which is the newest element.
  \<open>rd_checked\<close> is the radio button of the list that is on.
\<close>

record register_dialog =
  rd_openings :: "rd_opening list"
  rd_visible :: bool
  rd_disabled :: bool
  rd_checked :: "string option"
  rd_gets :: "ajax_settings list"
  rd_sent :: "ajax_settings list"

definition rd_id :: "register_dialog \<Rightarrow> string" where
  "rd_id s = to_str (case rd_checked s of Some i \<Rightarrow> JStr i | None \<Rightarrow> JNull)"

section \<open>The handlers\<close>

text \<open>The action menu opens the dialog for a running balancer.\<close>

definition rd_menu :: "string \<Rightarrow> register_dialog \<Rightarrow> register_dialog" where
  "rd_menu state s =
     (if state = ''running'' then
        s\<lparr>rd_openings := rd_openings s @ [\<lparr>og_loaded = False, og_ready = False, og_answers = None, og_selector = None\<rparr>],
          rd_visible := True, rd_disabled := False\<rparr>
      else s)"

definition rd_page :: "way \<Rightarrow> nat \<Rightarrow> register_dialog \<Rightarrow> register_dialog" where
  "rd_page w j s =
     s\<lparr>rd_openings := (rd_openings s)[j := ((rd_openings s) ! j)\<lparr>og_loaded := True, og_ready := False\<rparr>],
       rd_disabled := True, rd_gets := rd_gets s @ way_gets w (rd_id s)\<rparr>"

definition rd_answers :: "way \<Rightarrow> nat \<Rightarrow> string list \<Rightarrow> lb_instance list \<Rightarrow> register_dialog \<Rightarrow> register_dialog" where
  "rd_answers w j registered insts s =
     s\<lparr>rd_openings := (rd_openings s)[j := ((rd_openings s) ! j)
         \<lparr>og_answers := Some (registered, insts), og_selector := Some (selector_initialize (way_items w registered insts))\<rparr>]\<rparr>"

definition on_ready :: "nat \<Rightarrow> bool" where
  "on_ready n = (0 < n)"

definition rd_move :: "(selector \<Rightarrow> selector) \<Rightarrow> register_dialog \<Rightarrow> register_dialog" where
  "rd_move move s =
     (let j = length (rd_openings s) - 1; g = (rd_openings s) ! j
      in case og_selector g of None \<Rightarrow> s
       | Some sel \<Rightarrow>
           (let sel' = move sel; r = on_ready (getRightSelectionCount sel')
            in s\<lparr>rd_openings := (rd_openings s)[j := g\<lparr>og_selector := Some sel', og_ready := r\<rparr>], rd_disabled := \<not> r\<rparr>))"

text \<open>The options of the right column; before the chooser is there, the column is empty.\<close>

definition right_values :: "rd_opening \<Rightarrow> string list" where
  "right_values g = (case og_selector g of None \<Rightarrow> [] | Some sel \<Rightarrow> map opt_value (right_select sel))"

definition rd_submit :: "way \<Rightarrow> register_dialog \<Rightarrow> register_dialog" where
  "rd_submit w s =
     s\<lparr>rd_sent := rd_sent s @ [way_request w (rd_id s) (right_values (last (rd_openings s)))], rd_visible := False\<rparr>"

section \<open>The machine\<close>

text \<open>
  The list can be drawn again, or another row be chosen, at any time that an answer arrives or no
  dialog covers the page.
\<close>

datatype register_event =
  Checked "string option" | Menu string | Page nat | Answers nat "string list" "lb_instance list"
  | ToRight "option_elem \<Rightarrow> bool" | ToLeft "option_elem \<Rightarrow> bool" | Submit | Close

fun register_enabled :: "register_event \<Rightarrow> register_dialog \<Rightarrow> bool" where
  "register_enabled (Checked c) s \<longleftrightarrow> c = None \<or> \<not> rd_visible s"
| "register_enabled (Menu state) s \<longleftrightarrow> \<not> rd_visible s"
| "register_enabled (Page j) s \<longleftrightarrow> j < length (rd_openings s) \<and> \<not> og_loaded (rd_openings s ! j)"
| "register_enabled (Answers j rs insts) s \<longleftrightarrow> j < length (rd_openings s) \<and> og_loaded (rd_openings s ! j) \<and> og_answers (rd_openings s ! j) = None"
| "register_enabled (ToRight ch) s \<longleftrightarrow> rd_visible s \<and> rd_openings s \<noteq> []"
| "register_enabled (ToLeft ch) s \<longleftrightarrow> rd_visible s \<and> rd_openings s \<noteq> []"
| "register_enabled Submit s \<longleftrightarrow> rd_visible s \<and> rd_openings s \<noteq> [] \<and> \<not> rd_disabled s"
| "register_enabled Close s \<longleftrightarrow> rd_visible s"

fun register_step :: "way \<Rightarrow> register_event \<Rightarrow> register_dialog \<Rightarrow> register_dialog" where
  "register_step w (Checked c) s = s\<lparr>rd_checked := c\<rparr>"
| "register_step w (Menu state) s = rd_menu state s"
| "register_step w (Page j) s = rd_page w j s"
| "register_step w (Answers j rs insts) s = rd_answers w j rs insts s"
| "register_step w (ToRight ch) s = rd_move (leftToRight ch) s"
| "register_step w (ToLeft ch) s = rd_move (rightToLeft ch) s"
| "register_step w Submit s = rd_submit w s"
| "register_step w Close s = s\<lparr>rd_visible := False\<rparr>"

definition register_init :: "register_dialog \<Rightarrow> bool" where
  "register_init s \<longleftrightarrow> rd_openings s = [] \<and> \<not> rd_visible s \<and> rd_sent s = []"

text \<open>The chooser of an opening is one on its two answers; an enabled button of a loaded page means a choice.\<close>

definition opening_ok :: "way \<Rightarrow> rd_opening \<Rightarrow> bool" where
  "opening_ok w g \<longleftrightarrow> (case og_answers g of None \<Rightarrow> og_selector g = None
     | Some (rs, insts) \<Rightarrow> og_loaded g \<and> (\<exists>R. og_selector g = Some (chooser (way_items w rs insts) R)))"

definition chosen_some :: "rd_opening \<Rightarrow> bool" where
  "chosen_some g \<longleftrightarrow> (case og_selector g of None \<Rightarrow> False | Some sel \<Rightarrow> on_ready (getRightSelectionCount sel))"

definition register_inv :: "way \<Rightarrow> register_dialog \<Rightarrow> bool" where
  "register_inv w s \<longleftrightarrow> (\<forall>g \<in> set (rd_openings s). opening_ok w g)
     \<and> (rd_openings s \<noteq> [] \<longrightarrow> og_loaded (last (rd_openings s)) \<longrightarrow> \<not> rd_disabled s \<longrightarrow> chosen_some (last (rd_openings s)))"

lemma opening_ok_update:
  "\<forall>g \<in> set gs. opening_ok w g \<Longrightarrow> opening_ok w g' \<Longrightarrow> \<forall>g \<in> set (gs[j := g']). opening_ok w g"
  using set_update_subset_insert by fastforce

lemma last_update: "gs \<noteq> [] \<Longrightarrow> j < length gs \<Longrightarrow> last (gs[j := g]) = (if j = length gs - 1 then g else last gs)"
  by (simp add: last_conv_nth)

lemma initialize_chooser: "\<exists>R. selector_initialize data = chooser data R"
  using selector_initialize_chooser by blast

lemma register_move_inv:
  assumes "register_inv w s" "rd_openings s \<noteq> []" "\<And>data R. \<exists>R'. move (chooser data R) = chooser data R'"
  shows "register_inv w (rd_move move s)"
proof -
  let ?g = "last (rd_openings s)"
  have g: "rd_openings s ! (length (rd_openings s) - 1) = ?g" using assms(2) by (simp add: last_conv_nth)
  have ok: "opening_ok w ?g" using assms(1,2) by (simp add: register_inv_def)
  show ?thesis
  proof (cases "og_selector ?g")
    case None
    then show ?thesis using assms(1) g by (simp add: rd_move_def Let_def)
  next
    case (Some sel)
    then obtain rs insts R where a: "og_answers ?g = Some (rs, insts)" "og_loaded ?g" "sel = chooser (way_items w rs insts) R"
      using ok by (auto simp: opening_ok_def split: option.splits)
    obtain R' where R': "move sel = chooser (way_items w rs insts) R'" using assms(3) a(3) by blast
    let ?g' = "?g\<lparr>og_selector := Some (move sel), og_ready := on_ready (getRightSelectionCount (move sel))\<rparr>"
    have "opening_ok w ?g'" using a R' by (auto simp: opening_ok_def)
    then show ?thesis
      using assms(1,2) g Some opening_ok_update [of "rd_openings s" w ?g']
      by (simp add: rd_move_def Let_def register_inv_def last_update chosen_some_def)
  qed
qed

interpretation register_machine: machine register_init register_enabled "register_step w" "register_inv w" for w
proof unfold_locales
  fix s assume "register_init s"
  then show "register_inv w s" by (simp add: register_init_def register_inv_def)
next
  fix s e assume i: "register_inv w s" and e: "register_enabled e s"
  show "register_inv w (register_step w e s)"
  proof (cases e)
    case (Checked c)
    then show ?thesis using i by (simp add: register_inv_def)
  next
    case (Menu state)
    then show ?thesis using i by (auto simp: rd_menu_def register_inv_def opening_ok_def)
  next
    case (Page j)
    have j: "j < length (rd_openings s)" "\<not> og_loaded (rd_openings s ! j)" using e Page by simp_all
    then have "opening_ok w (rd_openings s ! j)" using i by (simp add: register_inv_def)
    then have "opening_ok w ((rd_openings s ! j)\<lparr>og_loaded := True, og_ready := False\<rparr>)"
      using j by (auto simp: opening_ok_def split: option.splits)
    then show ?thesis using i Page opening_ok_update [of "rd_openings s" w _ j] by (simp add: rd_page_def register_inv_def)
  next
    case (Answers j rs insts)
    have j: "j < length (rd_openings s)" "og_loaded (rd_openings s ! j)" "og_answers (rd_openings s ! j) = None" using e Answers by simp_all
    then have "opening_ok w (rd_openings s ! j)" using i by (simp add: register_inv_def)
    then have n: "og_selector (rd_openings s ! j) = None" using j by (simp add: opening_ok_def)
    let ?g = "(rd_openings s ! j)\<lparr>og_answers := Some (rs, insts), og_selector := Some (selector_initialize (way_items w rs insts))\<rparr>"
    have ok: "opening_ok w ?g" using j initialize_chooser by (auto simp: opening_ok_def)
    have l: "last (rd_openings s) = rd_openings s ! j" if "j = length (rd_openings s) - 1"
      using that j(1) by (cases "rd_openings s = []") (simp_all add: last_conv_nth)
    have c: "\<not> chosen_some (rd_openings s ! j)" using n by (simp add: chosen_some_def)
    have ne: "rd_openings s \<noteq> []" using j(1) by auto
    show ?thesis using i j ok l c ne Answers opening_ok_update [of "rd_openings s" w ?g]
      by (auto simp: rd_answers_def register_inv_def last_update)
  next
    case (ToRight ch)
    then show ?thesis using register_move_inv [OF i, of "leftToRight ch"] e leftToRight_chooser by auto
  next
    case (ToLeft ch)
    then show ?thesis using register_move_inv [OF i, of "rightToLeft ch"] e rightToLeft_chooser by auto
  next
    case Submit
    then show ?thesis using i by (simp add: rd_submit_def register_inv_def)
  next
    case Close
    then show ?thesis using i by (simp add: register_inv_def)
  qed
qed

text \<open>
  C2: whatever pages and answers arrive, in whatever order: a click on the button of a page that has arrived
  sends one request, with at least one interface, and each interface is one of an instance that the two
  answers of this opening offer: alive and not registered, or registered.
\<close>

theorem register_sends_offered:
  assumes "reachable register_init register_enabled (register_step w) s"
    and "register_enabled Submit s" and "og_loaded (last (rd_openings s))"
  shows "\<exists>rs insts vifs. og_answers (last (rd_openings s)) = Some (rs, insts)
     \<and> rd_sent (register_step w Submit s) = rd_sent s @ [way_request w (rd_id s) vifs]
     \<and> vifs \<noteq> [] \<and> set vifs \<subseteq> item_value ` set (way_items w rs insts)"
proof -
  let ?g = "last (rd_openings s)"
  have i: "register_inv w s" by (rule register_machine.reachable_inv [OF assms(1)])
  have e: "rd_openings s \<noteq> []" "\<not> rd_disabled s" using assms(2) by simp_all
  have ok: "opening_ok w ?g" and c: "chosen_some ?g" using i e assms(3) by (simp_all add: register_inv_def)
  then obtain rs insts R where g: "og_answers ?g = Some (rs, insts)" "og_selector ?g = Some (chooser (way_items w rs insts) R)"
    by (auto simp: opening_ok_def chosen_some_def split: option.splits)
  let ?d = "way_items w rs insts"
  have n: "0 < card (R \<inter> {..<length ?d})" using c g(2) by (simp add: chosen_some_def on_ready_def getRightSelectionCount_chooser)
  have v: "right_values ?g = map opt_value (column (\<lambda>i. i \<in> R) ?d)" using g(2) by (simp add: right_values_def chooser_def)
  have "right_values ?g \<noteq> []"
    using n by (auto simp: v column_def filter_empty_conv card_gt_0_iff)
  moreover have "set (right_values ?g) \<subseteq> item_value ` set ?d"
    by (auto simp: v column_def option_html_def)
  ultimately show ?thesis using g(1) by (auto simp: rd_submit_def)
qed

definition register_start :: register_dialog where
  "register_start = \<lparr>rd_openings = [], rd_visible = False, rd_disabled = False, rd_checked = Some ''lb-1'', rd_gets = [], rd_sent = []\<rparr>"

definition demo_instances :: "lb_instance list" where
  "demo_instances = [\<lparr>li_id = ''i-1'', li_name = ''a'', li_vifs = [''vif-1'']\<rparr>, \<lparr>li_id = ''i-2'', li_name = ''b'', li_vifs = [''vif-2'']\<rparr>]"

definition register_clicks :: "register_event list" where
  "register_clicks = [Menu ''running'', Page 0, Answers 0 [''i-1''] demo_instances, ToRight (\<lambda>_. True)]"

lemma register_demo_reachable: "reachable register_init register_enabled (register_step Register) (fold (register_step Register) register_clicks register_start)"
  by (rule register_machine.run_reachable, rule reach_init) (simp add: register_init_def register_start_def, code_simp)

lemma register_sends_offered_witness:
  "\<exists>vifs. rd_sent (fold (register_step Register) (register_clicks @ [Submit]) register_start) = [lb_register_request ''lb-1'' vifs]
     \<and> vifs \<noteq> [] \<and> set vifs \<subseteq> {''vif-2''}"
proof -
  let ?s = "fold (register_step Register) register_clicks register_start"
  have h: "register_enabled Submit ?s" "og_loaded (last (rd_openings ?s))" by code_simp+
  have a: "og_answers (last (rd_openings ?s)) = Some ([''i-1''], demo_instances)" "rd_sent ?s = []" "rd_id ?s = ''lb-1''" by code_simp+
  obtain vifs where "rd_sent (register_step Register Submit ?s) = rd_sent ?s @ [way_request Register (rd_id ?s) vifs]"
    "vifs \<noteq> []" "set vifs \<subseteq> item_value ` set (way_items Register [''i-1''] demo_instances)"
    using register_sends_offered [OF register_demo_reachable h] a(1) by auto
  then show ?thesis by (auto simp: a(2,3) way_request_def way_items_def registerable_def lb_items_def demo_instances_def)
qed

text \<open>
  Until the page arrives nothing disables the button: a click then sends a request without interfaces.
  A redrawn list while the dialog is open takes the balancer away from the request.
\<close>

lemma register_early:
  "rd_sent (fold (register_step Register) [Menu ''running'', Submit] register_start) = [lb_register_request ''lb-1'' []]
   \<and> all_enabled register_enabled (register_step Register) [Menu ''running'', Submit] register_start"
  by code_simp

lemma register_after_refresh:
  "rd_sent (fold (register_step Register) (register_clicks @ [Checked None, Submit]) register_start) = [lb_register_request ''null'' [''vif-2'']]
   \<and> all_enabled register_enabled (register_step Register) (register_clicks @ [Checked None, Submit]) register_start"
  by code_simp

section \<open>The two requests\<close>

text \<open>
  The page of an opening sends its two requests and chains the rest of the callback to \<open>parallel\<close>. The
  success callbacks that are given are empty. What the rest reads from the object of the answers:
\<close>

datatype register_json = Balancer "string list" | Instances "lb_instance list"

record register_page = "register_json deferreds" +
  rg_dialog :: register_dialog

definition register_rest :: "way \<Rightarrow> nat \<Rightarrow> register_json dval \<Rightarrow> register_dialog \<Rightarrow> register_dialog" where
  "register_rest w j v d = (case v of
     Obj kvs \<Rightarrow> (case (map_of kvs ''load_balancer'', map_of kvs ''instances'') of
         (Some (Plain (Balancer rs)), Some (Plain (Instances insts))) \<Rightarrow> rd_answers w j rs insts d
       | _ \<Rightarrow> d)
   | _ \<Rightarrow> d)"

text \<open>The function with the number of the opening is the rest of its callback.\<close>

definition register_body :: "way \<Rightarrow> (register_json, \<lparr>rg_dialog :: register_dialog\<rparr>) program" where
  "register_body w j args s =
     Some ((True, Undef), s\<lparr>rg_dialog := register_rest w j (case args of [] \<Rightarrow> Undef | v # _ \<Rightarrow> v) (rg_dialog s)\<rparr>)"

definition register_requests :: "nat \<Rightarrow> register_page \<Rightarrow> nat \<times> nat \<times> register_page" where
  "register_requests j s =
     (let (q, s1) = df_ajax None None s; (q', s2) = df_ajax None None s1;
          (ret, s3) = df_parallel False [(''load_balancer'', Df (aj_deferred q)), (''instances'', Df (aj_deferred q'))] s2
      in (aj_deferred q, aj_deferred q', snd (df_post True (User j) ret s3)))"

lemma register_continues: "continues (register_body w) j (\<lambda>v s. s\<lparr>rg_dialog := register_rest w j v (rg_dialog s)\<rparr>)"
  by (simp add: continues_def register_body_def)

lemma register_requests_facts:
  assumes "register_requests j s = (a, b, s1)"
  shows "a = df_free s" "b = Suc a" "rg_dialog s1 = rg_dialog s"
    and "distinct (map fst as) \<Longrightarrow> set (map fst as) \<subseteq> {''load_balancer'', ''instances''} \<Longrightarrow> list_all (\<lambda>x. ref_of (snd (snd x)) = None) as \<Longrightarrow>
      \<exists>g. answer_all (register_body w) (map (\<lambda>(k, c, v). (if k = ''load_balancer'' then a else b, c, v)) as) s1 =
        Some (if length (results as) = 2
          then (s1\<lparr>df_gather := g, df_log := df_log s @ [(j, [Obj (results as)])]\<rparr>)\<lparr>rg_dialog := register_rest w j (Obj (results as)) (rg_dialog s)\<rparr>
          else s1\<lparr>df_gather := g\<rparr>)"
proof -
  define s0 where "s0 = snd (df_ajax None None (snd (df_ajax None None s)))"
  let ?ds = "[(''load_balancer'', df_free s), (''instances'', Suc (df_free s))]"
  obtain ret s3 where p: "df_parallel False (map (\<lambda>(k, d). (k, Df d)) ?ds) s0 = (ret, s3)" by fastforce
  have r: "a = df_free s" "b = Suc (df_free s)" "s1 = snd (df_post True (User j) ret s3)"
    using assms p by (auto simp: register_requests_def df_ajax_def split_beta s0_def)
  then show "a = df_free s" "b = Suc a" by simp_all
  have q: "\<forall>d \<in> snd ` set ?ds. d < df_free s0 \<and> plain_root d s0"
    by (simp add: s0_def df_ajax_def split_beta plain_root_def blank_def)
  have l: "df_log s0 = df_log s" by (simp add: s0_def df_ajax_def split_beta)
  show d: "rg_dialog s1 = rg_dialog s"
    using p by (auto simp: r(3) df_parallel_def gather_new_def Let_def split_beta attach_def df_post_def put_node_def new_deferred_def s0_def df_ajax_def)
  have pc: "\<exists>g. let s2 = snd (df_post True (User j) ret s3) in
     answer_all (register_body w) (map (\<lambda>(k, c, v). (the (map_of ?ds k), c, v)) as) s2 =
       Some (if length (results as) = length ?ds
             then (s2\<lparr>df_gather := g, df_log := df_log s0 @ [(j, [Obj (results as)])]\<rparr>)
               \<lparr>rg_dialog := register_rest w j (Obj (results as)) (rg_dialog (s2\<lparr>df_gather := g, df_log := df_log s0 @ [(j, [Obj (results as)])]\<rparr>))\<rparr>
             else s2\<lparr>df_gather := g\<rparr>)"
    if "distinct (map fst as)" "set (map fst as) \<subseteq> {''load_balancer'', ''instances''}" "list_all (\<lambda>x. ref_of (snd (snd x)) = None) as" for as
    by (rule parallel_once [OF _ _ _ q p register_continues]) (use that in \<open>auto simp: list_all_iff\<close>)
  show "\<exists>g. answer_all (register_body w) (map (\<lambda>(k, c, v). (if k = ''load_balancer'' then a else b, c, v)) as) s1 =
        Some (if length (results as) = 2
          then (s1\<lparr>df_gather := g, df_log := df_log s @ [(j, [Obj (results as)])]\<rparr>)\<lparr>rg_dialog := register_rest w j (Obj (results as)) (rg_dialog s)\<rparr>
          else s1\<lparr>df_gather := g\<rparr>)"
    if "distinct (map fst as)" "set (map fst as) \<subseteq> {''load_balancer'', ''instances''}" "list_all (\<lambda>x. ref_of (snd (snd x)) = None) as"
  proof -
    have k: "map (\<lambda>(k, c, v). (the (map_of ?ds k), c, v)) as = map (\<lambda>(k, c, v). (if k = ''load_balancer'' then a else b, c, v)) as"
      using that(2) by (auto simp: r(1,2))
    have "rg_dialog (s1\<lparr>df_gather := g, df_log := x\<rparr>) = rg_dialog s" for g x using d by simp
    moreover have "length ?ds = 2" by simp
    ultimately show ?thesis using pc [OF that] unfolding k Let_def r(3) [symmetric] l by (simp only:)
  qed
qed

text \<open>
  C40: the lists of the dialog are filled once both answers came, whichever came first, with what the two
  answers say; with one answer, or when a request fails, the dialog stays as it is.
\<close>

theorem register_waits_for_both:
  assumes "register_requests j s = (a, b, s1)"
    and "answers = [(a, bal_ok, Plain (Balancer rs)), (b, ins_ok, Plain (Instances insts))]
       \<or> answers = [(b, ins_ok, Plain (Instances insts)), (a, bal_ok, Plain (Balancer rs))]"
  shows "\<exists>s2 s3. answer_all (register_body w) [hd answers] s1 = Some s2 \<and> rg_dialog s2 = rg_dialog s
     \<and> answer_all (register_body w) answers s1 = Some s3
     \<and> rg_dialog s3 = (if bal_ok \<and> ins_ok then rd_answers w j rs insts (rg_dialog s) else rg_dialog s)"
proof -
  let ?bal = "(''load_balancer'', bal_ok, Plain (Balancer rs))" and ?ins = "(''instances'', ins_ok, Plain (Instances insts))"
  note f = register_requests_facts [OF assms(1)]
  have run: "\<exists>s'. answer_all (register_body w) (map (\<lambda>(k, c, v). (if k = ''load_balancer'' then a else b, c, v)) as) s1 = Some s'
      \<and> rg_dialog s' = (if length (results as) = 2 then register_rest w j (Obj (results as)) (rg_dialog s) else rg_dialog s)"
    if "as \<in> {[?bal], [?ins], [?bal, ?ins], [?ins, ?bal]}" for as
    using f(4) [of as w] that f(3) by fastforce
  show ?thesis
    using assms(2) run [of "[?bal]"] run [of "[?ins]"] run [of "[?bal, ?ins]"] run [of "[?ins, ?bal]"]
    by (auto simp: register_rest_def f(2))
qed

definition register_page_demo :: register_page where
  "register_page_demo = \<lparr>df_heap = (\<lambda>_. None), df_free = 0, df_gather = (\<lambda>_. \<lparr>ga_parts = [], ga_array = False, ga_values = [], ga_num = 0, ga_ret = 0\<rparr>), df_gathers = 0, df_loop = (\<lambda>_. \<lparr>lo_begin = 0, lo_end = 0, lo_step = 0, lo_ostep = 0, lo_last = False, lo_prev = Null, lo_ret = Undef, lo_fun = 0\<rparr>),
     df_loops = 0, df_retry = (\<lambda>_. \<lparr>rt_count = 0, rt_fun = 0, rt_deferred = 0\<rparr>), df_retries = 0, df_timers = [], df_timer = 0, df_log = [],
     rg_dialog = fold (register_step Register) [Menu ''running'', Page 0] register_start\<rparr>"

lemma register_waits_for_both_witness:
  "\<exists>s1 s2. register_requests 0 register_page_demo = (0, 1, s1)
     \<and> answer_all (register_body Register) [(1, True, Plain (Instances demo_instances)), (0, True, Plain (Balancer [''i-1'']))] s1 = Some s2
     \<and> map (\<lambda>g. og_answers g) (rd_openings (rg_dialog s2)) = [Some ([''i-1''], demo_instances)]"
proof -
  obtain a b s1 where r: "register_requests 0 register_page_demo = (a, b, s1)" by (metis prod_cases3)
  have ab: "a = 0" "b = 1" using register_requests_facts(1,2) [OF r] by (simp_all add: register_page_demo_def)
  obtain s2 where s2: "answer_all (register_body Register) [(b, True, Plain (Instances demo_instances)), (a, True, Plain (Balancer [''i-1'']))] s1 = Some s2"
    "rg_dialog s2 = rd_answers Register 0 [''i-1''] demo_instances (rg_dialog register_page_demo)"
    using register_waits_for_both [OF r, of "[(b, True, Plain (Instances demo_instances)), (a, True, Plain (Balancer [''i-1'']))]"
      True "[''i-1'']" True demo_instances Register] by auto
  have "map (\<lambda>g. og_answers g) (rd_openings (rd_answers Register 0 [''i-1''] demo_instances (rg_dialog register_page_demo))) = [Some ([''i-1''], demo_instances)]"
    by (simp add: register_page_demo_def rd_answers_def rd_menu_def rd_page_def register_start_def)
  then show ?thesis using r s2 by (simp add: ab)
qed

end
