(* ===== verification/Resource_Messages.thy ===== *)
theory Resource_Messages
  imports Resource_Validate
begin

text \<open>
  The messages of the forms in \<open>resource_manage_panel.js\<close>, \<open>users_panel.js\<close> and \<open>groups_panel.js\<close>: the
  tables that the pages hand to the plug-in, and what a user reads when a rule is broken. \<open>i18n\<close> stands
  for \<open>$.i18n.prop\<close>, the catalogue of texts with its arguments.
\<close>

section \<open>How a page writes a message\<close>

type_synonym catalogue = "string \<Rightarrow> string list \<Rightarrow> string"

definition errmsg :: "catalogue \<Rightarrow> string \<Rightarrow> string" where
  "errmsg i18n k = i18n (''validate_errmsg_'' @ k) []"

definition errmsg_required :: "catalogue \<Rightarrow> string \<Rightarrow> string" where
  "errmsg_required i18n item = i18n ''validate_errmsg_required'' [i18n (''item_'' @ item) []]"

text \<open>
  \<open>$.validator.format\<close> of one text is a function that fills the parameters of the rule in. It is called
  with the element as a second parameter, for which no text has a place.
\<close>

definition formatted :: "page \<Rightarrow> string \<Rightarrow> message" where
  "formatted pg t = M_fun (\<lambda>p. format_message t (param_texts pg p))"

definition br :: string where
  "br = ''<BR>''"

section \<open>The tables\<close>

definition id_messages :: "catalogue \<Rightarrow> page \<Rightarrow> string \<Rightarrow> string \<times> message_spec" where
  "id_messages i18n pg nm = (nm, Message_for
     [(''required'', M_text (errmsg_required i18n nm)), (''AN'', M_text (errmsg i18n ''AN'')),
      (''maxlength'', formatted pg (errmsg i18n ''maxlength''))])"

definition count_messages :: "catalogue \<Rightarrow> page \<Rightarrow> string \<Rightarrow> string \<times> message_spec" where
  "count_messages i18n pg nm = (nm, Message_for
     [(''required'', M_text (errmsg_required i18n nm)), (''digits'', M_text (errmsg i18n ''digits'')),
      (''min'', formatted pg (errmsg i18n ''min''))])"

definition path_messages :: "catalogue \<Rightarrow> string \<Rightarrow> string \<Rightarrow> string \<times> message_spec" where
  "path_messages i18n m nm = (nm, Message_for
     [(''required'', M_text (br @ errmsg_required i18n nm)), (m, M_text (br @ errmsg i18n ''PATH'')),
      (''maxlength'', M_text (br @ errmsg i18n ''maxlength''))])"

definition weight_messages :: "catalogue \<Rightarrow> page \<Rightarrow> string \<times> message_spec" where
  "weight_messages i18n pg = (''quota_weight'', Message_for
     [(''number'', M_text (errmsg i18n ''number'')), (''GT'', formatted pg (errmsg i18n ''plus_number''))])"

definition hn_create_messages :: "catalogue \<Rightarrow> page \<Rightarrow> (string \<times> message_spec) list" where
  "hn_create_messages i18n pg =
     [id_messages i18n pg ''hostid'', count_messages i18n pg ''cpu_cores'', count_messages i18n pg ''memory_size'']"

definition hn_edit_messages :: "catalogue \<Rightarrow> page \<Rightarrow> (string \<times> message_spec) list" where
  "hn_edit_messages i18n pg = [count_messages i18n pg ''cpu_cores'', count_messages i18n pg ''memory_size'']"

definition sn_create_messages :: "catalogue \<Rightarrow> page \<Rightarrow> (string \<times> message_spec) list" where
  "sn_create_messages i18n pg =
     [id_messages i18n pg ''storageid'', count_messages i18n pg ''disk_space'',
      (''ipaddr'', Message_for [(''required'', M_text (errmsg_required i18n ''ipaddr'')), (''IP'', M_text (errmsg i18n ''IP''))]),
      path_messages i18n ''PATH'' ''base_path'', path_messages i18n ''PATH'' ''snapshot_base_path'']"

definition is_create_messages :: "catalogue \<Rightarrow> page \<Rightarrow> (string \<times> message_spec) list" where
  "is_create_messages i18n pg =
     [id_messages i18n pg ''specid'', count_messages i18n pg ''cpu_cores'', count_messages i18n pg ''memory_size'',
      weight_messages i18n pg]"

definition is_edit_messages :: "catalogue \<Rightarrow> page \<Rightarrow> (string \<times> message_spec) list" where
  "is_edit_messages i18n pg =
     [count_messages i18n pg ''cpu_cores'', count_messages i18n pg ''memory_size'', weight_messages i18n pg]"

definition wmi_create_messages :: "catalogue \<Rightarrow> page \<Rightarrow> (string \<times> message_spec) list" where
  "wmi_create_messages i18n pg =
     [id_messages i18n pg ''imageid'', (''description'', Message_for [(''maxlength'', M_text (br @ errmsg i18n ''maxlength''))]),
      path_messages i18n ''relativePATH'' ''image_location'',
      (''md5sum'', Message_for [(''required'', M_text (br @ errmsg i18n ''needs_md5get''))])]"

definition user_messages :: "catalogue \<Rightarrow> page \<Rightarrow> (string \<times> message_spec) list" where
  "user_messages i18n pg =
     [id_messages i18n pg ''login_id'',
      (''user_name'', Message_for [(''maxlength'', formatted pg (errmsg i18n ''maxlength''))]),
      (''pass'', Message_for [(''required'', M_text (errmsg_required i18n ''pass'')),
         (''maxlength'', formatted pg (errmsg i18n ''maxlength''))])]"

definition group_messages :: "catalogue \<Rightarrow> page \<Rightarrow> (string \<times> message_spec) list" where
  "group_messages i18n pg =
     [id_messages i18n pg ''group_name'', (''description'', Message_for [(''maxlength'', M_text (br @ errmsg i18n ''maxlength''))])]"

lemmas message_tables = hn_create_messages_def hn_edit_messages_def sn_create_messages_def is_create_messages_def
  is_edit_messages_def wmi_create_messages_def user_messages_def group_messages_def
  id_messages_def count_messages_def path_messages_def weight_messages_def

lemmas rule_tables = hn_create_rules_def hn_edit_rules_def sn_create_rules_def is_create_rules_def is_edit_rules_def
  wmi_create_rules_def user_rules_def group_rules_def

text \<open>What \<open>validate\<close> is called with.\<close>

definition form_settings :: "rules \<Rightarrow> (string \<times> message_spec) list \<Rightarrow> settings" where
  "form_settings rs m = (with_rules rs page_settings)\<lparr>st_messages := m\<rparr>"

definition page_forms :: "catalogue \<Rightarrow> page \<Rightarrow> (rules \<times> (string \<times> message_spec) list) list" where
  "page_forms i18n pg =
     [(hn_create_rules, hn_create_messages i18n pg), (hn_edit_rules, hn_edit_messages i18n pg),
      (sn_create_rules, sn_create_messages i18n pg), (is_create_rules, is_create_messages i18n pg),
      (is_edit_rules, is_edit_messages i18n pg), (wmi_create_rules, wmi_create_messages i18n pg),
      (user_rules, user_messages i18n pg), (group_rules, group_messages i18n pg)]"

section \<open>What the user reads\<close>

text \<open>
  The specification: each rule has a text of the catalogue, into which its parameter is filled; the
  fields that stand above their message have a line break before it.
\<close>

fun rule_text :: "catalogue \<Rightarrow> string \<Rightarrow> rule \<Rightarrow> string" where
  "rule_text i18n nm Required = (if nm = ''md5sum'' then errmsg i18n ''needs_md5get'' else errmsg_required i18n nm)"
| "rule_text i18n nm AN = errmsg i18n ''AN''"
| "rule_text i18n nm (Maxlength n) = errmsg i18n ''maxlength''"
| "rule_text i18n nm Digits = errmsg i18n ''digits''"
| "rule_text i18n nm (Min n) = errmsg i18n ''min''"
| "rule_text i18n nm IP = errmsg i18n ''IP''"
| "rule_text i18n nm PATH = errmsg i18n ''PATH''"
| "rule_text i18n nm RelativePATH = errmsg i18n ''PATH''"
| "rule_text i18n nm Number = errmsg i18n ''number''"
| "rule_text i18n nm GT = errmsg i18n ''plus_number''"

definition shown_text :: "catalogue \<Rightarrow> page \<Rightarrow> string \<Rightarrow> rule \<Rightarrow> string" where
  "shown_text i18n pg nm r =
     (if nm \<in> {''base_path'', ''snapshot_base_path'', ''image_location'', ''description'', ''md5sum''} then br else '''')
     @ format_message (rule_text i18n nm r) (param_texts pg (snd (plugin_rule r)))"

lemma replace_all_prefix: "pat \<noteq> [] \<Longrightarrow> hd pat \<notin> set a \<Longrightarrow> replace_all pat new (a @ s) = a @ replace_all pat new s"
proof (induction a)
  case (Cons c a)
  then have "take (length pat) (c # a @ s) \<noteq> pat" by (cases pat) auto
  with Cons show ?case by simp
qed simp

lemma format_prefix:
  assumes "CHR ''{'' \<notin> set a"
  shows "format_message (a @ s) ps = a @ format_message s ps"
proof -
  have "fold (\<lambda>i s. replace_all (''{'' @ nat_digits i @ ''}'') (ps ! i) s) is (a @ s)
      = a @ fold (\<lambda>i s. replace_all (''{'' @ nat_digits i @ ''}'') (ps ! i) s) is s" for "is"
    using assms by (induction "is" arbitrary: s) (simp_all add: replace_all_prefix)
  then show ?thesis by (simp add: format_message_def)
qed

lemma strip_dollar_plain: "CHR ''$'' \<notin> set s \<Longrightarrow> strip_dollar s = s"
  by (induction s) auto

text \<open>A message, written as a text or as a function, is filled in the same way.\<close>

lemma message_shown:
  "(case M_text t of M_fun f \<Rightarrow> f p | M_text t \<Rightarrow> format_message (strip_dollar t) (param_texts pg p)) = format_message (strip_dollar t) (param_texts pg p)"
  "(case formatted pg t of M_fun f \<Rightarrow> f p | M_text t \<Rightarrow> format_message (strip_dollar t) (param_texts pg p)) = format_message t (param_texts pg p)"
  by (simp_all add: formatted_def)

text \<open>
  The plug-in rewrites the places of a message that a page gives as a text: \<open>${n}\<close> becomes \<open>{n}\<close>. The texts that
  these pages ask the catalogue for have no dollar sign.
\<close>

definition used_messages :: "string list" where
  "used_messages = [''AN'', ''maxlength'', ''digits'', ''min'', ''IP'', ''PATH'', ''number'', ''plus_number'', ''needs_md5get'']"

definition required_items :: "string list" where
  "required_items = [''hostid'', ''cpu_cores'', ''memory_size'', ''storageid'', ''disk_space'', ''ipaddr'', ''base_path'',
     ''snapshot_base_path'', ''specid'', ''imageid'', ''image_location'', ''login_id'', ''pass'', ''group_name'']"

definition no_dollars :: "catalogue \<Rightarrow> bool" where
  "no_dollars i18n = (list_all (\<lambda>k. CHR ''$'' \<notin> set (errmsg i18n k)) used_messages
     \<and> list_all (\<lambda>nm. CHR ''$'' \<notin> set (errmsg_required i18n nm)) required_items)"

definition own_message :: "catalogue \<Rightarrow> page \<Rightarrow> (string \<times> message_spec) list \<Rightarrow> string \<Rightarrow> rule \<Rightarrow> bool" where
  "own_message i18n pg m nm r \<longleftrightarrow>
     (case map_of m nm of Some (Message_for t) \<Rightarrow> (case map_of t (fst (plugin_rule r)) of
         Some (M_text s) \<Rightarrow> format_message (strip_dollar s) (param_texts pg (snd (plugin_rule r))) = shown_text i18n pg nm r
       | Some (M_fun f) \<Rightarrow> f (snd (plugin_rule r)) = shown_text i18n pg nm r
       | None \<Rightarrow> False)
     | _ \<Rightarrow> False)"

lemma own_messages:
  assumes d: "no_dollars i18n"
  shows "list_all (\<lambda>(rs, m). list_all (\<lambda>(nm, r). list_all (own_message i18n pg m nm) r) rs) (page_forms i18n pg)"
proof -
  have u: "strip_dollar (a @ errmsg i18n k) = a @ errmsg i18n k" if "k \<in> set used_messages" "a = [] \<or> a = br" for a k
    using d that by (auto intro!: strip_dollar_plain simp: no_dollars_def br_def list_all_iff)
  have v: "strip_dollar (a @ errmsg_required i18n nm) = a @ errmsg_required i18n nm" if "nm \<in> set required_items" "a = [] \<or> a = br" for a nm
    using d that by (auto intro!: strip_dollar_plain simp: no_dollars_def br_def list_all_iff)
  note n = u [of _ "[]", simplified used_messages_def append_Nil, OF _ disjI1 [OF refl]] u [of _ br, simplified used_messages_def, OF _ disjI2 [OF refl]]
    v [of _ "[]", simplified required_items_def append_Nil, OF _ disjI1 [OF refl]] v [of _ br, simplified required_items_def, OF _ disjI2 [OF refl]]
  have f: "format_message (br @ s) ps = br @ format_message s ps" for s ps
    by (rule format_prefix) (simp add: br_def)
  show ?thesis
    by (simp add: page_forms_def rule_tables message_tables own_message_def shown_text_def n f formatted_def)
qed

lemma messages_frame:
  "rules_of_element (st\<lparr>st_messages := m\<rparr>) pg e = rules_of_element st pg e"
  "check_element (st\<lparr>st_messages := m\<rparr>) pg fm e = check_element st pg fm e"
proof -
  have a: "classRules (st\<lparr>st_messages := m\<rparr>) e = classRules st e" "attributeRules (st\<lparr>st_messages := m\<rparr>) e = attributeRules st e"
    "staticRules (st\<lparr>st_messages := m\<rparr>) e = staticRules st e" "normalizeRules (st\<lparr>st_messages := m\<rparr>) pg rs e = normalizeRules st pg rs e" for rs
    by (simp_all add: classRules_def attributeRules_def staticRules_def normalizeRules_def)
  then show r: "rules_of_element (st\<lparr>st_messages := m\<rparr>) pg e = rules_of_element st pg e" by (simp add: rules_of_element_def)
  have "check_rules (st\<lparr>st_messages := m\<rparr>) pg fm e b rs = check_rules st pg fm e b rs" for b rs
    by (induction rs arbitrary: b) (auto split: option.splits verdict.splits)
  then show "check_element (st\<lparr>st_messages := m\<rparr>) pg fm e = check_element st pg fm e" by (simp add: check_element_def r)
qed

lemma failed_rule: "check_rules st pg fm e b rs = Failed m p \<Longrightarrow> (m, p) \<in> set rs"
proof (induction rs arbitrary: b)
  case (Cons x rs)
  obtain n q where x: "x = (n, q)" by (cases x)
  have "(\<exists>b'. check_rules st pg fm e b' rs = Failed m p) \<or> (m, p) = (n, q)"
    using Cons.prems by (auto simp: x split: option.splits verdict.splits if_splits)
  then show ?case using Cons.IH by (auto simp: x)
qed (simp split: if_splits)

lemma own_message_shown:
  assumes "own_message i18n pg m (fe_name e) r"
  shows "rule_message (st\<lparr>st_messages := m\<rparr>) pg e (fst (plugin_rule r)) (snd (plugin_rule r)) = shown_text i18n pg (fe_name e) r"
proof -
  obtain t where t: "map_of m (fe_name e) = Some (Message_for t)"
    using assms by (auto simp: own_message_def split: option.splits message_spec.splits)
  obtain x where x: "map_of t (fst (plugin_rule r)) = Some x"
    using assms t by (auto simp: own_message_def split: option.splits)
  show ?thesis using assms t x
    by (cases x) (simp_all add: own_message_def rule_message_def defaultMessage_def customMessage_def)
qed

text \<open>
  C39: when a field of one of the forms breaks a rule, the message is the one of the page's catalogue for that
  rule, with the limit of the rule filled in, and never the English text of the plug-in or its warning.
\<close>

theorem forms_show_own_messages:
  assumes "(rs, m) \<in> set (page_forms i18n pg)" and "no_dollars i18n"
    and "plain_element e" and "fe_name e \<in> fst ` set rs"
    and "check_element (form_settings rs m) pg fm e = Failed k p"
  shows "\<exists>r \<in> set (the (map_of rs (fe_name e))). plugin_rule r = (k, p)
     \<and> rule_message (form_settings rs m) pg e k p = shown_text i18n pg (fe_name e) r"
proof -
  have "list_all (\<lambda>(rs, m). distinct (map fst rs) \<and> list_all (\<lambda>(nm, r). table_ok r) rs) (page_forms i18n pg)"
    using page_tables by (simp add: page_forms_def)
  then have t: "distinct (map fst rs)" "list_all (\<lambda>(nm, r). table_ok r) rs" using assms(1) by (auto simp: list_all_iff)
  obtain r where r: "(fe_name e, r) \<in> set rs" using assms(4) by auto
  then have m: "map_of rs (fe_name e) = Some r" using t(1) by simp
  have "table_ok r" using t(2) r by (auto simp: list_all_iff)
  then have "rules_of_element (form_settings rs m) pg e = map plugin_rule r"
    using table_rules [OF assms(3) m] by (simp add: form_settings_def messages_frame)
  then have "(k, p) \<in> set (map plugin_rule r)" using assms(5) failed_rule by (fastforce simp: check_element_def)
  then obtain q where q: "q \<in> set r" "plugin_rule q = (k, p)" by auto
  have "own_message i18n pg m (fe_name e) q"
    using own_messages [OF assms(2), of pg] assms(1) r q(1) by (fastforce simp: list_all_iff)
  from own_message_shown [OF this, of "with_rules rs page_settings"]
  have "rule_message (form_settings rs m) pg e k p = shown_text i18n pg (fe_name e) q"
    by (simp add: q(2) form_settings_def)
  with q m show ?thesis by auto
qed

text \<open>
  The entries of \<open>Messages_en.properties\<close> for two rules and the \<open>required\<close> of \<open>Messages_ja.properties\<close>, which has a
  place for the name of the field; a key that is missing is shown in brackets.
\<close>

definition demo_catalogue :: catalogue where
  "demo_catalogue k ps =
     (case map_of [(''validate_errmsg_min'', ''Please enter a value greater than or equal to {0}.''),
                   (''validate_errmsg_digits'', ''Please enter only digits.''), (''validate_errmsg_required'', ''{0} is required''),
                   (''item_cpu_cores'', ''CPU cores'')] k of
        None \<Rightarrow> ''['' @ k @ '']''
      | Some t \<Rightarrow> (case ps of [] \<Rightarrow> t | p # _ \<Rightarrow> replace_all ''{0}'' p t))"

definition count_page :: page where
  "count_page = demo_page\<lparr>pg_number_text := \<lambda>n. ''1''\<rparr>"

lemma forms_show_own_messages_witness:
  "rule_message (form_settings hn_create_rules (hn_create_messages demo_catalogue count_page)) count_page (demo_field 1 ''cpu_cores'' ''0'')
       ''min'' (P_num (Fin 1))
     = ''Please enter a value greater than or equal to 1.''"
proof -
  let ?e = "demo_field 1 ''cpu_cores'' ''0''" and ?m = "hn_create_messages demo_catalogue count_page"
  have f: "(hn_create_rules, ?m) \<in> set (page_forms demo_catalogue count_page)" by (simp add: page_forms_def)
  have n: "no_dollars demo_catalogue" by code_simp
  have e: "plain_element ?e" "fe_name ?e = ''cpu_cores''" "fe_name ?e \<in> fst ` set hn_create_rules"
    by (simp_all add: plain_element_def demo_field_def page_settings_def addMethod_def plugin_methods_def Let_def hn_create_rules_def)
  have c: "check_element (form_settings hn_create_rules ?m) count_page [?e] ?e = Failed ''min'' (P_num (Fin 1))"
  proof -
    have "case check_element (form_settings hn_create_rules ?m) count_page [?e] ?e of
        Failed k p \<Rightarrow> k = ''min'' \<and> (case p of P_num (Fin x) \<Rightarrow> x = 1 | _ \<Rightarrow> False) | _ \<Rightarrow> False" by code_simp
    then show ?thesis by (auto split: outcome.splits param.splits jnum.splits)
  qed
  obtain q where q: "plugin_rule q = (''min'', P_num (Fin 1))"
    "rule_message (form_settings hn_create_rules ?m) count_page ?e ''min'' (P_num (Fin 1)) = shown_text demo_catalogue count_page ''cpu_cores'' q"
    using forms_show_own_messages [OF f n e(1,3) c] e(2) by auto
  have "q = Min 1" using q(1) by (cases q) auto
  moreover have "shown_text demo_catalogue count_page ''cpu_cores'' (Min 1) = ''Please enter a value greater than or equal to 1.''"
    by code_simp
  ultimately show ?thesis using q(2) by simp
qed

end
