(* ===== verification/Lib_Underscore.thy ===== *)
theory Lib_Underscore
  imports Js_Prelude "HOL-Library.Multiset" "HOL-Library.Sublist"
begin

text \<open>
  \<open>underscore.js\<close>, on which the admin site and Backbone stand: the deep comparison \<open>isEqual\<close> on a heap
  of objects that may be cyclic. The theory shows what the comparison decides: on objects without
  cycles it is exact and does not depend on the order of the two, on others it is neither. The unwrapping of
  values that are wrapped for a chain is left out: the theorems have heaps without them.
\<close>

section \<open>Values and objects\<close>

text \<open>Numbers are whole, infinite or not numbers; \<open>0\<close> and \<open>-0\<close> are two values. Objects are addresses.\<close>

datatype unum = NotANumber | MinusZero | Infinite bool | Whole int

datatype uval = U_undefined | U_null | U_bool bool | U_num unum | U_str string | U_ref nat

text \<open>
  An array has holes, a plain object its constructor and own properties; then the wrappers of primitive
  values, dates, regular expressions with their flags, and functions.
\<close>

datatype uobj =
    U_array "uval option list" | U_plain nat "(string \<times> uval) list"
  | U_string string | U_number unum | U_boolean bool | U_date unum | U_regexp string bool bool bool | U_function

text \<open>\<open>uh_custom\<close>: the method \<open>isEqual\<close> of those objects that have one.\<close>

record uheap =
  uh_objects :: "uobj list"
  uh_custom :: "nat \<Rightarrow> (uval \<Rightarrow> bool) option"

section \<open>Comparison\<close>

definition is_zero :: "unum \<Rightarrow> bool" where
  "is_zero n \<longleftrightarrow> n = MinusZero \<or> n = Whole 0"

definition num_eq :: "unum \<Rightarrow> unum \<Rightarrow> bool" where
  "num_eq m n \<longleftrightarrow> m \<noteq> NotANumber \<and> (m = n \<or> is_zero m \<and> is_zero n)"

text \<open>The operator \<open>===\<close>.\<close>

fun strict_eq :: "uval \<Rightarrow> uval \<Rightarrow> bool" where
  "strict_eq (U_num m) (U_num n) = num_eq m n"
| "strict_eq a b = (a = b)"

datatype uclass = C_undefined | C_null | C_string | C_number | C_boolean | C_date | C_regexp | C_function | C_array | C_object

fun object_class :: "uobj \<Rightarrow> uclass" where
  "object_class (U_array xs) = C_array"
| "object_class (U_plain c ps) = C_object"
| "object_class (U_string s) = C_string"
| "object_class (U_number n) = C_number"
| "object_class (U_boolean b) = C_boolean"
| "object_class (U_date n) = C_date"
| "object_class (U_regexp s g m i) = C_regexp"
| "object_class U_function = C_function"

definition object_at :: "uheap \<Rightarrow> nat \<Rightarrow> uobj" where
  "object_at h i = (if i < length (uh_objects h) then uh_objects h ! i else U_plain 0 [])"

fun class_name :: "uheap \<Rightarrow> uval \<Rightarrow> uclass" where
  "class_name h U_undefined = C_undefined"
| "class_name h U_null = C_null"
| "class_name h (U_bool b) = C_boolean"
| "class_name h (U_num n) = C_number"
| "class_name h (U_str s) = C_string"
| "class_name h (U_ref i) = object_class (object_at h i)"

text \<open>The text, the number and the regular expression that a value of such a class stands for.\<close>

definition string_of :: "uheap \<Rightarrow> uval \<Rightarrow> string" where
  "string_of h a = (case a of U_str s \<Rightarrow> s
     | U_ref i \<Rightarrow> (case object_at h i of U_string s \<Rightarrow> s | _ \<Rightarrow> '''') | _ \<Rightarrow> '''')"

definition number_of :: "uheap \<Rightarrow> uval \<Rightarrow> unum" where
  "number_of h a = (case a of U_num n \<Rightarrow> n | U_bool b \<Rightarrow> Whole (if b then 1 else 0)
     | U_ref i \<Rightarrow> (case object_at h i of U_number n \<Rightarrow> n | U_boolean b \<Rightarrow> Whole (if b then 1 else 0) | U_date n \<Rightarrow> n | _ \<Rightarrow> NotANumber)
     | _ \<Rightarrow> NotANumber)"

definition custom_of :: "uheap \<Rightarrow> uval \<Rightarrow> (uval \<Rightarrow> bool) option" where
  "custom_of h a = (case a of U_ref i \<Rightarrow> uh_custom h i | _ \<Rightarrow> None)"

text \<open>
  What \<open>eq\<close> decides before it looks into the objects: an answer, or the addresses of two objects that
  have to be compared by their parts.
\<close>

datatype first_look = Decided bool | Inside nat nat

definition look :: "uheap \<Rightarrow> uval \<Rightarrow> uval \<Rightarrow> first_look" where
  "look h a b =
     (if strict_eq a b then Decided (case a of U_num m \<Rightarrow> \<not> is_zero m \<or> a = b | _ \<Rightarrow> True)
      else if a \<in> {U_undefined, U_null} \<or> b \<in> {U_undefined, U_null} then Decided False
      else case custom_of h a of Some f \<Rightarrow> Decided (f b)
       | None \<Rightarrow> (case custom_of h b of Some f \<Rightarrow> Decided (f a)
       | None \<Rightarrow>
           (let c = class_name h a; m = number_of h a; n = number_of h b in
            if c \<noteq> class_name h b then Decided False
            else if c = C_string then Decided (string_of h a = string_of h b)
            else if c = C_number then
              Decided (if m = NotANumber then n = NotANumber else if is_zero m then m = n else num_eq m n)
            else if c = C_date \<or> c = C_boolean then Decided (num_eq m n)
            else case (a, b) of
                (U_ref i, U_ref j) \<Rightarrow>
                  if c = C_regexp then Decided (object_at h i = object_at h j)
                  else if c = C_function then Decided False else Inside i j
              | _ \<Rightarrow> Decided False)))"

text \<open>
  The pairs that are compared next, from the last element of two arrays of one length, or for each
  property of the first object; none where the lengths, the holes, the constructors or the names differ.
\<close>

definition value_in :: "uval option \<Rightarrow> uval" where
  "value_in x = (case x of None \<Rightarrow> U_undefined | Some v \<Rightarrow> v)"

fun inner_pairs :: "uobj \<Rightarrow> uobj \<Rightarrow> (uval \<times> uval) list option" where
  "inner_pairs (U_array xs) (U_array ys) =
     (if length xs = length ys \<and> list_all2 (\<lambda>x y. (x = None) = (y = None)) xs ys
      then Some (rev (map (\<lambda>(x, y). (value_in x, value_in y)) (zip xs ys))) else None)"
| "inner_pairs (U_plain c ps) (U_plain d qs) =
     (if c = d \<and> length ps = length qs \<and> list_all (\<lambda>(k, v). map_of qs k \<noteq> None) ps
      then Some (map (\<lambda>(k, v). (v, the (map_of qs k))) ps) else None)"
| "inner_pairs _ _ = None"

text \<open>
  The stack holds the objects on the left that are being compared. Each round puts one more of the
  finitely many objects on it. The code keeps one array for it and takes the object off again at the
  end, but for objects of different constructors; then the answer is no, every caller stops at once,
  and nothing reads the array any more. So each call has the stack of its caller here.
\<close>

function us_eq :: "uheap \<Rightarrow> nat list \<Rightarrow> uval \<Rightarrow> uval \<Rightarrow> bool" where
  "us_eq h stack a b =
     (case look h a b of Decided v \<Rightarrow> v
      | Inside i j \<Rightarrow>
          if i \<in> set stack then True
          else if i < length (uh_objects h) then
            (case inner_pairs (object_at h i) (object_at h j) of None \<Rightarrow> False
             | Some ps \<Rightarrow> list_all (\<lambda>(x, y). us_eq h (i # stack) x y) ps)
          else False)"
  by pat_completeness auto
termination
proof (relation "measure (\<lambda>(h, stack, a, b). card ({..<length (uh_objects h)} - set stack))", simp)
  fix h stack a b i j ps and p :: "uval \<times> uval" and x y
  assume "i \<notin> set stack" "i < length (uh_objects h)"
  then have "{..<length (uh_objects h)} - set (i # stack) \<subset> {..<length (uh_objects h)} - set stack" by auto
  then show "((h, i # stack, x, y), h, stack, a, b) \<in> measure (\<lambda>(h, stack, a, b). card ({..<length (uh_objects h)} - set stack))"
    by (simp add: psubset_card_mono)
qed

declare us_eq.simps [simp del]

definition us_isEqual :: "uheap \<Rightarrow> uval \<Rightarrow> uval \<Rightarrow> bool" where
  "us_isEqual h a b = us_eq h [] a b"

section \<open>What the comparison decides\<close>

text \<open>
  What a value stands for, as a tree without addresses: the wrappers of primitive values are those
  values, properties are a map without an order, holes are kept apart from \<open>undefined\<close>. A function
  and a date that is no date stand for themselves. The number bounds the depth.
\<close>

datatype utree = T_undefined | T_null | T_bool bool | T_num unum | T_str string | T_date unum | T_regexp string bool bool bool
  | T_self nat | T_array "utree option list" | T_object nat "string \<Rightarrow> utree option" | T_cut

fun tree :: "nat \<Rightarrow> uheap \<Rightarrow> uval \<Rightarrow> utree" where
  "tree n h U_undefined = T_undefined"
| "tree n h U_null = T_null"
| "tree n h (U_bool b) = T_bool b"
| "tree n h (U_num m) = T_num m"
| "tree n h (U_str s) = T_str s"
| "tree n h (U_ref i) = (case object_at h i of
     U_string s \<Rightarrow> T_str s
   | U_number m \<Rightarrow> T_num m
   | U_boolean b \<Rightarrow> T_bool b
   | U_date m \<Rightarrow> if m = NotANumber then T_self i else T_date (if is_zero m then Whole 0 else m)
   | U_regexp s g m c \<Rightarrow> T_regexp s g m c
   | U_function \<Rightarrow> T_self i
   | U_array xs \<Rightarrow> (case n of 0 \<Rightarrow> T_cut | Suc k \<Rightarrow> T_array (map (map_option (tree k h)) xs))
   | U_plain c ps \<Rightarrow> (case n of 0 \<Rightarrow> T_cut | Suc k \<Rightarrow> T_object c (\<lambda>a. map_option (tree k h) (map_of ps a))))"

text \<open>The objects that are directly inside another one.\<close>

fun inside_of :: "uobj \<Rightarrow> uval set" where
  "inside_of (U_array xs) = value_in ` set xs"
| "inside_of (U_plain c ps) = snd ` set ps"
| "inside_of _ = {}"

text \<open>
  A ranking of the objects that decreases from each to those inside it: there is no cycle. The rank of
  an object bounds its depth.
\<close>

definition ranked :: "(nat \<Rightarrow> nat) \<Rightarrow> uheap \<Rightarrow> bool" where
  "ranked rk h \<longleftrightarrow> (\<forall>i < length (uh_objects h). \<forall>j. U_ref j \<in> inside_of (object_at h i) \<longrightarrow> rk j < rk i)"

definition fits :: "(nat \<Rightarrow> nat) \<Rightarrow> nat \<Rightarrow> uval \<Rightarrow> bool" where
  "fits rk n a \<longleftrightarrow> (\<forall>i. a = U_ref i \<longrightarrow> rk i < n)"

text \<open>
  The names of an object are distinct, every address is that of an object, none has a comparison of its own, and
  none is a value wrapped for a chain, which the code unwraps first: those have a property \<open>_chain\<close>.
\<close>

definition in_range :: "uheap \<Rightarrow> uval \<Rightarrow> bool" where
  "in_range h a \<longleftrightarrow> (\<forall>i. a = U_ref i \<longrightarrow> i < length (uh_objects h))"

fun own_names_ok :: "uobj \<Rightarrow> bool" where
  "own_names_ok (U_plain c ps) = (distinct (map fst ps) \<and> ''_chain'' \<notin> fst ` set ps)"
| "own_names_ok _ = True"

definition heap_ok :: "uheap \<Rightarrow> bool" where
  "heap_ok h \<longleftrightarrow> (\<forall>x \<in> set (uh_objects h). own_names_ok x \<and> (\<forall>a \<in> inside_of x. in_range h a)) \<and>
    (\<forall>i. uh_custom h i = None)"

lemma object_at_ok: "heap_ok h \<Longrightarrow> i < length (uh_objects h) \<Longrightarrow> own_names_ok (object_at h i)"
  by (simp add: heap_ok_def object_at_def)

lemma inside_in_range: "heap_ok h \<Longrightarrow> i < length (uh_objects h) \<Longrightarrow> a \<in> inside_of (object_at h i) \<Longrightarrow> in_range h a"
  by (auto simp: heap_ok_def object_at_def)

lemma inside_fits: "ranked rk h \<Longrightarrow> i < length (uh_objects h) \<Longrightarrow> a \<in> inside_of (object_at h i) \<Longrightarrow> rk i < Suc k \<Longrightarrow> fits rk k a"
  by (fastforce simp: ranked_def fits_def)

lemma num_eq_sym: "num_eq m n = num_eq n m"
  by (auto simp: num_eq_def is_zero_def)

lemma strict_eq_sym: "strict_eq a b = strict_eq b a"
  by (cases "(a, b)" rule: strict_eq.cases) (auto simp: num_eq_sym)

text \<open>What is decided at once agrees with the trees, and the rest are two arrays or two plain objects.\<close>

lemma look_strict:
  assumes "strict_eq a b" "look h a b = Decided v"
  shows "v \<longleftrightarrow> tree n h a = tree n h b"
  using assms by (cases "(a, b)" rule: strict_eq.cases) (auto simp: look_def num_eq_def is_zero_def)

lemma look_decided:
  assumes "look h a b = Decided v" "heap_ok h" "fits rk n a" "fits rk n b"
  shows "v \<longleftrightarrow> tree n h a = tree n h b"
proof (cases "strict_eq a b")
  case True
  then show ?thesis using look_strict assms(1) by blast
next
  case False
  have none: "custom_of h x = None" for x using assms(2) by (cases x) (simp_all add: heap_ok_def custom_of_def)
  have pos: "\<exists>k. n = Suc k" if "a = U_ref i \<or> b = U_ref i" for i
    using assms(3,4) that by (cases n) (auto simp: fits_def)
  show ?thesis
  proof (cases a)
    case (U_ref i)
    then obtain k where "n = Suc k" using pos by blast
    then show ?thesis using assms(1) False none U_ref
      by (cases b; cases "object_at h i"; simp add: look_def Let_def string_of_def number_of_def num_eq_def is_zero_def split: uobj.splits if_splits) auto
  next
    case (U_num m)
    then show ?thesis using assms(1) False none pos
      by (cases b) (auto simp: look_def Let_def string_of_def number_of_def num_eq_def is_zero_def split: uobj.splits if_splits)
  qed (use assms(1) False none pos in \<open>cases b; auto simp: look_def Let_def string_of_def number_of_def num_eq_def is_zero_def split: uobj.splits if_splits\<close>)+
qed

lemma look_inside:
  assumes "look h a b = Inside i j"
  shows "a = U_ref i \<and> b = U_ref j \<and> object_class (object_at h i) = object_class (object_at h j)
    \<and> object_class (object_at h i) \<in> {C_array, C_object}"
proof -
  have r: "a = U_ref i \<and> b = U_ref j" using assms
    by (auto simp: look_def Let_def split: if_splits option.splits uval.splits)
  then show ?thesis using assms
    by (cases "object_at h i") (auto simp: look_def Let_def split: if_splits option.splits)
qed

lemma inner_pairs_inside: "inner_pairs x y = Some ps \<Longrightarrow> p \<in> set ps \<Longrightarrow> fst p \<in> inside_of x \<and> snd p \<in> inside_of y"
  by (cases "(x, y)" rule: inner_pairs.cases)
    (force split: if_splits dest: set_zip_leftD set_zip_rightD map_of_SomeD simp: list_all_iff)+

lemma map_option_value: "(x = None) = (y = None) \<Longrightarrow> map_option f x = map_option f y \<longleftrightarrow> f (value_in x) = f (value_in y)"
  by (cases x; cases y) (auto simp: value_in_def)

text \<open>Two arrays or plain objects stand for the same tree exactly when there are pairs and each pair does.\<close>

lemma array_tree:
  "map (map_option f) xs = map (map_option f) ys \<longleftrightarrow>
     (case inner_pairs (U_array xs) (U_array ys) of None \<Rightarrow> False | Some ps \<Rightarrow> \<forall>p \<in> set ps. f (fst p) = f (snd p))"
proof (cases "length xs = length ys \<and> list_all2 (\<lambda>x y. (x = None) = (y = None)) xs ys")
  case True
  then have n: "length xs = length ys" "\<forall>i < length ys. (xs ! i = None) = (ys ! i = None)"
    by (auto simp: list_all2_conv_all_nth)
  have "map (map_option f) xs = map (map_option f) ys \<longleftrightarrow> (\<forall>i < length ys. f (value_in (xs ! i)) = f (value_in (ys ! i)))"
    using n map_option_value [of "xs ! i" "ys ! i" f for i] by (auto simp: list_eq_iff_nth_eq)
  also have "\<dots> \<longleftrightarrow> (\<forall>p \<in> set (zip xs ys). f (value_in (fst p)) = f (value_in (snd p)))"
    using n(1) by (auto simp: set_zip)
  finally show ?thesis using True by auto
next
  case False
  then have "map (map_option f) xs \<noteq> map (map_option f) ys"
  proof (rule contrapos_nn)
    assume eq: "map (map_option f) xs = map (map_option f) ys"
    then have l: "length xs = length ys" using map_eq_imp_length_eq by blast
    have "(xs ! i = None) = (ys ! i = None)" if "i < length xs" for i
    proof -
      have "map_option f (xs ! i) = map_option f (ys ! i)" using eq l that by (metis nth_map)
      then show ?thesis by (metis map_option_is_None)
    qed
    then show "length xs = length ys \<and> list_all2 (\<lambda>x y. (x = None) = (y = None)) xs ys"
      using l by (simp add: list_all2_conv_all_nth)
  qed
  then show ?thesis using False by auto
qed

lemma object_tree:
  assumes "distinct (map fst ps)" "distinct (map fst qs)"
  shows "c = d \<and> (\<lambda>a. map_option f (map_of ps a)) = (\<lambda>a. map_option f (map_of qs a)) \<longleftrightarrow>
     (case inner_pairs (U_plain c ps) (U_plain d qs) of None \<Rightarrow> False | Some rs \<Rightarrow> \<forall>p \<in> set rs. f (fst p) = f (snd p))"
    (is "c = d \<and> ?eq \<longleftrightarrow> ?rhs")
proof -
  have dom: "set (map fst xs) = dom (map_of xs)" for xs :: "(string \<times> uval) list" by (simp add: dom_map_of_conv_image_fst)
  have sub: "list_all (\<lambda>(k, v). map_of qs k \<noteq> None) ps \<longleftrightarrow> set (map fst ps) \<subseteq> set (map fst qs)"
    by (force simp: list_all_iff map_of_eq_None_iff)
  show ?thesis
  proof (cases "c = d \<and> length ps = length qs \<and> list_all (\<lambda>(k, v). map_of qs k \<noteq> None) ps")
    case True
    then have "set (map fst ps) = set (map fst qs)"
      using sub assms by (metis card_subset_eq distinct_card length_map List.finite_set)
    then have d: "dom (map_of ps) = dom (map_of qs)" by (metis dom)
    have "?eq \<longleftrightarrow> (\<forall>(k, v) \<in> set ps. f v = f (the (map_of qs k)))"
    proof
      assume ?eq
      show "\<forall>(k, v) \<in> set ps. f v = f (the (map_of qs k))"
      proof clarify
        fix k v assume kv: "(k, v) \<in> set ps"
        then have "map_of ps k = Some v" using assms(1) by simp
        then have "map_option f (map_of qs k) = Some (f v)" using fun_cong [OF \<open>?eq\<close>, of k] by simp
        then show "f v = f (the (map_of qs k))" by auto
      qed
    next
      assume all: "\<forall>(k, v) \<in> set ps. f v = f (the (map_of qs k))"
      show ?eq
      proof
        fix k
        show "map_option f (map_of ps k) = map_option f (map_of qs k)"
        proof (cases "map_of ps k")
          case None
          then have "map_of qs k = None" using d by (metis domIff)
          then show ?thesis using None by simp
        next
          case (Some v)
          then obtain w where "map_of qs k = Some w" using d by (metis domD domI)
          moreover have "(k, v) \<in> set ps" using Some by (rule map_of_SomeD)
          ultimately show ?thesis using Some all by fastforce
        qed
      qed
    qed
    then show ?thesis using True by (auto simp: case_prod_beta)
  next
    case False
    have "\<not> (c = d \<and> ?eq)"
    proof
      assume eq: "c = d \<and> ?eq"
      have "map_of ps k = None \<longleftrightarrow> map_of qs k = None" for k
        using fun_cong [OF conjunct2 [OF eq], of k] by (metis map_option_is_None)
      then have "dom (map_of ps) = dom (map_of qs)" by (auto simp: dom_def)
      then have same: "set (map fst ps) = set (map fst qs)" by (metis dom)
      then have "length ps = length qs" using assms by (metis distinct_card length_map)
      then show False using False eq sub same by simp
    qed
    then show ?thesis using False by auto
  qed
qed

lemma us_eq_tree:
  assumes "heap_ok h" "ranked rk h"
  shows "fits rk n a \<Longrightarrow> fits rk n b \<Longrightarrow> in_range h a \<Longrightarrow> in_range h b \<Longrightarrow> \<forall>i. a = U_ref i \<longrightarrow> (\<forall>s \<in> set stack. rk i < rk s) \<Longrightarrow>
     us_eq h stack a b \<longleftrightarrow> tree n h a = tree n h b"
proof (induction n arbitrary: stack a b)
  case 0
  then have "\<nexists>i j. look h a b = Inside i j" using look_inside by (fastforce simp: fits_def)
  then obtain v where "look h a b = Decided v" by (cases "look h a b") auto
  then show ?case using look_decided [OF _ assms(1) 0(1,2)] by (simp add: us_eq.simps)
next
  case (Suc k)
  show ?case
  proof (cases "look h a b")
    case (Decided v)
    then show ?thesis using look_decided [OF _ assms(1) Suc.prems(1,2)] by (simp add: us_eq.simps)
  next
    case (Inside i j)
    note l = look_inside [OF Inside]
    have i: "i < length (uh_objects h)" "j < length (uh_objects h)" using l Suc.prems(3,4) by (simp_all add: in_range_def)
    have new: "i \<notin> set stack" using Suc.prems(5) l by blast
    have rk: "rk i < Suc k" "rk j < Suc k" using l Suc.prems(1,2) by (simp_all add: fits_def)
    have eq: "us_eq h stack a b \<longleftrightarrow> (case inner_pairs (object_at h i) (object_at h j) of None \<Rightarrow> False
        | Some ps \<Rightarrow> list_all (\<lambda>(x, y). us_eq h (i # stack) x y) ps)"
      using Inside new i by (simp add: us_eq.simps [of h stack])
    have inner: "us_eq h (i # stack) (fst p) (snd p) \<longleftrightarrow> tree k h (fst p) = tree k h (snd p)"
      if "inner_pairs (object_at h i) (object_at h j) = Some ps" "p \<in> set ps" for ps p
    proof (rule Suc.IH)
      note p = inner_pairs_inside [OF that]
      show "fits rk k (fst p)" "fits rk k (snd p)"
        using inside_fits [OF assms(2) i(1) _ rk(1)] inside_fits [OF assms(2) i(2) _ rk(2)] p by blast+
      show "in_range h (fst p)" "in_range h (snd p)"
        using inside_in_range [OF assms(1) i(1)] inside_in_range [OF assms(1) i(2)] p by blast+
      have "\<forall>m. fst p = U_ref m \<longrightarrow> rk m < rk i" using assms(2) i(1) p by (auto simp: ranked_def)
      then show "\<forall>m. fst p = U_ref m \<longrightarrow> (\<forall>s \<in> set (i # stack). rk m < rk s)" using Suc.prems(5) l by fastforce
    qed
    have "us_eq h stack a b \<longleftrightarrow> (case inner_pairs (object_at h i) (object_at h j) of None \<Rightarrow> False
        | Some ps \<Rightarrow> \<forall>p \<in> set ps. tree k h (fst p) = tree k h (snd p))"
      unfolding eq using inner by (cases "inner_pairs (object_at h i) (object_at h j)") (auto simp: list_all_iff)
    also have "\<dots> \<longleftrightarrow> tree (Suc k) h a = tree (Suc k) h b"
    proof -
      consider (arrays) xs ys where "object_at h i = U_array xs" "object_at h j = U_array ys"
        | (plain) c ps d qs where "object_at h i = U_plain c ps" "object_at h j = U_plain d qs"
        using l by (cases "object_at h i"; cases "object_at h j") auto
      then show ?thesis
      proof cases
        case arrays
        then show ?thesis using l array_tree [of "tree k h" xs ys] by simp
      next
        case plain
        have "distinct (map fst ps)" "distinct (map fst qs)"
          using object_at_ok [OF assms(1) i(1)] object_at_ok [OF assms(1) i(2)] plain by simp_all
        then show ?thesis using l plain object_tree [of ps qs c d "tree k h"] by simp
      qed
    qed
    finally show ?thesis .
  qed
qed

lemma isEqual_tree:
  assumes "ranked rk h" "heap_ok h" "in_range h a" "in_range h b" "fits rk n a" "fits rk n b"
  shows "us_isEqual h a b \<longleftrightarrow> tree n h a = tree n h b"
  using us_eq_tree [OF assms(2,1,5,6,3,4), of "[]"] by (simp add: us_isEqual_def)

section \<open>The properties\<close>

text \<open>
  C38: on objects without cycles, whatever parts they share, the deep comparison says yes exactly when the
  two values stand for the same tree: the same text, number or flag, wrapped or not, with \<open>NaN\<close> equal to
  itself and \<open>0\<close> unequal to \<open>-0\<close>, the same valid date or regular expression, arrays of the same length with holes in the same
  places and equal elements, objects of one constructor with the same names and equal values in any
  order, or the same function. The objects have no comparison of their own and are not wrapped for a chain.
\<close>

theorem isEqual_exact:
  assumes "ranked rk h" "heap_ok h" "in_range h a" "in_range h b" "fits rk n a" "fits rk n b"
  shows "us_isEqual h a b \<longleftrightarrow> tree n h a = tree n h b"
  by (rule isEqual_tree [OF assms])

definition pages_heap :: uheap where
  "pages_heap = \<lparr>uh_objects = [U_array [Some (U_num (Whole 1)), None, Some (U_ref 1)], U_plain 0 [(''a'', U_str ''x''), (''b'', U_null)],
     U_array [Some (U_num (Whole 1)), None, Some (U_ref 3)], U_plain 0 [(''b'', U_null), (''a'', U_str ''x'')]],
     uh_custom = \<lambda>i. None\<rparr>"

lemma pages_heap_ranked: "ranked (\<lambda>i. if i = 0 \<or> i = 2 then 1 else 0) pages_heap"
  by (simp add: ranked_def pages_heap_def All_less_Suc object_at_def value_in_def)

lemma pages_heap_equal: "us_isEqual pages_heap (U_ref 0) (U_ref 2)"
  by (simp add: us_isEqual_def us_eq.simps look_def pages_heap_def object_at_def custom_of_def value_in_def Let_def num_eq_def is_zero_def)

lemma pages_heap_ok: "heap_ok pages_heap"
  by (simp add: heap_ok_def pages_heap_def value_in_def in_range_def)

theorem isEqual_exact_witness: "tree 2 pages_heap (U_ref 0) = tree 2 pages_heap (U_ref 2)"
  using isEqual_exact [OF pages_heap_ranked pages_heap_ok, of "U_ref 0" "U_ref 2" 2] pages_heap_equal
  by (simp add: in_range_def fits_def pages_heap_def)

text \<open>In particular, the answer does not depend on the order of the two.\<close>

lemma isEqual_symmetric:
  assumes "ranked rk h" "heap_ok h" "in_range h a" "in_range h b"
  shows "us_isEqual h a b = us_isEqual h b a"
proof -
  have "\<exists>n. fits rk n x" for x by (cases x) (auto simp: fits_def)
  then obtain m n where "fits rk m a" "fits rk n b" by metis
  then have "fits rk (m + n) a" "fits rk (m + n) b" by (auto simp: fits_def)
  then show ?thesis using isEqual_tree [OF assms] isEqual_tree [OF assms(1,2,4,3)] by auto
qed

text \<open>
  On cyclic objects it depends on the order: only the stack of the left side is looked through, so an array that holds
  itself equals every array of one array, and not the other way round.
\<close>

definition loop_heap :: uheap where
  "loop_heap = \<lparr>uh_objects = [U_array [Some (U_ref 0)], U_array [Some (U_ref 2)], U_array [Some (U_num (Whole 5))]],
     uh_custom = \<lambda>i. None\<rparr>"

lemma isEqual_cyclic_left: "us_isEqual loop_heap (U_ref 0) (U_ref 1)"
  by (simp add: us_isEqual_def us_eq.simps look_def loop_heap_def object_at_def custom_of_def value_in_def Let_def)

lemma isEqual_cyclic_right: "\<not> us_isEqual loop_heap (U_ref 1) (U_ref 0)"
  by (simp add: us_isEqual_def us_eq.simps look_def loop_heap_def object_at_def custom_of_def value_in_def Let_def)

end
