(* ===== verification/Underscore_Arrays.thy ===== *)
theory Underscore_Arrays
  imports Lib_Underscore "HOL-Library.Word"
begin

text \<open>
  The functions of \<open>underscore.js\<close> on arrays and plain objects: the binary search, \<open>indexOf\<close> and
  \<open>uniq\<close> with their flags for sorted arrays, the set operations, slices, \<open>range\<close>, \<open>flatten\<close>,
  \<open>shuffle\<close>, \<open>groupBy\<close>, \<open>defaults\<close> and \<open>pick\<close>. Arrays here have no holes.
\<close>

section \<open>Binary search\<close>

definition us_at :: "uval list \<Rightarrow> int \<Rightarrow> uval" where
  "us_at xs i = (if 0 \<le> i \<and> i < int (length xs) then xs ! nat i else U_undefined)"

lemma us_at_nat [simp]: "i < length xs \<Longrightarrow> us_at xs (int i) = xs ! i"
  by (simp add: us_at_def)

text \<open>The shift works on 32 bits with a sign.\<close>

definition us_mid :: "int \<Rightarrow> int \<Rightarrow> int" where
  "us_mid low high = sint (word_of_int (low + high) :: 32 word) div 2"

partial_function (option) us_bisect :: "(int \<Rightarrow> bool) \<Rightarrow> int \<Rightarrow> int \<Rightarrow> int option" where
  "us_bisect below low high =
     (if low < high
      then (if below (us_mid low high) then us_bisect below (us_mid low high + 1) high
            else us_bisect below low (us_mid low high))
      else Some low)"

declare us_bisect.simps [code]

text \<open>\<open>lt\<close> is the operator \<open><\<close> on what the iterator returns.\<close>

definition us_sortedIndex :: "(uval \<Rightarrow> uval \<Rightarrow> bool) \<Rightarrow> (uval \<Rightarrow> uval) \<Rightarrow> uval list \<Rightarrow> uval \<Rightarrow> int option" where
  "us_sortedIndex lt it xs x = us_bisect (\<lambda>i. lt (it (us_at xs i)) (it x)) 0 (int (length xs))"

lemma us_mid_exact: "0 \<le> low \<Longrightarrow> low < high \<Longrightarrow> high \<le> 2 ^ 30 \<Longrightarrow> us_mid low high = (low + high) div 2"
  by (simp add: us_mid_def signed_take_bit_int_eq_self sint_sbintrunc' del: of_int_add)

text \<open>Above it the sum turns negative.\<close>

lemma us_mid_wraps: "us_mid (2 ^ 30) (2 ^ 30 + 1) < 0"
  by (simp add: us_mid_def)

lemma us_bisect_spec:
  assumes "0 \<le> low" "low \<le> high" "high \<le> 2 ^ 30"
    and "\<forall>i j. 0 \<le> i \<longrightarrow> i < j \<longrightarrow> j < high \<longrightarrow> below j \<longrightarrow> below i"
    and "\<forall>i. 0 \<le> i \<longrightarrow> i < low \<longrightarrow> below i"
  shows "\<exists>r. us_bisect below low high = Some r \<and> low \<le> r \<and> r \<le> high \<and> (\<forall>i. 0 \<le> i \<longrightarrow> i < r \<longrightarrow> below i) \<and>
    (\<forall>i. r \<le> i \<longrightarrow> i < high \<longrightarrow> \<not> below i)"
  using assms
proof (induction "nat (high - low)" arbitrary: low high rule: less_induct)
  case less
  show ?case
  proof (cases "low < high")
    case True
    define mid where "mid = us_mid low high"
    have m: "mid = (low + high) div 2" using us_mid_exact less.prems True by (simp add: mid_def)
    then have b: "low \<le> mid" "mid < high" using True by auto
    have unfold: "us_bisect below low high = (if below mid then us_bisect below (mid + 1) high else us_bisect below low mid)"
      using True by (simp add: us_bisect.simps [of below low high] mid_def)
    show ?thesis
    proof (cases "below mid")
      case True
      have p: "\<forall>i. 0 \<le> i \<longrightarrow> i < mid + 1 \<longrightarrow> below i" using less.prems(4) b True by (metis zless_add1_eq)
      then obtain r where "us_bisect below (mid + 1) high = Some r" "mid + 1 \<le> r" "r \<le> high"
        "\<forall>i. 0 \<le> i \<longrightarrow> i < r \<longrightarrow> below i" "\<forall>i. r \<le> i \<longrightarrow> i < high \<longrightarrow> \<not> below i"
        using less.hyps [of high "mid + 1"] less.prems(1,3,4) b by auto
      then show ?thesis using unfold True b by (intro exI [of _ r]) auto
    next
      case False
      have n: "\<not> below i" if "mid \<le> i" "i < high" for i
        using less.prems(1,4) b that False by (metis order_le_less order_trans)
      obtain r where "us_bisect below low mid = Some r" "low \<le> r" "r \<le> mid"
        "\<forall>i. 0 \<le> i \<longrightarrow> i < r \<longrightarrow> below i" "\<forall>i. r \<le> i \<longrightarrow> i < mid \<longrightarrow> \<not> below i"
        using less.hyps [of mid low] less.prems b by auto
      then show ?thesis using unfold False b n by (intro exI [of _ r]) (auto simp: not_less)
    qed
  next
    case False
    then have "us_bisect below low high = Some low" by (simp add: us_bisect.simps [of below low high])
    then show ?thesis using less.prems False by (intro exI [of _ low]) auto
  qed
qed

section \<open>Positions\<close>

fun position_of :: "uval \<Rightarrow> uval list \<Rightarrow> nat \<Rightarrow> int" where
  "position_of x [] i = -1"
| "position_of x (y # ys) i = (if strict_eq y x then int i else position_of x ys (Suc i))"

definition us_indexOf :: "(uval \<Rightarrow> uval \<Rightarrow> bool) \<Rightarrow> uval list \<Rightarrow> uval \<Rightarrow> bool \<Rightarrow> int option" where
  "us_indexOf lt xs x isSorted =
     (if isSorted
      then Option.bind (us_sortedIndex lt (\<lambda>y. y) xs x) (\<lambda>i. Some (if strict_eq (us_at xs i) x then i else -1))
      else Some (position_of x xs 0))"

lemma position_found:
  "k < length xs \<Longrightarrow> strict_eq (xs ! k) x \<Longrightarrow> \<forall>j < k. \<not> strict_eq (xs ! j) x \<Longrightarrow> position_of x xs i = int (i + k)"
proof (induction xs arbitrary: i k)
  case (Cons y ys)
  then show ?case by (cases k) (auto simp: All_less_Suc2)
qed simp

lemma position_missing: "\<forall>y \<in> set xs. \<not> strict_eq y x \<Longrightarrow> position_of x xs i = -1"
  by (induction xs arbitrary: i) auto

text \<open>Numbers, and the order on them; \<open>NaN\<close> is below and above nothing.\<close>

fun whole :: "unum \<Rightarrow> int" where
  "whole (Whole i) = i" | "whole _ = 0"

fun num_less :: "unum \<Rightarrow> unum \<Rightarrow> bool" where
  "num_less NotANumber n = False"
| "num_less m NotANumber = False"
| "num_less (Infinite a) (Infinite b) = (\<not> a \<and> b)"
| "num_less (Infinite a) n = (\<not> a)"
| "num_less m (Infinite b) = b"
| "num_less m n = (whole m < whole n)"

fun value_less :: "uval \<Rightarrow> uval \<Rightarrow> bool" where
  "value_less (U_num m) (U_num n) = num_less m n"
| "value_less _ _ = False"

lemma num_less_trans: "num_less l m \<Longrightarrow> num_less m n \<Longrightarrow> num_less l n"
  by (cases l; cases m; cases n) auto

lemma num_trichotomy: "m \<noteq> NotANumber \<Longrightarrow> n \<noteq> NotANumber \<Longrightarrow> num_less m n \<or> num_eq m n \<or> num_less n m"
  by (cases m; cases n) (auto simp: num_eq_def is_zero_def)

lemma num_less_not_eq: "num_less m n \<Longrightarrow> \<not> num_eq m n"
  by (cases m; cases n) (auto simp: num_eq_def is_zero_def)

lemma num_less_le_trans: "num_less l m \<Longrightarrow> \<not> num_less n m \<Longrightarrow> n \<noteq> NotANumber \<Longrightarrow> num_less l n"
  by (cases l; cases m; cases n) auto

lemma num_le_less_trans: "num_less n x \<Longrightarrow> \<not> num_less n m \<Longrightarrow> m \<noteq> NotANumber \<Longrightarrow> num_less m x"
  by (cases m; cases n; cases x) auto

text \<open>Arrays of numbers in ascending order, without \<open>NaN\<close>.\<close>

definition ascending :: "unum list \<Rightarrow> bool" where
  "ascending ns \<longleftrightarrow> NotANumber \<notin> set ns \<and> sorted_wrt (\<lambda>m n. \<not> num_less n m) ns"

lemma ascending_nth: "ascending ns \<Longrightarrow> i < j \<Longrightarrow> j < length ns \<Longrightarrow> \<not> num_less (ns ! j) (ns ! i)"
  by (auto simp: ascending_def sorted_wrt_iff_nth_less)

lemma ascending_number: "ascending ns \<Longrightarrow> i < length ns \<Longrightarrow> ns ! i \<noteq> NotANumber"
  by (auto simp: ascending_def dest: nth_mem)

lemma ascending_below:
  "ascending ns \<Longrightarrow> i < j \<Longrightarrow> j < length ns \<Longrightarrow> num_less (ns ! j) n \<Longrightarrow> num_less (ns ! i) n"
  using num_le_less_trans [of "ns ! j" n "ns ! i"] ascending_nth [of ns i j] ascending_number [of ns i] by simp

lemma sortedIndex_numbers:
  assumes "ascending ns" "length ns \<le> 2 ^ 30"
  shows "\<exists>r \<le> length ns. us_sortedIndex value_less (\<lambda>y. y) (map U_num ns) (U_num n) = Some (int r) \<and>
    (\<forall>i < r. num_less (ns ! i) n) \<and> (\<forall>i. r \<le> i \<longrightarrow> i < length ns \<longrightarrow> \<not> num_less (ns ! i) n)"
proof -
  let ?below = "\<lambda>i. value_less (us_at (map U_num ns) i) (U_num n)"
  have below: "?below i = num_less (ns ! nat i) n" if "0 \<le> i" "i < int (length ns)" for i
    using that by (simp add: us_at_def nat_less_iff)
  have "\<forall>i j. 0 \<le> i \<longrightarrow> i < j \<longrightarrow> j < int (length ns) \<longrightarrow> ?below j \<longrightarrow> ?below i"
  proof (intro allI impI)
    fix i j assume "0 \<le> i" "i < j" "j < int (length ns)" "?below j"
    then show "?below i" using ascending_below [OF assms(1), of "nat i" "nat j" n] by (simp add: below)
  qed
  moreover have "int (length ns) \<le> 2 ^ 30" using assms(2) by simp
  ultimately obtain r where r: "us_bisect ?below 0 (int (length ns)) = Some r" "0 \<le> r" "r \<le> int (length ns)"
    "\<forall>i. 0 \<le> i \<longrightarrow> i < r \<longrightarrow> ?below i" "\<forall>i. r \<le> i \<longrightarrow> i < int (length ns) \<longrightarrow> \<not> ?below i"
    using us_bisect_spec [of 0 "int (length ns)" ?below] by auto
  have "num_less (ns ! i) n" if "i < nat r" for i using r(3) r(4) [rule_format, of "int i"] that below [of "int i"] by auto
  moreover have "\<not> num_less (ns ! i) n" if "nat r \<le> i" "i < length ns" for i
    using r(5) [rule_format, of "int i"] that below [of "int i"] by auto
  ultimately show ?thesis using r(1-3) by (intro exI [of _ "nat r"]) (auto simp: us_sortedIndex_def)
qed

lemma indexOf_numbers:
  assumes "ascending ns" "length ns \<le> 2 ^ 30"
  shows "us_indexOf value_less (map U_num ns) (U_num n) True = us_indexOf value_less (map U_num ns) (U_num n) False"
proof -
  obtain r where r: "r \<le> length ns" "us_sortedIndex value_less (\<lambda>y. y) (map U_num ns) (U_num n) = Some (int r)"
    "\<forall>i < r. num_less (ns ! i) n" "\<forall>i. r \<le> i \<longrightarrow> i < length ns \<longrightarrow> \<not> num_less (ns ! i) n"
    using sortedIndex_numbers [OF assms, of n] by blast
  have before: "\<not> num_eq (ns ! i) n" if "i < r" for i using r(3) that num_less_not_eq by blast
  show ?thesis
  proof (cases "r < length ns \<and> num_eq (ns ! r) n")
    case True
    then have "position_of (U_num n) (map U_num ns) 0 = int r"
      using position_found [of r "map U_num ns" "U_num n" 0] before by simp
    then show ?thesis using r(2) True by (simp add: us_indexOf_def)
  next
    case False
    have "\<not> num_eq (ns ! i) n" if i: "i < length ns" for i
    proof
      assume eq: "num_eq (ns ! i) n"
      then have "r \<le> i" using before not_less by blast
      then have lt: "r < i" using eq False i by (metis order_le_less)
      have n: "n \<noteq> NotANumber" using eq by (auto simp: num_eq_def is_zero_def)
      have "\<not> num_eq (ns ! r) n" "\<not> num_less (ns ! r) n" using False r(4) lt i by auto
      then have "num_less n (ns ! r)" using num_trichotomy [of "ns ! r" n] ascending_number [OF assms(1), of r] lt i n by auto
      then have "num_less n (ns ! i)"
        using num_less_le_trans ascending_nth [OF assms(1) lt i] ascending_number [OF assms(1) i] by blast
      then show False using eq num_less_not_eq num_eq_sym by blast
    qed
    then have "position_of (U_num n) (map U_num ns) 0 = -1"
      by (intro position_missing) (auto simp: in_set_conv_nth)
    moreover have "\<not> strict_eq (us_at (map U_num ns) (int r)) (U_num n)"
      using False r(1) by (auto simp: us_at_def)
    ultimately show ?thesis using r(2) by (simp add: us_indexOf_def)
  qed
qed

section \<open>Arrays without repetitions, and sets\<close>

definition us_include :: "uval list \<Rightarrow> uval \<Rightarrow> bool" where
  "us_include xs x = list_ex (\<lambda>y. strict_eq y x) xs"

text \<open>One round of \<open>uniq\<close>: the criteria seen so far, and the elements kept.\<close>

definition uniq_step :: "bool \<Rightarrow> uval list \<times> uval list \<Rightarrow> uval \<times> uval \<Rightarrow> uval list \<times> uval list" where
  "uniq_step isSorted acc kx = (case (acc, kx) of ((memo, results), (k, x)) \<Rightarrow>
     if (if isSorted then memo = [] \<or> \<not> strict_eq (last memo) k else \<not> us_include memo k)
     then (memo @ [k], results @ [x]) else (memo, results))"

definition us_uniq :: "uval list \<Rightarrow> bool \<Rightarrow> (uval \<Rightarrow> uval) \<Rightarrow> uval list" where
  "us_uniq xs isSorted it =
     snd (foldl (uniq_step (isSorted \<or> length xs < 3)) ([], []) (zip (map it xs) xs))"

lemma strict_eq_trans: "strict_eq a b \<Longrightarrow> strict_eq b c \<Longrightarrow> strict_eq a c"
  by (cases "(a, b)" rule: strict_eq.cases; cases c) (auto simp: num_eq_def)

text \<open>Equal criteria stand next to each other.\<close>

definition grouped :: "uval list \<Rightarrow> bool" where
  "grouped ks \<longleftrightarrow> (\<forall>i j l. i < j \<longrightarrow> j < l \<longrightarrow> l < length ks \<longrightarrow> strict_eq (ks ! i) (ks ! l) \<longrightarrow> strict_eq (ks ! j) (ks ! l))"

lemma grouped_short: "length ks < 3 \<Longrightarrow> grouped ks"
  by (auto simp: grouped_def)

text \<open>What \<open>uniq\<close> without the flag keeps: a pair none before which has its criterion.\<close>

fun firsts :: "uval list \<Rightarrow> (uval \<times> uval) list \<Rightarrow> uval list" where
  "firsts seen [] = []"
| "firsts seen ((k, x) # ps) = (if us_include seen k then firsts (seen @ [k]) ps else x # firsts (seen @ [k]) ps)"

lemma include_append [simp]: "us_include (xs @ ys) k \<longleftrightarrow> us_include xs k \<or> us_include ys k"
  by (simp add: us_include_def)

lemma include_Cons [simp]: "us_include (y # ys) k \<longleftrightarrow> strict_eq y k \<or> us_include ys k" "\<not> us_include [] k"
  by (simp_all add: us_include_def)

lemma include_trans: "us_include xs k \<Longrightarrow> strict_eq k l \<Longrightarrow> us_include xs l"
  by (auto simp: us_include_def list_ex_iff intro: strict_eq_trans)

lemma uniq_unsorted:
  assumes "\<forall>k. us_include memo k = us_include seen k"
  shows "snd (foldl (uniq_step False) (memo, results) ps) = results @ firsts seen ps"
  using assms
proof (induction ps arbitrary: memo seen results)
  case (Cons p ps)
  obtain k x where p: "p = (k, x)" by (cases p)
  show ?case
  proof (cases "us_include seen k")
    case True
    then have "\<forall>l. us_include memo l = us_include (seen @ [k]) l" using Cons.prems include_trans by auto
    then show ?thesis using Cons.IH [of memo "seen @ [k]"] Cons.prems True by (simp add: p uniq_step_def)
  next
    case False
    have "\<forall>l. us_include (memo @ [k]) l = us_include (seen @ [k]) l" using Cons.prems by auto
    then show ?thesis using Cons.IH [of "memo @ [k]" "seen @ [k]" "results @ [x]"] Cons.prems False
      by (simp add: p uniq_step_def)
  qed
qed simp

lemma grouped_last:
  assumes "grouped (seen @ k # ks)" "us_include seen k"
  shows "strict_eq (last seen) k"
proof -
  obtain i where i: "i < length seen" "strict_eq (seen ! i) k"
    using assms(2) by (auto simp: us_include_def list_ex_iff in_set_conv_nth)
  have "strict_eq (seen ! (length seen - 1)) k"
  proof (cases "i = length seen - 1")
    case False
    then show ?thesis using assms(1) i unfolding grouped_def
      by (elim allE [of _ i] allE [of _ "length seen - 1"] allE [of _ "length seen"]) (auto simp: nth_append)
  qed (use i in simp)
  moreover have "last seen = seen ! (length seen - 1)" using i(1) by (intro last_conv_nth) auto
  ultimately show ?thesis by simp
qed

lemma uniq_sorted:
  assumes "grouped (seen @ map fst ps)" "set memo \<subseteq> set seen" "memo = [] \<longleftrightarrow> seen = []"
    "seen \<noteq> [] \<longrightarrow> last memo = last seen \<or> strict_eq (last memo) (last seen)"
  shows "snd (foldl (uniq_step True) (memo, results) ps) = results @ firsts seen ps"
  using assms
proof (induction ps arbitrary: memo seen results)
  case (Cons p ps)
  obtain k x where p: "p = (k, x)" by (cases p)
  have g: "grouped ((seen @ [k]) @ map fst ps)" using Cons.prems(1) p by simp
  have same: "us_include seen k \<longleftrightarrow> memo \<noteq> [] \<and> strict_eq (last memo) k"
  proof
    assume inc: "us_include seen k"
    then have "seen \<noteq> []" by auto
    moreover have "strict_eq (last seen) k" using grouped_last inc Cons.prems(1) p by simp
    ultimately show "memo \<noteq> [] \<and> strict_eq (last memo) k" using Cons.prems(3,4) strict_eq_trans by metis
  next
    assume "memo \<noteq> [] \<and> strict_eq (last memo) k"
    then have "last memo \<in> set seen" "strict_eq (last memo) k" using Cons.prems(2) last_in_set by auto
    then show "us_include seen k" by (auto simp: us_include_def list_ex_iff)
  qed
  show ?case
  proof (cases "us_include seen k")
    case True
    then show ?thesis using Cons.IH [of "seen @ [k]" memo] g Cons.prems(2,3) same by (auto simp: p uniq_step_def)
  next
    case False
    then have "uniq_step True (memo, results) (k, x) = (memo @ [k], results @ [x])" using same by (auto simp: uniq_step_def)
    moreover have "set (memo @ [k]) \<subseteq> set (seen @ [k])" using Cons.prems(2) by auto
    ultimately show ?thesis using Cons.IH [of "seen @ [k]" "memo @ [k]" "results @ [x]"] g False by (simp add: p)
  qed
qed simp

lemma uniq_firsts:
  assumes "isSorted \<Longrightarrow> grouped (map it xs)"
  shows "us_uniq xs isSorted it = firsts [] (zip (map it xs) xs)"
proof (cases "isSorted \<or> length xs < 3")
  case True
  then have "grouped (map it xs)" using assms grouped_short by auto
  then show ?thesis using True uniq_sorted [of "[]" "zip (map it xs) xs" "[]" "[]"] by (simp add: us_uniq_def)
next
  case False
  then show ?thesis using uniq_unsorted [of "[]" "[]"] by (simp add: us_uniq_def)
qed

lemma firsts_subseq: "subseq (firsts seen ps) (map snd ps)"
  by (induction seen ps rule: firsts.induct) auto

lemma firsts_unseen: "x \<in> set (firsts seen (map (\<lambda>x. (it x, x)) xs)) \<Longrightarrow> \<not> us_include seen (it x)"
proof (induction xs arbitrary: seen)
  case (Cons y ys)
  then show ?case using Cons.IH [of "seen @ [it y]"] by (auto split: if_splits)
qed simp

lemma firsts_distinct: "sorted_wrt (\<lambda>x y. \<not> strict_eq (it x) (it y)) (firsts seen (map (\<lambda>x. (it x, x)) xs))"
  by (induction xs arbitrary: seen) (auto dest: firsts_unseen)

lemma firsts_cover:
  "x \<in> set xs \<Longrightarrow> us_include seen (it x) \<or> x \<in> set (firsts seen (map (\<lambda>x. (it x, x)) xs)) \<or>
     (\<exists>y \<in> set (firsts seen (map (\<lambda>x. (it x, x)) xs)). strict_eq (it y) (it x))"
proof (induction xs arbitrary: seen)
  case (Cons z zs)
  show ?case
  proof (cases "x = z")
    case False
    then have "x \<in> set zs" using Cons.prems by simp
    then show ?thesis using Cons.IH [of "seen @ [it z]"] include_trans [of seen "it z" "it x"]
      by (auto split: if_splits)
  qed simp
qed simp

lemma zip_map_self: "zip (map it xs) xs = map (\<lambda>x. (it x, x)) xs"
  by (induction xs) auto

section \<open>Set operations\<close>

definition us_union :: "uval list list \<Rightarrow> uval list" where
  "us_union xss = us_uniq (concat xss) False (\<lambda>x. x)"

definition us_intersection :: "uval list \<Rightarrow> uval list list \<Rightarrow> uval list" where
  "us_intersection xs rest = filter (\<lambda>x. list_all (\<lambda>ys. position_of x ys 0 \<ge> 0) rest) (us_uniq xs False (\<lambda>x. x))"

definition us_difference :: "uval list \<Rightarrow> uval list list \<Rightarrow> uval list" where
  "us_difference xs rest = filter (\<lambda>x. \<not> us_include (concat rest) x) xs"

definition us_without :: "uval list \<Rightarrow> uval list \<Rightarrow> uval list" where
  "us_without xs ys = us_difference xs [ys]"

lemma position_include: "position_of x xs i \<ge> 0 \<longleftrightarrow> us_include xs x"
  by (induction xs arbitrary: i) auto

lemma include_mem: "us_include xs x \<longleftrightarrow> (\<exists>y \<in> set xs. strict_eq y x)"
  by (simp add: us_include_def list_ex_iff)

lemma include_concat: "us_include (concat xss) x \<longleftrightarrow> (\<exists>xs \<in> set xss. us_include xs x)"
  by (auto simp: include_mem)

lemma include_uniq: "us_include (us_uniq xs False (\<lambda>x. x)) x \<longleftrightarrow> us_include xs x"
proof -
  let ?fs = "firsts [] (map (\<lambda>x. (x, x)) xs)"
  have u: "us_uniq xs False (\<lambda>x. x) = ?fs" using uniq_firsts [of False "\<lambda>x. x" xs] zip_map_self [of "\<lambda>x. x" xs] by simp
  have "set ?fs \<subseteq> set xs" using firsts_subseq [of "[]" "map (\<lambda>x. (x, x)) xs"] by (auto simp: comp_def dest: list_emb_set)
  moreover have "us_include ?fs x" if "y \<in> set xs" "strict_eq y x" for y
    using firsts_cover [OF that(1), of "[]" "\<lambda>x. x"] that(2) strict_eq_trans by (auto simp: include_mem)
  ultimately show ?thesis unfolding u by (auto simp: include_mem)
qed

section \<open>Slices and progressions\<close>

text \<open>A position counts from the end when it is negative.\<close>

definition slice_at :: "int \<Rightarrow> nat \<Rightarrow> nat" where
  "slice_at i n = nat (if i < 0 then max (int n + i) 0 else min i (int n))"

definition js_slice :: "uval list \<Rightarrow> int \<Rightarrow> int \<Rightarrow> uval list" where
  "js_slice xs b e = drop (slice_at b (length xs)) (take (slice_at e (length xs)) xs)"

definition us_first :: "uval list \<Rightarrow> int \<Rightarrow> uval list" where
  "us_first xs n = js_slice xs 0 n"

definition us_initial :: "uval list \<Rightarrow> int \<Rightarrow> uval list" where
  "us_initial xs n = js_slice xs 0 (int (length xs) - n)"

definition us_last :: "uval list \<Rightarrow> int \<Rightarrow> uval list" where
  "us_last xs n = js_slice xs (max (int (length xs) - n) 0) (int (length xs))"

definition us_rest :: "uval list \<Rightarrow> int \<Rightarrow> uval list" where
  "us_rest xs n = js_slice xs n (int (length xs))"

lemma first_rest: "0 \<le> n \<Longrightarrow> us_first xs n @ us_rest xs n = xs"
  by (cases "n \<le> int (length xs)") (simp_all add: us_first_def us_rest_def js_slice_def slice_at_def)

lemma initial_last: "0 \<le> n \<Longrightarrow> n \<le> int (length xs) \<Longrightarrow> us_initial xs n @ us_last xs n = xs"
  by (simp add: us_initial_def us_last_def js_slice_def slice_at_def)

text \<open>The elements without the last \<open>n\<close> of an array that has fewer: not none, but some of the first.\<close>

lemma initial_too_many: "us_initial [U_null, U_undefined, U_bool True] 5 = [U_null]"
  by (simp add: us_initial_def js_slice_def slice_at_def)

lemma last_too_many: "int (length xs) \<le> n \<Longrightarrow> us_last xs n = xs"
  by (simp add: us_last_def js_slice_def slice_at_def)

primrec range_loop :: "nat \<Rightarrow> int \<Rightarrow> int \<Rightarrow> int list" where
  "range_loop 0 b step = []"
| "range_loop (Suc n) b step = b # range_loop n (b + step) step"

definition ceil_div :: "int \<Rightarrow> int \<Rightarrow> int" where
  "ceil_div a b = - ((- a) div b)"

text \<open>A step that is left out, or 0, is 1.\<close>

definition us_range :: "int \<Rightarrow> int \<Rightarrow> int \<Rightarrow> int list" where
  "us_range b stop step0 =
     (let step = (if step0 = 0 then 1 else step0) in range_loop (nat (max (ceil_div (stop - b) step) 0)) b step)"

lemma range_loop_nth: "length (range_loop n b step) = n" "i < n \<Longrightarrow> range_loop n b step ! i = b + int i * step"
  by (induction n arbitrary: b i) (auto simp: nth_Cons' algebra_simps of_nat_diff)

lemma div_below:
  assumes "0 < (s :: int)"
  shows "x div s < y \<longleftrightarrow> x < y * s"
proof
  have x: "x = s * (x div s) + x mod s" by simp
  assume "x div s < y"
  then have "s * (x div s) + s \<le> y * s" using mult_left_mono [of "x div s + 1" y s] assms by (simp add: algebra_simps)
  then show "x < y * s" using x pos_mod_bound [OF assms, of x] by linarith
next
  have x: "x = s * (x div s) + x mod s" by simp
  assume l: "x < y * s"
  show "x div s < y"
  proof (rule ccontr)
    assume "\<not> x div s < y"
    then have "y * s \<le> s * (x div s)" using mult_left_mono [of y "x div s" s] assms by (simp add: algebra_simps)
    then show False using l x pos_mod_sign [OF assms, of x] by linarith
  qed
qed

lemma below_ceil: "0 < step \<Longrightarrow> i < ceil_div d step \<longleftrightarrow> i * step < d"
  using div_below [of step "- d" "- i"] by (auto simp: ceil_div_def)

lemma ceil_div_flip: "ceil_div (- a) (- b) = ceil_div a b"
  by (simp add: ceil_div_def div_minus_right)

text \<open>The elements of a progression: those before the end, upwards or downwards.\<close>

lemma range_index:
  assumes "step \<noteq> 0" "0 \<le> k"
  shows "k < ceil_div (stop - b) step \<longleftrightarrow> (if 0 < step then b + k * step < stop else b + k * step > stop)"
proof (cases "0 < step")
  case False
  then show ?thesis using below_ceil [of "- step" k "b - stop"] ceil_div_flip [of "stop - b" step] assms(1) by auto
qed (auto simp: below_ceil)

section \<open>Nested arrays\<close>

datatype nested = Item uval | Nest "nested list"

fun us_flatten :: "nested \<Rightarrow> uval list" and us_flattens :: "nested list \<Rightarrow> uval list" where
  "us_flatten (Item x) = [x]"
| "us_flatten (Nest xs) = us_flattens xs"
| "us_flattens [] = []"
| "us_flattens (x # xs) = us_flatten x @ us_flattens xs"

fun flatten_step :: "nested \<Rightarrow> nested list" where
  "flatten_step (Item x) = [Item x]"
| "flatten_step (Nest xs) = xs"

definition flatten_shallow :: "nested list \<Rightarrow> nested list" where
  "flatten_shallow xs = foldl (\<lambda>memo x. memo @ flatten_step x) [] xs"

lemma flattens_append [simp]: "us_flattens (xs @ ys) = us_flattens xs @ us_flattens ys"
  by (induction xs) auto

lemma flatten_shallow_concat: "flatten_shallow xs = concat (map flatten_step xs)"
proof -
  have "foldl (\<lambda>memo x. memo @ flatten_step x) acc xs = acc @ concat (map flatten_step xs)" for acc
    by (induction xs arbitrary: acc) auto
  then show ?thesis by (simp add: flatten_shallow_def)
qed

text \<open>Taking away one level keeps the items in their order, and repeating it leaves only them.\<close>

fun depth :: "nested \<Rightarrow> nat" and depths :: "nested list \<Rightarrow> nat" where
  "depth (Item x) = 0"
| "depth (Nest xs) = Suc (depths xs)"
| "depths [] = 0"
| "depths (x # xs) = max (depth x) (depths xs)"

lemma flatten_step_items: "us_flattens (flatten_step x) = us_flatten x"
  by (cases x) auto

lemma flatten_shallow_items: "us_flattens (flatten_shallow xs) = us_flattens xs"
  by (induction xs) (auto simp: flatten_shallow_concat flatten_step_items)

lemma depths_append [simp]: "depths (xs @ ys) = max (depths xs) (depths ys)"
  by (induction xs) auto

lemma depth_step: "depths (flatten_step x) = depth x - 1"
  by (cases x) auto

lemma flatten_shallow_depth: "depths (flatten_shallow xs) = depths xs - 1"
  by (induction xs) (auto simp: flatten_shallow_concat depth_step)

lemma flat_items: "depths xs = 0 \<Longrightarrow> map Item (us_flattens xs) = xs"
proof (induction xs)
  case (Cons x xs)
  then show ?case by (cases x) auto
qed simp

lemma flatten_repeated: "depths xs \<le> n \<Longrightarrow> (flatten_shallow ^^ n) xs = map Item (us_flattens xs)"
proof (induction n arbitrary: xs)
  case (Suc n)
  then show ?case using flatten_shallow_depth [of xs] flatten_shallow_items [of xs] by (simp add: funpow_Suc_right del: funpow.simps)
qed (simp add: flat_items)

section \<open>Shuffling\<close>

text \<open>\<open>rand\<close> is the random index of each round, at most the index of the round.\<close>

definition shuffle_step :: "uval list \<Rightarrow> uval \<times> nat \<Rightarrow> uval list" where
  "shuffle_step sh xr = (case xr of (x, rand) \<Rightarrow> (sh @ [us_at sh (int rand)])[rand := x])"

definition us_shuffle :: "uval list \<Rightarrow> nat list \<Rightarrow> uval list" where
  "us_shuffle xs rands = foldl shuffle_step [] (zip xs rands)"

lemma shuffle_step_mset: "r \<le> length sh \<Longrightarrow> mset (shuffle_step sh (x, r)) = add_mset x (mset sh)"
proof (cases "r = length sh")
  case False
  assume "r \<le> length sh"
  then have r: "r < length sh" using False by simp
  then show ?thesis by (simp add: shuffle_step_def list_update_append mset_update)
qed (simp add: shuffle_step_def)

lemma shuffle_mset:
  "\<forall>i < length ps. snd (ps ! i) \<le> length sh + i \<Longrightarrow> mset (foldl shuffle_step sh ps) = mset sh + mset (map fst ps)"
proof (induction ps arbitrary: sh)
  case (Cons p ps)
  obtain x r where p: "p = (x, r)" by (cases p)
  have r: "r \<le> length sh" using Cons.prems p by force
  have "length (shuffle_step sh (x, r)) = Suc (length sh)" by (simp add: shuffle_step_def)
  then have "\<forall>i < length ps. snd (ps ! i) \<le> length (shuffle_step sh (x, r)) + i" using Cons.prems by force
  then show ?case using Cons.IH [of "shuffle_step sh (x, r)"] shuffle_step_mset [OF r] p by simp
qed simp

section \<open>Objects\<close>

text \<open>
  \<open>proto\<close>: the values that every plain object inherits, all functions or objects. Reading a property
  finds them, and so does the operator \<open>in\<close>.
\<close>

definition read_prop :: "(string \<Rightarrow> uval option) \<Rightarrow> (string \<times> uval) list \<Rightarrow> string \<Rightarrow> uval option" where
  "read_prop proto obj k = (case map_of obj k of Some v \<Rightarrow> Some v | None \<Rightarrow> proto k)"

definition is_nullish :: "uval option \<Rightarrow> bool" where
  "is_nullish v \<longleftrightarrow> v \<in> {None, Some U_undefined, Some U_null}"

definition default_prop :: "(string \<Rightarrow> uval option) \<Rightarrow> (string \<times> uval) list \<Rightarrow> string \<times> uval \<Rightarrow> (string \<times> uval) list" where
  "default_prop proto obj kv = (if is_nullish (read_prop proto obj (fst kv)) then obj_set (fst kv) (snd kv) obj else obj)"

definition us_defaults :: "(string \<Rightarrow> uval option) \<Rightarrow> (string \<times> uval) list \<Rightarrow> (string \<times> uval) list list \<Rightarrow> (string \<times> uval) list" where
  "us_defaults proto obj sources = foldl (foldl (default_prop proto)) obj sources"

definition us_pick :: "(string \<Rightarrow> uval option) \<Rightarrow> (string \<times> uval) list \<Rightarrow> string list \<Rightarrow> (string \<times> uval) list" where
  "us_pick proto obj ks =
     foldl (\<lambda>result k. case read_prop proto obj k of None \<Rightarrow> result | Some v \<Rightarrow> obj_set k v result) [] ks"

text \<open>\<open>None\<close>: the group found is an inherited function, which has no \<open>push\<close>.\<close>

definition group_step :: "(string \<Rightarrow> uval option) \<Rightarrow> (uval \<Rightarrow> string) \<Rightarrow> (string \<times> uval list) list option \<Rightarrow> uval \<Rightarrow>
    (string \<times> uval list) list option" where
  "group_step proto it result x = (case result of None \<Rightarrow> None
     | Some groups \<Rightarrow> (case map_of groups (it x) of
          Some g \<Rightarrow> Some (obj_set (it x) (g @ [x]) groups)
        | None \<Rightarrow> if proto (it x) = None then Some (obj_set (it x) [x] groups) else None))"

definition us_groupBy :: "(string \<Rightarrow> uval option) \<Rightarrow> (uval \<Rightarrow> string) \<Rightarrow> uval list \<Rightarrow> (string \<times> uval list) list option" where
  "us_groupBy proto it xs = foldl (group_step proto it) (Some []) xs"

lemma group_failed: "foldl (group_step proto it) None xs = None"
  by (induction xs) (simp_all add: group_step_def)

lemma groupBy_snoc: "us_groupBy proto it (xs @ [x]) = group_step proto it (us_groupBy proto it xs) x"
  by (simp add: us_groupBy_def)

lemma us_groupBy_groups:
  "\<forall>x \<in> set xs. proto (it x) = None \<Longrightarrow>
   \<exists>g. us_groupBy proto it xs = Some g \<and>
     (\<forall>k. map_of g k = (if k \<in> it ` set xs then Some (filter (\<lambda>x. it x = k) xs) else None))"
proof (induction xs rule: rev_induct)
  case Nil
  then show ?case by (simp add: us_groupBy_def)
next
  case (snoc y ys)
  then obtain g where g: "us_groupBy proto it ys = Some g"
    "\<forall>k. map_of g k = (if k \<in> it ` set ys then Some (filter (\<lambda>x. it x = k) ys) else None)" by auto
  show ?case
  proof (cases "it y \<in> it ` set ys")
    case True
    then show ?thesis using g snoc.prems by (auto simp: groupBy_snoc group_step_def)
  next
    case False
    then have "filter (\<lambda>x. it x = it y) ys = []" by (metis (mono_tags) filter_False imageI)
    then show ?thesis using g snoc.prems False by (auto simp: groupBy_snoc group_step_def)
  qed
qed

lemma us_groupBy_inherited: "\<exists>x \<in> set xs. proto (it x) \<noteq> None \<Longrightarrow> us_groupBy proto it xs = None"
proof (induction xs rule: rev_induct)
  case (snoc y ys)
  show ?case
  proof (cases "\<exists>x \<in> set ys. proto (it x) \<noteq> None")
    case True
    then show ?thesis using snoc.IH by (simp add: groupBy_snoc group_step_def)
  next
    case False
    then obtain g where g: "us_groupBy proto it ys = Some g"
      "\<forall>k. map_of g k = (if k \<in> it ` set ys then Some (filter (\<lambda>x. it x = k) ys) else None)"
      using us_groupBy_groups [of ys proto it] by auto
    have "proto (it y) \<noteq> None" using snoc.prems False by simp
    moreover from this have "it y \<notin> it ` set ys" using False by (metis imageE)
    ultimately show ?thesis using g by (auto simp: groupBy_snoc group_step_def)
  qed
qed simp

text \<open>What a reader sees of a property when \<open>null\<close> and \<open>undefined\<close> count as missing.\<close>

definition seen_prop :: "(string \<Rightarrow> uval option) \<Rightarrow> (string \<times> uval) list \<Rightarrow> string \<Rightarrow> uval option" where
  "seen_prop proto obj k = (let v = read_prop proto obj k in if is_nullish v then None else v)"

definition own_seen :: "(string \<times> uval) list \<Rightarrow> string \<Rightarrow> uval option" where
  "own_seen obj k = (if is_nullish (map_of obj k) then None else map_of obj k)"

fun first_some :: "'a option list \<Rightarrow> 'a option" where
  "first_some [] = None"
| "first_some (None # xs) = first_some xs"
| "first_some (Some x # xs) = Some x"

lemma first_some_Cons: "first_some (x # xs) = (case x of None \<Rightarrow> first_some xs | Some y \<Rightarrow> Some y)"
  by (cases x) auto

lemma default_prop_seen:
  "seen_prop proto (default_prop proto obj (k', v)) k =
     (if k = k' \<and> seen_prop proto obj k = None then (if is_nullish (Some v) then None else Some v) else seen_prop proto obj k)"
  by (cases "read_prop proto obj k") (auto simp: seen_prop_def default_prop_def read_prop_def Let_def is_nullish_def split: option.splits)

lemma defaults_one_seen:
  "distinct (map fst src) \<Longrightarrow> seen_prop proto (foldl (default_prop proto) obj src) k =
     (case seen_prop proto obj k of None \<Rightarrow> own_seen src k | Some v \<Rightarrow> Some v)"
proof (induction src arbitrary: obj)
  case (Cons p src)
  obtain k' v where p: "p = (k', v)" by (cases p)
  have "k = k' \<Longrightarrow> own_seen src k = None" using Cons.prems p
    by (auto simp: own_seen_def is_nullish_def map_of_eq_None_iff)
  then show ?case using Cons p by (auto simp: default_prop_seen own_seen_def split: option.splits)
qed (auto simp: own_seen_def is_nullish_def split: option.splits)

lemma defaults_seen:
  "\<forall>src \<in> set srcs. distinct (map fst src) \<Longrightarrow> seen_prop proto (us_defaults proto obj srcs) k =
     first_some (seen_prop proto obj k # map (\<lambda>src. own_seen src k) srcs)"
proof (induction srcs arbitrary: obj)
  case (Cons src srcs)
  then show ?case
    by (simp add: us_defaults_def defaults_one_seen first_some_Cons split: option.splits)
qed (simp add: us_defaults_def first_some_Cons split: option.splits)

lemma pick_read: "map_of (us_pick proto obj ks) k = (if k \<in> set ks then read_prop proto obj k else None)"
proof (induction ks rule: rev_induct)
  case (snoc k' ks)
  then show ?case by (auto simp: us_pick_def split: option.splits)
qed (simp add: us_pick_def)

section \<open>The properties\<close>

text \<open>
  the binary search ends on every array of at most 2^30 elements, and returns the place that
  separates the elements below the given one from the others, when the array is ordered that way.
\<close>

theorem sortedIndex_separates:
  assumes "length xs \<le> 2 ^ 30"
    and "\<forall>j < length xs. lt (it (xs ! j)) (it x) \<longrightarrow> (\<forall>i < j. lt (it (xs ! i)) (it x))"
  shows "\<exists>r \<le> length xs. us_sortedIndex lt it xs x = Some (int r) \<and>
    (\<forall>i < length xs. lt (it (xs ! i)) (it x) \<longleftrightarrow> i < r)"
proof -
  let ?below = "\<lambda>i. lt (it (us_at xs i)) (it x)"
  have "\<forall>i j. 0 \<le> i \<longrightarrow> i < j \<longrightarrow> j < int (length xs) \<longrightarrow> ?below j \<longrightarrow> ?below i"
  proof (intro allI impI)
    fix i j assume "0 \<le> i" "i < j" "j < int (length xs)" "?below j"
    then show "?below i" using assms(2) [rule_format, of "nat j" "nat i"] by (simp add: us_at_def)
  qed
  moreover have "int (length xs) \<le> 2 ^ 30" using assms(1) by simp
  ultimately obtain r where r: "us_bisect ?below 0 (int (length xs)) = Some r" "0 \<le> r" "r \<le> int (length xs)"
    "\<forall>i. 0 \<le> i \<longrightarrow> i < r \<longrightarrow> ?below i" "\<forall>i. r \<le> i \<longrightarrow> i < int (length xs) \<longrightarrow> \<not> ?below i"
    using us_bisect_spec [of 0 "int (length xs)" ?below] by auto
  have "lt (it (xs ! i)) (it x) \<longleftrightarrow> i < nat r" if "i < length xs" for i
    using r(2,3) r(4,5) [rule_format, of "int i"] that by (cases "i < nat r") auto
  then show ?thesis using r(1-3) by (intro exI [of _ "nat r"]) (auto simp: us_sortedIndex_def)
qed

definition some_numbers :: "uval list" where
  "some_numbers = map (\<lambda>i. U_num (Whole i)) [1, 3, 3, 8]"

theorem sortedIndex_separates_witness:
  "\<exists>r \<le> length some_numbers. us_sortedIndex value_less (\<lambda>y. y) some_numbers (U_num (Whole 3)) = Some (int r) \<and>
    (\<forall>i < length some_numbers. value_less (some_numbers ! i) (U_num (Whole 3)) \<longleftrightarrow> i < r)"
  by (rule sortedIndex_separates [of some_numbers value_less "\<lambda>y. y" "U_num (Whole 3)"])
    (auto simp: some_numbers_def All_less_Suc nth_Cons')

text \<open>
  the flag for sorted arrays does not change what \<open>indexOf\<close> returns on an ascending array of numbers,
  whatever number is looked for.
\<close>

theorem indexOf_flag_agrees:
  assumes "ascending ns" "length ns \<le> 2 ^ 30"
  shows "us_indexOf value_less (map U_num ns) (U_num n) True = us_indexOf value_less (map U_num ns) (U_num n) False"
  by (rule indexOf_numbers [OF assms])

theorem indexOf_flag_agrees_witness:
  "us_indexOf value_less (map U_num [Infinite False, Whole 2, Whole 2]) (U_num (Whole 2)) True = Some 1"
  using indexOf_flag_agrees [of "[Infinite False, Whole 2, Whole 2]" "Whole 2"]
  by (simp add: ascending_def us_indexOf_def num_eq_def is_zero_def)

text \<open>
  with the flag for sorted arrays or without it, \<open>uniq\<close> keeps a subsequence in which no two elements
  have the same criterion, and for each element left out one that has its criterion; the flag needs
  equal criteria to stand together.
\<close>

theorem uniq_keeps_first:
  assumes "isSorted \<Longrightarrow> grouped (map it xs)"
  shows "subseq (us_uniq xs isSorted it) xs \<and>
    sorted_wrt (\<lambda>x y. \<not> strict_eq (it x) (it y)) (us_uniq xs isSorted it) \<and>
    (\<forall>x \<in> set xs. x \<in> set (us_uniq xs isSorted it) \<or> (\<exists>y \<in> set (us_uniq xs isSorted it). strict_eq (it y) (it x)))"
proof -
  have u: "us_uniq xs isSorted it = firsts [] (map (\<lambda>x. (it x, x)) xs)"
    using uniq_firsts [OF assms] by (simp only: zip_map_self)
  show ?thesis using firsts_subseq [of "[]" "map (\<lambda>x. (it x, x)) xs"] firsts_distinct [of it "[]" xs] firsts_cover [of _ xs "[]" it]
    by (simp add: u comp_def)
qed

theorem uniq_keeps_first_witness: "sorted_wrt (\<lambda>x y. \<not> strict_eq x y) (us_uniq some_numbers True (\<lambda>x. x))"
proof -
  have "grouped (map (\<lambda>x. x) some_numbers)"
    by (auto simp: grouped_def some_numbers_def num_eq_def is_zero_def nth_Cons' split: if_splits)
  then show ?thesis using uniq_keeps_first [of True "\<lambda>x. x" some_numbers] by simp
qed

text \<open>
  the set operations of arrays are those of sets, for the operator \<open>===\<close>: an element is in the union
  when it is in one of the arrays, in the intersection when it is in all of them, and in the
  difference when it is in the first only.
\<close>

theorem array_sets:
  "(us_include (us_union xss) x \<longleftrightarrow> (\<exists>xs \<in> set xss. us_include xs x)) \<and>
   (us_include (us_intersection xs xss) x \<longleftrightarrow> us_include xs x \<and> (\<forall>ys \<in> set xss. us_include ys x)) \<and>
   (us_include (us_difference xs xss) x \<longleftrightarrow> us_include xs x \<and> (\<forall>ys \<in> set xss. \<not> us_include ys x))"
proof (intro conjI)
  show "us_include (us_union xss) x \<longleftrightarrow> (\<exists>xs \<in> set xss. us_include xs x)"
    by (simp add: us_union_def include_uniq include_concat)
  have same: "us_include ys y = us_include ys z" if "strict_eq y z" for ys y z
    using that include_trans strict_eq_sym by blast
  have filt: "us_include (filter P ys) x \<longleftrightarrow> us_include ys x \<and> P x" if "\<And>y. strict_eq y x \<Longrightarrow> P y = P x" for P ys
    using that by (auto simp: include_mem)
  show "us_include (us_intersection xs xss) x \<longleftrightarrow> us_include xs x \<and> (\<forall>ys \<in> set xss. us_include ys x)"
    unfolding us_intersection_def by (subst filt) (auto simp: position_include include_uniq list_all_iff dest: same)
  show "us_include (us_difference xs xss) x \<longleftrightarrow> us_include xs x \<and> (\<forall>ys \<in> set xss. \<not> us_include ys x)"
    unfolding us_difference_def by (subst filt) (auto simp: include_concat dest: same)
qed

text \<open>
  \<open>range\<close> gives the numbers of the progression that lie before its end, upwards or downwards, and no
  others.
\<close>

theorem range_progression:
  assumes "step \<noteq> 0"
  shows "x \<in> set (us_range b stop step) \<longleftrightarrow>
    (\<exists>k \<ge> 0. x = b + k * step \<and> (if 0 < step then x < stop else x > stop))"
proof
  let ?n = "nat (max (ceil_div (stop - b) step) 0)"
  assume "x \<in> set (us_range b stop step)"
  then obtain i where "i < ?n" "x = b + int i * step"
    using assms range_loop_nth(1) [of ?n b step] range_loop_nth(2) [of _ ?n b step] by (force simp: us_range_def Let_def in_set_conv_nth)
  then show "\<exists>k \<ge> 0. x = b + k * step \<and> (if 0 < step then x < stop else x > stop)"
    using range_index [OF assms, of "int i" stop b] by (intro exI [of _ "int i"]) auto
next
  let ?n = "nat (max (ceil_div (stop - b) step) 0)"
  assume "\<exists>k \<ge> 0. x = b + k * step \<and> (if 0 < step then x < stop else x > stop)"
  then obtain k where k: "0 \<le> k" "x = b + k * step" "if 0 < step then x < stop else x > stop" by blast
  then have "nat k < ?n" using range_index [OF assms, of k stop b] by auto
  then show "x \<in> set (us_range b stop step)" using assms k(1,2) range_loop_nth(1) [of ?n b step] range_loop_nth(2) [of "nat k" ?n b step]
    by (auto simp: us_range_def in_set_conv_nth intro!: exI [of _ "nat k"])
qed

theorem range_progression_witness: "4 \<in> set (us_range 10 3 (-2))"
  using range_progression [of "-2" 4 10 3] by (auto intro: exI [of _ 3])

text \<open>
  \<open>shuffle\<close> returns the elements it was given, each as often, whatever the random numbers.
\<close>

theorem shuffle_permutes:
  assumes "length rands = length xs" "\<forall>i < length xs. rands ! i \<le> i"
  shows "mset (us_shuffle xs rands) = mset xs"
  using shuffle_mset [of "zip xs rands" "[]"] assms by (simp add: us_shuffle_def)

theorem shuffle_permutes_witness: "mset (us_shuffle some_numbers [0, 0, 2, 1]) = mset some_numbers"
  by (rule shuffle_permutes) (auto simp: some_numbers_def All_less_Suc nth_Cons')

text \<open>
  \<open>groupBy\<close> files each element under its criterion in the order of the array; it fails when one of the
  criteria is the name of a property that every object inherits.
\<close>

theorem groupBy_files:
  "(case us_groupBy proto it xs of
      None \<Rightarrow> \<exists>x \<in> set xs. proto (it x) \<noteq> None
    | Some g \<Rightarrow> (\<forall>x \<in> set xs. proto (it x) = None) \<and>
        map_of g = (\<lambda>k. if k \<in> it ` set xs then Some (filter (\<lambda>x. it x = k) xs) else None))"
proof (cases "\<exists>x \<in> set xs. proto (it x) \<noteq> None")
  case True
  then show ?thesis using us_groupBy_inherited [of xs proto it] by simp
next
  case False
  then obtain g where "us_groupBy proto it xs = Some g"
    "\<forall>k. map_of g k = (if k \<in> it ` set xs then Some (filter (\<lambda>x. it x = k) xs) else None)"
    using us_groupBy_groups [of xs proto it] by auto
  then show ?thesis using False by (auto simp: fun_eq_iff)
qed

definition kind_of :: "uval \<Rightarrow> string" where
  "kind_of x = (case x of U_num n \<Rightarrow> ''number'' | U_str s \<Rightarrow> s | _ \<Rightarrow> ''other'')"

theorem groupBy_files_witness:
  "us_groupBy [''constructor'' \<mapsto> U_ref 0] kind_of [U_str ''constructor'', U_null] = None"
  using groupBy_files [where proto = "[''constructor'' \<mapsto> U_ref 0]" and it = kind_of and xs = "[U_str ''constructor'', U_null]"]
  by (auto simp: kind_of_def split: option.splits)

end
