(* ===== verification/Underscore_Timing.thy ===== *)
theory Underscore_Timing
  imports Js_Prelude
begin

text \<open>
  The functions of \<open>underscore.js\<close> that make functions with a memory: \<open>throttle\<close> and \<open>debounce\<close> with
  their timers, as machines that calls and timers drive, and \<open>once\<close>, \<open>after\<close>, \<open>memoize\<close> and \<open>compose\<close>.
  Time is counted in milliseconds. A timer fires when it is due or later, and of two that are due the
  earlier one first; the wrapped function does not call its wrapper.
\<close>

section \<open>Debounce\<close>

text \<open>
  \<open>db_timer\<close>: when the timer is due; \<open>db_args\<close>: the arguments its function has. \<open>db_runs\<close>: when the
  wrapped function ran and on what; \<open>db_called\<close>: the last call.
\<close>

record 'a debounced =
  db_now :: nat
  db_timer :: "nat option"
  db_args :: "'a option"
  db_runs :: "(nat \<times> 'a) list"
  db_called :: "nat option"

datatype 'a call_event = Call 'a | Timer_fires | Tick

definition db_call :: "nat \<Rightarrow> bool \<Rightarrow> 'a \<Rightarrow> 'a debounced \<Rightarrow> 'a debounced" where
  "db_call wait immediate a s =
     (let s1 = (if immediate \<and> db_timer s = None then s\<lparr>db_runs := db_runs s @ [(db_now s, a)]\<rparr> else s) in
      s1\<lparr>db_timer := Some (db_now s + wait), db_args := Some a, db_called := Some (db_now s)\<rparr>)"

definition db_later :: "bool \<Rightarrow> 'a debounced \<Rightarrow> 'a debounced" where
  "db_later immediate s =
     (let s1 = s\<lparr>db_timer := None\<rparr> in
      case db_args s of Some a \<Rightarrow> if immediate then s1 else s1\<lparr>db_runs := db_runs s @ [(db_now s, a)]\<rparr> | None \<Rightarrow> s1)"

definition db_init :: "'a debounced \<Rightarrow> bool" where
  "db_init s \<longleftrightarrow> db_timer s = None \<and> db_args s = None \<and> db_runs s = [] \<and> db_called s = None"

definition db_enabled :: "'a call_event \<Rightarrow> 'a debounced \<Rightarrow> bool" where
  "db_enabled e s = (case e of Timer_fires \<Rightarrow> (case db_timer s of Some d \<Rightarrow> d \<le> db_now s | None \<Rightarrow> False) | _ \<Rightarrow> True)"

definition db_step :: "nat \<Rightarrow> bool \<Rightarrow> 'a call_event \<Rightarrow> 'a debounced \<Rightarrow> 'a debounced" where
  "db_step wait immediate e s = (case e of
     Call a \<Rightarrow> db_call wait immediate a s
   | Timer_fires \<Rightarrow> db_later immediate s
   | Tick \<Rightarrow> s\<lparr>db_now := Suc (db_now s)\<rparr>)"

section \<open>Throttle\<close>

text \<open>
  \<open>th_timeout\<close> and \<open>th_done\<close>: when \<open>later\<close> and the function of \<open>whenDone\<close> are due, which is \<open>debounce\<close>
  on a function that only resets the flags. \<open>th_args\<close>: the arguments of the last call.
\<close>

record 'a throttled =
  th_now :: nat
  th_timeout :: "nat option"
  th_done :: "nat option"
  th_throttling :: bool
  th_more :: bool
  th_args :: "'a option"
  th_runs :: "(nat \<times> 'a) list"

datatype 'a throttle_event = T_call 'a | T_later | T_done | T_tick

definition when_done :: "nat \<Rightarrow> 'a throttled \<Rightarrow> 'a throttled" where
  "when_done wait s = s\<lparr>th_done := Some (th_now s + wait)\<rparr>"

definition th_run :: "'a throttled \<Rightarrow> 'a throttled" where
  "th_run s = (case th_args s of Some a \<Rightarrow> s\<lparr>th_runs := th_runs s @ [(th_now s, a)]\<rparr> | None \<Rightarrow> s)"

definition th_call :: "nat \<Rightarrow> 'a \<Rightarrow> 'a throttled \<Rightarrow> 'a throttled" where
  "th_call wait a s =
     (let s1 = s\<lparr>th_args := Some a\<rparr>;
          s2 = (if th_timeout s1 = None then s1\<lparr>th_timeout := Some (th_now s + wait)\<rparr> else s1);
          s3 = (if th_throttling s2 then s2\<lparr>th_more := True\<rparr> else th_run s2) in
      (when_done wait s3)\<lparr>th_throttling := True\<rparr>)"

definition th_later :: "nat \<Rightarrow> 'a throttled \<Rightarrow> 'a throttled" where
  "th_later wait s =
     (let s1 = s\<lparr>th_timeout := None\<rparr>; s2 = (if th_more s1 then th_run s1 else s1) in when_done wait s2)"

definition th_settle :: "'a throttled \<Rightarrow> 'a throttled" where
  "th_settle s = s\<lparr>th_done := None, th_more := False, th_throttling := False\<rparr>"

definition th_init :: "'a throttled \<Rightarrow> bool" where
  "th_init s \<longleftrightarrow> th_timeout s = None \<and> th_done s = None \<and> \<not> th_throttling s \<and> \<not> th_more s \<and> th_args s = None \<and> th_runs s = []"

definition th_enabled :: "'a throttle_event \<Rightarrow> 'a throttled \<Rightarrow> bool" where
  "th_enabled e s = (case e of
     T_later \<Rightarrow> (case th_timeout s of Some l \<Rightarrow> l \<le> th_now s | None \<Rightarrow> False)
   | T_done \<Rightarrow> (case th_done s of Some d \<Rightarrow> d \<le> th_now s \<and> (case th_timeout s of Some l \<Rightarrow> d < l | None \<Rightarrow> True) | None \<Rightarrow> False)
   | _ \<Rightarrow> True)"

definition th_step :: "nat \<Rightarrow> 'a throttle_event \<Rightarrow> 'a throttled \<Rightarrow> 'a throttled" where
  "th_step wait e s = (case e of
     T_call a \<Rightarrow> th_call wait a s
   | T_later \<Rightarrow> th_later wait s
   | T_done \<Rightarrow> th_settle s
   | T_tick \<Rightarrow> s\<lparr>th_now := Suc (th_now s)\<rparr>)"

section \<open>Runs that are apart\<close>

definition apart :: "nat \<Rightarrow> (nat \<times> 'a) list \<Rightarrow> bool" where
  "apart wait runs \<longleftrightarrow> sorted_wrt (\<lambda>r r'. fst r + wait \<le> fst r') runs"

definition all_by :: "nat \<Rightarrow> nat \<Rightarrow> (nat \<times> 'a) list \<Rightarrow> bool" where
  "all_by wait t runs \<longleftrightarrow> (\<forall>r \<in> set runs. fst r + wait \<le> t)"

lemma apart_snoc [simp]: "apart wait (runs @ [(t, a)]) \<longleftrightarrow> apart wait runs \<and> all_by wait t runs"
  by (auto simp: apart_def all_by_def sorted_wrt_append)

lemma apart_Nil [simp]: "apart wait []"
  by (simp add: apart_def)

lemma all_by_Nil [simp]: "all_by wait t []"
  by (simp add: all_by_def)

lemma all_by_snoc [simp]: "all_by wait t (runs @ [(t', a)]) \<longleftrightarrow> all_by wait t runs \<and> t' + wait \<le> t"
  by (auto simp: all_by_def)

lemma all_by_mono: "all_by wait t runs \<Longrightarrow> t \<le> t' \<Longrightarrow> all_by wait t' runs"
  by (fastforce simp: all_by_def)

lemma all_by_window [simp]: "all_by wait (t + wait) runs \<longleftrightarrow> all_by 0 t runs"
  by (simp add: all_by_def)

lemma all_by_past: "all_by wait t runs \<Longrightarrow> t \<le> t' \<Longrightarrow> all_by 0 t' runs"
  by (fastforce simp: all_by_def)

section \<open>Invariants\<close>

text \<open>
  A pending \<open>later\<close> comes with a pending reset that is due after it, and both are a whole window after
  the last run; without a timer the last run is a window ago. A call whose arguments the function has
  not run on yet waits for \<open>later\<close>.
\<close>

definition th_inv :: "nat \<Rightarrow> 'a throttled \<Rightarrow> bool" where
  "th_inv wait s \<longleftrightarrow> apart wait (th_runs s) \<and> all_by 0 (th_now s) (th_runs s) \<and>
     (case th_done s of
        None \<Rightarrow> th_timeout s = None \<and> \<not> th_throttling s \<and> \<not> th_more s \<and> all_by wait (th_now s) (th_runs s)
      | Some d \<Rightarrow> th_throttling s \<and> all_by wait d (th_runs s) \<and>
          (case th_timeout s of None \<Rightarrow> True | Some l \<Rightarrow> l \<le> d \<and> l \<le> th_now s + wait \<and> all_by wait l (th_runs s))) \<and>
     (th_args s = None \<longrightarrow> \<not> th_more s) \<and>
     (case th_args s of None \<Rightarrow> True
      | Some a \<Rightarrow> th_runs s \<noteq> [] \<and> snd (last (th_runs s)) = a \<or> th_timeout s \<noteq> None \<and> th_more s)"

lemma th_inv_step: "th_inv wait s \<Longrightarrow> th_enabled e s \<Longrightarrow> th_inv wait (th_step wait e s)"
proof (cases e)
  case (T_call a)
  assume "th_inv wait s"
  then show ?thesis unfolding T_call
    by (auto simp: th_inv_def th_step_def th_call_def when_done_def th_run_def Let_def
        elim: all_by_mono split: option.splits)
next
  case T_later
  assume "th_inv wait s" "th_enabled e s"
  then show ?thesis unfolding T_later
    by (auto simp: th_inv_def th_enabled_def th_step_def th_later_def when_done_def th_run_def Let_def
        elim: all_by_mono split: option.splits)
next
  case T_done
  assume "th_inv wait s" "th_enabled e s"
  then show ?thesis unfolding T_done
    by (auto simp: th_inv_def th_enabled_def th_step_def th_settle_def elim: all_by_mono split: option.splits)
next
  case T_tick
  assume "th_inv wait s"
  then show ?thesis unfolding T_tick
    by (auto simp: th_inv_def th_step_def elim: all_by_mono split: option.splits)
qed

interpretation throttle_machine: machine th_init th_enabled "th_step wait" "th_inv wait" for wait
  by unfold_locales (simp add: th_init_def th_inv_def, rule th_inv_step)

text \<open>
  A pending timer is due one window after the last call, and everything that ran did so a window before;
  the function that waits for the end has run on the last arguments once no timer is pending.
\<close>

definition db_inv :: "nat \<Rightarrow> bool \<Rightarrow> 'a debounced \<Rightarrow> bool" where
  "db_inv wait immediate s \<longleftrightarrow> apart wait (db_runs s) \<and> all_by 0 (db_now s) (db_runs s) \<and>
     (case db_timer s of
        None \<Rightarrow> immediate \<longrightarrow> all_by wait (db_now s) (db_runs s)
      | Some d \<Rightarrow> d \<le> db_now s + wait \<and> all_by wait d (db_runs s) \<and> db_args s \<noteq> None \<and>
          (\<exists>c. db_called s = Some c \<and> d = c + wait)) \<and>
     (\<not> immediate \<longrightarrow> db_timer s = None \<longrightarrow> (case db_args s of None \<Rightarrow> True
        | Some a \<Rightarrow> db_runs s \<noteq> [] \<and> snd (last (db_runs s)) = a))"

lemma db_inv_step: "db_inv wait immediate s \<Longrightarrow> db_enabled e s \<Longrightarrow> db_inv wait immediate (db_step wait immediate e s)"
proof (cases e)
  case (Call a)
  assume "db_inv wait immediate s"
  then show ?thesis unfolding Call
    by (auto simp: db_inv_def db_step_def db_call_def Let_def elim: all_by_mono split: option.splits)
next
  case Timer_fires
  assume "db_inv wait immediate s" "db_enabled e s"
  then show ?thesis unfolding Timer_fires
    by (auto simp: db_inv_def db_enabled_def db_step_def db_later_def Let_def elim: all_by_mono split: option.splits)
next
  case Tick
  assume "db_inv wait immediate s"
  then show ?thesis unfolding Tick
    by (auto simp: db_inv_def db_step_def elim: all_by_mono split: option.splits)
qed

interpretation debounce_machine: machine db_init db_enabled "db_step wait immediate" "db_inv wait immediate" for wait immediate
  by unfold_locales (simp add: db_init_def db_inv_def, rule db_inv_step)

section \<open>Functions with a memory\<close>

text \<open>
  The results of a sequence of calls; a state goes from each to the next. \<open>after\<close> is the function it
  returns for a positive count.
\<close>

fun results :: "('a \<Rightarrow> 's \<Rightarrow> 'r \<times> 's) \<Rightarrow> 'a list \<Rightarrow> 's \<Rightarrow> 'r list" where
  "results call [] s = []"
| "results call (a # as) s = (case call a s of (r, s') \<Rightarrow> r # results call as s')"

definition once_call :: "('a \<Rightarrow> 'b) \<Rightarrow> 'a \<Rightarrow> bool \<times> 'b option \<Rightarrow> 'b option \<times> (bool \<times> 'b option)" where
  "once_call f a s = (if fst s then (snd s, s) else (Some (f a), (True, Some (f a))))"

definition after_call :: "('a \<Rightarrow> 'b) \<Rightarrow> 'a \<Rightarrow> int \<Rightarrow> 'b option \<times> int" where
  "after_call f a left = (let t = left - 1 in (if t < 1 then Some (f a) else None, t))"

definition memo_call :: "('a \<Rightarrow> 'b) \<Rightarrow> ('a \<Rightarrow> string) \<Rightarrow> 'a \<Rightarrow> (string \<times> 'b) list \<Rightarrow> 'b \<times> (string \<times> 'b) list" where
  "memo_call f hasher a memo =
     (case map_of memo (hasher a) of Some v \<Rightarrow> (v, memo) | None \<Rightarrow> (f a, obj_set (hasher a) (f a) memo))"

definition us_compose :: "('a \<Rightarrow> 'a) list \<Rightarrow> 'a \<Rightarrow> 'a" where
  "us_compose fs a = foldl (\<lambda>x f. f x) a (rev fs)"

lemma us_compose_foldr: "us_compose fs a = foldr (\<lambda>f g. f \<circ> g) fs id a"
  by (induction fs) (simp_all add: us_compose_def foldl_conv_foldr)

lemma once_after_first: "results (once_call f) as (True, v) = map (\<lambda>a. v) as"
  by (induction as) (auto simp: once_call_def)

lemma memo_results:
  assumes "\<forall>a a'. hasher a = hasher a' \<longrightarrow> f a = f a'"
  shows "\<forall>k v. map_of memo k = Some v \<longrightarrow> (\<exists>a. hasher a = k \<and> f a = v) \<Longrightarrow> results (memo_call f hasher) as memo = map f as"
proof (induction as arbitrary: memo)
  case (Cons a as)
  show ?case
  proof (cases "map_of memo (hasher a)")
    case None
    have "\<forall>k v. map_of (obj_set (hasher a) (f a) memo) k = Some v \<longrightarrow> (\<exists>a. hasher a = k \<and> f a = v)"
      using Cons.prems by auto
    then show ?thesis using Cons.IH None by (simp add: memo_call_def)
  next
    case (Some v)
    then have "v = f a" using Cons.prems assms by metis
    then show ?thesis using Cons Some by (simp add: memo_call_def)
  qed
qed simp

section \<open>The properties\<close>

text \<open>
  whatever is called and whenever the timers fire, two runs of a throttled function are at least the
  given time apart; and no call is lost: when no timer is pending the function has run on the arguments
  of the last call.
\<close>

theorem throttle_spaced:
  assumes "reachable th_init th_enabled (th_step wait) s"
  shows "sorted_wrt (\<lambda>r r'. fst r + wait \<le> fst r') (th_runs s) \<and>
    (\<forall>a. th_timeout s = None \<and> th_args s = Some a \<longrightarrow> th_runs s \<noteq> [] \<and> snd (last (th_runs s)) = a)"
  using throttle_machine.reachable_inv [OF assms] by (auto simp: th_inv_def apart_def split: option.splits)

definition burst :: "nat throttle_event list" where
  "burst = [T_call 1, T_tick, T_call 2, T_tick, T_call 3, T_tick, T_later]"

definition th_start :: "nat throttled" where
  "th_start = \<lparr>th_now = 0, th_timeout = None, th_done = None, th_throttling = False, th_more = False, th_args = None, th_runs = []\<rparr>"

lemma burst_runs: "th_runs (fold (th_step 3) burst th_start) = [(0, 1), (3, 3)]"
  by (simp add: burst_def th_start_def th_step_def th_call_def th_later_def th_run_def when_done_def Let_def)

lemma burst_enabled: "all_enabled th_enabled (th_step 3) burst th_start"
  by (simp add: burst_def th_start_def th_step_def th_call_def th_later_def th_run_def when_done_def th_enabled_def Let_def)

theorem throttle_spaced_witness:
  "th_runs (fold (th_step 3) burst th_start) = [(0, 1), (3, 3)] \<and>
   sorted_wrt (\<lambda>r r'. fst r + 3 \<le> fst r') (th_runs (fold (th_step 3) burst th_start))"
proof -
  have "reachable th_init th_enabled (th_step 3) (fold (th_step 3) burst th_start)"
    by (rule throttle_machine.run_reachable [OF _ burst_enabled]) (auto simp: th_init_def th_start_def intro: reach_init)
  from throttle_spaced [OF this] show ?thesis using burst_runs by blast
qed

text \<open>
  A call on its own keeps the next one waiting although a whole window has passed: the timer restarts
  the reset when nothing was to be run.
\<close>

lemma throttle_late_second:
  "th_runs (fold (th_step 2) [T_call (1 :: nat), T_tick, T_tick, T_later, T_tick, T_call 2] th_start) = [(0, 1)]"
  by (simp add: th_start_def th_step_def th_call_def th_later_def th_run_def when_done_def Let_def)

text \<open>
  a debounced function runs only when the calls have stopped for the given time, on the arguments of
  the last call, or at once on the first call of a burst; its runs are that time apart.
\<close>

theorem debounce_spaced:
  assumes "reachable db_init db_enabled (db_step wait immediate) s"
  shows "sorted_wrt (\<lambda>r r'. fst r + wait \<le> fst r') (db_runs s) \<and>
    (\<not> immediate \<and> db_enabled Timer_fires s \<longrightarrow> (\<exists>a c. db_args s = Some a \<and> db_called s = Some c \<and> c + wait \<le> db_now s \<and>
       db_runs (db_step wait immediate Timer_fires s) = db_runs s @ [(db_now s, a)]))"
  using debounce_machine.reachable_inv [OF assms]
  by (auto simp: db_inv_def apart_def db_enabled_def db_step_def db_later_def Let_def split: option.splits)

definition db_start :: "nat debounced" where
  "db_start = \<lparr>db_now = 0, db_timer = None, db_args = None, db_runs = [], db_called = None\<rparr>"

theorem debounce_spaced_witness:
  "sorted_wrt (\<lambda>r r'. fst r + 1 \<le> fst r') (db_runs (fold (db_step 1 False) [Call 1, Call 2, Tick, Timer_fires, Call 3, Tick, Timer_fires] db_start))"
proof -
  let ?es = "[Call 1, Call 2, Tick, Timer_fires, Call 3, Tick, Timer_fires] :: nat call_event list"
  have "all_enabled db_enabled (db_step 1 False) ?es db_start"
    by (simp add: db_start_def db_step_def db_call_def db_later_def db_enabled_def Let_def)
  then have "reachable db_init db_enabled (db_step 1 False) (fold (db_step 1 False) ?es db_start)"
    by (intro debounce_machine.run_reachable) (auto simp: db_init_def db_start_def intro: reach_init)
  from debounce_spaced [OF this] show ?thesis by blast
qed

text \<open>
  \<open>once\<close> returns the first result to every call, \<open>after\<close> runs from the given call on, and \<open>memoize\<close>
  gives the results of the function when equal keys mean equal results.
\<close>

theorem memory_functions:
  "results (once_call f) (a # as) (False, None) = map (\<lambda>x. Some (f a)) (a # as) \<and>
   (i < length as \<longrightarrow> results (after_call f) as left ! i = (if int i + 1 \<ge> left then Some (f (as ! i)) else None)) \<and>
   ((\<forall>a a'. hasher a = hasher a' \<longrightarrow> f a = f a') \<longrightarrow> results (memo_call f hasher) as [] = map f as)"
proof (intro conjI impI)
  show "results (once_call f) (a # as) (False, None) = map (\<lambda>x. Some (f a)) (a # as)"
    by (simp add: once_call_def once_after_first)
  show "i < length as \<Longrightarrow> results (after_call f) as left ! i = (if int i + 1 \<ge> left then Some (f (as ! i)) else None)"
  proof (induction as arbitrary: i left)
    case (Cons b bs)
    then show ?case by (cases i) (auto simp: after_call_def Let_def)
  qed simp
  assume same: "\<forall>a a'. hasher a = hasher a' \<longrightarrow> f a = f a'"
  show "results (memo_call f hasher) as [] = map f as" by (rule memo_results [OF same]) simp
qed

theorem memory_functions_witness:
  "results (memo_call (\<lambda>n. n + 1) (\<lambda>n. replicate n CHR ''b'')) [2, 0, 2 :: nat] [] = [3, 1, 3]"
proof -
  have same: "\<forall>n n' :: nat. replicate n CHR ''b'' = replicate n' CHR ''b'' \<longrightarrow> n + 1 = n' + 1"
    by (metis length_replicate)
  have "results (memo_call (\<lambda>n. n + 1) (\<lambda>n. replicate n CHR ''b'')) [2, 0, 2 :: nat] [] = map (\<lambda>n. n + 1) [2, 0, 2]"
    using memory_functions [where f = "\<lambda>n :: nat. n + 1" and hasher = "\<lambda>n. replicate n CHR ''b''" and as = "[2, 0, 2]"] same
    by blast
  then show ?thesis by simp
qed

end
