(* ===== verification/Spec2Isabelle.thy ===== *)
theory Spec2Isabelle
  imports Panel_Volume Panel_LoadBalancer Panel_Radio Panel_Backup Panel_Image Panel_Account Panel_Network Panel_Nodes
    Resource_Dialogs Admin_Notification Admin_Pages Lib_Sprintf Tz_Display Panel_Edit
    Resource_Validate Backbone_Events Backbone_Collection Backbone_Router Backbone_Sync Panel_Register Resource_Messages Underscore_Arrays Underscore_Timing
begin

text \<open>
  Wakame-vdc: the browser side of a data centre manager.

  The repository holds two browser applications. The user site
  (\<open>src/frontend/dcmgr_gui/public/javascripts/dcmgr_gui\<close>) is one page per resource: \<open>core.js\<close> is its
  library, and each \<open>*_panel.js\<close> builds a page out of it. The admin site
  (\<open>src/frontend/admin/app/assets/javascripts/admin\<close>) is made of Backbone models, collections and
  views. Both talk to a Ruby back end by Ajax; answers arrive later and in any order.

  How the parts interact. A panel owns a pager, a list, dialogs and a refresh button. The pager
  triggers a page change, the panel's handler clears the list and asks for the rows of the page, the
  answer sets the pager's total and the list's rows. Clicks on rows change the selection, which the
  topic bus publishes to the buttons that depend on it. A button opens a dialog, whose page is loaded
  for the selected ids; its form decides by its ready functions whether the button that sends the
  request is enabled. Errors of all requests end in one handler.

  The theories, in the order of their imports, and what they model:

  \<^item> \<open>Js_Prelude\<close>: values and strings of JavaScript, percent encoding, the reader of query strings
    that requests are specified with, association lists as objects, and the interface of machines
    that react to events, with its invariant rule.
  \<^item> \<open>Js_Number\<close>: what depends on characters rather than bytes, \<open>trim\<close> and the length in UTF-16 units, and
    the conversion of a text to a number.
  \<^item> \<open>Core_Events\<close>: \<open>Filter\<close>, \<open>Event\<close>, \<open>Notification\<close> (the topic bus with its global loop
    counter) and \<open>Logger\<close> of \<open>core.js\<close>. Publishing takes fuel: the number of subscribers plus two is
    enough when no subscriber publishes, and then every subscriber runs in its order; a subscriber
    that publishes its own topic never lets the loop end.
  \<^item> \<open>Core_Request\<close>: \<open>Request\<close>, the configuration, and the \<open>ajaxError\<close> handler of
    \<open>application.js\<close>.
  \<^item> \<open>Core_Converter\<close>: \<open>Converter\<close> and \<open>date\<close>; \<open>Core_Util\<close>: the pure functions of \<open>Util\<close>.
  \<^item> \<open>Core_Pagenate\<close>: the pager with its arrows, the field for a page and the totals of answers; its invariant,
    what its arrows do in every state, and where it gets stuck.
  \<^item> \<open>Core_Selector\<close>: the two-column chooser, which refines a set with two operations.
  \<^item> \<open>Core_Form\<close>: the checks of text fields, and the interface of forms whose submit button is gated
    by a ready function.
  \<^item> \<open>Core_List\<close>: lists, the selection and the details of the selected rows.
  \<^item> \<open>Core_Vif\<close>: the editor of network monitors, its query and its validator.
  \<^item> \<open>Panel_Base\<close>: dialogs, filters of dates, the handlers that every panel with check boxes has, and
    the interface of buttons that are a function of the selection's states.
  \<^item> \<open>Panel_Volume\<close>, \<open>Panel_Instance\<close>, \<open>Panel_Backup\<close>, \<open>Panel_Image\<close>, \<open>Panel_LoadBalancer\<close>,
    \<open>Panel_Radio\<close> (ssh key pairs and security groups), \<open>Panel_Network\<close>, \<open>Panel_Account\<close> (users and
    groups) and \<open>Panel_Nodes\<close> (host and storage nodes, the dashboard, the menus of
    \<open>application.js\<close>): one panel each, with the name of its file.
  \<^item> \<open>Resource_Rules\<close>: the validation rules of \<open>resource_manage_panel.js\<close> and of the forms for users
    and groups, and the requests of the buttons; \<open>Resource_Dialogs\<close>: its dialogs that choose an
    item of an account, the dialogs while a command runs, the check sum of an image, and the drives
    and interfaces of a specification. \<open>Panel_Edit\<close>: the edit dialog of the instance panel with its
    select elements and the answers that fill them.
  \<^item> \<open>Lib_Validate\<close>: the validation plug-in \<open>jquery.validate.js\<close> (its methods, the rules of an element,
    the check of a form and the error labels it keeps); \<open>Resource_Validate\<close>: the forms of the
    resource pages on it, which shows that the plug-in decides what \<open>Resource_Rules\<close> says;
    \<open>Resource_Messages\<close>: the messages of those forms.
  \<^item> \<open>Admin_Notification\<close>: the form for notifications, with the parts of Backbone it runs on;
    \<open>Admin_App\<close>: search words, error messages, helpers, statistics and the page of text logs;
    \<open>Admin_Collection\<close>: the paged lists with their links, keys and routes; \<open>Admin_Pages\<close>: the search
    pages, the pages of an item, the dialogs of deletion, and the login as another user.
  \<^item> \<open>Tz_Calendar\<close>: the time values of JavaScript and day numbers; \<open>Tz_Zones\<close>: the reader of zone files
    of \<open>timezone-js-jquery.js\<close> and the choice of a rule; \<open>Tz_Load\<close>: the files of a region and the search
    for a zone's offset; \<open>Tz_Date\<close>: the class \<open>timezoneJS.Date\<close> of \<open>date.js\<close>; \<open>Tz_Class\<close>: what setting
    the parts of such a date does; \<open>Tz_Rules\<close>: which day a rule means; \<open>Tz_Display\<close>: the dates that
    \<open>core.js\<close> shows, on that class, which \<open>Core_Converter\<close> has as an argument.
  \<^item> \<open>Lib_Sprintf\<close>: \<open>sprintf-0.7-beta1.js\<close>, with which \<open>application.js\<close> makes its error messages.
  \<^item> \<open>backbone.js\<close>, the library that the admin site is written in: \<open>Backbone_Events\<close> has the lists of
    callbacks, with a heap of their nodes, and shows that they are a table of callbacks per event and
    that \<open>trigger\<close> ends; \<open>Backbone_Model\<close> the attributes of a model and the events of a change, where
    handlers can change the model again, so that \<open>change\<close> takes fuel; \<open>Backbone_Collection\<close> the list
    of models with its indexes; \<open>Backbone_Router\<close> the expressions made of routes and the history of
    fragments, in an address that the browser encodes; \<open>Backbone_Sync\<close> the requests of a model and their answers, in any order. These five
    stand beside the pages of the admin site, whose theories have the parts of Backbone they need
    written out on their own records.
  \<^item> \<open>underscore.js\<close>, on which Backbone stands: \<open>Lib_Underscore\<close> is its deep comparison on a heap of
    objects, exact where there are no cycles, which is stated with the trees that the values stand for; \<open>Underscore_Arrays\<close> its functions on arrays and plain
    objects. The binary search returns an option, since its middle is a number of 32 bits and the
    search could run on beyond 2^30 elements; up to there it is shown to end. \<open>Underscore_Timing\<close>:
    \<open>throttle\<close> and \<open>debounce\<close> as machines of calls and timers, whose runs are a window apart and lose
    no last call, and the other functions that remember.
  \<^item> \<open>Lib_Deferred\<close>: the deferreds of \<open>jsdeferred.jquery.js\<close> that the panels wait for answers with, in a
    heap: a chain is the sequencing of results and errors, \<open>parallel\<close> goes on once and with all
    answers, and loops end. \<open>Panel_Register\<close>: the two dialogs of \<open>load_balancer_panel.js\<close> for
    instances, on \<open>parallel\<close>, on the chooser of \<open>Core_Selector\<close> and on the requests of
    \<open>Panel_LoadBalancer\<close>, with pages and answers of closed dialogs arriving late.
  \<^item> this theory: the pager and the panels together.

  A record of a theory is the state that the functions of its file share, with a field per variable,
  property or part of the page they read or write; a definition has the name of the function it
  models where there is one. A step function with an event type runs the handlers in any order the
  page allows, and an enabling condition states what the page has to show for an event to happen.

  What the lemmas show. Requests: the server reads from each query the values that were put in, for
  the requests that escape them, and the ones that do not are shown to be cut or extended. Forms: an
  enabled submit button means a complete form, in every state in which no delayed check of a field is still to come. Buttons: they are
  a function of the selection. Lists: selection and details agree; paging asks for the rows of the
  page shown. Dialogs: a delete button deletes what is shown, once a list has arrived that is complete or an item of
  it was chosen; before that, and after a list cut off by the limit of the back end, it may not, as the findings say. Loops: the loop over the address ends,
  the topic bus delivers to everyone. The findings of the manifest are the places where the code
  does not do what it means to, each with the lemma that shows it where there is one.

  Conventions. Strings are lists of bytes in UTF-8, measured and trimmed by characters where the
  code does that; numbers that the code uses as counts are
  unbounded integers (they stay far below the precision of JavaScript), NaN, null and undefined are
  values of their own where the code can meet them. Topic names and keys are not names of the
  prototype of objects. Library code is an argument where only its result matters (translations,
  \<open>Date.parse\<close>, the clock of the browser), and is modelled where the program depends on its steps
  (\<open>set\<close> and \<open>save\<close> of Backbone, the request pager, the rules of the validation plug-in, the escaping
  of \<open>$.param\<close>, the dates of a time zone, the formats of messages). A page's
  templates and styles are not modelled, but for what the handlers read from them.

  Not modelled: jQuery, Prototype, Bootstrap and the other vendored libraries the program only calls;
  the Ruby back end, which is not JavaScript; tool tips, hover colours, animations and date pickers;
  the templates of the pages. Of Backbone: views and their delegated events, the frame for old
  browsers, the emulation of methods and types for old servers, \<open>fetch\<close> and \<open>create\<close> of collections.
  Of Underscore: the iterators of the host, \<open>bind\<close>, templates and the wrapper of
  chains, also in \<open>isEqual\<close>. Of the deferreds: \<open>repeat\<close>, \<open>connect\<close> and the ways of \<open>next\<close> for
  particular browsers. Of the validation plug-in: checks by request, the submit handler, the
  pattern of addresses, focus and containers of labels. Of the time zones: the loading schemes other
  than by region, and dates beyond the bound of time values, which the theorems on the class exclude. Left for later: the answers of several list requests
  of one pager in the admin site, and an abstract specification of a whole panel that the pager, the
  list and the buttons refine together.
\<close>

section \<open>The pager and the panels together\<close>

text \<open>
  What a page change sends. The handlers run inside \<open>updatePage\<close>, before the arrows are set, on an
  arrow or on a typed number.
\<close>

definition in_update :: "pagenate \<Rightarrow> clicked \<Rightarrow> int option \<Rightarrow> pagenate" where
  "in_update p name page = (if name = By_field then updatePage name (p\<lparr>current_page := page\<rparr>) else updatePage name p)"

definition first_row :: "pagenate \<Rightarrow> string" where
  "first_row pg = (case current_page pg of None \<Rightarrow> ''NaN'' | Some c \<Rightarrow> int_digits ((c - 1) * row pg + 1))"

lemma in_update_start: "start (in_update p name page) = map_option (\<lambda>c. (c - 1) * row p + 1) (current_page (in_update p name page))"
  by (simp add: in_update_def)

lemma panel_page_change:
  assumes "pl_pager p = in_update q name page"
  shows "\<exists>r. pl_sent (panel_updatePagenate lp sp p) = pl_sent p @ [r]
     \<and> sent_fields r = (''GET'', getPagePath lp (page_text (pl_pager p)) JUndef,
         [(''start'', Some (first_row (pl_pager p))), (''limit'', Some (int_digits (row (pl_pager p))))])
     \<and> checked_list (pl_list (panel_updatePagenate lp sp p)) = []
     \<and> details (pl_list (panel_updatePagenate lp sp p)) = []"
proof -
  have "checked_list (pl_list (panel_updatePagenate lp sp p)) = []" "details (pl_list (panel_updatePagenate lp sp p)) = []"
    by (simp_all add: panel_updatePagenate_def panel_refresh_list refresh_details_def change_page_def clearCheckedList_def)
  moreover have "row (in_update q name page) = row q" by (simp add: in_update_def)
  ultimately show ?thesis
    by (cases "current_page (in_update q name page)")
      (simp_all add: assms in_update_start panel_updatePagenate_sent sent_fields_get read_getPagenateData read_getPagenateData_NaN num_val_def first_row_def)
qed

text \<open>
  C12: paging a panel: whatever the pager went through, when an arrow is clicked or a number typed, the
  handler of the page change of the volume, backup, network, host node and storage node lists sends one
  request, which the server reads as the rows of the page that the pager shows, as many as a page has,
  and leaves no row checked and no detail open. A text that is no number asks for the page and the rows
  from \<open>NaN\<close> on.
\<close>

theorem page_change_requests_rows:
  assumes "reachable pager_init pager_enabled pager_step p" and "pg = in_update p name page"
    and "pl_pager v = pg" and "pl_pager b = pg" and "pl_pager n = pg" and "pl_pager h = pg"
  shows "row pg = row p \<and> 0 < row pg
     \<and> list_all (\<lambda>(path, sent, before, lst). \<exists>r. sent = before @ [r]
          \<and> sent_fields r = (''GET'', getPagePath path (page_text pg) JUndef,
              [(''start'', Some (case current_page pg of None \<Rightarrow> ''NaN'' | Some c \<Rightarrow> int_digits ((c - 1) * row pg + 1))),
               (''limit'', Some (int_digits (row pg)))])
          \<and> checked_list lst = [] \<and> details lst = [])
        [(''/volumes/list/'', pl_sent (volume_updatePagenate v), pl_sent v, pl_list (volume_updatePagenate v)),
         (''/backups/list/'', pl_sent (backup_updatePagenate b), pl_sent b, pl_list (backup_updatePagenate b)),
         (''/networks/list/'', pl_sent (network_updatePagenate n), pl_sent n, pl_list (network_updatePagenate n)),
         (''/host_nodes/list/'', pl_sent (host_node_updatePagenate h), pl_sent h, pl_list (host_node_updatePagenate h)),
         (''/storage_nodes/list/'', pl_sent (storage_node_updatePagenate h), pl_sent h, pl_list (storage_node_updatePagenate h))]"
proof -
  have r: "row pg = row p \<and> 0 < row pg"
    using pager.reachable_inv [OF assms(1)] assms(2) by (simp add: in_update_def pager_inv_def)
  have v: "pl_pager v = in_update p name page" "pl_pager b = in_update p name page"
    "pl_pager n = in_update p name page" "pl_pager h = in_update p name page"
    using assms by simp_all
  show ?thesis
    using r panel_page_change [OF v(1), of "''/volumes/list/''" "''/volumes/show/''"]
      panel_page_change [OF v(2), of "''/backups/list/''" "''/backups/show/''"]
      panel_page_change [OF v(3), of "''/networks/list/''" "''/networks/show/''"]
      panel_page_change [OF v(4), of "''/host_nodes/list/''" "''/host_nodes/show/''"]
      panel_page_change [OF v(4), of "''/storage_nodes/list/''" "''/storage_nodes/show/''"]
    unfolding assms(3-6) volume_updatePagenate_def backup_updatePagenate_def network_updatePagenate_def
      host_node_updatePagenate_def storage_node_updatePagenate_def list.pred_inject prod.case first_row_def by fastforce
qed

text \<open>A pager on the second of three pages, where the arrow to the right is clicked, in panels that are otherwise empty.\<close>

definition panel_demo :: panel where
  "panel_demo = (panel_init ''/networks/list/'' 10 1)\<lparr>pl_pager := in_update demo_pager By_next None\<rparr>"

lemma page_change_requests_rows_witness:
  "\<exists>r. pl_sent (network_updatePagenate panel_demo) = pl_sent panel_demo @ [r]
     \<and> snd (snd (sent_fields r)) = [(''start'', Some ''21''), (''limit'', Some ''10'')]"
proof -
  have p: "pl_pager panel_demo = in_update demo_pager By_next None" by (simp add: panel_demo_def)
  have c: "current_page (in_update demo_pager By_next None) = Some 3" "row (in_update demo_pager By_next None) = 10" by code_simp+
  have i: "int_digits 21 = ''21''" "int_digits 10 = ''10''" by code_simp+
  show ?thesis
    using page_change_requests_rows [OF demo_pager_reachable, of "in_update demo_pager By_next None" By_next None
        "volume_init\<lparr>pl_pager := in_update demo_pager By_next None\<rparr>"
        "backup_init\<lparr>pl_pager := in_update demo_pager By_next None\<rparr>" panel_demo panel_demo] p c i by auto
qed

end
